(* ===== verification/Kernel_Prelude.thy ===== *)
theory Kernel_Prelude
  imports
    Complex_Main
    "HOL-Library.Char_ord"
    "HOL-Library.List_Lexorder"
    "HOL-Library.Product_Lexorder"
    "HOL-Library.Option_ord"
begin

text \<open>
  The vocabulary every component of the development shares:
  \<^item> the exceptions the kernel raises (\<open>kernel_error\<close>) and the result type \<open>'a res\<close> of
    fallible code, with its sequencing \<open>bindE\<close>, its loops \<open>forE\<close> and \<open>mapE\<close> and its
    \<open>try ... except\<close> form \<open>catchE\<close>;
  \<^item> the Python string operations the sources use (\<open>strip\<close>, \<open>str(int)\<close>) over strings whose
    characters are the code points below 256;
  \<^item> the canonical-order test \<open>xs == tuple(sorted(set(xs)))\<close> and the ordered-map update
    the sources write with dictionaries;
  \<^item> the length-prefixed field encoding behind every projected identity.
\<close>

section \<open>Results of fallible code\<close>

datatype kernel_error =
    ValueError string
  | TypeError string
  | KeyError string
  | IndexError
  | GraphStateTransitionError string
  | ResourceTransitionError string
  | FailoverContractError string
  | ConfigContractError string
  | ExecutionLimitError string
  | SnapshotMismatchError string
  | InvalidExecutionSnapshotError string
  | InvalidRoutingCommandError string
  | UnknownRouteError string
  | JoinProgressError string
  | RoutingDeadlockError string
  | ResultCollectionError string
  | GraphValidationError string
  | GraphValuePublicationError string
  | GraphValueAdmissionError string
  | NodeExecutionContractError string
  | AgentSessionContractError string
  | GraphValueUnavailableError string
  | FrameInstallationInvariantError string
  | InvalidGraphIdentityError string
  | DuplicateNodeError string
  | DuplicateBoundaryError string
  | DuplicateEdgeError string
  | DuplicateGraphDefinitionError string
  | RecursiveGraphDefinitionError string
  | UnknownNodeError string
  | MissingEntryError string
  | UnreachableNodeError string
  | InvalidJoinError string
  | InvalidResourceDefinitionError string

type_synonym 'a res = "kernel_error + 'a"

definition bindE :: "'a res \<Rightarrow> ('a \<Rightarrow> 'b res) \<Rightarrow> 'b res" where
  "bindE m f = (case m of Inl e \<Rightarrow> Inl e | Inr x \<Rightarrow> f x)"

definition catchE :: "'a res \<Rightarrow> (kernel_error \<Rightarrow> 'a res) \<Rightarrow> 'a res" where
  "catchE m h = (case m of Inl e \<Rightarrow> h e | Inr x \<Rightarrow> Inr x)"

definition raise_unless :: "bool \<Rightarrow> kernel_error \<Rightarrow> unit res" where
  "raise_unless b e = (if b then Inr () else Inl e)"

definition raise_if :: "bool \<Rightarrow> kernel_error \<Rightarrow> unit res" where
  "raise_if b e = (if b then Inl e else Inr ())"

primrec forE :: "('a \<Rightarrow> unit res) \<Rightarrow> 'a list \<Rightarrow> unit res" where
  "forE f [] = Inr ()"
| "forE f (x # xs) = bindE (f x) (\<lambda>_. forE f xs)"

primrec mapE :: "('a \<Rightarrow> 'b res) \<Rightarrow> 'a list \<Rightarrow> 'b list res" where
  "mapE f [] = Inr []"
| "mapE f (x # xs) = bindE (f x) (\<lambda>y. bindE (mapE f xs) (\<lambda>ys. Inr (y # ys)))"

primrec foldE :: "('s \<Rightarrow> 'a \<Rightarrow> 's res) \<Rightarrow> 's \<Rightarrow> 'a list \<Rightarrow> 's res" where
  "foldE f s [] = Inr s"
| "foldE f s (x # xs) = bindE (f s x) (\<lambda>s'. foldE f s' xs)"

named_theorems resE \<open>facts that invert or compute results of fallible code\<close>

lemma bindE_simps [simp]:
  "bindE (Inl e) f = Inl e"
  "bindE (Inr x) f = f x"
  by (simp_all add: bindE_def)

lemma bindE_eq_Inr [resE]: "bindE m f = Inr y \<longleftrightarrow> (\<exists>x. m = Inr x \<and> f x = Inr y)"
  by (cases m) auto

lemma bindE_eq_Inl [resE]:
  "bindE m f = Inl e \<longleftrightarrow> m = Inl e \<or> (\<exists>x. m = Inr x \<and> f x = Inl e)"
  by (cases m) auto

lemma bindE_cong [fundef_cong]:
  "m = m' \<Longrightarrow> (\<And>x. m' = Inr x \<Longrightarrow> f x = f' x) \<Longrightarrow> bindE m f = bindE m' f'"
  by (cases m') auto

lemma catchE_simps [simp]:
  "catchE (Inl e) h = h e"
  "catchE (Inr x) h = Inr x"
  by (simp_all add: catchE_def)

lemma catchE_eq_Inr [resE]:
  "catchE m h = Inr y \<longleftrightarrow> m = Inr y \<or> (\<exists>e. m = Inl e \<and> h e = Inr y)"
  by (cases m) auto

lemma catchE_raising: "(\<And>e. \<exists>e'. h e = Inl e') \<Longrightarrow> catchE m h = Inr y \<longleftrightarrow> m = Inr y"
  by (cases m) (auto, metis sum.distinct(1))

lemma raise_unless_eq [resE]:
  "raise_unless b e = Inr u \<longleftrightarrow> b"
  "raise_unless b e = Inl e' \<longleftrightarrow> \<not> b \<and> e' = e"
  by (auto simp: raise_unless_def)

lemma raise_if_eq [resE]:
  "raise_if b e = Inr u \<longleftrightarrow> \<not> b"
  "raise_if b e = Inl e' \<longleftrightarrow> b \<and> e' = e"
  by (auto simp: raise_if_def)

lemma raise_simps [simp]:
  "raise_unless True e = Inr ()"
  "raise_unless False e = Inl e"
  "raise_if True e = Inl e"
  "raise_if False e = Inr ()"
  by (simp_all add: raise_unless_def raise_if_def)

lemma if_Inl_eq_Inr [resE]: "(if b then Inl e else m) = Inr y \<longleftrightarrow> \<not> b \<and> m = Inr y"
  by auto

lemma forE_eq_Inr [resE]: "forE f xs = Inr u \<longleftrightarrow> (\<forall>x\<in>set xs. f x = Inr ())"
  by (induction xs) (auto simp: bindE_eq_Inr)

lemma mapE_eq_Inr [resE]:
  "mapE f xs = Inr ys \<longleftrightarrow> list_all2 (\<lambda>x y. f x = Inr y) xs ys"
  by (induction xs arbitrary: ys) (auto simp: bindE_eq_Inr list_all2_Cons1)

lemma mapE_Inr_map: "(\<And>x. x \<in> set xs \<Longrightarrow> f x = Inr (g x)) \<Longrightarrow> mapE f xs = Inr (map g xs)"
  by (induction xs) auto

lemma foldE_append: "foldE f s (xs @ ys) = bindE (foldE f s xs) (\<lambda>t. foldE f t ys)"
  by (induction xs arbitrary: s) (auto simp: bindE_def split: sum.splits)

lemma foldE_invariant:
  assumes "foldE f s xs = Inr t" and "P s"
    and "\<And>u x v. P u \<Longrightarrow> x \<in> set xs \<Longrightarrow> f u x = Inr v \<Longrightarrow> P v"
  shows "P t"
  using assms
proof (induction xs arbitrary: s)
  case Nil
  then show ?case by simp
next
  case (Cons x xs)
  from Cons.prems(1) obtain s' where s': "f s x = Inr s'" "foldE f s' xs = Inr t"
    by (auto simp: bindE_eq_Inr)
  have "P s'" using Cons.prems(2,3) s'(1) by auto
  with s'(2) Cons.prems(3) show ?case by (intro Cons.IH) auto
qed

definition isOK :: "'a res \<Rightarrow> bool" where
  "isOK m \<longleftrightarrow> (case m of Inl _ \<Rightarrow> False | Inr _ \<Rightarrow> True)"

lemma isOK_simps [simp]: "isOK (Inr x)" "\<not> isOK (Inl e)"
  by (simp_all add: isOK_def)

lemma isOK_iff: "isOK m \<longleftrightarrow> (\<exists>x. m = Inr x)"
  by (cases m) auto

lemma isOK_unit: "isOK m \<longleftrightarrow> m = Inr ()"
  by (cases m) auto

section \<open>Strings and canonical identities\<close>

text \<open>
  A Python string whose code points are below 256 is a \<open>string\<close>; \<open>py_isspace\<close> is
  \<open>str.isspace\<close> on such a code point, the set \<open>str.strip\<close> removes.
\<close>

definition py_isspace :: "char \<Rightarrow> bool" where
  "py_isspace c \<longleftrightarrow> (let n = (of_char c :: nat) in
     (9 \<le> n \<and> n \<le> 13) \<or> (28 \<le> n \<and> n \<le> 32) \<or> n = 133 \<or> n = 160)"

definition py_strip :: "string \<Rightarrow> string" where
  "py_strip s = rev (dropWhile py_isspace (rev (dropWhile py_isspace s)))"

lemma dropWhile_eq_self_iff_hd: "dropWhile P xs = xs \<longleftrightarrow> xs = [] \<or> \<not> P (hd xs)"
proof (cases xs)
  case (Cons y ys)
  have "dropWhile P ys \<noteq> y # ys" using length_dropWhile_le [of P ys] by (metis Suc_n_not_le_n length_Cons)
  with Cons show ?thesis by auto
qed simp

lemma length_py_strip_le: "length (py_strip s) \<le> length s"
proof -
  have "length (py_strip s) \<le> length (dropWhile py_isspace s)"
    using length_dropWhile_le [of py_isspace "rev (dropWhile py_isspace s)"] by (simp add: py_strip_def)
  then show ?thesis using length_dropWhile_le [of py_isspace s] by linarith
qed

lemma py_strip_fixed_iff:
  "py_strip s = s \<longleftrightarrow> s = [] \<or> \<not> py_isspace (hd s) \<and> \<not> py_isspace (last s)"
proof (cases "s = [] \<or> \<not> py_isspace (hd s)")
  case True
  then have d: "dropWhile py_isspace s = s" by (simp add: dropWhile_eq_self_iff_hd)
  have "rev (dropWhile py_isspace (rev s)) = s \<longleftrightarrow> dropWhile py_isspace (rev s) = rev s"
    by (metis rev_rev_ident)
  then show ?thesis using True by (auto simp: py_strip_def d dropWhile_eq_self_iff_hd hd_rev)
next
  case False
  then obtain c cs where s: "s = c # cs" "py_isspace c" by (cases s) auto
  have "length (py_strip s) \<le> length (dropWhile py_isspace s)"
    using length_dropWhile_le [of py_isspace "rev (dropWhile py_isspace s)"] by (simp add: py_strip_def)
  also have "\<dots> < length s" using s by (simp add: le_imp_less_Suc length_dropWhile_le)
  finally have "py_strip s \<noteq> s" by auto
  with False show ?thesis by auto
qed

section \<open>Canonical collections\<close>

definition sorted_set :: "'a::linorder list \<Rightarrow> 'a list" where
  "sorted_set xs = sort (remdups xs)"

definition canonical_tuple :: "'a::linorder list \<Rightarrow> bool" where
  "canonical_tuple xs \<longleftrightarrow> xs = sorted_set xs"

lemma canonical_tuple_iff: "canonical_tuple xs \<longleftrightarrow> sorted xs \<and> distinct xs"
proof
  assume "canonical_tuple xs"
  then have "xs = sort (remdups xs)" by (simp add: canonical_tuple_def sorted_set_def)
  then show "sorted xs \<and> distinct xs" by (metis distinct_remdups distinct_sort sorted_sort)
next
  assume "sorted xs \<and> distinct xs"
  then show "canonical_tuple xs"
    by (simp add: canonical_tuple_def sorted_set_def distinct_remdups_id sort_key_id_if_sorted sorted_map)
qed

lemma canonical_tuple_strict: "canonical_tuple xs \<longleftrightarrow> sorted_wrt (<) xs"
  by (simp add: canonical_tuple_iff strict_sorted_iff)

lemma canonical_tuple_unique:
  "canonical_tuple xs \<Longrightarrow> canonical_tuple ys \<Longrightarrow> set xs = set ys \<Longrightarrow> xs = ys"
  by (metis canonical_tuple_iff sorted_distinct_set_unique)

lemma set_sorted_set [simp]: "set (sorted_set xs) = set xs"
  by (simp add: sorted_set_def)

lemma canonical_sorted_set [simp]: "canonical_tuple (sorted_set xs)"
  by (simp add: canonical_tuple_iff sorted_set_def)

definition sorted_set_key :: "('a \<Rightarrow> 'k::linorder) \<Rightarrow> 'a list \<Rightarrow> 'a list" where
  "sorted_set_key k xs = sort_key k (remdups xs)"

definition canonical_by :: "('a \<Rightarrow> 'k::linorder) \<Rightarrow> 'a list \<Rightarrow> bool" where
  "canonical_by k xs \<longleftrightarrow> xs = sorted_set_key k xs"

lemma canonical_by_iff: "canonical_by k xs \<longleftrightarrow> sorted (map k xs) \<and> distinct xs"
proof
  assume "canonical_by k xs"
  then have eq: "xs = sort_key k (remdups xs)" by (simp add: canonical_by_def sorted_set_key_def)
  have "distinct (sort_key k (remdups xs))" by simp
  moreover have "sorted (map k (sort_key k (remdups xs)))" by simp
  ultimately show "sorted (map k xs) \<and> distinct xs" using eq by metis
next
  assume "sorted (map k xs) \<and> distinct xs"
  then show "canonical_by k xs"
    by (simp add: canonical_by_def sorted_set_key_def distinct_remdups_id sort_key_id_if_sorted)
qed

section \<open>Decimal numerals and length-prefixed fields\<close>

definition digit_char :: "nat \<Rightarrow> char" where
  "digit_char d = char_of (48 + d)"

fun nat_digits :: "nat \<Rightarrow> string" where
  "nat_digits n = (if n < 10 then [digit_char n] else nat_digits (n div 10) @ [digit_char (n mod 10)])"

declare nat_digits.simps [simp del]

definition py_str_int :: "int \<Rightarrow> string" where
  "py_str_int i = (if i < 0 then CHR ''-'' # nat_digits (nat (- i)) else nat_digits (nat i))"

definition digits_value :: "string \<Rightarrow> nat" where
  "digits_value s = foldl (\<lambda>a c. 10 * a + (of_char c - 48)) 0 s"

lemma of_char_digit: "d < 10 \<Longrightarrow> (of_char (digit_char d) :: nat) = 48 + d"
  by (simp add: digit_char_def)

lemma nat_digits_value: "digits_value (nat_digits n) = n"
proof (induction n rule: nat_digits.induct)
  case (1 n)
  show ?case
  proof (cases "n < 10")
    case True
    then show ?thesis by (simp add: nat_digits.simps [of n] digits_value_def of_char_digit)
  next
    case False
    with "1.IH" have "digits_value (nat_digits (n div 10)) = n div 10" by simp
    then show ?thesis
      using False by (simp add: nat_digits.simps [of n] digits_value_def of_char_digit)
  qed
qed

lemma nat_digits_inj: "nat_digits m = nat_digits n \<Longrightarrow> m = n"
  by (metis nat_digits_value)

lemma nat_digits_chars: "c \<in> set (nat_digits n) \<Longrightarrow> \<exists>d<10. c = digit_char d"
proof (induction n rule: nat_digits.induct)
  case (1 n)
  have "\<exists>d<10. digit_char (n mod 10) = digit_char d" by (rule exI [of _ "n mod 10"]) simp
  with 1 show ?case
    by (cases "n < 10") (auto simp: nat_digits.simps [of n])
qed

lemma nat_digits_nonempty [simp]: "nat_digits n \<noteq> []"
  by (subst nat_digits.simps) simp

lemma digit_char_neq: "d < 10 \<Longrightarrow> digit_char d \<noteq> CHR '':''" "d < 10 \<Longrightarrow> digit_char d \<noteq> CHR ''-''"
  by (auto dest: arg_cong [where f = "of_char :: char \<Rightarrow> nat"] simp: of_char_digit)

lemma nat_digits_no_sep: "CHR '':'' \<notin> set (nat_digits n)" "CHR ''-'' \<notin> set (nat_digits n)"
  using nat_digits_chars digit_char_neq by metis+

lemma nat_digits_hd: "hd (nat_digits n) \<noteq> CHR ''-''"
  by (metis hd_in_set nat_digits_no_sep(2) nat_digits_nonempty)

lemma py_str_int_inj: "py_str_int i = py_str_int j \<Longrightarrow> i = j"
  using nat_digits_hd [of "nat i"] nat_digits_hd [of "nat j"]
  by (auto simp: py_str_int_def split: if_splits dest!: nat_digits_inj)
     (metis list.sel(1))+

definition sized_field :: "string \<Rightarrow> string" where
  "sized_field v = nat_digits (length v) @ CHR '':'' # v"

lemma split_at_first:
  assumes "as @ c # xs = bs @ c # ys" and "c \<notin> set as" and "c \<notin> set bs"
  shows "as = bs \<and> xs = ys"
  using assms
proof (induction as arbitrary: bs)
  case Nil
  then show ?case by (cases bs) auto
next
  case (Cons a as)
  then show ?case by (cases bs) auto
qed

lemma sized_field_prefix_free:
  assumes "sized_field a @ xs = sized_field b @ ys"
  shows "a = b \<and> xs = ys"
proof -
  from assms have "nat_digits (length a) @ CHR '':'' # (a @ xs) = nat_digits (length b) @ CHR '':'' # (b @ ys)"
    by (simp add: sized_field_def)
  from split_at_first [OF this nat_digits_no_sep(1) nat_digits_no_sep(1)]
  have "length a = length b" and "a @ xs = b @ ys" by (auto dest: nat_digits_inj)
  then show ?thesis by simp
qed

lemma sized_fields_inj:
  "concat (map sized_field xs) = concat (map sized_field ys) \<Longrightarrow> xs = ys"
proof (induction xs arbitrary: ys)
  case Nil
  then show ?case by (cases ys) (auto simp: sized_field_def)
next
  case (Cons x xs)
  then obtain y ys' where ys: "ys = y # ys'" by (cases ys) (auto simp: sized_field_def)
  with Cons.prems have "sized_field x @ concat (map sized_field xs) = sized_field y @ concat (map sized_field ys')"
    by simp
  then have "x = y" and "concat (map sized_field xs) = concat (map sized_field ys')"
    by (auto dest: sized_field_prefix_free)
  with ys Cons.IH show ?case by simp
qed

lemma length_sized_field: "length v < length (sized_field v)"
  by (simp add: sized_field_def)

end
