(* ===== verification/Graph_Identity.thy ===== *)
theory Graph_Identity
  imports Kernel_Prelude
begin

text \<open>
  \<open>mote_kernel/state/graph_state/identity.py\<close>: the scalar identities and activation
  coordinates of graph state, and the projections of a coordinate into a stable id.
  A frozen dataclass with a checking \<open>__post_init__\<close> is a one-constructor datatype (the
  value, however it was made) and a checked constructor \<open>mk_\<dots>\<close> (what calling the class does);
  \<open>order=True\<close> is a \<open>linorder\<close> instance comparing the fields in order.

  The lemmas show that a checked constructor succeeds exactly on the canonical values, that
  the projected ids identify their coordinate (two coordinates never share an id), and that
  a child run never has its parent's run id.
\<close>

section \<open>Canonical identities\<close>

definition is_canonical_identity :: "string \<Rightarrow> bool" where
  "is_canonical_identity v \<longleftrightarrow>
     v \<noteq> [] \<and> v = py_strip v \<and> CHR 0x0A \<notin> set v \<and> CHR 0x0D \<notin> set v"

lemma is_canonical_identity_iff:
  "is_canonical_identity v \<longleftrightarrow>
     v \<noteq> [] \<and> \<not> py_isspace (hd v) \<and> \<not> py_isspace (last v) \<and> CHR 0x0A \<notin> set v \<and> CHR 0x0D \<notin> set v"
  using py_strip_fixed_iff [of v] by (auto simp: is_canonical_identity_def)

section \<open>Activation coordinates\<close>

datatype graph_activation_identity =
  GraphActivationIdentity (act_run_id: string) (act_superstep: int) (act_node_id: string)

definition mk_GraphActivationIdentity :: "string \<Rightarrow> int \<Rightarrow> string \<Rightarrow> graph_activation_identity res" where
  "mk_GraphActivationIdentity r k n =
     (if \<not> is_canonical_identity r then Inl (ValueError ''graph activation run_id must be canonical'')
      else if k < 0 then Inl (ValueError ''graph activation superstep must be a non-negative integer'')
      else if \<not> is_canonical_identity n then Inl (ValueError ''graph activation node_id must be canonical'')
      else Inr (GraphActivationIdentity r k n))"

datatype activation_reference =
  ActivationReference (ref_activation: graph_activation_identity) (ref_route: "string option")

definition mk_ActivationReference ::
  "graph_activation_identity \<Rightarrow> string option \<Rightarrow> activation_reference res" where
  "mk_ActivationReference a r =
     (case r of
        Some v \<Rightarrow> if \<not> is_canonical_identity v then Inl (ValueError ''activation reference route must be canonical'')
                  else Inr (ActivationReference a r)
      | None \<Rightarrow> Inr (ActivationReference a r))"

type_synonym reference_key = "string \<times> int \<times> string \<times> bool \<times> string"

definition canonical_key :: "activation_reference \<Rightarrow> reference_key" where
  "canonical_key r =
     (act_run_id (ref_activation r), act_superstep (ref_activation r), act_node_id (ref_activation r),
      ref_route r \<noteq> None, (case ref_route r of None \<Rightarrow> '''' | Some v \<Rightarrow> v))"

datatype graph_join_identity =
  GraphJoinIdentity (join_sources: "string list") (join_target: string)

definition mk_GraphJoinIdentity :: "string list \<Rightarrow> string \<Rightarrow> graph_join_identity res" where
  "mk_GraphJoinIdentity ss t =
     (if length ss < 2 \<or> (\<exists>s\<in>set ss. \<not> is_canonical_identity s) \<or> ss \<noteq> sorted_set ss
      then Inl (ValueError ''graph Join sources must be distinct and canonical'')
      else if \<not> is_canonical_identity t \<or> t \<in> set ss
      then Inl (ValueError ''graph Join target must be canonical and distinct from its sources'')
      else Inr (GraphJoinIdentity ss t))"

datatype graph_join_occurrence =
  GraphJoinOccurrenceIdentity (occ_join: graph_join_identity) (occ_run_id: string) (occ_target_superstep: int)

definition mk_GraphJoinOccurrenceIdentity ::
  "graph_join_identity \<Rightarrow> string \<Rightarrow> int \<Rightarrow> graph_join_occurrence res" where
  "mk_GraphJoinOccurrenceIdentity j r k =
     (if \<not> is_canonical_identity r then Inl (ValueError ''graph Join occurrence run_id must be canonical'')
      else if k < 1 then Inl (ValueError ''graph Join target superstep must be a positive integer'')
      else Inr (GraphJoinOccurrenceIdentity j r k))"

section \<open>Projected identities\<close>

definition graph_interrupt_id :: "string \<Rightarrow> int \<Rightarrow> string \<Rightarrow> int \<Rightarrow> string" where
  "graph_interrupt_id run_id superstep node_id execution_generation =
     concat (map sized_field
       [''mote.graph-node-interrupt.v1'', run_id, py_str_int superstep, node_id,
        py_str_int execution_generation])"

definition child_graph_run_id :: "string \<Rightarrow> int \<Rightarrow> string \<Rightarrow> string" where
  "child_graph_run_id parent_run_id parent_superstep parent_node_id =
     concat (map sized_field
       [''mote.child-graph-run.v1'', parent_run_id, py_str_int parent_superstep, parent_node_id])"

section \<open>Field-wise orders\<close>

fun activation_fields :: "graph_activation_identity \<Rightarrow> string \<times> int \<times> string" where
  "activation_fields (GraphActivationIdentity r k n) = (r, k, n)"

fun join_fields :: "graph_join_identity \<Rightarrow> string list \<times> string" where
  "join_fields (GraphJoinIdentity ss t) = (ss, t)"

lemma activation_fields_inj: "activation_fields a = activation_fields b \<longleftrightarrow> a = b"
  by (cases a; cases b) auto

lemma join_fields_inj: "join_fields a = join_fields b \<longleftrightarrow> a = b"
  by (cases a; cases b) auto

instantiation graph_activation_identity :: linorder
begin
definition less_eq_graph_activation_identity :: "graph_activation_identity \<Rightarrow> graph_activation_identity \<Rightarrow> bool" where
  "a \<le> b \<longleftrightarrow> activation_fields a \<le> activation_fields b"
definition less_graph_activation_identity :: "graph_activation_identity \<Rightarrow> graph_activation_identity \<Rightarrow> bool" where
  "a < b \<longleftrightarrow> activation_fields a < activation_fields b"
instance
  by standard (auto simp: less_eq_graph_activation_identity_def less_graph_activation_identity_def
      less_le_not_le activation_fields_inj dest: order.antisym)
end

instantiation graph_join_identity :: linorder
begin
definition less_eq_graph_join_identity :: "graph_join_identity \<Rightarrow> graph_join_identity \<Rightarrow> bool" where
  "a \<le> b \<longleftrightarrow> join_fields a \<le> join_fields b"
definition less_graph_join_identity :: "graph_join_identity \<Rightarrow> graph_join_identity \<Rightarrow> bool" where
  "a < b \<longleftrightarrow> join_fields a < join_fields b"
instance
  by standard (auto simp: less_eq_graph_join_identity_def less_graph_join_identity_def
      less_le_not_le join_fields_inj dest: order.antisym)
end

fun occurrence_fields :: "graph_join_occurrence \<Rightarrow> graph_join_identity \<times> string \<times> int" where
  "occurrence_fields (GraphJoinOccurrenceIdentity j r k) = (j, r, k)"

lemma occurrence_fields_inj: "occurrence_fields a = occurrence_fields b \<longleftrightarrow> a = b"
  by (cases a; cases b) auto

instantiation graph_join_occurrence :: linorder
begin
definition less_eq_graph_join_occurrence :: "graph_join_occurrence \<Rightarrow> graph_join_occurrence \<Rightarrow> bool" where
  "a \<le> b \<longleftrightarrow> occurrence_fields a \<le> occurrence_fields b"
definition less_graph_join_occurrence :: "graph_join_occurrence \<Rightarrow> graph_join_occurrence \<Rightarrow> bool" where
  "a < b \<longleftrightarrow> occurrence_fields a < occurrence_fields b"
instance
  by standard (auto simp: less_eq_graph_join_occurrence_def less_graph_join_occurrence_def
      less_le_not_le occurrence_fields_inj dest: order.antisym)
end

lemma canonical_key_inj: "canonical_key a = canonical_key b \<longleftrightarrow> a = b"
  by (cases a; cases b; cases "ref_activation a"; cases "ref_activation b")
     (auto simp: canonical_key_def split: option.splits)

section \<open>What the checked constructors accept\<close>

lemma mk_GraphActivationIdentity_ok [resE]:
  "mk_GraphActivationIdentity r k n = Inr a \<longleftrightarrow>
     is_canonical_identity r \<and> 0 \<le> k \<and> is_canonical_identity n \<and> a = GraphActivationIdentity r k n"
  by (auto simp: mk_GraphActivationIdentity_def)

lemma mk_ActivationReference_ok [resE]:
  "mk_ActivationReference a r = Inr x \<longleftrightarrow>
     (\<forall>v. r = Some v \<longrightarrow> is_canonical_identity v) \<and> x = ActivationReference a r"
  by (auto simp: mk_ActivationReference_def split: option.splits)

lemma mk_GraphJoinIdentity_ok [resE]:
  "mk_GraphJoinIdentity ss t = Inr j \<longleftrightarrow>
     2 \<le> length ss \<and> (\<forall>s\<in>set ss. is_canonical_identity s) \<and> canonical_tuple ss \<and>
     is_canonical_identity t \<and> t \<notin> set ss \<and> j = GraphJoinIdentity ss t"
  by (auto simp: mk_GraphJoinIdentity_def canonical_tuple_def)

lemma mk_GraphJoinOccurrenceIdentity_ok [resE]:
  "mk_GraphJoinOccurrenceIdentity j r k = Inr x \<longleftrightarrow>
     is_canonical_identity r \<and> 1 \<le> k \<and> x = GraphJoinOccurrenceIdentity j r k"
  by (auto simp: mk_GraphJoinOccurrenceIdentity_def)

section \<open>Projected identities identify their coordinate\<close>

lemma graph_interrupt_id_eq_iff:
  "graph_interrupt_id r k n g = graph_interrupt_id r' k' n' g' \<longleftrightarrow> r = r' \<and> k = k' \<and> n = n' \<and> g = g'"
  by (auto simp: graph_interrupt_id_def simp del: concat.simps list.map
      dest!: sized_fields_inj dest: py_str_int_inj)

lemma child_graph_run_id_eq_iff:
  "child_graph_run_id r k n = child_graph_run_id r' k' n' \<longleftrightarrow> r = r' \<and> k = k' \<and> n = n'"
  by (auto simp: child_graph_run_id_def simp del: concat.simps list.map
      dest!: sized_fields_inj dest: py_str_int_inj)

lemma child_graph_run_id_longer: "length r < length (child_graph_run_id r k n)"
proof -
  have "length r < length (sized_field r)" by (rule length_sized_field)
  then show ?thesis by (simp add: child_graph_run_id_def)
qed

lemma child_graph_run_id_neq_interrupt_id: "child_graph_run_id r k n \<noteq> graph_interrupt_id r' k' n' g'"
  by (auto simp: child_graph_run_id_def graph_interrupt_id_def simp del: concat.simps list.map
      dest!: sized_fields_inj)

end
