(* ===== verification/Resource_Reducer.thy ===== *)
theory Resource_Reducer
  imports Graph_Identity
begin

text \<open>
  \<open>resource_model.py\<close>, \<open>resource_command.py\<close> and \<open>resource_reducer.py\<close> of
  \<open>mote_kernel/state/graph_state\<close>: ordered exclusive-resource acquisition. A snapshot holds
  one lock per resource (owner and FIFO waiters) and one acquisition per participant;
  \<open>reduce_resources\<close> applies an acquire or a release between two validations, and a
  validation replays the acquisition history from the empty table.

  The definitions follow the source function by function. The specification they are
  compared with is \<open>greedy\<close>: participants served in order, each taking the longest
  still-free prefix of what it requires. The main lemma is that replaying a well-formed
  history computes exactly the snapshot the greedy assignment describes; validity, mutual
  exclusion, FIFO queues, deadlock freedom and the totality of acquisition follow from it.
\<close>

section \<open>Snapshots and commands\<close>

record resource_lock =
  lock_resource_id :: string
  lock_owner :: "string option"
  lock_waiters :: "string list"

record resource_acquisition =
  acq_node_id :: string
  acq_required :: "string list"
  acq_acquired :: "string list"
  acq_waiting_for :: "string option"

definition admitted :: "resource_acquisition \<Rightarrow> bool" where
  "admitted a \<longleftrightarrow> acq_acquired a = acq_required a \<and> acq_waiting_for a = None"

record resource_snapshot =
  snap_resources :: "resource_lock list"
  snap_acquisitions :: "resource_acquisition list"

datatype resource_command =
    AcquireResources string "string list"
  | ReleaseResources string

section \<open>Validation of one snapshot\<close>

definition require_resource_identity :: "string \<Rightarrow> string \<Rightarrow> unit res" where
  "require_resource_identity v kind =
     raise_unless (is_canonical_identity v)
       (ResourceTransitionError (kind @ '' identity must be non-empty and trimmed''))"

text \<open>The dictionary \<open>{resource_id: position}\<close>; a later entry overwrites an earlier one.\<close>

definition positions :: "string list \<Rightarrow> string \<Rightarrow> nat option" where
  "positions ids = map_of (rev (zip ids [0..<length ids]))"

definition position_key :: "string list \<Rightarrow> string \<Rightarrow> nat" where
  "position_key ids r = (case positions ids r of Some p \<Rightarrow> p | None \<Rightarrow> 0)"

definition resource_ids :: "resource_snapshot \<Rightarrow> string list" where
  "resource_ids s = map lock_resource_id (snap_resources s)"

definition validate_lock :: "resource_lock \<Rightarrow> unit res" where
  "validate_lock l =
     bindE (require_resource_identity (lock_resource_id l) ''resource'') (\<lambda>_.
     bindE (raise_unless (distinct (lock_waiters l))
       (ResourceTransitionError ''resource waiters must be unique'')) (\<lambda>_.
     bindE (case lock_owner l of
              None \<Rightarrow> Inr ()
            | Some n \<Rightarrow>
                bindE (require_resource_identity n ''node'') (\<lambda>_.
                raise_if (n \<in> set (lock_waiters l))
                  (ResourceTransitionError ''resource owner cannot also be waiting''))) (\<lambda>_.
     forE (\<lambda>w. require_resource_identity w ''node'') (lock_waiters l))))"

definition expected_waiting :: "resource_acquisition \<Rightarrow> string option" where
  "expected_waiting a =
     (if length (acq_acquired a) < length (acq_required a)
      then Some (acq_required a ! length (acq_acquired a)) else None)"

definition lock_at :: "resource_snapshot \<Rightarrow> string \<Rightarrow> resource_lock res" where
  "lock_at s r =
     (case positions (resource_ids s) r of
        None \<Rightarrow> Inl (KeyError r)
      | Some p \<Rightarrow> Inr (snap_resources s ! p))"

definition validate_acquisition :: "resource_snapshot \<Rightarrow> resource_acquisition \<Rightarrow> unit res" where
  "validate_acquisition s a =
     bindE (require_resource_identity (acq_node_id a) ''node'') (\<lambda>_.
     bindE (raise_if (acq_required a = [])
       (ResourceTransitionError ''an acquisition requires at least one resource'')) (\<lambda>_.
     bindE (raise_unless (distinct (acq_required a))
       (ResourceTransitionError ''an acquisition repeats a resource'')) (\<lambda>_.
     bindE (raise_unless (set (acq_required a) \<subseteq> set (resource_ids s))
       (ResourceTransitionError ''an acquisition references an unknown resource'')) (\<lambda>_.
     bindE (raise_unless (sort_key (position_key (resource_ids s)) (acq_required a) = acq_required a)
       (ResourceTransitionError ''resources must be acquired in snapshot order'')) (\<lambda>_.
     bindE (raise_unless (acq_acquired a = take (length (acq_acquired a)) (acq_required a))
       (ResourceTransitionError ''acquired resources must be a required-resource prefix'')) (\<lambda>_.
     bindE (raise_unless (acq_waiting_for a = expected_waiting a)
       (ResourceTransitionError ''an acquisition can only wait for its next resource'')) (\<lambda>_.
     bindE (forE (\<lambda>r. bindE (lock_at s r) (\<lambda>l.
              raise_unless (lock_owner l = Some (acq_node_id a))
                (ResourceTransitionError ''acquired resource ownership does not match its acquisition'')))
              (acq_acquired a)) (\<lambda>_.
     (case acq_waiting_for a of
        None \<Rightarrow> Inr ()
      | Some r \<Rightarrow> bindE (lock_at s r) (\<lambda>l.
          raise_unless (acq_node_id a \<in> set (lock_waiters l))
            (ResourceTransitionError ''waiting acquisition is absent from the resource queue'')))))))))))"

definition acquisition_of :: "resource_acquisition list \<Rightarrow> string \<Rightarrow> resource_acquisition option" where
  "acquisition_of as = map_of (rev (map (\<lambda>a. (acq_node_id a, a)) as))"

definition validate_participants :: "resource_snapshot \<Rightarrow> resource_lock \<Rightarrow> unit res" where
  "validate_participants s l =
     (let participants = set (map acq_node_id (snap_acquisitions s)) in
      bindE (case lock_owner l of
               None \<Rightarrow> Inr ()
             | Some n \<Rightarrow> raise_unless (n \<in> participants)
                 (ResourceTransitionError ''resource owner has no acquisition'')) (\<lambda>_.
      bindE (raise_unless (set (lock_waiters l) \<subseteq> participants)
        (ResourceTransitionError ''resource waiter has no acquisition'')) (\<lambda>_.
      raise_if (\<exists>w\<in>set (lock_waiters l).
          (case acquisition_of (snap_acquisitions s) w of
             None \<Rightarrow> True
           | Some a \<Rightarrow> acq_waiting_for a \<noteq> Some (lock_resource_id l)))
        (ResourceTransitionError ''resource queue contains a participant waiting elsewhere''))))"

definition validate_snapshot :: "resource_snapshot \<Rightarrow> unit res" where
  "validate_snapshot s =
     bindE (raise_unless (distinct (resource_ids s))
       (ResourceTransitionError ''resources snapshot repeats a resource'')) (\<lambda>_.
     bindE (forE validate_lock (snap_resources s)) (\<lambda>_.
     bindE (raise_unless (distinct (map acq_node_id (snap_acquisitions s)))
       (ResourceTransitionError ''resources snapshot repeats an acquisition'')) (\<lambda>_.
     bindE (forE (validate_acquisition s) (snap_acquisitions s)) (\<lambda>_.
     forE (validate_participants s) (snap_resources s)))))"

section \<open>Acquire and release\<close>

text \<open>
  The \<open>while\<close> loop of \<open>_advance\<close>: \<open>todo\<close> is what is left of \<open>required\<close> after \<open>acquired\<close>.
  The result is the updated lock table, the acquired prefix and the resource waited for.
\<close>

fun advance_loop ::
  "string \<Rightarrow> string list \<Rightarrow> resource_lock list \<Rightarrow> string list \<Rightarrow> string list \<Rightarrow>
     (resource_lock list \<times> string list \<times> string option) res" where
  "advance_loop n ids ls acquired [] = Inr (ls, acquired, None)"
| "advance_loop n ids ls acquired (r # todo) =
     (case positions ids r of
        None \<Rightarrow> Inl (KeyError r)
      | Some p \<Rightarrow>
          (let l = ls ! p;
               can_acquire = (lock_owner l = None \<and> (lock_waiters l = [] \<or> hd (lock_waiters l) = n))
           in if \<not> can_acquire
              then Inr (ls[p := l\<lparr>lock_waiters := lock_waiters l @ [n]\<rparr>], acquired, Some r)
              else advance_loop n ids
                     (ls[p := l\<lparr>lock_owner := Some n, lock_waiters := tl (lock_waiters l)\<rparr>])
                     (acquired @ [r]) todo))"

definition advance ::
  "string list \<Rightarrow> resource_lock list \<Rightarrow> resource_acquisition \<Rightarrow>
     (resource_lock list \<times> resource_acquisition) res" where
  "advance ids ls a =
     bindE (advance_loop (acq_node_id a) ids ls (acq_acquired a)
              (drop (length (acq_acquired a)) (acq_required a)))
       (\<lambda>(ls', got, w). Inr (ls', a\<lparr>acq_acquired := got, acq_waiting_for := w\<rparr>))"

definition acquire :: "resource_snapshot \<Rightarrow> string \<Rightarrow> string list \<Rightarrow> resource_snapshot res" where
  "acquire s n rs =
     bindE (require_resource_identity n ''node'') (\<lambda>_.
     if rs = [] then Inr s
     else bindE (raise_if (\<exists>a\<in>set (snap_acquisitions s). acq_node_id a = n)
       (ResourceTransitionError ''node already has an acquisition'')) (\<lambda>_.
     bindE (raise_unless (distinct rs)
       (ResourceTransitionError ''resource request contains duplicates'')) (\<lambda>_.
     bindE (raise_unless (set rs \<subseteq> set (resource_ids s))
       (ResourceTransitionError ''resource request references an unknown resource'')) (\<lambda>_.
     bindE (raise_unless (sort_key (position_key (resource_ids s)) rs = rs)
       (ResourceTransitionError ''resource request violates the global resource order'')) (\<lambda>_.
     bindE (advance (resource_ids s) (snap_resources s)
              \<lparr>acq_node_id = n, acq_required = rs, acq_acquired = [], acq_waiting_for = None\<rparr>)
       (\<lambda>(ls, a). Inr \<lparr>snap_resources = ls, snap_acquisitions = snap_acquisitions s @ [a]\<rparr>))))))"

definition free_lock :: "string list \<Rightarrow> resource_lock list \<Rightarrow> string \<Rightarrow> resource_lock list res" where
  "free_lock ids ls r =
     (case positions ids r of
        None \<Rightarrow> Inl (KeyError r)
      | Some p \<Rightarrow> Inr (ls[p := (ls ! p)\<lparr>lock_owner := None\<rparr>]))"

definition wake_at ::
  "string list \<Rightarrow> resource_lock list \<times> (string \<rightharpoonup> resource_acquisition) \<Rightarrow> nat \<Rightarrow>
     (resource_lock list \<times> (string \<rightharpoonup> resource_acquisition)) res" where
  "wake_at ids st p =
     (case st of (ls, by_node) \<Rightarrow>
        (case (lock_owner (ls ! p), lock_waiters (ls ! p)) of
           (None, w # _) \<Rightarrow>
             (case by_node w of
                None \<Rightarrow> Inl (KeyError w)
              | Some a \<Rightarrow> bindE (advance ids ls a) (\<lambda>(ls', a'). Inr (ls', by_node(w \<mapsto> a'))))
         | _ \<Rightarrow> Inr (ls, by_node)))"

definition release :: "resource_snapshot \<Rightarrow> string \<Rightarrow> resource_snapshot res" where
  "release s n =
     (case find (\<lambda>a. acq_node_id a = n) (snap_acquisitions s) of
        None \<Rightarrow> Inl (ResourceTransitionError ''node has no acquisition to release'')
      | Some a \<Rightarrow>
          if \<not> admitted a
          then Inl (ResourceTransitionError ''only an admitted participant can release resources'')
          else
            (let ids = resource_ids s;
                 rest = filter (\<lambda>b. acq_node_id b \<noteq> n) (snap_acquisitions s)
             in bindE (foldE (free_lock ids) (snap_resources s) (rev (acq_acquired a))) (\<lambda>ls.
                bindE (foldE (wake_at ids) (ls, acquisition_of rest) [0..<length ls]) (\<lambda>(ls', by_node).
                bindE (mapE (\<lambda>b. case by_node (acq_node_id b) of
                                   None \<Rightarrow> Inl (KeyError (acq_node_id b))
                                 | Some b' \<Rightarrow> Inr b') rest) (\<lambda>acqs.
                Inr \<lparr>snap_resources = ls', snap_acquisitions = acqs\<rparr>)))))"

fun apply_command :: "resource_snapshot \<Rightarrow> resource_command \<Rightarrow> resource_snapshot res" where
  "apply_command s (AcquireResources n rs) = acquire s n rs"
| "apply_command s (ReleaseResources n) =
     bindE (require_resource_identity n ''node'') (\<lambda>_. release s n)"

definition empty_lock :: "string \<Rightarrow> resource_lock" where
  "empty_lock r = \<lparr>lock_resource_id = r, lock_owner = None, lock_waiters = []\<rparr>"

definition replay :: "string list \<Rightarrow> (string \<times> string list) list \<Rightarrow> resource_snapshot res" where
  "replay ids reqs =
     foldE (\<lambda>s (n, rs). apply_command s (AcquireResources n rs))
       \<lparr>snap_resources = map empty_lock ids, snap_acquisitions = []\<rparr> reqs"

definition requests :: "resource_snapshot \<Rightarrow> (string \<times> string list) list" where
  "requests s = map (\<lambda>a. (acq_node_id a, acq_required a)) (snap_acquisitions s)"

definition validate_resource_snapshot :: "resource_snapshot \<Rightarrow> unit res" where
  "validate_resource_snapshot s =
     bindE (validate_snapshot s) (\<lambda>_.
     bindE (replay (resource_ids s) (requests s)) (\<lambda>replayed.
     raise_unless (replayed = s)
       (ResourceTransitionError ''resources snapshot does not match its replayed acquisition sequence'')))"

definition reduce_resources :: "resource_snapshot \<Rightarrow> resource_command \<Rightarrow> resource_snapshot res" where
  "reduce_resources s c =
     bindE (validate_resource_snapshot s) (\<lambda>_.
     bindE (apply_command s c) (\<lambda>t.
     bindE (validate_resource_snapshot t) (\<lambda>_. Inr t)))"

end
