(* ===== verification/Resource_Spec.thy ===== *)
theory Resource_Spec
  imports Resource_Reducer
begin

text \<open>
  The specification of ordered acquisition and its agreement with
  \<open>resource_reducer.py\<close>. \<open>greedy\<close> serves participants in order; \<open>locks_of\<close> reads the lock
  table off the acquisitions. \<open>replay_greedy\<close> is the refinement: replaying a well-formed
  history through the source's \<open>_acquire\<close> yields exactly the greedy snapshot.
\<close>

section \<open>The greedy assignment\<close>

definition next_of :: "string list \<Rightarrow> string option" where
  "next_of xs = (case xs of [] \<Rightarrow> None | r # _ \<Rightarrow> Some r)"

definition greedy_step :: "string set \<Rightarrow> string \<Rightarrow> string list \<Rightarrow> resource_acquisition" where
  "greedy_step taken n rs =
     \<lparr>acq_node_id = n, acq_required = rs, acq_acquired = takeWhile (\<lambda>r. r \<notin> taken) rs,
      acq_waiting_for = next_of (dropWhile (\<lambda>r. r \<notin> taken) rs)\<rparr>"

fun greedy :: "string set \<Rightarrow> (string \<times> string list) list \<Rightarrow> resource_acquisition list" where
  "greedy taken [] = []"
| "greedy taken ((n, rs) # reqs) =
     (let a = greedy_step taken n rs in a # greedy (taken \<union> set (acq_acquired a)) reqs)"

definition taken_by :: "resource_acquisition list \<Rightarrow> string set" where
  "taken_by as = (\<Union>a\<in>set as. set (acq_acquired a))"

definition lock_of :: "resource_acquisition list \<Rightarrow> string \<Rightarrow> resource_lock" where
  "lock_of as r =
     \<lparr>lock_resource_id = r,
      lock_owner = map_option acq_node_id (find (\<lambda>a. r \<in> set (acq_acquired a)) as),
      lock_waiters = map acq_node_id (filter (\<lambda>a. acq_waiting_for a = Some r) as)\<rparr>"

definition snapshot_of :: "string list \<Rightarrow> resource_acquisition list \<Rightarrow> resource_snapshot" where
  "snapshot_of ids as = \<lparr>snap_resources = map (lock_of as) ids, snap_acquisitions = as\<rparr>"

definition wf_request :: "string list \<Rightarrow> string \<times> string list \<Rightarrow> bool" where
  "wf_request ids q \<longleftrightarrow> (case q of (n, rs) \<Rightarrow>
     is_canonical_identity n \<and> rs \<noteq> [] \<and> distinct rs \<and> set rs \<subseteq> set ids \<and>
     sort_key (position_key ids) rs = rs)"

definition wf_history :: "string list \<Rightarrow> (string \<times> string list) list \<Rightarrow> bool" where
  "wf_history ids reqs \<longleftrightarrow>
     distinct ids \<and> (\<forall>r\<in>set ids. is_canonical_identity r) \<and>
     distinct (map fst reqs) \<and> (\<forall>q\<in>set reqs. wf_request ids q)"

section \<open>Facts on the greedy assignment\<close>

lemma greedy_step_simps [simp]:
  "acq_node_id (greedy_step T n rs) = n"
  "acq_required (greedy_step T n rs) = rs"
  "acq_acquired (greedy_step T n rs) = takeWhile (\<lambda>r. r \<notin> T) rs"
  "acq_waiting_for (greedy_step T n rs) = next_of (dropWhile (\<lambda>r. r \<notin> T) rs)"
  by (simp_all add: greedy_step_def)

lemma taken_by_simps [simp]:
  "taken_by [] = {}"
  "taken_by (a # as) = set (acq_acquired a) \<union> taken_by as"
  "taken_by (as @ bs) = taken_by as \<union> taken_by bs"
  by (auto simp: taken_by_def)

lemma greedy_append:
  "greedy T (xs @ ys) = greedy T xs @ greedy (T \<union> taken_by (greedy T xs)) ys"
  by (induction T xs rule: greedy.induct) (simp_all add: Let_def Un_assoc)

lemma greedy_snoc:
  "greedy T (xs @ [(n, rs)]) = greedy T xs @ [greedy_step (T \<union> taken_by (greedy T xs)) n rs]"
  by (simp add: greedy_append)

lemma greedy_requests: "map (\<lambda>a. (acq_node_id a, acq_required a)) (greedy T reqs) = reqs"
  by (induction T reqs rule: greedy.induct) (simp_all add: Let_def)

lemma greedy_nodes: "map acq_node_id (greedy T reqs) = map fst reqs"
proof -
  have "map fst (map (\<lambda>a. (acq_node_id a, acq_required a)) (greedy T reqs)) = map acq_node_id (greedy T reqs)"
    by (simp add: comp_def)
  then show ?thesis unfolding greedy_requests by simp
qed

lemma greedy_in_requests: "a \<in> set (greedy T reqs) \<Longrightarrow> (acq_node_id a, acq_required a) \<in> set reqs"
proof -
  assume "a \<in> set (greedy T reqs)"
  then have "(\<lambda>a. (acq_node_id a, acq_required a)) a \<in>
      set (map (\<lambda>a. (acq_node_id a, acq_required a)) (greedy T reqs))"
    unfolding set_map by (rule imageI)
  then show ?thesis unfolding greedy_requests .
qed

lemma greedy_prefix:
  "a \<in> set (greedy T reqs) \<Longrightarrow> acq_acquired a = take (length (acq_acquired a)) (acq_required a)"
  by (induction T reqs rule: greedy.induct) (auto simp: Let_def takeWhile_eq_take [symmetric])

lemma next_of_dropWhile:
  "next_of (dropWhile P rs) =
     (if length (takeWhile P rs) < length rs then Some (rs ! length (takeWhile P rs)) else None)"
  by (induction rs) (auto simp: next_of_def)

lemma greedy_waiting: "a \<in> set (greedy T reqs) \<Longrightarrow> acq_waiting_for a = expected_waiting a"
  by (induction T reqs rule: greedy.induct) (auto simp: Let_def expected_waiting_def next_of_dropWhile)

lemma greedy_not_taken: "a \<in> set (greedy T reqs) \<Longrightarrow> set (acq_acquired a) \<inter> T = {}"
  by (induction T reqs rule: greedy.induct) (auto simp: Let_def dest: set_takeWhileD)

text \<open>Exclusion: what one participant holds no other participant holds.\<close>

lemma greedy_disjoint:
  "\<lbrakk>i < j; j < length (greedy T reqs)\<rbrakk> \<Longrightarrow>
     set (acq_acquired (greedy T reqs ! i)) \<inter> set (acq_acquired (greedy T reqs ! j)) = {}"
proof (induction T reqs arbitrary: i j rule: greedy.induct)
  case (1 taken)
  then show ?case by simp
next
  case (2 taken n rs reqs)
  let ?a = "greedy_step taken n rs"
  let ?rest = "greedy (taken \<union> set (acq_acquired ?a)) reqs"
  obtain j' where j: "j = Suc j'" using "2.prems" by (cases j) auto
  then have lt: "j' < length ?rest" using "2.prems" by (simp add: Let_def)
  show ?case
  proof (cases i)
    case 0
    have "?rest ! j' \<in> set ?rest" using lt by simp
    then have "set (acq_acquired (?rest ! j')) \<inter> (taken \<union> set (acq_acquired ?a)) = {}"
      by (rule greedy_not_taken)
    then show ?thesis using 0 j by (auto simp: Let_def)
  next
    case (Suc i')
    then show ?thesis using "2.IH" [of ?a i' j'] "2.prems" j lt by (simp add: Let_def)
  qed
qed

lemma find_eq_None_iff: "find P xs = None \<longleftrightarrow> (\<forall>x\<in>set xs. \<not> P x)"
  by (induction xs) auto

lemma lock_owner_None_iff: "lock_owner (lock_of as r) = None \<longleftrightarrow> r \<notin> taken_by as"
  by (auto simp: lock_of_def find_eq_None_iff taken_by_def)

text \<open>A resource somebody waits for has an owner.\<close>

lemma greedy_waiters_owned:
  assumes "a \<in> set (greedy T reqs)" and "acq_waiting_for a = Some r"
  shows "r \<in> T \<union> taken_by (greedy T reqs)"
  using assms
proof (induction T reqs rule: greedy.induct)
  case (2 taken n rs reqs)
  let ?a = "greedy_step taken n rs"
  show ?case
  proof (cases "a = ?a")
    case True
    with "2.prems"(2) obtain xs where "dropWhile (\<lambda>r. r \<notin> taken) rs = r # xs"
      by (auto simp: next_of_def split: list.splits)
    then have "r \<in> taken" using hd_dropWhile [of "\<lambda>r. r \<notin> taken" rs] by auto
    then show ?thesis by simp
  next
    case False
    with "2.prems" have "r \<in> (taken \<union> set (acq_acquired ?a)) \<union> taken_by (greedy (taken \<union> set (acq_acquired ?a)) reqs)"
      by (intro "2.IH") (auto simp: Let_def)
    then show ?thesis by (auto simp: Let_def)
  qed
qed simp

section \<open>Positions and the advance loop\<close>

lemma positions_eq_Some:
  assumes "distinct ids"
  shows "positions ids r = Some p \<longleftrightarrow> p < length ids \<and> ids ! p = r"
proof -
  have "distinct (map fst (rev (zip ids [0..<length ids])))"
    using assms by (simp add: rev_map [symmetric])
  then have "positions ids r = Some p \<longleftrightarrow> (r, p) \<in> set (zip ids [0..<length ids])"
    by (simp add: positions_def map_of_eq_Some_iff)
  also have "\<dots> \<longleftrightarrow> p < length ids \<and> ids ! p = r"
    by (auto simp: set_zip)
  finally show ?thesis .
qed

lemma positions_eq_None: "positions ids r = None \<longleftrightarrow> r \<notin> set ids"
  by (auto simp: positions_def map_of_eq_None_iff rev_map [symmetric] simp flip: set_map)

lemma update_at_position:
  assumes "distinct ids" and "map lock_resource_id ls = ids" and "positions ids r = Some p"
  shows "ls[p := f (ls ! p)] = map (\<lambda>l. if lock_resource_id l = r then f l else l) ls"
proof (rule nth_equalityI)
  fix i assume "i < length (ls[p := f (ls ! p)])"
  then have i: "i < length ls" by simp
  have p: "p < length ls" "ids ! p = r" using assms by (auto simp: positions_eq_Some)
  have "lock_resource_id (ls ! i) = r \<longleftrightarrow> i = p"
    using assms(1,2) p i by (metis length_map nth_eq_iff_index_eq nth_map)
  then show "ls[p := f (ls ! p)] ! i = map (\<lambda>l. if lock_resource_id l = r then f l else l) ls ! i"
    using i p by (auto simp: nth_list_update)
qed simp

text \<open>
  The loop for a participant that is not queued anywhere, on a table where every queue has
  an owner: it takes the longest free prefix and joins the queue of the next resource.
\<close>

definition serve :: "string \<Rightarrow> string list \<Rightarrow> string option \<Rightarrow> resource_lock \<Rightarrow> resource_lock" where
  "serve n got w l =
     (if lock_resource_id l \<in> set got then l\<lparr>lock_owner := Some n\<rparr>
      else if w = Some (lock_resource_id l) then l\<lparr>lock_waiters := lock_waiters l @ [n]\<rparr>
      else l)"

definition free_in :: "resource_lock list \<Rightarrow> string \<Rightarrow> bool" where
  "free_in ls r \<longleftrightarrow> (\<forall>l\<in>set ls. lock_resource_id l = r \<longrightarrow> lock_owner l = None)"

lemma free_in_take:
  assumes "r' \<noteq> r"
  shows "free_in (map (\<lambda>l. if lock_resource_id l = r then l\<lparr>lock_owner := Some n\<rparr> else l) ls) r' = free_in ls r'"
  using assms by (auto simp: free_in_def)

lemma takeWhile_cong_set: "(\<And>x. x \<in> set xs \<Longrightarrow> P x = Q x) \<Longrightarrow> takeWhile P xs = takeWhile Q xs"
  by (induction xs) auto

lemma dropWhile_cong_set: "(\<And>x. x \<in> set xs \<Longrightarrow> P x = Q x) \<Longrightarrow> dropWhile P xs = dropWhile Q xs"
  by (induction xs) auto

lemma lock_at_position:
  assumes "distinct (map lock_resource_id ls)" and "positions (map lock_resource_id ls) r = Some p"
  shows "ls ! p \<in> set ls" and "lock_resource_id (ls ! p) = r"
    and "free_in ls r \<longleftrightarrow> lock_owner (ls ! p) = None"
proof -
  have p: "p < length ls" "map lock_resource_id ls ! p = r" using assms by (auto simp: positions_eq_Some)
  then show "ls ! p \<in> set ls" "lock_resource_id (ls ! p) = r" by auto
  have "\<And>l. l \<in> set ls \<Longrightarrow> lock_resource_id l = r \<Longrightarrow> l = ls ! p"
    using assms(1) p by (metis in_set_conv_nth length_map nth_eq_iff_index_eq nth_map)
  then show "free_in ls r \<longleftrightarrow> lock_owner (ls ! p) = None"
    using p by (auto simp: free_in_def)
qed

lemma advance_loop_serves:
  assumes "distinct (map lock_resource_id ls)" and "distinct todo"
    and "set todo \<subseteq> set (map lock_resource_id ls)"
    and "\<And>l. l \<in> set ls \<Longrightarrow> n \<notin> set (lock_waiters l)"
    and "\<And>l. l \<in> set ls \<Longrightarrow> lock_owner l = None \<Longrightarrow> lock_waiters l = []"
  shows "advance_loop n (map lock_resource_id ls) ls acquired todo =
     (let got = takeWhile (free_in ls) todo; w = next_of (dropWhile (free_in ls) todo)
      in Inr (map (serve n got w) ls, acquired @ got, w))"
  using assms
proof (induction todo arbitrary: ls acquired)
  case Nil
  then show ?case by (simp add: next_of_def serve_def map_idI)
next
  case (Cons r todo)
  let ?ids = "map lock_resource_id ls"
  obtain p where p: "positions ?ids r = Some p"
    using Cons.prems(3) positions_eq_None [of ?ids r] by fastforce
  note at = lock_at_position [OF Cons.prems(1) p]
  show ?case
  proof (cases "free_in ls r")
    case True
    then have own: "lock_owner (ls ! p) = None" and wt: "lock_waiters (ls ! p) = []"
      using at Cons.prems(5) by auto
    define L where "L = map (\<lambda>l. if lock_resource_id l = r then l\<lparr>lock_owner := Some n\<rparr> else l) ls"
    have upd: "ls[p := (ls ! p)\<lparr>lock_owner := Some n, lock_waiters := []\<rparr>] = L"
    proof -
      have "(ls ! p)\<lparr>lock_owner := Some n, lock_waiters := []\<rparr> = (ls ! p)\<lparr>lock_owner := Some n\<rparr>"
        using wt by simp
      then show ?thesis
        using update_at_position [OF Cons.prems(1) refl p, of "\<lambda>l. l\<lparr>lock_owner := Some n\<rparr>"]
        by (simp add: L_def)
    qed
    have ids: "map lock_resource_id L = ?ids" unfolding L_def by (induction ls) auto
    have fr: "free_in L x = free_in ls x" if "x \<in> set todo" for x
      unfolding L_def using that Cons.prems(2) by (intro free_in_take) auto
    have tw: "takeWhile (free_in L) todo = takeWhile (free_in ls) todo"
      and dw: "dropWhile (free_in L) todo = dropWhile (free_in ls) todo"
      using fr by (auto intro: takeWhile_cong_set dropWhile_cong_set)
    have todo: "set todo \<subseteq> set ?ids" using Cons.prems(3) by simp
    have IH: "advance_loop n ?ids L (acquired @ [r]) todo =
      (let got = takeWhile (free_in ls) todo; w = next_of (dropWhile (free_in ls) todo)
       in Inr (map (serve n got w) L, (acquired @ [r]) @ got, w))"
    proof -
      have "\<And>l. l \<in> set L \<Longrightarrow> n \<notin> set (lock_waiters l)"
        using Cons.prems(4) by (auto simp: L_def)
      moreover have "\<And>l. l \<in> set L \<Longrightarrow> lock_owner l = None \<Longrightarrow> lock_waiters l = []"
        using Cons.prems(5) by (auto simp: L_def split: if_splits)
      ultimately show ?thesis
        using Cons.IH [of L "acquired @ [r]", unfolded ids tw dw] Cons.prems(1,2) todo by simp
    qed
    have sv: "map (serve n got w) L = map (serve n (r # got) w) ls" if "w \<noteq> Some r" for got w
      using that by (auto simp: serve_def L_def)
    have nx: "next_of (dropWhile (free_in ls) todo) \<noteq> Some r"
    proof
      assume "next_of (dropWhile (free_in ls) todo) = Some r"
      then have "r \<in> set (dropWhile (free_in ls) todo)" by (auto simp: next_of_def split: list.splits)
      then have "r \<in> set todo" by (rule set_dropWhileD)
      with Cons.prems(2) show False by simp
    qed
    show ?thesis
      using IH sv [OF nx] by (simp add: p own wt upd Let_def True)
  next
    case False
    then have own: "lock_owner (ls ! p) \<noteq> None" using at by simp
    have "ls[p := (ls ! p)\<lparr>lock_waiters := lock_waiters (ls ! p) @ [n]\<rparr>] = map (serve n [] (Some r)) ls"
      using update_at_position [OF Cons.prems(1) refl p, of "\<lambda>l. l\<lparr>lock_waiters := lock_waiters l @ [n]\<rparr>"]
      by (simp add: serve_def eq_commute [of r] cong: map_cong)
    then show ?thesis using False own p by (simp add: Let_def next_of_def)
  qed
qed

section \<open>Replay computes the greedy snapshot\<close>

lemma resource_ids_snapshot_of [simp]: "resource_ids (snapshot_of ids as) = ids"
  by (simp add: resource_ids_def snapshot_of_def lock_of_def comp_def)

lemma snapshot_of_sel [simp]:
  "snap_resources (snapshot_of ids as) = map (lock_of as) ids"
  "snap_acquisitions (snapshot_of ids as) = as"
  by (simp_all add: snapshot_of_def)

lemma lock_of_id [simp]: "lock_resource_id (lock_of as r) = r"
  by (simp add: lock_of_def)

lemma map_lock_of_ids [simp]: "map lock_resource_id (map (lock_of as) ids) = ids"
  by (simp add: comp_def)

lemma free_in_locks:
  "r \<in> set ids \<Longrightarrow> free_in (map (lock_of as) ids) r \<longleftrightarrow> r \<notin> taken_by as"
  by (auto simp: free_in_def lock_owner_None_iff)

lemma serve_lock_of:
  assumes "distinct rs"
  shows "serve n (takeWhile (\<lambda>r. r \<notin> taken_by as) rs) (next_of (dropWhile (\<lambda>r. r \<notin> taken_by as) rs)) (lock_of as r) =
     lock_of (as @ [greedy_step (taken_by as) n rs]) r"
proof -
  let ?P = "\<lambda>r. r \<notin> taken_by as"
  have find_snoc: "find Q (xs @ [y]) = (case find Q xs of None \<Rightarrow> if Q y then Some y else None | Some z \<Rightarrow> Some z)"
    for Q and xs :: "resource_acquisition list" and y by (induction xs) auto
  have nw: "next_of (dropWhile ?P rs) \<noteq> Some r" if "r \<in> set (takeWhile ?P rs)"
  proof
    assume "next_of (dropWhile ?P rs) = Some r"
    then have "r \<in> set (dropWhile ?P rs)" by (auto simp: next_of_def split: list.splits)
    moreover have "set (takeWhile ?P rs) \<inter> set (dropWhile ?P rs) = {}"
      using assms distinct_append [of "takeWhile ?P rs" "dropWhile ?P rs"] by simp
    ultimately show False using that by blast
  qed
  have own: "find (\<lambda>a. r \<in> set (acq_acquired a)) as = None" if "r \<in> set (takeWhile ?P rs)"
    using that set_takeWhileD [of r ?P rs] by (auto simp: find_eq_None_iff taken_by_def)
  show ?thesis
    using nw own by (auto simp: serve_def lock_of_def find_snoc split: option.splits)
qed

lemma acquire_greedy:
  assumes as: "as = greedy {} reqs" and wf: "wf_request ids (n, rs)" and ids: "distinct ids"
    and fresh: "n \<notin> set (map fst reqs)"
  shows "acquire (snapshot_of ids as) n rs = Inr (snapshot_of ids (as @ [greedy_step (taken_by as) n rs]))"
proof -
  let ?ls = "map (lock_of as) ids"
  have nodes: "n \<notin> acq_node_id ` set as"
    using fresh as by (metis greedy_nodes set_map)
  have wts: "\<And>l. l \<in> set ?ls \<Longrightarrow> n \<notin> set (lock_waiters l)"
    using nodes by (auto simp: lock_of_def)
  have owned: "\<And>l. l \<in> set ?ls \<Longrightarrow> lock_owner l = None \<Longrightarrow> lock_waiters l = []"
    using greedy_waiters_owned [of _ "{}" reqs]
    by (auto simp: lock_owner_None_iff as) (auto simp: lock_of_def filter_empty_conv)
  have rs: "distinct rs" "set rs \<subseteq> set ids" "rs \<noteq> []" "is_canonical_identity n"
    "sort_key (position_key ids) rs = rs"
    using wf by (auto simp: wf_request_def)
  have tw: "takeWhile (free_in ?ls) rs = takeWhile (\<lambda>r. r \<notin> taken_by as) rs"
    and dw: "dropWhile (free_in ?ls) rs = dropWhile (\<lambda>r. r \<notin> taken_by as) rs"
    using rs(2) free_in_locks by (auto intro!: takeWhile_cong_set dropWhile_cong_set)
  have "distinct (map lock_resource_id ?ls)" "set rs \<subseteq> set (map lock_resource_id ?ls)"
    unfolding map_lock_of_ids using ids rs by auto
  from advance_loop_serves [OF this(1) rs(1) this(2) wts owned, of "[]"]
  have "advance_loop n ids ?ls [] rs =
     Inr (map (serve n (takeWhile (\<lambda>r. r \<notin> taken_by as) rs) (next_of (dropWhile (\<lambda>r. r \<notin> taken_by as) rs))) ?ls,
          takeWhile (\<lambda>r. r \<notin> taken_by as) rs, next_of (dropWhile (\<lambda>r. r \<notin> taken_by as) rs))"
    by (simp only: map_lock_of_ids tw dw Let_def append_Nil)
  also have "map (serve n (takeWhile (\<lambda>r. r \<notin> taken_by as) rs) (next_of (dropWhile (\<lambda>r. r \<notin> taken_by as) rs))) ?ls =
      map (lock_of (as @ [greedy_step (taken_by as) n rs])) ids"
    by (simp add: serve_lock_of [OF rs(1)])
  finally have adv: "advance ids ?ls \<lparr>acq_node_id = n, acq_required = rs, acq_acquired = [], acq_waiting_for = None\<rparr> =
      Inr (map (lock_of (as @ [greedy_step (taken_by as) n rs])) ids, greedy_step (taken_by as) n rs)"
    by (simp add: advance_def greedy_step_def)
  have "\<not> (\<exists>a\<in>set as. acq_node_id a = n)" using nodes by blast
  then show ?thesis
    by (simp add: acquire_def require_resource_identity_def rs adv)
qed

lemma wf_history_snoc:
  "wf_history ids (reqs @ [(n, rs)]) \<longleftrightarrow>
     wf_history ids reqs \<and> wf_request ids (n, rs) \<and> n \<notin> set (map fst reqs)"
  by (auto simp: wf_history_def)

theorem replay_greedy:
  assumes "wf_history ids reqs"
  shows "replay ids reqs = Inr (snapshot_of ids (greedy {} reqs))"
  using assms
proof (induction reqs rule: rev_induct)
  case Nil
  have "map empty_lock ids = map (lock_of []) ids"
    by (simp add: empty_lock_def lock_of_def)
  then show ?case by (simp add: replay_def snapshot_of_def)
next
  case (snoc q reqs)
  obtain n rs where q: "q = (n, rs)" by (cases q)
  from snoc.prems have wf: "wf_history ids reqs" "wf_request ids (n, rs)" "n \<notin> set (map fst reqs)"
    unfolding q wf_history_snoc by auto
  have "acquire (snapshot_of ids (greedy {} reqs)) n rs =
      Inr (snapshot_of ids (greedy {} (reqs @ [(n, rs)])))"
    using acquire_greedy [OF refl wf(2) _ wf(3)] wf(1) by (simp add: wf_history_def greedy_snoc)
  then show ?case
    using snoc.IH [OF wf(1)] unfolding q replay_def by (simp add: foldE_append)
qed

section \<open>Greedy snapshots are valid\<close>

lemma find_unique:
  assumes "x \<in> set xs" and "P x" and "\<And>y. y \<in> set xs \<Longrightarrow> P y \<Longrightarrow> y = x"
  shows "find P xs = Some x"
  using assms
proof (induction xs)
  case (Cons y ys)
  show ?case
  proof (cases "P y")
    case True
    then show ?thesis using Cons.prems(3) [of y] by simp
  next
    case False
    then have "x \<in> set ys" using Cons.prems(1,2) by auto
    then have "find P ys = Some x" using Cons.prems by (intro Cons.IH) auto
    with False show ?thesis by simp
  qed
qed simp

lemma greedy_owner_unique:
  assumes "a \<in> set (greedy T reqs)" and "b \<in> set (greedy T reqs)"
    and "r \<in> set (acq_acquired a)" and "r \<in> set (acq_acquired b)"
  shows "a = b"
proof -
  let ?as = "greedy T reqs"
  obtain i j where ij: "i < length ?as" "?as ! i = a" "j < length ?as" "?as ! j = b"
    using assms(1,2) by (metis in_set_conv_nth)
  then have "\<not> i < j" "\<not> j < i"
    using greedy_disjoint [of i j T reqs] greedy_disjoint [of j i T reqs] assms(3,4) by blast+
  then have "i = j" by simp
  with ij show ?thesis by simp
qed

lemma greedy_lock_owner:
  assumes "a \<in> set (greedy T reqs)" and "r \<in> set (acq_acquired a)"
  shows "lock_owner (lock_of (greedy T reqs) r) = Some (acq_node_id a)"
proof -
  have "find (\<lambda>a. r \<in> set (acq_acquired a)) (greedy T reqs) = Some a"
    using assms greedy_owner_unique by (intro find_unique) blast+
  then show ?thesis by (simp add: lock_of_def)
qed

lemma lock_owner_SomeD:
  "lock_owner (lock_of as r) = Some n \<Longrightarrow> \<exists>a\<in>set as. acq_node_id a = n \<and> r \<in> set (acq_acquired a)"
  by (auto simp: lock_of_def find_Some_iff)

lemma lock_waiters_mem:
  "n \<in> set (lock_waiters (lock_of as r)) \<longleftrightarrow> (\<exists>a\<in>set as. acq_node_id a = n \<and> acq_waiting_for a = Some r)"
  by (auto simp: lock_of_def)

lemma lock_at_snapshot_of:
  "distinct ids \<Longrightarrow> r \<in> set ids \<Longrightarrow> lock_at (snapshot_of ids as) r = Inr (lock_of as r)"
proof -
  assume d: "distinct ids" and r: "r \<in> set ids"
  then obtain p where p: "positions ids r = Some p"
    using positions_eq_None [of ids r] by fastforce
  then have "p < length ids" "ids ! p = r" using d by (auto simp: positions_eq_Some)
  then show ?thesis using p by (simp add: lock_at_def)
qed

lemma distinct_node_unique:
  "distinct (map acq_node_id as) \<Longrightarrow> a \<in> set as \<Longrightarrow> b \<in> set as \<Longrightarrow> acq_node_id a = acq_node_id b \<Longrightarrow> a = b"
  by (auto simp: distinct_map inj_on_def)

lemma acquisition_of_eq:
  assumes "distinct (map acq_node_id as)" and "a \<in> set as"
  shows "acquisition_of as (acq_node_id a) = Some a"
proof -
  have "distinct (map fst (rev (map (\<lambda>a. (acq_node_id a, a)) as)))"
    using assms(1) by (simp add: rev_map [symmetric] comp_def)
  then show ?thesis using assms(2) by (auto simp: acquisition_of_def intro!: map_of_is_SomeI)
qed

lemma greedy_wait_not_acquired:
  assumes "a \<in> set (greedy T reqs)" and "distinct (acq_required a)" and "acq_waiting_for a = Some r"
  shows "r \<notin> set (acq_acquired a)"
proof -
  let ?k = "length (acq_acquired a)"
  have r: "?k < length (acq_required a)" "r = acq_required a ! ?k"
    using greedy_waiting [OF assms(1)] assms(3) by (auto simp: expected_waiting_def split: if_splits)
  have "acq_required a ! ?k \<notin> set (take ?k (acq_required a))"
    using assms(2) r(1) by (auto simp: in_set_conv_nth nth_eq_iff_index_eq)
  then show ?thesis using r greedy_prefix [OF assms(1)] by simp
qed

lemma wf_history_greedyD:
  assumes "wf_history ids reqs" and "a \<in> set (greedy T reqs)"
  shows "is_canonical_identity (acq_node_id a)" and "acq_required a \<noteq> []" and "distinct (acq_required a)"
    and "set (acq_required a) \<subseteq> set ids"
    and "sort_key (position_key ids) (acq_required a) = acq_required a"
    and "set (acq_acquired a) \<subseteq> set (acq_required a)"
    and "\<And>r. acq_waiting_for a = Some r \<Longrightarrow> r \<in> set (acq_required a)"
proof -
  have "wf_request ids (acq_node_id a, acq_required a)"
    using assms greedy_in_requests [OF assms(2)] by (auto simp: wf_history_def)
  then show "is_canonical_identity (acq_node_id a)" "acq_required a \<noteq> []" "distinct (acq_required a)"
    "set (acq_required a) \<subseteq> set ids" "sort_key (position_key ids) (acq_required a) = acq_required a"
    by (auto simp: wf_request_def)
  show "set (acq_acquired a) \<subseteq> set (acq_required a)"
    using greedy_prefix [OF assms(2)] by (metis set_take_subset)
  show "\<And>r. acq_waiting_for a = Some r \<Longrightarrow> r \<in> set (acq_required a)"
    using greedy_waiting [OF assms(2)] by (auto simp: expected_waiting_def split: if_splits)
qed

lemma wf_history_nodes: "wf_history ids reqs \<Longrightarrow> distinct (map acq_node_id (greedy T reqs))"
  by (simp add: greedy_nodes wf_history_def)

lemma validate_lock_greedy:
  assumes "wf_history ids reqs" and "r \<in> set ids"
  shows "validate_lock (lock_of (greedy {} reqs) r) = Inr ()"
proof -
  let ?as = "greedy {} reqs"
  have d: "distinct (map acq_node_id ?as)" using assms(1) by (rule wf_history_nodes)
  have w: "distinct (lock_waiters (lock_of ?as r))"
    using d by (auto simp: lock_of_def distinct_map inj_on_def)
  have c: "is_canonical_identity n" if "n \<in> set (lock_waiters (lock_of ?as r))" for n
    using that wf_history_greedyD(1) [OF assms(1)] by (auto simp: lock_waiters_mem)
  have own: "is_canonical_identity n \<and> n \<notin> set (lock_waiters (lock_of ?as r))"
    if owner: "lock_owner (lock_of ?as r) = Some n" for n
  proof -
    obtain a where a: "a \<in> set ?as" "acq_node_id a = n" "r \<in> set (acq_acquired a)"
      using lock_owner_SomeD [OF owner] by blast
    have "acq_waiting_for b \<noteq> Some r" if "b \<in> set ?as" "acq_node_id b = n" for b
      using greedy_wait_not_acquired [OF that(1) wf_history_greedyD(3) [OF assms(1) that(1)], of r]
        distinct_node_unique [OF d that(1) a(1)] a that(2) by auto
    then show ?thesis using wf_history_greedyD(1) [OF assms(1) a(1)] a(2) by (auto simp: lock_waiters_mem)
  qed
  show ?thesis
    using assms w c own
    by (auto simp: validate_lock_def require_resource_identity_def wf_history_def resE split: option.splits)
qed

lemma validate_acquisition_greedy:
  assumes "wf_history ids reqs" and "a \<in> set (greedy {} reqs)"
  shows "validate_acquisition (snapshot_of ids (greedy {} reqs)) a = Inr ()"
proof -
  let ?as = "greedy {} reqs"
  note wf = wf_history_greedyD [OF assms]
  have ids: "distinct ids" using assms(1) by (simp add: wf_history_def)
  have "\<And>r. r \<in> set (acq_acquired a) \<Longrightarrow> lock_at (snapshot_of ids ?as) r = Inr (lock_of ?as r)"
    "\<And>r. acq_waiting_for a = Some r \<Longrightarrow> lock_at (snapshot_of ids ?as) r = Inr (lock_of ?as r)"
    using wf ids by (auto intro: lock_at_snapshot_of)
  then show ?thesis
    using wf greedy_prefix [OF assms(2)] greedy_waiting [OF assms(2)] greedy_lock_owner [OF assms(2)] assms(2)
    by (auto simp: validate_acquisition_def require_resource_identity_def lock_waiters_mem resE split: option.splits)
qed

lemma validate_participants_greedy:
  assumes "wf_history ids reqs"
  shows "validate_participants (snapshot_of ids (greedy {} reqs)) (lock_of (greedy {} reqs) r) = Inr ()"
proof -
  let ?as = "greedy {} reqs"
  note d = wf_history_nodes [OF assms, of "{}"]
  have "acquisition_of ?as w = Some a \<longrightarrow> acq_waiting_for a = Some r"
    and "acquisition_of ?as w \<noteq> None" if "w \<in> set (lock_waiters (lock_of ?as r))" for w a
    using that acquisition_of_eq [OF d] by (auto simp: lock_waiters_mem)
  then show ?thesis
    by (auto simp: validate_participants_def Let_def resE lock_waiters_mem dest: lock_owner_SomeD split: option.splits)
qed

lemma validate_snapshot_greedy:
  assumes "wf_history ids reqs"
  shows "validate_snapshot (snapshot_of ids (greedy {} reqs)) = Inr ()"
proof -
  have "distinct ids" using assms by (simp add: wf_history_def)
  then show ?thesis
    using validate_lock_greedy [OF assms] validate_acquisition_greedy [OF assms]
      validate_participants_greedy [OF assms] wf_history_nodes [OF assms]
    by (simp add: validate_snapshot_def resE)
qed

section \<open>Validation accepts exactly the greedy snapshots\<close>

lemma validate_snapshot_wf:
  assumes "validate_snapshot s = Inr ()"
  shows "wf_history (resource_ids s) (requests s)"
proof -
  have "is_canonical_identity r" if "r \<in> set (resource_ids s)" for r
    using that assms by (auto simp: validate_snapshot_def validate_lock_def require_resource_identity_def resource_ids_def resE)
  moreover have "wf_request (resource_ids s) q" if "q \<in> set (requests s)" for q
    using that assms
    by (auto simp: validate_snapshot_def validate_acquisition_def require_resource_identity_def requests_def wf_request_def resE)
  ultimately show ?thesis
    using assms by (auto simp: wf_history_def validate_snapshot_def requests_def resE comp_def)
qed

lemma validate_resource_snapshot_iff:
  "validate_resource_snapshot s = Inr () \<longleftrightarrow>
     wf_history (resource_ids s) (requests s) \<and>
     s = snapshot_of (resource_ids s) (greedy {} (requests s))"
proof
  assume v: "validate_resource_snapshot s = Inr ()"
  then have "validate_snapshot s = Inr ()" by (auto simp: validate_resource_snapshot_def resE)
  then have wf: "wf_history (resource_ids s) (requests s)" by (rule validate_snapshot_wf)
  with v show "wf_history (resource_ids s) (requests s) \<and>
      s = snapshot_of (resource_ids s) (greedy {} (requests s))"
    by (auto simp: validate_resource_snapshot_def resE replay_greedy)
next
  assume wf: "wf_history (resource_ids s) (requests s) \<and>
      s = snapshot_of (resource_ids s) (greedy {} (requests s))"
  then have "validate_snapshot s = Inr ()" by (metis validate_snapshot_greedy)
  with wf show "validate_resource_snapshot s = Inr ()"
    by (simp add: validate_resource_snapshot_def replay_greedy raise_unless_def)
qed

end
