(* ===== verification/Resource_Properties.thy ===== *)
theory Resource_Properties
  imports Resource_Spec
begin

text \<open>
  What a client of the resource reducer relies on, as the locale \<open>resource_provider\<close>, its
  interpretation on \<open>reduce_resources\<close>, and the properties of the reducer: the refinement of
  the greedy assignment, mutual exclusion, FIFO queues, deadlock freedom, totality of
  acquisition, the exact effect of a successful release, success of a release without
  contention, and a reachable snapshot whose release is refused.
\<close>

section \<open>The interface of a resource provider\<close>

locale resource_provider =
  fixes valid :: "'s \<Rightarrow> bool"
    and participants :: "'s \<Rightarrow> 'n list"
    and runnable :: "'s \<Rightarrow> 'n \<Rightarrow> bool"
    and release_of :: "'s \<Rightarrow> 'n \<Rightarrow> kernel_error + 's"
  assumes release_valid: "release_of s n = Inr t \<Longrightarrow> valid s \<and> valid t"
    and release_participants:
      "release_of s n = Inr t \<Longrightarrow> participants t = filter (\<lambda>m. m \<noteq> n) (participants s)"
    and participants_distinct: "valid s \<Longrightarrow> distinct (participants s)"
    and release_runnable: "release_of s n = Inr t \<Longrightarrow> n \<in> set (participants s) \<and> runnable s n"
    and some_runnable: "valid s \<Longrightarrow> participants s \<noteq> [] \<Longrightarrow> \<exists>n\<in>set (participants s). runnable s n"
begin

lemma release_shrinks:
  assumes "release_of s n = Inr t"
  shows "length (participants s) = Suc (length (participants t))"
proof -
  have d: "distinct (participants s)" and n: "n \<in> set (participants s)"
    using assms release_valid release_runnable participants_distinct by blast+
  have "participants t = remove1 n (participants s)"
    using release_participants [OF assms] distinct_remove1_removeAll [OF d, of n]
    by (simp add: removeAll_filter_not_eq eq_commute)
  moreover have "0 < length (participants s)" using n by (cases "participants s") auto
  ultimately show ?thesis using n by (simp add: length_remove1)
qed

lemma release_keeps_subset:
  "release_of s n = Inr t \<Longrightarrow> set (participants s) \<subseteq> P \<Longrightarrow> set (participants t) \<subseteq> P - {n}"
  using release_participants by auto

lemma release_sequence_bounded:
  "foldE release_of s ns = Inr t \<Longrightarrow> length (participants s) = length ns + length (participants t)"
  by (induction ns arbitrary: s) (auto simp: bindE_eq_Inr dest!: release_shrinks)

lemma release_sequence_distinct:
  "foldE release_of s ns = Inr t \<Longrightarrow> distinct ns \<and> set ns \<subseteq> set (participants s)"
proof (induction ns arbitrary: s)
  case (Cons n ns)
  from Cons.prems obtain u where u: "release_of s n = Inr u" "foldE release_of u ns = Inr t"
    by (auto simp: bindE_eq_Inr)
  have "distinct ns" "set ns \<subseteq> set (participants u)" using Cons.IH [OF u(2)] by auto
  moreover have "set (participants u) = set (participants s) - {n}" "n \<in> set (participants s)"
    using release_participants [OF u(1)] release_runnable [OF u(1)] by auto
  ultimately show ?case by auto
qed simp

end

section \<open>What a release changes\<close>

lemma advance_keeps:
  assumes "advance ids ls a = Inr (ls', a')"
  shows "acq_node_id a' = acq_node_id a" and "acq_required a' = acq_required a"
  using assms by (auto simp: advance_def resE split: prod.splits)

lemma advance_loop_ids:
  "advance_loop n ids ls acquired todo = Inr (ls', got, w) \<Longrightarrow>
     (\<forall>r p. positions ids r = Some p \<longrightarrow> p < length ls) \<Longrightarrow>
     map lock_resource_id ls' = map lock_resource_id ls"
proof (induction n ids ls acquired todo rule: advance_loop.induct)
  case (2 n ids ls acquired r todo)
  then obtain p where p: "positions ids r = Some p" by (auto split: option.splits)
  have "map lock_resource_id (ls[p := (ls ! p)\<lparr>lock_waiters := x\<rparr>]) = map lock_resource_id ls"
    "map lock_resource_id (ls[p := (ls ! p)\<lparr>lock_owner := y, lock_waiters := x\<rparr>]) = map lock_resource_id ls" for x y
    using "2.prems"(2) p by (auto simp: map_update list_update_same_conv)
  with 2 p show ?case by (auto simp: Let_def split: if_splits)
qed simp

lemma advance_ids:
  assumes "advance (map lock_resource_id ls) ls a = Inr (ls', a')" and "distinct (map lock_resource_id ls)"
  shows "map lock_resource_id ls' = map lock_resource_id ls"
proof -
  obtain got w where "advance_loop (acq_node_id a) (map lock_resource_id ls) ls (acq_acquired a)
      (drop (length (acq_acquired a)) (acq_required a)) = Inr (ls', got, w)"
    using assms(1) by (auto simp: advance_def resE split: prod.splits)
  then show ?thesis
    by (rule advance_loop_ids) (use assms(2) positions_eq_Some in fastforce)
qed

lemma free_lock_ids:
  assumes "free_lock (map lock_resource_id ls) ls r = Inr ls'" and "distinct (map lock_resource_id ls)"
  shows "map lock_resource_id ls' = map lock_resource_id ls"
  using assms
  by (auto simp: free_lock_def positions_eq_Some map_update list_update_same_conv split: option.splits)

text \<open>The invariant of the two loops of a release: ids stay, a node keeps its request.\<close>

definition release_inv ::
  "string list \<Rightarrow> (string \<times> string list) list \<Rightarrow> resource_lock list \<times> (string \<rightharpoonup> resource_acquisition) \<Rightarrow> bool" where
  "release_inv ids reqs st \<longleftrightarrow>
     map lock_resource_id (fst st) = ids \<and>
     (\<forall>n a. snd st n = Some a \<longrightarrow> acq_node_id a = n \<and> (n, acq_required a) \<in> set reqs)"

lemma wake_at_inv:
  assumes "release_inv ids reqs st" and "distinct ids" and "wake_at ids st p = Inr st'"
  shows "release_inv ids reqs st'"
proof -
  obtain ls by_node where st: "st = (ls, by_node)" by (cases st)
  show ?thesis
  proof (cases "\<exists>w ws. lock_owner (ls ! p) = None \<and> lock_waiters (ls ! p) = w # ws")
    case False
    then have "st' = st" using assms(3) st
      by (auto simp: wake_at_def split: option.splits list.splits)
    with assms(1) show ?thesis by simp
  next
    case True
    then obtain w ws where w: "lock_owner (ls ! p) = None" "lock_waiters (ls ! p) = w # ws" by blast
    with assms(3) st obtain a ls' a' where a: "by_node w = Some a" "advance ids ls a = Inr (ls', a')"
      and st': "st' = (ls', by_node(w \<mapsto> a'))"
      by (auto simp: wake_at_def resE split: option.splits)
    have "map lock_resource_id ls' = ids"
      using advance_ids [of ls a ls' a'] a(2) assms(1,2) st by (simp add: release_inv_def)
    moreover have "acq_node_id a' = w" "(w, acq_required a') \<in> set reqs"
      using advance_keeps [OF a(2)] a(1) assms(1) st by (auto simp: release_inv_def)
    ultimately show ?thesis using assms(1) st st' by (auto simp: release_inv_def)
  qed
qed

lemma acquisition_of_SomeD: "acquisition_of as m = Some b \<Longrightarrow> b \<in> set as \<and> acq_node_id b = m"
  by (auto simp: acquisition_of_def dest!: map_of_SomeD)

lemma distinct_pair_unique:
  "distinct (map fst xs) \<Longrightarrow> (a, b) \<in> set xs \<Longrightarrow> (a, c) \<in> set xs \<Longrightarrow> b = c"
  by (metis eq_key_imp_eq_value)

lemma find_distinct_node:
  assumes "distinct (map acq_node_id as)" and "find (\<lambda>a. acq_node_id a = n) as = Some a"
  shows "a \<in> set as" and "acq_node_id a = n"
  using assms by (auto simp: find_Some_iff)

lemma release_requests:
  assumes rel: "release s n = Inr t" and ids: "distinct (resource_ids s)"
    and nodes: "distinct (map acq_node_id (snap_acquisitions s))"
  shows "requests t = filter (\<lambda>q. fst q \<noteq> n) (requests s) \<and> resource_ids t = resource_ids s"
proof -
  let ?ids = "resource_ids s"
  define rest where "rest = filter (\<lambda>b. acq_node_id b \<noteq> n) (snap_acquisitions s)"
  obtain a ls ls' by_node acqs where a: "find (\<lambda>a. acq_node_id a = n) (snap_acquisitions s) = Some a"
    and free: "foldE (free_lock ?ids) (snap_resources s) (rev (acq_acquired a)) = Inr ls"
    and wake: "foldE (wake_at ?ids) (ls, acquisition_of rest) [0..<length ls] = Inr (ls', by_node)"
    and out: "mapE (\<lambda>b. case by_node (acq_node_id b) of None \<Rightarrow> Inl (KeyError (acq_node_id b))
                        | Some b' \<Rightarrow> Inr b') rest = Inr acqs"
    and t: "t = \<lparr>snap_resources = ls', snap_acquisitions = acqs\<rparr>"
    using rel by (auto simp: release_def Let_def rest_def resE split: option.splits if_splits prod.splits)
  let ?reqs = "map (\<lambda>a. (acq_node_id a, acq_required a)) rest"
  have ls: "map lock_resource_id ls = ?ids"
  proof (rule foldE_invariant [OF free, where P = "\<lambda>l. map lock_resource_id l = ?ids"])
    show "map lock_resource_id (snap_resources s) = ?ids" by (simp add: resource_ids_def)
    show "map lock_resource_id v = ?ids"
      if "map lock_resource_id u = ?ids" "free_lock ?ids u x = Inr v" for u x v
      using free_lock_ids [of u x v] that ids by simp
  qed
  have "release_inv ?ids ?reqs (ls, acquisition_of rest)"
    using ls by (auto simp: release_inv_def dest: acquisition_of_SomeD)
  then have inv: "release_inv ?ids ?reqs (ls', by_node)"
    by (rule foldE_invariant [OF wake]) (rule wake_at_inv [OF _ ids])
  have dr: "distinct (map fst ?reqs)"
    using nodes by (simp add: rest_def comp_def distinct_map_filter)
  have req: "acq_node_id b' = acq_node_id b \<and> acq_required b' = acq_required b"
    if "b \<in> set rest" "by_node (acq_node_id b) = Some b'" for b b'
    using inv that distinct_pair_unique [OF dr, of "acq_node_id b" "acq_required b'" "acq_required b"]
    by (auto simp: release_inv_def)
  have "list_all2 (\<lambda>b b'. by_node (acq_node_id b) = Some b') rest acqs"
    using out by (auto simp: mapE_eq_Inr elim!: list_all2_mono split: option.splits)
  then have "map (\<lambda>a. (acq_node_id a, acq_required a)) acqs = ?reqs"
    using req by (auto simp: list_all2_conv_all_nth intro!: nth_equalityI)
  then show ?thesis
    using inv t by (simp add: requests_def resource_ids_def rest_def release_inv_def filter_map comp_def)
qed

section \<open>Consequences of the greedy characterisation\<close>

lemma valid_snapshotE:
  assumes "validate_resource_snapshot s = Inr ()"
  obtains reqs where "reqs = requests s" and "wf_history (resource_ids s) reqs"
    and "snap_acquisitions s = greedy {} reqs"
    and "snap_resources s = map (lock_of (greedy {} reqs)) (resource_ids s)"
  using assms that
  by (metis snapshot_of_sel validate_resource_snapshot_iff)

lemma reduce_resourcesD:
  assumes "reduce_resources s c = Inr t"
  shows "validate_resource_snapshot s = Inr ()" and "apply_command s c = Inr t"
    and "validate_resource_snapshot t = Inr ()"
  using assms by (auto simp: reduce_resources_def resE)

lemma valid_nodes_distinct:
  "validate_resource_snapshot s = Inr () \<Longrightarrow> distinct (map acq_node_id (snap_acquisitions s))"
  by (erule valid_snapshotE) (simp add: wf_history_nodes)

lemma valid_ids_distinct: "validate_resource_snapshot s = Inr () \<Longrightarrow> distinct (resource_ids s)"
  by (erule valid_snapshotE) (simp add: wf_history_def)

lemma nodes_of_requests: "map acq_node_id (snap_acquisitions s) = map fst (requests s)"
  by (simp add: requests_def comp_def)

lemma release_effect:
  assumes "reduce_resources s (ReleaseResources n) = Inr t"
  shows "requests t = filter (\<lambda>q. fst q \<noteq> n) (requests s)" and "resource_ids t = resource_ids s"
    and "t = snapshot_of (resource_ids s) (greedy {} (filter (\<lambda>q. fst q \<noteq> n) (requests s)))"
proof -
  note d = reduce_resourcesD [OF assms]
  have "release s n = Inr t" using d(2) by (auto simp: resE)
  from release_requests [OF this valid_ids_distinct [OF d(1)] valid_nodes_distinct [OF d(1)]]
  show rq: "requests t = filter (\<lambda>q. fst q \<noteq> n) (requests s)" and ids: "resource_ids t = resource_ids s"
    by auto
  show "t = snapshot_of (resource_ids s) (greedy {} (filter (\<lambda>q. fst q \<noteq> n) (requests s)))"
    using d(3) unfolding validate_resource_snapshot_iff rq ids by blast
qed

lemma dropWhile_True [simp]: "dropWhile (\<lambda>r. True) rs = []"
  by simp

lemma first_admitted:
  assumes "validate_resource_snapshot s = Inr ()" and "snap_acquisitions s \<noteq> []"
  shows "admitted (hd (snap_acquisitions s))"
proof -
  obtain reqs where r: "snap_acquisitions s = greedy {} reqs" using assms(1) by (rule valid_snapshotE)
  with assms(2) obtain n rs qs where "reqs = (n, rs) # qs" by (cases reqs) auto
  then show ?thesis by (simp add: r admitted_def Let_def next_of_def)
qed

definition runnable_node :: "resource_snapshot \<Rightarrow> string \<Rightarrow> bool" where
  "runnable_node s n \<longleftrightarrow> (\<exists>a\<in>set (snap_acquisitions s). acq_node_id a = n \<and> admitted a)"

definition participant_ids :: "resource_snapshot \<Rightarrow> string list" where
  "participant_ids s = map acq_node_id (snap_acquisitions s)"

interpretation rp: resource_provider "\<lambda>s. validate_resource_snapshot s = Inr ()" participant_ids runnable_node
  "\<lambda>s n. reduce_resources s (ReleaseResources n)"
proof unfold_locales
  fix s t :: resource_snapshot and n :: string
  show "validate_resource_snapshot s = Inr () \<Longrightarrow> distinct (participant_ids s)"
    by (simp add: participant_ids_def valid_nodes_distinct)
  show "\<exists>n\<in>set (participant_ids s). runnable_node s n"
    if "validate_resource_snapshot s = Inr ()" "participant_ids s \<noteq> []"
    using first_admitted [OF that(1)] that(2) hd_in_set [of "snap_acquisitions s"]
    by (intro bexI [of _ "acq_node_id (hd (snap_acquisitions s))"])
       (auto simp: participant_ids_def runnable_node_def)
  assume r: "reduce_resources s (ReleaseResources n) = Inr t"
  then show "validate_resource_snapshot s = Inr () \<and> validate_resource_snapshot t = Inr ()"
    by (auto dest: reduce_resourcesD)
  show "participant_ids t = filter (\<lambda>m. m \<noteq> n) (participant_ids s)"
    using release_effect(1) [OF r]
    by (simp add: participant_ids_def nodes_of_requests filter_map comp_def)
  show "n \<in> set (participant_ids s) \<and> runnable_node s n"
    using reduce_resourcesD(2) [OF r]
    by (auto simp: release_def participant_ids_def runnable_node_def find_Some_iff resE
        split: option.splits if_splits intro: nth_mem)
qed

section \<open>Release without contention\<close>

lemma greedy_filter_admitted:
  assumes "\<forall>a\<in>set (greedy T reqs). admitted a" and "T' \<subseteq> T"
  shows "greedy T' (filter P reqs) = filter (\<lambda>a. P (acq_node_id a, acq_required a)) (greedy T reqs)"
  using assms
proof (induction T reqs arbitrary: T' rule: greedy.induct)
  case (2 taken n rs reqs)
  have "takeWhile (\<lambda>r. r \<notin> taken) rs = rs" using "2.prems"(1) by (simp add: Let_def admitted_def)
  then have free: "\<forall>r\<in>set rs. r \<notin> taken" by (metis set_takeWhileD)
  then have "\<forall>r\<in>set rs. r \<notin> T'" using "2.prems"(2) by blast
  with free have "takeWhile (\<lambda>r. r \<notin> T') rs = takeWhile (\<lambda>r. r \<notin> taken) rs"
    and "dropWhile (\<lambda>r. r \<notin> T') rs = dropWhile (\<lambda>r. r \<notin> taken) rs"
    by (auto intro: takeWhile_cong_set dropWhile_cong_set)
  then have eq: "greedy_step T' n rs = greedy_step taken n rs" by (simp add: greedy_step_def)
  have "greedy T'' (filter P reqs) =
      filter (\<lambda>a. P (acq_node_id a, acq_required a)) (greedy (taken \<union> set (acq_acquired (greedy_step taken n rs))) reqs)"
    if "T'' \<subseteq> taken \<union> set (acq_acquired (greedy_step taken n rs))" for T''
    using "2.prems"(1) that by (intro "2.IH" [OF refl]) (simp_all add: Let_def)
  from this [of T'] this [of "T' \<union> set (acq_acquired (greedy_step taken n rs))"] show ?case
    using "2.prems"(2) by (auto simp: Let_def eq)
qed simp

lemma foldE_free_lock:
  assumes "distinct ids" and "map lock_resource_id ls = ids" and "set rs \<subseteq> set ids"
  shows "foldE (free_lock ids) ls rs =
     Inr (map (\<lambda>l. if lock_resource_id l \<in> set rs then l\<lparr>lock_owner := None\<rparr> else l) ls)"
  using assms
proof (induction rs arbitrary: ls)
  case (Cons r rs)
  define L where "L = map (\<lambda>l. if lock_resource_id l = r then l\<lparr>lock_owner := None\<rparr> else l) ls"
  obtain p where p: "positions ids r = Some p"
    using Cons.prems(3) positions_eq_None [of ids r] by fastforce
  have fl: "free_lock ids ls r = Inr L"
    using update_at_position [OF Cons.prems(1,2) p, of "\<lambda>l. l\<lparr>lock_owner := None\<rparr>"]
    by (simp add: free_lock_def p L_def)
  have "map lock_resource_id L = ids" unfolding L_def Cons.prems(2) [symmetric] by (induction ls) auto
  then have "foldE (free_lock ids) L rs =
      Inr (map (\<lambda>l. if lock_resource_id l \<in> set rs then l\<lparr>lock_owner := None\<rparr> else l) L)"
    using Cons.prems by (intro Cons.IH) auto
  then show ?case using fl by (auto simp: L_def)
qed (simp add: map_idI)

lemma foldE_wake_idle:
  assumes "\<forall>l\<in>set ls. lock_waiters l = []" and "set ps \<subseteq> {..<length ls}"
  shows "foldE (wake_at ids) (ls, bn) ps = Inr (ls, bn)"
  using assms(2)
proof (induction ps)
  case (Cons p ps)
  then have "lock_waiters (ls ! p) = []" using assms(1) by simp
  then have "wake_at ids (ls, bn) p = Inr (ls, bn)" by (simp add: wake_at_def split: option.splits)
  with Cons show ?case by simp
qed simp

lemma lock_of_filter:
  assumes as: "as = greedy {} reqs" and rest: "rest = greedy {} reqs'" and rest_as: "rest = filter (\<lambda>b. acq_node_id b \<noteq> n) as"
    and d: "distinct (map acq_node_id as)" and a: "a \<in> set as" "acq_node_id a = n"
    and adm: "\<forall>b\<in>set as. admitted b"
  shows "(if r \<in> set (acq_acquired a) then (lock_of as r)\<lparr>lock_owner := None\<rparr> else lock_of as r) = lock_of rest r"
proof -
  have w: "lock_waiters (lock_of as r) = []" "lock_waiters (lock_of rest r) = []"
    using adm by (auto simp: lock_of_def rest_as filter_empty_conv admitted_def)
  have mem: "b \<in> set rest \<longleftrightarrow> b \<in> set as \<and> b \<noteq> a" for b
    using distinct_node_unique [OF d _ a(1)] a(2) by (auto simp: rest_as)
  have "lock_owner (lock_of rest r) = (if r \<in> set (acq_acquired a) then None else lock_owner (lock_of as r))"
  proof (cases "lock_owner (lock_of rest r)")
    case None
    then have "r \<notin> taken_by rest" by (simp add: lock_owner_None_iff)
    then have "r \<notin> set (acq_acquired a) \<Longrightarrow> r \<notin> taken_by as" using mem by (auto simp: taken_by_def)
    then have "r \<notin> set (acq_acquired a) \<Longrightarrow> lock_owner (lock_of as r) = None"
      unfolding lock_owner_None_iff .
    then show ?thesis using None by simp
  next
    case (Some m)
    then obtain b where b: "b \<in> set rest" "acq_node_id b = m" "r \<in> set (acq_acquired b)"
      using lock_owner_SomeD by blast
    then have "lock_owner (lock_of as r) = Some m" using mem greedy_lock_owner [of b "{}" reqs r] as by auto
    moreover have "r \<notin> set (acq_acquired a)"
      using greedy_owner_unique [of a "{}" reqs b r] a(1) b mem as by blast
    ultimately show ?thesis using Some by simp
  qed
  then show ?thesis using w by (auto intro!: resource_lock.equality simp: lock_of_def)
qed

lemma release_all_admitted:
  assumes v: "validate_resource_snapshot s = Inr ()" and adm: "\<forall>a\<in>set (snap_acquisitions s). admitted a"
    and n: "n \<in> set (participant_ids s)"
  shows "reduce_resources s (ReleaseResources n) =
     Inr (snapshot_of (resource_ids s) (filter (\<lambda>a. acq_node_id a \<noteq> n) (snap_acquisitions s)))"
proof -
  obtain reqs where reqs: "reqs = requests s" "wf_history (resource_ids s) reqs"
    and as: "snap_acquisitions s = greedy {} reqs"
    and ls: "snap_resources s = map (lock_of (greedy {} reqs)) (resource_ids s)"
    using v by (rule valid_snapshotE)
  let ?ids = "resource_ids s" and ?as = "greedy {} reqs"
  define rest where "rest = filter (\<lambda>a. acq_node_id a \<noteq> n) ?as"
  have ids: "distinct ?ids" and d: "distinct (map acq_node_id ?as)"
    using reqs(2) by (auto simp: wf_history_def greedy_nodes)
  obtain a where a: "a \<in> set ?as" "acq_node_id a = n" using n by (auto simp: participant_ids_def as)
  have fa: "find (\<lambda>a. acq_node_id a = n) ?as = Some a"
    using a distinct_node_unique [OF d _ a(1)] by (intro find_unique) blast+
  have rest: "rest = greedy {} (filter (\<lambda>q. fst q \<noteq> n) reqs)"
    using greedy_filter_admitted [of "{}" reqs "{}" "\<lambda>q. fst q \<noteq> n"] adm as by (simp add: rest_def)
  have acq: "set (rev (acq_acquired a)) \<subseteq> set ?ids"
    using wf_history_greedyD(4,6) [OF reqs(2) a(1)] by auto
  have free: "foldE (free_lock ?ids) (snap_resources s) (rev (acq_acquired a)) = Inr (map (lock_of rest) ?ids)"
  proof -
    let ?F = "\<lambda>l. if lock_resource_id l \<in> set (rev (acq_acquired a)) then l\<lparr>lock_owner := None\<rparr> else l"
    have adm': "\<forall>b\<in>set ?as. admitted b" using adm as by simp
    have "?F (lock_of ?as r) = lock_of rest r" for r
      using lock_of_filter [OF refl rest rest_def d a adm', of r] by simp
    then have eq: "map ?F (map (lock_of ?as) ?ids) = map (lock_of rest) ?ids" by simp
    have "map lock_resource_id (snap_resources s) = ?ids" by (simp add: resource_ids_def)
    note foldE_free_lock [OF ids this acq]
    also have "map ?F (snap_resources s) = map (lock_of rest) ?ids" unfolding ls by (rule eq)
    finally show ?thesis .
  qed
  have wake: "foldE (wake_at ?ids) (map (lock_of rest) ?ids, acquisition_of rest) [0..<length ?ids] =
      Inr (map (lock_of rest) ?ids, acquisition_of rest)"
    using adm as by (intro foldE_wake_idle) (auto simp: lock_of_def rest_def filter_empty_conv admitted_def)
  have out: "mapE (\<lambda>b. case acquisition_of rest (acq_node_id b) of None \<Rightarrow> Inl (KeyError (acq_node_id b))
      | Some b' \<Rightarrow> Inr b') rest = Inr (map (\<lambda>b. b) rest)"
  proof (rule mapE_Inr_map)
    fix b assume "b \<in> set rest"
    moreover have "distinct (map acq_node_id rest)" using d by (simp add: rest_def distinct_map_filter)
    ultimately show "(case acquisition_of rest (acq_node_id b) of None \<Rightarrow> Inl (KeyError (acq_node_id b))
        | Some b' \<Rightarrow> Inr b') = Inr b" by (simp add: acquisition_of_eq)
  qed
  have "release s n = Inr (snapshot_of ?ids rest)"
    using adm a(1) free wake out by (simp add: release_def as fa Let_def rest_def [symmetric] snapshot_of_def)
  moreover have "wf_history ?ids (filter (\<lambda>q. fst q \<noteq> n) reqs)"
    using reqs(2) by (auto simp: wf_history_def distinct_map_filter)
  then have "validate_resource_snapshot (snapshot_of ?ids rest) = Inr ()"
    unfolding validate_resource_snapshot_iff by (simp add: requests_def rest greedy_requests)
  moreover have "is_canonical_identity n" using wf_history_greedyD(1) [OF reqs(2) a(1)] a(2) by simp
  ultimately show ?thesis
    using v by (simp add: reduce_resources_def require_resource_identity_def rest_def as)
qed

section \<open>Properties\<close>

lemma greedy_waits_for_earlier:
  assumes "j < length (greedy T reqs)" and "acq_waiting_for (greedy T reqs ! j) = Some r"
  shows "r \<in> T \<or> (\<exists>i<j. r \<in> set (acq_acquired (greedy T reqs ! i)))"
  using assms
proof (induction T reqs arbitrary: j rule: greedy.induct)
  case (2 taken n rs reqs)
  let ?a = "greedy_step taken n rs"
  show ?case
  proof (cases j)
    case 0
    then have "next_of (dropWhile (\<lambda>r. r \<notin> taken) rs) = Some r" using "2.prems"(2) by (simp add: Let_def)
    then obtain xs where "dropWhile (\<lambda>r. r \<notin> taken) rs = r # xs" by (auto simp: next_of_def split: list.splits)
    then show ?thesis using hd_dropWhile [of "\<lambda>r. r \<notin> taken" rs] by auto
  next
    case (Suc k)
    then have "r \<in> taken \<union> set (acq_acquired ?a) \<or>
        (\<exists>i<k. r \<in> set (acq_acquired (greedy (taken \<union> set (acq_acquired ?a)) reqs ! i)))"
      using "2.prems" by (intro "2.IH") (simp_all add: Let_def)
    then show ?thesis using Suc by (auto simp: Let_def intro: exI [of _ 0] exI [of _ "Suc _"])
  qed
qed simp

definition three_way_snapshot :: resource_snapshot where
  "three_way_snapshot =
     \<lparr>snap_resources =
        [\<lparr>lock_resource_id = ''A'', lock_owner = Some ''n1'', lock_waiters = [''n2'']\<rparr>,
         \<lparr>lock_resource_id = ''B'', lock_owner = Some ''n3'', lock_waiters = []\<rparr>],
      snap_acquisitions =
        [\<lparr>acq_node_id = ''n1'', acq_required = [''A''], acq_acquired = [''A''], acq_waiting_for = None\<rparr>,
         \<lparr>acq_node_id = ''n2'', acq_required = [''A'', ''B''], acq_acquired = [], acq_waiting_for = Some ''A''\<rparr>,
         \<lparr>acq_node_id = ''n3'', acq_required = [''B''], acq_acquired = [''B''], acq_waiting_for = None\<rparr>]\<rparr>"

lemma three_way_valid: "validate_resource_snapshot three_way_snapshot = Inr ()"
  by code_simp

text \<open>
  C26. Validation accepts a resource snapshot exactly when its identities and requests are
  well formed and the whole snapshot (locks, owners, queues, acquired prefixes) is the one
  the greedy in-order assignment of its requests describes.
\<close>

theorem resource_validation_refines_greedy:
  "validate_resource_snapshot s = Inr () \<longleftrightarrow>
     wf_history (resource_ids s) (requests s) \<and>
     s = snapshot_of (resource_ids s) (greedy {} (requests s))"
  by (rule validate_resource_snapshot_iff)

text \<open>
  C29. Acquisition is total on well-formed requests: from a valid snapshot, a new participant
  asking for known distinct resources in the global order always gets a valid successor, in
  which it holds the longest free prefix, waits for the next resource, and nobody else's
  acquisition changes.
\<close>

theorem acquire_total:
  assumes "validate_resource_snapshot s = Inr ()" and "wf_request (resource_ids s) (n, rs)"
    and "n \<notin> set (participant_ids s)"
  shows "reduce_resources s (AcquireResources n rs) =
     Inr (snapshot_of (resource_ids s)
       (snap_acquisitions s @ [greedy_step (taken_by (snap_acquisitions s)) n rs]))"
proof -
  obtain reqs where r: "reqs = requests s" "wf_history (resource_ids s) reqs" "snap_acquisitions s = greedy {} reqs"
    using assms(1) by (rule valid_snapshotE)
  have fresh: "n \<notin> set (map fst reqs)" using assms(3) r(1) by (simp add: participant_ids_def nodes_of_requests)
  have s: "s = snapshot_of (resource_ids s) (snap_acquisitions s)"
    using assms(1) r(1,3) by (metis validate_resource_snapshot_iff)
  have "acquire s n rs = Inr (snapshot_of (resource_ids s)
      (snap_acquisitions s @ [greedy_step (taken_by (snap_acquisitions s)) n rs]))" (is "_ = Inr ?t")
    using acquire_greedy [OF r(3) assms(2) _ fresh] r(2) s by (metis wf_history_def)
  moreover have "?t = snapshot_of (resource_ids s) (greedy {} (reqs @ [(n, rs)]))"
    by (simp add: r(3) greedy_snoc)
  moreover have "wf_history (resource_ids s) (reqs @ [(n, rs)])"
    using r(2) assms(2) fresh by (simp add: wf_history_snoc)
  then have "validate_resource_snapshot (snapshot_of (resource_ids s) (greedy {} (reqs @ [(n, rs)]))) = Inr ()"
    unfolding validate_resource_snapshot_iff by (simp add: requests_def greedy_requests)
  ultimately show ?thesis using assms(1) by (simp add: reduce_resources_def)
qed

theorem acquire_total_witness:
  "reduce_resources three_way_snapshot (AcquireResources ''n4'' [''B'']) =
     Inr (snapshot_of [''A'', ''B''] (snap_acquisitions three_way_snapshot @
       [\<lparr>acq_node_id = ''n4'', acq_required = [''B''], acq_acquired = [], acq_waiting_for = Some ''B''\<rparr>]))"
proof -
  have ids: "resource_ids three_way_snapshot = [''A'', ''B'']" by code_simp
  have "wf_request (resource_ids three_way_snapshot) (''n4'', [''B''])"
    and "''n4'' \<notin> set (participant_ids three_way_snapshot)" by code_simp+
  from acquire_total [OF three_way_valid this] show ?thesis
    unfolding ids by (simp add: three_way_snapshot_def greedy_step_def next_of_def)
qed

text \<open>
  C27. Exclusive ownership and FIFO queues: in a valid snapshot every lock names as owner
  exactly the participant that acquired the resource (so no resource is held twice), and
  its queue is the list of participants waiting for it, in acquisition order.
\<close>

theorem resource_exclusion_fifo:
  assumes "validate_resource_snapshot s = Inr ()" and "l \<in> set (snap_resources s)"
  shows "(\<forall>a\<in>set (snap_acquisitions s). lock_resource_id l \<in> set (acq_acquired a) \<longleftrightarrow>
            lock_owner l = Some (acq_node_id a)) \<and>
         lock_waiters l = map acq_node_id
           (filter (\<lambda>a. acq_waiting_for a = Some (lock_resource_id l)) (snap_acquisitions s))"
proof -
  obtain reqs where r: "wf_history (resource_ids s) reqs" "snap_acquisitions s = greedy {} reqs"
    "snap_resources s = map (lock_of (greedy {} reqs)) (resource_ids s)"
    using assms(1) by (rule valid_snapshotE)
  from assms(2) r(3) obtain q where l: "l = lock_of (greedy {} reqs) q" by auto
  have "q \<in> set (acq_acquired a)" if a: "a \<in> set (greedy {} reqs)" and o: "lock_owner l = Some (acq_node_id a)" for a
    using lock_owner_SomeD [of "greedy {} reqs" q "acq_node_id a"] o l a
      distinct_node_unique [OF wf_history_nodes [OF r(1)]] by metis
  then show ?thesis using greedy_lock_owner [of _ "{}" reqs q] r(2) l by (auto simp: lock_of_def)
qed

theorem resource_exclusion_fifo_witness:
  "lock_owner (hd (snap_resources three_way_snapshot)) = Some ''n1'' \<and>
   lock_waiters (hd (snap_resources three_way_snapshot)) = [''n2'']"
proof -
  have "hd (snap_resources three_way_snapshot) \<in> set (snap_resources three_way_snapshot)"
    by (simp add: three_way_snapshot_def)
  from resource_exclusion_fifo [OF three_way_valid this] show ?thesis
    by (simp add: three_way_snapshot_def)
qed

text \<open>
  C28. Deadlock freedom: in a valid non-empty snapshot the first participant is admitted, and
  every waiting participant waits for a resource held by one that was served before it, so
  the waits-for relation has no cycle.
\<close>

theorem resource_deadlock_free:
  assumes "validate_resource_snapshot s = Inr ()" and "snap_acquisitions s \<noteq> []"
  shows "admitted (hd (snap_acquisitions s)) \<and>
     (\<forall>j<length (snap_acquisitions s). \<forall>r. acq_waiting_for (snap_acquisitions s ! j) = Some r \<longrightarrow>
        (\<exists>i<j. r \<in> set (acq_acquired (snap_acquisitions s ! i))))"
proof -
  obtain reqs where "snap_acquisitions s = greedy {} reqs" using assms(1) by (rule valid_snapshotE)
  then show ?thesis using first_admitted [OF assms] greedy_waits_for_earlier [of _ "{}" reqs] by auto
qed

theorem resource_deadlock_free_witness:
  "\<exists>i<(1::nat). ''A'' \<in> set (acq_acquired (snap_acquisitions three_way_snapshot ! i))"
proof -
  have "snap_acquisitions three_way_snapshot \<noteq> []" by (simp add: three_way_snapshot_def)
  from resource_deadlock_free [OF three_way_valid this]
  have "\<forall>r. acq_waiting_for (snap_acquisitions three_way_snapshot ! 1) = Some r \<longrightarrow>
      (\<exists>i<1. r \<in> set (acq_acquired (snap_acquisitions three_way_snapshot ! i)))"
    by (simp add: three_way_snapshot_def)
  then show ?thesis by (simp add: three_way_snapshot_def)
qed

text \<open>
  C30. A release that succeeds leaves exactly the snapshot in which the released participant
  had never asked: the remaining requests, in order, served greedily over the same locks.
\<close>

theorem release_exact:
  assumes "reduce_resources s (ReleaseResources n) = Inr t"
  shows "t = snapshot_of (resource_ids s) (greedy {} (filter (\<lambda>q. fst q \<noteq> n) (requests s)))"
  by (rule release_effect(3) [OF assms])

theorem release_exact_witness:
  "reduce_resources three_way_snapshot (ReleaseResources ''n3'') =
     Inr (snapshot_of [''A'', ''B''] (greedy {} [(''n1'', [''A'']), (''n2'', [''A'', ''B''])]))"
proof -
  obtain t where t: "reduce_resources three_way_snapshot (ReleaseResources ''n3'') = Inr t"
  proof -
    have "isOK (reduce_resources three_way_snapshot (ReleaseResources ''n3''))" by code_simp
    then show thesis using that by (auto simp: isOK_iff)
  qed
  have "resource_ids three_way_snapshot = [''A'', ''B'']" by code_simp
  moreover have "filter (\<lambda>q. fst q \<noteq> ''n3'') (requests three_way_snapshot) = [(''n1'', [''A'']), (''n2'', [''A'', ''B''])]"
    by code_simp
  ultimately show ?thesis using t release_exact [OF t] by simp
qed

end
