(* ===== verification/Graph_Model.thy ===== *)
theory Graph_Model
  imports Resource_Properties
begin

text \<open>
  The data of one graph run: \<open>routing.py\<close>, \<open>frontier_model.py\<close>, \<open>model.py\<close> and
  \<open>command.py\<close> of \<open>mote_kernel/state/graph_state\<close>. The run state is the record
  \<open>graph_run_state\<close>; a union of dataclasses is a datatype with the source's constructors.
  A class whose instances the code re-admits has its checked constructor \<open>mk_\<dots>\<close> and its
  \<open>admit_\<dots>\<close>, with the exception the source raises.

  The lemmas give the exact acceptance condition of every checked constructor, the priority
  order of \<open>frontier_status\<close>, and the monotonicity of the Config cursor.
\<close>

section \<open>Routing contributions and activation causes\<close>

datatype graph_routing = ContinueGraphRouting | SelectGraphRoute string

fun selected_route :: "graph_routing \<Rightarrow> string option" where
  "selected_route (SelectGraphRoute r) = Some r"
| "selected_route ContinueGraphRouting = None"

datatype activation_cause =
    StartActivationCause
  | RoutedActivationCause "activation_reference list" "graph_join_occurrence option"

definition reference_nodes :: "activation_reference list \<Rightarrow> string list" where
  "reference_nodes refs = map (\<lambda>r. act_node_id (ref_activation r)) refs"

definition mk_RoutedActivationCause ::
  "activation_reference list \<Rightarrow> graph_join_occurrence option \<Rightarrow> activation_cause res" where
  "mk_RoutedActivationCause refs occ =
     (if refs = [] then Inl (ValueError ''routed activation cause requires at least one reference'')
      else if refs \<noteq> sorted_set_key canonical_key refs
      then Inl (ValueError ''routed activation cause references must be canonical and distinct'')
      else (case occ of
        None \<Rightarrow>
          if length refs \<noteq> 1 then Inl (ValueError ''non-Join routed cause requires exactly one reference'')
          else Inr (RoutedActivationCause refs None)
      | Some oc \<Rightarrow>
          if \<not> distinct (reference_nodes refs) \<or> set (reference_nodes refs) \<noteq> set (join_sources (occ_join oc))
          then Inl (ValueError ''routed Join cause must contain exactly one reference per source'')
          else if \<exists>r\<in>set refs. act_run_id (ref_activation r) \<noteq> occ_run_id oc \<or>
                    act_superstep (ref_activation r) \<ge> occ_target_superstep oc
          then Inl (ValueError ''routed Join cause references must precede their target coordinate'')
          else Inr (RoutedActivationCause refs occ)))"

datatype frontier_activation =
  GraphFrontierActivation (fa_node_id: string) (fa_cause: activation_cause)

definition mk_GraphFrontierActivation :: "string \<Rightarrow> activation_cause \<Rightarrow> frontier_activation res" where
  "mk_GraphFrontierActivation n c =
     (if \<not> is_canonical_identity n then Inl (ValueError ''frontier activation node_id must be canonical'')
      else Inr (GraphFrontierActivation n c))"

section \<open>Frontiers\<close>

datatype frontier_status_value = EXECUTABLE | FRONTIER_FAILED | AWAITING_RESUME | SETTLED

record resume_codec =
  codec_id :: string
  codec_version :: int

type_synonym py_bytes = "char list"

datatype node_input_binding = UseStepRequestInput | OverrideGraphNodeInput py_bytes

record interrupt_identity =
  ii_run_id :: string
  ii_superstep :: int
  ii_node_id :: string
  ii_execution_generation :: int

record node_interrupt =
  ni_identity :: interrupt_identity
  ni_request_payload :: py_bytes

datatype node_settlement =
    PendingGraphNode node_input_binding
  | SucceededGraphNode graph_routing
  | FailedGraphNode string
  | InterruptedGraphNode node_interrupt

fun is_pending :: "node_settlement \<Rightarrow> bool" where
  "is_pending (PendingGraphNode _) = True"
| "is_pending _ = False"

fun is_failed :: "node_settlement \<Rightarrow> bool" where
  "is_failed (FailedGraphNode _) = True"
| "is_failed _ = False"

fun is_interrupted :: "node_settlement \<Rightarrow> bool" where
  "is_interrupted (InterruptedGraphNode _) = True"
| "is_interrupted _ = False"

fun is_succeeded :: "node_settlement \<Rightarrow> bool" where
  "is_succeeded (SucceededGraphNode _) = True"
| "is_succeeded _ = False"

record frontier_node_record =
  fn_node_id :: string
  fn_settlement :: node_settlement
  fn_cause :: activation_cause

type_synonym graph_frontier = "frontier_node_record list"

definition frontier_status :: "graph_frontier \<Rightarrow> frontier_status_value res" where
  "frontier_status nodes =
     (let ss = map fn_settlement nodes in
      if list_ex is_pending ss then Inr EXECUTABLE
      else if list_ex is_failed ss then Inr FRONTIER_FAILED
      else if list_ex is_interrupted ss then Inr AWAITING_RESUME
      else if ss \<noteq> [] \<and> list_all is_succeeded ss then Inr SETTLED
      else Inl (ValueError ''a graph frontier has no valid derived status''))"

definition frontier_node :: "graph_frontier \<Rightarrow> string \<Rightarrow> frontier_node_record option" where
  "frontier_node nodes n = find (\<lambda>x. fn_node_id x = n) nodes"

definition pending_node_ids :: "graph_frontier \<Rightarrow> string list" where
  "pending_node_ids nodes = map fn_node_id (filter (\<lambda>x. is_pending (fn_settlement x)) nodes)"

definition interrupted_node_ids :: "graph_frontier \<Rightarrow> string list" where
  "interrupted_node_ids nodes = map fn_node_id (filter (\<lambda>x. is_interrupted (fn_settlement x)) nodes)"

definition routing_contributions :: "graph_frontier \<Rightarrow> (string \<times> graph_routing) list" where
  "routing_contributions nodes =
     concat (map (\<lambda>x. case fn_settlement x of SucceededGraphNode r \<Rightarrow> [(fn_node_id x, r)] | _ \<Rightarrow> []) nodes)"

section \<open>Config cursors\<close>

datatype config_cursor =
  GraphConfigCursor (cc_definition_id: string) (cc_definition_version: int) (cc_revision: int)
    (cc_digest: "string option")

definition mk_GraphConfigCursor :: "string \<Rightarrow> int \<Rightarrow> int \<Rightarrow> string option \<Rightarrow> config_cursor res" where
  "mk_GraphConfigCursor d v r g =
     (if \<not> is_canonical_identity d then Inl (ValueError ''config definition identity must be canonical'')
      else if v < 1 then Inl (ValueError ''config definition version must be positive'')
      else if r < 1 then Inl (ValueError ''config revision must be positive'')
      else if (case g of None \<Rightarrow> False | Some x \<Rightarrow> x = [] \<or> x \<noteq> py_strip x)
      then Inl (ValueError ''config digest must be a non-empty string when present'')
      else if r > 1 \<and> g = None
      then Inl (ValueError ''a successor Config revision requires its snapshot digest'')
      else Inr (GraphConfigCursor d v r g))"

definition admit_cursor :: "config_cursor \<Rightarrow> config_cursor res" where
  "admit_cursor c =
     catchE (mk_GraphConfigCursor (cc_definition_id c) (cc_definition_version c) (cc_revision c) (cc_digest c))
       (\<lambda>_. Inl (TypeError ''Config cursor is malformed''))"

definition transition_to :: "config_cursor \<Rightarrow> config_cursor \<Rightarrow> config_cursor res" where
  "transition_to self candidate =
     bindE (admit_cursor candidate) (\<lambda>c.
     if cc_definition_id c \<noteq> cc_definition_id self \<or> cc_definition_version c \<noteq> cc_definition_version self
     then Inl (ValueError ''node settlement cannot change the Config identity or version'')
     else if cc_revision c = cc_revision self
     then (if cc_digest self \<noteq> None \<and> cc_digest c \<noteq> None \<and> cc_digest c \<noteq> cc_digest self
           then Inl (ValueError ''node settlement Config digest conflicts at the same revision'')
           else if cc_digest self = None \<and> cc_digest c \<noteq> None then Inr c
           else Inr self)
     else if cc_revision c = cc_revision self + 1 then Inr c
     else if cc_revision c < cc_revision self
     then Inl (ValueError ''node settlement Config revision cannot move backwards'')
     else Inl (ValueError ''node settlement Config revision must advance exactly once''))"

definition admit_history :: "config_cursor \<Rightarrow> config_cursor \<Rightarrow> unit res" where
  "admit_history self reference =
     bindE (admit_cursor reference) (\<lambda>c.
     if cc_definition_id c \<noteq> cc_definition_id self \<or> cc_definition_version c \<noteq> cc_definition_version self
     then Inl (ValueError ''historical Config must belong to the same definition and version'')
     else if cc_revision c > cc_revision self
     then Inl (ValueError ''historical Config cannot be newer than its authoritative state'')
     else if cc_revision c = cc_revision self \<and> cc_digest c \<noteq> cc_digest self
     then Inl (ValueError ''historical Config digest must match its authoritative revision'')
     else Inr ())"

section \<open>Tokens, evidence and publication settlements\<close>

datatype run_status = RUNNING | COMPLETED | FAILED | ABORTED

datatype execution_token =
  GraphExecutionToken (tok_generation: int) (tok_attempt_id: string)

definition admit_token :: "execution_token \<Rightarrow> execution_token res" where
  "admit_token t =
     (if tok_generation t < 1
      then Inl (ValueError ''execution token generation must be an exact positive integer'')
      else if \<not> is_canonical_identity (tok_attempt_id t)
      then Inl (ValueError ''execution attempt identity must be canonical'')
      else Inr (GraphExecutionToken (tok_generation t) (tok_attempt_id t)))"

datatype evidence_commitment = GraphEvidenceCommitment (ev_digest: py_bytes)

definition mk_GraphEvidenceCommitment :: "py_bytes \<Rightarrow> evidence_commitment res" where
  "mk_GraphEvidenceCommitment d =
     (if length d \<noteq> 32 then Inl (ValueError ''graph evidence commitment must be an exact SHA-256 digest'')
      else Inr (GraphEvidenceCommitment d))"

definition admit_evidence :: "evidence_commitment \<Rightarrow> evidence_commitment res" where
  "admit_evidence e =
     catchE (mk_GraphEvidenceCommitment (ev_digest e))
       (\<lambda>_. Inl (ValueError ''graph evidence commitment is malformed''))"

datatype publication_settlement =
  GraphPublicationSettlement (ps_reference: activation_reference) (ps_commit_revision: int)
    (ps_execution: execution_token) (ps_evidence: "evidence_commitment option")

definition admit_publication :: "publication_settlement \<Rightarrow> publication_settlement res" where
  "admit_publication p =
     catchE
       (bindE (mk_GraphActivationIdentity (act_run_id (ref_activation (ps_reference p)))
                 (act_superstep (ref_activation (ps_reference p))) (act_node_id (ref_activation (ps_reference p)))) (\<lambda>a.
        bindE (mk_ActivationReference a (ref_route (ps_reference p))) (\<lambda>ref.
        if ps_commit_revision p < 1
        then Inl (ValueError ''publication settlement revision must be positive'')
        else bindE (admit_token (ps_execution p)) (\<lambda>tok.
        bindE (case ps_evidence p of None \<Rightarrow> Inr None
               | Some e \<Rightarrow> bindE (admit_evidence e) (\<lambda>e'. Inr (Some e'))) (\<lambda>ev.
        Inr (GraphPublicationSettlement ref (ps_commit_revision p) tok ev))))))
       (\<lambda>_. Inl (ValueError ''graph publication settlement is malformed''))"

definition publication_key :: "publication_settlement \<Rightarrow> reference_key" where
  "publication_key p = canonical_key (ps_reference p)"

datatype join_progress_record =
  GraphJoinProgress (jp_occurrence: graph_join_occurrence) (jp_arrived: "activation_reference list")

section \<open>Run state and commands\<close>

record graph_run_state =
  gr_run_id :: string
  gr_definition_id :: string
  gr_definition_version :: int
  gr_status :: run_status
  gr_superstep :: int
  gr_frontier :: graph_frontier
  gr_execution_sequence :: int
  gr_resume_input_codec :: "resume_codec option"
  gr_join_progress :: "join_progress_record list"
  gr_graph_input_evidence :: "evidence_commitment option"
  gr_settled_publications :: "publication_settlement list"
  gr_resources :: "resource_snapshot option"
  gr_execution :: "execution_token option"
  gr_abort :: "string option"
  gr_parent :: "graph_activation_identity option"
  gr_revision :: int
  gr_completion_route :: "string option"
  gr_config_revision :: int
  gr_config_definition_id :: "string option"
  gr_config_definition_version :: "int option"
  gr_config_digest :: "string option"

definition config_cursor_of :: "graph_run_state \<Rightarrow> config_cursor res" where
  "config_cursor_of s =
     (case (gr_config_definition_id s, gr_config_definition_version s) of
        (Some d, Some v) \<Rightarrow> mk_GraphConfigCursor d v (gr_config_revision s) (gr_config_digest s)
      | _ \<Rightarrow> Inl (ValueError ''graph state is missing its Config identity''))"

datatype node_outcome =
    SucceededGraphNodeOutcome string graph_routing
  | FailedGraphNodeOutcome string string
  | InterruptedGraphNodeOutcome string interrupt_identity py_bytes

fun outcome_node_id :: "node_outcome \<Rightarrow> string" where
  "outcome_node_id (SucceededGraphNodeOutcome n _) = n"
| "outcome_node_id (FailedGraphNodeOutcome n _) = n"
| "outcome_node_id (InterruptedGraphNodeOutcome n _ _) = n"

record resume_interrupted_node =
  ri_node_id :: string
  ri_interrupt_id :: string
  ri_input :: py_bytes

record start_graph_run_command =
  sg_run_id :: string
  sg_definition_id :: string
  sg_definition_version :: int
  sg_activations :: "frontier_activation list"
  sg_parent :: "graph_activation_identity option"
  sg_resume_input_codec :: "resume_codec option"
  sg_config_cursor :: "config_cursor option"
  sg_graph_input_evidence :: "evidence_commitment option"

record settle_graph_node_command =
  sn_expected_revision :: int
  sn_execution :: execution_token
  sn_outcome :: node_outcome
  sn_config_cursor :: "config_cursor option"
  sn_publication_evidence :: "evidence_commitment option"

record advance_graph_frontier_command =
  af_expected_revision :: int
  af_activations :: "frontier_activation list"
  af_join_progress :: "join_progress_record list"
  af_consumed_join_progress :: "graph_join_occurrence list"

datatype graph_run_command =
    StartGraphRun start_graph_run_command
  | ClaimGraphExecution int string "resource_snapshot option"
  | FenceGraphExecution int execution_token
  | SettleGraphNode settle_graph_node_command
  | ResumeGraphNodes int "resume_interrupted_node list"
  | AdvanceGraphFrontier advance_graph_frontier_command
  | CompleteGraphFrontier int "graph_join_occurrence list" "string option"
  | AbortGraphRun int string

section \<open>What the checked constructors accept\<close>

lemma mk_RoutedActivationCause_ok [resE]:
  "mk_RoutedActivationCause refs occ = Inr c \<longleftrightarrow>
     refs \<noteq> [] \<and> canonical_by canonical_key refs \<and> c = RoutedActivationCause refs occ \<and>
     (case occ of
        None \<Rightarrow> length refs = 1
      | Some oc \<Rightarrow> distinct (reference_nodes refs) \<and> set (reference_nodes refs) = set (join_sources (occ_join oc)) \<and>
          (\<forall>r\<in>set refs. act_run_id (ref_activation r) = occ_run_id oc \<and>
              act_superstep (ref_activation r) < occ_target_superstep oc))"
  by (cases occ) (auto simp: mk_RoutedActivationCause_def canonical_by_def not_le [symmetric])

lemma mk_GraphFrontierActivation_ok [resE]:
  "mk_GraphFrontierActivation n c = Inr a \<longleftrightarrow> is_canonical_identity n \<and> a = GraphFrontierActivation n c"
  by (auto simp: mk_GraphFrontierActivation_def)

definition wf_cursor :: "config_cursor \<Rightarrow> bool" where
  "wf_cursor c \<longleftrightarrow> is_canonical_identity (cc_definition_id c) \<and> 1 \<le> cc_definition_version c \<and> 1 \<le> cc_revision c \<and>
     (\<forall>g. cc_digest c = Some g \<longrightarrow> g \<noteq> [] \<and> g = py_strip g) \<and> (1 < cc_revision c \<longrightarrow> cc_digest c \<noteq> None)"

lemma mk_GraphConfigCursor_ok [resE]:
  "mk_GraphConfigCursor d v r g = Inr c \<longleftrightarrow> c = GraphConfigCursor d v r g \<and> wf_cursor c"
  by (auto simp: mk_GraphConfigCursor_def wf_cursor_def split: option.splits)

lemma admit_cursor_ok [resE]: "admit_cursor c = Inr c' \<longleftrightarrow> c' = c \<and> wf_cursor c"
  by (cases c) (auto simp: admit_cursor_def resE)

definition wf_token :: "execution_token \<Rightarrow> bool" where
  "wf_token t \<longleftrightarrow> 1 \<le> tok_generation t \<and> is_canonical_identity (tok_attempt_id t)"

lemma admit_token_ok [resE]: "admit_token t = Inr t' \<longleftrightarrow> t' = t \<and> wf_token t"
  by (cases t) (auto simp: admit_token_def wf_token_def)

definition wf_evidence :: "evidence_commitment \<Rightarrow> bool" where
  "wf_evidence e \<longleftrightarrow> length (ev_digest e) = 32"

lemma admit_evidence_ok [resE]: "admit_evidence e = Inr e' \<longleftrightarrow> e' = e \<and> wf_evidence e"
  by (cases e) (auto simp: admit_evidence_def mk_GraphEvidenceCommitment_def wf_evidence_def)

definition wf_reference :: "activation_reference \<Rightarrow> bool" where
  "wf_reference r \<longleftrightarrow> is_canonical_identity (act_run_id (ref_activation r)) \<and> 0 \<le> act_superstep (ref_activation r) \<and>
     is_canonical_identity (act_node_id (ref_activation r)) \<and> (\<forall>v. ref_route r = Some v \<longrightarrow> is_canonical_identity v)"

definition wf_publication :: "publication_settlement \<Rightarrow> bool" where
  "wf_publication p \<longleftrightarrow> wf_reference (ps_reference p) \<and> 1 \<le> ps_commit_revision p \<and> wf_token (ps_execution p) \<and>
     (\<forall>e. ps_evidence p = Some e \<longrightarrow> wf_evidence e)"

lemma admit_publication_ok [resE]: "admit_publication p = Inr p' \<longleftrightarrow> p' = p \<and> wf_publication p"
proof (cases p)
  case (GraphPublicationSettlement ref rev tok ev)
  obtain a rt where ref: "ref = ActivationReference a rt" by (cases ref)
  obtain r k n where a: "a = GraphActivationIdentity r k n" by (cases a)
  show ?thesis
    unfolding GraphPublicationSettlement ref a
    by (auto simp: admit_publication_def wf_publication_def wf_reference_def resE split: option.splits if_splits)
qed

section \<open>Frontier status and Config monotonicity\<close>

lemma frontier_status_cases:
  "frontier_status f = Inr EXECUTABLE \<longleftrightarrow> (\<exists>x\<in>set f. is_pending (fn_settlement x))"
  "frontier_status f = Inr FRONTIER_FAILED \<longleftrightarrow>
     (\<forall>x\<in>set f. \<not> is_pending (fn_settlement x)) \<and> (\<exists>x\<in>set f. is_failed (fn_settlement x))"
  "frontier_status f = Inr AWAITING_RESUME \<longleftrightarrow>
     (\<forall>x\<in>set f. \<not> is_pending (fn_settlement x) \<and> \<not> is_failed (fn_settlement x)) \<and>
     (\<exists>x\<in>set f. is_interrupted (fn_settlement x))"
  "frontier_status f = Inr SETTLED \<longleftrightarrow> f \<noteq> [] \<and> (\<forall>x\<in>set f. is_succeeded (fn_settlement x))"
proof -
  have disj: "is_succeeded s \<Longrightarrow> \<not> is_pending s \<and> \<not> is_failed s \<and> \<not> is_interrupted s" for s
    by (cases s) auto
  show "frontier_status f = Inr EXECUTABLE \<longleftrightarrow> (\<exists>x\<in>set f. is_pending (fn_settlement x))"
    "frontier_status f = Inr FRONTIER_FAILED \<longleftrightarrow>
     (\<forall>x\<in>set f. \<not> is_pending (fn_settlement x)) \<and> (\<exists>x\<in>set f. is_failed (fn_settlement x))"
    "frontier_status f = Inr AWAITING_RESUME \<longleftrightarrow>
     (\<forall>x\<in>set f. \<not> is_pending (fn_settlement x) \<and> \<not> is_failed (fn_settlement x)) \<and>
     (\<exists>x\<in>set f. is_interrupted (fn_settlement x))"
    by (auto simp: frontier_status_def Let_def list_ex_iff list_all_iff)
  show "frontier_status f = Inr SETTLED \<longleftrightarrow> f \<noteq> [] \<and> (\<forall>x\<in>set f. is_succeeded (fn_settlement x))"
    using disj by (auto simp: frontier_status_def Let_def list_ex_iff list_all_iff)
qed

lemma settlement_cases: "is_pending s \<or> is_failed s \<or> is_interrupted s \<or> is_succeeded s"
  by (cases s) auto

lemma frontier_status_total: "f \<noteq> [] \<Longrightarrow> \<exists>v. frontier_status f = Inr v"
  using settlement_cases by (auto simp: frontier_status_def Let_def list_ex_iff list_all_iff)

lemma pending_node_ids_nonempty: "pending_node_ids f \<noteq> [] \<longleftrightarrow> frontier_status f = Inr EXECUTABLE"
  by (auto simp: pending_node_ids_def frontier_status_cases filter_empty_conv)

lemma frontier_node_SomeD: "frontier_node f n = Some x \<Longrightarrow> x \<in> set f \<and> fn_node_id x = n"
  by (auto simp: frontier_node_def find_Some_iff)

lemma frontier_node_unique:
  "distinct (map fn_node_id f) \<Longrightarrow> x \<in> set f \<Longrightarrow> frontier_node f (fn_node_id x) = Some x"
  unfolding frontier_node_def by (rule find_unique) (auto simp: distinct_map inj_on_def)

lemma transition_to_wf:
  "transition_to c d = Inr e \<Longrightarrow> wf_cursor c \<Longrightarrow>
     wf_cursor e \<and> cc_definition_id e = cc_definition_id c \<and> cc_definition_version e = cc_definition_version c \<and>
     cc_revision c \<le> cc_revision e \<and> cc_revision e \<le> cc_revision c + 1"
  by (auto simp: transition_to_def resE split: if_splits)

end
