(* ===== verification/State_Validation.thy ===== *)
theory State_Validation
  imports Graph_Model
begin

text \<open>
  \<open>mote_kernel/state/graph_state/validation.py\<close>: the invariants of a recovered or reduced
  run state, check by check, with the error each check raises. \<open>State_Invariant\<close> states the
  same invariant as a predicate and shows that validation succeeds exactly on the states that
  satisfy it.
\<close>

section \<open>Shared checks\<close>

definition state_error :: "string \<Rightarrow> kernel_error" where
  "state_error m = GraphStateTransitionError m"

definition except_resource_error :: "'a res \<Rightarrow> string \<Rightarrow> 'a res" where
  "except_resource_error m msg =
     catchE m (\<lambda>e. case e of ResourceTransitionError _ \<Rightarrow> Inl (state_error msg) | _ \<Rightarrow> Inl e)"

lemma except_resource_error_ok [resE]: "except_resource_error m msg = Inr y \<longleftrightarrow> m = Inr y"
proof (cases m)
  case (Inl e)
  then show ?thesis by (cases e) (auto simp: except_resource_error_def)
qed (simp add: except_resource_error_def)

definition require_identity :: "string \<Rightarrow> string \<Rightarrow> unit res" where
  "require_identity v field =
     raise_unless (is_canonical_identity v) (state_error (field @ '' must be non-empty and trimmed''))"

definition canonical_references :: "activation_reference list \<Rightarrow> string \<Rightarrow> unit res" where
  "canonical_references refs field =
     raise_unless (refs = sorted_set_key canonical_key refs)
       (state_error (field @ '' must be canonical and distinct''))"

definition check_reference_activation :: "activation_reference \<Rightarrow> string \<Rightarrow> unit res" where
  "check_reference_activation r field =
     (let a = ref_activation r in
      bindE (require_identity (act_run_id a) (field @ '' run identity'')) (\<lambda>_.
      bindE (raise_if (act_superstep a < 0)
        (state_error (field @ '' superstep must be a non-negative integer''))) (\<lambda>_.
      bindE (require_identity (act_node_id a) (field @ '' node identity'')) (\<lambda>_.
      (case ref_route r of None \<Rightarrow> Inr () | Some v \<Rightarrow> require_identity v (field @ '' route identity''))))))"

section \<open>The publication ledger\<close>

definition check_publication :: "graph_run_state \<Rightarrow> publication_settlement \<Rightarrow> unit res" where
  "check_publication s p =
     (let ref = ps_reference p; a = ref_activation ref in
      bindE (check_reference_activation ref ''settled publication evidence'') (\<lambda>_.
      bindE (raise_if (act_run_id a \<noteq> gr_run_id s \<or> act_superstep a > gr_superstep s)
        (state_error ''settled publication evidence has an invalid coordinate'')) (\<lambda>_.
      bindE (raise_if (ps_commit_revision p > gr_revision s)
        (state_error ''settled publication revision exceeds its authoritative state'')) (\<lambda>_.
      bindE (raise_if (tok_generation (ps_execution p) > gr_execution_sequence s)
        (state_error ''settled publication execution exceeds its authoritative state'')) (\<lambda>_.
      if act_superstep a = gr_superstep s \<and> gr_status s \<noteq> COMPLETED
      then (case frontier_node (gr_frontier s) (act_node_id a) of
              None \<Rightarrow> Inl (state_error ''current settled publication has no successful frontier node'')
            | Some x \<Rightarrow> (case fn_settlement x of
                SucceededGraphNode routing \<Rightarrow>
                  raise_unless (ref_route ref = selected_route routing)
                    (state_error ''settled publication route does not match its frontier settlement'')
              | _ \<Rightarrow> Inl (state_error ''current settled publication has no successful frontier node'')))
      else Inr ())))))"

definition frontier_publications :: "graph_run_state \<Rightarrow> activation_reference list res" where
  "frontier_publications s =
     mapE (\<lambda>(n, routing).
        bindE (mk_GraphActivationIdentity (gr_run_id s) (gr_superstep s) n) (\<lambda>a.
        mk_ActivationReference a (selected_route routing)))
       (routing_contributions (gr_frontier s))"

definition validate_settled_publications :: "graph_run_state \<Rightarrow> unit res" where
  "validate_settled_publications s =
     bindE (catchE (mapE admit_publication (gr_settled_publications s))
       (\<lambda>_. Inl (state_error ''settled publication evidence contains a malformed record''))) (\<lambda>admitted_items.
     (let references = map ps_reference admitted_items in
      bindE (canonical_references references ''settled publication evidence'') (\<lambda>_.
      bindE (raise_unless (distinct (map ref_activation references))
        (state_error ''settled publication evidence repeats one activation'')) (\<lambda>_.
      bindE (raise_unless (distinct (map ps_commit_revision admitted_items))
        (state_error ''settled publication evidence repeats one commit revision'')) (\<lambda>_.
      bindE (forE (check_publication s) admitted_items) (\<lambda>_.
      if gr_status s \<noteq> COMPLETED
      then bindE (frontier_publications s) (\<lambda>frontier_refs.
           raise_unless (set (filter (\<lambda>r. act_superstep (ref_activation r) = gr_superstep s) references) =
               set frontier_refs)
             (state_error ''current successful frontier and publication ledger disagree''))
      else Inr ()))))))"

definition terminal_settlements :: "graph_run_state \<Rightarrow> publication_settlement list" where
  "terminal_settlements s =
     filter (\<lambda>p. act_superstep (ref_activation (ps_reference p)) = gr_superstep s) (gr_settled_publications s)"

definition validate_completed_graph_provenance :: "graph_run_state \<Rightarrow> unit res" where
  "validate_completed_graph_provenance s =
     (let terminal = terminal_settlements s;
          routes = remdups (map (\<lambda>p. ref_route (ps_reference p)) terminal)
      in bindE (raise_if (terminal = [])
           (state_error ''completed graph lacks terminal settlement provenance'')) (\<lambda>_.
         bindE (raise_if (\<exists>p\<in>set terminal. ps_commit_revision p \<ge> gr_revision s)
           (state_error ''terminal settlement must precede the completed state revision'')) (\<lambda>_.
         raise_if (length routes \<noteq> 1 \<or> hd routes \<noteq> gr_completion_route s)
           (state_error ''completed graph route does not match terminal settlement provenance''))))"

section \<open>Join progress\<close>

definition validate_join_occurrence :: "graph_run_state \<Rightarrow> graph_join_occurrence \<Rightarrow> unit res" where
  "validate_join_occurrence s oc =
     (let sources = join_sources (occ_join oc); target = join_target (occ_join oc) in
      bindE (raise_if (length sources < 2 \<or> (\<exists>x\<in>set sources. \<not> is_canonical_identity x) \<or> sources \<noteq> sorted_set sources)
        (state_error ''join definition sources must be distinct and canonical'')) (\<lambda>_.
      bindE (raise_if (\<not> is_canonical_identity target \<or> target \<in> set sources)
        (state_error ''join definition target is invalid'')) (\<lambda>_.
      bindE (raise_if (occ_run_id oc \<noteq> gr_run_id s \<or> \<not> is_canonical_identity (occ_run_id oc))
        (state_error ''join occurrence belongs to the wrong graph run'')) (\<lambda>_.
      raise_if (occ_target_superstep oc < 1)
        (state_error ''join occurrence target superstep must be positive'')))))"

definition check_arrival :: "graph_run_state \<Rightarrow> graph_join_occurrence \<Rightarrow> activation_reference \<Rightarrow> unit res" where
  "check_arrival s oc r =
     (let a = ref_activation r in
      bindE (check_reference_activation r ''join progress arrivals'') (\<lambda>_.
      bindE (raise_if (act_run_id a \<noteq> occ_run_id oc \<or> act_superstep a \<ge> gr_superstep s \<or>
            act_superstep a \<ge> occ_target_superstep oc \<or> act_node_id a \<notin> set (join_sources (occ_join oc)))
        (state_error ''join progress contains an invalid predecessor arrival'')) (\<lambda>_.
      raise_unless (r \<in> set (map ps_reference (gr_settled_publications s)))
        (state_error ''join progress arrival lacks committed settlement evidence''))))"

definition check_progress :: "graph_run_state \<Rightarrow> graph_join_occurrence list \<Rightarrow> join_progress_record \<Rightarrow>
    graph_join_occurrence list res" where
  "check_progress s seen j =
     (let oc = jp_occurrence j; sources = join_sources (occ_join oc); arrived = jp_arrived j;
          arrived_sources = reference_nodes arrived in
      bindE (raise_if (occ_target_superstep oc \<le> gr_superstep s)
        (state_error ''pending join occurrence must target a future superstep'')) (\<lambda>_.
      bindE (raise_if (arrived = [])
        (state_error ''join progress arrivals must be canonical and distinct'')) (\<lambda>_.
      bindE (canonical_references arrived ''join progress arrivals'') (\<lambda>_.
      bindE (raise_if (\<not> distinct arrived_sources \<or> \<not> set arrived_sources \<subset> set sources)
        (state_error ''join progress must contain partial arrivals'')) (\<lambda>_.
      bindE (forE (check_arrival s oc) arrived) (\<lambda>_.
      bindE (raise_if (oc \<in> set seen) (state_error ''graph state repeats join progress'')) (\<lambda>_.
      Inr (oc # seen))))))))"

definition validate_join_progress :: "graph_run_state \<Rightarrow> unit res" where
  "validate_join_progress s =
     (let progress = gr_join_progress s in
      bindE (forE (\<lambda>j. validate_join_occurrence s (jp_occurrence j)) progress) (\<lambda>_.
      bindE (raise_unless (progress = sort_key jp_occurrence progress)
        (state_error ''join progress must use canonical order'')) (\<lambda>_.
      bindE (foldE (check_progress s) [] progress) (\<lambda>_. Inr ()))))"

section \<open>Frontier nodes\<close>

definition validate_interrupt_identity :: "graph_run_state \<Rightarrow> interrupt_identity \<Rightarrow> unit res" where
  "validate_interrupt_identity s i =
     raise_if (ii_run_id i \<noteq> gr_run_id s \<or> ii_superstep i \<noteq> gr_superstep s \<or>
         ii_execution_generation i < 1 \<or> ii_execution_generation i > gr_execution_sequence s)
       (state_error ''interrupt identity does not match its current activation'')"

fun validate_routing :: "graph_routing \<Rightarrow> unit res" where
  "validate_routing (SelectGraphRoute r) = require_identity r ''graph route identity''"
| "validate_routing ContinueGraphRouting = Inr ()"

definition check_cause_reference :: "graph_run_state \<Rightarrow> activation_reference \<Rightarrow> unit res" where
  "check_cause_reference s r =
     (let a = ref_activation r in
      bindE (check_reference_activation r ''routed activation cause'') (\<lambda>_.
      bindE (raise_if (act_run_id a \<noteq> gr_run_id s \<or> act_superstep a \<ge> gr_superstep s)
        (state_error ''routed activation cause references a non-predecessor activation'')) (\<lambda>_.
      raise_unless (r \<in> set (map ps_reference (gr_settled_publications s)))
        (state_error ''routed activation cause lacks committed settlement evidence''))))"

fun validate_activation_cause :: "graph_run_state \<Rightarrow> string \<Rightarrow> activation_cause \<Rightarrow> unit res" where
  "validate_activation_cause s n StartActivationCause =
     raise_if (gr_superstep s \<noteq> 0)
       (state_error ''START activation cause is valid only at superstep zero'')"
| "validate_activation_cause s n (RoutedActivationCause refs occ) =
     bindE (raise_if (gr_superstep s = 0)
       (state_error ''initial frontier nodes must carry the START cause'')) (\<lambda>_.
     bindE (raise_if (refs = [])
       (state_error ''routed activation cause requires non-empty references'')) (\<lambda>_.
     bindE (canonical_references refs ''routed activation cause references'') (\<lambda>_.
     bindE (forE (check_cause_reference s) refs) (\<lambda>_.
     (case occ of
        None \<Rightarrow> raise_unless (length refs = 1)
          (state_error ''non-Join routed cause requires exactly one reference'')
      | Some oc \<Rightarrow>
          bindE (validate_join_occurrence s oc) (\<lambda>_.
          bindE (raise_if (join_target (occ_join oc) \<noteq> n \<or> occ_target_superstep oc \<noteq> gr_superstep s)
            (state_error ''routed Join cause does not match its target activation'')) (\<lambda>_.
          raise_if (\<not> distinct (reference_nodes refs) \<or>
              set (reference_nodes refs) \<noteq> set (join_sources (occ_join oc)))
            (state_error ''routed Join cause must exactly cover its occurrence sources''))))))))"

fun validate_settlement :: "graph_run_state \<Rightarrow> string \<Rightarrow> node_settlement \<Rightarrow> unit res" where
  "validate_settlement s n (PendingGraphNode b) = Inr ()"
| "validate_settlement s n (SucceededGraphNode r) = validate_routing r"
| "validate_settlement s n (FailedGraphNode f) = require_identity f ''graph failure''"
| "validate_settlement s n (InterruptedGraphNode i) =
     bindE (raise_if (ii_node_id (ni_identity i) \<noteq> n)
       (state_error ''interrupt identity node does not match its frontier node'')) (\<lambda>_.
     validate_interrupt_identity s (ni_identity i))"

fun needs_codec :: "node_settlement \<Rightarrow> bool" where
  "needs_codec (PendingGraphNode (OverrideGraphNodeInput _)) = True"
| "needs_codec (InterruptedGraphNode _) = True"
| "needs_codec _ = False"

definition validate_graph_frontier :: "graph_run_state \<Rightarrow> graph_frontier \<Rightarrow> unit res" where
  "validate_graph_frontier s f =
     (let node_ids = map fn_node_id f in
      bindE (raise_unless (node_ids = sorted_set node_ids)
        (state_error ''frontier node identities must be distinct and canonical'')) (\<lambda>_.
      bindE (forE (\<lambda>x.
          bindE (require_identity (fn_node_id x) ''frontier node identity'') (\<lambda>_.
          bindE (validate_activation_cause s (fn_node_id x) (fn_cause x)) (\<lambda>_.
          validate_settlement s (fn_node_id x) (fn_settlement x)))) f) (\<lambda>_.
      bindE (raise_if (list_ex (\<lambda>x. needs_codec (fn_settlement x)) f \<and> gr_resume_input_codec s = None)
        (state_error ''override or interrupt settlement requires a resume input codec'')) (\<lambda>_.
      (case gr_resume_input_codec s of
         None \<Rightarrow> Inr ()
       | Some c \<Rightarrow>
           bindE (require_identity (codec_id c) ''resume input codec identity'') (\<lambda>_.
           raise_if (codec_version c < 1)
             (state_error ''resume input codec version must be positive'')))))))"

section \<open>The whole state\<close>

definition validate_parent :: "graph_run_state \<Rightarrow> unit res" where
  "validate_parent s =
     (case gr_parent s of
        None \<Rightarrow> Inr ()
      | Some p \<Rightarrow>
          bindE (require_identity (act_run_id p) ''parent graph run identity'') (\<lambda>_.
          bindE (require_identity (act_node_id p) ''parent graph node identity'') (\<lambda>_.
          bindE (raise_if (act_superstep p < 0 \<or> act_run_id p = gr_run_id s)
            (state_error ''parent graph activation is invalid'')) (\<lambda>_.
          raise_unless (gr_run_id s = child_graph_run_id (act_run_id p) (act_superstep p) (act_node_id p))
            (state_error ''child graph run identity does not match its parent activation'')))))"

definition validate_resources :: "graph_run_state \<Rightarrow> unit res" where
  "validate_resources s =
     (case gr_resources s of
        None \<Rightarrow> Inr ()
      | Some r \<Rightarrow>
          bindE (except_resource_error (validate_resource_snapshot r) ''graph resources state is invalid'') (\<lambda>_.
          bindE (raise_if (snap_acquisitions r = [])
            (state_error ''authoritative graph resources cannot be empty'')) (\<lambda>_.
          bindE (raise_if (gr_execution s = None)
            (state_error ''graph resources require an active execution lease'')) (\<lambda>_.
          bindE (raise_if (pending_node_ids (gr_frontier s) = [])
            (state_error ''resource admission requires current pending nodes'')) (\<lambda>_.
          raise_unless (set (participant_ids r) \<subseteq> set (pending_node_ids (gr_frontier s)))
            (state_error ''resource participant is outside current pending nodes''))))))"

definition validate_execution :: "graph_run_state \<Rightarrow> unit res" where
  "validate_execution s =
     (case gr_execution s of
        None \<Rightarrow> Inr ()
      | Some t \<Rightarrow>
          bindE (raise_if (gr_status s \<noteq> RUNNING)
            (state_error ''only a running graph may retain an execution lease'')) (\<lambda>_.
          bindE (catchE (admit_token t)
            (\<lambda>e. case e of ValueError m \<Rightarrow> Inl (state_error m) | _ \<Rightarrow> Inl e)) (\<lambda>tok.
          bindE (raise_if (tok_generation tok \<noteq> gr_execution_sequence s)
            (state_error ''execution lease generation must match the graph sequence'')) (\<lambda>_.
          raise_if (pending_node_ids (gr_frontier s) = [])
            (state_error ''an active execution lease requires pending nodes'')))))"

definition validate_status :: "graph_run_state \<Rightarrow> unit res" where
  "validate_status s =
     (case gr_status s of
        RUNNING \<Rightarrow>
          bindE (raise_if (gr_frontier s = [])
            (state_error ''a running graph requires a non-empty frontier'')) (\<lambda>_.
          bindE (frontier_status (gr_frontier s)) (\<lambda>st.
          bindE (raise_if (st = FRONTIER_FAILED)
            (state_error ''a quiescent failed frontier requires terminal failed status'')) (\<lambda>_.
          bindE (raise_if (gr_abort s \<noteq> None)
            (state_error ''a running graph cannot retain an abort'')) (\<lambda>_.
          raise_if (gr_completion_route s \<noteq> None)
            (state_error ''a running graph cannot retain a completion route'')))))
      | COMPLETED \<Rightarrow>
          bindE (raise_if (gr_frontier s \<noteq> [] \<or> gr_join_progress s \<noteq> [] \<or> gr_resources s \<noteq> None)
            (state_error ''a completed graph must use the canonical empty position'')) (\<lambda>_.
          bindE (raise_if (gr_abort s \<noteq> None)
            (state_error ''a completed graph cannot retain an abort'')) (\<lambda>_.
          if gr_graph_input_evidence s \<noteq> None then validate_completed_graph_provenance s else Inr ()))
      | FAILED \<Rightarrow>
          if gr_frontier s = [] then
            Inl (state_error ''a failed graph must retain one quiescent failed diagnostic frontier'')
          else bindE (frontier_status (gr_frontier s)) (\<lambda>st.
            raise_if (st \<noteq> FRONTIER_FAILED \<or> gr_resources s \<noteq> None \<or> gr_execution s \<noteq> None \<or>
                gr_abort s \<noteq> None \<or> gr_completion_route s \<noteq> None)
              (state_error ''a failed graph must retain one quiescent failed diagnostic frontier''))
      | ABORTED \<Rightarrow>
          (case gr_abort s of
             None \<Rightarrow> Inl (state_error ''an aborted graph must retain one quiescent diagnostic frontier'')
           | Some reason \<Rightarrow>
               bindE (raise_if (gr_frontier s = [] \<or> gr_resources s \<noteq> None \<or> gr_completion_route s \<noteq> None)
                 (state_error ''an aborted graph must retain one quiescent diagnostic frontier'')) (\<lambda>_.
               require_identity reason ''graph abort reason'')))"

definition validate_state_body :: "graph_run_state \<Rightarrow> unit res" where
  "validate_state_body s =
     bindE (require_identity (gr_run_id s) ''graph run identity'') (\<lambda>_.
     bindE (require_identity (gr_definition_id s) ''graph definition identity'') (\<lambda>_.
     bindE (raise_if (gr_definition_version s < 1)
       (state_error ''graph definition version must be positive'')) (\<lambda>_.
     bindE (raise_if (gr_superstep s < 0 \<or> gr_revision s < 0 \<or> gr_execution_sequence s < 0)
       (state_error ''graph counters must be non-negative integers'')) (\<lambda>_.
     bindE (catchE (config_cursor_of s) (\<lambda>_. Inl (state_error ''graph Config cursor is malformed''))) (\<lambda>_.
     bindE (validate_settled_publications s) (\<lambda>_.
     bindE (case gr_completion_route s of None \<Rightarrow> Inr ()
            | Some r \<Rightarrow> require_identity r ''graph completion route identity'') (\<lambda>_.
     bindE (validate_parent s) (\<lambda>_.
     bindE (validate_join_progress s) (\<lambda>_.
     bindE (validate_graph_frontier s (gr_frontier s)) (\<lambda>_.
     bindE (validate_resources s) (\<lambda>_.
     bindE (validate_execution s) (\<lambda>_.
     validate_status s))))))))))))"

definition validate_graph_run_state :: "graph_run_state \<Rightarrow> unit res" where
  "validate_graph_run_state s =
     catchE (validate_state_body s)
       (\<lambda>e. case e of
          GraphStateTransitionError _ \<Rightarrow> Inl e
        | ValueError _ \<Rightarrow> Inl (state_error ''graph snapshot is malformed'')
        | TypeError _ \<Rightarrow> Inl (state_error ''graph snapshot is malformed'')
        | _ \<Rightarrow> Inl e)"

definition validated_graph_run_state :: "graph_run_state \<Rightarrow> graph_run_state res" where
  "validated_graph_run_state s = bindE (validate_graph_run_state s) (\<lambda>_. Inr s)"

end
