(* ===== verification/State_Invariant.thy ===== *)
theory State_Invariant
  imports State_Validation
begin

text \<open>
  The invariant of a run state as a predicate, \<open>wf_state\<close>, one conjunct per part of the state,
  and the equivalence with the checks of \<open>State_Validation\<close>: validation accepts exactly the
  well-formed states (\<open>validate_graph_run_state_iff\<close>). The later theories reason with
  \<open>wf_state\<close> only.
\<close>

section \<open>The invariant\<close>

definition ledger_references :: "graph_run_state \<Rightarrow> activation_reference set" where
  "ledger_references s = ps_reference ` set (gr_settled_publications s)"

definition frontier_references :: "graph_run_state \<Rightarrow> activation_reference list" where
  "frontier_references s =
     map (\<lambda>(n, routing). ActivationReference (GraphActivationIdentity (gr_run_id s) (gr_superstep s) n)
            (selected_route routing)) (routing_contributions (gr_frontier s))"

definition wf_counters :: "graph_run_state \<Rightarrow> bool" where
  "wf_counters s \<longleftrightarrow> is_canonical_identity (gr_run_id s) \<and> is_canonical_identity (gr_definition_id s) \<and>
     1 \<le> gr_definition_version s \<and> 0 \<le> gr_superstep s \<and> 0 \<le> gr_revision s \<and> 0 \<le> gr_execution_sequence s \<and>
     (\<forall>r. gr_completion_route s = Some r \<longrightarrow> is_canonical_identity r)"

definition wf_config :: "graph_run_state \<Rightarrow> bool" where
  "wf_config s \<longleftrightarrow> (\<exists>d v. gr_config_definition_id s = Some d \<and> gr_config_definition_version s = Some v \<and>
     wf_cursor (GraphConfigCursor d v (gr_config_revision s) (gr_config_digest s)))"

definition publication_in_bounds :: "graph_run_state \<Rightarrow> publication_settlement \<Rightarrow> bool" where
  "publication_in_bounds s p \<longleftrightarrow> wf_publication p \<and>
     act_run_id (ref_activation (ps_reference p)) = gr_run_id s \<and>
     act_superstep (ref_activation (ps_reference p)) \<le> gr_superstep s \<and>
     ps_commit_revision p \<le> gr_revision s \<and> tok_generation (ps_execution p) \<le> gr_execution_sequence s"

definition wf_ledger :: "graph_run_state \<Rightarrow> bool" where
  "wf_ledger s \<longleftrightarrow> (\<forall>p\<in>set (gr_settled_publications s). publication_in_bounds s p) \<and>
     sorted (map publication_key (gr_settled_publications s)) \<and>
     distinct (map (\<lambda>p. ref_activation (ps_reference p)) (gr_settled_publications s)) \<and>
     distinct (map ps_commit_revision (gr_settled_publications s)) \<and>
     (gr_status s \<noteq> COMPLETED \<longrightarrow>
        {r \<in> ledger_references s. act_superstep (ref_activation r) = gr_superstep s} = set (frontier_references s))"

definition wf_parent :: "graph_run_state \<Rightarrow> bool" where
  "wf_parent s \<longleftrightarrow> (\<forall>p. gr_parent s = Some p \<longrightarrow>
     is_canonical_identity (act_run_id p) \<and> is_canonical_identity (act_node_id p) \<and> 0 \<le> act_superstep p \<and>
     gr_run_id s = child_graph_run_id (act_run_id p) (act_superstep p) (act_node_id p))"

definition wf_occurrence :: "graph_run_state \<Rightarrow> graph_join_occurrence \<Rightarrow> bool" where
  "wf_occurrence s oc \<longleftrightarrow> 2 \<le> length (join_sources (occ_join oc)) \<and>
     (\<forall>x\<in>set (join_sources (occ_join oc)). is_canonical_identity x) \<and> canonical_tuple (join_sources (occ_join oc)) \<and>
     is_canonical_identity (join_target (occ_join oc)) \<and> join_target (occ_join oc) \<notin> set (join_sources (occ_join oc)) \<and>
     occ_run_id oc = gr_run_id s \<and> is_canonical_identity (occ_run_id oc) \<and> 1 \<le> occ_target_superstep oc"

definition past_reference :: "graph_run_state \<Rightarrow> activation_reference \<Rightarrow> bool" where
  "past_reference s r \<longleftrightarrow> wf_reference r \<and> act_run_id (ref_activation r) = gr_run_id s \<and>
     act_superstep (ref_activation r) < gr_superstep s \<and> r \<in> ledger_references s"

definition wf_progress :: "graph_run_state \<Rightarrow> join_progress_record \<Rightarrow> bool" where
  "wf_progress s j \<longleftrightarrow> wf_occurrence s (jp_occurrence j) \<and> gr_superstep s < occ_target_superstep (jp_occurrence j) \<and>
     jp_arrived j \<noteq> [] \<and> canonical_by canonical_key (jp_arrived j) \<and> distinct (reference_nodes (jp_arrived j)) \<and>
     set (reference_nodes (jp_arrived j)) \<subset> set (join_sources (occ_join (jp_occurrence j))) \<and>
     (\<forall>r\<in>set (jp_arrived j). past_reference s r)"

definition wf_joins :: "graph_run_state \<Rightarrow> bool" where
  "wf_joins s \<longleftrightarrow> (\<forall>j\<in>set (gr_join_progress s). wf_progress s j) \<and>
     canonical_tuple (map jp_occurrence (gr_join_progress s))"

fun wf_cause :: "graph_run_state \<Rightarrow> string \<Rightarrow> activation_cause \<Rightarrow> bool" where
  "wf_cause s n StartActivationCause \<longleftrightarrow> gr_superstep s = 0"
| "wf_cause s n (RoutedActivationCause refs occ) \<longleftrightarrow> gr_superstep s \<noteq> 0 \<and> refs \<noteq> [] \<and>
     canonical_by canonical_key refs \<and> (\<forall>r\<in>set refs. past_reference s r) \<and>
     (case occ of
        None \<Rightarrow> length refs = 1
      | Some oc \<Rightarrow> wf_occurrence s oc \<and> join_target (occ_join oc) = n \<and> occ_target_superstep oc = gr_superstep s \<and>
          distinct (reference_nodes refs) \<and> set (reference_nodes refs) = set (join_sources (occ_join oc)))"

fun wf_settlement :: "graph_run_state \<Rightarrow> string \<Rightarrow> node_settlement \<Rightarrow> bool" where
  "wf_settlement s n (PendingGraphNode b) \<longleftrightarrow> True"
| "wf_settlement s n (SucceededGraphNode r) \<longleftrightarrow> (\<forall>v. selected_route r = Some v \<longrightarrow> is_canonical_identity v)"
| "wf_settlement s n (FailedGraphNode f) \<longleftrightarrow> is_canonical_identity f"
| "wf_settlement s n (InterruptedGraphNode i) \<longleftrightarrow> ii_node_id (ni_identity i) = n \<and>
     ii_run_id (ni_identity i) = gr_run_id s \<and> ii_superstep (ni_identity i) = gr_superstep s \<and>
     1 \<le> ii_execution_generation (ni_identity i) \<and> ii_execution_generation (ni_identity i) \<le> gr_execution_sequence s"

definition wf_node :: "graph_run_state \<Rightarrow> frontier_node_record \<Rightarrow> bool" where
  "wf_node s x \<longleftrightarrow> is_canonical_identity (fn_node_id x) \<and> wf_cause s (fn_node_id x) (fn_cause x) \<and>
     wf_settlement s (fn_node_id x) (fn_settlement x)"

definition wf_codec :: "graph_run_state \<Rightarrow> bool" where
  "wf_codec s \<longleftrightarrow>
     (\<forall>c. gr_resume_input_codec s = Some c \<longrightarrow> is_canonical_identity (codec_id c) \<and> 1 \<le> codec_version c)"

definition wf_frontier :: "graph_run_state \<Rightarrow> bool" where
  "wf_frontier s \<longleftrightarrow> canonical_tuple (map fn_node_id (gr_frontier s)) \<and> (\<forall>x\<in>set (gr_frontier s). wf_node s x) \<and>
     ((\<exists>x\<in>set (gr_frontier s). needs_codec (fn_settlement x)) \<longrightarrow> gr_resume_input_codec s \<noteq> None) \<and> wf_codec s"

definition wf_resources :: "graph_run_state \<Rightarrow> bool" where
  "wf_resources s \<longleftrightarrow> (\<forall>r. gr_resources s = Some r \<longrightarrow>
     validate_resource_snapshot r = Inr () \<and> snap_acquisitions r \<noteq> [] \<and> gr_execution s \<noteq> None \<and>
     set (participant_ids r) \<subseteq> set (pending_node_ids (gr_frontier s)))"

definition wf_execution :: "graph_run_state \<Rightarrow> bool" where
  "wf_execution s \<longleftrightarrow> (\<forall>t. gr_execution s = Some t \<longrightarrow>
     gr_status s = RUNNING \<and> wf_token t \<and> tok_generation t = gr_execution_sequence s \<and>
     pending_node_ids (gr_frontier s) \<noteq> [])"

definition completed_provenance :: "graph_run_state \<Rightarrow> bool" where
  "completed_provenance s \<longleftrightarrow> terminal_settlements s \<noteq> [] \<and>
     (\<forall>p\<in>set (terminal_settlements s). ps_commit_revision p < gr_revision s \<and>
        ref_route (ps_reference p) = gr_completion_route s)"

definition wf_status :: "graph_run_state \<Rightarrow> bool" where
  "wf_status s \<longleftrightarrow> (case gr_status s of
     RUNNING \<Rightarrow> gr_frontier s \<noteq> [] \<and> frontier_status (gr_frontier s) \<noteq> Inr FRONTIER_FAILED \<and>
       gr_abort s = None \<and> gr_completion_route s = None
   | COMPLETED \<Rightarrow> gr_frontier s = [] \<and> gr_join_progress s = [] \<and> gr_resources s = None \<and> gr_abort s = None \<and>
       (gr_graph_input_evidence s \<noteq> None \<longrightarrow> completed_provenance s)
   | FAILED \<Rightarrow> frontier_status (gr_frontier s) = Inr FRONTIER_FAILED \<and> gr_resources s = None \<and>
       gr_execution s = None \<and> gr_abort s = None \<and> gr_completion_route s = None
   | ABORTED \<Rightarrow> gr_frontier s \<noteq> [] \<and> gr_resources s = None \<and> gr_completion_route s = None \<and>
       (\<exists>a. gr_abort s = Some a \<and> is_canonical_identity a))"

definition wf_state :: "graph_run_state \<Rightarrow> bool" where
  "wf_state s \<longleftrightarrow> wf_counters s \<and> wf_config s \<and> wf_ledger s \<and> wf_parent s \<and> wf_joins s \<and> wf_frontier s \<and>
     wf_resources s \<and> wf_execution s \<and> wf_status s"

section \<open>Each check accepts its part of the invariant\<close>

lemma require_identity_ok [resE]: "require_identity v f = Inr u \<longleftrightarrow> is_canonical_identity v"
  by (simp add: require_identity_def resE)

lemma canonical_references_ok [resE]:
  "canonical_references refs f = Inr u \<longleftrightarrow> canonical_by canonical_key refs"
  by (simp add: canonical_references_def canonical_by_def resE)

lemma check_reference_activation_ok [resE]: "check_reference_activation r f = Inr u \<longleftrightarrow> wf_reference r"
  by (auto simp: check_reference_activation_def wf_reference_def Let_def resE split: option.splits)

lemma validate_join_occurrence_ok [resE]: "validate_join_occurrence s oc = Inr u \<longleftrightarrow> wf_occurrence s oc"
  by (auto simp: validate_join_occurrence_def wf_occurrence_def canonical_tuple_def Let_def resE)

lemma ledger_mem [simp]: "r \<in> set (map ps_reference (gr_settled_publications s)) \<longleftrightarrow> r \<in> ledger_references s"
  by (simp add: ledger_references_def)

lemma check_arrival_ok [resE]:
  "wf_occurrence s oc \<Longrightarrow> gr_superstep s < occ_target_superstep oc \<Longrightarrow>
     check_arrival s oc r = Inr u \<longleftrightarrow> past_reference s r \<and> act_node_id (ref_activation r) \<in> set (join_sources (occ_join oc))"
  by (auto simp: check_arrival_def past_reference_def wf_occurrence_def Let_def resE ledger_references_def)

lemma check_progress_ok:
  assumes "wf_occurrence s (jp_occurrence j)"
  shows "check_progress s seen j = Inr t \<longleftrightarrow>
     wf_progress s j \<and> jp_occurrence j \<notin> set seen \<and> t = jp_occurrence j # seen"
proof (cases "gr_superstep s < occ_target_superstep (jp_occurrence j)")
  case True
  have "(\<forall>r\<in>set (jp_arrived j). check_arrival s (jp_occurrence j) r = Inr ()) \<longleftrightarrow>
      (\<forall>r\<in>set (jp_arrived j). past_reference s r \<and>
         act_node_id (ref_activation r) \<in> set (join_sources (occ_join (jp_occurrence j))))"
    using check_arrival_ok [OF assms True] by simp
  with True assms show ?thesis
    by (auto simp: check_progress_def wf_progress_def Let_def resE reference_nodes_def)
next
  case False
  then show ?thesis by (auto simp: check_progress_def wf_progress_def Let_def resE)
qed

lemma wf_progress_occurrence: "wf_progress s j \<Longrightarrow> wf_occurrence s (jp_occurrence j)"
  by (simp add: wf_progress_def)

lemma foldE_check_progress:
  "\<forall>j\<in>set js. wf_occurrence s (jp_occurrence j) \<Longrightarrow>
     (\<exists>t. foldE (check_progress s) seen js = Inr t) \<longleftrightarrow>
     (\<forall>j\<in>set js. wf_progress s j) \<and> distinct (map jp_occurrence js) \<and> set (map jp_occurrence js) \<inter> set seen = {}"
proof (induction js arbitrary: seen)
  case (Cons j js)
  then have *: "check_progress s seen j = Inr t \<longleftrightarrow>
     wf_progress s j \<and> jp_occurrence j \<notin> set seen \<and> t = jp_occurrence j # seen" for t
    by (simp add: check_progress_ok)
  have "(\<exists>t. foldE (check_progress s) seen (j # js) = Inr t) \<longleftrightarrow>
      wf_progress s j \<and> jp_occurrence j \<notin> set seen \<and> (\<exists>t. foldE (check_progress s) (jp_occurrence j # seen) js = Inr t)"
    by (auto simp: resE *)
  with Cons show ?case by auto
qed simp

lemma validate_join_progress_ok [resE]: "validate_join_progress s = Inr u \<longleftrightarrow> wf_joins s"
proof -
  have sorted: "js = sort_key jp_occurrence js \<longleftrightarrow> sorted (map jp_occurrence js)" for js
    by (metis sort_key_id_if_sorted sorted_sort_key)
  have "validate_join_progress s = Inr () \<longleftrightarrow>
      (\<forall>j\<in>set (gr_join_progress s). wf_occurrence s (jp_occurrence j)) \<and>
      sorted (map jp_occurrence (gr_join_progress s)) \<and>
      (\<exists>t. foldE (check_progress s) [] (gr_join_progress s) = Inr t)"
    unfolding validate_join_progress_def Let_def sorted [symmetric] by (auto simp: resE)
  also have "\<dots> \<longleftrightarrow> wf_joins s"
    using foldE_check_progress [of "gr_join_progress s" s "[]"] wf_progress_occurrence
    by (auto simp: wf_joins_def canonical_tuple_iff)
  finally show ?thesis by simp
qed

lemma check_cause_reference_ok [resE]: "check_cause_reference s r = Inr u \<longleftrightarrow> past_reference s r"
  by (auto simp: check_cause_reference_def past_reference_def Let_def resE ledger_references_def)

lemma validate_activation_cause_ok [resE]: "validate_activation_cause s n c = Inr u \<longleftrightarrow> wf_cause s n c"
  by (cases c) (auto simp: resE split: option.splits)

lemma validate_settlement_ok [resE]: "validate_settlement s n x = Inr u \<longleftrightarrow> wf_settlement s n x"
proof (cases x)
  case (SucceededGraphNode r)
  then show ?thesis by (cases r) (auto simp: resE)
qed (auto simp: resE validate_interrupt_identity_def)

lemma validate_graph_frontier_ok [resE]: "validate_graph_frontier s (gr_frontier s) = Inr u \<longleftrightarrow> wf_frontier s"
  by (auto simp: validate_graph_frontier_def wf_frontier_def wf_node_def wf_codec_def canonical_tuple_def Let_def
      list_ex_iff resE split: option.splits)

lemma validate_parent_ok [resE]: "validate_parent s = Inr u \<longleftrightarrow> wf_parent s"
proof -
  have neq: "r \<noteq> child_graph_run_id r k n" for r k n
    using child_graph_run_id_longer [of r k n] by auto
  show ?thesis
  proof (cases "gr_parent s")
    case (Some p)
    show ?thesis
      unfolding validate_parent_def wf_parent_def Some option.case bindE_eq_Inr raise_if_eq raise_unless_eq
        require_identity_ok not_less de_Morgan_disj option.inject
      using neq [of "act_run_id p" "act_superstep p" "act_node_id p"] by metis
  qed (simp add: validate_parent_def wf_parent_def)
qed

lemma validate_resources_ok [resE]: "validate_resources s = Inr u \<longleftrightarrow> wf_resources s"
proof (cases "gr_resources s")
  case (Some r)
  have "participant_ids r = [] \<longleftrightarrow> snap_acquisitions r = []" by (simp add: participant_ids_def)
  with Some show ?thesis by (auto simp: validate_resources_def wf_resources_def resE)
qed (simp add: validate_resources_def wf_resources_def)

lemma rethrow_ok [resE]:
  "catchE m (\<lambda>e. case e of ValueError x \<Rightarrow> Inl (f x) | _ \<Rightarrow> Inl e) = Inr y \<longleftrightarrow> m = Inr y"
proof (cases m)
  case (Inl e)
  then show ?thesis by (cases e) auto
qed simp

lemma validate_execution_ok [resE]: "validate_execution s = Inr u \<longleftrightarrow> wf_execution s"
proof (cases "gr_execution s")
  case (Some t)
  then show ?thesis
    unfolding validate_execution_def wf_execution_def
    by (auto simp: bindE_eq_Inr rethrow_ok raise_if_eq admit_token_ok)
qed (simp add: validate_execution_def wf_execution_def)

lemma config_cursor_of_ok:
  "config_cursor_of s = Inr c \<longleftrightarrow> wf_config s \<and>
     c = GraphConfigCursor (the (gr_config_definition_id s)) (the (gr_config_definition_version s))
           (gr_config_revision s) (gr_config_digest s)"
  by (auto simp: config_cursor_of_def wf_config_def resE split: option.splits)

section \<open>The ledger agrees with the frontier\<close>

lemma routing_contributions_mem:
  "(n, r) \<in> set (routing_contributions f) \<longleftrightarrow> (\<exists>x\<in>set f. fn_node_id x = n \<and> fn_settlement x = SucceededGraphNode r)"
  by (force simp: routing_contributions_def split: node_settlement.splits)

lemma frontier_references_mem:
  "r \<in> set (frontier_references s) \<longleftrightarrow>
     (\<exists>x\<in>set (gr_frontier s). \<exists>routing. fn_settlement x = SucceededGraphNode routing \<and>
        r = ActivationReference (GraphActivationIdentity (gr_run_id s) (gr_superstep s) (fn_node_id x)) (selected_route routing))"
  by (force simp: frontier_references_def routing_contributions_mem)

lemma frontier_publications_ok:
  assumes "wf_counters s" and "wf_frontier s"
  shows "frontier_publications s = Inr (frontier_references s)"
  unfolding frontier_publications_def frontier_references_def
proof (rule mapE_Inr_map, clarify)
  fix n r
  assume "(n, r) \<in> set (routing_contributions (gr_frontier s))"
  then obtain x where x: "x \<in> set (gr_frontier s)" "fn_node_id x = n" "fn_settlement x = SucceededGraphNode r"
    by (auto simp: routing_contributions_mem)
  then have "is_canonical_identity n" and "\<forall>v. selected_route r = Some v \<longrightarrow> is_canonical_identity v"
    using assms(2) by (auto simp: wf_frontier_def wf_node_def dest!: bspec)
  then show "bindE (mk_GraphActivationIdentity (gr_run_id s) (gr_superstep s) n)
      (\<lambda>a. mk_ActivationReference a (selected_route r)) =
      Inr (ActivationReference (GraphActivationIdentity (gr_run_id s) (gr_superstep s) n) (selected_route r))"
    using assms(1) by (simp add: bindE_eq_Inr wf_counters_def resE)
qed

lemma check_publication_bounds:
  assumes "check_publication s p = Inr u"
  shows "wf_publication p \<Longrightarrow> publication_in_bounds s p"
  using assms by (auto simp: check_publication_def publication_in_bounds_def Let_def bindE_eq_Inr raise_if_eq)

lemma check_publication_ok:
  assumes b: "publication_in_bounds s p"
    and cur: "gr_status s \<noteq> COMPLETED \<Longrightarrow> act_superstep (ref_activation (ps_reference p)) = gr_superstep s \<Longrightarrow>
        ps_reference p \<in> set (frontier_references s)"
    and d: "distinct (map fn_node_id (gr_frontier s))"
  shows "check_publication s p = Inr ()"
proof -
  have w: "wf_reference (ps_reference p)" using b by (simp add: publication_in_bounds_def wf_publication_def)
  show ?thesis
  proof (cases "act_superstep (ref_activation (ps_reference p)) = gr_superstep s \<and> gr_status s \<noteq> COMPLETED")
    case True
    with cur obtain x routing where x: "x \<in> set (gr_frontier s)" "fn_settlement x = SucceededGraphNode routing"
        "ps_reference p = ActivationReference (GraphActivationIdentity (gr_run_id s) (gr_superstep s) (fn_node_id x))
           (selected_route routing)"
      by (auto simp: frontier_references_mem)
    then have "frontier_node (gr_frontier s) (act_node_id (ref_activation (ps_reference p))) = Some x"
      using frontier_node_unique [OF d x(1)] by simp
    with True x b w show ?thesis
      by (simp add: check_publication_def publication_in_bounds_def Let_def bindE_eq_Inr raise_if_eq raise_unless_eq
          check_reference_activation_ok)
  next
    case False
    with b w show ?thesis
      by (auto simp: check_publication_def publication_in_bounds_def Let_def bindE_eq_Inr raise_if_eq
          check_reference_activation_ok)
  qed
qed

lemma admit_publications_ok:
  "mapE admit_publication ps = Inr qs \<longleftrightarrow> qs = ps \<and> (\<forall>p\<in>set ps. wf_publication p)"
  by (induction ps arbitrary: qs) (auto simp: bindE_eq_Inr admit_publication_ok)

lemma validate_settled_publications_ok:
  assumes c: "wf_counters s" and f: "wf_frontier s"
  shows "validate_settled_publications s = Inr u \<longleftrightarrow> wf_ledger s"
proof -
  let ?L = "gr_settled_publications s"
  have d: "distinct (map fn_node_id (gr_frontier s))"
    using f by (simp add: wf_frontier_def canonical_tuple_iff)
  have key: "canonical_by canonical_key (map ps_reference ?L) \<and> distinct (map ref_activation (map ps_reference ?L)) \<longleftrightarrow>
      sorted (map publication_key ?L) \<and> distinct (map (\<lambda>p. ref_activation (ps_reference p)) ?L)"
    unfolding canonical_by_iff publication_key_def [abs_def] map_map comp_def
    by (auto simp: distinct_map inj_on_def)
  have cur: "set (filter (\<lambda>r. act_superstep (ref_activation r) = gr_superstep s) (map ps_reference ?L)) =
      {r \<in> ledger_references s. act_superstep (ref_activation r) = gr_superstep s}"
    by (auto simp: ledger_references_def)
  have "validate_settled_publications s = Inr () \<longleftrightarrow> (\<forall>p\<in>set ?L. wf_publication p) \<and>
      (canonical_by canonical_key (map ps_reference ?L) \<and> distinct (map ref_activation (map ps_reference ?L))) \<and>
      distinct (map ps_commit_revision ?L) \<and> (\<forall>p\<in>set ?L. check_publication s p = Inr ()) \<and>
      (gr_status s \<noteq> COMPLETED \<longrightarrow>
        {r \<in> ledger_references s. act_superstep (ref_activation r) = gr_superstep s} = set (frontier_references s))"
    unfolding validate_settled_publications_def Let_def cur [symmetric] frontier_publications_ok [OF c f]
    by (auto simp: bindE_eq_Inr catchE_eq_Inr raise_unless_eq forE_eq_Inr canonical_references_ok
        admit_publications_ok simp del: map_map set_map set_filter)
  also have "\<dots> \<longleftrightarrow> wf_ledger s"
  proof -
    have one: "\<forall>p\<in>set ?L. publication_in_bounds s p"
      if "\<forall>p\<in>set ?L. wf_publication p" "\<forall>p\<in>set ?L. check_publication s p = Inr ()"
      using that check_publication_bounds by blast
    have two: "check_publication s p = Inr ()"
      if "\<forall>p\<in>set ?L. publication_in_bounds s p" and "p \<in> set ?L"
        and "gr_status s \<noteq> COMPLETED \<longrightarrow>
          {r \<in> ledger_references s. act_superstep (ref_activation r) = gr_superstep s} = set (frontier_references s)" for p
    proof (rule check_publication_ok [OF _ _ d])
      show "publication_in_bounds s p" using that by blast
      have "ps_reference p \<in> ledger_references s" using that(2) by (simp add: ledger_references_def)
      with that(3) show "gr_status s \<noteq> COMPLETED \<Longrightarrow>
          act_superstep (ref_activation (ps_reference p)) = gr_superstep s \<Longrightarrow>
          ps_reference p \<in> set (frontier_references s)" by blast
    qed
    have wf: "\<forall>p\<in>set ?L. publication_in_bounds s p \<Longrightarrow> \<forall>p\<in>set ?L. wf_publication p"
      by (simp add: publication_in_bounds_def)
    show ?thesis unfolding key wf_ledger_def using one two wf by blast
  qed
  finally show ?thesis by simp
qed

section \<open>Status and the whole state\<close>

lemma remdups_constant: "set xs = {v} \<longleftrightarrow> remdups xs = [v]"
proof
  assume "set xs = {v}"
  then have "set (remdups xs) = {v}" "length (remdups xs) = card {v}" by (simp_all add: length_remdups_card_conv)
  then show "remdups xs = [v]" by (cases "remdups xs") auto
next
  assume "remdups xs = [v]"
  then show "set xs = {v}" by (metis empty_set list.simps(15) set_remdups)
qed

lemma remdups_single:
  "(length (remdups xs) \<noteq> 1 \<or> hd (remdups xs) \<noteq> v) \<longleftrightarrow> \<not> (xs \<noteq> [] \<and> (\<forall>x\<in>set xs. x = v))"
proof -
  have "length (remdups xs) = 1 \<and> hd (remdups xs) = v \<longleftrightarrow> remdups xs = [v]"
    by (cases "remdups xs") auto
  moreover have "set xs = {v} \<longleftrightarrow> xs \<noteq> [] \<and> (\<forall>x\<in>set xs. x = v)" by (cases xs) auto
  ultimately show ?thesis using remdups_constant [of xs v] by blast
qed

lemma validate_completed_graph_provenance_ok [resE]:
  "validate_completed_graph_provenance s = Inr u \<longleftrightarrow> completed_provenance s"
  unfolding validate_completed_graph_provenance_def completed_provenance_def Let_def remdups_single
  by (auto simp: bindE_eq_Inr raise_if_eq not_le)

lemma validate_status_ok: "validate_status s = Inr u \<longleftrightarrow> wf_status s"
proof (cases "gr_frontier s = []")
  case True
  then show ?thesis
    by (cases "gr_status s") (auto simp: validate_status_def wf_status_def resE frontier_status_cases split: option.splits)
next
  case False
  then obtain v where "frontier_status (gr_frontier s) = Inr v" using frontier_status_total by blast
  with False show ?thesis
    by (cases "gr_status s") (auto simp: validate_status_def wf_status_def resE split: option.splits)
qed

lemma validate_state_body_ok: "validate_state_body s = Inr () \<longleftrightarrow> wf_state s"
proof -
  have "validate_state_body s = Inr () \<longleftrightarrow> wf_counters s \<and> wf_config s \<and> validate_settled_publications s = Inr () \<and>
      wf_parent s \<and> wf_joins s \<and> wf_frontier s \<and> wf_resources s \<and> wf_execution s \<and> wf_status s"
    unfolding validate_state_body_def wf_counters_def
    by (auto simp: resE config_cursor_of_ok validate_status_ok split: option.splits)
  then show ?thesis unfolding wf_state_def using validate_settled_publications_ok by blast
qed

lemma validate_graph_run_state_iff: "validate_graph_run_state s = Inr () \<longleftrightarrow> wf_state s"
proof (cases "validate_state_body s")
  case (Inl e)
  then have "\<not> wf_state s" using validate_state_body_ok [of s] by simp
  with Inl show ?thesis by (cases e) (auto simp: validate_graph_run_state_def)
next
  case (Inr u)
  then show ?thesis using validate_state_body_ok [of s] by (simp add: validate_graph_run_state_def)
qed

lemma validated_graph_run_state_ok [resE]: "validated_graph_run_state s = Inr t \<longleftrightarrow> wf_state s \<and> t = s"
  by (auto simp: validated_graph_run_state_def bindE_eq_Inr validate_graph_run_state_iff)

end
