(* ===== verification/Graph_Transitions.thy ===== *)
theory Graph_Transitions
  imports State_Invariant
begin

text \<open>
  The transitions of a graph run: \<open>execution_transitions.py\<close>, \<open>lifecycle_transitions.py\<close> and
  \<open>recovery_transitions.py\<close> of \<open>mote_kernel/state/graph_state\<close>. Every function takes the run
  state and its command and returns the updated state or the error the source raises; the
  revision is advanced by the reducer (\<open>Graph_Reducer\<close>), not here.

  A dictionary keyed by join occurrence is a map; a frozenset that is only tested for
  membership, inclusion and emptiness is a \<open>set\<close>; a set that is built in a loop and sorted at
  the end is the list of its elements in insertion order.
\<close>

section \<open>Starting a run\<close>

definition validate_activation_batch :: "frontier_activation list \<Rightarrow> string \<Rightarrow> unit res" where
  "validate_activation_batch declared label =
     (if declared = [] then Inl (state_error (label @ '' activations are malformed''))
      else let node_ids = map fa_node_id declared in
        raise_unless (node_ids = sorted_set node_ids)
          (state_error (label @ '' activations must use canonical node order'')))"

definition start_activations :: "frontier_activation list \<Rightarrow> frontier_activation list res" where
  "start_activations declared =
     bindE (validate_activation_batch declared ''initial'') (\<lambda>_.
     bindE (raise_if (\<exists>a\<in>set declared. fa_cause a \<noteq> StartActivationCause)
       (state_error ''initial activations must use the START cause'')) (\<lambda>_.
     Inr declared))"

definition pending_frontier :: "frontier_activation list \<Rightarrow> graph_frontier" where
  "pending_frontier activations =
     map (\<lambda>a. \<lparr>fn_node_id = fa_node_id a, fn_settlement = PendingGraphNode UseStepRequestInput,
               fn_cause = fa_cause a\<rparr>) activations"

definition graph_state_post_init :: "graph_run_state \<Rightarrow> graph_run_state" where
  "graph_state_post_init s =
     s\<lparr>gr_config_definition_id :=
          (case gr_config_definition_id s of None \<Rightarrow> Some (gr_definition_id s) | x \<Rightarrow> x),
       gr_config_definition_version :=
          (case gr_config_definition_version s of None \<Rightarrow> Some (gr_definition_version s) | x \<Rightarrow> x)\<rparr>"

definition start_graph_run :: "start_graph_run_command \<Rightarrow> graph_run_state res" where
  "start_graph_run c =
     bindE (start_activations (sg_activations c)) (\<lambda>activations.
     bindE (catchE (case sg_config_cursor c of
              None \<Rightarrow> mk_GraphConfigCursor (sg_definition_id c) (sg_definition_version c) 1 None
            | Some cur \<Rightarrow> admit_cursor cur)
       (\<lambda>_. Inl (state_error ''graph start Config cursor is malformed''))) (\<lambda>cursor.
     bindE (catchE (case sg_graph_input_evidence c of
              Some e \<Rightarrow> bindE (admit_evidence e) (\<lambda>e'. Inr (Some e'))
            | None \<Rightarrow> Inr None)
       (\<lambda>_. Inl (state_error ''graph start input evidence is malformed''))) (\<lambda>evidence.
     validated_graph_run_state (graph_state_post_init
       \<lparr>gr_run_id = sg_run_id c, gr_definition_id = sg_definition_id c,
        gr_definition_version = sg_definition_version c, gr_status = RUNNING, gr_superstep = 0,
        gr_frontier = pending_frontier activations, gr_execution_sequence = 0,
        gr_resume_input_codec = sg_resume_input_codec c, gr_join_progress = [],
        gr_graph_input_evidence = evidence, gr_settled_publications = [], gr_resources = None,
        gr_execution = None, gr_abort = None, gr_parent = sg_parent c, gr_revision = 0,
        gr_completion_route = None, gr_config_revision = cc_revision cursor,
        gr_config_definition_id = Some (cc_definition_id cursor),
        gr_config_definition_version = Some (cc_definition_version cursor),
        gr_config_digest = cc_digest cursor\<rparr>))))"

section \<open>Next activations and join progress\<close>

definition index_join_progress ::
  "join_progress_record list \<Rightarrow> string \<Rightarrow> (graph_join_occurrence \<rightharpoonup> join_progress_record) res" where
  "index_join_progress progress label =
     foldE (\<lambda>indexed item.
        if indexed (jp_occurrence item) \<noteq> None
        then Inl (state_error (label @ '' join progress repeats one join''))
        else Inr (indexed(jp_occurrence item \<mapsto> item))) Map.empty progress"

definition check_next_reference ::
  "graph_run_state \<Rightarrow> activation_reference list \<times> activation_reference list \<Rightarrow> activation_reference \<Rightarrow>
     (activation_reference list \<times> activation_reference list) res" where
  "check_next_reference s acc r =
     (let source = ref_activation r in
      if act_run_id source \<noteq> gr_run_id s \<or> act_superstep source > gr_superstep s
      then Inl (state_error ''next activation cause references the wrong frontier'')
      else if act_superstep source < gr_superstep s then Inr (fst acc, snd acc @ [r])
      else (case frontier_node (gr_frontier s) (act_node_id source) of
          None \<Rightarrow> Inl (state_error ''next activation cause source is not a settled success'')
        | Some x \<Rightarrow> (case fn_settlement x of
            SucceededGraphNode routing \<Rightarrow>
              if ref_route r \<noteq> selected_route routing
              then Inl (state_error ''next activation cause route does not match source settlement'')
              else Inr (fst acc @ [r], snd acc)
          | _ \<Rightarrow> Inl (state_error ''next activation cause source is not a settled success''))))"

definition check_next_activation ::
  "graph_run_state \<Rightarrow> (graph_join_occurrence \<rightharpoonup> join_progress_record) \<Rightarrow> graph_join_occurrence set \<Rightarrow>
     frontier_activation \<Rightarrow> graph_join_occurrence set res" where
  "check_next_activation s progress_by consumed a =
     (case fa_cause a of
        StartActivationCause \<Rightarrow> Inl (state_error ''next frontier activations must carry routed causes'')
      | RoutedActivationCause refs occ \<Rightarrow>
          let source_ids = reference_nodes refs in
          bindE (raise_unless (distinct source_ids)
            (state_error ''next activation cause cannot repeat one source node'')) (\<lambda>_.
          bindE (foldE (check_next_reference s) ([], []) refs) (\<lambda>(current_refs, history).
          bindE (raise_if (current_refs = [])
            (state_error ''next activation cause requires a current settled source'')) (\<lambda>_.
          (case occ of
             None \<Rightarrow>
               if history \<noteq> [] \<or> length refs \<noteq> 1
               then Inl (state_error ''non-Join activation cause must carry one current source'')
               else Inr consumed
           | Some oc \<Rightarrow>
               if occ_run_id oc \<noteq> gr_run_id s \<or> join_target (occ_join oc) \<noteq> fa_node_id a \<or>
                  occ_target_superstep oc \<noteq> gr_superstep s + 1 \<or>
                  set source_ids \<noteq> set (join_sources (occ_join oc))
               then Inl (state_error ''next Join activation cause has the wrong occurrence identity'')
               else (case progress_by oc of
                   None \<Rightarrow> if history \<noteq> []
                     then Inl (state_error ''historical Join references lack matching pending progress'')
                     else Inr consumed
                 | Some progress \<Rightarrow> if jp_arrived progress \<noteq> history
                     then Inl (state_error ''Join activation history does not match pending progress'')
                     else Inr (insert oc consumed)))))))"

definition validate_next_activations ::
  "graph_run_state \<Rightarrow> frontier_activation list \<Rightarrow> graph_join_occurrence set res" where
  "validate_next_activations s declared =
     bindE (validate_activation_batch declared ''next frontier'') (\<lambda>_.
     bindE (index_join_progress (gr_join_progress s) ''state'') (\<lambda>progress_by.
     foldE (check_next_activation s progress_by) {} declared))"

definition current_successful_references :: "graph_run_state \<Rightarrow> activation_reference list res" where
  "current_successful_references s =
     foldE (\<lambda>references x. case fn_settlement x of
        SucceededGraphNode routing \<Rightarrow>
          bindE (mk_GraphActivationIdentity (gr_run_id s) (gr_superstep s) (fn_node_id x)) (\<lambda>a.
          bindE (mk_ActivationReference a (selected_route routing)) (\<lambda>r.
          Inr (List.insert r references)))
      | _ \<Rightarrow> Inr references) [] (gr_frontier s)"

definition check_consumed_join ::
  "graph_run_state \<Rightarrow> (graph_join_occurrence \<rightharpoonup> join_progress_record) \<Rightarrow> activation_reference list \<Rightarrow>
     graph_join_occurrence list \<Rightarrow> graph_join_occurrence \<Rightarrow> graph_join_occurrence list res" where
  "check_consumed_join s previous current consumed oc =
     (if \<not> (occ_run_id oc = gr_run_id s \<and> occ_target_superstep oc = gr_superstep s + 1)
      then Inl (state_error ''consumed join occurrence has the wrong target coordinate'')
      else if oc \<in> set consumed
      then Inl (state_error ''consumed join progress keys must be canonical and distinct'')
      else (case previous oc of
          None \<Rightarrow> Inl (state_error ''consumed join progress does not exist in the current state'')
        | Some progress \<Rightarrow>
            let sources = join_sources (occ_join oc);
                current_arrivals = filter (\<lambda>r. act_node_id (ref_activation r) \<in> set sources) current;
                source_ids = reference_nodes (jp_arrived progress @ current_arrivals)
            in if \<not> distinct source_ids
               then Inl (state_error ''join progress repeats one source activation'')
               else if set source_ids \<noteq> set sources
               then Inl (state_error ''consumed join progress is not complete'')
               else Inr (consumed @ [oc])))"

definition validate_join_consumption ::
  "graph_run_state \<Rightarrow> graph_join_occurrence list \<Rightarrow> activation_reference list \<Rightarrow> graph_join_occurrence list res" where
  "validate_join_consumption s declared current =
     bindE (index_join_progress (gr_join_progress s) ''state'') (\<lambda>previous.
     bindE (foldE (check_consumed_join s previous current) [] declared) (\<lambda>consumed.
     if sort consumed \<noteq> declared
     then Inl (state_error ''consumed join progress keys must use canonical order'')
     else Inr consumed))"

definition check_updated_progress ::
  "(graph_join_occurrence \<rightharpoonup> join_progress_record) \<Rightarrow> activation_reference set \<Rightarrow> graph_join_occurrence set \<Rightarrow>
     join_progress_record \<Rightarrow> unit res" where
  "check_updated_progress previous current consumable progress =
     (let key = jp_occurrence progress; arrived = set (jp_arrived progress) in
      case previous key of
        None \<Rightarrow> raise_unless (arrived \<subseteq> current)
          (state_error ''new join progress must contain only current settled successes'')
      | Some prior \<Rightarrow>
          if key \<in> consumable then Inl (state_error ''consumed join progress cannot be retained'')
          else let prior_arrived = set (jp_arrived prior) in
          if \<not> prior_arrived \<subseteq> arrived
          then Inl (state_error ''join progress cannot remove or replace historical arrivals'')
          else if \<not> arrived - prior_arrived \<subseteq> current
          then Inl (state_error ''join progress additions must be current settled successes'')
          else Inr ())"

definition validate_join_progress_delta ::
  "graph_run_state \<Rightarrow> join_progress_record list \<Rightarrow> graph_join_occurrence set \<Rightarrow> graph_join_occurrence list \<Rightarrow> unit res" where
  "validate_join_progress_delta s declared consumed explicitly_consumed =
     bindE (index_join_progress (gr_join_progress s) ''state'') (\<lambda>previous.
     bindE (index_join_progress declared ''command'') (\<lambda>updated.
     bindE (current_successful_references s) (\<lambda>current.
     bindE (validate_join_consumption s explicitly_consumed current) (\<lambda>explicit.
     bindE (raise_if (consumed \<inter> set explicit \<noteq> {})
       (state_error ''one pending join cannot be consumed more than once'')) (\<lambda>_.
     let consumable = consumed \<union> set explicit in
     bindE (forE (check_updated_progress previous (set current) consumable) declared) (\<lambda>_.
     forE (\<lambda>j. raise_if (updated (jp_occurrence j) = None \<and> jp_occurrence j \<notin> consumable)
         (state_error ''unrelated join progress cannot be discarded'')) (gr_join_progress s)))))))"

section \<open>Claim, fence and frontier resolution\<close>

definition validate_claim_resources :: "graph_run_state \<Rightarrow> resource_snapshot option \<Rightarrow> unit res" where
  "validate_claim_resources s resources =
     (case resources of
        None \<Rightarrow> Inr ()
      | Some r \<Rightarrow>
          bindE (except_resource_error (validate_resource_snapshot r) ''claim resource snapshot is invalid'') (\<lambda>_.
          bindE (raise_if (snap_acquisitions r = [])
            (state_error ''an active claim cannot persist an empty resource snapshot'')) (\<lambda>_.
          raise_unless (set (participant_ids r) \<subseteq> set (pending_node_ids (gr_frontier s)))
            (state_error ''claim resource participant is outside current pending nodes''))))"

definition require_execution_lease :: "graph_run_state \<Rightarrow> execution_token \<Rightarrow> unit res" where
  "require_execution_lease s token =
     raise_unless (gr_execution s = Some token)
       (state_error ''graph command does not own the active execution lease'')"

definition claim_graph_execution :: "graph_run_state \<Rightarrow> string \<Rightarrow> resource_snapshot option \<Rightarrow> graph_run_state res" where
  "claim_graph_execution s attempt_id resources =
     (if gr_status s \<noteq> RUNNING \<or> gr_execution s \<noteq> None \<or> gr_resources s \<noteq> None
      then Inl (state_error ''only a quiescent running graph can claim execution'')
      else bindE (frontier_status (gr_frontier s)) (\<lambda>st.
        if st \<noteq> EXECUTABLE then Inl (state_error ''only an executable frontier can claim execution'')
        else if pending_node_ids (gr_frontier s) = []
        then Inl (state_error ''an execution claim requires pending nodes'')
        else bindE (validate_claim_resources s resources) (\<lambda>_.
          let token = GraphExecutionToken (gr_execution_sequence s + 1) attempt_id in
          Inr (s\<lparr>gr_execution_sequence := tok_generation token, gr_execution := Some token,
                 gr_resources := resources\<rparr>))))"

definition fence_graph_execution :: "graph_run_state \<Rightarrow> execution_token \<Rightarrow> graph_run_state res" where
  "fence_graph_execution s token =
     (if gr_status s \<noteq> RUNNING then Inl (state_error ''only a running graph can fence execution'')
      else bindE (require_execution_lease s token) (\<lambda>_.
        Inr (s\<lparr>gr_execution := None, gr_resources := None\<rparr>)))"

definition resolution_base :: "graph_run_state \<Rightarrow> unit res" where
  "resolution_base s =
     (if gr_status s \<noteq> RUNNING then Inl (state_error ''frontier resolution requires a running graph'')
      else bindE (frontier_status (gr_frontier s)) (\<lambda>st.
        if st \<noteq> SETTLED then Inl (state_error ''frontier resolution requires a settled frontier'')
        else raise_if (gr_execution s \<noteq> None \<or> gr_resources s \<noteq> None)
          (state_error ''a settled frontier must be quiescent'')))"

definition advance_graph_frontier :: "graph_run_state \<Rightarrow> advance_graph_frontier_command \<Rightarrow> graph_run_state res" where
  "advance_graph_frontier s c =
     bindE (resolution_base s) (\<lambda>_.
     bindE (validate_next_activations s (af_activations c)) (\<lambda>consumed.
     bindE (validate_join_progress_delta s (af_join_progress c) consumed (af_consumed_join_progress c)) (\<lambda>_.
     Inr (s\<lparr>gr_superstep := gr_superstep s + 1, gr_frontier := pending_frontier (af_activations c),
            gr_join_progress := af_join_progress c, gr_completion_route := None\<rparr>))))"

definition complete_graph_frontier ::
  "graph_run_state \<Rightarrow> graph_join_occurrence list \<Rightarrow> string option \<Rightarrow> graph_run_state res" where
  "complete_graph_frontier s consumed_join_progress completion_route =
     bindE (resolution_base s) (\<lambda>_.
     bindE (current_successful_references s) (\<lambda>current.
     bindE (validate_join_consumption s consumed_join_progress current) (\<lambda>consumed.
     if length consumed \<noteq> length (gr_join_progress s)
     then Inl (state_error ''a completed graph cannot discard unresolved join progress'')
     else Inr (s\<lparr>gr_status := COMPLETED, gr_frontier := [], gr_join_progress := [],
                 gr_completion_route := completion_route\<rparr>))))"

section \<open>Settling one node\<close>

definition settle_outcome ::
  "graph_run_state \<Rightarrow> settle_graph_node_command \<Rightarrow> (node_settlement \<times> publication_settlement list) res" where
  "settle_outcome s c =
     (case sn_outcome c of
        SucceededGraphNodeOutcome n routing \<Rightarrow>
          bindE (mk_GraphActivationIdentity (gr_run_id s) (gr_superstep s) n) (\<lambda>a.
          bindE (mk_ActivationReference a (selected_route routing)) (\<lambda>evidence.
          if \<exists>p\<in>set (gr_settled_publications s). ps_reference p = evidence
          then Inl (state_error ''node activation has already been committed as settled'')
          else Inr (SucceededGraphNode routing,
            sort_key publication_key (gr_settled_publications s @
              [GraphPublicationSettlement evidence (sn_expected_revision c + 1) (sn_execution c)
                 (sn_publication_evidence c)]))))
      | FailedGraphNodeOutcome n failure \<Rightarrow>
          if sn_publication_evidence c \<noteq> None
          then Inl (state_error ''failed node settlement cannot carry publication evidence'')
          else Inr (FailedGraphNode failure, gr_settled_publications s)
      | InterruptedGraphNodeOutcome n identity payload \<Rightarrow>
          if sn_publication_evidence c \<noteq> None
          then Inl (state_error ''interrupted node settlement cannot carry publication evidence'')
          else if (ii_run_id identity, ii_superstep identity, ii_node_id identity, ii_execution_generation identity) \<noteq>
              (gr_run_id s, gr_superstep s, n, tok_generation (sn_execution c))
          then Inl (state_error ''interrupt outcome identity does not match the active execution'')
          else if gr_resume_input_codec s = None
          then Inl (state_error ''an interrupted node requires a resume input codec'')
          else Inr (InterruptedGraphNode \<lparr>ni_identity = identity, ni_request_payload = payload\<rparr>,
            gr_settled_publications s))"

definition settle_config :: "graph_run_state \<Rightarrow> config_cursor option \<Rightarrow> config_cursor res" where
  "settle_config s cursor =
     bindE (config_cursor_of s) (\<lambda>current.
     (case cursor of
        None \<Rightarrow> Inr current
      | Some c \<Rightarrow> catchE (transition_to current c) (\<lambda>e. case e of
            TypeError _ \<Rightarrow> Inl (state_error ''node settlement Config cursor is malformed'')
          | ValueError m \<Rightarrow> Inl (state_error m)
          | _ \<Rightarrow> Inl e)))"

definition replace_settlement :: "graph_frontier \<Rightarrow> string \<Rightarrow> node_settlement \<Rightarrow> graph_frontier" where
  "replace_settlement f n settlement =
     map (\<lambda>x. \<lparr>fn_node_id = fn_node_id x,
               fn_settlement = (if fn_node_id x = n then settlement else fn_settlement x),
               fn_cause = fn_cause x\<rparr>) f"

definition settle_resources :: "resource_snapshot option \<Rightarrow> string \<Rightarrow> resource_snapshot option res" where
  "settle_resources resources n =
     (case resources of
        None \<Rightarrow> Inr None
      | Some r \<Rightarrow>
          if n \<in> set (participant_ids r)
          then bindE (except_resource_error (reduce_resources r (ReleaseResources n))
                 ''completed node cannot release its resource acquisition'') (\<lambda>r'.
               Inr (if snap_acquisitions r' = [] then None else Some r'))
          else Inr (Some r))"

definition apply_settlement ::
  "graph_run_state \<Rightarrow> graph_frontier \<Rightarrow> frontier_status_value \<Rightarrow> resource_snapshot option \<Rightarrow>
     publication_settlement list \<Rightarrow> config_cursor \<Rightarrow> graph_run_state" where
  "apply_settlement s frontier derived resources publications cursor =
     (let executable = (derived = EXECUTABLE) in
      s\<lparr>gr_status := (if derived = FRONTIER_FAILED then FAILED else RUNNING),
        gr_frontier := frontier,
        gr_execution := (if executable then gr_execution s else None),
        gr_resources := (if executable then resources else None),
        gr_settled_publications := publications,
        gr_config_revision := cc_revision cursor,
        gr_config_definition_id := Some (cc_definition_id cursor),
        gr_config_definition_version := Some (cc_definition_version cursor),
        gr_config_digest := cc_digest cursor\<rparr>)"

definition settle_graph_node :: "graph_run_state \<Rightarrow> settle_graph_node_command \<Rightarrow> graph_run_state res" where
  "settle_graph_node s c =
     (if gr_status s \<noteq> RUNNING then Inl (state_error ''only a running graph execution can settle a node'')
      else bindE (require_execution_lease s (sn_execution c)) (\<lambda>_.
      let n = outcome_node_id (sn_outcome c) in
      bindE (raise_unless (case frontier_node (gr_frontier s) n of None \<Rightarrow> False
               | Some x \<Rightarrow> is_pending (fn_settlement x))
        (state_error ''node settlement requires a current pending node'')) (\<lambda>_.
      bindE (settle_outcome s c) (\<lambda>(settlement, publications).
      bindE (settle_config s (sn_config_cursor c)) (\<lambda>cursor.
      let frontier = replace_settlement (gr_frontier s) n settlement in
      bindE (settle_resources (gr_resources s) n) (\<lambda>resources.
      bindE (frontier_status frontier) (\<lambda>derived.
      Inr (apply_settlement s frontier derived resources publications cursor))))))))"

section \<open>Abort and resume\<close>

definition abort_graph_run :: "graph_run_state \<Rightarrow> string \<Rightarrow> graph_run_state res" where
  "abort_graph_run s reason =
     (if gr_status s \<noteq> RUNNING \<or> gr_execution s \<noteq> None
      then Inl (state_error ''only a quiescent running graph can abort'')
      else Inr (s\<lparr>gr_status := ABORTED, gr_resources := None, gr_abort := Some reason\<rparr>))"

definition resume_node ::
  "(string \<rightharpoonup> resume_interrupted_node) \<times> graph_frontier \<Rightarrow> frontier_node_record \<Rightarrow>
     ((string \<rightharpoonup> resume_interrupted_node) \<times> graph_frontier) res" where
  "resume_node acc node =
     (let actions = fst acc; updated = snd acc in
      case actions (fn_node_id node) of
        None \<Rightarrow> Inr (actions, updated @ [node])
      | Some action \<Rightarrow>
          (case fn_settlement node of
             InterruptedGraphNode i \<Rightarrow>
               if ri_interrupt_id action \<noteq> graph_interrupt_id (ii_run_id (ni_identity i)) (ii_superstep (ni_identity i))
                    (ii_node_id (ni_identity i)) (ii_execution_generation (ni_identity i))
               then Inl (state_error ''interrupt resume ID does not match the current node interrupt'')
               else Inr (actions(fn_node_id node := None),
                 updated @ [\<lparr>fn_node_id = fn_node_id node,
                   fn_settlement = PendingGraphNode (OverrideGraphNodeInput (ri_input action)), fn_cause = fn_cause node\<rparr>])
           | _ \<Rightarrow> Inl (state_error ''resume action does not match its current node settlement'')))"

definition resume_graph_nodes :: "graph_run_state \<Rightarrow> resume_interrupted_node list \<Rightarrow> graph_run_state res" where
  "resume_graph_nodes s actions =
     (if gr_status s \<noteq> RUNNING \<or> gr_execution s \<noteq> None \<or> gr_resources s \<noteq> None
      then Inl (state_error ''node resume requires one quiescent running graph'')
      else let action_ids = map ri_node_id actions in
        if action_ids = [] \<or> action_ids \<noteq> sorted_set action_ids
        then Inl (state_error ''resume actions must be non-empty, distinct, and canonical'')
        else bindE (foldE resume_node (map_of (map (\<lambda>a. (ri_node_id a, a)) actions), []) (gr_frontier s)) (\<lambda>(rest, updated).
          if \<exists>n\<in>set action_ids. rest n \<noteq> None
          then Inl (state_error ''resume action references an unknown frontier node'')
          else Inr (s\<lparr>gr_frontier := updated\<rparr>)))"

end
