(* ===== verification/Graph_Reducer.thy ===== *)
theory Graph_Reducer
  imports Graph_Transitions
begin

text \<open>
  \<open>mote_kernel/state/graph_state/reducer.py\<close>: the single dispatch entry point of graph-run
  transitions and the admission of a confirmed successor. The lemmas of the second half give
  the shape of every successful transition: its guard and the exact fields it changes.
\<close>

section \<open>Dispatch\<close>

fun expected_revision :: "graph_run_command \<Rightarrow> int" where
  "expected_revision (StartGraphRun c) = 0"
| "expected_revision (ClaimGraphExecution r _ _) = r"
| "expected_revision (FenceGraphExecution r _) = r"
| "expected_revision (SettleGraphNode c) = sn_expected_revision c"
| "expected_revision (ResumeGraphNodes r _) = r"
| "expected_revision (AdvanceGraphFrontier c) = af_expected_revision c"
| "expected_revision (CompleteGraphFrontier r _ _) = r"
| "expected_revision (AbortGraphRun r _) = r"

fun dispatch_command :: "graph_run_state \<Rightarrow> graph_run_command \<Rightarrow> graph_run_state res" where
  "dispatch_command s (StartGraphRun c) = Inl (state_error ''an existing graph run cannot be started again'')"
| "dispatch_command s (ClaimGraphExecution _ attempt_id resources) = claim_graph_execution s attempt_id resources"
| "dispatch_command s (FenceGraphExecution _ token) = fence_graph_execution s token"
| "dispatch_command s (SettleGraphNode c) = settle_graph_node s c"
| "dispatch_command s (ResumeGraphNodes _ actions) = resume_graph_nodes s actions"
| "dispatch_command s (AdvanceGraphFrontier c) = advance_graph_frontier s c"
| "dispatch_command s (CompleteGraphFrontier _ consumed route) = complete_graph_frontier s consumed route"
| "dispatch_command s (AbortGraphRun _ reason) = abort_graph_run s reason"

fun reduce_graph_run :: "graph_run_state option \<Rightarrow> graph_run_command \<Rightarrow> graph_run_state res" where
  "reduce_graph_run None (StartGraphRun c) = start_graph_run c"
| "reduce_graph_run (Some s) (StartGraphRun c) =
     Inl (state_error ''an existing graph run cannot be started again'')"
| "reduce_graph_run None c =
     Inl (state_error ''a graph run must be started before it can transition'')"
| "reduce_graph_run (Some s) c =
     bindE (validate_graph_run_state s) (\<lambda>_.
     if expected_revision c \<noteq> gr_revision s
     then Inl (state_error ''graph command was based on a stale revision'')
     else bindE (dispatch_command s c) (\<lambda>updated.
       validated_graph_run_state (updated\<lparr>gr_revision := gr_revision s + 1\<rparr>)))"

section \<open>Confirmation of a durable successor\<close>

definition not_exact_successor :: "kernel_error" where
  "not_exact_successor = state_error ''confirmed graph state is not the exact reducer successor''"

fun bind_evidence :: "graph_run_command \<Rightarrow> graph_run_state \<Rightarrow> graph_run_command res" where
  "bind_evidence (StartGraphRun c) confirmed =
     (case gr_graph_input_evidence confirmed of
        None \<Rightarrow> Inl not_exact_successor
      | Some commitment \<Rightarrow>
          if sg_graph_input_evidence c \<noteq> None then Inl not_exact_successor
          else bindE (admit_evidence commitment) (\<lambda>e. Inr (StartGraphRun (c\<lparr>sg_graph_input_evidence := Some e\<rparr>))))"
| "bind_evidence (SettleGraphNode c) confirmed =
     (case sn_outcome c of
        SucceededGraphNodeOutcome n routing \<Rightarrow>
          let matches = filter (\<lambda>p. act_run_id (ref_activation (ps_reference p)) = gr_run_id confirmed \<and>
                act_superstep (ref_activation (ps_reference p)) = gr_superstep confirmed \<and>
                act_node_id (ref_activation (ps_reference p)) = n) (gr_settled_publications confirmed)
          in (case matches of
              [p] \<Rightarrow> (case ps_evidence p of
                  None \<Rightarrow> Inl not_exact_successor
                | Some e \<Rightarrow>
                    if sn_publication_evidence c \<noteq> None then Inl not_exact_successor
                    else bindE (admit_evidence e) (\<lambda>e'. Inr (SettleGraphNode (c\<lparr>sn_publication_evidence := Some e'\<rparr>))))
            | _ \<Rightarrow> Inl not_exact_successor)
      | _ \<Rightarrow> Inl not_exact_successor)"
| "bind_evidence _ confirmed = Inl not_exact_successor"

definition admit_graph_run_confirmation ::
  "graph_run_state option \<Rightarrow> graph_run_command \<Rightarrow> graph_run_state \<Rightarrow> graph_run_state res" where
  "admit_graph_run_confirmation s c confirmed =
     bindE (validate_graph_run_state confirmed) (\<lambda>_.
     bindE (reduce_graph_run s c) (\<lambda>expected.
     if confirmed = expected then Inr confirmed
     else bindE (bind_evidence c confirmed) (\<lambda>bound.
       bindE (reduce_graph_run s bound) (\<lambda>rebound.
       if confirmed \<noteq> rebound then Inl not_exact_successor else Inr confirmed))))"

section \<open>Shape of successful transitions\<close>

lemma reduce_SomeD:
  assumes "reduce_graph_run (Some s) c = Inr t"
  obtains u where "wf_state s" "expected_revision c = gr_revision s" "dispatch_command s c = Inr u"
    "t = u\<lparr>gr_revision := gr_revision s + 1\<rparr>" "wf_state t"
  using assms by (cases c) (auto simp: bindE_eq_Inr if_Inl_eq_Inr validate_graph_run_state_iff validated_graph_run_state_ok)

lemma reduce_SomeI:
  assumes "wf_state s" "expected_revision c = gr_revision s" "dispatch_command s c = Inr u"
    "wf_state (u\<lparr>gr_revision := gr_revision s + 1\<rparr>)"
  shows "reduce_graph_run (Some s) c = Inr (u\<lparr>gr_revision := gr_revision s + 1\<rparr>)"
proof -
  have "validate_graph_run_state s = Inr ()" using assms(1) by (simp add: validate_graph_run_state_iff)
  with assms(2-4) show ?thesis by (cases c) (auto simp: validated_graph_run_state_ok)
qed

lemma claim_ok:
  "claim_graph_execution s a r = Inr t \<longleftrightarrow> gr_status s = RUNNING \<and> gr_execution s = None \<and> gr_resources s = None \<and>
     pending_node_ids (gr_frontier s) \<noteq> [] \<and>
     (\<forall>x. r = Some x \<longrightarrow> validate_resource_snapshot x = Inr () \<and> snap_acquisitions x \<noteq> [] \<and>
        set (participant_ids x) \<subseteq> set (pending_node_ids (gr_frontier s))) \<and>
     t = s\<lparr>gr_execution_sequence := gr_execution_sequence s + 1,
           gr_execution := Some (GraphExecutionToken (gr_execution_sequence s + 1) a), gr_resources := r\<rparr>"
proof (cases "pending_node_ids (gr_frontier s) = []")
  case False
  then have "frontier_status (gr_frontier s) = Inr EXECUTABLE" by (simp add: pending_node_ids_nonempty)
  with False show ?thesis
    by (cases r) (auto simp: claim_graph_execution_def validate_claim_resources_def resE Let_def)
qed (auto simp: claim_graph_execution_def resE split: if_splits)

lemma fence_ok:
  "fence_graph_execution s tok = Inr t \<longleftrightarrow> gr_status s = RUNNING \<and> gr_execution s = Some tok \<and>
     t = s\<lparr>gr_execution := None, gr_resources := None\<rparr>"
  by (auto simp: fence_graph_execution_def require_execution_lease_def resE)

lemma abort_ok:
  "abort_graph_run s a = Inr t \<longleftrightarrow> gr_status s = RUNNING \<and> gr_execution s = None \<and>
     t = s\<lparr>gr_status := ABORTED, gr_resources := None, gr_abort := Some a\<rparr>"
  by (auto simp: abort_graph_run_def)

lemma resolution_base_ok [resE]:
  "resolution_base s = Inr u \<longleftrightarrow> gr_status s = RUNNING \<and> frontier_status (gr_frontier s) = Inr SETTLED \<and>
     gr_execution s = None \<and> gr_resources s = None"
  by (auto simp: resolution_base_def resE)

lemma advance_ok:
  "advance_graph_frontier s c = Inr t \<longleftrightarrow> resolution_base s = Inr () \<and>
     (\<exists>consumed. validate_next_activations s (af_activations c) = Inr consumed \<and>
        validate_join_progress_delta s (af_join_progress c) consumed (af_consumed_join_progress c) = Inr ()) \<and>
     t = s\<lparr>gr_superstep := gr_superstep s + 1, gr_frontier := pending_frontier (af_activations c),
           gr_join_progress := af_join_progress c, gr_completion_route := None\<rparr>"
  by (auto simp: advance_graph_frontier_def bindE_eq_Inr)

lemma complete_ok:
  "complete_graph_frontier s js r = Inr t \<longleftrightarrow> resolution_base s = Inr () \<and>
     (\<exists>current consumed. current_successful_references s = Inr current \<and>
        validate_join_consumption s js current = Inr consumed \<and> length consumed = length (gr_join_progress s)) \<and>
     t = s\<lparr>gr_status := COMPLETED, gr_frontier := [], gr_join_progress := [], gr_completion_route := r\<rparr>"
  by (auto simp: complete_graph_frontier_def bindE_eq_Inr if_Inl_eq_Inr)

lemma settle_ok:
  assumes "settle_graph_node s c = Inr t"
  obtains x settlement pubs cursor resources derived where
    "gr_status s = RUNNING" "gr_execution s = Some (sn_execution c)"
    "frontier_node (gr_frontier s) (outcome_node_id (sn_outcome c)) = Some x" "is_pending (fn_settlement x)"
    "settle_outcome s c = Inr (settlement, pubs)" "settle_config s (sn_config_cursor c) = Inr cursor"
    "settle_resources (gr_resources s) (outcome_node_id (sn_outcome c)) = Inr resources"
    "frontier_status (replace_settlement (gr_frontier s) (outcome_node_id (sn_outcome c)) settlement) = Inr derived"
    "t = apply_settlement s (replace_settlement (gr_frontier s) (outcome_node_id (sn_outcome c)) settlement)
       derived resources pubs cursor"
  using assms unfolding settle_graph_node_def Let_def
  by (auto simp: bindE_eq_Inr if_Inl_eq_Inr raise_unless_eq require_execution_lease_def split: option.splits)

lemma resume_ok:
  assumes "resume_graph_nodes s actions = Inr t"
  obtains rest updated where
    "gr_status s = RUNNING" "gr_execution s = None" "gr_resources s = None" "actions \<noteq> []"
    "canonical_tuple (map ri_node_id actions)"
    "foldE resume_node (map_of (map (\<lambda>a. (ri_node_id a, a)) actions), []) (gr_frontier s) = Inr (rest, updated)"
    "\<forall>a\<in>set actions. rest (ri_node_id a) = None" "t = s\<lparr>gr_frontier := updated\<rparr>"
  using assms unfolding resume_graph_nodes_def Let_def
  by (auto simp: bindE_eq_Inr if_Inl_eq_Inr canonical_tuple_def)

end
