(* ===== verification/Reducer_Steps.thy ===== *)
theory Reducer_Steps
  imports Graph_Reducer
begin

text \<open>
  What one successful command does to a run, whatever the command: which fields are frozen,
  how the counters, the publication ledger, the execution lease and the Config cursor move.
  These facts are the laws of the locale \<open>leased_machine\<close>, the contract the rest of the kernel
  relies on, which is interpreted on \<open>reduce_graph_run\<close>; its lemmas lift the laws to command
  sequences.
\<close>

section \<open>One step\<close>

lemma settle_outcome_ledger:
  assumes "settle_outcome s c = Inr (settlement, pubs)"
  obtains "pubs = gr_settled_publications s" "\<not> is_succeeded settlement" "\<not> is_pending settlement"
  | routing where "settlement = SucceededGraphNode routing"
      "sn_outcome c = SucceededGraphNodeOutcome (outcome_node_id (sn_outcome c)) routing"
      "pubs = sort_key publication_key (gr_settled_publications s @
         [GraphPublicationSettlement
            (ActivationReference (GraphActivationIdentity (gr_run_id s) (gr_superstep s) (outcome_node_id (sn_outcome c)))
               (selected_route routing))
            (sn_expected_revision c + 1) (sn_execution c) (sn_publication_evidence c)])"
  using assms unfolding settle_outcome_def
  by (cases "sn_outcome c") (auto simp: bindE_eq_Inr if_Inl_eq_Inr mk_GraphActivationIdentity_ok mk_ActivationReference_ok)

lemma settle_outcome_subset:
  assumes "settle_outcome s c = Inr (settlement, pubs)"
  shows "set (gr_settled_publications s) \<subseteq> set pubs" and "length pubs \<le> length (gr_settled_publications s) + 1"
  using assms by (auto elim!: settle_outcome_ledger)

lemma settle_config_handler:
  "catchE m (\<lambda>e. case e of TypeError _ \<Rightarrow> Inl f | ValueError v \<Rightarrow> Inl (g v) | _ \<Rightarrow> Inl e) = Inr y \<longleftrightarrow> m = Inr y"
proof (rule catchE_raising)
  show "\<exists>e'. (case e of TypeError _ \<Rightarrow> Inl f | ValueError v \<Rightarrow> Inl (g v) | _ \<Rightarrow> Inl e) = Inl e'" for e
    by (cases e) auto
qed

lemma settle_config_ok:
  assumes "settle_config s cur = Inr c"
  shows "wf_config s \<and> wf_cursor c \<and> cc_definition_id c = the (gr_config_definition_id s) \<and>
    cc_definition_version c = the (gr_config_definition_version s) \<and>
    gr_config_revision s \<le> cc_revision c \<and> cc_revision c \<le> gr_config_revision s + 1"
proof -
  from assms obtain d where d: "config_cursor_of s = Inr d" and
    dc: "c = d \<or> (\<exists>x. transition_to d x = Inr c)"
    unfolding settle_config_def
    by (auto simp: bindE_eq_Inr settle_config_handler split: option.splits)
  have w: "wf_config s" "wf_cursor d" and ds: "cc_definition_id d = the (gr_config_definition_id s)"
    "cc_definition_version d = the (gr_config_definition_version s)" "cc_revision d = gr_config_revision s"
    using d by (auto simp: config_cursor_of_ok wf_config_def)
  show ?thesis using dc w ds by (auto dest: transition_to_wf)
qed

definition frozen :: "graph_run_state \<Rightarrow> string \<times> string \<times> int \<times> graph_activation_identity option \<times>
    resume_codec option \<times> evidence_commitment option \<times> string option \<times> int option" where
  "frozen s = (gr_run_id s, gr_definition_id s, gr_definition_version s, gr_parent s, gr_resume_input_codec s,
     gr_graph_input_evidence s, gr_config_definition_id s, gr_config_definition_version s)"

lemma dispatch_frozen:
  assumes "dispatch_command s c = Inr u"
  shows "frozen u = frozen s \<and> gr_revision u = gr_revision s \<and> gr_status s = RUNNING"
proof (cases c)
  case (SettleGraphNode x)
  with assms have "settle_graph_node s x = Inr u" by simp
  then show ?thesis
  proof (rule settle_ok)
    fix y settlement pubs cursor resources derived
    assume *: "gr_status s = RUNNING" "settle_config s (sn_config_cursor x) = Inr cursor" and
      u: "u = apply_settlement s (replace_settlement (gr_frontier s) (outcome_node_id (sn_outcome x)) settlement)
          derived resources pubs cursor"
    have "Some (cc_definition_id cursor) = gr_config_definition_id s"
      "Some (cc_definition_version cursor) = gr_config_definition_version s"
      using settle_config_ok [OF *(2)] by (auto simp: wf_config_def)
    with * u show ?thesis by (simp add: frozen_def apply_settlement_def Let_def)
  qed
qed (use assms in \<open>auto simp: frozen_def claim_ok fence_ok abort_ok advance_ok complete_ok resolution_base_ok elim!: resume_ok\<close>)

lemma reduce_frozen:
  assumes "reduce_graph_run (Some s) c = Inr t"
  shows "frozen t = frozen s \<and> gr_revision t = gr_revision s + 1 \<and> gr_status s = RUNNING"
  using assms by (rule reduce_SomeD) (auto dest!: dispatch_frozen simp: frozen_def)

lemma dispatch_progress:
  assumes "dispatch_command s c = Inr u"
  shows "set (gr_settled_publications s) \<subseteq> set (gr_settled_publications u)"
    and "gr_superstep s \<le> gr_superstep u \<and> gr_execution_sequence s \<le> gr_execution_sequence u"
    and "gr_superstep u + gr_execution_sequence u + int (length (gr_settled_publications u)) \<le>
         gr_superstep s + gr_execution_sequence s + int (length (gr_settled_publications s)) + 1"
    and "gr_config_revision s \<le> gr_config_revision u \<and> gr_config_revision u \<le> gr_config_revision s + 1"
    and "gr_execution u = Some k \<Longrightarrow> gr_execution s = Some k \<or> gr_execution_sequence u = gr_execution_sequence s + 1"
proof -
  have "set (gr_settled_publications s) \<subseteq> set (gr_settled_publications u) \<and>
    gr_superstep s \<le> gr_superstep u \<and> gr_execution_sequence s \<le> gr_execution_sequence u \<and>
    gr_superstep u + gr_execution_sequence u + int (length (gr_settled_publications u)) \<le>
      gr_superstep s + gr_execution_sequence s + int (length (gr_settled_publications s)) + 1 \<and>
    gr_config_revision s \<le> gr_config_revision u \<and> gr_config_revision u \<le> gr_config_revision s + 1 \<and>
    (gr_execution u = Some k \<longrightarrow> gr_execution s = Some k \<or> gr_execution_sequence u = gr_execution_sequence s + 1)" for k
  proof (cases c)
    case (SettleGraphNode x)
    with assms have "settle_graph_node s x = Inr u" by simp
    then show ?thesis
    proof (rule settle_ok)
      fix y settlement pubs cursor resources derived
      assume p: "settle_outcome s x = Inr (settlement, pubs)" and cu: "settle_config s (sn_config_cursor x) = Inr cursor"
        and u: "u = apply_settlement s (replace_settlement (gr_frontier s) (outcome_node_id (sn_outcome x)) settlement)
          derived resources pubs cursor"
      show ?thesis
        using settle_outcome_subset [OF p] settle_config_ok [OF cu] by (simp add: u apply_settlement_def Let_def)
    qed
  qed (use assms in \<open>auto simp: claim_ok fence_ok abort_ok advance_ok complete_ok elim!: resume_ok\<close>)
  then show "set (gr_settled_publications s) \<subseteq> set (gr_settled_publications u)"
    "gr_superstep s \<le> gr_superstep u \<and> gr_execution_sequence s \<le> gr_execution_sequence u"
    "gr_superstep u + gr_execution_sequence u + int (length (gr_settled_publications u)) \<le>
         gr_superstep s + gr_execution_sequence s + int (length (gr_settled_publications s)) + 1"
    "gr_config_revision s \<le> gr_config_revision u \<and> gr_config_revision u \<le> gr_config_revision s + 1"
    "gr_execution u = Some k \<Longrightarrow> gr_execution s = Some k \<or> gr_execution_sequence u = gr_execution_sequence s + 1"
    by blast+
qed

lemma reduce_progress:
  assumes "reduce_graph_run (Some s) c = Inr t"
  shows "set (gr_settled_publications s) \<subseteq> set (gr_settled_publications t)"
    and "gr_superstep s \<le> gr_superstep t \<and> gr_execution_sequence s \<le> gr_execution_sequence t"
    and "gr_superstep t + gr_execution_sequence t + int (length (gr_settled_publications t)) \<le>
         gr_superstep s + gr_execution_sequence s + int (length (gr_settled_publications s)) + 1"
    and "gr_config_revision s \<le> gr_config_revision t \<and> gr_config_revision t \<le> gr_config_revision s + 1"
    and "gr_execution t = Some k \<Longrightarrow> gr_execution s = Some k \<or> gr_execution_sequence t = gr_execution_sequence s + 1"
proof -
  from assms obtain u where u: "dispatch_command s c = Inr u" "t = u\<lparr>gr_revision := gr_revision s + 1\<rparr>"
    by (rule reduce_SomeD)
  note d = dispatch_progress [OF u(1)]
  show "set (gr_settled_publications s) \<subseteq> set (gr_settled_publications t)"
    "gr_superstep s \<le> gr_superstep t \<and> gr_execution_sequence s \<le> gr_execution_sequence t"
    "gr_superstep t + gr_execution_sequence t + int (length (gr_settled_publications t)) \<le>
         gr_superstep s + gr_execution_sequence s + int (length (gr_settled_publications s)) + 1"
    "gr_config_revision s \<le> gr_config_revision t \<and> gr_config_revision t \<le> gr_config_revision s + 1"
    "gr_execution t = Some k \<Longrightarrow> gr_execution s = Some k \<or> gr_execution_sequence t = gr_execution_sequence s + 1"
    using d by (simp_all add: u(2))
qed

section \<open>The contract of a leased, versioned machine\<close>

locale leased_machine =
  fixes step :: "'s \<Rightarrow> 'c \<Rightarrow> kernel_error + 's"
    and valid :: "'s \<Rightarrow> bool"
    and revision :: "'s \<Rightarrow> int"
    and ledger :: "'s \<Rightarrow> 'p set"
    and lease :: "'s \<Rightarrow> 't option"
    and generation :: "'t \<Rightarrow> int"
    and sequence :: "'s \<Rightarrow> int"
    and identity :: "'s \<Rightarrow> 'i"
  assumes step_valid: "step s c = Inr t \<Longrightarrow> valid s \<and> valid t"
    and step_revision: "step s c = Inr t \<Longrightarrow> revision t = revision s + 1"
    and step_identity: "step s c = Inr t \<Longrightarrow> identity t = identity s"
    and step_ledger: "step s c = Inr t \<Longrightarrow> ledger s \<subseteq> ledger t"
    and step_sequence: "step s c = Inr t \<Longrightarrow> sequence s \<le> sequence t"
    and lease_current: "valid s \<Longrightarrow> lease s = Some k \<Longrightarrow> generation k = sequence s"
    and lease_born: "step s c = Inr t \<Longrightarrow> lease t = Some k \<Longrightarrow> lease s = Some k \<or> sequence s < sequence t"
begin

lemma run_valid: "foldE step s cs = Inr t \<Longrightarrow> valid s \<Longrightarrow> valid t"
  by (erule foldE_invariant) (auto dest: step_valid)

lemma run_revision: "foldE step s cs = Inr t \<Longrightarrow> revision t = revision s + int (length cs)"
  by (induction cs arbitrary: s) (auto simp: bindE_eq_Inr dest!: step_revision)

lemma run_identity: "foldE step s cs = Inr t \<Longrightarrow> identity t = identity s"
  by (induction cs arbitrary: s) (auto simp: bindE_eq_Inr dest!: step_identity)

lemma run_ledger: "foldE step s cs = Inr t \<Longrightarrow> ledger s \<subseteq> ledger t"
  by (induction cs arbitrary: s) (auto simp: bindE_eq_Inr dest!: step_ledger)

lemma revoked_stays_revoked:
  assumes "foldE step s cs = Inr t" and "valid s" and "generation k \<le> sequence s" and "lease s \<noteq> Some k"
  shows "lease t \<noteq> Some k"
proof -
  have "valid t \<and> generation k \<le> sequence t \<and> lease t \<noteq> Some k"
  proof (rule foldE_invariant [OF assms(1)])
    show "valid s \<and> generation k \<le> sequence s \<and> lease s \<noteq> Some k" using assms by blast
    fix u c v
    assume u: "valid u \<and> generation k \<le> sequence u \<and> lease u \<noteq> Some k" and st: "step u c = Inr v"
    have v: "valid v" "sequence u \<le> sequence v" using step_valid [OF st] step_sequence [OF st] by auto
    have "lease v \<noteq> Some k"
      using lease_born [OF st, of k] lease_current [OF v(1), of k] u by fastforce
    with u v show "valid v \<and> generation k \<le> sequence v \<and> lease v \<noteq> Some k" by auto
  qed
  then show ?thesis by blast
qed

end

interpretation gm: leased_machine "\<lambda>s. reduce_graph_run (Some s)" wf_state gr_revision
  "\<lambda>s. set (gr_settled_publications s)" gr_execution tok_generation gr_execution_sequence frozen
proof unfold_locales
  fix s c t k
  show "wf_state s \<Longrightarrow> gr_execution s = Some k \<Longrightarrow> tok_generation k = gr_execution_sequence s"
    by (simp add: wf_state_def wf_execution_def)
  assume st: "reduce_graph_run (Some s) c = Inr t"
  then show "wf_state s \<and> wf_state t" by (rule reduce_SomeD) blast
  show "gr_revision t = gr_revision s + 1" "frozen t = frozen s" using reduce_frozen [OF st] by auto
  show "set (gr_settled_publications s) \<subseteq> set (gr_settled_publications t)"
    "gr_execution_sequence s \<le> gr_execution_sequence t"
    using reduce_progress [OF st] by auto
  show "gr_execution t = Some k \<Longrightarrow> gr_execution s = Some k \<or> gr_execution_sequence s < gr_execution_sequence t"
    using reduce_progress(5) [OF st, of k] by linarith
qed

section \<open>Reachable states\<close>

inductive reachable_run :: "graph_run_state \<Rightarrow> bool" where
  started: "reduce_graph_run None (StartGraphRun c) = Inr s \<Longrightarrow> reachable_run s"
| stepped: "reachable_run s \<Longrightarrow> reduce_graph_run (Some s) c = Inr t \<Longrightarrow> reachable_run t"

inductive_cases reachable_runE: "reachable_run s"

lemma start_ok:
  assumes "start_graph_run c = Inr s"
  shows "wf_state s \<and> gr_run_id s = sg_run_id c \<and> gr_status s = RUNNING \<and> gr_superstep s = 0 \<and> gr_revision s = 0 \<and>
    gr_execution_sequence s = 0 \<and> gr_settled_publications s = [] \<and> gr_execution s = None \<and> gr_resources s = None \<and>
    gr_join_progress s = [] \<and> gr_frontier s = pending_frontier (sg_activations c) \<and>
    (\<forall>e. gr_graph_input_evidence s = Some e \<longrightarrow> wf_evidence e)"
  using assms
  by (auto simp: start_graph_run_def start_activations_def graph_state_post_init_def bindE_eq_Inr catchE_eq_Inr
      validated_graph_run_state_ok admit_evidence_ok split: option.splits)

lemma reachable_wf: "reachable_run s \<Longrightarrow> wf_state s"
  by (induction rule: reachable_run.induct) (auto dest: start_ok gm.step_valid)

lemma reachable_run_fold: "reachable_run s \<Longrightarrow> foldE (\<lambda>s. reduce_graph_run (Some s)) s cs = Inr t \<Longrightarrow> reachable_run t"
  by (erule foldE_invariant) (auto intro: reachable_run.stepped)

lemma reachable_budget:
  "reachable_run s \<Longrightarrow>
     gr_superstep s + gr_execution_sequence s + int (length (gr_settled_publications s)) \<le> gr_revision s"
proof (induction rule: reachable_run.induct)
  case (started c s)
  then show ?case by (auto dest!: start_ok)
next
  case (stepped s c t)
  then show ?case using reduce_progress(3) [of s c t] reduce_frozen [of s c t] by linarith
qed

end
