(* ===== verification/Reducer_Enabled.thy ===== *)
theory Reducer_Enabled
  imports Reducer_Steps
begin

text \<open>
  When a command is accepted. The reducer re-validates every successor; the lemmas here show
  that for a claim, a fence, an abort, a resume and a settlement this final validation never
  rejects what the transition itself accepted (up to the identities the command brings), so
  the guards of the transitions are the exact enabling conditions.
\<close>

section \<open>Which fields each part of the invariant reads\<close>

definition same_position :: "graph_run_state \<Rightarrow> graph_run_state \<Rightarrow> bool" where
  "same_position s t \<longleftrightarrow> gr_run_id t = gr_run_id s \<and> gr_superstep t = gr_superstep s \<and>
     set (gr_settled_publications s) \<subseteq> set (gr_settled_publications t)"

lemma past_reference_mono: "same_position s t \<Longrightarrow> past_reference s r \<Longrightarrow> past_reference t r"
  by (auto simp: same_position_def past_reference_def ledger_references_def)

lemma wf_occurrence_same: "gr_run_id t = gr_run_id s \<Longrightarrow> wf_occurrence t oc \<longleftrightarrow> wf_occurrence s oc"
  by (simp add: wf_occurrence_def)

lemma wf_progress_mono: "same_position s t \<Longrightarrow> wf_progress s j \<Longrightarrow> wf_progress t j"
  using past_reference_mono [of s t] wf_occurrence_same [of t s]
  by (auto simp: wf_progress_def same_position_def)

lemma wf_joins_mono:
  "same_position s t \<Longrightarrow> gr_join_progress t = gr_join_progress s \<Longrightarrow> wf_joins s \<Longrightarrow> wf_joins t"
  using wf_progress_mono [of s t] by (auto simp: wf_joins_def)

lemma wf_cause_mono: "same_position s t \<Longrightarrow> wf_cause s n c \<Longrightarrow> wf_cause t n c"
  using past_reference_mono [of s t] wf_occurrence_same [of t s]
  by (cases c) (auto simp: same_position_def split: option.splits)

lemma wf_settlement_mono:
  "same_position s t \<Longrightarrow> gr_execution_sequence s \<le> gr_execution_sequence t \<Longrightarrow> wf_settlement s n x \<Longrightarrow> wf_settlement t n x"
  by (cases x) (auto simp: same_position_def)

lemma wf_node_mono:
  "same_position s t \<Longrightarrow> gr_execution_sequence s \<le> gr_execution_sequence t \<Longrightarrow> wf_node s x \<Longrightarrow> wf_node t x"
  using wf_cause_mono wf_settlement_mono by (auto simp: wf_node_def)

lemma publication_in_bounds_mono:
  "same_position s t \<Longrightarrow> gr_execution_sequence s \<le> gr_execution_sequence t \<Longrightarrow> gr_revision s \<le> gr_revision t \<Longrightarrow>
     publication_in_bounds s p \<Longrightarrow> publication_in_bounds t p"
  by (auto simp: same_position_def publication_in_bounds_def)

lemma frontier_references_cong:
  "gr_run_id t = gr_run_id s \<Longrightarrow> gr_superstep t = gr_superstep s \<Longrightarrow> gr_frontier t = gr_frontier s \<Longrightarrow>
     frontier_references t = frontier_references s"
  by (simp add: frontier_references_def)

lemma wf_ledger_keep:
  assumes "wf_ledger s" and "same_position s t" and "gr_settled_publications t = gr_settled_publications s"
    and "gr_execution_sequence s \<le> gr_execution_sequence t" and "gr_revision s \<le> gr_revision t"
    and "set (frontier_references t) = set (frontier_references s) \<and> gr_status s \<noteq> COMPLETED \<or> gr_status t = COMPLETED"
  shows "wf_ledger t"
proof -
  have "ledger_references t = ledger_references s" and "gr_superstep t = gr_superstep s"
    using assms(2,3) by (simp_all add: ledger_references_def same_position_def)
  moreover have "\<forall>p\<in>set (gr_settled_publications t). publication_in_bounds t p"
    using assms(1,3) publication_in_bounds_mono [OF assms(2,4,5)] by (simp add: wf_ledger_def)
  ultimately show ?thesis using assms(1,3,6) unfolding wf_ledger_def by simp metis
qed

lemma wf_runningD:
  assumes "wf_state s" and "gr_status s = RUNNING"
  shows "gr_frontier s \<noteq> []" "frontier_status (gr_frontier s) \<noteq> Inr FRONTIER_FAILED" "gr_abort s = None"
    "gr_completion_route s = None" "0 \<le> gr_execution_sequence s" "gr_execution s = None \<Longrightarrow> gr_resources s = None"
proof -
  have "wf_status s" "wf_counters s" "wf_resources s" using assms(1) by (simp_all add: wf_state_def)
  with assms(2) show "gr_frontier s \<noteq> []" "frontier_status (gr_frontier s) \<noteq> Inr FRONTIER_FAILED" "gr_abort s = None"
    "gr_completion_route s = None" "0 \<le> gr_execution_sequence s"
    by (simp_all add: wf_status_def wf_counters_def)
  show "gr_execution s = None \<Longrightarrow> gr_resources s = None"
    using \<open>wf_resources s\<close> by (cases "gr_resources s") (auto simp: wf_resources_def)
qed

text \<open>
  The parts of the invariant that only read fields outside the frontier, the lease and the
  resources: a successor with the same position keeps them.
\<close>

definition wf_stable :: "graph_run_state \<Rightarrow> bool" where
  "wf_stable s \<longleftrightarrow> wf_counters s \<and> wf_config s \<and> wf_ledger s \<and> wf_parent s \<and> wf_joins s \<and> wf_frontier s"

lemma wf_state_split: "wf_state s \<longleftrightarrow> wf_stable s \<and> wf_resources s \<and> wf_execution s \<and> wf_status s"
  by (auto simp: wf_state_def wf_stable_def)

lemma wf_stable_keep:
  assumes s: "wf_stable s" and run: "gr_status s = RUNNING" "gr_status t \<noteq> COMPLETED"
    and eq: "frozen t = frozen s" "gr_superstep t = gr_superstep s" "gr_frontier t = gr_frontier s"
      "gr_join_progress t = gr_join_progress s" "gr_settled_publications t = gr_settled_publications s"
      "gr_completion_route t = gr_completion_route s" "gr_config_revision t = gr_config_revision s"
      "gr_config_digest t = gr_config_digest s"
    and le: "gr_execution_sequence s \<le> gr_execution_sequence t" "gr_revision s \<le> gr_revision t"
  shows "wf_stable t"
proof -
  have sp: "same_position s t" using eq by (simp add: same_position_def frozen_def)
  have fr: "frontier_references t = frontier_references s"
    using eq by (intro frontier_references_cong) (simp_all add: frozen_def)
  have "wf_counters t" using s eq le by (auto simp: wf_stable_def wf_counters_def frozen_def)
  moreover have "wf_config t" using s eq by (simp add: wf_stable_def wf_config_def frozen_def)
  moreover have "wf_parent t" using s eq by (simp add: wf_stable_def wf_parent_def frozen_def)
  moreover have "wf_ledger t"
    using s sp eq le fr run by (intro wf_ledger_keep [of s t]) (auto simp: wf_stable_def)
  moreover have "wf_joins t" using s sp eq wf_joins_mono by (auto simp: wf_stable_def)
  moreover have "wf_frontier t"
    using s eq le wf_node_mono [OF sp le(1)] by (auto simp: wf_stable_def wf_frontier_def wf_codec_def frozen_def)
  ultimately show ?thesis by (simp add: wf_stable_def)
qed

section \<open>Claim, fence and abort\<close>

definition claimable_resources :: "graph_run_state \<Rightarrow> resource_snapshot option \<Rightarrow> bool" where
  "claimable_resources s r \<longleftrightarrow> (\<forall>x. r = Some x \<longrightarrow> validate_resource_snapshot x = Inr () \<and> snap_acquisitions x \<noteq> [] \<and>
     set (participant_ids x) \<subseteq> set (pending_node_ids (gr_frontier s)))"

lemma claim_enabled:
  assumes w: "wf_state s"
  shows "reduce_graph_run (Some s) (ClaimGraphExecution k a r) = Inr t \<longleftrightarrow>
     k = gr_revision s \<and> is_canonical_identity a \<and> gr_status s = RUNNING \<and> gr_execution s = None \<and>
     pending_node_ids (gr_frontier s) \<noteq> [] \<and> claimable_resources s r \<and>
     t = s\<lparr>gr_execution_sequence := gr_execution_sequence s + 1,
           gr_execution := Some (GraphExecutionToken (gr_execution_sequence s + 1) a),
           gr_resources := r, gr_revision := gr_revision s + 1\<rparr>" (is "?L \<longleftrightarrow> ?R")
proof
  assume ?L
  then show ?R
    by (rule reduce_SomeD) (auto simp: claim_ok claimable_resources_def wf_state_def wf_execution_def wf_token_def)
next
  assume R: ?R
  let ?u = "s\<lparr>gr_execution_sequence := gr_execution_sequence s + 1,
           gr_execution := Some (GraphExecutionToken (gr_execution_sequence s + 1) a), gr_resources := r\<rparr>"
  have res: "gr_resources s = None" using R wf_runningD [OF w] by blast
  have "wf_stable (?u\<lparr>gr_revision := gr_revision s + 1\<rparr>)"
    by (rule wf_stable_keep [of s]) (use R w in \<open>simp_all add: wf_state_split frozen_def\<close>)
  moreover have "wf_resources (?u\<lparr>gr_revision := gr_revision s + 1\<rparr>)"
    using R by (simp add: wf_resources_def claimable_resources_def)
  moreover have "wf_execution (?u\<lparr>gr_revision := gr_revision s + 1\<rparr>)" "wf_status (?u\<lparr>gr_revision := gr_revision s + 1\<rparr>)"
    using R wf_runningD [OF w] by (simp_all add: wf_execution_def wf_token_def wf_status_def)
  ultimately have "wf_state (?u\<lparr>gr_revision := gr_revision s + 1\<rparr>)" by (simp add: wf_state_split)
  moreover have "dispatch_command s (ClaimGraphExecution k a r) = Inr ?u"
    using R res by (auto simp: claim_ok claimable_resources_def)
  ultimately have "reduce_graph_run (Some s) (ClaimGraphExecution k a r) = Inr (?u\<lparr>gr_revision := gr_revision s + 1\<rparr>)"
    using w R by (intro reduce_SomeI) auto
  with R show ?L by simp
qed

lemma fence_enabled:
  assumes w: "wf_state s"
  shows "reduce_graph_run (Some s) (FenceGraphExecution k tok) = Inr t \<longleftrightarrow>
     k = gr_revision s \<and> gr_execution s = Some tok \<and>
     t = s\<lparr>gr_execution := None, gr_resources := None, gr_revision := gr_revision s + 1\<rparr>" (is "?L \<longleftrightarrow> ?R")
proof
  assume ?L
  then show ?R by (rule reduce_SomeD) (auto simp: fence_ok)
next
  assume R: ?R
  let ?u = "s\<lparr>gr_execution := None, gr_resources := None\<rparr>"
  have run: "gr_status s = RUNNING" using R w by (simp add: wf_state_def wf_execution_def)
  have "wf_stable (?u\<lparr>gr_revision := gr_revision s + 1\<rparr>)"
    by (rule wf_stable_keep [of s]) (use run w in \<open>simp_all add: wf_state_split frozen_def\<close>)
  moreover have "wf_resources (?u\<lparr>gr_revision := gr_revision s + 1\<rparr>)" "wf_execution (?u\<lparr>gr_revision := gr_revision s + 1\<rparr>)"
    "wf_status (?u\<lparr>gr_revision := gr_revision s + 1\<rparr>)"
    using run wf_runningD [OF w] by (simp_all add: wf_resources_def wf_execution_def wf_status_def)
  ultimately have "wf_state (?u\<lparr>gr_revision := gr_revision s + 1\<rparr>)" by (simp add: wf_state_split)
  with w R run have "reduce_graph_run (Some s) (FenceGraphExecution k tok) = Inr (?u\<lparr>gr_revision := gr_revision s + 1\<rparr>)"
    by (intro reduce_SomeI) (auto simp: fence_ok)
  with R show ?L by simp
qed

lemma abort_enabled:
  assumes w: "wf_state s"
  shows "reduce_graph_run (Some s) (AbortGraphRun k a) = Inr t \<longleftrightarrow>
     k = gr_revision s \<and> gr_status s = RUNNING \<and> gr_execution s = None \<and> is_canonical_identity a \<and>
     t = s\<lparr>gr_status := ABORTED, gr_resources := None, gr_abort := Some a, gr_revision := gr_revision s + 1\<rparr>"
    (is "?L \<longleftrightarrow> ?R")
proof
  assume ?L
  then show ?R by (rule reduce_SomeD) (auto simp: abort_ok wf_state_def wf_status_def)
next
  assume R: ?R
  let ?u = "s\<lparr>gr_status := ABORTED, gr_resources := None, gr_abort := Some a\<rparr>"
  have "wf_stable (?u\<lparr>gr_revision := gr_revision s + 1\<rparr>)"
    by (rule wf_stable_keep [of s]) (use R w in \<open>simp_all add: wf_state_split frozen_def\<close>)
  moreover have "wf_resources (?u\<lparr>gr_revision := gr_revision s + 1\<rparr>)" "wf_execution (?u\<lparr>gr_revision := gr_revision s + 1\<rparr>)"
    "wf_status (?u\<lparr>gr_revision := gr_revision s + 1\<rparr>)"
    using R wf_runningD [OF w] by (simp_all add: wf_resources_def wf_execution_def wf_status_def)
  ultimately have "wf_state (?u\<lparr>gr_revision := gr_revision s + 1\<rparr>)" by (simp add: wf_state_split)
  with w R have "reduce_graph_run (Some s) (AbortGraphRun k a) = Inr (?u\<lparr>gr_revision := gr_revision s + 1\<rparr>)"
    by (intro reduce_SomeI) (auto simp: abort_ok)
  with R show ?L by simp
qed

section \<open>Resume\<close>

definition resumable :: "resume_interrupted_node \<Rightarrow> frontier_node_record \<Rightarrow> bool" where
  "resumable a x \<longleftrightarrow> (\<exists>i. fn_settlement x = InterruptedGraphNode i \<and>
     ri_interrupt_id a = graph_interrupt_id (ii_run_id (ni_identity i)) (ii_superstep (ni_identity i))
       (ii_node_id (ni_identity i)) (ii_execution_generation (ni_identity i)))"

definition resume_one :: "(string \<rightharpoonup> resume_interrupted_node) \<Rightarrow> frontier_node_record \<Rightarrow> frontier_node_record" where
  "resume_one m x = (case m (fn_node_id x) of
     None \<Rightarrow> x
   | Some a \<Rightarrow> x\<lparr>fn_settlement := PendingGraphNode (OverrideGraphNodeInput (ri_input a))\<rparr>)"

lemma resume_node_ok:
  "resume_node (m, acc) x = Inr r \<longleftrightarrow> (\<forall>a. m (fn_node_id x) = Some a \<longrightarrow> resumable a x) \<and>
     r = (m(fn_node_id x := None), acc @ [resume_one m x])"
proof (cases "m (fn_node_id x)")
  case None
  then have "m(fn_node_id x := None) = m" by (simp add: fun_upd_idem)
  with None show ?thesis by (auto simp: resume_node_def resume_one_def)
next
  case (Some a)
  then show ?thesis
    by (cases "fn_settlement x") (auto simp: resume_node_def resume_one_def resumable_def)
qed

lemma foldE_resume_node:
  "distinct (map fn_node_id f) \<Longrightarrow>
     foldE resume_node (m, acc) f = Inr r \<longleftrightarrow>
     (\<forall>x\<in>set f. \<forall>a. m (fn_node_id x) = Some a \<longrightarrow> resumable a x) \<and>
     r = (\<lambda>n. if n \<in> fn_node_id ` set f then None else m n, acc @ map (resume_one m) f)"
proof (induction f arbitrary: m acc)
  case Nil
  then show ?case by auto
next
  case (Cons x f)
  define M where "M = m(fn_node_id x := None)"
  have other: "M (fn_node_id y) = m (fn_node_id y)" if "y \<in> set f" for y
    using Cons.prems that by (auto simp: M_def image_iff)
  then have "map (resume_one M) f = map (resume_one m) f" by (auto simp: resume_one_def)
  moreover have "(\<lambda>n. if n \<in> fn_node_id ` set f then None else M n) =
      (\<lambda>n. if n \<in> fn_node_id ` set (x # f) then None else m n)" by (auto simp: M_def)
  moreover have "foldE resume_node (m, acc) (x # f) = Inr r \<longleftrightarrow>
      (\<forall>a. m (fn_node_id x) = Some a \<longrightarrow> resumable a x) \<and>
      foldE resume_node (M, acc @ [resume_one m x]) f = Inr r"
    by (auto simp: bindE_eq_Inr resume_node_ok M_def)
  ultimately show ?case
    using Cons.IH [of M "acc @ [resume_one m x]"] Cons.prems other by (simp del: map_eq_conv)
qed

abbreviation actions_by_node :: "resume_interrupted_node list \<Rightarrow> string \<rightharpoonup> resume_interrupted_node" where
  "actions_by_node actions \<equiv> map_of (map (\<lambda>a. (ri_node_id a, a)) actions)"

lemma actions_by_node_Some:
  "distinct (map ri_node_id actions) \<Longrightarrow> actions_by_node actions n = Some a \<longleftrightarrow> a \<in> set actions \<and> ri_node_id a = n"
proof -
  assume "distinct (map ri_node_id actions)"
  then have "distinct (map fst (map (\<lambda>a. (ri_node_id a, a)) actions))" by (simp add: comp_def)
  then show ?thesis by (subst map_of_eq_Some_iff) auto
qed

definition resumes :: "graph_run_state \<Rightarrow> resume_interrupted_node list \<Rightarrow> bool" where
  "resumes s actions \<longleftrightarrow> actions \<noteq> [] \<and> canonical_tuple (map ri_node_id actions) \<and>
     (\<forall>a\<in>set actions. \<exists>x\<in>set (gr_frontier s). fn_node_id x = ri_node_id a \<and> resumable a x)"

lemma resume_transition_ok:
  assumes d: "distinct (map fn_node_id (gr_frontier s))"
  shows "resume_graph_nodes s actions = Inr t \<longleftrightarrow>
     gr_status s = RUNNING \<and> gr_execution s = None \<and> gr_resources s = None \<and> resumes s actions \<and>
     t = s\<lparr>gr_frontier := map (resume_one (actions_by_node actions)) (gr_frontier s)\<rparr>"
proof (cases "actions \<noteq> [] \<and> canonical_tuple (map ri_node_id actions)")
  case True
  then have da: "distinct (map ri_node_id actions)" by (simp add: canonical_tuple_iff)
  note act = actions_by_node_Some [OF da]
  have uniq: "x = y" if "x \<in> set (gr_frontier s)" "y \<in> set (gr_frontier s)" "fn_node_id x = fn_node_id y" for x y
    using d that by (auto simp: distinct_map inj_on_def)
  have "(\<forall>x\<in>set (gr_frontier s). \<forall>a. actions_by_node actions (fn_node_id x) = Some a \<longrightarrow> resumable a x) \<and>
      (\<forall>a\<in>set actions. ri_node_id a \<in> fn_node_id ` set (gr_frontier s)) \<longleftrightarrow> resumes s actions"
  proof -
    have "(\<forall>x\<in>set (gr_frontier s). \<forall>a. a \<in> set actions \<and> ri_node_id a = fn_node_id x \<longrightarrow> resumable a x) \<and>
        (\<forall>a\<in>set actions. \<exists>x\<in>set (gr_frontier s). ri_node_id a = fn_node_id x) \<longleftrightarrow>
        (\<forall>a\<in>set actions. \<exists>x\<in>set (gr_frontier s). fn_node_id x = ri_node_id a \<and> resumable a x)" (is "?A \<longleftrightarrow> ?B")
    proof
      assume ?A
      then show ?B by fastforce
    next
      assume B: ?B
      have "resumable a x" if x: "x \<in> set (gr_frontier s)" "a \<in> set actions" "ri_node_id a = fn_node_id x" for x a
      proof -
        obtain y where "y \<in> set (gr_frontier s)" "fn_node_id y = ri_node_id a" "resumable a y" using B x(2) by blast
        then show ?thesis using uniq [of y x] x by simp
      qed
      moreover have "\<forall>a\<in>set actions. \<exists>x\<in>set (gr_frontier s). ri_node_id a = fn_node_id x" using B by metis
      ultimately show ?A by blast
    qed
    then show ?thesis unfolding resumes_def act image_iff using True by blast
  qed
  moreover have "(\<forall>a\<in>set actions. (if ri_node_id a \<in> fn_node_id ` set (gr_frontier s) then None
        else actions_by_node actions (ri_node_id a)) = None) \<longleftrightarrow>
      (\<forall>a\<in>set actions. ri_node_id a \<in> fn_node_id ` set (gr_frontier s))"
  proof -
    have "actions_by_node actions (ri_node_id a) \<noteq> None" if "a \<in> set actions" for a
      using act [of "ri_node_id a" a] that by simp
    then show ?thesis by (meson if_bool_eq_conj)
  qed
  ultimately show ?thesis
    using True unfolding resume_graph_nodes_def Let_def
    by (auto simp: bindE_eq_Inr if_Inl_eq_Inr foldE_resume_node [OF d] canonical_tuple_def [symmetric] split: if_splits)
next
  case False
  then show ?thesis
    by (auto simp: resume_graph_nodes_def resumes_def canonical_tuple_def [symmetric] Let_def)
qed

lemma resume_one_simps [simp]:
  "fn_node_id (resume_one m x) = fn_node_id x" "fn_cause (resume_one m x) = fn_cause x"
  by (simp_all add: resume_one_def split: option.splits)

lemma resume_keeps_succeeded:
  assumes "resumes s actions"
    and d: "distinct (map fn_node_id (gr_frontier s))"
  shows "routing_contributions (map (resume_one (actions_by_node actions)) (gr_frontier s)) =
    routing_contributions (gr_frontier s)"
proof -
  have da: "distinct (map ri_node_id actions)" using assms(1) by (simp add: resumes_def canonical_tuple_iff)
  have "(case fn_settlement (resume_one (actions_by_node actions) x) of
      SucceededGraphNode r \<Rightarrow> [(fn_node_id x, r)] | _ \<Rightarrow> []) =
      (case fn_settlement x of SucceededGraphNode r \<Rightarrow> [(fn_node_id x, r)] | _ \<Rightarrow> [])" if x: "x \<in> set (gr_frontier s)" for x
  proof (cases "actions_by_node actions (fn_node_id x)")
    case (Some a)
    then have a: "a \<in> set actions" "ri_node_id a = fn_node_id x" using actions_by_node_Some [OF da] by auto
    then obtain y where y: "y \<in> set (gr_frontier s)" "fn_node_id y = fn_node_id x" "resumable a y"
      using assms(1) by (auto simp: resumes_def)
    have "inj_on fn_node_id (set (gr_frontier s))" using d by (simp add: distinct_map)
    then have "y = x" using y(1,2) x unfolding inj_on_def by blast
    then show ?thesis using y(3) Some by (auto simp: resumable_def resume_one_def)
  qed (simp add: resume_one_def)
  then show ?thesis
    unfolding routing_contributions_def map_map comp_def resume_one_simps
    by (intro arg_cong [where f = concat] map_cong) auto
qed

lemma resume_enabled:
  assumes w: "wf_state s"
  shows "reduce_graph_run (Some s) (ResumeGraphNodes k actions) = Inr t \<longleftrightarrow>
     k = gr_revision s \<and> gr_status s = RUNNING \<and> gr_execution s = None \<and> resumes s actions \<and>
     t = s\<lparr>gr_frontier := map (resume_one (actions_by_node actions)) (gr_frontier s), gr_revision := gr_revision s + 1\<rparr>"
    (is "?L \<longleftrightarrow> ?R")
proof -
  have d: "distinct (map fn_node_id (gr_frontier s))"
    using w by (simp add: wf_state_def wf_frontier_def canonical_tuple_iff)
  note tr = resume_transition_ok [OF d]
  show ?thesis
  proof
    assume ?L
    then show ?R by (rule reduce_SomeD) (auto simp: tr)
  next
    assume R: ?R
    let ?f = "map (resume_one (actions_by_node actions)) (gr_frontier s)"
    let ?u = "s\<lparr>gr_frontier := ?f\<rparr>"
    let ?t = "?u\<lparr>gr_revision := gr_revision s + 1\<rparr>"
    have res: "gr_resources s = None" and ne: "gr_frontier s \<noteq> []" using R wf_runningD [OF w] by blast+
    have sp: "same_position s ?t" by (simp add: same_position_def)
    obtain a x where ax: "a \<in> set actions" "x \<in> set (gr_frontier s)" "fn_node_id x = ri_node_id a" "resumable a x"
      using R by (auto simp: resumes_def) (metis list.set_intros(1) neq_Nil_conv)
    have codec: "gr_resume_input_codec s \<noteq> None"
      using w ax(2,4) unfolding wf_state_def wf_frontier_def resumable_def by (metis needs_codec.simps(2))
    have "actions_by_node actions (fn_node_id x) = Some a"
      using R ax by (subst actions_by_node_Some) (auto simp: resumes_def canonical_tuple_iff)
    then have "fn_settlement (resume_one (actions_by_node actions) x) = PendingGraphNode (OverrideGraphNodeInput (ri_input a))"
      by (simp add: resume_one_def)
    with ax(2) have pend: "frontier_status ?f = Inr EXECUTABLE"
      by (auto simp: frontier_status_cases intro!: bexI [of _ x])
    have "wf_node ?t (resume_one (actions_by_node actions) y)" if "y \<in> set (gr_frontier s)" for y
      using that w wf_node_mono [OF sp, of y]
      by (auto simp: wf_state_def wf_frontier_def wf_node_def resume_one_def split: option.splits)
    then have "wf_frontier ?t"
      using w codec by (auto simp: wf_state_def wf_frontier_def wf_codec_def comp_def)
    moreover have "wf_counters ?t" "wf_config ?t" "wf_parent ?t"
      using w by (auto simp: wf_state_def wf_counters_def wf_config_def wf_parent_def)
    moreover have "wf_joins ?t" using w wf_joins_mono [OF sp] by (simp add: wf_state_def)
    moreover have "wf_ledger ?t"
    proof (rule wf_ledger_keep [OF _ sp])
      show "wf_ledger s" using w by (simp add: wf_state_def)
      have "frontier_references ?t = frontier_references s"
        using resume_keeps_succeeded [of s actions, OF _ d] R by (simp add: frontier_references_def)
      with R show "set (frontier_references ?t) = set (frontier_references s) \<and> gr_status s \<noteq> COMPLETED \<or> gr_status ?t = COMPLETED"
        by simp
    qed simp_all
    moreover have "wf_resources ?t" "wf_execution ?t" using R res by (simp_all add: wf_resources_def wf_execution_def)
    moreover have "wf_status ?t" using R wf_runningD [OF w] pend by (simp add: wf_status_def)
    ultimately have "wf_state ?t" by (simp add: wf_state_def)
    then have "reduce_graph_run (Some s) (ResumeGraphNodes k actions) = Inr ?t"
      using w R res by (intro reduce_SomeI) (auto simp: tr)
    with R show ?L by simp
  qed
qed

end
