(* ===== verification/Reducer_Settle.thy ===== *)
theory Reducer_Settle
  imports Reducer_Enabled "HOL-Library.Multiset"
begin

text \<open>
  Settling one node: the settled state satisfies the whole invariant again, so a settlement
  is refused only by its own guards, by an illegal Config move, or by the resource release.
\<close>

section \<open>The frontier after one settlement\<close>

lemma replace_settlement_ids [simp]: "map fn_node_id (replace_settlement f n st) = map fn_node_id f"
  by (simp add: replace_settlement_def comp_def)

lemma replace_settlement_empty [simp]: "replace_settlement f n st = [] \<longleftrightarrow> f = []"
  by (simp add: replace_settlement_def)

lemma pending_node_ids_mem:
  "m \<in> set (pending_node_ids f) \<longleftrightarrow> (\<exists>x\<in>set f. fn_node_id x = m \<and> is_pending (fn_settlement x))"
  by (auto simp: pending_node_ids_def)

lemma pending_after_settlement:
  "\<not> is_pending st \<Longrightarrow> set (pending_node_ids (replace_settlement f n st)) = set (pending_node_ids f) - {n}"
  by (auto simp: pending_node_ids_mem replace_settlement_def set_eq_iff)

lemma contributions_after_settlement:
  assumes "distinct (map fn_node_id f)" and "x \<in> set f" and "fn_node_id x = n" and "is_pending (fn_settlement x)"
  shows "(m, r) \<in> set (routing_contributions (replace_settlement f n st)) \<longleftrightarrow>
    (m, r) \<in> set (routing_contributions f) \<or> m = n \<and> st = SucceededGraphNode r"
proof -
  have uniq: "y = x" if "y \<in> set f" "fn_node_id y = n" for y
    using assms(1-3) that by (auto simp: distinct_map inj_on_def)
  have "\<not> (\<exists>y\<in>set f. fn_node_id y = n \<and> fn_settlement y = SucceededGraphNode r)"
    using uniq assms(4) by (metis is_pending.simps(2))
  moreover have "(m, r) \<in> set (routing_contributions (replace_settlement f n st)) \<longleftrightarrow>
      (\<exists>y\<in>set f. fn_node_id y = m \<and> (if m = n then st else fn_settlement y) = SucceededGraphNode r)"
    by (auto simp: routing_contributions_mem replace_settlement_def)
  ultimately show ?thesis using assms(2,3) by (cases "m = n") (auto simp: routing_contributions_mem)
qed

section \<open>The ledger after one settlement\<close>

definition activation_reference_of :: "graph_run_state \<Rightarrow> string \<Rightarrow> graph_routing \<Rightarrow> activation_reference" where
  "activation_reference_of s n r =
     ActivationReference (GraphActivationIdentity (gr_run_id s) (gr_superstep s) n) (selected_route r)"

lemma frontier_references_of:
  "r \<in> set (frontier_references s) \<longleftrightarrow>
     (\<exists>n routing. (n, routing) \<in> set (routing_contributions (gr_frontier s)) \<and> r = activation_reference_of s n routing)"
  by (auto simp: frontier_references_def activation_reference_of_def)

lemma pending_not_published:
  assumes w: "wf_state s" and run: "gr_status s = RUNNING"
    and x: "x \<in> set (gr_frontier s)" "is_pending (fn_settlement x)"
    and p: "p \<in> set (gr_settled_publications s)"
  shows "ref_activation (ps_reference p) \<noteq> GraphActivationIdentity (gr_run_id s) (gr_superstep s) (fn_node_id x)"
proof
  assume a: "ref_activation (ps_reference p) = GraphActivationIdentity (gr_run_id s) (gr_superstep s) (fn_node_id x)"
  have d: "distinct (map fn_node_id (gr_frontier s))"
    using w by (simp add: wf_state_def wf_frontier_def canonical_tuple_iff)
  have "ps_reference p \<in> {r \<in> ledger_references s. act_superstep (ref_activation r) = gr_superstep s}"
    using p a by (simp add: ledger_references_def)
  moreover have "{r \<in> ledger_references s. act_superstep (ref_activation r) = gr_superstep s} = set (frontier_references s)"
    using w run by (simp add: wf_state_def wf_ledger_def)
  ultimately have "ps_reference p \<in> set (frontier_references s)" by blast
  then obtain y routing where y: "y \<in> set (gr_frontier s)" "fn_settlement y = SucceededGraphNode routing"
    "fn_node_id y = fn_node_id x"
    using a by (auto simp: frontier_references_mem)
  have "frontier_node (gr_frontier s) (fn_node_id x) = Some x" "frontier_node (gr_frontier s) (fn_node_id x) = Some y"
    using frontier_node_unique [OF d] x(1) y by metis+
  then show False using x(2) y(2) by simp
qed

definition settleable_outcome :: "graph_run_state \<Rightarrow> settle_graph_node_command \<Rightarrow> bool" where
  "settleable_outcome s c \<longleftrightarrow> (case sn_outcome c of
     SucceededGraphNodeOutcome n routing \<Rightarrow>
       (\<forall>v. selected_route routing = Some v \<longrightarrow> is_canonical_identity v) \<and>
       (\<forall>e. sn_publication_evidence c = Some e \<longrightarrow> wf_evidence e)
   | FailedGraphNodeOutcome n f \<Rightarrow> is_canonical_identity f \<and> sn_publication_evidence c = None
   | InterruptedGraphNodeOutcome n i payload \<Rightarrow>
       sn_publication_evidence c = None \<and> gr_resume_input_codec s \<noteq> None \<and>
       (ii_run_id i, ii_superstep i, ii_node_id i, ii_execution_generation i) =
         (gr_run_id s, gr_superstep s, n, tok_generation (sn_execution c)))"

fun outcome_settlement :: "node_outcome \<Rightarrow> node_settlement" where
  "outcome_settlement (SucceededGraphNodeOutcome n routing) = SucceededGraphNode routing"
| "outcome_settlement (FailedGraphNodeOutcome n f) = FailedGraphNode f"
| "outcome_settlement (InterruptedGraphNodeOutcome n i payload) =
     InterruptedGraphNode \<lparr>ni_identity = i, ni_request_payload = payload\<rparr>"

definition settled_ledger :: "graph_run_state \<Rightarrow> settle_graph_node_command \<Rightarrow> publication_settlement list" where
  "settled_ledger s c = (case sn_outcome c of
     SucceededGraphNodeOutcome n routing \<Rightarrow>
       sort_key publication_key (gr_settled_publications s @
         [GraphPublicationSettlement (activation_reference_of s n routing) (gr_revision s + 1) (sn_execution c)
            (sn_publication_evidence c)])
   | _ \<Rightarrow> gr_settled_publications s)"

lemma outcome_settlement_not_pending [simp]: "\<not> is_pending (outcome_settlement oc)"
  by (cases oc) auto

lemma settle_outcome_enabled:
  assumes w: "wf_state s" and run: "gr_status s = RUNNING" and rev: "sn_expected_revision c = gr_revision s"
    and x: "x \<in> set (gr_frontier s)" "is_pending (fn_settlement x)" "fn_node_id x = outcome_node_id (sn_outcome c)"
    and ok: "settleable_outcome s c"
  shows "settle_outcome s c = Inr (outcome_settlement (sn_outcome c), settled_ledger s c)"
proof (cases "sn_outcome c")
  case (SucceededGraphNodeOutcome n routing)
  have "is_canonical_identity n" using w x SucceededGraphNodeOutcome by (auto simp: wf_state_def wf_frontier_def wf_node_def)
  moreover have "is_canonical_identity (gr_run_id s)" "0 \<le> gr_superstep s" using w by (auto simp: wf_state_def wf_counters_def)
  moreover have "mk_ActivationReference a (selected_route routing) = Inr (ActivationReference a (selected_route routing))" for a
    using ok SucceededGraphNodeOutcome by (simp add: mk_ActivationReference_ok settleable_outcome_def)
  moreover have "\<not> (\<exists>p\<in>set (gr_settled_publications s). ps_reference p = activation_reference_of s n routing)"
    using pending_not_published [OF w run x(1,2)] x(3) SucceededGraphNodeOutcome
    by (fastforce simp: activation_reference_of_def)
  ultimately show ?thesis
    using SucceededGraphNodeOutcome rev
    by (simp add: settle_outcome_def settled_ledger_def mk_GraphActivationIdentity_def activation_reference_of_def)
qed (use ok in \<open>auto simp: settle_outcome_def settled_ledger_def settleable_outcome_def\<close>)

text \<open>The state a settlement leads to, with its revision advanced.\<close>

definition settled_state :: "graph_run_state \<Rightarrow> settle_graph_node_command \<Rightarrow> resource_snapshot option \<Rightarrow>
    config_cursor \<Rightarrow> frontier_status_value \<Rightarrow> graph_run_state" where
  "settled_state s c resources cursor derived =
     (apply_settlement s (replace_settlement (gr_frontier s) (outcome_node_id (sn_outcome c)) (outcome_settlement (sn_outcome c)))
        derived resources (settled_ledger s c) cursor)\<lparr>gr_revision := gr_revision s + 1\<rparr>"

lemma settled_state_sel [simp]:
  "gr_run_id (settled_state s c r cu d) = gr_run_id s" "gr_superstep (settled_state s c r cu d) = gr_superstep s"
  "gr_definition_id (settled_state s c r cu d) = gr_definition_id s"
  "gr_definition_version (settled_state s c r cu d) = gr_definition_version s"
  "gr_status (settled_state s c r cu d) = (if d = FRONTIER_FAILED then FAILED else RUNNING)"
  "gr_frontier (settled_state s c r cu d) =
     replace_settlement (gr_frontier s) (outcome_node_id (sn_outcome c)) (outcome_settlement (sn_outcome c))"
  "gr_execution_sequence (settled_state s c r cu d) = gr_execution_sequence s"
  "gr_resume_input_codec (settled_state s c r cu d) = gr_resume_input_codec s"
  "gr_join_progress (settled_state s c r cu d) = gr_join_progress s"
  "gr_settled_publications (settled_state s c r cu d) = settled_ledger s c"
  "gr_resources (settled_state s c r cu d) = (if d = EXECUTABLE then r else None)"
  "gr_execution (settled_state s c r cu d) = (if d = EXECUTABLE then gr_execution s else None)"
  "gr_abort (settled_state s c r cu d) = gr_abort s" "gr_parent (settled_state s c r cu d) = gr_parent s"
  "gr_revision (settled_state s c r cu d) = gr_revision s + 1"
  "gr_completion_route (settled_state s c r cu d) = gr_completion_route s"
  "gr_config_revision (settled_state s c r cu d) = cc_revision cu" "gr_config_digest (settled_state s c r cu d) = cc_digest cu"
  "gr_config_definition_id (settled_state s c r cu d) = Some (cc_definition_id cu)"
  "gr_config_definition_version (settled_state s c r cu d) = Some (cc_definition_version cu)"
  by (simp_all add: settled_state_def apply_settlement_def Let_def)

section \<open>The settled state is well formed\<close>

lemma settled_ledger_set:
  "set (gr_settled_publications s) \<subseteq> set (settled_ledger s c)"
  by (auto simp: settled_ledger_def split: node_outcome.splits)

lemma settled_ledger_references:
  "r \<in> ps_reference ` set (settled_ledger s c) \<longleftrightarrow> r \<in> ledger_references s \<or>
     (\<exists>n routing. sn_outcome c = SucceededGraphNodeOutcome n routing \<and> r = activation_reference_of s n routing)"
  by (auto simp: settled_ledger_def ledger_references_def image_Un split: node_outcome.splits)

lemma sorted_key_snoc_distinct:
  "distinct (map f (sort_key k (xs @ [x]))) \<longleftrightarrow> distinct (map f xs) \<and> f x \<notin> f ` set xs"
proof -
  have "mset (map f (sort_key k (xs @ [x]))) = mset (map f (xs @ [x]))" by simp
  then have "distinct (map f (sort_key k (xs @ [x]))) \<longleftrightarrow> distinct (map f (xs @ [x]))"
    by (rule mset_eq_imp_distinct_iff)
  then show ?thesis by auto
qed

lemma settled_wf_ledger:
  assumes w: "wf_state s" and run: "gr_status s = RUNNING" and lease: "gr_execution s = Some (sn_execution c)"
    and x: "x \<in> set (gr_frontier s)" "is_pending (fn_settlement x)" "fn_node_id x = outcome_node_id (sn_outcome c)"
    and ok: "settleable_outcome s c"
  shows "wf_ledger (settled_state s c r cu d)" (is "wf_ledger ?t")
proof -
  let ?L = "gr_settled_publications s"
  have wl: "wf_ledger s" using w by (simp add: wf_state_def)
  have sp: "same_position s ?t" using settled_ledger_set by (simp add: same_position_def)
  have old: "publication_in_bounds ?t p" if "p \<in> set ?L" for p
    using that wl publication_in_bounds_mono [OF sp, of p] by (simp add: wf_ledger_def)
  have dist: "distinct (map fn_node_id (gr_frontier s))"
    using w by (simp add: wf_state_def wf_frontier_def canonical_tuple_iff)
  have fr: "ref \<in> set (frontier_references ?t) \<longleftrightarrow> ref \<in> set (frontier_references s) \<or>
      (\<exists>n routing. sn_outcome c = SucceededGraphNodeOutcome n routing \<and> ref = activation_reference_of s n routing)" for ref
    using contributions_after_settlement [OF dist x(1,3,2)]
    by (cases "sn_outcome c") (auto simp: frontier_references_of activation_reference_of_def)
  have here: "act_superstep (ref_activation (activation_reference_of s n routing)) = gr_superstep s" for n routing
    by (simp add: activation_reference_of_def)
  have "{ref \<in> ledger_references s. act_superstep (ref_activation ref) = gr_superstep s} = set (frontier_references s)"
    using wl run by (simp add: wf_ledger_def)
  then have now: "ref \<in> ledger_references s \<and> act_superstep (ref_activation ref) = gr_superstep s \<longleftrightarrow>
      ref \<in> set (frontier_references s)" for ref by blast
  have cur: "{ref \<in> ledger_references ?t. act_superstep (ref_activation ref) = gr_superstep ?t} = set (frontier_references ?t)"
    unfolding set_eq_iff ledger_references_def [of ?t] mem_Collect_eq settled_state_sel settled_ledger_references fr
    using now here by metis
  show ?thesis
  proof (cases "sn_outcome c")
    case (SucceededGraphNodeOutcome n routing)
    let ?p = "GraphPublicationSettlement (activation_reference_of s n routing) (gr_revision s + 1) (sn_execution c)
      (sn_publication_evidence c)"
    have L: "settled_ledger s c = sort_key publication_key (?L @ [?p])" by (simp add: settled_ledger_def SucceededGraphNodeOutcome)
    have tok: "wf_token (sn_execution c)" "tok_generation (sn_execution c) = gr_execution_sequence s"
      using w lease by (auto simp: wf_state_def wf_execution_def)
    have "is_canonical_identity n" using w x SucceededGraphNodeOutcome by (auto simp: wf_state_def wf_frontier_def wf_node_def)
    then have new: "publication_in_bounds ?t ?p"
      using w tok ok SucceededGraphNodeOutcome
      by (auto simp: publication_in_bounds_def wf_publication_def wf_reference_def activation_reference_of_def
          wf_state_def wf_counters_def settleable_outcome_def)
    have act: "ref_activation (ps_reference ?p) \<notin> (\<lambda>p. ref_activation (ps_reference p)) ` set ?L"
      using pending_not_published [OF w run x(1,2)] x(3) SucceededGraphNodeOutcome
      by (fastforce simp: activation_reference_of_def)
    have "gr_revision s + 1 \<notin> ps_commit_revision ` set ?L"
      using wl by (fastforce simp: wf_ledger_def publication_in_bounds_def)
    then show ?thesis
      unfolding wf_ledger_def settled_state_sel L sorted_key_snoc_distinct
      using old new act wl cur by (auto simp: wf_ledger_def L)
  next
    case (FailedGraphNodeOutcome n f)
    then show ?thesis using old wl cur by (auto simp: wf_ledger_def settled_ledger_def)
  next
    case (InterruptedGraphNodeOutcome n i payload)
    then show ?thesis using old wl cur by (auto simp: wf_ledger_def settled_ledger_def)
  qed
qed

lemma settled_wf_frontier:
  assumes w: "wf_state s" and lease: "gr_execution s = Some (sn_execution c)" and ok: "settleable_outcome s c"
  shows "wf_frontier (settled_state s c r cu d)" (is "wf_frontier ?t")
proof -
  have sp: "same_position s ?t" using settled_ledger_set by (simp add: same_position_def)
  have wf: "wf_frontier s" using w by (simp add: wf_state_def)
  have tok: "1 \<le> tok_generation (sn_execution c)" "tok_generation (sn_execution c) = gr_execution_sequence s"
    using w lease by (auto simp: wf_state_def wf_execution_def wf_token_def)
  have new: "wf_settlement ?t (outcome_node_id (sn_outcome c)) (outcome_settlement (sn_outcome c))"
    using ok tok by (cases "sn_outcome c") (auto simp: settleable_outcome_def)
  have codec: "needs_codec (outcome_settlement (sn_outcome c)) \<Longrightarrow> gr_resume_input_codec s \<noteq> None"
    using ok by (cases "sn_outcome c") (auto simp: settleable_outcome_def)
  have node: "wf_node ?t y" if "y \<in> set (gr_frontier s)" for y
    using that wf wf_node_mono [OF sp, of y] by (simp add: wf_frontier_def)
  have "\<forall>y\<in>set (gr_frontier ?t). wf_node ?t y"
    using node new by (auto simp: replace_settlement_def wf_node_def)
  moreover have "(\<exists>y\<in>set (gr_frontier ?t). needs_codec (fn_settlement y)) \<longrightarrow> gr_resume_input_codec ?t \<noteq> None"
    using wf codec by (auto simp: replace_settlement_def wf_frontier_def split: if_splits)
  ultimately show ?thesis using wf by (simp add: wf_frontier_def wf_codec_def)
qed

lemma settle_resources_ok:
  assumes w: "wf_state s" and rel: "settle_resources (gr_resources s) n = Inr res" and r: "res = Some r"
  shows "validate_resource_snapshot r = Inr () \<and> snap_acquisitions r \<noteq> [] \<and>
    set (participant_ids r) \<subseteq> set (pending_node_ids (gr_frontier s)) - {n} \<and> gr_execution s \<noteq> None"
proof -
  from rel r obtain q where q: "gr_resources s = Some q" by (auto simp: settle_resources_def split: option.splits)
  have wq: "validate_resource_snapshot q = Inr ()" "snap_acquisitions q \<noteq> []" "gr_execution s \<noteq> None"
    "set (participant_ids q) \<subseteq> set (pending_node_ids (gr_frontier s))"
    using w q by (auto simp: wf_state_def wf_resources_def)
  show ?thesis
  proof (cases "n \<in> set (participant_ids q)")
    case True
    with rel r q have step: "reduce_resources q (ReleaseResources n) = Inr r" and "snap_acquisitions r \<noteq> []"
      by (auto simp: settle_resources_def bindE_eq_Inr except_resource_error_ok split: if_splits)
    then show ?thesis
      using rp.release_valid [OF step] rp.release_keeps_subset [OF step wq(4)] wq(3) by blast
  next
    case False
    with rel r q have "r = q" by (simp add: settle_resources_def)
    with wq False show ?thesis by blast
  qed
qed

lemma settled_wf_state:
  assumes w: "wf_state s" and lease: "gr_execution s = Some (sn_execution c)"
    and x: "x \<in> set (gr_frontier s)" "is_pending (fn_settlement x)" "fn_node_id x = outcome_node_id (sn_outcome c)"
    and ok: "settleable_outcome s c"
    and cfg: "settle_config s (sn_config_cursor c) = Inr cu"
    and res: "settle_resources (gr_resources s) (outcome_node_id (sn_outcome c)) = Inr r"
    and d: "frontier_status (replace_settlement (gr_frontier s) (outcome_node_id (sn_outcome c))
         (outcome_settlement (sn_outcome c))) = Inr d"
  shows "wf_state (settled_state s c r cu d)" (is "wf_state ?t")
proof -
  have run: "gr_status s = RUNNING" using w lease by (simp add: wf_state_def wf_execution_def)
  have sp: "same_position s ?t" using settled_ledger_set by (simp add: same_position_def)
  have pend: "d = EXECUTABLE \<longleftrightarrow> pending_node_ids (gr_frontier ?t) \<noteq> []"
    using d pending_node_ids_nonempty [of "gr_frontier ?t"] by simp
  have "wf_counters ?t" "wf_parent ?t" using w by (auto simp: wf_state_def wf_counters_def wf_parent_def)
  moreover have "wf_config ?t" using settle_config_ok [OF cfg] by (cases cu) (simp add: wf_config_def)
  moreover have "wf_ledger ?t" by (rule settled_wf_ledger [OF w run lease x ok])
  moreover have "wf_joins ?t" using w wf_joins_mono [OF sp] by (simp add: wf_state_def)
  moreover have "wf_frontier ?t" by (rule settled_wf_frontier [OF w lease ok])
  moreover have "wf_resources ?t"
    using settle_resources_ok [OF w res] by (auto simp: wf_resources_def pending_after_settlement)
  moreover have "wf_execution ?t" using w lease pend by (auto simp: wf_state_def wf_execution_def)
  moreover have "wf_status ?t" using wf_runningD [OF w run] d by (simp add: wf_status_def)
  ultimately show ?thesis by (simp add: wf_state_def)
qed

lemma settle_transition_guards:
  assumes "reduce_graph_run (Some s) (SettleGraphNode c) = Inr t"
  shows "sn_expected_revision c = gr_revision s" "gr_execution s = Some (sn_execution c)"
    "outcome_node_id (sn_outcome c) \<in> set (pending_node_ids (gr_frontier s))" "settleable_outcome s c"
    "\<exists>cu. settle_config s (sn_config_cursor c) = Inr cu"
    "\<exists>r. settle_resources (gr_resources s) (outcome_node_id (sn_outcome c)) = Inr r"
proof -
  let ?n = "outcome_node_id (sn_outcome c)"
  from assms obtain u where u: "wf_state s" "sn_expected_revision c = gr_revision s" "settle_graph_node s c = Inr u"
    "t = u\<lparr>gr_revision := gr_revision s + 1\<rparr>" "wf_state t"
    by (rule reduce_SomeD) auto
  from u(3) obtain x settlement pubs cursor resources derived where y:
    "gr_execution s = Some (sn_execution c)" "frontier_node (gr_frontier s) ?n = Some x" "is_pending (fn_settlement x)"
    "settle_outcome s c = Inr (settlement, pubs)" "settle_config s (sn_config_cursor c) = Inr cursor"
    "settle_resources (gr_resources s) ?n = Inr resources"
    "u = apply_settlement s (replace_settlement (gr_frontier s) ?n settlement) derived resources pubs cursor"
    by (rule settle_ok) blast
  have x: "x \<in> set (gr_frontier s)" "fn_node_id x = ?n" using frontier_node_SomeD [OF y(2)] by auto
  have ft: "gr_frontier t = replace_settlement (gr_frontier s) ?n settlement" "gr_settled_publications t = pubs"
    using u(4) y(7) by (simp_all add: apply_settlement_def Let_def)
  have fail: "is_canonical_identity f" if "settlement = FailedGraphNode f" for f
  proof -
    let ?y = "\<lparr>fn_node_id = ?n, fn_settlement = settlement, fn_cause = fn_cause x\<rparr>"
    have "?y \<in> set (gr_frontier t)" using x unfolding ft replace_settlement_def by (auto intro!: image_eqI [of _ _ x])
    then have "wf_node t ?y" using u(5) by (auto simp: wf_state_def wf_frontier_def)
    with that show ?thesis by (simp add: wf_node_def)
  qed
  have "settleable_outcome s c"
  proof (cases "sn_outcome c")
    case (SucceededGraphNodeOutcome n routing)
    with y(4) have sel: "\<forall>v. selected_route routing = Some v \<longrightarrow> is_canonical_identity v"
      by (auto simp: settle_outcome_def bindE_eq_Inr mk_ActivationReference_ok)
    from y(4) SucceededGraphNodeOutcome obtain ref where
      "pubs = sort_key publication_key (gr_settled_publications s @
         [GraphPublicationSettlement ref (sn_expected_revision c + 1) (sn_execution c) (sn_publication_evidence c)])"
      by (auto simp: settle_outcome_def bindE_eq_Inr if_Inl_eq_Inr)
    then have "GraphPublicationSettlement ref (sn_expected_revision c + 1) (sn_execution c) (sn_publication_evidence c) \<in> set pubs"
      by simp
    then have "wf_publication (GraphPublicationSettlement ref (sn_expected_revision c + 1) (sn_execution c) (sn_publication_evidence c))"
      using u(5) ft(2) by (auto simp: wf_state_def wf_ledger_def publication_in_bounds_def)
    with sel SucceededGraphNodeOutcome show ?thesis by (simp add: settleable_outcome_def wf_publication_def)
  next
    case (FailedGraphNodeOutcome n f)
    with y(4) fail show ?thesis by (auto simp: settle_outcome_def settleable_outcome_def if_Inl_eq_Inr)
  next
    case (InterruptedGraphNodeOutcome n i payload)
    with y(4) show ?thesis by (auto simp: settle_outcome_def settleable_outcome_def if_Inl_eq_Inr)
  qed
  with u y x show "sn_expected_revision c = gr_revision s" "gr_execution s = Some (sn_execution c)"
    "?n \<in> set (pending_node_ids (gr_frontier s))" "settleable_outcome s c"
    "\<exists>cu. settle_config s (sn_config_cursor c) = Inr cu" "\<exists>r. settle_resources (gr_resources s) ?n = Inr r"
    by (auto simp: pending_node_ids_mem)
qed

lemma settle_enabled:
  assumes w: "wf_state s" and k: "sn_expected_revision c = gr_revision s" and lease: "gr_execution s = Some (sn_execution c)"
    and n: "outcome_node_id (sn_outcome c) \<in> set (pending_node_ids (gr_frontier s))"
    and ok: "settleable_outcome s c"
    and cfg: "settle_config s (sn_config_cursor c) = Inr cu"
    and res: "settle_resources (gr_resources s) (outcome_node_id (sn_outcome c)) = Inr r"
  obtains d where "frontier_status (replace_settlement (gr_frontier s) (outcome_node_id (sn_outcome c))
       (outcome_settlement (sn_outcome c))) = Inr d"
    "reduce_graph_run (Some s) (SettleGraphNode c) = Inr (settled_state s c r cu d)"
proof -
  let ?n = "outcome_node_id (sn_outcome c)"
  let ?f = "replace_settlement (gr_frontier s) ?n (outcome_settlement (sn_outcome c))"
  have run: "gr_status s = RUNNING" using w lease by (simp add: wf_state_def wf_execution_def)
  obtain x where x: "x \<in> set (gr_frontier s)" "is_pending (fn_settlement x)" "fn_node_id x = ?n"
    using n by (auto simp: pending_node_ids_mem)
  have dist: "distinct (map fn_node_id (gr_frontier s))"
    using w by (simp add: wf_state_def wf_frontier_def canonical_tuple_iff)
  have node: "frontier_node (gr_frontier s) ?n = Some x" using frontier_node_unique [OF dist x(1)] x(3) by simp
  obtain d where d: "frontier_status ?f = Inr d" using frontier_status_total [of ?f] x(1) replace_settlement_empty
    by (metis empty_iff list.set(1))
  have "dispatch_command s (SettleGraphNode c) = Inr (apply_settlement s ?f d r (settled_ledger s c) cu)"
    using run lease node x(2) settle_outcome_enabled [OF w run k x ok] cfg res d
    by (simp add: settle_graph_node_def require_execution_lease_def)
  from reduce_SomeI [OF w _ this] settled_wf_state [OF w lease x ok cfg res d] k
  have "reduce_graph_run (Some s) (SettleGraphNode c) = Inr (settled_state s c r cu d)"
    by (simp add: settled_state_def)
  with d show thesis by (rule that)
qed

end
