(* ===== verification/Reducer_Joins.thy ===== *)
theory Reducer_Joins
  imports Reducer_Settle
begin

text \<open>
  Join progress across an advance or a completion: the index of pending joins, the current
  successes, and what a consumed occurrence means. The results state that a pending join is
  never lost: it is kept with all its arrivals, or it is consumed with every source arrived.
\<close>

section \<open>Indexes and current successes\<close>

definition progress_index :: "join_progress_record list \<Rightarrow> graph_join_occurrence \<rightharpoonup> join_progress_record" where
  "progress_index js = map_of (rev (map (\<lambda>j. (jp_occurrence j, j)) js))"

lemma progress_index_SomeD: "progress_index js oc = Some j \<Longrightarrow> j \<in> set js \<and> jp_occurrence j = oc"
  unfolding progress_index_def by (auto dest!: map_of_SomeD)

lemma index_join_progress_aux:
  "foldE (\<lambda>indexed item. if indexed (jp_occurrence item) \<noteq> None
        then Inl (state_error (label @ '' join progress repeats one join''))
        else Inr (indexed(jp_occurrence item \<mapsto> item))) m js = Inr r \<Longrightarrow>
   r = m ++ progress_index js \<and> distinct (map jp_occurrence js)  \<and> (\<forall>j\<in>set js. m (jp_occurrence j) = None)"
proof (induction js arbitrary: m)
  case Nil
  then show ?case by (simp add: progress_index_def)
next
  case (Cons j js)
  define M where "M = m(jp_occurrence j \<mapsto> j)"
  from Cons.prems have j: "m (jp_occurrence j) = None" by (auto simp: bindE_eq_Inr split: if_splits)
  from Cons.prems j have "foldE (\<lambda>indexed item. if indexed (jp_occurrence item) \<noteq> None
        then Inl (state_error (label @ '' join progress repeats one join''))
        else Inr (indexed(jp_occurrence item \<mapsto> item))) M js = Inr r"
    by (simp add: M_def)
  from Cons.IH [OF this] have IH: "r = M ++ progress_index js" "distinct (map jp_occurrence js)"
    "\<forall>i\<in>set js. M (jp_occurrence i) = None" by blast+
  have "M ++ progress_index js = m ++ progress_index (j # js)"
    by (auto simp: M_def progress_index_def map_add_def fun_eq_iff split: option.splits)
  moreover have "\<forall>i\<in>set js. jp_occurrence i \<noteq> jp_occurrence j \<and> m (jp_occurrence i) = None"
    using IH(3) by (auto simp: M_def split: if_splits)
  ultimately show ?case using IH(1,2) j by auto
qed

lemma index_join_progress_ok:
  "index_join_progress js label = Inr r \<Longrightarrow> r = progress_index js \<and> distinct (map jp_occurrence js)"
  unfolding index_join_progress_def by (drule index_join_progress_aux) simp

lemma progress_index_mem:
  "distinct (map jp_occurrence js) \<Longrightarrow> j \<in> set js \<Longrightarrow> progress_index js (jp_occurrence j) = Some j"
  unfolding progress_index_def by (rule map_of_is_SomeI) (auto simp: comp_def rev_map [symmetric])

lemma progress_index_None: "progress_index js oc = None \<longleftrightarrow> oc \<notin> jp_occurrence ` set js"
  unfolding progress_index_def by (auto simp: map_of_eq_None_iff image_iff)

lemma current_successful_aux:
  assumes "\<forall>x\<in>set f. is_canonical_identity (fn_node_id x) \<and> (\<forall>r v. fn_settlement x = SucceededGraphNode r \<longrightarrow>
      selected_route r = Some v \<longrightarrow> is_canonical_identity v)"
    and "is_canonical_identity (gr_run_id s)" and "0 \<le> gr_superstep s"
  shows "\<exists>refs. foldE (\<lambda>references x. case fn_settlement x of
        SucceededGraphNode routing \<Rightarrow>
          bindE (mk_GraphActivationIdentity (gr_run_id s) (gr_superstep s) (fn_node_id x)) (\<lambda>a.
          bindE (mk_ActivationReference a (selected_route routing)) (\<lambda>r.
          Inr (List.insert r references)))
      | _ \<Rightarrow> Inr references) acc f = Inr refs \<and>
     set refs = set acc \<union> (\<lambda>(n, r). activation_reference_of s n r) ` set (routing_contributions f)"
  using assms(1)
proof (induction f arbitrary: acc)
  case Nil
  then show ?case by (auto simp: routing_contributions_def)
next
  case (Cons x f)
  show ?case
  proof (cases "fn_settlement x")
    case (SucceededGraphNode routing)
    let ?r = "activation_reference_of s (fn_node_id x) routing"
    have step: "bindE (mk_GraphActivationIdentity (gr_run_id s) (gr_superstep s) (fn_node_id x)) (\<lambda>a.
        bindE (mk_ActivationReference a (selected_route routing)) (\<lambda>r. Inr (List.insert r acc))) = Inr (List.insert ?r acc)"
      using Cons.prems assms(2,3) SucceededGraphNode
      by (auto simp: bindE_eq_Inr mk_GraphActivationIdentity_ok mk_ActivationReference_ok activation_reference_of_def)
    have "routing_contributions (x # f) = (fn_node_id x, routing) # routing_contributions f"
      by (simp add: routing_contributions_def SucceededGraphNode)
    then show ?thesis using Cons.IH [of "List.insert ?r acc"] Cons.prems SucceededGraphNode step by auto
  qed (use Cons in \<open>auto simp: routing_contributions_def\<close>)
qed

lemma current_successful_references_ok:
  assumes "wf_state s"
  shows "\<exists>refs. current_successful_references s = Inr refs \<and> set refs = set (frontier_references s)"
proof -
  have "\<forall>x\<in>set (gr_frontier s). is_canonical_identity (fn_node_id x) \<and> (\<forall>r v. fn_settlement x = SucceededGraphNode r \<longrightarrow>
      selected_route r = Some v \<longrightarrow> is_canonical_identity v)"
    using assms by (fastforce simp: wf_state_def wf_frontier_def wf_node_def)
  moreover have "is_canonical_identity (gr_run_id s)" "0 \<le> gr_superstep s"
    using assms by (auto simp: wf_state_def wf_counters_def)
  moreover have "set (frontier_references s) =
      (\<lambda>(n, r). activation_reference_of s n r) ` set (routing_contributions (gr_frontier s))"
    by (simp add: frontier_references_def activation_reference_of_def)
  ultimately show ?thesis
    unfolding current_successful_references_def using current_successful_aux [of "gr_frontier s" s "[]"] by simp
qed

section \<open>Consumption\<close>

definition join_complete :: "graph_run_state \<Rightarrow> join_progress_record \<Rightarrow> bool" where
  "join_complete s j \<longleftrightarrow> occ_target_superstep (jp_occurrence j) = gr_superstep s + 1 \<and>
     set (join_sources (occ_join (jp_occurrence j))) \<subseteq>
       set (reference_nodes (jp_arrived j)) \<union> set (reference_nodes (frontier_references s))"

lemma check_consumed_join_ok:
  assumes "check_consumed_join s previous current consumed oc = Inr r"
  shows "r = consumed @ [oc] \<and> (\<exists>j. previous oc = Some j \<and> occ_target_superstep oc = gr_superstep s + 1 \<and>
    set (join_sources (occ_join oc)) \<subseteq> set (reference_nodes (jp_arrived j)) \<union> set (reference_nodes current))"
  using assms
  by (auto simp: check_consumed_join_def Let_def reference_nodes_def split: if_splits option.splits)

lemma validate_join_consumption_ok:
  assumes "validate_join_consumption s declared current = Inr consumed"
    and cur: "set current = set (frontier_references s)"
  shows "distinct (map jp_occurrence (gr_join_progress s)) \<and> distinct consumed \<and>
    (\<forall>oc\<in>set consumed. \<exists>j\<in>set (gr_join_progress s). jp_occurrence j = oc \<and> join_complete s j)"
proof -
  from assms(1) obtain previous where p: "index_join_progress (gr_join_progress s) ''state'' = Inr previous"
    "foldE (check_consumed_join s previous current) [] declared = Inr consumed"
    by (auto simp: validate_join_consumption_def bindE_eq_Inr if_Inl_eq_Inr)
  note prev = index_join_progress_ok [OF p(1)]
  have "distinct consumed \<and> (\<forall>oc\<in>set consumed. \<exists>j\<in>set (gr_join_progress s). jp_occurrence j = oc \<and> join_complete s j)"
  proof (rule foldE_invariant [OF p(2)])
    fix u oc v
    assume u: "distinct u \<and> (\<forall>oc\<in>set u. \<exists>j\<in>set (gr_join_progress s). jp_occurrence j = oc \<and> join_complete s j)"
      and st: "check_consumed_join s previous current u oc = Inr v"
    have "oc \<notin> set u" using st by (auto simp: check_consumed_join_def split: if_splits)
    moreover from check_consumed_join_ok [OF st] obtain j where j: "v = u @ [oc]" "previous oc = Some j"
      "occ_target_superstep oc = gr_superstep s + 1"
      "set (join_sources (occ_join oc)) \<subseteq> set (reference_nodes (jp_arrived j)) \<union> set (reference_nodes current)" by blast
    moreover have "j \<in> set (gr_join_progress s)" "jp_occurrence j = oc"
      using progress_index_SomeD [of "gr_join_progress s" oc j] prev j(2) by auto
    moreover have "set (reference_nodes current) = set (reference_nodes (frontier_references s))"
      using cur by (simp add: reference_nodes_def)
    ultimately show "distinct v \<and> (\<forall>oc\<in>set v. \<exists>j\<in>set (gr_join_progress s). jp_occurrence j = oc \<and> join_complete s j)"
      using u by (auto simp: join_complete_def)
  qed simp
  with prev show ?thesis by simp
qed

lemma check_next_reference_fold:
  assumes "foldE (check_next_reference s) (cur, hist) refs = Inr (cur', hist')"
  shows "set refs \<union> set cur \<union> set hist = set cur' \<union> set hist' \<and>
    (set cur \<subseteq> set (frontier_references s) \<longrightarrow> set cur' \<subseteq> set (frontier_references s))"
  using assms
proof (induction refs arbitrary: cur hist)
  case (Cons r refs)
  from Cons.prems obtain c h where step: "check_next_reference s (cur, hist) r = Inr (c, h)"
    and rest: "foldE (check_next_reference s) (c, h) refs = Inr (cur', hist')"
    by (auto simp: bindE_eq_Inr)
  have split: "c = cur \<and> h = hist @ [r] \<or> c = cur @ [r] \<and> h = hist \<and> r \<in> set (frontier_references s)"
  proof (cases "act_superstep (ref_activation r) < gr_superstep s")
    case True
    with step show ?thesis by (auto simp: check_next_reference_def Let_def split: if_splits)
  next
    case False
    with step obtain x routing where x: "frontier_node (gr_frontier s) (act_node_id (ref_activation r)) = Some x"
      "fn_settlement x = SucceededGraphNode routing" "ref_route r = selected_route routing"
      "act_run_id (ref_activation r) = gr_run_id s" "act_superstep (ref_activation r) = gr_superstep s"
      "c = cur @ [r]" "h = hist"
      by (auto simp: check_next_reference_def Let_def split: if_splits option.splits node_settlement.splits)
    have "x \<in> set (gr_frontier s)" "fn_node_id x = act_node_id (ref_activation r)" using frontier_node_SomeD [OF x(1)] by auto
    moreover have "r = ActivationReference (GraphActivationIdentity (gr_run_id s) (gr_superstep s) (fn_node_id x)) (selected_route routing)"
      using x(3-5) calculation(2) by (metis activation_reference.collapse graph_activation_identity.collapse)
    ultimately have "r \<in> set (frontier_references s)" using x(2) by (auto simp: frontier_references_mem)
    with x show ?thesis by blast
  qed
  note IH = Cons.IH [OF rest]
  from split show ?case
  proof
    assume "c = cur \<and> h = hist @ [r]"
    with IH show ?thesis by (simp add: insert_commute)
  next
    assume "c = cur @ [r] \<and> h = hist \<and> r \<in> set (frontier_references s)"
    with IH show ?thesis by (simp add: insert_commute)
  qed
qed simp

section \<open>No pending join is lost\<close>

lemma check_next_activation_consumes:
  assumes "check_next_activation s (progress_index (gr_join_progress s)) consumed a = Inr r"
    and "oc \<in> r" and "oc \<notin> consumed"
  shows "\<exists>j\<in>set (gr_join_progress s). jp_occurrence j = oc \<and> join_complete s j"
proof -
  from assms(1) obtain refs occ where c: "fa_cause a = RoutedActivationCause refs occ"
    by (cases "fa_cause a") (auto simp: check_next_activation_def)
  from assms(1) c obtain cur hist where f: "foldE (check_next_reference s) ([], []) refs = Inr (cur, hist)"
    by (auto simp: check_next_activation_def Let_def bindE_eq_Inr)
  note step = assms(1) [unfolded check_next_activation_def c activation_cause.case Let_def f]
  from step assms(2,3) have occ: "occ = Some oc"
    by (cases occ) (auto simp: bindE_eq_Inr split: if_splits option.splits)
  from step assms(2,3) occ obtain j where j: "progress_index (gr_join_progress s) oc = Some j"
    by (cases "progress_index (gr_join_progress s) oc") (auto simp: bindE_eq_Inr split: if_splits)
  from step occ j have r: "jp_arrived j = hist" "occ_target_superstep oc = gr_superstep s + 1"
    "set (reference_nodes refs) = set (join_sources (occ_join oc))"
    by (auto simp: bindE_eq_Inr split: if_splits)
  have "set refs \<subseteq> set (frontier_references s) \<union> set (jp_arrived j)"
    using check_next_reference_fold [OF f] r(1) by auto
  then have "set (reference_nodes refs) \<subseteq> set (reference_nodes (jp_arrived j)) \<union> set (reference_nodes (frontier_references s))"
    by (auto simp: reference_nodes_def)
  with r(2,3) progress_index_SomeD [OF j] show ?thesis by (auto simp: join_complete_def)
qed

lemma validate_next_activations_consumes:
  assumes "validate_next_activations s declared = Inr consumed" and "oc \<in> consumed"
  shows "\<exists>j\<in>set (gr_join_progress s). jp_occurrence j = oc \<and> join_complete s j"
proof -
  from assms(1) have f: "foldE (check_next_activation s (progress_index (gr_join_progress s))) {} declared = Inr consumed"
    by (auto simp: validate_next_activations_def bindE_eq_Inr dest!: index_join_progress_ok)
  have "\<forall>oc\<in>consumed. \<exists>j\<in>set (gr_join_progress s). jp_occurrence j = oc \<and> join_complete s j"
    by (rule foldE_invariant [OF f]) (use check_next_activation_consumes in blast)+
  with assms(2) show ?thesis by blast
qed

definition join_kept :: "graph_run_state \<Rightarrow> join_progress_record list \<Rightarrow> join_progress_record \<Rightarrow> bool" where
  "join_kept s js j \<longleftrightarrow> (\<exists>i\<in>set js. jp_occurrence i = jp_occurrence j \<and> set (jp_arrived j) \<subseteq> set (jp_arrived i) \<and>
     set (jp_arrived i) - set (jp_arrived j) \<subseteq> set (frontier_references s))"

lemma validate_join_progress_delta_ok:
  assumes w: "wf_state s"
    and "validate_join_progress_delta s declared consumed explicit = Inr ()"
    and con: "\<forall>oc\<in>consumed. \<exists>j\<in>set (gr_join_progress s). jp_occurrence j = oc \<and> join_complete s j"
    and j: "j \<in> set (gr_join_progress s)"
  shows "join_kept s declared j \<or> join_complete s j"
proof -
  obtain refs where refs: "current_successful_references s = Inr refs" "set refs = set (frontier_references s)"
    using current_successful_references_ok [OF w] by blast
  from assms(2) refs(1) obtain previous updated ex where
    ix: "index_join_progress (gr_join_progress s) ''state'' = Inr previous" "index_join_progress declared ''command'' = Inr updated"
    and ex: "validate_join_consumption s explicit refs = Inr ex"
    and up: "\<forall>i\<in>set declared. check_updated_progress previous (set refs) (consumed \<union> set ex) i = Inr ()"
    and keep: "\<forall>i\<in>set (gr_join_progress s). \<not> (updated (jp_occurrence i) = None \<and> jp_occurrence i \<notin> consumed \<union> set ex)"
    unfolding validate_join_progress_delta_def Let_def bindE_eq_Inr forE_eq_Inr raise_if_eq by fastforce
  note prev = index_join_progress_ok [OF ix(1)] and upd = index_join_progress_ok [OF ix(2)]
  have uniq: "i = j" if "i \<in> set (gr_join_progress s)" "jp_occurrence i = jp_occurrence j" for i
    using prev that j by (auto simp: distinct_map inj_on_def)
  show ?thesis
  proof (cases "jp_occurrence j \<in> consumed \<union> set ex")
    case True
    then have "\<exists>i\<in>set (gr_join_progress s). jp_occurrence i = jp_occurrence j \<and> join_complete s i"
      using con validate_join_consumption_ok [OF ex refs(2)] by blast
    then show ?thesis using uniq by blast
  next
    case False
    then obtain i where i: "updated (jp_occurrence j) = Some i"
      using keep j by (cases "updated (jp_occurrence j)") auto
    then have i': "i \<in> set declared" "jp_occurrence i = jp_occurrence j" using upd progress_index_SomeD by auto
    have "previous (jp_occurrence i) = Some j" using prev progress_index_mem [OF _ j] i' by simp
    with up i' False have "set (jp_arrived j) \<subseteq> set (jp_arrived i) \<and> set (jp_arrived i) - set (jp_arrived j) \<subseteq> set refs"
      by (auto simp: check_updated_progress_def Let_def split: if_splits dest!: bspec [of _ _ i])
    with i' refs(2) show ?thesis by (auto simp: join_kept_def)
  qed
qed

lemma advance_keeps_joins:
  assumes "reduce_graph_run (Some s) (AdvanceGraphFrontier c) = Inr t" and "j \<in> set (gr_join_progress s)"
  shows "join_kept s (gr_join_progress t) j \<or> join_complete s j"
  using assms(1)
proof (rule reduce_SomeD)
  fix u
  assume w: "wf_state s" and u: "dispatch_command s (AdvanceGraphFrontier c) = Inr u" "t = u\<lparr>gr_revision := gr_revision s + 1\<rparr>"
  then obtain consumed where c: "validate_next_activations s (af_activations c) = Inr consumed"
    "validate_join_progress_delta s (af_join_progress c) consumed (af_consumed_join_progress c) = Inr ()"
    "gr_join_progress t = af_join_progress c"
    by (auto simp: advance_ok)
  show ?thesis
    unfolding c(3)
    by (rule validate_join_progress_delta_ok [OF w c(2) _ assms(2)]) (use validate_next_activations_consumes [OF c(1)] in blast)
qed

lemma complete_consumes_joins:
  assumes "reduce_graph_run (Some s) (CompleteGraphFrontier k js r) = Inr t" and j: "j \<in> set (gr_join_progress s)"
  shows "join_complete s j"
  using assms(1)
proof (rule reduce_SomeD)
  fix u
  assume w: "wf_state s" and u: "dispatch_command s (CompleteGraphFrontier k js r) = Inr u"
  obtain refs where refs: "current_successful_references s = Inr refs" "set refs = set (frontier_references s)"
    using current_successful_references_ok [OF w] by blast
  with u obtain consumed where con: "validate_join_consumption s js refs = Inr consumed"
    "length consumed = length (gr_join_progress s)"
    by (auto simp: complete_ok)
  note c = validate_join_consumption_ok [OF con(1) refs(2)]
  have "set consumed \<subseteq> jp_occurrence ` set (gr_join_progress s)" using c by auto
  moreover have "card (set consumed) = card (jp_occurrence ` set (gr_join_progress s))"
    using c con(2) distinct_card [of consumed] distinct_card [of "map jp_occurrence (gr_join_progress s)"] by simp
  ultimately have "set consumed = jp_occurrence ` set (gr_join_progress s)" by (intro card_subset_eq) auto
  then obtain i where i: "i \<in> set (gr_join_progress s)" "jp_occurrence i = jp_occurrence j" "join_complete s i"
    using c j by (metis imageI)
  then have "i = j" using c j by (auto simp: distinct_map inj_on_def)
  with i show ?thesis by simp
qed

end
