(* ===== verification/Reducer_History.thy ===== *)
theory Reducer_History
  imports Reducer_Joins
begin

text \<open>
  Facts about whole histories of a run: revoked leases, new publications, the supersteps behind
  a reachable state, spent interrupts, and the evidence a confirmation may add.
\<close>

section \<open>Library\<close>

definition run_commands :: "graph_run_state \<Rightarrow> graph_run_command list \<Rightarrow> graph_run_state res" where
  "run_commands s cs = foldE (\<lambda>s. reduce_graph_run (Some s)) s cs"

lemma gm_run: "run_commands s cs = Inr t \<longleftrightarrow> foldE (\<lambda>s. reduce_graph_run (Some s)) s cs = Inr t"
  by (simp add: run_commands_def)

lemma lease_guard:
  assumes "wf_state s" and "gr_execution s \<noteq> Some tok"
  shows "\<not> isOK (reduce_graph_run (Some s) (FenceGraphExecution k tok))"
    and "sn_execution c = tok \<Longrightarrow> \<not> isOK (reduce_graph_run (Some s) (SettleGraphNode c))"
  using assms fence_enabled [OF assms(1)] settle_transition_guards(2) [of s c] by (auto simp: isOK_iff)

lemma ledger_step:
  assumes st: "reduce_graph_run (Some s) c = Inr t"
    and p: "p \<in> set (gr_settled_publications t)" "p \<notin> set (gr_settled_publications s)"
  shows "ps_commit_revision p = gr_revision t \<and> gr_execution s = Some (ps_execution p) \<and>
    act_run_id (ref_activation (ps_reference p)) = gr_run_id s \<and>
    act_superstep (ref_activation (ps_reference p)) = gr_superstep s \<and>
    act_node_id (ref_activation (ps_reference p)) \<in> set (pending_node_ids (gr_frontier s))"
proof -
  obtain u where u: "dispatch_command s c = Inr u" "t = u\<lparr>gr_revision := gr_revision s + 1\<rparr>"
    using st by (rule reduce_SomeD)
  have "set (gr_settled_publications u) = set (gr_settled_publications s)" if "\<forall>x. c \<noteq> SettleGraphNode x"
    using u(1) that by (cases c) (auto simp: claim_ok fence_ok abort_ok advance_ok complete_ok elim!: resume_ok)
  with p u(2) obtain x where SettleGraphNode: "c = SettleGraphNode x" by auto
  let ?n = "outcome_node_id (sn_outcome x)"
  note g = settle_transition_guards [OF st [unfolded SettleGraphNode]]
  have w: "wf_state s" using gm.step_valid [OF st] by blast
  obtain cu r where cr: "settle_config s (sn_config_cursor x) = Inr cu" "settle_resources (gr_resources s) ?n = Inr r"
    using g(5,6) by blast
  obtain d where "reduce_graph_run (Some s) (SettleGraphNode x) = Inr (settled_state s x r cu d)"
    using settle_enabled [OF w g(1-4) cr] by blast
  then have t: "t = settled_state s x r cu d" using st SettleGraphNode by simp
  with p show ?thesis
    using g(2,3)
    by (cases "sn_outcome x") (auto simp: settled_ledger_def activation_reference_of_def)
qed

lemma settled_frontier_published:
  assumes w: "wf_state s" and run: "gr_status s = RUNNING" and f: "frontier_status (gr_frontier s) = Inr SETTLED"
  shows "\<exists>p\<in>set (gr_settled_publications s). act_superstep (ref_activation (ps_reference p)) = gr_superstep s"
proof -
  obtain x where x: "x \<in> set (gr_frontier s)" "is_succeeded (fn_settlement x)"
    using f by (auto simp: frontier_status_cases) (metis list.set_intros(1) neq_Nil_conv)
  then obtain r where "fn_settlement x = SucceededGraphNode r" by (cases "fn_settlement x") auto
  then have "activation_reference_of s (fn_node_id x) r \<in> set (frontier_references s)"
    using x(1) by (auto simp: frontier_references_mem activation_reference_of_def)
  moreover have "{r \<in> ledger_references s. act_superstep (ref_activation r) = gr_superstep s} = set (frontier_references s)"
    using w run by (simp add: wf_state_def wf_ledger_def)
  ultimately have "activation_reference_of s (fn_node_id x) r \<in> {r \<in> ledger_references s. act_superstep (ref_activation r) = gr_superstep s}"
    by blast
  then show ?thesis by (auto simp: ledger_references_def)
qed

lemma superstep_advances:
  assumes "reduce_graph_run (Some s) c = Inr t" and "gr_superstep t \<noteq> gr_superstep s"
  shows "gr_superstep t = gr_superstep s + 1 \<and> frontier_status (gr_frontier s) = Inr SETTLED"
  using assms(1)
proof (rule reduce_SomeD)
  fix u
  assume u: "dispatch_command s c = Inr u" "t = u\<lparr>gr_revision := gr_revision s + 1\<rparr>"
  show ?thesis
    using assms(2) u
    by (cases c) (auto simp: claim_ok fence_ok abort_ok advance_ok complete_ok resolution_base_ok apply_settlement_def Let_def
        elim!: resume_ok settle_ok)
qed

lemma reachable_no_gaps:
  "reachable_run s \<Longrightarrow> 0 \<le> k \<Longrightarrow> k < gr_superstep s \<Longrightarrow>
     \<exists>p\<in>set (gr_settled_publications s). act_superstep (ref_activation (ps_reference p)) = k"
proof (induction arbitrary: k rule: reachable_run.induct)
  case (started c s)
  then show ?case by (auto dest!: start_ok)
next
  case (stepped s c t)
  have sub: "set (gr_settled_publications s) \<subseteq> set (gr_settled_publications t)"
    using reduce_progress(1) [OF stepped.hyps(2)] .
  show ?case
  proof (cases "k < gr_superstep s")
    case True
    with stepped.IH stepped.prems(1) sub show ?thesis by blast
  next
    case False
    then have "gr_superstep t \<noteq> gr_superstep s" using stepped.prems by simp
    note adv = superstep_advances [OF stepped.hyps(2) this]
    have "k = gr_superstep s" using adv False stepped.prems by simp
    with settled_frontier_published [OF reachable_wf [OF stepped.hyps(1)] _ conjunct2 [OF adv]]
      reduce_frozen [OF stepped.hyps(2)] sub show ?thesis by blast
  qed
qed

section \<open>An interrupt is resumed at most once\<close>

abbreviation interrupt_key :: "interrupt_identity \<Rightarrow> string" where
  "interrupt_key i \<equiv> graph_interrupt_id (ii_run_id i) (ii_superstep i) (ii_node_id i) (ii_execution_generation i)"

definition interrupt_spent :: "interrupt_identity \<Rightarrow> graph_run_state \<Rightarrow> bool" where
  "interrupt_spent i s \<longleftrightarrow> wf_state s \<and> ii_execution_generation i \<le> gr_execution_sequence s \<and>
     (\<forall>x\<in>set (gr_frontier s). \<forall>j. fn_settlement x = InterruptedGraphNode j \<longrightarrow>
        interrupt_key (ni_identity j) \<noteq> interrupt_key i) \<and>
     (\<forall>k. gr_execution s = Some k \<longrightarrow> ii_execution_generation i < tok_generation k)"

lemma resume_one_interrupted:
  "fn_settlement (resume_one m x) = InterruptedGraphNode j \<Longrightarrow> fn_settlement x = InterruptedGraphNode j \<and> m (fn_node_id x) = None"
  by (auto simp: resume_one_def split: option.splits)

lemma settle_new_interrupt:
  assumes "settle_outcome s c = Inr (settlement, pubs)" and "settlement = InterruptedGraphNode j"
  shows "ii_execution_generation (ni_identity j) = tok_generation (sn_execution c)"
  using assms by (auto simp: settle_outcome_def bindE_eq_Inr if_Inl_eq_Inr split: node_outcome.splits if_splits)

lemma interrupt_spent_step:
  assumes sp: "interrupt_spent i s" and st: "reduce_graph_run (Some s) c = Inr t"
  shows "interrupt_spent i t"
proof -
  obtain u where u: "dispatch_command s c = Inr u" "t = u\<lparr>gr_revision := gr_revision s + 1\<rparr>" and w: "wf_state s" "wf_state t"
    using st by (rule reduce_SomeD)
  have d: "distinct (map fn_node_id (gr_frontier s))"
    using w(1) by (simp add: wf_state_def wf_frontier_def canonical_tuple_iff)
  have seq: "ii_execution_generation i \<le> gr_execution_sequence t"
    using sp reduce_progress(2) [OF st] by (auto simp: interrupt_spent_def)
  have lease: "ii_execution_generation i < tok_generation k" if k: "gr_execution t = Some k" for k
    using reduce_progress(5) [OF st k] gm.lease_current [OF w(2) k] sp by (auto simp: interrupt_spent_def)
  have "interrupt_key (ni_identity j) \<noteq> interrupt_key i"
    if x: "x \<in> set (gr_frontier t)" "fn_settlement x = InterruptedGraphNode j" for x j
  proof (cases "\<exists>y\<in>set (gr_frontier s). fn_settlement y = InterruptedGraphNode j")
    case True
    then show ?thesis using sp by (auto simp: interrupt_spent_def)
  next
    case False
    obtain y where y: "c = SettleGraphNode y"
      using u x False by (cases c) (auto simp: claim_ok fence_ok abort_ok advance_ok complete_ok pending_frontier_def
        resume_transition_ok [OF d] dest!: resume_one_interrupted)
    with u(1) obtain settlement pubs cursor resources derived where z: "gr_execution s = Some (sn_execution y)"
      "settle_outcome s y = Inr (settlement, pubs)"
      "u = apply_settlement s (replace_settlement (gr_frontier s) (outcome_node_id (sn_outcome y)) settlement)
         derived resources pubs cursor"
      by (auto elim!: settle_ok)
    have "settlement = InterruptedGraphNode j"
      using x u(2) z(3) False by (auto simp: apply_settlement_def Let_def replace_settlement_def split: if_splits)
    then have "ii_execution_generation (ni_identity j) = tok_generation (sn_execution y)"
      by (rule settle_new_interrupt [OF z(2)])
    moreover have "ii_execution_generation i < tok_generation (sn_execution y)" using sp z(1) by (simp add: interrupt_spent_def)
    ultimately show ?thesis by (simp add: graph_interrupt_id_eq_iff)
  qed
  with seq lease w(2) show ?thesis by (auto simp: interrupt_spent_def)
qed

lemma resume_spends:
  assumes st: "reduce_graph_run (Some s) (ResumeGraphNodes k actions) = Inr t" and a: "a \<in> set actions"
  obtains i where "ri_interrupt_id a = interrupt_key i" "interrupt_spent i t"
proof -
  have w: "wf_state s" "wf_state t" using gm.step_valid [OF st] by auto
  note R = st [unfolded resume_enabled [OF w(1)]]
  have d: "distinct (map fn_node_id (gr_frontier s))" and wn: "\<forall>x\<in>set (gr_frontier s). wf_node s x"
    using w(1) by (auto simp: wf_state_def wf_frontier_def canonical_tuple_iff)
  from R a obtain x j where x: "x \<in> set (gr_frontier s)" "fn_node_id x = ri_node_id a"
    "fn_settlement x = InterruptedGraphNode j" "ri_interrupt_id a = interrupt_key (ni_identity j)"
    by (auto simp: resumes_def resumable_def)
  have j: "ii_node_id (ni_identity j) = fn_node_id x" "ii_execution_generation (ni_identity j) \<le> gr_execution_sequence s"
    using wn x(1,3) by (auto simp: wf_node_def dest!: bspec)
  have "actions_by_node actions (fn_node_id x) = Some a"
    using R a x(2) by (subst actions_by_node_Some) (auto simp: resumes_def canonical_tuple_iff)
  then have "interrupt_key (ni_identity l) \<noteq> interrupt_key (ni_identity j)"
    if "y \<in> set (gr_frontier t)" "fn_settlement y = InterruptedGraphNode l" for y l
    using that R wn j(1) by (fastforce simp: graph_interrupt_id_eq_iff wf_node_def dest!: resume_one_interrupted)
  then have "interrupt_spent (ni_identity j) t"
    using w(2) R j(2) by (auto simp: interrupt_spent_def)
  with x(4) show thesis by (rule that)
qed

lemma spent_not_resumable:
  assumes "interrupt_spent i s" and "ri_interrupt_id a = interrupt_key i" and "a \<in> set actions"
  shows "\<not> isOK (reduce_graph_run (Some s) (ResumeGraphNodes k actions))"
proof -
  have w: "wf_state s" using assms(1) by (simp add: interrupt_spent_def)
  have "\<not> resumes s actions" using assms unfolding resumes_def resumable_def interrupt_spent_def by metis
  then show ?thesis unfolding isOK_iff resume_enabled [OF w] by simp
qed

section \<open>Evidence refinement\<close>

definition strip_evidence :: "publication_settlement \<Rightarrow> publication_settlement" where
  "strip_evidence p = GraphPublicationSettlement (ps_reference p) (ps_commit_revision p) (ps_execution p) None"

definition without_evidence :: "graph_run_state \<Rightarrow> graph_run_state" where
  "without_evidence s = s\<lparr>gr_graph_input_evidence := None,
     gr_settled_publications := map strip_evidence (gr_settled_publications s)\<rparr>"

lemma map_insort_key: "map f (insort_key (\<lambda>x. k (f x)) x xs) = insort_key k (f x) (map f xs)"
  by (induction xs) auto

lemma map_sort_key: "map f (sort_key (\<lambda>x. k (f x)) xs) = sort_key k (map f xs)"
  by (induction xs) (simp_all add: map_insort_key)

lemma strip_sorted: "map strip_evidence (sort_key publication_key ps) = sort_key publication_key (map strip_evidence ps)"
  using map_sort_key [of strip_evidence publication_key ps] by (simp add: publication_key_def [abs_def] strip_evidence_def)

lemma start_evidence:
  assumes "start_graph_run c = Inr u" and "start_graph_run (c\<lparr>sg_graph_input_evidence := e\<rparr>) = Inr v"
  shows "without_evidence v = without_evidence u"
  using assms unfolding start_graph_run_def
  by (cases "sg_config_cursor c")
     (auto simp: bindE_eq_Inr validated_graph_run_state_ok without_evidence_def graph_state_post_init_def)

lemma settle_evidence:
  assumes u: "reduce_graph_run (Some s) (SettleGraphNode c) = Inr u"
    and v: "reduce_graph_run (Some s) (SettleGraphNode (c\<lparr>sn_publication_evidence := e\<rparr>)) = Inr v"
  shows "without_evidence v = without_evidence u"
proof -
  let ?c = "c\<lparr>sn_publication_evidence := e\<rparr>"
  have w: "wf_state s" using gm.step_valid [OF u] by blast
  note gu = settle_transition_guards [OF u] and gv = settle_transition_guards [OF v]
  obtain cu r where cr: "settle_config s (sn_config_cursor c) = Inr cu"
    "settle_resources (gr_resources s) (outcome_node_id (sn_outcome c)) = Inr r" using gu(5,6) by blast
  obtain d where d: "frontier_status (replace_settlement (gr_frontier s) (outcome_node_id (sn_outcome c))
       (outcome_settlement (sn_outcome c))) = Inr d" "u = settled_state s c r cu d"
    using settle_enabled [OF w gu(1-4) cr] u by auto
  obtain d' where d': "frontier_status (replace_settlement (gr_frontier s) (outcome_node_id (sn_outcome c))
       (outcome_settlement (sn_outcome c))) = Inr d'" "v = settled_state s ?c r cu d'"
    using settle_enabled [OF w gv(1-4), of cu r] cr v by auto
  have "d' = d" using d d' by simp
  moreover have "map strip_evidence (settled_ledger s ?c) = map strip_evidence (settled_ledger s c)"
    by (cases "sn_outcome c") (simp_all add: settled_ledger_def strip_sorted, simp_all add: strip_evidence_def)
  ultimately show ?thesis
    unfolding d(2) d'(2) without_evidence_def settled_state_def apply_settlement_def Let_def by simp
qed

lemma bind_evidence_cases:
  assumes "bind_evidence c t = Inr b"
  obtains x e where "c = StartGraphRun x" "b = StartGraphRun (x\<lparr>sg_graph_input_evidence := Some e\<rparr>)" "sg_graph_input_evidence x = None"
  | x e where "c = SettleGraphNode x" "b = SettleGraphNode (x\<lparr>sn_publication_evidence := Some e\<rparr>)" "sn_publication_evidence x = None"
  using assms
  by (cases c) (auto simp: bindE_eq_Inr Let_def split: option.splits if_splits node_outcome.splits list.splits)

lemma reduce_evidence:
  assumes "reduce_graph_run s c = Inr u" and "bind_evidence c t = Inr b" and "reduce_graph_run s b = Inr v"
  shows "without_evidence v = without_evidence u"
  using assms(2)
proof (cases rule: bind_evidence_cases)
  case (1 x e)
  with assms have "s = None" by (cases s) auto
  with 1 assms show ?thesis by (auto intro: start_evidence)
next
  case (2 x e)
  with assms obtain s' where "s = Some s'" by (cases s) auto
  with 2 assms show ?thesis by (auto intro: settle_evidence)
qed

lemma reduce_wf: "reduce_graph_run s c = Inr t \<Longrightarrow> wf_state t"
proof (cases s)
  case None
  assume "reduce_graph_run s c = Inr t"
  with None show ?thesis by (cases c) (auto dest: start_ok)
next
  case (Some s')
  assume "reduce_graph_run s c = Inr t"
  with Some show ?thesis using gm.step_valid by blast
qed

end
