(* ===== verification/Reducer_Sample.thy ===== *)
theory Reducer_Sample
  imports Reducer_History
begin

text \<open>
  A sample run of the reducer, the common witness of its properties: two
  initial nodes, one interrupted and resumed, a join waiting across a superstep and consumed
  by the next.
\<close>

section \<open>A sample run\<close>

definition sample_activation :: "int \<Rightarrow> string \<Rightarrow> activation_reference" where
  "sample_activation k n = ActivationReference (GraphActivationIdentity ''run'' k n) None"

definition sample_join :: graph_join_occurrence where
  "sample_join = GraphJoinOccurrenceIdentity (GraphJoinIdentity [''a'', ''c''] ''d'') ''run'' 2"

definition sample_start :: start_graph_run_command where
  "sample_start = \<lparr>sg_run_id = ''run'', sg_definition_id = ''graph'', sg_definition_version = 1,
     sg_activations = [GraphFrontierActivation ''a'' StartActivationCause, GraphFrontierActivation ''b'' StartActivationCause],
     sg_parent = None, sg_resume_input_codec = Some \<lparr>codec_id = ''json'', codec_version = 1\<rparr>,
     sg_config_cursor = None, sg_graph_input_evidence = None\<rparr>"

definition sample_interrupt :: interrupt_identity where
  "sample_interrupt = \<lparr>ii_run_id = ''run'', ii_superstep = 0, ii_node_id = ''b'', ii_execution_generation = 1\<rparr>"

definition sample_settle :: "int \<Rightarrow> execution_token \<Rightarrow> node_outcome \<Rightarrow> settle_graph_node_command" where
  "sample_settle k tok oc = \<lparr>sn_expected_revision = k, sn_execution = tok, sn_outcome = oc,
     sn_config_cursor = None, sn_publication_evidence = None\<rparr>"

definition sample_resume :: resume_interrupted_node where
  "sample_resume = \<lparr>ri_node_id = ''b'', ri_interrupt_id = graph_interrupt_id ''run'' 0 ''b'' 1, ri_input = ''yes''\<rparr>"

definition sample_advance :: advance_graph_frontier_command where
  "sample_advance = \<lparr>af_expected_revision = 6,
     af_activations = [GraphFrontierActivation ''c'' (RoutedActivationCause [sample_activation 0 ''b''] None)],
     af_join_progress = [GraphJoinProgress sample_join [sample_activation 0 ''a'']], af_consumed_join_progress = []\<rparr>"

definition sample_join_advance :: advance_graph_frontier_command where
  "sample_join_advance = \<lparr>af_expected_revision = 9,
     af_activations = [GraphFrontierActivation ''d''
       (RoutedActivationCause [sample_activation 0 ''a'', sample_activation 1 ''c''] (Some sample_join))],
     af_join_progress = [], af_consumed_join_progress = []\<rparr>"

definition sample_commands :: "graph_run_command list" where
  "sample_commands =
     [ClaimGraphExecution 0 ''t1'' None,
      SettleGraphNode (sample_settle 1 (GraphExecutionToken 1 ''t1'') (SucceededGraphNodeOutcome ''a'' ContinueGraphRouting)),
      SettleGraphNode (sample_settle 2 (GraphExecutionToken 1 ''t1'') (InterruptedGraphNodeOutcome ''b'' sample_interrupt ''ask'')),
      ResumeGraphNodes 3 [sample_resume],
      ClaimGraphExecution 4 ''t2'' None,
      SettleGraphNode (sample_settle 5 (GraphExecutionToken 2 ''t2'') (SucceededGraphNodeOutcome ''b'' ContinueGraphRouting)),
      AdvanceGraphFrontier sample_advance,
      ClaimGraphExecution 7 ''t3'' None,
      SettleGraphNode (sample_settle 8 (GraphExecutionToken 3 ''t3'') (SucceededGraphNodeOutcome ''c'' ContinueGraphRouting)),
      AdvanceGraphFrontier sample_join_advance]"

definition sample_initial :: graph_run_state where
  "sample_initial =
     \<lparr>gr_run_id = ''run'', gr_definition_id = ''graph'', gr_definition_version = 1, gr_status = RUNNING, gr_superstep = 0,
      gr_frontier = pending_frontier (sg_activations sample_start), gr_execution_sequence = 0,
      gr_resume_input_codec = Some \<lparr>codec_id = ''json'', codec_version = 1\<rparr>, gr_join_progress = [],
      gr_graph_input_evidence = None, gr_settled_publications = [], gr_resources = None, gr_execution = None,
      gr_abort = None, gr_parent = None, gr_revision = 0, gr_completion_route = None, gr_config_revision = 1,
      gr_config_definition_id = Some ''graph'', gr_config_definition_version = Some 1, gr_config_digest = None\<rparr>"

definition sample_publication :: "int \<Rightarrow> string \<Rightarrow> int \<Rightarrow> execution_token \<Rightarrow> publication_settlement" where
  "sample_publication k n r tok = GraphPublicationSettlement (sample_activation k n) r tok None"

definition sample1 :: graph_run_state where
  "sample1 = sample_initial\<lparr>gr_execution_sequence := 1, gr_execution := Some (GraphExecutionToken 1 ''t1''), gr_revision := 1\<rparr>"

definition sample2 :: graph_run_state where
  "sample2 = sample1\<lparr>gr_frontier := replace_settlement (gr_frontier sample1) ''a'' (SucceededGraphNode ContinueGraphRouting),
     gr_settled_publications := [sample_publication 0 ''a'' 2 (GraphExecutionToken 1 ''t1'')], gr_revision := 2\<rparr>"

definition sample3 :: graph_run_state where
  "sample3 = sample2\<lparr>gr_frontier := replace_settlement (gr_frontier sample2) ''b''
       (InterruptedGraphNode \<lparr>ni_identity = sample_interrupt, ni_request_payload = ''ask''\<rparr>),
     gr_execution := None, gr_revision := 3\<rparr>"

definition sample4 :: graph_run_state where
  "sample4 = sample3\<lparr>gr_frontier := replace_settlement (gr_frontier sample3) ''b''
       (PendingGraphNode (OverrideGraphNodeInput ''yes'')), gr_revision := 4\<rparr>"

definition sample5 :: graph_run_state where
  "sample5 = sample4\<lparr>gr_execution_sequence := 2, gr_execution := Some (GraphExecutionToken 2 ''t2''), gr_revision := 5\<rparr>"

definition sample6 :: graph_run_state where
  "sample6 = sample5\<lparr>gr_frontier := replace_settlement (gr_frontier sample5) ''b'' (SucceededGraphNode ContinueGraphRouting),
     gr_settled_publications := gr_settled_publications sample5 @ [sample_publication 0 ''b'' 6 (GraphExecutionToken 2 ''t2'')],
     gr_execution := None, gr_revision := 6\<rparr>"

definition sample7 :: graph_run_state where
  "sample7 = sample6\<lparr>gr_superstep := 1, gr_frontier := pending_frontier (af_activations sample_advance),
     gr_join_progress := [GraphJoinProgress sample_join [sample_activation 0 ''a'']], gr_revision := 7\<rparr>"

definition sample8 :: graph_run_state where
  "sample8 = sample7\<lparr>gr_execution_sequence := 3, gr_execution := Some (GraphExecutionToken 3 ''t3''), gr_revision := 8\<rparr>"

definition sample9 :: graph_run_state where
  "sample9 = sample8\<lparr>gr_frontier := replace_settlement (gr_frontier sample8) ''c'' (SucceededGraphNode ContinueGraphRouting),
     gr_settled_publications := gr_settled_publications sample8 @ [sample_publication 1 ''c'' 9 (GraphExecutionToken 3 ''t3'')],
     gr_execution := None, gr_revision := 9\<rparr>"

definition sample10 :: graph_run_state where
  "sample10 = sample9\<lparr>gr_superstep := 2, gr_frontier := pending_frontier (af_activations sample_join_advance),
     gr_join_progress := [], gr_revision := 10\<rparr>"

lemma sample_started: "reduce_graph_run None (StartGraphRun sample_start) = Inr sample_initial"
  by code_simp

lemma sample_steps:
  "reduce_graph_run (Some sample_initial) (sample_commands ! 0) = Inr sample1"
  "reduce_graph_run (Some sample1) (sample_commands ! 1) = Inr sample2"
  "reduce_graph_run (Some sample2) (sample_commands ! 2) = Inr sample3"
  "reduce_graph_run (Some sample3) (sample_commands ! 3) = Inr sample4"
  "reduce_graph_run (Some sample4) (sample_commands ! 4) = Inr sample5"
  "reduce_graph_run (Some sample5) (sample_commands ! 5) = Inr sample6"
  "reduce_graph_run (Some sample6) (sample_commands ! 6) = Inr sample7"
  "reduce_graph_run (Some sample7) (sample_commands ! 7) = Inr sample8"
  "reduce_graph_run (Some sample8) (sample_commands ! 8) = Inr sample9"
  "reduce_graph_run (Some sample9) (sample_commands ! 9) = Inr sample10"
  by code_simp+

lemma sample_wf: "wf_state sample1" "wf_state sample3" "wf_state sample6" "wf_state sample9"
  using sample_steps(1,3,6,9) gm.step_valid by blast+

lemma sample_reachable: "reachable_run sample10"
  using sample_started sample_steps by (meson reachable_run.intros)

end
