(* ===== verification/Reducer_Properties.thy ===== *)
theory Reducer_Properties
  imports Reducer_Sample
begin

text \<open>
  The properties of the graph-run reducer, each with its witness on the sample run of
  \<open>Reducer_Sample\<close>.
\<close>

text \<open>
  C1. Validation of a run state accepts exactly the well-formed states: canonical identities,
  a sorted ledger with one publication per activation and per commit revision that agrees
  with the successes of the current frontier, join progress and activation causes backed by
  committed evidence, resources and lease owned by pending nodes, and the shape each lifecycle
  status requires.
\<close>

theorem validation_exact: "validate_graph_run_state s = Inr () \<longleftrightarrow> wf_state s"
  by (rule validate_graph_run_state_iff)

text \<open>
  C22. Every accepted command was issued against the current revision of a valid running state
  (so a completed, failed or aborted run accepts nothing), advances the revision by exactly
  one, leaves the run, definition, parent, codec, input evidence and Config identity alone,
  and leads to a valid state.
\<close>

theorem reduce_frame:
  assumes "reduce_graph_run (Some s) c = Inr t"
  shows "expected_revision c = gr_revision s \<and> gr_status s = RUNNING \<and> gr_revision t = gr_revision s + 1 \<and>
    frozen t = frozen s \<and> wf_state s \<and> wf_state t"
  using assms reduce_frozen [OF assms] by (auto elim: reduce_SomeD)

theorem reduce_frame_witness:
  "frozen sample3 = frozen sample2 \<and> wf_state sample3"
  using reduce_frame [OF sample_steps(3)] by blast

text \<open>
  C3. Fencing is final: once a token of an already issued generation is not the active lease,
  no sequence of commands makes it the lease again, so a worker holding it can neither settle
  a node nor fence the run, whatever happened in between.
\<close>

theorem revoked_lease_dead:
  assumes "wf_state s" and "tok_generation tok \<le> gr_execution_sequence s" and "gr_execution s \<noteq> Some tok"
    and "run_commands s cs = Inr t" and "sn_execution c = tok"
  shows "gr_execution t \<noteq> Some tok \<and> \<not> isOK (reduce_graph_run (Some t) (SettleGraphNode c)) \<and>
    \<not> isOK (reduce_graph_run (Some t) (FenceGraphExecution k tok))"
proof -
  have "wf_state t" using assms(1,4) gm.run_valid by (simp add: gm_run)
  moreover have "gr_execution t \<noteq> Some tok"
    using assms(4) gm.revoked_stays_revoked [OF _ assms(1-3)] by (simp add: gm_run)
  ultimately show ?thesis using lease_guard [of t tok] assms(5) by blast
qed

theorem revoked_lease_dead_witness:
  "\<not> isOK (reduce_graph_run (Some sample5)
      (SettleGraphNode (sample_settle 5 (GraphExecutionToken 1 ''t1'') (SucceededGraphNodeOutcome ''b'' ContinueGraphRouting))))"
proof -
  have g: "tok_generation (GraphExecutionToken 1 ''t1'') \<le> gr_execution_sequence sample3" by code_simp
  have l: "gr_execution sample3 \<noteq> Some (GraphExecutionToken 1 ''t1'')" by code_simp
  have r: "run_commands sample3 [sample_commands ! 3, sample_commands ! 4] = Inr sample5"
    using sample_steps(4,5) by (simp add: run_commands_def del: reduce_graph_run.simps)
  have c: "sn_execution (sample_settle 5 (GraphExecutionToken 1 ''t1'') (SucceededGraphNodeOutcome ''b'' ContinueGraphRouting)) =
      GraphExecutionToken 1 ''t1''" by (simp add: sample_settle_def)
  from revoked_lease_dead [OF sample_wf(2) g l r c] show ?thesis by blast
qed

text \<open>
  C11. The publication ledger is append-only over every command sequence: no step, whatever its
  command, removes an entry. Each entry is born with the step that commits it: it carries that
  step's revision and the active lease, and names a node that was pending at the current
  superstep of the same run.
\<close>

theorem ledger_append_only:
  assumes "run_commands s cs = Inr t" and "reduce_graph_run (Some t) c = Inr u"
  shows "set (gr_settled_publications s) \<subseteq> set (gr_settled_publications t) \<and>
    set (gr_settled_publications t) \<subseteq> set (gr_settled_publications u) \<and>
    gr_revision u = gr_revision s + int (length cs) + 1 \<and>
    (\<forall>p\<in>set (gr_settled_publications u) - set (gr_settled_publications t).
       ps_commit_revision p = gr_revision u \<and> gr_execution t = Some (ps_execution p) \<and>
       act_run_id (ref_activation (ps_reference p)) = gr_run_id s \<and>
       act_superstep (ref_activation (ps_reference p)) = gr_superstep t \<and>
       act_node_id (ref_activation (ps_reference p)) \<in> set (pending_node_ids (gr_frontier t)))"
proof (intro conjI ballI)
  note r = assms(1) [unfolded gm_run]
  show "set (gr_settled_publications s) \<subseteq> set (gr_settled_publications t)" by (rule gm.run_ledger [OF r])
  show "set (gr_settled_publications t) \<subseteq> set (gr_settled_publications u)" by (rule gm.step_ledger [OF assms(2)])
  have run_id: "gr_run_id t = gr_run_id s" using gm.run_identity [OF r] by (simp add: frozen_def)
  show "gr_revision u = gr_revision s + int (length cs) + 1" using gm.run_revision [OF r] gm.step_revision [OF assms(2)] by simp
  fix p
  assume "p \<in> set (gr_settled_publications u) - set (gr_settled_publications t)"
  then have p: "p \<in> set (gr_settled_publications u)" "p \<notin> set (gr_settled_publications t)" by simp_all
  note born = ledger_step [OF assms(2) p]
  show "ps_commit_revision p = gr_revision u" "gr_execution t = Some (ps_execution p)"
    "act_run_id (ref_activation (ps_reference p)) = gr_run_id s" "act_superstep (ref_activation (ps_reference p)) = gr_superstep t"
    "act_node_id (ref_activation (ps_reference p)) \<in> set (pending_node_ids (gr_frontier t))"
    using born run_id gm.step_revision [OF assms(2)] by auto
qed

theorem ledger_append_only_witness:
  "\<exists>p\<in>set (gr_settled_publications sample9). ps_commit_revision p = 9 \<and>
     act_node_id (ref_activation (ps_reference p)) = ''c'' \<and>
     set (gr_settled_publications sample7) \<subseteq> set (gr_settled_publications sample9)"
proof -
  let ?p = "GraphPublicationSettlement (sample_activation 1 ''c'') 9 (GraphExecutionToken 3 ''t3'') None"
  have r: "run_commands sample7 [sample_commands ! 7] = Inr sample8"
    using sample_steps(8) by (simp add: run_commands_def del: reduce_graph_run.simps)
  have new: "?p \<in> set (gr_settled_publications sample9)" by code_simp
  have old: "?p \<notin> set (gr_settled_publications sample8)" by code_simp
  from ledger_append_only [OF r sample_steps(9)] new old
  have "set (gr_settled_publications sample7) \<subseteq> set (gr_settled_publications sample9) \<and> ps_commit_revision ?p = gr_revision sample9" by blast
  with new show ?thesis by (intro bexI [OF _ new]) (simp add: sample_activation_def)
qed

text \<open>
  C2. A settlement is accepted exactly when it is issued for the current revision by the
  owner of the lease, for a pending node, with a well-formed outcome, a legal Config move, and
  (if the node takes part in resource admission) a resource release the resource reducer
  accepts. The re-validation of the successor never refuses anything more.
\<close>

theorem settle_exact:
  assumes "wf_state s"
  shows "isOK (reduce_graph_run (Some s) (SettleGraphNode c)) \<longleftrightarrow>
    sn_expected_revision c = gr_revision s \<and> gr_execution s = Some (sn_execution c) \<and>
    outcome_node_id (sn_outcome c) \<in> set (pending_node_ids (gr_frontier s)) \<and> settleable_outcome s c \<and>
    isOK (settle_config s (sn_config_cursor c)) \<and>
    isOK (settle_resources (gr_resources s) (outcome_node_id (sn_outcome c)))" (is "?L \<longleftrightarrow> ?R")
proof
  assume ?L
  then obtain t where "reduce_graph_run (Some s) (SettleGraphNode c) = Inr t" by (auto simp: isOK_iff simp del: reduce_graph_run.simps)
  from settle_transition_guards [OF this] show ?R by (auto simp: isOK_iff)
next
  assume R: ?R
  then obtain cu r where cr: "settle_config s (sn_config_cursor c) = Inr cu"
    "settle_resources (gr_resources s) (outcome_node_id (sn_outcome c)) = Inr r" by (auto simp: isOK_iff)
  from R have g: "sn_expected_revision c = gr_revision s" "gr_execution s = Some (sn_execution c)"
    "outcome_node_id (sn_outcome c) \<in> set (pending_node_ids (gr_frontier s))" "settleable_outcome s c" by blast+
  obtain d where "reduce_graph_run (Some s) (SettleGraphNode c) = Inr (settled_state s c r cu d)"
    using settle_enabled [OF assms g cr] by blast
  then show ?L by (simp del: reduce_graph_run.simps)
qed

theorem settle_exact_witness:
  "isOK (reduce_graph_run (Some sample1)
     (SettleGraphNode (sample_settle 1 (GraphExecutionToken 1 ''t1'') (FailedGraphNodeOutcome ''a'' ''boom''))))"
proof -
  let ?c = "sample_settle 1 (GraphExecutionToken 1 ''t1'') (FailedGraphNodeOutcome ''a'' ''boom'')"
  have "is_canonical_identity ''boom''" by code_simp
  then have o: "settleable_outcome sample1 ?c" by (simp add: settleable_outcome_def sample_settle_def)
  have rest: "sn_expected_revision ?c = gr_revision sample1" "gr_execution sample1 = Some (sn_execution ?c)"
    "outcome_node_id (sn_outcome ?c) \<in> set (pending_node_ids (gr_frontier sample1))"
    "isOK (settle_config sample1 (sn_config_cursor ?c))"
    "isOK (settle_resources (gr_resources sample1) (outcome_node_id (sn_outcome ?c)))"
    by code_simp+
  show ?thesis unfolding settle_exact [OF sample_wf(1)] using o rest by blast
qed

definition contended_start :: start_graph_run_command where
  "contended_start = sample_start\<lparr>sg_activations := map (\<lambda>n. GraphFrontierActivation n StartActivationCause) [''n1'', ''n2'', ''n3'']\<rparr>"

definition contended_state :: graph_run_state where
  "contended_state = sample1\<lparr>gr_frontier := pending_frontier (sg_activations contended_start), gr_resources := Some three_way_snapshot\<rparr>"

definition contended_settle :: "int \<Rightarrow> string \<Rightarrow> graph_run_command" where
  "contended_settle k n =
     SettleGraphNode (sample_settle k (GraphExecutionToken 1 ''t1'') (SucceededGraphNodeOutcome n ContinueGraphRouting))"

text \<open>
  C25. The refused resource release reaches the run state: three initial nodes claimed with
  the snapshot in which n1 holds A, n2 waits for A and wants B, and n3 holds B. The state after
  the claim is reachable and valid and n1 is pending and admitted, yet the successful outcome
  of n1 is rejected, and it is accepted once n3 has settled.
\<close>

theorem settle_blocked_by_release:
  "bindE (reduce_graph_run None (StartGraphRun contended_start)) (\<lambda>s.
     reduce_graph_run (Some s) (ClaimGraphExecution 0 ''t1'' (Some three_way_snapshot))) = Inr contended_state \<and>
   reduce_graph_run (Some contended_state) (contended_settle 1 ''n1'') =
     Inl (state_error ''completed node cannot release its resource acquisition'') \<and>
   isOK (run_commands contended_state [contended_settle 1 ''n3'', contended_settle 2 ''n1'', contended_settle 3 ''n2''])"
proof (intro conjI)
  show "bindE (reduce_graph_run None (StartGraphRun contended_start)) (\<lambda>s.
     reduce_graph_run (Some s) (ClaimGraphExecution 0 ''t1'' (Some three_way_snapshot))) = Inr contended_state"
    by code_simp
  show "reduce_graph_run (Some contended_state) (contended_settle 1 ''n1'') =
     Inl (state_error ''completed node cannot release its resource acquisition'')" by code_simp
  show "isOK (run_commands contended_state [contended_settle 1 ''n3'', contended_settle 2 ''n1'', contended_settle 3 ''n2''])"
    by code_simp
qed

text \<open>
  C17. A running run can always be stopped: from every valid running state one abort, or a
  fence followed by an abort, is accepted and leads to the aborted status with the frontier
  and the publication ledger untouched.
\<close>

theorem always_stoppable:
  assumes "wf_state s" and "gr_status s = RUNNING" and "is_canonical_identity reason"
  shows "\<exists>cs t. length cs \<le> 2 \<and> run_commands s cs = Inr t \<and> gr_status t = ABORTED \<and> gr_abort t = Some reason \<and>
    gr_frontier t = gr_frontier s \<and> gr_settled_publications t = gr_settled_publications s"
proof (cases "gr_execution s")
  case None
  let ?t = "s\<lparr>gr_status := ABORTED, gr_resources := None, gr_abort := Some reason, gr_revision := gr_revision s + 1\<rparr>"
  have "reduce_graph_run (Some s) (AbortGraphRun (gr_revision s) reason) = Inr ?t"
    unfolding abort_enabled [OF assms(1)] using assms None by simp
  then show ?thesis
    by (intro exI [of _ "[AbortGraphRun (gr_revision s) reason]"] exI [of _ ?t])
       (simp add: run_commands_def del: reduce_graph_run.simps)
next
  case (Some tok)
  let ?u = "s\<lparr>gr_execution := None, gr_resources := None, gr_revision := gr_revision s + 1\<rparr>"
  let ?t = "?u\<lparr>gr_status := ABORTED, gr_resources := None, gr_abort := Some reason, gr_revision := gr_revision ?u + 1\<rparr>"
  have f: "reduce_graph_run (Some s) (FenceGraphExecution (gr_revision s) tok) = Inr ?u"
    unfolding fence_enabled [OF assms(1)] using Some by simp
  then have w: "wf_state ?u" using gm.step_valid by blast
  have "reduce_graph_run (Some ?u) (AbortGraphRun (gr_revision ?u) reason) = Inr ?t"
    unfolding abort_enabled [OF w] using assms by simp
  with f show ?thesis
    by (intro exI [of _ "[FenceGraphExecution (gr_revision s) tok, AbortGraphRun (gr_revision ?u) reason]"] exI [of _ ?t])
       (simp add: run_commands_def del: reduce_graph_run.simps)
qed

theorem always_stoppable_witness:
  "\<exists>cs t. run_commands sample1 cs = Inr t \<and> gr_status t = ABORTED"
proof -
  have "gr_status sample1 = RUNNING" "is_canonical_identity ''stop''" by code_simp+
  from always_stoppable [OF sample_wf(1) this] show ?thesis by blast
qed

text \<open>
  C18. An execution claim is accepted exactly for the current revision of a quiescent running
  state with pending nodes, with a canonical attempt id and resources that are absent or a
  valid non-empty snapshot of pending nodes. It hands out the next generation and changes
  nothing else.
\<close>

theorem claim_exact:
  assumes "wf_state s"
  shows "reduce_graph_run (Some s) (ClaimGraphExecution k a r) = Inr t \<longleftrightarrow>
     k = gr_revision s \<and> is_canonical_identity a \<and> gr_status s = RUNNING \<and> gr_execution s = None \<and>
     pending_node_ids (gr_frontier s) \<noteq> [] \<and> claimable_resources s r \<and>
     t = s\<lparr>gr_execution_sequence := gr_execution_sequence s + 1,
           gr_execution := Some (GraphExecutionToken (gr_execution_sequence s + 1) a),
           gr_resources := r, gr_revision := gr_revision s + 1\<rparr>"
  by (rule claim_enabled [OF assms])

theorem claim_exact_witness:
  "\<not> isOK (reduce_graph_run (Some sample3) (ClaimGraphExecution 3 ''t2'' None))"
proof -
  have "pending_node_ids (gr_frontier sample3) = []" by code_simp
  then show ?thesis unfolding isOK_iff claim_exact [OF sample_wf(2)] by simp
qed

text \<open>
  C19. A resume is accepted exactly when the run is quiescent and every action names, in
  canonical order, an interrupted node of the frontier with the id of its current interrupt;
  exactly those nodes become pending with the action's input, every other node is unchanged.
\<close>

theorem resume_exact:
  assumes "wf_state s"
  shows "reduce_graph_run (Some s) (ResumeGraphNodes k actions) = Inr t \<longleftrightarrow>
     k = gr_revision s \<and> gr_status s = RUNNING \<and> gr_execution s = None \<and> resumes s actions \<and>
     t = s\<lparr>gr_frontier := map (resume_one (actions_by_node actions)) (gr_frontier s), gr_revision := gr_revision s + 1\<rparr>"
  by (rule resume_enabled [OF assms])

theorem resume_exact_witness:
  "sample4 = sample3\<lparr>gr_frontier := map (resume_one (actions_by_node [sample_resume])) (gr_frontier sample3), gr_revision := 4\<rparr>"
proof -
  have "reduce_graph_run (Some sample3) (ResumeGraphNodes 3 [sample_resume]) = Inr sample4"
    using sample_steps(4) by (simp add: sample_commands_def del: reduce_graph_run.simps)
  moreover have "gr_revision sample3 = 3" by code_simp
  ultimately show ?thesis unfolding resume_exact [OF sample_wf(2)] by simp
qed

text \<open>
  C14. An interrupt is answered at most once: after a resume no later state of the run accepts
  a resume that carries the same interrupt id, even if the node is interrupted again.
\<close>

theorem interrupt_answered_once:
  assumes "reduce_graph_run (Some s) (ResumeGraphNodes k actions) = Inr t" and "a \<in> set actions"
    and "run_commands t cs = Inr u" and "b \<in> set later" and "ri_interrupt_id b = ri_interrupt_id a"
  shows "\<not> isOK (reduce_graph_run (Some u) (ResumeGraphNodes k' later))"
proof -
  obtain i where i: "ri_interrupt_id a = interrupt_key i" "interrupt_spent i t"
    using resume_spends [OF assms(1,2)] by blast
  have "interrupt_spent i u"
    using assms(3) unfolding gm_run by (rule foldE_invariant) (use i(2) interrupt_spent_step in blast)+
  then show ?thesis using spent_not_resumable assms(4,5) i(1) by metis
qed

theorem interrupt_answered_once_witness:
  "\<not> isOK (reduce_graph_run (Some sample5) (ResumeGraphNodes 5 [sample_resume]))"
proof (rule interrupt_answered_once)
  show "reduce_graph_run (Some sample3) (ResumeGraphNodes 3 [sample_resume]) = Inr sample4"
    using sample_steps(4) by (simp add: sample_commands_def del: reduce_graph_run.simps)
  show "run_commands sample4 [sample_commands ! 4] = Inr sample5"
    using sample_steps(5) by (simp add: run_commands_def del: reduce_graph_run.simps)
qed simp_all

text \<open>
  C12. No pending join is lost by an advance: it stays pending with all its arrivals, extended
  only by successes of the frontier that just settled, or it is consumed for the next
  superstep with every one of its sources arrived.
\<close>

theorem advance_no_lost_join:
  assumes "reduce_graph_run (Some s) (AdvanceGraphFrontier c) = Inr t" and "j \<in> set (gr_join_progress s)"
  shows "join_kept s (gr_join_progress t) j \<or> join_complete s j"
  by (rule advance_keeps_joins [OF assms])

theorem advance_no_lost_join_witness:
  "join_complete sample9 (GraphJoinProgress sample_join [sample_activation 0 ''a''])"
proof -
  have st: "reduce_graph_run (Some sample9) (AdvanceGraphFrontier sample_join_advance) = Inr sample10"
    using sample_steps(10) by (simp add: sample_commands_def del: reduce_graph_run.simps)
  have mem: "GraphJoinProgress sample_join [sample_activation 0 ''a''] \<in> set (gr_join_progress sample9)" by code_simp
  have "gr_join_progress sample10 = []" by code_simp
  then have "\<not> join_kept sample9 (gr_join_progress sample10) j" for j by (simp add: join_kept_def)
  with advance_no_lost_join [OF st mem] show ?thesis by blast
qed

text \<open>
  C13. A run completes only from a fully successful frontier, and only when every join that is
  still pending has all its sources arrived; the ledger is kept.
\<close>

theorem complete_no_lost_join:
  assumes "reduce_graph_run (Some s) (CompleteGraphFrontier k js r) = Inr t"
  shows "gr_status t = COMPLETED \<and> gr_settled_publications t = gr_settled_publications s \<and>
    frontier_status (gr_frontier s) = Inr SETTLED \<and> (\<forall>j\<in>set (gr_join_progress s). join_complete s j)"
proof -
  have "\<forall>j\<in>set (gr_join_progress s). join_complete s j" using complete_consumes_joins [OF assms] by blast
  then show ?thesis using assms by (auto elim!: reduce_SomeD simp: complete_ok resolution_base_ok simp del: reduce_graph_run.simps)
qed

theorem complete_no_lost_join_witness:
  "join_complete sample9 (GraphJoinProgress sample_join [sample_activation 0 ''a''])"
proof -
  obtain t where t: "reduce_graph_run (Some sample9) (CompleteGraphFrontier 9 [sample_join] None) = Inr t"
  proof -
    have "isOK (reduce_graph_run (Some sample9) (CompleteGraphFrontier 9 [sample_join] None))" by code_simp
    then show thesis using that by (auto simp: isOK_iff simp del: reduce_graph_run.simps)
  qed
  have mem: "GraphJoinProgress sample_join [sample_activation 0 ''a''] \<in> set (gr_join_progress sample9)" by code_simp
  from complete_no_lost_join [OF t] mem show ?thesis by blast
qed

text \<open>
  C15. Confirmation of a durable successor: the exact reducer successor is always admitted,
  and whatever is admitted is a valid state that some evidence-bound variant of the command
  produces and that differs from the predicted successor in evidence commitments only.
\<close>

theorem confirmation_sound_complete:
  "(admit_graph_run_confirmation s c t = Inr r \<longrightarrow> r = t \<and> wf_state t \<and>
      (\<exists>u c'. reduce_graph_run s c = Inr u \<and> reduce_graph_run s c' = Inr t \<and> without_evidence t = without_evidence u)) \<and>
   (reduce_graph_run s c = Inr t \<longrightarrow> admit_graph_run_confirmation s c t = Inr t)"
proof (intro conjI impI)
  assume a: "admit_graph_run_confirmation s c t = Inr r"
  then obtain u where w: "wf_state t" and u: "reduce_graph_run s c = Inr u" and r: "r = t" and
    d: "t = u \<or> (\<exists>b. bind_evidence c t = Inr b \<and> reduce_graph_run s b = Inr t)"
    unfolding admit_graph_run_confirmation_def bindE_eq_Inr validate_graph_run_state_iff
    by (auto simp: bindE_eq_Inr validate_graph_run_state_iff simp del: reduce_graph_run.simps bind_evidence.simps
        split: if_splits)
  have "\<exists>c'. reduce_graph_run s c' = Inr t \<and> without_evidence t = without_evidence u"
    using d u reduce_evidence [OF u] by (auto simp del: reduce_graph_run.simps bind_evidence.simps)
  with w u show "r = t" "wf_state t"
    "\<exists>u c'. reduce_graph_run s c = Inr u \<and> reduce_graph_run s c' = Inr t \<and> without_evidence t = without_evidence u"
    using r by blast+
next
  assume "reduce_graph_run s c = Inr t"
  moreover from this have "validate_graph_run_state t = Inr ()" using reduce_wf by (simp add: validate_graph_run_state_iff)
  ultimately show "admit_graph_run_confirmation s c t = Inr t"
    by (simp add: admit_graph_run_confirmation_def del: reduce_graph_run.simps)
qed

theorem confirmation_sound_complete_witness:
  "admit_graph_run_confirmation (Some sample2) (sample_commands ! 2) sample3 = Inr sample3"
  using confirmation_sound_complete [of "Some sample2" "sample_commands ! 2" sample3 sample3] sample_steps(3) by blast

text \<open>
  C16. History of a reachable state: supersteps, issued execution generations and publications
  together never exceed the number of committed commands, and every completed superstep has
  at least one committed publication.
\<close>

theorem reachable_history:
  assumes "reachable_run s"
  shows "wf_state s \<and>
    gr_superstep s + gr_execution_sequence s + int (length (gr_settled_publications s)) \<le> gr_revision s \<and>
    (\<forall>k. 0 \<le> k \<and> k < gr_superstep s \<longrightarrow>
       (\<exists>p\<in>set (gr_settled_publications s). act_superstep (ref_activation (ps_reference p)) = k))"
  using reachable_wf [OF assms] reachable_budget [OF assms] reachable_no_gaps [OF assms] by blast

theorem reachable_history_witness:
  "\<exists>p\<in>set (gr_settled_publications sample10). act_superstep (ref_activation (ps_reference p)) = 1"
proof -
  have "gr_superstep sample10 = 2" by code_simp
  then show ?thesis using reachable_history [OF sample_reachable] by simp
qed

text \<open>
  C23. The Config cursor of a run never changes its definition, never moves backwards and
  advances by at most one revision per command.
\<close>

theorem config_monotone:
  assumes "run_commands s cs = Inr t"
  shows "gr_config_definition_id t = gr_config_definition_id s \<and>
    gr_config_definition_version t = gr_config_definition_version s \<and>
    gr_config_revision s \<le> gr_config_revision t \<and> gr_config_revision t \<le> gr_config_revision s + int (length cs)"
proof -
  note r = assms [unfolded gm_run]
  have "gr_config_revision s \<le> gr_config_revision t \<and> gr_config_revision t \<le> gr_config_revision s + int (length cs)"
    using r
  proof (induction cs arbitrary: s)
    case (Cons c cs)
    from Cons.prems obtain u where u: "reduce_graph_run (Some s) c = Inr u" "foldE (\<lambda>s. reduce_graph_run (Some s)) u cs = Inr t"
      by (auto simp: bindE_eq_Inr simp del: reduce_graph_run.simps)
    show ?case using Cons.IH [OF u(2)] reduce_progress(4) [OF u(1)] by simp
  qed simp
  then show ?thesis using gm.run_identity [OF r] by (simp add: frozen_def)
qed

theorem config_monotone_witness: "gr_config_revision sample3 \<le> gr_config_revision sample4"
proof -
  have "run_commands sample3 [sample_commands ! 3] = Inr sample4"
    using sample_steps(4) by (simp add: run_commands_def del: reduce_graph_run.simps)
  from config_monotone [OF this] show ?thesis by blast
qed

text \<open>
  C24. Projected identities identify their coordinate: interrupt ids and child run ids are
  injective in all their fields, never coincide with each other, and a child run never has
  the id of its parent.
\<close>

theorem projected_identities:
  "(graph_interrupt_id r k n g = graph_interrupt_id r' k' n' g' \<longleftrightarrow> (r, k, n, g) = (r', k', n', g')) \<and>
   (child_graph_run_id r k n = child_graph_run_id r' k' n' \<longleftrightarrow> (r, k, n) = (r', k', n')) \<and>
   child_graph_run_id r k n \<noteq> graph_interrupt_id r' k' n' g' \<and> child_graph_run_id r k n \<noteq> r"
  using child_graph_run_id_longer [of r k n]
  by (auto simp: graph_interrupt_id_eq_iff child_graph_run_id_eq_iff child_graph_run_id_neq_interrupt_id)

end
