(* ===== verification/Config_Snapshot.thy ===== *)
theory Config_Snapshot
  imports State_Invariant
begin

text \<open>
  \<open>mote_kernel/config.py\<close>: Config snapshots, the complete resolved Config with its typed
  slices, binding of one projection, and loading, resolving and recovering a Config.

  \<^item> \<open>sha256_hex\<close>, an argument, is \<open>sha256(payload).hexdigest()\<close>; nothing here depends on more
    than that it is a function of the payload.
  \<^item> A slice is a value of some type \<open>'p\<close>; its \<open>snapshot_key\<close> and its class's
    \<open>__post_init__\<close> are the fields of a \<open>slice_class\<close>, an argument (dynamic dispatch).
  \<^item> The store and the resolver are Ports: functions that return a value or raise.
\<close>

section \<open>Keys and snapshots\<close>

datatype config_snapshot_key =
  ConfigSnapshotKey (ck_definition_id: string) (ck_definition_version: int) (ck_revision: int)

definition mk_ConfigSnapshotKey :: "string \<Rightarrow> int \<Rightarrow> int \<Rightarrow> config_snapshot_key res" where
  "mk_ConfigSnapshotKey d v r =
     (if \<not> is_canonical_identity d
      then Inl (ConfigContractError ''config snapshot definition_id must be canonical'')
      else if v < 1 then Inl (ConfigContractError ''config snapshot definition_version must be a positive integer'')
      else if r < 1 then Inl (ConfigContractError ''config snapshot revision must be a positive integer'')
      else Inr (ConfigSnapshotKey d v r))"

definition from_state :: "graph_run_state \<Rightarrow> config_snapshot_key res" where
  "from_state s =
     (if \<not> is_canonical_identity (gr_definition_id s)
      then Inl (ConfigContractError ''graph state topology definition_id is malformed'')
      else if gr_definition_version s < 1
      then Inl (ConfigContractError ''graph state topology version is malformed'')
      else (case (gr_config_definition_id s, gr_config_definition_version s) of
          (Some d, Some v) \<Rightarrow> mk_ConfigSnapshotKey d v (gr_config_revision s)
        | _ \<Rightarrow> Inl (ConfigContractError ''graph state config identity is missing'')))"

definition revalidate_snapshot_key :: "config_snapshot_key \<Rightarrow> config_snapshot_key res" where
  "revalidate_snapshot_key k = mk_ConfigSnapshotKey (ck_definition_id k) (ck_definition_version k) (ck_revision k)"

datatype config_snapshot =
  ConfigSnapshot (cs_key: config_snapshot_key) (cs_payload: py_bytes) (cs_digest: string)

definition mk_ConfigSnapshot ::
  "(py_bytes \<Rightarrow> string) \<Rightarrow> config_snapshot_key \<Rightarrow> py_bytes \<Rightarrow> string \<Rightarrow> config_snapshot res" where
  "mk_ConfigSnapshot sha256_hex key payload digest =
     bindE (revalidate_snapshot_key key) (\<lambda>_.
     if payload = [] then Inl (ConfigContractError ''config snapshot payload must be non-empty exact bytes'')
     else if digest \<noteq> sha256_hex payload
     then Inl (ConfigContractError ''config snapshot digest does not match its payload'')
     else Inr (ConfigSnapshot key payload digest))"

definition capture :: "(py_bytes \<Rightarrow> string) \<Rightarrow> config_snapshot_key \<Rightarrow> py_bytes \<Rightarrow> config_snapshot res" where
  "capture sha256_hex key payload =
     bindE (revalidate_snapshot_key key) (\<lambda>k.
     if payload = [] then Inl (ConfigContractError ''config snapshot payload must be non-empty exact bytes'')
     else mk_ConfigSnapshot sha256_hex k payload (sha256_hex payload))"

definition snapshot_cursor :: "config_snapshot \<Rightarrow> config_cursor res" where
  "snapshot_cursor s =
     mk_GraphConfigCursor (ck_definition_id (cs_key s)) (ck_definition_version (cs_key s)) (ck_revision (cs_key s))
       (Some (cs_digest s))"

definition revalidate_snapshot :: "(py_bytes \<Rightarrow> string) \<Rightarrow> config_snapshot \<Rightarrow> config_snapshot res" where
  "revalidate_snapshot sha256_hex s =
     bindE (revalidate_snapshot_key (cs_key s)) (\<lambda>k. mk_ConfigSnapshot sha256_hex k (cs_payload s) (cs_digest s))"

section \<open>Slices and the complete Config\<close>

record 'p slice_class =
  slice_key :: "'p \<Rightarrow> config_snapshot_key"
  slice_post_init :: "'p \<Rightarrow> unit res"

definition config_slice_post_init :: "config_snapshot_key \<Rightarrow> unit res" where
  "config_slice_post_init k = bindE (revalidate_snapshot_key k) (\<lambda>_. Inr ())"

definition revalidate_config_slice :: "'p slice_class \<Rightarrow> 'p \<Rightarrow> string \<Rightarrow> 'p res" where
  "revalidate_config_slice C p field =
     catchE (bindE (slice_post_init C p) (\<lambda>_. Inr p))
       (\<lambda>e. case e of ConfigContractError _ \<Rightarrow> Inl e | _ \<Rightarrow> Inl (ConfigContractError (field @ '' is malformed'')))"

record 'p config =
  cfg_snapshot :: config_snapshot
  cfg_react :: 'p
  cfg_observe :: 'p
  cfg_think :: 'p
  cfg_act :: 'p
  cfg_hooks :: "'p list"
  cfg_failovers :: "'p list"

definition config_projections :: "'p config \<Rightarrow> 'p list" where
  "config_projections c = [cfg_react c, cfg_observe c, cfg_think c, cfg_act c] @ cfg_hooks c @ cfg_failovers c"

definition config_post_init :: "(py_bytes \<Rightarrow> string) \<Rightarrow> 'p slice_class \<Rightarrow> 'p config \<Rightarrow> unit res" where
  "config_post_init sha256_hex C c =
     bindE (revalidate_snapshot sha256_hex (cfg_snapshot c)) (\<lambda>_.
     forE (\<lambda>p.
       bindE (revalidate_config_slice C p ''resolved config projection'') (\<lambda>a.
       bindE (revalidate_snapshot_key (slice_key C a)) (\<lambda>_.
       raise_unless (slice_key C a = cs_key (cfg_snapshot c))
         (ConfigContractError ''every config slice must come from the complete snapshot'')))) (config_projections c))"

definition require_config :: "(py_bytes \<Rightarrow> string) \<Rightarrow> 'p slice_class \<Rightarrow> 'p config \<Rightarrow> 'p config res" where
  "require_config sha256_hex C c = bindE (config_post_init sha256_hex C c) (\<lambda>_. Inr c)"

definition revalidate_config :: "(py_bytes \<Rightarrow> string) \<Rightarrow> 'p slice_class \<Rightarrow> 'p config \<Rightarrow> 'p config res" where
  "revalidate_config sha256_hex C c = bindE (config_post_init sha256_hex C c) (\<lambda>_. Inr c)"

text \<open>
  \<open>Config.bind\<close>: \<open>select\<close> is the selector's method on the re-admitted Config, \<open>D\<close> the class of
  the projection it returns.
\<close>

definition config_bind ::
  "(py_bytes \<Rightarrow> string) \<Rightarrow> 'p slice_class \<Rightarrow> 'q slice_class \<Rightarrow> 'p config \<Rightarrow> ('p config \<Rightarrow> 'q option res) \<Rightarrow> 'q option res" where
  "config_bind sha256_hex C D c select =
     bindE (require_config sha256_hex C c) (\<lambda>_.
     bindE (select c) (\<lambda>selected.
     (case selected of
        None \<Rightarrow> Inr None
      | Some q \<Rightarrow>
          bindE (revalidate_config_slice D q ''selected config projection'') (\<lambda>_.
          bindE (revalidate_snapshot_key (slice_key D q)) (\<lambda>_.
          if slice_key D q \<noteq> cs_key (cfg_snapshot c)
          then Inl (ConfigContractError ''ConfigSelector returned a projection from a different snapshot'')
          else Inr (Some q))))))"

definition state_config_digest :: "graph_run_state \<Rightarrow> string option res" where
  "state_config_digest s =
     (case gr_config_digest s of
        None \<Rightarrow> Inr None
      | Some d \<Rightarrow> if d = [] \<or> d \<noteq> py_strip d
                  then Inl (ConfigContractError ''graph state config digest is malformed'') else Inr (Some d))"

definition admit_state ::
  "(py_bytes \<Rightarrow> string) \<Rightarrow> 'p slice_class \<Rightarrow> 'p config \<Rightarrow> graph_run_state \<Rightarrow> graph_run_state res" where
  "admit_state sha256_hex C c s =
     bindE (require_config sha256_hex C c) (\<lambda>_.
     bindE (from_state s) (\<lambda>state_key.
     if state_key \<noteq> cs_key (cfg_snapshot c)
     then Inl (ConfigContractError ''graph state references a different config snapshot'')
     else bindE (state_config_digest s) (\<lambda>digest.
       if digest \<noteq> None \<and> digest \<noteq> Some (cs_digest (cfg_snapshot c))
       then Inl (ConfigContractError ''graph state config digest does not match the complete snapshot'')
       else Inr s)))"

definition config_cursor_of_config :: "'p config \<Rightarrow> config_cursor res" where
  "config_cursor_of_config c =
     mk_GraphConfigCursor (ck_definition_id (cs_key (cfg_snapshot c))) (ck_definition_version (cs_key (cfg_snapshot c)))
       (ck_revision (cs_key (cfg_snapshot c))) (Some (cs_digest (cfg_snapshot c)))"

section \<open>Persistence and recovery\<close>

definition save_config_snapshot ::
  "(py_bytes \<Rightarrow> string) \<Rightarrow> (config_snapshot \<Rightarrow> config_snapshot res) \<Rightarrow> config_snapshot \<Rightarrow> config_snapshot res" where
  "save_config_snapshot sha256_hex store_save snapshot =
     bindE (revalidate_snapshot sha256_hex snapshot) (\<lambda>s.
     bindE (store_save s) (\<lambda>confirmed.
     bindE (revalidate_snapshot sha256_hex confirmed) (\<lambda>confirmed'.
     if confirmed' \<noteq> s
     then Inl (ConfigContractError ''config store did not confirm the exact immutable snapshot'')
     else Inr confirmed')))"

definition load_config_snapshot ::
  "(py_bytes \<Rightarrow> string) \<Rightarrow> (config_snapshot_key \<Rightarrow> config_snapshot res) \<Rightarrow> config_snapshot_key \<Rightarrow> config_snapshot res" where
  "load_config_snapshot sha256_hex store_load key =
     bindE (revalidate_snapshot_key key) (\<lambda>k.
     bindE (store_load k) (\<lambda>loaded.
     bindE (revalidate_snapshot sha256_hex loaded) (\<lambda>l.
     if cs_key l \<noteq> k then Inl (ConfigContractError ''config store returned a different snapshot revision'')
     else Inr l)))"

definition resolve_config ::
  "(py_bytes \<Rightarrow> string) \<Rightarrow> 'p slice_class \<Rightarrow> (config_snapshot \<Rightarrow> 'p config res) \<Rightarrow> config_snapshot \<Rightarrow> 'p config res" where
  "resolve_config sha256_hex C resolve snapshot =
     bindE (revalidate_snapshot sha256_hex snapshot) (\<lambda>s.
     bindE (resolve s) (\<lambda>resolved.
     bindE (revalidate_config sha256_hex C resolved) (\<lambda>r.
     if cfg_snapshot r \<noteq> s
     then Inl (ConfigContractError ''config resolver did not preserve the exact snapshot'')
     else Inr r)))"

definition recover_config ::
  "(py_bytes \<Rightarrow> string) \<Rightarrow> 'p slice_class \<Rightarrow> (config_snapshot_key \<Rightarrow> config_snapshot res) \<Rightarrow>
     (config_snapshot \<Rightarrow> 'p config res) \<Rightarrow> graph_run_state \<Rightarrow> 'p config res" where
  "recover_config sha256_hex C store_load resolve s =
     bindE (from_state s) (\<lambda>key.
     bindE (load_config_snapshot sha256_hex store_load key) (\<lambda>snapshot.
     bindE (resolve_config sha256_hex C resolve snapshot) (\<lambda>config.
     bindE (admit_state sha256_hex C config s) (\<lambda>_. Inr config))))"

end
