(* ===== verification/Config_Properties.thy ===== *)
theory Config_Properties
  imports Config_Snapshot Reducer_Sample
begin

text \<open>
  Correctness of Config snapshots: validity of keys, snapshots and complete Configs in
  declarative form, and exact characterisations of binding, loading and recovery.
\<close>

section \<open>Validity\<close>

definition wf_key :: "config_snapshot_key \<Rightarrow> bool" where
  "wf_key k \<longleftrightarrow> is_canonical_identity (ck_definition_id k) \<and> 1 \<le> ck_definition_version k \<and> 1 \<le> ck_revision k"

definition wf_snapshot :: "(py_bytes \<Rightarrow> string) \<Rightarrow> config_snapshot \<Rightarrow> bool" where
  "wf_snapshot sha s \<longleftrightarrow> wf_key (cs_key s) \<and> cs_payload s \<noteq> [] \<and> cs_digest s = sha (cs_payload s)"

definition wf_complete_config :: "(py_bytes \<Rightarrow> string) \<Rightarrow> 'p slice_class \<Rightarrow> 'p config \<Rightarrow> bool" where
  "wf_complete_config sha C c \<longleftrightarrow> wf_snapshot sha (cfg_snapshot c) \<and>
     (\<forall>p\<in>set (config_projections c). slice_post_init C p = Inr () \<and> slice_key C p = cs_key (cfg_snapshot c))"

lemma mk_ConfigSnapshotKey_ok [resE]:
  "mk_ConfigSnapshotKey d v r = Inr k \<longleftrightarrow> k = ConfigSnapshotKey d v r \<and> wf_key k"
  by (auto simp: mk_ConfigSnapshotKey_def wf_key_def)

lemma revalidate_snapshot_key_ok [resE]: "revalidate_snapshot_key k = Inr k' \<longleftrightarrow> k' = k \<and> wf_key k"
  by (cases k) (auto simp: revalidate_snapshot_key_def resE)

lemma mk_ConfigSnapshot_ok [resE]:
  "mk_ConfigSnapshot sha k p g = Inr s \<longleftrightarrow> s = ConfigSnapshot k p g \<and> wf_snapshot sha s"
  by (auto simp: mk_ConfigSnapshot_def wf_snapshot_def resE)

lemma revalidate_snapshot_ok [resE]: "revalidate_snapshot sha s = Inr t \<longleftrightarrow> t = s \<and> wf_snapshot sha s"
  by (cases s) (auto simp: revalidate_snapshot_def resE wf_snapshot_def)

lemma revalidate_config_slice_ok [resE]:
  "revalidate_config_slice C p f = Inr q \<longleftrightarrow> q = p \<and> slice_post_init C p = Inr ()"
  unfolding revalidate_config_slice_def
  by (subst catchE_raising) (auto simp: resE split: kernel_error.splits)

lemma config_post_init_ok [resE]: "config_post_init sha C c = Inr u \<longleftrightarrow> wf_complete_config sha C c"
  by (auto simp: config_post_init_def wf_complete_config_def resE wf_snapshot_def)

lemma require_config_ok [resE]: "require_config sha C c = Inr d \<longleftrightarrow> d = c \<and> wf_complete_config sha C c"
  by (auto simp: require_config_def resE)

lemma revalidate_config_ok [resE]: "revalidate_config sha C c = Inr d \<longleftrightarrow> d = c \<and> wf_complete_config sha C c"
  by (auto simp: revalidate_config_def resE)

lemma from_state_ok [resE]:
  "from_state s = Inr k \<longleftrightarrow> is_canonical_identity (gr_definition_id s) \<and> 1 \<le> gr_definition_version s \<and>
     gr_config_definition_id s = Some (ck_definition_id k) \<and> gr_config_definition_version s = Some (ck_definition_version k) \<and>
     gr_config_revision s = ck_revision k \<and> wf_key k"
  by (cases k) (auto simp: from_state_def resE split: option.splits)

lemma state_config_digest_ok [resE]:
  "state_config_digest s = Inr g \<longleftrightarrow> g = gr_config_digest s \<and> (\<forall>d. g = Some d \<longrightarrow> d \<noteq> [] \<and> d = py_strip d)"
  by (auto simp: state_config_digest_def split: option.splits)

definition state_admits :: "graph_run_state \<Rightarrow> config_snapshot \<Rightarrow> bool" where
  "state_admits s snap \<longleftrightarrow> is_canonical_identity (gr_definition_id s) \<and> 1 \<le> gr_definition_version s \<and>
     gr_config_definition_id s = Some (ck_definition_id (cs_key snap)) \<and>
     gr_config_definition_version s = Some (ck_definition_version (cs_key snap)) \<and>
     gr_config_revision s = ck_revision (cs_key snap) \<and>
     (\<forall>d. gr_config_digest s = Some d \<longrightarrow> d \<noteq> [] \<and> d = py_strip d \<and> d = cs_digest snap)"

lemma admit_state_ok [resE]:
  "admit_state sha C c s = Inr t \<longleftrightarrow> t = s \<and> wf_complete_config sha C c \<and> state_admits s (cfg_snapshot c)"
proof -
  have "wf_complete_config sha C c \<Longrightarrow> wf_key (cs_key (cfg_snapshot c))" by (simp add: wf_complete_config_def wf_snapshot_def)
  then show ?thesis by (cases "gr_config_digest s") (auto simp: admit_state_def resE state_admits_def)
qed

lemma load_config_snapshot_ok [resE]:
  "load_config_snapshot sha load k = Inr s \<longleftrightarrow> wf_key k \<and> load k = Inr s \<and> wf_snapshot sha s \<and> cs_key s = k"
  by (auto simp: load_config_snapshot_def resE)

lemma resolve_config_ok [resE]:
  "resolve_config sha C resolve s = Inr c \<longleftrightarrow> wf_snapshot sha s \<and> resolve s = Inr c \<and> wf_complete_config sha C c \<and> cfg_snapshot c = s"
  by (auto simp: resolve_config_def resE)

lemma config_bind_ok [resE]:
  "config_bind sha C D c select = Inr (Some q) \<longleftrightarrow>
     wf_complete_config sha C c \<and> select c = Inr (Some q) \<and> slice_post_init D q = Inr () \<and> slice_key D q = cs_key (cfg_snapshot c)"
proof -
  have "wf_complete_config sha C c \<Longrightarrow> wf_key (cs_key (cfg_snapshot c))" by (simp add: wf_complete_config_def wf_snapshot_def)
  then show ?thesis by (auto simp: config_bind_def resE split: option.splits)
qed

section \<open>Properties\<close>

text \<open>
  C31. Recovering a Config from a graph state succeeds exactly when the store holds, under the
  state's own Config identity and revision, an intact snapshot (its digest is that of its
  payload), the resolver turns it into a complete valid Config of that very snapshot, and the
  state's digest, when it has one, is the snapshot's; the result is that Config.
\<close>

theorem recover_config_exact:
  "recover_config sha C load resolve s = Inr c \<longleftrightarrow>
     state_admits s (cfg_snapshot c) \<and> load (cs_key (cfg_snapshot c)) = Inr (cfg_snapshot c) \<and>
     resolve (cfg_snapshot c) = Inr c \<and> wf_complete_config sha C c"
proof
  assume "recover_config sha C load resolve s = Inr c"
  then show "state_admits s (cfg_snapshot c) \<and> load (cs_key (cfg_snapshot c)) = Inr (cfg_snapshot c) \<and>
     resolve (cfg_snapshot c) = Inr c \<and> wf_complete_config sha C c"
    by (auto simp: recover_config_def resE)
next
  assume a: "state_admits s (cfg_snapshot c) \<and> load (cs_key (cfg_snapshot c)) = Inr (cfg_snapshot c) \<and>
     resolve (cfg_snapshot c) = Inr c \<and> wf_complete_config sha C c"
  then have w: "wf_snapshot sha (cfg_snapshot c)" "wf_key (cs_key (cfg_snapshot c))" by (simp_all add: wf_complete_config_def wf_snapshot_def)
  then have "from_state s = Inr (cs_key (cfg_snapshot c))" using a by (simp add: resE state_admits_def)
  moreover have "load_config_snapshot sha load (cs_key (cfg_snapshot c)) = Inr (cfg_snapshot c)" using a w by (simp add: resE)
  moreover have "resolve_config sha C resolve (cfg_snapshot c) = Inr c" using a w by (simp add: resE)
  moreover have "admit_state sha C c s = Inr s" using a by (simp add: resE)
  ultimately show "recover_config sha C load resolve s = Inr c" by (simp add: recover_config_def)
qed

end
