(* ===== verification/Failover_Contract.thy ===== *)
theory Failover_Contract
  imports Graph_Identity
begin

text \<open>
  \<open>mote_kernel/failover/contract.py\<close> and \<open>plan.py\<close>: failure evidence, Port outcomes,
  preparation actions, retry budgets and timing, profiles and their resolution into a plan,
  and the durable retry context. Timing values are finite Python numbers; the only arithmetic
  the failover code does on them (doubling, minimum, maximum) is exact, so they are rationals.
\<close>

section \<open>Failure evidence\<close>

datatype failure_class =
    RATE_LIMITED | AUTH_REJECTED | SERVICE_UNAVAILABLE | INVALID_REQUEST | REQUEST_TIMEOUT | NO_RESPONSE
  | UNKNOWN_OUTCOME | POLICY_DENIED

datatype failure_strategy =
    WAIT | TRANSFORM_REQUEST | REFRESH_CREDENTIAL | ROTATE_CREDENTIAL | SWITCH_ENDPOINT | RETURN_TO_MODEL
  | ABORT_OPERATION

definition safe_text :: "string \<Rightarrow> nat \<Rightarrow> bool" where
  "safe_text v n \<longleftrightarrow> v \<noteq> [] \<and> v = py_strip v \<and> CHR 0x0A \<notin> set v \<and> CHR 0x0D \<notin> set v \<and> length v \<le> n"

definition validate_error_hint :: "string option \<Rightarrow> unit res" where
  "validate_error_hint v =
     (case v of
        None \<Rightarrow> Inr ()
      | Some h \<Rightarrow> raise_unless (safe_text h 128)
          (FailoverContractError ''error_hint must be a safe, short, trimmed value''))"

datatype failure_signal = FailureSignal (sig_status_code: "int option") (sig_error_hint: "string option")

definition mk_FailureSignal :: "int option \<Rightarrow> string option \<Rightarrow> failure_signal res" where
  "mk_FailureSignal code hint =
     bindE (raise_if (case code of None \<Rightarrow> False | Some c \<Rightarrow> \<not> (100 \<le> c \<and> c \<le> 599))
       (FailoverContractError ''failure signal status_code must be an HTTP status code'')) (\<lambda>_.
     bindE (validate_error_hint hint) (\<lambda>_. Inr (FailureSignal code hint)))"

record failure_evidence =
  fe_category :: failure_class
  fe_status_code :: "int option"
  fe_error_hint :: "string option"
  fe_provider_code :: "string option"
  fe_message :: "string option"
  fe_retry_after_seconds :: "rat option"

definition evidence_post_init :: "failure_evidence \<Rightarrow> unit res" where
  "evidence_post_init e =
     bindE (mk_FailureSignal (fe_status_code e) (fe_error_hint e)) (\<lambda>_.
     bindE (raise_if (case fe_provider_code e of None \<Rightarrow> False | Some v \<Rightarrow> \<not> safe_text v 256)
       (FailoverContractError ''failure evidence provider_code must be a safe short value'')) (\<lambda>_.
     bindE (raise_if (case fe_message e of None \<Rightarrow> False | Some v \<Rightarrow> \<not> safe_text v 1024)
       (FailoverContractError ''failure evidence message must be a safe bounded value'')) (\<lambda>_.
     raise_if (case fe_retry_after_seconds e of None \<Rightarrow> False | Some r \<Rightarrow> r < 0)
       (FailoverContractError ''failure evidence retry_after_seconds must be finite and non-negative''))))"

definition evidence_signal :: "failure_evidence \<Rightarrow> failure_signal res" where
  "evidence_signal e = mk_FailureSignal (fe_status_code e) (fe_error_hint e)"

datatype ('r, 'c, 'h) port_outcome =
    Completed 'r
  | Rejected failure_evidence
  | InProgress 'c
  | Unknown "'h option" failure_evidence

datatype 't preparation_action =
    Wait rat
  | TransformRequest 't
  | RefreshCredential
  | RotateCredential
  | SwitchEndpoint

definition mk_Wait :: "rat \<Rightarrow> 't preparation_action res" where
  "mk_Wait d = (if d < 0 then Inl (FailoverContractError ''wait delay_seconds must be finite and non-negative'')
     else Inr (Wait d))"

section \<open>Budgets, timing and profiles\<close>

datatype operation_semantics = PURE | IDEMPOTENT | RECEIPT_BASED | NON_REPEATABLE

datatype binding_mode = INHERIT | OVERRIDE | DISABLED

record strategy_limit =
  sl_strategy :: failure_strategy
  sl_max_uses :: int

definition strategy_limit_post_init :: "strategy_limit \<Rightarrow> unit res" where
  "strategy_limit_post_init l =
     raise_if (sl_max_uses l < 0)
       (FailoverContractError ''strategy limit max_uses must be a non-negative integer'')"

record retry_budget =
  rb_max_wire_attempts :: int
  rb_hard_max_wire_attempts :: int
  rb_default_max_strategy_uses :: int
  rb_strategy_limits :: "strategy_limit list"

definition budget_post_init :: "retry_budget \<Rightarrow> unit res" where
  "budget_post_init b =
     bindE (raise_if (rb_max_wire_attempts b < 1)
       (FailoverContractError ''max_wire_attempts must be a positive integer'')) (\<lambda>_.
     bindE (raise_if (rb_hard_max_wire_attempts b < 1)
       (FailoverContractError ''hard_max_wire_attempts must be a positive integer'')) (\<lambda>_.
     bindE (raise_if (rb_max_wire_attempts b > rb_hard_max_wire_attempts b)
       (FailoverContractError ''max_wire_attempts cannot exceed hard_max_wire_attempts'')) (\<lambda>_.
     bindE (raise_if (rb_default_max_strategy_uses b < 0)
       (FailoverContractError ''default_max_strategy_uses must be a non-negative integer'')) (\<lambda>_.
     raise_unless (distinct (map sl_strategy (rb_strategy_limits b)))
       (FailoverContractError ''strategy_limits cannot contain duplicate strategies'')))))"

definition max_uses_for :: "retry_budget \<Rightarrow> failure_strategy \<Rightarrow> int" where
  "max_uses_for b st =
     (case find (\<lambda>l. sl_strategy l = st) (rb_strategy_limits b) of
        Some l \<Rightarrow> sl_max_uses l
      | None \<Rightarrow> rb_default_max_strategy_uses b)"

record retry_timing =
  rt_base_backoff_seconds :: rat
  rt_max_backoff_seconds :: rat
  rt_attempt_timeout_seconds :: rat
  rt_total_deadline_seconds :: rat

definition timing_post_init :: "retry_timing \<Rightarrow> unit res" where
  "timing_post_init t =
     bindE (raise_if (\<exists>v\<in>set [rt_base_backoff_seconds t, rt_max_backoff_seconds t, rt_attempt_timeout_seconds t,
           rt_total_deadline_seconds t]. v < 0)
       (FailoverContractError ''retry timing values must be finite and non-negative'')) (\<lambda>_.
     bindE (raise_if (rt_max_backoff_seconds t < rt_base_backoff_seconds t)
       (FailoverContractError ''max_backoff_seconds cannot be less than base_backoff_seconds'')) (\<lambda>_.
     bindE (raise_if (rt_attempt_timeout_seconds t \<le> 0 \<or> rt_total_deadline_seconds t \<le> 0)
       (FailoverContractError ''attempt timeout and total deadline must be positive'')) (\<lambda>_.
     raise_if (rt_attempt_timeout_seconds t > rt_total_deadline_seconds t)
       (FailoverContractError ''attempt timeout cannot exceed total deadline''))))"

record 't failover_profile =
  fp_profile_id :: string
  fp_budget :: retry_budget
  fp_timing :: retry_timing
  fp_semantics :: operation_semantics
  fp_request_transform :: "'t option"

definition profile_post_init :: "'t failover_profile \<Rightarrow> unit res" where
  "profile_post_init p =
     raise_unless (is_canonical_identity (fp_profile_id p))
       (FailoverContractError ''failover profile_id must be canonical'')"

record 't profile_override =
  po_budget :: "retry_budget option"
  po_timing :: "retry_timing option"
  po_semantics :: "operation_semantics option"
  po_request_transform :: "'t option"

record 't port_binding =
  pb_mode :: binding_mode
  pb_override :: "'t profile_override option"

definition port_binding_post_init :: "'t port_binding \<Rightarrow> unit res" where
  "port_binding_post_init b =
     (if pb_mode b = OVERRIDE
      then raise_if (pb_override b = None)
        (FailoverContractError ''override binding requires FailoverProfileOverride'')
      else raise_if (pb_override b \<noteq> None)
        (FailoverContractError ''inherit and disabled bindings cannot carry an override''))"

record 't failover_config_snapshot =
  fs_revision :: int
  fs_default_profile :: "'t failover_profile"

definition config_snapshot_post_init :: "'t failover_config_snapshot \<Rightarrow> unit res" where
  "config_snapshot_post_init s =
     raise_if (fs_revision s < 1) (FailoverContractError ''failover config revision must be a positive integer'')"

record 't failover_plan =
  pl_plan_revision :: int
  pl_port_id :: string
  pl_profile :: "'t failover_profile"

definition mk_FailoverPlan :: "int \<Rightarrow> string \<Rightarrow> 't failover_profile \<Rightarrow> 't failover_plan res" where
  "mk_FailoverPlan revision port_id profile =
     (if revision < 1 then Inl (FailoverContractError ''failover plan revision must be a positive integer'')
      else if \<not> is_canonical_identity port_id
      then Inl (FailoverContractError ''failover plan port_id must be canonical'')
      else Inr \<lparr>pl_plan_revision = revision, pl_port_id = port_id, pl_profile = profile\<rparr>)"

definition or_else :: "'a option \<Rightarrow> 'a \<Rightarrow> 'a" where
  "or_else x d = (case x of Some v \<Rightarrow> v | None \<Rightarrow> d)"

definition merge_profile :: "'t failover_profile \<Rightarrow> 't profile_override option \<Rightarrow> 't failover_profile res" where
  "merge_profile dflt override =
     (case override of
        None \<Rightarrow> Inr dflt
      | Some ov \<Rightarrow>
          let p = \<lparr>fp_profile_id = fp_profile_id dflt,
                   fp_budget = or_else (po_budget ov) (fp_budget dflt),
                   fp_timing = or_else (po_timing ov) (fp_timing dflt),
                   fp_semantics = or_else (po_semantics ov) (fp_semantics dflt),
                   fp_request_transform =
                     (if po_request_transform ov \<noteq> None then po_request_transform ov else fp_request_transform dflt)\<rparr>
          in bindE (profile_post_init p) (\<lambda>_. Inr p))"

definition resolve_plan ::
  "'t failover_config_snapshot \<Rightarrow> string \<Rightarrow> 't port_binding \<Rightarrow> 't failover_plan option res" where
  "resolve_plan snapshot port_id binding =
     (if \<not> is_canonical_identity port_id
      then Inl (FailoverContractError ''plan resolution port_id must be canonical'')
      else if pb_mode binding = DISABLED then Inr None
      else bindE (merge_profile (fs_default_profile snapshot) (pb_override binding)) (\<lambda>profile.
           bindE (mk_FailoverPlan (fs_revision snapshot) port_id profile) (\<lambda>plan. Inr (Some plan))))"

section \<open>The retry context\<close>

record strategy_usage =
  su_strategy :: failure_strategy
  su_used :: int

definition mk_StrategyUsage :: "failure_strategy \<Rightarrow> int \<Rightarrow> strategy_usage res" where
  "mk_StrategyUsage st n =
     (if n < 0 then Inl (FailoverContractError ''strategy usage must be a non-negative integer'')
      else Inr \<lparr>su_strategy = st, su_used = n\<rparr>)"

record py_datetime =
  dt_timestamp :: rat
  dt_tz_aware :: bool

record retry_context =
  rc_operation_id :: string
  rc_plan_revision :: int
  rc_request_version :: int
  rc_attempt_ordinal :: int
  rc_endpoint_cursor :: int
  rc_credential_cursor :: int
  rc_strategy_usages :: "strategy_usage list"
  rc_last_failure :: "failure_class option"
  rc_last_signal :: "failure_signal option"
  rc_last_strategy :: "failure_strategy option"
  rc_wait_until :: "py_datetime option"

definition retry_context_post_init :: "retry_context \<Rightarrow> retry_context res" where
  "retry_context_post_init c =
     bindE (raise_unless (is_canonical_identity (rc_operation_id c))
       (FailoverContractError ''retry context operation_id must be canonical'')) (\<lambda>_.
     bindE (raise_if (rc_plan_revision c < 1)
       (FailoverContractError ''retry context plan_revision must be a positive integer'')) (\<lambda>_.
     bindE (raise_if (\<exists>n\<in>set [rc_request_version c, rc_attempt_ordinal c, rc_endpoint_cursor c, rc_credential_cursor c]. n < 0)
       (FailoverContractError ''retry context cursors must be non-negative integers'')) (\<lambda>_.
     bindE (raise_if (rc_request_version c < 1)
       (FailoverContractError ''retry context request_version must be positive'')) (\<lambda>_.
     bindE (raise_unless (distinct (map su_strategy (rc_strategy_usages c)))
       (FailoverContractError ''retry context strategy_usages cannot contain duplicates'')) (\<lambda>_.
     bindE (raise_if (case rc_wait_until c of None \<Rightarrow> False | Some d \<Rightarrow> \<not> dt_tz_aware d)
       (FailoverContractError ''retry context wait_until must be timezone-aware'')) (\<lambda>_.
     Inr c))))))"

definition new_retry_context :: "string \<Rightarrow> int \<Rightarrow> retry_context res" where
  "new_retry_context operation_id plan_revision =
     retry_context_post_init
       \<lparr>rc_operation_id = operation_id, rc_plan_revision = plan_revision, rc_request_version = 1,
        rc_attempt_ordinal = 0, rc_endpoint_cursor = 0, rc_credential_cursor = 0, rc_strategy_usages = [],
        rc_last_failure = None, rc_last_signal = None, rc_last_strategy = None, rc_wait_until = None\<rparr>"

definition uses_for :: "retry_context \<Rightarrow> failure_strategy \<Rightarrow> int" where
  "uses_for c st =
     (case find (\<lambda>u. su_strategy u = st) (rc_strategy_usages c) of Some u \<Rightarrow> su_used u | None \<Rightarrow> 0)"

definition with_strategy_use :: "retry_context \<Rightarrow> failure_strategy \<Rightarrow> retry_context res" where
  "with_strategy_use c st =
     (let current = uses_for c st;
          usages = filter (\<lambda>u. su_strategy u \<noteq> st) (rc_strategy_usages c)
      in bindE (mk_StrategyUsage st (current + 1)) (\<lambda>u.
         retry_context_post_init (c\<lparr>rc_strategy_usages := usages @ [u], rc_last_strategy := Some st\<rparr>)))"

section \<open>Lemmas\<close>

lemma mk_FailureSignal_ok [resE]:
  "mk_FailureSignal code hint = Inr s \<longleftrightarrow> s = FailureSignal code hint \<and>
     (\<forall>c. code = Some c \<longrightarrow> 100 \<le> c \<and> c \<le> 599) \<and> (\<forall>h. hint = Some h \<longrightarrow> safe_text h 128)"
  by (auto simp: mk_FailureSignal_def validate_error_hint_def resE split: option.splits)

definition wf_context :: "retry_context \<Rightarrow> bool" where
  "wf_context c \<longleftrightarrow> is_canonical_identity (rc_operation_id c) \<and> 1 \<le> rc_plan_revision c \<and> 1 \<le> rc_request_version c \<and>
     0 \<le> rc_attempt_ordinal c \<and> 0 \<le> rc_endpoint_cursor c \<and> 0 \<le> rc_credential_cursor c \<and>
     distinct (map su_strategy (rc_strategy_usages c)) \<and> (\<forall>d. rc_wait_until c = Some d \<longrightarrow> dt_tz_aware d)"

lemma retry_context_post_init_ok [resE]: "retry_context_post_init c = Inr d \<longleftrightarrow> d = c \<and> wf_context c"
  by (auto simp: retry_context_post_init_def wf_context_def resE split: option.splits)

definition wf_usages :: "retry_context \<Rightarrow> bool" where
  "wf_usages c \<longleftrightarrow> (\<forall>u\<in>set (rc_strategy_usages c). 0 \<le> su_used u)"

lemma uses_for_nonneg: "wf_usages c \<Longrightarrow> 0 \<le> uses_for c st"
  by (auto simp: uses_for_def wf_usages_def find_Some_iff split: option.splits)

lemma find_append: "find P (xs @ ys) = (case find P xs of Some x \<Rightarrow> Some x | None \<Rightarrow> find P ys)"
  by (induction xs) auto

lemma find_filter_neq:
  "find (\<lambda>u. su_strategy u = st') (filter (\<lambda>u. su_strategy u \<noteq> st) us) =
     (if st' = st then None else find (\<lambda>u. su_strategy u = st') us)"
  by (induction us) auto

lemma with_strategy_use_total:
  assumes w: "wf_context c" and u: "wf_usages c"
  obtains d where "with_strategy_use c st = Inr d" "wf_context d" "wf_usages d"
    "d = c\<lparr>rc_strategy_usages := filter (\<lambda>u. su_strategy u \<noteq> st) (rc_strategy_usages c) @
       [\<lparr>su_strategy = st, su_used = uses_for c st + 1\<rparr>], rc_last_strategy := Some st\<rparr>"
    "\<And>st'. uses_for d st' = uses_for c st' + (if st' = st then 1 else 0)"
proof -
  let ?d = "c\<lparr>rc_strategy_usages := filter (\<lambda>u. su_strategy u \<noteq> st) (rc_strategy_usages c) @
       [\<lparr>su_strategy = st, su_used = uses_for c st + 1\<rparr>], rc_last_strategy := Some st\<rparr>"
  have n: "0 \<le> uses_for c st" by (rule uses_for_nonneg [OF u])
  have "distinct (map su_strategy (filter P xs))" if "distinct (map su_strategy xs)" for P xs
    using that by (induction xs) auto
  then have wd: "wf_context ?d" using w by (auto simp: wf_context_def)
  moreover have "with_strategy_use c st = Inr ?d"
    using n wd by (simp add: with_strategy_use_def mk_StrategyUsage_def retry_context_post_init_ok)
  moreover have "wf_usages ?d" using u n by (auto simp: wf_usages_def)
  moreover have "uses_for ?d st' = uses_for c st' + (if st' = st then 1 else 0)" for st'
    by (auto simp: uses_for_def find_append find_filter_neq split: option.splits)
  ultimately show thesis using that by blast
qed

end
