(* ===== verification/Failover_Policy.thy ===== *)
theory Failover_Policy
  imports Failover_Contract
begin

text \<open>
  \<open>mote_kernel/failover/policy.py\<close>: the fixed table of failure signals, the back-off, and the
  decision \<open>observe_and_route\<close> takes on one Port outcome. The lemmas show that a decision is
  always well formed, what it is on every branch, and how the back-off is bounded.
\<close>

section \<open>Decisions\<close>

datatype observation_route = RouteCompleted | RoutePrepare | RouteReturnToModel | RouteAbort

record 't failover_decision =
  fd_route :: observation_route
  fd_strategy :: "failure_strategy option"
  fd_preparation :: "'t preparation_action option"
  fd_evidence :: "failure_evidence option"
  fd_budget_exhausted :: bool

definition decision_post_init :: "'t failover_decision \<Rightarrow> 't failover_decision res" where
  "decision_post_init d =
     (if fd_budget_exhausted d \<and> fd_route d \<noteq> RouteReturnToModel
      then Inl (FailoverContractError ''an exhausted budget must return to the model'')
      else (case fd_route d of
          RouteCompleted \<Rightarrow>
            (if fd_strategy d \<noteq> None \<or> \<not> Option.is_none (fd_preparation d) \<or> fd_evidence d \<noteq> None
             then Inl (FailoverContractError ''completed decisions cannot carry failure data'') else Inr d)
        | RoutePrepare \<Rightarrow>
            (if fd_strategy d \<notin> Some ` {WAIT, TRANSFORM_REQUEST, REFRESH_CREDENTIAL, ROTATE_CREDENTIAL, SWITCH_ENDPOINT}
             then Inl (FailoverContractError ''prepare decisions require a preparation strategy'')
             else if Option.is_none (fd_preparation d)
             then Inl (FailoverContractError ''prepare decisions require a preparation action'') else Inr d)
        | RouteAbort \<Rightarrow>
            (if fd_strategy d \<noteq> Some ABORT_OPERATION
             then Inl (FailoverContractError ''abort decisions require the abort strategy'')
             else if \<not> Option.is_none (fd_preparation d)
             then Inl (FailoverContractError ''abort decisions cannot carry preparation'') else Inr d)
        | RouteReturnToModel \<Rightarrow>
            (if \<not> Option.is_none (fd_preparation d)
             then Inl (FailoverContractError ''terminal model decisions cannot carry preparation'') else Inr d)))"

definition FailoverDecision ::
  "observation_route \<Rightarrow> failure_strategy option \<Rightarrow> 't preparation_action option \<Rightarrow> failure_evidence option \<Rightarrow> bool
     \<Rightarrow> 't failover_decision res" where
  "FailoverDecision route strategy preparation evidence exhausted =
     decision_post_init \<lparr>fd_route = route, fd_strategy = strategy, fd_preparation = preparation, fd_evidence = evidence,
       fd_budget_exhausted = exhausted\<rparr>"

section \<open>The fixed table\<close>

definition fixed_rules :: "(failure_signal \<times> failure_strategy) list" where
  "fixed_rules =
    [(FailureSignal (Some 429) (Some ''rate_limited''), WAIT),
     (FailureSignal (Some 429) (Some ''quota_exceeded''), WAIT),
     (FailureSignal (Some 401) (Some ''token_expired''), REFRESH_CREDENTIAL),
     (FailureSignal (Some 401) (Some ''invalid_credential''), ROTATE_CREDENTIAL),
     (FailureSignal (Some 401) (Some ''invalid_api_key''), ROTATE_CREDENTIAL),
     (FailureSignal (Some 503) (Some ''service_unavailable''), SWITCH_ENDPOINT),
     (FailureSignal (Some 503) (Some ''overloaded''), SWITCH_ENDPOINT),
     (FailureSignal (Some 408) (Some ''request_timeout''), WAIT),
     (FailureSignal (Some 504) (Some ''request_timeout''), WAIT),
     (FailureSignal (Some 400) (Some ''bad_payload''), TRANSFORM_REQUEST),
     (FailureSignal (Some 403) (Some ''forbidden''), RETURN_TO_MODEL),
     (FailureSignal (Some 409) (Some ''conflict''), ABORT_OPERATION)]"

definition fixed_strategy :: "failure_evidence \<Rightarrow> failure_strategy option res" where
  "fixed_strategy e = bindE (evidence_signal e) (\<lambda>sig. Inr (map_of fixed_rules sig))"

section \<open>Back-off and routing\<close>

definition backoff_seconds :: "'t failover_plan \<Rightarrow> retry_context \<Rightarrow> failure_evidence \<Rightarrow> rat" where
  "backoff_seconds plan c e =
     (let timing = fp_timing (pl_profile plan);
          doubled = ((\<lambda>d. min (rt_max_backoff_seconds timing) (d * 2)) ^^ nat (min (rc_attempt_ordinal c) 1024))
            (rt_base_backoff_seconds timing);
          delay = min (rt_max_backoff_seconds timing) doubled
      in case fe_retry_after_seconds e of None \<Rightarrow> delay | Some r \<Rightarrow> max delay r)"

definition preparation_for ::
  "failure_strategy \<Rightarrow> failure_evidence \<Rightarrow> 't failover_plan \<Rightarrow> retry_context \<Rightarrow> 't preparation_action res" where
  "preparation_for strategy e plan c =
     (if strategy = WAIT then mk_Wait (backoff_seconds plan c e)
      else if strategy = REFRESH_CREDENTIAL then Inr RefreshCredential
      else if strategy = ROTATE_CREDENTIAL then Inr RotateCredential
      else Inr SwitchEndpoint)"

definition route_rejected ::
  "failure_evidence \<Rightarrow> 't failover_plan \<Rightarrow> retry_context \<Rightarrow> 't failover_decision res" where
  "route_rejected e plan c =
     (if rc_plan_revision c \<noteq> pl_plan_revision plan
      then Inl (FailoverContractError ''rejected routing requires the context's captured plan revision'')
      else bindE (fixed_strategy e) (\<lambda>choice.
        case choice of
          None \<Rightarrow> FailoverDecision RouteReturnToModel None None (Some e) False
        | Some strategy \<Rightarrow>
            if strategy = RETURN_TO_MODEL then FailoverDecision RouteReturnToModel (Some strategy) None (Some e) False
            else if strategy = ABORT_OPERATION
            then FailoverDecision RouteAbort (Some ABORT_OPERATION) None (Some e) False
            else let budget = fp_budget (pl_profile plan) in
              if uses_for c strategy \<ge> max_uses_for budget strategy \<or>
                 rc_attempt_ordinal c \<ge> rb_max_wire_attempts budget - 1
              then FailoverDecision RouteReturnToModel (Some strategy) None (Some e) True
              else if strategy = TRANSFORM_REQUEST
              then (case fp_request_transform (pl_profile plan) of
                  None \<Rightarrow> FailoverDecision RouteReturnToModel (Some strategy) None (Some e) False
                | Some t \<Rightarrow> FailoverDecision RoutePrepare (Some strategy) (Some (TransformRequest t)) (Some e) False)
              else bindE (preparation_for strategy e plan c) (\<lambda>p.
                   FailoverDecision RoutePrepare (Some strategy) (Some p) (Some e) False)))"

definition observe_and_route ::
  "('r, 'c, 'h) port_outcome \<Rightarrow> 't failover_plan \<Rightarrow> retry_context \<Rightarrow> 't failover_decision res" where
  "observe_and_route outcome plan c =
     (if rc_plan_revision c \<noteq> pl_plan_revision plan
      then Inl (FailoverContractError ''observation requires the context's captured plan revision'')
      else (case outcome of
          Completed _ \<Rightarrow> FailoverDecision RouteCompleted None None None False
        | Rejected e \<Rightarrow> route_rejected e plan c
        | InProgress _ \<Rightarrow> FailoverDecision RouteReturnToModel None None None False
        | Unknown _ e \<Rightarrow> FailoverDecision RouteReturnToModel None None (Some e) False))"

section \<open>The back-off is bounded\<close>

definition wf_timing :: "retry_timing \<Rightarrow> bool" where
  "wf_timing t \<longleftrightarrow> 0 \<le> rt_base_backoff_seconds t \<and> rt_base_backoff_seconds t \<le> rt_max_backoff_seconds t \<and>
     0 < rt_attempt_timeout_seconds t \<and> rt_attempt_timeout_seconds t \<le> rt_total_deadline_seconds t"

lemma timing_post_init_ok [resE]: "timing_post_init t = Inr u \<longleftrightarrow> wf_timing t"
  by (auto simp: timing_post_init_def wf_timing_def resE)

definition doubling :: "rat \<Rightarrow> rat \<Rightarrow> nat \<Rightarrow> rat" where
  "doubling base cap n = min cap (base * 2 ^ n)"

lemma doubling_loop:
  assumes "0 \<le> base" "base \<le> cap"
  shows "((\<lambda>d. min cap (d * 2)) ^^ n) base = doubling base cap n"
proof (induction n)
  case 0
  then show ?case using assms by (simp add: doubling_def)
next
  case (Suc n)
  have "min cap (min cap x * 2) = min cap (x * 2)" if "0 \<le> x" for x
    using that assms by (auto simp: min_def)
  moreover have "0 \<le> base * 2 ^ n" using assms by simp
  ultimately show ?case using Suc by (simp add: doubling_def mult.assoc mult.commute)
qed

lemma backoff_seconds_closed:
  assumes "wf_timing (fp_timing (pl_profile plan))"
  shows "backoff_seconds plan c e =
    (let t = fp_timing (pl_profile plan);
         d = min (rt_max_backoff_seconds t) (rt_base_backoff_seconds t * 2 ^ nat (min (rc_attempt_ordinal c) 1024))
     in case fe_retry_after_seconds e of None \<Rightarrow> d | Some r \<Rightarrow> max d r)"
  using assms by (simp add: backoff_seconds_def doubling_loop wf_timing_def doubling_def Let_def cong: option.case_cong)

lemma backoff_seconds_nonneg:
  "wf_timing (fp_timing (pl_profile plan)) \<Longrightarrow> 0 \<le> backoff_seconds plan c e"
  by (simp add: backoff_seconds_closed wf_timing_def Let_def le_max_iff_disj split: option.splits)

section \<open>Decisions are well formed\<close>

definition wf_failure_evidence :: "failure_evidence \<Rightarrow> bool" where
  "wf_failure_evidence e \<longleftrightarrow> evidence_post_init e = Inr ()"

lemma evidence_signal_ok: "wf_failure_evidence e \<Longrightarrow> evidence_signal e = Inr (FailureSignal (fe_status_code e) (fe_error_hint e))"
  by (auto simp: wf_failure_evidence_def evidence_post_init_def evidence_signal_def resE)

lemma fixed_strategy_ok:
  "wf_failure_evidence e \<Longrightarrow> fixed_strategy e = Inr (map_of fixed_rules (FailureSignal (fe_status_code e) (fe_error_hint e)))"
  by (simp add: fixed_strategy_def evidence_signal_ok)

definition preparing :: "failure_strategy \<Rightarrow> bool" where
  "preparing st \<longleftrightarrow> st \<noteq> RETURN_TO_MODEL \<and> st \<noteq> ABORT_OPERATION"

text \<open>What the policy is for one rejected outcome, without the checks of the decision object.\<close>

definition action_for ::
  "failure_strategy \<Rightarrow> failure_evidence \<Rightarrow> 't failover_plan \<Rightarrow> retry_context \<Rightarrow> 't preparation_action option" where
  "action_for st e plan c =
     (case st of
        WAIT \<Rightarrow> Some (Wait (backoff_seconds plan c e))
      | TRANSFORM_REQUEST \<Rightarrow> map_option TransformRequest (fp_request_transform (pl_profile plan))
      | REFRESH_CREDENTIAL \<Rightarrow> Some RefreshCredential
      | ROTATE_CREDENTIAL \<Rightarrow> Some RotateCredential
      | SWITCH_ENDPOINT \<Rightarrow> Some SwitchEndpoint
      | _ \<Rightarrow> None)"

definition within_budget :: "failure_strategy \<Rightarrow> 't failover_plan \<Rightarrow> retry_context \<Rightarrow> bool" where
  "within_budget st plan c \<longleftrightarrow> uses_for c st < max_uses_for (fp_budget (pl_profile plan)) st \<and>
     rc_attempt_ordinal c < rb_max_wire_attempts (fp_budget (pl_profile plan)) - 1"

definition rejected_policy :: "failure_evidence \<Rightarrow> 't failover_plan \<Rightarrow> retry_context \<Rightarrow> 't failover_decision" where
  "rejected_policy e plan c =
     (let final = \<lparr>fd_route = RouteReturnToModel, fd_strategy = None, fd_preparation = None, fd_evidence = Some e,
            fd_budget_exhausted = False\<rparr>
      in case map_of fixed_rules (FailureSignal (fe_status_code e) (fe_error_hint e)) of
          None \<Rightarrow> final
        | Some st \<Rightarrow>
            if st = ABORT_OPERATION then final\<lparr>fd_route := RouteAbort, fd_strategy := Some st\<rparr>
            else if preparing st \<and> \<not> within_budget st plan c
            then final\<lparr>fd_strategy := Some st, fd_budget_exhausted := True\<rparr>
            else (case action_for st e plan c of
                None \<Rightarrow> final\<lparr>fd_strategy := Some st\<rparr>
              | Some a \<Rightarrow> final\<lparr>fd_route := RoutePrepare, fd_strategy := Some st, fd_preparation := Some a\<rparr>))"

lemma route_rejected_policy:
  assumes "wf_failure_evidence e" "wf_timing (fp_timing (pl_profile plan))" "rc_plan_revision c = pl_plan_revision plan"
  shows "route_rejected e plan c = Inr (rejected_policy e plan c)"
proof (cases "map_of fixed_rules (FailureSignal (fe_status_code e) (fe_error_hint e))")
  case None
  then show ?thesis using assms
    by (simp add: route_rejected_def rejected_policy_def fixed_strategy_ok FailoverDecision_def decision_post_init_def)
next
  case (Some st)
  have b: "\<not> backoff_seconds plan c e < 0" using backoff_seconds_nonneg [OF assms(2), of c e] by simp
  show ?thesis using Some assms b
    by (cases st) (auto simp: route_rejected_def rejected_policy_def fixed_strategy_ok FailoverDecision_def
        decision_post_init_def within_budget_def preparing_def action_for_def preparation_for_def mk_Wait_def Let_def
        not_le split: option.splits)
qed

definition observed_policy ::
  "('r, 'c, 'h) port_outcome \<Rightarrow> 't failover_plan \<Rightarrow> retry_context \<Rightarrow> 't failover_decision" where
  "observed_policy outcome plan c =
     (let plain = \<lparr>fd_route = RouteReturnToModel, fd_strategy = None, fd_preparation = None, fd_evidence = None,
            fd_budget_exhausted = False\<rparr>
      in case outcome of
          Completed _ \<Rightarrow> plain\<lparr>fd_route := RouteCompleted\<rparr>
        | Rejected e \<Rightarrow> rejected_policy e plan c
        | InProgress _ \<Rightarrow> plain
        | Unknown _ e \<Rightarrow> plain\<lparr>fd_evidence := Some e\<rparr>)"

definition wf_outcome :: "('r, 'c, 'h) port_outcome \<Rightarrow> bool" where
  "wf_outcome out \<longleftrightarrow> (case out of Rejected e \<Rightarrow> wf_failure_evidence e | Unknown _ e \<Rightarrow> wf_failure_evidence e | _ \<Rightarrow> True)"

lemma observe_and_route_policy:
  assumes "wf_outcome out" "wf_timing (fp_timing (pl_profile plan))" "rc_plan_revision c = pl_plan_revision plan"
  shows "observe_and_route out plan c = Inr (observed_policy out plan c)"
  using assms
  by (cases out) (simp_all add: observe_and_route_def observed_policy_def route_rejected_policy wf_outcome_def
      FailoverDecision_def decision_post_init_def Let_def)

lemma rejected_policy_prepare:
  assumes "fd_route (rejected_policy e plan c) = RoutePrepare"
  obtains st a where "map_of fixed_rules (FailureSignal (fe_status_code e) (fe_error_hint e)) = Some st"
    "fd_strategy (rejected_policy e plan c) = Some st" "fd_preparation (rejected_policy e plan c) = Some a"
    "action_for st e plan c = Some a" "within_budget st plan c" "preparing st"
  using assms
  by (auto simp: rejected_policy_def Let_def action_for_def preparing_def
      split: option.splits if_splits failure_strategy.splits)

lemma rejected_policy_not_completed [simp]: "fd_route (rejected_policy e plan c) \<noteq> RouteCompleted"
  by (auto simp: rejected_policy_def Let_def split: option.splits)

lemma observed_policy_completed: "fd_route (observed_policy out plan c) = RouteCompleted \<longleftrightarrow> (\<exists>r. out = Completed r)"
  by (cases out) (auto simp: observed_policy_def)

lemma observed_policy_prepare:
  assumes "fd_route (observed_policy out plan c) = RoutePrepare"
  obtains e st a where "out = Rejected e"
    "map_of fixed_rules (FailureSignal (fe_status_code e) (fe_error_hint e)) = Some st"
    "fd_strategy (observed_policy out plan c) = Some st" "fd_preparation (observed_policy out plan c) = Some a"
    "action_for st e plan c = Some a" "within_budget st plan c" "preparing st"
  using assms by (cases out) (auto simp: observed_policy_def elim: rejected_policy_prepare)

text \<open>Whatever the plan and the evidence are, a decision to prepare is taken within the budget.\<close>

lemma decision_post_init_eq: "decision_post_init d = Inr d' \<Longrightarrow> d' = d"
  by (auto simp: decision_post_init_def split: if_splits observation_route.splits)

lemma FailoverDecision_eq:
  "FailoverDecision rt st p e x = Inr d \<Longrightarrow>
     d = \<lparr>fd_route = rt, fd_strategy = st, fd_preparation = p, fd_evidence = e, fd_budget_exhausted = x\<rparr>"
  by (auto simp: FailoverDecision_def dest: decision_post_init_eq)

lemma route_rejected_prepare:
  assumes "route_rejected e plan c = Inr d" and "fd_route d = RoutePrepare"
  obtains st a where "fd_strategy d = Some st" "fd_preparation d = Some a" "within_budget st plan c" "preparing st"
    "(\<exists>t. a = TransformRequest t) = (st = TRANSFORM_REQUEST)" "(a = SwitchEndpoint) = (st = SWITCH_ENDPOINT)"
    "(a = RotateCredential) = (st = ROTATE_CREDENTIAL)"
proof -
  from assms(1) obtain choice where ch: "fixed_strategy e = Inr choice"
    by (cases "fixed_strategy e") (simp_all add: route_rejected_def split: if_splits)
  have "choice \<noteq> None"
  proof
    assume "choice = None"
    with assms ch show False by (auto simp: route_rejected_def split: if_splits dest!: FailoverDecision_eq)
  qed
  then obtain st where some: "choice = Some st" by blast
  have st: "fixed_strategy e = Inr (Some st)" "st \<noteq> RETURN_TO_MODEL" "st \<noteq> ABORT_OPERATION"
    using assms ch some by (auto simp: route_rejected_def split: if_splits dest!: FailoverDecision_eq)
  have w: "within_budget st plan c"
    using assms st by (auto simp: route_rejected_def Let_def within_budget_def not_le split: if_splits dest!: FailoverDecision_eq)
  have "\<exists>a. d = \<lparr>fd_route = RoutePrepare, fd_strategy = Some st, fd_preparation = Some a, fd_evidence = Some e,
      fd_budget_exhausted = False\<rparr> \<and> (if st = TRANSFORM_REQUEST then \<exists>t. a = TransformRequest t
      else preparation_for st e plan c = Inr a)"
    using assms st w by (auto simp: route_rejected_def Let_def within_budget_def resE
        split: if_splits option.splits dest!: FailoverDecision_eq)
  then obtain a where a: "fd_strategy d = Some st" "fd_preparation d = Some a"
    "if st = TRANSFORM_REQUEST then \<exists>t. a = TransformRequest t else preparation_for st e plan c = Inr a" by auto
  from a(3) st(2,3) have "(\<exists>t. a = TransformRequest t) = (st = TRANSFORM_REQUEST)" "(a = SwitchEndpoint) = (st = SWITCH_ENDPOINT)"
    "(a = RotateCredential) = (st = ROTATE_CREDENTIAL)"
    by (cases st; force simp: preparation_for_def mk_Wait_def split: if_splits)+
  with a(1,2) w st(2,3) show thesis by (intro that [of st a]) (simp_all add: preparing_def)
qed

lemma observe_and_route_prepare:
  assumes "observe_and_route out plan c = Inr d" and "fd_route d = RoutePrepare"
  obtains e st a where "out = Rejected e" "fd_strategy d = Some st" "fd_preparation d = Some a" "within_budget st plan c"
    "preparing st" "(\<exists>t. a = TransformRequest t) = (st = TRANSFORM_REQUEST)" "(a = SwitchEndpoint) = (st = SWITCH_ENDPOINT)"
    "(a = RotateCredential) = (st = ROTATE_CREDENTIAL)"
  using assms
  by (cases out) (auto simp: observe_and_route_def split: if_splits dest!: FailoverDecision_eq elim: route_rejected_prepare)

end
