(* ===== verification/Failover_Graph.thy ===== *)
theory Failover_Graph
  imports Failover_Policy Config_Snapshot
begin

text \<open>
  \<open>mote_kernel/failover/config.py\<close> and \<open>assembly.py\<close>: the failover projections of a Config and
  their selectors, the three nodes of the failover graph (observe, invoke, prepare), the graph
  itself, and its run.

  \<^item> \<open>'k\<close> is the type of preparation capabilities, \<open>'q\<close> of requests, \<open>'t\<close> of transformation
    instructions, \<open>'w\<close> the world the Ports act on; a Port call maps a world to a result or an
    exception and a new world.
  \<^item> A slice of a Config is a \<open>FailoverConfig\<close> or some other projection of type \<open>'x\<close>, whose
    class is the argument \<open>C\<close>.
  \<^item> A run of the graph activates one node at a time, along the edges the assembly adds.
\<close>

section \<open>Config projections and their selectors\<close>

record ('k, 't) failover_config =
  fc_snapshot_key :: config_snapshot_key
  fc_port_id :: string
  fc_plan :: "'t failover_plan"
  fc_preparation :: 'k

definition failover_config_post_init :: "('k, 't) failover_config \<Rightarrow> unit res" where
  "failover_config_post_init f =
     bindE (config_slice_post_init (fc_snapshot_key f)) (\<lambda>_.
     bindE (raise_unless (is_canonical_identity (fc_port_id f))
       (ConfigContractError ''FailoverConfig.port_id must be canonical'')) (\<lambda>_.
     bindE (catchE (mk_FailoverPlan (pl_plan_revision (fc_plan f)) (pl_port_id (fc_plan f)) (pl_profile (fc_plan f)))
       (\<lambda>_. Inl (ConfigContractError ''FailoverConfig.plan is malformed''))) (\<lambda>_.
     raise_unless (pl_port_id (fc_plan f) = fc_port_id f)
       (ConfigContractError ''FailoverConfig.plan does not match its Port binding''))))"

datatype ('k, 't, 'x) kernel_slice = FailoverSlice "('k, 't) failover_config" | OtherSlice 'x

definition kernel_slice_class :: "'x slice_class \<Rightarrow> ('k, 't, 'x) kernel_slice slice_class" where
  "kernel_slice_class C =
     \<lparr>slice_key = (\<lambda>p. case p of FailoverSlice f \<Rightarrow> fc_snapshot_key f | OtherSlice x \<Rightarrow> slice_key C x),
      slice_post_init = (\<lambda>p. case p of FailoverSlice f \<Rightarrow> failover_config_post_init f | OtherSlice x \<Rightarrow> slice_post_init C x)\<rparr>"

definition failover_class :: "('k, 't) failover_config slice_class" where
  "failover_class = \<lparr>slice_key = fc_snapshot_key, slice_post_init = failover_config_post_init\<rparr>"

type_synonym ('k, 't, 'x) kernel_config = "('k, 't, 'x) kernel_slice config"

fun failover_matches :: "string \<Rightarrow> ('k, 't, 'x) kernel_slice list \<Rightarrow> ('k, 't) failover_config list res" where
  "failover_matches port_id [] = Inr []"
| "failover_matches port_id (OtherSlice x # ps) =
     Inl (ConfigContractError ''Config.failovers contains a non-FailoverConfig projection'')"
| "failover_matches port_id (FailoverSlice f # ps) =
     bindE (revalidate_config_slice failover_class f ''Config.failovers FailoverConfig'') (\<lambda>candidate.
     bindE (failover_matches port_id ps) (\<lambda>rest.
     Inr (if fc_port_id candidate = port_id then candidate # rest else rest)))"

definition failover_config_for_port ::
  "('k, 't, 'x) kernel_config \<Rightarrow> string \<Rightarrow> bool \<Rightarrow> ('k, 't) failover_config option res" where
  "failover_config_for_port config port_id required =
     bindE (failover_matches port_id (cfg_failovers config)) (\<lambda>matches.
     if length matches > 1
     then Inl (ConfigContractError ''Config.bind found duplicate FailoverConfig projections for one Port'')
     else (case matches of
         [] \<Rightarrow> if required then Inl (ConfigContractError ''Config.bind requires a FailoverConfig for the requested Port'')
               else Inr None
       | f # _ \<Rightarrow> Inr (Some f)))"

record 't failover_plan_config =
  fpc_snapshot_key :: config_snapshot_key
  fpc_port_id :: string
  fpc_plan :: "'t failover_plan"

definition plan_config_post_init :: "'t failover_plan_config \<Rightarrow> unit res" where
  "plan_config_post_init f =
     bindE (config_slice_post_init (fpc_snapshot_key f)) (\<lambda>_.
     bindE (raise_unless (is_canonical_identity (fpc_port_id f))
       (ConfigContractError ''FailoverPlanConfig.port_id must be canonical'')) (\<lambda>_.
     raise_unless (pl_port_id (fpc_plan f) = fpc_port_id f)
       (ConfigContractError ''FailoverPlanConfig.plan must match its Port binding'')))"

definition plan_config_class :: "'t failover_plan_config slice_class" where
  "plan_config_class = \<lparr>slice_key = fpc_snapshot_key, slice_post_init = plan_config_post_init\<rparr>"

record ('k, 't) failover_prepare_config =
  fpp_snapshot_key :: config_snapshot_key
  fpp_port_id :: string
  fpp_plan :: "'t failover_plan"
  fpp_preparation :: 'k

definition prepare_config_post_init :: "('k, 't) failover_prepare_config \<Rightarrow> unit res" where
  "prepare_config_post_init f =
     bindE (config_slice_post_init (fpp_snapshot_key f)) (\<lambda>_.
     bindE (raise_unless (is_canonical_identity (fpp_port_id f))
       (ConfigContractError ''FailoverPrepareConfig.port_id must be canonical'')) (\<lambda>_.
     raise_unless (pl_port_id (fpp_plan f) = fpp_port_id f)
       (ConfigContractError ''FailoverPrepareConfig.plan must match its Port binding'')))"

definition prepare_config_class :: "('k, 't) failover_prepare_config slice_class" where
  "prepare_config_class = \<lparr>slice_key = fpp_snapshot_key, slice_post_init = prepare_config_post_init\<rparr>"

text \<open>The three selector classes have the same fields and differ in what they select.\<close>

datatype failover_binding = FailoverBinding (fb_port_id: string) (fb_required: bool)

definition mk_binding :: "string \<Rightarrow> string \<Rightarrow> bool \<Rightarrow> failover_binding res" where
  "mk_binding owner port_id required =
     (if \<not> is_canonical_identity port_id then Inl (ConfigContractError (owner @ ''.port_id must be canonical''))
      else Inr (FailoverBinding port_id required))"

definition plan_binding_select ::
  "failover_binding \<Rightarrow> ('k, 't, 'x) kernel_config \<Rightarrow> 't failover_plan_config option res" where
  "plan_binding_select b config =
     bindE (failover_config_for_port config (fb_port_id b) (fb_required b)) (\<lambda>selected.
     case selected of
       None \<Rightarrow> Inr None
     | Some f \<Rightarrow>
         (let p = \<lparr>fpc_snapshot_key = fc_snapshot_key f, fpc_port_id = fc_port_id f, fpc_plan = fc_plan f\<rparr>
          in bindE (plan_config_post_init p) (\<lambda>_. Inr (Some p))))"

definition prepare_binding_select ::
  "failover_binding \<Rightarrow> ('k, 't, 'x) kernel_config \<Rightarrow> ('k, 't) failover_prepare_config option res" where
  "prepare_binding_select b config =
     bindE (failover_config_for_port config (fb_port_id b) (fb_required b)) (\<lambda>selected.
     case selected of
       None \<Rightarrow> Inr None
     | Some f \<Rightarrow>
         (let p = \<lparr>fpp_snapshot_key = fc_snapshot_key f, fpp_port_id = fc_port_id f, fpp_plan = fc_plan f,
                   fpp_preparation = fc_preparation f\<rparr>
          in bindE (prepare_config_post_init p) (\<lambda>_. Inr (Some p))))"

definition failover_binding_select ::
  "failover_binding \<Rightarrow> ('k, 't, 'x) kernel_config \<Rightarrow> ('k, 't) failover_config option res" where
  "failover_binding_select b config = failover_config_for_port config (fb_port_id b) (fb_required b)"

section \<open>The projection of one activation\<close>

definition as_failover_error :: "'a res \<Rightarrow> 'a res" where
  "as_failover_error m =
     catchE m (\<lambda>e. case e of ConfigContractError msg \<Rightarrow> Inl (FailoverContractError msg) | _ \<Rightarrow> Inl e)"

definition runtime_plan ::
  "(py_bytes \<Rightarrow> string) \<Rightarrow> 'x slice_class \<Rightarrow> ('k, 't, 'x) kernel_config option \<Rightarrow> failover_binding option \<Rightarrow>
     't failover_plan \<Rightarrow> 't failover_plan res" where
  "runtime_plan sha256_hex C config binding fallback_plan =
     (case config of
        None \<Rightarrow> Inr fallback_plan
      | Some cfg \<Rightarrow>
          bindE (case binding of Some b \<Rightarrow> Inr b | None \<Rightarrow> mk_binding ''FailoverPlanBinding'' (pl_port_id fallback_plan) True) (\<lambda>b.
          bindE (as_failover_error
            (config_bind sha256_hex (kernel_slice_class C) plan_config_class cfg (plan_binding_select b))) (\<lambda>selected.
          (case selected of
             None \<Rightarrow> Inl (FailoverContractError ''failover Config binding did not provide the compiled Port projection'')
           | Some s \<Rightarrow>
               if pl_port_id (fpc_plan s) \<noteq> pl_port_id fallback_plan
               then Inl (FailoverContractError ''failover Config binding changed the compiled Port contract'')
               else Inr (fpc_plan s)))))"

definition runtime_config ::
  "(py_bytes \<Rightarrow> string) \<Rightarrow> 'x slice_class \<Rightarrow> ('k, 't, 'x) kernel_config option \<Rightarrow> failover_binding option \<Rightarrow>
     't failover_plan \<Rightarrow> 'k \<Rightarrow> ('t failover_plan \<times> 'k) res" where
  "runtime_config sha256_hex C config binding fallback_plan fallback_preparation =
     (case config of
        None \<Rightarrow> Inr (fallback_plan, fallback_preparation)
      | Some cfg \<Rightarrow>
          bindE (case binding of Some b \<Rightarrow> Inr b | None \<Rightarrow> mk_binding ''FailoverPrepareBinding'' (pl_port_id fallback_plan) True) (\<lambda>b.
          bindE (as_failover_error
            (config_bind sha256_hex (kernel_slice_class C) prepare_config_class cfg (prepare_binding_select b))) (\<lambda>selected.
          (case selected of
             None \<Rightarrow> Inl (FailoverContractError ''failover Config binding did not provide the compiled Port projection'')
           | Some s \<Rightarrow>
               if pl_port_id (fpp_plan s) \<noteq> pl_port_id fallback_plan
               then Inl (FailoverContractError ''failover Config binding changed the compiled Port contract'')
               else Inr (fpp_plan s, fpp_preparation s)))))"

section \<open>Frames and results\<close>

datatype 'q failover_call = FailoverCall (call_operation_id: string) (call_request: 'q)

definition mk_FailoverCall :: "string \<Rightarrow> 'q \<Rightarrow> 'q failover_call res" where
  "mk_FailoverCall operation_id request =
     (if \<not> is_canonical_identity operation_id
      then Inl (FailoverContractError ''failover call operation_id must be canonical'')
      else Inr (FailoverCall operation_id request))"

datatype ('q, 'r, 'c, 'h) failover_step =
    InvokeStep (step_request: 'q) (step_context: retry_context)
  | ObserveStep (step_request: 'q) (step_context: retry_context) (step_outcome: "('r, 'c, 'h) port_outcome")

datatype ('q, 'r, 'c, 'h, 't) failover_frame =
  FailoverFrame (frame_step: "('q, 'r, 'c, 'h) failover_step") (frame_plan: "'t failover_plan")

definition mk_FailoverFrame ::
  "('q, 'r, 'c, 'h) failover_step \<Rightarrow> 't failover_plan \<Rightarrow> ('q, 'r, 'c, 'h, 't) failover_frame res" where
  "mk_FailoverFrame stp plan =
     (if rc_plan_revision (step_context stp) \<noteq> pl_plan_revision plan
      then Inl (FailoverContractError ''failover frame context and plan revisions must match'')
      else Inr (FailoverFrame stp plan))"

datatype ('q, 'r, 'c, 'h, 't) failover_result =
  FailoverResult (res_request: 'q) (res_context: retry_context) (res_outcome: "('r, 'c, 'h) port_outcome")
    (res_decision: "'t failover_decision")

definition mk_FailoverResult ::
  "'q \<Rightarrow> retry_context \<Rightarrow> ('r, 'c, 'h) port_outcome \<Rightarrow> 't failover_decision \<Rightarrow> ('q, 'r, 'c, 'h, 't) failover_result res" where
  "mk_FailoverResult request context outcome decision =
     (if fd_route decision = RouteAbort
      then Inl (FailoverContractError ''failover result cannot carry an abort decision'')
      else if fd_route decision = RouteCompleted \<and> (case outcome of Completed _ \<Rightarrow> False | _ \<Rightarrow> True)
      then Inl (FailoverContractError ''a completed failover result requires a completed Port outcome'')
      else Inr (FailoverResult request context outcome decision))"

section \<open>The nodes\<close>

datatype failover_route = PREPARE_ROUTE | FINISH_ROUTE

datatype ('q, 'r, 'c, 'h, 't) prepare_outcome =
    GraphFailure string
  | GraphSuccess "('q, 'r, 'c, 'h, 't) failover_frame" "('q, 'r, 'c, 'h, 't) failover_result" failover_route

definition observe_call ::
  "(py_bytes \<Rightarrow> string) \<Rightarrow> 'x slice_class \<Rightarrow> 't failover_plan \<Rightarrow> failover_binding option \<Rightarrow>
     ('k, 't, 'x) kernel_config option \<Rightarrow> 'q failover_call \<Rightarrow> ('q, 'r, 'c, 'h, 't) failover_frame res" where
  "observe_call sha256_hex C config binding activation_config call =
     bindE (runtime_plan sha256_hex C activation_config binding config) (\<lambda>plan.
     bindE (new_retry_context (call_operation_id call) (pl_plan_revision plan)) (\<lambda>context.
     mk_FailoverFrame (InvokeStep (call_request call) context) plan))"

definition invoke_once ::
  "(py_bytes \<Rightarrow> string) \<Rightarrow> 'x slice_class \<Rightarrow> ('q \<Rightarrow> 'w \<Rightarrow> ('r, 'c, 'h) port_outcome res \<times> 'w) \<Rightarrow>
     't failover_plan option \<Rightarrow> failover_binding option \<Rightarrow> ('k, 't, 'x) kernel_config option \<Rightarrow>
     ('q, 'r, 'c, 'h, 't) failover_frame \<Rightarrow> 'w \<Rightarrow> ('q, 'r, 'c, 'h, 't) failover_frame res \<times> 'w" where
  "invoke_once sha256_hex C attempt fallback binding activation_config frame w =
     (case frame_step frame of
        ObserveStep _ _ _ \<Rightarrow> (Inl (FailoverContractError ''invoke node requires an invoke step''), w)
      | InvokeStep request context \<Rightarrow>
          (case runtime_plan sha256_hex C activation_config binding (or_else fallback (frame_plan frame)) of
             Inl e \<Rightarrow> (Inl e, w)
           | Inr plan \<Rightarrow>
               if rc_plan_revision context \<noteq> pl_plan_revision plan
               then (Inl (FailoverContractError ''failover frame context and bound plan revisions must match''), w)
               else (case attempt request w of (answer, w') \<Rightarrow>
                 (bindE answer (\<lambda>outcome. mk_FailoverFrame (ObserveStep request context outcome) plan), w'))))"

definition with_failure :: "retry_context \<Rightarrow> failure_evidence \<Rightarrow> retry_context res" where
  "with_failure c e =
     bindE (evidence_signal e) (\<lambda>sig.
     retry_context_post_init (c\<lparr>rc_last_failure := Some (fe_category e), rc_last_signal := Some sig\<rparr>))"

definition observed_context :: "('r, 'c, 'h) port_outcome \<Rightarrow> retry_context \<Rightarrow> retry_context res" where
  "observed_context outcome c =
     (case outcome of Rejected e \<Rightarrow> with_failure c e | Unknown _ e \<Rightarrow> with_failure c e | _ \<Rightarrow> Inr c)"

definition next_attempt_context ::
  "retry_context \<Rightarrow> failure_strategy \<Rightarrow> 't preparation_action \<Rightarrow> retry_context res" where
  "next_attempt_context context strategy action =
     bindE (with_strategy_use context strategy) (\<lambda>n.
     retry_context_post_init (n\<lparr>
       rc_request_version := rc_request_version n + (case action of TransformRequest _ \<Rightarrow> 1 | _ \<Rightarrow> 0),
       rc_attempt_ordinal := rc_attempt_ordinal n + 1,
       rc_endpoint_cursor := rc_endpoint_cursor n + (case action of SwitchEndpoint \<Rightarrow> 1 | _ \<Rightarrow> 0),
       rc_credential_cursor := rc_credential_cursor n + (case action of RotateCredential \<Rightarrow> 1 | _ \<Rightarrow> 0),
       rc_wait_until := None\<rparr>))"

definition prepare_next_attempt ::
  "(py_bytes \<Rightarrow> string) \<Rightarrow> 'x slice_class \<Rightarrow> ('k \<Rightarrow> 'q \<Rightarrow> 't preparation_action \<Rightarrow> 'w \<Rightarrow> 'q res \<times> 'w) \<Rightarrow>
     'k \<Rightarrow> 't failover_plan option \<Rightarrow> failover_binding option \<Rightarrow> ('k, 't, 'x) kernel_config option \<Rightarrow>
     ('q, 'r, 'c, 'h, 't) failover_frame \<Rightarrow> 'w \<Rightarrow> ('q, 'r, 'c, 'h, 't) prepare_outcome res \<times> 'w" where
  "prepare_next_attempt sha256_hex C prepare_next fallback_preparation fallback binding activation_config frame w =
     (case frame_step frame of
        InvokeStep _ _ \<Rightarrow> (Inl (FailoverContractError ''prepare node requires an observe step''), w)
      | ObserveStep request context outcome \<Rightarrow>
          (let classified =
             bindE (runtime_config sha256_hex C activation_config binding (or_else fallback (frame_plan frame))
               fallback_preparation) (\<lambda>(plan, preparation).
             if rc_plan_revision context \<noteq> pl_plan_revision plan
             then Inl (FailoverContractError ''failover frame context and bound plan revisions must match'')
             else bindE (observe_and_route outcome plan context) (\<lambda>decision.
               bindE (observed_context outcome context) (\<lambda>context'.
               Inr (plan, preparation, decision, context'))))
           in case classified of
                Inl e \<Rightarrow> (Inl e, w)
              | Inr (plan, preparation, decision, context') \<Rightarrow>
                  if fd_route decision = RouteAbort then (Inr (GraphFailure ''failover policy aborted the operation''), w)
                  else (case mk_FailoverResult request context' outcome decision of
                      Inl e \<Rightarrow> (Inl e, w)
                    | Inr result \<Rightarrow>
                        (case (fd_route decision, fd_strategy decision, fd_preparation decision) of
                           (RoutePrepare, Some strategy, Some action) \<Rightarrow>
                             (case prepare_next preparation request action w of (prepared, w') \<Rightarrow>
                               (bindE prepared (\<lambda>request'.
                                bindE (next_attempt_context context' strategy action) (\<lambda>context''.
                                bindE (mk_FailoverFrame (InvokeStep request' context'') plan) (\<lambda>nxt.
                                Inr (GraphSuccess nxt result PREPARE_ROUTE)))), w'))
                         | _ \<Rightarrow>
                             (bindE (mk_FailoverFrame (ObserveStep request context' outcome) plan) (\<lambda>nxt.
                              Inr (GraphSuccess nxt result FINISH_ROUTE)), w)))))"

section \<open>Assembly\<close>

definition definition_id :: "string \<Rightarrow> string" where
  "definition_id port_id = concat (map sized_field [''mote.failover.v1'', port_id])"

record ('k, 't) failover =
  fo_config :: "'t failover_plan"
  fo_preparation :: 'k
  fo_plan_binding :: "failover_binding option"
  fo_prepare_binding :: "failover_binding option"

definition mk_Failover ::
  "'t failover_plan \<Rightarrow> 'k \<Rightarrow> failover_binding option \<Rightarrow> failover_binding option \<Rightarrow> ('k, 't) failover res" where
  "mk_Failover config preparation plan_binding prepare_binding =
     (if (case plan_binding of None \<Rightarrow> False | Some b \<Rightarrow> fb_port_id b \<noteq> pl_port_id config)
      then Inl (FailoverContractError ''failover decorator plan binding does not match its Port config'')
      else if (case prepare_binding of None \<Rightarrow> False | Some b \<Rightarrow> fb_port_id b \<noteq> pl_port_id config)
      then Inl (FailoverContractError ''failover decorator prepare binding does not match its Port config'')
      else Inr \<lparr>fo_config = config, fo_preparation = preparation, fo_plan_binding = plan_binding,
                fo_prepare_binding = prepare_binding\<rparr>)"

definition failover_bind ::
  "(py_bytes \<Rightarrow> string) \<Rightarrow> 'x slice_class \<Rightarrow> ('k, 't, 'x) kernel_config \<Rightarrow> string \<Rightarrow> bool \<Rightarrow> ('k, 't) failover option res" where
  "failover_bind sha256_hex C config port_id required =
     bindE (require_config sha256_hex (kernel_slice_class C) config) (\<lambda>cfg.
     bindE (mk_binding ''FailoverBinding'' port_id required) (\<lambda>b.
     bindE (config_bind sha256_hex (kernel_slice_class C) failover_class cfg (failover_binding_select b)) (\<lambda>selected.
     case selected of
       None \<Rightarrow> Inr None
     | Some f \<Rightarrow>
         bindE (mk_binding ''FailoverPlanBinding'' port_id required) (\<lambda>pb.
         bindE (mk_binding ''FailoverPrepareBinding'' port_id required) (\<lambda>qb.
         bindE (mk_Failover (fc_plan f) (fc_preparation f) (Some pb) (Some qb)) (\<lambda>fo. Inr (Some fo)))))))"

datatype failover_node_id = OBSERVE | INVOKE | PREPARE

datatype graph_vertex = START | Node failover_node_id | END

definition failover_edges :: "((graph_vertex \<times> failover_route option) \<times> graph_vertex) list" where
  "failover_edges =
    [((START, None), Node OBSERVE),
     ((Node OBSERVE, None), Node INVOKE),
     ((Node INVOKE, None), Node PREPARE),
     ((Node PREPARE, Some PREPARE_ROUTE), Node INVOKE),
     ((Node PREPARE, Some FINISH_ROUTE), END)]"

section \<open>A run of the graph\<close>

text \<open>
  \<open>fr_at\<close> is the next vertex, \<open>fr_frame\<close> the last frame published, \<open>fr_result\<close> the last result,
  \<open>fr_log\<close> the nodes activated so far; \<open>fr_end\<close> is set when a node raises (\<open>Inl\<close>) or settles as a
  failure (\<open>Inr\<close>).
\<close>

record ('q, 'r, 'c, 'h, 't, 'w) failover_run =
  fr_at :: graph_vertex
  fr_call :: "'q failover_call"
  fr_frame :: "('q, 'r, 'c, 'h, 't) failover_frame option"
  fr_result :: "('q, 'r, 'c, 'h, 't) failover_result option"
  fr_end :: "(kernel_error + string) option"
  fr_log :: "failover_node_id list"
  fr_world :: 'w

record ('k, 'q, 'r, 'c, 'h, 't, 'w, 'x) failover_env =
  env_sha256_hex :: "py_bytes \<Rightarrow> string"
  env_class :: "'x slice_class"
  env_failover :: "('k, 't) failover"
  env_attempt :: "'q \<Rightarrow> 'w \<Rightarrow> ('r, 'c, 'h) port_outcome res \<times> 'w"
  env_prepare :: "'k \<Rightarrow> 'q \<Rightarrow> 't preparation_action \<Rightarrow> 'w \<Rightarrow> 'q res \<times> 'w"
  env_config :: "nat \<Rightarrow> ('k, 't, 'x) kernel_config option"

definition follow :: "graph_vertex \<Rightarrow> failover_route option \<Rightarrow> graph_vertex" where
  "follow v route = (case map_of failover_edges (v, route) of Some u \<Rightarrow> u | None \<Rightarrow> END)"

definition settle_frame ::
  "failover_node_id \<Rightarrow> ('q, 'r, 'c, 'h, 't) failover_frame res \<times> 'w \<Rightarrow> ('q, 'r, 'c, 'h, 't, 'w) failover_run \<Rightarrow>
     ('q, 'r, 'c, 'h, 't, 'w) failover_run" where
  "settle_frame n answer r =
     (case answer of
        (Inl e, w) \<Rightarrow> r\<lparr>fr_end := Some (Inl e), fr_log := fr_log r @ [n], fr_world := w\<rparr>
      | (Inr frame, w) \<Rightarrow>
          r\<lparr>fr_at := follow (Node n) None, fr_frame := Some frame, fr_log := fr_log r @ [n], fr_world := w\<rparr>)"

definition activate ::
  "('k, 'q, 'r, 'c, 'h, 't, 'w, 'x) failover_env \<Rightarrow> failover_node_id \<Rightarrow> ('q, 'r, 'c, 'h, 't, 'w) failover_run \<Rightarrow>
     ('q, 'r, 'c, 'h, 't, 'w) failover_run" where
  "activate E n r =
     (let fo = env_failover E; cfg = env_config E (length (fr_log r)) in
      case (n, fr_frame r) of
        (OBSERVE, _) \<Rightarrow>
          settle_frame n (observe_call (env_sha256_hex E) (env_class E) (fo_config fo) (fo_plan_binding fo) cfg (fr_call r), fr_world r) r
      | (INVOKE, Some frame) \<Rightarrow>
          settle_frame n (invoke_once (env_sha256_hex E) (env_class E) (env_attempt E) (Some (fo_config fo)) (fo_plan_binding fo)
            cfg frame (fr_world r)) r
      | (PREPARE, Some frame) \<Rightarrow>
          (case prepare_next_attempt (env_sha256_hex E) (env_class E) (env_prepare E) (fo_preparation fo) (Some (fo_config fo))
              (fo_prepare_binding fo) cfg frame (fr_world r) of
             (Inl e, w) \<Rightarrow> r\<lparr>fr_end := Some (Inl e), fr_log := fr_log r @ [n], fr_world := w\<rparr>
           | (Inr (GraphFailure msg), w) \<Rightarrow> r\<lparr>fr_end := Some (Inr msg), fr_log := fr_log r @ [n], fr_world := w\<rparr>
           | (Inr (GraphSuccess nxt result route), w) \<Rightarrow>
               r\<lparr>fr_at := follow (Node n) (Some route), fr_frame := Some nxt, fr_result := Some result,
                 fr_log := fr_log r @ [n], fr_world := w\<rparr>)
      | (_, None) \<Rightarrow> r\<lparr>fr_end := Some (Inl (KeyError ''frame''))\<rparr>)"

definition stopped :: "('q, 'r, 'c, 'h, 't, 'w) failover_run \<Rightarrow> bool" where
  "stopped r \<longleftrightarrow> fr_at r = END \<or> fr_end r \<noteq> None"

definition graph_step ::
  "('k, 'q, 'r, 'c, 'h, 't, 'w, 'x) failover_env \<Rightarrow> ('q, 'r, 'c, 'h, 't, 'w) failover_run \<Rightarrow>
     ('q, 'r, 'c, 'h, 't, 'w) failover_run" where
  "graph_step E r =
     (if fr_end r \<noteq> None then r
      else (case fr_at r of START \<Rightarrow> r\<lparr>fr_at := follow START None\<rparr> | Node n \<Rightarrow> activate E n r | END \<Rightarrow> r))"

definition failover_start :: "'q failover_call \<Rightarrow> 'w \<Rightarrow> ('q, 'r, 'c, 'h, 't, 'w) failover_run" where
  "failover_start call w =
     \<lparr>fr_at = follow START None, fr_call = call, fr_frame = None, fr_result = None, fr_end = None, fr_log = [], fr_world = w\<rparr>"

definition run_failover ::
  "('k, 'q, 'r, 'c, 'h, 't, 'w, 'x) failover_env \<Rightarrow> nat \<Rightarrow> 'q failover_call \<Rightarrow> 'w \<Rightarrow> ('q, 'r, 'c, 'h, 't, 'w) failover_run" where
  "run_failover E fuel call w = (graph_step E ^^ fuel) (failover_start call w)"

end
