(* ===== verification/Failover_Run.thy ===== *)
theory Failover_Run
  imports Failover_Graph
begin

text \<open>
  The run of the failover graph: what each node does on success, the invariant that ties the
  durable retry context to the nodes activated so far, the bound on the length of a run and on
  its wire attempts, and progress when the Ports answer.
\<close>

section \<open>Inversion of the nodes\<close>

lemma mk_FailoverFrame_ok [resE]:
  "mk_FailoverFrame stp plan = Inr f \<longleftrightarrow> f = FailoverFrame stp plan \<and> rc_plan_revision (step_context stp) = pl_plan_revision plan"
  by (auto simp: mk_FailoverFrame_def)

lemma mk_FailoverResult_ok [resE]:
  "mk_FailoverResult q c out d = Inr r \<longleftrightarrow> r = FailoverResult q c out d \<and> fd_route d \<noteq> RouteAbort \<and>
     (fd_route d = RouteCompleted \<longrightarrow> (\<exists>x. out = Completed x))"
  by (auto simp: mk_FailoverResult_def split: port_outcome.splits)

lemma follow_simps [simp]:
  "follow START None = Node OBSERVE"
  "follow (Node OBSERVE) None = Node INVOKE"
  "follow (Node INVOKE) None = Node PREPARE"
  "follow (Node PREPARE) (Some PREPARE_ROUTE) = Node INVOKE"
  "follow (Node PREPARE) (Some FINISH_ROUTE) = END"
  by (simp_all add: follow_def failover_edges_def)

lemma invoke_once_ok:
  assumes "invoke_once sha C att fb b cfg frame w = (Inr nxt, w')"
  obtains q c plan out where "frame_step frame = InvokeStep q c" "att q w = (Inr out, w')"
    "runtime_plan sha C cfg b (or_else fb (frame_plan frame)) = Inr plan"
    "rc_plan_revision c = pl_plan_revision plan" "nxt = FailoverFrame (ObserveStep q c out) plan"
  using assms
  by (auto simp: invoke_once_def resE split: failover_step.splits sum.splits if_splits prod.splits)

definition prepares ::
  "retry_context \<Rightarrow> 't failover_decision \<Rightarrow> 't failover_plan \<Rightarrow> ('q, 'r, 'c, 'h, 't) failover_frame \<Rightarrow> bool" where
  "prepares c d plan nxt \<longleftrightarrow> (\<exists>st a q' c'. fd_route d = RoutePrepare \<and> fd_strategy d = Some st \<and> fd_preparation d = Some a \<and>
     next_attempt_context c st a = Inr c' \<and> nxt = FailoverFrame (InvokeStep q' c') plan)"

lemma prepare_next_attempt_ok:
  assumes "prepare_next_attempt sha C prep k fb b cfg frame w = (Inr (GraphSuccess nxt result route), w')"
  obtains q c out plan pk d c' where "frame_step frame = ObserveStep q c out"
    "runtime_config sha C cfg b (or_else fb (frame_plan frame)) k = Inr (plan, pk)"
    "rc_plan_revision c = pl_plan_revision plan" "observe_and_route out plan c = Inr d"
    "observed_context out c = Inr c'" "result = FailoverResult q c' out d"
    "route = FINISH_ROUTE \<and> fd_route d \<noteq> RoutePrepare \<and> nxt = FailoverFrame (ObserveStep q c' out) plan \<or>
     route = PREPARE_ROUTE \<and> prepares c' d plan nxt"
proof (cases "frame_step frame")
  case (InvokeStep q c)
  with assms show ?thesis by (simp add: prepare_next_attempt_def)
next
  case (ObserveStep q c out)
  obtain plan pk d c' where cl: "runtime_config sha C cfg b (or_else fb (frame_plan frame)) k = Inr (plan, pk)"
    "rc_plan_revision c = pl_plan_revision plan" "observe_and_route out plan c = Inr d" "observed_context out c = Inr c'"
    using assms ObserveStep by (auto simp: prepare_next_attempt_def Let_def bindE_def split: sum.splits if_splits prod.splits)
  show ?thesis
  proof (cases "fd_route d = RoutePrepare")
    case True
    then obtain e st a where d: "out = Rejected e" "fd_strategy d = Some st" "fd_preparation d = Some a"
      by (rule observe_and_route_prepare [OF cl(3)]) blast
    show ?thesis
      using assms ObserveStep cl True d
      by (auto simp: prepare_next_attempt_def resE prepares_def split: sum.splits if_splits prod.splits intro!: that [OF ObserveStep cl])
  next
    case False
    then show ?thesis
      using assms ObserveStep cl
      by (auto simp: prepare_next_attempt_def resE split: sum.splits if_splits observation_route.splits intro!: that [OF ObserveStep cl])
  qed
qed

section \<open>The retry context along a run\<close>

text \<open>The durable cursors are functions of the strategy counters.\<close>

definition cursors_agree :: "retry_context \<Rightarrow> bool" where
  "cursors_agree c \<longleftrightarrow> rc_attempt_ordinal c = sum_list (map su_used (rc_strategy_usages c)) \<and>
     rc_request_version c = 1 + uses_for c TRANSFORM_REQUEST \<and> rc_endpoint_cursor c = uses_for c SWITCH_ENDPOINT \<and>
     rc_credential_cursor c = uses_for c ROTATE_CREDENTIAL"

definition good_context :: "retry_context \<Rightarrow> bool" where
  "good_context c \<longleftrightarrow> wf_context c \<and> wf_usages c \<and> cursors_agree c"

lemma new_retry_context_ok:
  assumes "new_retry_context i n = Inr c"
  shows "good_context c" "rc_attempt_ordinal c = 0" "rc_plan_revision c = n" "uses_for c st = 0" "rc_operation_id c = i"
  using assms by (auto simp: new_retry_context_def resE good_context_def wf_usages_def cursors_agree_def uses_for_def)

lemma sum_used_split:
  "distinct (map su_strategy us) \<Longrightarrow> sum_list (map su_used us) =
     sum_list (map su_used (filter (\<lambda>u. su_strategy u \<noteq> st) us)) +
     (case find (\<lambda>u. su_strategy u = st) us of Some u \<Rightarrow> su_used u | None \<Rightarrow> 0)"
proof (induction us)
  case Nil
  then show ?case by simp
next
  case (Cons u us)
  have "filter (\<lambda>v. su_strategy v \<noteq> st) us = us" if "st \<notin> su_strategy ` set us"
    using that by (auto simp: filter_id_conv)
  with Cons show ?case by auto
qed

lemma observed_context_ok:
  assumes "observed_context out c = Inr c'"
  shows "rc_attempt_ordinal c' = rc_attempt_ordinal c" "rc_plan_revision c' = rc_plan_revision c"
    "uses_for c' st = uses_for c st" "rc_operation_id c' = rc_operation_id c" "good_context c \<Longrightarrow> good_context c'"
  using assms
  by (auto simp: observed_context_def with_failure_def evidence_signal_def resE uses_for_def good_context_def wf_usages_def
      cursors_agree_def split: port_outcome.splits)

definition attempt_after :: "retry_context \<Rightarrow> failure_strategy \<Rightarrow> 't preparation_action \<Rightarrow> retry_context \<Rightarrow> bool" where
  "attempt_after c st a c' \<longleftrightarrow> rc_attempt_ordinal c' = rc_attempt_ordinal c + 1 \<and> rc_plan_revision c' = rc_plan_revision c \<and>
     rc_operation_id c' = rc_operation_id c \<and> (\<forall>st'. uses_for c' st' = uses_for c st' + (if st' = st then 1 else 0))"

lemma uses_for_usages: "rc_strategy_usages c = rc_strategy_usages d \<Longrightarrow> uses_for c st = uses_for d st"
  by (simp add: uses_for_def)

lemma next_attempt_context_total:
  assumes g: "good_context c"
    and a: "(\<exists>t. a = TransformRequest t) = (st = TRANSFORM_REQUEST)" "(a = SwitchEndpoint) = (st = SWITCH_ENDPOINT)"
      "(a = RotateCredential) = (st = ROTATE_CREDENTIAL)"
  obtains c' where "next_attempt_context c st a = Inr c'" "good_context c'" "attempt_after c st a c'"
proof -
  from g have w: "wf_context c" "wf_usages c" and cu: "cursors_agree c" by (auto simp: good_context_def)
  obtain d where d: "with_strategy_use c st = Inr d" "wf_context d" "wf_usages d"
    and d_def: "d = c\<lparr>rc_strategy_usages := filter (\<lambda>u. su_strategy u \<noteq> st) (rc_strategy_usages c) @
       [\<lparr>su_strategy = st, su_used = uses_for c st + 1\<rparr>], rc_last_strategy := Some st\<rparr>"
    and u: "\<And>st'. uses_for d st' = uses_for c st' + (if st' = st then 1 else 0)"
    using with_strategy_use_total [OF w] by metis
  define c' where "c' = d\<lparr>rc_request_version := rc_request_version d + (case a of TransformRequest _ \<Rightarrow> 1 | _ \<Rightarrow> 0),
       rc_attempt_ordinal := rc_attempt_ordinal d + 1,
       rc_endpoint_cursor := rc_endpoint_cursor d + (case a of SwitchEndpoint \<Rightarrow> 1 | _ \<Rightarrow> 0),
       rc_credential_cursor := rc_credential_cursor d + (case a of RotateCredential \<Rightarrow> 1 | _ \<Rightarrow> 0),
       rc_wait_until := None\<rparr>"
  have uc: "uses_for c' st' = uses_for c st' + (if st' = st then 1 else 0)" for st'
    using u by (simp add: c'_def uses_for_def)
  have wc: "wf_context c'" "wf_usages c'"
    using d(2,3) by (auto simp: c'_def wf_context_def wf_usages_def split: preparation_action.splits)
  have "distinct (map su_strategy (rc_strategy_usages c))" using w by (simp add: wf_context_def)
  from sum_used_split [OF this, of st]
  have "sum_list (map su_used (rc_strategy_usages c')) = sum_list (map su_used (rc_strategy_usages c)) + 1"
    by (simp add: c'_def d_def uses_for_def)
  moreover have "rc_attempt_ordinal d = rc_attempt_ordinal c" "rc_request_version d = rc_request_version c"
    "rc_endpoint_cursor d = rc_endpoint_cursor c" "rc_credential_cursor d = rc_credential_cursor c" by (simp_all add: d_def)
  ultimately have "cursors_agree c'"
    using cu a unfolding cursors_agree_def uc by (cases a) (simp_all add: c'_def)
  with wc have "good_context c'" by (simp add: good_context_def)
  moreover have "next_attempt_context c st a = Inr c'"
    using d wc by (simp add: next_attempt_context_def resE c'_def [symmetric])
  moreover have "attempt_after c st a c'" using uc by (simp add: attempt_after_def c'_def d_def)
  ultimately show thesis by (intro that)
qed

section \<open>The run invariant\<close>

abbreviation bound_config where
  "bound_config E i \<equiv> runtime_config (env_sha256_hex E) (env_class E) (env_config E i) (fo_prepare_binding (env_failover E))
     (fo_config (env_failover E)) (fo_preparation (env_failover E))"

abbreviation bound_plan where
  "bound_plan E i \<equiv> runtime_plan (env_sha256_hex E) (env_class E) (env_config E i) (fo_plan_binding (env_failover E))
     (fo_config (env_failover E))"

definition budgets_within ::
  "('k, 'q, 'r, 'c, 'h, 't, 'w, 'x) failover_env \<Rightarrow> nat \<Rightarrow> (failure_strategy \<Rightarrow> int) \<Rightarrow> bool" where
  "budgets_within E N L \<longleftrightarrow> 1 \<le> N \<and> (\<forall>st. 0 \<le> L st) \<and>
     (\<forall>i plan k. bound_config E i = Inr (plan, k) \<longrightarrow> rb_max_wire_attempts (fp_budget (pl_profile plan)) \<le> int N \<and>
        (\<forall>st. max_uses_for (fp_budget (pl_profile plan)) st \<le> L st))"

definition wire_attempts :: "('q, 'r, 'c, 'h, 't, 'w) failover_run \<Rightarrow> nat" where
  "wire_attempts r = count_list (fr_log r) INVOKE"

definition context_inv :: "nat \<Rightarrow> (failure_strategy \<Rightarrow> int) \<Rightarrow> ('q, 'r, 'c, 'h, 't, 'w) failover_run \<Rightarrow> retry_context \<Rightarrow> bool" where
  "context_inv N L r c \<longleftrightarrow> good_context c \<and> rc_attempt_ordinal c < int N \<and> (\<forall>st. uses_for c st \<le> L st) \<and>
     rc_operation_id c = call_operation_id (fr_call r)"

definition run_inv :: "nat \<Rightarrow> (failure_strategy \<Rightarrow> int) \<Rightarrow> ('q, 'r, 'c, 'h, 't, 'w) failover_run \<Rightarrow> bool" where
  "run_inv N L r \<longleftrightarrow> wire_attempts r \<le> N \<and> length (fr_log r) \<le> 2 * N + 1 \<and>
     (fr_end r = None \<longrightarrow> (case fr_at r of
        START \<Rightarrow> False
      | Node OBSERVE \<Rightarrow> fr_log r = []
      | Node INVOKE \<Rightarrow> (\<exists>q c P. fr_frame r = Some (FailoverFrame (InvokeStep q c) P) \<and> context_inv N L r c \<and>
          int (wire_attempts r) = rc_attempt_ordinal c \<and> length (fr_log r) = 2 * wire_attempts r + 1)
      | Node PREPARE \<Rightarrow> (\<exists>q c out P. fr_frame r = Some (FailoverFrame (ObserveStep q c out) P) \<and> context_inv N L r c \<and>
          int (wire_attempts r) = rc_attempt_ordinal c + 1 \<and> length (fr_log r) = 2 * wire_attempts r)
      | END \<Rightarrow> (\<exists>res. fr_result r = Some res \<and> context_inv N L r (res_context res) \<and>
          int (wire_attempts r) = rc_attempt_ordinal (res_context res) + 1)))"

lemma run_inv_start: "budgets_within E N L \<Longrightarrow> run_inv N L (failover_start call w)"
  by (simp add: run_inv_def failover_start_def wire_attempts_def)

lemma or_else_Some [simp]: "or_else (Some x) d = x"
  by (simp add: or_else_def)

lemma observe_call_ok:
  assumes "observe_call sha C p b cfg call = Inr f"
  obtains plan c where "runtime_plan sha C cfg b p = Inr plan" "new_retry_context (call_operation_id call) (pl_plan_revision plan) = Inr c"
    "f = FailoverFrame (InvokeStep (call_request call) c) plan"
  using assms by (auto simp: observe_call_def resE)

lemma run_inv_observe:
  fixes r :: "('q, 'r, 'c, 'h, 't, 'w) failover_run"
  assumes b: "budgets_within E N L" and i: "run_inv N L r" and at: "fr_at r = Node OBSERVE" "fr_end r = None"
  shows "run_inv N L (activate E OBSERVE r)"
proof -
  have l: "fr_log r = []" using i at by (simp add: run_inv_def)
  let ?o = "observe_call (env_sha256_hex E) (env_class E) (fo_config (env_failover E)) (fo_plan_binding (env_failover E))
    (env_config E 0) (fr_call r) :: ('q, 'r, 'c, 'h, 't) failover_frame res"
  have N: "1 \<le> N" "\<And>st. 0 \<le> L st" using b by (auto simp: budgets_within_def)
  show ?thesis
  proof (cases ?o)
    case (Inl e)
    with l N show ?thesis by (simp add: activate_def settle_frame_def Let_def run_inv_def wire_attempts_def)
  next
    case (Inr f)
    from observe_call_ok [OF Inr] obtain plan c where f: "f = FailoverFrame (InvokeStep (call_request (fr_call r)) c) plan"
      "new_retry_context (call_operation_id (fr_call r)) (pl_plan_revision plan) = Inr c" by metis
    from new_retry_context_ok [OF f(2)] Inr f(1) l N show ?thesis
      by (simp add: activate_def settle_frame_def Let_def run_inv_def wire_attempts_def context_inv_def)
  qed
qed

lemma run_inv_invoke:
  assumes i: "run_inv N L r" and at: "fr_at r = Node INVOKE" "fr_end r = None"
  shows "run_inv N L (activate E INVOKE r)"
proof -
  obtain q c P where fr: "fr_frame r = Some (FailoverFrame (InvokeStep q c) P)" and ci: "context_inv N L r c"
    and n: "int (wire_attempts r) = rc_attempt_ordinal c" "length (fr_log r) = 2 * wire_attempts r + 1"
    using i at by (auto simp: run_inv_def)
  have less: "wire_attempts r < N" using ci n by (simp add: context_inv_def)
  let ?a = "invoke_once (env_sha256_hex E) (env_class E) (env_attempt E) (Some (fo_config (env_failover E)))
    (fo_plan_binding (env_failover E)) (env_config E (length (fr_log r))) (FailoverFrame (InvokeStep q c) P) (fr_world r)"
  obtain m w' where m: "?a = (m, w')" by (cases ?a)
  show ?thesis
  proof (cases m)
    case (Inl e)
    with m fr n less show ?thesis
      by (simp add: activate_def settle_frame_def Let_def run_inv_def wire_attempts_def)
  next
    case (Inr f)
    with m invoke_once_ok [of _ _ _ _ _ _ _ _ f w']
    obtain out plan where "f = FailoverFrame (ObserveStep q c out) plan" by (metis failover_frame.sel(1) failover_step.inject(1))
    with m Inr fr n less ci show ?thesis
      by (simp add: activate_def settle_frame_def Let_def run_inv_def wire_attempts_def context_inv_def)
  qed
qed

lemma context_inv_next:
  assumes b: "budgets_within E N L" and ci: "context_inv N L r c"
    and cfg: "bound_config E i = Inr (plan, k)" and d: "observe_and_route out plan c = Inr d"
    and c': "observed_context out c = Inr c'" and p: "prepares c' d plan nxt"
  obtains q' c'' where "nxt = FailoverFrame (InvokeStep q' c'') plan" "context_inv N L r c''"
    "rc_attempt_ordinal c'' = rc_attempt_ordinal c + 1"
proof -
  from p obtain st a q' c'' where pr: "fd_route d = RoutePrepare" "fd_strategy d = Some st" "fd_preparation d = Some a"
    "next_attempt_context c' st a = Inr c''" "nxt = FailoverFrame (InvokeStep q' c'') plan"
    by (auto simp: prepares_def)
  from observe_and_route_prepare [OF d pr(1)] pr(2,3)
  have a: "(\<exists>t. a = TransformRequest t) = (st = TRANSFORM_REQUEST)" "(a = SwitchEndpoint) = (st = SWITCH_ENDPOINT)"
      "(a = RotateCredential) = (st = ROTATE_CREDENTIAL)" and wb: "within_budget st plan c"
    by (metis option.inject)+
  have g: "good_context c'" using ci observed_context_ok [OF c'] by (simp add: context_inv_def)
  from next_attempt_context_total [OF g a] pr(4) have n: "good_context c''" "attempt_after c' st a c''" by (metis sum.inject(2))+
  have lim: "rb_max_wire_attempts (fp_budget (pl_profile plan)) \<le> int N" "max_uses_for (fp_budget (pl_profile plan)) st \<le> L st"
    using b cfg by (auto simp: budgets_within_def)
  have "uses_for c'' st' \<le> L st'" for st'
    using ci n(2) wb lim(2) observed_context_ok(3) [OF c'] by (auto simp: context_inv_def attempt_after_def within_budget_def)
  then have "context_inv N L r c''"
    using ci n wb lim(1) observed_context_ok(1,4) [OF c'] by (auto simp: context_inv_def attempt_after_def within_budget_def)
  moreover have "rc_attempt_ordinal c'' = rc_attempt_ordinal c + 1"
    using n(2) observed_context_ok(1) [OF c'] by (simp add: attempt_after_def)
  ultimately show thesis using pr(5) that by blast
qed

lemma run_inv_prepare:
  fixes r :: "('q, 'r, 'c, 'h, 't, 'w) failover_run"
  assumes b: "budgets_within E N L" and i: "run_inv N L r" and at: "fr_at r = Node PREPARE" "fr_end r = None"
  shows "run_inv N L (activate E PREPARE r)"
proof -
  obtain q c out P where fr: "fr_frame r = Some (FailoverFrame (ObserveStep q c out) P)" and ci: "context_inv N L r c"
    and n: "int (wire_attempts r) = rc_attempt_ordinal c + 1" "length (fr_log r) = 2 * wire_attempts r"
    using i at by (auto simp: run_inv_def)
  have less: "wire_attempts r \<le> N" using ci n by (simp add: context_inv_def)
  let ?a = "prepare_next_attempt (env_sha256_hex E) (env_class E) (env_prepare E) (fo_preparation (env_failover E))
    (Some (fo_config (env_failover E))) (fo_prepare_binding (env_failover E)) (env_config E (length (fr_log r)))
    (FailoverFrame (ObserveStep q c out) P) (fr_world r)"
  obtain m w' where m: "?a = (m, w')" by (cases ?a)
  consider e where "m = Inl e" | msg where "m = Inr (GraphFailure msg)" | nxt res route where "m = Inr (GraphSuccess nxt res route)"
    by (metis sum.exhaust prepare_outcome.exhaust)
  then show ?thesis
  proof cases
    case 1
    with m fr n less show ?thesis by (simp add: activate_def Let_def run_inv_def wire_attempts_def)
  next
    case 2
    with m fr n less show ?thesis by (simp add: activate_def Let_def run_inv_def wire_attempts_def)
  next
    case 3
    from m [unfolded 3] obtain q0 c0 out0 plan k d c' where
      eq: "frame_step (FailoverFrame (ObserveStep q c out) P) = ObserveStep q0 c0 out0"
      and p0: "runtime_config (env_sha256_hex E) (env_class E) (env_config E (length (fr_log r)))
          (fo_prepare_binding (env_failover E))
          (or_else (Some (fo_config (env_failover E))) (frame_plan (FailoverFrame (ObserveStep q c out) P)))
          (fo_preparation (env_failover E)) = Inr (plan, k)"
      "rc_plan_revision c0 = pl_plan_revision plan" "observe_and_route out0 plan c0 = Inr d"
      "observed_context out0 c0 = Inr c'" "res = FailoverResult q0 c' out0 d"
      "route = FINISH_ROUTE \<and> fd_route d \<noteq> RoutePrepare \<and> nxt = FailoverFrame (ObserveStep q0 c' out0) plan \<or>
       route = PREPARE_ROUTE \<and> prepares c' d plan nxt"
      by (rule prepare_next_attempt_ok)
    from eq have e: "q0 = q" "c0 = c" "out0 = out" by simp_all
    note p = p0 [unfolded e or_else_Some]
    have act: "activate E PREPARE r = r\<lparr>fr_at := follow (Node PREPARE) (Some route), fr_frame := Some nxt, fr_result := Some res,
         fr_log := fr_log r @ [PREPARE], fr_world := w'\<rparr>"
      using m fr 3 by (simp add: activate_def Let_def)
    from p(6) show ?thesis
    proof
      assume "route = FINISH_ROUTE \<and> fd_route d \<noteq> RoutePrepare \<and> nxt = FailoverFrame (ObserveStep q c' out) plan"
      then show ?thesis unfolding act using p(5) ci n less observed_context_ok [OF p(4)]
        by (simp add: run_inv_def wire_attempts_def context_inv_def)
    next
      assume pr: "route = PREPARE_ROUTE \<and> prepares c' d plan nxt"
      then obtain q' c'' where "nxt = FailoverFrame (InvokeStep q' c'') plan" "context_inv N L r c''"
        "rc_attempt_ordinal c'' = rc_attempt_ordinal c + 1"
        using context_inv_next [OF b ci p(1,3,4)] by blast
      then show ?thesis unfolding act using pr n less by (simp add: run_inv_def wire_attempts_def context_inv_def)
    qed
  qed
qed

lemma run_inv_step:
  assumes "budgets_within E N L" "run_inv N L r"
  shows "run_inv N L (graph_step E r)"
proof (cases "fr_end r = None")
  case False
  then show ?thesis using assms by (simp add: graph_step_def)
next
  case True
  show ?thesis
  proof (cases "fr_at r")
    case START
    then show ?thesis using assms True by (simp add: run_inv_def)
  next
    case (Node n)
    then show ?thesis using assms True
      by (cases n) (auto simp: graph_step_def intro: run_inv_observe run_inv_invoke run_inv_prepare)
  next
    case END
    then show ?thesis using assms True by (simp add: graph_step_def)
  qed
qed

lemma run_inv_run: "budgets_within E N L \<Longrightarrow> run_inv N L (run_failover E fuel call w)"
  by (induction fuel) (simp_all add: run_failover_def run_inv_start run_inv_step)

section \<open>Every run stops\<close>

lemma stopped_step: "stopped r \<Longrightarrow> graph_step E r = r"
  by (auto simp: stopped_def graph_step_def split: graph_vertex.splits)

lemma activate_log:
  assumes "run_inv N L r" "fr_at r = Node n" "fr_end r = None"
  shows "length (fr_log (activate E n r)) = Suc (length (fr_log r))"
  using assms
  by (cases n) (auto simp: activate_def settle_frame_def Let_def run_inv_def split: prod.splits sum.splits prepare_outcome.splits)

lemma run_progress:
  assumes b: "budgets_within E N L"
  shows "stopped (run_failover E fuel call w) \<or> length (fr_log (run_failover E fuel call w)) = fuel"
proof (induction fuel)
  case 0
  then show ?case by (simp add: run_failover_def failover_start_def)
next
  case (Suc fuel)
  let ?r = "run_failover E fuel call w"
  have s: "run_failover E (Suc fuel) call w = graph_step E ?r" by (simp add: run_failover_def)
  have i: "run_inv N L ?r" by (rule run_inv_run [OF b])
  show ?case
  proof (cases "stopped ?r")
    case True
    then show ?thesis using s by (simp add: stopped_step)
  next
    case False
    then obtain n where n: "fr_at ?r = Node n" "fr_end ?r = None"
      using i by (cases "fr_at ?r") (auto simp: stopped_def run_inv_def)
    from activate_log [OF i n, of E] n show ?thesis using s Suc False by (simp add: graph_step_def)
  qed
qed

lemma run_stops:
  assumes b: "budgets_within E N L" and f: "2 * N + 1 < fuel"
  shows "stopped (run_failover E fuel call w)"
  using run_progress [OF b, of fuel call w] run_inv_run [OF b, of fuel call w] f by (auto simp: run_inv_def)

section \<open>Runs whose Ports answer\<close>

text \<open>
  What the graph relies on of the code around it: the plan bound at every activation is the one
  plan \<open>P\<close>, and the two capabilities return (rather than raise), with a well-formed outcome.
\<close>

definition answering :: "('k, 'q, 'r, 'c, 'h, 't, 'w, 'x) failover_env \<Rightarrow> 't failover_plan \<Rightarrow> bool" where
  "answering E P \<longleftrightarrow> wf_timing (fp_timing (pl_profile P)) \<and> 1 \<le> pl_plan_revision P \<and>
     (\<forall>i. bound_plan E i = Inr P \<and> (\<exists>k. bound_config E i = Inr (P, k))) \<and>
     (\<forall>q w. \<exists>out w'. env_attempt E q w = (Inr out, w') \<and> wf_outcome out) \<and>
     (\<forall>k q a w. \<exists>q' w'. env_prepare E k q a w = (Inr q', w'))"

definition attempts_of :: "'t failover_plan \<Rightarrow> nat" where
  "attempts_of P = nat (max 1 (rb_max_wire_attempts (fp_budget (pl_profile P))))"

definition uses_of :: "'t failover_plan \<Rightarrow> failure_strategy \<Rightarrow> int" where
  "uses_of P st = max 0 (max_uses_for (fp_budget (pl_profile P)) st)"

lemma answering_budgets: "answering E P \<Longrightarrow> budgets_within E (attempts_of P) (uses_of P)"
proof -
  assume a: "answering E P"
  have "plan = P" if "bound_config E i = Inr (plan, k)" for i plan k
  proof -
    from a obtain k' where "bound_config E i = Inr (P, k')" unfolding answering_def by blast
    with that show ?thesis by simp
  qed
  then show ?thesis unfolding budgets_within_def attempts_of_def uses_of_def by force
qed

lemma observed_policy_context:
  assumes "observed_context out c = Inr c'"
  shows "observed_policy out plan c' = observed_policy out plan c"
proof -
  have "backoff_seconds plan c' e = backoff_seconds plan c e" for e
    using observed_context_ok(1) [OF assms] by (simp add: backoff_seconds_def)
  then have "action_for st e plan c' = action_for st e plan c" for st e by (cases st) (simp_all add: action_for_def)
  moreover have "within_budget st plan c' = within_budget st plan c" for st
    using observed_context_ok(1,3) [OF assms] by (simp add: within_budget_def)
  ultimately have "rejected_policy e plan c' = rejected_policy e plan c" for e
    by (cases "map_of fixed_rules (FailureSignal (fe_status_code e) (fe_error_hint e))")
      (simp_all add: rejected_policy_def Let_def)
  then show ?thesis by (cases out) (simp_all add: observed_policy_def)
qed

lemma observed_context_total:
  assumes "wf_outcome out" "good_context c"
  obtains c' where "observed_context out c = Inr c'"
  using assms
  by (cases out) (auto simp: observed_context_def with_failure_def evidence_signal_ok wf_outcome_def retry_context_post_init_ok
      good_context_def wf_context_def)

definition final_result :: "'t failover_plan \<Rightarrow> ('q, 'r, 'c, 'h, 't) failover_result \<Rightarrow> bool" where
  "final_result P res \<longleftrightarrow> res_decision res = observed_policy (res_outcome res) P (res_context res) \<and>
     fd_route (res_decision res) \<in> {RouteCompleted, RouteReturnToModel}"

definition live_inv :: "'t failover_plan \<Rightarrow> ('q, 'r, 'c, 'h, 't, 'w) failover_run \<Rightarrow> bool" where
  "live_inv P r \<longleftrightarrow>
     (case fr_end r of
        Some (Inl e) \<Rightarrow> False
      | Some (Inr msg) \<Rightarrow> msg = ''failover policy aborted the operation''
      | None \<Rightarrow> (case fr_at r of
            Node INVOKE \<Rightarrow> rc_plan_revision (step_context (frame_step (the (fr_frame r)))) = pl_plan_revision P
          | Node PREPARE \<Rightarrow> rc_plan_revision (step_context (frame_step (the (fr_frame r)))) = pl_plan_revision P \<and>
              wf_outcome (step_outcome (frame_step (the (fr_frame r))))
          | END \<Rightarrow> final_result P (the (fr_result r))
          | _ \<Rightarrow> True))"

lemma live_inv_observe:
  assumes a: "answering E P" and c: "is_canonical_identity (call_operation_id (fr_call r))" and at: "fr_end r = None"
  shows "live_inv P (activate E OBSERVE r)"
  using assms
  by (simp add: activate_def Let_def settle_frame_def observe_call_def answering_def new_retry_context_def
      retry_context_post_init_ok wf_context_def mk_FailoverFrame_def live_inv_def retry_context_post_init_def)

lemma live_inv_invoke:
  assumes a: "answering E P" and i: "run_inv N L r" and l: "live_inv P r" and at: "fr_at r = Node INVOKE" "fr_end r = None"
  shows "live_inv P (activate E INVOKE r)"
proof -
  obtain q c Q where fr: "fr_frame r = Some (FailoverFrame (InvokeStep q c) Q)" using i at by (auto simp: run_inv_def)
  obtain out w' where "env_attempt E q (fr_world r) = (Inr out, w')" "wf_outcome out" using a by (auto simp: answering_def) metis
  moreover have "rc_plan_revision c = pl_plan_revision P" using l at fr by (simp add: live_inv_def)
  moreover have "bound_plan E (length (fr_log r)) = Inr P" using a by (simp add: answering_def)
  ultimately show ?thesis using fr at
    by (simp add: activate_def Let_def settle_frame_def invoke_once_def mk_FailoverFrame_def live_inv_def)
qed

lemma observed_policy_shape:
  "fd_route (observed_policy out P c) = RouteAbort \<or>
   fd_route (observed_policy out P c) \<in> {RouteCompleted, RouteReturnToModel} \<and>
     (fd_route (observed_policy out P c) = RouteCompleted \<longrightarrow> (\<exists>x. out = Completed x)) \<or>
   fd_route (observed_policy out P c) = RoutePrepare"
  using observed_policy_completed [of out P c] by (cases "fd_route (observed_policy out P c)") simp_all

lemma live_inv_prepare:
  assumes a: "answering E P" and i: "run_inv N L r" and l: "live_inv P r" and at: "fr_at r = Node PREPARE" "fr_end r = None"
  shows "live_inv P (activate E PREPARE r)"
proof -
  obtain q c out Q where fr: "fr_frame r = Some (FailoverFrame (ObserveStep q c out) Q)" and g: "good_context c"
    using i at by (auto simp: run_inv_def context_inv_def)
  have rv: "rc_plan_revision c = pl_plan_revision P" and wo: "wf_outcome out" using l at fr by (simp_all add: live_inv_def)
  obtain k where cfg: "bound_config E (length (fr_log r)) = Inr (P, k)" using a unfolding answering_def by blast
  have wt: "wf_timing (fp_timing (pl_profile P))" using a by (simp add: answering_def)
  define d where "d = observed_policy out P c"
  have d: "observe_and_route out P c = Inr d" unfolding d_def by (rule observe_and_route_policy [OF wo wt rv])
  obtain c' where c': "observed_context out c = Inr c'" by (rule observed_context_total [OF wo g])
  have rv': "rc_plan_revision c' = pl_plan_revision P" and g': "good_context c'"
    using observed_context_ok [OF c'] rv g by simp_all
  have d': "d = observed_policy out P c'" unfolding d_def by (rule observed_policy_context [OF c', symmetric])
  note act = fr at cfg rv rv' d c'
  show ?thesis
  proof (cases "fd_route d")
    case RoutePrepare
    then obtain e st ac where pr: "fd_strategy d = Some st" "fd_preparation d = Some ac"
      and sh: "(\<exists>t. ac = TransformRequest t) = (st = TRANSFORM_REQUEST)" "(ac = SwitchEndpoint) = (st = SWITCH_ENDPOINT)"
        "(ac = RotateCredential) = (st = ROTATE_CREDENTIAL)"
      by (rule observe_and_route_prepare [OF d])
    obtain c'' where c'': "next_attempt_context c' st ac = Inr c''" "attempt_after c' st ac c''"
      by (rule next_attempt_context_total [OF g' sh])
    obtain q' w' where "env_prepare E k q ac (fr_world r) = (Inr q', w')" using a by (auto simp: answering_def) metis
    with act RoutePrepare pr c'' show ?thesis
      by (simp add: activate_def Let_def prepare_next_attempt_def mk_FailoverResult_def mk_FailoverFrame_def live_inv_def
          attempt_after_def)
  next
    case RouteAbort
    with act show ?thesis by (simp add: activate_def Let_def prepare_next_attempt_def live_inv_def)
  next
    case RouteReturnToModel
    with act d' show ?thesis
      by (simp add: activate_def Let_def prepare_next_attempt_def mk_FailoverResult_def mk_FailoverFrame_def live_inv_def
          final_result_def)
  next
    case RouteCompleted
    with d_def obtain x where "out = Completed x" by (metis observed_policy_completed)
    with RouteCompleted act d' show ?thesis
      by (simp add: activate_def Let_def prepare_next_attempt_def mk_FailoverResult_def mk_FailoverFrame_def live_inv_def
          final_result_def)
  qed
qed

lemma fr_call_step [simp]: "fr_call (graph_step E r) = fr_call r"
  by (auto simp: graph_step_def activate_def settle_frame_def Let_def
      split: graph_vertex.splits failover_node_id.splits option.splits prod.splits sum.splits prepare_outcome.splits)

lemma fr_call_run: "fr_call (run_failover E fuel call w) = call"
  by (induction fuel) (simp_all add: run_failover_def failover_start_def)

lemma live_inv_run:
  assumes a: "answering E P" and c: "is_canonical_identity (call_operation_id call)"
  shows "live_inv P (run_failover E fuel call w)"
proof (induction fuel)
  case 0
  then show ?case by (simp add: run_failover_def failover_start_def live_inv_def)
next
  case (Suc fuel)
  let ?r = "run_failover E fuel call w"
  have i: "run_inv (attempts_of P) (uses_of P) ?r" by (rule run_inv_run [OF answering_budgets [OF a]])
  have s: "run_failover E (Suc fuel) call w = graph_step E ?r" by (simp add: run_failover_def)
  have oi: "is_canonical_identity (call_operation_id (fr_call ?r))" using c by (simp add: fr_call_run)
  show ?case
  proof (cases "fr_end ?r = None")
    case False
    then show ?thesis using Suc s by (simp add: graph_step_def)
  next
    case True
    show ?thesis
    proof (cases "fr_at ?r")
      case START
      then show ?thesis using i True by (simp add: run_inv_def)
    next
      case (Node n)
      then show ?thesis unfolding s using True Suc live_inv_observe [OF a oi True] live_inv_invoke [OF a i Suc _ True]
          live_inv_prepare [OF a i Suc _ True]
        by (cases n) (simp_all add: graph_step_def)
    next
      case END
      then show ?thesis using Suc s True by (simp add: graph_step_def)
    qed
  qed
qed

end
