(* ===== verification/Failover_Properties.thy ===== *)
theory Failover_Properties
  imports Failover_Run Config_Properties
begin

text \<open>
  The properties of the failover component: the policy, the back-off, plan resolution, the
  binding of a Config, and the runs of the failover graph.
\<close>

section \<open>Binding\<close>

lemma failover_matches_ok:
  "failover_matches port ps = Inr fs \<Longrightarrow>
     f \<in> set fs \<Longrightarrow> FailoverSlice f \<in> set ps \<and> fc_port_id f = port \<and> failover_config_post_init f = Inr ()"
proof (induction port ps arbitrary: fs rule: failover_matches.induct)
  case (1 port)
  then show ?case by simp
next
  case (2 port x ps)
  then show ?case by simp
next
  case (3 port g ps)
  from 3(2) obtain rest where r: "failover_matches port ps = Inr rest" "failover_config_post_init g = Inr ()"
    "fs = (if fc_port_id g = port then g # rest else rest)"
    by (auto simp: resE failover_class_def)
  with 3 show ?case by (auto simp: resE failover_class_def split: if_splits)
qed

lemma failover_config_for_port_ok:
  assumes "failover_config_for_port cfg port required = Inr (Some f)"
  shows "FailoverSlice f \<in> set (cfg_failovers cfg)" "fc_port_id f = port" "failover_config_post_init f = Inr ()"
proof -
  from assms obtain fs where "failover_matches port (cfg_failovers cfg) = Inr fs" "f \<in> set fs"
    unfolding failover_config_for_port_def bindE_eq_Inr by (auto split: if_splits list.split_asm)
  then have "FailoverSlice f \<in> set (cfg_failovers cfg) \<and> fc_port_id f = port \<and> failover_config_post_init f = Inr ()"
    by (rule failover_matches_ok)
  then show "FailoverSlice f \<in> set (cfg_failovers cfg)" "fc_port_id f = port" "failover_config_post_init f = Inr ()"
    by simp_all
qed

lemma failover_config_post_init_ok:
  assumes "failover_config_post_init f = Inr ()"
  shows "wf_key (fc_snapshot_key f)" "is_canonical_identity (fc_port_id f)" "pl_port_id (fc_plan f) = fc_port_id f"
    "1 \<le> pl_plan_revision (fc_plan f)"
  using assms by (auto simp: failover_config_post_init_def resE config_slice_post_init_def mk_FailoverPlan_def split: if_splits)

lemma bound_projections:
  assumes w: "wf_complete_config sha (kernel_slice_class C) cfg"
    and f: "failover_config_for_port cfg port required = Inr (Some f)"
    and b: "fb_port_id b = port" "fb_required b = required"
  shows "runtime_plan sha C (Some cfg) (Some b) (fc_plan f) = Inr (fc_plan f)"
    "runtime_config sha C (Some cfg) (Some b) (fc_plan f) k = Inr (fc_plan f, fc_preparation f)"
proof -
  note i = failover_config_for_port_ok [OF f]
  note v = failover_config_post_init_ok [OF i(3)]
  have "FailoverSlice f \<in> set (config_projections cfg)" using i(1) by (simp add: config_projections_def)
  with w have key: "fc_snapshot_key f = cs_key (cfg_snapshot cfg)" by (auto simp: wf_complete_config_def kernel_slice_class_def)
  define p where "p = \<lparr>fpc_snapshot_key = fc_snapshot_key f, fpc_port_id = fc_port_id f, fpc_plan = fc_plan f\<rparr>"
  define q where "q = \<lparr>fpp_snapshot_key = fc_snapshot_key f, fpp_port_id = fc_port_id f, fpp_plan = fc_plan f,
    fpp_preparation = fc_preparation f\<rparr>"
  have rk: "revalidate_snapshot_key (fc_snapshot_key f) = Inr (fc_snapshot_key f)" using v(1) by (simp add: resE)
  have ip: "plan_config_post_init p = Inr ()" and iq: "prepare_config_post_init q = Inr ()"
    using v rk by (simp_all add: p_def q_def plan_config_post_init_def prepare_config_post_init_def config_slice_post_init_def)
  have "plan_binding_select b cfg = Inr (Some p)"
    using f b ip by (simp add: plan_binding_select_def p_def [symmetric])
  then have "config_bind sha (kernel_slice_class C) plan_config_class cfg (plan_binding_select b) = Inr (Some p)"
    using w ip key by (simp add: config_bind_ok plan_config_class_def p_def)
  then show "runtime_plan sha C (Some cfg) (Some b) (fc_plan f) = Inr (fc_plan f)"
    by (simp add: runtime_plan_def as_failover_error_def p_def)
  have "prepare_binding_select b cfg = Inr (Some q)"
    using f b iq by (simp add: prepare_binding_select_def q_def [symmetric])
  then have "config_bind sha (kernel_slice_class C) prepare_config_class cfg (prepare_binding_select b) = Inr (Some q)"
    using w iq key by (simp add: config_bind_ok prepare_config_class_def q_def)
  then show "runtime_config sha C (Some cfg) (Some b) (fc_plan f) k = Inr (fc_plan f, fc_preparation f)"
    by (simp add: runtime_config_def as_failover_error_def q_def)
qed

section \<open>A sample\<close>

definition sample_evidence :: failure_evidence where
  "sample_evidence = \<lparr>fe_category = RATE_LIMITED, fe_status_code = Some 429, fe_error_hint = Some ''rate_limited'',
     fe_provider_code = None, fe_message = None, fe_retry_after_seconds = Some 7\<rparr>"

definition sample_plan :: "nat failover_plan" where
  "sample_plan = \<lparr>pl_plan_revision = 1, pl_port_id = ''port'', pl_profile =
     \<lparr>fp_profile_id = ''profile'',
      fp_budget = \<lparr>rb_max_wire_attempts = 3, rb_hard_max_wire_attempts = 10, rb_default_max_strategy_uses = 1, rb_strategy_limits = []\<rparr>,
      fp_timing = \<lparr>rt_base_backoff_seconds = 1, rt_max_backoff_seconds = 60, rt_attempt_timeout_seconds = 30, rt_total_deadline_seconds = 300\<rparr>,
      fp_semantics = NON_REPEATABLE, fp_request_transform = None\<rparr>\<rparr>"

text \<open>The Port rejects its first call with a rate limit and completes the second.\<close>

definition sample_env :: "(unit, string, nat, unit, unit, nat, nat, unit) failover_env" where
  "sample_env = \<lparr>env_sha256_hex = (\<lambda>_. ''d''),
     env_class = \<lparr>slice_key = (\<lambda>_. ConfigSnapshotKey ''cfg'' 1 1), slice_post_init = (\<lambda>_. Inr ())\<rparr>,
     env_failover = \<lparr>fo_config = sample_plan, fo_preparation = (), fo_plan_binding = None, fo_prepare_binding = None\<rparr>,
     env_attempt = (\<lambda>q w. (Inr (if w = 0 then Rejected sample_evidence else Completed w), w + 1)),
     env_prepare = (\<lambda>k q a w. (Inr q, w)), env_config = (\<lambda>_. None)\<rparr>"

lemma sample_evidence_wf: "wf_failure_evidence sample_evidence"
  by code_simp

lemma sample_timing_wf: "wf_timing (fp_timing (pl_profile sample_plan))"
  by (simp add: wf_timing_def sample_plan_def)

lemma sample_answering: "answering sample_env sample_plan"
  using sample_timing_wf sample_evidence_wf
  by (auto simp: answering_def sample_env_def runtime_plan_def runtime_config_def wf_outcome_def)
     (simp add: sample_plan_def)

lemma sample_canonical: "is_canonical_identity ''op''"
  by code_simp

section \<open>Properties\<close>

text \<open>
  C34. With well-formed evidence, valid timing and the captured plan revision, observation never
  raises and takes the decision of the policy written as a table: a completed outcome completes;
  only a rejection whose exact status and hint are in the fixed table can lead to another
  attempt, and only while both the wire-attempt limit and the strategy's own limit leave room;
  an exhausted budget, an unknown signal, a pending or an unknown outcome go back to the model.
\<close>

theorem observe_and_route_exact:
  assumes "wf_outcome out" and "wf_timing (fp_timing (pl_profile plan))" and "rc_plan_revision c = pl_plan_revision plan"
  shows "observe_and_route out plan c = Inr (observed_policy out plan c)"
  using assms by (rule observe_and_route_policy)

definition sample_context :: retry_context where
  "sample_context = \<lparr>rc_operation_id = ''op'', rc_plan_revision = 1, rc_request_version = 1, rc_attempt_ordinal = 0,
     rc_endpoint_cursor = 0, rc_credential_cursor = 0, rc_strategy_usages = [], rc_last_failure = None, rc_last_signal = None,
     rc_last_strategy = None, rc_wait_until = None\<rparr>"

theorem observe_and_route_exact_witness:
  "observe_and_route (Rejected sample_evidence :: (nat, unit, unit) port_outcome) sample_plan sample_context =
     Inr (observed_policy (Rejected sample_evidence :: (nat, unit, unit) port_outcome) sample_plan sample_context)"
proof (rule observe_and_route_exact)
  show "wf_outcome (Rejected sample_evidence :: (nat, unit, unit) port_outcome)"
    by (simp add: wf_outcome_def sample_evidence_wf)
  show "wf_timing (fp_timing (pl_profile sample_plan))" by (rule sample_timing_wf)
  show "rc_plan_revision sample_context = pl_plan_revision sample_plan" by (simp add: sample_context_def sample_plan_def)
qed

text \<open>
  C35. The back-off loop computes \<open>min(max_backoff, base * 2^attempt)\<close> with the exponent capped
  at 1024, raised to the provider's \<open>retry_after\<close> when there is one; without one it is at least
  zero, never above \<open>max_backoff_seconds\<close>, and does not shrink from one attempt to the next.
\<close>

theorem backoff_bounds:
  assumes "wf_timing (fp_timing (pl_profile plan))" and "0 \<le> rc_attempt_ordinal c"
  shows "backoff_seconds plan c e = max (or_else (fe_retry_after_seconds e) 0)
      (min (rt_max_backoff_seconds (fp_timing (pl_profile plan)))
        (rt_base_backoff_seconds (fp_timing (pl_profile plan)) * 2 ^ nat (min (rc_attempt_ordinal c) 1024))) \<and>
    (fe_retry_after_seconds e = None \<longrightarrow>
       0 \<le> backoff_seconds plan c e \<and> backoff_seconds plan c e \<le> rt_max_backoff_seconds (fp_timing (pl_profile plan)) \<and>
       backoff_seconds plan c e \<le> backoff_seconds plan (c\<lparr>rc_attempt_ordinal := rc_attempt_ordinal c + 1\<rparr>) e)"
proof -
  let ?b = "rt_base_backoff_seconds (fp_timing (pl_profile plan))"
  have b: "0 \<le> ?b" "0 \<le> rt_max_backoff_seconds (fp_timing (pl_profile plan))"
    using assms by (simp_all add: wf_timing_def)
  have "?b * 2 ^ nat (min (rc_attempt_ordinal c) 1024) \<le> ?b * 2 ^ nat (min (rc_attempt_ordinal c + 1) 1024)"
    using b by (intro mult_left_mono power_increasing nat_mono) auto
  then show ?thesis using assms b
    by (auto simp: backoff_seconds_closed or_else_def Let_def max.commute max_def min_le_iff_disj min.bounded_iff
        split: option.splits)
qed

theorem backoff_bounds_witness:
  "backoff_seconds sample_plan sample_context (sample_evidence\<lparr>fe_retry_after_seconds := None\<rparr>) \<le> 60"
proof -
  have "0 \<le> rc_attempt_ordinal sample_context" by (simp add: sample_context_def)
  from backoff_bounds [OF sample_timing_wf this, of "sample_evidence\<lparr>fe_retry_after_seconds := None\<rparr>"]
  show ?thesis by (simp add: sample_plan_def or_else_def)
qed

text \<open>
  C32. The retry loop is bounded, whatever the Ports and the Configs do. When no plan that can be
  bound allows more than \<open>N\<close> wire attempts or more than \<open>L st\<close> uses of a strategy, every run of
  the graph has stopped after \<open>2 * N + 2\<close> activations, called the Port at most \<open>N\<close> times, and a
  run that finished carries a context whose cursors count exactly what was done: its ordinal is
  the number of retries, the sum of the uses of all strategies, and no strategy exceeded \<open>L\<close>.
\<close>

theorem failover_bounded:
  assumes "budgets_within E N L" and "2 * N + 2 \<le> fuel"
  shows "stopped (run_failover E fuel call w) \<and> wire_attempts (run_failover E fuel call w) \<le> N \<and>
    (fr_end (run_failover E fuel call w) = None \<longrightarrow>
      (\<exists>res. fr_result (run_failover E fuel call w) = Some res \<and>
        int (wire_attempts (run_failover E fuel call w)) = rc_attempt_ordinal (res_context res) + 1 \<and>
        cursors_agree (res_context res) \<and> (\<forall>st. uses_for (res_context res) st \<le> L st)))"
proof -
  let ?r = "run_failover E fuel call w"
  have i: "run_inv N L ?r" by (rule run_inv_run [OF assms(1)])
  have st: "stopped ?r" using assms(2) by (intro run_stops [OF assms(1)]) simp
  moreover have "wire_attempts ?r \<le> N" using i by (simp add: run_inv_def)
  moreover have "\<exists>res. fr_result ?r = Some res \<and> int (wire_attempts ?r) = rc_attempt_ordinal (res_context res) + 1 \<and>
        cursors_agree (res_context res) \<and> (\<forall>st. uses_for (res_context res) st \<le> L st)" if "fr_end ?r = None"
  proof -
    from that st have "fr_at ?r = END" by (simp add: stopped_def)
    with i that show ?thesis by (auto simp: run_inv_def context_inv_def good_context_def)
  qed
  ultimately show ?thesis by blast
qed

theorem failover_bounded_witness:
  "wire_attempts (run_failover sample_env 8 (FailoverCall ''op'' ''q'') 0) \<le> 3"
proof -
  have n: "attempts_of sample_plan = 3" by code_simp
  from failover_bounded [OF answering_budgets [OF sample_answering], of 8 "FailoverCall ''op'' ''q''" 0]
  show ?thesis unfolding n by simp
qed

text \<open>
  C33. When the capabilities answer and every activation binds the same plan, a run neither
  hangs nor raises: within \<open>2 * max_wire_attempts + 2\<close> activations it either finishes with the
  last outcome, the decision the policy takes on it, and a route that completes or returns to
  the model, or it settles as the failure with which the policy aborts the operation.
\<close>

theorem failover_finishes:
  assumes "answering E P" and "is_canonical_identity (call_operation_id call)" and "2 * attempts_of P + 2 \<le> fuel"
  shows "(\<exists>res. fr_at (run_failover E fuel call w) = END \<and> fr_end (run_failover E fuel call w) = None \<and>
       fr_result (run_failover E fuel call w) = Some res \<and>
       res_decision res = observed_policy (res_outcome res) P (res_context res) \<and>
       (fd_route (res_decision res) = RouteCompleted \<longleftrightarrow> (\<exists>x. res_outcome res = Completed x)) \<and>
       fd_route (res_decision res) \<in> {RouteCompleted, RouteReturnToModel}) \<or>
     fr_end (run_failover E fuel call w) = Some (Inr ''failover policy aborted the operation'')"
proof -
  let ?r = "run_failover E fuel call w"
  note b = answering_budgets [OF assms(1)]
  have st: "stopped ?r" using assms(3) by (intro run_stops [OF b]) simp
  have i: "run_inv (attempts_of P) (uses_of P) ?r" by (rule run_inv_run [OF b])
  have l: "live_inv P ?r" by (rule live_inv_run [OF assms(1,2)])
  show ?thesis
  proof (cases "fr_end ?r")
    case None
    with st have at: "fr_at ?r = END" by (simp add: stopped_def)
    with None i obtain res where res: "fr_result ?r = Some res" by (auto simp: run_inv_def)
    with l None at have "final_result P res" by (simp add: live_inv_def)
    with res None at observed_policy_completed [of "res_outcome res" P "res_context res"] show ?thesis
      by (auto simp: final_result_def)
  next
    case (Some x)
    with l show ?thesis by (cases x) (simp_all add: live_inv_def)
  qed
qed

theorem failover_finishes_witness:
  "fr_at (run_failover sample_env 8 (FailoverCall ''op'' ''q'') 0) = END \<or>
   fr_end (run_failover sample_env 8 (FailoverCall ''op'' ''q'') 0) = Some (Inr ''failover policy aborted the operation'')"
proof -
  have c: "is_canonical_identity (call_operation_id (FailoverCall ''op'' ''q''))" using sample_canonical by simp
  have n: "2 * attempts_of sample_plan + 2 \<le> 8" by code_simp
  from failover_finishes [OF sample_answering c n, of 0] show ?thesis by blast
qed

text \<open>
  A Failover bound from a Config keeps working under that Config: when \<open>Failover.bind\<close>
  returns a decorator for a Port, its observe and invoke nodes select exactly the decorator's
  plan, and its prepare node that plan and the decorator's preparation capability, at every
  activation whose Config is the one it was bound from.
\<close>

lemma failover_bind_stable:
  assumes "failover_bind sha C cfg port required = Inr (Some fo)"
  shows "runtime_plan sha C (Some cfg) (fo_plan_binding fo) (fo_config fo) = Inr (fo_config fo) \<and>
    runtime_config sha C (Some cfg) (fo_prepare_binding fo) (fo_config fo) k = Inr (fo_config fo, fo_preparation fo) \<and>
    pl_port_id (fo_config fo) = port"
proof -
  from assms obtain f where w: "wf_complete_config sha (kernel_slice_class C) cfg"
    and f: "failover_config_for_port cfg port required = Inr (Some f)"
    and fo: "mk_Failover (fc_plan f) (fc_preparation f) (Some (FailoverBinding port required)) (Some (FailoverBinding port required)) = Inr fo"
    unfolding failover_bind_def
    by (auto simp: resE mk_binding_def failover_binding_select_def split: option.splits if_splits)
  have "pl_port_id (fc_plan f) = port"
    using failover_config_for_port_ok [OF f] failover_config_post_init_ok(3) by metis
  moreover from fo have "fo = \<lparr>fo_config = fc_plan f, fo_preparation = fc_preparation f, fo_plan_binding = Some (FailoverBinding port required),
     fo_prepare_binding = Some (FailoverBinding port required)\<rparr>" by (auto simp: mk_Failover_def split: if_splits)
  ultimately show ?thesis using bound_projections [OF w f, of "FailoverBinding port required"] by simp
qed

text \<open>
  C36. Resolving a Port's plan: a disabled binding has none; otherwise the plan has the
  snapshot's revision and the Port, and each field of its profile is the override's when the
  override gives one and the default profile's when it does not. Valid arguments never raise,
  and a malformed Port id always does.
\<close>

theorem resolve_plan_exact:
  assumes "config_snapshot_post_init s = Inr ()" and "profile_post_init (fs_default_profile s) = Inr ()"
    and "port_binding_post_init b = Inr ()"
  shows "resolve_plan s port b =
    (if \<not> is_canonical_identity port then Inl (FailoverContractError ''plan resolution port_id must be canonical'')
     else if pb_mode b = DISABLED then Inr None
     else Inr (Some \<lparr>pl_plan_revision = fs_revision s, pl_port_id = port,
       pl_profile = (fs_default_profile s)\<lparr>
         fp_budget := (case Option.bind (pb_override b) po_budget of Some v \<Rightarrow> v | None \<Rightarrow> fp_budget (fs_default_profile s)),
         fp_timing := (case Option.bind (pb_override b) po_timing of Some v \<Rightarrow> v | None \<Rightarrow> fp_timing (fs_default_profile s)),
         fp_semantics := (case Option.bind (pb_override b) po_semantics of Some v \<Rightarrow> v | None \<Rightarrow> fp_semantics (fs_default_profile s)),
         fp_request_transform := (case Option.bind (pb_override b) po_request_transform of
            Some v \<Rightarrow> Some v | None \<Rightarrow> fp_request_transform (fs_default_profile s))\<rparr>\<rparr>))"
proof -
  have r: "1 \<le> fs_revision s" and i: "is_canonical_identity (fp_profile_id (fs_default_profile s))"
    using assms by (auto simp: config_snapshot_post_init_def profile_post_init_def resE)
  show ?thesis
  proof (cases "pb_override b")
    case None
    then show ?thesis using r by (simp add: resolve_plan_def merge_profile_def mk_FailoverPlan_def)
  next
    case (Some ov)
    then show ?thesis using r i
      by (auto simp: resolve_plan_def merge_profile_def mk_FailoverPlan_def profile_post_init_def or_else_def Let_def
          split: option.splits)
  qed
qed

theorem resolve_plan_exact_witness:
  "resolve_plan \<lparr>fs_revision = 1, fs_default_profile = pl_profile sample_plan\<rparr> ''port'' \<lparr>pb_mode = INHERIT, pb_override = None\<rparr> =
     Inr (Some sample_plan)"
proof -
  have a: "config_snapshot_post_init \<lparr>fs_revision = 1, fs_default_profile = pl_profile sample_plan\<rparr> = Inr ()"
    and b: "profile_post_init (fs_default_profile \<lparr>fs_revision = 1, fs_default_profile = pl_profile sample_plan\<rparr>) = Inr ()"
    and c: "port_binding_post_init \<lparr>pb_mode = INHERIT, pb_override = None :: nat profile_override option\<rparr> = Inr ()"
    and p: "is_canonical_identity ''port''"
    by code_simp+
  from resolve_plan_exact [OF a b c, of "''port''"] p show ?thesis by (simp add: sample_plan_def)
qed

end
