(* ===== verification/Reducer_Advance.thy ===== *)
theory Reducer_Advance
  imports Reducer_Joins
begin

text \<open>
  When the reducer accepts an advance or a completion. \<open>advances\<close> states, over the valid state
  and the proposed successor frontier, what a proposal must satisfy; \<open>advance_enabled\<close> and
  \<open>complete_enabled\<close> show that it is sufficient: every check of the transition and the
  re-validation of the successor pass.
\<close>

section \<open>Indexes\<close>

lemma index_join_progress_total_aux:
  assumes "distinct (map jp_occurrence js)" and "\<forall>j\<in>set js. m (jp_occurrence j) = None"
  shows "\<exists>r. foldE (\<lambda>indexed item. if indexed (jp_occurrence item) \<noteq> None
        then Inl (state_error (label @ '' join progress repeats one join''))
        else Inr (indexed(jp_occurrence item \<mapsto> item))) m js = Inr r"
  using assms
proof (induction js arbitrary: m)
  case (Cons j js)
  define M where "M = m(jp_occurrence j \<mapsto> j)"
  have "\<forall>i\<in>set js. M (jp_occurrence i) = None" using Cons.prems by (auto simp: M_def) (metis imageI)
  from Cons.IH [OF _ this] Cons.prems show ?case by (simp add: M_def [symmetric] del: fun_upd_apply)
qed simp

lemma index_join_progress_total:
  assumes "distinct (map jp_occurrence js)"
  shows "index_join_progress js label = Inr (progress_index js)"
proof -
  from index_join_progress_total_aux [OF assms, of Map.empty label] obtain r where "index_join_progress js label = Inr r"
    unfolding index_join_progress_def by auto
  with index_join_progress_ok [OF this] show ?thesis by simp
qed

definition pending_arrivals :: "graph_run_state \<Rightarrow> graph_join_occurrence \<Rightarrow> activation_reference list" where
  "pending_arrivals s oc = (case progress_index (gr_join_progress s) oc of None \<Rightarrow> [] | Some j \<Rightarrow> jp_arrived j)"

lemma wf_joins_distinct: "wf_state s \<Longrightarrow> distinct (map jp_occurrence (gr_join_progress s))"
  by (simp add: wf_state_def wf_joins_def canonical_tuple_iff)

lemma pending_arrivals_past:
  assumes "wf_state s" "r \<in> set (pending_arrivals s oc)"
  shows "past_reference s r"
proof -
  from assms(2) obtain j where "progress_index (gr_join_progress s) oc = Some j" "r \<in> set (jp_arrived j)"
    by (cases "progress_index (gr_join_progress s) oc") (auto simp: pending_arrivals_def)
  with progress_index_SomeD [OF this(1)] assms(1) show ?thesis by (auto simp: wf_state_def wf_joins_def wf_progress_def)
qed

lemma pending_arrivals_mem:
  assumes "wf_state s" "j \<in> set (gr_join_progress s)"
  shows "pending_arrivals s (jp_occurrence j) = jp_arrived j"
  using progress_index_mem [OF wf_joins_distinct [OF assms(1)] assms(2)] by (simp add: pending_arrivals_def)

lemma frontier_reference_current:
  assumes w: "wf_state s" and r: "r \<in> set (frontier_references s)"
  shows "wf_reference r" "act_run_id (ref_activation r) = gr_run_id s" "act_superstep (ref_activation r) = gr_superstep s"
    "check_next_reference s acc r = Inr (fst acc @ [r], snd acc)"
proof -
  from r obtain x routing where x: "x \<in> set (gr_frontier s)" "fn_settlement x = SucceededGraphNode routing"
    "r = ActivationReference (GraphActivationIdentity (gr_run_id s) (gr_superstep s) (fn_node_id x)) (selected_route routing)"
    by (auto simp: frontier_references_mem)
  have d: "distinct (map fn_node_id (gr_frontier s))" and n: "wf_node s x"
    using w x(1) by (auto simp: wf_state_def wf_frontier_def canonical_tuple_iff)
  then show "wf_reference r" "act_run_id (ref_activation r) = gr_run_id s" "act_superstep (ref_activation r) = gr_superstep s"
    using w x by (auto simp: wf_reference_def wf_state_def wf_counters_def wf_node_def)
  have "frontier_node (gr_frontier s) (fn_node_id x) = Some x" by (rule frontier_node_unique [OF d x(1)])
  with x show "check_next_reference s acc r = Inr (fst acc @ [r], snd acc)" by (simp add: check_next_reference_def)
qed

lemma frontier_reference_published:
  assumes "wf_state s" "gr_status s = RUNNING" "r \<in> set (frontier_references s)"
  shows "r \<in> ledger_references s"
  using assms by (auto simp: wf_state_def wf_ledger_def)

lemma fold_history:
  assumes "\<forall>r\<in>set refs. past_reference s r"
  shows "foldE (check_next_reference s) (cur, hist) refs = Inr (cur, hist @ refs)"
  using assms
proof (induction refs arbitrary: hist)
  case (Cons r refs)
  then have "check_next_reference s (cur, hist) r = Inr (cur, hist @ [r])"
    by (auto simp: check_next_reference_def past_reference_def)
  with Cons show ?case by simp
qed simp

lemma fold_current:
  assumes "wf_state s" "set refs \<subseteq> set (frontier_references s)"
  shows "foldE (check_next_reference s) (cur, hist) refs = Inr (cur @ refs, hist)"
  using assms(2)
proof (induction refs arbitrary: cur)
  case (Cons r refs)
  have "check_next_reference s (cur, hist) r = Inr (cur @ [r], hist)"
    using frontier_reference_current(4) [OF assms(1)] Cons.prems by simp
  with Cons show ?case by simp
qed simp

section \<open>What a proposal must satisfy\<close>

definition next_cause :: "graph_run_state \<Rightarrow> string \<Rightarrow> activation_cause \<Rightarrow> bool" where
  "next_cause s n c \<longleftrightarrow> (case c of StartActivationCause \<Rightarrow> False | RoutedActivationCause refs occ \<Rightarrow>
     canonical_by canonical_key refs \<and>
     (case occ of
        None \<Rightarrow> \<exists>r\<in>set (frontier_references s). refs = [r]
      | Some oc \<Rightarrow> wf_occurrence s oc \<and> join_target (occ_join oc) = n \<and> occ_target_superstep oc = gr_superstep s + 1 \<and>
          distinct (reference_nodes refs) \<and> set (reference_nodes refs) = set (join_sources (occ_join oc)) \<and>
          (\<exists>cur. cur \<noteq> [] \<and> refs = pending_arrivals s oc @ cur \<and> set cur \<subseteq> set (frontier_references s))))"

definition next_progress :: "graph_run_state \<Rightarrow> join_progress_record \<Rightarrow> bool" where
  "next_progress s j \<longleftrightarrow> wf_occurrence s (jp_occurrence j) \<and> gr_superstep s + 1 < occ_target_superstep (jp_occurrence j) \<and>
     jp_arrived j \<noteq> [] \<and> canonical_by canonical_key (jp_arrived j) \<and> distinct (reference_nodes (jp_arrived j)) \<and>
     set (reference_nodes (jp_arrived j)) \<subset> set (join_sources (occ_join (jp_occurrence j))) \<and>
     set (pending_arrivals s (jp_occurrence j)) \<subseteq> set (jp_arrived j) \<and>
     set (jp_arrived j) \<subseteq> set (pending_arrivals s (jp_occurrence j)) \<union> set (frontier_references s)"

definition consumable :: "graph_run_state \<Rightarrow> graph_join_occurrence \<Rightarrow> bool" where
  "consumable s oc \<longleftrightarrow> oc \<in> jp_occurrence ` set (gr_join_progress s) \<and> occ_target_superstep oc = gr_superstep s + 1 \<and>
     set (reference_nodes (pending_arrivals s oc)) \<inter> set (reference_nodes (frontier_references s)) = {} \<and>
     set (join_sources (occ_join oc)) \<subseteq>
       set (reference_nodes (pending_arrivals s oc)) \<union> set (reference_nodes (frontier_references s))"

definition cause_occurrences :: "frontier_activation list \<Rightarrow> graph_join_occurrence set" where
  "cause_occurrences acts = {oc. \<exists>a\<in>set acts. \<exists>refs. fa_cause a = RoutedActivationCause refs (Some oc)}"

definition advances ::
  "graph_run_state \<Rightarrow> frontier_activation list \<Rightarrow> join_progress_record list \<Rightarrow> graph_join_occurrence list \<Rightarrow> bool" where
  "advances s acts prog explicit \<longleftrightarrow>
     acts \<noteq> [] \<and> canonical_tuple (map fa_node_id acts) \<and>
     (\<forall>a\<in>set acts. is_canonical_identity (fa_node_id a) \<and> next_cause s (fa_node_id a) (fa_cause a)) \<and>
     canonical_tuple (map jp_occurrence prog) \<and> (\<forall>j\<in>set prog. next_progress s j) \<and>
     canonical_tuple explicit \<and> (\<forall>oc\<in>set explicit. consumable s oc) \<and>
     cause_occurrences acts \<inter> set explicit = {} \<and>
     (cause_occurrences acts \<union> set explicit) \<inter> jp_occurrence ` set prog = {} \<and>
     jp_occurrence ` set (gr_join_progress s) \<subseteq> cause_occurrences acts \<union> set explicit \<union> jp_occurrence ` set prog"

section \<open>The checks pass\<close>

lemma check_next_activation_total:
  assumes w: "wf_state s" and n: "next_cause s (fa_node_id a) (fa_cause a)"
  shows "check_next_activation s (progress_index (gr_join_progress s)) consumed a =
    Inr (consumed \<union> (cause_occurrences [a] \<inter> jp_occurrence ` set (gr_join_progress s)))"
proof -
  from n obtain refs occ where c: "fa_cause a = RoutedActivationCause refs occ" by (cases "fa_cause a") (auto simp: next_cause_def)
  show ?thesis
  proof (cases occ)
    case None
    with n c obtain r where r: "r \<in> set (frontier_references s)" "refs = [r]" by (auto simp: next_cause_def)
    have "foldE (check_next_reference s) ([], []) [r] = Inr ([r], [])"
      using fold_current [OF w, of "[r]" "[]" "[]"] r by simp
    then show ?thesis using c None r by (simp add: check_next_activation_def cause_occurrences_def reference_nodes_def del: foldE.simps)
  next
    case (Some oc)
    with n c obtain cur where cu: "cur \<noteq> []" "refs = pending_arrivals s oc @ cur" "set cur \<subseteq> set (frontier_references s)"
      and oc: "wf_occurrence s oc" "join_target (occ_join oc) = fa_node_id a" "occ_target_superstep oc = gr_superstep s + 1"
        "distinct (reference_nodes refs)" "set (reference_nodes refs) = set (join_sources (occ_join oc))"
      by (auto simp: next_cause_def)
    have f: "foldE (check_next_reference s) ([], []) refs = Inr (cur, pending_arrivals s oc)"
      unfolding cu(2) foldE_append using fold_history [of "pending_arrivals s oc" s "[]" "[]"] fold_current [OF w cu(3), of "[]"]
        pending_arrivals_past [OF w, of _ oc] by simp
    have run: "occ_run_id oc = gr_run_id s" using oc(1) by (simp add: wf_occurrence_def)
    show ?thesis
    proof (cases "progress_index (gr_join_progress s) oc")
      case None
      have "pending_arrivals s oc = []" using None by (simp add: pending_arrivals_def)
      moreover have "oc \<notin> jp_occurrence ` set (gr_join_progress s)" using None progress_index_None by blast
      ultimately show ?thesis using c Some f oc run None cu(1)
        by (auto simp: check_next_activation_def cause_occurrences_def)
    next
      case (Some j)
      then have "oc \<in> jp_occurrence ` set (gr_join_progress s)" "pending_arrivals s oc = jp_arrived j"
        using progress_index_None [of "gr_join_progress s" oc] by (auto simp: pending_arrivals_def)
      then show ?thesis using c \<open>occ = Some oc\<close> f oc run Some cu(1)
        by (auto simp: check_next_activation_def cause_occurrences_def)
    qed
  qed
qed

lemma cause_occurrences_Cons: "cause_occurrences (a # acts) = cause_occurrences [a] \<union> cause_occurrences acts"
  by (auto simp: cause_occurrences_def)

lemma foldE_next_activations:
  assumes w: "wf_state s" and "\<forall>a\<in>set acts. next_cause s (fa_node_id a) (fa_cause a)"
  shows "foldE (check_next_activation s (progress_index (gr_join_progress s))) consumed acts =
    Inr (consumed \<union> (cause_occurrences acts \<inter> jp_occurrence ` set (gr_join_progress s)))"
  using assms(2)
proof (induction acts arbitrary: consumed)
  case Nil
  then show ?case by (simp add: cause_occurrences_def)
next
  case (Cons a acts)
  then have a: "next_cause s (fa_node_id a) (fa_cause a)" by simp
  show ?case using Cons check_next_activation_total [OF w a] by (simp add: cause_occurrences_Cons [of a acts] Int_Un_distrib2 Un_assoc)
qed

lemma validate_next_activations_total:
  assumes w: "wf_state s" and a: "advances s acts prog explicit"
  shows "validate_next_activations s acts = Inr (cause_occurrences acts \<inter> jp_occurrence ` set (gr_join_progress s))"
proof -
  have "index_join_progress (gr_join_progress s) ''state'' = Inr (progress_index (gr_join_progress s))"
    by (rule index_join_progress_total [OF wf_joins_distinct [OF w]])
  moreover have "foldE (check_next_activation s (progress_index (gr_join_progress s))) {} acts =
    Inr (cause_occurrences acts \<inter> jp_occurrence ` set (gr_join_progress s))"
    using foldE_next_activations [OF w, of acts "{}"] a by (simp add: advances_def)
  ultimately show ?thesis using a
    by (simp add: validate_next_activations_def validate_activation_batch_def advances_def canonical_tuple_def)
qed

lemma frontier_nodes_distinct:
  assumes "wf_state s"
  shows "distinct (map fst (routing_contributions (gr_frontier s)))"
proof -
  have "map fst (routing_contributions f) = map fn_node_id (filter (\<lambda>x. is_succeeded (fn_settlement x)) f)" for f
    by (induction f) (auto simp: routing_contributions_def split: node_settlement.splits)
  moreover have "distinct (map fn_node_id (gr_frontier s))"
    using assms by (simp add: wf_state_def wf_frontier_def canonical_tuple_iff)
  ultimately show ?thesis by (simp add: distinct_map_filter)
qed

lemma frontier_reference_unique:
  assumes w: "wf_state s" and "r \<in> set (frontier_references s)" "q \<in> set (frontier_references s)"
    and "act_node_id (ref_activation r) = act_node_id (ref_activation q)"
  shows "r = q"
proof -
  from assms(2) obtain n a where r: "(n, a) \<in> set (routing_contributions (gr_frontier s))" "r = activation_reference_of s n a"
    unfolding frontier_references_of by blast
  from assms(3) obtain m b where q: "(m, b) \<in> set (routing_contributions (gr_frontier s))" "q = activation_reference_of s m b"
    unfolding frontier_references_of by blast
  have "n = m" using assms(4) r(2) q(2) by (simp add: activation_reference_of_def)
  moreover from this have "a = b" using frontier_nodes_distinct [OF w] r(1) q(1) by (metis eq_key_imp_eq_value)
  ultimately show ?thesis using r q by simp
qed

lemma current_successful_distinct:
  assumes "current_successful_references s = Inr refs"
  shows "distinct refs"
  using assms unfolding current_successful_references_def
proof (rule foldE_invariant)
  fix u x v
  assume "distinct u" and step: "(case fn_settlement x of
        SucceededGraphNode routing \<Rightarrow>
          bindE (mk_GraphActivationIdentity (gr_run_id s) (gr_superstep s) (fn_node_id x)) (\<lambda>a.
          bindE (mk_ActivationReference a (selected_route routing)) (\<lambda>r. Inr (List.insert r u)))
      | _ \<Rightarrow> Inr u) = Inr v"
  then show "distinct v" by (cases "fn_settlement x") (auto simp: bindE_eq_Inr)
qed simp

lemma current_references:
  assumes w: "wf_state s"
  obtains refs where "current_successful_references s = Inr refs" "set refs = set (frontier_references s)"
    "distinct (reference_nodes refs)"
proof -
  obtain refs where r: "current_successful_references s = Inr refs" "set refs = set (frontier_references s)"
    using current_successful_references_ok [OF w] by blast
  moreover have "distinct (reference_nodes refs)"
    using current_successful_distinct [OF r(1)] r(2) frontier_reference_unique [OF w]
    by (auto simp: reference_nodes_def distinct_map inj_on_def)
  ultimately show thesis by (rule that)
qed

lemma check_consumed_join_total:
  assumes w: "wf_state s" and oc: "consumable s oc" and n: "oc \<notin> set consumed"
    and refs: "set refs = set (frontier_references s)" "distinct (reference_nodes refs)"
  shows "check_consumed_join s (progress_index (gr_join_progress s)) refs consumed oc = Inr (consumed @ [oc])"
proof -
  from oc obtain j where j: "j \<in> set (gr_join_progress s)" "jp_occurrence j = oc" by (auto simp: consumable_def)
  have ix: "progress_index (gr_join_progress s) oc = Some j"
    using progress_index_mem [OF wf_joins_distinct [OF w] j(1)] j(2) by simp
  have pa: "pending_arrivals s oc = jp_arrived j" using pending_arrivals_mem [OF w j(1)] j(2) by simp
  have jw: "wf_progress s j" using w j(1) by (simp add: wf_state_def wf_joins_def)
  let ?S = "set (join_sources (occ_join oc))"
  let ?cur = "filter (\<lambda>r. act_node_id (ref_activation r) \<in> ?S) refs"
  have rn: "set (reference_nodes refs) = set (reference_nodes (frontier_references s))" using refs(1) by (simp add: reference_nodes_def)
  have cn: "set (reference_nodes ?cur) = set (reference_nodes refs) \<inter> ?S" by (force simp: reference_nodes_def)
  have jn: "set (reference_nodes (jp_arrived j)) \<subseteq> ?S" using jw j(2) by (auto simp: wf_progress_def)
  have d1: "distinct (reference_nodes ?cur)" using refs(2) by (simp add: reference_nodes_def distinct_map_filter)
  have "set (reference_nodes (jp_arrived j)) \<inter> set (reference_nodes ?cur) = {}" using oc cn rn pa by (auto simp: consumable_def)
  moreover have "distinct (reference_nodes (jp_arrived j))" using jw by (simp add: wf_progress_def)
  ultimately have d: "distinct (reference_nodes (jp_arrived j @ ?cur))" using d1 by (simp add: reference_nodes_def)
  have st: "set (reference_nodes (jp_arrived j @ ?cur)) = ?S"
    using oc cn rn pa jn by (auto simp: consumable_def reference_nodes_def)
  have "occ_run_id oc = gr_run_id s" using jw j(2) by (auto simp: wf_progress_def wf_occurrence_def)
  then show ?thesis using oc n ix d st by (simp add: check_consumed_join_def consumable_def)
qed

lemma validate_join_consumption_total:
  assumes w: "wf_state s" and ex: "canonical_tuple explicit" "\<forall>oc\<in>set explicit. consumable s oc"
    and refs: "set refs = set (frontier_references s)" "distinct (reference_nodes refs)"
  shows "validate_join_consumption s explicit refs = Inr explicit"
proof -
  have f: "foldE (check_consumed_join s (progress_index (gr_join_progress s)) refs) acc xs = Inr (acc @ xs)"
    if "distinct (acc @ xs)" "\<forall>oc\<in>set xs. consumable s oc" for acc xs
    using that
  proof (induction xs arbitrary: acc)
    case (Cons x xs)
    have "check_consumed_join s (progress_index (gr_join_progress s)) refs acc x = Inr (acc @ [x])"
      using Cons.prems by (intro check_consumed_join_total [OF w _ _ refs]) auto
    with Cons.IH [of "acc @ [x]"] Cons.prems show ?case by simp
  qed simp
  have "sort explicit = explicit" using ex(1) by (simp add: canonical_tuple_iff sort_key_id_if_sorted sorted_map)
  then show ?thesis using f [of "[]" explicit] ex index_join_progress_total [OF wf_joins_distinct [OF w]]
    by (simp add: validate_join_consumption_def canonical_tuple_iff)
qed

lemma check_updated_progress_total:
  assumes w: "wf_state s" and j: "next_progress s j" and refs: "set refs = set (frontier_references s)"
    and n: "jp_occurrence j \<notin> C"
  shows "check_updated_progress (progress_index (gr_join_progress s)) (set refs) C j = Inr ()"
proof (cases "progress_index (gr_join_progress s) (jp_occurrence j)")
  case None
  then have "pending_arrivals s (jp_occurrence j) = []" by (simp add: pending_arrivals_def)
  with j refs None show ?thesis by (auto simp: check_updated_progress_def next_progress_def)
next
  case (Some p)
  then have "pending_arrivals s (jp_occurrence j) = jp_arrived p" by (simp add: pending_arrivals_def)
  with j refs Some n show ?thesis by (auto simp: check_updated_progress_def next_progress_def Let_def)
qed

lemma validate_join_progress_delta_total:
  assumes w: "wf_state s" and a: "advances s acts prog explicit"
  shows "validate_join_progress_delta s prog (cause_occurrences acts \<inter> jp_occurrence ` set (gr_join_progress s)) explicit = Inr ()"
proof -
  obtain refs where refs: "current_successful_references s = Inr refs" "set refs = set (frontier_references s)"
    "distinct (reference_nodes refs)" by (rule current_references [OF w])
  have ex: "validate_join_consumption s explicit refs = Inr explicit"
    using a by (intro validate_join_consumption_total [OF w _ _ refs(2,3)]) (auto simp: advances_def)
  let ?C = "(cause_occurrences acts \<inter> jp_occurrence ` set (gr_join_progress s)) \<union> set explicit"
  have up: "check_updated_progress (progress_index (gr_join_progress s)) (set refs) ?C j = Inr ()" if "j \<in> set prog" for j
    using a that by (intro check_updated_progress_total [OF w _ refs(2)]) (auto simp: advances_def)
  have keep: "\<not> (progress_index prog (jp_occurrence j) = None \<and> jp_occurrence j \<notin> ?C)" if "j \<in> set (gr_join_progress s)" for j
    using a that progress_index_None [of prog "jp_occurrence j"] by (auto simp: advances_def)
  have dis: "(cause_occurrences acts \<inter> jp_occurrence ` set (gr_join_progress s)) \<inter> set explicit = {}"
    using a by (auto simp: advances_def)
  have ix: "index_join_progress prog ''command'' = Inr (progress_index prog)"
    using a by (intro index_join_progress_total) (simp add: advances_def canonical_tuple_iff)
  have "forE (check_updated_progress (progress_index (gr_join_progress s)) (set refs) ?C) prog = Inr ()"
    using up by (simp add: forE_eq_Inr)
  moreover have "forE (\<lambda>j. raise_if (progress_index prog (jp_occurrence j) = None \<and> jp_occurrence j \<notin> ?C)
         (state_error ''unrelated join progress cannot be discarded'')) (gr_join_progress s) = Inr ()"
    using keep by (simp add: forE_eq_Inr raise_if_eq)
  ultimately show ?thesis
    unfolding validate_join_progress_delta_def index_join_progress_total [OF wf_joins_distinct [OF w]] ix refs(1) ex Let_def dis bindE_simps raise_simps
    by simp
qed

section \<open>The successor is valid\<close>

lemma settled_quiescent:
  assumes w: "wf_state s" and run: "gr_status s = RUNNING" and st: "frontier_status (gr_frontier s) = Inr SETTLED"
  shows "gr_execution s = None" "gr_resources s = None" "resolution_base s = Inr ()"
proof -
  have "pending_node_ids (gr_frontier s) = []"
    using st pending_node_ids_nonempty [of "gr_frontier s"] by auto
  then show x: "gr_execution s = None" using w by (auto simp: wf_state_def wf_execution_def)
  then show "gr_resources s = None" by (rule wf_runningD(6) [OF w run])
  with x show "resolution_base s = Inr ()" using run st by (simp add: resolution_base_ok)
qed

definition advanced_state ::
  "graph_run_state \<Rightarrow> frontier_activation list \<Rightarrow> join_progress_record list \<Rightarrow> graph_run_state" where
  "advanced_state s acts prog = s\<lparr>gr_superstep := gr_superstep s + 1, gr_frontier := pending_frontier acts,
     gr_join_progress := prog, gr_completion_route := None, gr_revision := gr_revision s + 1\<rparr>"

lemma past_in_advanced:
  assumes w: "wf_state s" and run: "gr_status s = RUNNING"
    and r: "past_reference s r \<or> r \<in> set (frontier_references s)"
  shows "past_reference (advanced_state s acts prog) r"
  using r
proof
  assume "past_reference s r"
  then show ?thesis by (auto simp: past_reference_def advanced_state_def ledger_references_def)
next
  assume f: "r \<in> set (frontier_references s)"
  from frontier_reference_current(1-3) [OF w f] frontier_reference_published [OF w run f]
  show ?thesis by (simp add: past_reference_def advanced_state_def ledger_references_def)
qed

lemma wf_occurrence_advanced [simp]: "wf_occurrence (advanced_state s acts prog) oc \<longleftrightarrow> wf_occurrence s oc"
  by (simp add: wf_occurrence_def advanced_state_def)

lemma wf_progress_advanced:
  assumes w: "wf_state s" and run: "gr_status s = RUNNING" and j: "next_progress s j"
  shows "wf_progress (advanced_state s acts prog) j"
proof -
  have "past_reference (advanced_state s acts prog) r" if "r \<in> set (jp_arrived j)" for r
    using j that pending_arrivals_past [OF w] by (intro past_in_advanced [OF w run]) (auto simp: next_progress_def)
  moreover have "gr_superstep (advanced_state s acts prog) = gr_superstep s + 1" by (simp add: advanced_state_def)
  ultimately show ?thesis using j by (auto simp: next_progress_def wf_progress_def)
qed

lemma wf_cause_advanced:
  assumes w: "wf_state s" and run: "gr_status s = RUNNING" and c: "next_cause s n c"
  shows "wf_cause (advanced_state s acts prog) n c"
proof (cases c)
  case StartActivationCause
  then show ?thesis using c by (simp add: next_cause_def)
next
  case (RoutedActivationCause refs occ)
  have z: "0 \<le> gr_superstep s" using w by (simp add: wf_state_def wf_counters_def)
  have k: "gr_superstep (advanced_state s acts prog) = gr_superstep s + 1" by (simp add: advanced_state_def)
  have "past_reference (advanced_state s acts prog) r" if "r \<in> set refs" for r
    using c RoutedActivationCause that pending_arrivals_past [OF w]
    by (intro past_in_advanced [OF w run]) (auto simp: next_cause_def split: option.splits)
  then show ?thesis using c z RoutedActivationCause k by (auto simp: next_cause_def split: option.splits)
qed

lemma wf_ledger_advanced:
  assumes w: "wf_state s"
  shows "wf_ledger (advanced_state s acts prog)"
proof -
  let ?t = "advanced_state s acts prog"
  have l: "wf_ledger s" using w by (simp add: wf_state_def)
  have "routing_contributions (pending_frontier acts) = []"
    by (induction acts) (simp_all add: pending_frontier_def routing_contributions_def)
  then have "frontier_references ?t = []" by (simp add: frontier_references_def advanced_state_def)
  moreover have "{r \<in> ledger_references ?t. act_superstep (ref_activation r) = gr_superstep ?t} = {}"
    using l by (auto simp: wf_ledger_def publication_in_bounds_def ledger_references_def advanced_state_def)
  moreover have "\<forall>p\<in>set (gr_settled_publications ?t). publication_in_bounds ?t p"
    using l by (auto simp: wf_ledger_def publication_in_bounds_def advanced_state_def)
  ultimately show ?thesis using l by (simp add: wf_ledger_def) (simp add: advanced_state_def)
qed

lemma wf_advanced_state:
  assumes w: "wf_state s" and run: "gr_status s = RUNNING" and st: "frontier_status (gr_frontier s) = Inr SETTLED"
    and a: "advances s acts prog explicit"
  shows "wf_state (advanced_state s acts prog)"
proof -
  let ?t = "advanced_state s acts prog"
  have "wf_joins ?t"
    using a wf_progress_advanced [OF w run] by (simp add: wf_joins_def advances_def) (simp add: advanced_state_def)
  moreover have "wf_frontier ?t"
  proof -
    have "map fn_node_id (pending_frontier acts) = map fa_node_id acts" by (simp add: pending_frontier_def)
    moreover have "wf_node ?t x" if "x \<in> set (pending_frontier acts)" for x
      using a that wf_cause_advanced [OF w run] by (auto simp: pending_frontier_def wf_node_def advances_def)
    moreover have "\<not> needs_codec (fn_settlement x)" if "x \<in> set (pending_frontier acts)" for x
      using that by (auto simp: pending_frontier_def)
    moreover have "wf_codec ?t" using w by (simp add: wf_state_def wf_frontier_def wf_codec_def advanced_state_def)
    ultimately show ?thesis using a by (auto simp: wf_frontier_def advances_def advanced_state_def)
  qed
  moreover have "wf_counters ?t" "wf_config ?t" "wf_parent ?t" "wf_resources ?t" "wf_execution ?t"
    using w settled_quiescent [OF w run st]
    by (simp_all add: wf_state_def wf_counters_def wf_config_def wf_parent_def wf_resources_def wf_execution_def advanced_state_def)
  moreover have "wf_status ?t"
  proof -
    have "frontier_status (pending_frontier acts) = Inr EXECUTABLE"
      using a by (cases acts) (auto simp: frontier_status_cases pending_frontier_def advances_def)
    moreover have "pending_frontier acts \<noteq> []" using a by (simp add: pending_frontier_def advances_def)
    ultimately show ?thesis using run wf_runningD(3) [OF w run] by (simp add: wf_status_def advanced_state_def)
  qed
  ultimately show ?thesis using wf_ledger_advanced [OF w] by (simp add: wf_state_def)
qed

lemma advance_enabled:
  assumes w: "wf_state s" and run: "gr_status s = RUNNING" and st: "frontier_status (gr_frontier s) = Inr SETTLED"
    and a: "advances s acts prog explicit"
  shows "reduce_graph_run (Some s) (AdvanceGraphFrontier \<lparr>af_expected_revision = gr_revision s, af_activations = acts,
      af_join_progress = prog, af_consumed_join_progress = explicit\<rparr>) = Inr (advanced_state s acts prog)"
proof -
  let ?c = "\<lparr>af_expected_revision = gr_revision s, af_activations = acts, af_join_progress = prog,
    af_consumed_join_progress = explicit\<rparr>"
  let ?u = "s\<lparr>gr_superstep := gr_superstep s + 1, gr_frontier := pending_frontier acts, gr_join_progress := prog,
    gr_completion_route := None\<rparr>"
  have "advance_graph_frontier s ?c = Inr ?u"
    using settled_quiescent(3) [OF w run st] validate_next_activations_total [OF w a] validate_join_progress_delta_total [OF w a]
    by (simp add: advance_ok)
  then have d: "dispatch_command s (AdvanceGraphFrontier ?c) = Inr ?u" by simp
  have e: "?u\<lparr>gr_revision := gr_revision s + 1\<rparr> = advanced_state s acts prog" by (simp add: advanced_state_def)
  have v: "wf_state (?u\<lparr>gr_revision := gr_revision s + 1\<rparr>)" unfolding e by (rule wf_advanced_state [OF w run st a])
  have "reduce_graph_run (Some s) (AdvanceGraphFrontier ?c) = Inr (?u\<lparr>gr_revision := gr_revision s + 1\<rparr>)"
    by (rule reduce_SomeI [OF w _ d v]) simp
  then show ?thesis unfolding e .
qed

section \<open>Completion\<close>

definition completes :: "graph_run_state \<Rightarrow> graph_join_occurrence list \<Rightarrow> string option \<Rightarrow> bool" where
  "completes s explicit route \<longleftrightarrow> canonical_tuple explicit \<and> (\<forall>oc\<in>set explicit. consumable s oc) \<and>
     jp_occurrence ` set (gr_join_progress s) \<subseteq> set explicit \<and> (\<forall>r\<in>set (frontier_references s). ref_route r = route)"

definition completed_state :: "graph_run_state \<Rightarrow> string option \<Rightarrow> graph_run_state" where
  "completed_state s route = s\<lparr>gr_status := COMPLETED, gr_frontier := [], gr_join_progress := [],
     gr_completion_route := route, gr_revision := gr_revision s + 1\<rparr>"

lemma settled_frontier_references:
  assumes w: "wf_state s" and run: "gr_status s = RUNNING" and st: "frontier_status (gr_frontier s) = Inr SETTLED"
  shows "frontier_references s \<noteq> []"
proof -
  from wf_runningD(1) [OF w run] obtain x where x: "x \<in> set (gr_frontier s)" by (cases "gr_frontier s") auto
  with st have "is_succeeded (fn_settlement x)" by (auto simp: frontier_status_cases split: if_splits)
  then obtain r where "fn_settlement x = SucceededGraphNode r" by (cases "fn_settlement x") auto
  with x have "ActivationReference (GraphActivationIdentity (gr_run_id s) (gr_superstep s) (fn_node_id x)) (selected_route r)
    \<in> set (frontier_references s)" by (auto simp: frontier_references_mem)
  then show ?thesis by (cases "frontier_references s") auto
qed

lemma completed_state_provenance:
  assumes w: "wf_state s" and run: "gr_status s = RUNNING" and st: "frontier_status (gr_frontier s) = Inr SETTLED"
    and c: "completes s explicit route"
  shows "completed_provenance (completed_state s route)"
proof -
  have l: "wf_ledger s" using w by (simp add: wf_state_def)
  have led: "{r \<in> ledger_references s. act_superstep (ref_activation r) = gr_superstep s} = set (frontier_references s)"
    using l run by (simp add: wf_ledger_def)
  have t: "p \<in> set (terminal_settlements (completed_state s route)) \<longleftrightarrow>
      p \<in> set (gr_settled_publications s) \<and> ps_reference p \<in> set (frontier_references s)" for p
    using led by (auto simp: terminal_settlements_def completed_state_def ledger_references_def)
  have "terminal_settlements (completed_state s route) \<noteq> []"
  proof -
    obtain r where r: "r \<in> set (frontier_references s)"
      using settled_frontier_references [OF w run st] by (cases "frontier_references s") auto
    then have "r \<in> ledger_references s" using led by blast
    then obtain p where "p \<in> set (gr_settled_publications s)" "ps_reference p = r" by (auto simp: ledger_references_def)
    with r t have "p \<in> set (terminal_settlements (completed_state s route))" by simp
    then show ?thesis by (cases "terminal_settlements (completed_state s route)") auto
  qed
  moreover have "ps_commit_revision p < gr_revision s + 1" if "p \<in> set (gr_settled_publications s)" for p
    using l that by (auto simp: wf_ledger_def publication_in_bounds_def)
  ultimately show ?thesis using t c by (auto simp: completed_provenance_def completed_state_def completes_def)
qed

lemma wf_completed_state:
  assumes w: "wf_state s" and run: "gr_status s = RUNNING" and st: "frontier_status (gr_frontier s) = Inr SETTLED"
    and c: "completes s explicit route"
  shows "wf_state (completed_state s route)"
proof -
  let ?t = "completed_state s route"
  obtain r where r: "r \<in> set (frontier_references s)"
    using settled_frontier_references [OF w run st] by (cases "frontier_references s") auto
  have route: "is_canonical_identity v" if "route = Some v" for v
    using frontier_reference_current(1) [OF w r] c r that by (auto simp: wf_reference_def completes_def)
  have "wf_counters ?t" using w route by (auto simp: wf_state_def wf_counters_def completed_state_def)
  moreover have "wf_ledger ?t"
    using w by (auto simp: wf_state_def wf_ledger_def publication_in_bounds_def completed_state_def)
  moreover have "wf_config ?t" "wf_parent ?t" "wf_joins ?t" "wf_frontier ?t" "wf_resources ?t" "wf_execution ?t"
    using w settled_quiescent [OF w run st]
    by (simp_all add: wf_state_def wf_config_def wf_parent_def wf_joins_def wf_frontier_def wf_codec_def wf_resources_def
      wf_execution_def completed_state_def canonical_tuple_iff)
  moreover have "wf_status ?t"
    using settled_quiescent [OF w run st] completed_state_provenance [OF w run st c] wf_runningD(3) [OF w run]
    by (simp add: wf_status_def) (simp add: completed_state_def)
  ultimately show ?thesis by (simp add: wf_state_def)
qed

lemma complete_enabled:
  assumes w: "wf_state s" and run: "gr_status s = RUNNING" and st: "frontier_status (gr_frontier s) = Inr SETTLED"
    and c: "completes s explicit route"
  shows "reduce_graph_run (Some s) (CompleteGraphFrontier (gr_revision s) explicit route) = Inr (completed_state s route)"
proof -
  let ?u = "s\<lparr>gr_status := COMPLETED, gr_frontier := [], gr_join_progress := [], gr_completion_route := route\<rparr>"
  obtain refs where refs: "current_successful_references s = Inr refs" "set refs = set (frontier_references s)"
    "distinct (reference_nodes refs)" by (rule current_references [OF w])
  have ex: "validate_join_consumption s explicit refs = Inr explicit"
    using c by (intro validate_join_consumption_total [OF w _ _ refs(2,3)]) (auto simp: completes_def)
  have "set explicit = jp_occurrence ` set (gr_join_progress s)" using c by (auto simp: completes_def consumable_def)
  moreover have "distinct explicit" using c by (simp add: completes_def canonical_tuple_iff)
  ultimately have "length explicit = length (gr_join_progress s)"
    using distinct_card [OF wf_joins_distinct [OF w]] distinct_card [of explicit] by simp
  with refs(1) ex have "complete_graph_frontier s explicit route = Inr ?u"
    using settled_quiescent(3) [OF w run st] by (simp add: complete_ok)
  then have d: "dispatch_command s (CompleteGraphFrontier (gr_revision s) explicit route) = Inr ?u" by simp
  have e: "?u\<lparr>gr_revision := gr_revision s + 1\<rparr> = completed_state s route" by (simp add: completed_state_def)
  have v: "wf_state (?u\<lparr>gr_revision := gr_revision s + 1\<rparr>)" unfolding e by (rule wf_completed_state [OF w run st c])
  have "reduce_graph_run (Some s) (CompleteGraphFrontier (gr_revision s) explicit route) = Inr (?u\<lparr>gr_revision := gr_revision s + 1\<rparr>)"
    by (rule reduce_SomeI [OF w _ d v]) simp
  then show ?thesis unfolding e .
qed

end
