(* ===== verification/Graph_Plan.thy ===== *)
theory Graph_Plan
  imports State_Invariant
begin

text \<open>
  The compiled plan of a graph and the coordinates of its value frames:
  \<open>mote_kernel/execution/graph/constants.py\<close>, \<open>ports.py\<close> (the resolved declarations),
  \<open>topology.py\<close>, and \<open>mote_kernel/execution/identity.py\<close>.

  \<^item> A \<open>FrozenMap\<close> is its tuple of entries; a lookup of an absent key raises \<open>KeyError\<close>.
  \<^item> A nominal type descriptor is the name of its class.
  \<^item> Of a node definition the plan keeps what the engine reads after compilation: whether it is
    callable or nested, its resources and its exported routes.
\<close>

section \<open>Python representations in messages\<close>

definition hex_digit :: "nat \<Rightarrow> char" where
  "hex_digit d = (if d < 10 then char_of (48 + d) else char_of (87 + d))"

definition repr_char :: "char \<Rightarrow> char \<Rightarrow> string" where
  "repr_char quote c =
     (let n = (of_char c :: nat) in
      if c = quote \<or> c = CHR 0x5C then [CHR 0x5C, c]
      else if n = 10 then [CHR 0x5C, CHR ''n''] else if n = 13 then [CHR 0x5C, CHR ''r'']
      else if n = 9 then [CHR 0x5C, CHR ''t'']
      else if n < 32 \<or> (127 \<le> n \<and> n \<le> 160) \<or> n = 173
      then [CHR 0x5C, CHR ''x'', hex_digit (n div 16), hex_digit (n mod 16)] else [c])"

definition py_repr :: "string \<Rightarrow> string" where
  "py_repr s =
     (let quote = (if CHR 0x27 \<in> set s \<and> CHR 0x22 \<notin> set s then CHR 0x22 else CHR 0x27)
      in quote # concat (map (repr_char quote) s) @ [quote])"

definition py_repr_route :: "string option \<Rightarrow> string" where
  "py_repr_route r = (case r of None \<Rightarrow> ''None'' | Some v \<Rightarrow> py_repr v)"

fun join_reprs :: "string list \<Rightarrow> string" where
  "join_reprs [] = []"
| "join_reprs [s] = py_repr s"
| "join_reprs (s # t # ss) = py_repr s @ '', '' @ join_reprs (t # ss)"

definition py_repr_tuple :: "string list \<Rightarrow> string" where
  "py_repr_tuple ss = (case ss of [s] \<Rightarrow> ''('' @ py_repr s @ '',)'' | _ \<Rightarrow> ''('' @ join_reprs ss @ '')'')"

section \<open>Frozen maps and boundary nodes\<close>

definition fm_get :: "(string \<times> 'v) list \<Rightarrow> string \<Rightarrow> 'v res" where
  "fm_get m k = (case map_of m k of Some v \<Rightarrow> Inr v | None \<Rightarrow> Inl (KeyError k))"

definition fm_has :: "(string \<times> 'v) list \<Rightarrow> string \<Rightarrow> bool" where
  "fm_has m k \<longleftrightarrow> map_of m k \<noteq> None"

definition START_NODE :: string where
  "START_NODE = ''__start__''"

definition END_NODE :: string where
  "END_NODE = ''__end__''"

section \<open>Ports and bindings\<close>

datatype value_source = GraphInputPort string | NodeOutputPort string string

datatype selection_kind = ABSOLUTE | RELATIVE

datatype publication_selection = PublicationSelection (sel_kind: selection_kind) (sel_superstep: int)

definition resolve_selection :: "publication_selection \<Rightarrow> int \<Rightarrow> int res" where
  "resolve_selection p anchor =
     (let selected = (if sel_kind p = ABSOLUTE then sel_superstep p else anchor - sel_superstep p)
      in if selected < 0 then Inl (GraphValidationError ''publication selection precedes the graph run'') else Inr selected)"

record predecessor_input =
  cp_target :: string
  cp_input_name :: string
  cp_sources :: "(string \<times> string) list"
  cp_start_input :: "string option"

datatype input_source = ResolvedSource value_source | CompiledPredecessorInput predecessor_input

definition require_publication_selection :: "publication_selection option \<Rightarrow> kernel_error \<Rightarrow> publication_selection res" where
  "require_publication_selection p e = (case p of None \<Rightarrow> Inl e | Some s \<Rightarrow> Inr s)"

record input_binding =
  ib_node_id :: string
  ib_local_name :: string
  ib_source :: input_source
  ib_descriptor :: string
  ib_publication :: "publication_selection option"

record output_binding =
  ob_boundary_name :: string
  ob_source :: value_source
  ob_descriptor :: string
  ob_publication :: "publication_selection option"

datatype frame_kind = GRAPH_INPUT | NODE_INPUT | NODE_OUTPUT | GRAPH_OUTPUT

datatype frame_descriptor_identity =
  FrameDescriptorIdentity (fdi_definition_id: string) (fdi_definition_version: int) (fdi_frame_kind: frame_kind)
    (fdi_owner_ordinal: int)

definition mk_FrameDescriptorIdentity :: "string \<Rightarrow> int \<Rightarrow> frame_kind \<Rightarrow> int \<Rightarrow> frame_descriptor_identity res" where
  "mk_FrameDescriptorIdentity d v k i =
     (if \<not> is_canonical_identity d \<or> v < 1 \<or> i < 0
      then Inl (GraphValidationError ''frame descriptor identity requires canonical, exact typed coordinates'')
      else Inr (FrameDescriptorIdentity d v k i))"

record frame_descriptor =
  fd_identity :: frame_descriptor_identity
  fd_declarations :: "(string \<times> string) list"

record materialization_plan =
  mp_bindings :: "input_binding list"
  mp_descriptor :: frame_descriptor

type_synonym activation_gate = "(string \<times> string option set) list"

section \<open>Compiled joins and plans\<close>

datatype compiled_join = CompiledJoin (cj_identity: graph_join_identity) (cj_offsets: "(string \<times> int) list")

definition mk_CompiledJoin :: "graph_join_identity \<Rightarrow> (string \<times> int) list \<Rightarrow> compiled_join res" where
  "mk_CompiledJoin identity offsets =
     (if map fst offsets \<noteq> join_sources identity
      then Inl (ValueError ''compiled Join offsets must exactly cover its canonical sources'')
      else if \<exists>k\<in>set (map snd offsets). k < 1
      then Inl (ValueError ''compiled Join source offsets must be positive integers'')
      else Inr (CompiledJoin identity offsets))"

definition target_offset :: "compiled_join \<Rightarrow> string \<Rightarrow> int res" where
  "target_offset j source =
     (case map_of (cj_offsets j) source of
        None \<Rightarrow> Inl (SnapshotMismatchError ''compiled Join does not contain the arrival source'')
      | Some k \<Rightarrow> Inr k)"

definition occurrence_for :: "compiled_join \<Rightarrow> graph_activation_identity \<Rightarrow> graph_join_occurrence res" where
  "occurrence_for j a =
     bindE (target_offset j (act_node_id a)) (\<lambda>k.
     mk_GraphJoinOccurrenceIdentity (cj_identity j) (act_run_id a) (act_superstep a + k))"

record transition_plan =
  tp_entries :: "string list"
  tp_direct_targets :: "(string \<times> string list) list"
  tp_conditional_targets :: "(string \<times> (string \<times> string) list) list"
  tp_route_options :: "(string \<times> string option list) list"
  tp_joins_by_source :: "(string \<times> compiled_join list) list"
  tp_materializations :: "(string \<times> materialization_plan) list"
  tp_publications :: "(string \<times> frame_descriptor) list"
  tp_graph_outputs :: "output_binding list"
  tp_resource_order :: "string list"
  tp_activation_gates :: "(string \<times> activation_gate list) list"

datatype graph_node =
    CallableNode (cn_resources: "string list") (cn_exported_routes: "string set")
  | NestedNode

datatype compiled_graph =
  CompiledGraph (cg_definition_id: string) (cg_version: int) (cg_nodes: "(string \<times> graph_node) list")
    (cg_nested_graphs: "(string \<times> compiled_graph) list") (cg_graph_input_descriptor: frame_descriptor)
    (cg_graph_output_descriptor: frame_descriptor) (cg_transition: transition_plan) (cg_resources: "string list")
    (cg_resume_input: "resume_codec option") (cg_completion_routes: "string option set")

fun compiled_graph_at_scope :: "compiled_graph \<Rightarrow> string list \<Rightarrow> compiled_graph res" where
  "compiled_graph_at_scope g [] = Inr g"
| "compiled_graph_at_scope g (n # ns) =
     (case map_of (cg_nested_graphs g) n of
        None \<Rightarrow> Inl (SnapshotMismatchError (''scope references unknown nested node '' @ py_repr n))
      | Some h \<Rightarrow> compiled_graph_at_scope h ns)"

section \<open>Scoped runs\<close>

datatype scope_run = ScopeRunCoordinate (sr_scope: "string list") (sr_graph_run_id: string)

definition mk_ScopeRunCoordinate :: "string list \<Rightarrow> string \<Rightarrow> scope_run res" where
  "mk_ScopeRunCoordinate scope run_id =
     (if (\<exists>n\<in>set scope. \<not> is_canonical_identity n) \<or> \<not> is_canonical_identity run_id
      then Inl (SnapshotMismatchError ''scope-run coordinate requires canonical scope and run identity'')
      else Inr (ScopeRunCoordinate scope run_id))"

datatype stable_activation =
  StableActivation (sa_scope_run: scope_run) (sa_superstep: int) (sa_node_id: string)

definition mk_StableActivation :: "scope_run \<Rightarrow> int \<Rightarrow> string \<Rightarrow> stable_activation res" where
  "mk_StableActivation sr k n =
     (if k < 0 \<or> \<not> is_canonical_identity n
      then Inl (SnapshotMismatchError ''stable activation requires a valid superstep and node identity'')
      else Inr (StableActivation sr k n))"

definition root_scope_run :: "string \<Rightarrow> scope_run res" where
  "root_scope_run run_id = mk_ScopeRunCoordinate [] run_id"

definition stable_activation_of :: "scope_run \<Rightarrow> graph_activation_identity \<Rightarrow> stable_activation res" where
  "stable_activation_of sr a =
     (if act_run_id a \<noteq> sr_graph_run_id sr
      then Inl (SnapshotMismatchError ''activation does not belong to its scope-run coordinate'')
      else mk_StableActivation sr (act_superstep a) (act_node_id a))"

definition child_scope_run :: "scope_run \<Rightarrow> int \<Rightarrow> string \<Rightarrow> scope_run res" where
  "child_scope_run parent k n =
     mk_ScopeRunCoordinate (sr_scope parent @ [n]) (child_graph_run_id (sr_graph_run_id parent) k n)"

definition child_scope_run_for_activation :: "scope_run \<Rightarrow> graph_activation_identity \<Rightarrow> scope_run res" where
  "child_scope_run_for_activation psr parent =
     (if act_run_id parent \<noteq> sr_graph_run_id psr
      then Inl (SnapshotMismatchError ''parent activation does not belong to its scope-run coordinate'')
      else child_scope_run psr (act_superstep parent) (act_node_id parent))"

definition parent_activation_for_child :: "scope_run \<Rightarrow> graph_activation_identity \<Rightarrow> stable_activation res" where
  "parent_activation_for_child child parent =
     (let scope = sr_scope child;
          inconsistent = SnapshotMismatchError ''child lineage binding has inconsistent parent coordinates''
      in if scope = [] \<or> last scope \<noteq> act_node_id parent then Inl inconsistent
         else bindE (mk_ScopeRunCoordinate (butlast scope) (act_run_id parent)) (\<lambda>psr.
              bindE (child_scope_run_for_activation psr parent) (\<lambda>c.
              if c \<noteq> child then Inl inconsistent else stable_activation_of psr parent)))"

end
