(* ===== verification/Frame_Index.thy ===== *)
theory Frame_Index
  imports Graph_Plan
begin

text \<open>
  The invocation-local index of value frames, \<open>mote_kernel/execution/run_context.py\<close>: four
  partitions of records, each kept in the order of its coordinates by a binary search
  (\<open>bisect.bisect_left\<close>). \<open>'f\<close> is the type of frames.

  An abstract interface \<open>frame_store\<close> says what the engine relies on; it is interpreted on the
  partition operations.
\<close>

section \<open>Coordinates\<close>

datatype graph_input_coordinate = GraphInputAvailabilityCoordinate (gic_scope_run: scope_run) (gic_descriptor: frame_descriptor_identity)

datatype activation_coordinate = ActivationCoordinate (pc_activation: stable_activation) (pc_descriptor: frame_descriptor_identity)

text \<open>\<open>order=True\<close> compares the fields in order, a nested dataclass by its own fields.\<close>

fun frame_kind_value :: "frame_kind \<Rightarrow> int" where
  "frame_kind_value GRAPH_INPUT = 1"
| "frame_kind_value NODE_INPUT = 2"
| "frame_kind_value NODE_OUTPUT = 3"
| "frame_kind_value GRAPH_OUTPUT = 4"

fun descriptor_key :: "frame_descriptor_identity \<Rightarrow> string \<times> int \<times> int \<times> int" where
  "descriptor_key (FrameDescriptorIdentity d v k i) = (d, v, frame_kind_value k, i)"

fun scope_run_key :: "scope_run \<Rightarrow> string list \<times> string" where
  "scope_run_key (ScopeRunCoordinate s r) = (s, r)"

fun stable_key :: "stable_activation \<Rightarrow> (string list \<times> string) \<times> int \<times> string" where
  "stable_key (StableActivation sr k n) = (scope_run_key sr, k, n)"

type_synonym input_key = "(string list \<times> string) \<times> string \<times> int \<times> int \<times> int"
type_synonym activation_key = "((string list \<times> string) \<times> int \<times> string) \<times> string \<times> int \<times> int \<times> int"

fun input_key :: "graph_input_coordinate \<Rightarrow> input_key" where
  "input_key (GraphInputAvailabilityCoordinate sr d) = (scope_run_key sr, descriptor_key d)"

fun activation_key :: "activation_coordinate \<Rightarrow> activation_key" where
  "activation_key (ActivationCoordinate a d) = (stable_key a, descriptor_key d)"

lemma frame_kind_value_inj: "frame_kind_value a = frame_kind_value b \<Longrightarrow> a = b"
  by (cases a; cases b) auto

lemma descriptor_key_inj: "descriptor_key a = descriptor_key b \<longleftrightarrow> a = b"
  by (cases a; cases b) (auto dest: frame_kind_value_inj)

lemma scope_run_key_inj: "scope_run_key a = scope_run_key b \<longleftrightarrow> a = b"
  by (cases a; cases b) auto

lemma stable_key_inj: "stable_key a = stable_key b \<longleftrightarrow> a = b"
  by (cases a; cases b) (auto simp: scope_run_key_inj)

lemma input_key_inj: "input_key a = input_key b \<longleftrightarrow> a = b"
  by (cases a; cases b) (auto simp: scope_run_key_inj descriptor_key_inj)

lemma activation_key_inj: "activation_key a = activation_key b \<longleftrightarrow> a = b"
  by (cases a; cases b) (auto simp: stable_key_inj descriptor_key_inj)

text \<open>The \<open>repr\<close> of a dataclass lists its fields; that of an \<open>IntEnum\<close> member its name and value.\<close>

fun frame_kind_repr :: "frame_kind \<Rightarrow> string" where
  "frame_kind_repr GRAPH_INPUT = ''<FrameKind.GRAPH_INPUT: 1>''"
| "frame_kind_repr NODE_INPUT = ''<FrameKind.NODE_INPUT: 2>''"
| "frame_kind_repr NODE_OUTPUT = ''<FrameKind.NODE_OUTPUT: 3>''"
| "frame_kind_repr GRAPH_OUTPUT = ''<FrameKind.GRAPH_OUTPUT: 4>''"

fun descriptor_repr :: "frame_descriptor_identity \<Rightarrow> string" where
  "descriptor_repr (FrameDescriptorIdentity d v k i) =
     ''FrameDescriptorIdentity(definition_id='' @ py_repr d @ '', definition_version='' @ py_str_int v @
     '', frame_kind='' @ frame_kind_repr k @ '', owner_ordinal='' @ py_str_int i @ '')''"

definition scope_run_repr :: "scope_run \<Rightarrow> string" where
  "scope_run_repr sr =
     ''ScopeRunCoordinate(scope='' @ py_repr_tuple (sr_scope sr) @ '', graph_run_id='' @ py_repr (sr_graph_run_id sr) @ '')''"

fun stable_repr :: "stable_activation \<Rightarrow> string" where
  "stable_repr (StableActivation sr k n) =
     ''StableActivation(scope_run='' @ scope_run_repr sr @ '', superstep='' @ py_str_int k @ '', node_id='' @ py_repr n @ '')''"

fun graph_input_repr :: "graph_input_coordinate \<Rightarrow> string" where
  "graph_input_repr (GraphInputAvailabilityCoordinate sr d) =
     ''GraphInputAvailabilityCoordinate(scope_run='' @ scope_run_repr sr @ '', descriptor='' @ descriptor_repr d @ '')''"

fun child_boundary_repr :: "graph_input_coordinate \<Rightarrow> string" where
  "child_boundary_repr (GraphInputAvailabilityCoordinate sr d) =
     ''ChildBoundaryAvailabilityCoordinate(child_scope_run='' @ scope_run_repr sr @ '', descriptor='' @ descriptor_repr d @ '')''"

fun publication_repr :: "activation_coordinate \<Rightarrow> string" where
  "publication_repr (ActivationCoordinate a d) =
     ''PublicationAvailabilityCoordinate(activation='' @ stable_repr a @ '', descriptor='' @ descriptor_repr d @ '')''"

fun resume_input_repr :: "activation_coordinate \<Rightarrow> string" where
  "resume_input_repr (ActivationCoordinate a d) =
     ''ResumeInputAvailabilityCoordinate(activation='' @ stable_repr a @ '', descriptor='' @ descriptor_repr d @ '')''"

section \<open>One partition\<close>

function bisect_left :: "'k::linorder list \<Rightarrow> 'k \<Rightarrow> nat \<Rightarrow> nat \<Rightarrow> nat" where
  "bisect_left ks x lo hi =
     (if lo < hi
      then let mid = (lo + hi) div 2 in
        if ks ! mid < x then bisect_left ks x (mid + 1) hi else bisect_left ks x lo mid
      else lo)"
  by pat_completeness auto
termination by (relation "measure (\<lambda>(ks, x, lo, hi). hi - lo)") auto

declare bisect_left.simps [simp del]

definition insert_frame_record ::
  "('c \<Rightarrow> 'k::linorder) \<Rightarrow> ('c \<times> 'f) list \<Rightarrow> 'c \<times> 'f \<Rightarrow> string \<Rightarrow> ('c \<times> 'f) list res" where
  "insert_frame_record key records r duplicate_message =
     (if \<exists>x\<in>set records. fst x = fst r then Inl (GraphValuePublicationError duplicate_message)
      else let position = bisect_left (map (key \<circ> fst) records) (key (fst r)) 0 (length records)
           in Inr (take position records @ r # drop position records))"

definition has_record :: "('c \<times> 'f) list \<Rightarrow> 'c \<Rightarrow> bool" where
  "has_record records c \<longleftrightarrow> (\<exists>x\<in>set records. fst x = c)"

definition lookup_record :: "('c \<Rightarrow> string) \<Rightarrow> ('c \<times> 'f) list \<Rightarrow> 'c \<Rightarrow> 'f res" where
  "lookup_record coordinate_repr records c =
     (case find (\<lambda>x. fst x = c) records of
        Some x \<Rightarrow> Inr (snd x)
      | None \<Rightarrow> Inl (SnapshotMismatchError (''continuation has no frame at coordinate '' @ coordinate_repr c)))"

lemma bisect_left_stop: "\<not> lo < hi \<Longrightarrow> bisect_left ks x lo hi = lo"
  by (subst bisect_left.simps) simp

lemma bisect_left_step:
  "lo < hi \<Longrightarrow> bisect_left ks x lo hi =
     (if ks ! ((lo + hi) div 2) < x then bisect_left ks x ((lo + hi) div 2 + 1) hi
      else bisect_left ks x lo ((lo + hi) div 2))"
  by (subst bisect_left.simps) (simp add: Let_def)

lemma bisect_left_correct:
  assumes "sorted ks" "hi \<le> length ks" "lo \<le> hi" "\<forall>i<lo. ks ! i < x" "\<forall>i. hi \<le> i \<and> i < length ks \<longrightarrow> x \<le> ks ! i"
  shows "bisect_left ks x lo hi \<le> length ks \<and> (\<forall>i<bisect_left ks x lo hi. ks ! i < x) \<and>
    (\<forall>i. bisect_left ks x lo hi \<le> i \<and> i < length ks \<longrightarrow> x \<le> ks ! i)"
  using assms
proof (induction ks x lo hi rule: bisect_left.induct)
  case (1 ks x lo hi)
  show ?case
  proof (cases "lo < hi")
    case False
    then have "lo = hi" using 1(5) by simp
    with 1(3-7) False show ?thesis by (simp add: bisect_left_stop)
  next
    case True
    define mid where "mid = (lo + hi) div 2"
    have mid: "lo \<le> mid" "mid < hi" "mid < length ks" using True 1(4) by (auto simp: mid_def)
    show ?thesis
    proof (cases "ks ! mid < x")
      case less: True
      have "ks ! i < x" if "i < mid + 1" for i
        using sorted_nth_mono [OF 1(3), of i mid] that mid less by (simp add: less_Suc_eq_le order.strict_trans1)
      with 1(1) [OF True refl] less 1(3-7) mid show ?thesis
        using True by (simp add: bisect_left_step mid_def [symmetric])
    next
      case ge: False
      have "x \<le> ks ! i" if "mid \<le> i" "i < length ks" for i
        using sorted_nth_mono [OF 1(3), of mid i] that ge by force
      with 1(2) [OF True refl] ge 1(3-7) mid show ?thesis
        using True by (simp add: bisect_left_step mid_def [symmetric])
    qed
  qed
qed

lemma bisect_left_insort:
  fixes ks :: "'k::linorder list"
  assumes s: "sorted ks" and n: "x \<notin> set ks"
  defines "p \<equiv> bisect_left ks x 0 (length ks)"
  shows "p \<le> length ks" "sorted (take p ks @ x # drop p ks)"
proof -
  have e: "\<forall>i. length ks \<le> i \<and> i < length ks \<longrightarrow> x \<le> ks ! i" by auto
  from bisect_left_correct [OF s order.refl le0 _ e]
  have p: "p \<le> length ks" "\<forall>i<p. ks ! i < x" "\<forall>i. p \<le> i \<and> i < length ks \<longrightarrow> x \<le> ks ! i" unfolding p_def by simp_all
  then show "p \<le> length ks" by blast
  have below: "y < x" if "y \<in> set (take p ks)" for y
  proof -
    from that obtain i where "i < length (take p ks)" "y = take p ks ! i" by (metis in_set_conv_nth)
    then show ?thesis using p by simp
  qed
  have above: "x \<le> y" if "y \<in> set (drop p ks)" for y
  proof -
    from that obtain i where "i < length (drop p ks)" "y = drop p ks ! i" by (metis in_set_conv_nth)
    then show ?thesis using p by simp
  qed
  have "sorted (take p ks)" "sorted (drop p ks)" using s by (simp_all add: sorted_wrt_take sorted_wrt_drop)
  then show "sorted (take p ks @ x # drop p ks)"
    using below above by (auto simp: sorted_append less_imp_le) (meson below above less_imp_le order.trans)
qed

section \<open>The interface the engine relies on\<close>

text \<open>
  A store of frames under coordinates: \<open>wf\<close> is its invariant, \<open>abs\<close> the partial map it stands
  for. An insertion succeeds exactly at a fresh coordinate and then extends the map there only.
\<close>

locale frame_store =
  fixes wf :: "'s \<Rightarrow> bool" and abs :: "'s \<Rightarrow> 'c \<rightharpoonup> 'f"
    and add :: "'s \<Rightarrow> 'c \<times> 'f \<Rightarrow> 's res" and has :: "'s \<Rightarrow> 'c \<Rightarrow> bool" and get :: "'s \<Rightarrow> 'c \<Rightarrow> 'f res"
  assumes add_fresh: "wf s \<Longrightarrow> abs s c = None \<Longrightarrow> \<exists>t. add s (c, f) = Inr t \<and> wf t \<and> abs t = (abs s)(c \<mapsto> f)"
    and add_used: "wf s \<Longrightarrow> abs s c \<noteq> None \<Longrightarrow> \<exists>e. add s (c, f) = Inl e"
    and has_abs: "has s c \<longleftrightarrow> abs s c \<noteq> None"
    and get_abs: "get s c = Inr f \<longleftrightarrow> abs s c = Some f"
begin

lemma get_after_add:
  assumes "wf s" "add s (c, f) = Inr t"
  shows "wf t" "get t c = Inr f" "d \<noteq> c \<Longrightarrow> get t d = Inr g \<longleftrightarrow> get s d = Inr g"
proof -
  have n: "abs s c = None" using add_used [OF assms(1), of c f] assms(2) by force
  from add_fresh [OF assms(1) n, of f] assms(2) have t: "wf t" "abs t = (abs s)(c \<mapsto> f)" by auto
  then show "wf t" "get t c = Inr f" "d \<noteq> c \<Longrightarrow> get t d = Inr g \<longleftrightarrow> get s d = Inr g" by (simp_all add: get_abs)
qed

lemma add_all:
  assumes "wf s" "foldE add s rs = Inr t"
  shows "wf t \<and> distinct (map fst rs) \<and> (\<forall>c\<in>set (map fst rs). \<not> has s c) \<and> abs t = (abs s) ++ map_of rs"
  using assms
proof (induction rs arbitrary: s)
  case Nil
  then show ?case by simp
next
  case (Cons r rs)
  obtain c f where r: "r = (c, f)" by (cases r)
  from Cons.prems(2) obtain u where u: "add s (c, f) = Inr u" "foldE add u rs = Inr t" by (auto simp: r bindE_eq_Inr)
  have n: "abs s c = None" using add_used [OF Cons.prems(1), of c f] u(1) by force
  from add_fresh [OF Cons.prems(1) n, of f] u(1) have w: "wf u" "abs u = (abs s)(c \<mapsto> f)" by auto
  from Cons.IH [OF w(1) u(2)] have i: "wf t" "distinct (map fst rs)" "\<forall>d\<in>set (map fst rs). \<not> has u d" "abs t = abs u ++ map_of rs"
    by blast+
  have nc: "c \<notin> fst ` set rs" using i(3) w(2) by (auto simp: has_abs)
  then have "map_of rs c = None" by (simp add: map_of_eq_None_iff)
  then have "abs t = abs s ++ map_of (r # rs)" unfolding i(4) w(2) r
    by (auto simp: map_add_def fun_eq_iff split: option.splits)
  moreover have "\<forall>d\<in>set (map fst (r # rs)). \<not> has s d"
  proof
    fix d
    assume "d \<in> set (map fst (r # rs))"
    then show "\<not> has s d" using i(3) n w(2) nc by (cases "d = c") (auto simp: has_abs r)
  qed
  moreover have "distinct (map fst (r # rs))" using i(2) nc by (simp add: r)
  ultimately show ?case using i(1) by blast
qed

lemma add_all_total:
  assumes "wf s" "distinct (map fst rs)" "\<forall>c\<in>set (map fst rs). \<not> has s c"
  shows "\<exists>t. foldE add s rs = Inr t"
  using assms
proof (induction rs arbitrary: s)
  case (Cons r rs)
  obtain c f where r: "r = (c, f)" by (cases r)
  have "abs s c = None" using Cons.prems(3) by (simp add: r has_abs)
  from add_fresh [OF Cons.prems(1) this, of f] obtain t where t: "add s (c, f) = Inr t" "wf t" "abs t = (abs s)(c \<mapsto> f)" by blast
  have "\<forall>d\<in>set (map fst rs). \<not> has t d" using Cons.prems(2,3) t(3) by (auto simp: r has_abs)
  with Cons.IH [OF t(2)] Cons.prems(2) t(1) show ?case by (simp add: r)
qed simp

end

definition sorted_partition :: "('c \<Rightarrow> 'k::linorder) \<Rightarrow> ('c \<times> 'f) list \<Rightarrow> bool" where
  "sorted_partition key rs \<longleftrightarrow> sorted (map (key \<circ> fst) rs) \<and> distinct (map fst rs)"

lemma insert_frame_record_fresh:
  assumes w: "sorted_partition key rs" and n: "map_of rs c = None" and inj: "\<And>a b. key a = key b \<longleftrightarrow> a = b"
  shows "\<exists>ts. insert_frame_record key rs (c, f) m = Inr ts \<and> sorted_partition key ts \<and> map_of ts = (map_of rs)(c \<mapsto> f)"
proof -
  let ?ks = "map (key \<circ> fst) rs"
  define p where "p = bisect_left ?ks (key c) 0 (length rs)"
  have c: "c \<notin> fst ` set rs" using n by (simp add: map_of_eq_None_iff)
  then have nk: "key c \<notin> set ?ks" by (force simp: inj)
  have s: "sorted ?ks" and d: "distinct (map fst rs)" using w by (auto simp: sorted_partition_def)
  have srt: "sorted (take p ?ks @ key c # drop p ?ks)"
    using bisect_left_insort(2) [OF s nk] by (simp add: p_def)
  have m: "map (key \<circ> fst) (take p rs @ (c, f) # drop p rs) = take p ?ks @ key c # drop p ?ks"
    by (simp add: take_map drop_map)
  have dt: "distinct (map fst (take p rs @ drop p rs))" using d by simp
  then have dis: "distinct (map fst (take p rs @ (c, f) # drop p rs))"
    using c by (auto simp del: append_take_drop_id dest: in_set_takeD in_set_dropD)
  have "map_of (take p rs @ (c, f) # drop p rs) = (map_of rs)(c \<mapsto> f)"
  proof
    fix x
    have "map_of (take p rs @ drop p rs) x = map_of rs x" by simp
    moreover have "map_of (take p rs) c = None" "map_of (drop p rs) c = None"
      using c by (auto simp: map_of_eq_None_iff dest: in_set_takeD in_set_dropD)
    ultimately show "map_of (take p rs @ (c, f) # drop p rs) x = ((map_of rs)(c \<mapsto> f)) x"
      by (auto simp: map_add_def simp del: append_take_drop_id split: option.splits)
  qed
  moreover have "insert_frame_record key rs (c, f) m = Inr (take p rs @ (c, f) # drop p rs)"
    using c by (auto simp: insert_frame_record_def p_def Let_def)
  ultimately show ?thesis using srt dis m by (auto simp: sorted_partition_def)
qed

lemma insert_frame_record_used: "map_of rs c \<noteq> None \<Longrightarrow> insert_frame_record key rs (c, f) m = Inl (GraphValuePublicationError m)"
  by (force simp: insert_frame_record_def dest: map_of_SomeD)

lemma has_record_map_of: "has_record rs c \<longleftrightarrow> map_of rs c \<noteq> None"
  by (auto simp: has_record_def map_of_eq_None_iff)

lemma find_map_of: "map_of rs c = map_option snd (find (\<lambda>x. fst x = c) rs)"
  by (induction rs) auto

lemma lookup_record_map_of: "lookup_record show rs c = Inr f \<longleftrightarrow> map_of rs c = Some f"
  by (auto simp: lookup_record_def find_map_of split: option.splits)

section \<open>The index\<close>

record 'f frame_index =
  fi_graph_inputs :: "(graph_input_coordinate \<times> 'f) list"
  fi_publications :: "(activation_coordinate \<times> 'f) list"
  fi_resume_inputs :: "(activation_coordinate \<times> 'f) list"
  fi_child_boundaries :: "(graph_input_coordinate \<times> 'f) list"

definition add_graph_input :: "'f frame_index \<Rightarrow> graph_input_coordinate \<times> 'f \<Rightarrow> 'f frame_index res" where
  "add_graph_input ix r =
     bindE (insert_frame_record input_key (fi_graph_inputs ix) r ''graph input coordinate was admitted more than once'')
       (\<lambda>rs. Inr (ix\<lparr>fi_graph_inputs := rs\<rparr>))"

definition add_publication :: "'f frame_index \<Rightarrow> activation_coordinate \<times> 'f \<Rightarrow> 'f frame_index res" where
  "add_publication ix r =
     bindE (insert_frame_record activation_key (fi_publications ix) r ''stable activation was published more than once'')
       (\<lambda>rs. Inr (ix\<lparr>fi_publications := rs\<rparr>))"

definition add_resume_input :: "'f frame_index \<Rightarrow> activation_coordinate \<times> 'f \<Rightarrow> 'f frame_index res" where
  "add_resume_input ix r =
     bindE (insert_frame_record activation_key (fi_resume_inputs ix) r ''resume input coordinate was admitted more than once'')
       (\<lambda>rs. Inr (ix\<lparr>fi_resume_inputs := rs\<rparr>))"

definition add_child_boundary :: "'f frame_index \<Rightarrow> graph_input_coordinate \<times> 'f \<Rightarrow> 'f frame_index res" where
  "add_child_boundary ix r =
     bindE (insert_frame_record input_key (fi_child_boundaries ix) r ''child boundary coordinate was confirmed more than once'')
       (\<lambda>rs. Inr (ix\<lparr>fi_child_boundaries := rs\<rparr>))"

definition wf_index :: "'f frame_index \<Rightarrow> bool" where
  "wf_index ix \<longleftrightarrow> sorted_partition input_key (fi_graph_inputs ix) \<and> sorted_partition activation_key (fi_publications ix) \<and>
     sorted_partition activation_key (fi_resume_inputs ix) \<and> sorted_partition input_key (fi_child_boundaries ix)"

interpretation inputs: frame_store "sorted_partition input_key" map_of
  "\<lambda>rs r. insert_frame_record input_key rs r m" has_record "lookup_record graph_input_repr" for m
  by unfold_locales
    (simp_all add: insert_frame_record_fresh input_key_inj insert_frame_record_used has_record_map_of lookup_record_map_of)

interpretation activations: frame_store "sorted_partition activation_key" map_of
  "\<lambda>rs r. insert_frame_record activation_key rs r m" has_record "lookup_record publication_repr" for m
  by unfold_locales
    (simp_all add: insert_frame_record_fresh activation_key_inj insert_frame_record_used has_record_map_of lookup_record_map_of)

text \<open>A field of a larger record that holds a partition is a store too.\<close>

lemma partition_field_store:
  fixes key :: "'c \<Rightarrow> 'k::linorder" and part :: "'s \<Rightarrow> ('c \<times> 'f) list" and wf :: "'s \<Rightarrow> bool"
  assumes "\<And>s. wf s \<Longrightarrow> sorted_partition key (part s)"
    and "\<And>s rs. wf s \<Longrightarrow> sorted_partition key rs \<Longrightarrow> wf (upd s rs) \<and> part (upd s rs) = rs"
    and inj: "\<And>a b. key a = key b \<longleftrightarrow> a = b"
    and add: "\<And>s r. add s r = bindE (insert_frame_record key (part s) r m) (\<lambda>rs. Inr (upd s rs))"
  shows "frame_store wf (\<lambda>s. map_of (part s)) add (\<lambda>s. has_record (part s)) (\<lambda>s. lookup_record show (part s))"
proof unfold_locales
  fix s :: 's and c :: 'c and f :: 'f
  assume w: "wf s" and n: "map_of (part s) c = None"
  from insert_frame_record_fresh [OF assms(1) [OF w] n inj, of f m] assms(2) [OF w]
  show "\<exists>t. add s (c, f) = Inr t \<and> wf t \<and> map_of (part t) = (map_of (part s))(c \<mapsto> f)" by (force simp: add)
qed (simp_all add: add insert_frame_record_used has_record_map_of lookup_record_map_of)

interpretation publications: frame_store wf_index "\<lambda>ix. map_of (fi_publications ix)" add_publication
  "\<lambda>ix. has_record (fi_publications ix)" "\<lambda>ix. lookup_record publication_repr (fi_publications ix)"
  by (rule partition_field_store [where upd = "\<lambda>ix rs. ix\<lparr>fi_publications := rs\<rparr>"])
    (simp_all add: wf_index_def activation_key_inj add_publication_def)

interpretation graph_inputs: frame_store wf_index "\<lambda>ix. map_of (fi_graph_inputs ix)" add_graph_input
  "\<lambda>ix. has_record (fi_graph_inputs ix)" "\<lambda>ix. lookup_record graph_input_repr (fi_graph_inputs ix)"
  by (rule partition_field_store [where upd = "\<lambda>ix rs. ix\<lparr>fi_graph_inputs := rs\<rparr>"])
    (simp_all add: wf_index_def input_key_inj add_graph_input_def)

interpretation resume_inputs: frame_store wf_index "\<lambda>ix. map_of (fi_resume_inputs ix)" add_resume_input
  "\<lambda>ix. has_record (fi_resume_inputs ix)" "\<lambda>ix. lookup_record resume_input_repr (fi_resume_inputs ix)"
  by (rule partition_field_store [where upd = "\<lambda>ix rs. ix\<lparr>fi_resume_inputs := rs\<rparr>"])
    (simp_all add: wf_index_def activation_key_inj add_resume_input_def)

interpretation child_boundaries: frame_store wf_index "\<lambda>ix. map_of (fi_child_boundaries ix)" add_child_boundary
  "\<lambda>ix. has_record (fi_child_boundaries ix)" "\<lambda>ix. lookup_record child_boundary_repr (fi_child_boundaries ix)"
  by (rule partition_field_store [where upd = "\<lambda>ix rs. ix\<lparr>fi_child_boundaries := rs\<rparr>"])
    (simp_all add: wf_index_def input_key_inj add_child_boundary_def)

end
