(* ===== verification/Engine_Routing.thy ===== *)
theory Engine_Routing
  imports Frame_Index
begin

text \<open>
  The resolver of one settled frontier, \<open>mote_kernel/execution/engine/routing.py\<close>: value
  coordinates of bindings, validation of routing contributions, compiled joins, admission of a
  frontier against the plan, and the choice of the next command.

  A function that returns an error text or \<open>None\<close> and may also raise returns \<open>string option res\<close>.
  A dictionary of lists is an association list in insertion order (\<open>dict_append\<close> is
  \<open>setdefault(k, []).append(v)\<close>).
\<close>

section \<open>Dictionaries of lists and caught errors\<close>

fun dict_append :: "('k \<times> 'v list) list \<Rightarrow> 'k \<Rightarrow> 'v \<Rightarrow> ('k \<times> 'v list) list" where
  "dict_append [] k v = [(k, [v])]"
| "dict_append ((k', vs) # d) k v = (if k' = k then (k', vs @ [v]) # d else (k', vs) # dict_append d k v)"

definition dict_get :: "('k \<times> 'v list) list \<Rightarrow> 'k \<Rightarrow> 'v list" where
  "dict_get d k = (case map_of d k of None \<Rightarrow> [] | Some vs \<Rightarrow> vs)"

fun error_text :: "kernel_error \<Rightarrow> string" where
  "error_text (InvalidRoutingCommandError m) = m"
| "error_text (UnknownRouteError m) = m"
| "error_text (JoinProgressError m) = m"
| "error_text (RoutingDeadlockError m) = m"
| "error_text (SnapshotMismatchError m) = m"
| "error_text _ = []"

fun is_invalid_routing :: "kernel_error \<Rightarrow> bool" where
  "is_invalid_routing (InvalidRoutingCommandError _) = True"
| "is_invalid_routing _ = False"

fun is_join_error :: "kernel_error \<Rightarrow> bool" where
  "is_join_error (JoinProgressError _) = True"
| "is_join_error _ = False"

fun is_snapshot_error :: "kernel_error \<Rightarrow> bool" where
  "is_snapshot_error (SnapshotMismatchError _) = True"
| "is_snapshot_error _ = False"

fun is_deadlock_error :: "kernel_error \<Rightarrow> bool" where
  "is_deadlock_error (RoutingDeadlockError _) = True"
| "is_deadlock_error _ = False"

section \<open>Value coordinates\<close>

record history_window =
  hw_absolute_supersteps :: "int list"
  hw_relative_horizon :: int

definition publication_history_window :: "compiled_graph \<Rightarrow> history_window" where
  "publication_history_window g =
     (let bindings = concat (map (\<lambda>(_, plan). mp_bindings plan) (tp_materializations (cg_transition g)));
          causal = filter (\<lambda>b. case ib_source b of CompiledPredecessorInput _ \<Rightarrow> True | _ \<Rightarrow> False) bindings;
          selections = map ib_publication (filter (\<lambda>b. case ib_source b of CompiledPredecessorInput _ \<Rightarrow> False | _ \<Rightarrow> True) bindings) @
            map ob_publication (tp_graph_outputs (cg_transition g));
          chosen = concat (map (\<lambda>p. case p of None \<Rightarrow> [] | Some s \<Rightarrow> [s]) selections)
      in \<lparr>hw_absolute_supersteps = sorted_set (map sel_superstep (filter (\<lambda>s. sel_kind s = ABSOLUTE) chosen)),
          hw_relative_horizon = foldl max (if causal = [] then 0 else 1)
            (map sel_superstep (filter (\<lambda>s. sel_kind s \<noteq> ABSOLUTE) chosen))\<rparr>)"

definition graph_input_availability_coordinate :: "compiled_graph \<Rightarrow> scope_run \<Rightarrow> graph_input_coordinate" where
  "graph_input_availability_coordinate g sr = GraphInputAvailabilityCoordinate sr (fd_identity (cg_graph_input_descriptor g))"

definition publication_availability_coordinate ::
  "compiled_graph \<Rightarrow> scope_run \<Rightarrow> graph_activation_identity \<Rightarrow> activation_coordinate res" where
  "publication_availability_coordinate g sr a =
     bindE (stable_activation_of sr a) (\<lambda>sa.
     bindE (fm_get (tp_publications (cg_transition g)) (act_node_id a)) (\<lambda>d.
     Inr (ActivationCoordinate sa (fd_identity d))))"

datatype frame_coordinate = InputCoordinate graph_input_coordinate | PublicationCoordinate activation_coordinate

definition source_availability_coordinate ::
  "compiled_graph \<Rightarrow> scope_run \<Rightarrow> value_source \<Rightarrow> publication_selection option \<Rightarrow> int \<Rightarrow> kernel_error \<Rightarrow> frame_coordinate res" where
  "source_availability_coordinate g sr source publication activation_superstep missing_selection =
     (case source of
        GraphInputPort _ \<Rightarrow> Inr (InputCoordinate (graph_input_availability_coordinate g sr))
      | NodeOutputPort n _ \<Rightarrow>
          bindE (require_publication_selection publication missing_selection) (\<lambda>selection.
          bindE (resolve_selection selection activation_superstep) (\<lambda>k.
          bindE (mk_GraphActivationIdentity (sr_graph_run_id sr) k n) (\<lambda>a.
          bindE (publication_availability_coordinate g sr a) (\<lambda>c. Inr (PublicationCoordinate c))))))"

definition frame_coordinate_available :: "'f frame_index \<Rightarrow> frame_coordinate \<Rightarrow> bool" where
  "frame_coordinate_available frames c =
     (case c of InputCoordinate i \<Rightarrow> has_record (fi_graph_inputs frames) i
      | PublicationCoordinate p \<Rightarrow> has_record (fi_publications frames) p)"

definition settled_references :: "graph_run_state \<Rightarrow> activation_reference list" where
  "settled_references s = map ps_reference (gr_settled_publications s)"

datatype causal_selection = CausalStart string | PredecessorSourceSelection "string \<times> string" graph_activation_identity

definition causal_input_source_for_cause ::
  "compiled_graph \<Rightarrow> graph_run_state \<Rightarrow> int \<Rightarrow> activation_cause \<Rightarrow> input_binding \<Rightarrow> causal_selection res" where
  "causal_input_source_for_cause g s target_superstep cause binding =
     (case ib_source binding of
        ResolvedSource _ \<Rightarrow> Inl (InvalidRoutingCommandError ''causal source selection requires a predecessor-bound input'')
      | CompiledPredecessorInput source \<Rightarrow>
          if cp_target source \<noteq> ib_node_id binding \<or> cp_input_name source \<noteq> ib_local_name binding
          then Inl (InvalidRoutingCommandError ''predecessor binding does not match its target input'')
          else if target_superstep < 0
          then Inl (InvalidRoutingCommandError ''predecessor-bound activation has an invalid target coordinate'')
          else (case cause of
            StartActivationCause \<Rightarrow>
              if target_superstep = 0
              then (case cp_start_input source of
                  None \<Rightarrow> Inl (InvalidRoutingCommandError ''predecessor-bound activation has an invalid target coordinate'')
                | Some name \<Rightarrow>
                    if ib_node_id binding \<notin> set (tp_entries (cg_transition g)) \<or> name \<noteq> ib_local_name binding
                    then Inl (InvalidRoutingCommandError ''causal START input does not belong to an initial graph activation'')
                    else Inr (CausalStart name))
              else Inl (InvalidRoutingCommandError ''predecessor-bound activation cannot carry the START cause'')
          | RoutedActivationCause refs occ \<Rightarrow>
              if target_superstep < 1
              then Inl (InvalidRoutingCommandError ''predecessor-bound activation has an invalid target coordinate'')
              else (case (occ, refs) of
                (None, [r]) \<Rightarrow>
                  bindE (mk_GraphActivationIdentity (gr_run_id s) (target_superstep - 1) (act_node_id (ref_activation r))) (\<lambda>expected.
                  if ref_activation r \<noteq> expected \<or> r \<notin> set (settled_references s)
                  then Inl (InvalidRoutingCommandError ''predecessor activation lacks immediate committed settlement evidence'')
                  else (case filter (\<lambda>p. fst p = act_node_id (ref_activation r)) (cp_sources source) of
                      [p] \<Rightarrow> Inr (PredecessorSourceSelection p (ref_activation r))
                    | _ \<Rightarrow> Inl (InvalidRoutingCommandError ''activation cause is not an allowed predecessor source'')))
              | _ \<Rightarrow> Inl (InvalidRoutingCommandError ''predecessor-bound activation requires one non-Join predecessor''))))"

definition binding_source_coordinate ::
  "compiled_graph \<Rightarrow> graph_run_state option \<Rightarrow> scope_run \<Rightarrow> int \<Rightarrow> input_binding \<Rightarrow> activation_cause option \<Rightarrow>
     (value_source \<times> frame_coordinate) res" where
  "binding_source_coordinate g state sr activation_superstep binding cause =
     (case ib_source binding of
        CompiledPredecessorInput _ \<Rightarrow>
          (case (state, cause) of
             (Some s, Some c) \<Rightarrow>
               bindE (causal_input_source_for_cause g s activation_superstep c binding) (\<lambda>selected.
               (case selected of
                  CausalStart name \<Rightarrow> Inr (GraphInputPort name, InputCoordinate (graph_input_availability_coordinate g sr))
                | PredecessorSourceSelection (n, output_name) a \<Rightarrow>
                    bindE (publication_availability_coordinate g sr a) (\<lambda>k.
                    Inr (NodeOutputPort n output_name, PublicationCoordinate k))))
           | _ \<Rightarrow> Inl (InvalidRoutingCommandError ''predecessor input availability requires authoritative graph state''))
      | ResolvedSource source \<Rightarrow>
          bindE (source_availability_coordinate g sr source (ib_publication binding) activation_superstep
            (InvalidRoutingCommandError ''compiled node-output binding lacks its activation selection'')) (\<lambda>k.
          Inr (source, k)))"

definition source_label :: "value_source \<Rightarrow> string" where
  "source_label source = (case source of
     GraphInputPort name \<Rightarrow> ''graph-input:'' @ name | NodeOutputPort n name \<Rightarrow> n @ ''.'' @ name)"

section \<open>Contributions and settled activations\<close>

definition validate_routing_contribution :: "compiled_graph \<Rightarrow> string \<Rightarrow> graph_routing \<Rightarrow> unit res" where
  "validate_routing_contribution g n contribution =
     (let t = cg_transition g in
      if \<not> fm_has (cg_nodes g) n then Inl (InvalidRoutingCommandError ''routing contribution references an unknown node'')
      else bindE (fm_get (tp_conditional_targets t) n) (\<lambda>conditional.
      bindE (fm_get (tp_route_options t) n) (\<lambda>options.
      (case contribution of
         ContinueGraphRouting \<Rightarrow>
           if conditional \<noteq> [] then Inl (InvalidRoutingCommandError ''a conditional node must select one declared route'')
           else if None \<notin> set options
           then Inl (InvalidRoutingCommandError ''a terminal node must select one declared exported route'')
           else Inr ()
       | SelectGraphRoute r \<Rightarrow>
           bindE (if conditional \<noteq> [] then Inr False
                  else bindE (fm_get (tp_direct_targets t) n) (\<lambda>ds.
                       if ds \<noteq> [] then Inr True else bindE (fm_get (tp_joins_by_source t) n) (\<lambda>js. Inr (js \<noteq> [])))) (\<lambda>continues.
           if continues
           then Inl (InvalidRoutingCommandError ''a route may be returned without conditional edges only by a terminal node'')
           else if Some r \<notin> set options
           then Inl (UnknownRouteError (if conditional \<noteq> [] then ''node selected an unknown conditional route''
                  else ''node selected an undeclared exported route''))
           else Inr ())))))"

definition settled_reference_error :: "compiled_graph \<Rightarrow> activation_reference \<Rightarrow> string option res" where
  "settled_reference_error g reference =
     (let t = cg_transition g; n = act_node_id (ref_activation reference); route = ref_route reference in
      if \<not> fm_has (cg_nodes g) n then Inr (Some (''settled activation references unknown node '' @ py_repr n))
      else bindE (fm_get (tp_conditional_targets t) n) (\<lambda>conditional.
      bindE (fm_get (tp_route_options t) n) (\<lambda>options.
      if route = None \<and> conditional \<noteq> []
      then Inr (Some (''conditional settled activation '' @ py_repr n @ '' lacks its selected route''))
      else if route \<in> set options then Inr None
      else if conditional \<noteq> []
      then Inr (Some (''settled activation '' @ py_repr n @ '' selected an unknown route '' @ py_repr_route route))
      else bindE (fm_get (tp_direct_targets t) n) (\<lambda>ds.
           bindE (if ds \<noteq> [] then Inr True else bindE (fm_get (tp_joins_by_source t) n) (\<lambda>js. Inr (js \<noteq> []))) (\<lambda>continues.
           if continues
           then Inr (Some (''non-terminal settled activation '' @ py_repr n @ '' selected route '' @ py_repr_route route))
           else Inr (Some (''settled activation '' @ py_repr n @ '' selected an undeclared exported route '' @ py_repr_route route)))))))"

fun first_error :: "('a \<Rightarrow> string option res) \<Rightarrow> 'a list \<Rightarrow> string option res" where
  "first_error f [] = Inr None"
| "first_error f (x # xs) = bindE (f x) (\<lambda>e. case e of Some m \<Rightarrow> Inr (Some m) | None \<Rightarrow> first_error f xs)"

definition settled_activation_admission_error :: "compiled_graph \<Rightarrow> graph_run_state \<Rightarrow> string option res" where
  "settled_activation_admission_error g s = first_error (settled_reference_error g) (settled_references s)"

definition successor_targets_for_reference :: "compiled_graph \<Rightarrow> activation_reference \<Rightarrow> string list res" where
  "successor_targets_for_reference g reference =
     (let source = act_node_id (ref_activation reference) in
      bindE (fm_get (tp_conditional_targets (cg_transition g)) source) (\<lambda>routes.
      if routes \<noteq> [] \<and> ref_route reference = None
      then Inl (InvalidRoutingCommandError ''conditional predecessor settlement lacks its selected route'')
      else if routes \<noteq> [] \<and> (case ref_route reference of None \<Rightarrow> False | Some r \<Rightarrow> \<not> fm_has routes r)
      then Inl (InvalidRoutingCommandError ''predecessor settlement selected an unknown route'')
      else bindE (fm_get (tp_direct_targets (cg_transition g)) source) (\<lambda>ds.
        (case ref_route reference of
           Some r \<Rightarrow>
             if routes = [] then Inr ds
             else bindE (fm_get routes r) (\<lambda>target. Inr (if target = END_NODE then ds else ds @ [target]))
         | None \<Rightarrow> Inr ds))))"

section \<open>Compiled joins and the admission of a frontier\<close>

definition route_key :: "string \<times> string option \<Rightarrow> string \<times> bool \<times> string" where
  "route_key x = (fst x, snd x \<noteq> None, (case snd x of None \<Rightarrow> '''' | Some r \<Rightarrow> r))"

definition gate_matches_cause :: "activation_gate \<Rightarrow> activation_reference list \<Rightarrow> bool" where
  "gate_matches_cause gate refs =
     (let actual = sort_key route_key (map (\<lambda>r. (act_node_id (ref_activation r), ref_route r)) refs)
      in length actual = length gate \<and>
         list_all (\<lambda>((source, allowed), (actual_source, actual_route)). source = actual_source \<and> actual_route \<in> allowed)
           (zip gate actual))"

type_synonym join_table = "(graph_join_identity \<times> compiled_join) list"

definition declare_join :: "string \<Rightarrow> join_table \<Rightarrow> compiled_join \<Rightarrow> join_table res" where
  "declare_join source declared j =
     (if source \<notin> set (join_sources (cj_identity j))
      then Inl (SnapshotMismatchError ''compiled Join is indexed under a non-source node'')
      else (case map_of declared (cj_identity j) of
          None \<Rightarrow> Inr (declared @ [(cj_identity j, j)])
        | Some existing \<Rightarrow>
            if existing \<noteq> j
            then Inl (SnapshotMismatchError ''compiled Join identity has conflicting occurrence projections'')
            else Inr declared))"

definition declared_joins :: "compiled_graph \<Rightarrow> join_table res" where
  "declared_joins g =
     (let index = tp_joins_by_source (cg_transition g) in
      bindE (foldE (\<lambda>declared (source, joins). foldE (declare_join source) declared joins) [] index) (\<lambda>declared.
      if \<exists>i\<in>set (map fst declared). set (map fst (filter (\<lambda>(_, js). i \<in> set (map cj_identity js)) index)) \<noteq> set (join_sources i)
      then Inl (SnapshotMismatchError ''compiled Join source index is incomplete'')
      else Inr declared))"

type_synonym arrival_table = "(graph_join_occurrence \<times> activation_reference list) list"

definition all_occurrences :: "compiled_join \<Rightarrow> graph_join_occurrence \<Rightarrow> activation_reference list \<Rightarrow> bool res" where
  "all_occurrences plan oc refs =
     foldE (\<lambda>ok r. if \<not> ok then Inr False
       else bindE (occurrence_for plan (ref_activation r)) (\<lambda>k. Inr (k = oc))) True refs"

definition pending_join_step ::
  "graph_run_state \<Rightarrow> join_table \<Rightarrow> arrival_table \<Rightarrow> join_progress_record \<Rightarrow> arrival_table res" where
  "pending_join_step s declared arrivals progress =
     (let oc = jp_occurrence progress; arrived = jp_arrived progress; sources = reference_nodes arrived in
      case map_of declared (occ_join oc) of
        None \<Rightarrow> Inl (JoinProgressError ''snapshot contains invalid Join progress'')
      | Some plan \<Rightarrow>
          if oc \<in> set (map fst arrivals) \<or> occ_run_id oc \<noteq> gr_run_id s \<or> occ_target_superstep oc \<le> gr_superstep s \<or>
             arrived = [] \<or> \<not> set sources \<subset> set (join_sources (occ_join oc))
          then Inl (JoinProgressError ''snapshot contains invalid Join progress'')
          else if length sources \<noteq> card (set sources)
          then Inl (JoinProgressError ''snapshot Join progress repeats one source activation'')
          else if \<exists>r\<in>set arrived. r \<notin> set (settled_references s)
          then Inl (JoinProgressError ''snapshot Join progress lacks committed settlement evidence'')
          else bindE (all_occurrences plan oc arrived) (\<lambda>ok.
            if \<not> ok then Inl (JoinProgressError ''snapshot Join progress has misprojected arrival evidence'')
            else Inr (arrivals @ [(oc, arrived)])))"

definition pending_join_arrivals :: "graph_run_state \<Rightarrow> join_table \<Rightarrow> arrival_table res" where
  "pending_join_arrivals s declared = foldE (pending_join_step s declared) [] (gr_join_progress s)"

definition causal_binding_error :: "compiled_graph \<Rightarrow> graph_run_state \<Rightarrow> frontier_node_record \<Rightarrow> string option res" where
  "causal_binding_error g s node =
     bindE (fm_get (tp_materializations (cg_transition g)) (fn_node_id node)) (\<lambda>plan.
     first_error (\<lambda>binding. case ib_source binding of
         ResolvedSource _ \<Rightarrow> Inr None
       | CompiledPredecessorInput _ \<Rightarrow>
           (case causal_input_source_for_cause g s (gr_superstep s) (fn_cause node) binding of
              Inr _ \<Rightarrow> Inr None
            | Inl e \<Rightarrow> if is_invalid_routing e then Inr (Some (error_text e)) else Inl e)) (mp_bindings plan))"

definition join_evidence_error ::
  "graph_run_state \<Rightarrow> join_table \<Rightarrow> string \<Rightarrow> activation_reference list \<Rightarrow> graph_join_occurrence \<Rightarrow> string option res" where
  "join_evidence_error s declared n refs oc =
     (let unknown = Inr (Some (''frontier activation '' @ py_repr n @ '' has an unknown Join occurrence'')) in
      case map_of declared (occ_join oc) of
        None \<Rightarrow> unknown
      | Some plan \<Rightarrow>
          if join_target (occ_join oc) \<noteq> n \<or> occ_run_id oc \<noteq> gr_run_id s \<or> occ_target_superstep oc \<noteq> gr_superstep s
          then unknown
          else bindE (all_occurrences plan oc refs) (\<lambda>ok.
            if \<not> ok then Inr (Some (''frontier activation '' @ py_repr n @ '' has misprojected Join evidence''))
            else Inr None))"

definition gate_error :: "compiled_graph \<Rightarrow> graph_run_state \<Rightarrow> join_table \<Rightarrow> frontier_node_record \<Rightarrow> string option res" where
  "gate_error g s declared node =
     (let n = fn_node_id node in
      if \<not> fm_has (cg_nodes g) n then Inr (Some (''frontier activation references unknown node '' @ py_repr n))
      else bindE (causal_binding_error g s node) (\<lambda>causal.
      case causal of Some m \<Rightarrow> Inr (Some m) | None \<Rightarrow>
      (case fn_cause node of
         StartActivationCause \<Rightarrow>
           if n \<notin> set (tp_entries (cg_transition g))
           then Inr (Some (''START activation '' @ py_repr n @ '' is not a compiled graph entry'')) else Inr None
       | RoutedActivationCause refs occ \<Rightarrow>
           bindE (fm_get (tp_activation_gates (cg_transition g)) n) (\<lambda>gates.
           (case filter (\<lambda>gate. gate_matches_cause gate refs) gates of
              [gate] \<Rightarrow>
                bindE (case occ of
                    None \<Rightarrow> if length gate \<noteq> 1
                      then Inr (Some (''frontier activation '' @ py_repr n @ '' lacks its compiled Join occurrence'')) else Inr None
                  | Some oc \<Rightarrow> join_evidence_error s declared n refs oc) (\<lambda>e.
                (case e of
                   Some m \<Rightarrow> Inr (Some m)
                 | None \<Rightarrow>
                     if \<exists>r\<in>set refs. r \<notin> set (settled_references s)
                     then Inr (Some (''frontier activation '' @ py_repr n @ '' lacks committed predecessor settlement evidence''))
                     else Inr None))
            | _ \<Rightarrow> Inr (Some (''frontier activation '' @ py_repr n @ '' does not match exactly one compiled activation gate'')))))))"

definition frontier_gate_error :: "compiled_graph \<Rightarrow> graph_run_state \<Rightarrow> join_table \<Rightarrow> string option res" where
  "frontier_gate_error g s declared = first_error (gate_error g s declared) (gr_frontier s)"

definition record_arrival ::
  "graph_activation_identity \<Rightarrow> activation_reference \<Rightarrow> arrival_table \<Rightarrow> compiled_join \<Rightarrow> arrival_table res" where
  "record_arrival a r arrivals plan =
     bindE (occurrence_for plan a) (\<lambda>oc.
     (case find (\<lambda>x. act_node_id (ref_activation x) = act_node_id a) (dict_get arrivals oc) of
        Some existing \<Rightarrow>
          Inl (JoinProgressError (if existing \<noteq> r then ''Join source activation occurrence selected two routes''
             else ''Join source activation occurrence repeated''))
      | None \<Rightarrow> Inr (dict_append arrivals oc r)))"

definition historical_step ::
  "compiled_graph \<Rightarrow> graph_run_state \<Rightarrow> arrival_table \<Rightarrow> activation_reference \<Rightarrow> arrival_table res" where
  "historical_step g s arrivals r =
     (let a = ref_activation r in
      if act_superstep a \<ge> gr_superstep s then Inr arrivals
      else if \<not> fm_has (cg_nodes g) (act_node_id a)
      then Inl (JoinProgressError (''settled activation references unknown node '' @ py_repr (act_node_id a)))
      else bindE (fm_get (tp_joins_by_source (cg_transition g)) (act_node_id a)) (\<lambda>plans.
        foldE (record_arrival a r) arrivals plans))"

definition historical_join_arrivals :: "compiled_graph \<Rightarrow> graph_run_state \<Rightarrow> arrival_table res" where
  "historical_join_arrivals g s =
     bindE (foldE (historical_step g s) [] (settled_references s)) (\<lambda>arrivals.
     Inr (map (\<lambda>(oc, refs). (oc, sort_key canonical_key refs)) arrivals))"

text \<open>
  The successor check of a recovered frontier. \<open>(string + 'a) res\<close> is a phase that may return an
  error text (\<open>Inr (Inl m)\<close>), go on with a value (\<open>Inr (Inr x)\<close>), or raise.
\<close>

type_synonym candidate_table = "(string \<times> activation_cause list) list"

definition and_then :: "(string + 'a) res \<Rightarrow> ('a \<Rightarrow> (string + 'b) res) \<Rightarrow> (string + 'b) res" where
  "and_then m f = bindE m (\<lambda>x. case x of Inl msg \<Rightarrow> Inr (Inl msg) | Inr y \<Rightarrow> f y)"

fun fold_phase :: "('s \<Rightarrow> 'a \<Rightarrow> (string + 's) res) \<Rightarrow> 's \<Rightarrow> 'a list \<Rightarrow> (string + 's) res" where
  "fold_phase f st [] = Inr (Inr st)"
| "fold_phase f st (x # xs) = and_then (f st x) (\<lambda>st'. fold_phase f st' xs)"

definition add_candidates :: "candidate_table \<Rightarrow> activation_reference \<Rightarrow> string list \<Rightarrow> candidate_table res" where
  "add_candidates candidates r targets =
     foldE (\<lambda>cs t. bindE (mk_RoutedActivationCause [r] None) (\<lambda>c. Inr (dict_append cs t c))) candidates targets"

definition successor_phase ::
  "compiled_graph \<Rightarrow> candidate_table \<Rightarrow> activation_reference \<Rightarrow> (string + candidate_table) res" where
  "successor_phase g candidates r =
     (case successor_targets_for_reference g r of
        Inl e \<Rightarrow> if is_invalid_routing e then Inr (Inl (error_text e)) else Inl e
      | Inr targets \<Rightarrow> bindE (add_candidates candidates r targets) (\<lambda>cs. Inr (Inr cs)))"

definition join_phase ::
  "graph_run_state \<Rightarrow> candidate_table \<times> arrival_table \<Rightarrow> graph_join_occurrence \<times> activation_reference list \<Rightarrow>
     (string + (candidate_table \<times> arrival_table)) res" where
  "join_phase s st x =
     (case (st, x) of ((candidates, expected), (oc, arrivals)) \<Rightarrow>
       let complete = (set (reference_nodes arrivals) = set (join_sources (occ_join oc))) in
       if occ_target_superstep oc < gr_superstep s
       then (if \<not> complete then Inr (Inl ''historical Join occurrence passed its target without every source'') else Inr (Inr st))
       else if complete
       then (if occ_target_superstep oc \<noteq> gr_superstep s then Inr (Inl ''Join occurrence completed before its target coordinate'')
             else if join_target (occ_join oc) \<noteq> END_NODE
             then bindE (mk_RoutedActivationCause arrivals (Some oc)) (\<lambda>c.
                  Inr (Inr (dict_append candidates (join_target (occ_join oc)) c, expected)))
             else Inr (Inr st))
       else if occ_target_superstep oc = gr_superstep s
       then Inr (Inl ''Join occurrence reached its target coordinate without every source'')
       else Inr (Inr (candidates, expected @ [(oc, arrivals)])))"

definition progress_phase :: "graph_run_state \<Rightarrow> arrival_table \<Rightarrow> (string + unit) res" where
  "progress_phase s expected =
     (let actual = map (\<lambda>j. (jp_occurrence j, jp_arrived j)) (rev (gr_join_progress s)) in
      if set (map fst actual) \<noteq> set (map fst expected)
      then Inr (Inl ''frontier transition lost or invented Join progress'')
      else if \<exists>x\<in>set expected. map_of actual (fst x) \<noteq> Some (snd x)
      then Inr (Inl ''frontier transition changed Join progress without a proven arrival'')
      else Inr (Inr ()))"

definition routed_causes :: "graph_frontier \<Rightarrow> (string \<times> activation_cause) list" where
  "routed_causes nodes =
     rev (concat (map (\<lambda>x. case fn_cause x of RoutedActivationCause _ _ \<Rightarrow> [(fn_node_id x, fn_cause x)] | _ \<Rightarrow> []) nodes))"

definition target_phase :: "(string \<times> activation_cause) list \<Rightarrow> unit \<Rightarrow> string \<times> activation_cause list \<Rightarrow> (string + unit) res" where
  "target_phase actual u x =
     (case x of (target, causes) \<Rightarrow>
       if length causes \<noteq> 1
       then Inr (Inl (''target '' @ py_repr target @ '' has '' @ py_str_int (int (length causes)) @ '' compiled activation causes''))
       else if map_of actual target \<noteq> Some (hd causes)
       then Inr (Inl (''frontier target '' @ py_repr target @ '' does not match its compiled successor cause''))
       else Inr (Inr ()))"

definition post_advance_error :: "compiled_graph \<Rightarrow> graph_run_state \<Rightarrow> arrival_table \<Rightarrow> string option res" where
  "post_advance_error g s historical =
     (let previous = filter (\<lambda>r. act_superstep (ref_activation r) = gr_superstep s - 1) (settled_references s);
          actual = routed_causes (gr_frontier s) in
      if previous = [] then Inr (Some ''non-initial frontier has no committed predecessor settlements'')
      else bindE
        (and_then (fold_phase (successor_phase g) [] previous) (\<lambda>candidates.
         and_then (fold_phase (join_phase s) (candidates, []) historical) (\<lambda>(candidates', expected).
         and_then (progress_phase s expected) (\<lambda>_.
         and_then (fold_phase (target_phase actual) () candidates') (\<lambda>_.
         let unexpected = sorted_set (filter (\<lambda>n. n \<notin> set (map fst candidates')) (map fst actual)) in
         if unexpected \<noteq> [] then Inr (Inl (''frontier contains an unproved successor target: '' @ py_repr_tuple unexpected))
         else Inr (Inr ()))))))
        (\<lambda>x. case x of Inl m \<Rightarrow> Inr (Some m) | Inr () \<Rightarrow> Inr None))"

section \<open>The evaluation of one state\<close>

record required_target =
  rt_node_id :: string
  rt_unavailable_inputs :: "string list"

record routing_facts =
  rf_declared_joins :: join_table
  rf_pending_join_arrivals :: arrival_table
  rf_historical_join_arrivals :: arrival_table
  rf_remaining_join_progress :: "join_progress_record list"
  rf_activations :: "frontier_activation list"
  rf_consumed_join_progress :: "graph_join_occurrence list"
  rf_required_targets :: "required_target list"
  rf_unavailable_graph_outputs :: "string list"
  rf_completion_route :: "string option"
  rf_admission_error :: "string option"
  rf_pending_error :: "kernel_error option"

definition empty_facts :: routing_facts where
  "empty_facts = \<lparr>rf_declared_joins = [], rf_pending_join_arrivals = [], rf_historical_join_arrivals = [],
     rf_remaining_join_progress = [], rf_activations = [], rf_consumed_join_progress = [], rf_required_targets = [],
     rf_unavailable_graph_outputs = [], rf_completion_route = None, rf_admission_error = None, rf_pending_error = None\<rparr>"

definition routing_evaluation :: "compiled_graph \<Rightarrow> graph_run_state \<Rightarrow> routing_facts res" where
  "routing_evaluation g s =
     bindE (settled_activation_admission_error g s) (\<lambda>admission.
     if admission \<noteq> None \<or> gr_status s = COMPLETED then Inr (empty_facts\<lparr>rf_admission_error := admission\<rparr>)
     else (case declared_joins g of
       Inl e \<Rightarrow> if is_snapshot_error e then Inr (empty_facts\<lparr>rf_admission_error := Some (error_text e)\<rparr>) else Inl e
     | Inr declared \<Rightarrow>
         let f1 = empty_facts\<lparr>rf_declared_joins := declared\<rparr> in
         bindE (frontier_gate_error g s declared) (\<lambda>gate.
         if gate \<noteq> None then Inr (f1\<lparr>rf_admission_error := gate\<rparr>)
         else (case pending_join_arrivals s declared of
           Inl e \<Rightarrow>
             if is_join_error e
             then Inr (if gr_superstep s > 0 then f1\<lparr>rf_pending_error := Some e, rf_admission_error := Some (error_text e)\<rparr>
                       else f1\<lparr>rf_pending_error := Some e\<rparr>)
             else Inl e
         | Inr pending \<Rightarrow>
             let f2 = f1\<lparr>rf_pending_join_arrivals := pending\<rparr> in
             if gr_superstep s = 0 then Inr f2
             else (case historical_join_arrivals g s of
               Inl e \<Rightarrow>
                 if is_join_error e \<or> is_snapshot_error e
                 then Inr (f2\<lparr>rf_admission_error := Some (error_text e)\<rparr>) else Inl e
             | Inr historical \<Rightarrow>
                 bindE (post_advance_error g s historical) (\<lambda>err.
                 Inr (f2\<lparr>rf_historical_join_arrivals := historical, rf_admission_error := err\<rparr>)))))))"

definition frontier_admission_error :: "compiled_graph \<Rightarrow> graph_run_state \<Rightarrow> string option res" where
  "frontier_admission_error g s = bindE (routing_evaluation g s) (\<lambda>f. Inr (rf_admission_error f))"

definition unavailable_graph_outputs :: "compiled_graph \<Rightarrow> scope_run \<Rightarrow> int \<Rightarrow> 'f frame_index \<Rightarrow> string list res" where
  "unavailable_graph_outputs g sr completion_superstep frames =
     foldE (\<lambda>acc b.
       bindE (source_availability_coordinate g sr (ob_source b) (ob_publication b) completion_superstep
         (InvalidRoutingCommandError ''compiled value binding lacks its activation selection'')) (\<lambda>k.
       Inr (if frame_coordinate_available frames k then acc
            else acc @ [ob_boundary_name b @ ''<-'' @ source_label (ob_source b)])))
     [] (tp_graph_outputs (cg_transition g))"

definition graph_outputs_available :: "compiled_graph \<Rightarrow> scope_run \<Rightarrow> int \<Rightarrow> 'f frame_index \<Rightarrow> bool res" where
  "graph_outputs_available g sr k frames = bindE (unavailable_graph_outputs g sr k frames) (\<lambda>u. Inr (u = []))"

definition required_target_of ::
  "compiled_graph \<Rightarrow> string \<Rightarrow> frontier_activation \<Rightarrow> graph_run_state \<Rightarrow> scope_run \<Rightarrow> int \<Rightarrow> 'f frame_index \<Rightarrow> required_target res" where
  "required_target_of g target a s sr k frames =
     (if fa_node_id a \<noteq> target
      then Inl (InvalidRoutingCommandError ''compiled successor activation does not match its target'')
      else bindE (fm_get (tp_materializations (cg_transition g)) target) (\<lambda>plan.
        bindE (foldE (\<lambda>acc b.
          bindE (binding_source_coordinate g (Some s) sr k b (Some (fa_cause a))) (\<lambda>(source, c).
          Inr (if frame_coordinate_available frames c then acc else acc @ [ib_local_name b @ ''<-'' @ source_label source])))
          [] (mp_bindings plan)) (\<lambda>unavailable.
        Inr \<lparr>rt_node_id = target, rt_unavailable_inputs = unavailable\<rparr>)))"

section \<open>Resolution\<close>

definition join_arrival_step ::
  "graph_activation_identity \<Rightarrow> activation_reference \<Rightarrow> arrival_table \<Rightarrow> compiled_join \<Rightarrow> arrival_table res" where
  "join_arrival_step a r arrivals plan =
     bindE (occurrence_for plan a) (\<lambda>oc.
     if \<exists>x\<in>set (dict_get arrivals oc). act_node_id (ref_activation x) = act_node_id a
     then Inl (JoinProgressError ''join source activation occurrence repeated'')
     else Inr (dict_append arrivals oc r))"

definition contribution_step ::
  "compiled_graph \<Rightarrow> graph_run_state \<Rightarrow> arrival_table \<times> candidate_table \<Rightarrow> string \<times> graph_routing \<Rightarrow>
     (arrival_table \<times> candidate_table) res" where
  "contribution_step g s st x =
     (case (st, x) of ((arrivals, candidates), (n, contribution)) \<Rightarrow>
       bindE (validate_routing_contribution g n contribution) (\<lambda>_.
       bindE (mk_GraphActivationIdentity (gr_run_id s) (gr_superstep s) n) (\<lambda>a.
       bindE (mk_ActivationReference a (selected_route contribution)) (\<lambda>r.
       bindE (successor_targets_for_reference g r) (\<lambda>targets.
       bindE (add_candidates candidates r targets) (\<lambda>candidates'.
       bindE (fm_get (tp_joins_by_source (cg_transition g)) n) (\<lambda>plans.
       bindE (foldE (join_arrival_step a r) arrivals plans) (\<lambda>arrivals'.
       Inr (arrivals', candidates')))))))))"

definition join_resolution_step ::
  "graph_run_state \<Rightarrow> arrival_table \<Rightarrow> join_progress_record list \<times> graph_join_occurrence list \<times> candidate_table \<Rightarrow>
     graph_join_occurrence \<Rightarrow> (join_progress_record list \<times> graph_join_occurrence list \<times> candidate_table) res" where
  "join_resolution_step s arrivals st oc =
     (case st of (remaining, consumed, candidates) \<Rightarrow>
       let arrived = sort_key canonical_key (dict_get arrivals oc) in
       if set (reference_nodes arrived) = set (join_sources (occ_join oc))
       then (if occ_target_superstep oc \<noteq> gr_superstep s + 1
             then Inl (JoinProgressError ''completed Join occurrence has the wrong target coordinate'')
             else if join_target (occ_join oc) \<noteq> END_NODE
             then bindE (mk_RoutedActivationCause arrived (Some oc)) (\<lambda>c.
                  Inr (remaining, consumed, dict_append candidates (join_target (occ_join oc)) c))
             else if oc \<in> set (map jp_occurrence (gr_join_progress s)) then Inr (remaining, consumed @ [oc], candidates)
             else Inr st)
       else (if occ_target_superstep oc \<le> gr_superstep s + 1
             then Inl (JoinProgressError ''partial Join occurrence cannot reach its target coordinate'')
             else Inr (remaining @ [GraphJoinProgress oc arrived], consumed, candidates)))"

definition single_activation :: "string \<times> activation_cause list \<Rightarrow> frontier_activation res" where
  "single_activation x =
     (case x of (target, causes) \<Rightarrow>
       if length causes \<noteq> 1
       then Inl (InvalidRoutingCommandError (''target '' @ py_repr target @ '' has '' @ py_str_int (int (length causes)) @
              '' activation causes in one frontier''))
       else mk_GraphFrontierActivation target (hd causes))"

definition resolve_control :: "compiled_graph \<Rightarrow> graph_run_state \<Rightarrow> routing_facts \<Rightarrow> routing_facts res" where
  "resolve_control g s f =
     (case rf_pending_error f of
        Some e \<Rightarrow> Inl e
      | None \<Rightarrow>
          bindE (foldE (contribution_step g s) (rf_pending_join_arrivals f, []) (routing_contributions (gr_frontier s))) (\<lambda>(arrivals, candidates).
          bindE (foldE (join_resolution_step s arrivals) ([], [], candidates) (sort (map fst arrivals))) (\<lambda>(remaining, consumed, candidates').
          bindE (mapE single_activation candidates') (\<lambda>activations.
          Inr (f\<lparr>rf_remaining_join_progress := remaining, rf_activations := sort_key fa_node_id activations,
                 rf_consumed_join_progress := sort consumed\<rparr>)))))"

definition completion_route :: "compiled_graph \<Rightarrow> graph_run_state \<Rightarrow> string option res" where
  "completion_route g s =
     bindE (mapE (\<lambda>(n, c). bindE (validate_routing_contribution g n c) (\<lambda>_. Inr (selected_route c)))
       (routing_contributions (gr_frontier s))) (\<lambda>routes.
     if routes = [] then Inl (RoutingDeadlockError ''a terminal frontier has no settled routing contribution'')
     else if length (remdups routes) \<noteq> 1
     then Inl (RoutingDeadlockError ''terminal frontier exposes conflicting completion routes'')
     else Inr (hd routes))"

definition transition_admission_error ::
  "compiled_graph \<Rightarrow> graph_run_state option \<Rightarrow> graph_run_command \<Rightarrow> graph_run_state \<Rightarrow> string option res" where
  "transition_admission_error g previous command candidate =
     bindE (routing_evaluation g candidate) (\<lambda>ce.
     if rf_admission_error ce \<noteq> None \<or> gr_status candidate \<noteq> COMPLETED then Inr (rf_admission_error ce)
     else (case (previous, command) of
       (Some p, CompleteGraphFrontier _ consumed_join_progress route) \<Rightarrow>
         bindE (routing_evaluation g p) (\<lambda>pe.
         if rf_admission_error pe \<noteq> None then Inr (rf_admission_error pe)
         else (case resolve_control g p pe of
           Inl e \<Rightarrow> if is_invalid_routing e \<or> is_join_error e \<or> is_snapshot_error e then Inr (Some (error_text e)) else Inl e
         | Inr control \<Rightarrow>
             if rf_activations control \<noteq> [] \<or> rf_remaining_join_progress control \<noteq> []
             then Inr (Some ''graph completion discarded a compiled successor or partial Join occurrence'')
             else if rf_consumed_join_progress control \<noteq> consumed_join_progress
             then Inr (Some ''graph completion consumed the wrong Join occurrences'')
             else (case completion_route g p of
               Inl e \<Rightarrow> if is_invalid_routing e \<or> is_deadlock_error e then Inr (Some (error_text e)) else Inl e
             | Inr expected \<Rightarrow>
                 if route \<noteq> expected then Inr (Some ''graph completion route does not match the terminal frontier'')
                 else Inr None)))
     | _ \<Rightarrow> Inr (Some ''completed graph state lacks its admitted completion transition'')))"

definition resolve_routing_facts ::
  "compiled_graph \<Rightarrow> graph_run_state \<Rightarrow> scope_run \<Rightarrow> 'f frame_index \<Rightarrow> routing_facts res" where
  "resolve_routing_facts g s sr frames =
     bindE (frontier_status (gr_frontier s)) (\<lambda>st.
     if st \<noteq> SETTLED
     then Inl (InvalidRoutingCommandError ''routing requires a settled frontier without failures or interrupts'')
     else bindE (routing_evaluation g s) (\<lambda>evaluation.
       case rf_admission_error evaluation of
         Some m \<Rightarrow> Inl (InvalidRoutingCommandError m)
       | None \<Rightarrow>
           bindE (resolve_control g s evaluation) (\<lambda>control.
           bindE (mapE (\<lambda>a. required_target_of g (fa_node_id a) a s sr (gr_superstep s + 1) frames) (rf_activations control)) (\<lambda>required.
           bindE (unavailable_graph_outputs g sr (gr_superstep s) frames) (\<lambda>unavailable.
           bindE (if rf_activations control \<noteq> [] \<or> rf_remaining_join_progress control \<noteq> [] then Inr None
                  else completion_route g s) (\<lambda>route.
           Inr (control\<lparr>rf_required_targets := required, rf_unavailable_graph_outputs := unavailable,
                        rf_completion_route := route\<rparr>)))))))"

definition project_routing_facts :: "graph_run_state \<Rightarrow> routing_facts \<Rightarrow> graph_run_command res" where
  "project_routing_facts s f =
     (let unavailable = map rt_node_id (filter (\<lambda>t. rt_unavailable_inputs t \<noteq> []) (rf_required_targets f)) in
      if unavailable \<noteq> []
      then Inr (AbortGraphRun (gr_revision s) (''required values unavailable for controlled nodes '' @ py_repr_tuple unavailable))
      else if rf_required_targets f \<noteq> []
      then Inr (AdvanceGraphFrontier \<lparr>af_expected_revision = gr_revision s, af_activations = rf_activations f,
        af_join_progress = rf_remaining_join_progress f, af_consumed_join_progress = rf_consumed_join_progress f\<rparr>)
      else if rf_remaining_join_progress f \<noteq> []
      then Inl (RoutingDeadlockError ''partial join progress has no next task able to complete it'')
      else if rf_unavailable_graph_outputs f \<noteq> []
      then Inr (AbortGraphRun (gr_revision s) ''required graph output values are unavailable at completion'')
      else Inr (CompleteGraphFrontier (gr_revision s) (rf_consumed_join_progress f) (rf_completion_route f)))"

definition resolve_routing ::
  "compiled_graph \<Rightarrow> graph_run_state \<Rightarrow> scope_run \<Rightarrow> 'f frame_index \<Rightarrow> graph_run_command res" where
  "resolve_routing g s sr frames = bindE (resolve_routing_facts g s sr frames) (project_routing_facts s)"

end
