(* ===== verification/Routing_Control.thy ===== *)
theory Routing_Control
  imports Reducer_Advance Engine_Routing
begin

text \<open>
  The control part of the router (\<open>_resolve_control\<close>) against the reducer. \<open>resolves\<close> is what a
  proposal for the next frontier must satisfy; \<open>control_resolves\<close> shows that whatever the router
  computes from a valid settled state satisfies it, so that the lemmas of \<open>Reducer_Advance\<close>
  apply to the router's command.
\<close>

section \<open>Dictionaries of lists\<close>

definition dict_pairs :: "('k \<times> 'v list) list \<Rightarrow> ('k \<times> 'v) set" where
  "dict_pairs d = {(k, v). \<exists>vs. (k, vs) \<in> set d \<and> v \<in> set vs}"

lemma dict_append_keys: "map fst (dict_append d k v) = (if k \<in> fst ` set d then map fst d else map fst d @ [k])"
  by (induction d k v rule: dict_append.induct) auto

lemma dict_append_key_set [simp]: "fst ` set (dict_append d k v) = insert k (fst ` set d)"
proof -
  have "fst ` set (dict_append d k v) = set (map fst (dict_append d k v))" by simp
  also have "\<dots> = insert k (fst ` set d)" unfolding dict_append_keys by auto
  finally show ?thesis .
qed

lemma dict_append_distinct: "distinct (map fst d) \<Longrightarrow> distinct (map fst (dict_append d k v))"
  unfolding dict_append_keys by auto

lemma dict_pairs_Nil [simp]: "dict_pairs [] = {}"
  by (simp add: dict_pairs_def)

lemma dict_pairs_Cons: "dict_pairs ((k, vs) # d) = {k} \<times> set vs \<union> dict_pairs d"
  by (auto simp: dict_pairs_def)

lemma dict_pairs_append [simp]: "dict_pairs (dict_append d k v) = insert (k, v) (dict_pairs d)"
  by (induction d k v rule: dict_append.induct) (auto simp: dict_pairs_Cons)

lemma dict_get_append [simp]: "dict_get (dict_append d k v) k' = (if k' = k then dict_get d k @ [v] else dict_get d k')"
  by (induction d k v rule: dict_append.induct) (auto simp: dict_get_def)

lemma dict_get_absent: "k \<notin> fst ` set d \<Longrightarrow> dict_get d k = []"
  by (simp add: dict_get_def map_of_eq_None_iff [THEN iffD2])

section \<open>Checked plans\<close>

text \<open>The constructors of \<open>GraphJoinIdentity\<close> and \<open>CompiledJoin\<close> accept every join of the plan.\<close>

definition wf_join_plan :: "compiled_join \<Rightarrow> bool" where
  "wf_join_plan j \<longleftrightarrow>
     mk_GraphJoinIdentity (join_sources (cj_identity j)) (join_target (cj_identity j)) = Inr (cj_identity j) \<and>
     mk_CompiledJoin (cj_identity j) (cj_offsets j) = Inr j"

definition checked_joins :: "compiled_graph \<Rightarrow> bool" where
  "checked_joins g \<longleftrightarrow> list_all (\<lambda>(_, js). list_all wf_join_plan js) (tp_joins_by_source (cg_transition g))"

text \<open>
  A source that has arrived in a pending join towards the end of the graph is not in the current
  frontier again. The reducer requires it of the occurrences a command consumes explicitly.
\<close>

definition end_joins_once :: "graph_run_state \<Rightarrow> bool" where
  "end_joins_once s \<longleftrightarrow> (\<forall>j\<in>set (gr_join_progress s). join_target (occ_join (jp_occurrence j)) = END_NODE \<longrightarrow>
     set (reference_nodes (jp_arrived j)) \<inter> set (map fn_node_id (gr_frontier s)) = {})"

lemma checked_joinsD:
  assumes "checked_joins g" "fm_get (tp_joins_by_source (cg_transition g)) n = Inr plans" "j \<in> set plans"
  shows "wf_join_plan j"
proof -
  have "(n, plans) \<in> set (tp_joins_by_source (cg_transition g))"
    using assms(2) by (auto simp: fm_get_def split: option.splits dest: map_of_SomeD)
  with assms(1,3) show ?thesis by (auto simp: checked_joins_def list_all_iff)
qed

lemma occurrence_for_frontier:
  assumes p: "wf_join_plan plan" and r: "act_run_id a = gr_run_id s" and oc: "occurrence_for plan a = Inr oc"
  shows "wf_occurrence s oc" "act_node_id a \<in> set (join_sources (occ_join oc))" "occ_join oc = cj_identity plan"
proof -
  from oc obtain k where k: "map_of (cj_offsets plan) (act_node_id a) = Some k" "is_canonical_identity (act_run_id a)"
    "1 \<le> act_superstep a + k" "oc = GraphJoinOccurrenceIdentity (cj_identity plan) (act_run_id a) (act_superstep a + k)"
    by (auto simp: occurrence_for_def target_offset_def bindE_eq_Inr mk_GraphJoinOccurrenceIdentity_ok split: option.splits)
  have off: "map fst (cj_offsets plan) = join_sources (cj_identity plan)"
    using p by (auto simp: wf_join_plan_def mk_CompiledJoin_def split: if_splits)
  have "act_node_id a \<in> set (map fst (cj_offsets plan))" using k(1) by (force dest: map_of_SomeD)
  then show "act_node_id a \<in> set (join_sources (occ_join oc))" unfolding off k(4) by simp
  show "wf_occurrence s oc" using p k r by (auto simp: wf_join_plan_def mk_GraphJoinIdentity_ok wf_occurrence_def)
  show "occ_join oc = cj_identity plan" using k(4) by simp
qed

section \<open>Arrivals\<close>

definition arrival_entry :: "graph_run_state \<Rightarrow> graph_join_occurrence \<Rightarrow> activation_reference list \<Rightarrow> bool" where
  "arrival_entry s oc refs \<longleftrightarrow> wf_occurrence s oc \<and> distinct (reference_nodes refs) \<and>
     set (reference_nodes refs) \<subseteq> set (join_sources (occ_join oc)) \<and>
     (\<exists>cur. refs = pending_arrivals s oc @ cur \<and> set cur \<subseteq> set (frontier_references s) \<and>
        (cur = [] \<longrightarrow> oc \<in> jp_occurrence ` set (gr_join_progress s)))"

definition arrivals_inv :: "graph_run_state \<Rightarrow> arrival_table \<Rightarrow> bool" where
  "arrivals_inv s t \<longleftrightarrow> distinct (map fst t) \<and> jp_occurrence ` set (gr_join_progress s) \<subseteq> fst ` set t \<and>
     (\<forall>oc\<in>fst ` set t. arrival_entry s oc (dict_get t oc))"

definition direct_inv :: "graph_run_state \<Rightarrow> candidate_table \<Rightarrow> bool" where
  "direct_inv s t \<longleftrightarrow> distinct (map fst t) \<and>
     (\<forall>(n, c)\<in>dict_pairs t. \<exists>r\<in>set (frontier_references s). c = RoutedActivationCause [r] None)"

lemma pending_table_get:
  assumes "wf_state s" "oc \<in> jp_occurrence ` set (gr_join_progress s)"
  shows "dict_get (map (\<lambda>j. (jp_occurrence j, jp_arrived j)) (gr_join_progress s)) oc = pending_arrivals s oc"
proof -
  from assms(2) obtain j where j: "j \<in> set (gr_join_progress s)" "jp_occurrence j = oc" by auto
  have "distinct (map fst (map (\<lambda>j. (jp_occurrence j, jp_arrived j)) (gr_join_progress s)))"
    using wf_joins_distinct [OF assms(1)] by (simp add: comp_def)
  then have "map_of (map (\<lambda>j. (jp_occurrence j, jp_arrived j)) (gr_join_progress s)) oc = Some (jp_arrived j)"
    using j by (intro map_of_is_SomeI) auto
  then show ?thesis using pending_arrivals_mem [OF assms(1) j(1)] j(2) by (simp add: dict_get_def)
qed

lemma arrivals_inv_start:
  assumes w: "wf_state s"
  shows "arrivals_inv s (map (\<lambda>j. (jp_occurrence j, jp_arrived j)) (gr_join_progress s))" (is "arrivals_inv s ?t")
proof -
  have "arrival_entry s oc (dict_get ?t oc)" if "oc \<in> jp_occurrence ` set (gr_join_progress s)" for oc
  proof -
    from that obtain j where j: "j \<in> set (gr_join_progress s)" "jp_occurrence j = oc" by auto
    have "wf_progress s j" using w j(1) by (simp add: wf_state_def wf_joins_def)
    then show ?thesis unfolding pending_table_get [OF w that] using pending_arrivals_mem [OF w j(1)] j that
      by (auto simp: arrival_entry_def wf_progress_def)
  qed
  moreover have "fst ` set ?t = jp_occurrence ` set (gr_join_progress s)" by force
  moreover have "distinct (map fst ?t)" using wf_joins_distinct [OF w] by (simp add: comp_def)
  ultimately show ?thesis by (simp add: arrivals_inv_def)
qed

lemma join_arrival_step_inv:
  assumes inv: "arrivals_inv s t" and r: "r \<in> set (frontier_references s)" "ref_activation r = a"
    and run: "act_run_id a = gr_run_id s" and p: "wf_join_plan plan" and step: "join_arrival_step a r t plan = Inr u"
  shows "arrivals_inv s u"
proof -
  from step obtain oc where oc: "occurrence_for plan a = Inr oc" "act_node_id a \<notin> set (reference_nodes (dict_get t oc))"
    "u = dict_append t oc r"
    by (fastforce simp: join_arrival_step_def bindE_eq_Inr reference_nodes_def split: if_splits)
  note f = occurrence_for_frontier [OF p run oc(1)]
  have "arrival_entry s oc (dict_get t oc @ [r])"
  proof (cases "oc \<in> fst ` set t")
    case True
    with inv have e: "arrival_entry s oc (dict_get t oc)" unfolding arrivals_inv_def by blast
    then obtain cur where cur: "dict_get t oc = pending_arrivals s oc @ cur" "set cur \<subseteq> set (frontier_references s)"
      by (auto simp: arrival_entry_def)
    have "\<exists>c. dict_get t oc @ [r] = pending_arrivals s oc @ c \<and> set c \<subseteq> set (frontier_references s) \<and> (c = [] \<longrightarrow> X)" for X
      using cur r(1) by (intro exI [of _ "cur @ [r]"]) auto
    then show ?thesis using e oc(2) f r by (auto simp: arrival_entry_def reference_nodes_def)
  next
    case False
    then have "oc \<notin> jp_occurrence ` set (gr_join_progress s)" using inv by (auto simp: arrivals_inv_def)
    then have "pending_arrivals s oc = []"
      using progress_index_None [of "gr_join_progress s" oc] by (auto simp: pending_arrivals_def)
    then show ?thesis using dict_get_absent [OF False] f r by (simp add: arrival_entry_def reference_nodes_def)
  qed
  then have "\<forall>k\<in>fst ` set u. arrival_entry s k (dict_get u k)"
    using inv by (auto simp: arrivals_inv_def oc(3) simp del: image_iff)
  then show ?thesis using inv dict_append_distinct [of t oc r] by (auto simp: arrivals_inv_def oc(3))
qed

lemma add_candidates_inv:
  assumes "direct_inv s t" "r \<in> set (frontier_references s)" "add_candidates t r targets = Inr u"
  shows "direct_inv s u"
  using assms(3) unfolding add_candidates_def
proof (rule foldE_invariant)
  fix v n x
  assume "direct_inv s v" "bindE (mk_RoutedActivationCause [r] None) (\<lambda>c. Inr (dict_append v n c)) = Inr x"
  then show "direct_inv s x" using assms(2) dict_append_distinct
    by (auto simp: direct_inv_def bindE_eq_Inr mk_RoutedActivationCause_ok)
qed (rule assms(1))

lemma contribution_step_inv:
  assumes w: "wf_state s" and p: "checked_joins g" and inv: "arrivals_inv s t" "direct_inv s d"
    and c: "(n, c) \<in> set (routing_contributions (gr_frontier s))" and step: "contribution_step g s (t, d) (n, c) = Inr (t', d')"
  shows "arrivals_inv s t' \<and> direct_inv s d'"
proof -
  let ?a = "GraphActivationIdentity (gr_run_id s) (gr_superstep s) n"
  let ?r = "ActivationReference ?a (selected_route c)"
  from step obtain targets plans where d: "add_candidates d ?r targets = Inr d'"
    and pl: "fm_get (tp_joins_by_source (cg_transition g)) n = Inr plans" and t: "foldE (join_arrival_step ?a ?r) t plans = Inr t'"
    by (auto simp: contribution_step_def bindE_eq_Inr mk_GraphActivationIdentity_ok mk_ActivationReference_ok)
  have r: "?r \<in> set (frontier_references s)" using c by (force simp: frontier_references_def)
  have "arrivals_inv s u" if "foldE (join_arrival_step ?a ?r) v ps = Inr u" "set ps \<subseteq> set plans" "arrivals_inv s v" for u v ps
    using that
  proof (induction ps arbitrary: v)
    case (Cons q ps)
    from Cons.prems(1) obtain x where x: "join_arrival_step ?a ?r v q = Inr x" "foldE (join_arrival_step ?a ?r) x ps = Inr u"
      by (auto simp: bindE_eq_Inr)
    have "wf_join_plan q" using checked_joinsD [OF p pl] Cons.prems(2) by simp
    with join_arrival_step_inv [OF Cons.prems(3) r _ _ _ x(1)] Cons.IH [OF x(2)] Cons.prems(2) show ?case by simp
  qed simp
  with t inv(1) add_candidates_inv [OF inv(2) r d] show ?thesis by blast
qed

lemma contributions_inv:
  assumes w: "wf_state s" and p: "checked_joins g" and c: "set cs \<subseteq> set (routing_contributions (gr_frontier s))"
    and inv: "arrivals_inv s t" "direct_inv s d" and fold: "foldE (contribution_step g s) (t, d) cs = Inr (t', d')"
  shows "arrivals_inv s t' \<and> direct_inv s d'"
  using c inv fold
proof (induction cs arbitrary: t d)
  case (Cons x cs)
  obtain n y where x: "x = (n, y)" by (cases x)
  from Cons.prems(4) obtain u v where u: "contribution_step g s (t, d) (n, y) = Inr (u, v)"
    "foldE (contribution_step g s) (u, v) cs = Inr (t', d')" by (auto simp: x bindE_eq_Inr)
  from contribution_step_inv [OF w p Cons.prems(2,3) _ u(1)] Cons.prems(1) have "arrivals_inv s u" "direct_inv s v" by (auto simp: x)
  with Cons.IH [OF _ _ _ u(2)] Cons.prems(1) show ?case by simp
qed simp

section \<open>Resolution of the joins\<close>

definition join_complete :: "arrival_table \<Rightarrow> graph_join_occurrence \<Rightarrow> bool" where
  "join_complete t oc \<longleftrightarrow> set (reference_nodes (dict_get t oc)) = set (join_sources (occ_join oc))"

definition sorted_arrivals :: "arrival_table \<Rightarrow> graph_join_occurrence \<Rightarrow> activation_reference list" where
  "sorted_arrivals t oc = sort_key canonical_key (dict_get t oc)"

lemma sorted_arrivals_nodes [simp]: "set (reference_nodes (sorted_arrivals t oc)) = set (reference_nodes (dict_get t oc))"
  by (simp add: sorted_arrivals_def reference_nodes_def)

definition join_resolved ::
  "graph_run_state \<Rightarrow> arrival_table \<Rightarrow> graph_join_occurrence list \<Rightarrow>
     join_progress_record list \<times> graph_join_occurrence list \<times> candidate_table \<Rightarrow>
     join_progress_record list \<times> graph_join_occurrence list \<times> candidate_table \<Rightarrow> bool" where
  "join_resolved s t keys before after \<longleftrightarrow> (case (before, after) of ((rem, con, d), (rem', con', d')) \<Rightarrow>
     rem' = rem @ map (\<lambda>oc. GraphJoinProgress oc (sorted_arrivals t oc)) (filter (\<lambda>oc. \<not> join_complete t oc) keys) \<and>
     con' = con @ filter (\<lambda>oc. join_complete t oc \<and> join_target (occ_join oc) = END_NODE \<and>
       oc \<in> jp_occurrence ` set (gr_join_progress s)) keys \<and>
     dict_pairs d' = dict_pairs d \<union> {(join_target (occ_join oc), RoutedActivationCause (sorted_arrivals t oc) (Some oc)) |oc.
       oc \<in> set keys \<and> join_complete t oc \<and> join_target (occ_join oc) \<noteq> END_NODE} \<and>
     (distinct (map fst d) \<longrightarrow> distinct (map fst d')) \<and>
     (\<forall>oc\<in>set keys. if join_complete t oc
        then occ_target_superstep oc = gr_superstep s + 1 \<and>
          (join_target (occ_join oc) \<noteq> END_NODE \<longrightarrow> canonical_by canonical_key (sorted_arrivals t oc))
        else gr_superstep s + 1 < occ_target_superstep oc))"

lemma join_resolution_step_resolved:
  assumes "join_resolution_step s t before oc = Inr after"
  shows "join_resolved s t [oc] before after"
proof -
  obtain rem con d where b: "before = (rem, con, d)" by (cases before)
  show ?thesis
  proof (cases "join_complete t oc")
    case True
    with assms b show ?thesis using dict_append_distinct
      by (auto simp: join_resolution_step_def join_resolved_def join_complete_def Let_def bindE_eq_Inr mk_RoutedActivationCause_ok
        sorted_arrivals_def reference_nodes_def split: if_splits)
  next
    case False
    with assms b show ?thesis
      by (auto simp: join_resolution_step_def join_resolved_def join_complete_def Let_def sorted_arrivals_def reference_nodes_def
        split: if_splits)
  qed
qed

lemma join_resolved_trans:
  assumes "join_resolved s t xs a b" "join_resolved s t ys b c"
  shows "join_resolved s t (xs @ ys) a c"
  using assms by (cases a; cases b; cases c) (auto simp: join_resolved_def)

lemma join_fold_resolved:
  assumes "foldE (join_resolution_step s t) before keys = Inr after"
  shows "join_resolved s t keys before after"
  using assms
proof (induction keys arbitrary: before)
  case Nil
  then show ?case by (cases before) (auto simp: join_resolved_def)
next
  case (Cons oc keys)
  from Cons.prems obtain mid where "join_resolution_step s t before oc = Inr mid" "foldE (join_resolution_step s t) mid keys = Inr after"
    by (auto simp: bindE_eq_Inr)
  with join_resolved_trans [OF join_resolution_step_resolved Cons.IH] show ?case by simp
qed

lemma single_activations:
  assumes "mapE single_activation d = Inr acts"
  shows "map fa_node_id acts = map fst d" "(\<lambda>a. (fa_node_id a, fa_cause a)) ` set acts = dict_pairs d"
    "\<forall>a\<in>set acts. is_canonical_identity (fa_node_id a)"
proof -
  have "map fa_node_id acts = map fst d \<and> (\<lambda>a. (fa_node_id a, fa_cause a)) ` set acts = dict_pairs d \<and>
    (\<forall>a\<in>set acts. is_canonical_identity (fa_node_id a))"
    using assms
  proof (induction d arbitrary: acts)
    case (Cons x d)
    obtain n cs where x: "x = (n, cs)" by (cases x)
    from Cons.prems obtain a as where a: "single_activation (n, cs) = Inr a" "mapE single_activation d = Inr as" "acts = a # as"
      by (auto simp: x bindE_eq_Inr)
    from a(1) obtain c where c: "cs = [c]" "a = GraphFrontierActivation n c" "is_canonical_identity n"
      by (cases cs) (auto simp: single_activation_def mk_GraphFrontierActivation_ok split: if_splits)
    from Cons.IH [OF a(2)] show ?case using c by (auto simp: x a(3) dict_pairs_Cons)
  qed simp
  then show "map fa_node_id acts = map fst d" "(\<lambda>a. (fa_node_id a, fa_cause a)) ` set acts = dict_pairs d"
    "\<forall>a\<in>set acts. is_canonical_identity (fa_node_id a)" by blast+
qed

lemma past_before_current:
  assumes w: "wf_state s" and "past_reference s r" "q \<in> set (frontier_references s)"
  shows "canonical_key r \<le> canonical_key q"
  using assms(2) frontier_reference_current(2,3) [OF w assms(3)]
  by (auto simp: past_reference_def canonical_key_def less_eq_prod_def)

lemma sorted_entry:
  assumes w: "wf_state s" and e: "arrival_entry s oc refs"
  obtains cur where "sort_key canonical_key refs = pending_arrivals s oc @ cur" "set cur \<subseteq> set (frontier_references s)"
    "cur = [] \<longrightarrow> oc \<in> jp_occurrence ` set (gr_join_progress s)"
proof -
  from e obtain cur where c: "refs = pending_arrivals s oc @ cur" "set cur \<subseteq> set (frontier_references s)"
    "cur = [] \<longrightarrow> oc \<in> jp_occurrence ` set (gr_join_progress s)" by (auto simp: arrival_entry_def)
  have "sorted (map canonical_key (pending_arrivals s oc))"
  proof (cases "progress_index (gr_join_progress s) oc")
    case (Some j)
    then have "wf_progress s j" using w progress_index_SomeD [OF Some] by (auto simp: wf_state_def wf_joins_def)
    then show ?thesis using Some by (simp add: pending_arrivals_def wf_progress_def canonical_by_iff)
  qed (simp add: pending_arrivals_def)
  moreover have "canonical_key r \<le> canonical_key q" if "r \<in> set (pending_arrivals s oc)" "q \<in> set cur" for r q
    using past_before_current [OF w pending_arrivals_past [OF w that(1)]] c(2) that(2) by blast
  ultimately have "sorted (map canonical_key (pending_arrivals s oc @ sort_key canonical_key cur))"
    by (auto simp: sorted_append)
  then have "sort_key canonical_key refs = pending_arrivals s oc @ sort_key canonical_key cur"
    unfolding c(1) by (intro sort_key_inj_key_eq) (auto simp: inj_on_def canonical_key_inj)
  moreover have "sort_key canonical_key cur = [] \<longrightarrow> oc \<in> jp_occurrence ` set (gr_join_progress s)"
    using c(3) by (metis set_empty set_sort)
  ultimately show thesis using c(2) by (intro that [of "sort_key canonical_key cur"]) auto
qed

lemma sorted_entry_nodes:
  assumes "arrival_entry s oc (dict_get t oc)"
  shows "distinct (reference_nodes (sorted_arrivals t oc))" "canonical_by canonical_key (sorted_arrivals t oc)"
    "wf_occurrence s oc" "set (reference_nodes (sorted_arrivals t oc)) \<subseteq> set (join_sources (occ_join oc))"
proof -
  have d: "distinct (reference_nodes (dict_get t oc))" using assms by (simp add: arrival_entry_def)
  have "mset (reference_nodes (sorted_arrivals t oc)) = mset (reference_nodes (dict_get t oc))"
    by (simp add: sorted_arrivals_def reference_nodes_def)
  then show n: "distinct (reference_nodes (sorted_arrivals t oc))" using d mset_eq_imp_distinct_iff by blast
  then have "distinct (sorted_arrivals t oc)" by (simp add: reference_nodes_def distinct_map)
  then show "canonical_by canonical_key (sorted_arrivals t oc)" by (simp add: canonical_by_iff sorted_arrivals_def)
  show "wf_occurrence s oc" "set (reference_nodes (sorted_arrivals t oc)) \<subseteq> set (join_sources (occ_join oc))"
    using assms by (simp_all add: arrival_entry_def)
qed

lemma complete_has_current:
  assumes w: "wf_state s" and e: "arrival_entry s oc (dict_get t oc)" and c: "join_complete t oc"
    and srt: "sorted_arrivals t oc = pending_arrivals s oc @ cur" "cur = [] \<longrightarrow> oc \<in> jp_occurrence ` set (gr_join_progress s)"
  shows "cur \<noteq> []"
proof
  assume "cur = []"
  with srt(2) obtain j where j: "j \<in> set (gr_join_progress s)" "jp_occurrence j = oc" by auto
  have "sorted_arrivals t oc = jp_arrived j" using srt(1) \<open>cur = []\<close> pending_arrivals_mem [OF w j(1)] j(2) by simp
  then have "set (reference_nodes (jp_arrived j)) = set (join_sources (occ_join oc))"
    using c sorted_arrivals_nodes [of t oc] by (simp add: join_complete_def)
  moreover have "wf_progress s j" using w j(1) by (simp add: wf_state_def wf_joins_def)
  ultimately show False using j(2) by (simp add: wf_progress_def)
qed

section \<open>The router's proposal\<close>

definition resolves ::
  "graph_run_state \<Rightarrow> frontier_activation list \<Rightarrow> join_progress_record list \<Rightarrow> graph_join_occurrence list \<Rightarrow> bool" where
  "resolves s acts prog explicit \<longleftrightarrow>
     canonical_tuple (map fa_node_id acts) \<and>
     (\<forall>a\<in>set acts. is_canonical_identity (fa_node_id a) \<and> next_cause s (fa_node_id a) (fa_cause a)) \<and>
     canonical_tuple (map jp_occurrence prog) \<and> (\<forall>j\<in>set prog. next_progress s j) \<and>
     canonical_tuple explicit \<and> (\<forall>oc\<in>set explicit. consumable s oc) \<and>
     cause_occurrences acts \<inter> set explicit = {} \<and>
     (cause_occurrences acts \<union> set explicit) \<inter> jp_occurrence ` set prog = {} \<and>
     jp_occurrence ` set (gr_join_progress s) \<subseteq> cause_occurrences acts \<union> set explicit \<union> jp_occurrence ` set prog"

lemma advances_resolves: "advances s acts prog explicit \<longleftrightarrow> acts \<noteq> [] \<and> resolves s acts prog explicit"
  by (auto simp: advances_def resolves_def)

lemma join_cause_next:
  assumes w: "wf_state s" and e: "arrival_entry s oc (dict_get t oc)" and c: "join_complete t oc"
    and k: "occ_target_superstep oc = gr_superstep s + 1"
  shows "next_cause s (join_target (occ_join oc)) (RoutedActivationCause (sorted_arrivals t oc) (Some oc))"
proof -
  obtain cur where cur: "sorted_arrivals t oc = pending_arrivals s oc @ cur" "set cur \<subseteq> set (frontier_references s)"
    "cur = [] \<longrightarrow> oc \<in> jp_occurrence ` set (gr_join_progress s)"
    using sorted_entry [OF w e] unfolding sorted_arrivals_def by blast
  have "cur \<noteq> []" by (rule complete_has_current [OF w e c cur(1,3)])
  then show ?thesis using sorted_entry_nodes [OF e] cur(1,2) c k sorted_arrivals_nodes [of t oc]
    by (auto simp: next_cause_def join_complete_def)
qed

lemma partial_join_next:
  assumes w: "wf_state s" and e: "arrival_entry s oc (dict_get t oc)" and c: "\<not> join_complete t oc"
    and k: "gr_superstep s + 1 < occ_target_superstep oc"
  shows "next_progress s (GraphJoinProgress oc (sorted_arrivals t oc))"
proof -
  obtain cur where cur: "sorted_arrivals t oc = pending_arrivals s oc @ cur" "set cur \<subseteq> set (frontier_references s)"
    "cur = [] \<longrightarrow> oc \<in> jp_occurrence ` set (gr_join_progress s)"
    using sorted_entry [OF w e] unfolding sorted_arrivals_def by blast
  have "sorted_arrivals t oc \<noteq> []"
  proof (cases "cur = []")
    case True
    with cur(3) obtain j where j: "j \<in> set (gr_join_progress s)" "jp_occurrence j = oc" by auto
    have "wf_progress s j" using w j(1) by (simp add: wf_state_def wf_joins_def)
    then show ?thesis using cur(1) pending_arrivals_mem [OF w j(1)] j(2) by (auto simp: wf_progress_def)
  qed (simp add: cur(1))
  moreover have "set (reference_nodes (sorted_arrivals t oc)) \<subset> set (join_sources (occ_join oc))"
    using sorted_entry_nodes(4) [OF e] c sorted_arrivals_nodes [of t oc] by (auto simp: join_complete_def)
  ultimately show ?thesis using sorted_entry_nodes [OF e] cur(1,2) k by (auto simp: next_progress_def)
qed

lemma end_join_consumable:
  assumes w: "wf_state s" and o1: "end_joins_once s" and e: "arrival_entry s oc (dict_get t oc)" and c: "join_complete t oc"
    and k: "occ_target_superstep oc = gr_superstep s + 1" and en: "join_target (occ_join oc) = END_NODE"
    and p: "oc \<in> jp_occurrence ` set (gr_join_progress s)"
  shows "consumable s oc"
proof -
  from p obtain j where j: "j \<in> set (gr_join_progress s)" "jp_occurrence j = oc" by auto
  have pa: "pending_arrivals s oc = jp_arrived j" using pending_arrivals_mem [OF w j(1)] j(2) by simp
  have "set (reference_nodes (frontier_references s)) \<subseteq> set (map fn_node_id (gr_frontier s))"
    by (auto simp: reference_nodes_def frontier_references_mem)
  then have dj: "set (reference_nodes (pending_arrivals s oc)) \<inter> set (reference_nodes (frontier_references s)) = {}"
    using o1 j en unfolding pa end_joins_once_def by blast
  from e obtain cur where cur: "dict_get t oc = pending_arrivals s oc @ cur" "set cur \<subseteq> set (frontier_references s)"
    by (auto simp: arrival_entry_def)
  have "set (join_sources (occ_join oc)) \<subseteq>
      set (reference_nodes (pending_arrivals s oc)) \<union> set (reference_nodes (frontier_references s))"
  proof -
    have "set (reference_nodes (dict_get t oc)) = set (reference_nodes (pending_arrivals s oc)) \<union> set (reference_nodes cur)"
      by (simp add: cur(1) reference_nodes_def)
    moreover have "set (reference_nodes cur) \<subseteq> set (reference_nodes (frontier_references s))"
      using cur(2) by (auto simp: reference_nodes_def)
    ultimately show ?thesis using c by (auto simp: join_complete_def)
  qed
  with dj p k show ?thesis by (simp add: consumable_def)
qed

lemma control_unfold:
  assumes w: "wf_state s" and p: "checked_joins g"
    and pend: "rf_pending_join_arrivals f = map (\<lambda>j. (jp_occurrence j, jp_arrived j)) (gr_join_progress s)"
    and c: "resolve_control g s f = Inr control"
  obtains t d d' rem con acts where "arrivals_inv s t" "direct_inv s d"
    "join_resolved s t (sort (map fst t)) ([], [], d) (rem, con, d')" "mapE single_activation d' = Inr acts"
    "rf_activations control = sort_key fa_node_id acts" "rf_remaining_join_progress control = rem"
    "rf_consumed_join_progress control = sort con"
proof -
  from c obtain t d rem con d' acts where
    "foldE (contribution_step g s) (rf_pending_join_arrivals f, []) (routing_contributions (gr_frontier s)) = Inr (t, d)"
    "foldE (join_resolution_step s t) ([], [], d) (sort (map fst t)) = Inr (rem, con, d')"
    "mapE single_activation d' = Inr acts"
    and ctl: "control = f\<lparr>rf_remaining_join_progress := rem, rf_activations := sort_key fa_node_id acts,
       rf_consumed_join_progress := sort con\<rparr>"
    by (auto simp: resolve_control_def bindE_eq_Inr split: option.splits prod.splits)
  moreover from this(1) have "arrivals_inv s t \<and> direct_inv s d"
    unfolding pend by (rule contributions_inv [OF w p order.refl arrivals_inv_start [OF w], rotated]) (simp add: direct_inv_def)
  ultimately show thesis using join_fold_resolved by (intro that [of t d rem con d' acts]) simp_all
qed

lemma sort_distinct_canonical:
  assumes "distinct (map k xs)"
  shows "canonical_tuple (map k (sort_key k xs))"
proof -
  have "mset (map k (sort_key k xs)) = mset (map k xs)" by simp
  then have "distinct (map k (sort_key k xs))" using assms mset_eq_imp_distinct_iff by blast
  then show ?thesis by (simp add: canonical_tuple_iff)
qed

lemma control_resolves:
  assumes w: "wf_state s" and p: "checked_joins g" and o1: "end_joins_once s"
    and pend: "rf_pending_join_arrivals f = map (\<lambda>j. (jp_occurrence j, jp_arrived j)) (gr_join_progress s)"
    and c: "resolve_control g s f = Inr control"
  shows "resolves s (rf_activations control) (rf_remaining_join_progress control) (rf_consumed_join_progress control)"
proof -
  obtain t d d' rem con acts where inv: "arrivals_inv s t" "direct_inv s d"
    and jr: "join_resolved s t (sort (map fst t)) ([], [], d) (rem, con, d')" and sa: "mapE single_activation d' = Inr acts"
    and ctl: "rf_activations control = sort_key fa_node_id acts" "rf_remaining_join_progress control = rem"
      "rf_consumed_join_progress control = sort con"
    by (rule control_unfold [OF w p pend c])
  let ?K = "fst ` set t"
  note acts = single_activations [OF sa]
  have pairs: "dict_pairs d' = dict_pairs d \<union> {(join_target (occ_join oc), RoutedActivationCause (sorted_arrivals t oc) (Some oc)) |oc.
       oc \<in> ?K \<and> join_complete t oc \<and> join_target (occ_join oc) \<noteq> END_NODE}"
    and dd: "distinct (map fst d')"
    and rem: "rem = map (\<lambda>oc. GraphJoinProgress oc (sorted_arrivals t oc)) (filter (\<lambda>oc. \<not> join_complete t oc) (sort (map fst t)))"
    and con: "con = filter (\<lambda>oc. join_complete t oc \<and> join_target (occ_join oc) = END_NODE \<and>
       oc \<in> jp_occurrence ` set (gr_join_progress s)) (sort (map fst t))"
    and due: "\<forall>oc\<in>?K. if join_complete t oc then occ_target_superstep oc = gr_superstep s + 1
        else gr_superstep s + 1 < occ_target_superstep oc"
    using jr inv(2) by (auto simp: join_resolved_def direct_inv_def split: if_splits)
  have entry: "arrival_entry s oc (dict_get t oc)" if "oc \<in> ?K" for oc using inv(1) that unfolding arrivals_inv_def by blast
  have dk: "distinct (sort (map fst t))" using inv(1) by (simp add: arrivals_inv_def)
  have cause: "next_cause s (fa_node_id a) (fa_cause a)" if "a \<in> set acts" for a
  proof -
    have "(fa_node_id a, fa_cause a) \<in> dict_pairs d'" using acts(2) that by blast
    then consider (direct) "(fa_node_id a, fa_cause a) \<in> dict_pairs d"
      | (join) oc where "oc \<in> ?K" "join_complete t oc" "fa_node_id a = join_target (occ_join oc)"
        "fa_cause a = RoutedActivationCause (sorted_arrivals t oc) (Some oc)"
      unfolding pairs by blast
    then show ?thesis
    proof cases
      case direct
      with inv(2) obtain r where "r \<in> set (frontier_references s)" "fa_cause a = RoutedActivationCause [r] None"
        by (auto simp: direct_inv_def)
      then show ?thesis by (simp add: next_cause_def canonical_by_iff)
    next
      case join
      then show ?thesis using join_cause_next [OF w entry [OF join(1)] join(2)] due by auto
    qed
  qed
  have co: "cause_occurrences (rf_activations control) =
      {oc \<in> ?K. join_complete t oc \<and> join_target (occ_join oc) \<noteq> END_NODE}"
  proof -
    have "oc \<in> cause_occurrences acts \<longleftrightarrow> (\<exists>n refs. (n, RoutedActivationCause refs (Some oc)) \<in> dict_pairs d')" for oc
    proof -
      have "(\<exists>n refs. (n, RoutedActivationCause refs (Some oc)) \<in> (\<lambda>a. (fa_node_id a, fa_cause a)) ` set acts) \<longleftrightarrow>
        (\<exists>refs. RoutedActivationCause refs (Some oc) \<in> fa_cause ` set acts)" by auto
      then show ?thesis unfolding acts(2) [symmetric] cause_occurrences_def by (auto simp: image_iff) metis+
    qed
    moreover have "(n, RoutedActivationCause refs (Some oc)) \<notin> dict_pairs d" for n refs oc
      using inv(2) by (auto simp: direct_inv_def)
    ultimately have "cause_occurrences acts = {oc \<in> ?K. join_complete t oc \<and> join_target (occ_join oc) \<noteq> END_NODE}"
      unfolding pairs by auto
    then show ?thesis by (simp add: ctl cause_occurrences_def)
  qed
  have pr: "jp_occurrence ` set rem = {oc \<in> ?K. \<not> join_complete t oc}" unfolding rem by force
  have ex: "set con = {oc \<in> ?K. join_complete t oc \<and> join_target (occ_join oc) = END_NODE \<and>
       oc \<in> jp_occurrence ` set (gr_join_progress s)}" unfolding con by auto
  have 1: "canonical_tuple (map fa_node_id (rf_activations control))"
    unfolding ctl using acts(1) dd by (intro sort_distinct_canonical) simp
  have "map jp_occurrence rem = filter (\<lambda>oc. \<not> join_complete t oc) (sort (map fst t))" unfolding rem by (simp add: comp_def)
  then have 2: "canonical_tuple (map jp_occurrence rem)" using dk by (simp add: canonical_tuple_iff sorted_wrt_filter)
  have 3: "canonical_tuple (sort con)" unfolding con using dk by (simp add: canonical_tuple_iff)
  have 4: "next_progress s j" if "j \<in> set rem" for j
    using that partial_join_next [OF w entry] due unfolding rem by auto
  have 5: "consumable s oc" if "oc \<in> set con" for oc
    using that end_join_consumable [OF w o1 entry] due unfolding ex by auto
  have "jp_occurrence ` set (gr_join_progress s) \<subseteq> ?K" using inv(1) by (simp add: arrivals_inv_def)
  then show ?thesis using 1 2 3 4 5 cause acts(3) unfolding resolves_def co by (auto simp: ctl pr ex)
qed

section \<open>The facts of the evaluation\<close>

lemma pending_join_arrivals_table:
  assumes "pending_join_arrivals s declared = Inr t"
  shows "t = map (\<lambda>j. (jp_occurrence j, jp_arrived j)) (gr_join_progress s)"
proof -
  have "u = t0 @ map (\<lambda>j. (jp_occurrence j, jp_arrived j)) js" if "foldE (pending_join_step s declared) t0 js = Inr u" for t0 u js
    using that
  proof (induction js arbitrary: t0)
    case (Cons j js)
    from Cons.prems obtain m where m: "pending_join_step s declared t0 j = Inr m" "foldE (pending_join_step s declared) m js = Inr u"
      by (auto simp: bindE_eq_Inr)
    from m(1) have "m = t0 @ [(jp_occurrence j, jp_arrived j)]"
      by (auto simp: pending_join_step_def Let_def bindE_eq_Inr split: option.splits if_splits)
    with Cons.IH [OF m(2)] show ?case by simp
  qed simp
  from this [of "[]"] assms show ?thesis by (simp add: pending_join_arrivals_def)
qed

lemma evaluation_pending:
  assumes e: "routing_evaluation g s = Inr f" and run: "gr_status s = RUNNING"
    and ok: "rf_admission_error f = None" "rf_pending_error f = None"
  shows "rf_pending_join_arrivals f = map (\<lambda>j. (jp_occurrence j, jp_arrived j)) (gr_join_progress s)"
proof -
  from e obtain adm where a: "settled_activation_admission_error g s = Inr adm"
    by (cases "settled_activation_admission_error g s") (auto simp: routing_evaluation_def)
  show ?thesis
  proof (cases "adm = None")
    case False
    with e ok a show ?thesis by (simp add: routing_evaluation_def) auto
  next
    case adm: True
    show ?thesis
    proof (cases "declared_joins g")
      case (Inl er)
      with e ok a adm run show ?thesis by (cases "is_snapshot_error er") (auto simp: routing_evaluation_def)
    next
      case (Inr declared)
      from e a adm run Inr obtain gate where g: "frontier_gate_error g s declared = Inr gate"
        by (cases "frontier_gate_error g s declared") (auto simp: routing_evaluation_def Let_def)
      show ?thesis
      proof (cases "pending_join_arrivals s declared")
        case (Inl er)
        with e ok a adm run Inr g show ?thesis
          by (cases "gate = None"; cases "is_join_error er"; cases "gr_superstep s > 0") (auto simp: routing_evaluation_def Let_def)
      next
        case p: (Inr pending)
        have gate: "gate = None"
          using e ok a adm run Inr g p by (cases gate) (auto simp: routing_evaluation_def Let_def)
        have "rf_pending_join_arrivals f = pending"
        proof (cases "gr_superstep s = 0")
          case True
          with e ok a adm run Inr g p gate show ?thesis by (auto simp: routing_evaluation_def Let_def)
        next
          case False
          with e ok a adm run Inr g p gate show ?thesis
            by (cases "historical_join_arrivals g s") (auto simp: routing_evaluation_def Let_def bindE_eq_Inr split: if_splits)
        qed
        with pending_join_arrivals_table [OF p] show ?thesis by simp
      qed
    qed
  qed
qed

end
