(* ===== verification/Routed_Runs.thy ===== *)
theory Routed_Runs
  imports Routing_Control
begin

text \<open>
  Runs whose frontiers come from the router. The facts a resolved routing rests on, the supersteps
  at which a plan can activate a node, and the invariant that a routed run stays on its plan: a node
  is active only at one of its levels, and every pending arrival belongs to a join of the plan. If
  the plan's joins are timed, a source that has arrived in a pending join is never active again.
\<close>

section \<open>Abort reasons\<close>

definition one_line :: "string \<Rightarrow> bool" where
  "one_line v \<longleftrightarrow> CHR 0x0A \<notin> set v \<and> CHR 0x0D \<notin> set v"

lemma hex_digit_one_line: "d < 16 \<Longrightarrow> hex_digit d \<noteq> CHR 0x0A \<and> hex_digit d \<noteq> CHR 0x0D"
proof -
  have "\<forall>d\<in>set [0..<16]. hex_digit d \<noteq> CHR 0x0A \<and> hex_digit d \<noteq> CHR 0x0D" by code_simp
  then show "d < 16 \<Longrightarrow> hex_digit d \<noteq> CHR 0x0A \<and> hex_digit d \<noteq> CHR 0x0D" by simp
qed

lemma repr_char_one_line: "quote \<in> {CHR 0x27, CHR 0x22} \<Longrightarrow> one_line (repr_char quote c)"
proof -
  assume q: "quote \<in> {CHR 0x27, CHR 0x22}"
  have n: "(of_char c :: nat) < 256" by (metis of_char_of nat_of_char_less_256)
  have "(of_char c :: nat) div 16 < 16" "(of_char c :: nat) mod 16 < 16"
    using n by (auto intro: less_mult_imp_div_less)
  note h = hex_digit_one_line [OF this(1)] hex_digit_one_line [OF this(2)]
  have "c = CHR 0x0A \<Longrightarrow> (of_char c :: nat) = 10" "c = CHR 0x0D \<Longrightarrow> (of_char c :: nat) = 13" by simp_all
  then show ?thesis using q h by (auto simp: repr_char_def one_line_def Let_def)
qed

lemma py_repr_one_line: "one_line (py_repr s)"
proof -
  have "one_line (quote # concat (map (repr_char quote) s) @ [quote])" if "quote \<in> {CHR 0x27, CHR 0x22}" for quote
    using repr_char_one_line [OF that] that by (auto simp: one_line_def)
  then show ?thesis by (simp add: py_repr_def Let_def)
qed

lemma py_repr_tuple_one_line: "one_line (py_repr_tuple ss)"
proof -
  have "one_line (join_reprs ss)"
    by (induction ss rule: join_reprs.induct) (use py_repr_one_line in \<open>auto simp: one_line_def\<close>)
  moreover have "one_line (py_repr s)" for s by (rule py_repr_one_line)
  ultimately show ?thesis by (auto simp: py_repr_tuple_def one_line_def split: list.splits)
qed

lemma py_repr_tuple_last: "py_repr_tuple ss \<noteq> [] \<and> last (py_repr_tuple ss) = CHR '')''"
  by (auto simp: py_repr_tuple_def split: list.splits)

lemma unavailable_reason_canonical:
  "is_canonical_identity (''required values unavailable for controlled nodes '' @ py_repr_tuple ss)"
  using py_repr_tuple_one_line [of ss] py_repr_tuple_last [of ss]
  by (auto simp: is_canonical_identity_iff one_line_def py_isspace_def)

section \<open>The resolved facts\<close>

lemma resolve_routing_facts_ok:
  assumes "resolve_routing_facts g s sr frames = Inr facts"
  obtains f control required unavailable where "frontier_status (gr_frontier s) = Inr SETTLED"
    "routing_evaluation g s = Inr f" "rf_admission_error f = None" "rf_pending_error f = None"
    "resolve_control g s f = Inr control"
    "length required = length (rf_activations control)"
    "facts = control\<lparr>rf_required_targets := required, rf_unavailable_graph_outputs := unavailable,
       rf_completion_route := rf_completion_route facts\<rparr>"
    "rf_activations control = [] \<and> rf_remaining_join_progress control = [] \<longrightarrow>
       completion_route g s = Inr (rf_completion_route facts)"
proof -
  from assms obtain f where st: "frontier_status (gr_frontier s) = Inr SETTLED" and f: "routing_evaluation g s = Inr f"
    by (auto simp: resolve_routing_facts_def bindE_eq_Inr split: if_splits)
  with assms have adm: "rf_admission_error f = None"
    by (cases "rf_admission_error f") (auto simp: resolve_routing_facts_def)
  with assms st f obtain control required unavailable route where c: "resolve_control g s f = Inr control"
    and r: "mapE (\<lambda>a. required_target_of g (fa_node_id a) a s sr (gr_superstep s + 1) frames) (rf_activations control) = Inr required"
    and rt: "(if rf_activations control \<noteq> [] \<or> rf_remaining_join_progress control \<noteq> [] then Inr None
                  else completion_route g s) = Inr route"
    and facts: "facts = control\<lparr>rf_required_targets := required, rf_unavailable_graph_outputs := unavailable,
       rf_completion_route := route\<rparr>"
    by (auto simp: resolve_routing_facts_def bindE_eq_Inr)
  have "rf_pending_error f = None" using c by (cases "rf_pending_error f") (auto simp: resolve_control_def)
  moreover have "length required = length (rf_activations control)" using r by (simp add: mapE_eq_Inr list_all2_lengthD)
  moreover have "rf_completion_route facts = route" by (simp add: facts)
  ultimately show thesis using st f adm c rt facts by (intro that [of f control required unavailable]) auto
qed

lemma completion_route_ok:
  assumes "completion_route g s = Inr route" "r \<in> set (frontier_references s)"
  shows "ref_route r = route"
proof -
  let ?R = "map (\<lambda>(n, c). selected_route c) (routing_contributions (gr_frontier s))"
  from assms(1) obtain routes where m: "mapE (\<lambda>(n, c). bindE (validate_routing_contribution g n c) (\<lambda>_. Inr (selected_route c)))
       (routing_contributions (gr_frontier s)) = Inr routes" and "routes \<noteq> []" "length (remdups routes) = 1" "route = hd routes"
    by (auto simp: completion_route_def bindE_eq_Inr split: if_splits)
  moreover have "routes = ?R"
  proof -
    have "list_all2 (\<lambda>x y. y = (case x of (n, c) \<Rightarrow> selected_route c)) (routing_contributions (gr_frontier s)) routes"
      using m by (auto simp: mapE_eq_Inr bindE_eq_Inr elim!: list_all2_mono)
    then show ?thesis by (auto simp: list_all2_conv_all_nth intro!: nth_equalityI)
  qed
  moreover have "set routes = {hd routes}" if "length (remdups routes) = 1"
  proof -
    from that obtain v where "remdups routes = [v]" by (cases "remdups routes") auto
    then have "set routes = {v}" using set_remdups [of routes] by simp
    then show ?thesis using \<open>routes \<noteq> []\<close> by (metis hd_in_set singletonD)
  qed
  ultimately show ?thesis using assms(2) by (auto simp: frontier_references_def)
qed

lemma missing_outputs_reason_canonical: "is_canonical_identity ''required graph output values are unavailable at completion''"
  by code_simp

lemma project_routing_cases:
  assumes "project_routing_facts s f = Inr cmd"
  shows "(\<exists>reason. is_canonical_identity reason \<and> cmd = AbortGraphRun (gr_revision s) reason) \<or>
    (rf_required_targets f \<noteq> [] \<and> cmd = AdvanceGraphFrontier \<lparr>af_expected_revision = gr_revision s, af_activations = rf_activations f,
        af_join_progress = rf_remaining_join_progress f, af_consumed_join_progress = rf_consumed_join_progress f\<rparr>) \<or>
    (rf_required_targets f = [] \<and> rf_remaining_join_progress f = [] \<and>
      cmd = CompleteGraphFrontier (gr_revision s) (rf_consumed_join_progress f) (rf_completion_route f))"
  using assms unavailable_reason_canonical missing_outputs_reason_canonical
  unfolding project_routing_facts_def Let_def by (auto split: if_splits simp del: append.simps)

section \<open>Levels of a plan\<close>

definition plan_table :: "(string \<times> 'a list) list \<Rightarrow> string \<Rightarrow> 'a list" where
  "plan_table m n = (case map_of m n of None \<Rightarrow> [] | Some xs \<Rightarrow> xs)"

definition plan_joins :: "compiled_graph \<Rightarrow> string \<Rightarrow> compiled_join list" where
  "plan_joins g = plan_table (tp_joins_by_source (cg_transition g))"

definition plan_succ :: "compiled_graph \<Rightarrow> string \<Rightarrow> string set" where
  "plan_succ g n = set (plan_table (tp_direct_targets (cg_transition g)) n) \<union>
     snd ` set (plan_table (tp_conditional_targets (cg_transition g)) n) \<union>
     (\<lambda>j. join_target (cj_identity j)) ` set (plan_joins g n)"

text \<open>A path of the plan from an entry reaches the node in this many steps.\<close>

inductive plan_level :: "compiled_graph \<Rightarrow> int \<Rightarrow> string \<Rightarrow> bool" for g :: compiled_graph where
  entry: "n \<in> set (tp_entries (cg_transition g)) \<Longrightarrow> plan_level g 0 n"
| step: "plan_level g k n \<Longrightarrow> m \<in> plan_succ g n \<Longrightarrow> plan_level g (k + 1) m"

definition timed_join :: "compiled_graph \<Rightarrow> compiled_join \<Rightarrow> bool" where
  "timed_join g j \<longleftrightarrow> (\<forall>k\<in>set (map snd (cj_offsets j)). k = 1) \<or>
     (\<forall>s\<in>set (join_sources (cj_identity j)). \<exists>l. \<forall>k. plan_level g k s \<longrightarrow> k = l)"

text \<open>
  Every join either waits one step for all its sources, or each of its sources has one level.
\<close>

definition timed_plan :: "compiled_graph \<Rightarrow> bool" where
  "timed_plan g \<longleftrightarrow> (\<forall>(n, js)\<in>set (tp_joins_by_source (cg_transition g)). \<forall>j\<in>set js. timed_join g j)"

lemma plan_tableD: "fm_get m n = Inr xs \<Longrightarrow> plan_table m n = xs"
  by (simp add: fm_get_def plan_table_def split: option.splits)

lemma timed_planD: "timed_plan g \<Longrightarrow> j \<in> set (plan_joins g n) \<Longrightarrow> timed_join g j"
  by (cases "map_of (tp_joins_by_source (cg_transition g)) n")
    (auto simp: timed_plan_def plan_joins_def plan_table_def dest: map_of_SomeD)

lemma successor_targets_on_plan:
  assumes "successor_targets_for_reference g r = Inr ts"
  shows "set ts \<subseteq> plan_succ g (act_node_id (ref_activation r))"
proof -
  let ?n = "act_node_id (ref_activation r)"
  from assms obtain routes ds where c: "fm_get (tp_conditional_targets (cg_transition g)) ?n = Inr routes"
    and d: "fm_get (tp_direct_targets (cg_transition g)) ?n = Inr ds"
    and t: "ts = ds \<or> (\<exists>rt target. fm_get routes rt = Inr target \<and> ts = ds @ [target])"
    by (auto simp: successor_targets_for_reference_def Let_def bindE_eq_Inr split: if_splits option.splits)
  have "target \<in> snd ` set routes" if "fm_get routes rt = Inr target" for rt target
    using that by (force simp: fm_get_def split: option.splits dest: map_of_SomeD)
  then show ?thesis using t by (auto simp: plan_succ_def plan_tableD [OF c] plan_tableD [OF d])
qed

section \<open>Resolved control stays on the plan\<close>

definition planned :: "compiled_graph \<Rightarrow> activation_reference \<Rightarrow> graph_join_occurrence \<Rightarrow> bool" where
  "planned g r oc \<longleftrightarrow> (let a = ref_activation r in
     plan_level g (act_superstep a) (act_node_id a) \<and> (\<exists>j\<in>set (plan_joins g (act_node_id a)). occurrence_for j a = Inr oc))"

definition on_plan :: "compiled_graph \<Rightarrow> graph_run_state \<Rightarrow> bool" where
  "on_plan g s \<longleftrightarrow> (\<forall>x\<in>set (gr_frontier s). plan_level g (gr_superstep s) (fn_node_id x)) \<and>
     (\<forall>j\<in>set (gr_join_progress s). \<forall>r\<in>set (jp_arrived j). planned g r (jp_occurrence j))"

definition table_planned :: "compiled_graph \<Rightarrow> arrival_table \<Rightarrow> bool" where
  "table_planned g t \<longleftrightarrow> (\<forall>oc. \<forall>r\<in>set (dict_get t oc). planned g r oc)"

definition candidates_planned :: "compiled_graph \<Rightarrow> int \<Rightarrow> candidate_table \<Rightarrow> bool" where
  "candidates_planned g k d \<longleftrightarrow> (\<forall>(n, c)\<in>dict_pairs d. plan_level g k n)"

lemma frontier_contribution:
  "(n, c) \<in> set (routing_contributions f) \<Longrightarrow> \<exists>x\<in>set f. fn_node_id x = n"
  by (auto simp: routing_contributions_def split: node_settlement.splits)

lemma add_candidates_planned:
  assumes "candidates_planned g k d" "\<And>n. n \<in> set ts \<Longrightarrow> plan_level g k n" "add_candidates d r ts = Inr d'"
  shows "candidates_planned g k d'"
  using assms
proof (induction ts arbitrary: d)
  case (Cons n ts)
  from Cons.prems(3) obtain c where "add_candidates (dict_append d n c) r ts = Inr d'" by (auto simp: add_candidates_def bindE_eq_Inr)
  moreover have "candidates_planned g k (dict_append d n c)" using Cons.prems(1) Cons.prems(2) [of n] by (auto simp: candidates_planned_def)
  ultimately show ?case using Cons.IH Cons.prems(2) by simp
qed (simp add: add_candidates_def)

lemma join_arrivals_planned:
  assumes "foldE (join_arrival_step a r) t js = Inr t'" "table_planned g t" "ref_activation r = a"
    "plan_level g (act_superstep a) (act_node_id a)" "set js \<subseteq> set (plan_joins g (act_node_id a))"
  shows "table_planned g t'"
  using assms
proof (induction js arbitrary: t)
  case (Cons j js)
  from Cons.prems(1) obtain u where u: "join_arrival_step a r t j = Inr u" "foldE (join_arrival_step a r) u js = Inr t'" by (auto simp: bindE_eq_Inr)
  then obtain oc where oc: "occurrence_for j a = Inr oc" "u = dict_append t oc r" by (auto simp: join_arrival_step_def bindE_eq_Inr if_Inl_eq_Inr)
  have "planned g r oc" using Cons.prems(3-5) oc(1) by (auto simp: planned_def)
  then have "table_planned g u" using Cons.prems(2) by (auto simp: table_planned_def oc(2))
  then show ?case using Cons.IH [OF u(2)] Cons.prems by simp
qed simp

lemma contributions_planned:
  assumes "foldE (contribution_step g s) (t, d) cs = Inr (t', d')" "table_planned g t" "candidates_planned g (gr_superstep s + 1) d"
    "\<And>n c. (n, c) \<in> set cs \<Longrightarrow> plan_level g (gr_superstep s) n"
  shows "table_planned g t' \<and> candidates_planned g (gr_superstep s + 1) d'"
  using assms
proof (induction cs arbitrary: t d)
  case (Cons x cs)
  obtain n c where x: "x = (n, c)" by (cases x)
  let ?a = "GraphActivationIdentity (gr_run_id s) (gr_superstep s) n"
  let ?r = "ActivationReference ?a (selected_route c)"
  from Cons.prems(1) obtain u v where u: "contribution_step g s (t, d) (n, c) = Inr (u, v)"
    "foldE (contribution_step g s) (u, v) cs = Inr (t', d')" by (auto simp: x bindE_eq_Inr)
  from u(1) obtain targets plans where ts: "successor_targets_for_reference g ?r = Inr targets" and v: "add_candidates d ?r targets = Inr v"
    and pl: "fm_get (tp_joins_by_source (cg_transition g)) n = Inr plans" and t: "foldE (join_arrival_step ?a ?r) t plans = Inr u"
    by (auto simp: contribution_step_def bindE_eq_Inr mk_GraphActivationIdentity_ok mk_ActivationReference_ok)
  have l: "plan_level g (gr_superstep s) n" using Cons.prems(4) [of n c] by (simp add: x)
  have "plan_level g (gr_superstep s + 1) m" if "m \<in> set targets" for m
    using successor_targets_on_plan [OF ts] that plan_level.step [OF l] by auto
  from add_candidates_planned [OF Cons.prems(3) this v] have "candidates_planned g (gr_superstep s + 1) v" by simp
  moreover have "table_planned g u"
    by (rule join_arrivals_planned [OF t Cons.prems(2)]) (use l in \<open>simp_all add: plan_joins_def plan_tableD [OF pl]\<close>)
  moreover have "plan_level g (gr_superstep s) m" if "(m, e) \<in> set cs" for m e using that Cons.prems(4) [of m e] by simp
  ultimately show ?case using Cons.IH [OF u(2)] by blast
qed simp

lemma complete_join_on_plan:
  assumes w: "wf_state s" and p: "table_planned g t" and f: "\<forall>x\<in>set (gr_frontier s). plan_level g (gr_superstep s) (fn_node_id x)"
    and e: "arrival_entry s oc (dict_get t oc)" and c: "join_complete t oc"
  shows "plan_level g (gr_superstep s + 1) (join_target (occ_join oc))"
proof -
  from e obtain cur where cur: "dict_get t oc = pending_arrivals s oc @ cur" "set cur \<subseteq> set (frontier_references s)"
    "cur = [] \<longrightarrow> oc \<in> jp_occurrence ` set (gr_join_progress s)" by (auto simp: arrival_entry_def)
  have "cur \<noteq> []"
  proof
    assume "cur = []"
    then obtain j where j: "j \<in> set (gr_join_progress s)" "jp_occurrence j = oc" using cur(3) by auto
    then have "wf_progress s j" using w by (simp add: wf_state_def wf_joins_def)
    then show False using c cur(1) \<open>cur = []\<close> pending_arrivals_mem [OF w j(1)] j(2) by (auto simp: join_complete_def wf_progress_def)
  qed
  then obtain r where r: "r \<in> set (dict_get t oc)" "r \<in> set (frontier_references s)" using cur(1,2) by (cases cur) auto
  let ?n = "act_node_id (ref_activation r)"
  obtain x where "x \<in> set (gr_frontier s)" "fn_node_id x = ?n" using r(2) by (auto simp: frontier_references_mem)
  then have l: "plan_level g (gr_superstep s) ?n" using f by auto
  have "planned g r oc" using p r(1) by (simp add: table_planned_def)
  then obtain j where j: "j \<in> set (plan_joins g ?n)" "occurrence_for j (ref_activation r) = Inr oc" by (auto simp: planned_def Let_def)
  have "occ_join oc = cj_identity j" using j(2) by (auto simp: occurrence_for_def bindE_eq_Inr mk_GraphJoinOccurrenceIdentity_ok)
  then have "join_target (occ_join oc) \<in> plan_succ g ?n" using j(1) by (auto simp: plan_succ_def)
  then show ?thesis by (rule plan_level.step [OF l])
qed

lemma control_on_plan:
  assumes w: "wf_state s" and p: "checked_joins g" and o: "on_plan g s"
    and pend: "rf_pending_join_arrivals f = map (\<lambda>j. (jp_occurrence j, jp_arrived j)) (gr_join_progress s)"
    and c: "resolve_control g s f = Inr control"
  shows "\<forall>a\<in>set (rf_activations control). plan_level g (gr_superstep s + 1) (fa_node_id a)"
    "\<forall>j\<in>set (rf_remaining_join_progress control). \<forall>r\<in>set (jp_arrived j). planned g r (jp_occurrence j)"
proof -
  from c obtain t d rem con d' acts where
    cs: "foldE (contribution_step g s) (rf_pending_join_arrivals f, []) (routing_contributions (gr_frontier s)) = Inr (t, d)"
    and js: "foldE (join_resolution_step s t) ([], [], d) (sort (map fst t)) = Inr (rem, con, d')"
    and sa: "mapE single_activation d' = Inr acts"
    and ctl: "control = f\<lparr>rf_remaining_join_progress := rem, rf_activations := sort_key fa_node_id acts,
       rf_consumed_join_progress := sort con\<rparr>"
    by (auto simp: resolve_control_def bindE_eq_Inr split: option.splits prod.splits)
  have f: "\<forall>x\<in>set (gr_frontier s). plan_level g (gr_superstep s) (fn_node_id x)" using o by (simp add: on_plan_def)
  have "planned g r oc" if "r \<in> set (dict_get (rf_pending_join_arrivals f) oc)" for r oc
  proof -
    from that obtain rs where "map_of (map (\<lambda>j. (jp_occurrence j, jp_arrived j)) (gr_join_progress s)) oc = Some rs" "r \<in> set rs"
      unfolding pend by (cases "map_of (map (\<lambda>j. (jp_occurrence j, jp_arrived j)) (gr_join_progress s)) oc") (auto simp: dict_get_def)
    then obtain j where "j \<in> set (gr_join_progress s)" "jp_occurrence j = oc" "r \<in> set (jp_arrived j)" by (auto dest!: map_of_SomeD)
    then show ?thesis using o by (auto simp: on_plan_def)
  qed
  then have t0: "table_planned g (rf_pending_join_arrivals f)" by (simp add: table_planned_def)
  have "plan_level g (gr_superstep s) n" if "(n, c) \<in> set (routing_contributions (gr_frontier s))" for n c
    using frontier_contribution [OF that] f by auto
  from contributions_planned [OF cs t0 _ this] have tp: "table_planned g t" "candidates_planned g (gr_superstep s + 1) d"
    by (auto simp: candidates_planned_def)
  have ai: "arrivals_inv s t" using cs unfolding pend
    by (rule contributions_inv [OF w p order.refl arrivals_inv_start [OF w], rotated, THEN conjunct1]) (simp add: direct_inv_def)
  note jr = join_fold_resolved [OF js]
  have "plan_level g (gr_superstep s + 1) n" if "(n, y) \<in> dict_pairs d'" for n y
  proof -
    from jr that consider "(n, y) \<in> dict_pairs d" | oc where "oc \<in> fst ` set t" "join_complete t oc" "n = join_target (occ_join oc)"
      by (auto simp: join_resolved_def)
    then show ?thesis
    proof cases
      case 1
      then show ?thesis using tp(2) by (auto simp: candidates_planned_def)
    next
      case (2 oc)
      then have "arrival_entry s oc (dict_get t oc)" using ai unfolding arrivals_inv_def by blast
      from complete_join_on_plan [OF w tp(1) f this 2(2)] show ?thesis by (simp add: 2(3))
    qed
  qed
  then show "\<forall>a\<in>set (rf_activations control). plan_level g (gr_superstep s + 1) (fa_node_id a)"
    using single_activations(2) [OF sa] by (force simp: ctl)
  have "rem = map (\<lambda>oc. GraphJoinProgress oc (sorted_arrivals t oc)) (filter (\<lambda>oc. \<not> join_complete t oc) (sort (map fst t)))"
    using jr by (auto simp: join_resolved_def)
  then show "\<forall>j\<in>set (rf_remaining_join_progress control). \<forall>r\<in>set (jp_arrived j). planned g r (jp_occurrence j)"
    using tp(1) by (auto simp: ctl table_planned_def sorted_arrivals_def)
qed

section \<open>Routed runs\<close>

text \<open>
  A run that starts at the entries of the plan and advances only as the router resolves it, over
  frame indices of \<open>F\<close>; every other command may be given at any time.
\<close>

inductive routed_run :: "compiled_graph \<Rightarrow> 'f frame_index set \<Rightarrow> graph_run_state \<Rightarrow> bool"
  for g :: compiled_graph and F :: "'f frame_index set" where
  started: "reduce_graph_run None (StartGraphRun c) = Inr s \<Longrightarrow>
    set (map fa_node_id (sg_activations c)) = set (tp_entries (cg_transition g)) \<Longrightarrow> routed_run g F s"
| advanced: "routed_run g F s \<Longrightarrow> frames \<in> F \<Longrightarrow> resolve_routing g s sr frames = Inr (AdvanceGraphFrontier c) \<Longrightarrow>
    reduce_graph_run (Some s) (AdvanceGraphFrontier c) = Inr t \<Longrightarrow> routed_run g F t"
| stepped: "routed_run g F s \<Longrightarrow> reduce_graph_run (Some s) cmd = Inr t \<Longrightarrow> (\<forall>c. cmd \<noteq> AdvanceGraphFrontier c) \<Longrightarrow> routed_run g F t"

lemma routed_reachable: "routed_run g F s \<Longrightarrow> reachable_run s"
  by (induction rule: routed_run.induct) (auto intro: reachable_run.intros simp del: reduce_graph_run.simps)

lemma resume_node_ids:
  assumes "foldE resume_node (m, acc) f = Inr (m', acc')"
  shows "map fn_node_id acc' = map fn_node_id acc @ map fn_node_id f"
  using assms
proof (induction f arbitrary: m acc)
  case (Cons x f)
  from Cons.prems obtain m1 acc1 where "resume_node (m, acc) x = Inr (m1, acc1)" "foldE resume_node (m1, acc1) f = Inr (m', acc')"
    by (auto simp: bindE_eq_Inr)
  with Cons.IH show ?case by (auto simp: resume_node_ok resume_one_def split: option.splits)
qed simp

lemma other_step_position:
  assumes "reduce_graph_run (Some s) cmd = Inr t" "\<forall>c. cmd \<noteq> AdvanceGraphFrontier c"
  shows "gr_superstep t = gr_superstep s" "set (gr_join_progress t) \<subseteq> set (gr_join_progress s)"
    "fn_node_id ` set (gr_frontier t) \<subseteq> fn_node_id ` set (gr_frontier s)"
proof -
  obtain u where u: "dispatch_command s cmd = Inr u" "t = u\<lparr>gr_revision := gr_revision s + 1\<rparr>" by (rule reduce_SomeD [OF assms(1)])
  have "gr_superstep u = gr_superstep s \<and> set (gr_join_progress u) \<subseteq> set (gr_join_progress s) \<and>
    fn_node_id ` set (gr_frontier u) \<subseteq> fn_node_id ` set (gr_frontier s)"
  proof (cases cmd)
    case (ResumeGraphNodes k actions)
    with u(1) obtain rest updated where r: "foldE resume_node (actions_by_node actions, []) (gr_frontier s) = Inr (rest, updated)"
      "u = s\<lparr>gr_frontier := updated\<rparr>" by (auto elim!: resume_ok)
    have "set (map fn_node_id updated) = set (map fn_node_id (gr_frontier s))" using resume_node_ids [OF r(1)] by simp
    then show ?thesis by (simp add: r(2))
  qed (use u(1) assms(2) in \<open>auto simp: claim_ok fence_ok abort_ok complete_ok resolution_base_ok apply_settlement_def Let_def
        replace_settlement_def elim!: settle_ok\<close>)
  then show "gr_superstep t = gr_superstep s" "set (gr_join_progress t) \<subseteq> set (gr_join_progress s)"
    "fn_node_id ` set (gr_frontier t) \<subseteq> fn_node_id ` set (gr_frontier s)" by (simp_all add: u(2))
qed

lemma routed_advance:
  assumes "resolve_routing g s sr frames = Inr (AdvanceGraphFrontier c)"
  obtains f control where "frontier_status (gr_frontier s) = Inr SETTLED" "routing_evaluation g s = Inr f"
    "rf_admission_error f = None" "rf_pending_error f = None" "resolve_control g s f = Inr control"
    "af_activations c = rf_activations control" "af_join_progress c = rf_remaining_join_progress control"
    "af_consumed_join_progress c = rf_consumed_join_progress control"
proof -
  from assms obtain facts where fa: "resolve_routing_facts g s sr frames = Inr facts"
    and pr: "project_routing_facts s facts = Inr (AdvanceGraphFrontier c)"
    by (auto simp: resolve_routing_def bindE_eq_Inr)
  obtain f control required unavailable where r: "frontier_status (gr_frontier s) = Inr SETTLED"
    "routing_evaluation g s = Inr f" "rf_admission_error f = None" "rf_pending_error f = None"
    "resolve_control g s f = Inr control" and facts: "facts = control\<lparr>rf_required_targets := required, rf_unavailable_graph_outputs := unavailable,
       rf_completion_route := rf_completion_route facts\<rparr>"
    by (rule resolve_routing_facts_ok [OF fa])
  have "rf_activations facts = rf_activations control" "rf_remaining_join_progress facts = rf_remaining_join_progress control"
    "rf_consumed_join_progress facts = rf_consumed_join_progress control" by (subst facts, simp)+
  moreover from project_routing_cases [OF pr] have "c = \<lparr>af_expected_revision = gr_revision s, af_activations = rf_activations facts,
        af_join_progress = rf_remaining_join_progress facts, af_consumed_join_progress = rf_consumed_join_progress facts\<rparr>" by auto
  ultimately show thesis using r by (intro that) auto
qed

lemma routed_on_plan: "routed_run g F s \<Longrightarrow> checked_joins g \<Longrightarrow> gr_status s = RUNNING \<longrightarrow> on_plan g s"
proof (induction rule: routed_run.induct)
  case (started c s)
  then have "gr_superstep s = 0" "gr_join_progress s = []" "gr_frontier s = pending_frontier (sg_activations c)" by (auto dest!: start_ok)
  moreover have "plan_level g 0 (fa_node_id a)" if "a \<in> set (sg_activations c)" for a
    using that started.hyps(2) by (intro plan_level.entry) auto
  ultimately show ?case by (auto simp: on_plan_def pending_frontier_def)
next
  case (advanced s frames sr c t)
  obtain f control where e: "routing_evaluation g s = Inr f" "rf_admission_error f = None" "rf_pending_error f = None"
    and ctl: "resolve_control g s f = Inr control" "af_activations c = rf_activations control" "af_join_progress c = rf_remaining_join_progress control"
    by (rule routed_advance [OF advanced.hyps(3)])
  obtain u where w: "wf_state s" and u: "dispatch_command s (AdvanceGraphFrontier c) = Inr u" "t = u\<lparr>gr_revision := gr_revision s + 1\<rparr>"
    by (rule reduce_SomeD [OF advanced.hyps(4)])
  then have run: "gr_status s = RUNNING" and t: "gr_superstep t = gr_superstep s + 1" "gr_frontier t = pending_frontier (af_activations c)"
    "gr_join_progress t = af_join_progress c" by (auto simp: advance_ok resolution_base_ok)
  note o = control_on_plan [OF w advanced.prems _ evaluation_pending [OF e(1) run e(2,3)] ctl(1)]
  from advanced.IH [OF advanced.prems] run o show ?case by (auto simp: on_plan_def t ctl pending_frontier_def)
next
  case (stepped s cmd t)
  note p = other_step_position [OF stepped.hyps(2,3)]
  show ?case
  proof (cases "gr_status s = RUNNING")
    case True
    with stepped.IH stepped.prems have "on_plan g s" by blast
    then show ?thesis using p unfolding on_plan_def by (auto simp: p(1))
  next
    case False
    then show ?thesis using reduce_frozen [OF stepped.hyps(2)] by blast
  qed
qed

text \<open>On a timed plan a source that waits in a pending join is not active again.\<close>

lemma on_plan_joins_once:
  assumes w: "wf_state s" and o: "on_plan g s" and p: "checked_joins g" and tp: "timed_plan g"
    and j: "j \<in> set (gr_join_progress s)"
  shows "set (reference_nodes (jp_arrived j)) \<inter> set (map fn_node_id (gr_frontier s)) = {}"
proof (rule ccontr)
  assume "set (reference_nodes (jp_arrived j)) \<inter> set (map fn_node_id (gr_frontier s)) \<noteq> {}"
  then obtain r x where r: "r \<in> set (jp_arrived j)" and x: "x \<in> set (gr_frontier s)" "act_node_id (ref_activation r) = fn_node_id x"
    by (auto simp: reference_nodes_def)
  let ?a = "ref_activation r" and ?oc = "jp_occurrence j"
  have wp: "wf_progress s j" using w j by (simp add: wf_state_def wf_joins_def)
  then have past: "act_superstep ?a < gr_superstep s" and due: "gr_superstep s < occ_target_superstep ?oc" using r by (auto simp: wf_progress_def past_reference_def)
  have "planned g r ?oc" using o j r by (simp add: on_plan_def)
  then obtain q where q: "q \<in> set (plan_joins g (act_node_id ?a))" "occurrence_for q ?a = Inr ?oc" and l: "plan_level g (act_superstep ?a) (act_node_id ?a)"
    by (auto simp: planned_def Let_def)
  from q(2) obtain k where k: "map_of (cj_offsets q) (act_node_id ?a) = Some k" "occ_target_superstep ?oc = act_superstep ?a + k"
    by (auto simp: occurrence_for_def target_offset_def bindE_eq_Inr mk_GraphJoinOccurrenceIdentity_ok split: option.splits)
  then have "k \<noteq> 1" "k \<in> set (map snd (cj_offsets q))" using past due by (force dest: map_of_SomeD)+
  moreover have "act_node_id ?a \<in> set (join_sources (cj_identity q))"
  proof -
    obtain ps where "fm_get (tp_joins_by_source (cg_transition g)) (act_node_id ?a) = Inr ps" "q \<in> set ps"
      using q(1) by (cases "map_of (tp_joins_by_source (cg_transition g)) (act_node_id ?a)") (auto simp: plan_joins_def plan_table_def fm_get_def)
    then have "wf_join_plan q" by (rule checked_joinsD [OF p])
    then have "map fst (cj_offsets q) = join_sources (cj_identity q)" by (auto simp: wf_join_plan_def mk_CompiledJoin_def split: if_splits)
    moreover have "act_node_id ?a \<in> set (map fst (cj_offsets q))" using k(1) by (force dest: map_of_SomeD)
    ultimately show ?thesis by simp
  qed
  ultimately obtain l0 where "\<forall>k. plan_level g k (act_node_id ?a) \<longrightarrow> k = l0" using timed_planD [OF tp q(1)] by (auto simp: timed_join_def)
  moreover have "plan_level g (gr_superstep s) (act_node_id ?a)" using o x by (auto simp: on_plan_def)
  ultimately show False using l past by (metis order_less_irrefl)
qed

lemma routed_end_joins_once:
  assumes "routed_run g F s" "gr_status s = RUNNING" "checked_joins g" "timed_plan g"
  shows "end_joins_once s"
  using on_plan_joins_once [OF reachable_wf [OF routed_reachable [OF assms(1)]]] routed_on_plan [OF assms(1,3)] assms
  by (auto simp: end_joins_once_def)

end
