(* ===== verification/Routing_Properties.thy ===== *)
theory Routing_Properties
  imports Routed_Runs Reducer_Sample
begin

text \<open>
  What the router promises to the rest of the engine: every command it resolves from a valid
  settled state is one the reducer accepts, and a completion it resolves passes the admission of
  the completed state. The frame index behaves as a partial map.
\<close>

section \<open>A sample graph\<close>

text \<open>The compiled graph of the sample run: \<open>a\<close> and \<open>b\<close> start, \<open>b\<close> leads to \<open>c\<close>, and \<open>a\<close> and \<open>c\<close> join in \<open>d\<close>.\<close>

definition sample_descriptor :: "frame_kind \<Rightarrow> int \<Rightarrow> frame_descriptor" where
  "sample_descriptor k i = \<lparr>fd_identity = FrameDescriptorIdentity ''graph'' 1 k i, fd_declarations = []\<rparr>"

definition sample_compiled_join :: compiled_join where
  "sample_compiled_join = CompiledJoin (GraphJoinIdentity [''a'', ''c''] ''d'') [(''a'', 2), (''c'', 1)]"

definition sample_graph :: compiled_graph where
  "sample_graph = CompiledGraph ''graph'' 1 (map (\<lambda>n. (n, CallableNode [] {})) [''a'', ''b'', ''c'', ''d'']) []
     (sample_descriptor GRAPH_INPUT 0) (sample_descriptor GRAPH_OUTPUT 0)
     \<lparr>tp_entries = [''a'', ''b''],
      tp_direct_targets = [(''a'', []), (''b'', [''c'']), (''c'', []), (''d'', [])],
      tp_conditional_targets = map (\<lambda>n. (n, [])) [''a'', ''b'', ''c'', ''d''],
      tp_route_options = map (\<lambda>n. (n, [None])) [''a'', ''b'', ''c'', ''d''],
      tp_joins_by_source = [(''a'', [sample_compiled_join]), (''b'', []), (''c'', [sample_compiled_join]), (''d'', [])],
      tp_materializations = map (\<lambda>n. (n, \<lparr>mp_bindings = [], mp_descriptor = sample_descriptor NODE_INPUT 0\<rparr>)) [''a'', ''b'', ''c'', ''d''],
      tp_publications = map (\<lambda>n. (n, sample_descriptor NODE_OUTPUT 0)) [''a'', ''b'', ''c'', ''d''],
      tp_graph_outputs = [], tp_resource_order = [],
      tp_activation_gates = [(''a'', []), (''b'', []), (''c'', [[(''b'', {None})]]), (''d'', [[(''a'', {None}), (''c'', {None})]])]\<rparr>
     [] None {None}"

definition sample_frames :: "unit frame_index" where
  "sample_frames = \<lparr>fi_graph_inputs = [], fi_publications = [], fi_resume_inputs = [], fi_child_boundaries = []\<rparr>"

lemma sample_route: "resolve_routing sample_graph sample9 (ScopeRunCoordinate [] ''run'') sample_frames =
    Inr (AdvanceGraphFrontier sample_join_advance)"
  by code_simp

definition sample_end_state :: graph_run_state where
  "sample_end_state = sample10\<lparr>gr_frontier := replace_settlement (gr_frontier sample10) ''d'' (SucceededGraphNode ContinueGraphRouting),
     gr_settled_publications := gr_settled_publications sample10 @ [sample_publication 2 ''d'' 12 (GraphExecutionToken 4 ''t4'')],
     gr_execution_sequence := 4, gr_revision := 12\<rparr>"

lemma sample_complete: "resolve_routing sample_graph sample_end_state (ScopeRunCoordinate [] ''run'') sample_frames =
    Inr (CompleteGraphFrontier 12 [] None)"
  by code_simp

lemma sample_plan_succ: "m \<in> plan_succ sample_graph n \<longleftrightarrow> (n = ''b'' \<and> m = ''c'') \<or> (n \<in> {''a'', ''c''} \<and> m = ''d'')"
  by (auto simp: plan_succ_def plan_table_def plan_joins_def sample_graph_def sample_compiled_join_def split: if_splits)

lemma sample_levels: "plan_level sample_graph k n \<Longrightarrow> (n \<in> {''a'', ''b''} \<longrightarrow> k = 0) \<and> (n = ''c'' \<longrightarrow> k = 1)"
  by (induction rule: plan_level.induct) (auto simp: sample_plan_succ, auto simp: sample_graph_def)

lemma sample_timed: "timed_plan sample_graph"
proof -
  have "\<exists>l. \<forall>k. plan_level sample_graph k s \<longrightarrow> k = l" if "s \<in> {''a'', ''c''}" for s using that sample_levels by blast
  then have "timed_join sample_graph sample_compiled_join" unfolding timed_join_def by (simp add: sample_compiled_join_def)
  then show ?thesis unfolding timed_plan_def by (auto simp: sample_graph_def)
qed

lemma sample_first_route: "resolve_routing sample_graph sample6 (ScopeRunCoordinate [] ''run'') sample_frames = Inr (AdvanceGraphFrontier sample_advance)"
  by code_simp

lemma sample_routed: "routed_run sample_graph {sample_frames} sample9"
proof -
  let ?R = "routed_run sample_graph {sample_frames}"
  have other: "\<forall>c. sample_commands ! i \<noteq> AdvanceGraphFrontier c" if "i \<in> {0, 1, 2, 3, 4, 5, 7, 8}" for i
    using that by (auto simp: sample_commands_def)
  have "set (map fa_node_id (sg_activations sample_start)) = set (tp_entries (cg_transition sample_graph))" by code_simp
  then have "?R sample_initial" by (rule routed_run.started [OF sample_started])
  then have "?R sample1" by (rule routed_run.stepped [OF _ sample_steps(1) other]) simp
  then have "?R sample2" by (rule routed_run.stepped [OF _ sample_steps(2) other]) simp
  then have "?R sample3" by (rule routed_run.stepped [OF _ sample_steps(3) other]) simp
  then have "?R sample4" by (rule routed_run.stepped [OF _ sample_steps(4) other]) simp
  then have "?R sample5" by (rule routed_run.stepped [OF _ sample_steps(5) other]) simp
  then have "?R sample6" by (rule routed_run.stepped [OF _ sample_steps(6) other]) simp
  moreover have "reduce_graph_run (Some sample6) (AdvanceGraphFrontier sample_advance) = Inr sample7"
    using sample_steps(7) by (simp add: sample_commands_def del: reduce_graph_run.simps)
  ultimately have "?R sample7" using sample_first_route routed_run.advanced by blast
  then have "?R sample8" by (rule routed_run.stepped [OF _ sample_steps(8) other]) simp
  then show "?R sample9" by (rule routed_run.stepped [OF _ sample_steps(9) other]) simp
qed

section \<open>Properties\<close>

text \<open>
  C37. The router and the reducer agree. In every running state of a routed run (it starts at the
  entries of the plan and advances as the router resolves; claims, settlements, resumes and fences
  come in any order), whatever command the router resolves is accepted by the reducer: an advance
  leads to the next superstep with exactly the resolved activations pending and the resolved
  partial joins waiting, a completion leads to the completed state with the resolved route, an
  abort to the aborted state with the router's reason. Of the plan it is assumed that the
  constructors accept its joins and that each join waits one step for all its sources or has only
  sources that the plan activates at one level; the compiler emits only such plans.
\<close>

theorem routing_accepted:
  assumes routed: "routed_run g F s" and run: "gr_status s = RUNNING" and p: "checked_joins g" and timed: "timed_plan g"
    and r: "resolve_routing g s sr frames = Inr cmd"
  shows "\<exists>t. reduce_graph_run (Some s) cmd = Inr t \<and>
    (case cmd of
       AdvanceGraphFrontier c \<Rightarrow> t = advanced_state s (af_activations c) (af_join_progress c)
     | CompleteGraphFrontier _ _ route \<Rightarrow> t = completed_state s route
     | AbortGraphRun _ reason \<Rightarrow> gr_status t = ABORTED \<and> gr_abort t = Some reason \<and> gr_frontier t = gr_frontier s
     | _ \<Rightarrow> False)"
proof -
  have w: "wf_state s" by (rule reachable_wf [OF routed_reachable [OF routed]])
  have o1: "end_joins_once s" by (rule routed_end_joins_once [OF routed run p timed])
  from r obtain facts where fa: "resolve_routing_facts g s sr frames = Inr facts" and pr: "project_routing_facts s facts = Inr cmd"
    by (auto simp: resolve_routing_def bindE_eq_Inr)
  obtain f control required unavailable where st: "frontier_status (gr_frontier s) = Inr SETTLED"
    and ev: "routing_evaluation g s = Inr f" "rf_admission_error f = None" "rf_pending_error f = None"
    and c: "resolve_control g s f = Inr control" and len: "length required = length (rf_activations control)"
    and facts: "facts = control\<lparr>rf_required_targets := required, rf_unavailable_graph_outputs := unavailable,
       rf_completion_route := rf_completion_route facts\<rparr>"
    and route: "rf_activations control = [] \<and> rf_remaining_join_progress control = [] \<longrightarrow>
       completion_route g s = Inr (rf_completion_route facts)"
    by (rule resolve_routing_facts_ok [OF fa])
  let ?acts = "rf_activations facts" and ?prog = "rf_remaining_join_progress facts" and ?ex = "rf_consumed_join_progress facts"
  have same: "?acts = rf_activations control" "?prog = rf_remaining_join_progress control"
    "?ex = rf_consumed_join_progress control" "rf_required_targets facts = required"
    by (subst facts, simp)+
  have res: "resolves s ?acts ?prog ?ex"
    unfolding same by (rule control_resolves [OF w p o1 evaluation_pending [OF ev(1) run ev(2,3)] c])
  consider (abort) reason where "cmd = AbortGraphRun (gr_revision s) reason" "is_canonical_identity reason"
    | (advance) "?acts \<noteq> []" "cmd = AdvanceGraphFrontier \<lparr>af_expected_revision = gr_revision s, af_activations = ?acts,
        af_join_progress = ?prog, af_consumed_join_progress = ?ex\<rparr>"
    | (complete) "?acts = []" "?prog = []" "cmd = CompleteGraphFrontier (gr_revision s) ?ex (rf_completion_route facts)"
    using project_routing_cases [OF pr] len same(1,4) by fastforce
  then show ?thesis
  proof cases
    case abort
    then show ?thesis using abort_enabled [OF w, of "gr_revision s" reason] settled_quiescent(1) [OF w run st] run
      by (simp del: reduce_graph_run.simps)
  next
    case advance
    then show ?thesis using advance_enabled [OF w run st, of ?acts ?prog ?ex] res
      by (simp add: advances_resolves del: reduce_graph_run.simps)
  next
    case complete
    have "completes s ?ex (rf_completion_route facts)"
      using res complete(1,2) route completion_route_ok by (auto simp: resolves_def completes_def same cause_occurrences_def)
    from complete_enabled [OF w run st this] show ?thesis by (simp add: complete(3) del: reduce_graph_run.simps)
  qed
qed

theorem routing_accepted_witness:
  "routed_run sample_graph {sample_frames} sample9 \<and> checked_joins sample_graph \<and> timed_plan sample_graph \<and>
   (\<exists>t. reduce_graph_run (Some sample9) (AdvanceGraphFrontier sample_join_advance) = Inr t \<and> gr_superstep t = 2)"
proof -
  have p: "checked_joins sample_graph" "gr_status sample9 = RUNNING" "gr_superstep sample9 = 1"
    by code_simp+
  from routing_accepted [OF sample_routed p(2,1) sample_timed sample_route] p sample_routed sample_timed
  show ?thesis by (simp add: advanced_state_def del: reduce_graph_run.simps)
qed

text \<open>
  C38. A completion resolved by the router is admitted: the completed state that the reducer
  derives from it passes the topology check of the transition, which recomputes the control
  successor, the consumed joins and the completion route.
\<close>

theorem routed_completion_admitted:
  assumes run: "gr_status s = RUNNING" and r: "resolve_routing g s sr frames = Inr (CompleteGraphFrontier k js route)"
    and t: "reduce_graph_run (Some s) (CompleteGraphFrontier k js route) = Inr t"
  shows "transition_admission_error g (Some s) (CompleteGraphFrontier k js route) t = Inr None"
proof -
  from r obtain facts where fa: "resolve_routing_facts g s sr frames = Inr facts"
    and pr: "project_routing_facts s facts = Inr (CompleteGraphFrontier k js route)"
    by (auto simp: resolve_routing_def bindE_eq_Inr)
  obtain f control required unavailable where "frontier_status (gr_frontier s) = Inr SETTLED"
    and ev: "routing_evaluation g s = Inr f" "rf_admission_error f = None" "rf_pending_error f = None"
    and c: "resolve_control g s f = Inr control" and len: "length required = length (rf_activations control)"
    and facts: "facts = control\<lparr>rf_required_targets := required, rf_unavailable_graph_outputs := unavailable,
       rf_completion_route := rf_completion_route facts\<rparr>"
    and route: "rf_activations control = [] \<and> rf_remaining_join_progress control = [] \<longrightarrow>
       completion_route g s = Inr (rf_completion_route facts)"
    by (rule resolve_routing_facts_ok [OF fa])
  have same: "rf_remaining_join_progress facts = rf_remaining_join_progress control"
    "rf_consumed_join_progress facts = rf_consumed_join_progress control" "rf_required_targets facts = required"
    by (subst facts, simp)+
  have p: "required = []" "rf_remaining_join_progress control = []" "js = rf_consumed_join_progress control"
    "route = rf_completion_route facts"
    using pr same by (auto simp: project_routing_facts_def Let_def split: if_splits)
  have a: "rf_activations control = []" using len p(1) by simp
  have fin: "gr_status t = COMPLETED" "gr_settled_publications t = gr_settled_publications s"
    by (rule reduce_SomeD [OF t]; auto simp: complete_ok)+
  have "settled_activation_admission_error g s = Inr None"
    using ev by (cases "settled_activation_admission_error g s") (auto simp: routing_evaluation_def run split: if_splits)
  then have "settled_activation_admission_error g t = Inr None"
    using fin(2) by (simp add: settled_activation_admission_error_def settled_references_def)
  then have "routing_evaluation g t = Inr (empty_facts\<lparr>rf_admission_error := None\<rparr>)" using fin(1) by (simp add: routing_evaluation_def)
  then show ?thesis using ev c a p route fin(1) by (simp add: transition_admission_error_def empty_facts_def)
qed

theorem routed_completion_admitted_witness:
  "\<exists>t. transition_admission_error sample_graph (Some sample_end_state) (CompleteGraphFrontier 12 [] None) t = Inr None"
proof -
  have r: "gr_status sample_end_state = RUNNING" by code_simp
  have "reduce_graph_run (Some sample_end_state) (CompleteGraphFrontier 12 [] None) = Inr (completed_state sample_end_state None)"
    by code_simp
  from routed_completion_admitted [OF r sample_complete this] show ?thesis by blast
qed

text \<open>
  C39. The publication partition of the frame index is a partial map. A sequence of
  publications is admitted exactly when their coordinates are pairwise distinct and new; the
  resulting index keeps its order, and a lookup returns the frame published at that coordinate,
  or the earlier one, and nothing else.
\<close>

theorem frame_index_refines_map:
  assumes w: "wf_index ix"
  shows "((\<exists>t. foldE add_publication ix rs = Inr t) \<longleftrightarrow>
      distinct (map fst rs) \<and> (\<forall>c\<in>set (map fst rs). \<not> has_record (fi_publications ix) c)) \<and>
    (\<forall>t. foldE add_publication ix rs = Inr t \<longrightarrow> wf_index t \<and> (\<forall>c f. lookup_record publication_repr (fi_publications t) c = Inr f \<longleftrightarrow>
      map_of rs c = Some f \<or> map_of rs c = None \<and> lookup_record publication_repr (fi_publications ix) c = Inr f))"
proof -
  have ok: "distinct (map fst rs) \<and> (\<forall>c\<in>set (map fst rs). \<not> has_record (fi_publications ix) c) \<and> wf_index t \<and>
      map_of (fi_publications t) = map_of (fi_publications ix) ++ map_of rs"
    if "foldE add_publication ix rs = Inr t" for t
    using publications.add_all [OF w that] by blast
  have "\<exists>t. foldE add_publication ix rs = Inr t"
    if "distinct (map fst rs)" "\<forall>c\<in>set (map fst rs). \<not> has_record (fi_publications ix) c"
    using publications.add_all_total [OF w] that by blast
  with ok show ?thesis by (auto simp: lookup_record_map_of map_add_Some_iff)
qed

definition sample_coordinate :: "int \<Rightarrow> string \<Rightarrow> activation_coordinate" where
  "sample_coordinate k n = ActivationCoordinate (StableActivation (ScopeRunCoordinate [] ''run'') k n)
     (FrameDescriptorIdentity ''graph'' 1 NODE_OUTPUT 0)"

theorem frame_index_refines_map_witness: "wf_index sample_frames \<and>
    (\<exists>t. foldE add_publication sample_frames [(sample_coordinate 1 ''b'', ()), (sample_coordinate 0 ''a'', ())] = Inr t)"
proof -
  have w: "wf_index sample_frames" by (simp add: wf_index_def sample_frames_def sorted_partition_def)
  have "distinct (map fst [(sample_coordinate 1 ''b'', ()), (sample_coordinate 0 ''a'', ())])" by (simp add: sample_coordinate_def)
  moreover have "\<not> has_record (fi_publications sample_frames) c" for c by (simp add: has_record_def sample_frames_def)
  ultimately show ?thesis using w frame_index_refines_map [OF w, of "[(sample_coordinate 1 ''b'', ()), (sample_coordinate 0 ''a'', ())]"]
    by blast
qed

end
