(* ===== verification/Agent_Session.thy ===== *)
theory Agent_Session
  imports Config_Snapshot
begin

text \<open>
  \<open>mote_kernel/session.py\<close>: the caller's session snapshot, its admission, and its durable
  envelope.

  \<^item> Hook state and context have arbitrary types \<open>'h\<close> and \<open>'c\<close>; the caller's encoder and decoder
    are functions that return a value or raise. \<open>sc_equal\<close> is Python's \<open>==\<close> on pairs of their
    values, which may identify different values or raise.
  \<^item> \<open>config_env\<close> collects what \<open>require_config\<close> depends on: the hash and the slice class.
  \<^item> The carrier classes of the source only erase the type parameters; the one concrete class is
    \<open>AgentSession\<close>.
\<close>

section \<open>Admission of a Config and caught errors\<close>

record 'p config_env =
  ce_sha256 :: "py_bytes \<Rightarrow> string"
  ce_slice :: "'p slice_class"

definition env_require_config :: "('p, 'z) config_env_scheme \<Rightarrow> 'p config \<Rightarrow> 'p config res" where
  "env_require_config E c = require_config (ce_sha256 E) (ce_slice E) c"

definition except_config_error :: "'a res \<Rightarrow> kernel_error \<Rightarrow> 'a res" where
  "except_config_error m e = catchE m (\<lambda>x. case x of ConfigContractError _ \<Rightarrow> Inl e | _ \<Rightarrow> Inl x)"

text \<open>\<open>except (AttributeError, TypeError, ValueError)\<close>: the contract errors are \<open>ValueError\<close>s.\<close>

fun is_value_error :: "kernel_error \<Rightarrow> bool" where
  "is_value_error (ValueError _) = True"
| "is_value_error (TypeError _) = True"
| "is_value_error (ConfigContractError _) = True"
| "is_value_error (AgentSessionContractError _) = True"
| "is_value_error (GraphStateTransitionError _) = True"
| "is_value_error (ResourceTransitionError _) = True"
| "is_value_error (FailoverContractError _) = True"
| "is_value_error _ = False"

definition except_value_error :: "'a res \<Rightarrow> kernel_error \<Rightarrow> 'a res" where
  "except_value_error m e = catchE m (\<lambda>x. if is_value_error x then Inl e else Inl x)"

definition except_any :: "'a res \<Rightarrow> kernel_error \<Rightarrow> 'a res" where
  "except_any m e = catchE m (\<lambda>_. Inl e)"

lemma except_config_error_ok [resE]: "except_config_error m e = Inr x \<longleftrightarrow> m = Inr x"
  by (cases m) (auto simp: except_config_error_def catchE_def split: kernel_error.splits)

lemma except_value_error_ok [resE]: "except_value_error m e = Inr x \<longleftrightarrow> m = Inr x"
  by (cases m) (auto simp: except_value_error_def catchE_def)

lemma except_any_ok [resE]: "except_any m e = Inr x \<longleftrightarrow> m = Inr x"
  by (cases m) (auto simp: except_any_def catchE_def)

section \<open>Sessions\<close>

record ('h, 'c, 'p) agent_session =
  as_hook_state :: 'h
  as_context :: 'c
  as_config :: "'p config option"

definition mk_AgentSession ::
  "('p, 'z) config_env_scheme \<Rightarrow> 'h \<Rightarrow> 'c \<Rightarrow> 'p config option \<Rightarrow> ('h, 'c, 'p) agent_session res" where
  "mk_AgentSession E h c config =
     (let session = \<lparr>as_hook_state = h, as_context = c, as_config = config\<rparr> in
      case config of
        None \<Rightarrow> Inr session
      | Some k \<Rightarrow>
          bindE (except_config_error (env_require_config E k) (AgentSessionContractError ''AgentSession.config is malformed'')) (\<lambda>_.
          Inr session))"

definition agent_session_admit ::
  "('p, 'z) config_env_scheme \<Rightarrow> ('h, 'c, 'p) agent_session \<Rightarrow> ('h, 'c, 'p) agent_session res" where
  "agent_session_admit E s =
     except_value_error (mk_AgentSession E (as_hook_state s) (as_context s) (as_config s))
       (AgentSessionContractError ''AgentSession is malformed'')"

definition admit_session_carrier ::
  "('p, 'z) config_env_scheme \<Rightarrow> ('h, 'c, 'p) agent_session \<Rightarrow> ('h, 'c, 'p) agent_session res" where
  "admit_session_carrier E s = mk_AgentSession E (as_hook_state s) (as_context s) (as_config s)"

definition session_config_cursor :: "('h, 'c, 'p) agent_session \<Rightarrow> config_cursor option res" where
  "session_config_cursor s =
     (case as_config s of None \<Rightarrow> Inr None | Some c \<Rightarrow> bindE (config_cursor_of_config c) (\<lambda>k. Inr (Some k)))"

section \<open>The durable envelope\<close>

record encoded_session =
  es_codec_id :: string
  es_codec_version :: int
  es_payload :: py_bytes
  es_config_cursor :: "config_cursor option"

definition mk_EncodedAgentSession :: "string \<Rightarrow> int \<Rightarrow> py_bytes \<Rightarrow> config_cursor option \<Rightarrow> encoded_session res" where
  "mk_EncodedAgentSession i v payload cursor =
     (let encoded = \<lparr>es_codec_id = i, es_codec_version = v, es_payload = payload, es_config_cursor = cursor\<rparr> in
      if \<not> is_canonical_identity i
      then Inl (AgentSessionContractError ''durable AgentSession codec identity must be canonical'')
      else if v < 1 then Inl (AgentSessionContractError ''durable AgentSession codec version must be positive'')
      else (case cursor of
          None \<Rightarrow> Inr encoded
        | Some k \<Rightarrow>
            bindE (except_value_error (admit_cursor k)
              (AgentSessionContractError ''durable AgentSession Config cursor is malformed'')) (\<lambda>k'.
            if cc_digest k' = None
            then Inl (AgentSessionContractError ''durable AgentSession Config cursor requires a digest'')
            else Inr encoded)))"

definition encoded_session_admit :: "encoded_session \<Rightarrow> encoded_session res" where
  "encoded_session_admit e =
     except_value_error (mk_EncodedAgentSession (es_codec_id e) (es_codec_version e) (es_payload e) (es_config_cursor e))
       (AgentSessionContractError ''durable AgentSession envelope is malformed'')"

record ('h, 'c) session_codec =
  sc_codec_id :: string
  sc_version :: int
  sc_encoder :: "'h \<Rightarrow> 'c \<Rightarrow> py_bytes res"
  sc_decoder :: "py_bytes \<Rightarrow> ('h \<times> 'c) res"
  sc_equal :: "'h \<times> 'c \<Rightarrow> 'h \<times> 'c \<Rightarrow> bool res"

definition session_codec_post_init :: "('h, 'c) session_codec \<Rightarrow> unit res" where
  "session_codec_post_init K =
     (if \<not> is_canonical_identity (sc_codec_id K)
      then Inl (AgentSessionContractError ''AgentSession codec identity must be canonical'')
      else if sc_version K < 1 then Inl (AgentSessionContractError ''AgentSession codec version must be positive'')
      else Inr ())"

definition encode_raw :: "('h, 'c) session_codec \<Rightarrow> ('h, 'c, 'p) agent_session \<Rightarrow> encoded_session res" where
  "encode_raw K s =
     bindE (except_any (sc_encoder K (as_hook_state s) (as_context s))
       (AgentSessionContractError ''AgentSession encoder rejected the snapshot'')) (\<lambda>payload.
     bindE (session_config_cursor s) (\<lambda>cursor.
     mk_EncodedAgentSession (sc_codec_id K) (sc_version K) payload cursor))"

definition decode_raw :: "('h, 'c) session_codec \<Rightarrow> py_bytes \<Rightarrow> ('h \<times> 'c) res" where
  "decode_raw K payload =
     except_any (sc_decoder K payload) (AgentSessionContractError ''AgentSession decoder rejected the durable payload'')"

definition session_encode ::
  "('p, 'z) config_env_scheme \<Rightarrow> ('h, 'c) session_codec \<Rightarrow> ('h, 'c, 'p) agent_session \<Rightarrow> encoded_session res" where
  "session_encode E K s =
     bindE (agent_session_admit E s) (\<lambda>a.
     bindE (encode_raw K a) (\<lambda>encoded.
     bindE (decode_raw K (es_payload encoded)) (\<lambda>decoded.
     bindE (except_any (sc_equal K decoded (as_hook_state a, as_context a))
       (AgentSessionContractError ''AgentSession codec could not compare its canonical values'')) (\<lambda>equivalent.
     if \<not> equivalent
     then Inl (AgentSessionContractError ''AgentSession codec is not reversible'')
     else bindE (mk_AgentSession E (fst decoded) (snd decoded) (as_config a)) (\<lambda>again.
       bindE (encode_raw K again) (\<lambda>canonical.
       if canonical \<noteq> encoded
       then Inl (AgentSessionContractError ''AgentSession codec must have a deterministic canonical round trip'')
       else Inr encoded))))))"

definition encode_session_carrier ::
  "('p, 'z) config_env_scheme \<Rightarrow> ('h, 'c) session_codec \<Rightarrow> ('h, 'c, 'p) agent_session \<Rightarrow> encoded_session res" where
  "encode_session_carrier E K s =
     bindE (session_codec_post_init K) (\<lambda>_.
     bindE (admit_session_carrier E s) (\<lambda>_. session_encode E K s))"

definition session_decode ::
  "('p, 'z) config_env_scheme \<Rightarrow> ('h, 'c) session_codec \<Rightarrow> encoded_session \<Rightarrow> 'p config option \<Rightarrow>
     ('h, 'c, 'p) agent_session res" where
  "session_decode E K encoded config =
     bindE (encoded_session_admit encoded) (\<lambda>e.
     if (es_codec_id e, es_codec_version e) \<noteq> (sc_codec_id K, sc_version K)
     then Inl (AgentSessionContractError ''AgentSession codec identity/version does not match the durable snapshot'')
     else bindE (case config of
         None \<Rightarrow> Inr ()
       | Some c \<Rightarrow> bindE (except_config_error (env_require_config E c)
           (AgentSessionContractError ''resolved AgentSession Config is malformed'')) (\<lambda>_. Inr ())) (\<lambda>_.
       bindE (case config of None \<Rightarrow> Inr None | Some c \<Rightarrow> bindE (config_cursor_of_config c) (\<lambda>k. Inr (Some k))) (\<lambda>cursor.
       if es_config_cursor e \<noteq> cursor
       then Inl (AgentSessionContractError ''durable AgentSession Config cursor does not match resolved Config'')
       else bindE (decode_raw K (es_payload e)) (\<lambda>decoded.
         bindE (mk_AgentSession E (fst decoded) (snd decoded) config) (\<lambda>session.
         bindE (encode_raw K session) (\<lambda>again.
         if again \<noteq> e
         then Inl (AgentSessionContractError ''AgentSession codec must have a deterministic canonical round trip'')
         else Inr session))))))"

section \<open>What the checks accept\<close>

definition wf_session_config :: "('p, 'z) config_env_scheme \<Rightarrow> 'p config option \<Rightarrow> bool" where
  "wf_session_config E config \<longleftrightarrow> (\<forall>c. config = Some c \<longrightarrow> env_require_config E c = Inr c)"

lemma env_require_config_id: "env_require_config E c = Inr d \<Longrightarrow> d = c"
  by (auto simp: env_require_config_def require_config_def bindE_eq_Inr)

lemma mk_AgentSession_ok [resE]:
  "mk_AgentSession E h c config = Inr s \<longleftrightarrow>
     wf_session_config E config \<and> s = \<lparr>as_hook_state = h, as_context = c, as_config = config\<rparr>"
proof (cases config)
  case (Some k)
  show ?thesis
    by (auto simp: mk_AgentSession_def wf_session_config_def Some Let_def bindE_eq_Inr except_config_error_ok
        dest: env_require_config_id)
qed (auto simp: mk_AgentSession_def wf_session_config_def)

lemma admit_session_carrier_ok [resE]: "admit_session_carrier E s = Inr t \<longleftrightarrow> wf_session_config E (as_config s) \<and> t = s"
  by (auto simp: admit_session_carrier_def mk_AgentSession_ok)

lemma agent_session_admit_ok [resE]: "agent_session_admit E s = Inr t \<longleftrightarrow> wf_session_config E (as_config s) \<and> t = s"
  by (auto simp: agent_session_admit_def except_value_error_ok mk_AgentSession_ok)

lemma encoded_session_admit_ok:
  assumes "mk_EncodedAgentSession i v payload cursor = Inr e"
  shows "encoded_session_admit e = Inr e"
  using assms by (auto simp: encoded_session_admit_def except_value_error_ok mk_EncodedAgentSession_def Let_def split: if_splits option.splits)
    (auto simp: bindE_eq_Inr except_value_error_ok split: if_splits)

lemma encode_raw_admitted:
  assumes "encode_raw K s = Inr e"
  shows "encoded_session_admit e = Inr e" "es_codec_id e = sc_codec_id K" "es_codec_version e = sc_version K"
    "session_config_cursor s = Inr (es_config_cursor e)"
proof -
  from assms obtain payload cursor where c: "session_config_cursor s = Inr cursor"
    and m: "mk_EncodedAgentSession (sc_codec_id K) (sc_version K) payload cursor = Inr e"
    by (auto simp: encode_raw_def bindE_eq_Inr)
  show "encoded_session_admit e = Inr e" by (rule encoded_session_admit_ok [OF m])
  have "e = \<lparr>es_codec_id = sc_codec_id K, es_codec_version = sc_version K, es_payload = payload, es_config_cursor = cursor\<rparr>"
    using m by (auto simp: mk_EncodedAgentSession_def Let_def bindE_eq_Inr split: if_splits option.splits)
  then show "es_codec_id e = sc_codec_id K" "es_codec_version e = sc_version K" "session_config_cursor s = Inr (es_config_cursor e)"
    using c by simp_all
qed

lemma session_encode_iff:
  "session_encode E K s = Inr e \<longleftrightarrow> wf_session_config E (as_config s) \<and> encode_raw K s = Inr e \<and>
     (\<exists>h c. decode_raw K (es_payload e) = Inr (h, c) \<and> sc_equal K (h, c) (as_hook_state s, as_context s) = Inr True \<and>
        encode_raw K \<lparr>as_hook_state = h, as_context = c, as_config = as_config s\<rparr> = Inr e)"
  by (cases s) (auto simp: session_encode_def bindE_eq_Inr agent_session_admit_ok mk_AgentSession_ok except_any_ok split: if_splits)

lemma session_decode_iff:
  "session_decode E K e config = Inr s \<longleftrightarrow> wf_session_config E config \<and> encode_raw K s = Inr e \<and>
     decode_raw K (es_payload e) = Inr (as_hook_state s, as_context s) \<and> as_config s = config"
  (is "?L \<longleftrightarrow> ?R")
proof
  assume ?L
  then obtain e' decoded session where e: "encoded_session_admit e = Inr e'" and d: "decode_raw K (es_payload e') = Inr decoded"
    and m: "mk_AgentSession E (fst decoded) (snd decoded) config = Inr session" and a: "encode_raw K session = Inr e'" "s = session"
    by (auto simp: session_decode_def bindE_eq_Inr split: if_splits)
  have "e' = e" using e by (auto simp: encoded_session_admit_def except_value_error_ok mk_EncodedAgentSession_def Let_def bindE_eq_Inr
      split: if_splits option.splits)
  with d m a show ?R by (auto simp: mk_AgentSession_ok)
next
  assume R: ?R
  note a = encode_raw_admitted [OF conjunct1 [OF conjunct2 [OF R]]]
  have "s = \<lparr>as_hook_state = as_hook_state s, as_context = as_context s, as_config = config\<rparr>" using R by simp
  then have m: "mk_AgentSession E (as_hook_state s) (as_context s) config = Inr s" using R by (simp add: mk_AgentSession_ok)
  have c: "(case config of None \<Rightarrow> Inr None | Some c \<Rightarrow> bindE (config_cursor_of_config c) (\<lambda>k. Inr (Some k))) = Inr (es_config_cursor e)"
    using a(4) R by (simp add: session_config_cursor_def)
  have q: "(case config of None \<Rightarrow> Inr ()
       | Some c \<Rightarrow> bindE (except_config_error (env_require_config E c)
           (AgentSessionContractError ''resolved AgentSession Config is malformed'')) (\<lambda>_. Inr ())) = Inr ()"
    using R by (cases config) (simp_all add: wf_session_config_def except_config_error_def catchE_def)
  show ?L unfolding session_decode_def using a(1-3) c q m R by simp
qed

end
