(* ===== verification/Graph_Values.thy ===== *)
theory Graph_Values
  imports Agent_Session Graph_Plan
begin

text \<open>
  \<open>mote_kernel/execution/graph/values.py\<close>, \<open>outcome.py\<close>, \<open>codec.py\<close> and the two
  normalisations of \<open>ports.py\<close> they use: graph values, the sealed frames, their admission against
  compiled declarations, node outcomes and frame codecs.

  \<^item> Values have an arbitrary type \<open>'v\<close>. \<open>ve_class_of\<close> gives the name of a value's class, and
    \<open>ve_concrete\<close> says whether a class is one concrete nominal class (not \<open>object\<close>, a protocol, an
    abstract class or a mutable container): Python introspection.
  \<^item> The four frame classes share one record; \<open>fr_session\<close> is \<open>None\<close> in those without a session.
  \<^item> The seals of the source restrict who may call the constructors and are not values of the model.
\<close>

record ('v, 'p) value_env = "'p config_env" +
  ve_class_of :: "'v \<Rightarrow> string"
  ve_concrete :: "string \<Rightarrow> bool"

record ('v, 'h, 'c, 'p) graph_values =
  gv_entries :: "(string \<times> 'v) list"
  gv_config :: "'p config option"
  gv_session :: "('h, 'c, 'p) agent_session option"

record ('v, 'h, 'c, 'p) frame =
  fr_entries :: "(string \<times> 'v) list"
  fr_config :: "'p config option"
  fr_session :: "('h, 'c, 'p) agent_session option"

section \<open>Names and nominal types\<close>

definition canonical_port_name :: "string \<Rightarrow> string \<Rightarrow> string res" where
  "canonical_port_name name kind =
     (if is_canonical_identity name then Inr name
      else Inl (GraphValidationError (kind @ '' name must be a non-empty trimmed string'')))"

definition canonical_nominal_type :: "('v, 'p) value_env \<Rightarrow> string \<Rightarrow> string res" where
  "canonical_nominal_type E d =
     (if ve_concrete E d then Inr d else Inl (GraphValidationError ''port type must be one concrete nominal class''))"

section \<open>Config and session metadata\<close>

definition admit_activation_config :: "('p, 'z) config_env_scheme \<Rightarrow> 'p config option \<Rightarrow> string \<Rightarrow> 'p config option res" where
  "admit_activation_config E config error_message =
     (case config of
        None \<Rightarrow> Inr None
      | Some c \<Rightarrow> bindE (except_config_error (env_require_config E c) (GraphValueAdmissionError error_message)) (\<lambda>_. Inr (Some c)))"

definition merge_activation_config ::
  "('p, 'z) config_env_scheme \<Rightarrow> 'p config option \<Rightarrow> 'p config option \<Rightarrow> string \<Rightarrow> string \<Rightarrow> 'p config option res" where
  "merge_activation_config E inherited supplied malformed_message conflict_message =
     (if supplied = None then Inr inherited
      else bindE (admit_activation_config E supplied malformed_message) (\<lambda>a.
        if inherited \<noteq> None \<and> inherited \<noteq> a then Inl (GraphValueAdmissionError conflict_message) else Inr a))"

definition admit_session ::
  "('p, 'z) config_env_scheme \<Rightarrow> ('h, 'c, 'p) agent_session option \<Rightarrow> string \<Rightarrow> ('h, 'c, 'p) agent_session option res" where
  "admit_session E session error_message =
     (case session of
        None \<Rightarrow> Inr None
      | Some s \<Rightarrow> bindE (except_value_error (admit_session_carrier E s) (GraphValueAdmissionError error_message)) (\<lambda>a. Inr (Some a)))"

definition session_config :: "('h, 'c, 'p) agent_session option \<Rightarrow> 'p config option" where
  "session_config session = (case session of None \<Rightarrow> None | Some s \<Rightarrow> as_config s)"

definition require_session_config ::
  "'p config option \<Rightarrow> ('h, 'c, 'p) agent_session option \<Rightarrow> string \<Rightarrow> 'p config option res" where
  "require_session_config config session conflict_message =
     (let sc = session_config session in
      if config \<noteq> None \<and> sc \<noteq> None \<and> config \<noteq> sc then Inl (GraphValueAdmissionError conflict_message)
      else Inr (if config \<noteq> None then config else sc))"

definition merge_session ::
  "('p, 'z) config_env_scheme \<Rightarrow> ('h, 'c, 'p) agent_session option \<Rightarrow> ('h, 'c, 'p) agent_session option \<Rightarrow>
     string \<Rightarrow> string \<Rightarrow> ('h, 'c, 'p) agent_session option res" where
  "merge_session E inherited supplied malformed_message conflict_message =
     (if supplied = None then admit_session E inherited malformed_message
      else bindE (admit_session E supplied malformed_message) (\<lambda>a.
        if inherited = None then Inr a
        else bindE (admit_session E inherited malformed_message) (\<lambda>i.
          if i \<noteq> a then Inl (GraphValueAdmissionError conflict_message) else Inr a)))"

section \<open>Graph values\<close>

definition mk_GraphValues ::
  "('p, 'z) config_env_scheme \<Rightarrow> (string \<times> 'v) list \<Rightarrow> 'p config option \<Rightarrow> ('h, 'c, 'p) agent_session option \<Rightarrow>
     ('v, 'h, 'c, 'p) graph_values res" where
  "mk_GraphValues E entries config session =
     bindE (admit_activation_config E config ''graph values carry a malformed activation Config'') (\<lambda>_.
     bindE (admit_session E session ''graph values carry a malformed AgentSession'') (\<lambda>_.
     bindE (require_session_config config session ''graph values activation Config disagrees with AgentSession'') (\<lambda>_.
     Inr \<lparr>gv_entries = entries, gv_config = config, gv_session = session\<rparr>)))"

definition gv_get :: "('v, 'h, 'c, 'p) graph_values \<Rightarrow> string \<Rightarrow> 'v res" where
  "gv_get values name =
     bindE (canonical_port_name name ''value'') (\<lambda>n.
     case map_of (gv_entries values) n of Some v \<Rightarrow> Inr v | None \<Rightarrow> Inl (KeyError n))"

definition require_graph_values ::
  "('p, 'z) config_env_scheme \<Rightarrow> ('v, 'h, 'c, 'p) graph_values \<Rightarrow> ('v, 'h, 'c, 'p) graph_values res" where
  "require_graph_values E values =
     (let names = map fst (gv_entries values) in
      if (\<exists>n\<in>set names. \<not> is_canonical_identity n) \<or> names \<noteq> sorted_set names
      then Inl (GraphValueAdmissionError ''graph values contain malformed canonical names'')
      else bindE (admit_activation_config E (gv_config values) ''graph values carry a malformed activation Config'') (\<lambda>_.
        bindE (admit_session E (gv_session values) ''graph values carry a malformed AgentSession'') (\<lambda>_. Inr values)))"

definition entries_of :: "('p, 'z) config_env_scheme \<Rightarrow> ('v, 'h, 'c, 'p) graph_values \<Rightarrow> (string \<times> 'v) list res" where
  "entries_of E values = bindE (require_graph_values E values) (\<lambda>v. Inr (gv_entries v))"

definition normalize_mapping :: "(string \<times> 'v) list \<Rightarrow> (string \<times> 'v) list res" where
  "normalize_mapping values = mapE (\<lambda>(n, v). bindE (canonical_port_name n ''value'') (\<lambda>m. Inr (m, v))) (sort_key fst values)"

definition make_graph_values ::
  "('p, 'z) config_env_scheme \<Rightarrow> (string \<times> 'v) list \<Rightarrow> ('v, 'h, 'c, 'p) graph_values res" where
  "make_graph_values E values = bindE (normalize_mapping values) (\<lambda>entries. mk_GraphValues E entries None None)"

definition make_single_graph_value ::
  "('p, 'z) config_env_scheme \<Rightarrow> string \<Rightarrow> 'v \<Rightarrow> 'p config option \<Rightarrow> ('h, 'c, 'p) agent_session option \<Rightarrow>
     ('v, 'h, 'c, 'p) graph_values res" where
  "make_single_graph_value E name v config session =
     bindE (canonical_port_name name ''value'') (\<lambda>n.
     bindE (admit_activation_config E config ''graph value activation Config is malformed'') (\<lambda>k.
     bindE (admit_session E session ''graph value AgentSession is malformed'') (\<lambda>s.
     mk_GraphValues E [(n, v)] k s)))"

section \<open>Admission against declarations\<close>

definition admit_exact :: "('v, 'p) value_env \<Rightarrow> 'v \<Rightarrow> string \<Rightarrow> string \<Rightarrow> 'v res" where
  "admit_exact E v descriptor kind =
     bindE (catchE (canonical_nominal_type E descriptor)
       (\<lambda>_. Inl (GraphValueAdmissionError (kind @ '' has a malformed nominal descriptor'')))) (\<lambda>_.
     if ve_class_of E v \<noteq> descriptor
     then Inl (GraphValueAdmissionError (kind @ '' does not have its exact declared type''))
     else Inr v)"

definition admit_entries ::
  "('v, 'p) value_env \<Rightarrow> (string \<times> 'v) list \<Rightarrow> (string \<times> string) list \<Rightarrow> string \<Rightarrow> (string \<times> 'v) list res" where
  "admit_entries E entries declarations kind =
     (if map fst entries \<noteq> map fst declarations
      then Inl (GraphValueAdmissionError (kind @ '' names do not match the compiled descriptor: expected '' @
        py_repr_tuple (map fst declarations) @ '', got '' @ py_repr_tuple (map fst entries)))
      else bindE (forE (\<lambda>((n, v), (_, d)). bindE (admit_exact E v d (kind @ '' value for '' @ py_repr n)) (\<lambda>_. Inr ()))
          (zip entries declarations)) (\<lambda>_. Inr entries))"

definition admit_frame ::
  "('v, 'p) value_env \<Rightarrow> ('v, 'h, 'c, 'p) frame \<Rightarrow> (string \<times> string) list \<Rightarrow> string \<Rightarrow> ('v, 'h, 'c, 'p) frame res" where
  "admit_frame E f declarations kind = bindE (admit_entries E (fr_entries f) declarations kind) (\<lambda>_. Inr f)"

definition admit_graph_input_frame ::
  "('v, 'p) value_env \<Rightarrow> ('v, 'h, 'c, 'p) frame \<Rightarrow> (string \<times> string) list \<Rightarrow> ('v, 'h, 'c, 'p) frame res" where
  "admit_graph_input_frame E f declarations = admit_frame E f declarations ''graph input''"

definition admit_node_input_frame ::
  "('v, 'p) value_env \<Rightarrow> ('v, 'h, 'c, 'p) frame \<Rightarrow> (string \<times> string) list \<Rightarrow> ('v, 'h, 'c, 'p) frame res" where
  "admit_node_input_frame E f declarations = admit_frame E f declarations ''node input''"

definition admit_node_output_frame ::
  "('v, 'p) value_env \<Rightarrow> ('v, 'h, 'c, 'p) frame \<Rightarrow> (string \<times> string) list \<Rightarrow> ('v, 'h, 'c, 'p) frame res" where
  "admit_node_output_frame E f declarations = admit_frame E f declarations ''node output''"

definition admit_graph_output_view ::
  "('v, 'p) value_env \<Rightarrow> ('v, 'h, 'c, 'p) frame \<Rightarrow> (string \<times> string) list \<Rightarrow> ('v, 'h, 'c, 'p) frame res" where
  "admit_graph_output_view E f declarations = admit_frame E f declarations ''graph output''"

section \<open>Frames\<close>

definition mk_GraphInputFrame ::
  "('v, 'p) value_env \<Rightarrow> (string \<times> 'v) list \<Rightarrow> 'p config option \<Rightarrow> ('v, 'h, 'c, 'p) frame res" where
  "mk_GraphInputFrame E entries config =
     bindE (admit_activation_config E config ''graph input frame carries a malformed activation Config'') (\<lambda>_.
     Inr \<lparr>fr_entries = entries, fr_config = config, fr_session = None\<rparr>)"

definition mk_NodeInputFrame ::
  "('v, 'p) value_env \<Rightarrow> (string \<times> 'v) list \<Rightarrow> 'p config option \<Rightarrow> ('h, 'c, 'p) agent_session option \<Rightarrow>
     ('v, 'h, 'c, 'p) frame res" where
  "mk_NodeInputFrame E entries config session =
     bindE (admit_activation_config E config ''node input frame carries a malformed activation Config'') (\<lambda>_.
     bindE (admit_session E session ''node input frame carries a malformed AgentSession'') (\<lambda>_.
     bindE (require_session_config config session ''node input frame Config disagrees with AgentSession'') (\<lambda>_.
     Inr \<lparr>fr_entries = entries, fr_config = config, fr_session = session\<rparr>)))"

definition mk_NodeOutputFrame ::
  "('v, 'p) value_env \<Rightarrow> (string \<times> 'v) list \<Rightarrow> 'p config option \<Rightarrow> ('v, 'h, 'c, 'p) frame res" where
  "mk_NodeOutputFrame E entries config =
     bindE (admit_activation_config E config ''node output frame carries a malformed activation Config'') (\<lambda>_.
     Inr \<lparr>fr_entries = entries, fr_config = config, fr_session = None\<rparr>)"

definition mk_GraphOutputView ::
  "('v, 'p) value_env \<Rightarrow> (string \<times> 'v) list \<Rightarrow> 'p config option \<Rightarrow> ('v, 'h, 'c, 'p) frame res" where
  "mk_GraphOutputView E entries config =
     bindE (admit_activation_config E config ''graph output view carries a malformed activation Config'') (\<lambda>_.
     Inr \<lparr>fr_entries = entries, fr_config = config, fr_session = None\<rparr>)"

definition make_graph_input_frame ::
  "('v, 'p) value_env \<Rightarrow> ('v, 'h, 'c, 'p) graph_values \<Rightarrow> (string \<times> string) list \<Rightarrow> 'p config option \<Rightarrow>
     ('h, 'c, 'p) agent_session option \<Rightarrow> ('v, 'h, 'c, 'p) frame res" where
  "make_graph_input_frame E values declarations config session =
     bindE (entries_of E values) (\<lambda>es.
     bindE (admit_entries E es declarations ''graph input'') (\<lambda>entries.
     bindE (merge_activation_config E (gv_config values) config ''graph input activation Config is malformed''
       ''graph input values and activation Config disagree'') (\<lambda>inherited.
     bindE (merge_session E (gv_session values) session ''graph input AgentSession is malformed''
       ''graph input values and AgentSession disagree'') (\<lambda>inherited_session.
     bindE (require_session_config inherited inherited_session ''graph input Config and AgentSession disagree'') (\<lambda>k.
     mk_GraphInputFrame E entries k)))))"

definition graph_input_from_node_input ::
  "('v, 'p) value_env \<Rightarrow> ('v, 'h, 'c, 'p) frame \<Rightarrow> (string \<times> string) list \<Rightarrow> ('v, 'h, 'c, 'p) frame res" where
  "graph_input_from_node_input E f declarations =
     bindE (admit_entries E (fr_entries f) declarations ''nested graph input'') (\<lambda>entries. mk_GraphInputFrame E entries (fr_config f))"

definition replace_graph_input_config ::
  "('v, 'p) value_env \<Rightarrow> ('v, 'h, 'c, 'p) frame \<Rightarrow> 'p config option \<Rightarrow> ('v, 'h, 'c, 'p) frame res" where
  "replace_graph_input_config E f config =
     bindE (admit_activation_config E config ''graph input activation Config is malformed'') (\<lambda>k. mk_GraphInputFrame E (fr_entries f) k)"

definition make_node_input_frame ::
  "('v, 'p) value_env \<Rightarrow> (string \<times> 'v) list \<Rightarrow> (string \<times> string) list \<Rightarrow> 'p config option \<Rightarrow>
     ('h, 'c, 'p) agent_session option \<Rightarrow> ('v, 'h, 'c, 'p) frame res" where
  "make_node_input_frame E entries declarations config session =
     bindE (admit_entries E entries declarations ''node input'') (\<lambda>a.
     bindE (admit_activation_config E config ''node input activation Config is malformed'') (\<lambda>inherited.
     bindE (admit_session E session ''node input AgentSession is malformed'') (\<lambda>s.
     bindE (require_session_config inherited s ''node input Config and AgentSession disagree'') (\<lambda>k.
     mk_NodeInputFrame E a k s))))"

definition make_node_output_frame ::
  "('v, 'p) value_env \<Rightarrow> ('v, 'h, 'c, 'p) graph_values \<Rightarrow> (string \<times> string) list \<Rightarrow> 'p config option \<Rightarrow>
     ('v, 'h, 'c, 'p) frame res" where
  "make_node_output_frame E values declarations config =
     bindE (entries_of E values) (\<lambda>es.
     bindE (admit_entries E es declarations ''node output'') (\<lambda>entries.
     bindE (merge_activation_config E (gv_config values) config ''node output activation Config is malformed''
       ''node output values and activation Config disagree'') (\<lambda>inherited.
     mk_NodeOutputFrame E entries inherited)))"

definition node_output_from_view ::
  "('v, 'p) value_env \<Rightarrow> ('v, 'h, 'c, 'p) frame \<Rightarrow> (string \<times> string) list \<Rightarrow> ('v, 'h, 'c, 'p) frame res" where
  "node_output_from_view E view declarations =
     bindE (admit_entries E (fr_entries view) declarations ''nested node output'') (\<lambda>entries.
     mk_NodeOutputFrame E entries (fr_config view))"

definition make_graph_output_view ::
  "('v, 'p) value_env \<Rightarrow> (string \<times> 'v) list \<Rightarrow> (string \<times> string) list \<Rightarrow> 'p config option \<Rightarrow> ('v, 'h, 'c, 'p) frame res" where
  "make_graph_output_view E entries declarations config =
     bindE (admit_entries E entries declarations ''graph output'') (\<lambda>a.
     bindE (admit_activation_config E config ''graph output activation Config is malformed'') (\<lambda>k.
     mk_GraphOutputView E a k))"

definition public_values ::
  "('p, 'z) config_env_scheme \<Rightarrow> ('v, 'h, 'c, 'p) frame \<Rightarrow> ('h, 'c, 'p) agent_session option \<Rightarrow> ('v, 'h, 'c, 'p) graph_values res" where
  "public_values E f session =
     bindE (admit_session E session ''graph values carry a malformed AgentSession'') (\<lambda>s.
     mk_GraphValues E (fr_entries f) (fr_config f) s)"

definition frame_value :: "('v, 'h, 'c, 'p) frame \<Rightarrow> string \<Rightarrow> 'v res" where
  "frame_value f name =
     (case map_of (fr_entries f) name of
        Some v \<Rightarrow> Inr v
      | None \<Rightarrow> Inl (GraphValueAdmissionError (''compiled frame does not contain value '' @ py_repr name)))"

definition frame_value_typed :: "('v, 'p) value_env \<Rightarrow> ('v, 'h, 'c, 'p) frame \<Rightarrow> string \<Rightarrow> string \<Rightarrow> 'v res" where
  "frame_value_typed E f name descriptor =
     bindE (frame_value f name) (\<lambda>v. admit_exact E v descriptor (''node input value for '' @ py_repr name))"

section \<open>Outcomes\<close>

datatype ('v, 'h, 'c, 'p) graph_outcome =
    GraphSuccessOutcome "('v, 'h, 'c, 'p) graph_values" "string option" "('h, 'c, 'p) agent_session option"
  | GraphFailureOutcome string
  | GraphInterruptOutcome py_bytes

definition success_outcome ::
  "('p, 'z) config_env_scheme \<Rightarrow> ('v, 'h, 'c, 'p) graph_values \<Rightarrow> string option \<Rightarrow> ('h, 'c, 'p) agent_session option \<Rightarrow>
     ('v, 'h, 'c, 'p) graph_outcome res" where
  "success_outcome E output route session =
     (let malformed = NodeExecutionContractError ''success outcome carries a malformed AgentSession'' in
      if (case route of None \<Rightarrow> False | Some r \<Rightarrow> \<not> is_canonical_identity r)
      then Inl (NodeExecutionContractError ''success route must be a non-empty trimmed string'')
      else bindE (case session of None \<Rightarrow> Inr None
          | Some s \<Rightarrow> bindE (except_value_error (admit_session_carrier E s) malformed) (\<lambda>a. Inr (Some a))) (\<lambda>s.
        bindE (require_graph_values E output) (\<lambda>v. Inr (GraphSuccessOutcome v route s))))"

definition failure_outcome :: "string \<Rightarrow> ('v, 'h, 'c, 'p) graph_outcome res" where
  "failure_outcome reason =
     (if \<not> is_canonical_identity reason
      then Inl (NodeExecutionContractError ''failure reason must be a non-empty trimmed string'')
      else Inr (GraphFailureOutcome reason))"

definition interrupt_outcome :: "py_bytes \<Rightarrow> ('v, 'h, 'c, 'p) graph_outcome res" where
  "interrupt_outcome request_payload = Inr (GraphInterruptOutcome request_payload)"

section \<open>Frame codecs\<close>

record ('v, 'h, 'c, 'p) frame_codec =
  fc_codec_id :: string
  fc_version :: int
  fc_encoder :: "('v, 'h, 'c, 'p) graph_values \<Rightarrow> py_bytes res"
  fc_decoder :: "py_bytes \<Rightarrow> ('v, 'h, 'c, 'p) graph_values res"

definition frame_codec_validate :: "('v, 'h, 'c, 'p) frame_codec \<Rightarrow> unit res" where
  "frame_codec_validate K =
     (if \<not> is_canonical_identity (fc_codec_id K)
      then Inl (InvalidGraphIdentityError ''frame codec identity must be canonical'')
      else if fc_version K < 1
      then Inl (InvalidGraphIdentityError ''frame codec version must be an exact positive integer'')
      else Inr ())"

definition frame_codec_encode ::
  "('p, 'z) config_env_scheme \<Rightarrow> ('v, 'h, 'c, 'p) frame_codec \<Rightarrow> ('v, 'h, 'c, 'p) graph_values \<Rightarrow> py_bytes res" where
  "frame_codec_encode E K values =
     bindE (require_graph_values E values) (\<lambda>v.
     except_any (fc_encoder K v) (GraphValueAdmissionError ''frame encoder rejected the value frame''))"

definition frame_codec_decode ::
  "('p, 'z) config_env_scheme \<Rightarrow> ('v, 'h, 'c, 'p) frame_codec \<Rightarrow> py_bytes \<Rightarrow> ('v, 'h, 'c, 'p) graph_values res" where
  "frame_codec_decode E K payload =
     bindE (except_any (fc_decoder K payload) (GraphValueAdmissionError ''frame decoder rejected its opaque payload''))
       (require_graph_values E)"

section \<open>What the checks accept\<close>

text \<open>
  \<open>typed_entries\<close>: exactly the declared names, in order, each with a value of its exact declared
  class. \<open>wf_frame\<close>: the Config metadata of a frame is admissible and agrees with its session.
\<close>

definition typed_entries :: "('v, 'p) value_env \<Rightarrow> (string \<times> string) list \<Rightarrow> (string \<times> 'v) list \<Rightarrow> bool" where
  "typed_entries E declarations entries \<longleftrightarrow>
     list_all2 (\<lambda>(n, d) (m, v). m = n \<and> ve_class_of E v = d \<and> ve_concrete E d) declarations entries"

definition wf_frame :: "('v, 'p) value_env \<Rightarrow> ('v, 'h, 'c, 'p) frame \<Rightarrow> bool" where
  "wf_frame E f \<longleftrightarrow> wf_session_config E (fr_config f) \<and>
     (\<forall>s. fr_session f = Some s \<longrightarrow> wf_session_config E (as_config s) \<and> (as_config s \<noteq> None \<longrightarrow> fr_config f = as_config s))"

lemma admit_activation_config_ok [resE]:
  "admit_activation_config E config m = Inr k \<longleftrightarrow> wf_session_config E config \<and> k = config"
  by (cases config) (auto simp: admit_activation_config_def wf_session_config_def bindE_eq_Inr except_config_error_ok
    dest: env_require_config_id)

lemma admit_session_ok [resE]:
  "admit_session E session m = Inr s \<longleftrightarrow> s = session \<and> (\<forall>x. session = Some x \<longrightarrow> wf_session_config E (as_config x))"
  by (cases session) (auto simp: admit_session_def bindE_eq_Inr except_value_error_ok admit_session_carrier_ok)

lemma admit_exact_ok [resE]: "admit_exact E v d kind = Inr w \<longleftrightarrow> w = v \<and> ve_class_of E v = d \<and> ve_concrete E d"
  by (auto simp: admit_exact_def canonical_nominal_type_def catchE_def)

lemma admit_entries_ok [resE]: "admit_entries E entries ds kind = Inr es \<longleftrightarrow> es = entries \<and> typed_entries E ds entries"
proof (cases "map fst entries = map fst ds")
  case True
  have "(\<forall>x\<in>set (zip entries ds). (case x of ((n, v), (_, d)) \<Rightarrow> bindE (admit_exact E v d (kind @ '' value for '' @ py_repr n)) (\<lambda>_. Inr ())) = Inr ()) \<longleftrightarrow>
      typed_entries E ds entries"
    using True
  proof (induction entries arbitrary: ds)
    case (Cons e es)
    then show ?case by (cases ds) (auto simp: typed_entries_def admit_exact_ok bindE_eq_Inr)
  qed (simp add: typed_entries_def)
  with True show ?thesis by (auto simp: admit_entries_def bindE_eq_Inr forE_eq_Inr)
next
  case False
  then have "\<not> typed_entries E ds entries"
    unfolding typed_entries_def by (auto simp: list_all2_conv_all_nth list_eq_iff_nth_eq split_beta)
  with False show ?thesis by (simp add: admit_entries_def)
qed

lemma make_node_input_frame_ok:
  assumes "make_node_input_frame E entries ds config session = Inr f"
  shows "fr_entries f = entries" "typed_entries E ds entries" "wf_frame E f" "fr_session f = session"
    "config \<noteq> None \<Longrightarrow> fr_config f = config"
  using assms
  by (auto simp: make_node_input_frame_def mk_NodeInputFrame_def require_session_config_def session_config_def wf_frame_def
    bindE_eq_Inr admit_entries_ok admit_activation_config_ok admit_session_ok Let_def split: if_splits option.splits)

lemma mk_plain_frame_ok:
  "mk_GraphInputFrame E es k = Inr f \<Longrightarrow> fr_entries f = es \<and> fr_config f = k \<and> wf_frame E f"
  "mk_NodeOutputFrame E es k = Inr f \<Longrightarrow> fr_entries f = es \<and> fr_config f = k \<and> wf_frame E f"
  "mk_GraphOutputView E es k = Inr f \<Longrightarrow> fr_entries f = es \<and> fr_config f = k \<and> wf_frame E f"
  by (auto simp: mk_GraphInputFrame_def mk_NodeOutputFrame_def mk_GraphOutputView_def wf_frame_def bindE_eq_Inr admit_activation_config_ok)

lemma make_node_output_frame_ok:
  assumes "make_node_output_frame E values ds config = Inr f"
  shows "fr_entries f = gv_entries values" "typed_entries E ds (fr_entries f)" "wf_frame E f" "config \<noteq> None \<Longrightarrow> fr_config f = config"
proof -
  from assms obtain k where e: "entries_of E values = Inr (gv_entries values)" "typed_entries E ds (gv_entries values)"
    and m: "merge_activation_config E (gv_config values) config ''node output activation Config is malformed''
       ''node output values and activation Config disagree'' = Inr k" and f: "mk_NodeOutputFrame E (gv_entries values) k = Inr f"
    by (auto simp: make_node_output_frame_def entries_of_def require_graph_values_def bindE_eq_Inr admit_entries_ok Let_def split: if_splits)
  from mk_plain_frame_ok(2) [OF f] e(2) show "fr_entries f = gv_entries values" "typed_entries E ds (fr_entries f)" "wf_frame E f" by auto
  show "config \<noteq> None \<Longrightarrow> fr_config f = config"
    using m mk_plain_frame_ok(2) [OF f] by (auto simp: merge_activation_config_def bindE_eq_Inr admit_activation_config_ok split: if_splits)
qed

lemma make_graph_output_view_ok:
  assumes "make_graph_output_view E entries ds config = Inr f"
  shows "fr_entries f = entries" "typed_entries E ds entries" "wf_frame E f" "fr_config f = config"
  using assms mk_plain_frame_ok(3) by (auto simp: make_graph_output_view_def bindE_eq_Inr admit_entries_ok admit_activation_config_ok)

end
