(* ===== verification/Engine_Tasks.thy ===== *)
theory Engine_Tasks
  imports Engine_Routing Graph_Values Graph_Reducer
begin

text \<open>
  The deterministic core of the engine around one frontier:
  \<open>mote_kernel/execution/limits.py\<close>, \<open>execution/graph_run.py\<close> and, of \<open>execution/engine\<close>,
  \<open>task.py\<close>, \<open>snapshot_guard.py\<close>, \<open>planner.py\<close>, the resource half of \<open>admission.py\<close>,
  \<open>settlement.py\<close> and \<open>claim_stage.py\<close>, with \<open>_require_committed_claim_state\<close> of \<open>claim.py\<close>.

  The attempt identity of a claim (\<open>uuid4\<close>) is an argument. A dictionary is an association list
  in which a later entry for a key wins.
\<close>

section \<open>Limits and tasks\<close>

record execution_limits =
  el_max_supersteps :: int
  el_max_parallel_tasks :: int

definition mk_ExecutionLimits :: "int \<Rightarrow> int \<Rightarrow> execution_limits res" where
  "mk_ExecutionLimits s p =
     (if s < 1 \<or> p < 1 then Inl (ExecutionLimitError ''execution limits must be exact positive integers'')
      else Inr \<lparr>el_max_supersteps = s, el_max_parallel_tasks = p\<rparr>)"

definition task_identity :: "string \<Rightarrow> int \<Rightarrow> string \<Rightarrow> string" where
  "task_identity run_id superstep node_id =
     py_str_int (int (length run_id)) @ '':'' @ run_id @ '':'' @ py_str_int superstep @ '':'' @
     py_str_int (int (length node_id)) @ '':'' @ node_id"

datatype graph_task =
  GraphTask (gt_task_id: string) (gt_run_id: string) (gt_superstep: int) (gt_node_id: string)

definition task_sort_key :: "graph_task \<Rightarrow> int \<times> string \<times> string" where
  "task_sort_key t = (gt_superstep t, gt_node_id t, gt_task_id t)"

definition frontier_task :: "graph_run_state \<Rightarrow> string \<Rightarrow> graph_task" where
  "frontier_task s n = GraphTask (task_identity (gr_run_id s) (gr_superstep s) n) (gr_run_id s) (gr_superstep s) n"

section \<open>The snapshot guard\<close>

definition require_resume_input_binding :: "compiled_graph \<Rightarrow> graph_run_state \<Rightarrow> unit res" where
  "require_resume_input_binding g s =
     (case (cg_resume_input g, gr_resume_input_codec s) of
        (None, None) \<Rightarrow> Inr ()
      | (Some b, Some c) \<Rightarrow>
          raise_if (codec_id b \<noteq> codec_id c \<or> codec_version b \<noteq> codec_version c)
            (SnapshotMismatchError ''compiled graph resume input codec does not match durable graph state'')
      | _ \<Rightarrow> Inl (SnapshotMismatchError ''compiled graph resume input codec does not match durable graph state''))"

definition dict_same :: "('k \<times> 'v) list \<Rightarrow> ('k \<times> 'v) list \<Rightarrow> bool" where
  "dict_same xs ys \<longleftrightarrow> set (map fst xs) = set (map fst ys) \<and> list_all (\<lambda>k. map_of (rev xs) k = map_of (rev ys) k) (map fst xs)"

definition pending_requirements :: "compiled_graph \<Rightarrow> graph_run_state \<Rightarrow> (string \<times> string list) list res" where
  "pending_requirements g s =
     foldE (\<lambda>acc x.
       if is_pending (fn_settlement x)
       then bindE (fm_get (cg_nodes g) (fn_node_id x)) (\<lambda>d.
         case d of CallableNode rs _ \<Rightarrow> Inr (if rs \<noteq> [] then acc @ [(fn_node_id x, rs)] else acc) | NestedNode \<Rightarrow> Inr acc)
       else Inr acc) [] (gr_frontier s)"

definition require_resources_match :: "compiled_graph \<Rightarrow> graph_run_state \<Rightarrow> unit res" where
  "require_resources_match g s =
     bindE (pending_requirements g s) (\<lambda>required.
     if required = []
     then raise_if (gr_resources s \<noteq> None)
       (InvalidExecutionSnapshotError ''resource-free pending nodes cannot retain acquisitions'')
     else (case gr_resources s of
         None \<Rightarrow> Inl (InvalidExecutionSnapshotError ''active resource participants require the compiled resource snapshot'')
       | Some r \<Rightarrow>
           if map lock_resource_id (snap_resources r) \<noteq> tp_resource_order (cg_transition g)
           then Inl (InvalidExecutionSnapshotError ''active resource participants require the compiled resource snapshot'')
           else raise_unless (dict_same (map (\<lambda>a. (acq_node_id a, acq_required a)) (snap_acquisitions r)) required)
             (InvalidExecutionSnapshotError ''resource acquisitions do not exactly match pending compiled requirements'')))"

definition require_snapshot_matches_graph :: "compiled_graph \<Rightarrow> graph_run_state \<Rightarrow> unit res" where
  "require_snapshot_matches_graph g s =
     bindE (catchE (validate_graph_run_state s)
       (\<lambda>e. case e of GraphStateTransitionError m \<Rightarrow> Inl (InvalidExecutionSnapshotError m) | _ \<Rightarrow> Inl e)) (\<lambda>_.
     if gr_definition_id s \<noteq> cg_definition_id g \<or> gr_definition_version s \<noteq> cg_version g
     then Inl (SnapshotMismatchError ''graph run does not match the compiled graph identity and version'')
     else let unknown = filter (\<lambda>n. \<not> fm_has (cg_nodes g) n) (map fn_node_id (gr_frontier s)) in
     if unknown \<noteq> []
     then Inl (InvalidExecutionSnapshotError (''snapshot frontier contains unknown nodes: '' @ py_repr_tuple unknown))
     else if gr_status s \<noteq> RUNNING
     then bindE (settled_activation_admission_error g s) (\<lambda>e.
       case e of Some m \<Rightarrow> Inl (InvalidExecutionSnapshotError m) | None \<Rightarrow> Inr ())
     else if gr_superstep s = 0 \<and> map fn_node_id (gr_frontier s) \<noteq> tp_entries (cg_transition g)
     then Inl (InvalidExecutionSnapshotError ''initial frontier does not exactly match the compiled graph entries'')
     else bindE (declared_joins g) (\<lambda>declared.
     if \<exists>j\<in>set (gr_join_progress s). occ_join (jp_occurrence j) \<notin> set (map fst declared)
     then Inl (InvalidExecutionSnapshotError ''snapshot references unknown join progress'')
     else bindE (frontier_admission_error g s) (\<lambda>e.
     (case e of
        Some m \<Rightarrow> Inl (InvalidExecutionSnapshotError m)
      | None \<Rightarrow>
          bindE (require_resume_input_binding g s) (\<lambda>_.
          bindE (forE (\<lambda>(n, c). validate_routing_contribution g n c) (routing_contributions (gr_frontier s))) (\<lambda>_.
          if gr_execution s = None then Inr () else require_resources_match g s))))))"

definition require_scoped_snapshot_matches_graph :: "compiled_graph \<Rightarrow> graph_run_state \<Rightarrow> scope_run \<Rightarrow> unit res" where
  "require_scoped_snapshot_matches_graph g s sr =
     bindE (require_snapshot_matches_graph g s) (\<lambda>_.
     if gr_run_id s \<noteq> sr_graph_run_id sr
     then Inl (SnapshotMismatchError ''scope-run coordinate does not match its compiled graph state'')
     else if sr_scope sr = []
     then raise_if (gr_parent s \<noteq> None) (SnapshotMismatchError ''root graph state cannot carry a parent activation'')
     else (case gr_parent s of
         None \<Rightarrow> Inl (SnapshotMismatchError ''nested graph state does not match its runtime scope'')
       | Some p \<Rightarrow> raise_if (act_node_id p \<noteq> last (sr_scope sr))
           (SnapshotMismatchError ''nested graph state does not match its runtime scope'')))"

section \<open>Planning\<close>

definition plan_tasks :: "compiled_graph \<Rightarrow> graph_run_state \<Rightarrow> execution_limits \<Rightarrow> graph_task list res" where
  "plan_tasks g s limits =
     bindE (require_snapshot_matches_graph g s) (\<lambda>_.
     if gr_status s \<noteq> RUNNING then Inr []
     else if gr_superstep s \<ge> el_max_supersteps limits
     then Inl (ExecutionLimitError ''graph run reached its superstep limit'')
     else Inr (map (frontier_task s) (pending_node_ids (gr_frontier s))))"

definition project_start_graph_command ::
  "compiled_graph \<Rightarrow> string \<Rightarrow> graph_activation_identity option \<Rightarrow> config_cursor option \<Rightarrow> graph_run_command res" where
  "project_start_graph_command g run_id parent config_cursor =
     (if (case parent of None \<Rightarrow> False
          | Some p \<Rightarrow> run_id \<noteq> child_graph_run_id (act_run_id p) (act_superstep p) (act_node_id p))
      then Inl (SnapshotMismatchError ''child graph run identity does not match its parent activation'')
      else bindE (mapE (\<lambda>n. mk_GraphFrontierActivation n StartActivationCause) (tp_entries (cg_transition g))) (\<lambda>acts.
        Inr (StartGraphRun \<lparr>sg_run_id = run_id, sg_definition_id = cg_definition_id g, sg_definition_version = cg_version g,
          sg_activations = acts, sg_parent = parent, sg_resume_input_codec = cg_resume_input g,
          sg_config_cursor = config_cursor, sg_graph_input_evidence = None\<rparr>)))"

section \<open>Resource admission\<close>

definition initial_resource_snapshot :: "compiled_graph \<Rightarrow> resource_snapshot" where
  "initial_resource_snapshot g =
     \<lparr>snap_resources = map empty_lock (tp_resource_order (cg_transition g)), snap_acquisitions = []\<rparr>"

record task_admission =
  ta_snapshot :: resource_snapshot
  ta_admitted_node_ids :: "string list"
  ta_waiting_node_ids :: "string list"

definition admit_task_step ::
  "compiled_graph \<Rightarrow> task_admission \<times> (string \<rightharpoonup> resource_acquisition) \<Rightarrow> graph_task \<Rightarrow>
     (task_admission \<times> (string \<rightharpoonup> resource_acquisition)) res" where
  "admit_task_step g st task =
     (case st of (ta, acquisitions) \<Rightarrow>
       let n = gt_node_id task in
       bindE (fm_get (cg_nodes g) n) (\<lambda>d.
       (case d of
          NestedNode \<Rightarrow> Inl (ResourceTransitionError ''admission only accepts executable node tasks'')
        | CallableNode requirements _ \<Rightarrow>
            if requirements = []
            then (if acquisitions n \<noteq> None
                  then Inl (ResourceTransitionError ''resource-free node unexpectedly has an acquisition'') else Inr st)
            else bindE (case acquisitions n of
                None \<Rightarrow>
                  bindE (reduce_resources (ta_snapshot ta) (AcquireResources n requirements)) (\<lambda>proposed.
                  if snap_acquisitions proposed = [] then Inl IndexError
                  else Inr (proposed, last (snap_acquisitions proposed)))
              | Some a \<Rightarrow>
                  if acq_required a \<noteq> requirements
                  then Inl (ResourceTransitionError ''node acquisition does not match compiled requirements'')
                  else Inr (ta_snapshot ta, a)) (\<lambda>(proposed, a).
              let ta' = ta\<lparr>ta_snapshot := proposed\<rparr> in
              Inr (if admitted a then ta'\<lparr>ta_admitted_node_ids := ta_admitted_node_ids ta @ [n]\<rparr>
                   else ta'\<lparr>ta_waiting_node_ids := ta_waiting_node_ids ta @ [n]\<rparr>,
                   acquisitions(n \<mapsto> a))))))"

definition admit_tasks :: "compiled_graph \<Rightarrow> graph_task list \<Rightarrow> resource_snapshot \<Rightarrow> task_admission res" where
  "admit_tasks g tasks snapshot =
     (if map lock_resource_id (snap_resources snapshot) \<noteq> tp_resource_order (cg_transition g)
      then Inl (ResourceTransitionError ''resource snapshot does not match compiled resource order'')
      else if \<not> distinct (map gt_node_id tasks)
      then Inl (ResourceTransitionError ''admission tasks must have unique node identities'')
      else if \<not> set (map gt_node_id tasks) \<subseteq> set (map fst (cg_nodes g))
      then Inl (ResourceTransitionError ''admission task references an unknown graph node'')
      else if \<not> set (map acq_node_id (snap_acquisitions snapshot)) \<subseteq> set (map gt_node_id tasks)
      then Inl (ResourceTransitionError ''resource snapshot contains an acquisition outside planned nodes'')
      else bindE (foldE (admit_task_step g)
          (\<lparr>ta_snapshot = snapshot, ta_admitted_node_ids = [], ta_waiting_node_ids = []\<rparr>, acquisition_of (snap_acquisitions snapshot))
          (sort_key task_sort_key tasks)) (\<lambda>(ta, _). Inr ta))"

definition resource_tasks :: "compiled_graph \<Rightarrow> graph_task list \<Rightarrow> graph_task list res" where
  "resource_tasks g tasks =
     foldE (\<lambda>acc t. bindE (fm_get (cg_nodes g) (gt_node_id t)) (\<lambda>d.
       case d of CallableNode rs _ \<Rightarrow> Inr (if rs \<noteq> [] then acc @ [t] else acc) | NestedNode \<Rightarrow> Inr acc)) [] tasks"

definition claim_resource_snapshot :: "compiled_graph \<Rightarrow> graph_task list \<Rightarrow> resource_snapshot option res" where
  "claim_resource_snapshot g tasks =
     bindE (resource_tasks g tasks) (\<lambda>rts.
     if rts = [] then Inr None
     else bindE (admit_tasks g rts (initial_resource_snapshot g)) (\<lambda>ta.
       if snap_acquisitions (ta_snapshot ta) = []
       then Inl (ResultCollectionError ''resource admission did not create acquisition participants'')
       else Inr (Some (ta_snapshot ta))))"

fun select_loop ::
  "compiled_graph \<Rightarrow> (string \<rightharpoonup> resource_acquisition) \<Rightarrow> int \<Rightarrow> string set \<Rightarrow> graph_task list \<Rightarrow> graph_task list \<Rightarrow> graph_task list res" where
  "select_loop g acquisitions slots started selected [] = Inr selected"
| "select_loop g acquisitions slots started selected (t # ts) =
     (if gt_node_id t \<in> started then select_loop g acquisitions slots started selected ts
      else bindE (fm_get (cg_nodes g) (gt_node_id t)) (\<lambda>d.
        (case d of
           NestedNode \<Rightarrow> select_loop g acquisitions slots started selected ts
         | CallableNode requirements _ \<Rightarrow>
             if requirements \<noteq> [] \<and>
                (case acquisitions (gt_node_id t) of None \<Rightarrow> True | Some a \<Rightarrow> \<not> admitted a \<or> acq_required a \<noteq> requirements)
             then select_loop g acquisitions slots started selected ts
             else let selected' = selected @ [t] in
               if int (length selected') = slots then Inr selected'
               else select_loop g acquisitions slots started selected' ts)))"

definition select_executable_tasks ::
  "compiled_graph \<Rightarrow> graph_task list \<Rightarrow> resource_snapshot option \<Rightarrow> execution_limits \<Rightarrow> int \<Rightarrow> string set \<Rightarrow> graph_task list res" where
  "select_executable_tasks g tasks snapshot limits active_count started =
     (let available_slots = el_max_parallel_tasks limits - active_count in
      if available_slots \<le> 0 then Inr []
      else select_loop g (acquisition_of (case snapshot of None \<Rightarrow> [] | Some r \<Rightarrow> snap_acquisitions r)) available_slots started []
        (sort_key task_sort_key tasks))"

section \<open>Claims\<close>

definition project_claim_command :: "graph_run_state \<Rightarrow> string \<Rightarrow> resource_snapshot option \<Rightarrow> graph_run_command" where
  "project_claim_command s attempt_id resources = ClaimGraphExecution (gr_revision s) attempt_id resources"

definition require_committed_claim_state ::
  "graph_run_command \<Rightarrow> graph_run_state \<Rightarrow> graph_run_state \<Rightarrow> graph_task list \<Rightarrow> unit res" where
  "require_committed_claim_state command s requested tasks =
     (let expected_tasks = map (frontier_task s) (pending_node_ids (gr_frontier s)) in
      bindE (reduce_graph_run (Some requested) command) (\<lambda>expected.
      raise_if (s \<noteq> expected \<or> tasks \<noteq> expected_tasks)
        (ResultCollectionError ''execution claim does not match committed graph state'')))"

section \<open>Settlement\<close>

datatype ('v, 'h, 'c, 'p) task_result =
    TaskSuccess (tr_task: graph_task) (tr_output: "('v, 'h, 'c, 'p) frame") (tr_route: "string option")
      (tr_session: "('h, 'c, 'p) agent_session option")
  | TaskFailure (tr_task: graph_task) (tr_failure: string)
  | TaskInterrupt (tr_task: graph_task) (tr_request_payload: py_bytes)

definition require_settlement_execution_token :: "graph_run_state \<Rightarrow> execution_token res" where
  "require_settlement_execution_token s =
     (case gr_execution s of
        None \<Rightarrow> Inl (ResultCollectionError ''settlement requires a committed execution lease'')
      | Some t \<Rightarrow> Inr t)"

definition routing_of_route :: "string option \<Rightarrow> graph_routing" where
  "routing_of_route route = (case route of None \<Rightarrow> ContinueGraphRouting | Some r \<Rightarrow> SelectGraphRoute r)"

definition project_success_settlement ::
  "compiled_graph \<Rightarrow> graph_run_state \<Rightarrow> string \<Rightarrow> string option \<Rightarrow> config_cursor option \<Rightarrow> settle_graph_node_command res" where
  "project_success_settlement g s n route cursor =
     (let routing = routing_of_route route in
      bindE (validate_routing_contribution g n routing) (\<lambda>_.
      bindE (require_settlement_execution_token s) (\<lambda>tok.
      Inr \<lparr>sn_expected_revision = gr_revision s, sn_execution = tok, sn_outcome = SucceededGraphNodeOutcome n routing,
           sn_config_cursor = cursor, sn_publication_evidence = None\<rparr>)))"

definition project_failure_settlement ::
  "graph_run_state \<Rightarrow> string \<Rightarrow> string \<Rightarrow> config_cursor option \<Rightarrow> settle_graph_node_command res" where
  "project_failure_settlement s n failure cursor =
     bindE (require_settlement_execution_token s) (\<lambda>tok.
     Inr \<lparr>sn_expected_revision = gr_revision s, sn_execution = tok, sn_outcome = FailedGraphNodeOutcome n failure,
          sn_config_cursor = cursor, sn_publication_evidence = None\<rparr>)"

definition project_interrupt_settlement ::
  "compiled_graph \<Rightarrow> graph_run_state \<Rightarrow> string \<Rightarrow> py_bytes \<Rightarrow> settle_graph_node_command res" where
  "project_interrupt_settlement g s n request_payload =
     (if cg_resume_input g = None then Inl (ResultCollectionError ''node interrupt requires a resume input codec'')
      else bindE (require_settlement_execution_token s) (\<lambda>tok.
        Inr \<lparr>sn_expected_revision = gr_revision s, sn_execution = tok,
             sn_outcome = InterruptedGraphNodeOutcome n
               \<lparr>ii_run_id = gr_run_id s, ii_superstep = gr_superstep s, ii_node_id = n, ii_execution_generation = tok_generation tok\<rparr>
               request_payload,
             sn_config_cursor = None, sn_publication_evidence = None\<rparr>))"

definition settle_result ::
  "compiled_graph \<Rightarrow> graph_run_state \<Rightarrow> ('v, 'h, 'c, 'p) task_result \<Rightarrow> settle_graph_node_command res" where
  "settle_result g s result =
     bindE (require_snapshot_matches_graph g s) (\<lambda>_.
     bindE (require_settlement_execution_token s) (\<lambda>_.
     let task = tr_task result in
     if gt_run_id task \<noteq> gr_run_id s \<or> gt_superstep task \<noteq> gr_superstep s \<or>
        gt_task_id task \<noteq> task_identity (gt_run_id task) (gt_superstep task) (gt_node_id task)
     then Inl (ResultCollectionError ''task result has invalid coordinates'')
     else if (case frontier_node (gr_frontier s) (gt_node_id task) of None \<Rightarrow> True | Some x \<Rightarrow> \<not> is_pending (fn_settlement x))
     then Inl (ResultCollectionError ''task result does not reference a pending node'')
     else (case result of
         TaskSuccess _ output route _ \<Rightarrow>
           bindE (case fr_config output of None \<Rightarrow> Inr None
             | Some c \<Rightarrow> bindE (config_cursor_of_config c) (\<lambda>k. Inr (Some k))) (\<lambda>cursor.
           project_success_settlement g s (gt_node_id task) route cursor)
       | TaskFailure _ failure \<Rightarrow> project_failure_settlement s (gt_node_id task) failure None
       | TaskInterrupt _ payload \<Rightarrow> project_interrupt_settlement g s (gt_node_id task) payload)))"

end
