(* ===== verification/Node_Input.thy ===== *)
theory Node_Input
  imports Engine_Tasks
begin

text \<open>
  How values reach a node and leave a graph: \<open>engine/resume_input.py\<close> (materialization of node
  inputs and the resume codec), the value half of \<open>engine/admission.py\<close> (graph inputs and outputs)
  and \<open>engine/resume_admission.py\<close> (preparation of a resume) of \<open>mote_kernel/execution\<close>.

  The graph keeps the identity and version of its resume codec (\<open>cg_resume_input\<close>); the codec's
  encoder and decoder are the argument \<open>K\<close>. \<open>owner\<close> is the optional session of the scoped owner.
\<close>

section \<open>Records of the frame index\<close>

record ('v, 'h, 'c, 'p) frame_record =
  rec_frame :: "('v, 'h, 'c, 'p) frame"
  rec_confirmation :: "(int \<times> execution_token) option"

type_synonym ('v, 'h, 'c, 'p) frames = "('v, 'h, 'c, 'p) frame_record frame_index"

definition lookup_frame :: "('v, 'h, 'c, 'p) frames \<Rightarrow> frame_coordinate \<Rightarrow> ('v, 'h, 'c, 'p) frame res" where
  "lookup_frame frames c =
     bindE (case c of InputCoordinate i \<Rightarrow> lookup_record graph_input_repr (fi_graph_inputs frames) i
       | PublicationCoordinate p \<Rightarrow> lookup_record publication_repr (fi_publications frames) p) (\<lambda>r. Inr (rec_frame r))"

section \<open>Materialization plans and the resume codec\<close>

definition require_node_materialization :: "compiled_graph \<Rightarrow> string \<Rightarrow> materialization_plan res" where
  "require_node_materialization g n =
     (case map_of (tp_materializations (cg_transition g)) n of
        None \<Rightarrow> Inl (SnapshotMismatchError ''node input references an unknown compiled materialization'')
      | Some plan \<Rightarrow> Inr plan)"

definition resume_input_coordinate :: "stable_activation \<Rightarrow> materialization_plan \<Rightarrow> activation_coordinate" where
  "resume_input_coordinate a plan = ActivationCoordinate a (fd_identity (mp_descriptor plan))"

definition has_predecessor_input :: "materialization_plan \<Rightarrow> bool" where
  "has_predecessor_input plan \<longleftrightarrow>
     (\<exists>b\<in>set (mp_bindings plan). case ib_source b of CompiledPredecessorInput _ \<Rightarrow> True | _ \<Rightarrow> False)"

definition encode_resume_input ::
  "('v, 'p) value_env \<Rightarrow> ('v, 'h, 'c, 'p) frame_codec \<Rightarrow> compiled_graph \<Rightarrow> ('v, 'h, 'c, 'p) graph_values \<Rightarrow> py_bytes res" where
  "encode_resume_input E K g values =
     (if cg_resume_input g = None then Inl (SnapshotMismatchError ''graph does not define a resume input codec'')
      else frame_codec_encode E K values)"

definition select_config_step ::
  "('p, 'z) config_env_scheme \<Rightarrow> string \<Rightarrow> 'p config option \<Rightarrow> 'p config option \<Rightarrow> 'p config option res" where
  "select_config_step E conflict_message selected candidate =
     (case candidate of
        None \<Rightarrow> Inr selected
      | Some c \<Rightarrow>
          bindE (except_config_error (env_require_config E c) (GraphValueAdmissionError ''activation Config is malformed'')) (\<lambda>_.
          if selected = None then Inr candidate
          else if selected \<noteq> candidate then Inl (SnapshotMismatchError conflict_message)
          else Inr selected))"

definition select_activation_config ::
  "('p, 'z) config_env_scheme \<Rightarrow> 'p config option list \<Rightarrow> string \<Rightarrow> 'p config option res" where
  "select_activation_config E candidates conflict_message = foldE (select_config_step E conflict_message) None candidates"

definition decode_resume_input ::
  "('v, 'p) value_env \<Rightarrow> ('v, 'h, 'c, 'p) frame_codec \<Rightarrow> compiled_graph \<Rightarrow> string \<Rightarrow> py_bytes \<Rightarrow> 'p config option \<Rightarrow>
     ('h, 'c, 'p) agent_session option \<Rightarrow> ('v, 'h, 'c, 'p) frame res" where
  "decode_resume_input E K g n payload config session =
     (if cg_resume_input g = None
      then Inl (SnapshotMismatchError ''input override is missing its compiled graph decoder'')
      else bindE (frame_codec_decode E K payload) (\<lambda>candidate.
        bindE (require_node_materialization g n) (\<lambda>plan.
        bindE (select_activation_config E [config, gv_config candidate]
          ''resume input and activation cause carry different Config snapshots'') (\<lambda>inherited.
        make_node_input_frame E (gv_entries candidate) (fd_declarations (mp_descriptor plan)) inherited session))))"

section \<open>Config metadata of an activation\<close>

definition is_key_error :: "kernel_error \<Rightarrow> bool" where
  "is_key_error e = (case e of KeyError _ \<Rightarrow> True | TypeError _ \<Rightarrow> True | _ \<Rightarrow> False)"

definition cause_coordinates :: "compiled_graph \<Rightarrow> scope_run \<Rightarrow> frontier_node_record \<Rightarrow> frame_coordinate list res" where
  "cause_coordinates g sr node =
     (case fn_cause node of
        StartActivationCause \<Rightarrow> Inr [InputCoordinate (graph_input_availability_coordinate g sr)]
      | RoutedActivationCause refs _ \<Rightarrow>
          catchE (mapE (\<lambda>r. bindE (publication_availability_coordinate g sr (ref_activation r)) (\<lambda>c. Inr (PublicationCoordinate c))) refs)
            (\<lambda>e. if is_key_error e
                  then Inl (SnapshotMismatchError ''pending activation cause references an unknown publication'') else Inl e))"

definition activation_config_for_cause ::
  "('p, 'z) config_env_scheme \<Rightarrow> compiled_graph \<Rightarrow> scope_run \<Rightarrow> frontier_node_record \<Rightarrow> ('v, 'h, 'c, 'p) frames \<Rightarrow> 'p config option res" where
  "activation_config_for_cause E g sr node frames =
     bindE (cause_coordinates g sr node) (\<lambda>coordinates.
     select_activation_config E
       (concat (map (\<lambda>c. case lookup_frame frames c of Inr f \<Rightarrow> [fr_config f] | Inl _ \<Rightarrow> []) coordinates))
       ''node inputs combine different activation Config snapshots'')"

definition materialization_config ::
  "('p, 'z) config_env_scheme \<Rightarrow> 'p config option list \<Rightarrow> ('h, 'c, 'p) agent_session option \<Rightarrow> 'p config option res" where
  "materialization_config E candidates owner =
     (case owner of
        None \<Rightarrow> select_activation_config E candidates ''node inputs combine different activation Config snapshots''
      | Some s \<Rightarrow>
          bindE (forE (\<lambda>c. if c = None then Inr ()
            else bindE (select_activation_config E [c] ''historical node input Config is malformed'') (\<lambda>_. Inr ())) candidates) (\<lambda>_.
          select_activation_config E [as_config s] ''owner AgentSession Config is malformed''))"

section \<open>Availability\<close>

definition as_snapshot_mismatch :: "'a res \<Rightarrow> 'a res" where
  "as_snapshot_mismatch m = catchE m (\<lambda>e. if is_invalid_routing e then Inl (SnapshotMismatchError (error_text e)) else Inl e)"

fun all_available :: "('b \<Rightarrow> bool res) \<Rightarrow> 'b list \<Rightarrow> bool res" where
  "all_available f [] = Inr True"
| "all_available f (x # xs) = bindE (f x) (\<lambda>ok. if ok then all_available f xs else Inr False)"

definition node_inputs_available ::
  "compiled_graph \<Rightarrow> scope_run \<Rightarrow> int \<Rightarrow> 'f frame_index \<Rightarrow> string \<Rightarrow> graph_run_state option \<Rightarrow> bool res" where
  "node_inputs_available g sr activation_superstep frames n state =
     bindE (require_node_materialization g n) (\<lambda>plan.
     bindE (case state of
         None \<Rightarrow> if has_predecessor_input plan
           then Inl (SnapshotMismatchError ''predecessor input availability requires authoritative graph state'') else Inr None
       | Some s \<Rightarrow>
           if gr_run_id s \<noteq> sr_graph_run_id sr
           then Inl (SnapshotMismatchError ''predecessor input availability scope does not match authoritative state'')
           else if has_predecessor_input plan \<and> activation_superstep \<noteq> gr_superstep s
           then Inl (SnapshotMismatchError ''predecessor input availability coordinate does not match authoritative state'')
           else (case frontier_node (gr_frontier s) n of
               None \<Rightarrow> if has_predecessor_input plan
                 then Inl (SnapshotMismatchError ''predecessor-bound activation is not present in the current frontier'')
                 else Inr None
             | Some x \<Rightarrow> Inr (Some (fn_cause x)))) (\<lambda>cause.
     all_available (\<lambda>b.
       bindE (as_snapshot_mismatch (binding_source_coordinate g state sr activation_superstep b cause)) (\<lambda>(_, c).
       Inr (frame_coordinate_available frames c))) (mp_bindings plan)))"

definition pending_node_input_available ::
  "compiled_graph \<Rightarrow> graph_run_state \<Rightarrow> scope_run \<Rightarrow> 'f frame_index \<Rightarrow> string \<Rightarrow> bool res" where
  "pending_node_input_available g s sr frames n =
     (case frontier_node (gr_frontier s) n of
        None \<Rightarrow> Inl (SnapshotMismatchError ''input availability requires a current pending node'')
      | Some x \<Rightarrow>
          (case fn_settlement x of
             PendingGraphNode binding \<Rightarrow>
               bindE (require_node_materialization g n) (\<lambda>plan.
               (case binding of
                  OverrideGraphNodeInput _ \<Rightarrow>
                    if has_predecessor_input plan
                    then Inl (SnapshotMismatchError ''predecessor-bound activation cannot use an input override'') else Inr True
                | UseStepRequestInput \<Rightarrow>
                    bindE (mk_GraphActivationIdentity (gr_run_id s) (gr_superstep s) n) (\<lambda>a.
                    bindE (stable_activation_of sr a) (\<lambda>sa.
                    if \<not> has_predecessor_input plan \<and> has_record (fi_resume_inputs frames) (resume_input_coordinate sa plan)
                    then Inr True
                    else node_inputs_available g sr (gr_superstep s) frames n (Some s)))))
           | _ \<Rightarrow> Inl (SnapshotMismatchError ''input availability requires a current pending node'')))"

section \<open>Materialization of a node input\<close>

definition source_value_name :: "value_source \<Rightarrow> string" where
  "source_value_name source = (case source of GraphInputPort n \<Rightarrow> n | NodeOutputPort _ n \<Rightarrow> n)"

definition unavailable_label :: "value_source \<Rightarrow> string" where
  "unavailable_label source = (case source of
     GraphInputPort n \<Rightarrow> ''graph input '' @ py_repr n
   | NodeOutputPort m n \<Rightarrow> ''node output '' @ py_repr m @ ''.'' @ py_repr n)"

definition binding_value ::
  "scope_run \<Rightarrow> ('v, 'h, 'c, 'p) frames \<Rightarrow> value_source \<times> frame_coordinate \<times> input_binding \<Rightarrow>
     ((string \<times> 'v) \<times> 'p config option) res" where
  "binding_value sr frames x =
     (case x of (source, c, b) \<Rightarrow>
       bindE (catchE (lookup_frame frames c) (\<lambda>e. if is_snapshot_error e
         then Inl (GraphValueUnavailableError (unavailable_label source @ '' is unavailable at '' @ scope_run_repr sr))
         else Inl e)) (\<lambda>f.
       bindE (frame_value f (source_value_name source)) (\<lambda>v. Inr ((ib_local_name b, v), fr_config f))))"

definition materialize_node_input ::
  "('v, 'p) value_env \<Rightarrow> ('v, 'h, 'c, 'p) frame_codec \<Rightarrow> compiled_graph \<Rightarrow> graph_run_state \<Rightarrow> scope_run \<Rightarrow>
     ('v, 'h, 'c, 'p) frames \<Rightarrow> string \<Rightarrow> ('h, 'c, 'p) agent_session option \<Rightarrow> ('v, 'h, 'c, 'p) frame res" where
  "materialize_node_input E K g s sr frames n owner =
     bindE (require_resume_input_binding g s) (\<lambda>_.
     if gr_run_id s \<noteq> sr_graph_run_id sr
     then Inl (SnapshotMismatchError ''node materialization scope does not match authoritative state'')
     else (case frontier_node (gr_frontier s) n of
         None \<Rightarrow> Inl (SnapshotMismatchError ''effective input requires a current pending node'')
       | Some node \<Rightarrow>
           (case fn_settlement node of
              PendingGraphNode effective_input \<Rightarrow>
                bindE (mk_GraphActivationIdentity (gr_run_id s) (gr_superstep s) n) (\<lambda>a.
                bindE (stable_activation_of sr a) (\<lambda>activation.
                bindE (require_node_materialization g n) (\<lambda>plan.
                let declarations = fd_declarations (mp_descriptor plan) in
                (case effective_input of
                   OverrideGraphNodeInput payload \<Rightarrow>
                     if has_predecessor_input plan
                     then Inl (SnapshotMismatchError ''predecessor-bound activation cannot use an input override'')
                     else bindE (activation_config_for_cause E g sr node frames) (\<lambda>inherited.
                       bindE (materialization_config E [inherited] owner) (\<lambda>k.
                       decode_resume_input E K g n payload k owner))
                 | UseStepRequestInput \<Rightarrow>
                     (case (if has_predecessor_input plan then Inl (SnapshotMismatchError [])
                            else lookup_record resume_input_repr (fi_resume_inputs frames) (resume_input_coordinate activation plan)) of
                        Inr cached \<Rightarrow>
                          bindE (activation_config_for_cause E g sr node frames) (\<lambda>inherited.
                          bindE (materialization_config E [inherited, fr_config (rec_frame cached)] owner) (\<lambda>k.
                          make_node_input_frame E (fr_entries (rec_frame cached)) declarations k owner))
                      | Inl _ \<Rightarrow>
                          bindE (mapE (\<lambda>b.
                            bindE (as_snapshot_mismatch (binding_source_coordinate g (Some s) sr (gr_superstep s) b (Some (fn_cause node))))
                              (\<lambda>(source, c). Inr (source, c, b))) (mp_bindings plan)) (\<lambda>resolved.
                          bindE (mapE (binding_value sr frames) resolved) (\<lambda>values.
                          bindE (activation_config_for_cause E g sr node frames) (\<lambda>inherited.
                          bindE (materialization_config E (inherited # map snd values) owner) (\<lambda>k.
                          make_node_input_frame E (map fst values) declarations k owner)))))))))
            | _ \<Rightarrow> Inl (SnapshotMismatchError ''effective input requires a current pending node''))))"

section \<open>Graph inputs and outputs\<close>

definition admit_graph_input ::
  "('v, 'p) value_env \<Rightarrow> compiled_graph \<Rightarrow> ('v, 'h, 'c, 'p) graph_values \<Rightarrow> 'p config option \<Rightarrow>
     ('h, 'c, 'p) agent_session option \<Rightarrow> ('v, 'h, 'c, 'p) frame res" where
  "admit_graph_input E g values config session =
     bindE (require_graph_values E values) (\<lambda>v.
     make_graph_input_frame E v (fd_declarations (cg_graph_input_descriptor g)) config session)"

definition admit_child_graph_input ::
  "('v, 'p) value_env \<Rightarrow> compiled_graph \<Rightarrow> ('v, 'h, 'c, 'p) frame \<Rightarrow> ('v, 'h, 'c, 'p) frame res" where
  "admit_child_graph_input E g f = graph_input_from_node_input E f (fd_declarations (cg_graph_input_descriptor g))"

definition merge_output_config :: "bool \<Rightarrow> 'p config option \<Rightarrow> 'p config option \<Rightarrow> 'p config option res" where
  "merge_output_config owner_bound config candidate =
     (if \<not> owner_bound \<and> candidate \<noteq> None
      then (if config \<noteq> None \<and> config \<noteq> candidate
            then Inl (GraphValueAdmissionError ''graph output sources carry different activation Config snapshots'')
            else Inr candidate)
      else Inr config)"

definition output_step ::
  "compiled_graph \<Rightarrow> scope_run \<Rightarrow> int \<Rightarrow> ('v, 'h, 'c, 'p) frames \<Rightarrow> bool \<Rightarrow>
     (string \<times> 'v) list \<times> 'p config option \<Rightarrow> output_binding \<Rightarrow> ((string \<times> 'v) list \<times> 'p config option) res" where
  "output_step g sr completion_superstep frames owner_bound st b =
     (case st of (entries, config) \<Rightarrow>
       bindE (source_availability_coordinate g sr (ob_source b) (ob_publication b) completion_superstep
         (GraphValueAdmissionError ''compiled graph output binding lacks its activation selection'')) (\<lambda>c.
       bindE (catchE (lookup_frame frames c) (\<lambda>e. case ob_source b of
           GraphInputPort _ \<Rightarrow> Inl e
         | NodeOutputPort m n \<Rightarrow> if is_snapshot_error e
             then Inl (GraphValueAdmissionError (''graph output source '' @ py_repr m @ ''.'' @ py_repr n @ '' is unavailable''))
             else Inl e)) (\<lambda>f.
       bindE (frame_value f (source_value_name (ob_source b))) (\<lambda>v.
       bindE (merge_output_config owner_bound config (fr_config f)) (\<lambda>config'.
       Inr (entries @ [(ob_boundary_name b, v)], config'))))))"

definition terminal_frames :: "scope_run \<Rightarrow> int \<Rightarrow> ('v, 'h, 'c, 'p) frames \<Rightarrow> ('v, 'h, 'c, 'p) frame list" where
  "terminal_frames sr completion_superstep frames =
     map (\<lambda>x. rec_frame (snd x)) (filter (\<lambda>(c, _). sa_scope_run (pc_activation c) = sr \<and>
       sa_superstep (pc_activation c) = completion_superstep) (fi_publications frames)) @
     (if completion_superstep = 0
      then map (\<lambda>x. rec_frame (snd x)) (filter (\<lambda>(c, _). gic_scope_run c = sr) (fi_graph_inputs frames)) else []) @
     map (\<lambda>x. rec_frame (snd x)) (filter (\<lambda>(c, _). gic_scope_run c = sr) (fi_child_boundaries frames))"

definition project_graph_outputs ::
  "('v, 'p) value_env \<Rightarrow> compiled_graph \<Rightarrow> scope_run \<Rightarrow> int \<Rightarrow> ('v, 'h, 'c, 'p) frames \<Rightarrow>
     ('h, 'c, 'p) agent_session option \<Rightarrow> ('v, 'h, 'c, 'p) frame res" where
  "project_graph_outputs E g sr completion_superstep frames owner =
     (let owner_bound = (owner \<noteq> None) in
      bindE (foldE (output_step g sr completion_superstep frames owner_bound) ([], session_config owner)
        (tp_graph_outputs (cg_transition g))) (\<lambda>(entries, config).
      bindE (if \<not> owner_bound \<and> config = None
             then foldE (merge_output_config False) config (map fr_config (terminal_frames sr completion_superstep frames))
             else Inr config) (\<lambda>config'.
      make_graph_output_view E entries (fd_declarations (cg_graph_output_descriptor g)) config')))"

section \<open>Preparation of a resume\<close>

record ('v, 'h, 'c, 'p) resume_node_request =
  rr_scope :: "string list"
  rr_node_id :: string
  rr_interrupt_id :: string
  rr_values :: "('v, 'h, 'c, 'p) graph_values"

definition admit_override_resume_input ::
  "('v, 'p) value_env \<Rightarrow> ('v, 'h, 'c, 'p) frame_codec \<Rightarrow> compiled_graph \<Rightarrow> string \<Rightarrow> ('v, 'h, 'c, 'p) graph_values \<Rightarrow>
     'p config option \<Rightarrow> ('h, 'c, 'p) agent_session option \<Rightarrow> (py_bytes \<times> ('v, 'h, 'c, 'p) frame) res" where
  "admit_override_resume_input E K g n values config session =
     bindE (encode_resume_input E K g values) (\<lambda>payload.
     bindE (decode_resume_input E K g n payload config session) (\<lambda>f. Inr (payload, f)))"

definition prepare_resume_action ::
  "('v, 'p) value_env \<Rightarrow> ('v, 'h, 'c, 'p) frame_codec \<Rightarrow> compiled_graph \<Rightarrow> graph_run_state \<Rightarrow> scope_run \<Rightarrow>
     ('v, 'h, 'c, 'p) frames \<Rightarrow> ('h, 'c, 'p) agent_session option \<Rightarrow> ('v, 'h, 'c, 'p) resume_node_request \<Rightarrow>
     (resume_interrupted_node \<times> activation_coordinate \<times> ('v, 'h, 'c, 'p) frame) res" where
  "prepare_resume_action E K g s sr frames session requested =
     (let n = rr_node_id requested in
      case frontier_node (gr_frontier s) n of
        None \<Rightarrow> Inl (SnapshotMismatchError ''resume request references an unknown frontier node'')
      | Some current \<Rightarrow>
          bindE (mk_GraphActivationIdentity (gr_run_id s) (gr_superstep s) n) (\<lambda>a.
          bindE (stable_activation_of sr a) (\<lambda>activation.
          bindE (require_node_materialization g n) (\<lambda>plan.
          (case fn_settlement current of
             InterruptedGraphNode i \<Rightarrow>
               let identity = ni_identity i in
               if rr_interrupt_id requested \<noteq> graph_interrupt_id (ii_run_id identity) (ii_superstep identity) (ii_node_id identity)
                    (ii_execution_generation identity)
               then Inl (SnapshotMismatchError ''interrupt resume ID does not match the current node interrupt'')
               else if has_predecessor_input plan
               then Inl (SnapshotMismatchError ''predecessor-bound activation cannot use an input override'')
               else bindE (activation_config_for_cause E g sr current frames) (\<lambda>historical.
                 bindE (admit_override_resume_input E K g n (rr_values requested)
                   (case session of Some x \<Rightarrow> as_config x | None \<Rightarrow> historical) session) (\<lambda>(payload, f).
                 Inr (\<lparr>ri_node_id = n, ri_interrupt_id = rr_interrupt_id requested, ri_input = payload\<rparr>,
                      resume_input_coordinate activation plan, f)))
           | _ \<Rightarrow> Inl (SnapshotMismatchError ''interrupt resume requires an interrupted node''))))))"

definition prepare_resume ::
  "('v, 'p) value_env \<Rightarrow> ('v, 'h, 'c, 'p) frame_codec \<Rightarrow> compiled_graph \<Rightarrow> graph_run_state \<Rightarrow> scope_run \<Rightarrow>
     ('v, 'h, 'c, 'p) frames \<Rightarrow> ('v, 'h, 'c, 'p) resume_node_request list \<Rightarrow> ('h, 'c, 'p) agent_session option \<Rightarrow>
     (graph_run_command \<times> (activation_coordinate \<times> ('v, 'h, 'c, 'p) frame) list) res" where
  "prepare_resume E K g s sr frames actions session =
     bindE (require_scoped_snapshot_matches_graph g s sr) (\<lambda>_.
     if gr_status s \<noteq> RUNNING \<or> gr_execution s \<noteq> None \<or> gr_resources s \<noteq> None
     then Inl (SnapshotMismatchError ''resume requires one quiescent running graph'')
     else bindE (require_resume_input_binding g s) (\<lambda>_.
     let ids = map rr_node_id actions in
     if ids = [] \<or> ids \<noteq> sorted_set ids \<or> (\<exists>r\<in>set actions. rr_scope r \<noteq> sr_scope sr)
     then Inl (SnapshotMismatchError ''resume actions must be non-empty, distinct, canonical, and scoped'')
     else bindE (mapE (prepare_resume_action E K g s sr frames session) actions) (\<lambda>prepared.
       Inr (ResumeGraphNodes (gr_revision s) (map fst prepared), map snd prepared))))"

end
