(* ===== verification/Engine_Frontier.thy ===== *)
theory Engine_Frontier
  imports Node_Input
begin

text \<open>
  The preparation of one superstep: \<open>engine/frontier.py\<close>, \<open>engine/superstep.py\<close>,
  \<open>engine/claim_stage.py\<close>, \<open>claim.py\<close>, \<open>executor.py\<close>, the requests of \<open>request.py\<close> and the child
  projections and dispositions of \<open>result.py\<close>, all under \<open>mote_kernel/execution\<close>.

  \<^item> The nominal identity of a claim owner is a natural number; the fresh attempt identity of a
    claim (\<open>uuid4\<close>) is an argument.
  \<^item> The one-shot flags of the claim objects are fields that \<open>consume\<close> and \<open>issue\<close> return updated.
\<close>

section \<open>Requests and child projections\<close>

datatype ('v, 'h, 'c, 'p) child_projection =
    MissingChild (cp_parent: graph_activation_identity)
  | ActiveChild (cp_parent: graph_activation_identity)
  | CompletedChild (cp_parent: graph_activation_identity) (cp_output: "('v, 'h, 'c, 'p) frame") (cp_route: "string option")
  | FailedChild (cp_parent: graph_activation_identity) (cp_failure: string)
  | AbortedChild (cp_parent: graph_activation_identity) (cp_reason: string)

record ('v, 'h, 'c, 'p) step_request =
  rq_state :: graph_run_state
  rq_scope_run :: scope_run
  rq_frames :: "('v, 'h, 'c, 'p) frames"
  rq_child_projections :: "('v, 'h, 'c, 'p) child_projection list"
  rq_limits :: execution_limits
  rq_session :: "('h, 'c, 'p) agent_session option"

datatype ('v, 'h, 'c, 'p) executable_task =
  ExecutableTask (et_task: graph_task) (et_effective_input: "('v, 'h, 'c, 'p) frame")

record ('v, 'h, 'c, 'p) frontier_preparation =
  fp_request :: "('v, 'h, 'c, 'p) step_request"
  fp_tasks :: "graph_task list"
  fp_executables :: "('v, 'h, 'c, 'p) executable_task list"
  fp_nested_results :: "('v, 'h, 'c, 'p) task_result list"
  fp_missing_children :: "graph_activation_identity list"
  fp_active_children :: "graph_activation_identity list"

section \<open>Preparation of a frontier\<close>

text \<open>One iteration of the loop over the nested tasks and their projections.\<close>

definition child_step ::
  "('v, 'p) value_env \<Rightarrow> compiled_graph \<Rightarrow>
     graph_activation_identity list \<times> graph_activation_identity list \<times> ('v, 'h, 'c, 'p) task_result list \<Rightarrow>
     graph_task \<times> ('v, 'h, 'c, 'p) child_projection \<Rightarrow>
     (graph_activation_identity list \<times> graph_activation_identity list \<times> ('v, 'h, 'c, 'p) task_result list) res" where
  "child_step E g st tp =
     (case (st, tp) of ((missing, active, results), (task, projection)) \<Rightarrow>
       (case projection of
          MissingChild p \<Rightarrow> Inr (missing @ [p], active, results)
        | ActiveChild p \<Rightarrow> Inr (missing, active @ [p], results)
        | CompletedChild _ view route \<Rightarrow>
            bindE (fm_get (tp_publications (cg_transition g)) (gt_node_id task)) (\<lambda>d.
            bindE (node_output_from_view E view (fd_declarations d)) (\<lambda>output.
            Inr (missing, active, results @ [TaskSuccess task output route None])))
        | FailedChild _ failure \<Rightarrow> Inr (missing, active, results @ [TaskFailure task failure])
        | AbortedChild _ reason \<Rightarrow> Inr (missing, active, results @ [TaskFailure task reason])))"

definition is_callable :: "graph_node \<Rightarrow> bool" where
  "is_callable d = (case d of CallableNode _ _ \<Rightarrow> True | NestedNode \<Rightarrow> False)"

definition executable_step ::
  "('v, 'p) value_env \<Rightarrow> ('v, 'h, 'c, 'p) frame_codec \<Rightarrow> compiled_graph \<Rightarrow> ('v, 'h, 'c, 'p) step_request \<Rightarrow>
     ('v, 'h, 'c, 'p) executable_task list \<Rightarrow> graph_task \<Rightarrow> ('v, 'h, 'c, 'p) executable_task list res" where
  "executable_step E K g request acc task =
     bindE (fm_get (cg_nodes g) (gt_node_id task)) (\<lambda>d.
     if is_callable d
     then bindE (materialize_node_input E K g (rq_state request) (rq_scope_run request) (rq_frames request) (gt_node_id task)
            (rq_session request)) (\<lambda>f. Inr (acc @ [ExecutableTask task f]))
     else Inr acc)"

definition prepare_frontier ::
  "('v, 'p) value_env \<Rightarrow> ('v, 'h, 'c, 'p) frame_codec \<Rightarrow> compiled_graph \<Rightarrow> ('v, 'h, 'c, 'p) step_request \<Rightarrow>
     ('v, 'h, 'c, 'p) frontier_preparation res" where
  "prepare_frontier E K g request =
     bindE (plan_tasks g (rq_state request) (rq_limits request)) (\<lambda>tasks.
     let nested_tasks = filter (\<lambda>t. fm_has (cg_nested_graphs g) (gt_node_id t)) tasks in
     bindE (mapE (\<lambda>t. mk_GraphActivationIdentity (gt_run_id t) (gt_superstep t) (gt_node_id t)) nested_tasks) (\<lambda>expected.
     if map cp_parent (rq_child_projections request) \<noteq> expected
     then Inl (ResultCollectionError ''child projections must exactly and canonically cover pending nested activations'')
     else bindE (foldE (child_step E g) ([], [], []) (zip nested_tasks (rq_child_projections request))) (\<lambda>(missing, active, results).
       bindE (foldE (executable_step E K g request) [] tasks) (\<lambda>executables.
       Inr \<lparr>fp_request = request, fp_tasks = tasks, fp_executables = executables, fp_nested_results = results,
            fp_missing_children = missing, fp_active_children = active\<rparr>))))"

section \<open>Execution claims\<close>

record ('v, 'h, 'c, 'p) prepared_claim =
  xc_owner :: nat
  xc_command :: graph_run_command
  xc_preparation :: "('v, 'h, 'c, 'p) frontier_preparation"
  xc_consumed :: bool

record ('v, 'h, 'c, 'p) consumed_claim =
  cc_state :: graph_run_state
  cc_preparation :: "('v, 'h, 'c, 'p) frontier_preparation"
  cc_issued :: bool

definition prepare_claim ::
  "nat \<Rightarrow> ('v, 'h, 'c, 'p) frontier_preparation \<Rightarrow> resource_snapshot option \<Rightarrow> string \<Rightarrow> ('v, 'h, 'c, 'p) prepared_claim" where
  "prepare_claim owner preparation resources attempt_id =
     \<lparr>xc_owner = owner, xc_command = project_claim_command (rq_state (fp_request preparation)) attempt_id resources,
      xc_preparation = preparation, xc_consumed = False\<rparr>"

definition consume_claim ::
  "('v, 'h, 'c, 'p) prepared_claim \<Rightarrow> nat \<Rightarrow> graph_run_state \<Rightarrow>
     (('v, 'h, 'c, 'p) prepared_claim \<times> ('v, 'h, 'c, 'p) consumed_claim) res" where
  "consume_claim claim owner s =
     (if xc_consumed claim then Inl (ResultCollectionError ''execution claim has already been consumed'')
      else if owner \<noteq> xc_owner claim
      then Inl (ResultCollectionError ''execution claim does not match committed graph state'')
      else bindE (require_committed_claim_state (xc_command claim) s (rq_state (fp_request (xc_preparation claim)))
          (fp_tasks (xc_preparation claim))) (\<lambda>_.
        Inr (claim\<lparr>xc_consumed := True\<rparr>, \<lparr>cc_state = s, cc_preparation = xc_preparation claim, cc_issued = False\<rparr>)))"

definition issue_claim ::
  "('v, 'h, 'c, 'p) consumed_claim \<Rightarrow> (('v, 'h, 'c, 'p) consumed_claim \<times> graph_run_state \<times> ('v, 'h, 'c, 'p) frontier_preparation) res" where
  "issue_claim claim =
     (if cc_issued claim then Inl (ResultCollectionError ''consumed execution claim has already issued its session'')
      else Inr (claim\<lparr>cc_issued := True\<rparr>, cc_state claim, cc_preparation claim))"

section \<open>Preparation of a superstep\<close>

datatype waiting_for_children =
  WaitingForChildren (wc_missing: "graph_activation_identity list") (wc_active: "graph_activation_identity list")

definition parent_key :: "graph_activation_identity \<Rightarrow> string \<times> int \<times> string" where
  "parent_key p = (act_run_id p, act_superstep p, act_node_id p)"

definition mk_WaitingForChildren ::
  "graph_activation_identity list \<Rightarrow> graph_activation_identity list \<Rightarrow> waiting_for_children res" where
  "mk_WaitingForChildren missing active =
     (let parents = missing @ active in
      if parents = [] \<or> \<not> distinct parents \<or> missing \<noteq> sort_key parent_key missing \<or> active \<noteq> sort_key parent_key active
      then Inl (ValueError ''children to drive must be non-empty, distinct, and canonical'')
      else Inr (WaitingForChildren missing active))"

datatype ('v, 'h, 'c, 'p) prepare_disposition =
    ExecutableFrontier "('v, 'h, 'c, 'p) prepared_claim" "waiting_for_children option"
  | ChildrenToDrive waiting_for_children
  | ReadyToResolve graph_run_command
  | AwaitingResume "string list"
  | CompletedGraph
  | FailedGraph
  | AbortedGraph

definition waiting_children :: "('v, 'h, 'c, 'p) frontier_preparation \<Rightarrow> waiting_for_children option res" where
  "waiting_children frontier =
     (if fp_missing_children frontier \<noteq> [] \<or> fp_active_children frontier \<noteq> []
      then bindE (mk_WaitingForChildren (fp_missing_children frontier) (fp_active_children frontier)) (\<lambda>w. Inr (Some w))
      else Inr None)"

definition claim_frontier ::
  "nat \<Rightarrow> string \<Rightarrow> compiled_graph \<Rightarrow> ('v, 'h, 'c, 'p) frontier_preparation \<Rightarrow> waiting_for_children option \<Rightarrow>
     ('v, 'h, 'c, 'p) prepare_disposition res" where
  "claim_frontier owner attempt_id g frontier children =
     (if children \<noteq> None \<and> fp_executables frontier = [] \<and> fp_nested_results frontier = []
      then Inr (ChildrenToDrive (the children))
      else bindE (claim_resource_snapshot g (fp_tasks frontier)) (\<lambda>resources.
        Inr (ExecutableFrontier (prepare_claim owner frontier resources attempt_id) children)))"

definition prepare_superstep ::
  "('v, 'p) value_env \<Rightarrow> ('v, 'h, 'c, 'p) frame_codec \<Rightarrow> nat \<Rightarrow> string \<Rightarrow> compiled_graph \<Rightarrow> ('v, 'h, 'c, 'p) step_request \<Rightarrow>
     ('v, 'h, 'c, 'p) prepare_disposition res" where
  "prepare_superstep E K owner attempt_id g request =
     (let s = rq_state request in
      bindE (require_scoped_snapshot_matches_graph g s (rq_scope_run request)) (\<lambda>_.
      (case gr_status s of
         COMPLETED \<Rightarrow> Inr CompletedGraph
       | FAILED \<Rightarrow> Inr FailedGraph
       | ABORTED \<Rightarrow> Inr AbortedGraph
       | RUNNING \<Rightarrow>
           bindE (frontier_status (gr_frontier s)) (\<lambda>status.
           if status = SETTLED
           then bindE (resolve_routing g s (rq_scope_run request) (rq_frames request)) (\<lambda>c. Inr (ReadyToResolve c))
           else if status = AWAITING_RESUME then Inr (AwaitingResume (interrupted_node_ids (gr_frontier s)))
           else if gr_execution s \<noteq> None
           then Inl (ResultCollectionError ''active execution requires its original execution session'')
           else bindE (prepare_frontier E K g request) (\<lambda>frontier.
             bindE (waiting_children frontier) (\<lambda>children. claim_frontier owner attempt_id g frontier children))))))"

end
