(* ===== verification/Engine_Session.thy ===== *)
theory Engine_Session
  imports Engine_Frontier
begin

text \<open>
  Execution of one claimed frontier: the task pool \<open>engine/scheduler.py\<close>, the execution session
  \<open>engine/session.py\<close> and the assembled executor \<open>executor.py\<close> of \<open>mote_kernel/execution\<close>.

  The code is asynchronous but single-threaded: between two \<open>await\<close>s it runs without
  interference. The model has one function for each of these atomic sections and one step relation
  that interleaves them.

  \<^item> A call of \<open>next\<close> can be suspended in \<open>asyncio.wait\<close> (\<open>InWait\<close>) or in \<open>asyncio.sleep(0)\<close>
    (\<open>InSleep\<close>); \<open>_next_in_progress\<close> is a phase other than \<open>NotRunning\<close>.
  \<^item> What a node body does is chosen by the environment: it returns an outcome, raises an
    exception or is cancelled. \<open>'x\<close> is the type of exception objects; \<open>is\<close> on them is equality.
  \<^item> A task handle is its executable task. The set of handles that \<open>asyncio.wait\<close> reports is
    chosen by the environment among the live tasks.
  \<^item> Closing cancels the live handles and clears them in one step; a call that waits for them
    ends with their cancellation.
\<close>

section \<open>Outcomes of node bodies\<close>

datatype ('v, 'h, 'c, 'p) node_return =
    PlainValues "('v, 'h, 'c, 'p) graph_values"
  | TypedOutcome "('v, 'h, 'c, 'p) graph_outcome"

datatype 'x task_error = NodeCancelled 'x | NodeException 'x | KernelException kernel_error

datatype ('v, 'h, 'c, 'p, 'x) task_event =
    TaskDone "('v, 'h, 'c, 'p) task_result"
  | TaskRaised graph_task "'x task_error"

fun event_task :: "('v, 'h, 'c, 'p, 'x) task_event \<Rightarrow> graph_task" where
  "event_task (TaskDone r) = tr_task r"
| "event_task (TaskRaised t e) = t"

definition explicit_session_of ::
  "('v, 'h, 'c, 'p) graph_values \<Rightarrow> ('h, 'c, 'p) agent_session option \<Rightarrow> ('h, 'c, 'p) agent_session option" where
  "explicit_session_of output input_session =
     (if gv_session output \<noteq> None \<and> gv_session output \<noteq> input_session then gv_session output else None)"

definition project_output_config ::
  "'p config option \<Rightarrow> ('h, 'c, 'p) agent_session option \<Rightarrow> ('h, 'c, 'p) agent_session option \<Rightarrow> 'p config option \<Rightarrow> 'p config option res" where
  "project_output_config output_config candidate_session explicit_session input_config =
     (case candidate_session of
        Some candidate \<Rightarrow>
          if output_config \<noteq> None \<and> output_config \<noteq> as_config candidate
          then Inl (NodeExecutionContractError ''node output Config disagrees with its AgentSession'')
          else Inr (if explicit_session \<noteq> None then as_config candidate
            else if output_config = None then input_config else output_config)
      | None \<Rightarrow> Inr (if output_config = None then input_config else output_config))"

definition project_success ::
  "('v, 'p) value_env \<Rightarrow> compiled_graph \<Rightarrow> ('v, 'h, 'c, 'p) executable_task \<Rightarrow> ('v, 'h, 'c, 'p) graph_values \<Rightarrow>
     string option \<Rightarrow> ('h, 'c, 'p) agent_session option \<Rightarrow> ('h, 'c, 'p) agent_session option \<Rightarrow> ('v, 'h, 'c, 'p) task_result res" where
  "project_success E g executable output route candidate_session explicit_session =
     (let n = gt_node_id (et_task executable) in
      bindE (project_output_config (gv_config output) candidate_session explicit_session (fr_config (et_effective_input executable))) (\<lambda>config.
      bindE (fm_get (tp_publications (cg_transition g)) n) (\<lambda>d.
      bindE (make_node_output_frame E output (fd_declarations d) config) (\<lambda>frame.
      bindE (validate_routing_contribution g n (routing_of_route route)) (\<lambda>_.
      Inr (TaskSuccess (et_task executable) frame route explicit_session))))))"

definition project_outcome ::
  "('v, 'p) value_env \<Rightarrow> compiled_graph \<Rightarrow> ('v, 'h, 'c, 'p) executable_task \<Rightarrow> ('v, 'h, 'c, 'p) node_return \<Rightarrow>
     ('v, 'h, 'c, 'p) task_result res" where
  "project_outcome E g executable outcome =
     (case outcome of
        PlainValues output \<Rightarrow>
          project_success E g executable output None (gv_session output)
            (explicit_session_of output (fr_session (et_effective_input executable)))
      | TypedOutcome (GraphSuccessOutcome output route session) \<Rightarrow> project_success E g executable output route session session
      | TypedOutcome (GraphFailureOutcome failure) \<Rightarrow> Inr (TaskFailure (et_task executable) failure)
      | TypedOutcome (GraphInterruptOutcome payload) \<Rightarrow> Inr (TaskInterrupt (et_task executable) payload))"

datatype ('v, 'h, 'c, 'p, 'x) node_behaviour =
    Returns "('v, 'h, 'c, 'p) node_return"
  | Raises 'x
  | IsCancelled 'x

definition execute_task ::
  "('v, 'p) value_env \<Rightarrow> compiled_graph \<Rightarrow> ('v, 'h, 'c, 'p) executable_task \<Rightarrow> ('v, 'h, 'c, 'p, 'x) node_behaviour \<Rightarrow>
     ('v, 'h, 'c, 'p, 'x) task_event" where
  "execute_task E g executable behaviour =
     (let task = et_task executable in
      case fm_get (cg_nodes g) (gt_node_id task) of
        Inl e \<Rightarrow> TaskRaised task (KernelException e)
      | Inr d \<Rightarrow>
          if \<not> is_callable d
          then TaskRaised task (KernelException
            (NodeExecutionContractError ''nested task must be projected to a precomputed terminal outcome''))
          else (case behaviour of
              Returns r \<Rightarrow> (case project_outcome E g executable r of
                Inl e \<Rightarrow> TaskRaised task (KernelException e) | Inr result \<Rightarrow> TaskDone result)
            | Raises x \<Rightarrow> TaskRaised task (NodeException x)
            | IsCancelled x \<Rightarrow> TaskRaised task (NodeCancelled x)))"

section \<open>The task pool\<close>

record ('v, 'h, 'c, 'p, 'x) scheduler =
  sc_live :: "('v, 'h, 'c, 'p) executable_task list"
  sc_events :: "('v, 'h, 'c, 'p, 'x) task_event list"

definition executable_id :: "('v, 'h, 'c, 'p) executable_task \<Rightarrow> string" where
  "executable_id x = gt_task_id (et_task x)"

definition live_count :: "('v, 'h, 'c, 'p, 'x) scheduler \<Rightarrow> int" where
  "live_count sc = int (length (sc_live sc))"

definition drain_pending_events ::
  "('v, 'h, 'c, 'p, 'x) scheduler \<Rightarrow>
     ('v, 'h, 'c, 'p, 'x) scheduler \<times> (graph_task \<times> 'x task_error) list \<times> ('v, 'h, 'c, 'p) task_result list" where
  "drain_pending_events sc =
     (sc\<lparr>sc_events := []\<rparr>,
      List.map_filter (\<lambda>e. case e of TaskRaised t x \<Rightarrow> Some (t, x) | TaskDone _ \<Rightarrow> None) (sc_events sc),
      List.map_filter (\<lambda>e. case e of TaskDone r \<Rightarrow> Some r | TaskRaised _ _ \<Rightarrow> None) (sc_events sc))"

definition submit ::
  "('v, 'h, 'c, 'p, 'x) scheduler \<Rightarrow> ('v, 'h, 'c, 'p) executable_task list \<Rightarrow> ('v, 'h, 'c, 'p, 'x) scheduler res" where
  "submit sc executables =
     (let submitted = map executable_id executables;
          existing = map executable_id (sc_live sc) @ map (\<lambda>e. gt_task_id (event_task e)) (sc_events sc)
      in if \<not> distinct submitted \<or> set existing \<inter> set submitted \<noteq> {}
         then Inl (NodeExecutionContractError ''a graph task was submitted more than once'')
         else Inr (sc\<lparr>sc_live := sc_live sc @ executables\<rparr>))"

text \<open>\<open>finished\<close> are the handles \<open>asyncio.wait\<close> reports as done, each with what its body did.\<close>

definition next_completion ::
  "('v, 'p) value_env \<Rightarrow> compiled_graph \<Rightarrow> ('v, 'h, 'c, 'p, 'x) scheduler \<Rightarrow>
     (('v, 'h, 'c, 'p) executable_task \<times> ('v, 'h, 'c, 'p, 'x) node_behaviour) list \<Rightarrow>
     (('v, 'h, 'c, 'p, 'x) scheduler \<times> ('v, 'h, 'c, 'p, 'x) task_event) res" where
  "next_completion E g sc finished =
     (case sc_events sc of
        e # es \<Rightarrow> Inr (sc\<lparr>sc_events := es\<rparr>, e)
      | [] \<Rightarrow>
          if sc_live sc = [] then Inl (NodeExecutionContractError ''there are no live graph tasks'')
          else (case sort_key (\<lambda>e. task_sort_key (event_task e)) (map (\<lambda>(x, b). execute_task E g x b) finished) of
              [] \<Rightarrow> Inl IndexError
            | e # es \<Rightarrow>
                Inr (sc\<lparr>sc_live := filter (\<lambda>x. executable_id x \<notin> set (map (executable_id \<circ> fst) finished)) (sc_live sc),
                        sc_events := sc_events sc @ es\<rparr>, e)))"

section \<open>Session state\<close>

datatype session_disposition = OPEN | ERROR_DRAINING | QUIESCENT | CLOSED

datatype ('v, 'h, 'c, 'p) executed_node =
  ExecutedGraphNode (en_result: "('v, 'h, 'c, 'p) task_result") (en_command: settle_graph_node_command)

datatype ('v, 'h, 'c, 'p) next_phase = NotRunning | InWait | InSleep "('v, 'h, 'c, 'p) executed_node"

record ('v, 'h, 'c, 'p, 'x) execution_session =
  ss_limits :: execution_limits
  ss_executables :: "('v, 'h, 'c, 'p) executable_task list"
  ss_state :: graph_run_state
  ss_queued_results :: "(('v, 'h, 'c, 'p) task_result \<times> bool) list"
  ss_started :: "string set"
  ss_scheduler :: "('v, 'h, 'c, 'p, 'x) scheduler"
  ss_awaiting_ack :: "settle_graph_node_command option"
  ss_phase :: "('v, 'h, 'c, 'p) next_phase"
  ss_disposition :: session_disposition
  ss_error :: "(graph_task \<times> 'x task_error) option"
  ss_node_origin_cancellation :: "'x option"

definition new_session :: "graph_run_state \<Rightarrow> ('v, 'h, 'c, 'p) frontier_preparation \<Rightarrow> ('v, 'h, 'c, 'p, 'x) execution_session" where
  "new_session s preparation =
     \<lparr>ss_limits = rq_limits (fp_request preparation), ss_executables = fp_executables preparation, ss_state = s,
      ss_queued_results = map (\<lambda>r. (r, False)) (fp_nested_results preparation), ss_started = {},
      ss_scheduler = \<lparr>sc_live = [], sc_events = []\<rparr>, ss_awaiting_ack = None, ss_phase = NotRunning,
      ss_disposition = OPEN, ss_error = None, ss_node_origin_cancellation = None\<rparr>"

definition issue_session ::
  "compiled_graph \<Rightarrow> nat \<Rightarrow> ('v, 'h, 'c, 'p) prepared_claim \<Rightarrow> graph_run_state \<Rightarrow> ('v, 'h, 'c, 'p, 'x) execution_session res" where
  "issue_session g owner claim s =
     bindE (require_scoped_snapshot_matches_graph g s (rq_scope_run (fp_request (xc_preparation claim)))) (\<lambda>_.
     bindE (consume_claim claim owner s) (\<lambda>(_, consumed).
     bindE (issue_claim consumed) (\<lambda>(_, state, preparation). Inr (new_session state preparation))))"

section \<open>Session operations\<close>

definition require_open :: "('v, 'h, 'c, 'p, 'x) execution_session \<Rightarrow> unit res" where
  "require_open ss =
     (if ss_disposition ss = CLOSED then Inl (ResultCollectionError ''execution session is closed'')
      else if ss_disposition ss = QUIESCENT then Inl (ResultCollectionError ''execution session is quiescent'')
      else Inr ())"

definition acknowledge ::
  "compiled_graph \<Rightarrow> ('v, 'h, 'c, 'p, 'x) execution_session \<Rightarrow> graph_run_state \<Rightarrow> ('v, 'h, 'c, 'p, 'x) execution_session res" where
  "acknowledge g ss s =
     (case ss_awaiting_ack ss of
        None \<Rightarrow>
          bindE (require_snapshot_matches_graph g s) (\<lambda>_.
          if s \<noteq> ss_state ss
          then Inl (ResultCollectionError ''first session state must be the reducer-applied claim successor'') else Inr ss)
      | Some command \<Rightarrow>
          bindE (catchE (admit_graph_run_confirmation (Some (ss_state ss)) (SettleGraphNode command) s)
            (\<lambda>e. case e of GraphStateTransitionError _ \<Rightarrow>
                Inl (ResultCollectionError ''session state acknowledgement is not the exact reducer successor'')
              | _ \<Rightarrow> Inl e)) (\<lambda>_.
          Inr (ss\<lparr>ss_state := s, ss_awaiting_ack := None\<rparr>)))"

definition select_ordinary ::
  "compiled_graph \<Rightarrow> ('v, 'h, 'c, 'p, 'x) execution_session \<Rightarrow> ('v, 'h, 'c, 'p) executable_task list res" where
  "select_ordinary g ss =
     (if ss_disposition ss \<noteq> OPEN then Inr []
      else let pending = pending_node_ids (gr_frontier (ss_state ss));
               executables = filter (\<lambda>x. gt_node_id (et_task x) \<in> set pending) (ss_executables ss)
        in bindE (select_executable_tasks g (map et_task executables) (gr_resources (ss_state ss)) (ss_limits ss)
             (live_count (ss_scheduler ss)) (ss_started ss)) (\<lambda>selected.
           mapE (\<lambda>t. case map_of (rev (map (\<lambda>x. (executable_id x, x)) executables)) (gt_task_id t) of
               None \<Rightarrow> Inl (KeyError (gt_task_id t)) | Some x \<Rightarrow> Inr x) selected))"

definition record_error :: "('v, 'h, 'c, 'p, 'x) execution_session \<Rightarrow> graph_task \<times> 'x task_error \<Rightarrow> ('v, 'h, 'c, 'p, 'x) execution_session" where
  "record_error ss raised =
     (let first = (case ss_error ss of None \<Rightarrow> raised
          | Some e \<Rightarrow> if task_sort_key (fst raised) < task_sort_key (fst e) then raised else e)
      in ss\<lparr>ss_error := Some first,
            ss_node_origin_cancellation := (case snd first of NodeCancelled x \<Rightarrow> Some x | _ \<Rightarrow> None),
            ss_disposition := ERROR_DRAINING\<rparr>)"

definition consume_node_origin ::
  "('v, 'h, 'c, 'p, 'x) execution_session \<Rightarrow> 'x \<Rightarrow> ('v, 'h, 'c, 'p, 'x) execution_session \<times> bool" where
  "consume_node_origin ss x =
     (if ss_node_origin_cancellation ss \<noteq> Some x then (ss, False) else (ss\<lparr>ss_node_origin_cancellation := None\<rparr>, True))"

definition drain_scheduler_events :: "('v, 'h, 'c, 'p, 'x) execution_session \<Rightarrow> ('v, 'h, 'c, 'p, 'x) execution_session" where
  "drain_scheduler_events ss =
     (case drain_pending_events (ss_scheduler ss) of (sc, errors, completions) \<Rightarrow>
       let ss' = foldl record_error (ss\<lparr>ss_scheduler := sc\<rparr>) errors in
       ss'\<lparr>ss_queued_results := ss_queued_results ss' @ map (\<lambda>r. (r, True)) completions\<rparr>)"

definition schedule_ordinary ::
  "compiled_graph \<Rightarrow> ('v, 'h, 'c, 'p, 'x) execution_session \<Rightarrow> (('v, 'h, 'c, 'p, 'x) execution_session \<times> bool) res" where
  "schedule_ordinary g ss =
     bindE (select_ordinary g ss) (\<lambda>selected.
     bindE (submit (ss_scheduler ss) selected) (\<lambda>sc.
     Inr (ss\<lparr>ss_scheduler := sc, ss_started := ss_started ss \<union> set (map (\<lambda>x. gt_node_id (et_task x)) selected)\<rparr>,
          selected \<noteq> [])))"

definition project_completion ::
  "compiled_graph \<Rightarrow> ('v, 'h, 'c, 'p, 'x) execution_session \<Rightarrow> ('v, 'h, 'c, 'p) task_result \<Rightarrow>
     (('v, 'h, 'c, 'p, 'x) execution_session \<times> ('v, 'h, 'c, 'p) executed_node) res" where
  "project_completion g ss result =
     bindE (settle_result g (ss_state ss) result) (\<lambda>command.
     Inr (ss\<lparr>ss_awaiting_ack := Some command\<rparr>, ExecutedGraphNode result command))"

definition close_session :: "('v, 'h, 'c, 'p, 'x) execution_session \<Rightarrow> ('v, 'h, 'c, 'p, 'x) execution_session" where
  "close_session ss =
     (if ss_disposition ss = CLOSED then ss
      else ss\<lparr>ss_scheduler := \<lparr>sc_live = [], sc_events = []\<rparr>, ss_queued_results := [], ss_awaiting_ack := None,
              ss_disposition := CLOSED\<rparr>)"

section \<open>The next call\<close>

text \<open>How an atomic section of \<open>next\<close> ends: it yields, raises, or suspends.\<close>

datatype ('v, 'h, 'c, 'p, 'x) next_result =
    Yields "('v, 'h, 'c, 'p) executed_node"
  | RaisesKernel kernel_error
  | RaisesTask "'x task_error"
  | RaisesStopAsyncIteration
  | Suspends

text \<open>The loop exits when no task is live.\<close>

definition finish_idle ::
  "compiled_graph \<Rightarrow> ('v, 'h, 'c, 'p, 'x) execution_session \<Rightarrow>
     ('v, 'h, 'c, 'p, 'x) execution_session \<times> ('v, 'h, 'c, 'p, 'x) next_result" where
  "finish_idle g ss =
     (case ss_error ss of
        Some (_, x) \<Rightarrow> (ss\<lparr>ss_disposition := QUIESCENT\<rparr>, RaisesTask x)
      | None \<Rightarrow>
          let pending = pending_node_ids (gr_frontier (ss_state ss)) in
          if pending = [] \<or> list_all (fm_has (cg_nested_graphs g)) pending
          then (ss\<lparr>ss_disposition := QUIESCENT\<rparr>, RaisesStopAsyncIteration)
          else (ss, RaisesKernel (ResultCollectionError ''no executable pending node can be scheduled'')))"

text \<open>One pass of the \<open>while True\<close> loop up to its first \<open>await\<close> or its exit.\<close>

definition next_pass ::
  "compiled_graph \<Rightarrow> ('v, 'h, 'c, 'p, 'x) execution_session \<Rightarrow>
     ('v, 'h, 'c, 'p, 'x) execution_session \<times> ('v, 'h, 'c, 'p, 'x) next_result" where
  "next_pass g ss0 =
     (let ss = drain_scheduler_events ss0 in
      case ss_node_origin_cancellation ss of
        Some x \<Rightarrow> (close_session ss, RaisesTask (NodeCancelled x))
      | None \<Rightarrow>
          (case ss_queued_results ss of
             (result, refill) # queued \<Rightarrow>
               let popped = ss\<lparr>ss_queued_results := queued\<rparr> in
               (case project_completion g popped result of
                  Inl e \<Rightarrow> (popped, RaisesKernel e)
                | Inr (projected, executed) \<Rightarrow>
                    if refill
                    then (case schedule_ordinary g projected of
                        Inl e \<Rightarrow> (projected, RaisesKernel e)
                      | Inr (refilled, some_started) \<Rightarrow>
                          if some_started then (refilled\<lparr>ss_phase := InSleep executed\<rparr>, Suspends) else (refilled, Yields executed))
                    else (projected, Yields executed))
           | [] \<Rightarrow>
               (case schedule_ordinary g ss of
                  Inl e \<Rightarrow> (ss, RaisesKernel e)
                | Inr (scheduled, _) \<Rightarrow>
                    if live_count (ss_scheduler scheduled) = 0 then finish_idle g scheduled
                    else (scheduled\<lparr>ss_phase := InWait\<rparr>, Suspends))))"

definition session_next ::
  "compiled_graph \<Rightarrow> ('v, 'h, 'c, 'p, 'x) execution_session \<Rightarrow> graph_run_state \<Rightarrow>
     ('v, 'h, 'c, 'p, 'x) execution_session \<times> ('v, 'h, 'c, 'p, 'x) next_result" where
  "session_next g ss s =
     (case require_open ss of
        Inl e \<Rightarrow> (ss, RaisesKernel e)
      | Inr _ \<Rightarrow>
          if ss_phase ss \<noteq> NotRunning
          then (ss, RaisesKernel (ResultCollectionError ''execution session already has an in-progress next call''))
          else (case acknowledge g ss s of
              Inl e \<Rightarrow> (ss, RaisesKernel e)
            | Inr acknowledged \<Rightarrow> next_pass g acknowledged))"

definition resume_wait ::
  "('v, 'p) value_env \<Rightarrow> compiled_graph \<Rightarrow> ('v, 'h, 'c, 'p, 'x) execution_session \<Rightarrow>
     (('v, 'h, 'c, 'p) executable_task \<times> ('v, 'h, 'c, 'p, 'x) node_behaviour) list \<Rightarrow>
     ('v, 'h, 'c, 'p, 'x) execution_session \<times> ('v, 'h, 'c, 'p, 'x) next_result" where
  "resume_wait E g ss0 finished =
     (let ss = ss0\<lparr>ss_phase := NotRunning\<rparr> in
      case next_completion E g (ss_scheduler ss) finished of
        Inl e \<Rightarrow> (ss, RaisesKernel e)
      | Inr (sc, event) \<Rightarrow>
          let ss' = ss\<lparr>ss_scheduler := sc\<rparr> in
          (case event of
             TaskRaised t x \<Rightarrow> next_pass g (record_error ss' (t, x))
           | TaskDone result \<Rightarrow>
               (case project_completion g ss' result of
                  Inl e \<Rightarrow> (ss', RaisesKernel e)
                | Inr (projected, executed) \<Rightarrow> (projected, Yields executed))))"

definition resume_sleep ::
  "('v, 'h, 'c, 'p, 'x) execution_session \<Rightarrow> ('v, 'h, 'c, 'p) executed_node \<Rightarrow>
     ('v, 'h, 'c, 'p, 'x) execution_session \<times> ('v, 'h, 'c, 'p, 'x) next_result" where
  "resume_sleep ss executed =
     (ss\<lparr>ss_phase := NotRunning\<rparr>,
      case require_open ss of Inl e \<Rightarrow> RaisesKernel e | Inr _ \<Rightarrow> Yields executed)"

section \<open>Interleavings\<close>

text \<open>
  The caller calls \<open>next\<close>, live tasks finish while a call waits, a call continues after its
  \<open>sleep(0)\<close>, the session is closed, or the caller cancels a suspended call, which closes it too.
\<close>

inductive session_step ::
  "('v, 'p) value_env \<Rightarrow> compiled_graph \<Rightarrow> ('v, 'h, 'c, 'p, 'x) execution_session \<Rightarrow>
     ('v, 'h, 'c, 'p, 'x) next_result option \<Rightarrow> ('v, 'h, 'c, 'p, 'x) execution_session \<Rightarrow> bool"
  for E :: "('v, 'p) value_env" and g :: compiled_graph where
  call_next: "session_next g ss s = (ss', r) \<Longrightarrow> session_step E g ss (Some r) ss'"
| tasks_finish: "ss_phase ss = InWait \<Longrightarrow> finished \<noteq> [] \<Longrightarrow> distinct (map fst finished) \<Longrightarrow>
    set (map fst finished) \<subseteq> set (sc_live (ss_scheduler ss)) \<Longrightarrow> resume_wait E g ss finished = (ss', r) \<Longrightarrow>
    session_step E g ss (Some r) ss'"
| wake_up: "ss_phase ss = InSleep executed \<Longrightarrow> resume_sleep ss executed = (ss', r) \<Longrightarrow> session_step E g ss (Some r) ss'"
| close: "session_step E g ss None ((close_session ss)
    \<lparr>ss_phase := if ss_phase ss = InWait then NotRunning else ss_phase ss\<rparr>)"
| cancel: "ss_phase ss \<noteq> NotRunning \<Longrightarrow> session_step E g ss None ((close_session ss)\<lparr>ss_phase := NotRunning\<rparr>)"
| consume_origin: "consume_node_origin ss x = (ss', b) \<Longrightarrow> session_step E g ss None ss'"

inductive session_reaches ::
  "('v, 'p) value_env \<Rightarrow> compiled_graph \<Rightarrow> ('v, 'h, 'c, 'p, 'x) execution_session \<Rightarrow> ('v, 'h, 'c, 'p, 'x) execution_session \<Rightarrow> bool"
  for E :: "('v, 'p) value_env" and g :: compiled_graph and ss :: "('v, 'h, 'c, 'p, 'x) execution_session" where
  start: "session_reaches E g ss ss"
| step: "session_reaches E g ss t \<Longrightarrow> session_step E g t r u \<Longrightarrow> session_reaches E g ss u"

end
