(* ===== verification/Session_Invariant.thy ===== *)
theory Session_Invariant
  imports Engine_Session Reducer_Settle
begin

text \<open>
  What holds in every state of an execution session: at most \<open>max_parallel_tasks\<close> node bodies run,
  none is started twice, and every running body holds all its resources in the acknowledged state.
  \<open>live_inv\<close> carries the safety part, \<open>progress_inv\<close> what shows that a session is never stuck.
\<close>

section \<open>A release keeps what the other participants hold\<close>

lemma advance_loop_grows:
  "advance_loop n ids ls acquired todo = Inr (ls', got, w) \<Longrightarrow> set acquired \<subseteq> set got"
  by (induction n ids ls acquired todo rule: advance_loop.induct)
    (fastforce simp: Let_def split: option.splits if_splits)+

lemma advance_grows: "advance ids ls a = Inr (ls', a') \<Longrightarrow> set (acq_acquired a) \<subseteq> set (acq_acquired a')"
  by (auto simp: advance_def resE split: prod.splits dest!: advance_loop_grows)

definition keeps_acquired :: "resource_acquisition list \<Rightarrow> resource_lock list \<times> (string \<rightharpoonup> resource_acquisition) \<Rightarrow> bool" where
  "keeps_acquired acqs st \<longleftrightarrow>
     (\<forall>a\<in>set acqs. \<forall>b. snd st (acq_node_id a) = Some b \<longrightarrow> set (acq_acquired a) \<subseteq> set (acq_acquired b))"

lemma wake_at_grows:
  assumes "keeps_acquired acqs st" and "wake_at ids st p = Inr st'"
  shows "keeps_acquired acqs st'"
proof -
  obtain ls by_node where st: "st = (ls, by_node)" by (cases st)
  consider "st' = st" | w a ls' a' where "by_node w = Some a" "advance ids ls a = Inr (ls', a')" "st' = (ls', by_node(w \<mapsto> a'))"
    using assms(2) st by (auto simp: wake_at_def resE split: option.splits list.splits)
  then show ?thesis
  proof cases
    case 1
    with assms(1) show ?thesis by simp
  next
    case 2
    show ?thesis unfolding keeps_acquired_def
    proof (intro ballI allI impI)
      fix x b
      assume x: "x \<in> set acqs" and b: "snd st' (acq_node_id x) = Some b"
      show "set (acq_acquired x) \<subseteq> set (acq_acquired b)"
      proof (cases "acq_node_id x = w")
        case True
        then have "set (acq_acquired x) \<subseteq> set (acq_acquired a)" using assms(1) x 2(1) st by (auto simp: keeps_acquired_def)
        then show ?thesis using advance_grows [OF 2(2)] b 2(3) True by auto
      next
        case False
        then show ?thesis using assms(1) x b 2(3) st by (auto simp: keeps_acquired_def)
      qed
    qed
  qed
qed

lemma release_grows:
  assumes rel: "release s n = Inr t" and d: "distinct (map acq_node_id (snap_acquisitions s))"
    and a: "a \<in> set (snap_acquisitions s)" "acq_node_id a \<noteq> n"
  shows "\<exists>b\<in>set (snap_acquisitions t). acq_node_id b = acq_node_id a \<and> set (acq_acquired a) \<subseteq> set (acq_acquired b)"
proof -
  let ?ids = "resource_ids s"
  define rest where "rest = filter (\<lambda>b. acq_node_id b \<noteq> n) (snap_acquisitions s)"
  obtain ls ls' by_node acqs where wake: "foldE (wake_at ?ids) (ls, acquisition_of rest) [0..<length ls] = Inr (ls', by_node)"
    and out: "mapE (\<lambda>b. case by_node (acq_node_id b) of None \<Rightarrow> Inl (KeyError (acq_node_id b))
                        | Some b' \<Rightarrow> Inr b') rest = Inr acqs"
    and t: "snap_acquisitions t = acqs"
    using rel by (auto simp: release_def Let_def rest_def resE split: option.splits if_splits prod.splits)
  have dr: "distinct (map acq_node_id rest)" using d by (simp add: rest_def distinct_map_filter)
  have "keeps_acquired rest (ls, acquisition_of rest)"
    using acquisition_of_eq [OF dr] by (auto simp: keeps_acquired_def)
  then have k: "keeps_acquired rest (ls', by_node)" by (rule foldE_invariant [OF wake]) (rule wake_at_grows)
  have own: "acq_node_id b = m" if "by_node m = Some b" for m b
  proof -
    have "\<forall>m b. snd (ls', by_node) m = Some b \<longrightarrow> acq_node_id b = m"
      by (rule foldE_invariant [OF wake])
        (auto simp: wake_at_def resE dest: acquisition_of_SomeD split: option.splits list.splits if_splits,
         metis advance_keeps(1))
    with that show ?thesis by simp
  qed
  have ar: "a \<in> set rest" using a by (simp add: rest_def)
  have "list_all2 (\<lambda>b b'. by_node (acq_node_id b) = Some b') rest acqs"
    using out by (auto simp: mapE_eq_Inr elim!: list_all2_mono split: option.splits)
  then obtain b where "b \<in> set acqs" "by_node (acq_node_id a) = Some b" using ar
    by (auto simp: list_all2_conv_all_nth in_set_conv_nth) blast
  moreover from this have "set (acq_acquired a) \<subseteq> set (acq_acquired b)" using k ar by (simp add: keeps_acquired_def)
  ultimately show ?thesis using own t by blast
qed

lemma takeWhile_complete: "set rs \<subseteq> set (takeWhile P rs) \<Longrightarrow> takeWhile P rs = rs \<and> dropWhile P rs = []"
  by (auto simp: takeWhile_eq_all_conv dest: set_takeWhileD)

lemma greedy_all_acquired: "a \<in> set (greedy T reqs) \<Longrightarrow> set (acq_required a) \<subseteq> set (acq_acquired a) \<Longrightarrow> admitted a"
proof (induction T reqs rule: greedy.induct)
  case (2 taken n rs reqs)
  show ?case
  proof (cases "a = greedy_step taken n rs")
    case True
    with 2(3) takeWhile_complete [of rs "\<lambda>r. r \<notin> taken"] show ?thesis by (simp add: admitted_def next_of_def del: dropWhile_eq_Nil_conv)
  next
    case False
    with 2 show ?thesis by (simp add: Let_def)
  qed
qed simp

lemma admitted_survives:
  assumes rel: "reduce_resources r (ReleaseResources n) = Inr r'" and a: "a \<in> set (snap_acquisitions r)" "acq_node_id a \<noteq> n"
    and adm: "admitted a"
  shows "\<exists>b\<in>set (snap_acquisitions r'). acq_node_id b = acq_node_id a \<and> acq_required b = acq_required a \<and> admitted b"
proof -
  note v = reduce_resourcesD [OF rel]
  note d = valid_nodes_distinct [OF v(1)]
  have rl: "release r n = Inr r'" using v(2) by (auto simp: resE)
  from release_grows [OF rl d a] obtain b where b: "b \<in> set (snap_acquisitions r')" "acq_node_id b = acq_node_id a"
    "set (acq_acquired a) \<subseteq> set (acq_acquired b)" by blast
  obtain reqs where g: "snap_acquisitions r = greedy {} reqs" "requests r = reqs" using v(1) by (metis valid_snapshotE)
  have g': "snap_acquisitions r' = greedy {} (filter (\<lambda>q. fst q \<noteq> n) reqs)"
    using release_effect(3) [OF rel] g(2) by simp
  have "(acq_node_id b, acq_required b) \<in> set reqs" "(acq_node_id a, acq_required a) \<in> set reqs"
    using greedy_in_requests b(1) a(1) unfolding g(1) g' by fastforce+
  moreover have "distinct (map fst reqs)" using d unfolding g(1) greedy_nodes .
  ultimately have req: "acq_required b = acq_required a" using b(2) by (metis distinct_pair_unique)
  have "acq_acquired a = acq_required a" using adm by (simp add: admitted_def)
  then have "set (acq_required b) \<subseteq> set (acq_acquired b)" using b(3) req by simp
  then have "admitted b" using b(1) greedy_all_acquired unfolding g' by blast
  with b req show ?thesis by blast
qed

section \<open>What a settlement keeps\<close>

text \<open>
  The resources of a state match the plan: every pending node with requirements takes part with
  exactly these requirements, and nobody else takes part.
\<close>

definition requirements_of :: "compiled_graph \<Rightarrow> string \<Rightarrow> string list" where
  "requirements_of g n = (case map_of (cg_nodes g) n of Some (CallableNode rs _) \<Rightarrow> rs | _ \<Rightarrow> [])"

definition callable :: "compiled_graph \<Rightarrow> string \<Rightarrow> bool" where
  "callable g n \<longleftrightarrow> (case map_of (cg_nodes g) n of Some (CallableNode _ _) \<Rightarrow> True | _ \<Rightarrow> False)"

definition held_by :: "resource_snapshot option \<Rightarrow> resource_acquisition list" where
  "held_by res = (case res of None \<Rightarrow> [] | Some r \<Rightarrow> snap_acquisitions r)"

definition resources_match :: "compiled_graph \<Rightarrow> graph_run_state \<Rightarrow> bool" where
  "resources_match g s \<longleftrightarrow>
     (\<lambda>a. (acq_node_id a, acq_required a)) ` set (held_by (gr_resources s)) =
     {(n, requirements_of g n) |n. n \<in> set (pending_node_ids (gr_frontier s)) \<and> requirements_of g n \<noteq> []}"

definition holds_resources :: "compiled_graph \<Rightarrow> graph_run_state \<Rightarrow> string \<Rightarrow> bool" where
  "holds_resources g s n \<longleftrightarrow> requirements_of g n = [] \<or>
     (\<exists>a\<in>set (held_by (gr_resources s)). acq_node_id a = n \<and> admitted a \<and> acq_required a = requirements_of g n)"

lemma wf_acquisitions:
  assumes "wf_state s"
  shows "distinct (map acq_node_id (held_by (gr_resources s)))"
    and "held_by (gr_resources s) \<noteq> [] \<Longrightarrow> admitted (hd (held_by (gr_resources s)))"
    and "acq_node_id ` set (held_by (gr_resources s)) \<subseteq> set (pending_node_ids (gr_frontier s))"
  using assms
  by (auto simp: held_by_def wf_state_def wf_resources_def participant_ids_def valid_nodes_distinct first_admitted
      split: option.splits) (metis (no_types, lifting) image_subset_iff)

lemma settle_step:
  assumes "reduce_graph_run (Some s) (SettleGraphNode c) = Inr t"
  obtains r where "wf_state s" "wf_state t" "settle_resources (gr_resources s) (outcome_node_id (sn_outcome c)) = Inr r"
    "gr_resources t = (if pending_node_ids (gr_frontier t) = [] then None else r)"
    "set (pending_node_ids (gr_frontier t)) = set (pending_node_ids (gr_frontier s)) - {outcome_node_id (sn_outcome c)}"
    "map fn_node_id (gr_frontier t) = map fn_node_id (gr_frontier s)"
proof -
  have w: "wf_state s" using assms by (rule reduce_SomeD)
  note gd = settle_transition_guards [OF assms]
  obtain cu r where cu: "settle_config s (sn_config_cursor c) = Inr cu"
    and r: "settle_resources (gr_resources s) (outcome_node_id (sn_outcome c)) = Inr r" using gd(5,6) by blast
  obtain d where d: "frontier_status (replace_settlement (gr_frontier s) (outcome_node_id (sn_outcome c))
       (outcome_settlement (sn_outcome c))) = Inr d"
    "reduce_graph_run (Some s) (SettleGraphNode c) = Inr (settled_state s c r cu d)"
    using settle_enabled [OF w gd(1-4) cu r] by blast
  then have t: "t = settled_state s c r cu d" using assms by simp
  have "d = EXECUTABLE \<longleftrightarrow> pending_node_ids (gr_frontier t) \<noteq> []"
    using d(1) pending_node_ids_nonempty [of "gr_frontier t"] by (simp add: t)
  then have "gr_resources t = (if pending_node_ids (gr_frontier t) = [] then None else r)" by (simp add: t)
  moreover have "wf_state t" using assms by (rule reduce_SomeD)
  ultimately show thesis using that [OF w _ r] by (simp add: t pending_after_settlement)
qed

lemma settle_resources_held:
  assumes "settle_resources res n = Inr res'" and "\<forall>r. res = Some r \<longrightarrow> validate_resource_snapshot r = Inr ()"
  shows "(\<lambda>a. (acq_node_id a, acq_required a)) ` set (held_by res') =
      {q \<in> (\<lambda>a. (acq_node_id a, acq_required a)) ` set (held_by res). fst q \<noteq> n}"
    and "a \<in> set (held_by res) \<Longrightarrow> acq_node_id a \<noteq> n \<Longrightarrow> admitted a \<Longrightarrow>
      \<exists>b\<in>set (held_by res'). acq_node_id b = acq_node_id a \<and> acq_required b = acq_required a \<and> admitted b"
proof -
  consider (none) "res = None" "res' = None" | (other) r where "res = Some r" "n \<notin> set (participant_ids r)" "res' = Some r"
    | (own) r r' where "res = Some r" "reduce_resources r (ReleaseResources n) = Inr r'" "held_by res' = snap_acquisitions r'"
    using assms(1) by (auto simp: settle_resources_def bindE_eq_Inr except_resource_error_ok held_by_def
        split: option.splits if_splits)
  note cs = this
  from cs show "(\<lambda>a. (acq_node_id a, acq_required a)) ` set (held_by res') =
      {q \<in> (\<lambda>a. (acq_node_id a, acq_required a)) ` set (held_by res). fst q \<noteq> n}"
  proof cases
    case own
    from release_effect(1) [OF own(2)] have "set (requests r') = {q \<in> set (requests r). fst q \<noteq> n}" by simp
    then show ?thesis using own by (simp add: held_by_def requests_def)
  qed (auto simp: held_by_def participant_ids_def)
  show "\<exists>b\<in>set (held_by res'). acq_node_id b = acq_node_id a \<and> acq_required b = acq_required a \<and> admitted b"
    if "a \<in> set (held_by res)" "acq_node_id a \<noteq> n" "admitted a"
    using cs
  proof cases
    case own
    with that admitted_survives [OF own(2), of a] show ?thesis by (simp add: held_by_def)
  qed (use that in \<open>auto simp: held_by_def\<close>)
qed

lemma settle_held:
  assumes "reduce_graph_run (Some s) (SettleGraphNode c) = Inr t" and n: "n = outcome_node_id (sn_outcome c)"
  shows "(\<lambda>a. (acq_node_id a, acq_required a)) ` set (held_by (gr_resources t)) =
      {q \<in> (\<lambda>a. (acq_node_id a, acq_required a)) ` set (held_by (gr_resources s)). fst q \<noteq> n}"
    and "a \<in> set (held_by (gr_resources s)) \<Longrightarrow> acq_node_id a \<noteq> n \<Longrightarrow> admitted a \<Longrightarrow>
      \<exists>b\<in>set (held_by (gr_resources t)). acq_node_id b = acq_node_id a \<and> acq_required b = acq_required a \<and> admitted b"
proof -
  let ?req = "\<lambda>a. (acq_node_id a, acq_required a)"
  from assms obtain r where st: "wf_state s" "settle_resources (gr_resources s) n = Inr r"
    "gr_resources t = (if pending_node_ids (gr_frontier t) = [] then None else r)"
    "set (pending_node_ids (gr_frontier t)) = set (pending_node_ids (gr_frontier s)) - {n}" by (metis settle_step)
  have v: "\<forall>q. gr_resources s = Some q \<longrightarrow> validate_resource_snapshot q = Inr ()"
    using st(1) by (simp add: wf_state_def wf_resources_def)
  note h = settle_resources_held [OF st(2) v]
  have "held_by r = []" if "pending_node_ids (gr_frontier t) = []"
  proof -
    have "fst ` ?req ` set (held_by r) \<subseteq> set (pending_node_ids (gr_frontier t))"
      unfolding h(1) st(4) using wf_acquisitions(3) [OF st(1)] by auto
    then show ?thesis using that by simp
  qed
  then have e: "held_by (gr_resources t) = held_by r" using st(3) by (simp add: held_by_def)
  from h(1) show "?req ` set (held_by (gr_resources t)) = {q \<in> ?req ` set (held_by (gr_resources s)). fst q \<noteq> n}"
    by (simp only: e)
  from h(2) show "\<exists>b\<in>set (held_by (gr_resources t)). acq_node_id b = acq_node_id a \<and> acq_required b = acq_required a \<and> admitted b"
    if "a \<in> set (held_by (gr_resources s))" "acq_node_id a \<noteq> n" "admitted a"
    using that by (simp only: e)
qed

lemma settle_keeps_resources:
  assumes "reduce_graph_run (Some s) (SettleGraphNode c) = Inr t"
  shows "holds_resources g s m \<Longrightarrow> m \<noteq> outcome_node_id (sn_outcome c) \<Longrightarrow> holds_resources g t m"
    and "resources_match g s \<Longrightarrow> resources_match g t"
proof -
  show "holds_resources g t m" if "holds_resources g s m" "m \<noteq> outcome_node_id (sn_outcome c)"
    using that settle_held(2) [OF assms refl] by (auto simp: holds_resources_def) metis
  have "set (pending_node_ids (gr_frontier t)) = set (pending_node_ids (gr_frontier s)) - {outcome_node_id (sn_outcome c)}"
    using assms by (rule settle_step)
  then show "resources_match g t" if "resources_match g s"
    using that unfolding resources_match_def settle_held(1) [OF assms refl] by auto
qed

section \<open>Selection of tasks\<close>

definition node_of :: "('v, 'h, 'c, 'p) executable_task \<Rightarrow> string" where
  "node_of x = gt_node_id (et_task x)"

definition startable :: "compiled_graph \<Rightarrow> (string \<rightharpoonup> resource_acquisition) \<Rightarrow> string set \<Rightarrow> string \<Rightarrow> bool" where
  "startable g acq started n \<longleftrightarrow> n \<notin> started \<and> callable g n \<and>
     (requirements_of g n = [] \<or> (\<exists>a. acq n = Some a \<and> admitted a \<and> acq_required a = requirements_of g n))"

lemma select_loop_step:
  assumes "select_loop g acq slots started sel (t # ts) = Inr out"
  shows "\<not> startable g acq started (gt_node_id t) \<and> select_loop g acq slots started sel ts = Inr out \<or>
    startable g acq started (gt_node_id t) \<and>
      (if int (length sel) + 1 = slots then out = sel @ [t] else select_loop g acq slots started (sel @ [t]) ts = Inr out)"
proof (cases "gt_node_id t \<in> started")
  case True
  with assms show ?thesis by (simp add: startable_def)
next
  case new: False
  show ?thesis
  proof (cases "map_of (cg_nodes g) (gt_node_id t)")
    case None
    with assms new show ?thesis by (simp add: fm_get_def)
  next
    case (Some d)
    show ?thesis
    proof (cases d)
      case NestedNode
      with assms new Some show ?thesis by (simp add: fm_get_def startable_def callable_def)
    next
      case (CallableNode rs routes)
      have "startable g acq started (gt_node_id t) \<longleftrightarrow>
          rs = [] \<or> (case acq (gt_node_id t) of None \<Rightarrow> False | Some a \<Rightarrow> admitted a \<and> acq_required a = rs)"
        using new Some CallableNode by (simp add: startable_def callable_def requirements_of_def split: option.split)
      with assms new Some CallableNode show ?thesis
        by (cases "acq (gt_node_id t)") (auto simp: fm_get_def Let_def ac_simps split: if_splits)
    qed
  qed
qed

lemma select_loop_sound:
  assumes "select_loop g acq slots started sel ts = Inr out" and "int (length sel) < slots"
  shows "\<exists>picked. out = sel @ picked \<and> set picked \<subseteq> set ts \<and> (distinct (map gt_node_id ts) \<longrightarrow> distinct (map gt_node_id picked)) \<and>
    int (length out) \<le> slots \<and> (\<forall>t\<in>set picked. startable g acq started (gt_node_id t)) \<and>
    ((\<exists>t\<in>set ts. startable g acq started (gt_node_id t)) \<longrightarrow> picked \<noteq> [])"
  using assms
proof (induction ts arbitrary: sel)
  case (Cons t ts)
  show ?case
  proof (cases "startable g acq started (gt_node_id t)")
    case False
    with select_loop_step [OF Cons.prems(1)] have "select_loop g acq slots started sel ts = Inr out" by blast
    from Cons.IH [OF this Cons.prems(2)] False show ?thesis by auto
  next
    case True
    note st = select_loop_step [OF Cons.prems(1)]
    show ?thesis
    proof (cases "int (length sel) + 1 = slots")
      case full: True
      with st True have "out = sel @ [t]" by simp
      with True full show ?thesis by auto
    next
      case False
      with st True have "select_loop g acq slots started (sel @ [t]) ts = Inr out" by simp
      from Cons.IH [OF this] False Cons.prems(2) obtain picked where p: "out = sel @ t # picked" "set picked \<subseteq> set ts"
        "distinct (map gt_node_id ts) \<longrightarrow> distinct (map gt_node_id picked)" "int (length out) \<le> slots"
        "\<forall>t\<in>set picked. startable g acq started (gt_node_id t)" by auto
      with True show ?thesis by (intro exI [of _ "t # picked"]) auto
    qed
  qed
qed auto

lemma select_executable_sound:
  assumes sel: "select_executable_tasks g tasks res limits active started = Inr out" and d: "distinct (map gt_node_id tasks)"
    and active: "0 \<le> active" "active \<le> el_max_parallel_tasks limits"
  shows "set out \<subseteq> set tasks" "distinct (map gt_node_id out)" "active + int (length out) \<le> el_max_parallel_tasks limits"
    "t \<in> set out \<Longrightarrow> startable g (acquisition_of (held_by res)) started (gt_node_id t)"
    "active < el_max_parallel_tasks limits \<Longrightarrow> t \<in> set tasks \<Longrightarrow>
       startable g (acquisition_of (held_by res)) started (gt_node_id t) \<Longrightarrow> out \<noteq> []"
proof -
  let ?acq = "acquisition_of (held_by res)"
  let ?P = "set out \<subseteq> set tasks \<and> distinct (map gt_node_id out) \<and> active + int (length out) \<le> el_max_parallel_tasks limits \<and>
    (\<forall>t\<in>set out. startable g ?acq started (gt_node_id t)) \<and>
    (active < el_max_parallel_tasks limits \<longrightarrow> (\<exists>t\<in>set tasks. startable g ?acq started (gt_node_id t)) \<longrightarrow> out \<noteq> [])"
  have ?P
  proof (cases "el_max_parallel_tasks limits - active \<le> 0")
    case True
    with sel active show ?thesis by (auto simp: select_executable_tasks_def)
  next
    case False
    with sel have "select_loop g ?acq (el_max_parallel_tasks limits - active) started [] (sort_key task_sort_key tasks) = Inr out"
      by (simp add: select_executable_tasks_def held_by_def)
    from select_loop_sound [OF this] False d show ?thesis
      by (auto simp: distinct_map)
  qed
  then show "set out \<subseteq> set tasks" "distinct (map gt_node_id out)" "active + int (length out) \<le> el_max_parallel_tasks limits"
    "t \<in> set out \<Longrightarrow> startable g (acquisition_of (held_by res)) started (gt_node_id t)"
    "active < el_max_parallel_tasks limits \<Longrightarrow> t \<in> set tasks \<Longrightarrow>
       startable g (acquisition_of (held_by res)) started (gt_node_id t) \<Longrightarrow> out \<noteq> []" by blast+
qed

section \<open>The safety invariant\<close>

text \<open>Nodes whose completion is known to the session but not yet acknowledged.\<close>

definition outstanding :: "('v, 'h, 'c, 'p, 'x) execution_session \<Rightarrow> string set" where
  "outstanding ss =
     (\<lambda>(r, _). gt_node_id (tr_task r)) ` set (ss_queued_results ss) \<union>
     (\<lambda>e. gt_node_id (event_task e)) ` set (sc_events (ss_scheduler ss)) \<union>
     (case ss_awaiting_ack ss of None \<Rightarrow> {} | Some c \<Rightarrow> {outcome_node_id (sn_outcome c)})"

abbreviation live :: "('v, 'h, 'c, 'p, 'x) execution_session \<Rightarrow> ('v, 'h, 'c, 'p) executable_task list" where
  "live ss \<equiv> sc_live (ss_scheduler ss)"

abbreviation pending :: "('v, 'h, 'c, 'p, 'x) execution_session \<Rightarrow> string list" where
  "pending ss \<equiv> pending_node_ids (gr_frontier (ss_state ss))"

definition same_claim :: "('v, 'h, 'c, 'p, 'x) execution_session \<Rightarrow> ('v, 'h, 'c, 'p, 'x) execution_session \<Rightarrow> bool" where
  "same_claim ss ss' \<longleftrightarrow> ss_limits ss' = ss_limits ss \<and> ss_executables ss' = ss_executables ss"

definition same_pool :: "('v, 'h, 'c, 'p, 'x) execution_session \<Rightarrow> ('v, 'h, 'c, 'p, 'x) execution_session \<Rightarrow> bool" where
  "same_pool ss ss' \<longleftrightarrow> same_claim ss ss' \<and> ss_state ss' = ss_state ss \<and> ss_started ss' = ss_started ss \<and> live ss' = live ss"

definition wf_claim :: "('v, 'h, 'c, 'p, 'x) execution_session \<Rightarrow> bool" where
  "wf_claim ss \<longleftrightarrow> 1 \<le> el_max_parallel_tasks (ss_limits ss) \<and> distinct (map node_of (ss_executables ss)) \<and>
     inj_on executable_id (set (ss_executables ss))"

definition live_inv :: "compiled_graph \<Rightarrow> ('v, 'h, 'c, 'p, 'x) execution_session \<Rightarrow> bool" where
  "live_inv g ss \<longleftrightarrow> wf_claim ss \<and> wf_state (ss_state ss) \<and>
     set (live ss) \<subseteq> set (ss_executables ss) \<and> distinct (map node_of (live ss)) \<and>
     node_of ` set (live ss) \<subseteq> ss_started ss \<and> int (length (live ss)) \<le> el_max_parallel_tasks (ss_limits ss) \<and>
     (\<forall>x\<in>set (live ss). callable g (node_of x) \<and> node_of x \<in> set (pending ss) \<and> holds_resources g (ss_state ss) (node_of x)) \<and>
     (\<forall>n\<in>outstanding ss. n \<notin> node_of ` set (live ss) \<and> (callable g n \<longrightarrow> n \<in> ss_started ss))"

lemma live_inv_more:
  assumes "live_inv g ss" and "same_pool ss ss'" and "outstanding ss' \<subseteq> N \<union> outstanding ss"
    and "\<And>n. n \<in> N \<Longrightarrow> n \<notin> node_of ` set (live ss) \<and> (callable g n \<longrightarrow> n \<in> ss_started ss)"
  shows "live_inv g ss'"
proof -
  have "\<forall>n\<in>outstanding ss'. n \<notin> node_of ` set (live ss) \<and> (callable g n \<longrightarrow> n \<in> ss_started ss)"
    using assms(1,3,4) by (auto simp: live_inv_def) blast
  then show ?thesis using assms(1,2) by (auto simp: live_inv_def same_pool_def same_claim_def wf_claim_def)
qed

lemma live_inv_pool:
  assumes "live_inv g ss" and "same_pool ss ss'" and "outstanding ss' \<subseteq> outstanding ss"
  shows "live_inv g ss'"
  using assms by (auto simp: live_inv_def same_pool_def same_claim_def wf_claim_def)

lemma outcome_node_settle: "settle_result g s r = Inr c \<Longrightarrow> outcome_node_id (sn_outcome c) = gt_node_id (tr_task r)"
  by (cases r) (auto simp: settle_result_def project_success_settlement_def project_failure_settlement_def
      project_interrupt_settlement_def Let_def resE split: if_splits option.splits)

lemma confirmed_settlement:
  assumes "admit_graph_run_confirmation (Some s) (SettleGraphNode c) t = Inr r"
  obtains c' where "reduce_graph_run (Some s) (SettleGraphNode c') = Inr t" "sn_outcome c' = sn_outcome c"
proof -
  from assms consider "reduce_graph_run (Some s) (SettleGraphNode c) = Inr t"
    | b where "bind_evidence (SettleGraphNode c) t = Inr b" "reduce_graph_run (Some s) b = Inr t"
    by (auto simp: admit_graph_run_confirmation_def bindE_eq_Inr simp del: reduce_graph_run.simps bind_evidence.simps
        split: if_splits)
  then show thesis
  proof cases
    case 1
    then show ?thesis using that by blast
  next
    case 2
    from 2(1) obtain e where "b = SettleGraphNode (c\<lparr>sn_publication_evidence := Some e\<rparr>)"
      by (auto simp: Let_def bindE_eq_Inr split: node_outcome.splits list.splits option.splits if_splits)
    with 2(2) that [of "c\<lparr>sn_publication_evidence := Some e\<rparr>"] show ?thesis by (simp del: reduce_graph_run.simps)
  qed
qed

lemma acknowledge_cases:
  assumes "acknowledge g ss s = Inr ss'"
  obtains "ss' = ss" "ss_awaiting_ack ss = None"
  | c where "reduce_graph_run (Some (ss_state ss)) (SettleGraphNode c) = Inr s" "outcome_node_id (sn_outcome c) \<in> outstanding ss"
      "ss' = ss\<lparr>ss_state := s, ss_awaiting_ack := None\<rparr>"
      "outstanding ss \<subseteq> insert (outcome_node_id (sn_outcome c)) (outstanding ss')"
proof (cases "ss_awaiting_ack ss")
  case None
  with assms that(1) show thesis by (simp add: acknowledge_def resE)
next
  case (Some c)
  have "catchE m (\<lambda>e. case e of GraphStateTransitionError _ \<Rightarrow> Inl x | _ \<Rightarrow> Inl e) = Inr y \<longleftrightarrow> m = Inr y"
    for m :: "graph_run_state res" and x y by (rule catchE_raising) (auto split: kernel_error.splits)
  with assms Some obtain r where r: "admit_graph_run_confirmation (Some (ss_state ss)) (SettleGraphNode c) s = Inr r"
    "ss' = ss\<lparr>ss_state := s, ss_awaiting_ack := None\<rparr>" by (auto simp: acknowledge_def bindE_eq_Inr)
  from r(1) obtain c' where c': "reduce_graph_run (Some (ss_state ss)) (SettleGraphNode c') = Inr s" "sn_outcome c' = sn_outcome c"
    by (rule confirmed_settlement)
  show thesis
    by (rule that(2) [OF c'(1) _ r(2)]) (use Some c'(2) r(2) in \<open>auto simp: outstanding_def\<close>)
qed

lemma acknowledge_live_inv:
  assumes "live_inv g ss" and "acknowledge g ss s = Inr ss'"
  shows "live_inv g ss' \<and> ss_awaiting_ack ss' = None"
  using assms(2)
proof (cases rule: acknowledge_cases)
  case 1
  with assms(1) show ?thesis by simp
next
  case (2 c)
  let ?n = "outcome_node_id (sn_outcome c)"
  have n: "?n \<notin> node_of ` set (live ss)" using assms(1) 2(2) by (simp add: live_inv_def)
  have t: "wf_state s" "set (pending_node_ids (gr_frontier s)) = set (pending ss) - {?n}" using 2(1) by (metis settle_step)+
  have "callable g (node_of x) \<and> node_of x \<in> set (pending_node_ids (gr_frontier s)) \<and> holds_resources g s (node_of x)"
    if "x \<in> set (live ss)" for x
  proof -
    have "callable g (node_of x)" "node_of x \<in> set (pending ss)" "holds_resources g (ss_state ss) (node_of x)"
      using that assms(1) by (auto simp: live_inv_def)
    moreover have "node_of x \<noteq> ?n" using n imageI [OF that, of node_of] by metis
    ultimately show ?thesis using settle_keeps_resources(1) [OF 2(1)] t(2) by blast
  qed
  moreover have "outstanding ss' \<subseteq> outstanding ss" by (auto simp: 2(3) outstanding_def)
  ultimately show ?thesis using assms(1) t(1) 2(3) by (auto simp: live_inv_def wf_claim_def)
qed

lemma case_option_Inr: "(case m of None \<Rightarrow> Inl e | Some x \<Rightarrow> Inr x) = Inr y \<longleftrightarrow> m = Some y"
  by (cases m) auto

lemma select_ordinary_sound:
  assumes inv: "live_inv g ss" and sel: "select_ordinary g ss = Inr selected"
  shows "set selected \<subseteq> set (ss_executables ss)" "distinct (map node_of selected)"
    "int (length (live ss) + length selected) \<le> el_max_parallel_tasks (ss_limits ss)"
    "x \<in> set selected \<Longrightarrow> node_of x \<in> set (pending ss) \<and>
       startable g (acquisition_of (held_by (gr_resources (ss_state ss)))) (ss_started ss) (node_of x)"
    "ss_disposition ss = OPEN \<Longrightarrow> live ss = [] \<Longrightarrow> x \<in> set (ss_executables ss) \<Longrightarrow> node_of x \<in> set (pending ss) \<Longrightarrow>
       startable g (acquisition_of (held_by (gr_resources (ss_state ss)))) (ss_started ss) (node_of x) \<Longrightarrow> selected \<noteq> []"
proof -
  define xs where "xs = filter (\<lambda>x. gt_node_id (et_task x) \<in> set (pending ss)) (ss_executables ss)"
  let ?started = "startable g (acquisition_of (held_by (gr_resources (ss_state ss)))) (ss_started ss)"
  have wc: "wf_claim ss" using inv by (simp add: live_inv_def)
  have d: "distinct (map gt_node_id (map et_task xs))" using wc
    by (simp add: xs_def wf_claim_def node_of_def [abs_def] comp_def distinct_map_filter)
  have inj: "inj_on executable_id (set xs)" using wc by (auto simp: xs_def wf_claim_def intro: inj_on_subset)
  have bound: "0 \<le> live_count (ss_scheduler ss)" "live_count (ss_scheduler ss) \<le> el_max_parallel_tasks (ss_limits ss)"
    using inv by (simp_all add: live_inv_def live_count_def)
  let ?P = "set selected \<subseteq> set xs \<and> distinct (map node_of selected) \<and>
    int (length (live ss) + length selected) \<le> el_max_parallel_tasks (ss_limits ss) \<and> (\<forall>x\<in>set selected. ?started (node_of x)) \<and>
    (ss_disposition ss = OPEN \<longrightarrow> live ss = [] \<longrightarrow> (\<exists>x\<in>set xs. ?started (node_of x)) \<longrightarrow> selected \<noteq> [])"
  have ?P
  proof (cases "ss_disposition ss = OPEN")
    case False
    with sel bound show ?thesis by (simp add: select_ordinary_def live_count_def)
  next
    case True
    then obtain ts where ts: "select_executable_tasks g (map et_task xs) (gr_resources (ss_state ss)) (ss_limits ss)
        (live_count (ss_scheduler ss)) (ss_started ss) = Inr ts"
      and m: "list_all2 (\<lambda>t x. map_of (rev (map (\<lambda>x. (executable_id x, x)) xs)) (gt_task_id t) = Some x) ts selected"
      using sel by (auto simp: select_ordinary_def xs_def Let_def bindE_eq_Inr mapE_eq_Inr case_option_Inr)
    note s = select_executable_sound [OF ts d bound]
    have "list_all2 (\<lambda>t x. x \<in> set xs \<and> t = et_task x) ts selected"
    proof (rule list.rel_mono_strong [OF m])
      fix t x
      assume t: "t \<in> set ts" and x: "map_of (rev (map (\<lambda>x. (executable_id x, x)) xs)) (gt_task_id t) = Some x"
      have x': "x \<in> set xs" "gt_task_id t = executable_id x" using map_of_SomeD [OF x] by auto
      from s(1) t obtain y where y: "y \<in> set xs" "t = et_task y" by auto
      then have "executable_id y = executable_id x" using x'(2) by (simp add: executable_id_def)
      then have "y = x" using inj y(1) x'(1) by (auto simp: inj_on_def)
      with x' y show "x \<in> set xs \<and> t = et_task x" by simp
    qed
    then have e: "set selected \<subseteq> set xs" "ts = map et_task selected"
      by (auto simp: list_all2_conv_all_nth in_set_conv_nth intro!: nth_equalityI)
    then have nodes: "map gt_node_id ts = map node_of selected" by (simp add: node_of_def)
    have pos: "live ss = [] \<Longrightarrow> live_count (ss_scheduler ss) < el_max_parallel_tasks (ss_limits ss)"
      using wc by (simp add: live_count_def wf_claim_def)
    show ?thesis
    proof (intro conjI impI)
      show "distinct (map node_of selected)" using s(2) nodes by simp
      show "int (length (live ss) + length selected) \<le> el_max_parallel_tasks (ss_limits ss)"
        using s(3) e(2) by (simp add: live_count_def)
      show "\<forall>x\<in>set selected. ?started (node_of x)" using s(4) e(2) by (auto simp: node_of_def)
      show "selected \<noteq> []" if "live ss = []" "\<exists>x\<in>set xs. ?started (node_of x)"
        using s(5) [OF pos [OF that(1)]] that(2) e(2) by (auto simp: node_of_def)
    qed (rule e(1))
  qed
  then show "set selected \<subseteq> set (ss_executables ss)" "distinct (map node_of selected)"
    "int (length (live ss) + length selected) \<le> el_max_parallel_tasks (ss_limits ss)"
    "x \<in> set selected \<Longrightarrow> node_of x \<in> set (pending ss) \<and> ?started (node_of x)"
    "ss_disposition ss = OPEN \<Longrightarrow> live ss = [] \<Longrightarrow> x \<in> set (ss_executables ss) \<Longrightarrow> node_of x \<in> set (pending ss) \<Longrightarrow>
       ?started (node_of x) \<Longrightarrow> selected \<noteq> []"
    by (auto simp: xs_def node_of_def)
qed

lemma startable_holds:
  "startable g (acquisition_of (held_by (gr_resources s))) started n \<Longrightarrow> callable g n \<and> n \<notin> started \<and> holds_resources g s n"
  by (auto simp: startable_def holds_resources_def dest: acquisition_of_SomeD)

lemma schedule_live_inv:
  assumes inv: "live_inv g ss" and sch: "schedule_ordinary g ss = Inr (ss', b)"
  shows "live_inv g ss'"
proof -
  from sch obtain selected sc where sel: "select_ordinary g ss = Inr selected" and sub: "submit (ss_scheduler ss) selected = Inr sc"
    and ss': "ss' = ss\<lparr>ss_scheduler := sc, ss_started := ss_started ss \<union> node_of ` set selected\<rparr>"
    by (auto simp: schedule_ordinary_def bindE_eq_Inr node_of_def [abs_def])
  note s = select_ordinary_sound [OF inv sel]
  have sc: "sc = (ss_scheduler ss)\<lparr>sc_live := live ss @ selected\<rparr>" using sub by (auto simp: submit_def Let_def split: if_splits)
  have st: "callable g (node_of x) \<and> node_of x \<notin> ss_started ss \<and> node_of x \<in> set (pending ss) \<and> holds_resources g (ss_state ss) (node_of x)"
    if "x \<in> set selected" for x using s(4) [OF that] startable_holds by blast
  have o: "outstanding ss' = outstanding ss" by (simp add: ss' sc outstanding_def)
  have "distinct (map node_of (live ss @ selected))" using inv s(2) st by (auto simp: live_inv_def)
  moreover have "n \<notin> node_of ` set (live ss @ selected) \<and> (callable g n \<longrightarrow> n \<in> ss_started ss \<union> node_of ` set selected)"
    if "n \<in> outstanding ss" for n using inv that st by (auto simp: live_inv_def)
  ultimately show ?thesis using inv s(1,3) st unfolding live_inv_def o by (auto simp: ss' sc wf_claim_def)
qed

section \<open>Every atomic section keeps it\<close>

lemma record_error_pool: "same_pool ss (record_error ss x) \<and> outstanding (record_error ss x) = outstanding ss"
  by (simp add: record_error_def same_pool_def same_claim_def outstanding_def Let_def)

lemma record_errors_pool:
  "same_pool ss (foldl record_error ss xs) \<and> outstanding (foldl record_error ss xs) = outstanding ss \<and>
   sc_events (ss_scheduler (foldl record_error ss xs)) = sc_events (ss_scheduler ss) \<and>
   ss_awaiting_ack (foldl record_error ss xs) = ss_awaiting_ack ss \<and>
   ss_queued_results (foldl record_error ss xs) = ss_queued_results ss"
proof (induction xs arbitrary: ss)
  case Nil
  show ?case by (simp add: same_pool_def same_claim_def)
next
  case (Cons x xs)
  have "same_pool ss (record_error ss x)" using record_error_pool by blast
  with Cons.IH [of "record_error ss x"] show ?case
    by (auto simp: same_pool_def same_claim_def record_error_def outstanding_def Let_def)
qed

lemma drain_pool:
  "same_pool ss (drain_scheduler_events ss) \<and> outstanding (drain_scheduler_events ss) \<subseteq> outstanding ss \<and>
   sc_events (ss_scheduler (drain_scheduler_events ss)) = [] \<and>
   ss_awaiting_ack (drain_scheduler_events ss) = ss_awaiting_ack ss"
proof -
  obtain sc errors completions where d: "drain_pending_events (ss_scheduler ss) = (sc, errors, completions)"
    by (cases "drain_pending_events (ss_scheduler ss)") auto
  then have sc: "sc = (ss_scheduler ss)\<lparr>sc_events := []\<rparr>"
    and c: "set completions \<subseteq> {r. TaskDone r \<in> set (sc_events (ss_scheduler ss))}"
    by (auto simp: drain_pending_events_def map_filter_def split: task_event.splits)
  define u where "u = ss\<lparr>ss_scheduler := sc\<rparr>"
  note f = record_errors_pool [of u errors]
  have e: "drain_scheduler_events ss = (foldl record_error u errors)\<lparr>ss_queued_results :=
      ss_queued_results (foldl record_error u errors) @ map (\<lambda>r. (r, True)) completions\<rparr>"
    by (simp add: drain_scheduler_events_def d u_def Let_def)
  have "same_pool ss (drain_scheduler_events ss)" using f by (simp add: e same_pool_def same_claim_def) (simp add: u_def sc)
  moreover have "sc_events (ss_scheduler (drain_scheduler_events ss)) = []" using f by (simp add: e) (simp add: u_def sc)
  moreover have "ss_awaiting_ack (drain_scheduler_events ss) = ss_awaiting_ack ss" using f by (simp add: e) (simp add: u_def)
  moreover have "outstanding (drain_scheduler_events ss) \<subseteq> outstanding ss"
  proof -
    have q: "ss_queued_results (drain_scheduler_events ss) = ss_queued_results ss @ map (\<lambda>r. (r, True)) completions"
      using f by (simp add: e) (simp add: u_def)
    show ?thesis unfolding outstanding_def q calculation(2,3) using c by force
  qed
  ultimately show ?thesis by blast
qed

lemma project_completion_eq:
  assumes "project_completion g ss r = Inr (ss', x)"
  shows "\<exists>c. ss' = ss\<lparr>ss_awaiting_ack := Some c\<rparr> \<and> outcome_node_id (sn_outcome c) = gt_node_id (tr_task r)"
  using assms by (auto simp: project_completion_def bindE_eq_Inr dest: outcome_node_settle)

lemma project_live_inv:
  assumes "live_inv g ss" and "project_completion g ss r = Inr (ss', x)"
    and "gt_node_id (tr_task r) \<notin> node_of ` set (live ss)" "callable g (gt_node_id (tr_task r)) \<longrightarrow> gt_node_id (tr_task r) \<in> ss_started ss"
  shows "live_inv g ss'"
proof -
  from project_completion_eq [OF assms(2)] obtain c where c: "ss' = ss\<lparr>ss_awaiting_ack := Some c\<rparr>"
    "outcome_node_id (sn_outcome c) = gt_node_id (tr_task r)" by blast
  show ?thesis
  proof (rule live_inv_more [OF assms(1), of ss' "{gt_node_id (tr_task r)}"])
    show "same_pool ss ss'" by (simp add: c(1) same_pool_def same_claim_def)
    show "outstanding ss' \<subseteq> {gt_node_id (tr_task r)} \<union> outstanding ss" by (auto simp: c outstanding_def)
  qed (use assms(3,4) in simp)
qed

lemma pop_live_inv:
  assumes "live_inv g ss" and q: "ss_queued_results ss = (r, b) # qs"
  shows "live_inv g (ss\<lparr>ss_queued_results := qs\<rparr>)" "gt_node_id (tr_task r) \<notin> node_of ` set (live ss)"
    "callable g (gt_node_id (tr_task r)) \<longrightarrow> gt_node_id (tr_task r) \<in> ss_started ss"
proof -
  have "gt_node_id (tr_task r) \<in> outstanding ss" by (simp add: outstanding_def q)
  with assms(1) show "gt_node_id (tr_task r) \<notin> node_of ` set (live ss)"
    "callable g (gt_node_id (tr_task r)) \<longrightarrow> gt_node_id (tr_task r) \<in> ss_started ss" by (auto simp: live_inv_def)
  have "outstanding (ss\<lparr>ss_queued_results := qs\<rparr>) \<subseteq> outstanding ss" by (auto simp: outstanding_def q)
  then show "live_inv g (ss\<lparr>ss_queued_results := qs\<rparr>)"
    using assms(1) by (auto intro: live_inv_pool simp: same_pool_def same_claim_def)
qed

lemma live_inv_phase [simp]: "live_inv g (ss\<lparr>ss_phase := p\<rparr>) = live_inv g ss" "live_inv g (ss\<lparr>ss_disposition := d\<rparr>) = live_inv g ss"
  "live_inv g (ss\<lparr>ss_node_origin_cancellation := x\<rparr>) = live_inv g ss"
  by (simp_all add: live_inv_def outstanding_def wf_claim_def)

lemma close_live_inv: "live_inv g ss \<Longrightarrow> live_inv g (close_session ss)"
  by (auto simp: close_session_def live_inv_def outstanding_def wf_claim_def)

lemma finish_idle_live_inv: "live_inv g ss \<Longrightarrow> live_inv g (fst (finish_idle g ss))"
  by (simp add: finish_idle_def Let_def split: option.split)

lemma next_pass_live_inv:
  assumes "live_inv g ss" and "next_pass g ss = (ss', r)"
  shows "live_inv g ss'"
proof -
  define d where "d = drain_scheduler_events ss"
  have inv: "live_inv g d" using live_inv_pool [OF assms(1)] drain_pool unfolding d_def by blast
  show ?thesis
  proof (cases "ss_node_origin_cancellation d")
    case (Some x)
    with assms(2) close_live_inv [OF inv] show ?thesis by (simp add: next_pass_def d_def [symmetric])
  next
    case origin: None
    show ?thesis
    proof (cases "ss_queued_results d")
      case Nil
      show ?thesis
      proof (cases "schedule_ordinary g d")
        case (Inl e)
        with assms(2) inv origin Nil show ?thesis by (simp add: next_pass_def d_def [symmetric])
      next
        case (Inr y)
        obtain ss1 b where y: "y = (ss1, b)" by (cases y)
        have "live_inv g ss1" using schedule_live_inv [OF inv] Inr y by blast
        with assms(2) origin Nil Inr y finish_idle_live_inv [of g ss1] show ?thesis
          by (auto simp: next_pass_def d_def [symmetric] split: if_splits)
      qed
    next
      case (Cons q qs)
      obtain res refill where q: "q = (res, refill)" by (cases q)
      note p = pop_live_inv [OF inv Cons [unfolded q]]
      let ?popped = "d\<lparr>ss_queued_results := qs\<rparr>"
      show ?thesis
      proof (cases "project_completion g ?popped res")
        case (Inl e)
        with assms(2) p(1) origin Cons q show ?thesis by (simp add: next_pass_def d_def [symmetric])
      next
        case (Inr y)
        obtain ss1 x where y: "y = (ss1, x)" by (cases y)
        have i1: "live_inv g ss1" using project_live_inv [OF p(1) Inr [unfolded y]] p(2,3) by simp
        then have "live_inv g ss2" if "schedule_ordinary g ss1 = Inr (ss2, b)" for ss2 b using schedule_live_inv that by blast
        with i1 assms(2) origin Cons q Inr y show ?thesis
          by (auto simp: next_pass_def d_def [symmetric] split: sum.splits if_splits prod.splits)
      qed
    qed
  qed
qed

lemma session_next_live_inv:
  assumes "live_inv g ss" and "session_next g ss s = (ss', r)"
  shows "live_inv g ss'"
  using assms acknowledge_live_inv [OF assms(1), of s] next_pass_live_inv
  by (auto simp: session_next_def split: sum.splits if_splits)

lemma project_success_task: "project_success E g x out rt cs es = Inr r \<Longrightarrow> tr_task r = et_task x"
  by (auto simp: project_success_def Let_def bindE_eq_Inr)

lemma project_outcome_task: "project_outcome E g x b = Inr r \<Longrightarrow> tr_task r = et_task x"
  by (auto simp: project_outcome_def dest: project_success_task split: node_return.splits graph_outcome.splits)

lemma execute_task_event: "event_task (execute_task E g x b) = et_task x"
  by (auto simp: execute_task_def Let_def dest: project_outcome_task split: sum.splits node_behaviour.splits)

lemma live_inv_shrink:
  assumes "live_inv g ss"
  shows "live_inv g (ss\<lparr>ss_scheduler := (ss_scheduler ss)\<lparr>sc_live := filter P (live ss)\<rparr>\<rparr>)" (is "live_inv g ?u")
proof -
  have o: "outstanding ?u = outstanding ss" by (simp add: outstanding_def)
  have n: "node_of ` set (filter P (live ss)) \<subseteq> node_of ` set (live ss)" by auto
  have l: "int (length (filter P (live ss))) \<le> el_max_parallel_tasks (ss_limits ss)"
    using assms length_filter_le [of P "live ss"] by (simp add: live_inv_def del: length_filter_le)
  have c: "wf_claim ?u \<longleftrightarrow> wf_claim ss" by (simp add: wf_claim_def)
  show ?thesis using assms n l unfolding live_inv_def o c
    by (intro conjI) (simp_all add: distinct_map_filter, auto)
qed

text \<open>The tasks that finish leave the pool; their events name started nodes that are no longer live.\<close>

lemma next_completion_live_inv:
  assumes inv: "live_inv g ss" and fin: "set (map fst finished) \<subseteq> set (live ss)"
    and nc: "next_completion E g (ss_scheduler ss) finished = Inr (sc, event)"
  defines "ss' \<equiv> ss\<lparr>ss_scheduler := sc\<rparr>"
  shows "live_inv g ss' \<and> gt_node_id (event_task event) \<notin> node_of ` set (live ss') \<and>
    (callable g (gt_node_id (event_task event)) \<longrightarrow> gt_node_id (event_task event) \<in> ss_started ss)"
proof (cases "sc_events (ss_scheduler ss)")
  case (Cons e es)
  with nc have sc: "sc = (ss_scheduler ss)\<lparr>sc_events := es\<rparr>" and ev: "event = e" by (simp_all add: next_completion_def)
  have "gt_node_id (event_task e) \<in> outstanding ss" by (simp add: outstanding_def Cons)
  moreover have "outstanding ss' \<subseteq> outstanding ss" by (auto simp: ss'_def sc outstanding_def Cons)
  ultimately show ?thesis using inv live_inv_pool [OF inv, of ss'] ev
    by (auto simp: ss'_def sc same_pool_def same_claim_def live_inv_def)
next
  case Nil
  define evs where "evs = map (\<lambda>(x, b). execute_task E g x b) finished"
  let ?gone = "\<lambda>x. executable_id x \<in> set (map (executable_id \<circ> fst) finished)"
  from nc Nil obtain es where es: "sort_key (\<lambda>e. task_sort_key (event_task e)) evs = event # es"
    and sc: "sc = (ss_scheduler ss)\<lparr>sc_live := filter (\<lambda>x. \<not> ?gone x) (live ss), sc_events := es\<rparr>"
    by (auto simp: next_completion_def evs_def split: if_splits list.splits)
  have sub: "set (event # es) = set evs" by (metis es set_sort)
  have known: "gt_node_id (event_task e) \<in> ss_started ss \<and> gt_node_id (event_task e) \<notin> node_of ` set (live ss')"
    if "e \<in> set evs" for e
  proof -
    from that obtain x b where x: "(x, b) \<in> set finished" "event_task e = et_task x"
      by (auto simp: evs_def execute_task_event)
    have xl: "x \<in> set (live ss)" using fin x(1) by force
    have "y = x" if "y \<in> set (live ss)" "node_of y = node_of x" for y
      using inv that xl by (auto simp: live_inv_def distinct_map inj_on_def)
    moreover have "?gone x" using x(1) by force
    ultimately have "node_of x \<noteq> node_of y" if "y \<in> set (live ss')" for y using that by (simp add: ss'_def sc) metis
    then have "node_of x \<notin> node_of ` set (live ss')" by blast
    moreover have "node_of x \<in> ss_started ss" using inv xl by (auto simp: live_inv_def)
    ultimately show ?thesis using x(2) by (simp add: node_of_def)
  qed
  have "live_inv g (ss\<lparr>ss_scheduler := (ss_scheduler ss)\<lparr>sc_live := filter (\<lambda>x. \<not> ?gone x) (live ss)\<rparr>\<rparr>)"
    by (rule live_inv_shrink [OF inv])
  then have "live_inv g ss'"
  proof (rule live_inv_more [where N = "(\<lambda>e. gt_node_id (event_task e)) ` set es"])
    show "same_pool (ss\<lparr>ss_scheduler := (ss_scheduler ss)\<lparr>sc_live := filter (\<lambda>x. \<not> ?gone x) (live ss)\<rparr>\<rparr>) ss'"
      by (simp add: ss'_def sc same_pool_def same_claim_def)
    show "outstanding ss' \<subseteq> (\<lambda>e. gt_node_id (event_task e)) ` set es \<union>
        outstanding (ss\<lparr>ss_scheduler := (ss_scheduler ss)\<lparr>sc_live := filter (\<lambda>x. \<not> ?gone x) (live ss)\<rparr>\<rparr>)"
      by (auto simp: ss'_def sc outstanding_def)
    fix n
    assume "n \<in> (\<lambda>e. gt_node_id (event_task e)) ` set es"
    then obtain e where "e \<in> set evs" "n = gt_node_id (event_task e)" using sub by auto
    with known [of e] show "n \<notin> node_of ` set (live (ss\<lparr>ss_scheduler := (ss_scheduler ss)\<lparr>sc_live := filter (\<lambda>x. \<not> ?gone x) (live ss)\<rparr>\<rparr>)) \<and>
      (callable g n \<longrightarrow> n \<in> ss_started (ss\<lparr>ss_scheduler := (ss_scheduler ss)\<lparr>sc_live := filter (\<lambda>x. \<not> ?gone x) (live ss)\<rparr>\<rparr>))"
      by (simp add: ss'_def sc)
  qed
  with known [of event] sub show ?thesis by auto
qed

lemma resume_wait_live_inv:
  assumes "live_inv g ss" and "set (map fst finished) \<subseteq> set (live ss)" and "resume_wait E g ss finished = (ss', r)"
  shows "live_inv g ss'"
proof -
  let ?ss = "ss\<lparr>ss_phase := NotRunning\<rparr>"
  have inv: "live_inv g ?ss" using assms(1) by simp
  show ?thesis
  proof (cases "next_completion E g (ss_scheduler ?ss) finished")
    case (Inl e)
    with assms(3) inv show ?thesis by (auto simp: resume_wait_def)
  next
    case (Inr y)
    obtain sc event where y: "y = (sc, event)" by (cases y)
    let ?u = "?ss\<lparr>ss_scheduler := sc\<rparr>"
    have k: "live_inv g ?u" "gt_node_id (event_task event) \<notin> node_of ` set (live ?u)"
      "callable g (gt_node_id (event_task event)) \<longrightarrow> gt_node_id (event_task event) \<in> ss_started ?u"
      using next_completion_live_inv [OF inv _ Inr [unfolded y]] assms(2) by simp_all
    show ?thesis
    proof (cases event)
      case (TaskDone result)
      with k project_live_inv [OF k(1), of result] assms(3) Inr y show ?thesis
        by (cases "project_completion g ?u result") (auto simp: resume_wait_def Let_def split: prod.splits)
    next
      case (TaskRaised t x)
      have "live_inv g (record_error ?u (t, x))" using live_inv_pool [OF k(1)] record_error_pool by blast
      with TaskRaised assms(3) Inr y show ?thesis by (simp add: resume_wait_def next_pass_live_inv)
    qed
  qed
qed

lemma session_step_live_inv:
  assumes "session_step E g ss r ss'" and "live_inv g ss"
  shows "live_inv g ss'"
  using assms
proof (induction rule: session_step.induct)
  case (call_next ss s ss' r)
  then show ?case using session_next_live_inv by blast
next
  case (tasks_finish ss finished ss' r)
  then show ?case using resume_wait_live_inv by blast
qed (auto simp: resume_sleep_def consume_node_origin_def close_live_inv split: if_splits)

lemma session_reaches_live_inv: "session_reaches E g ss ss' \<Longrightarrow> live_inv g ss \<Longrightarrow> live_inv g ss'"
  by (induction rule: session_reaches.induct) (auto dest: session_step_live_inv)

text \<open>Node bodies that run at the same time share no resource.\<close>

lemma greedy_disjoint_members:
  assumes "a \<in> set (greedy T reqs)" "b \<in> set (greedy T reqs)" "a \<noteq> b"
  shows "set (acq_acquired a) \<inter> set (acq_acquired b) = {}"
proof -
  from assms obtain i j where i: "i < length (greedy T reqs)" "a = greedy T reqs ! i"
    and j: "j < length (greedy T reqs)" "b = greedy T reqs ! j" by (auto simp: in_set_conv_nth)
  from assms(3) i j have "i < j \<or> j < i" by (cases i j rule: linorder_cases) auto
  then show ?thesis using greedy_disjoint [of i j T reqs] greedy_disjoint [of j i T reqs] i j by blast
qed

lemma holds_acquisition:
  assumes "holds_resources g s n" and "r \<in> set (requirements_of g n)"
  obtains a where "a \<in> set (held_by (gr_resources s))" "acq_node_id a = n" "r \<in> set (acq_acquired a)"
  using assms that by (fastforce simp: holds_resources_def admitted_def)

lemma live_inv_exclusion:
  assumes inv: "live_inv g ss" and x: "x \<in> set (live ss)" "y \<in> set (live ss)" "node_of x \<noteq> node_of y"
  shows "set (requirements_of g (node_of x)) \<inter> set (requirements_of g (node_of y)) = {}"
proof (rule ccontr)
  let ?h = "held_by (gr_resources (ss_state ss))"
  assume "set (requirements_of g (node_of x)) \<inter> set (requirements_of g (node_of y)) \<noteq> {}"
  then obtain r where r: "r \<in> set (requirements_of g (node_of x))" "r \<in> set (requirements_of g (node_of y))" by blast
  have h: "holds_resources g (ss_state ss) (node_of x)" "holds_resources g (ss_state ss) (node_of y)"
    using inv x(1,2) by (auto simp: live_inv_def)
  from holds_acquisition [OF h(1) r(1)] obtain a where a: "a \<in> set ?h" "acq_node_id a = node_of x" "r \<in> set (acq_acquired a)" .
  from holds_acquisition [OF h(2) r(2)] obtain b where b: "b \<in> set ?h" "acq_node_id b = node_of y" "r \<in> set (acq_acquired b)" .
  have "wf_state (ss_state ss)" using inv by (simp add: live_inv_def)
  with a(1) obtain q where q: "validate_resource_snapshot q = Inr ()" "?h = snap_acquisitions q"
    by (cases "gr_resources (ss_state ss)") (auto simp: held_by_def wf_state_def wf_resources_def)
  then obtain reqs where g: "?h = greedy {} reqs" by (metis valid_snapshotE)
  have "a \<noteq> b" using a(2) b(2) x(3) by auto
  from greedy_disjoint_members [OF _ _ this, of "{}" reqs] a b g show False by auto
qed

end
