(* ===== verification/Session_Progress.thy ===== *)
theory Session_Progress
  imports Session_Invariant
begin

text \<open>
  What an issued session starts from, and why it is never stuck: \<open>progress_inv\<close> holds in every
  state that is reached without an error of the kernel itself, and implies that a call of \<open>next\<close>
  with nothing queued starts a node or finds only nested nodes pending.
\<close>

section \<open>The issued session\<close>

text \<open>What the compiler guarantees of node kinds: the nested nodes are the nodes with a nested graph.\<close>

definition plan_kinds :: "compiled_graph \<Rightarrow> bool" where
  "plan_kinds g \<longleftrightarrow> set (map fst (cg_nested_graphs g)) = set (map fst (filter (\<lambda>(_, d). \<not> is_callable d) (cg_nodes g))) \<and>
     distinct (map fst (cg_nodes g))"

lemma not_callable: "\<not> is_callable d \<longleftrightarrow> d = NestedNode"
  by (cases d) (simp_all add: is_callable_def)

lemma plan_kindsD:
  assumes "plan_kinds g"
  shows "fm_has (cg_nested_graphs g) n \<longleftrightarrow> map_of (cg_nodes g) n = Some NestedNode"
proof -
  have "fm_has (cg_nested_graphs g) n \<longleftrightarrow> n \<in> set (map fst (cg_nested_graphs g))"
    by (simp add: fm_has_def map_of_eq_None_iff)
  also have "\<dots> \<longleftrightarrow> n \<in> fst ` set (filter (\<lambda>(_, d). \<not> is_callable d) (cg_nodes g))"
    using assms by (simp add: plan_kinds_def del: set_filter)
  also have "\<dots> \<longleftrightarrow> (n, NestedNode) \<in> set (cg_nodes g)"
    by (auto simp: image_iff not_callable)
  also have "\<dots> \<longleftrightarrow> map_of (cg_nodes g) n = Some NestedNode"
    using assms by (auto simp: plan_kinds_def dest: map_of_SomeD)
  finally show ?thesis .
qed

lemma task_identity_inj: "task_identity r k n = task_identity r k m \<Longrightarrow> n = m"
proof -
  assume "task_identity r k n = task_identity r k m"
  then have "sized_field n @ [] = sized_field m @ []"
    by (simp add: task_identity_def sized_field_def py_str_int_def)
  then show "n = m" by (rule sized_field_prefix_free [THEN conjunct1])
qed

lemma callable_iff: "callable g n \<longleftrightarrow> (\<exists>d. map_of (cg_nodes g) n = Some d \<and> is_callable d)"
  by (auto simp: callable_def is_callable_def split: option.splits graph_node.splits)

lemma executable_fold:
  assumes "foldE (executable_step E K g req) acc tasks = Inr xs"
  shows "map et_task xs = map et_task acc @ filter (\<lambda>t. callable g (gt_node_id t)) tasks \<and>
    (\<forall>t\<in>set tasks. map_of (cg_nodes g) (gt_node_id t) \<noteq> None)"
  using assms
proof (induction tasks arbitrary: acc)
  case (Cons t ts)
  then show ?case
    by (auto simp: executable_step_def bindE_eq_Inr fm_get_def callable_iff split: option.splits if_splits dest!: Cons.IH)
qed simp

lemma child_fold:
  assumes "foldE (child_step E g) (m, a, rs) tps = Inr (m', a', rs')"
  shows "set (map tr_task rs') \<subseteq> set (map tr_task rs) \<union> set (map fst tps)"
  using assms
proof (induction tps arbitrary: m a rs)
  case (Cons tp tps)
  obtain t p where tp: "tp = (t, p)" by (cases tp)
  from Cons.prems obtain m1 a1 rs1 where s: "child_step E g (m, a, rs) (t, p) = Inr (m1, a1, rs1)"
    and f: "foldE (child_step E g) (m1, a1, rs1) tps = Inr (m', a', rs')" by (auto simp: tp bindE_eq_Inr)
  have "set (map tr_task rs1) \<subseteq> insert t (set (map tr_task rs))"
    using s by (cases p) (auto simp: child_step_def bindE_eq_Inr)
  with Cons.IH [OF f] show ?case by (auto simp: tp)
qed simp

lemma prepare_frontier_facts:
  assumes "prepare_frontier E K g req = Inr fp"
  shows "fp_request fp = req" "map et_task (fp_executables fp) = filter (\<lambda>t. callable g (gt_node_id t)) (fp_tasks fp)"
    "r \<in> set (fp_nested_results fp) \<Longrightarrow> fm_has (cg_nested_graphs g) (gt_node_id (tr_task r))"
    "t \<in> set (fp_tasks fp) \<Longrightarrow> map_of (cg_nodes g) (gt_node_id t) \<noteq> None"
proof -
  from assms obtain expected missing active results xs where
    c: "foldE (child_step E g) ([], [], []) (zip (filter (\<lambda>t. fm_has (cg_nested_graphs g) (gt_node_id t)) (fp_tasks fp))
        (rq_child_projections req)) = Inr (missing, active, results)"
    and x: "foldE (executable_step E K g req) [] (fp_tasks fp) = Inr xs"
    and f: "fp_request fp = req" "fp_executables fp = xs" "fp_nested_results fp = results"
    by (auto simp: prepare_frontier_def Let_def bindE_eq_Inr if_Inl_eq_Inr)
  show "fp_request fp = req" by (rule f(1))
  show "map et_task (fp_executables fp) = filter (\<lambda>t. callable g (gt_node_id t)) (fp_tasks fp)"
    "t \<in> set (fp_tasks fp) \<Longrightarrow> map_of (cg_nodes g) (gt_node_id t) \<noteq> None"
    using executable_fold [OF x] f(2) by simp_all
  show "fm_has (cg_nested_graphs g) (gt_node_id (tr_task r))" if "r \<in> set (fp_nested_results fp)"
  proof -
    have "tr_task r \<in> set (map fst (zip (filter (\<lambda>t. fm_has (cg_nested_graphs g) (gt_node_id t)) (fp_tasks fp)) (rq_child_projections req)))"
      using child_fold [OF c] that f(3) by auto
    then show ?thesis by (auto dest: set_zip_leftD)
  qed
qed

lemma prepared_claim_facts:
  assumes "prepare_superstep E K owner att g req = Inr (ExecutableFrontier claim children)"
  shows "prepare_frontier E K g req = Inr (xc_preparation claim) \<and>
    (\<exists>a r. xc_command claim = ClaimGraphExecution (gr_revision (rq_state req)) a r)"
proof (cases "gr_status (rq_state req)")
  case RUNNING
  with assms obtain fp children' where fp: "prepare_frontier E K g req = Inr fp"
    "claim_frontier owner att g fp children' = Inr (ExecutableFrontier claim children)"
    by (auto simp: prepare_superstep_def Let_def bindE_eq_Inr split: if_splits)
  then show ?thesis using prepare_frontier_facts(1) [OF fp(1)]
    by (auto simp: claim_frontier_def prepare_claim_def project_claim_command_def bindE_eq_Inr split: if_splits)
qed (use assms in \<open>auto simp: prepare_superstep_def bindE_eq_Inr\<close>)

lemma dict_same_distinct:
  assumes "dict_same xs ys" "distinct (map fst xs)" "distinct (map fst ys)"
  shows "set xs = set ys"
proof -
  have m: "map_of (rev zs) k = Some v \<longleftrightarrow> (k, v) \<in> set zs" if "distinct (map fst zs)" for zs :: "('k \<times> 'v) list" and k v
    using that by (metis distinct_rev map_of_eq_Some_iff rev_map set_rev)
  have "(k, v) \<in> set xs \<longleftrightarrow> (k, v) \<in> set ys" for k v
  proof (cases "k \<in> set (map fst xs)")
    case True
    then have "map_of (rev xs) k = map_of (rev ys) k" using assms(1) unfolding dict_same_def list_all_iff by blast
    then show ?thesis using m [OF assms(2)] m [OF assms(3)] by metis
  next
    case False
    then have "k \<notin> set (map fst ys)" using assms(1) by (simp add: dict_same_def)
    with False show ?thesis by force
  qed
  then show ?thesis by auto
qed

lemma pending_requirements_eq:
  assumes "foldE (\<lambda>acc x. if is_pending (fn_settlement x)
       then bindE (fm_get (cg_nodes g) (fn_node_id x)) (\<lambda>d.
         case d of CallableNode rs _ \<Rightarrow> Inr (if rs \<noteq> [] then acc @ [(fn_node_id x, rs)] else acc) | NestedNode \<Rightarrow> Inr acc)
       else Inr acc) acc f = Inr required"
  shows "required = acc @ map (\<lambda>n. (n, requirements_of g n)) (filter (\<lambda>n. requirements_of g n \<noteq> []) (pending_node_ids f))"
  using assms
proof (induction f arbitrary: acc)
  case (Cons x f)
  show ?case
  proof (cases "is_pending (fn_settlement x)")
    case False
    with Cons show ?thesis by (simp add: pending_node_ids_def)
  next
    case True
    with Cons.prems obtain d where d: "map_of (cg_nodes g) (fn_node_id x) = Some d" by (auto simp: bindE_eq_Inr fm_get_def split: option.splits)
    show ?thesis
    proof (cases d)
      case NestedNode
      then have "requirements_of g (fn_node_id x) = []" using d by (simp add: requirements_of_def)
      with True Cons.prems Cons.IH [of acc] d NestedNode show ?thesis by (simp add: fm_get_def pending_node_ids_def)
    next
      case (CallableNode rs routes)
      then have "requirements_of g (fn_node_id x) = rs" using d by (simp add: requirements_of_def)
      with True Cons.prems Cons.IH [of "if rs \<noteq> [] then acc @ [(fn_node_id x, rs)] else acc"] d CallableNode show ?thesis
        by (simp add: fm_get_def pending_node_ids_def split: if_splits)
    qed
  qed
qed (simp add: pending_node_ids_def)

lemma resources_match_guard:
  assumes w: "wf_state s" and m: "require_resources_match g s = Inr ()"
  shows "resources_match g s"
proof -
  let ?req = "\<lambda>a. (acq_node_id a, acq_required a)"
  from m obtain required where r: "pending_requirements g s = Inr required" by (auto simp: require_resources_match_def bindE_eq_Inr)
  from pending_requirements_eq [OF r [unfolded pending_requirements_def]]
  have e: "required = map (\<lambda>n. (n, requirements_of g n)) (filter (\<lambda>n. requirements_of g n \<noteq> []) (pending_node_ids (gr_frontier s)))" by simp
  have d: "distinct (pending_node_ids (gr_frontier s))"
    using w by (simp add: wf_state_def wf_frontier_def canonical_tuple_iff pending_node_ids_def distinct_map_filter)
  have "set (map ?req (held_by (gr_resources s))) = set required"
  proof (cases "required = []")
    case True
    with m r show ?thesis by (auto simp: require_resources_match_def resE held_by_def)
  next
    case False
    with m r obtain q where q: "gr_resources s = Some q" "dict_same (map ?req (snap_acquisitions q)) required"
      by (auto simp: require_resources_match_def resE split: option.splits)
    from dict_same_distinct [OF q(2)] wf_acquisitions(1) [OF w] d show ?thesis
      by (simp add: q(1) held_by_def e comp_def)
  qed
  then show ?thesis unfolding resources_match_def e by auto
qed

lemma guard_facts:
  assumes "require_snapshot_matches_graph g s = Inr ()" and "gr_execution s \<noteq> None"
  shows "wf_state s" "resources_match g s" "n \<in> set (map fn_node_id (gr_frontier s)) \<Longrightarrow> map_of (cg_nodes g) n \<noteq> None"
proof -
  have c: "catchE m (\<lambda>e. case e of GraphStateTransitionError m \<Rightarrow> Inl (InvalidExecutionSnapshotError m) | _ \<Rightarrow> Inl e) = Inr y
      \<longleftrightarrow> m = Inr y" for m :: "unit res" and y by (rule catchE_raising) (auto split: kernel_error.splits)
  show w: "wf_state s" using assms(1)
    by (auto simp: require_snapshot_matches_graph_def bindE_eq_Inr c validate_graph_run_state_iff)
  have run: "gr_status s = RUNNING" using w assms(2) by (auto simp: wf_state_def wf_execution_def)
  show "map_of (cg_nodes g) n \<noteq> None" if "n \<in> set (map fn_node_id (gr_frontier s))"
    using assms(1) that by (auto simp: require_snapshot_matches_graph_def Let_def bindE_eq_Inr if_Inl_eq_Inr fm_has_def filter_empty_conv)
  have "require_resources_match g s = Inr ()" using assms run
    by (auto simp: require_snapshot_matches_graph_def Let_def bindE_eq_Inr if_Inl_eq_Inr split: if_splits option.splits)
  with w show "resources_match g s" by (rule resources_match_guard)
qed

section \<open>The progress invariant\<close>

text \<open>
  Every pending node is known, the callable ones have an executable task, and as long as no node
  body has failed every started node is running, waits for its acknowledgement or is settled.
\<close>

definition accounted :: "('v, 'h, 'c, 'p, 'x) execution_session \<Rightarrow> bool" where
  "accounted ss \<longleftrightarrow> (\<forall>n\<in>ss_started ss. n \<in> set (pending ss) \<longrightarrow> n \<in> node_of ` set (live ss) \<union> outstanding ss)"

definition covered :: "compiled_graph \<Rightarrow> ('v, 'h, 'c, 'p, 'x) execution_session \<Rightarrow> bool" where
  "covered g ss \<longleftrightarrow> resources_match g (ss_state ss) \<and>
     (\<forall>n\<in>set (pending ss). map_of (cg_nodes g) n \<noteq> None \<and> (callable g n \<longrightarrow> n \<in> node_of ` set (ss_executables ss)))"

definition unfailed :: "('v, 'h, 'c, 'p, 'x) execution_session \<Rightarrow> bool" where
  "unfailed ss \<longleftrightarrow> ss_error ss = None \<and> ss_node_origin_cancellation ss = None"

definition progress_inv :: "compiled_graph \<Rightarrow> ('v, 'h, 'c, 'p, 'x) execution_session \<Rightarrow> bool" where
  "progress_inv g ss \<longleftrightarrow> covered g ss \<and> (ss_disposition ss = OPEN \<longrightarrow> accounted ss \<and> unfailed ss) \<and>
     (ss_phase ss = InWait \<longrightarrow> ss_awaiting_ack ss = None \<and> ss_disposition ss \<in> {OPEN, ERROR_DRAINING}) \<and>
     (ss_disposition ss = ERROR_DRAINING \<longrightarrow> ss_error ss \<noteq> None)"

definition issued_from ::
  "('v, 'p) value_env \<Rightarrow> ('v, 'h, 'c, 'p) frame_codec \<Rightarrow> compiled_graph \<Rightarrow> ('v, 'h, 'c, 'p, 'x) execution_session \<Rightarrow> bool" where
  "issued_from E K g ss \<longleftrightarrow> plan_kinds g \<and> (\<exists>owner attempt_id request claim children s.
     1 \<le> el_max_parallel_tasks (rq_limits request) \<and>
     prepare_superstep E K owner attempt_id g request = Inr (ExecutableFrontier claim children) \<and>
     issue_session g owner claim s = Inr ss)"

lemma issued_facts:
  assumes "issued_from E K g ss"
  obtains fp s req where "prepare_frontier E K g req = Inr fp" "1 \<le> el_max_parallel_tasks (rq_limits req)"
    "ss = new_session s fp" "fp_tasks fp = map (frontier_task s) (pending_node_ids (gr_frontier s))"
    "require_snapshot_matches_graph g s = Inr ()" "gr_execution s \<noteq> None" "plan_kinds g"
proof -
  from assms obtain owner att req claim children s where
    p: "plan_kinds g" "1 \<le> el_max_parallel_tasks (rq_limits req)"
    and prep: "prepare_superstep E K owner att g req = Inr (ExecutableFrontier claim children)"
    and iss: "issue_session g owner claim s = Inr ss" unfolding issued_from_def by blast
  define fp where "fp = xc_preparation claim"
  have pf: "prepare_frontier E K g req = Inr fp" using prepared_claim_facts [OF prep] by (simp add: fp_def)
  from iss have i: "require_scoped_snapshot_matches_graph g s (rq_scope_run (fp_request fp)) = Inr ()" "ss = new_session s fp"
    "require_committed_claim_state (xc_command claim) s (rq_state (fp_request fp)) (fp_tasks fp) = Inr ()"
    by (auto simp: issue_session_def consume_claim_def issue_claim_def bindE_eq_Inr if_Inl_eq_Inr fp_def)
  from i(3) have t: "fp_tasks fp = map (frontier_task s) (pending_node_ids (gr_frontier s))"
    and red: "reduce_graph_run (Some (rq_state (fp_request fp))) (xc_command claim) = Inr s"
    by (auto simp: require_committed_claim_state_def Let_def bindE_eq_Inr raise_if_eq simp del: reduce_graph_run.simps)
  obtain a r where "xc_command claim = ClaimGraphExecution (gr_revision (rq_state req)) a r"
    using prepared_claim_facts [OF prep] by blast
  with red have "gr_execution s \<noteq> None"
    by (auto elim!: reduce_SomeD simp: claim_ok simp del: reduce_graph_run.simps)
  with that [OF pf p(2) i(2) t _ _ p(1)] i(1) show thesis
    by (auto simp: require_scoped_snapshot_matches_graph_def bindE_eq_Inr)
qed

lemma issued_live_inv:
  assumes "issued_from E K g ss"
  shows "live_inv g ss" "progress_inv g ss"
proof -
  from assms obtain fp s req where f: "prepare_frontier E K g req = Inr fp" "1 \<le> el_max_parallel_tasks (rq_limits req)"
    "ss = new_session s fp" "fp_tasks fp = map (frontier_task s) (pending_node_ids (gr_frontier s))"
    "require_snapshot_matches_graph g s = Inr ()" "gr_execution s \<noteq> None" "plan_kinds g" by (rule issued_facts)
  note pf = prepare_frontier_facts [OF f(1)] and gf = guard_facts [OF f(5,6)]
  let ?cs = "filter (callable g) (pending_node_ids (gr_frontier s))"
  have et: "map et_task (fp_executables fp) = map (frontier_task s) ?cs"
    unfolding pf(2) f(4) by (simp add: filter_map comp_def frontier_task_def)
  have nodes: "map node_of (fp_executables fp) = ?cs"
    using arg_cong [OF et, of "map gt_node_id"] by (simp add: node_of_def [abs_def] comp_def frontier_task_def)
  have ids: "map executable_id (fp_executables fp) = map (task_identity (gr_run_id s) (gr_superstep s)) ?cs"
    using arg_cong [OF et, of "map gt_task_id"] by (simp add: executable_id_def [abs_def] comp_def frontier_task_def)
  have d: "distinct (pending_node_ids (gr_frontier s))"
    using gf(1) by (simp add: wf_state_def wf_frontier_def canonical_tuple_iff pending_node_ids_def distinct_map_filter)
  have "distinct (map executable_id (fp_executables fp))" unfolding ids
    using d by (auto simp: distinct_map inj_on_def dest: task_identity_inj)
  then have wc: "wf_claim ss" using f(2) d pf(1) nodes by (simp add: wf_claim_def f(3) new_session_def distinct_map)
  have out: "\<not> callable g n" if "n \<in> outstanding ss" for n
  proof -
    from that obtain r where r: "r \<in> set (fp_nested_results fp)" "n = gt_node_id (tr_task r)"
      by (auto simp: f(3) new_session_def outstanding_def)
    from plan_kindsD [OF f(7)] pf(3) [OF r(1)] have "map_of (cg_nodes g) n = Some NestedNode" by (simp add: r(2))
    then show ?thesis by (simp add: callable_def)
  qed
  show "live_inv g ss" using wc gf(1) out f(2) pf(1) by (auto simp: live_inv_def f(3)) (simp_all add: new_session_def)
  have "map_of (cg_nodes g) n \<noteq> None \<and> (callable g n \<longrightarrow> n \<in> node_of ` set (fp_executables fp))"
    if "n \<in> set (pending_node_ids (gr_frontier s))" for n
    using gf(3) [of n] that arg_cong [OF nodes, of set] by (auto simp: pending_node_ids_def)
  then show "progress_inv g ss" using gf(2)
    by (simp add: progress_inv_def covered_def accounted_def unfailed_def f(3) new_session_def)
qed

section \<open>Every healthy step keeps it\<close>

text \<open>The part of the invariant that holds inside an atomic section too.\<close>

definition turn_inv :: "compiled_graph \<Rightarrow> ('v, 'h, 'c, 'p, 'x) execution_session \<Rightarrow> bool" where
  "turn_inv g ss \<longleftrightarrow> covered g ss \<and> (ss_disposition ss = OPEN \<longrightarrow> accounted ss \<and> unfailed ss) \<and>
     (ss_disposition ss = ERROR_DRAINING \<longrightarrow> ss_error ss \<noteq> None)"

definition active :: "('v, 'h, 'c, 'p, 'x) execution_session \<Rightarrow> bool" where
  "active ss \<longleftrightarrow> ss_phase ss = NotRunning \<and> ss_awaiting_ack ss = None \<and> ss_disposition ss \<in> {OPEN, ERROR_DRAINING}"

lemma progress_inv_iff: "progress_inv g ss \<longleftrightarrow> turn_inv g ss \<and>
    (ss_phase ss = InWait \<longrightarrow> ss_awaiting_ack ss = None \<and> ss_disposition ss \<in> {OPEN, ERROR_DRAINING})"
  by (auto simp: progress_inv_def turn_inv_def)

lemma turn_inv_phase [simp]: "turn_inv g (ss\<lparr>ss_phase := p\<rparr>) = turn_inv g ss"
  "ss_disposition ss \<noteq> OPEN \<Longrightarrow> turn_inv g (ss\<lparr>ss_node_origin_cancellation := x\<rparr>) = turn_inv g ss"
  by (simp_all add: turn_inv_def covered_def accounted_def outstanding_def unfailed_def)

lemma acknowledge_progress:
  assumes "turn_inv g ss" "ss_phase ss = NotRunning" "ss_disposition ss \<in> {OPEN, ERROR_DRAINING}" and "acknowledge g ss s = Inr ss'"
  shows "turn_inv g ss' \<and> active ss' \<and> ss_queued_results ss' = ss_queued_results ss \<and> ss_scheduler ss' = ss_scheduler ss"
  using assms(4)
proof (cases rule: acknowledge_cases)
  case 1
  with assms show ?thesis by (simp add: active_def)
next
  case (2 c)
  let ?n = "outcome_node_id (sn_outcome c)"
  have p: "set (pending_node_ids (gr_frontier s)) = set (pending ss) - {?n}" using 2(1) by (rule settle_step)
  have "covered g ss'" using assms(1) settle_keeps_resources(2) [OF 2(1)] p by (simp add: turn_inv_def covered_def 2(3))
  moreover have "accounted ss'" if "accounted ss"
    using that 2(4) p unfolding accounted_def 2(3) by auto
  ultimately show ?thesis using assms(1-3) by (auto simp: turn_inv_def active_def unfailed_def 2(3))
qed

lemma record_errors_progress:
  "xs \<noteq> [] \<Longrightarrow> ss_disposition (foldl record_error ss xs) = ERROR_DRAINING \<and> ss_error (foldl record_error ss xs) \<noteq> None"
  by (induction xs rule: rev_induct) (simp_all add: record_error_def Let_def)

lemma record_errors_phase: "ss_phase (foldl record_error ss xs) = ss_phase ss"
  by (induction xs rule: rev_induct) (simp_all add: record_error_def Let_def)

lemma drain_progress:
  assumes "turn_inv g ss" and "active ss"
  shows "turn_inv g (drain_scheduler_events ss) \<and> active (drain_scheduler_events ss)"
proof -
  define errors where "errors = List.map_filter (\<lambda>e. case e of TaskRaised t x \<Rightarrow> Some (t, x) | TaskDone _ \<Rightarrow> None) (sc_events (ss_scheduler ss))"
  define completions where
    "completions = List.map_filter (\<lambda>e. case e of TaskDone r \<Rightarrow> Some r | TaskRaised _ _ \<Rightarrow> None) (sc_events (ss_scheduler ss))"
  define u where "u = ss\<lparr>ss_scheduler := (ss_scheduler ss)\<lparr>sc_events := []\<rparr>\<rparr>"
  let ?d = "drain_scheduler_events ss"
  have d: "?d = (foldl record_error u errors)\<lparr>ss_queued_results := ss_queued_results (foldl record_error u errors) @ map (\<lambda>r. (r, True)) completions\<rparr>"
    by (simp add: drain_scheduler_events_def drain_pending_events_def u_def errors_def completions_def Let_def)
  have pool: "same_pool ss ?d" "ss_awaiting_ack ?d = ss_awaiting_ack ss" using drain_pool by blast+
  have cov: "covered g ?d" using assms(1) pool(1) by (simp add: turn_inv_def covered_def same_pool_def same_claim_def)
  have ph: "ss_phase ?d = ss_phase ss" by (simp add: d record_errors_phase) (simp add: u_def)
  show ?thesis
  proof (cases "errors = []")
    case False
    from record_errors_progress [OF this, of u] cov ph assms(2) pool(2) show ?thesis by (auto simp: turn_inv_def active_def d)
  next
    case True
    then have dd: "?d = u\<lparr>ss_queued_results := ss_queued_results ss @ map (\<lambda>r. (r, True)) completions\<rparr>" by (simp add: d) (simp add: u_def)
    have "\<forall>e\<in>set (sc_events (ss_scheduler ss)). \<exists>r. e = TaskDone r \<and> r \<in> set completions"
    proof
      fix e
      assume e: "e \<in> set (sc_events (ss_scheduler ss))"
      show "\<exists>r. e = TaskDone r \<and> r \<in> set completions"
      proof (cases e)
        case (TaskDone r)
        with e show ?thesis by (force simp: completions_def map_filter_def)
      next
        case (TaskRaised t x)
        with e have "(t, x) \<in> set errors" by (force simp: errors_def map_filter_def)
        with True show ?thesis by simp
      qed
    qed
    then have "outstanding ss \<subseteq> outstanding ?d" by (force simp: dd u_def outstanding_def)
    then have "accounted ?d" if "accounted ss" using that pool(1) by (auto simp: accounted_def same_pool_def)
    with cov ph assms pool(2) show ?thesis by (auto simp: turn_inv_def active_def unfailed_def dd) (simp_all add: u_def)
  qed
qed

lemma schedule_progress:
  assumes "turn_inv g ss" and sch: "schedule_ordinary g ss = Inr (ss', b)"
  shows "turn_inv g ss' \<and> ss_disposition ss' = ss_disposition ss \<and> ss_awaiting_ack ss' = ss_awaiting_ack ss \<and> ss_phase ss' = ss_phase ss"
proof -
  from sch obtain selected sc where sub: "submit (ss_scheduler ss) selected = Inr sc"
    and ss': "ss' = ss\<lparr>ss_scheduler := sc, ss_started := ss_started ss \<union> node_of ` set selected\<rparr>"
    by (auto simp: schedule_ordinary_def bindE_eq_Inr node_of_def [abs_def])
  have sc: "sc = (ss_scheduler ss)\<lparr>sc_live := live ss @ selected\<rparr>" using sub by (auto simp: submit_def Let_def split: if_splits)
  have "accounted ss'" if "accounted ss" using that by (auto simp: accounted_def ss' sc outstanding_def)
  with assms(1) show ?thesis by (auto simp: turn_inv_def covered_def unfailed_def ss')
qed

lemma project_progress:
  assumes "project_completion g ss r = Inr (ss', x)" and "covered g ss" and "ss_awaiting_ack ss = None"
    and "ss_disposition ss = ERROR_DRAINING \<longrightarrow> ss_error ss \<noteq> None"
    and "ss_disposition ss = OPEN \<longrightarrow> unfailed ss \<and>
      (\<forall>n\<in>ss_started ss. n \<in> set (pending ss) \<longrightarrow> n \<in> node_of ` set (live ss) \<union> outstanding ss \<union> {gt_node_id (tr_task r)})"
  shows "turn_inv g ss' \<and> ss_phase ss' = ss_phase ss"
  using project_completion_eq [OF assms(1)] assms(2-)
  by (auto simp: turn_inv_def covered_def accounted_def outstanding_def unfailed_def)

lemma pop_progress:
  assumes "turn_inv g ss" and q: "ss_queued_results ss = (r, b) # qs" and "ss_awaiting_ack ss = None"
    and "project_completion g (ss\<lparr>ss_queued_results := qs\<rparr>) r = Inr (ss', x)"
  shows "turn_inv g ss' \<and> ss_phase ss' = ss_phase ss"
proof -
  have o: "outstanding ss \<subseteq> outstanding (ss\<lparr>ss_queued_results := qs\<rparr>) \<union> {gt_node_id (tr_task r)}" by (auto simp: outstanding_def q)
  have "ss_phase ss = ss_phase (ss\<lparr>ss_queued_results := qs\<rparr>)" by simp
  then show ?thesis
    using project_progress [OF assms(4)] assms(1,3) o by (simp add: turn_inv_def covered_def accounted_def unfailed_def) blast
qed

lemma close_progress: "turn_inv g ss \<Longrightarrow> turn_inv g (close_session ss) \<and> ss_phase (close_session ss) = ss_phase ss"
  by (auto simp: close_session_def turn_inv_def covered_def)

lemma finish_idle_progress: "turn_inv g ss \<Longrightarrow> turn_inv g (fst (finish_idle g ss)) \<and> ss_phase (fst (finish_idle g ss)) = ss_phase ss"
  by (auto simp: finish_idle_def Let_def turn_inv_def covered_def split: option.split)

lemma next_pass_progress:
  assumes "turn_inv g ss" and "active ss" and np: "next_pass g ss = (ss', r)" and ok: "\<forall>e. r \<noteq> RaisesKernel e"
  shows "progress_inv g ss'"
proof -
  define d where "d = drain_scheduler_events ss"
  have d: "turn_inv g d" "ss_phase d = NotRunning" "ss_awaiting_ack d = None" "ss_disposition d \<in> {OPEN, ERROR_DRAINING}"
    using drain_progress [OF assms(1,2)] by (auto simp: d_def active_def)
  show ?thesis
  proof (cases "ss_node_origin_cancellation d")
    case (Some x)
    with np close_progress [OF d(1)] d(2) show ?thesis by (auto simp: next_pass_def d_def [symmetric] progress_inv_iff)
  next
    case origin: None
    show ?thesis
    proof (cases "ss_queued_results d")
      case Nil
      with np ok origin obtain ss1 b where s: "schedule_ordinary g d = Inr (ss1, b)"
        by (cases "schedule_ordinary g d") (auto simp: next_pass_def d_def [symmetric])
      from schedule_progress [OF d(1) s] d have "turn_inv g ss1" "ss_phase ss1 = NotRunning" "ss_awaiting_ack ss1 = None"
        "ss_disposition ss1 \<in> {OPEN, ERROR_DRAINING}" by simp_all
      with np ok origin Nil s finish_idle_progress [of g ss1] show ?thesis
        by (auto simp: next_pass_def d_def [symmetric] progress_inv_iff split: if_splits)
    next
      case (Cons q qs)
      obtain res refill where q: "q = (res, refill)" by (cases q)
      let ?popped = "d\<lparr>ss_queued_results := qs\<rparr>"
      from np ok origin Cons q obtain ss1 x where p: "project_completion g ?popped res = Inr (ss1, x)"
        by (cases "project_completion g ?popped res") (auto simp: next_pass_def d_def [symmetric])
      from pop_progress [OF d(1) Cons [unfolded q] d(3) p] d(2) have t1: "turn_inv g ss1" "ss_phase ss1 = NotRunning" by simp_all
      show ?thesis
      proof (cases refill)
        case False
        with np origin Cons q p t1 show ?thesis by (simp add: next_pass_def d_def [symmetric] progress_inv_iff)
      next
        case True
        with np ok origin Cons q p obtain ss2 b where s: "schedule_ordinary g ss1 = Inr (ss2, b)"
          by (cases "schedule_ordinary g ss1") (auto simp: next_pass_def d_def [symmetric])
        from schedule_progress [OF t1(1) s] t1(2) np origin Cons q p True show ?thesis
          by (auto simp: next_pass_def d_def [symmetric] s progress_inv_iff split: if_splits)
      qed
    qed
  qed
qed

lemma session_next_progress:
  assumes "progress_inv g ss" and "session_next g ss s = (ss', r)" and "(\<forall>e. r \<noteq> RaisesKernel e) \<or> ss' = ss"
  shows "progress_inv g ss'"
proof (cases "ss' = ss")
  case False
  with assms(2) have op: "require_open ss = Inr ()" and ph: "ss_phase ss = NotRunning"
    by (auto simp: session_next_def split: sum.splits if_splits)
  from op have disp: "ss_disposition ss \<in> {OPEN, ERROR_DRAINING}"
    by (cases "ss_disposition ss") (auto simp: require_open_def)
  from False assms(2) op ph obtain u where u: "acknowledge g ss s = Inr u" "next_pass g u = (ss', r)"
    by (auto simp: session_next_def split: sum.splits)
  from acknowledge_progress [OF _ ph disp u(1)] assms(1) have "turn_inv g u" "active u" by (auto simp: progress_inv_iff)
  from next_pass_progress [OF this u(2)] assms(3) False show ?thesis by blast
qed (use assms in simp)

lemma next_completion_accounts:
  assumes inv: "live_inv g ss" and fin: "set (map fst finished) \<subseteq> set (live ss)" and acc: "accounted ss"
    and nc: "next_completion E g (ss_scheduler ss) finished = Inr (sc, event)"
  defines "ss' \<equiv> ss\<lparr>ss_scheduler := sc\<rparr>"
  shows "\<forall>n\<in>ss_started ss'. n \<in> set (pending ss') \<longrightarrow>
    n \<in> node_of ` set (live ss') \<union> outstanding ss' \<union> {gt_node_id (event_task event)}"
proof (cases "sc_events (ss_scheduler ss)")
  case (Cons e es)
  with nc have sc: "sc = (ss_scheduler ss)\<lparr>sc_events := es\<rparr>" and ev: "event = e" by (simp_all add: next_completion_def)
  with acc show ?thesis by (auto simp: accounted_def ss'_def sc outstanding_def Cons)
next
  case Nil
  define evs where "evs = map (\<lambda>(x, b). execute_task E g x b) finished"
  let ?gone = "\<lambda>x. executable_id x \<in> set (map (executable_id \<circ> fst) finished)"
  from nc Nil obtain es where es: "sort_key (\<lambda>e. task_sort_key (event_task e)) evs = event # es"
    and sc: "sc = (ss_scheduler ss)\<lparr>sc_live := filter (\<lambda>x. \<not> ?gone x) (live ss), sc_events := es\<rparr>"
    by (auto simp: next_completion_def evs_def split: if_splits list.splits)
  have sub: "set (event # es) = set evs" by (metis es set_sort)
  have removed: "node_of x \<in> (\<lambda>e. gt_node_id (event_task e)) ` set evs" if x: "x \<in> set (live ss)" "?gone x" for x
  proof -
    from x(2) obtain y b where y: "(y, b) \<in> set finished" "executable_id x = executable_id y" by auto
    have "y \<in> set (live ss)" using fin y(1) by force
    then have "x = y" using inv x(1) y(2) by (auto simp: live_inv_def wf_claim_def inj_on_def)
    then have "execute_task E g x b \<in> set evs" using y(1) by (force simp: evs_def)
    then show ?thesis by (force simp: execute_task_event node_of_def)
  qed
  have "n \<in> node_of ` set (live ss') \<union> outstanding ss' \<union> {gt_node_id (event_task event)}"
    if "n \<in> node_of ` set (live ss) \<union> outstanding ss" for n
  proof -
    have "outstanding ss \<subseteq> outstanding ss'" by (auto simp: ss'_def sc outstanding_def Nil)
    moreover have "node_of x \<in> node_of ` set (live ss') \<or> node_of x \<in> outstanding ss' \<or> node_of x = gt_node_id (event_task event)"
      if "x \<in> set (live ss)" for x
    proof (cases "?gone x")
      case True
      with removed [OF that] sub show ?thesis by (auto simp: ss'_def sc outstanding_def)
    qed (use that in \<open>auto simp: ss'_def sc\<close>)
    ultimately show ?thesis using that by auto
  qed
  then show ?thesis using acc by (simp add: accounted_def ss'_def)
qed

lemma resume_wait_progress:
  assumes inv: "live_inv g ss" and p: "progress_inv g ss" and w: "ss_phase ss = InWait"
    and fin: "set (map fst finished) \<subseteq> set (live ss)" and rw: "resume_wait E g ss finished = (ss', r)" and ok: "\<forall>e. r \<noteq> RaisesKernel e"
  shows "progress_inv g ss'"
proof -
  let ?ss = "ss\<lparr>ss_phase := NotRunning\<rparr>"
  have t: "turn_inv g ss" "ss_awaiting_ack ss = None" "ss_disposition ss \<in> {OPEN, ERROR_DRAINING}"
    using p w by (auto simp: progress_inv_iff)
  from rw ok obtain sc event where nc: "next_completion E g (ss_scheduler ?ss) finished = Inr (sc, event)"
    by (cases "next_completion E g (ss_scheduler ?ss) finished") (auto simp: resume_wait_def)
  let ?u = "?ss\<lparr>ss_scheduler := sc\<rparr>"
  have acc: "ss_disposition ?u = OPEN \<longrightarrow> (\<forall>n\<in>ss_started ?u. n \<in> set (pending ?u) \<longrightarrow>
      n \<in> node_of ` set (live ?u) \<union> outstanding ?u \<union> {gt_node_id (event_task event)})"
  proof
    assume "ss_disposition ?u = OPEN"
    then have "accounted ?ss" using t(1) by (simp add: turn_inv_def accounted_def outstanding_def)
    from next_completion_accounts [OF _ _ this nc] inv fin
    show "\<forall>n\<in>ss_started ?u. n \<in> set (pending ?u) \<longrightarrow>
      n \<in> node_of ` set (live ?u) \<union> outstanding ?u \<union> {gt_node_id (event_task event)}" by simp
  qed
  have cov: "covered g ?u" "ss_disposition ?u = ERROR_DRAINING \<longrightarrow> ss_error ?u \<noteq> None" "ss_awaiting_ack ?u = None"
    using t by (auto simp: turn_inv_def covered_def)
  show ?thesis
  proof (cases event)
    case (TaskDone result)
    with rw ok nc obtain x where pr: "project_completion g ?u result = Inr (ss', x)"
      by (cases "project_completion g ?u result") (auto simp: resume_wait_def Let_def)
    have "ss_disposition ?u = OPEN \<longrightarrow> unfailed ?u" using t(1) by (simp add: turn_inv_def unfailed_def)
    with project_progress [OF pr cov(1,3,2)] acc TaskDone show ?thesis by (auto simp: progress_inv_iff)
  next
    case (TaskRaised tk x)
    have "turn_inv g (record_error ?u (tk, x))" "active (record_error ?u (tk, x))"
      using cov by (auto simp: turn_inv_def active_def record_error_def covered_def Let_def)
    from next_pass_progress [OF this _ ok] rw nc TaskRaised show ?thesis by (simp add: resume_wait_def Let_def)
  qed
qed

lemma session_step_progress:
  assumes "session_step E g ss l ss'" and "live_inv g ss" and "progress_inv g ss" and "(\<forall>e. l \<noteq> Some (RaisesKernel e)) \<or> ss' = ss"
  shows "progress_inv g ss'"
proof (cases "ss' = ss")
  case False
  with assms(4) have ok: "\<forall>e. l \<noteq> Some (RaisesKernel e)" by blast
  from assms(1) show ?thesis
  proof cases
    case (call_next s r)
    with session_next_progress [OF assms(3)] ok show ?thesis by blast
  next
    case (tasks_finish finished r)
    with resume_wait_progress [OF assms(2,3)] ok show ?thesis by blast
  next
    case (wake_up executed r)
    with assms(3) show ?thesis by (auto simp: resume_sleep_def progress_inv_iff)
  next
    case close
    with close_progress [of g ss] assms(3) show ?thesis by (auto simp: progress_inv_iff)
  next
    case cancel
    with close_progress [of g ss] assms(3) show ?thesis by (auto simp: progress_inv_iff)
  next
    case (consume_origin x b)
    with False have "ss' = ss\<lparr>ss_node_origin_cancellation := None\<rparr>" by (auto simp: consume_node_origin_def split: if_splits)
    with assms(3) show ?thesis by (auto simp: progress_inv_def covered_def accounted_def outstanding_def unfailed_def)
  qed
qed (use assms(3) in simp)

section \<open>A session is never stuck\<close>

inductive healthy_run ::
  "('v, 'p) value_env \<Rightarrow> compiled_graph \<Rightarrow> ('v, 'h, 'c, 'p, 'x) execution_session \<Rightarrow> ('v, 'h, 'c, 'p, 'x) execution_session \<Rightarrow> bool"
  for E :: "('v, 'p) value_env" and g :: compiled_graph and ss :: "('v, 'h, 'c, 'p, 'x) execution_session" where
  start: "healthy_run E g ss ss"
| step: "healthy_run E g ss t \<Longrightarrow> session_step E g t l u \<Longrightarrow> (\<forall>e. l \<noteq> Some (RaisesKernel e)) \<or> u = t \<Longrightarrow> healthy_run E g ss u"

lemma healthy_run_inv:
  assumes "healthy_run E g ss ss'" and "live_inv g ss" and "progress_inv g ss"
  shows "live_inv g ss' \<and> progress_inv g ss'"
  using assms by (induction rule: healthy_run.induct) (auto dest: session_step_live_inv session_step_progress)

lemma select_loop_total:
  assumes "\<forall>t\<in>set ts. map_of (cg_nodes g) (gt_node_id t) \<noteq> None"
  shows "\<exists>out. select_loop g acq slots started sel ts = Inr out"
  using assms
proof (induction ts arbitrary: sel)
  case (Cons t ts)
  then obtain d where "map_of (cg_nodes g) (gt_node_id t) = Some d" by auto
  with Cons show ?case by (cases d) (auto simp: fm_get_def Let_def)
qed simp

lemma weak_map_of_SomeI_any: "k \<in> fst ` set xs \<Longrightarrow> \<exists>v. map_of xs k = Some v"
  by (auto intro: weak_map_of_SomeI)

lemma select_ordinary_total:
  assumes inv: "live_inv g ss" and known: "\<forall>n\<in>set (pending ss). map_of (cg_nodes g) n \<noteq> None"
  shows "\<exists>selected. select_ordinary g ss = Inr selected"
proof (cases "ss_disposition ss = OPEN")
  case True
  define xs where "xs = filter (\<lambda>x. gt_node_id (et_task x) \<in> set (pending ss)) (ss_executables ss)"
  have "\<exists>out. select_executable_tasks g (map et_task xs) (gr_resources (ss_state ss)) (ss_limits ss)
      (live_count (ss_scheduler ss)) (ss_started ss) = Inr out"
    using select_loop_total [of "sort_key task_sort_key (map et_task xs)" g] known
    by (simp add: select_executable_tasks_def Let_def xs_def)
  then obtain out where out: "select_executable_tasks g (map et_task xs) (gr_resources (ss_state ss)) (ss_limits ss)
      (live_count (ss_scheduler ss)) (ss_started ss) = Inr out" by blast
  have d: "distinct (map gt_node_id (map et_task xs))" using inv
    by (simp add: xs_def live_inv_def wf_claim_def node_of_def [abs_def] comp_def distinct_map_filter)
  have "set out \<subseteq> set (map et_task xs)" using select_executable_sound(1) [OF out d] inv by (simp add: live_inv_def live_count_def)
  then have "\<forall>t\<in>set out. \<exists>x. map_of (rev (map (\<lambda>x. (executable_id x, x)) xs)) (gt_task_id t) = Some x"
    by (force simp: executable_id_def intro!: weak_map_of_SomeI_any)
  then have "\<exists>ys. mapE (\<lambda>t. case map_of (rev (map (\<lambda>x. (executable_id x, x)) xs)) (gt_task_id t) of
      None \<Rightarrow> Inl (KeyError (gt_task_id t)) | Some x \<Rightarrow> Inr x) out = Inr ys"
    by (induction out) (auto simp: bindE_def)
  with True out show ?thesis by (auto simp: select_ordinary_def Let_def xs_def [symmetric])
qed (simp add: select_ordinary_def)

lemma schedule_total:
  assumes inv: "live_inv g ss" and known: "\<forall>n\<in>set (pending ss). map_of (cg_nodes g) n \<noteq> None"
    and ev: "sc_events (ss_scheduler ss) = []"
  shows "\<exists>selected. select_ordinary g ss = Inr selected \<and>
    schedule_ordinary g ss = Inr (ss\<lparr>ss_scheduler := (ss_scheduler ss)\<lparr>sc_live := live ss @ selected\<rparr>,
      ss_started := ss_started ss \<union> node_of ` set selected\<rparr>, selected \<noteq> [])"
proof -
  obtain selected where sel: "select_ordinary g ss = Inr selected" using select_ordinary_total [OF inv known] by blast
  note s = select_ordinary_sound [OF inv sel]
  have fresh: "node_of x \<notin> ss_started ss" if "x \<in> set selected" for x using s(4) [OF that] startable_holds by blast
  have inj: "inj_on executable_id (set (ss_executables ss))" using inv by (simp add: live_inv_def wf_claim_def)
  have "distinct (map executable_id selected)"
    using s(1,2) inj by (auto simp: distinct_map intro: inj_on_subset)
  moreover have "executable_id x \<noteq> executable_id y" if "x \<in> set (live ss)" "y \<in> set selected" for x y
  proof
    assume "executable_id x = executable_id y"
    then have "x = y" using inj that s(1) inv by (auto simp: live_inv_def inj_on_def)
    then show False using fresh [OF that(2)] inv that(1) by (auto simp: live_inv_def)
  qed
  ultimately have "submit (ss_scheduler ss) selected = Inr ((ss_scheduler ss)\<lparr>sc_live := live ss @ selected\<rparr>)"
    by (auto simp: submit_def Let_def ev)
  with sel show ?thesis by (simp add: schedule_ordinary_def node_of_def [abs_def])
qed

text \<open>If a pending node has a body to run, some pending node with a body can start.\<close>

lemma startable_exists:
  assumes w: "wf_state (ss_state ss)" and cov: "covered g ss" and n: "n \<in> set (pending ss)" "callable g n"
    and fresh: "\<forall>m\<in>set (pending ss). m \<notin> ss_started ss"
  shows "\<exists>x\<in>set (ss_executables ss). node_of x \<in> set (pending ss) \<and>
    startable g (acquisition_of (held_by (gr_resources (ss_state ss)))) (ss_started ss) (node_of x)"
proof -
  let ?h = "held_by (gr_resources (ss_state ss))"
  let ?startable = "startable g (acquisition_of ?h) (ss_started ss)"
  have "\<exists>m\<in>set (pending ss). ?startable m"
  proof (cases "requirements_of g n = []")
    case True
    with n fresh show ?thesis by (auto simp: startable_def)
  next
    case False
    have rm: "(\<lambda>a. (acq_node_id a, acq_required a)) ` set ?h =
        {(n, requirements_of g n) |n. n \<in> set (pending ss) \<and> requirements_of g n \<noteq> []}"
      using cov by (simp add: covered_def resources_match_def)
    with False n(1) have ne: "?h \<noteq> []" by auto
    define a where "a = hd ?h"
    have a: "a \<in> set ?h" "admitted a" using ne wf_acquisitions(2) [OF w] by (auto simp: a_def)
    from a(1) rm have q: "acq_node_id a \<in> set (pending ss)" "acq_required a = requirements_of g (acq_node_id a)"
      "requirements_of g (acq_node_id a) \<noteq> []" by blast+
    have "callable g (acq_node_id a)" using q(3) by (auto simp: requirements_of_def callable_def split: option.splits graph_node.splits)
    moreover have "acquisition_of ?h (acq_node_id a) = Some a" using acquisition_of_eq [OF wf_acquisitions(1) [OF w] a(1)] .
    ultimately show ?thesis using q a(2) fresh by (auto simp: startable_def)
  qed
  then obtain m where m: "m \<in> set (pending ss)" "?startable m" by blast
  then have "callable g m" by (simp add: startable_def)
  with cov m(1) obtain x where "x \<in> set (ss_executables ss)" "m = node_of x" by (auto simp: covered_def)
  with m show ?thesis by blast
qed

lemma next_pass_not_stuck:
  assumes inv: "live_inv g ss" and t: "turn_inv g ss" and act: "active ss" and op: "ss_disposition ss = OPEN"
    and empty: "ss_queued_results ss = []" "sc_events (ss_scheduler ss) = []"
    and np: "next_pass g ss = (ss', r)" and kinds: "plan_kinds g"
  shows "(r = Suspends \<and> ss_phase ss' = InWait \<and> live ss' \<noteq> []) \<or>
    (r = RaisesStopAsyncIteration \<and> (\<forall>n\<in>set (pending ss). fm_has (cg_nested_graphs g) n))"
proof -
  have drain: "drain_scheduler_events ss = ss"
    using empty(2) by (simp add: drain_scheduler_events_def drain_pending_events_def)
  have cov: "covered g ss" and acc: "accounted ss" and unf: "unfailed ss" using t op by (auto simp: turn_inv_def)
  obtain selected where sel: "select_ordinary g ss = Inr selected"
    and sch: "schedule_ordinary g ss = Inr (ss\<lparr>ss_scheduler := (ss_scheduler ss)\<lparr>sc_live := live ss @ selected\<rparr>,
      ss_started := ss_started ss \<union> node_of ` set selected\<rparr>, selected \<noteq> [])"
    using schedule_total [OF inv _ empty(2)] cov by (auto simp: covered_def)
  show ?thesis
  proof (cases "live ss @ selected = []")
    case False
    with np drain empty unf sch show ?thesis by (auto simp: next_pass_def Let_def unfailed_def live_count_def)
  next
    case True
    have out: "outstanding ss = {}" using empty act by (simp add: outstanding_def active_def)
    have fresh: "\<forall>m\<in>set (pending ss). m \<notin> ss_started ss" using acc True out by (auto simp: accounted_def)
    have "\<not> callable g n" if "n \<in> set (pending ss)" for n
    proof
      assume "callable g n"
      with startable_exists [OF _ cov that _ fresh] inv select_ordinary_sound(5) [OF inv sel op] True
      show False by (auto simp: live_inv_def)
    qed
    moreover have "map_of (cg_nodes g) n \<noteq> None" if "n \<in> set (pending ss)" for n using cov that by (simp add: covered_def)
    ultimately have nested: "\<forall>n\<in>set (pending ss). fm_has (cg_nested_graphs g) n"
      by (metis callable_iff not_callable not_None_eq plan_kindsD [OF kinds])
    with True np drain empty unf sch show ?thesis
      by (auto simp: next_pass_def Let_def unfailed_def live_count_def finish_idle_def list_all_iff)
  qed
qed

end
