(* ===== verification/Engine_Commit.thy ===== *)
theory Engine_Commit
  imports Node_Input Reducer_History
begin

text \<open>
  \<open>mote_kernel/execution/commit.py\<close>, the commit results of \<open>result.py\<close> and the evidence records
  of \<open>run_context.py\<close>: one reducer transition with its write set, its confirmation by the caller's
  commit port, and the installation of its frames.

  \<^item> The commit port is a function of the transition that returns a state or raises.
  \<^item> \<open>is\<close> on frames is equality of the frames; the seals of the source are not values of the model.
\<close>

section \<open>Evidence\<close>

record ('v, 'h, 'c, 'p) publication_evidence =
  pe_coordinate :: activation_coordinate
  pe_frame :: "('v, 'h, 'c, 'p) frame"
  pe_execution_token :: execution_token

definition mk_ExecutionPublicationProvenance :: "execution_token \<Rightarrow> execution_token res" where
  "mk_ExecutionPublicationProvenance tok =
     except_value_error (admit_token tok) (SnapshotMismatchError ''publication has inconsistent execution provenance'')"

definition require_publication_confirmation :: "int \<Rightarrow> execution_token \<Rightarrow> execution_token res" where
  "require_publication_confirmation acknowledged_revision provenance =
     (if acknowledged_revision < 1 then Inl (SnapshotMismatchError ''publication has inconsistent coordinates'')
      else except_value_error (admit_token provenance)
        (SnapshotMismatchError ''publication has inconsistent execution provenance''))"

definition binding_parent_activation :: "scope_run \<Rightarrow> graph_run_state \<Rightarrow> stable_activation option res" where
  "binding_parent_activation sr s =
     (if gr_run_id s \<noteq> sr_graph_run_id sr
      then Inl (SnapshotMismatchError ''scope-run coordinate does not match its graph state'')
      else (case gr_parent s of
          None \<Rightarrow>
            if sr_scope sr \<noteq> []
            then Inl (SnapshotMismatchError ''nested graph state does not match its runtime scope: missing its parent activation'')
            else Inr None
        | Some parent \<Rightarrow>
            if sr_scope sr = [] then Inl (SnapshotMismatchError ''root graph state cannot carry a parent activation'')
            else bindE (parent_activation_for_child sr parent) (\<lambda>a. Inr (Some a))))"

definition mk_UncreatedGraphRun :: "scope_run \<Rightarrow> scope_run res" where
  "mk_UncreatedGraphRun sr =
     (if sr_scope sr = []
      then Inl (SnapshotMismatchError ''uncreated child evidence requires a nested scope-run coordinate'')
      else mk_ScopeRunCoordinate (sr_scope sr) (sr_graph_run_id sr))"

section \<open>Commit results\<close>

datatype ('v, 'h, 'c, 'p) commit_result =
    GraphSuccessResult (cr_node_id: string) (cr_publication: "('v, 'h, 'c, 'p) publication_evidence") (cr_route: "string option")
  | GraphFailureResult (cr_node_id: string) (cr_failure: string)
  | GraphInterruptResult (cr_node_id: string) (cr_request_payload: py_bytes)

definition commit_result_of ::
  "('v, 'h, 'c, 'p) task_result \<Rightarrow> ('v, 'h, 'c, 'p) publication_evidence option \<Rightarrow> ('v, 'h, 'c, 'p) commit_result res" where
  "commit_result_of result publication =
     (case result of
        TaskSuccess task output route _ \<Rightarrow>
          (case publication of
             None \<Rightarrow> Inl (NodeExecutionContractError ''successful settlement requires publication evidence'')
           | Some p \<Rightarrow>
               if pe_frame p \<noteq> output
               then Inl (NodeExecutionContractError ''publication evidence must carry the task output frame'')
               else Inr (GraphSuccessResult (gt_node_id task) p route))
      | TaskFailure task failure \<Rightarrow>
          if publication \<noteq> None
          then Inl (NodeExecutionContractError ''failed or interrupted settlement cannot publish output evidence'')
          else Inr (GraphFailureResult (gt_node_id task) failure)
      | TaskInterrupt task payload \<Rightarrow>
          if publication \<noteq> None
          then Inl (NodeExecutionContractError ''failed or interrupted settlement cannot publish output evidence'')
          else Inr (GraphInterruptResult (gt_node_id task) payload))"

section \<open>Write sets and transitions\<close>

datatype commit_key = GraphCommitKey (ck_run_id: string) (ck_commit_revision: int)

definition mk_GraphCommitKey :: "string \<Rightarrow> int \<Rightarrow> commit_key res" where
  "mk_GraphCommitKey run_id revision =
     (if \<not> is_canonical_identity run_id then Inl (SnapshotMismatchError ''commit key requires a canonical run identity'')
      else if revision < 0 then Inl (SnapshotMismatchError ''commit key revision must be a non-negative integer'')
      else Inr (GraphCommitKey run_id revision))"

record ('v, 'h, 'c, 'p) write_set =
  ws_commit_key :: commit_key
  ws_graph_inputs :: "(graph_input_coordinate \<times> ('v, 'h, 'c, 'p) frame) list"
  ws_settlement :: "('v, 'h, 'c, 'p) commit_result option"

definition mk_GraphCommitWriteSet ::
  "commit_key \<Rightarrow> (graph_input_coordinate \<times> ('v, 'h, 'c, 'p) frame) list \<Rightarrow> ('v, 'h, 'c, 'p) commit_result option \<Rightarrow>
     ('v, 'h, 'c, 'p) write_set res" where
  "mk_GraphCommitWriteSet key inputs settlement =
     (if \<not> distinct (map fst inputs) \<or> map fst inputs \<noteq> sort_key input_key (map fst inputs)
      then Inl (SnapshotMismatchError ''commit graph inputs must be canonical and distinct'')
      else Inr \<lparr>ws_commit_key = key, ws_graph_inputs = inputs, ws_settlement = settlement\<rparr>)"

definition ws_publications :: "('v, 'h, 'c, 'p) write_set \<Rightarrow> ('v, 'h, 'c, 'p) publication_evidence list" where
  "ws_publications w = (case ws_settlement w of Some (GraphSuccessResult _ p _) \<Rightarrow> [p] | _ \<Rightarrow> [])"

record ('v, 'h, 'c, 'p) graph_transition =
  tn_scope :: "string list"
  tn_previous_state :: "graph_run_state option"
  tn_command :: graph_run_command
  tn_candidate_state :: graph_run_state
  tn_writes :: "('v, 'h, 'c, 'p) write_set"
  tn_agent_session :: "('h, 'c, 'p) agent_session option"

fun is_session_error :: "kernel_error \<Rightarrow> bool" where
  "is_session_error (AgentSessionContractError _) = True"
| "is_session_error _ = False"

definition check_settlement_evidence ::
  "settle_graph_node_command \<Rightarrow> graph_run_state \<Rightarrow> ('v, 'h, 'c, 'p) write_set \<Rightarrow> unit res" where
  "check_settlement_evidence c candidate w =
     (case ws_settlement w of
        None \<Rightarrow> Inl (SnapshotMismatchError ''settlement evidence does not match its command'')
      | Some settlement \<Rightarrow>
          if cr_node_id settlement \<noteq> outcome_node_id (sn_outcome c)
          then Inl (SnapshotMismatchError ''settlement evidence does not match its command'')
          else (case settlement of
              GraphSuccessResult _ _ _ \<Rightarrow>
                if length (ws_publications w) \<noteq> 1
                then Inl (SnapshotMismatchError ''successful settlement requires exactly one publication evidence'')
                else (case sn_outcome c of
                    SucceededGraphNodeOutcome n _ \<Rightarrow>
                      bindE (mk_GraphActivationIdentity (gr_run_id candidate) (gr_superstep candidate) n) (\<lambda>a.
                      let matches = filter (\<lambda>p. ref_activation (ps_reference p) = a) (gr_settled_publications candidate) in
                      raise_unless (case matches of
                          [p] \<Rightarrow> p = GraphPublicationSettlement (ps_reference p) (gr_revision candidate) (sn_execution c)
                            (sn_publication_evidence c)
                        | _ \<Rightarrow> False)
                        (SnapshotMismatchError ''successful settlement candidate is not bound to its publication evidence''))
                  | _ \<Rightarrow> Inl (SnapshotMismatchError ''successful settlement evidence requires a successful state outcome''))
            | _ \<Rightarrow> raise_if (ws_publications w \<noteq> [])
                (SnapshotMismatchError ''failed or interrupted settlement cannot publish output evidence'')))"

definition check_start_evidence ::
  "start_graph_run_command \<Rightarrow> graph_run_state \<Rightarrow> ('v, 'h, 'c, 'p) write_set \<Rightarrow> unit res" where
  "check_start_evidence c candidate w =
     (if ws_settlement w \<noteq> None \<or> ws_publications w \<noteq> []
      then Inl (SnapshotMismatchError ''StartGraphRun cannot carry settlement output evidence'')
      else if length (ws_graph_inputs w) \<noteq> 1
      then Inl (SnapshotMismatchError ''StartGraphRun requires exactly one graph input evidence'')
      else raise_if (gr_graph_input_evidence candidate \<noteq> sg_graph_input_evidence c)
        (SnapshotMismatchError ''StartGraphRun candidate is not bound to its graph input evidence''))"

definition mk_GraphTransition ::
  "('p, 'z) config_env_scheme \<Rightarrow> ('v, 'h, 'c, 'p) graph_transition \<Rightarrow> ('v, 'h, 'c, 'p) graph_transition res" where
  "mk_GraphTransition E tr =
     (let w = tn_writes tr; candidate = tn_candidate_state tr in
      bindE (case tn_agent_session tr of
          None \<Rightarrow> Inr ()
        | Some x \<Rightarrow> bindE (catchE (admit_session_carrier E x) (\<lambda>e. if is_session_error e
            then Inl (SnapshotMismatchError ''graph transition AgentSession is malformed'') else Inl e)) (\<lambda>_. Inr ())) (\<lambda>_.
      if ck_run_id (ws_commit_key w) \<noteq> gr_run_id candidate \<or> ck_commit_revision (ws_commit_key w) \<noteq> gr_revision candidate
      then Inl (SnapshotMismatchError ''graph write set is not bound to the candidate state'')
      else bindE (case tn_command tr of
          StartGraphRun c \<Rightarrow> check_start_evidence c candidate w
        | _ \<Rightarrow> raise_if (ws_graph_inputs w \<noteq> [])
            (SnapshotMismatchError ''only StartGraphRun can carry graph input evidence'')) (\<lambda>_.
        bindE (case tn_command tr of
          SettleGraphNode c \<Rightarrow> check_settlement_evidence c candidate w
        | _ \<Rightarrow> raise_if (ws_settlement w \<noteq> None \<or> ws_publications w \<noteq> [])
            (SnapshotMismatchError ''only SettleGraphNode can carry settlement evidence'')) (\<lambda>_.
        Inr tr))))"

definition check_transition_session ::
  "('p, 'z) config_env_scheme \<Rightarrow> graph_run_command \<Rightarrow> graph_run_state \<Rightarrow> ('h, 'c, 'p) agent_session option \<Rightarrow> unit res" where
  "check_transition_session E command candidate agent_session =
     (case agent_session of
        None \<Rightarrow> Inr ()
      | Some x \<Rightarrow>
          catchE (bindE (admit_session_carrier E x) (\<lambda>a.
            (case command of
               StartGraphRun _ \<Rightarrow>
                 bindE (if gr_config_digest candidate \<noteq> None
                        then bindE (config_cursor_of candidate) (\<lambda>k. Inr (Some k)) else Inr None) (\<lambda>candidate_cursor.
                 bindE (session_config_cursor a) (\<lambda>cursor.
                 raise_if (cursor \<noteq> candidate_cursor)
                   (SnapshotMismatchError ''Graph candidate Config does not match its AgentSession'')))
             | _ \<Rightarrow> Inr ())))
           (\<lambda>e. if is_session_error e then Inl (SnapshotMismatchError ''Graph transition AgentSession is malformed'') else Inl e))"

definition transition_publication ::
  "compiled_graph \<Rightarrow> scope_run \<Rightarrow> graph_run_command \<Rightarrow> graph_run_state \<Rightarrow> ('v, 'h, 'c, 'p) task_result option \<Rightarrow>
     ('v, 'h, 'c, 'p) publication_evidence option res" where
  "transition_publication g sr command candidate result =
     (case command of
        SettleGraphNode c \<Rightarrow>
          (case result of
             None \<Rightarrow> Inl (FrameInstallationInvariantError ''SettleGraphNode requires settlement evidence'')
           | Some r \<Rightarrow>
               let task = tr_task r in
               if gt_run_id task \<noteq> gr_run_id candidate \<or> gt_superstep task \<noteq> gr_superstep candidate \<or>
                  gt_node_id task \<noteq> outcome_node_id (sn_outcome c)
               then Inl (SnapshotMismatchError ''settlement result does not match its command coordinates'')
               else (case r of
                   TaskSuccess _ output _ _ \<Rightarrow>
                     bindE (mk_GraphActivationIdentity (gt_run_id task) (gt_superstep task) (gt_node_id task)) (\<lambda>a.
                     bindE (publication_availability_coordinate g sr a) (\<lambda>k.
                     bindE (mk_ExecutionPublicationProvenance (sn_execution c)) (\<lambda>tok.
                     Inr (Some \<lparr>pe_coordinate = k, pe_frame = output, pe_execution_token = tok\<rparr>))))
                 | _ \<Rightarrow> Inr None))
      | _ \<Rightarrow> if result \<noteq> None
          then Inl (FrameInstallationInvariantError ''only SettleGraphNode can carry settlement evidence'') else Inr None)"

definition transition_inputs ::
  "compiled_graph \<Rightarrow> scope_run \<Rightarrow> graph_run_command \<Rightarrow> ('v, 'h, 'c, 'p) frame option \<Rightarrow>
     (graph_input_coordinate \<times> ('v, 'h, 'c, 'p) frame) list res" where
  "transition_inputs g sr command graph_input =
     (case command of
        StartGraphRun _ \<Rightarrow>
          (case graph_input of
             None \<Rightarrow> Inl (FrameInstallationInvariantError ''StartGraphRun requires graph input evidence'')
           | Some f \<Rightarrow> Inr [(graph_input_availability_coordinate g sr, f)])
      | _ \<Rightarrow> if graph_input \<noteq> None
          then Inl (FrameInstallationInvariantError ''only StartGraphRun can carry graph input evidence'') else Inr [])"

definition prepare_transition ::
  "('p, 'z) config_env_scheme \<Rightarrow> scope_run \<Rightarrow> graph_run_state option \<Rightarrow> graph_run_command \<Rightarrow>
     ('v, 'h, 'c, 'p) task_result option \<Rightarrow> compiled_graph \<Rightarrow> graph_run_state option \<Rightarrow> ('v, 'h, 'c, 'p) frame option \<Rightarrow>
     ('h, 'c, 'p) agent_session option \<Rightarrow> ('v, 'h, 'c, 'p) graph_transition res" where
  "prepare_transition E sr previous command result g admitted_successor graph_input agent_session =
     bindE (reduce_graph_run previous command) (\<lambda>candidate.
     bindE (transition_admission_error g previous command candidate) (\<lambda>err.
     if (case err of None \<Rightarrow> False | Some m \<Rightarrow> m \<noteq> []) then Inl (SnapshotMismatchError (the err))
     else bindE (check_transition_session E command candidate agent_session) (\<lambda>_.
     if (case admitted_successor of None \<Rightarrow> False | Some x \<Rightarrow> candidate \<noteq> x)
     then Inl (FrameInstallationInvariantError ''owner resume candidate does not match its admitted successor'')
     else bindE (transition_inputs g sr command graph_input) (\<lambda>inputs.
       bindE (transition_publication g sr command candidate result) (\<lambda>publication.
       bindE (mk_GraphCommitKey (gr_run_id candidate) (gr_revision candidate)) (\<lambda>key.
       bindE (case result of None \<Rightarrow> Inr None | Some r \<Rightarrow> bindE (commit_result_of r publication) (\<lambda>x. Inr (Some x))) (\<lambda>settlement.
       bindE (mk_GraphCommitWriteSet key inputs settlement) (\<lambda>writes.
       mk_GraphTransition E \<lparr>tn_scope = sr_scope sr, tn_previous_state = previous, tn_command = command,
         tn_candidate_state = candidate, tn_writes = writes, tn_agent_session = agent_session\<rparr>))))))))"

definition rebind_transition ::
  "('p, 'z) config_env_scheme \<Rightarrow> ('v, 'h, 'c, 'p) graph_transition \<Rightarrow> graph_run_command \<Rightarrow> ('v, 'h, 'c, 'p) graph_transition res" where
  "rebind_transition E tr command =
     bindE (reduce_graph_run (tn_previous_state tr) command) (\<lambda>candidate.
     mk_GraphTransition E (tr\<lparr>tn_command := command, tn_candidate_state := candidate\<rparr>))"

definition bind_transition_evidence ::
  "('p, 'z) config_env_scheme \<Rightarrow> ('v, 'h, 'c, 'p) graph_transition \<Rightarrow> evidence_commitment option \<Rightarrow> evidence_commitment option \<Rightarrow>
     ('v, 'h, 'c, 'p) graph_transition res" where
  "bind_transition_evidence E tr graph_input publication =
     (let other = (if graph_input \<noteq> None \<or> publication \<noteq> None
        then Inl (SnapshotMismatchError ''only value-producing transitions can bind durable evidence'') else Inr tr)
      in case tn_command tr of
        StartGraphRun c \<Rightarrow>
          (case (graph_input, publication) of
             (Some e, None) \<Rightarrow>
               bindE (admit_evidence e) (\<lambda>e'.
               if sg_graph_input_evidence c \<notin> {None, Some e'}
               then Inl (SnapshotMismatchError ''StartGraphRun graph input commitment cannot be replaced'')
               else rebind_transition E tr (StartGraphRun (c\<lparr>sg_graph_input_evidence := Some e'\<rparr>)))
           | _ \<Rightarrow> Inl (SnapshotMismatchError ''StartGraphRun requires exactly one graph input commitment''))
      | SettleGraphNode c \<Rightarrow>
          (case sn_outcome c of
             SucceededGraphNodeOutcome _ _ \<Rightarrow>
               (case (graph_input, publication) of
                  (None, Some e) \<Rightarrow>
                    bindE (admit_evidence e) (\<lambda>e'.
                    if sn_publication_evidence c \<notin> {None, Some e'}
                    then Inl (SnapshotMismatchError ''settlement publication commitment cannot be replaced'')
                    else rebind_transition E tr (SettleGraphNode (c\<lparr>sn_publication_evidence := Some e'\<rparr>)))
                | _ \<Rightarrow> Inl (SnapshotMismatchError ''successful settlement requires exactly one publication commitment''))
           | _ \<Rightarrow> other)
      | _ \<Rightarrow> other)"

section \<open>Confirmation and installation\<close>

datatype commit_error = GraphCommitError kernel_error

fun is_state_error :: "kernel_error \<Rightarrow> bool" where
  "is_state_error (GraphStateTransitionError _) = True"
| "is_state_error _ = False"

definition require_exact_successor :: "'a res \<Rightarrow> 'a res" where
  "require_exact_successor r =
     catchE r (\<lambda>e. if is_state_error e
       then Inl (SnapshotMismatchError ''commit must return the exact authoritative reducer successor'') else Inl e)"

definition confirm_transition ::
  "('v, 'h, 'c, 'p) graph_transition \<Rightarrow> (('v, 'h, 'c, 'p) graph_transition \<Rightarrow> graph_run_state res) \<Rightarrow> commit_error + graph_run_state" where
  "confirm_transition tr commit =
     (case bindE (commit tr) (\<lambda>confirmed.
           bindE (require_exact_successor (validate_graph_run_state confirmed)) (\<lambda>_.
           require_exact_successor (admit_graph_run_confirmation (tn_previous_state tr) (tn_command tr) confirmed))) of
        Inl e \<Rightarrow> Inl (GraphCommitError e)
      | Inr t \<Rightarrow> Inr t)"

definition scoped_commit ::
  "scope_run \<Rightarrow> (('v, 'h, 'c, 'p) graph_transition \<Rightarrow> graph_run_state res) option \<Rightarrow> ('v, 'h, 'c, 'p) graph_transition \<Rightarrow> graph_run_state res" where
  "scoped_commit sr commit tr =
     (if tn_scope tr \<noteq> sr_scope sr \<or> gr_run_id (tn_candidate_state tr) \<noteq> sr_graph_run_id sr \<or>
         (case tn_previous_state tr of None \<Rightarrow> False | Some p \<Rightarrow> gr_run_id p \<noteq> sr_graph_run_id sr)
      then Inl (SnapshotMismatchError ''owner commit received a transition for a different scoped graph run'')
      else (case commit of None \<Rightarrow> Inr (tn_candidate_state tr) | Some f \<Rightarrow> f tr))"

definition apply_commit_writes ::
  "('v, 'h, 'c, 'p) frames \<Rightarrow> ('v, 'h, 'c, 'p) write_set \<Rightarrow> ('v, 'h, 'c, 'p) frames res" where
  "apply_commit_writes frames w =
     bindE (foldE (\<lambda>ix (c, f). add_graph_input ix (c, \<lparr>rec_frame = f, rec_confirmation = None\<rparr>)) frames (ws_graph_inputs w)) (\<lambda>staged.
     foldE (\<lambda>ix e. add_publication ix (pe_coordinate e,
         \<lparr>rec_frame = pe_frame e, rec_confirmation = Some (ck_commit_revision (ws_commit_key w), pe_execution_token e)\<rparr>))
       staged (ws_publications w))"

end
