(* ===== verification/Engine_Sample.thy ===== *)
theory Engine_Sample
  imports Engine_Session Engine_Commit
begin

text \<open>
  A sample graph for the engine: \<open>a\<close> and \<open>b\<close> both need the resource \<open>db\<close>, \<open>c\<close> needs none; all three
  start together, read the graph input \<open>in\<close> and publish \<open>out\<close>.
\<close>

definition work_env :: "(string, unit) value_env" where
  "work_env = \<lparr>ce_sha256 = (\<lambda>_. replicate 64 (CHR ''0'')),
     ce_slice = \<lparr>slice_key = (\<lambda>_. ConfigSnapshotKey ''work'' 1 1), slice_post_init = (\<lambda>_. Inr ())\<rparr>,
     ve_class_of = (\<lambda>_. ''str''), ve_concrete = (\<lambda>d. d = ''str'')\<rparr>"

definition work_codec :: "(string, unit, unit, unit) frame_codec" where
  "work_codec = \<lparr>fc_codec_id = ''codec'', fc_version = 1, fc_encoder = (\<lambda>_. Inl (TypeError ''unused'')),
     fc_decoder = (\<lambda>_. Inl (TypeError ''unused''))\<rparr>"

definition work_descriptor :: "frame_kind \<Rightarrow> int \<Rightarrow> string \<Rightarrow> frame_descriptor" where
  "work_descriptor k i name = \<lparr>fd_identity = FrameDescriptorIdentity ''work'' 1 k i, fd_declarations = [(name, ''str'')]\<rparr>"

definition work_nodes :: "string list" where
  "work_nodes = [''a'', ''b'', ''c'']"

definition work_graph :: compiled_graph where
  "work_graph = CompiledGraph ''work'' 1
     [(''a'', CallableNode [''db''] {}), (''b'', CallableNode [''db''] {}), (''c'', CallableNode [] {})] []
     (work_descriptor GRAPH_INPUT 0 ''in'') (work_descriptor GRAPH_OUTPUT 0 ''out'')
     \<lparr>tp_entries = work_nodes, tp_direct_targets = map (\<lambda>n. (n, [])) work_nodes,
      tp_conditional_targets = map (\<lambda>n. (n, [])) work_nodes, tp_route_options = map (\<lambda>n. (n, [None])) work_nodes,
      tp_joins_by_source = map (\<lambda>n. (n, [])) work_nodes,
      tp_materializations = map (\<lambda>(i, n). (n, \<lparr>mp_bindings = [\<lparr>ib_node_id = n, ib_local_name = ''x'',
          ib_source = ResolvedSource (GraphInputPort ''in''), ib_descriptor = ''str'', ib_publication = None\<rparr>],
        mp_descriptor = work_descriptor NODE_INPUT i ''x''\<rparr>)) (zip [0..2] work_nodes),
      tp_publications = map (\<lambda>(i, n). (n, work_descriptor NODE_OUTPUT i ''out'')) (zip [0..2] work_nodes),
      tp_graph_outputs = [\<lparr>ob_boundary_name = ''out'', ob_source = NodeOutputPort ''c'' ''out'', ob_descriptor = ''str'',
        ob_publication = Some (PublicationSelection ABSOLUTE 0)\<rparr>],
      tp_resource_order = [''db''], tp_activation_gates = map (\<lambda>n. (n, [])) work_nodes\<rparr>
     [''db''] None {None}"

definition work_scope :: scope_run where
  "work_scope = ScopeRunCoordinate [] ''run''"

definition work_started :: graph_run_state where
  "work_started =
     \<lparr>gr_run_id = ''run'', gr_definition_id = ''work'', gr_definition_version = 1, gr_status = RUNNING, gr_superstep = 0,
      gr_frontier = map (\<lambda>n. \<lparr>fn_node_id = n, fn_settlement = PendingGraphNode UseStepRequestInput, fn_cause = StartActivationCause\<rparr>)
        work_nodes,
      gr_execution_sequence = 0, gr_resume_input_codec = None, gr_join_progress = [],
      gr_graph_input_evidence = None, gr_settled_publications = [], gr_resources = None, gr_execution = None,
      gr_abort = None, gr_parent = None, gr_revision = 0, gr_completion_route = None, gr_config_revision = 1,
      gr_config_definition_id = Some ''work'', gr_config_definition_version = Some 1, gr_config_digest = None\<rparr>"

definition work_frame :: "string \<Rightarrow> string \<Rightarrow> (string, unit, unit, unit) frame" where
  "work_frame name v = \<lparr>fr_entries = [(name, v)], fr_config = None, fr_session = None\<rparr>"

definition work_frames :: "(string, unit, unit, unit) frames" where
  "work_frames = \<lparr>fi_graph_inputs = [(graph_input_availability_coordinate work_graph work_scope,
       \<lparr>rec_frame = work_frame ''in'' ''hello'', rec_confirmation = None\<rparr>)],
     fi_publications = [], fi_resume_inputs = [], fi_child_boundaries = []\<rparr>"

definition work_request :: "(string, unit, unit, unit) step_request" where
  "work_request = \<lparr>rq_state = work_started, rq_scope_run = work_scope, rq_frames = work_frames, rq_child_projections = [],
     rq_limits = \<lparr>el_max_supersteps = 5, el_max_parallel_tasks = 2\<rparr>, rq_session = None\<rparr>"

definition work_executable :: "string \<Rightarrow> (string, unit, unit, unit) executable_task" where
  "work_executable n = ExecutableTask (frontier_task work_started n) (work_frame ''x'' ''hello'')"

definition work_locks :: resource_snapshot where
  "work_locks =
     \<lparr>snap_resources = [\<lparr>lock_resource_id = ''db'', lock_owner = Some ''a'', lock_waiters = [''b'']\<rparr>],
      snap_acquisitions =
        [\<lparr>acq_node_id = ''a'', acq_required = [''db''], acq_acquired = [''db''], acq_waiting_for = None\<rparr>,
         \<lparr>acq_node_id = ''b'', acq_required = [''db''], acq_acquired = [], acq_waiting_for = Some ''db''\<rparr>]\<rparr>"

definition work_preparation :: "(string, unit, unit, unit) frontier_preparation" where
  "work_preparation = \<lparr>fp_request = work_request, fp_tasks = map (frontier_task work_started) work_nodes,
     fp_executables = map work_executable work_nodes, fp_nested_results = [], fp_missing_children = [], fp_active_children = []\<rparr>"

definition work_claim :: "(string, unit, unit, unit) prepared_claim" where
  "work_claim = prepare_claim 0 work_preparation (Some work_locks) ''attempt''"

definition work_claimed :: graph_run_state where
  "work_claimed = work_started\<lparr>gr_execution_sequence := 1, gr_execution := Some (GraphExecutionToken 1 ''attempt''),
     gr_resources := Some work_locks, gr_revision := 1\<rparr>"

definition work_session :: "(string, unit, unit, unit, nat) execution_session" where
  "work_session = new_session work_claimed work_preparation"

lemma work_start: "bindE (project_start_graph_command work_graph ''run'' None None) (reduce_graph_run None) = Inr work_started"
  by code_simp

lemma work_guard: "require_scoped_snapshot_matches_graph work_graph work_started work_scope = Inr ()"
  by code_simp

lemma work_tasks: "plan_tasks work_graph work_started \<lparr>el_max_supersteps = 5, el_max_parallel_tasks = 2\<rparr> =
    Inr (map (frontier_task work_started) work_nodes)"
  by code_simp

lemma work_inputs: "n \<in> set work_nodes \<Longrightarrow>
    materialize_node_input work_env work_codec work_graph work_started work_scope work_frames n None = Inr (work_frame ''x'' ''hello'')"
  by (simp add: work_nodes_def, elim disjE; simp; code_simp)

lemma work_locked: "claim_resource_snapshot work_graph (map (frontier_task work_started) work_nodes) = Inr (Some work_locks)"
  by code_simp

lemma work_executables:
  "foldE (executable_step work_env work_codec work_graph work_request) [] (map (frontier_task work_started) work_nodes) =
     Inr (map work_executable work_nodes)"
proof -
  have "executable_step work_env work_codec work_graph work_request acc (frontier_task work_started n) = Inr (acc @ [work_executable n])"
    if "n \<in> set work_nodes" for n acc
  proof -
    have "fm_get (cg_nodes work_graph) n \<in> {Inr (CallableNode [''db''] {}), Inr (CallableNode [] {})}"
      using that by (auto simp: work_nodes_def work_graph_def fm_get_def)
    then show ?thesis using work_inputs [OF that]
      by (auto simp: executable_step_def frontier_task_def work_request_def work_executable_def is_callable_def)
  qed
  then show ?thesis by (simp add: work_nodes_def)
qed

lemma work_prepared: "prepare_superstep work_env work_codec 0 ''attempt'' work_graph work_request = Inr (ExecutableFrontier work_claim None)"
proof -
  have nested: "filter (\<lambda>t. fm_has (cg_nested_graphs work_graph) (gt_node_id t)) ts = []" for ts
    by (simp add: work_graph_def fm_has_def)
  have "prepare_frontier work_env work_codec work_graph work_request = Inr work_preparation"
    using work_tasks work_executables
    by (simp add: prepare_frontier_def nested) (simp add: work_request_def work_preparation_def)
  moreover have "rq_state work_request = work_started" "rq_scope_run work_request = work_scope" "gr_status work_started = RUNNING"
    "frontier_status (gr_frontier work_started) = Inr EXECUTABLE" "gr_execution work_started = None" by code_simp+
  ultimately show ?thesis using work_guard work_locked
    by (simp add: prepare_superstep_def waiting_children_def claim_frontier_def work_claim_def work_preparation_def)
qed

lemma work_claims: "reduce_graph_run (Some work_started) (xc_command work_claim) = Inr work_claimed"
  by code_simp

lemma work_claimed_guard: "require_snapshot_matches_graph work_graph work_claimed = Inr ()"
  by code_simp

lemma work_issued: "issue_session work_graph 0 work_claim work_claimed = Inr work_session"
proof -
  have p: "pending_node_ids (gr_frontier work_claimed) = work_nodes" "gr_parent work_claimed = None" by code_simp+
  have "require_scoped_snapshot_matches_graph work_graph work_claimed work_scope = Inr ()"
    using work_claimed_guard p(2)
    by (simp add: require_scoped_snapshot_matches_graph_def) (simp add: work_scope_def work_claimed_def work_started_def)
  moreover have "frontier_task work_claimed = frontier_task work_started" by (simp add: frontier_task_def [abs_def] work_claimed_def)
  then have "require_committed_claim_state (xc_command work_claim) work_claimed work_started (fp_tasks work_preparation) = Inr ()"
    using work_claims p(1) by (simp add: require_committed_claim_state_def work_preparation_def del: reduce_graph_run.simps)
  ultimately show ?thesis
    by (simp add: issue_session_def consume_claim_def issue_claim_def work_claim_def prepare_claim_def work_session_def)
      (simp add: work_preparation_def work_request_def)
qed

text \<open>The first call starts \<open>a\<close> and \<open>c\<close>; \<open>b\<close> waits for \<open>db\<close>.\<close>

definition work_running :: "(string, unit, unit, unit, nat) execution_session" where
  "work_running = work_session\<lparr>ss_started := {''a'', ''c''},
     ss_scheduler := \<lparr>sc_live = [work_executable ''a'', work_executable ''c''], sc_events = []\<rparr>, ss_phase := InWait\<rparr>"

lemma work_runs: "session_next work_graph work_session work_claimed = (work_running, Suspends)"
proof -
  have "acknowledge work_graph work_session work_claimed = Inr work_session"
    using work_claimed_guard by (simp add: acknowledge_def work_session_def new_session_def)
  moreover have "require_open work_session = Inr ()" "ss_phase work_session = NotRunning" by code_simp+
  moreover have "next_pass work_graph work_session = (work_running, Suspends)" by code_simp
  ultimately show ?thesis by (simp add: session_next_def)
qed

end
