(* ===== verification/Session_Properties.thy ===== *)
theory Session_Properties
  imports Session_Progress Engine_Sample
begin

text \<open>
  The properties of execution sessions: concurrency bound, single start and mutual exclusion of
  node bodies over all interleavings, and freedom from deadlock.
\<close>

section \<open>How one step changes the pool\<close>

text \<open>Limits stay, started nodes stay started, and a body that is new in the pool was never started.\<close>

definition pool_step :: "('v, 'h, 'c, 'p, 'x) execution_session \<Rightarrow> ('v, 'h, 'c, 'p, 'x) execution_session \<Rightarrow> bool" where
  "pool_step ss ss' \<longleftrightarrow> ss_limits ss' = ss_limits ss \<and> ss_started ss \<subseteq> ss_started ss' \<and>
     (\<forall>x\<in>set (live ss'). x \<in> set (live ss) \<or> node_of x \<notin> ss_started ss)"

lemma pool_step_trans: "pool_step a b \<Longrightarrow> pool_step b c \<Longrightarrow> pool_step a c"
  unfolding pool_step_def by (metis subset_iff)

lemma pool_step_refl: "same_pool ss ss' \<Longrightarrow> pool_step ss ss'"
  by (simp add: pool_step_def same_pool_def same_claim_def)

lemma acknowledge_pool: "acknowledge g ss s = Inr ss' \<Longrightarrow> pool_step ss ss'"
  by (erule acknowledge_cases) (simp_all add: pool_step_def)

lemma schedule_pool:
  assumes inv: "live_inv g ss" and "schedule_ordinary g ss = Inr (ss', b)"
  shows "pool_step ss ss'"
proof -
  from assms(2) obtain selected sc where sel: "select_ordinary g ss = Inr selected" and sub: "submit (ss_scheduler ss) selected = Inr sc"
    and ss': "ss' = ss\<lparr>ss_scheduler := sc, ss_started := ss_started ss \<union> node_of ` set selected\<rparr>"
    by (auto simp: schedule_ordinary_def bindE_eq_Inr node_of_def [abs_def])
  have "sc_live sc = live ss @ selected" using sub by (auto simp: submit_def Let_def split: if_splits)
  moreover have "node_of x \<notin> ss_started ss" if "x \<in> set selected" for x
    using select_ordinary_sound(4) [OF inv sel that] startable_holds by blast
  ultimately show ?thesis by (auto simp: pool_step_def ss')
qed

lemma close_pool: "pool_step ss ((close_session ss)\<lparr>ss_phase := p\<rparr>)" "pool_step ss (close_session ss)"
  by (simp_all add: close_session_def pool_step_def)

lemma project_pool: "project_completion g ss r = Inr (ss', x) \<Longrightarrow> pool_step ss ss'"
  by (auto simp: project_completion_def bindE_eq_Inr pool_step_def)

lemma finish_idle_pool: "pool_step ss (fst (finish_idle g ss))"
  by (simp add: finish_idle_def Let_def pool_step_def split: option.split)

lemma pool_step_phase [simp]: "pool_step ss (ss'\<lparr>ss_phase := p\<rparr>) = pool_step ss ss'"
  "pool_step (ss\<lparr>ss_phase := p\<rparr>) ss' = pool_step ss ss'" "pool_step (ss\<lparr>ss_queued_results := q\<rparr>) ss' = pool_step ss ss'"
  "pool_step ss (ss'\<lparr>ss_queued_results := q\<rparr>) = pool_step ss ss'"
  by (simp_all add: pool_step_def)

lemma next_pass_pool:
  assumes "live_inv g ss" and np: "next_pass g ss = (ss', r)"
  shows "pool_step ss ss'"
proof -
  define d where "d = drain_scheduler_events ss"
  have inv: "live_inv g d" using live_inv_pool [OF assms(1)] drain_pool unfolding d_def by blast
  have "pool_step ss d" using drain_pool pool_step_refl unfolding d_def by blast
  moreover have "pool_step d ss'"
  proof (cases "ss_node_origin_cancellation d")
    case (Some x)
    with np close_pool show ?thesis by (auto simp: next_pass_def d_def [symmetric])
  next
    case origin: None
    show ?thesis
    proof (cases "ss_queued_results d")
      case Nil
      show ?thesis
      proof (cases "schedule_ordinary g d")
        case (Inl e)
        with np origin Nil show ?thesis by (auto simp: next_pass_def d_def [symmetric] pool_step_refl same_pool_def same_claim_def)
      next
        case (Inr y)
        obtain ss1 b where y: "y = (ss1, b)" by (cases y)
        have p1: "pool_step d ss1" using schedule_pool [OF inv] Inr y by blast
        then have "pool_step d (fst (finish_idle g ss1))" using finish_idle_pool pool_step_trans by blast
        with p1 np origin Nil Inr y show ?thesis by (auto simp: next_pass_def d_def [symmetric] split: if_splits)
      qed
    next
      case (Cons q qs)
      obtain res refill where q: "q = (res, refill)" by (cases q)
      note p = pop_live_inv [OF inv Cons [unfolded q]]
      let ?popped = "d\<lparr>ss_queued_results := qs\<rparr>"
      show ?thesis
      proof (cases "project_completion g ?popped res")
        case (Inl e)
        with np origin Cons q show ?thesis by (auto simp: next_pass_def d_def [symmetric] pool_step_refl same_pool_def same_claim_def)
      next
        case (Inr y)
        obtain ss1 x where y: "y = (ss1, x)" by (cases y)
        have i1: "live_inv g ss1" using project_live_inv [OF p(1) Inr [unfolded y]] p(2,3) by simp
        have p1: "pool_step d ss1" using project_pool [OF Inr [unfolded y]] by simp
        then have "pool_step d ss2" if "schedule_ordinary g ss1 = Inr (ss2, b)" for ss2 b
          using schedule_pool [OF i1 that] pool_step_trans by blast
        with p1 np origin Cons q Inr y show ?thesis
          by (auto simp: next_pass_def d_def [symmetric] split: sum.splits if_splits prod.splits)
      qed
    qed
  qed
  ultimately show ?thesis by (rule pool_step_trans)
qed

lemma next_completion_pool: "next_completion E g (ss_scheduler ss) fin = Inr (sc, e) \<Longrightarrow> pool_step ss (ss\<lparr>ss_scheduler := sc\<rparr>)"
  by (auto simp: next_completion_def pool_step_def split: list.splits if_splits)

lemma record_error_pool_step: "pool_step ss (record_error ss x)"
  using record_error_pool pool_step_refl by blast

lemma resume_wait_pool:
  assumes "live_inv g ss" and "set (map fst finished) \<subseteq> set (live ss)" and rw: "resume_wait E g ss finished = (ss', r)"
  shows "pool_step ss ss'"
proof -
  let ?ss = "ss\<lparr>ss_phase := NotRunning\<rparr>"
  show ?thesis
  proof (cases "next_completion E g (ss_scheduler ?ss) finished")
    case (Inl e)
    with rw show ?thesis by (auto simp: resume_wait_def pool_step_refl same_pool_def same_claim_def)
  next
    case (Inr y)
    obtain sc event where y: "y = (sc, event)" by (cases y)
    let ?u = "?ss\<lparr>ss_scheduler := sc\<rparr>"
    have u: "pool_step ss ?u" using next_completion_pool [OF Inr [unfolded y]] by simp
    have inv: "live_inv g ?u" using next_completion_live_inv [OF _ _ Inr [unfolded y]] assms(1,2) by simp
    show ?thesis
    proof (cases event)
      case (TaskDone result)
      with u rw Inr y project_pool [of g ?u result] pool_step_trans [OF u] show ?thesis
        by (cases "project_completion g ?u result") (auto simp: resume_wait_def Let_def split: prod.splits)
    next
      case (TaskRaised t x)
      have "live_inv g (record_error ?u (t, x))" using live_inv_pool [OF inv] record_error_pool by blast
      then have "pool_step (record_error ?u (t, x)) ss'" using next_pass_pool rw Inr y TaskRaised by (simp add: resume_wait_def Let_def)
      then show ?thesis using u record_error_pool_step pool_step_trans by blast
    qed
  qed
qed

lemma session_step_pool:
  assumes "session_step E g ss l ss'" and "live_inv g ss"
  shows "pool_step ss ss'"
  using assms(1)
proof cases
  case (call_next s r)
  then show ?thesis
    using next_pass_pool acknowledge_live_inv [OF assms(2), of s] acknowledge_pool pool_step_trans
    by (auto simp: session_next_def pool_step_refl same_pool_def same_claim_def split: sum.splits if_splits) blast+
next
  case (tasks_finish finished r)
  then show ?thesis using resume_wait_pool [OF assms(2)] by blast
next
  case (wake_up executed r)
  then show ?thesis by (auto simp: resume_sleep_def pool_step_refl same_pool_def same_claim_def)
next
  case (consume_origin x b)
  then show ?thesis by (auto simp: consume_node_origin_def pool_step_refl same_pool_def same_claim_def split: if_splits)
qed (use close_pool in blast)+

lemma session_reaches_limits:
  assumes "session_reaches E g ss ss'" and "live_inv g ss"
  shows "ss_limits ss' = ss_limits ss"
  using assms
proof (induction rule: session_reaches.induct)
  case (step t r u)
  with session_reaches_live_inv [OF step.hyps(1)] session_step_pool [OF step.hyps(2)] show ?case by (simp add: pool_step_def)
qed simp

section \<open>Properties\<close>

text \<open>
  C4. Concurrency of an execution session. For every issued session and every interleaving of
  \<open>next\<close> calls, finishing tasks, wake-ups, cancellations and closings, whatever the node bodies
  return or raise: at most \<open>max_parallel_tasks\<close> bodies run at a time, each for a different pending
  node of the acknowledged state, two running bodies never need the same resource, and a step
  only ever starts a body that was not started before.
\<close>

theorem session_exclusion:
  assumes kinds: "plan_kinds g" and limit: "1 \<le> el_max_parallel_tasks (rq_limits request)"
    and prep: "prepare_superstep E K owner attempt_id g request = Inr (ExecutableFrontier claim children)"
    and iss: "issue_session g owner claim s = Inr ss0" and reach: "session_reaches E g ss0 ss"
  shows "int (length (live ss)) \<le> el_max_parallel_tasks (rq_limits request) \<and> distinct (map node_of (live ss)) \<and>
    (\<forall>x\<in>set (live ss). node_of x \<in> set (pending_node_ids (gr_frontier (ss_state ss)))) \<and>
    (\<forall>x\<in>set (live ss). \<forall>y\<in>set (live ss). node_of x \<noteq> node_of y \<longrightarrow>
       set (requirements_of g (node_of x)) \<inter> set (requirements_of g (node_of y)) = {}) \<and>
    (\<forall>l ss'. session_step E g ss l ss' \<longrightarrow> ss_started ss \<subseteq> ss_started ss' \<and>
       (\<forall>x\<in>set (live ss'). x \<in> set (live ss) \<or> node_of x \<notin> ss_started ss))"
proof -
  have i: "issued_from E K g ss0" using kinds limit prep iss unfolding issued_from_def by blast
  have l0: "live_inv g ss0" by (rule issued_live_inv [OF i])
  have l: "live_inv g ss" by (rule session_reaches_live_inv [OF reach l0])
  have "fp_request (xc_preparation claim) = request" using prepared_claim_facts [OF prep] prepare_frontier_facts(1) by blast
  then have "ss_limits ss0 = rq_limits request" using iss
    by (auto simp: issue_session_def consume_claim_def issue_claim_def new_session_def bindE_eq_Inr if_Inl_eq_Inr)
  then have "ss_limits ss = rq_limits request" using session_reaches_limits [OF reach l0] by simp
  moreover have "\<forall>l ss'. session_step E g ss l ss' \<longrightarrow> pool_step ss ss'" using session_step_pool l by blast
  ultimately show ?thesis using l live_inv_exclusion [OF l] by (simp add: live_inv_def pool_step_def)
qed

theorem session_exclusion_witness:
  "session_reaches work_env work_graph work_session work_running \<and> map node_of (live work_running) = [''a'', ''c''] \<and>
   set (requirements_of work_graph ''a'') \<inter> set (requirements_of work_graph ''c'') = {}"
proof -
  have r: "session_reaches work_env work_graph work_session work_running"
    by (rule session_reaches.step [OF session_reaches.start session_step.call_next [OF work_runs]])
  have k: "plan_kinds work_graph" "1 \<le> el_max_parallel_tasks (rq_limits work_request)" by code_simp+
  have l: "map node_of (live work_running) = [''a'', ''c'']" by code_simp
  then obtain x y where "live work_running = [x, y]" "node_of x = ''a''" "node_of y = ''c''" by auto
  with session_exclusion [OF k work_prepared work_issued r] r l show ?thesis by simp
qed

text \<open>
  C5. An execution session is never stuck. In every state that an issued session reaches
  without an error raised by the kernel itself, while no body has failed: when the caller hands
  in a state that is acknowledged and nothing is queued, \<open>next\<close> waits with at least one running
  body, or ends the iteration because only nested graphs are pending. The error \<open>no executable
  pending node can be scheduled\<close> is not reached.
\<close>

theorem session_never_stuck:
  assumes kinds: "plan_kinds g" and limit: "1 \<le> el_max_parallel_tasks (rq_limits request)"
    and prep: "prepare_superstep E K owner attempt_id g request = Inr (ExecutableFrontier claim children)"
    and iss: "issue_session g owner claim s0 = Inr ss0" and run: "healthy_run E g ss0 ss"
    and op: "ss_disposition ss = OPEN" "ss_phase ss = NotRunning" and empty: "ss_queued_results ss = []" "sc_events (ss_scheduler ss) = []"
    and ack: "acknowledge g ss s = Inr u" and nxt: "session_next g ss s = (ss', r)"
  shows "(r = Suspends \<and> ss_phase ss' = InWait \<and> live ss' \<noteq> []) \<or>
    (r = RaisesStopAsyncIteration \<and> (\<forall>n\<in>set (pending_node_ids (gr_frontier s)). fm_has (cg_nested_graphs g) n))"
proof -
  have i: "issued_from E K g ss0" using kinds limit prep iss unfolding issued_from_def by blast
  have inv: "live_inv g ss" "progress_inv g ss" using healthy_run_inv [OF run] issued_live_inv [OF i] by blast+
  have t: "turn_inv g ss" "ss_disposition ss \<in> {OPEN, ERROR_DRAINING}" using inv(2) op(1) by (simp_all add: progress_inv_iff)
  have st: "ss_state u = s" using ack by (auto simp: acknowledge_def bindE_eq_Inr if_Inl_eq_Inr split: option.splits)
  have d: "ss_disposition u = OPEN" using ack op(1) by (cases rule: acknowledge_cases) auto
  have np: "next_pass g u = (ss', r)" using nxt ack op by (simp add: session_next_def require_open_def)
  note a = acknowledge_progress [OF t(1) op(2) t(2) ack]
  from next_pass_not_stuck [OF _ _ _ d _ _ np kinds] acknowledge_live_inv [OF inv(1) ack] a empty st
  show ?thesis by simp
qed

theorem session_never_stuck_witness:
  "acknowledge work_graph work_session work_claimed = Inr work_session \<and>
   (\<exists>ss'. session_next work_graph work_session work_claimed = (ss', Suspends) \<and> live ss' \<noteq> [])"
proof -
  have k: "plan_kinds work_graph" "1 \<le> el_max_parallel_tasks (rq_limits work_request)" "ss_disposition work_session = OPEN"
    "ss_phase work_session = NotRunning" "ss_queued_results work_session = []" "sc_events (ss_scheduler work_session) = []" by code_simp+
  have ack: "acknowledge work_graph work_session work_claimed = Inr work_session"
    using work_claimed_guard by (simp add: acknowledge_def work_session_def new_session_def)
  from session_never_stuck [OF k(1,2) work_prepared work_issued healthy_run.start k(3-6) ack work_runs] ack work_runs
  show ?thesis by auto
qed

end
