(* ===== verification/Claim_Flow.thy ===== *)
theory Claim_Flow
  imports Session_Progress Reducer_Enabled
begin

text \<open>
  From a prepared claim to its session: the resource snapshot planned for a claim is what the
  reducer asks for, and the reducer's successor passes every check of the session issue.
\<close>

section \<open>A claim leaves the topology of a state alone\<close>

definition same_topology :: "graph_run_state \<Rightarrow> graph_run_state \<Rightarrow> bool" where
  "same_topology s t \<longleftrightarrow> gr_run_id t = gr_run_id s \<and> gr_definition_id t = gr_definition_id s \<and>
     gr_definition_version t = gr_definition_version s \<and> gr_status t = gr_status s \<and> gr_superstep t = gr_superstep s \<and>
     gr_frontier t = gr_frontier s \<and> gr_join_progress t = gr_join_progress s \<and>
     gr_settled_publications t = gr_settled_publications s \<and> gr_resume_input_codec t = gr_resume_input_codec s \<and>
     gr_parent t = gr_parent s"

lemma same_topologyD:
  assumes "same_topology s t"
  shows "gr_run_id t = gr_run_id s" "gr_definition_id t = gr_definition_id s" "gr_definition_version t = gr_definition_version s"
    "gr_status t = gr_status s" "gr_superstep t = gr_superstep s" "gr_frontier t = gr_frontier s" "gr_join_progress t = gr_join_progress s"
    "gr_settled_publications t = gr_settled_publications s" "gr_resume_input_codec t = gr_resume_input_codec s"
    "gr_parent t = gr_parent s"
  using assms by (simp_all add: same_topology_def)

lemma routing_evaluation_topology:
  assumes "same_topology s t"
  shows "routing_evaluation g t = routing_evaluation g s"
  unfolding routing_evaluation_def settled_activation_admission_error_def frontier_gate_error_def gate_error_def causal_binding_error_def
    join_evidence_error_def pending_join_arrivals_def pending_join_step_def historical_join_arrivals_def historical_step_def
    record_arrival_def post_advance_error_def successor_phase_def join_phase_def progress_phase_def
    causal_input_source_for_cause_def settled_references_def frontier_references_def same_topologyD [OF assms]
  by (rule refl)

section \<open>The planned resource snapshot\<close>

lemma acquire_effect:
  assumes red: "reduce_resources s (AcquireResources n rs) = Inr t" and ne: "rs \<noteq> []"
  shows "requests t = requests s @ [(n, rs)]" "resource_ids t = resource_ids s" "validate_resource_snapshot t = Inr ()"
    "acq_node_id (last (snap_acquisitions t)) = n"
proof -
  note d = reduce_resourcesD [OF red]
  from d(2) ne obtain ls a where a: "advance (resource_ids s) (snap_resources s)
      \<lparr>acq_node_id = n, acq_required = rs, acq_acquired = [], acq_waiting_for = None\<rparr> = Inr (ls, a)"
    and t: "t = \<lparr>snap_resources = ls, snap_acquisitions = snap_acquisitions s @ [a]\<rparr>"
    by (auto simp: acquire_def resE)
  note k = advance_keeps [OF a]
  show "requests t = requests s @ [(n, rs)]" "acq_node_id (last (snap_acquisitions t)) = n" using k by (simp_all add: t requests_def)
  show "resource_ids t = resource_ids s"
    using advance_ids [of "snap_resources s"] a valid_ids_distinct [OF d(1)] by (simp add: t resource_ids_def)
  show "validate_resource_snapshot t = Inr ()" by (rule d(3))
qed

lemma resource_tasks_eq:
  assumes "foldE (\<lambda>acc t. bindE (fm_get (cg_nodes g) (gt_node_id t)) (\<lambda>d.
       case d of CallableNode rs _ \<Rightarrow> Inr (if rs \<noteq> [] then acc @ [t] else acc) | NestedNode \<Rightarrow> Inr acc)) acc tasks = Inr ts"
  shows "ts = acc @ filter (\<lambda>t. requirements_of g (gt_node_id t) \<noteq> []) tasks"
  using assms
proof (induction tasks arbitrary: acc)
  case (Cons t tasks)
  from Cons.prems obtain d where d: "map_of (cg_nodes g) (gt_node_id t) = Some d"
    by (auto simp: bindE_eq_Inr fm_get_def split: option.splits)
  show ?case
  proof (cases d)
    case NestedNode
    with Cons.prems Cons.IH [of acc] d show ?thesis by (simp add: fm_get_def requirements_of_def)
  next
    case (CallableNode rs routes)
    then have "requirements_of g (gt_node_id t) = rs" using d by (simp add: requirements_of_def)
    with Cons.prems Cons.IH [of "if rs \<noteq> [] then acc @ [t] else acc"] d CallableNode show ?thesis
      by (simp add: fm_get_def split: if_splits)
  qed
qed simp

text \<open>What the admission loop has done after some tasks: their requests in order, in a valid snapshot.\<close>

definition admitted_so_far ::
  "compiled_graph \<Rightarrow> string list \<Rightarrow> graph_task list \<Rightarrow> task_admission \<times> (string \<rightharpoonup> resource_acquisition) \<Rightarrow> bool" where
  "admitted_so_far g ids ts st \<longleftrightarrow> resource_ids (ta_snapshot (fst st)) = ids \<and>
     requests (ta_snapshot (fst st)) = map (\<lambda>t. (gt_node_id t, requirements_of g (gt_node_id t))) ts \<and>
     (ts \<noteq> [] \<longrightarrow> validate_resource_snapshot (ta_snapshot (fst st)) = Inr ()) \<and>
     (\<forall>n. snd st n \<noteq> None \<longrightarrow> n \<in> gt_node_id ` set ts)"

lemma admit_task_step_effect:
  assumes i: "admitted_so_far g ids ts st" and step: "admit_task_step g st t = Inr st'"
    and r: "requirements_of g (gt_node_id t) \<noteq> []" and fresh: "gt_node_id t \<notin> gt_node_id ` set ts"
  shows "admitted_so_far g ids (ts @ [t]) st'"
proof -
  obtain ta acq where st: "st = (ta, acq)" by (cases st)
  obtain routes where d: "map_of (cg_nodes g) (gt_node_id t) = Some (CallableNode (requirements_of g (gt_node_id t)) routes)"
    using r by (auto simp: requirements_of_def split: option.splits graph_node.splits)
  have none: "acq (gt_node_id t) = None" using i fresh st by (auto simp: admitted_so_far_def)
  from step d none r obtain p where p: "reduce_resources (ta_snapshot ta) (AcquireResources (gt_node_id t) (requirements_of g (gt_node_id t))) = Inr p"
    and st': "ta_snapshot (fst st') = p" "snd st' = acq(gt_node_id t \<mapsto> last (snap_acquisitions p))"
    by (auto simp: admit_task_step_def st fm_get_def Let_def bindE_eq_Inr split: if_splits)
  from acquire_effect [OF p r] i show ?thesis by (auto simp: admitted_so_far_def st st')
qed

lemma admit_loop_effect:
  assumes "foldE (admit_task_step g) st ts = Inr st'" and "admitted_so_far g ids done_ts st"
    and "\<forall>t\<in>set ts. requirements_of g (gt_node_id t) \<noteq> []" and "distinct (map gt_node_id (done_ts @ ts))"
  shows "admitted_so_far g ids (done_ts @ ts) st'"
  using assms
proof (induction ts arbitrary: st done_ts)
  case (Cons t ts)
  from Cons.prems(1) obtain u where u: "admit_task_step g st t = Inr u" "foldE (admit_task_step g) u ts = Inr st'"
    by (auto simp: bindE_eq_Inr)
  have "admitted_so_far g ids (done_ts @ [t]) u"
    using admit_task_step_effect [OF Cons.prems(2) u(1)] Cons.prems(3,4) by auto
  from Cons.IH [OF u(2) this] Cons.prems(3,4) show ?case by simp
qed simp

lemma claim_resources_planned:
  assumes c: "claim_resource_snapshot g tasks = Inr res" and d: "distinct (map gt_node_id tasks)"
  shows "(\<lambda>a. (acq_node_id a, acq_required a)) ` set (held_by res) =
      {(gt_node_id t, requirements_of g (gt_node_id t)) |t. t \<in> set tasks \<and> requirements_of g (gt_node_id t) \<noteq> []}"
    and "res = Some r \<Longrightarrow> validate_resource_snapshot r = Inr () \<and> snap_acquisitions r \<noteq> [] \<and>
      map lock_resource_id (snap_resources r) = tp_resource_order (cg_transition g)"
proof -
  let ?ts = "filter (\<lambda>t. requirements_of g (gt_node_id t) \<noteq> []) tasks"
  let ?reqs = "\<lambda>ts. (\<lambda>t. (gt_node_id t, requirements_of g (gt_node_id t))) ` set ts"
  from c obtain ts where ts: "resource_tasks g tasks = Inr ts" by (auto simp: claim_resource_snapshot_def bindE_eq_Inr)
  from resource_tasks_eq [OF ts [unfolded resource_tasks_def]] have e: "ts = ?ts" by simp
  have "(\<lambda>a. (acq_node_id a, acq_required a)) ` set (held_by res) = ?reqs ?ts \<and>
      (\<forall>r. res = Some r \<longrightarrow> validate_resource_snapshot r = Inr () \<and> snap_acquisitions r \<noteq> [] \<and>
        map lock_resource_id (snap_resources r) = tp_resource_order (cg_transition g))"
  proof (cases "ts = []")
    case True
    with c ts have "res = None" by (simp add: claim_resource_snapshot_def)
    with True e show ?thesis by (simp add: held_by_def)
  next
    case False
    with c ts obtain ta where a: "admit_tasks g ts (initial_resource_snapshot g) = Inr ta"
      and res: "res = Some (ta_snapshot ta)" "snap_acquisitions (ta_snapshot ta) \<noteq> []"
      by (auto simp: claim_resource_snapshot_def bindE_eq_Inr if_Inl_eq_Inr)
    let ?sorted = "sort_key task_sort_key ts"
    let ?st = "(\<lparr>ta_snapshot = initial_resource_snapshot g, ta_admitted_node_ids = [], ta_waiting_node_ids = []\<rparr>, acquisition_of [])"
    from a obtain acq where f: "foldE (admit_task_step g) ?st ?sorted = Inr (ta, acq)"
      by (auto simp: admit_tasks_def bindE_eq_Inr if_Inl_eq_Inr initial_resource_snapshot_def)
    have init: "admitted_so_far g (tp_resource_order (cg_transition g)) [] ?st"
      by (simp add: admitted_so_far_def initial_resource_snapshot_def resource_ids_def requests_def acquisition_of_def
          empty_lock_def comp_def)
    have req: "\<forall>t\<in>set ?sorted. requirements_of g (gt_node_id t) \<noteq> []" by (simp add: e)
    have "distinct (map gt_node_id ts)" using d e by (simp add: distinct_map_filter)
    then have "distinct (map gt_node_id ([] @ ?sorted))" by (simp add: distinct_map)
    from admit_loop_effect [OF f init req this]
    have "admitted_so_far g (tp_resource_order (cg_transition g)) ?sorted (ta, acq)" by simp
    moreover have "?sorted \<noteq> []" using False by (metis set_empty set_sort)
    ultimately have "resource_ids (ta_snapshot ta) = tp_resource_order (cg_transition g)" "set (requests (ta_snapshot ta)) = ?reqs ts"
      "validate_resource_snapshot (ta_snapshot ta) = Inr ()" by (simp_all add: admitted_so_far_def)
    with res e show ?thesis by (simp add: held_by_def requests_def resource_ids_def)
  qed
  then show "(\<lambda>a. (acq_node_id a, acq_required a)) ` set (held_by res) =
      {(gt_node_id t, requirements_of g (gt_node_id t)) |t. t \<in> set tasks \<and> requirements_of g (gt_node_id t) \<noteq> []}"
    and "res = Some r \<Longrightarrow> validate_resource_snapshot r = Inr () \<and> snap_acquisitions r \<noteq> [] \<and>
      map lock_resource_id (snap_resources r) = tp_resource_order (cg_transition g)" by auto
qed

section \<open>From the claim to the session\<close>

lemma prepared_claim_state:
  assumes "prepare_superstep E K owner att g req = Inr (ExecutableFrontier claim children)"
  obtains res where "claim_resource_snapshot g (fp_tasks (xc_preparation claim)) = Inr res"
    "xc_command claim = ClaimGraphExecution (gr_revision (rq_state req)) att res" "xc_owner claim = owner" "\<not> xc_consumed claim"
    "require_scoped_snapshot_matches_graph g (rq_state req) (rq_scope_run req) = Inr ()"
    "gr_status (rq_state req) = RUNNING" "gr_execution (rq_state req) = None" "frontier_status (gr_frontier (rq_state req)) \<noteq> Inr SETTLED"
    "frontier_status (gr_frontier (rq_state req)) \<noteq> Inr AWAITING_RESUME"
    "fp_tasks (xc_preparation claim) = map (frontier_task (rq_state req)) (pending_node_ids (gr_frontier (rq_state req)))"
    "fp_request (xc_preparation claim) = req"
proof (cases "gr_status (rq_state req)")
  case RUNNING
  with assms obtain fp children' status where st: "require_scoped_snapshot_matches_graph g (rq_state req) (rq_scope_run req) = Inr ()"
    "frontier_status (gr_frontier (rq_state req)) = Inr status" "status \<noteq> SETTLED" "status \<noteq> AWAITING_RESUME"
    "gr_execution (rq_state req) = None"
    and fp: "prepare_frontier E K g req = Inr fp" "claim_frontier owner att g fp children' = Inr (ExecutableFrontier claim children)"
    by (auto simp: prepare_superstep_def Let_def bindE_eq_Inr split: if_splits)
  have rq: "fp_request fp = req" by (rule prepare_frontier_facts [OF fp(1)])
  from fp(2) obtain res where c: "claim_resource_snapshot g (fp_tasks fp) = Inr res" "claim = prepare_claim owner fp res att"
    by (auto simp: claim_frontier_def bindE_eq_Inr split: if_splits)
  have "fp_tasks fp = map (frontier_task (rq_state req)) (pending_node_ids (gr_frontier (rq_state req)))"
    using fp(1) RUNNING by (auto simp: prepare_frontier_def plan_tasks_def Let_def bindE_eq_Inr if_Inl_eq_Inr)
  with st c rq RUNNING show thesis
    by (intro that [of res]) (simp_all add: prepare_claim_def project_claim_command_def)
qed (use assms in \<open>auto simp: prepare_superstep_def bindE_eq_Inr\<close>)

lemma dict_same_of_set:
  assumes "set xs = set ys" "distinct (map fst xs)" "distinct (map fst ys)"
  shows "dict_same xs ys"
proof -
  have "map_of (rev xs) = map_of (rev ys)"
    using assms by (intro map_of_inject_set [THEN iffD2]) (simp_all add: rev_map [symmetric])
  then show ?thesis using assms(1) by (simp add: dict_same_def list_all_iff)
qed

lemma pending_requirements_total:
  assumes "\<forall>n\<in>set (pending_node_ids f). map_of (cg_nodes g) n \<noteq> None"
  shows "\<exists>required. foldE (\<lambda>acc x. if is_pending (fn_settlement x)
       then bindE (fm_get (cg_nodes g) (fn_node_id x)) (\<lambda>d.
         case d of CallableNode rs _ \<Rightarrow> Inr (if rs \<noteq> [] then acc @ [(fn_node_id x, rs)] else acc) | NestedNode \<Rightarrow> Inr acc)
       else Inr acc) acc f = Inr required"
  using assms
proof (induction f arbitrary: acc)
  case (Cons x f)
  have rest: "\<forall>n\<in>set (pending_node_ids f). map_of (cg_nodes g) n \<noteq> None" using Cons.prems by (auto simp: pending_node_ids_def)
  show ?case
  proof (cases "is_pending (fn_settlement x)")
    case False
    with Cons.IH [OF rest] show ?thesis by simp
  next
    case True
    then obtain d where "map_of (cg_nodes g) (fn_node_id x) = Some d" using Cons.prems by (auto simp: pending_node_ids_def)
    with True Cons.IH [OF rest] show ?thesis by (cases d) (simp_all add: fm_get_def)
  qed
qed simp

lemma require_resources_match_complete:
  assumes w: "wf_state s" and known: "\<forall>n\<in>set (pending_node_ids (gr_frontier s)). map_of (cg_nodes g) n \<noteq> None"
    and m: "resources_match g s"
    and order: "\<forall>r. gr_resources s = Some r \<longrightarrow> map lock_resource_id (snap_resources r) = tp_resource_order (cg_transition g)"
  shows "require_resources_match g s = Inr ()"
proof -
  let ?req = "\<lambda>a. (acq_node_id a, acq_required a)"
  obtain required where r: "pending_requirements g s = Inr required"
    using pending_requirements_total [OF known, of "[]"] by (auto simp: pending_requirements_def)
  from pending_requirements_eq [OF r [unfolded pending_requirements_def]]
  have e: "required = map (\<lambda>n. (n, requirements_of g n)) (filter (\<lambda>n. requirements_of g n \<noteq> []) (pending_node_ids (gr_frontier s)))" by simp
  have d: "distinct (map fst required)"
    using w by (simp add: e wf_state_def wf_frontier_def canonical_tuple_iff pending_node_ids_def distinct_map_filter comp_def)
  have set: "set (map ?req (held_by (gr_resources s))) = set required" using m unfolding resources_match_def e by auto
  show ?thesis
  proof (cases "gr_resources s")
    case None
    then have "required = []" using set by (simp add: held_by_def)
    with None r show ?thesis by (simp add: require_resources_match_def)
  next
    case (Some q)
    then have ne: "snap_acquisitions q \<noteq> []" using w by (simp add: wf_state_def wf_resources_def)
    then have "required \<noteq> []" using set Some by (auto simp: held_by_def)
    moreover have "dict_same (map ?req (snap_acquisitions q)) required"
      using set d wf_acquisitions(1) [OF w] Some by (intro dict_same_of_set) (simp_all add: held_by_def comp_def)
    ultimately show ?thesis using r Some order by (simp add: require_resources_match_def)
  qed
qed

lemma claimed_snapshot_matches:
  assumes m: "require_scoped_snapshot_matches_graph g s sr = Inr ()" and same: "same_topology s t" and w: "wf_state t"
    and run: "gr_status s = RUNNING" and res: "require_resources_match g t = Inr ()"
  shows "require_scoped_snapshot_matches_graph g t sr = Inr ()"
proof -
  have c: "catchE m (\<lambda>e. case e of GraphStateTransitionError m \<Rightarrow> Inl (InvalidExecutionSnapshotError m) | _ \<Rightarrow> Inl e) = Inr y
      \<longleftrightarrow> m = Inr y" for m :: "unit res" and y by (rule catchE_raising) (auto split: kernel_error.splits)
  have v: "validate_graph_run_state t = Inr ()" using w by (simp add: validate_graph_run_state_iff)
  have fe: "frontier_admission_error g t = frontier_admission_error g s"
    by (simp add: frontier_admission_error_def routing_evaluation_topology [OF same])
  note eq = same_topologyD [OF same]
  from m have g: "require_snapshot_matches_graph g s = Inr ()" by (auto simp: require_scoped_snapshot_matches_graph_def bindE_eq_Inr)
  have "require_resume_input_binding g t = require_resume_input_binding g s" by (simp add: require_resume_input_binding_def eq)
  then have "require_snapshot_matches_graph g t = Inr ()"
    using g run v res fe unfolding require_snapshot_matches_graph_def eq Let_def
    by (auto simp: bindE_eq_Inr if_Inl_eq_Inr split: option.splits)
  then show ?thesis using m unfolding require_scoped_snapshot_matches_graph_def eq by (auto simp: bindE_eq_Inr)
qed

lemma snapshot_guard_wf: "require_scoped_snapshot_matches_graph g s sr = Inr () \<Longrightarrow> wf_state s \<and>
    (\<forall>n\<in>set (pending_node_ids (gr_frontier s)). map_of (cg_nodes g) n \<noteq> None)"
proof -
  assume m: "require_scoped_snapshot_matches_graph g s sr = Inr ()"
  have c: "catchE m (\<lambda>e. case e of GraphStateTransitionError m \<Rightarrow> Inl (InvalidExecutionSnapshotError m) | _ \<Rightarrow> Inl e) = Inr y
      \<longleftrightarrow> m = Inr y" for m :: "unit res" and y by (rule catchE_raising) (auto split: kernel_error.splits)
  from m show ?thesis
    by (auto simp: require_scoped_snapshot_matches_graph_def require_snapshot_matches_graph_def Let_def bindE_eq_Inr if_Inl_eq_Inr c
        validate_graph_run_state_iff fm_has_def filter_empty_conv pending_node_ids_def)
qed

lemma frontier_task_node [simp]: "gt_node_id (frontier_task s n) = n"
  by (simp add: frontier_task_def)

lemma planned_claim:
  assumes c: "claim_resource_snapshot g (map (frontier_task s) (pending_node_ids (gr_frontier s))) = Inr res" and w: "wf_state s"
  shows "(\<lambda>a. (acq_node_id a, acq_required a)) ` set (held_by res) =
      {(n, requirements_of g n) |n. n \<in> set (pending_node_ids (gr_frontier s)) \<and> requirements_of g n \<noteq> []}"
    and "claimable_resources s res"
    and "\<forall>r. res = Some r \<longrightarrow> map lock_resource_id (snap_resources r) = tp_resource_order (cg_transition g)"
proof -
  have "distinct (pending_node_ids (gr_frontier s))"
    using w by (simp add: wf_state_def wf_frontier_def canonical_tuple_iff pending_node_ids_def distinct_map_filter)
  then have "distinct (map gt_node_id (map (frontier_task s) (pending_node_ids (gr_frontier s))))" by (simp add: comp_def)
  note cr = claim_resources_planned [OF c this]
  show held: "(\<lambda>a. (acq_node_id a, acq_required a)) ` set (held_by res) =
      {(n, requirements_of g n) |n. n \<in> set (pending_node_ids (gr_frontier s)) \<and> requirements_of g n \<noteq> []}"
    unfolding cr(1) by force
  have "set (participant_ids r) \<subseteq> set (pending_node_ids (gr_frontier s))" if "res = Some r" for r
  proof -
    have "fst ` (\<lambda>a. (acq_node_id a, acq_required a)) ` set (held_by res) \<subseteq> set (pending_node_ids (gr_frontier s))"
      unfolding held by auto
    then show ?thesis using that by (simp add: held_by_def participant_ids_def image_image)
  qed
  then show "claimable_resources s res" using cr(2) by (auto simp: claimable_resources_def)
  show "\<forall>r. res = Some r \<longrightarrow> map lock_resource_id (snap_resources r) = tp_resource_order (cg_transition g)" using cr(2) by blast
qed

lemma claimed_session:
  fixes claim :: "('v, 'h, 'c, 'p) prepared_claim"
  assumes prep: "prepare_superstep E K owner att g req = Inr (ExecutableFrontier claim children)" and att: "is_canonical_identity att"
  shows "\<exists>t (ss :: ('v, 'h, 'c, 'p, 'x) execution_session). reduce_graph_run (Some (rq_state req)) (xc_command claim) = Inr t \<and>
    issue_session g owner claim t = Inr ss \<and> ss_state ss = t \<and> gr_frontier t = gr_frontier (rq_state req) \<and>
    gr_execution t = Some (GraphExecutionToken (gr_execution_sequence (rq_state req) + 1) att)"
proof -
  let ?s = "rq_state req"
  from prep obtain res where p: "claim_resource_snapshot g (fp_tasks (xc_preparation claim)) = Inr res"
    "xc_command claim = ClaimGraphExecution (gr_revision ?s) att res" "xc_owner claim = owner" "\<not> xc_consumed claim"
    "require_scoped_snapshot_matches_graph g ?s (rq_scope_run req) = Inr ()" "gr_status ?s = RUNNING" "gr_execution ?s = None"
    "frontier_status (gr_frontier ?s) \<noteq> Inr SETTLED" "frontier_status (gr_frontier ?s) \<noteq> Inr AWAITING_RESUME"
    "fp_tasks (xc_preparation claim) = map (frontier_task ?s) (pending_node_ids (gr_frontier ?s))"
    "fp_request (xc_preparation claim) = req" by (rule prepared_claim_state)
  have w: "wf_state ?s" and known: "\<forall>n\<in>set (pending_node_ids (gr_frontier ?s)). map_of (cg_nodes g) n \<noteq> None"
    using snapshot_guard_wf [OF p(5)] by blast+
  note pl = planned_claim [OF p(1) [unfolded p(10)] w]
  have pend: "pending_node_ids (gr_frontier ?s) \<noteq> []"
    using wf_runningD [OF w p(6)] p(8,9) frontier_status_total [of "gr_frontier ?s"]
    by (auto simp: pending_node_ids_nonempty) (metis frontier_status_value.exhaust)
  let ?t = "?s\<lparr>gr_execution_sequence := gr_execution_sequence ?s + 1,
      gr_execution := Some (GraphExecutionToken (gr_execution_sequence ?s + 1) att), gr_resources := res, gr_revision := gr_revision ?s + 1\<rparr>"
  have red: "reduce_graph_run (Some ?s) (xc_command claim) = Inr ?t"
    unfolding p(2) using claim_enabled [OF w] att p(6,7) pend pl(2) by blast
  then have wt: "wf_state ?t" by (rule reduce_SomeD)
  have same: "same_topology ?s ?t" by (simp add: same_topology_def)
  have "resources_match g ?t" using pl(1) by (simp add: resources_match_def)
  then have "require_resources_match g ?t = Inr ()"
    by (rule require_resources_match_complete [OF wt, rotated]) (use known pl(3) in auto)
  from claimed_snapshot_matches [OF p(5) same wt p(6) this]
  have "require_scoped_snapshot_matches_graph g ?t (rq_scope_run req) = Inr ()" .
  moreover have "require_committed_claim_state (xc_command claim) ?t ?s (fp_tasks (xc_preparation claim)) = Inr ()"
    using red by (simp add: require_committed_claim_state_def p(10) frontier_task_def [abs_def] del: reduce_graph_run.simps)
  ultimately have "issue_session g owner claim ?t = Inr (new_session ?t (xc_preparation claim) :: ('v, 'h, 'c, 'p, 'x) execution_session)"
    using p(3,4,11) by (simp add: issue_session_def consume_claim_def issue_claim_def)
  with red show ?thesis by (intro exI [of _ ?t]) (auto simp: new_session_def simp del: reduce_graph_run.simps)
qed

end
