(* ===== verification/Commit_Flow.thy ===== *)
theory Commit_Flow
  imports Engine_Commit
begin

text \<open>
  The frame index and the publication ledger stay in step: a scope's publication records are, at
  every moment of a run of commits, exactly the ledger entries of its state, each confirmed by
  the revision and the execution token that committed it.
\<close>

section \<open>Agreement of ledger and index\<close>

definition confirmed_publications :: "scope_run \<Rightarrow> ('v, 'h, 'c, 'p) frames \<Rightarrow> (activation_coordinate \<times> (int \<times> execution_token) option) set" where
  "confirmed_publications sr frames =
     {(c, rec_confirmation r) |c r. map_of (fi_publications frames) c = Some r \<and> sa_scope_run (pc_activation c) = sr}"

definition ledger_publications ::
  "compiled_graph \<Rightarrow> scope_run \<Rightarrow> graph_run_state \<Rightarrow> (activation_coordinate \<times> (int \<times> execution_token) option) set" where
  "ledger_publications g sr s =
     {(c, Some (ps_commit_revision p, ps_execution p)) |c p. p \<in> set (gr_settled_publications s) \<and>
        publication_availability_coordinate g sr (ref_activation (ps_reference p)) = Inr c}"

definition frames_agree :: "compiled_graph \<Rightarrow> scope_run \<Rightarrow> ('v, 'h, 'c, 'p) frames \<Rightarrow> graph_run_state \<Rightarrow> bool" where
  "frames_agree g sr frames s \<longleftrightarrow> wf_index frames \<and> wf_state s \<and> confirmed_publications sr frames = ledger_publications g sr s \<and>
     has_record (fi_graph_inputs frames) (graph_input_availability_coordinate g sr)"

definition scope_unused :: "compiled_graph \<Rightarrow> scope_run \<Rightarrow> ('v, 'h, 'c, 'p) frames \<Rightarrow> bool" where
  "scope_unused g sr frames \<longleftrightarrow> wf_index frames \<and> confirmed_publications sr frames = {} \<and>
     \<not> has_record (fi_graph_inputs frames) (graph_input_availability_coordinate g sr)"

lemma coordinate_activation:
  assumes "publication_availability_coordinate g sr a = Inr c"
  shows "pc_activation c = StableActivation sr (act_superstep a) (act_node_id a)" "act_run_id a = sr_graph_run_id sr"
  using assms by (auto simp: publication_availability_coordinate_def stable_activation_of_def mk_StableActivation_def bindE_eq_Inr
      if_Inl_eq_Inr)

lemma coordinate_inj:
  assumes "publication_availability_coordinate g sr a = Inr c" "publication_availability_coordinate g sr b = Inr c"
  shows "a = b"
  using coordinate_activation [OF assms(1)] coordinate_activation [OF assms(2)] by (cases a; cases b) simp

definition ledger_entry :: "compiled_graph \<Rightarrow> scope_run \<Rightarrow> publication_settlement \<Rightarrow> (activation_coordinate \<times> (int \<times> execution_token) option) set" where
  "ledger_entry g sr p = {(c, Some (ps_commit_revision p, ps_execution p)) |c.
     publication_availability_coordinate g sr (ref_activation (ps_reference p)) = Inr c}"

lemma ledger_publications_Union: "ledger_publications g sr s = (\<Union>p\<in>set (gr_settled_publications s). ledger_entry g sr p)"
  by (auto simp: ledger_publications_def ledger_entry_def)

lemma ledger_publications_cong:
  assumes "without_evidence t = without_evidence s"
  shows "ledger_publications g sr t = ledger_publications g sr s"
proof -
  have m: "map strip_evidence (gr_settled_publications t) = map strip_evidence (gr_settled_publications s)"
    using arg_cong [OF assms, of gr_settled_publications] by (simp add: without_evidence_def)
  have "ledger_publications g sr x = (\<Union>p\<in>set (map strip_evidence (gr_settled_publications x)). ledger_entry g sr p)" for x
    by (simp add: ledger_publications_Union ledger_entry_def strip_evidence_def)
  then show ?thesis by (simp only: m)
qed

section \<open>What a prepared transition writes\<close>

lemma prepared_transition:
  assumes "prepare_transition E sr prev cmd result g adm inp ses = Inr tr"
  shows "reduce_graph_run prev cmd = Inr (tn_candidate_state tr)" "tn_previous_state tr = prev" "tn_command tr = cmd"
    "ck_commit_revision (ws_commit_key (tn_writes tr)) = gr_revision (tn_candidate_state tr)"
    "transition_inputs g sr cmd inp = Inr (ws_graph_inputs (tn_writes tr))"
    "\<exists>publication. transition_publication g sr cmd (tn_candidate_state tr) result = Inr publication \<and>
       (case result of None \<Rightarrow> Inr None | Some r \<Rightarrow> bindE (commit_result_of r publication) (\<lambda>x. Inr (Some x))) = Inr (ws_settlement (tn_writes tr))"
  using assms
  by (auto simp: prepare_transition_def mk_GraphTransition_def mk_GraphCommitWriteSet_def mk_GraphCommitKey_def Let_def bindE_eq_Inr
      if_Inl_eq_Inr simp del: reduce_graph_run.simps)

lemma settle_result_shape:
  assumes "settle_result g s r = Inr c"
  shows "gt_run_id (tr_task r) = gr_run_id s" "gt_superstep (tr_task r) = gr_superstep s"
    "gt_node_id (tr_task r) = outcome_node_id (sn_outcome c)"
    "(\<exists>n routing. sn_outcome c = SucceededGraphNodeOutcome n routing) \<longleftrightarrow> (\<exists>t f route ses. r = TaskSuccess t f route ses)"
  using assms
  by (cases r; auto simp: settle_result_def project_success_settlement_def project_failure_settlement_def
      project_interrupt_settlement_def Let_def bindE_eq_Inr if_Inl_eq_Inr)+

lemma settlement_writes:
  assumes p: "prepare_transition E sr (Some s) (SettleGraphNode c) (Some r) g adm inp ses = Inr tr" and st: "settle_result g s r = Inr c"
  shows "ws_graph_inputs (tn_writes tr) = []"
    and "sn_outcome c = SucceededGraphNodeOutcome n routing \<Longrightarrow> \<exists>k. ws_publications (tn_writes tr) =
           [\<lparr>pe_coordinate = k, pe_frame = tr_output r, pe_execution_token = sn_execution c\<rparr>] \<and>
         publication_availability_coordinate g sr (GraphActivationIdentity (gr_run_id s) (gr_superstep s) n) = Inr k"
    and "\<forall>n routing. sn_outcome c \<noteq> SucceededGraphNodeOutcome n routing \<Longrightarrow> ws_publications (tn_writes tr) = []"
proof -
  note t = prepared_transition [OF p] and sh = settle_result_shape [OF st]
  show "ws_graph_inputs (tn_writes tr) = []" using t(5) by (simp add: transition_inputs_def if_Inl_eq_Inr)
  from t(6) obtain publication x where pub: "transition_publication g sr (SettleGraphNode c) (tn_candidate_state tr) (Some r) = Inr publication"
    "commit_result_of r publication = Inr x" and ws: "ws_settlement (tn_writes tr) = Some x" by (auto simp: bindE_eq_Inr)
  show "ws_publications (tn_writes tr) = []" if "\<forall>n routing. sn_outcome c \<noteq> SucceededGraphNodeOutcome n routing"
  proof -
    have "\<nexists>t f route ses. r = TaskSuccess t f route ses" using sh(4) that by blast
    with pub ws show ?thesis
      by (cases r) (auto simp: transition_publication_def commit_result_of_def Let_def bindE_eq_Inr if_Inl_eq_Inr ws_publications_def)
  qed
  show "\<exists>k. ws_publications (tn_writes tr) = [\<lparr>pe_coordinate = k, pe_frame = tr_output r, pe_execution_token = sn_execution c\<rparr>] \<and>
      publication_availability_coordinate g sr (GraphActivationIdentity (gr_run_id s) (gr_superstep s) n) = Inr k"
    if o: "sn_outcome c = SucceededGraphNodeOutcome n routing"
  proof -
    obtain task f route ses' where r: "r = TaskSuccess task f route ses'" using sh(4) o by blast
    have tok: "mk_ExecutionPublicationProvenance x = Inr y \<longleftrightarrow> wf_token x \<and> y = x" for x y
      by (auto simp: mk_ExecutionPublicationProvenance_def except_value_error_ok admit_token_ok)
    from pub(1) r sh o obtain a k where "mk_GraphActivationIdentity (gr_run_id s) (gr_superstep s) n = Inr a"
      "publication_availability_coordinate g sr a = Inr k"
      "publication = Some \<lparr>pe_coordinate = k, pe_frame = f, pe_execution_token = sn_execution c\<rparr>"
      by (auto simp: transition_publication_def Let_def bindE_eq_Inr if_Inl_eq_Inr tok)
    moreover have "a = GraphActivationIdentity (gr_run_id s) (gr_superstep s) n"
      using calculation(1) by (auto simp: mk_GraphActivationIdentity_def Let_def split: if_splits)
    ultimately show ?thesis using pub(2) r ws by (auto simp: commit_result_of_def ws_publications_def)
  qed
qed

section \<open>Installation of committed frames\<close>

lemma require_exact_successor_ok [resE]: "require_exact_successor m = Inr y \<longleftrightarrow> m = Inr y"
  unfolding require_exact_successor_def by (rule catchE_raising) auto

lemma confirmed_transition:
  assumes "confirm_transition tr commit = Inr t" and "reduce_graph_run (tn_previous_state tr) (tn_command tr) = Inr (tn_candidate_state tr)"
  shows "wf_state t" "without_evidence t = without_evidence (tn_candidate_state tr)"
proof -
  from assms(1) obtain c where a: "admit_graph_run_confirmation (tn_previous_state tr) (tn_command tr) c = Inr t"
    by (auto simp: confirm_transition_def bindE_eq_Inr require_exact_successor_ok split: sum.splits)
  from a obtain u where w: "wf_state c" and u: "reduce_graph_run (tn_previous_state tr) (tn_command tr) = Inr u" and t: "t = c" and
    d: "c = u \<or> (\<exists>b. bind_evidence (tn_command tr) c = Inr b \<and> reduce_graph_run (tn_previous_state tr) b = Inr c)"
    by (auto simp: admit_graph_run_confirmation_def bindE_eq_Inr validate_graph_run_state_iff
        simp del: reduce_graph_run.simps bind_evidence.simps split: if_splits)
  have "without_evidence c = without_evidence u" using d reduce_evidence [OF u] by blast
  then show "wf_state t" "without_evidence t = without_evidence (tn_candidate_state tr)" using w u t assms(2) by simp_all
qed

lemma add_publication_agrees:
  assumes "wf_index frames" and "map_of (fi_publications frames) c = None" and "sa_scope_run (pc_activation c) = sr"
  shows "\<exists>frames'. add_publication frames (c, r) = Inr frames' \<and> wf_index frames' \<and>
    confirmed_publications sr frames' = insert (c, rec_confirmation r) (confirmed_publications sr frames) \<and>
    fi_graph_inputs frames' = fi_graph_inputs frames"
proof -
  from publications.add_fresh [OF assms(1,2), of r] obtain frames' where f: "add_publication frames (c, r) = Inr frames'" "wf_index frames'"
    "map_of (fi_publications frames') = (map_of (fi_publications frames))(c \<mapsto> r)" by blast
  have "fi_graph_inputs frames' = fi_graph_inputs frames" using f(1) by (auto simp: add_publication_def bindE_eq_Inr)
  with f assms(2,3) show ?thesis by (auto simp: confirmed_publications_def)
qed

lemma settle_ledger:
  assumes "reduce_graph_run (Some s) (SettleGraphNode c) = Inr t"
  shows "set (gr_settled_publications t) = set (gr_settled_publications s) \<union>
    (case sn_outcome c of SucceededGraphNodeOutcome n routing \<Rightarrow>
       {GraphPublicationSettlement (activation_reference_of s n routing) (gr_revision t) (sn_execution c) (sn_publication_evidence c)}
     | _ \<Rightarrow> {})"
proof -
  have w: "wf_state s" using assms by (rule reduce_SomeD)
  note gd = settle_transition_guards [OF assms]
  obtain cu r where cu: "settle_config s (sn_config_cursor c) = Inr cu"
    and r: "settle_resources (gr_resources s) (outcome_node_id (sn_outcome c)) = Inr r" using gd(5,6) by blast
  obtain d where "reduce_graph_run (Some s) (SettleGraphNode c) = Inr (settled_state s c r cu d)"
    using settle_enabled [OF w gd(1-4) cu r] by blast
  then have "t = settled_state s c r cu d" using assms by simp
  then show ?thesis by (auto simp: settled_ledger_def split: node_outcome.splits)
qed

lemma other_ledger:
  assumes "reduce_graph_run (Some s) c = Inr t" and "\<forall>x. c \<noteq> SettleGraphNode x"
  shows "gr_settled_publications t = gr_settled_publications s"
  using assms(1)
proof (rule reduce_SomeD)
  fix u
  assume "dispatch_command s c = Inr u" "t = u\<lparr>gr_revision := gr_revision s + 1\<rparr>"
  then show ?thesis using assms(2) by (cases c) (auto simp: claim_ok fence_ok abort_ok advance_ok complete_ok elim!: resume_ok)
qed

lemma settlement_installs:
  assumes agree: "frames_agree g sr frames s" and st: "settle_result g s r = Inr c"
    and p: "prepare_transition E sr (Some s) (SettleGraphNode c) (Some r) g adm inp ses = Inr tr"
  shows "\<exists>frames'. apply_commit_writes frames (tn_writes tr) = Inr frames' \<and> wf_index frames' \<and>
    confirmed_publications sr frames' = ledger_publications g sr (tn_candidate_state tr) \<and>
    fi_graph_inputs frames' = fi_graph_inputs frames"
proof -
  let ?t = "tn_candidate_state tr" and ?n = "outcome_node_id (sn_outcome c)"
  note pt = prepared_transition [OF p] and wr = settlement_writes [OF p st]
  have wf: "wf_index frames" "wf_state s" "confirmed_publications sr frames = ledger_publications g sr s"
    using agree by (simp_all add: frames_agree_def)
  note led = settle_ledger [OF pt(1)]
  show ?thesis
  proof (cases "sn_outcome c")
    case (SucceededGraphNodeOutcome n routing)
    from wr(2) [OF this] obtain k where k: "ws_publications (tn_writes tr) =
        [\<lparr>pe_coordinate = k, pe_frame = tr_output r, pe_execution_token = sn_execution c\<rparr>]"
      "publication_availability_coordinate g sr (GraphActivationIdentity (gr_run_id s) (gr_superstep s) n) = Inr k" by blast
    have scope: "sa_scope_run (pc_activation k) = sr" using coordinate_activation [OF k(2)] by simp
    have run: "gr_status s = RUNNING" using wf(2) settle_transition_guards(2) [OF pt(1)] by (simp add: wf_state_def wf_execution_def)
    obtain x where x: "x \<in> set (gr_frontier s)" "is_pending (fn_settlement x)" "fn_node_id x = n"
      using settle_transition_guards(3) [OF pt(1)] SucceededGraphNodeOutcome by (auto simp: pending_node_ids_mem)
    have "map_of (fi_publications frames) k = None"
    proof (rule ccontr)
      assume "map_of (fi_publications frames) k \<noteq> None"
      then obtain v where "map_of (fi_publications frames) k = Some v" by blast
      then have "(k, rec_confirmation v) \<in> ledger_publications g sr s" using scope unfolding wf(3) [symmetric] by (auto simp: confirmed_publications_def)
      then obtain q where "q \<in> set (gr_settled_publications s)" "publication_availability_coordinate g sr (ref_activation (ps_reference q)) = Inr k"
        by (auto simp: ledger_publications_def)
      with coordinate_inj [OF _ k(2)] pending_not_published [OF wf(2) run x(1,2)] x(3) show False by blast
    qed
    from add_publication_agrees [OF wf(1) this scope, of "\<lparr>rec_frame = tr_output r, rec_confirmation = Some (gr_revision ?t, sn_execution c)\<rparr>"]
    obtain frames' where f: "add_publication frames (k, \<lparr>rec_frame = tr_output r, rec_confirmation = Some (gr_revision ?t, sn_execution c)\<rparr>) = Inr frames'"
      "wf_index frames'" "confirmed_publications sr frames' = insert (k, Some (gr_revision ?t, sn_execution c)) (confirmed_publications sr frames)"
      "fi_graph_inputs frames' = fi_graph_inputs frames" by auto
    moreover have "ledger_publications g sr ?t = insert (k, Some (gr_revision ?t, sn_execution c)) (ledger_publications g sr s)"
      unfolding ledger_publications_Union led using k(2) SucceededGraphNodeOutcome
      by (auto simp: ledger_entry_def activation_reference_of_def)
    ultimately show ?thesis using wr(1) k(1) pt(4) wf(3) by (simp add: apply_commit_writes_def)
  qed (use wr(1,3) wf led in \<open>simp_all add: apply_commit_writes_def ledger_publications_Union\<close>)
qed

lemma start_installs:
  assumes u: "scope_unused g sr frames" and p: "prepare_transition E sr None (StartGraphRun c) None g adm inp ses = Inr tr"
  shows "\<exists>frames'. apply_commit_writes frames (tn_writes tr) = Inr frames' \<and> wf_index frames' \<and>
    confirmed_publications sr frames' = ledger_publications g sr (tn_candidate_state tr) \<and>
    has_record (fi_graph_inputs frames') (graph_input_availability_coordinate g sr)"
proof -
  note pt = prepared_transition [OF p]
  have led: "gr_settled_publications (tn_candidate_state tr) = []" using pt(1) start_ok by auto
  have pubs: "ws_publications (tn_writes tr) = []" using pt(6) by (auto simp: ws_publications_def)
  from pt(5) obtain f where f: "ws_graph_inputs (tn_writes tr) = [(graph_input_availability_coordinate g sr, f)]"
    by (auto simp: transition_inputs_def split: option.splits) metis
  have w: "wf_index frames" "map_of (fi_graph_inputs frames) (graph_input_availability_coordinate g sr) = None"
    "confirmed_publications sr frames = {}" using u by (simp_all add: scope_unused_def has_record_map_of)
  from graph_inputs.add_fresh [OF w(1,2), of "\<lparr>rec_frame = f, rec_confirmation = None\<rparr>"] obtain frames' where
    a: "add_graph_input frames (graph_input_availability_coordinate g sr, \<lparr>rec_frame = f, rec_confirmation = None\<rparr>) = Inr frames'"
      "wf_index frames'" "map_of (fi_graph_inputs frames') = (map_of (fi_graph_inputs frames))(graph_input_availability_coordinate g sr \<mapsto>
        \<lparr>rec_frame = f, rec_confirmation = None\<rparr>)" by blast
  have "fi_publications frames' = fi_publications frames" using a(1) by (auto simp: add_graph_input_def bindE_eq_Inr)
  then have "confirmed_publications sr frames' = {}" using w(3) by (simp add: confirmed_publications_def)
  with a f pubs led show ?thesis by (simp add: apply_commit_writes_def ledger_publications_def has_record_map_of)
qed

lemma other_installs:
  assumes p: "prepare_transition E sr (Some s) cmd None g adm inp ses = Inr tr"
  shows "apply_commit_writes frames (tn_writes tr) = Inr frames" "gr_settled_publications (tn_candidate_state tr) = gr_settled_publications s"
proof -
  note pt = prepared_transition [OF p]
  have k: "\<forall>x. cmd \<noteq> SettleGraphNode x" using pt(6) by (auto simp: transition_publication_def)
  have "\<forall>x. cmd \<noteq> StartGraphRun x" using pt(1) by auto
  then have "ws_graph_inputs (tn_writes tr) = []" using pt(5) by (cases cmd) (auto simp: transition_inputs_def if_Inl_eq_Inr)
  moreover have "ws_publications (tn_writes tr) = []" using pt(6) by (auto simp: ws_publications_def)
  ultimately show "apply_commit_writes frames (tn_writes tr) = Inr frames" by (simp add: apply_commit_writes_def)
  show "gr_settled_publications (tn_candidate_state tr) = gr_settled_publications s" by (rule other_ledger [OF pt(1) k])
qed

section \<open>Runs of commits\<close>

text \<open>
  One scoped run as its driver commits it: a transition is prepared, the caller's port confirms a
  state, and the write set is installed. Resume inputs and child boundaries enter the index between
  commits, and other scopes' records may already be there.
\<close>

inductive committed_run ::
  "('p, 'z) config_env_scheme \<Rightarrow> compiled_graph \<Rightarrow> scope_run \<Rightarrow> graph_run_state \<Rightarrow> ('v, 'h, 'c, 'p) frames \<Rightarrow> bool"
  for E :: "('p, 'z) config_env_scheme" and g :: compiled_graph and sr :: scope_run where
  first_commit: "scope_unused g sr frames \<Longrightarrow> prepare_transition E sr None (StartGraphRun c) None g adm inp ses = Inr tr \<Longrightarrow>
    confirm_transition tr port = Inr t \<Longrightarrow> apply_commit_writes frames (tn_writes tr) = Inr frames' \<Longrightarrow> committed_run E g sr t frames'"
| settle: "committed_run E g sr s frames \<Longrightarrow> settle_result g s r = Inr c \<Longrightarrow>
    prepare_transition E sr (Some s) (SettleGraphNode c) (Some r) g adm inp ses = Inr tr \<Longrightarrow>
    confirm_transition tr port = Inr t \<Longrightarrow> apply_commit_writes frames (tn_writes tr) = Inr frames' \<Longrightarrow> committed_run E g sr t frames'"
| other: "committed_run E g sr s frames \<Longrightarrow> prepare_transition E sr (Some s) cmd None g adm inp ses = Inr tr \<Longrightarrow>
    confirm_transition tr port = Inr t \<Longrightarrow> apply_commit_writes frames (tn_writes tr) = Inr frames' \<Longrightarrow> committed_run E g sr t frames'"
| resume_input: "committed_run E g sr s frames \<Longrightarrow> add_resume_input frames x = Inr frames' \<Longrightarrow> committed_run E g sr s frames'"
| child_boundary: "committed_run E g sr s frames \<Longrightarrow> add_child_boundary frames y = Inr frames' \<Longrightarrow> committed_run E g sr s frames'"

lemma committed_transition:
  assumes "prepare_transition E sr prev cmd result g adm inp ses = Inr tr" and "confirm_transition tr port = Inr t"
  shows "wf_state t" "ledger_publications g' sr t = ledger_publications g' sr (tn_candidate_state tr)"
proof -
  note pt = prepared_transition [OF assms(1)]
  have "reduce_graph_run (tn_previous_state tr) (tn_command tr) = Inr (tn_candidate_state tr)" using pt(1) unfolding pt(2,3) .
  note c = confirmed_transition [OF assms(2) this]
  show "wf_state t" by (rule c(1))
  show "ledger_publications g' sr t = ledger_publications g' sr (tn_candidate_state tr)" by (rule ledger_publications_cong [OF c(2)])
qed

lemma committed_run_agrees: "committed_run E g sr s frames \<Longrightarrow> frames_agree g sr frames s"
proof (induction rule: committed_run.induct)
  case (first_commit frames c adm inp ses tr port t frames')
  from start_installs [OF first_commit(1,2)] first_commit(4) committed_transition [OF first_commit(2,3)] show ?case by (auto simp: frames_agree_def)
next
  case (settle s frames r c adm inp ses tr port t frames')
  from settlement_installs [OF settle(6,2,3)] settle(5,6) committed_transition [OF settle(3,4)] show ?case
    by (auto simp: frames_agree_def)
next
  case (other s frames cmd adm inp ses tr port t frames')
  from other_installs [OF other(2)] other(4,5) committed_transition [OF other(2,3)] show ?case
    by (auto simp: frames_agree_def ledger_publications_def)
next
  case (resume_input s frames x frames')
  obtain c r where x: "x = (c, r)" by (cases x)
  have w: "wf_index frames" using resume_input(3) by (simp add: frames_agree_def)
  have "wf_index frames'" using resume_inputs.get_after_add(1) [OF w] resume_input(2) x by blast
  moreover have "fi_publications frames' = fi_publications frames" "fi_graph_inputs frames' = fi_graph_inputs frames"
    using resume_input(2) by (auto simp: add_resume_input_def bindE_eq_Inr)
  ultimately show ?case using resume_input(3) by (simp add: frames_agree_def confirmed_publications_def)
next
  case (child_boundary s frames y frames')
  obtain c r where y: "y = (c, r)" by (cases y)
  have w: "wf_index frames" using child_boundary(3) by (simp add: frames_agree_def)
  have "wf_index frames'" using child_boundaries.get_after_add(1) [OF w] child_boundary(2) y by blast
  moreover have "fi_publications frames' = fi_publications frames" "fi_graph_inputs frames' = fi_graph_inputs frames"
    using child_boundary(2) by (auto simp: add_child_boundary_def bindE_eq_Inr)
  ultimately show ?case using child_boundary(3) by (simp add: frames_agree_def confirmed_publications_def)
qed

end
