(* ===== verification/Engine_Properties.thy ===== *)
theory Engine_Properties
  imports Claim_Flow Commit_Flow Engine_Sample
begin

text \<open>
  The properties of the engine around one frontier: values are typed by the compiled declarations,
  sessions encode and decode exactly, a prepared claim always yields its session, and the frame
  index follows the publication ledger.
\<close>

section \<open>Typed frames\<close>

lemma decoded_input_typed:
  assumes "decode_resume_input E K g n payload config session = Inr f" and "require_node_materialization g n = Inr plan"
  shows "typed_entries E (fd_declarations (mp_descriptor plan)) (fr_entries f) \<and> wf_frame E f \<and> fr_session f = session"
  using assms make_node_input_frame_ok
  by (fastforce simp: decode_resume_input_def bindE_eq_Inr if_Inl_eq_Inr)

lemma materialized_typed:
  assumes "materialize_node_input E K g s sr frames n owner = Inr f"
  obtains plan where "require_node_materialization g n = Inr plan"
    "typed_entries E (fd_declarations (mp_descriptor plan)) (fr_entries f)" "wf_frame E f" "fr_session f = owner"
proof -
  from assms obtain node binding where node: "frontier_node (gr_frontier s) n = Some node" "fn_settlement node = PendingGraphNode binding"
    by (auto simp: materialize_node_input_def bindE_eq_Inr if_Inl_eq_Inr split: option.splits node_settlement.splits)
  with assms obtain plan where plan: "require_node_materialization g n = Inr plan"
    by (auto simp: materialize_node_input_def bindE_eq_Inr if_Inl_eq_Inr)
  have "(\<exists>payload k. decode_resume_input E K g n payload k owner = Inr f) \<or>
      (\<exists>es k. make_node_input_frame E es (fd_declarations (mp_descriptor plan)) k owner = Inr f)"
    using assms node plan
    by (cases binding) (auto simp: materialize_node_input_def bindE_eq_Inr if_Inl_eq_Inr Let_def split: sum.splits if_splits,
      metis obj_sumE)
  then show thesis
    using that [OF plan] decoded_input_typed [OF _ plan] make_node_input_frame_ok(1-4) by metis
qed

lemma projected_success_typed:
  assumes "project_outcome E g x b = Inr (TaskSuccess t f route ses)"
  obtains d where "map_of (tp_publications (cg_transition g)) (gt_node_id (et_task x)) = Some d"
    "typed_entries E (fd_declarations d) (fr_entries f)" "wf_frame E f" "t = et_task x"
    "validate_routing_contribution g (gt_node_id (et_task x)) (routing_of_route route) = Inr ()"
proof -
  from assms obtain out rt cs es where "project_success E g x out rt cs es = Inr (TaskSuccess t f route ses)"
    by (auto simp: project_outcome_def split: node_return.splits graph_outcome.splits)
  then obtain d k where d: "map_of (tp_publications (cg_transition g)) (gt_node_id (et_task x)) = Some d"
    "make_node_output_frame E out (fd_declarations d) k = Inr f" "t = et_task x"
    "validate_routing_contribution g (gt_node_id (et_task x)) (routing_of_route route) = Inr ()"
    by (auto simp: project_success_def Let_def bindE_eq_Inr fm_get_def split: option.splits)
  with make_node_output_frame_ok [OF d(2)] show thesis by (intro that [OF d(1)])
qed

section \<open>Properties\<close>

text \<open>
  C20. Values keep their declared types across the engine: the input that the engine builds for a
  node has exactly the entries that the node's compiled materialization declares, in order and each
  of its exact class, whether it comes from bindings, from a cached or from a decoded resume input;
  the frame of every successful node outcome is typed by the node's publication; and the graph
  output is typed by the graph's output descriptor. The Config metadata of each frame is
  admissible, and a node input carries the session of its owner.
\<close>

theorem engine_frames_typed:
  "(\<forall>f. materialize_node_input E K g s sr frames n owner = Inr f \<longrightarrow>
      (\<exists>plan. map_of (tp_materializations (cg_transition g)) n = Some plan \<and>
        typed_entries E (fd_declarations (mp_descriptor plan)) (fr_entries f) \<and> wf_frame E f \<and> fr_session f = owner)) \<and>
   (\<forall>x b t f route ses. project_outcome E g x b = Inr (TaskSuccess t f route ses) \<longrightarrow>
      (\<exists>d. map_of (tp_publications (cg_transition g)) (gt_node_id t) = Some d \<and>
        typed_entries E (fd_declarations d) (fr_entries f) \<and> wf_frame E f)) \<and>
   (\<forall>f. project_graph_outputs E g sr k frames owner = Inr f \<longrightarrow>
      typed_entries E (fd_declarations (cg_graph_output_descriptor g)) (fr_entries f) \<and> wf_frame E f)"
proof (intro conjI allI impI)
  fix f
  assume "materialize_node_input E K g s sr frames n owner = Inr f"
  then show "\<exists>plan. map_of (tp_materializations (cg_transition g)) n = Some plan \<and>
        typed_entries E (fd_declarations (mp_descriptor plan)) (fr_entries f) \<and> wf_frame E f \<and> fr_session f = owner"
    by (rule materialized_typed) (auto simp: require_node_materialization_def split: option.splits)
next
  fix x b t f route ses
  assume "project_outcome E g x b = Inr (TaskSuccess t f route ses)"
  then show "\<exists>d. map_of (tp_publications (cg_transition g)) (gt_node_id t) = Some d \<and>
        typed_entries E (fd_declarations d) (fr_entries f) \<and> wf_frame E f"
    by (rule projected_success_typed) blast
next
  fix f
  assume "project_graph_outputs E g sr k frames owner = Inr f"
  then show "typed_entries E (fd_declarations (cg_graph_output_descriptor g)) (fr_entries f)" "wf_frame E f"
    using make_graph_output_view_ok by (fastforce simp: project_graph_outputs_def Let_def bindE_eq_Inr)+
qed

theorem engine_frames_typed_witness:
  "\<exists>plan. map_of (tp_materializations (cg_transition work_graph)) ''a'' = Some plan \<and>
     typed_entries work_env (fd_declarations (mp_descriptor plan)) [(''x'', ''hello'')]"
proof -
  have "materialize_node_input work_env work_codec work_graph work_started work_scope work_frames ''a'' None = Inr (work_frame ''x'' ''hello'')"
    by (rule work_inputs) (simp add: work_nodes_def)
  with engine_frames_typed [of work_env work_codec work_graph work_started work_scope work_frames "''a''" None 0]
  show ?thesis by (force simp: work_frame_def)
qed

lemma session_eta: "as_config s = k \<Longrightarrow> \<lparr>as_hook_state = as_hook_state s, as_context = as_context s, as_config = k\<rparr> = s"
  by auto

text \<open>
  C21. The session codec is exact: a session encodes to an envelope precisely when the encoder
  produces it and the envelope decodes, under the session's own Config, to a session whose values
  compare equal. Where \<open>==\<close> is identity this says that a session encodes to some bytes precisely
  when these bytes decode to this session: an encoder that loses information or a decoder that is
  not its inverse is rejected on both sides.
\<close>

theorem session_codec_exact:
  "(session_encode E K s = Inr e \<longleftrightarrow> encode_raw K s = Inr e \<and>
     (\<exists>s'. session_decode E K e (as_config s) = Inr s' \<and>
       sc_equal K (as_hook_state s', as_context s') (as_hook_state s, as_context s) = Inr True)) \<and>
   ((\<forall>x y. sc_equal K x y = Inr (x = y)) \<longrightarrow>
     (session_encode E K s = Inr e \<longleftrightarrow> session_decode E K e (as_config s) = Inr s))"
proof (rule conjI)
  show 1: "session_encode E K s = Inr e \<longleftrightarrow> encode_raw K s = Inr e \<and>
     (\<exists>s'. session_decode E K e (as_config s) = Inr s' \<and>
       sc_equal K (as_hook_state s', as_context s') (as_hook_state s, as_context s) = Inr True)"
    unfolding session_encode_iff session_decode_iff
    by (intro iffI; elim conjE exE) (fastforce intro!: exI, auto simp: session_eta)
  show "(\<forall>x y. sc_equal K x y = Inr (x = y)) \<longrightarrow> (session_encode E K s = Inr e \<longleftrightarrow> session_decode E K e (as_config s) = Inr s)"
    unfolding 1 by (cases s) (auto simp: session_decode_iff)
qed

definition text_codec :: "(string, unit) session_codec" where
  "text_codec = \<lparr>sc_codec_id = ''text'', sc_version = 1, sc_encoder = (\<lambda>h c. Inr h), sc_decoder = (\<lambda>p. Inr (p, ())),
     sc_equal = (\<lambda>x y. Inr (x = y))\<rparr>"

definition text_session :: "string \<Rightarrow> (string, unit, unit) agent_session" where
  "text_session h = \<lparr>as_hook_state = h, as_context = (), as_config = None\<rparr>"

definition text_envelope :: "string \<Rightarrow> encoded_session" where
  "text_envelope h = \<lparr>es_codec_id = ''text'', es_codec_version = 1, es_payload = h, es_config_cursor = None\<rparr>"

theorem session_codec_exact_witness:
  "session_encode work_env text_codec (text_session ''hello'') = Inr (text_envelope ''hello'') \<and>
   session_decode work_env text_codec (text_envelope ''hello'') None = Inr (text_session ''hello'')"
proof -
  have e: "session_encode work_env text_codec (text_session ''hello'') = Inr (text_envelope ''hello'')" by code_simp
  have "\<forall>x y. sc_equal text_codec x y = Inr (x = y)" by (simp add: text_codec_def)
  with session_codec_exact [of work_env text_codec "text_session ''hello''" "text_envelope ''hello''"] e
  have "session_decode work_env text_codec (text_envelope ''hello'') (as_config (text_session ''hello'')) = Inr (text_session ''hello'')" by blast
  moreover have "as_config (text_session ''hello'') = None" by (simp add: text_session_def)
  ultimately show ?thesis using e by simp
qed

text \<open>
  C7. A prepared claim is never refused by the kernel itself. When the preparation of a superstep
  yields a claim (whose attempt identity is canonical), the reducer accepts the claim command on
  the requested state, the planned resource snapshot included, and the executor issues the session
  on the reducer's successor: every check of the claim, of the compiled graph and of the
  resources passes.
\<close>

theorem prepared_claim_yields_session:
  fixes claim :: "('v, 'h, 'c, 'p) prepared_claim"
  assumes "prepare_superstep E K owner attempt_id g request = Inr (ExecutableFrontier claim children)" and "is_canonical_identity attempt_id"
  shows "\<exists>t (ss :: ('v, 'h, 'c, 'p, 'x) execution_session). reduce_graph_run (Some (rq_state request)) (xc_command claim) = Inr t \<and>
    issue_session g owner claim t = Inr ss \<and> ss_state ss = t \<and> gr_frontier t = gr_frontier (rq_state request) \<and>
    gr_execution t = Some (GraphExecutionToken (gr_execution_sequence (rq_state request) + 1) attempt_id)"
  using claimed_session [OF assms] .

theorem prepared_claim_yields_session_witness:
  "\<exists>t (ss :: (string, unit, unit, unit, nat) execution_session). reduce_graph_run (Some work_started) (xc_command work_claim) = Inr t \<and>
     issue_session work_graph 0 work_claim t = Inr ss \<and> gr_execution t = Some (GraphExecutionToken 1 ''attempt'')"
proof -
  have a: "is_canonical_identity ''attempt''" "rq_state work_request = work_started" "gr_execution_sequence work_started = 0" by code_simp+
  from prepared_claim_yields_session [OF work_prepared a(1), where ?'x = nat] show ?thesis unfolding a(2) a(3) by (auto simp del: reduce_graph_run.simps)
qed

text \<open>
  C6. The frame index follows the publication ledger. Over every sequence of commits of a scoped
  run, whatever states and evidence the caller's port confirms: the publication records of the
  scope are exactly the ledger entries of its state, each under the coordinate of its activation
  and confirmed by the revision and the execution token that committed it; the graph input is
  recorded; the index is in order; and the frame of a settled result can always be installed.
\<close>

theorem frames_follow_ledger:
  assumes "committed_run E g sr s frames"
  shows "wf_index frames \<and> wf_state s \<and> has_record (fi_graph_inputs frames) (graph_input_availability_coordinate g sr) \<and>
    {(c, rec_confirmation r) |c r. map_of (fi_publications frames) c = Some r \<and> sa_scope_run (pc_activation c) = sr} =
    {(c, Some (ps_commit_revision p, ps_execution p)) |c p. p \<in> set (gr_settled_publications s) \<and>
        publication_availability_coordinate g sr (ref_activation (ps_reference p)) = Inr c} \<and>
    (\<forall>r c adm inp ses tr. settle_result g s r = Inr c \<longrightarrow>
       prepare_transition E sr (Some s) (SettleGraphNode c) (Some r) g adm inp ses = Inr tr \<longrightarrow>
       (\<exists>frames'. apply_commit_writes frames (tn_writes tr) = Inr frames'))"
proof -
  have a: "frames_agree g sr frames s" using assms by (rule committed_run_agrees)
  then have "\<exists>frames'. apply_commit_writes frames (tn_writes tr) = Inr frames'"
    if "settle_result g s r = Inr c" "prepare_transition E sr (Some s) (SettleGraphNode c) (Some r) g adm inp ses = Inr tr"
    for r c adm inp ses tr using settlement_installs [OF a that] by blast
  then show ?thesis using a unfolding frames_agree_def confirmed_publications_def ledger_publications_def by blast
qed

definition work_empty :: "(string, unit, unit, unit) frames" where
  "work_empty = work_frames\<lparr>fi_graph_inputs := []\<rparr>"

definition work_start_command :: start_graph_run_command where
  "work_start_command = \<lparr>sg_run_id = ''run'', sg_definition_id = ''work'', sg_definition_version = 1,
     sg_activations = map (\<lambda>n. GraphFrontierActivation n StartActivationCause) work_nodes, sg_parent = None,
     sg_resume_input_codec = None, sg_config_cursor = None, sg_graph_input_evidence = None\<rparr>"

definition work_transition :: "(string, unit, unit, unit) graph_transition" where
  "work_transition = \<lparr>tn_scope = [], tn_previous_state = None, tn_command = StartGraphRun work_start_command,
     tn_candidate_state = work_started,
     tn_writes = \<lparr>ws_commit_key = GraphCommitKey ''run'' 0,
       ws_graph_inputs = [(graph_input_availability_coordinate work_graph work_scope, work_frame ''in'' ''hello'')], ws_settlement = None\<rparr>,
     tn_agent_session = None\<rparr>"

lemma work_commits:
  "prepare_transition work_env work_scope None (StartGraphRun work_start_command) None work_graph None (Some (work_frame ''in'' ''hello'')) None =
     Inr work_transition"
  "confirm_transition work_transition (\<lambda>tr. Inr (tn_candidate_state tr)) = Inr work_started"
  "apply_commit_writes work_empty (tn_writes work_transition) = Inr work_frames"
  by code_simp+

theorem frames_follow_ledger_witness:
  "committed_run work_env work_graph work_scope work_started work_frames \<and> wf_index work_frames \<and> gr_settled_publications work_started = []"
proof -
  have u: "scope_unused work_graph work_scope work_empty"
    by (simp add: scope_unused_def wf_index_def sorted_partition_def confirmed_publications_def has_record_def work_empty_def work_frames_def)
  have r: "committed_run work_env work_graph work_scope work_started work_frames"
    by (rule committed_run.first_commit [OF u work_commits])
  from frames_follow_ledger [OF r] r show ?thesis by (simp add: work_started_def)
qed

end
