(* ===== verification/Graph_Definition.thy ===== *)
theory Graph_Definition
  imports Graph_Values
begin

text \<open>
  Graph definitions and their static validation: \<open>mote_kernel/execution/graph/definition.py\<close>,
  \<open>edge.py\<close>, the declared references of \<open>ports.py\<close>, and \<open>validation.py\<close>.

  \<^item> Definitions and nominal type descriptors carry the identity of their Python object
    (\<open>gd_object\<close>, \<open>nd_object\<close>), because the sources compare them with \<open>is\<close> and \<open>id\<close>.
  \<^item> Of a callable node the definition keeps what validation and compilation read; the invoker is
    the behaviour that the session model receives from outside.
  \<^item> A resource definition is its identity; a resume codec is its identity and version.
\<close>

section \<open>References and edges\<close>

datatype nominal = NominalTypeDescriptor (nd_object: nat) (nd_value_type: string)

datatype value_ref = GraphInputRef string nominal | NodeOutputRef string string "nominal option"

datatype input_ref = ValueSourceRef value_ref | PredecessorOutputRef string "nominal option"

datatype edge =
    DirectEdge string string
  | ConditionalEdge string string string
  | JoinEdge "string list" string

datatype graph_definition =
  GraphDefinition (gd_object: nat) (gd_definition_id: string) (gd_version: int) (gd_nodes: "node_definition list")
    (gd_edges: "edge list") (gd_entries: "string list") (gd_outputs: "(string \<times> value_ref) list")
    (gd_resources: "string list") (gd_resume_input: "resume_codec option")
and node_definition =
    CallableNodeDefinition (nf_node_id: string) (nf_inputs: "(string \<times> input_ref) list") (nf_outputs: "(string \<times> nominal) list")
      (nf_resources: "string list") (nf_exported_routes: "string set")
  | NestedGraphNodeDefinition (nf_node_id: string) (nf_graph: graph_definition) (nf_inputs: "(string \<times> input_ref) list")

definition is_nested :: "node_definition \<Rightarrow> bool" where
  "is_nested n = (case n of NestedGraphNodeDefinition _ _ _ \<Rightarrow> True | _ \<Rightarrow> False)"

section \<open>Normalization of declarations\<close>

definition canonical_named_values :: "(string \<times> 'v) list \<Rightarrow> string \<Rightarrow> (string \<times> 'v) list res" where
  "canonical_named_values values kind =
     mapE (\<lambda>(n, v). bindE (canonical_port_name n kind) (\<lambda>c. Inr (c, v))) (sort_key fst values)"

definition normalize_input_bindings :: "(string \<times> input_ref) list \<Rightarrow> (string \<times> input_ref) list res" where
  "normalize_input_bindings values = canonical_named_values values ''input''"

definition normalize_output_declarations ::
  "('v, 'p) value_env \<Rightarrow> (string \<Rightarrow> nat) \<Rightarrow> (string \<times> string) list \<Rightarrow> (string \<times> nominal) list res" where
  "normalize_output_declarations E fresh values =
     bindE (canonical_named_values values ''output'') (\<lambda>entries.
     mapE (\<lambda>(n, t). bindE (canonical_nominal_type E t) (\<lambda>d. Inr (n, NominalTypeDescriptor (fresh n) d))) entries)"

definition normalize_graph_output_declarations :: "(string \<times> value_ref) list \<Rightarrow> (string \<times> value_ref) list res" where
  "normalize_graph_output_declarations values = canonical_named_values values ''graph output''"

section \<open>Static validation\<close>

definition require_graph_identity :: "string \<Rightarrow> string \<Rightarrow> unit res" where
  "require_graph_identity value kind =
     raise_unless (is_canonical_identity value)
       (InvalidGraphIdentityError (kind @ '' identity must be a non-empty trimmed string''))"

definition as_resource_error :: "unit res \<Rightarrow> unit res" where
  "as_resource_error m =
     catchE m (\<lambda>e. case e of InvalidGraphIdentityError t \<Rightarrow> Inl (InvalidResourceDefinitionError t) | _ \<Rightarrow> Inl e)"

definition validate_callable_node :: "string list \<Rightarrow> node_definition \<Rightarrow> unit res" where
  "validate_callable_node declared node =
     (case node of
        NestedGraphNodeDefinition _ _ _ \<Rightarrow> Inr ()
      | CallableNodeDefinition n _ _ resources routes \<Rightarrow>
          if \<not> distinct resources
          then Inl (InvalidResourceDefinitionError (''node '' @ py_repr n @ '' repeats a resource requirement''))
          else if \<not> set resources \<subseteq> set declared
          then Inl (InvalidResourceDefinitionError (''node '' @ py_repr n @ '' references an unknown resource''))
          else forE (\<lambda>r. require_graph_identity r ''exported route'') (sorted_list_of_set routes))"

definition validate_callable_declarations :: "graph_definition \<Rightarrow> unit res" where
  "validate_callable_declarations d =
     (let declared = gd_resources d in
      if \<not> distinct declared
      then Inl (InvalidResourceDefinitionError ''graph resources require unique resource IDs'')
      else bindE (forE (\<lambda>r. as_resource_error (require_graph_identity r ''resource'')) declared) (\<lambda>_.
        forE (validate_callable_node declared) (gd_nodes d)))"

record seen_edges =
  se_direct :: "edge set"
  se_conditional :: "(string \<times> string) set"
  se_join :: "(string set \<times> string) set"

definition known_target :: "string set \<Rightarrow> string \<Rightarrow> bool" where
  "known_target ids target \<longleftrightarrow> target = END_NODE \<or> target \<in> ids"

definition validate_edge :: "string set \<Rightarrow> seen_edges \<Rightarrow> edge \<Rightarrow> seen_edges res" where
  "validate_edge ids seen e =
     (case e of
        DirectEdge source target \<Rightarrow>
          if source \<notin> ids \<or> \<not> known_target ids target
          then Inl (UnknownNodeError ''direct edge references an unknown node'')
          else if e \<in> se_direct seen
          then Inl (DuplicateEdgeError (''duplicate direct edge: '' @ source @ '' -> '' @ target))
          else Inr (seen\<lparr>se_direct := insert e (se_direct seen)\<rparr>)
      | ConditionalEdge source route target \<Rightarrow>
          bindE (require_graph_identity route ''route'') (\<lambda>_.
          if source \<notin> ids \<or> \<not> known_target ids target
          then Inl (UnknownNodeError ''conditional edge references an unknown node'')
          else if (source, route) \<in> se_conditional seen
          then Inl (DuplicateEdgeError (''duplicate conditional route '' @ py_repr route @ '' from '' @ py_repr source))
          else Inr (seen\<lparr>se_conditional := insert (source, route) (se_conditional seen)\<rparr>))
      | JoinEdge sources target \<Rightarrow>
          if length sources < 2 \<or> \<not> distinct sources \<or> \<not> set sources \<subseteq> ids \<or> \<not> known_target ids target \<or> target \<in> set sources
          then Inl (InvalidJoinError (''invalid join into node: '' @ target))
          else if (set sources, target) \<in> se_join seen
          then Inl (InvalidJoinError (''duplicate join into node: '' @ target))
          else Inr (seen\<lparr>se_join := insert (set sources, target) (se_join seen)\<rparr>))"

definition validate_edges :: "graph_definition \<Rightarrow> unit res" where
  "validate_edges d =
     (let ids = set (map nf_node_id (gd_nodes d)) in
      if \<not> distinct (gd_entries d)
      then Inl (DuplicateBoundaryError ''graph definition contains duplicate explicit START entries'')
      else if \<not> set (gd_entries d) \<subseteq> ids
      then Inl (UnknownNodeError ''START edge references an unknown node'')
      else bindE (foldE (validate_edge ids) \<lparr>se_direct = {}, se_conditional = {}, se_join = {}\<rparr> (gd_edges d)) (\<lambda>_. Inr ()))"

definition validate_node_identity :: "node_definition \<Rightarrow> unit res" where
  "validate_node_identity node =
     bindE (require_graph_identity (nf_node_id node) ''node'') (\<lambda>_.
     raise_if (nf_node_id node \<in> {START_NODE, END_NODE})
       (InvalidGraphIdentityError ''START and END cannot be concrete graph nodes''))"

definition validate_codec :: "resume_codec option \<Rightarrow> unit res" where
  "validate_codec binding =
     (case binding of
        None \<Rightarrow> Inr ()
      | Some c \<Rightarrow>
          if \<not> is_canonical_identity (codec_id c)
          then Inl (InvalidGraphIdentityError ''frame codec identity must be canonical'')
          else raise_if (codec_version c < 1)
            (InvalidGraphIdentityError ''frame codec version must be an exact positive integer''))"

text \<open>The checks of one definition between the visit of its key and the visit of its children.\<close>

definition validate_own :: "graph_definition \<Rightarrow> unit res" where
  "validate_own d =
     bindE (forE validate_node_identity (gd_nodes d)) (\<lambda>_.
     if \<not> distinct (map nf_node_id (gd_nodes d))
     then Inl (DuplicateNodeError ''graph definition contains duplicate node identities'')
     else bindE (validate_callable_declarations d) (\<lambda>_.
       bindE (validate_edges d) (\<lambda>_.
       validate_codec (gd_resume_input d))))"

datatype validation_status = VISITING | VALIDATED

type_synonym definition_visits = "string \<times> int \<rightharpoonup> nat \<times> validation_status"

definition definition_key :: "graph_definition \<Rightarrow> string \<times> int" where
  "definition_key d = (gd_definition_id d, gd_version d)"

definition versioned_name :: "graph_definition \<Rightarrow> string" where
  "versioned_name d = gd_definition_id d @ ''@'' @ py_str_int (gd_version d)"

lemma size_gd_nodes [termination_simp]: "size_list size (gd_nodes d) < size d"
  by (cases d) simp

fun validate_definition :: "graph_definition \<Rightarrow> definition_visits \<Rightarrow> definition_visits res"
  and validate_nested :: "node_definition list \<Rightarrow> definition_visits \<Rightarrow> definition_visits res" where
  "validate_definition d visits =
     bindE (require_graph_identity (gd_definition_id d) ''graph'') (\<lambda>_.
     if gd_version d < 1
     then Inl (InvalidGraphIdentityError ''graph definition version must be a positive integer'')
     else (case visits (definition_key d) of
         Some (identity, status) \<Rightarrow>
           if identity \<noteq> gd_object d
           then Inl (DuplicateGraphDefinitionError (''graph definition identity collision: '' @ versioned_name d))
           else if status = VISITING
           then Inl (RecursiveGraphDefinitionError (''recursive graph definition: '' @ versioned_name d))
           else Inr visits
       | None \<Rightarrow>
           bindE (validate_own d) (\<lambda>_.
           bindE (validate_nested (gd_nodes d) (visits(definition_key d \<mapsto> (gd_object d, VISITING)))) (\<lambda>visited.
           Inr (visited(definition_key d \<mapsto> (gd_object d, VALIDATED)))))))"
| "validate_nested [] visits = Inr visits"
| "validate_nested (n # ns) visits =
     bindE (case n of
         NestedGraphNodeDefinition _ g _ \<Rightarrow> validate_definition g visits
       | CallableNodeDefinition _ _ _ _ _ \<Rightarrow> Inr visits) (validate_nested ns)"

definition validate_graph :: "graph_definition \<Rightarrow> unit res" where
  "validate_graph d = bindE (validate_definition d (\<lambda>_. None)) (\<lambda>_. Inr ())"

end
