(* ===== verification/Graph_Search.thy ===== *)
theory Graph_Search
  imports Graph_Definition "HOL-Library.While_Combinator"
begin

text \<open>
  The graph algorithms of \<open>mote_kernel/execution/graph/compiler.py\<close>: data cycles, static
  reachability, control cycles, guaranteed predecessors, terminal gates, repeatable nodes and
  absolute activation levels.

  \<^item> The compiler's dictionaries over node identities are functions; their key set is the list
    \<open>nodes\<close> of sorted node identities. Validation and the resolution of sources run before the
    analyses, so they look up declared nodes only.
  \<^item> A \<open>while\<close> loop is \<open>while_option\<close>: \<open>None\<close> would be a loop that does not end. A Python stack
    is a list whose head is popped next. Loops over sets run in sorted order.
\<close>

type_synonym succs = "string \<Rightarrow> string set"

text \<open>A gate lists its sources, each with the route it needs; \<open>None\<close> is any completion.\<close>

type_synonym raw_gate = "(string \<times> string option) list"

type_synonym gates = "string \<Rightarrow> raw_gate list"

section \<open>Loops that may diverge\<close>

primrec anyO :: "('a \<Rightarrow> bool option) \<Rightarrow> 'a list \<Rightarrow> bool option" where
  "anyO f [] = Some False"
| "anyO f (x # xs) = Option.bind (f x) (\<lambda>b. if b then Some True else anyO f xs)"

primrec filterO :: "('a \<Rightarrow> bool option) \<Rightarrow> 'a list \<Rightarrow> 'a list option" where
  "filterO f [] = Some []"
| "filterO f (x # xs) = Option.bind (f x) (\<lambda>b. Option.bind (filterO f xs) (\<lambda>ys. Some (if b then x # ys else ys)))"

section \<open>Data cycles\<close>

function visit_any :: "string list \<Rightarrow> succs \<Rightarrow> string set \<Rightarrow> string set \<Rightarrow> string list \<Rightarrow> (bool \<times> string set) res" where
  "visit_any nodes deps visiting visited [] = Inr (False, visited)"
| "visit_any nodes deps visiting visited (n # ns) =
     (if n \<in> visiting then Inr (True, visited)
      else if n \<in> visited then visit_any nodes deps visiting visited ns
      else if n \<notin> set nodes then Inl (KeyError n)
      else bindE (visit_any nodes deps (insert n visiting) visited (sorted_list_of_set (deps n))) (\<lambda>(cyclic, visited').
        if cyclic then Inr (True, visited')
        else visit_any nodes deps visiting (insert n visited') ns))"
  by pat_completeness auto
termination
proof (relation "measures [\<lambda>(nodes, deps, visiting, visited, ns). card (set nodes - visiting),
    \<lambda>(nodes, deps, visiting, visited, ns). length ns]", goal_cases)
  case (3 nodes deps visiting visited n ns)
  then have "set nodes - insert n visiting \<subset> set nodes - visiting" by auto
  then have "card (set nodes - insert n visiting) < card (set nodes - visiting)" by (intro psubset_card_mono) auto
  then show ?case by simp
qed auto

definition data_cycle :: "string list \<Rightarrow> succs \<Rightarrow> bool res" where
  "data_cycle nodes deps = bindE (visit_any nodes deps {} {} (sort nodes)) (\<lambda>(cyclic, _). Inr cyclic)"

section \<open>Reachability\<close>

definition reach_sources :: "succs \<Rightarrow> string set \<times> bool \<Rightarrow> string set \<times> bool" where
  "reach_sources succ st =
     fold (\<lambda>s (r, changed). (r \<union> succ s, changed \<or> card (r \<union> succ s) \<noteq> card r)) (sorted_list_of_set (fst st)) (fst st, False)"

definition reach_joins :: "(string list \<times> string) list \<Rightarrow> string set \<times> bool \<Rightarrow> string set \<times> bool" where
  "reach_joins joins st =
     fold (\<lambda>(sources, target) (r, changed).
       if target \<noteq> END_NODE \<and> set sources \<subseteq> r \<and> target \<notin> r then (insert target r, True) else (r, changed)) joins st"

definition reachable :: "string list \<Rightarrow> succs \<Rightarrow> (string list \<times> string) list \<Rightarrow> string set option" where
  "reachable entries succ joins =
     map_option fst (while_option snd (\<lambda>st. reach_joins joins (reach_sources succ st)) (set entries, True))"

definition can_reach_step :: "succs \<Rightarrow> string \<Rightarrow> string list \<times> string set \<times> bool \<Rightarrow> string list \<times> string set \<times> bool" where
  "can_reach_step succ target st =
     (case st of
        (c # pending, visited, _) \<Rightarrow>
          if c = target then (pending, visited, True)
          else if c \<in> visited then (pending, visited, False)
          else (sorted_list_of_set (succ c) @ pending, insert c visited, False)
      | ([], visited, found) \<Rightarrow> ([], visited, found))"

definition can_reach :: "string list \<Rightarrow> succs \<Rightarrow> string \<Rightarrow> string \<Rightarrow> bool option" where
  "can_reach nodes succ source target =
     (if source \<notin> set nodes \<or> target \<notin> set nodes then Some False
      else map_option (\<lambda>(_, _, found). found)
        (while_option (\<lambda>(pending, _, found). pending \<noteq> [] \<and> \<not> found) (can_reach_step succ target) ([source], {}, False)))"

definition static_successors :: "(string \<Rightarrow> string set) \<Rightarrow> (string \<Rightarrow> (string \<times> string) list) \<Rightarrow> succs" where
  "static_successors direct_targets conditional_targets n =
     direct_targets n \<union> {t \<in> set (map snd (conditional_targets n)). t \<noteq> END_NODE}"

section \<open>Control cycles\<close>

definition cycle_nodes :: "string list \<Rightarrow> succs \<Rightarrow> string set option" where
  "cycle_nodes nodes succ =
     map_option set (filterO (\<lambda>n. anyO (\<lambda>s. can_reach nodes succ s n) (sorted_list_of_set (succ n))) nodes)"

definition cycle_reachable_step :: "succs \<Rightarrow> string list \<times> string set \<Rightarrow> string list \<times> string set" where
  "cycle_reachable_step succ st =
     (case st of
        (source # pending, reached) \<Rightarrow>
          fold (\<lambda>t (pending, reached). if t \<notin> reached then (t # pending, insert t reached) else (pending, reached))
            (sorted_list_of_set (succ source)) (pending, reached)
      | ([], reached) \<Rightarrow> ([], reached))"

definition cycle_reachable_nodes :: "string list \<Rightarrow> succs \<Rightarrow> string set option" where
  "cycle_reachable_nodes nodes succ =
     Option.bind (cycle_nodes nodes succ) (\<lambda>cyclic.
     map_option snd (while_option (\<lambda>(pending, _). pending \<noteq> []) (cycle_reachable_step succ)
       (List.rev (sorted_list_of_set cyclic), cyclic)))"

section \<open>Guaranteed predecessors\<close>

fun common_set :: "string set list \<Rightarrow> string set" where
  "common_set [] = {}"
| "common_set (a # as) = fold (\<lambda>b c. c \<inter> b) as a"

definition gate_guarantees :: "succs \<Rightarrow> raw_gate \<Rightarrow> string set" where
  "gate_guarantees guarantees gate = (\<Union>(source, _)\<in>set gate. guarantees source)"

definition guarantee_step :: "string list \<Rightarrow> string list \<Rightarrow> gates \<Rightarrow> succs \<Rightarrow> succs" where
  "guarantee_step nodes entries activation_gates guarantees n =
     (if n \<in> set nodes
      then insert n (common_set ((if n \<in> set entries then [{}] else []) @ map (gate_guarantees guarantees) (activation_gates n)))
      else {})"

definition guaranteed_sets :: "string list \<Rightarrow> string list \<Rightarrow> gates \<Rightarrow> succs option" where
  "guaranteed_sets nodes entries activation_gates =
     while_option (\<lambda>g. \<exists>n\<in>set nodes. guarantee_step nodes entries activation_gates g n \<noteq> g n)
       (guarantee_step nodes entries activation_gates) (\<lambda>n. if n \<in> set nodes then {n} else {})"

section \<open>Terminal gates and cycle exits\<close>

definition terminal_gates :: "string list \<Rightarrow> string set list \<Rightarrow> succs \<Rightarrow> string set list" where
  "terminal_gates nodes gates_to_end succ =
     (let explicit_sources = \<Union>(set gates_to_end) in
      map set (sorted_list_of_set (sorted_list_of_set ` set gates_to_end \<union>
        (\<lambda>n. [n]) ` {n \<in> set nodes. succ n = {} \<and> n \<notin> explicit_sources})))"

definition terminal_guarantees :: "succs \<Rightarrow> string set list \<Rightarrow> string set res" where
  "terminal_guarantees guarantees gs =
     (if gs = [] then Inl IndexError else Inr (common_set (map (\<lambda>gate. \<Union>(guarantees ` gate)) gs)))"

definition validate_cycle_exits :: "string list \<Rightarrow> succs \<Rightarrow> string set list \<Rightarrow> unit res option" where
  "validate_cycle_exits nodes succ gs =
     Option.bind (cycle_nodes nodes succ) (\<lambda>cyclic.
     if cyclic = {} then Some (Inr ())
     else let terminal_sources = concat (map sorted_list_of_set gs) in
       Option.bind (if terminal_sources = [] then Some True
         else anyO (\<lambda>n. map_option Not (anyO (can_reach nodes succ n) terminal_sources)) (sorted_list_of_set cyclic)) (\<lambda>bad.
       Some (raise_if bad (GraphValidationError (''control cycle '' @ py_repr_tuple (sorted_list_of_set cyclic) @
         '' has no statically reachable successful exit'')))))"

section \<open>Repeatable nodes\<close>

definition repeat_step :: "string list \<Rightarrow> gates \<Rightarrow> string set \<times> bool \<Rightarrow> string set \<times> bool" where
  "repeat_step nodes activation_gates st =
     fold (\<lambda>n (r, changed).
       if n \<notin> r \<and> (\<exists>gate\<in>set (activation_gates n). \<exists>(source, _)\<in>set gate. source \<in> r)
       then (insert n r, True) else (r, changed)) nodes (fst st, False)"

definition repeatable_nodes :: "string list \<Rightarrow> string list \<Rightarrow> gates \<Rightarrow> succs \<Rightarrow> string set option" where
  "repeatable_nodes nodes entries activation_gates succ =
     Option.bind (cycle_reachable_nodes nodes succ) (\<lambda>seeds.
     map_option fst (while_option snd (repeat_step nodes activation_gates)
       (seeds \<union> {n \<in> set entries. activation_gates n \<noteq> []}, True)))"

section \<open>Absolute activation levels\<close>

definition level_step :: "string list \<Rightarrow> succs \<Rightarrow> string set \<Rightarrow> (string \<Rightarrow> int set) \<times> bool \<Rightarrow> (string \<Rightarrow> int set) \<times> bool" where
  "level_step nodes succ variable st =
     fold (\<lambda>source st. fold (\<lambda>target (levels, changed).
         if target \<in> variable then (levels, changed)
         else let updated = levels target \<union> (\<lambda>l. l + 1) ` levels source
           in (levels(target := updated), changed \<or> card updated \<noteq> card (levels target)))
       (sorted_list_of_set (succ source)) st) nodes (fst st, False)"

definition absolute_activation_levels :: "string list \<Rightarrow> string list \<Rightarrow> succs \<Rightarrow> (string \<rightharpoonup> int) option" where
  "absolute_activation_levels nodes entries succ =
     Option.bind (cycle_reachable_nodes nodes succ) (\<lambda>variable.
     map_option (\<lambda>(levels, _) n. if n \<in> set nodes \<and> card (levels n) = 1 then Some (hd (sorted_list_of_set (levels n))) else None)
       (while_option snd (level_step nodes succ variable)
         (\<lambda>n. if n \<in> set entries \<and> n \<notin> variable then {0} else {}, True)))"

section \<open>Topological order\<close>

text \<open>The order in which the joint activation paths are analysed.\<close>

definition order_step :: "(string \<Rightarrow> string set) \<Rightarrow> string list \<times> string set \<Rightarrow> string list \<times> string set" where
  "order_step dependencies st =
     (case st of (ordered, pending) \<Rightarrow>
       let ready = {n \<in> pending. dependencies n \<subseteq> set ordered}
       in (ordered @ sorted_list_of_set ready, pending - ready))"

definition dependency_order :: "(string \<Rightarrow> string set) \<Rightarrow> string set \<Rightarrow> string list option" where
  "dependency_order dependencies fixed =
     map_option fst (while_option (\<lambda>(_, pending). pending \<noteq> {}) (order_step dependencies) ([], fixed))"

end
