(* ===== verification/Bdd_Manager.thy ===== *)
theory Bdd_Manager
  imports Kernel_Prelude
begin

text \<open>
  The decision-diagram manager of \<open>mote_kernel/execution/graph/frontier_proof.py\<close> (class
  \<open>_Bdd\<close>).

  \<^item> The manager is a state that every operation threads; an operation returns \<open>None\<close> if its loop
    does not end, an assertion fails or a cache entry it relies on is missing.
  \<^item> References are positions in the node table; 0 is false and 1 is true.
  \<^item> The explicit stacks of the source are lists whose head is popped next.
\<close>

datatype bdd_operation = AND_OP | OR_OP | XOR_OP

datatype bdd_node = BddNode (bn_variable: nat) (bn_low: nat) (bn_high: nat)

record bdd =
  bd_nodes :: "bdd_node option list"
  bd_unique :: "nat \<times> nat \<times> nat \<rightharpoonup> nat"
  bd_apply_cache :: "bdd_operation \<times> nat \<times> nat \<rightharpoonup> nat"
  bd_not_cache :: "nat \<rightharpoonup> nat"
  bd_exists_cache :: "nat \<times> nat set \<rightharpoonup> nat"
  bd_rename_cache :: "nat \<times> (nat \<times> nat) list \<rightharpoonup> nat"
  bd_next_variable :: nat

type_synonym 'a bddM = "bdd \<Rightarrow> ('a \<times> bdd) option"

definition returnB :: "'a \<Rightarrow> 'a bddM" where
  "returnB x b = Some (x, b)"

definition bindB :: "'a bddM \<Rightarrow> ('a \<Rightarrow> 'b bddM) \<Rightarrow> 'b bddM" where
  "bindB m f b = Option.bind (m b) (\<lambda>(x, b'). f x b')"

primrec mapB :: "('a \<Rightarrow> 'b bddM) \<Rightarrow> 'a list \<Rightarrow> 'b list bddM" where
  "mapB f [] = returnB []"
| "mapB f (x # xs) = bindB (f x) (\<lambda>y. bindB (mapB f xs) (\<lambda>ys. returnB (y # ys)))"

definition empty_bdd :: bdd where
  "empty_bdd = \<lparr>bd_nodes = [None, None], bd_unique = (\<lambda>_. None), bd_apply_cache = (\<lambda>_. None), bd_not_cache = (\<lambda>_. None),
     bd_exists_cache = (\<lambda>_. None), bd_rename_cache = (\<lambda>_. None), bd_next_variable = 0\<rparr>"

definition bdd_false :: nat where "bdd_false = 0"

definition bdd_true :: nat where "bdd_true = 1"

text \<open>Every reference the manager hands out is a position of the table.\<close>

definition node_at :: "bdd \<Rightarrow> nat \<Rightarrow> bdd_node option" where
  "node_at b r = (if r < length (bd_nodes b) then bd_nodes b ! r else None)"

definition mk_node :: "nat \<Rightarrow> nat \<Rightarrow> nat \<Rightarrow> nat bddM" where
  "mk_node v l h b =
     (if l = h then Some (l, b)
      else (case bd_unique b (v, l, h) of
          Some r \<Rightarrow> Some (r, b)
        | None \<Rightarrow> Some (length (bd_nodes b),
            b\<lparr>bd_nodes := bd_nodes b @ [Some (BddNode v l h)], bd_unique := (bd_unique b)((v, l, h) \<mapsto> length (bd_nodes b))\<rparr>)))"

definition new_variable :: "nat bddM" where
  "new_variable b = mk_node (bd_next_variable b) bdd_false bdd_true (b\<lparr>bd_next_variable := bd_next_variable b + 1\<rparr>)"

definition variable_index :: "nat \<Rightarrow> nat bddM" where
  "variable_index r b = map_option (\<lambda>n. (bn_variable n, b)) (node_at b r)"

definition cofactor :: "bdd \<Rightarrow> nat \<Rightarrow> nat \<Rightarrow> nat \<times> nat" where
  "cofactor b r v = (case node_at b r of
     None \<Rightarrow> (r, r) | Some n \<Rightarrow> if bn_variable n \<noteq> v then (r, r) else (bn_low n, bn_high n))"

definition apply_terminal :: "bdd_operation \<Rightarrow> nat \<Rightarrow> nat \<Rightarrow> nat option" where
  "apply_terminal opr f s =
     (case opr of
        AND_OP \<Rightarrow>
          if f = bdd_false \<or> s = bdd_false then Some bdd_false
          else if f = bdd_true then Some s
          else if s = bdd_true \<or> f = s then Some f else None
      | OR_OP \<Rightarrow>
          if f = bdd_true \<or> s = bdd_true then Some bdd_true
          else if f = bdd_false then Some s
          else if s = bdd_false \<or> f = s then Some f else None
      | XOR_OP \<Rightarrow> if f = bdd_false then Some s else if f = s then Some bdd_false else None)"

definition cache_apply :: "bdd_operation \<Rightarrow> nat \<times> nat \<Rightarrow> nat \<Rightarrow> bdd \<Rightarrow> bdd" where
  "cache_apply opr p r b = b\<lparr>bd_apply_cache := (bd_apply_cache b)((opr, fst p, snd p) \<mapsto> r)\<rparr>"

definition ordered_pair :: "nat \<Rightarrow> nat \<Rightarrow> nat \<times> nat" where
  "ordered_pair f s = (if f > s then (s, f) else (f, s))"

text \<open>The smallest variable of the two nodes; with two terminals \<open>min\<close> has no argument and raises.\<close>

definition top_variable :: "bdd \<Rightarrow> nat \<Rightarrow> nat \<Rightarrow> nat option" where
  "top_variable b f s =
     (case (node_at b f, node_at b s) of
        (Some m, Some n) \<Rightarrow> Some (min (bn_variable m) (bn_variable n))
      | (Some m, None) \<Rightarrow> Some (bn_variable m)
      | (None, Some n) \<Rightarrow> Some (bn_variable n)
      | (None, None) \<Rightarrow> None)"

partial_function (option) apply_loop :: "bdd_operation \<Rightarrow> (nat \<times> nat \<times> bool) list \<Rightarrow> bdd \<Rightarrow> bdd option" where
  [code]: "apply_loop opr pending b =
     (case pending of
        [] \<Rightarrow> Some b
      | (f0, s0, expanded) # rest \<Rightarrow>
          let (f, s) = ordered_pair f0 s0 in
          if bd_apply_cache b (opr, f, s) \<noteq> None then apply_loop opr rest b
          else (case apply_terminal opr f s of
              Some t \<Rightarrow> apply_loop opr rest (cache_apply opr (f, s) t b)
            | None \<Rightarrow>
                Option.bind (top_variable b f s) (\<lambda>v.
                let (fl, fh) = cofactor b f v; (sl, sh) = cofactor b s v in
                if \<not> expanded then apply_loop opr ((fl, sl, False) # (fh, sh, False) # (f, s, True) # rest) b
                else let (l1, l2) = ordered_pair fl sl; (h1, h2) = ordered_pair fh sh in
                  Option.bind (bd_apply_cache b (opr, l1, l2)) (\<lambda>low.
                  Option.bind (bd_apply_cache b (opr, h1, h2)) (\<lambda>high.
                  Option.bind (mk_node v low high b) (\<lambda>(r, b').
                  apply_loop opr rest (cache_apply opr (f, s) r b')))))))"

definition bdd_apply :: "bdd_operation \<Rightarrow> nat \<Rightarrow> nat \<Rightarrow> nat bddM" where
  "bdd_apply opr first second b =
     (let (f, s) = ordered_pair first second in
      (case bd_apply_cache b (opr, f, s) of
         Some r \<Rightarrow> Some (r, b)
       | None \<Rightarrow>
           Option.bind (apply_loop opr [(f, s, False)] b) (\<lambda>b'.
           Option.bind (bd_apply_cache b' (opr, f, s)) (\<lambda>r. Some (r, b')))))"

fun reduce_pairs :: "bdd_operation \<Rightarrow> nat list \<Rightarrow> nat list bddM" where
  "reduce_pairs opr [] = returnB []"
| "reduce_pairs opr [x] = returnB [x]"
| "reduce_pairs opr (x # y # zs) = bindB (bdd_apply opr x y) (\<lambda>r. bindB (reduce_pairs opr zs) (\<lambda>rs. returnB (r # rs)))"

partial_function (option) reduce_loop :: "bdd_operation \<Rightarrow> nat list \<Rightarrow> bdd \<Rightarrow> (nat \<times> bdd) option" where
  [code]: "reduce_loop opr pending b =
     (case pending of
        [] \<Rightarrow> None
      | [x] \<Rightarrow> Some (x, b)
      | x # y # zs \<Rightarrow> Option.bind (reduce_pairs opr (x # y # zs) b) (\<lambda>(xs, b'). reduce_loop opr xs b'))"

definition conjunction :: "nat list \<Rightarrow> nat bddM" where
  "conjunction values b = (if values = [] then Some (bdd_true, b) else reduce_loop AND_OP values b)"

definition disjunction :: "nat list \<Rightarrow> nat bddM" where
  "disjunction values b = (if values = [] then Some (bdd_false, b) else reduce_loop OR_OP values b)"

partial_function (option) negate_loop :: "(nat \<times> bool) list \<Rightarrow> (nat \<rightharpoonup> nat) \<Rightarrow> bdd \<Rightarrow> ((nat \<rightharpoonup> nat) \<times> bdd) option" where
  [code]: "negate_loop pending values b =
     (case pending of
        [] \<Rightarrow> Some (values, b)
      | (c, expanded) # rest \<Rightarrow>
          if values c \<noteq> None then negate_loop rest values b
          else (case bd_not_cache b c of
              Some r \<Rightarrow> negate_loop rest (values(c \<mapsto> r)) b
            | None \<Rightarrow>
                Option.bind (node_at b c) (\<lambda>n.
                if \<not> expanded then negate_loop ((bn_low n, False) # (bn_high n, False) # (c, True) # rest) values b
                else
                  Option.bind (values (bn_low n)) (\<lambda>low.
                  Option.bind (values (bn_high n)) (\<lambda>high.
                  Option.bind (mk_node (bn_variable n) low high b) (\<lambda>(r, b').
                  negate_loop rest (values(c \<mapsto> r)) (b'\<lparr>bd_not_cache := (bd_not_cache b')(c \<mapsto> r)\<rparr>)))))))"

definition negate :: "nat \<Rightarrow> nat bddM" where
  "negate r b =
     (case bd_not_cache b r of
        Some x \<Rightarrow> Some (x, b)
      | None \<Rightarrow>
          Option.bind (negate_loop [(r, False)] [bdd_false \<mapsto> bdd_true, bdd_true \<mapsto> bdd_false] b) (\<lambda>(values, b').
          Option.bind (values r) (\<lambda>x. Some (x, b'))))"

definition equivalence :: "nat \<Rightarrow> nat \<Rightarrow> nat bddM" where
  "equivalence f s = bindB (bdd_apply XOR_OP f s) negate"

definition ite :: "nat \<Rightarrow> nat \<Rightarrow> nat \<Rightarrow> nat bddM" where
  "ite c t e =
     bindB (bdd_apply AND_OP c t) (\<lambda>x.
     bindB (negate c) (\<lambda>nc.
     bindB (bdd_apply AND_OP nc e) (\<lambda>y.
     bdd_apply OR_OP x y)))"

partial_function (option) exists_loop ::
  "nat set \<Rightarrow> (nat \<times> bool) list \<Rightarrow> (nat \<rightharpoonup> nat) \<Rightarrow> bdd \<Rightarrow> ((nat \<rightharpoonup> nat) \<times> bdd) option" where
  [code]: "exists_loop vs pending values b =
     (case pending of
        [] \<Rightarrow> Some (values, b)
      | (c, expanded) # rest \<Rightarrow>
          if values c \<noteq> None then exists_loop vs rest values b
          else (case bd_exists_cache b (c, vs) of
              Some r \<Rightarrow> exists_loop vs rest (values(c \<mapsto> r)) b
            | None \<Rightarrow>
                Option.bind (node_at b c) (\<lambda>n.
                if \<not> expanded then exists_loop vs ((bn_low n, False) # (bn_high n, False) # (c, True) # rest) values b
                else
                  Option.bind (values (bn_low n)) (\<lambda>low.
                  Option.bind (values (bn_high n)) (\<lambda>high.
                  Option.bind (if bn_variable n \<in> vs then bdd_apply OR_OP low high b else mk_node (bn_variable n) low high b) (\<lambda>(r, b').
                  exists_loop vs rest (values(c \<mapsto> r)) (b'\<lparr>bd_exists_cache := (bd_exists_cache b')((c, vs) \<mapsto> r)\<rparr>)))))))"

definition bdd_exists :: "nat \<Rightarrow> nat set \<Rightarrow> nat bddM" where
  "bdd_exists r vs b =
     (if r < 2 \<or> vs = {} then Some (r, b)
      else (case bd_exists_cache b (r, vs) of
          Some x \<Rightarrow> Some (x, b)
        | None \<Rightarrow>
            Option.bind (exists_loop vs [(r, False)] [bdd_false \<mapsto> bdd_false, bdd_true \<mapsto> bdd_true] b) (\<lambda>(values, b').
            Option.bind (values r) (\<lambda>x. Some (x, b')))))"

text \<open>A renaming is the sorted tuple of its entries.\<close>

definition renamed :: "(nat \<times> nat) list \<Rightarrow> nat \<Rightarrow> nat" where
  "renamed mapping v = (case map_of mapping v of None \<Rightarrow> v | Some w \<Rightarrow> w)"

definition rename_node :: "(nat \<times> nat) list \<Rightarrow> nat \<Rightarrow> nat \<Rightarrow> nat \<Rightarrow> nat bddM" where
  "rename_node mapping v low high =
     bindB (mk_node (renamed mapping v) bdd_false bdd_true) (\<lambda>c. ite c high low)"

partial_function (option) rename_loop ::
  "(nat \<times> nat) list \<Rightarrow> (nat \<times> bool) list \<Rightarrow> (nat \<rightharpoonup> nat) \<Rightarrow> bdd \<Rightarrow> ((nat \<rightharpoonup> nat) \<times> bdd) option" where
  [code]: "rename_loop mapping pending values b =
     (case pending of
        [] \<Rightarrow> Some (values, b)
      | (c, expanded) # rest \<Rightarrow>
          if values c \<noteq> None then rename_loop mapping rest values b
          else (case bd_rename_cache b (c, mapping) of
              Some r \<Rightarrow> rename_loop mapping rest (values(c \<mapsto> r)) b
            | None \<Rightarrow>
                Option.bind (node_at b c) (\<lambda>n.
                if \<not> expanded then rename_loop mapping ((bn_low n, False) # (bn_high n, False) # (c, True) # rest) values b
                else
                  Option.bind (values (bn_low n)) (\<lambda>low.
                  Option.bind (values (bn_high n)) (\<lambda>high.
                  Option.bind (rename_node mapping (bn_variable n) low high b) (\<lambda>(r, b').
                  rename_loop mapping rest (values(c \<mapsto> r)) (b'\<lparr>bd_rename_cache := (bd_rename_cache b')((c, mapping) \<mapsto> r)\<rparr>)))))))"

definition bdd_rename :: "nat \<Rightarrow> (nat \<times> nat) list \<Rightarrow> nat bddM" where
  "bdd_rename r mapping b =
     (if r < 2 \<or> mapping = [] then Some (r, b)
      else (case bd_rename_cache b (r, mapping) of
          Some x \<Rightarrow> Some (x, b)
        | None \<Rightarrow>
            Option.bind (rename_loop mapping [(r, False)] [bdd_false \<mapsto> bdd_false, bdd_true \<mapsto> bdd_true] b) (\<lambda>(values, b').
            Option.bind (values r) (\<lambda>x. Some (x, b')))))"

definition satisfiable :: "nat \<Rightarrow> bool" where
  "satisfiable r \<longleftrightarrow> r \<noteq> bdd_false"

end
