(* ===== verification/Frontier_Relation.thy ===== *)
theory Frontier_Relation
  imports Bdd_Manager Graph_Plan "HOL-Library.While_Combinator"
begin

text \<open>
  The symbolic terminal-frontier proof of \<open>mote_kernel/execution/graph/frontier_proof.py\<close> (class
  \<open>_FrontierRelation\<close> and \<open>prove_completion_routes\<close>): the control topology as a transition
  relation over Boolean variables, its reachable fixed point, and the completion routes.

  \<^item> The topology's dictionaries are functions of the node identity; \<open>route_options\<close> keeps its
    entries in order. Loops over sets of nodes run in sorted order: each target receives at most
    one cause of a source from them, so their order shows in no list of causes.
\<close>

record control_topology =
  ct_entries :: "string list"
  ct_route_options :: "(string \<times> string option list) list"
  ct_direct :: "string \<Rightarrow> string set"
  ct_conditional :: "string \<Rightarrow> (string \<times> string) list"
  ct_joins :: "string \<Rightarrow> compiled_join list"

definition ct_nodes :: "control_topology \<Rightarrow> string list" where
  "ct_nodes T = map fst (ct_route_options T)"

definition options_of :: "control_topology \<Rightarrow> string \<Rightarrow> string option list" where
  "options_of T n = (case map_of (ct_route_options T) n of None \<Rightarrow> [] | Some rs \<Rightarrow> rs)"

definition liftB :: "'a res \<Rightarrow> 'a bddM" where
  "liftB r = (case r of Inl _ \<Rightarrow> (\<lambda>_. None) | Inr x \<Rightarrow> returnB x)"

primrec foldB :: "('s \<Rightarrow> 'a \<Rightarrow> 's bddM) \<Rightarrow> 's \<Rightarrow> 'a list \<Rightarrow> 's bddM" where
  "foldB f s [] = returnB s"
| "foldB f s (x # xs) = bindB (f s x) (\<lambda>s'. foldB f s' xs)"

fun later_pairs :: "'a list \<Rightarrow> ('a \<times> 'a) list" where
  "later_pairs [] = []"
| "later_pairs (x # xs) = map (Pair x) xs @ later_pairs xs"

section \<open>Order of the variables\<close>

definition unique_joins :: "control_topology \<Rightarrow> compiled_join list" where
  "unique_joins T =
     sort_key (\<lambda>j. (join_sources (cj_identity j), join_target (cj_identity j)))
       (remdups (concat (map (ct_joins T) (sort (ct_nodes T)))))"

definition join_members :: "compiled_join \<Rightarrow> string set" where
  "join_members j = set (join_sources (cj_identity j)) \<union>
     (if join_target (cj_identity j) \<noteq> END_NODE then {join_target (cj_identity j)} else {})"

definition neighbours :: "control_topology \<Rightarrow> string \<Rightarrow> string set" where
  "neighbours T n =
     ct_direct T n \<union> {s \<in> set (ct_nodes T). n \<in> ct_direct T s} \<union>
     {t \<in> set (map snd (ct_conditional T n)). t \<noteq> END_NODE} \<union>
     {s \<in> set (ct_nodes T). n \<noteq> END_NODE \<and> n \<in> set (map snd (ct_conditional T s))} \<union>
     (\<Union>j\<in>set (concat (map (ct_joins T) (ct_nodes T))). if n \<in> join_members j then join_members j - {n} else {})"

definition component_step :: "control_topology \<Rightarrow> string list \<times> string set \<times> string set \<Rightarrow> string list \<times> string set \<times> string set" where
  "component_step T st =
     (case st of
        (source # pending, component, unseen) \<Rightarrow>
          fold (\<lambda>t (pending, component, unseen).
              if t \<in> unseen then (t # pending, insert t component, unseen - {t}) else (pending, component, unseen))
            (sorted_list_of_set (neighbours T source)) (pending, component, unseen)
      | _ \<Rightarrow> st)"

definition component_from :: "control_topology \<Rightarrow> string \<Rightarrow> string set \<Rightarrow> (string set \<times> string set) option" where
  "component_from T start unseen =
     map_option snd (while_option (\<lambda>(pending, _). pending \<noteq> []) (component_step T) ([start], {start}, unseen - {start}))"

partial_function (option) order_loop :: "control_topology \<Rightarrow> string list \<Rightarrow> string set \<Rightarrow> string list option" where
  [code]: "order_loop T ordered unseen =
     (if unseen = {} then Some ordered
      else Option.bind (component_from T (Min unseen) unseen) (\<lambda>(component, unseen').
        order_loop T (ordered @ sorted_list_of_set component) unseen'))"

definition symbolic_order :: "control_topology \<Rightarrow> string list option" where
  "symbolic_order T = order_loop T [] (set (ct_nodes T))"

section \<open>Variables\<close>

type_synonym join_key = "compiled_join \<times> int \<times> string"

record frontier_vars =
  fv_nodes :: "string list"
  fv_joins :: "compiled_join list"
  fv_node_current :: "string \<Rightarrow> nat"
  fv_node_following :: "string \<Rightarrow> nat"
  fv_choices :: "string \<Rightarrow> (string option \<times> nat) list"
  fv_join_keys :: "join_key list"
  fv_join_current :: "join_key \<Rightarrow> nat"
  fv_join_following :: "join_key \<Rightarrow> nat"

definition max_offset :: "compiled_join \<Rightarrow> int" where
  "max_offset j = Max (set (map snd (cj_offsets j)))"

definition join_state_keys :: "compiled_join list \<Rightarrow> join_key list" where
  "join_state_keys joins =
     concat (map (\<lambda>j. concat (map (\<lambda>remaining. map (\<lambda>s. (j, remaining, s)) (join_sources (cj_identity j))) [1..max_offset j])) joins)"

definition choice_options :: "control_topology \<Rightarrow> string \<Rightarrow> string option list" where
  "choice_options T n = (if ct_conditional T n \<noteq> [] then map Some (sort (map fst (ct_conditional T n))) else options_of T n)"

definition choices_for_node :: "control_topology \<Rightarrow> string \<Rightarrow> (string option \<times> nat) list bddM" where
  "choices_for_node T n =
     (if length (choice_options T n) > 1
      then mapB (\<lambda>r. bindB new_variable (\<lambda>v. returnB (r, v))) (choice_options T n) else returnB [])"

definition allocate_node :: "control_topology \<Rightarrow> frontier_vars \<Rightarrow> string \<Rightarrow> frontier_vars bddM" where
  "allocate_node T V n =
     bindB new_variable (\<lambda>current.
     bindB (choices_for_node T n) (\<lambda>choices.
     bindB new_variable (\<lambda>following.
     returnB (V\<lparr>fv_node_current := (fv_node_current V)(n := current), fv_choices := (fv_choices V)(n := choices),
       fv_node_following := (fv_node_following V)(n := following)\<rparr>))))"

definition allocate :: "control_topology \<Rightarrow> string list \<Rightarrow> frontier_vars bddM" where
  "allocate T nodes =
     (let joins = unique_joins T; keys = join_state_keys joins;
          V0 = \<lparr>fv_nodes = nodes, fv_joins = joins, fv_node_current = (\<lambda>_. 0), fv_node_following = (\<lambda>_. 0), fv_choices = (\<lambda>_. []),
            fv_join_keys = keys, fv_join_current = (\<lambda>_. 0), fv_join_following = (\<lambda>_. 0)\<rparr> in
      bindB (foldB (allocate_node T) V0 nodes) (\<lambda>V1.
      bindB (foldB (\<lambda>V k. bindB new_variable (\<lambda>v. returnB (V\<lparr>fv_join_current := (fv_join_current V)(k := v)\<rparr>))) V1 keys) (\<lambda>V2.
      foldB (\<lambda>V k. bindB new_variable (\<lambda>v. returnB (V\<lparr>fv_join_following := (fv_join_following V)(k := v)\<rparr>))) V2 keys)))"

definition current_variables :: "frontier_vars \<Rightarrow> nat list" where
  "current_variables V = map (fv_node_current V) (fv_nodes V) @ map (fv_join_current V) (fv_join_keys V)"

definition following_variables :: "frontier_vars \<Rightarrow> nat list" where
  "following_variables V = map (fv_node_following V) (fv_nodes V) @ map (fv_join_following V) (fv_join_keys V)"

definition choice_variables :: "frontier_vars \<Rightarrow> nat list" where
  "choice_variables V = concat (map (\<lambda>n. map snd (fv_choices V n)) (fv_nodes V))"

section \<open>The transition relation\<close>

definition state_literal :: "nat \<Rightarrow> bool \<Rightarrow> nat bddM" where
  "state_literal v value = (if value then returnB v else negate v)"

definition choice_literal :: "control_topology \<Rightarrow> frontier_vars \<Rightarrow> string \<Rightarrow> string option \<Rightarrow> nat" where
  "choice_literal T V n route =
     (if fv_choices V n \<noteq> [] then (case map_of (fv_choices V n) route of Some v \<Rightarrow> v | None \<Rightarrow> bdd_false)
      else if ct_conditional T n \<noteq> [] then (if route \<in> Some ` fst ` set (ct_conditional T n) then bdd_true else bdd_false)
      else if route \<in> set (options_of T n) then bdd_true else bdd_false)"

definition exactly_one_when_active :: "frontier_vars \<Rightarrow> string \<Rightarrow> nat bddM" where
  "exactly_one_when_active V n =
     (let literals = map snd (fv_choices V n); active = fv_node_current V n in
      bindB (disjunction literals) (\<lambda>at_least_one.
      bindB (ite active at_least_one bdd_true) (\<lambda>clause.
      bindB (mapB (\<lambda>(f, s). bindB (bdd_apply AND_OP f s) (\<lambda>both. bindB (negate both) (\<lambda>not_both. ite active not_both bdd_true)))
        (later_pairs literals)) (\<lambda>clauses.
      conjunction (clause # clauses)))))"

definition choice_constraints :: "frontier_vars \<Rightarrow> nat bddM" where
  "choice_constraints V =
     bindB (mapB (exactly_one_when_active V) (filter (\<lambda>n. fv_choices V n \<noteq> []) (fv_nodes V))) conjunction"

type_synonym causes = "string \<Rightarrow> (nat \<times> string list) list"

definition add_cause :: "causes \<Rightarrow> string \<Rightarrow> nat \<times> string list \<Rightarrow> causes" where
  "add_cause causes target c = causes(target := causes target @ [c])"

definition source_causes :: "control_topology \<Rightarrow> frontier_vars \<Rightarrow> causes \<Rightarrow> string \<Rightarrow> causes bddM" where
  "source_causes T V causes source =
     (let active = fv_node_current V source;
          direct = fold (\<lambda>t cs. add_cause cs t (active, [source])) (sorted_list_of_set (ct_direct T source)) causes in
      foldB (\<lambda>cs (route, target).
          if target \<noteq> END_NODE
          then bindB (bdd_apply AND_OP active (choice_literal T V source (Some route))) (\<lambda>c. returnB (add_cause cs target (c, [source])))
          else returnB cs) direct (ct_conditional T source))"

definition join_arrival :: "frontier_vars \<Rightarrow> compiled_join \<Rightarrow> int \<Rightarrow> string \<Rightarrow> nat bddM" where
  "join_arrival V j remaining source =
     bindB (liftB (target_offset j source)) (\<lambda>offset.
     disjunction (fv_join_current V (j, remaining, source) # (if offset = remaining then [fv_node_current V source] else [])))"

definition arrival_constraints :: "frontier_vars \<Rightarrow> compiled_join \<Rightarrow> int \<Rightarrow> string \<times> nat \<Rightarrow> nat list bddM" where
  "arrival_constraints V j remaining x =
     (case x of (source, arrival) \<Rightarrow>
       bindB (liftB (target_offset j source)) (\<lambda>offset.
       bindB (if offset = remaining
              then bindB (bdd_apply AND_OP (fv_join_current V (j, remaining, source)) (fv_node_current V source)) (\<lambda>duplicate.
                   bindB (negate duplicate) (\<lambda>c. returnB [c]))
              else returnB []) (\<lambda>first.
       bindB (if remaining > 1
              then bindB (equivalence (fv_join_following V (j, remaining - 1, source)) arrival) (\<lambda>c. returnB [c])
              else returnB []) (\<lambda>second.
       returnB (first @ second)))))"

definition join_level :: "frontier_vars \<Rightarrow> nat list \<times> causes \<Rightarrow> compiled_join \<times> int \<Rightarrow> (nat list \<times> causes) bddM" where
  "join_level V st x =
     (case (st, x) of ((constraints, causes), (j, remaining)) \<Rightarrow>
       let sources = join_sources (cj_identity j); target = join_target (cj_identity j) in
       bindB (mapB (join_arrival V j remaining) sources) (\<lambda>arrivals.
       bindB (disjunction arrivals) (\<lambda>any_arrival.
       bindB (conjunction arrivals) (\<lambda>complete.
       bindB (if remaining = 1 then ite any_arrival complete bdd_true else negate complete) (\<lambda>constraint.
       bindB (mapB (arrival_constraints V j remaining) (zip sources arrivals)) (\<lambda>more.
       returnB (constraints @ constraint # concat more,
         if remaining = 1 \<and> target \<noteq> END_NODE then add_cause causes target (complete, sources) else causes)))))))"

definition target_constraints ::
  "frontier_vars \<Rightarrow> causes \<Rightarrow> nat list \<times> (nat \<times> string \<times> string list) list \<Rightarrow> string \<Rightarrow>
     (nat list \<times> (nat \<times> string \<times> string list) list) bddM" where
  "target_constraints V causes st target =
     (case st of (constraints, duplicates) \<Rightarrow>
       bindB (mapB (\<lambda>((f, fs), (s, ss)). bindB (bdd_apply AND_OP f s) (\<lambda>d. bindB (negate d) (\<lambda>c.
           returnB (c, (d, target, sorted_list_of_set (set fs \<union> set ss)))))) (later_pairs (causes target))) (\<lambda>pairs.
       bindB (disjunction (map fst (causes target))) (\<lambda>expression.
       bindB (equivalence (fv_node_following V target) expression) (\<lambda>c.
       returnB (constraints @ map fst pairs @ [c], duplicates @ map snd pairs)))))"

definition build_relation ::
  "control_topology \<Rightarrow> frontier_vars \<Rightarrow> nat \<Rightarrow> (nat \<times> (nat \<times> string \<times> string list) list) bddM" where
  "build_relation T V choice_constraint =
     bindB (foldB (source_causes T V) (\<lambda>_. []) (fv_nodes V)) (\<lambda>control_causes.
     bindB (foldB (join_level V) ([choice_constraint], control_causes)
       (concat (map (\<lambda>j. map (Pair j) [1..max_offset j]) (fv_joins V)))) (\<lambda>(constraints, causes).
     bindB (foldB (target_constraints V causes) (constraints, []) (fv_nodes V)) (\<lambda>(constraints', duplicates).
     bindB (mapB (\<lambda>(j, s). negate (fv_join_following V (j, max_offset j, s)))
       (concat (map (\<lambda>j. map (Pair j) (join_sources (cj_identity j))) (fv_joins V)))) (\<lambda>last_levels.
     bindB (conjunction (constraints' @ last_levels)) (\<lambda>relation.
     returnB (relation, duplicates))))))"

definition initial_state :: "control_topology \<Rightarrow> frontier_vars \<Rightarrow> nat bddM" where
  "initial_state T V =
     bindB (mapB (\<lambda>n. state_literal (fv_node_current V n) (n \<in> set (ct_entries T))) (fv_nodes V)) (\<lambda>literals.
     bindB (mapB (\<lambda>k. negate (fv_join_current V k)) (fv_join_keys V)) (\<lambda>joins.
     conjunction (literals @ joins)))"

record frontier_relation =
  fr_vars :: frontier_vars
  fr_choice_constraints :: nat
  fr_relation :: nat
  fr_duplicate_causes :: "(nat \<times> string \<times> string list) list"
  fr_initial :: nat
  fr_following_empty :: nat

definition build_frontier_relation :: "control_topology \<Rightarrow> string list \<Rightarrow> frontier_relation bddM" where
  "build_frontier_relation T nodes =
     bindB (allocate T nodes) (\<lambda>V.
     bindB (choice_constraints V) (\<lambda>choice_constraint.
     bindB (build_relation T V choice_constraint) (\<lambda>(relation, duplicates).
     bindB (initial_state T V) (\<lambda>initial.
     bindB (bindB (mapB negate (following_variables V)) conjunction) (\<lambda>following_empty.
     returnB \<lparr>fr_vars = V, fr_choice_constraints = choice_constraint, fr_relation = relation,
       fr_duplicate_causes = duplicates, fr_initial = initial, fr_following_empty = following_empty\<rparr>)))))"

section \<open>Reachable frontiers and completion routes\<close>

partial_function (option) reach_loop :: "nat \<Rightarrow> nat set \<Rightarrow> (nat \<times> nat) list \<Rightarrow> nat \<Rightarrow> bdd \<Rightarrow> (nat \<times> bdd) option" where
  [code]: "reach_loop relation hidden mapping reached b =
     Option.bind (bdd_apply AND_OP reached relation b) (\<lambda>(step, b1).
     Option.bind (bdd_exists step hidden b1) (\<lambda>(image, b2).
     Option.bind (bdd_rename image mapping b2) (\<lambda>(renamed_image, b3).
     Option.bind (bdd_apply OR_OP reached renamed_image b3) (\<lambda>(expanded, b4).
     if expanded = reached then Some (reached, b4) else reach_loop relation hidden mapping expanded b4))))"

definition reachable_frontiers :: "frontier_relation \<Rightarrow> nat bddM" where
  "reachable_frontiers R =
     (let V = fr_vars R in
      bindB (mapB variable_index (current_variables V @ choice_variables V)) (\<lambda>hidden.
      bindB (mapB variable_index (following_variables V)) (\<lambda>following.
      bindB (mapB variable_index (current_variables V)) (\<lambda>current.
      reach_loop (fr_relation R) (set hidden) (sort (zip following current)) (fr_initial R)))))"

definition terminal_route_presence :: "control_topology \<Rightarrow> frontier_vars \<Rightarrow> string option \<Rightarrow> nat bddM" where
  "terminal_route_presence T V route =
     bindB (mapB (\<lambda>n. bdd_apply AND_OP (fv_node_current V n) (choice_literal T V n route))
       (filter (\<lambda>n. ct_conditional T n \<noteq> [] \<or> route \<in> set (options_of T n)) (fv_nodes V))) disjunction"

definition route_key :: "string option \<Rightarrow> bool \<times> string" where
  "route_key r = (r \<noteq> None, case r of None \<Rightarrow> [] | Some s \<Rightarrow> s)"

definition sorted_routes :: "string option set \<Rightarrow> string option list" where
  "sorted_routes rs = (if None \<in> rs then [None] else []) @ map Some (sorted_list_of_set (the ` (rs - {None})))"

definition duplicate_error :: "string \<Rightarrow> string list \<Rightarrow> kernel_error" where
  "duplicate_error target sources = GraphValidationError (''target '' @ py_repr target @
     '' has multiple activation gates without an explicit Join; '' @
     (if length sources > 1
      then ''concurrent sources may be '' @ py_repr_tuple sources @ '', declare graph.add_join('' @ py_repr_tuple sources @ '', '' @
        py_repr target @ '')''
      else ''source '' @ py_repr (hd sources) @ '' contributes more than one path to the same target''))"

text \<open>The first duplicate cause that some reachable frontier satisfies is reported.\<close>

fun check_duplicates :: "nat \<Rightarrow> nat \<Rightarrow> (nat \<times> string \<times> string list) list \<Rightarrow> unit res bddM" where
  "check_duplicates reachable choice_constraint [] = returnB (Inr ())"
| "check_duplicates reachable choice_constraint ((d, target, sources) # ds) =
     bindB (conjunction [reachable, choice_constraint, d]) (\<lambda>x.
     if satisfiable x then returnB (Inl (duplicate_error target sources)) else check_duplicates reachable choice_constraint ds)"

fun check_conflicts :: "nat \<Rightarrow> (nat \<times> nat) list \<Rightarrow> unit res bddM" where
  "check_conflicts terminal [] = returnB (Inr ())"
| "check_conflicts terminal ((f, s) # ps) =
     bindB (conjunction [terminal, f, s]) (\<lambda>x.
     if satisfiable x
     then returnB (Inl (GraphValidationError ''terminal frontier may expose conflicting completion routes''))
     else check_conflicts terminal ps)"

definition terminal_routes :: "control_topology \<Rightarrow> frontier_relation \<Rightarrow> nat \<Rightarrow> string option set res bddM" where
  "terminal_routes T R reachable =
     (let V = fr_vars R; routes = sorted_routes (\<Union>(set ` snd ` set (ct_route_options T))) in
      bindB (disjunction (map (fv_node_current V) (fv_nodes V))) (\<lambda>active.
      bindB (conjunction [reachable, active, fr_relation R, fr_following_empty R]) (\<lambda>terminal.
      bindB (mapB (terminal_route_presence T V) routes) (\<lambda>presence.
      bindB (mapB (bdd_apply AND_OP terminal) presence) (\<lambda>exposures.
      bindB (check_conflicts terminal (later_pairs presence)) (\<lambda>conflict.
      let exposed = set (map fst (filter (\<lambda>(_, x). satisfiable x) (zip routes exposures))) in
      returnB (case conflict of
          Inl e \<Rightarrow> Inl e
        | Inr _ \<Rightarrow> if exposed = {} then Inl (GraphValidationError ''graph has no statically viable successful completion'')
            else Inr exposed)))))))"

definition completion_routes :: "control_topology \<Rightarrow> frontier_relation \<Rightarrow> string option set res bddM" where
  "completion_routes T R =
     bindB (reachable_frontiers R) (\<lambda>reachable.
     bindB (check_duplicates reachable (fr_choice_constraints R) (fr_duplicate_causes R)) (\<lambda>duplicate.
     case duplicate of Inl e \<Rightarrow> returnB (Inl e) | Inr _ \<Rightarrow> terminal_routes T R reachable))"

definition prove_completion_routes :: "control_topology \<Rightarrow> string option set res option" where
  "prove_completion_routes T =
     Option.bind (symbolic_order T) (\<lambda>nodes.
     map_option fst (bindB (build_frontier_relation T nodes) (completion_routes T) empty_bdd))"

end
