(* ===== verification/Graph_Compiler.thy ===== *)
theory Graph_Compiler
  imports Graph_Search Frontier_Relation "HOL-Library.AList"
begin

text \<open>
  \<open>mote_kernel/execution/graph/compiler.py\<close>: resolution of value sources, the lowering of edges to
  gates, joins with their occurrence coordinates, publication selections, and the assembly of the
  compiled plan of a graph family.

  \<^item> A result that may also diverge is \<open>'a run\<close>: \<open>None\<close> is a loop that does not end.
  \<^item> The compiled plan keeps the class of a nominal descriptor. The descriptor objects of a graph's
    outputs, which a parent definition compares with \<open>is\<close>, are returned beside the plan.
  \<^item> A loop over a set of nodes that stops at its first error runs in sorted order.
\<close>

type_synonym 'a run = "'a res option"

definition bindR :: "'a run \<Rightarrow> ('a \<Rightarrow> 'b run) \<Rightarrow> 'b run" where
  "bindR m f = (case m of None \<Rightarrow> None | Some (Inl e) \<Rightarrow> Some (Inl e) | Some (Inr x) \<Rightarrow> f x)"

lemma bindR_simps [simp]:
  "bindR None f = None"
  "bindR (Some (Inl e)) f = Some (Inl e)"
  "bindR (Some (Inr x)) f = f x"
  by (simp_all add: bindR_def)

lemma bindR_cong [fundef_cong]:
  "m = m' \<Longrightarrow> (\<And>x. m' = Some (Inr x) \<Longrightarrow> f x = f' x) \<Longrightarrow> bindR m f = bindR m' f'"
  by (auto simp: bindR_def split: option.splits sum.splits)

lemma bindR_eq [resE]: "bindR m f = Some (Inr y) \<longleftrightarrow> (\<exists>x. m = Some (Inr x) \<and> f x = Some (Inr y))"
  by (auto simp: bindR_def split: option.splits sum.splits)

lemma bindR_total: "\<exists>r. m = Some r \<Longrightarrow> (\<And>x. m = Some (Inr x) \<Longrightarrow> \<exists>r. f x = Some r) \<Longrightarrow> \<exists>r. bindR m f = Some r"
  by (auto simp: bindR_def split: sum.splits)

definition liftO :: "'a option \<Rightarrow> 'a run" where
  "liftO m = map_option Inr m"

primrec forR :: "('a \<Rightarrow> unit run) \<Rightarrow> 'a list \<Rightarrow> unit run" where
  "forR f [] = Some (Inr ())"
| "forR f (x # xs) = bindR (f x) (\<lambda>_. forR f xs)"

type_synonym declarations = "(string \<times> nominal) list"

type_synonym conditionals = "string \<Rightarrow> (string \<times> string) list"

section \<open>Gates\<close>

definition activation_gate_sort_key :: "activation_gate \<Rightarrow> (string \<times> (bool \<times> string) list) list" where
  "activation_gate_sort_key gate = map (\<lambda>(source, routes). (source, sorted_list_of_set (route_key ` routes))) gate"

definition raw_gate_key :: "raw_gate \<Rightarrow> (string \<times> bool \<times> string) list" where
  "raw_gate_key gate = map (\<lambda>(source, route). (source, route_key route)) gate"

definition compiled_activation_gate :: "conditionals \<Rightarrow> raw_gate \<Rightarrow> activation_gate" where
  "compiled_activation_gate conditional gate =
     map (\<lambda>(source, route). (source,
         if route = None \<and> conditional source \<noteq> [] then Some ` set (map fst (conditional source)) else {route}))
       (sort_key (\<lambda>(source, route). (source, route_key route)) gate)"

definition all_single_source_gates :: "string \<Rightarrow> raw_gate list \<Rightarrow> bool" where
  "all_single_source_gates source gs \<longleftrightarrow> gs \<noteq> [] \<and> list_all (\<lambda>gate. map fst gate = [source]) gs"

definition all_activation_gates_include :: "string \<Rightarrow> raw_gate list \<Rightarrow> bool" where
  "all_activation_gates_include source gs \<longleftrightarrow> gs \<noteq> [] \<and> list_all (\<lambda>gate. source \<in> set (map fst gate)) gs"

section \<open>Value sources\<close>

definition declaration_of :: "declarations \<Rightarrow> string \<Rightarrow> string \<Rightarrow> nominal res" where
  "declaration_of ds name owner =
     (case map_of ds name of
        Some d \<Rightarrow> Inr d
      | None \<Rightarrow> Inl (GraphValidationError (owner @ '' references unknown output port '' @ py_repr name)))"

definition frame_descriptor_for :: "graph_definition \<Rightarrow> frame_kind \<Rightarrow> int \<Rightarrow> declarations \<Rightarrow> frame_descriptor res" where
  "frame_descriptor_for d kind ordinal ds =
     bindE (mk_FrameDescriptorIdentity (gd_definition_id d) (gd_version d) kind ordinal) (\<lambda>identity.
     Inr \<lparr>fd_identity = identity, fd_declarations = map (\<lambda>(n, t). (n, nd_value_type t)) ds\<rparr>)"

definition graph_input_refs :: "graph_definition \<Rightarrow> (string \<times> nominal) list" where
  "graph_input_refs d =
     concat (map (\<lambda>node. concat (map (\<lambda>(_, source). case source of ValueSourceRef (GraphInputRef n t) \<Rightarrow> [(n, t)] | _ \<Rightarrow> []) (nf_inputs node)))
       (gd_nodes d)) @
     concat (map (\<lambda>(_, source). case source of GraphInputRef n t \<Rightarrow> [(n, t)] | _ \<Rightarrow> []) (gd_outputs d))"

definition collect_graph_inputs :: "graph_definition \<Rightarrow> declarations res" where
  "collect_graph_inputs d =
     bindE (foldE (\<lambda>ds (n, t). case map_of ds n of
         Some t' \<Rightarrow> if nd_value_type t' \<noteq> nd_value_type t
           then Inl (GraphValidationError (''graph input '' @ py_repr n @ '' has conflicting exact type declarations''))
           else Inr (AList.update n t ds)
       | None \<Rightarrow> Inr (AList.update n t ds)) [] (graph_input_refs d)) (\<lambda>ds.
     Inr (sort_key fst ds))"

definition resolve_source ::
  "value_ref \<Rightarrow> declarations \<Rightarrow> (string \<times> declarations) list \<Rightarrow> string option \<Rightarrow> (value_source \<times> nominal) res" where
  "resolve_source source graph_inputs node_outputs consumer =
     (case source of
        GraphInputRef n _ \<Rightarrow>
          bindE (declaration_of graph_inputs n ''graph input binding'') (\<lambda>t. Inr (GraphInputPort n, t))
      | NodeOutputRef m n descriptor \<Rightarrow>
          if consumer = Some m
          then Inl (GraphValidationError (''node '' @ py_repr m @ '' cannot bind its own output''))
          else (case map_of node_outputs m of
              None \<Rightarrow> Inl (UnknownNodeError (''value source references unknown node '' @ py_repr m))
            | Some outputs \<Rightarrow>
                bindE (declaration_of outputs n (''node '' @ py_repr m)) (\<lambda>t.
                if descriptor \<noteq> None \<and> nd_object (the descriptor) \<noteq> nd_object t
                then Inl (GraphValidationError (''typed node output '' @ py_repr m @ ''.'' @ py_repr n @
                  '' does not match its declared exact type/descriptor''))
                else Inr (NodeOutputPort m n, t))))"

definition resolve_predecessor_output ::
  "string \<Rightarrow> nominal option \<Rightarrow> string \<Rightarrow> string \<Rightarrow> (string \<times> declarations) list \<Rightarrow> raw_gate list \<Rightarrow> string option \<Rightarrow>
     (predecessor_input \<times> nominal) res" where
  "resolve_predecessor_output output_name descriptor target input_name node_outputs gs start_input =
     (if \<exists>gate\<in>set gs. length gate \<noteq> 1
      then Inl (GraphValidationError (''predecessor-bound node '' @ py_repr target @ '' cannot be activated by a Join''))
      else let source_ids = sorted_set (map (\<lambda>gate. fst (hd gate)) gs) in
        if source_ids = []
        then Inl (GraphValidationError (''predecessor input '' @ py_repr input_name @ '' on node '' @ py_repr target @
          '' has no routed predecessor type source''))
        else bindE (mapE (\<lambda>s. bindE (fm_get node_outputs s) (\<lambda>outputs.
            declaration_of outputs output_name (''predecessor node '' @ py_repr s))) source_ids) (\<lambda>descriptors.
          let t = hd descriptors in
          if \<exists>t'\<in>set (tl descriptors). nd_value_type t' \<noteq> nd_value_type t
          then Inl (GraphValidationError (''predecessor input '' @ py_repr input_name @ '' on node '' @ py_repr target @
            '' has conflicting exact output types''))
          else if descriptor \<noteq> None \<and> nd_value_type (the descriptor) \<noteq> nd_value_type t
          then Inl (GraphValidationError (''typed predecessor input '' @ py_repr input_name @ '' on node '' @ py_repr target @
            '' does not match its declared exact type''))
          else Inr (\<lparr>cp_target = target, cp_input_name = input_name, cp_sources = map (\<lambda>s. (s, output_name)) source_ids,
            cp_start_input = start_input\<rparr>, t)))"

section \<open>Route requirements\<close>

type_synonym route_requirements = "(string \<times> string set) list"

datatype route_proof = RouteRequirementProof (rp_requirements: route_requirements) (rp_exact: bool)

fun merge_requirement :: "route_requirements \<Rightarrow> route_requirements \<Rightarrow> route_requirements option" where
  "merge_requirement merged [] = Some merged"
| "merge_requirement merged ((source, routes) # rs) =
     (let compatible = (case map_of merged source of None \<Rightarrow> routes | Some existing \<Rightarrow> existing \<inter> routes)
      in if compatible = {} then None else merge_requirement (AList.update source compatible merged) rs)"

definition merge_route_requirements :: "route_requirements list \<Rightarrow> route_requirements option" where
  "merge_route_requirements requirements = map_option (sort_key fst) (merge_requirement [] (concat requirements))"

definition merge_route_requirement_proofs :: "route_proof list \<Rightarrow> route_proof option" where
  "merge_route_requirement_proofs proofs =
     map_option (\<lambda>merged. RouteRequirementProof merged (list_all rp_exact proofs))
       (merge_route_requirements (map rp_requirements proofs))"

definition source_route_requirements ::
  "(string \<rightharpoonup> route_proof) \<Rightarrow> conditionals \<Rightarrow> string \<times> string option \<Rightarrow> route_proof" where
  "source_route_requirements requirements conditional x =
     (case x of (source, chosen) \<Rightarrow>
       let pr = (case requirements source of None \<Rightarrow> RouteRequirementProof [] False | Some p \<Rightarrow> p);
           declared_routes = set (map fst (conditional source)) in
       if chosen = None \<and> declared_routes = {} then pr
       else let selected = (case chosen of None \<Rightarrow> declared_routes | Some r \<Rightarrow> {r});
                updated = (case map_of (rp_requirements pr) source of None \<Rightarrow> selected | Some existing \<Rightarrow> existing \<inter> selected)
            in RouteRequirementProof (sort_key fst (AList.update source updated (rp_requirements pr))) (rp_exact pr))"

definition gate_route_requirements :: "(string \<rightharpoonup> route_proof) \<Rightarrow> conditionals \<Rightarrow> raw_gate \<Rightarrow> route_proof option" where
  "gate_route_requirements requirements conditional gate =
     merge_route_requirement_proofs (map (source_route_requirements requirements conditional) gate)"

definition alternative_route_requirements :: "conditionals \<Rightarrow> route_proof option list \<Rightarrow> route_proof option" where
  "alternative_route_requirements conditional alternatives =
     (let proofs = map the (filter (\<lambda>a. a \<noteq> None) alternatives); maps = map rp_requirements proofs in
      if proofs = [] then None
      else let common = {s \<in> set (map fst (hd maps)). list_all (\<lambda>m. s \<in> set (map fst m)) (tl maps)};
               routes_in = (\<lambda>s m. the (map_of m s));
               combined = map (\<lambda>s. (s, \<Union>(set (map (routes_in s) maps)))) (sorted_list_of_set common);
               dropped_exhaustive = list_all (list_all (\<lambda>(s, routes). s \<notin> common \<longrightarrow> routes = set (map fst (conditional s)))) maps;
               varying = card {s \<in> common. \<exists>m\<in>set (tl maps). routes_in s m \<noteq> routes_in s (hd maps)} in
           Some (RouteRequirementProof combined (list_all rp_exact proofs \<and> dropped_exhaustive \<and> varying \<le> 1)))"

definition path_requirement ::
  "string list \<Rightarrow> gates \<Rightarrow> succs \<Rightarrow> conditionals \<Rightarrow> (string \<rightharpoonup> route_proof) \<Rightarrow> string \<Rightarrow> (string \<rightharpoonup> route_proof) res" where
  "path_requirement entries activation_gates data_dependencies conditional requirements n =
     (let entry_requirements = RouteRequirementProof
            (map (\<lambda>e. (e, set (map fst (conditional e)))) (filter (\<lambda>e. conditional e \<noteq> []) entries)) True;
          alternatives = (if n \<in> set entries then [Some entry_requirements] else []) @
            map (gate_route_requirements requirements conditional) (activation_gates n);
          data_requirement = gate_route_requirements requirements conditional
            (map (\<lambda>s. (s, None)) (sorted_list_of_set (data_dependencies n)));
          merged = (if data_dependencies n \<noteq> {} \<and> alternatives \<noteq> []
            then map (\<lambda>a. case (a, data_requirement) of
                (Some p, Some q) \<Rightarrow> merge_route_requirement_proofs [p, q] | _ \<Rightarrow> None) alternatives
            else alternatives) in
      case alternative_route_requirements conditional merged of
        None \<Rightarrow> Inl (GraphValidationError (''node '' @ py_repr n @ '' has no jointly satisfiable activation path''))
      | Some p \<Rightarrow> Inr (requirements(n \<mapsto> p)))"

definition validate_joint_activation_paths ::
  "string list \<Rightarrow> string list \<Rightarrow> gates \<Rightarrow> succs \<Rightarrow> conditionals \<Rightarrow> succs \<Rightarrow> (string \<rightharpoonup> route_proof) run" where
  "validate_joint_activation_paths nodes entries activation_gates data_dependencies conditional succ =
     (let dependency_successors = (\<lambda>n. succ n \<union> {t \<in> set nodes. n \<in> data_dependencies t}) in
      bindR (liftO (cycle_reachable_nodes nodes dependency_successors)) (\<lambda>variable.
      let fixed = set nodes - variable;
          dependencies = (\<lambda>n. {s \<in> set (map fst (concat (activation_gates n))). s \<in> fixed} \<union> (data_dependencies n \<inter> fixed)) in
      bindR (liftO (dependency_order dependencies fixed)) (\<lambda>ordered.
      Some (foldE (path_requirement entries activation_gates data_dependencies conditional) (\<lambda>_. None) ordered))))"

section \<open>Join occurrences\<close>

definition activation_cohort_signature :: "string set \<Rightarrow> gates \<Rightarrow> string \<Rightarrow> bool \<times> raw_gate list" where
  "activation_cohort_signature entries activation_gates n =
     (n \<in> entries, sort_key raw_gate_key (activation_gates n))"

definition join_label :: "string list \<Rightarrow> string \<Rightarrow> string" where
  "join_label sources target = ''join '' @ py_repr_tuple sources @ '' -> '' @ py_repr target"

definition join_offsets ::
  "string set \<Rightarrow> string list \<Rightarrow> gates \<Rightarrow> route_proof list \<Rightarrow> (string \<rightharpoonup> int) \<Rightarrow> string list \<Rightarrow> string \<Rightarrow> (string \<times> int) list res" where
  "join_offsets repeatable entries activation_gates proofs levels sources target =
     (let repeated = filter (\<lambda>s. s \<in> repeatable) sources in
      if repeated \<noteq> []
      then if length repeated \<noteq> length sources \<or>
              length (remdups (map (activation_cohort_signature (set entries) activation_gates) sources)) \<noteq> 1
           then Inl (GraphValidationError (join_label sources target @
             '' has no provable occurrence identity; multiple activation gates cannot supply its sources''))
           else Inr (map (\<lambda>s. (s, 1)) sources)
      else if \<not> list_all rp_exact proofs \<or> length (remdups proofs) \<noteq> 1
      then Inl (GraphValidationError (join_label sources target @ '' can receive only a partial source set on a route''))
      else if \<exists>s\<in>set sources. levels s = None
      then Inl (GraphValidationError (join_label sources target @
        '' has no unique occurrence coordinate; multiple activation gates create repeatable source paths''))
      else let target_level = Max (set (map (\<lambda>s. the (levels s)) sources)) + 1
           in Inr (map (\<lambda>s. (s, target_level - the (levels s))) sources))"

definition compile_join ::
  "string set \<Rightarrow> string list \<Rightarrow> gates \<Rightarrow> (string \<rightharpoonup> route_proof) \<Rightarrow> conditionals \<Rightarrow> (string \<rightharpoonup> int) \<Rightarrow> string list \<times> string \<Rightarrow>
     compiled_join res" where
  "compile_join repeatable entries activation_gates requirements conditional levels e =
     (case e of (sources, target) \<Rightarrow>
       if gate_route_requirements requirements conditional (map (\<lambda>s. (s, None)) sources) = None
       then Inl (GraphValidationError (join_label sources target @ '' has mutually exclusive activation sources''))
       else bindE (join_offsets repeatable entries activation_gates
           (map (\<lambda>s. source_route_requirements requirements conditional (s, None)) sources) levels sources target) (\<lambda>offsets.
         bindE (mk_GraphJoinIdentity sources target) (\<lambda>identity. mk_CompiledJoin identity offsets)))"

definition compile_join_occurrence_plans ::
  "string list \<Rightarrow> (string list \<times> string) list \<Rightarrow> string list \<Rightarrow> gates \<Rightarrow> succs \<Rightarrow> (string \<rightharpoonup> route_proof) \<Rightarrow> conditionals \<Rightarrow>
     (string \<rightharpoonup> int) \<Rightarrow> compiled_join list run" where
  "compile_join_occurrence_plans nodes joins entries activation_gates succ requirements conditional levels =
     bindR (liftO (repeatable_nodes nodes entries activation_gates succ)) (\<lambda>repeatable.
     Some (mapE (compile_join repeatable entries activation_gates requirements conditional levels) joins))"

section \<open>Publication selections\<close>

definition input_publication_selection ::
  "string \<Rightarrow> string \<Rightarrow> (string \<rightharpoonup> int) \<Rightarrow> gates \<Rightarrow> (string \<Rightarrow> compiled_join list) \<Rightarrow> publication_selection res" where
  "input_publication_selection source target levels activation_gates joins_by_target =
     (case levels source of
        Some l \<Rightarrow> Inr (PublicationSelection ABSOLUTE l)
      | None \<Rightarrow>
          if all_single_source_gates source (activation_gates target) then Inr (PublicationSelection RELATIVE 1)
          else (case joins_by_target target of
              [j] \<Rightarrow>
                if length (activation_gates target) = 1 \<and> source \<in> set (join_sources (cj_identity j))
                then bindE (target_offset j source) (\<lambda>k. Inr (PublicationSelection RELATIVE k))
                else Inl (GraphValidationError (''node output '' @ py_repr source @
                  '' has no unique activation coordinate for consumer '' @ py_repr target))
            | _ \<Rightarrow> Inl (GraphValidationError (''node output '' @ py_repr source @
                  '' has no unique activation coordinate for consumer '' @ py_repr target))))"

definition output_publication_selection :: "string \<Rightarrow> (string \<rightharpoonup> int) \<Rightarrow> string set list \<Rightarrow> publication_selection res" where
  "output_publication_selection source levels gs =
     (case levels source of
        Some l \<Rightarrow> Inr (PublicationSelection ABSOLUTE l)
      | None \<Rightarrow>
          if gs \<noteq> [] \<and> list_all (\<lambda>gate. gate = {source}) gs then Inr (PublicationSelection RELATIVE 0)
          else Inl (GraphValidationError (''graph output source '' @ py_repr source @
            '' has no unique completion activation coordinate'')))"

end
