(* ===== verification/Graph_Assembly.thy ===== *)
theory Graph_Assembly
  imports Graph_Compiler
begin

text \<open>
  The second half of \<open>mote_kernel/execution/graph/compiler.py\<close>: lowering of the declared edges,
  resolution of entries and input bindings, and the compilation of a definition and its family.
  \<open>_compile_definition\<close> is modelled by its three stages: the resolution of the declarations, the
  analysis of the control topology, and the assembly of the plan.
\<close>

type_synonym compiled_definition = "compiled_graph \<times> declarations"

section \<open>Control topology\<close>

record lowered_edges =
  le_direct :: "string \<Rightarrow> string set"
  le_conditional :: conditionals
  le_gates :: gates
  le_gates_to_end :: "string set list"
  le_joins :: "(string list \<times> string) list"

definition no_edges :: lowered_edges where
  "no_edges = \<lparr>le_direct = (\<lambda>_. {}), le_conditional = (\<lambda>_. []), le_gates = (\<lambda>_. []), le_gates_to_end = [], le_joins = []\<rparr>"

definition add_gate :: "string \<Rightarrow> raw_gate \<Rightarrow> lowered_edges \<Rightarrow> lowered_edges" where
  "add_gate target gate le =
     (if target \<noteq> END_NODE then le\<lparr>le_gates := (le_gates le)(target := le_gates le target @ [gate])\<rparr>
      else le\<lparr>le_gates_to_end := le_gates_to_end le @ [set (map fst gate)]\<rparr>)"

definition lower_edge :: "lowered_edges \<Rightarrow> edge \<Rightarrow> lowered_edges" where
  "lower_edge le e =
     (case e of
        JoinEdge sources target \<Rightarrow>
          add_gate target (map (\<lambda>s. (s, None)) (sort sources)) (le\<lparr>le_joins := le_joins le @ [(sort sources, target)]\<rparr>)
      | DirectEdge source target \<Rightarrow>
          add_gate target [(source, None)]
            (if target \<noteq> END_NODE then le\<lparr>le_direct := (le_direct le)(source := insert target (le_direct le source))\<rparr> else le)
      | ConditionalEdge source route target \<Rightarrow>
          add_gate target [(source, Some route)]
            (le\<lparr>le_conditional := (le_conditional le)(source := AList.update route target (le_conditional le source))\<rparr>))"

definition terminal_domain :: "(string \<times> compiled_definition) list \<Rightarrow> node_definition \<Rightarrow> string option set res" where
  "terminal_domain nested node =
     (case node of
        CallableNodeDefinition _ _ _ _ routes \<Rightarrow> Inr (if routes = {} then {None} else Some ` routes)
      | NestedGraphNodeDefinition n _ _ \<Rightarrow> bindE (fm_get nested n) (\<lambda>(c, _). Inr (cg_completion_routes c)))"

definition repr_routes :: "string option set \<Rightarrow> string" where
  "repr_routes rs = py_repr_tuple (sorted_list_of_set (py_repr_route ` rs))"

definition node_route_options ::
  "lowered_edges \<Rightarrow> (string \<times> compiled_definition) list \<Rightarrow> node_definition \<Rightarrow> (string \<times> string option list) res" where
  "node_route_options le nested node =
     (let n = nf_node_id node; conditional = le_conditional le n;
          has_control_successor = (le_direct le n \<noteq> {} \<or> n \<in> set (concat (map fst (le_joins le)))) in
      bindE (terminal_domain nested node) (\<lambda>domain.
      let options = (if conditional \<noteq> [] then map Some (sort (map fst conditional))
            else if has_control_successor then [None] else sorted_routes domain) in
      case node of
        CallableNodeDefinition _ _ _ _ routes \<Rightarrow>
          if routes \<noteq> {} \<and> (conditional \<noteq> [] \<or> has_control_successor)
          then Inl (GraphValidationError (''node '' @ py_repr n @ '' exports terminal routes but is not a terminal callable''))
          else Inr (n, options)
      | NestedGraphNodeDefinition _ _ _ \<Rightarrow>
          let missing = domain - set options; extra = set options - domain in
          if conditional \<noteq> [] \<and> missing \<noteq> {}
          then Inl (GraphValidationError (''nested node '' @ py_repr n @
            '' may complete with routes not declared by its conditional edges: '' @ repr_routes missing))
          else if conditional \<noteq> [] \<and> extra \<noteq> {}
          then Inl (GraphValidationError (''nested node '' @ py_repr n @
            '' declares conditional routes the child cannot expose: '' @ repr_routes extra))
          else if has_control_successor \<and> missing \<noteq> {}
          then Inl (GraphValidationError (''nested node '' @ py_repr n @
            '' may export routes before its control successors complete: '' @ repr_routes missing))
          else Inr (n, options)))"

definition collect_control_topology ::
  "node_definition list \<Rightarrow> (string \<times> compiled_definition) list \<Rightarrow> edge list \<Rightarrow>
     (lowered_edges \<times> (string \<times> string option list) list) res" where
  "collect_control_topology nodes nested edges =
     (let le = foldl lower_edge no_edges edges in
      bindE (mapE (node_route_options le nested) nodes) (\<lambda>route_options. Inr (le, route_options)))"

section \<open>Input bindings and entries\<close>

record resolved_binding =
  rb_local_name :: string
  rb_source :: input_source
  rb_descriptor :: nominal

record node_inputs =
  ni_resolved :: "resolved_binding list"
  ni_predecessors :: "(string \<times> string \<times> nominal option) list"
  ni_data :: "string set"

definition resolve_node_input ::
  "declarations \<Rightarrow> (string \<times> declarations) list \<Rightarrow> string \<Rightarrow> node_inputs \<Rightarrow> string \<times> input_ref \<Rightarrow> node_inputs res" where
  "resolve_node_input graph_inputs node_outputs n acc x =
     (case x of (name, source) \<Rightarrow>
       (case source of
          PredecessorOutputRef output_name descriptor \<Rightarrow>
            Inr (acc\<lparr>ni_predecessors := ni_predecessors acc @ [(name, output_name, descriptor)]\<rparr>)
        | ValueSourceRef ref \<Rightarrow>
            bindE (resolve_source ref graph_inputs node_outputs (Some n)) (\<lambda>(port, t).
            Inr (acc\<lparr>ni_resolved := ni_resolved acc @ [\<lparr>rb_local_name = name, rb_source = ResolvedSource port, rb_descriptor = t\<rparr>],
              ni_data := (case port of NodeOutputPort m _ \<Rightarrow> insert m (ni_data acc) | _ \<Rightarrow> ni_data acc)\<rparr>))))"

definition resolve_input_bindings ::
  "node_definition list \<Rightarrow> declarations \<Rightarrow> (string \<times> declarations) list \<Rightarrow> (string \<times> node_inputs) list res" where
  "resolve_input_bindings sorted_nodes graph_inputs node_outputs =
     bindE (mapE (\<lambda>node.
         bindE (foldE (resolve_node_input graph_inputs node_outputs (nf_node_id node))
           \<lparr>ni_resolved = [], ni_predecessors = [], ni_data = {}\<rparr> (nf_inputs node)) (\<lambda>acc. Inr (nf_node_id node, acc)))
       sorted_nodes) (\<lambda>resolved.
     bindE (data_cycle (map fst resolved) (\<lambda>n. case map_of resolved n of None \<Rightarrow> {} | Some r \<Rightarrow> ni_data r)) (\<lambda>cyclic.
     if cyclic then Inl (GraphValidationError ''ordinary node value bindings contain a data cycle'') else Inr resolved))"

definition resolve_entries :: "string list \<Rightarrow> string list \<Rightarrow> succs \<Rightarrow> gates \<Rightarrow> string list res" where
  "resolve_entries nodes declared data activation_gates =
     (let explicit = sort declared in
      if \<exists>n\<in>set explicit. data n \<noteq> {}
      then Inl (GraphValidationError ''an explicit START target cannot require a node output'')
      else bindE (forE (\<lambda>n. raise_if (data n \<noteq> {} \<and> activation_gates n = [])
          (GraphValidationError (''node '' @ py_repr n @ '' consumes node outputs from '' @ py_repr_tuple (sorted_list_of_set (data n)) @
            '' but has no incoming control edge''))) nodes) (\<lambda>_.
        let automatic = filter (\<lambda>n. n \<notin> set explicit \<and> data n = {} \<and> activation_gates n = []) nodes;
            entries = sort (explicit @ automatic) in
        if entries = [] then Inl (MissingEntryError ''graph definition requires at least one automatic or explicit entry'')
        else Inr entries))"

definition complete_predecessor ::
  "(string \<times> declarations) list \<Rightarrow> string list \<Rightarrow> gates \<Rightarrow> string \<Rightarrow> resolved_binding list \<times> declarations \<Rightarrow>
     string \<times> string \<times> nominal option \<Rightarrow> (resolved_binding list \<times> declarations) res" where
  "complete_predecessor node_outputs entries activation_gates n st x =
     (case (st, x) of ((resolved, graph_inputs), (input_name, output_name, descriptor)) \<Rightarrow>
       let start_input = (if n \<in> set entries then Some input_name else None) in
       bindE (resolve_predecessor_output output_name descriptor n input_name node_outputs (activation_gates n) start_input) (\<lambda>(source, t).
       bindE (if start_input = None then Inr (t, graph_inputs)
              else (case map_of graph_inputs input_name of
                  None \<Rightarrow> Inr (t, AList.update input_name t graph_inputs)
                | Some t' \<Rightarrow>
                    if nd_value_type t' \<noteq> nd_value_type t
                    then Inl (GraphValidationError (''graph input '' @ py_repr input_name @ '' conflicts with its START causal input exact type''))
                    else Inr (t', graph_inputs))) (\<lambda>(t', graph_inputs').
       Inr (resolved @ [\<lparr>rb_local_name = input_name, rb_source = CompiledPredecessorInput source, rb_descriptor = t'\<rparr>], graph_inputs'))))"

definition matches_child_boundary :: "resolved_binding list \<Rightarrow> (string \<times> string) list \<Rightarrow> bool" where
  "matches_child_boundary bindings expected \<longleftrightarrow>
     map (\<lambda>b. (rb_local_name b, nd_value_type (rb_descriptor b))) bindings = expected"

definition complete_node_inputs ::
  "(string \<times> compiled_definition) list \<Rightarrow> (string \<times> declarations) list \<Rightarrow> string list \<Rightarrow> gates \<Rightarrow> (string \<times> node_inputs) list \<Rightarrow>
     (string \<times> resolved_binding list) list \<times> declarations \<Rightarrow> node_definition \<Rightarrow>
     ((string \<times> resolved_binding list) list \<times> declarations) res" where
  "complete_node_inputs nested node_outputs entries activation_gates resolved st node =
     (case st of (completed, graph_inputs) \<Rightarrow>
       let n = nf_node_id node in
       bindE (fm_get resolved n) (\<lambda>inputs.
       bindE (foldE (complete_predecessor node_outputs entries activation_gates n) (ni_resolved inputs, graph_inputs) (ni_predecessors inputs))
         (\<lambda>(bindings, graph_inputs').
       let sorted_bindings = sort_key rb_local_name bindings in
       bindE (case node of
           CallableNodeDefinition _ _ _ _ _ \<Rightarrow> Inr ()
         | NestedGraphNodeDefinition _ _ _ \<Rightarrow>
             bindE (fm_get nested n) (\<lambda>(c, _).
             raise_unless (matches_child_boundary sorted_bindings (fd_declarations (cg_graph_input_descriptor c)))
               (GraphValidationError (''nested node '' @ py_repr n @ '' inputs do not exactly match child boundary'')))) (\<lambda>_.
       Inr (completed @ [(n, sorted_bindings)], graph_inputs')))))"

definition complete_input_bindings ::
  "node_definition list \<Rightarrow> (string \<times> compiled_definition) list \<Rightarrow> declarations \<Rightarrow> (string \<times> node_inputs) list \<Rightarrow>
     (string \<times> declarations) list \<Rightarrow> string list \<Rightarrow> gates \<Rightarrow> ((string \<times> resolved_binding list) list \<times> declarations) res" where
  "complete_input_bindings sorted_nodes nested graph_inputs resolved node_outputs entries activation_gates =
     bindE (foldE (complete_node_inputs nested node_outputs entries activation_gates resolved) ([], graph_inputs) sorted_nodes)
       (\<lambda>(completed, graph_inputs'). Inr (completed, sort_key fst graph_inputs'))"

section \<open>Resolution of a definition\<close>

definition position_of :: "string list \<Rightarrow> string \<Rightarrow> nat" where
  "position_of order r = length (takeWhile (\<lambda>x. x \<noteq> r) order)"

definition order_resources :: "string list \<Rightarrow> node_definition \<Rightarrow> node_definition" where
  "order_resources order node =
     (case node of
        CallableNodeDefinition n inputs outputs resources routes \<Rightarrow>
          CallableNodeDefinition n inputs outputs (sort_key (position_of order) resources) routes
      | NestedGraphNodeDefinition _ _ _ \<Rightarrow> node)"

definition outputs_of_node :: "(string \<times> compiled_definition) list \<Rightarrow> node_definition \<Rightarrow> (string \<times> declarations) res" where
  "outputs_of_node nested node =
     (case node of
        CallableNodeDefinition n _ outputs _ _ \<Rightarrow> Inr (n, outputs)
      | NestedGraphNodeDefinition n _ _ \<Rightarrow> bindE (fm_get nested n) (\<lambda>(_, outputs). Inr (n, outputs)))"

record resolved_definition =
  rd_nodes :: "node_definition list"
  rd_outputs :: "(string \<times> declarations) list"
  rd_data :: succs
  rd_edges :: lowered_edges
  rd_route_options :: "(string \<times> string option list) list"
  rd_entries :: "string list"
  rd_inputs :: "(string \<times> resolved_binding list) list"
  rd_graph_inputs :: declarations

definition rd_node_ids :: "resolved_definition \<Rightarrow> string list" where
  "rd_node_ids r = map nf_node_id (rd_nodes r)"

definition resolve_definition :: "graph_definition \<Rightarrow> (string \<times> compiled_definition) list \<Rightarrow> resolved_definition res" where
  "resolve_definition d nested =
     (let nodes = map (order_resources (gd_resources d)) (gd_nodes d); sorted_nodes = sort_key nf_node_id nodes;
          node_ids = map nf_node_id sorted_nodes in
      bindE (collect_graph_inputs d) (\<lambda>graph_inputs.
      bindE (mapE (outputs_of_node nested) sorted_nodes) (\<lambda>node_outputs.
      bindE (resolve_input_bindings sorted_nodes graph_inputs node_outputs) (\<lambda>resolved.
      let data = (\<lambda>n. case map_of resolved n of None \<Rightarrow> {} | Some r \<Rightarrow> ni_data r) in
      bindE (collect_control_topology nodes nested (gd_edges d)) (\<lambda>(edges, route_options).
      bindE (resolve_entries node_ids (gd_entries d) data (le_gates edges)) (\<lambda>entries.
      bindE (complete_input_bindings sorted_nodes nested graph_inputs resolved node_outputs entries (le_gates edges)) (\<lambda>(inputs, graph_inputs').
      Inr \<lparr>rd_nodes = sorted_nodes, rd_outputs = node_outputs, rd_data = data, rd_edges = edges, rd_route_options = route_options,
        rd_entries = entries, rd_inputs = inputs, rd_graph_inputs = graph_inputs'\<rparr>)))))))"

section \<open>Analysis of the control topology\<close>

record control_analysis =
  ca_terminal_gates :: "string set list"
  ca_terminal_guarantees :: "string set"
  ca_levels :: "string \<rightharpoonup> int"
  ca_joins :: "compiled_join list"
  ca_completion_routes :: "string option set"

definition control_successors :: "lowered_edges \<Rightarrow> succs" where
  "control_successors le n =
     static_successors (le_direct le) (le_conditional le) n \<union>
     {t \<in> set (map snd (le_joins le)). t \<noteq> END_NODE \<and> (\<exists>(sources, t')\<in>set (le_joins le). t' = t \<and> n \<in> set sources)}"

definition comma_names :: "string list \<Rightarrow> string" where
  "comma_names ns = (case ns of [] \<Rightarrow> [] | m # ms \<Rightarrow> m @ concat (map (\<lambda>n. '', '' @ n) ms))"

definition check_data_order :: "string list \<Rightarrow> succs \<Rightarrow> gates \<Rightarrow> succs \<Rightarrow> unit run" where
  "check_data_order nodes data activation_gates succ =
     forR (\<lambda>(target, source).
       bindR (liftO (can_reach nodes succ target source)) (\<lambda>back.
       Some (raise_if (target = source \<or> (back \<and> \<not> all_activation_gates_include source (activation_gates target)))
         (GraphValidationError (''node output '' @ py_repr source @ '' is not guaranteed before controlled node '' @ py_repr target)))))
     (concat (map (\<lambda>t. map (Pair t) (sorted_list_of_set (data t))) nodes))"

definition check_guaranteed_data :: "string list \<Rightarrow> succs \<Rightarrow> succs \<Rightarrow> unit res" where
  "check_guaranteed_data nodes data guarantees =
     forE (\<lambda>t. raise_unless (data t \<subseteq> guarantees t)
       (GraphValidationError (''controlled node '' @ py_repr t @ '' can activate before required producers '' @
         py_repr_tuple (sorted_list_of_set (data t - guarantees t))))) nodes"

definition joins_by_source :: "compiled_join list \<Rightarrow> string \<Rightarrow> compiled_join list" where
  "joins_by_source joins n = filter (\<lambda>j. n \<in> set (join_sources (cj_identity j))) joins"

definition joins_by_target :: "compiled_join list \<Rightarrow> string \<Rightarrow> compiled_join list" where
  "joins_by_target joins n = filter (\<lambda>j. join_target (cj_identity j) \<noteq> END_NODE \<and> join_target (cj_identity j) = n) joins"

definition topology_of :: "resolved_definition \<Rightarrow> compiled_join list \<Rightarrow> control_topology" where
  "topology_of r joins =
     \<lparr>ct_entries = rd_entries r, ct_route_options = rd_route_options r, ct_direct = le_direct (rd_edges r),
      ct_conditional = le_conditional (rd_edges r), ct_joins = joins_by_source joins\<rparr>"

definition analyse_control :: "resolved_definition \<Rightarrow> control_analysis run" where
  "analyse_control r =
     (let nodes = rd_node_ids r; le = rd_edges r; entries = rd_entries r; data = rd_data r;
          activation_gates = le_gates le; conditional = le_conditional le; succ = control_successors le in
      bindR (liftO (reachable entries (static_successors (le_direct le) conditional) (le_joins le))) (\<lambda>reached.
      if set nodes - reached \<noteq> {}
      then Some (Inl (UnreachableNodeError (''unreachable nodes: '' @ comma_names (sorted_list_of_set (set nodes - reached)))))
      else let gs = terminal_gates nodes (le_gates_to_end le) succ in
        bindR (check_data_order nodes data activation_gates succ) (\<lambda>_.
        bindR (validate_joint_activation_paths nodes entries activation_gates data conditional succ) (\<lambda>requirements.
        bindR (liftO (guaranteed_sets nodes entries activation_gates)) (\<lambda>guarantees.
        bindR (Some (check_guaranteed_data nodes data guarantees)) (\<lambda>_.
        bindR (validate_cycle_exits nodes succ gs) (\<lambda>_.
        bindR (Some (terminal_guarantees guarantees gs)) (\<lambda>terminal.
        bindR (liftO (absolute_activation_levels nodes entries succ)) (\<lambda>levels.
        bindR (compile_join_occurrence_plans nodes (le_joins le) entries activation_gates succ requirements conditional levels) (\<lambda>joins.
        bindR (prove_completion_routes (topology_of r joins)) (\<lambda>routes.
        Some (Inr \<lparr>ca_terminal_gates = gs, ca_terminal_guarantees = terminal, ca_levels = levels, ca_joins = joins,
          ca_completion_routes = routes\<rparr>))))))))))))"

section \<open>Assembly of the plan\<close>

definition compile_output ::
  "resolved_definition \<Rightarrow> control_analysis \<Rightarrow> string \<times> value_ref \<Rightarrow> (output_binding \<times> nominal) res" where
  "compile_output r a x =
     (case x of (boundary_name, ref) \<Rightarrow>
       bindE (resolve_source ref (rd_graph_inputs r) (rd_outputs r) None) (\<lambda>(source, t).
       bindE (case source of
           GraphInputPort _ \<Rightarrow> Inr None
         | NodeOutputPort m _ \<Rightarrow>
             if m \<notin> ca_terminal_guarantees a
             then Inl (GraphValidationError (''graph output '' @ py_repr boundary_name @ '' is not guaranteed before every successful completion''))
             else bindE (output_publication_selection m (ca_levels a) (ca_terminal_gates a)) (\<lambda>p. Inr (Some p))) (\<lambda>publication.
       Inr (\<lparr>ob_boundary_name = boundary_name, ob_source = source, ob_descriptor = nd_value_type t, ob_publication = publication\<rparr>, t))))"

definition publish_binding :: "resolved_definition \<Rightarrow> control_analysis \<Rightarrow> string \<Rightarrow> resolved_binding \<Rightarrow> input_binding res" where
  "publish_binding r a n b =
     bindE (case rb_source b of
         ResolvedSource (NodeOutputPort m _) \<Rightarrow>
           bindE (input_publication_selection m n (ca_levels a) (le_gates (rd_edges r)) (joins_by_target (ca_joins a))) (\<lambda>p. Inr (Some p))
       | _ \<Rightarrow> Inr None) (\<lambda>publication.
     Inr \<lparr>ib_node_id = n, ib_local_name = rb_local_name b, ib_source = rb_source b, ib_descriptor = nd_value_type (rb_descriptor b),
       ib_publication = publication\<rparr>)"

definition compile_node_frames ::
  "graph_definition \<Rightarrow> resolved_definition \<Rightarrow> control_analysis \<Rightarrow> nat \<times> string \<Rightarrow>
     ((string \<times> frame_descriptor) \<times> (string \<times> materialization_plan)) res" where
  "compile_node_frames d r a x =
     (case x of (ordinal, n) \<Rightarrow>
       bindE (fm_get (rd_outputs r) n) (\<lambda>outputs.
       bindE (frame_descriptor_for d NODE_OUTPUT (int ordinal) outputs) (\<lambda>publication.
       bindE (fm_get (rd_inputs r) n) (\<lambda>bindings.
       bindE (mapE (publish_binding r a n) bindings) (\<lambda>published.
       bindE (frame_descriptor_for d NODE_INPUT (int ordinal) (map (\<lambda>b. (rb_local_name b, rb_descriptor b)) bindings)) (\<lambda>descriptor.
       Inr ((n, publication), (n, \<lparr>mp_bindings = published, mp_descriptor = descriptor\<rparr>))))))))"

definition compiled_node :: "node_definition \<Rightarrow> graph_node" where
  "compiled_node node =
     (case node of CallableNodeDefinition _ _ _ resources routes \<Rightarrow> CallableNode resources routes | NestedGraphNodeDefinition _ _ _ \<Rightarrow> NestedNode)"

definition transition_plan_of ::
  "graph_definition \<Rightarrow> resolved_definition \<Rightarrow> control_analysis \<Rightarrow> (string \<times> materialization_plan) list \<Rightarrow> (string \<times> frame_descriptor) list \<Rightarrow>
     output_binding list \<Rightarrow> transition_plan" where
  "transition_plan_of d r a materializations publications outputs =
     (let nodes = rd_node_ids r; le = rd_edges r in
      \<lparr>tp_entries = rd_entries r,
       tp_direct_targets = map (\<lambda>n. (n, sorted_list_of_set (le_direct le n))) nodes,
       tp_conditional_targets = map (\<lambda>n. (n, sort_key fst (le_conditional le n))) nodes,
       tp_route_options = sort_key fst (rd_route_options r),
       tp_joins_by_source = map (\<lambda>n. (n, sort_key (\<lambda>j. (join_target (cj_identity j), join_sources (cj_identity j)))
         (joins_by_source (ca_joins a) n))) nodes,
       tp_materializations = materializations, tp_publications = publications, tp_graph_outputs = outputs,
       tp_resource_order = gd_resources d,
       tp_activation_gates = map (\<lambda>n. (n, sort_key activation_gate_sort_key
         (map (compiled_activation_gate (le_conditional le)) (le_gates le n)))) nodes\<rparr>)"

definition assemble_plan ::
  "graph_definition \<Rightarrow> (string \<times> compiled_definition) list \<Rightarrow> resolved_definition \<Rightarrow> control_analysis \<Rightarrow> compiled_definition res" where
  "assemble_plan d nested r a =
     bindE (mapE (compile_output r a) (gd_outputs d)) (\<lambda>outputs.
     bindE (mapE (compile_node_frames d r a) (enumerate 0 (rd_node_ids r))) (\<lambda>frames.
     let output_declarations = map (\<lambda>(b, t). (ob_boundary_name b, t)) outputs in
     bindE (frame_descriptor_for d GRAPH_INPUT 0 (rd_graph_inputs r)) (\<lambda>graph_input.
     bindE (frame_descriptor_for d GRAPH_OUTPUT 0 output_declarations) (\<lambda>graph_output.
     Inr (CompiledGraph (gd_definition_id d) (gd_version d) (map (\<lambda>n. (nf_node_id n, compiled_node n)) (rd_nodes r))
         (sort_key fst (map (\<lambda>(n, c). (n, fst c)) nested)) graph_input graph_output
         (transition_plan_of d r a (map snd frames) (map fst frames) (map fst outputs))
         (sort (gd_resources d)) (gd_resume_input d) (ca_completion_routes a), output_declarations)))))"

definition compile_definition :: "graph_definition \<Rightarrow> (string \<times> compiled_definition) list \<Rightarrow> compiled_definition run" where
  "compile_definition d nested =
     bindR (Some (resolve_definition d nested)) (\<lambda>r.
     bindR (analyse_control r) (\<lambda>a.
     Some (assemble_plan d nested r a)))"

section \<open>The compiler of a family\<close>

type_synonym compiler_cache = "nat \<rightharpoonup> compiled_definition"

fun compile_validated :: "graph_definition \<Rightarrow> compiler_cache \<Rightarrow> (compiled_definition \<times> compiler_cache) run"
  and compile_nested :: "node_definition list \<Rightarrow> compiler_cache \<Rightarrow> ((string \<times> compiled_definition) list \<times> compiler_cache) run" where
  "compile_validated d cache =
     (case cache (gd_object d) of
        Some c \<Rightarrow> Some (Inr (c, cache))
      | None \<Rightarrow>
          bindR (compile_nested (gd_nodes d) cache) (\<lambda>(nested, cache').
          bindR (compile_definition d nested) (\<lambda>c.
          Some (Inr (c, cache'(gd_object d \<mapsto> c))))))"
| "compile_nested [] cache = Some (Inr ([], cache))"
| "compile_nested (n # ns) cache =
     (case n of
        CallableNodeDefinition _ _ _ _ _ \<Rightarrow> compile_nested ns cache
      | NestedGraphNodeDefinition i g _ \<Rightarrow>
          bindR (compile_validated g cache) (\<lambda>(c, cache').
          bindR (compile_nested ns cache') (\<lambda>(nested, cache'').
          Some (Inr ((i, c) # nested, cache'')))))"

definition compile_graph :: "graph_definition \<Rightarrow> compiler_cache \<Rightarrow> (compiled_definition \<times> compiler_cache) run" where
  "compile_graph root_definition retained =
     bindR (Some (validate_graph root_definition)) (\<lambda>_. compile_validated root_definition retained)"

definition plan_for :: "compiler_cache \<Rightarrow> graph_definition \<Rightarrow> compiled_definition res" where
  "plan_for cache d = (case cache (gd_object d) of Some c \<Rightarrow> Inr c | None \<Rightarrow> Inl (KeyError (gd_definition_id d)))"

end
