(* ===== verification/Search_Correct.thy ===== *)
theory Search_Correct
  imports Graph_Search
begin

text \<open>
  The analyses of the compiler end and compute what they are meant to: reachability and cycles of
  the successor relation, the nodes that can be activated, the levels of acyclic nodes, a
  dependency order, and sound guarantees about earlier activations.
\<close>

section \<open>Declared successor relations\<close>

definition step_rel :: "succs \<Rightarrow> (string \<times> string) set" where
  "step_rel succ = {(a, b). b \<in> succ a}"

definition closed_succs :: "string list \<Rightarrow> succs \<Rightarrow> bool" where
  "closed_succs nodes succ \<longleftrightarrow> (\<forall>n\<in>set nodes. succ n \<subseteq> set nodes)"

lemma closed_finite: "closed_succs nodes succ \<Longrightarrow> n \<in> set nodes \<Longrightarrow> finite (succ n)"
  unfolding closed_succs_def by (meson finite_set finite_subset)

lemma closed_card: "closed_succs nodes succ \<Longrightarrow> n \<in> set nodes \<Longrightarrow> card (succ n) \<le> card (set nodes)"
  unfolding closed_succs_def by (meson card_mono finite_set)

lemma closed_rtrancl: "(a, b) \<in> (step_rel succ)\<^sup>* \<Longrightarrow> closed_succs nodes succ \<Longrightarrow> a \<in> set nodes \<Longrightarrow> b \<in> set nodes"
  by (induction rule: rtrancl_induct) (auto simp: closed_succs_def step_rel_def)

lemma closed_invariant: "(a, b) \<in> (step_rel succ)\<^sup>* \<Longrightarrow> a \<in> V \<Longrightarrow> (\<And>x. x \<in> V \<Longrightarrow> succ x \<subseteq> V) \<Longrightarrow> b \<in> V"
  by (induction rule: rtrancl_induct) (auto simp: step_rel_def)

lemma while_option_total:
  fixes m :: "'a \<Rightarrow> nat"
  assumes "P s" and "\<And>x. P x \<Longrightarrow> b x \<Longrightarrow> P (c x) \<and> m (c x) < m x"
  shows "\<exists>t. while_option b c s = Some t \<and> P t \<and> \<not> b t"
proof -
  obtain t where t: "while_option b c s = Some t"
    using measure_while_option_Some [of P b c m s] assms by blast
  moreover have "P t" using while_option_rule [of P, OF _ t] assms by blast
  ultimately show ?thesis using while_option_stop [OF t] by blast
qed

section \<open>Reachability of one node\<close>

definition search_inv :: "string list \<Rightarrow> succs \<Rightarrow> string \<Rightarrow> string \<Rightarrow> string list \<times> string set \<times> bool \<Rightarrow> bool" where
  "search_inv nodes succ source target st \<longleftrightarrow>
     (case st of (pending, visited, found) \<Rightarrow>
       set pending \<subseteq> set nodes \<and> visited \<subseteq> set nodes \<and>
       (\<forall>x\<in>set pending. (source, x) \<in> (step_rel succ)\<^sup>*) \<and>
       (if found then (source, target) \<in> (step_rel succ)\<^sup>*
        else source \<in> visited \<union> set pending \<and> target \<notin> visited \<and> (\<forall>v\<in>visited. succ v \<subseteq> visited \<union> set pending)))"

lemma search_step:
  assumes c: "closed_succs nodes succ" and i: "search_inv nodes succ source target (n # pending, visited, False)"
  shows "search_inv nodes succ source target (can_reach_step succ target (n # pending, visited, False))"
proof -
  have n: "n \<in> set nodes" "finite (succ n)" using i closed_finite [OF c] by (auto simp: search_inv_def)
  have "(source, x) \<in> (step_rel succ)\<^sup>*" if "x \<in> succ n" for x
    using i that by (auto simp: search_inv_def step_rel_def intro: rtrancl_into_rtrancl)
  then show ?thesis using i n c by (auto simp: search_inv_def can_reach_step_def closed_succs_def)
qed

definition search_size :: "string list \<Rightarrow> string list \<times> string set \<times> bool \<Rightarrow> nat" where
  "search_size nodes st = (case st of (pending, visited, _) \<Rightarrow> card (set nodes - visited) * Suc (card (set nodes)) + length pending)"

lemma search_shrinks:
  assumes c: "closed_succs nodes succ" and i: "search_inv nodes succ source target (n # pending, visited, False)"
  shows "search_size nodes (can_reach_step succ target (n # pending, visited, False)) < search_size nodes (n # pending, visited, False)"
proof (cases "n = target \<or> n \<in> visited")
  case False
  have n: "n \<in> set nodes" using i by (auto simp: search_inv_def)
  have "card (set nodes - visited) = Suc (card (set nodes - insert n visited))"
    using n False by (metis DiffI Diff_insert card_Suc_Diff1 finite_Diff finite_set)
  moreover have "length (sorted_list_of_set (succ n)) \<le> card (set nodes)"
    using closed_card [OF c n] by simp
  ultimately show ?thesis using False by (simp add: search_size_def can_reach_step_def)
qed (auto simp: search_size_def can_reach_step_def)

lemma can_reach_correct:
  assumes c: "closed_succs nodes succ" and s: "source \<in> set nodes" and t: "target \<in> set nodes"
  shows "can_reach nodes succ source target = Some ((source, target) \<in> (step_rel succ)\<^sup>*)"
proof -
  let ?b = "\<lambda>(pending, _, found). pending \<noteq> [] \<and> \<not> found"
  have step: "search_inv nodes succ source target (can_reach_step succ target x) \<and>
      search_size nodes (can_reach_step succ target x) < search_size nodes x"
    if "search_inv nodes succ source target x" "?b x" for x
  proof -
    from that(2) obtain n pending visited where "x = (n # pending, visited, False)" by (cases x) (auto simp: neq_Nil_conv)
    then show ?thesis using search_step [OF c] search_shrinks [OF c] that(1) by blast
  qed
  have "search_inv nodes succ source target ([source], {}, False)" using s by (simp add: search_inv_def)
  from while_option_total [of "search_inv nodes succ source target" _ ?b "can_reach_step succ target" "search_size nodes", OF this step] obtain pending visited found
    where w: "while_option ?b (can_reach_step succ target) ([source], {}, False) = Some (pending, visited, found)"
      and i: "search_inv nodes succ source target (pending, visited, found)" and e: "pending = [] \<or> found" by auto
  have "found = ((source, target) \<in> (step_rel succ)\<^sup>*)"
  proof (cases found)
    case False
    with i e have v: "source \<in> visited" "target \<notin> visited" "\<And>x. x \<in> visited \<Longrightarrow> succ x \<subseteq> visited" by (auto simp: search_inv_def)
    then have "(source, target) \<notin> (step_rel succ)\<^sup>*" using closed_invariant by blast
    then show ?thesis using False by simp
  qed (use i in \<open>simp add: search_inv_def\<close>)
  then show ?thesis using s t w by (simp add: can_reach_def)
qed

section \<open>Cycles\<close>

lemma anyO_total: "(\<And>x. x \<in> set xs \<Longrightarrow> f x = Some (P x)) \<Longrightarrow> anyO f xs = Some (\<exists>x\<in>set xs. P x)"
  by (induction xs) auto

lemma filterO_total: "(\<And>x. x \<in> set xs \<Longrightarrow> f x = Some (P x)) \<Longrightarrow> filterO f xs = Some (filter P xs)"
  by (induction xs) auto

definition on_cycle :: "succs \<Rightarrow> string \<Rightarrow> bool" where
  "on_cycle succ n \<longleftrightarrow> (n, n) \<in> (step_rel succ)\<^sup>+"

lemma on_cycle_step: "on_cycle succ n \<longleftrightarrow> (\<exists>s\<in>succ n. (s, n) \<in> (step_rel succ)\<^sup>*)"
proof -
  have "(n, n) \<in> (step_rel succ)\<^sup>+ \<longleftrightarrow> (\<exists>s. (n, s) \<in> step_rel succ \<and> (s, n) \<in> (step_rel succ)\<^sup>*)"
    by (meson rtrancl_into_trancl2 tranclD)
  then show ?thesis by (auto simp: on_cycle_def step_rel_def)
qed

lemma cycle_nodes_correct:
  assumes c: "closed_succs nodes succ"
  shows "cycle_nodes nodes succ = Some {n \<in> set nodes. on_cycle succ n}"
proof -
  have "anyO (\<lambda>s. can_reach nodes succ s n) (sorted_list_of_set (succ n)) = Some (on_cycle succ n)" if n: "n \<in> set nodes" for n
  proof -
    have "can_reach nodes succ s n = Some ((s, n) \<in> (step_rel succ)\<^sup>*)" if "s \<in> set (sorted_list_of_set (succ n))" for s
      using can_reach_correct [OF c _ n] that n c closed_finite [OF c n] by (auto simp: closed_succs_def)
    then have "anyO (\<lambda>s. can_reach nodes succ s n) (sorted_list_of_set (succ n)) =
        Some (\<exists>s\<in>set (sorted_list_of_set (succ n)). (s, n) \<in> (step_rel succ)\<^sup>*)" by (rule anyO_total)
    then show ?thesis using on_cycle_step [of succ n] closed_finite [OF c n] by simp
  qed
  then have "filterO (\<lambda>n. anyO (\<lambda>s. can_reach nodes succ s n) (sorted_list_of_set (succ n))) nodes = Some (filter (on_cycle succ) nodes)"
    by (rule filterO_total)
  then show ?thesis by (auto simp: cycle_nodes_def)
qed

section \<open>Nodes reachable from cycles\<close>

definition after_cycle :: "string list \<Rightarrow> succs \<Rightarrow> string set" where
  "after_cycle nodes succ = {m. \<exists>n\<in>set nodes. on_cycle succ n \<and> (n, m) \<in> (step_rel succ)\<^sup>*}"

definition flood_inv :: "string list \<Rightarrow> succs \<Rightarrow> string set \<Rightarrow> string list \<times> string set \<Rightarrow> bool" where
  "flood_inv nodes succ roots st \<longleftrightarrow>
     (case st of (pending, reached) \<Rightarrow>
       set pending \<subseteq> reached \<and> reached \<subseteq> set nodes \<and> roots \<subseteq> reached \<and> distinct pending \<and>
       reached \<subseteq> {m. \<exists>n\<in>roots. (n, m) \<in> (step_rel succ)\<^sup>*} \<and> (\<forall>x\<in>reached - set pending. succ x \<subseteq> reached))"

lemma flood_fold:
  assumes "set ts \<subseteq> set nodes"
  shows "\<exists>new. fold (\<lambda>t (pending, reached). if t \<notin> reached then (t # pending, insert t reached) else (pending, reached)) ts (pending, reached) =
    (new @ pending, reached \<union> set ts) \<and> set new = set ts - reached \<and> distinct new"
  using assms
proof (induction ts arbitrary: pending reached)
  case (Cons t ts)
  show ?case
  proof (cases "t \<in> reached")
    case False
    from Cons.IH [of "t # pending" "insert t reached"] Cons.prems obtain new where
      n: "fold (\<lambda>t (pending, reached). if t \<notin> reached then (t # pending, insert t reached) else (pending, reached)) ts (t # pending, insert t reached) =
        (new @ t # pending, insert t reached \<union> set ts)" "set new = set ts - insert t reached" "distinct new" by auto
    then show ?thesis using False by (intro exI [of _ "new @ [t]"]) auto
  next
    case True
    with Cons.IH [of pending reached] Cons.prems show ?thesis by (auto simp: insert_absorb)
  qed
qed simp

lemma flood_step:
  assumes c: "closed_succs nodes succ" and i: "flood_inv nodes succ roots (n # pending, reached)"
  shows "flood_inv nodes succ roots (cycle_reachable_step succ (n # pending, reached)) \<and>
    card (set nodes - snd (cycle_reachable_step succ (n # pending, reached))) * 2 + length (fst (cycle_reachable_step succ (n # pending, reached)))
      < card (set nodes - reached) * 2 + length (n # pending)"
proof -
  have n: "n \<in> set nodes" "finite (succ n)" "succ n \<subseteq> set nodes"
    using i c closed_finite [OF c] by (auto simp: flood_inv_def closed_succs_def)
  from flood_fold [of "sorted_list_of_set (succ n)" nodes pending reached] n obtain new where
    e: "cycle_reachable_step succ (n # pending, reached) = (new @ pending, reached \<union> succ n)" "set new = succ n - reached" "distinct new"
    by (auto simp: cycle_reachable_step_def)
  have "\<exists>m\<in>roots. (m, x) \<in> (step_rel succ)\<^sup>*" if "x \<in> succ n" for x
  proof -
    from i obtain m where "m \<in> roots" "(m, n) \<in> (step_rel succ)\<^sup>*" by (auto simp: flood_inv_def)
    with that show ?thesis by (auto simp: step_rel_def intro: rtrancl_into_rtrancl)
  qed
  then have "flood_inv nodes succ roots (new @ pending, reached \<union> succ n)"
    using i n e by (auto simp: flood_inv_def)
  moreover have "card (set nodes - (reached \<union> succ n)) + length new = card (set nodes - reached)"
  proof -
    have "set nodes - reached = (set nodes - (reached \<union> succ n)) \<union> set new" "(set nodes - (reached \<union> succ n)) \<inter> set new = {}"
      using e n by auto
    then show ?thesis using e by (metis card_Un_disjoint distinct_card finite_Diff finite_set)
  qed
  ultimately show ?thesis using e by simp
qed

lemma flood_correct:
  assumes c: "closed_succs nodes succ" and r: "roots \<subseteq> set nodes"
  shows "map_option snd (while_option (\<lambda>(pending, _). pending \<noteq> []) (cycle_reachable_step succ)
       (List.rev (sorted_list_of_set roots), roots)) = Some {m. \<exists>n\<in>roots. (n, m) \<in> (step_rel succ)\<^sup>*}"
proof -
  have "finite roots" using r finite_subset by blast
  then have "flood_inv nodes succ roots (List.rev (sorted_list_of_set roots), roots)" using r by (auto simp: flood_inv_def)
  moreover have "flood_inv nodes succ roots (cycle_reachable_step succ x) \<and>
      (case cycle_reachable_step succ x of (pending, reached) \<Rightarrow> card (set nodes - reached) * 2 + length pending)
        < (case x of (pending, reached) \<Rightarrow> card (set nodes - reached) * 2 + length pending)"
    if "flood_inv nodes succ roots x" "case x of (pending, _) \<Rightarrow> pending \<noteq> []" for x
  proof -
    from that(2) obtain n pending reached where "x = (n # pending, reached)" by (cases x) (auto simp: neq_Nil_conv)
    then show ?thesis using flood_step [OF c, of roots n pending reached] that(1) by (simp add: case_prod_unfold)
  qed
  ultimately have "\<exists>t. while_option (\<lambda>(pending, _). pending \<noteq> []) (cycle_reachable_step succ) (List.rev (sorted_list_of_set roots), roots) = Some t \<and>
      flood_inv nodes succ roots t \<and> \<not> (case t of (pending, _) \<Rightarrow> pending \<noteq> [])"
    by (rule while_option_total)
  then obtain pending reached where w: "while_option (\<lambda>(pending, _). pending \<noteq> []) (cycle_reachable_step succ)
      (List.rev (sorted_list_of_set roots), roots) = Some (pending, reached)"
    and i: "flood_inv nodes succ roots (pending, reached)" and e: "pending = []" by auto
  have "{m. \<exists>n\<in>roots. (n, m) \<in> (step_rel succ)\<^sup>*} \<subseteq> reached"
    using i e closed_invariant [of _ _ succ reached] by (fastforce simp: flood_inv_def)
  then show ?thesis using i w by (auto simp: flood_inv_def)
qed

lemma cycle_reachable_correct:
  assumes "closed_succs nodes succ"
  shows "cycle_reachable_nodes nodes succ = Some (after_cycle nodes succ)"
  using flood_correct [OF assms, of "{n \<in> set nodes. on_cycle succ n}"] cycle_nodes_correct [OF assms]
  by (auto simp: cycle_reachable_nodes_def after_cycle_def)

section \<open>Saturation loops\<close>

lemma saturate_fold:
  assumes "fold (\<lambda>x (r, changed). if cond x r \<and> f x \<notin> r then (insert (f x) r, True) else (r, changed)) xs (r, ch) = (r', ch')"
  shows "r \<subseteq> r'" and "r' \<subseteq> r \<union> f ` set xs" and "ch' \<longleftrightarrow> ch \<or> r' \<noteq> r"
    and "r' = r \<Longrightarrow> x \<in> set xs \<Longrightarrow> cond x r \<Longrightarrow> f x \<in> r"
    and "r \<subseteq> A \<Longrightarrow> (\<And>x s. x \<in> set xs \<Longrightarrow> s \<subseteq> A \<Longrightarrow> cond x s \<Longrightarrow> f x \<in> A) \<Longrightarrow> r' \<subseteq> A"
proof -
  have main: "r \<subseteq> r' \<and> r' \<subseteq> r \<union> f ` set xs \<and> (ch' \<longleftrightarrow> ch \<or> r' \<noteq> r) \<and> (r' = r \<longrightarrow> (\<forall>x\<in>set xs. cond x r \<longrightarrow> f x \<in> r)) \<and>
    (\<forall>A. r \<subseteq> A \<longrightarrow> (\<forall>x\<in>set xs. \<forall>s. s \<subseteq> A \<longrightarrow> cond x s \<longrightarrow> f x \<in> A) \<longrightarrow> r' \<subseteq> A)"
    using assms
  proof (induction xs arbitrary: r ch)
    case (Cons y ys)
    show ?case
    proof (cases "cond y r \<and> f y \<notin> r")
      case True
      with Cons.prems have "fold (\<lambda>x (r, changed). if cond x r \<and> f x \<notin> r then (insert (f x) r, True) else (r, changed)) ys (insert (f y) r, True) = (r', ch')"
        by simp
      from Cons.IH [OF this] True show ?thesis by auto
    next
      case False
      with Cons.prems have "fold (\<lambda>x (r, changed). if cond x r \<and> f x \<notin> r then (insert (f x) r, True) else (r, changed)) ys (r, ch) = (r', ch')"
        by simp
      from Cons.IH [OF this] False show ?thesis by auto
    qed
  qed simp
  show "r \<subseteq> r'" by (rule conjunct1 [OF main])
  show "r' \<subseteq> r \<union> f ` set xs" by (rule conjunct1 [OF conjunct2 [OF main]])
  note main = conjunct2 [OF conjunct2 [OF main]]
  show "ch' \<longleftrightarrow> ch \<or> r' \<noteq> r" by (rule conjunct1 [OF main])
  show "f x \<in> r" if "r' = r" "x \<in> set xs" "cond x r" using conjunct1 [OF conjunct2 [OF main]] that by simp
  show "r' \<subseteq> A" if "r \<subseteq> A" "\<And>x s. x \<in> set xs \<Longrightarrow> s \<subseteq> A \<Longrightarrow> cond x s \<Longrightarrow> f x \<in> A"
    using conjunct2 [OF conjunct2 [OF main]] that by simp
qed

text \<open>A loop that grows a set of declared nodes, and repeats while it changed, ends closed.\<close>

lemma saturate_loop:
  assumes grows: "\<And>r ch r' ch'. r \<subseteq> set nodes \<Longrightarrow> step (r, ch) = (r', ch') \<Longrightarrow> r \<subseteq> r' \<and> r' \<subseteq> set nodes \<and> (ch' \<longleftrightarrow> r' \<noteq> r)"
    and within: "\<And>r ch. r \<subseteq> A \<Longrightarrow> r \<subseteq> set nodes \<Longrightarrow> fst (step (r, ch)) \<subseteq> A"
    and init: "r0 \<subseteq> set nodes" "r0 \<subseteq> A"
  shows "\<exists>r. while_option snd step (r0, True) = Some (r, False) \<and> r0 \<subseteq> r \<and> r \<subseteq> A \<and> r \<subseteq> set nodes \<and> (\<exists>ch. step (r, ch) = (r, False))"
proof -
  let ?P = "\<lambda>(r, ch). r0 \<subseteq> r \<and> r \<subseteq> A \<and> r \<subseteq> set nodes \<and> (\<not> ch \<longrightarrow> (\<exists>ch. step (r, ch) = (r, False)))"
  let ?m = "\<lambda>(r, ch). card (set nodes - r) * 2 + (if ch then 1 else 0)"
  have "?P (step x) \<and> ?m (step x) < ?m x" if P: "?P x" and ch: "snd x" for x
  proof -
    obtain r r' ch' where x: "x = (r, True)" and s: "step x = (r', ch')" using ch by (metis prod.collapse)
    have g: "r \<subseteq> r'" "r' \<subseteq> set nodes" "ch' \<longleftrightarrow> r' \<noteq> r" using grows [of r True r' ch'] P x s by auto
    have "r' \<subseteq> A" using within [of r True] P x s by simp
    moreover have "card (set nodes - r') < card (set nodes - r)" if "r' \<noteq> r"
      using that g by (intro psubset_card_mono) auto
    moreover have "step (r', True) = (r', False)" if "r' = r" using that s x g by simp
    ultimately show ?thesis using P x s g by (cases "r' = r") auto
  qed
  moreover have "?P (r0, True)" using init by simp
  ultimately have "\<exists>t. while_option snd step (r0, True) = Some t \<and> ?P t \<and> \<not> snd t" by (intro while_option_total [of ?P _ snd step ?m])
  then obtain t where t: "while_option snd step (r0, True) = Some t" "?P t" "\<not> snd t" by blast
  obtain r where "t = (r, False)" using t(3) by (cases t) simp
  with t show ?thesis by blast
qed

section \<open>Nodes that can be activated\<close>

inductive_set activable :: "string list \<Rightarrow> succs \<Rightarrow> (string list \<times> string) list \<Rightarrow> string set"
  for entries :: "string list" and succ :: succs and joins :: "(string list \<times> string) list" where
  entry: "n \<in> set entries \<Longrightarrow> n \<in> activable entries succ joins"
| edge: "n \<in> activable entries succ joins \<Longrightarrow> m \<in> succ n \<Longrightarrow> m \<in> activable entries succ joins"
| join: "(sources, target) \<in> set joins \<Longrightarrow> target \<noteq> END_NODE \<Longrightarrow> (\<And>s. s \<in> set sources \<Longrightarrow> s \<in> activable entries succ joins) \<Longrightarrow>
    target \<in> activable entries succ joins"

lemma reach_sources_eq:
  assumes "\<And>s. s \<in> r \<Longrightarrow> finite (succ s)" and "finite r"
  shows "reach_sources succ (r, ch) = (r \<union> \<Union>(succ ` r), r \<union> \<Union>(succ ` r) \<noteq> r)"
proof -
  have "fold (\<lambda>s (r, changed). (r \<union> succ s, changed \<or> card (r \<union> succ s) \<noteq> card r)) xs (q, c) =
      (q \<union> \<Union>(succ ` set xs), c \<or> q \<union> \<Union>(succ ` set xs) \<noteq> q)" if "finite q" "\<And>s. s \<in> set xs \<Longrightarrow> finite (succ s)" for xs q c
    using that
  proof (induction xs arbitrary: q c)
    case (Cons x xs)
    have "card (q \<union> succ x) \<noteq> card q \<longleftrightarrow> q \<union> succ x \<noteq> q"
      using Cons.prems by (metis Un_upper1 card_subset_eq finite_Un list.set_intros(1))
    with Cons.IH [of "q \<union> succ x" "c \<or> card (q \<union> succ x) \<noteq> card q"] Cons.prems show ?case by auto
  qed simp
  from this [of r "sorted_list_of_set r" False] assms show ?thesis by (simp add: reach_sources_def)
qed

lemma reachable_correct:
  assumes c: "closed_succs nodes succ" and e: "set entries \<subseteq> set nodes" and j: "\<And>ss tg. (ss, tg) \<in> set joins \<Longrightarrow> tg \<noteq> END_NODE \<Longrightarrow> tg \<in> set nodes"
  shows "reachable entries succ joins = Some (activable entries succ joins)"
proof -
  let ?A = "activable entries succ joins"
  let ?cond = "\<lambda>(ss, tg) r. tg \<noteq> END_NODE \<and> set ss \<subseteq> r"
  let ?js = "filter (\<lambda>(ss, tg). tg \<noteq> END_NODE) joins"
  have form: "reach_joins joins st = fold (\<lambda>x (r, changed). if ?cond x r \<and> snd x \<notin> r then (insert (snd x) r, True) else (r, changed)) ?js st" for st
  proof -
    have "fold (\<lambda>(sources, target) (r, changed).
       if target \<noteq> END_NODE \<and> set sources \<subseteq> r \<and> target \<notin> r then (insert target r, True) else (r, changed)) js st =
      fold (\<lambda>x (r, changed). if ?cond x r \<and> snd x \<notin> r then (insert (snd x) r, True) else (r, changed))
        (filter (\<lambda>(ss, tg). tg \<noteq> END_NODE) js) st" for js
      by (induction js arbitrary: st) (auto split: prod.splits)
    then show ?thesis by (simp add: reach_joins_def)
  qed
  have src: "reach_sources succ (r, ch) = (r \<union> \<Union>(succ ` r), r \<union> \<Union>(succ ` r) \<noteq> r)" "r \<union> \<Union>(succ ` r) \<subseteq> set nodes" if "r \<subseteq> set nodes" for r ch
    using that c closed_finite [OF c] finite_subset [OF that] by (auto intro!: reach_sources_eq simp: closed_succs_def)
  have tg: "snd ` set ?js \<subseteq> set nodes" using j by auto
  have "\<exists>r. while_option snd (\<lambda>st. reach_joins joins (reach_sources succ st)) (set entries, True) = Some (r, False) \<and> set entries \<subseteq> r \<and>
      r \<subseteq> ?A \<and> r \<subseteq> set nodes \<and> (\<exists>ch. reach_joins joins (reach_sources succ (r, ch)) = (r, False))"
  proof (rule saturate_loop)
    fix r ch r' ch' assume r: "r \<subseteq> set nodes" and s: "reach_joins joins (reach_sources succ (r, ch)) = (r', ch')"
    let ?m = "r \<union> \<Union>(succ ` r)"
    have s': "fold (\<lambda>x (r, changed). if ?cond x r \<and> snd x \<notin> r then (insert (snd x) r, True) else (r, changed)) ?js (?m, ?m \<noteq> r) = (r', ch')"
      using s src(1) [OF r] form by simp
    have "?m \<subseteq> r'" by (rule saturate_fold(1) [OF s'])
    moreover have "r' \<subseteq> set nodes" by (rule order_trans [OF saturate_fold(2) [OF s'] Un_least [OF src(2) [OF r] tg]])
    moreover have "ch' \<longleftrightarrow> ?m \<noteq> r \<or> r' \<noteq> ?m" by (rule saturate_fold(3) [OF s'])
    moreover have "r \<subseteq> ?m" by (rule Un_upper1)
    ultimately show "r \<subseteq> r' \<and> r' \<subseteq> set nodes \<and> (ch' \<longleftrightarrow> r' \<noteq> r)" by (metis subset_antisym subset_trans)
  next
    fix r ch assume A: "r \<subseteq> ?A" and r: "r \<subseteq> set nodes"
    let ?m = "r \<union> \<Union>(succ ` r)"
    obtain r' ch' where s': "fold (\<lambda>x (r, changed). if ?cond x r \<and> snd x \<notin> r then (insert (snd x) r, True) else (r, changed)) ?js (?m, ?m \<noteq> r) = (r', ch')"
      by fastforce
    have "?m \<subseteq> ?A" using A by (auto intro: activable.edge)
    moreover have "snd x \<in> ?A" if "x \<in> set ?js" "s \<subseteq> ?A" "?cond x s" for x s
    proof -
      obtain ss tg where "x = (ss, tg)" by fastforce
      with that show ?thesis using activable.join [of ss tg joins entries succ] by auto
    qed
    ultimately have "r' \<subseteq> ?A" by (rule saturate_fold(5) [OF s'])
    then show "fst (reach_joins joins (reach_sources succ (r, ch))) \<subseteq> ?A" using s' src(1) [OF r] form by simp
  qed (use e in \<open>auto intro: activable.entry\<close>)
  then obtain r ch where w: "while_option snd (\<lambda>st. reach_joins joins (reach_sources succ st)) (set entries, True) = Some (r, False)"
    and r: "set entries \<subseteq> r" "r \<subseteq> ?A" "r \<subseteq> set nodes" "reach_joins joins (reach_sources succ (r, ch)) = (r, False)" by blast
  have s': "fold (\<lambda>x (r, changed). if ?cond x r \<and> snd x \<notin> r then (insert (snd x) r, True) else (r, changed)) ?js (r \<union> \<Union>(succ ` r), r \<union> \<Union>(succ ` r) \<noteq> r) = (r, False)"
    using r(4) src(1) [OF r(3)] form by simp
  have m: "r \<union> \<Union>(succ ` r) = r" using saturate_fold(1,3) [OF s'] by blast
  note closed = saturate_fold(4) [OF s' [unfolded m]]
  have "x \<in> r" if "x \<in> ?A" for x
    using that
  proof induction
    case (join sources target)
    then show ?case using closed [of "(sources, target)"] by auto
  qed (use r m in auto)
  then show ?thesis using w r(2) by (auto simp: reachable_def)
qed

end
