(* ===== verification/Search_Levels.thy ===== *)
theory Search_Levels
  imports Search_Correct
begin

text \<open>
  The analyses of the compiler over gates: repeatable nodes, guaranteed predecessors, activation
  levels, the dependency order and data cycles.
\<close>

section \<open>Repeatable nodes\<close>

inductive_set repeats :: "string list \<Rightarrow> gates \<Rightarrow> string set \<Rightarrow> string set"
  for nodes :: "string list" and activation_gates :: gates and seeds :: "string set" where
  seed: "n \<in> seeds \<Longrightarrow> n \<in> repeats nodes activation_gates seeds"
| gate: "n \<in> set nodes \<Longrightarrow> gate \<in> set (activation_gates n) \<Longrightarrow> (source, route) \<in> set gate \<Longrightarrow>
    source \<in> repeats nodes activation_gates seeds \<Longrightarrow> n \<in> repeats nodes activation_gates seeds"

definition repeat_seeds :: "string list \<Rightarrow> string list \<Rightarrow> gates \<Rightarrow> succs \<Rightarrow> string set" where
  "repeat_seeds nodes entries activation_gates succ =
     after_cycle nodes succ \<union> {n \<in> set entries. activation_gates n \<noteq> []}"

lemma after_cycle_nodes: "closed_succs nodes succ \<Longrightarrow> after_cycle nodes succ \<subseteq> set nodes"
  using closed_rtrancl by (fastforce simp: after_cycle_def)

lemma repeatable_correct:
  assumes c: "closed_succs nodes succ" and e: "set entries \<subseteq> set nodes"
  shows "repeatable_nodes nodes entries activation_gates succ =
    Some (repeats nodes activation_gates (repeat_seeds nodes entries activation_gates succ))"
proof -
  let ?S = "repeat_seeds nodes entries activation_gates succ"
  let ?A = "repeats nodes activation_gates ?S"
  let ?cond = "\<lambda>n r. \<exists>gate\<in>set (activation_gates n). \<exists>(source, _)\<in>set gate. source \<in> r"
  let ?step = "repeat_step nodes activation_gates"
  have form: "?step (r, ch) = fold (\<lambda>x (r, changed). if ?cond x r \<and> id x \<notin> r then (insert (id x) r, True) else (r, changed)) nodes (r, False)" for r ch
    unfolding repeat_step_def by (rule arg_cong3 [where f = fold]) (auto simp: fun_eq_iff split: prod.splits)
  have S: "?S \<subseteq> set nodes" using e after_cycle_nodes [OF c] by (auto simp: repeat_seeds_def)
  have "\<exists>r. while_option snd ?step (?S, True) = Some (r, False) \<and> ?S \<subseteq> r \<and> r \<subseteq> ?A \<and> r \<subseteq> set nodes \<and> (\<exists>ch. ?step (r, ch) = (r, False))"
  proof (rule saturate_loop)
    fix r ch r' ch' assume "r \<subseteq> set nodes" "?step (r, ch) = (r', ch')"
    note s = this(2) [unfolded form]
    show "r \<subseteq> r' \<and> r' \<subseteq> set nodes \<and> (ch' \<longleftrightarrow> r' \<noteq> r)"
      using saturate_fold(1-3) [OF s] \<open>r \<subseteq> set nodes\<close> by auto
  next
    fix r ch assume A: "r \<subseteq> ?A"
    obtain r' ch' where s: "?step (r, ch) = (r', ch')" by fastforce
    have "r' \<subseteq> ?A"
    proof (rule saturate_fold(5) [OF s [unfolded form] A])
      fix x s assume "x \<in> set nodes" "s \<subseteq> ?A" "?cond x s"
      then show "id x \<in> ?A" by (force intro: repeats.gate)
    qed
    then show "fst (?step (r, ch)) \<subseteq> ?A" using s by simp
  qed (use S in \<open>auto intro: repeats.seed\<close>)
  then obtain r ch where w: "while_option snd ?step (?S, True) = Some (r, False)" and r: "?S \<subseteq> r" "r \<subseteq> ?A" and f: "?step (r, ch) = (r, False)"
    by blast
  have "x \<in> r" if "x \<in> ?A" for x
    using that
  proof induction
    case (gate n gate source route)
    then show ?case using saturate_fold(4) [OF f [unfolded form], of n] by force
  qed (use r in auto)
  then show ?thesis using w r cycle_reachable_correct [OF c] by (auto simp: repeatable_nodes_def repeat_seeds_def)
qed

section \<open>Guaranteed predecessors\<close>

lemma fold_inter: "fold (\<lambda>b c. c \<inter> b) as a = a \<inter> \<Inter>(set as)"
  by (induction as arbitrary: a) auto

lemma common_set_eq: "as \<noteq> [] \<Longrightarrow> common_set as = \<Inter>(set as)"
  by (cases as) (auto simp: fold_inter)

lemma gate_guarantees_mono: "(\<And>n. g n \<subseteq> h n) \<Longrightarrow> gate_guarantees g gate \<subseteq> gate_guarantees h gate"
  by (force simp: gate_guarantees_def)

lemma guarantee_alternative:
  assumes "n \<in> set nodes" and "a \<in> set ((if n \<in> set entries then [{}] else []) @ map (gate_guarantees g) (activation_gates n))"
  shows "guarantee_step nodes entries activation_gates g n \<subseteq> insert n a"
proof -
  have "common_set ((if n \<in> set entries then [{}] else []) @ map (gate_guarantees g) (activation_gates n)) \<subseteq> a"
    using assms(2) by (subst common_set_eq) auto
  then show ?thesis using assms(1) by (auto simp: guarantee_step_def)
qed

lemma guarantee_step_mono:
  assumes "\<And>n. g n \<subseteq> h n"
  shows "guarantee_step nodes entries activation_gates g n \<subseteq> guarantee_step nodes entries activation_gates h n"
proof -
  let ?as = "\<lambda>g. (if n \<in> set entries then [{}] else []) @ map (gate_guarantees g) (activation_gates n)"
  have "common_set (?as g) \<subseteq> common_set (?as h)"
  proof (cases "?as g = []")
    case False
    then have "?as h \<noteq> []" by (auto split: if_splits)
    moreover have "gate_guarantees g gate \<subseteq> gate_guarantees h gate" for gate by (rule gate_guarantees_mono) (rule assms)
    ultimately show ?thesis using False unfolding common_set_eq [OF False] common_set_eq [OF \<open>?as h \<noteq> []\<close>]
      by (fastforce split: if_splits)
  qed (simp add: assms)
  then show ?thesis by (auto simp: guarantee_step_def)
qed

definition guarantee_inv :: "string list \<Rightarrow> string list \<Rightarrow> gates \<Rightarrow> succs \<Rightarrow> bool" where
  "guarantee_inv nodes entries activation_gates g \<longleftrightarrow>
     (\<forall>n. g n \<subseteq> set nodes \<and> g n \<subseteq> guarantee_step nodes entries activation_gates g n \<and> (n \<notin> set nodes \<longrightarrow> g n = {}))"

lemma guarantee_step_nodes:
  assumes "\<And>n. g n \<subseteq> set nodes"
  shows "guarantee_step nodes entries activation_gates g n \<subseteq> set nodes"
proof -
  let ?as = "(if n \<in> set entries then [{}] else []) @ map (gate_guarantees g) (activation_gates n)"
  have "common_set ?as \<subseteq> set nodes"
  proof (cases ?as)
    case (Cons a as)
    then have "a \<in> set ?as" by (metis list.set_intros(1))
    then have "a \<subseteq> set nodes" using assms by (auto simp: gate_guarantees_def split: if_splits)
    then show ?thesis using Cons by (auto simp: fold_inter)
  qed simp
  then show ?thesis by (auto simp: guarantee_step_def)
qed

lemma guaranteed_sets_total:
  obtains g where "guaranteed_sets nodes entries activation_gates = Some g"
    and "\<And>n. n \<in> set nodes \<Longrightarrow> g n = guarantee_step nodes entries activation_gates g n"
    and "\<And>n. g n \<subseteq> set nodes" and "\<And>n. n \<in> set nodes \<Longrightarrow> n \<in> g n" and "\<And>n. n \<notin> set nodes \<Longrightarrow> g n = {}"
proof -
  let ?step = "guarantee_step nodes entries activation_gates"
  let ?P = "guarantee_inv nodes entries activation_gates"
  let ?b = "\<lambda>g. \<exists>n\<in>set nodes. ?step g n \<noteq> g n"
  let ?m = "\<lambda>g :: succs. \<Sum>n\<in>set nodes. card (set nodes - g n)"
  have "?P (?step g) \<and> ?m (?step g) < ?m g" if P: "?P g" and b: "?b g" for g
  proof
    have sub: "\<And>n. g n \<subseteq> ?step g n" "\<And>n. g n \<subseteq> set nodes" using P by (auto simp: guarantee_inv_def)
    have within: "?step g n \<subseteq> set nodes" for n by (rule guarantee_step_nodes) (rule sub(2))
    have "?step g n \<subseteq> ?step (?step g) n" for n by (rule guarantee_step_mono) (rule sub(1))
    moreover have "?step g n = {}" if "n \<notin> set nodes" for n using that by (simp add: guarantee_step_def)
    ultimately show "?P (?step g)" unfolding guarantee_inv_def using within by blast
    from b obtain n where n: "n \<in> set nodes" "g n \<subset> ?step g n" using sub(1) by blast
    have "set nodes - ?step g n \<subset> set nodes - g n" using n within [of n] by blast
    then have "card (set nodes - ?step g n) < card (set nodes - g n)" by (intro psubset_card_mono) auto
    moreover have "card (set nodes - ?step g m) \<le> card (set nodes - g m)" for m using sub(1) by (intro card_mono) auto
    ultimately show "?m (?step g) < ?m g" using n(1) by (intro sum_strict_mono_ex1) auto
  qed
  moreover have "?P (\<lambda>n. if n \<in> set nodes then {n} else {})" by (auto simp: guarantee_inv_def guarantee_step_def)
  ultimately have "\<exists>t. guaranteed_sets nodes entries activation_gates = Some t \<and> ?P t \<and> \<not> ?b t"
    unfolding guaranteed_sets_def by (intro while_option_total [of ?P _ ?b ?step ?m])
  then obtain t where t: "guaranteed_sets nodes entries activation_gates = Some t" "?P t" "\<not> ?b t" by blast
  have fx: "t n = ?step t n" if "n \<in> set nodes" for n using t(3) that by auto
  have "n \<in> t n" if "n \<in> set nodes" for n using fx [OF that] that by (simp add: guarantee_step_def)
  with t fx show thesis using that [of t] by (simp add: guarantee_inv_def)
qed

text \<open>
  The histories of a node: it is an entry, or one of its gates was satisfied by activations with
  histories of their own.
\<close>

inductive activation_history :: "string list \<Rightarrow> gates \<Rightarrow> string \<Rightarrow> string set \<Rightarrow> bool"
  for entries :: "string list" and activation_gates :: gates where
  entry: "n \<in> set entries \<Longrightarrow> activation_history entries activation_gates n {n}"
| gate: "gate \<in> set (activation_gates n) \<Longrightarrow> (\<And>source route. (source, route) \<in> set gate \<Longrightarrow> activation_history entries activation_gates source (h source)) \<Longrightarrow>
    activation_history entries activation_gates n (insert n (\<Union>(source, route)\<in>set gate. h source))"

lemma guaranteed_sound:
  assumes "guaranteed_sets nodes entries activation_gates = Some g" and "activation_history entries activation_gates n h"
  shows "g n \<subseteq> h"
proof -
  obtain t where t: "guaranteed_sets nodes entries activation_gates = Some t" "\<And>n. n \<in> set nodes \<Longrightarrow> t n = guarantee_step nodes entries activation_gates t n"
    "\<And>n. n \<notin> set nodes \<Longrightarrow> t n = {}" by (rule guaranteed_sets_total [of nodes entries activation_gates]) blast
  have g: "g = t" using t(1) assms(1) by simp
  show ?thesis
    using assms(2)
  proof induction
    case (entry n)
    then show ?case using guarantee_alternative [of n nodes "{}" entries t activation_gates] t(2,3) [of n] g by (cases "n \<in> set nodes") auto
  next
    case (gate gate n h)
    have "gate_guarantees g gate \<subseteq> (\<Union>(source, route)\<in>set gate. h source)" using gate.IH by (force simp: gate_guarantees_def)
    then show ?case using guarantee_alternative [of n nodes "gate_guarantees t gate" entries t activation_gates] gate.hyps(1) t(2,3) [of n] g
      by (cases "n \<in> set nodes") auto
  qed
qed

section \<open>Activation levels\<close>

text \<open>The supersteps at which a path of control edges from an entry arrives at a node.\<close>

definition path_levels :: "string list \<Rightarrow> succs \<Rightarrow> string \<Rightarrow> int set" where
  "path_levels entries succ n = {int k |k e. e \<in> set entries \<and> (e, n) \<in> step_rel succ ^^ k}"

lemma after_cycle_succ: "n \<in> after_cycle nodes succ \<Longrightarrow> m \<in> succ n \<Longrightarrow> m \<in> after_cycle nodes succ"
  unfolding after_cycle_def step_rel_def by (blast intro: rtrancl_into_rtrancl)

lemma after_cycle_self: "n \<in> set nodes \<Longrightarrow> on_cycle succ n \<Longrightarrow> n \<in> after_cycle nodes succ"
  by (auto simp: after_cycle_def)

lemma path_length_bound:
  assumes c: "closed_succs nodes succ" and e: "e \<in> set nodes"
  shows "(e, n) \<in> step_rel succ ^^ k \<Longrightarrow> n \<notin> after_cycle nodes succ \<Longrightarrow>
    k \<le> card {m \<in> set nodes. (m, n) \<in> (step_rel succ)\<^sup>+}"
proof (induction k arbitrary: n)
  case (Suc k)
  then obtain m where m: "(e, m) \<in> step_rel succ ^^ k" "n \<in> succ m" by (auto simp: step_rel_def)
  let ?anc = "\<lambda>n. {m \<in> set nodes. (m, n) \<in> (step_rel succ)\<^sup>+}"
  have mv: "m \<notin> after_cycle nodes succ" using Suc.prems(2) m(2) after_cycle_succ by blast
  have mn: "m \<in> set nodes" using m(1) closed_rtrancl [OF _ c e] relpow_imp_rtrancl by blast
  have "m \<notin> ?anc m" using mv mn after_cycle_self by (auto simp: on_cycle_def)
  moreover have "(m, n) \<in> (step_rel succ)\<^sup>+" using m(2) by (auto simp: step_rel_def)
  then have "m \<in> ?anc n" "?anc m \<subseteq> ?anc n" using mn by (auto intro: trancl_trans)
  ultimately have "?anc m \<subset> ?anc n" by blast
  then have "card (?anc m) < card (?anc n)" by (intro psubset_card_mono) auto
  then show ?case using Suc.IH [OF m(1) mv] by simp
qed simp

lemma nested_fold:
  "fold (\<lambda>s st. fold (f s) (g s) st) xs st = fold (\<lambda>(s, t). f s t) (concat (map (\<lambda>s. map (Pair s) (g s)) xs)) st"
  by (induction xs arbitrary: st) (simp_all add: fold_map comp_def)

definition raise_level :: "string set \<Rightarrow> string \<times> string \<Rightarrow> (string \<Rightarrow> int set) \<times> bool \<Rightarrow> (string \<Rightarrow> int set) \<times> bool" where
  "raise_level variable e st = (case (e, st) of ((source, target), (levels, changed)) \<Rightarrow>
     if target \<in> variable then (levels, changed)
     else let updated = levels target \<union> (\<lambda>l. l + 1) ` levels source
       in (levels(target := updated), changed \<or> card updated \<noteq> card (levels target)))"

lemma raise_level_eq:
  "raise_level V (s, t) (L, ch) = (if t \<in> V then (L, ch)
     else (L(t := L t \<union> (\<lambda>l. l + 1) ` L s), ch \<or> card (L t \<union> (\<lambda>l. l + 1) ` L s) \<noteq> card (L t)))"
  by (simp add: raise_level_def Let_def)

lemma raise_level_fold:
  assumes "fold (raise_level V) es (L, ch) = (L', ch')" and "\<And>n. finite (L n)"
  shows "(\<forall>n. L n \<subseteq> L' n) \<and> (ch' \<longleftrightarrow> ch \<or> L' \<noteq> L) \<and> (L' = L \<longrightarrow> (\<forall>(s, t)\<in>set es. t \<notin> V \<longrightarrow> (\<lambda>l. l + 1) ` L s \<subseteq> L t)) \<and>
    (\<forall>B. (\<forall>n. L n \<subseteq> B n) \<longrightarrow> (\<forall>(s, t)\<in>set es. t \<notin> V \<longrightarrow> (\<lambda>l. l + 1) ` B s \<subseteq> B t) \<longrightarrow> (\<forall>n. L' n \<subseteq> B n))"
  using assms
proof (induction es arbitrary: L ch)
  case (Cons x es)
  obtain s t where x: "x = (s, t)" by fastforce
  show ?case
  proof (cases "t \<in> V")
    case True
    with Cons.prems x have "fold (raise_level V) es (L, ch) = (L', ch')" by (simp add: raise_level_eq)
    from Cons.IH [OF this Cons.prems(2)] True x show ?thesis by simp
  next
    case False
    let ?u = "L t \<union> (\<lambda>l. l + 1) ` L s"
    have fin: "finite ((L(t := ?u)) n)" for n using Cons.prems(2) by simp
    have u: "card ?u \<noteq> card (L t) \<longleftrightarrow> ?u \<noteq> L t" using Cons.prems(2) by (metis Un_upper1 card_subset_eq finite_Un finite_imageI)
    from False Cons.prems x have "fold (raise_level V) es (L(t := ?u), ch \<or> ?u \<noteq> L t) = (L', ch')" by (simp add: raise_level_eq u)
    note IH = Cons.IH [OF this fin]
    have sub: "L n \<subseteq> L' n" "(L(t := ?u)) n \<subseteq> L' n" for n using IH [THEN conjunct1] by (auto split: if_splits)
    have eq: "L' = L \<longleftrightarrow> L' = L(t := ?u) \<and> ?u = L t"
    proof
      assume "L' = L"
      then have "?u \<subseteq> L t" using sub(2) [of t] by simp
      then have "?u = L t" by blast
      then show "L' = L(t := ?u) \<and> ?u = L t" using \<open>L' = L\<close> by auto
    qed auto
    have "ch' \<longleftrightarrow> ch \<or> L' \<noteq> L" using IH eq by blast
    moreover have "\<forall>(s, t)\<in>set (x # es). t \<notin> V \<longrightarrow> (\<lambda>l. l + 1) ` L s \<subseteq> L t" if "L' = L"
    proof -
      from that eq have l: "L(t := ?u) = L" "L' = L(t := ?u)" by auto
      have "\<forall>(s, t')\<in>set es. t' \<notin> V \<longrightarrow> (\<lambda>l. l + 1) ` (L(t := ?u)) s \<subseteq> (L(t := ?u)) t'"
        using IH [THEN conjunct2, THEN conjunct2, THEN conjunct1] l(2) by (rule mp)
      moreover have "(\<lambda>l. l + 1) ` L s \<subseteq> L t" using that eq by blast
      ultimately show ?thesis using l(1) x by simp
    qed
    moreover have "\<forall>n. L' n \<subseteq> B n" if B: "\<forall>n. L n \<subseteq> B n" "\<forall>(s, t)\<in>set (x # es). t \<notin> V \<longrightarrow> (\<lambda>l. l + 1) ` B s \<subseteq> B t" for B
    proof -
      have "(\<lambda>l. l + 1) ` B s \<subseteq> B t" using B(2) x False by simp
      then have "(\<lambda>l. l + 1) ` L s \<subseteq> B t" using B(1) image_mono by blast
      then have "\<forall>n. (L(t := ?u)) n \<subseteq> B n" using B(1) by auto
      moreover have "\<forall>(s, t)\<in>set es. t \<notin> V \<longrightarrow> (\<lambda>l. l + 1) ` B s \<subseteq> B t" using B(2) by simp
      ultimately show ?thesis using IH by blast
    qed
    ultimately show ?thesis using sub(1) by blast
  qed
qed simp


lemma level_step_fold:
  "level_step nodes succ V (L, ch) =
     fold (raise_level V) (concat (map (\<lambda>s. map (Pair s) (sorted_list_of_set (succ s))) nodes)) (L, False)"
  unfolding level_step_def nested_fold raise_level_def
  by (rule arg_cong3 [where f = fold]) (auto simp: fun_eq_iff split: prod.splits)

text \<open>Nodes after a cycle have no level; the others have the lengths of the paths that reach them.\<close>

definition level_sets :: "string list \<Rightarrow> string list \<Rightarrow> succs \<Rightarrow> string \<Rightarrow> int set" where
  "level_sets nodes entries succ n = (if n \<in> after_cycle nodes succ then {} else path_levels entries succ n)"

lemma level_sets_bounded:
  assumes c: "closed_succs nodes succ" and e: "set entries \<subseteq> set nodes"
  shows "level_sets nodes entries succ n \<subseteq> {0..int (card (set nodes))}"
proof
  fix l assume "l \<in> level_sets nodes entries succ n"
  then obtain k e' where k: "l = int k" "e' \<in> set entries" "(e', n) \<in> step_rel succ ^^ k" "n \<notin> after_cycle nodes succ"
    by (auto simp: level_sets_def path_levels_def split: if_splits)
  have "k \<le> card {m \<in> set nodes. (m, n) \<in> (step_rel succ)\<^sup>+}" using path_length_bound [OF c _ k(3,4)] k(2) e by blast
  also have "\<dots> \<le> card (set nodes)" by (intro card_mono) auto
  finally show "l \<in> {0..int (card (set nodes))}" using k(1) by simp
qed

lemma level_sets_step:
  assumes "t \<in> succ s" and "t \<notin> after_cycle nodes succ"
  shows "(\<lambda>l. l + 1) ` level_sets nodes entries succ s \<subseteq> level_sets nodes entries succ t"
proof -
  have s: "s \<notin> after_cycle nodes succ" using assms after_cycle_succ by blast
  have "int k + 1 \<in> path_levels entries succ t" if "e \<in> set entries" "(e, s) \<in> step_rel succ ^^ k" for k e
    unfolding path_levels_def using that assms(1) by (force simp: step_rel_def intro!: exI [of _ "Suc k"])
  then show ?thesis using assms(2) s by (auto simp: level_sets_def path_levels_def)
qed

lemma path_levels_least:
  assumes "(e, n) \<in> step_rel succ ^^ k" and "e \<in> set entries" and "n \<notin> after_cycle nodes succ"
    and "\<And>n. n \<in> set entries \<Longrightarrow> n \<notin> after_cycle nodes succ \<Longrightarrow> 0 \<in> L n"
    and "\<And>s t. s \<in> set nodes \<Longrightarrow> t \<in> succ s \<Longrightarrow> t \<notin> after_cycle nodes succ \<Longrightarrow> (\<lambda>l. l + 1) ` L s \<subseteq> L t"
    and "closed_succs nodes succ" and "set entries \<subseteq> set nodes"
  shows "int k \<in> L n"
  using assms(1,3)
proof (induction k arbitrary: n)
  case 0
  then show ?case using assms(2,4) by simp
next
  case (Suc k)
  then obtain m where m: "(e, m) \<in> step_rel succ ^^ k" "n \<in> succ m" by (auto simp: step_rel_def)
  then have "m \<notin> after_cycle nodes succ" "m \<in> set nodes"
    using Suc.prems(2) after_cycle_succ closed_rtrancl [OF relpow_imp_rtrancl assms(6)] assms(2,7) by blast+
  then have "int k \<in> L m" "(\<lambda>l. l + 1) ` L m \<subseteq> L n" using Suc.IH m assms(5) Suc.prems(2) by blast+
  then show ?case by (auto simp: add.commute)
qed

lemma level_loop:
  assumes c: "closed_succs nodes succ" and e: "set entries \<subseteq> set nodes"
  shows "\<exists>ch. while_option snd (level_step nodes succ (after_cycle nodes succ))
     (\<lambda>n. if n \<in> set entries \<and> n \<notin> after_cycle nodes succ then {0} else {}, True) = Some (level_sets nodes entries succ, ch)"
proof -
  let ?V = "after_cycle nodes succ" and ?B = "level_sets nodes entries succ"
  let ?es = "concat (map (\<lambda>s. map (Pair s) (sorted_list_of_set (succ s))) nodes)"
  let ?I = "\<lambda>n. if n \<in> set entries \<and> n \<notin> ?V then {0} else {} :: int set"
  let ?P = "\<lambda>(L, ch). (\<forall>n. ?I n \<subseteq> L n \<and> L n \<subseteq> ?B n) \<and> (\<not> ch \<longrightarrow> (\<forall>(s, t)\<in>set ?es. t \<notin> ?V \<longrightarrow> (\<lambda>l. l + 1) ` L s \<subseteq> L t))"
  let ?m = "\<lambda>(L, ch). 2 * (\<Sum>n\<in>set nodes. card (?B n - L n)) + (if ch then 1 else 0)"
  have es: "(s, t) \<in> set ?es \<longleftrightarrow> s \<in> set nodes \<and> t \<in> succ s" for s t using closed_finite [OF c] by auto
  have fin: "finite (?B n)" for n using level_sets_bounded [OF c e] finite_subset by blast
  have out: "?B n = {}" if "n \<notin> set nodes" for n
  proof -
    have "n \<in> set nodes" if "e' \<in> set entries" "(e', n) \<in> step_rel succ ^^ k" for e' k
      using that e closed_rtrancl [OF relpow_imp_rtrancl c] by blast
    then show ?thesis using that by (auto simp: level_sets_def path_levels_def)
  qed
  have bnd: "\<forall>(s, t)\<in>set ?es. t \<notin> ?V \<longrightarrow> (\<lambda>l. l + 1) ` ?B s \<subseteq> ?B t" using level_sets_step es by fast
  have "?P (level_step nodes succ ?V x) \<and> ?m (level_step nodes succ ?V x) < ?m x" if P: "?P x" and ch: "snd x" for x
  proof -
    obtain L where x: "x = (L, True)" using ch by (metis prod.collapse)
    obtain L' ch' where s: "level_step nodes succ ?V x = (L', ch')" by fastforce
    have L: "?I n \<subseteq> L n" "L n \<subseteq> ?B n" for n using P x by auto
    have L3: "finite (L n)" for n by (rule finite_subset [OF L(2) fin])
    note f = raise_level_fold [OF s [unfolded x level_step_fold] L3]
    have L': "L n \<subseteq> L' n" "L' n \<subseteq> ?B n" for n using f L(2) bnd by blast+
    have "?I n \<subseteq> L' n \<and> L' n \<subseteq> ?B n" for n using order_trans [OF L(1) L'(1)] L'(2) by blast
    moreover have "\<forall>(s, t)\<in>set ?es. t \<notin> ?V \<longrightarrow> (\<lambda>l. l + 1) ` L' s \<subseteq> L' t" if "\<not> ch'"
    proof -
      have e: "L' = L" using f [THEN conjunct2, THEN conjunct1] that by blast
      show ?thesis unfolding e by (rule mp [OF f [THEN conjunct2, THEN conjunct2, THEN conjunct1] e])
    qed
    ultimately have "?P (L', ch')" by blast
    moreover have "?m (L', ch') < ?m x"
    proof (cases "L' = L")
      case False
      then obtain n where n: "L n \<subset> L' n" using L'(1) by blast
      then have "n \<in> set nodes" using L'(2) out by blast
      moreover have "?B n - L' n \<subset> ?B n - L n" using n L'(2) [of n] by blast
      then have "card (?B n - L' n) < card (?B n - L n)" using fin by (intro psubset_card_mono) auto
      moreover have "card (?B m - L' m) \<le> card (?B m - L m)" for m using L'(1) fin by (intro card_mono) auto
      ultimately have "(\<Sum>n\<in>set nodes. card (?B n - L' n)) < (\<Sum>n\<in>set nodes. card (?B n - L n))" by (intro sum_strict_mono_ex1) auto
      then show ?thesis using x by auto
    qed (use f x in simp)
    ultimately show ?thesis using s by simp
  qed
  moreover have "?P (?I, True)" using e by (auto simp: level_sets_def path_levels_def intro!: exI [of _ 0])
  ultimately have "\<exists>t. while_option snd (level_step nodes succ ?V) (?I, True) = Some t \<and> ?P t \<and> \<not> snd t"
    by (intro while_option_total [of ?P _ snd _ ?m])
  then obtain L ch where w: "while_option snd (level_step nodes succ ?V) (?I, True) = Some (L, ch)" and P: "?P (L, ch)" and n: "\<not> ch" by auto
  have "?B n \<subseteq> L n" for n
  proof
    fix l assume "l \<in> ?B n"
    then obtain k e' where k: "l = int k" "e' \<in> set entries" "(e', n) \<in> step_rel succ ^^ k" "n \<notin> ?V"
      by (auto simp: level_sets_def path_levels_def split: if_splits)
    have "int k \<in> L n"
    proof (rule path_levels_least [OF k(3,2,4) _ _ c e])
      show "0 \<in> L m" if "m \<in> set entries" "m \<notin> ?V" for m using P that by (auto split: if_splits)
      show "(\<lambda>l. l + 1) ` L s \<subseteq> L t" if "s \<in> set nodes" "t \<in> succ s" "t \<notin> ?V" for s t
      proof -
        have "(s, t) \<in> set ?es" unfolding es using that by blast
        moreover have "\<forall>(s, t)\<in>set ?es. t \<notin> ?V \<longrightarrow> (\<lambda>l. l + 1) ` L s \<subseteq> L t" using P n by blast
        ultimately show ?thesis using that(3) by blast
      qed
    qed
    then show "l \<in> L n" using k(1) by simp
  qed
  then have "L = ?B" using P by (intro ext) blast
  then show ?thesis using w by blast
qed

lemma absolute_levels_correct:
  assumes c: "closed_succs nodes succ" and e: "set entries \<subseteq> set nodes"
  shows "\<exists>A. absolute_activation_levels nodes entries succ = Some A \<and>
    (\<forall>n k. A n = Some k \<longleftrightarrow> n \<in> set nodes \<and> level_sets nodes entries succ n = {k})"
proof -
  obtain ch where "while_option snd (level_step nodes succ (after_cycle nodes succ))
     (\<lambda>n. if n \<in> set entries \<and> n \<notin> after_cycle nodes succ then {0} else {}, True) = Some (level_sets nodes entries succ, ch)"
    using level_loop [OF assms] by blast
  then have a: "absolute_activation_levels nodes entries succ = Some (\<lambda>n. if n \<in> set nodes \<and> card (level_sets nodes entries succ n) = 1
      then Some (hd (sorted_list_of_set (level_sets nodes entries succ n))) else None)"
    using cycle_reachable_correct [OF c] by (simp add: absolute_activation_levels_def)
  have "card S = 1 \<and> hd (sorted_list_of_set S) = k \<longleftrightarrow> S = {k}" for S :: "int set" and k
    by (cases "\<exists>x. S = {x}") (auto simp: card_1_singleton_iff)
  then have "\<forall>n k. ((if n \<in> set nodes \<and> card (level_sets nodes entries succ n) = 1
      then Some (hd (sorted_list_of_set (level_sets nodes entries succ n))) else None) = Some k) \<longleftrightarrow>
      n \<in> set nodes \<and> level_sets nodes entries succ n = {k}" by auto
  with a show ?thesis by blast
qed


section \<open>Dependency order\<close>

text \<open>Every node of the list comes after its dependencies.\<close>

definition follows_dependencies :: "(string \<Rightarrow> string set) \<Rightarrow> string list \<Rightarrow> bool" where
  "follows_dependencies deps xs \<longleftrightarrow> (\<forall>ys n zs. xs = ys @ n # zs \<longrightarrow> deps n \<subseteq> set ys)"

lemma follows_append:
  assumes "follows_dependencies deps xs" and "\<And>n. n \<in> set ys \<Longrightarrow> deps n \<subseteq> set xs"
  shows "follows_dependencies deps (xs @ ys)"
  unfolding follows_dependencies_def
proof (intro allI impI)
  fix as n bs assume a: "xs @ ys = as @ n # bs"
  show "deps n \<subseteq> set as"
  proof (cases "length as < length xs")
    case True
    then have "xs = as @ n # take (length xs - length as - 1) bs"
      using a by (metis append_eq_append_conv_if append_take_drop_id less_imp_le_nat list.sel(3) take_Cons' take_append take_all
          Suc_diff_Suc diff_Suc_1 diff_Suc_eq_diff_pred nat_less_le take_hd_drop zero_less_diff append_Nil2 append_eq_conv_conj take_Suc_Cons)
    then show ?thesis using assms(1) by (auto simp: follows_dependencies_def)
  next
    case False
    then have "set xs \<subseteq> set as" "n \<in> set ys"
      using a by (auto simp: append_eq_append_conv2 append_eq_Cons_conv Cons_eq_append_conv)
    then show ?thesis using assms(2) by blast
  qed
qed

lemma minimal_dependency:
  assumes "finite P" "P \<noteq> {}" and "acyclic {(a, b). a \<in> deps b \<and> a \<in> P \<and> b \<in> P}"
  obtains n where "n \<in> P" "deps n \<inter> P = {}"
proof -
  let ?R = "{(a, b). a \<in> deps b \<and> a \<in> P \<and> b \<in> P}"
  have "?R \<subseteq> P \<times> P" by auto
  then have "wf ?R" using assms(1,3) by (meson finite_SigmaI finite_acyclic_wf finite_subset)
  then obtain n where "n \<in> P" "\<And>a. (a, n) \<in> ?R \<Longrightarrow> a \<notin> P" using assms(2) by (meson ex_in_conv wfE_min)
  then show thesis using that by blast
qed

lemma dependency_order_total:
  assumes fin: "finite fixed" and ac: "acyclic {(a, b). a \<in> deps b \<and> a \<in> fixed \<and> b \<in> fixed}"
    and sub: "\<And>n. n \<in> fixed \<Longrightarrow> deps n \<subseteq> fixed"
  obtains xs where "dependency_order deps fixed = Some xs" "set xs = fixed" "distinct xs" "follows_dependencies deps xs"
proof -
  let ?P = "\<lambda>(xs, pending). set xs \<union> pending = fixed \<and> set xs \<inter> pending = {} \<and> distinct xs \<and> follows_dependencies deps xs"
  let ?b = "\<lambda>(_, pending). pending \<noteq> {}"
  have "?P (order_step deps x) \<and> card (snd (order_step deps x)) < card (snd x)" if P: "?P x" and b: "?b x" for x
  proof -
    obtain xs P where x: "x = (xs, P)" by fastforce
    have P': "finite P" "P \<noteq> {}" "P \<subseteq> fixed" using P b x fin by (auto intro: finite_subset)
    have "acyclic {(a, b). a \<in> deps b \<and> a \<in> P \<and> b \<in> P}" by (rule acyclic_subset [OF ac]) (use P' in auto)
    then obtain n where n: "n \<in> P" "deps n \<inter> P = {}" using minimal_dependency [OF P'(1,2)] by blast
    let ?ready = "{n \<in> P. deps n \<subseteq> set xs}"
    have r: "n \<in> ?ready" "finite ?ready" using n sub [of n] P x P' by (auto simp: subset_iff)
    have "follows_dependencies deps (xs @ sorted_list_of_set ?ready)" by (rule follows_append) (use P x r in auto)
    then have "?P (xs @ sorted_list_of_set ?ready, P - ?ready)" using P x r by auto
    moreover have "card (P - ?ready) < card P" using r P' by (intro psubset_card_mono) auto
    ultimately show ?thesis using x by (simp add: order_step_def Let_def)
  qed
  moreover have "?P ([], fixed)" by (simp add: follows_dependencies_def)
  ultimately have "\<exists>t. while_option ?b (order_step deps) ([], fixed) = Some t \<and> ?P t \<and> \<not> ?b t"
    by (intro while_option_total [of ?P _ ?b _ "\<lambda>x. card (snd x)"])
  then show thesis using that by (auto simp: dependency_order_def)
qed

section \<open>Data cycles\<close>

definition no_cycles_below :: "succs \<Rightarrow> string set \<Rightarrow> bool" where
  "no_cycles_below deps S \<longleftrightarrow> (\<forall>x\<in>S. deps x \<subseteq> S \<and> \<not> on_cycle deps x)"

lemma no_cycles_insert:
  assumes "no_cycles_below deps S" and "deps n \<subseteq> S"
  shows "no_cycles_below deps (insert n S)"
proof -
  have "\<not> on_cycle deps n"
  proof
    assume "on_cycle deps n"
    then obtain s where s: "s \<in> deps n" "(s, n) \<in> (step_rel deps)\<^sup>*" by (auto simp: on_cycle_step)
    then have "n \<in> S" using closed_invariant [OF s(2)] assms by (auto simp: no_cycles_below_def)
    then show False using assms(1) \<open>on_cycle deps n\<close> by (auto simp: no_cycles_below_def)
  qed
  then show ?thesis using assms by (auto simp: no_cycles_below_def)
qed

lemma visit_any_correct:
  assumes "closed_succs nodes deps" and "set ns \<subseteq> set nodes" and "no_cycles_below deps visited"
    and "\<And>v n. v \<in> visiting \<Longrightarrow> n \<in> set ns \<Longrightarrow> (v, n) \<in> (step_rel deps)\<^sup>+" and "visiting \<subseteq> set nodes"
  shows "\<exists>c v. visit_any nodes deps visiting visited ns = Inr (c, v) \<and>
    (if c then \<exists>n\<in>set nodes. on_cycle deps n else no_cycles_below deps v \<and> visited \<union> set ns \<subseteq> v)"
  using assms
proof (induction nodes deps visiting visited ns rule: visit_any.induct)
  case (2 nodes deps visiting visited n ns)
  show ?case
  proof (cases "n \<in> visiting \<or> n \<in> visited")
    case True
    then show ?thesis
    proof (cases "n \<in> visiting")
      case True
      then have "on_cycle deps n" using "2.prems"(4) by (auto simp: on_cycle_def)
      then show ?thesis using True "2.prems"(2) by auto
    next
      case False
      with True have v: "n \<in> visited" by simp
      obtain c w where w: "visit_any nodes deps visiting visited ns = Inr (c, w)"
          "if c then \<exists>n\<in>set nodes. on_cycle deps n else no_cycles_below deps w \<and> visited \<union> set ns \<subseteq> w"
        using "2.IH"(1) [OF False v] "2.prems" by auto
      moreover have "visit_any nodes deps visiting visited (n # ns) = Inr (c, w)" using False v w(1) by simp
      ultimately show ?thesis using v by (intro exI [of _ c] exI [of _ w]) (auto split: if_splits)
    qed
  next
    case False
    then have f: "n \<notin> visiting" "n \<notin> visited" "\<not> n \<notin> set nodes" using "2.prems"(2) by auto
    have fin: "finite (deps n)" "deps n \<subseteq> set nodes" using "2.prems"(1) f closed_finite by (auto simp: closed_succs_def)
    have path: "(v, m) \<in> (step_rel deps)\<^sup>+" if "v \<in> insert n visiting" "m \<in> deps n" for v m
    proof -
      have "(n, m) \<in> step_rel deps" using that by (simp add: step_rel_def)
      moreover have "v = n \<or> (v, n) \<in> (step_rel deps)\<^sup>+" using that(1) "2.prems"(4) [of v n] by auto
      ultimately show ?thesis by (blast intro: trancl_into_trancl)
    qed
    obtain c v where i: "visit_any nodes deps (insert n visiting) visited (sorted_list_of_set (deps n)) = Inr (c, v)"
      "if c then \<exists>n\<in>set nodes. on_cycle deps n else no_cycles_below deps v \<and> visited \<union> deps n \<subseteq> v"
      using "2.IH"(2) [OF f] "2.prems"(1,3,5) fin path f(3) by (metis insert_subset not_not set_sorted_list_of_set)
    show ?thesis
    proof (cases c)
      case True
      then show ?thesis using i f by auto
    next
      case c: False
      then have v: "no_cycles_below deps (insert n v)" "visited \<subseteq> v" using i(2) no_cycles_insert by auto
      obtain c' w where w: "visit_any nodes deps visiting (insert n v) ns = Inr (c', w)"
          "if c' then \<exists>n\<in>set nodes. on_cycle deps n else no_cycles_below deps w \<and> insert n v \<union> set ns \<subseteq> w"
        using "2.IH"(3) [OF f i(1) refl c] "2.prems" v by auto
      moreover have "visit_any nodes deps visiting visited (n # ns) = Inr (c', w)" using i(1) f c w(1) by simp
      ultimately show ?thesis using v(2) by (intro exI [of _ c'] exI [of _ w]) (auto split: if_splits)
    qed
  qed
qed (intro exI [of _ False], simp)

lemma data_cycle_correct:
  assumes "closed_succs nodes deps"
  shows "data_cycle nodes deps = Inr (\<exists>n\<in>set nodes. on_cycle deps n)"
proof -
  obtain c v where i: "visit_any nodes deps {} {} (sort nodes) = Inr (c, v)"
    "if c then \<exists>n\<in>set nodes. on_cycle deps n else no_cycles_below deps v \<and> {} \<union> set (sort nodes) \<subseteq> v"
    using visit_any_correct [OF assms, of "sort nodes" "{}" "{}"] by (auto simp: no_cycles_below_def)
  then show ?thesis by (cases c) (auto simp: data_cycle_def no_cycles_below_def)
qed

end
