(* ===== verification/Compiler_Edges.thy ===== *)
theory Compiler_Edges
  imports Graph_Assembly Search_Levels
begin

text \<open>
  What the lowering of a validated edge list contains: the successor tables, the gates and the joins
  are read off the declared edges, and a node is a control successor exactly of the sources of its gates.
\<close>

section \<open>Validated edges\<close>

definition valid_edge :: "string set \<Rightarrow> edge \<Rightarrow> bool" where
  "valid_edge ids e =
     (case e of
        DirectEdge source target \<Rightarrow> source \<in> ids \<and> known_target ids target
      | ConditionalEdge source _ target \<Rightarrow> source \<in> ids \<and> known_target ids target
      | JoinEdge sources target \<Rightarrow>
          2 \<le> length sources \<and> distinct sources \<and> set sources \<subseteq> ids \<and> known_target ids target \<and> target \<notin> set sources)"

definition conditional_keys :: "edge list \<Rightarrow> (string \<times> string) list" where
  "conditional_keys es = concat (map (\<lambda>e. case e of ConditionalEdge s r _ \<Rightarrow> [(s, r)] | _ \<Rightarrow> []) es)"

lemma conditional_keys_snoc [simp]:
  "conditional_keys [] = []"
  "conditional_keys (es @ [DirectEdge s t]) = conditional_keys es"
  "conditional_keys (es @ [ConditionalEdge s r t]) = conditional_keys es @ [(s, r)]"
  "conditional_keys (es @ [JoinEdge ss t]) = conditional_keys es"
  by (simp_all add: conditional_keys_def)

lemma set_conditional_keys: "set (conditional_keys es) = {(s, r). \<exists>t. ConditionalEdge s r t \<in> set es}"
  by (force simp: conditional_keys_def split: edge.splits)

lemma validate_edges_valid:
  assumes "foldE (validate_edge ids) seen es = Inr seen'"
  shows "(\<forall>e\<in>set es. valid_edge ids e) \<and> distinct (conditional_keys es) \<and> set (conditional_keys es) \<inter> se_conditional seen = {}"
  using assms
proof (induction es arbitrary: seen)
  case Nil
  then show ?case by (simp add: conditional_keys_def)
next
  case (Cons e es)
  then obtain s1 where s: "validate_edge ids seen e = Inr s1" "foldE (validate_edge ids) s1 es = Inr seen'" by (auto simp: resE)
  note IH = Cons.IH [OF s(2)]
  have "valid_edge ids e \<and> se_conditional seen \<subseteq> se_conditional s1 \<and>
    (case e of ConditionalEdge a r _ \<Rightarrow> (a, r) \<notin> se_conditional seen \<and> (a, r) \<in> se_conditional s1 | _ \<Rightarrow> True)"
    using s(1) by (cases e) (auto simp: validate_edge_def valid_edge_def resE split: if_splits)
  moreover have "conditional_keys (e # es) = (case e of ConditionalEdge a r _ \<Rightarrow> (a, r) # conditional_keys es | _ \<Rightarrow> conditional_keys es)"
    by (cases e) (simp_all add: conditional_keys_def)
  ultimately show ?case using IH by (cases e) auto
qed

section \<open>The lowered edges\<close>

abbreviation lowered :: "edge list \<Rightarrow> lowered_edges" where
  "lowered es \<equiv> foldl lower_edge no_edges es"

lemma lower_edge_simps:
  "lower_edge le (JoinEdge ss t) = add_gate t (map (\<lambda>s. (s, None)) (sort ss)) (le\<lparr>le_joins := le_joins le @ [(sort ss, t)]\<rparr>)"
  "lower_edge le (DirectEdge s t) = add_gate t [(s, None)]
     (if t \<noteq> END_NODE then le\<lparr>le_direct := (le_direct le)(s := insert t (le_direct le s))\<rparr> else le)"
  "lower_edge le (ConditionalEdge s r t) = add_gate t [(s, Some r)]
     (le\<lparr>le_conditional := (le_conditional le)(s := AList.update r t (le_conditional le s))\<rparr>)"
  by (simp_all add: lower_edge_def)

text \<open>The gates that the declared edges open for a target.\<close>

definition edge_gates :: "edge list \<Rightarrow> string \<Rightarrow> raw_gate set" where
  "edge_gates es t =
     {[(s, None)] |s. DirectEdge s t \<in> set es} \<union> {[(s, Some r)] |s r. ConditionalEdge s r t \<in> set es} \<union>
     {map (\<lambda>s. (s, None)) (sort ss) |ss. JoinEdge ss t \<in> set es}"

lemma edge_gates_snoc:
  "edge_gates [] u = {}"
  "edge_gates (es @ [DirectEdge s t]) u = (if t = u then insert [(s, None)] (edge_gates es u) else edge_gates es u)"
  "edge_gates (es @ [ConditionalEdge s r t]) u = (if t = u then insert [(s, Some r)] (edge_gates es u) else edge_gates es u)"
  "edge_gates (es @ [JoinEdge ss t]) u = (if t = u then insert (map (\<lambda>s. (s, None)) (sort ss)) (edge_gates es u) else edge_gates es u)"
  by (auto simp: edge_gates_def)

lemma edge_gates_source:
  "(\<exists>g\<in>edge_gates es t. n \<in> fst ` set g) \<longleftrightarrow>
    DirectEdge n t \<in> set es \<or> (\<exists>r. ConditionalEdge n r t \<in> set es) \<or> (\<exists>ss. JoinEdge ss t \<in> set es \<and> n \<in> set ss)"
proof
  assume "DirectEdge n t \<in> set es \<or> (\<exists>r. ConditionalEdge n r t \<in> set es) \<or> (\<exists>ss. JoinEdge ss t \<in> set es \<and> n \<in> set ss)"
  then consider "DirectEdge n t \<in> set es" | r where "ConditionalEdge n r t \<in> set es" | ss where "JoinEdge ss t \<in> set es" "n \<in> set ss" by blast
  then show "\<exists>g\<in>edge_gates es t. n \<in> fst ` set g"
  proof cases
    case 1
    then have "[(n, None)] \<in> edge_gates es t" by (auto simp: edge_gates_def)
    then show ?thesis by force
  next
    case (2 r)
    then have "[(n, Some r)] \<in> edge_gates es t" by (auto simp: edge_gates_def)
    then show ?thesis by force
  next
    case (3 ss)
    then have "map (\<lambda>s. (s, None)) (sort ss) \<in> edge_gates es t" by (auto simp: edge_gates_def)
    then show ?thesis using 3(2) by force
  qed
qed (auto simp: edge_gates_def)

lemma add_gate_other [simp]:
  "le_direct (add_gate t g le) = le_direct le"
  "le_conditional (add_gate t g le) = le_conditional le"
  "le_joins (add_gate t g le) = le_joins le"
  by (simp_all add: add_gate_def)

lemma add_gate_gates:
  "t \<noteq> END_NODE \<Longrightarrow> le_gates (add_gate t g le) u = (if u = t then le_gates le u @ [g] else le_gates le u)"
  "le_gates (add_gate END_NODE g le) = le_gates le"
  "t \<noteq> END_NODE \<Longrightarrow> le_gates_to_end (add_gate t g le) = le_gates_to_end le"
  "le_gates_to_end (add_gate END_NODE g le) = le_gates_to_end le @ [set (map fst g)]"
  by (simp_all add: add_gate_def)

lemma lowered_direct: "le_direct (lowered es) n = {t. DirectEdge n t \<in> set es \<and> t \<noteq> END_NODE}"
proof (induction es rule: rev_induct)
  case Nil
  show ?case by (simp add: no_edges_def)
next
  case (snoc e es)
  then show ?case by (cases e) (auto simp: lower_edge_simps)
qed

lemma lowered_joins: "le_joins (lowered es) = concat (map (\<lambda>e. case e of JoinEdge ss t \<Rightarrow> [(sort ss, t)] | _ \<Rightarrow> []) es)"
proof (induction es rule: rev_induct)
  case Nil
  show ?case by (simp add: no_edges_def)
next
  case (snoc e es)
  then show ?case by (cases e) (auto simp: lower_edge_simps)
qed

lemma set_lowered_joins: "(ss, t) \<in> set (le_joins (lowered es)) \<longleftrightarrow> (\<exists>ss'. ss = sort ss' \<and> JoinEdge ss' t \<in> set es)"
  by (force simp: lowered_joins split: edge.splits)

lemma update_fresh: "k \<notin> fst ` set xs \<Longrightarrow> AList.update k v xs = xs @ [(k, v)]"
  by (induction xs) auto

lemma lowered_conditional:
  assumes "distinct (conditional_keys es)"
  shows "distinct (map fst (le_conditional (lowered es) n)) \<and> set (le_conditional (lowered es) n) = {(r, t). ConditionalEdge n r t \<in> set es}"
  using assms
proof (induction es rule: rev_induct)
  case Nil
  show ?case by (simp add: no_edges_def)
next
  case (snoc e es)
  show ?case
  proof (cases e)
    case (ConditionalEdge s r t)
    then have d: "distinct (conditional_keys es)" "(s, r) \<notin> set (conditional_keys es)" using snoc.prems by simp_all
    have fresh: "r \<notin> fst ` set (le_conditional (lowered es) s)" if "s = n" using snoc.IH [OF d(1)] d(2) that by (auto simp: set_conditional_keys)
    then have u: "AList.update r t (le_conditional (lowered es) s) = le_conditional (lowered es) s @ [(r, t)]" if "s = n"
      using that by (simp add: update_fresh)
    show ?thesis using snoc.IH [OF d(1)] ConditionalEdge u fresh by (auto simp: lower_edge_simps)
  next
    case (DirectEdge s t)
    with snoc show ?thesis by (auto simp: lower_edge_simps)
  next
    case (JoinEdge ss t)
    with snoc show ?thesis by (auto simp: lower_edge_simps)
  qed
qed

lemma lowered_gates: "u \<noteq> END_NODE \<Longrightarrow> set (le_gates (lowered es) u) = edge_gates es u"
proof (induction es rule: rev_induct)
  case Nil
  show ?case by (simp add: no_edges_def edge_gates_snoc)
next
  case (snoc e es)
  have g: "set (le_gates (add_gate t g le) u) = (if t = u then insert g (set (le_gates le u)) else set (le_gates le u))" for t g le
    using snoc.prems by (auto simp: add_gate_def)
  show ?case using snoc by (cases e) (simp_all add: lower_edge_simps g edge_gates_snoc)
qed

lemma lowered_gates_to_end: "set (le_gates_to_end (lowered es)) = (\<lambda>g. fst ` set g) ` edge_gates es END_NODE"
proof (induction es rule: rev_induct)
  case Nil
  show ?case by (simp add: no_edges_def edge_gates_snoc)
next
  case (snoc e es)
  have g: "set (le_gates_to_end (add_gate t g le)) = (if t = END_NODE then insert (fst ` set g) (set (le_gates_to_end le)) else set (le_gates_to_end le))" for t g le
    by (auto simp: add_gate_def)
  show ?case using snoc by (cases e) (auto simp: lower_edge_simps g edge_gates_snoc)
qed

section \<open>Control successors\<close>

lemma static_successors_edges:
  assumes "distinct (conditional_keys es)"
  shows "static_successors (le_direct (lowered es)) (le_conditional (lowered es)) n =
    {t. t \<noteq> END_NODE \<and> (DirectEdge n t \<in> set es \<or> (\<exists>r. ConditionalEdge n r t \<in> set es))}"
proof -
  have c: "set (le_conditional (lowered es) n) = {(r, t). ConditionalEdge n r t \<in> set es}" using lowered_conditional [OF assms] by simp
  show ?thesis unfolding static_successors_def lowered_direct set_map c by force
qed

lemma control_successors_edges:
  assumes "distinct (conditional_keys es)"
  shows "control_successors (lowered es) n = {t. t \<noteq> END_NODE \<and> (\<exists>g\<in>edge_gates es t. n \<in> fst ` set g)}"
proof -
  have "{t \<in> set (map snd (le_joins (lowered es))). t \<noteq> END_NODE \<and> (\<exists>(sources, t')\<in>set (le_joins (lowered es)). t' = t \<and> n \<in> set sources)} =
    {t. t \<noteq> END_NODE \<and> (\<exists>ss. JoinEdge ss t \<in> set es \<and> n \<in> set ss)}" (is "?L = ?R")
  proof (rule set_eqI)
    fix t
    have "t \<in> ?L \<longleftrightarrow> t \<noteq> END_NODE \<and> (\<exists>ss. (ss, t) \<in> set (le_joins (lowered es)) \<and> n \<in> set ss)" by force
    then show "t \<in> ?L \<longleftrightarrow> t \<in> ?R" unfolding set_lowered_joins by auto
  qed
  moreover have "(\<exists>g\<in>edge_gates es t. n \<in> fst ` set g) \<longleftrightarrow>
    DirectEdge n t \<in> set es \<or> (\<exists>r. ConditionalEdge n r t \<in> set es) \<or> (\<exists>ss. JoinEdge ss t \<in> set es \<and> n \<in> set ss)" for t
    by (rule edge_gates_source)
  ultimately show ?thesis unfolding control_successors_def static_successors_edges [OF assms] by auto
qed

lemma gate_successor:
  assumes "distinct (conditional_keys es)" "t \<noteq> END_NODE" "g \<in> set (le_gates (lowered es) t)" "s \<in> fst ` set g"
  shows "t \<in> control_successors (lowered es) s"
  using assms by (auto simp: control_successors_edges lowered_gates)

section \<open>Validated topologies\<close>

text \<open>What validation establishes of the nodes, edges and entries of one definition.\<close>

definition valid_shape :: "graph_definition \<Rightarrow> bool" where
  "valid_shape d \<longleftrightarrow>
     (let ids = set (map nf_node_id (gd_nodes d)) in
      distinct (map nf_node_id (gd_nodes d)) \<and> END_NODE \<notin> ids \<and> START_NODE \<notin> ids \<and> (\<forall>n\<in>ids. is_canonical_identity n) \<and>
      set (gd_entries d) \<subseteq> ids \<and> distinct (gd_entries d) \<and>
      (\<forall>e\<in>set (gd_edges d). valid_edge ids e) \<and> distinct (conditional_keys (gd_edges d)))"

lemma validate_own_shape:
  assumes "validate_own d = Inr ()"
  shows "valid_shape d"
proof -
  from assms obtain s where "forE validate_node_identity (gd_nodes d) = Inr ()" "distinct (map nf_node_id (gd_nodes d))"
    "distinct (gd_entries d)" "set (gd_entries d) \<subseteq> set (map nf_node_id (gd_nodes d))"
    "foldE (validate_edge (set (map nf_node_id (gd_nodes d)))) \<lparr>se_direct = {}, se_conditional = {}, se_join = {}\<rparr> (gd_edges d) = Inr s"
    by (auto simp: validate_own_def validate_edges_def Let_def resE split: if_splits)
  then show ?thesis
    using validate_edges_valid [of "set (map nf_node_id (gd_nodes d))" _ "gd_edges d" s]
    by (auto simp: valid_shape_def validate_node_identity_def require_graph_identity_def resE)
qed

lemma edge_gates_sources:
  assumes "\<forall>e\<in>set es. valid_edge ids e" "g \<in> edge_gates es t"
  shows "fst ` set g \<subseteq> ids" "known_target ids t" "g \<noteq> []" "t \<noteq> END_NODE \<Longrightarrow> t \<in> ids"
proof -
  from assms(2) consider s where "DirectEdge s t \<in> set es" "g = [(s, None)]" | s r where "ConditionalEdge s r t \<in> set es" "g = [(s, Some r)]"
    | ss where "JoinEdge ss t \<in> set es" "g = map (\<lambda>s. (s, None)) (sort ss)"
    unfolding edge_gates_def by blast
  then have "fst ` set g \<subseteq> ids \<and> known_target ids t \<and> g \<noteq> []"
  proof cases
    case (3 ss)
    then have "valid_edge ids (JoinEdge ss t)" using assms(1) by blast
    then have "set (sort ss) \<subseteq> ids" "known_target ids t" "sort ss \<noteq> []" by (auto simp: valid_edge_def simp flip: length_0_conv)
    then show ?thesis using 3(2) by auto
  qed (use assms(1) in \<open>force simp: valid_edge_def\<close>)+
  then show "fst ` set g \<subseteq> ids" "known_target ids t" "g \<noteq> []" "t \<noteq> END_NODE \<Longrightarrow> t \<in> ids"
    by (auto simp: known_target_def)
qed

lemma control_successors_closed:
  assumes "\<forall>e\<in>set es. valid_edge (set nodes) e" "distinct (conditional_keys es)"
  shows "closed_succs nodes (control_successors (lowered es))"
  using edge_gates_sources [OF assms(1)] assms(2) by (auto simp: closed_succs_def control_successors_edges)

lemma static_successors_closed:
  assumes "\<forall>e\<in>set es. valid_edge (set nodes) e" "distinct (conditional_keys es)"
  shows "closed_succs nodes (static_successors (le_direct (lowered es)) (le_conditional (lowered es)))"
  using assms by (fastforce simp: closed_succs_def static_successors_edges valid_edge_def known_target_def)

end
