(* ===== verification/Bdd_Semantics.thy ===== *)
theory Bdd_Semantics
  imports Bdd_Manager
begin

text \<open>
  The meaning of the references of the manager, its invariant, and canonicity: references with the
  same meaning are equal.
\<close>

section \<open>Meaning\<close>

type_synonym table = "bdd_node option list"

function beval :: "table \<Rightarrow> nat \<Rightarrow> (nat \<Rightarrow> bool) \<Rightarrow> bool" where
  "beval ns r e =
     (if r = 1 then True
      else if r < length ns
      then (case ns ! r of
          Some (BddNode v l h) \<Rightarrow> if l < r \<and> h < r then beval ns (if e v then h else l) e else False
        | None \<Rightarrow> False)
      else False)"
  by pat_completeness auto
termination by (relation "measure (\<lambda>(ns, r, e). r)") auto

declare beval.simps [simp del]

text \<open>The variables of \<open>r\<close> are at least \<open>k\<close>.\<close>

definition starts_at :: "table \<Rightarrow> nat \<Rightarrow> nat \<Rightarrow> bool" where
  "starts_at ns k r \<longleftrightarrow> r < 2 \<or> (\<exists>n. r < length ns \<and> ns ! r = Some n \<and> k \<le> bn_variable n)"

definition wf_table :: "table \<Rightarrow> bool" where
  "wf_table ns \<longleftrightarrow> 2 \<le> length ns \<and> ns ! 0 = None \<and> ns ! 1 = None \<and>
     (\<forall>r. 2 \<le> r \<longrightarrow> r < length ns \<longrightarrow> (\<exists>v l h. ns ! r = Some (BddNode v l h) \<and> l < r \<and> h < r \<and> l \<noteq> h \<and>
        starts_at ns (Suc v) l \<and> starts_at ns (Suc v) h)) \<and>
     (\<forall>r s. 2 \<le> r \<longrightarrow> r < length ns \<longrightarrow> s < length ns \<longrightarrow> ns ! r = ns ! s \<longrightarrow> r = s)"

lemma wf_table_node:
  assumes "wf_table ns" "2 \<le> r" "r < length ns"
  obtains v l h where "ns ! r = Some (BddNode v l h)" "l < r" "h < r" "l \<noteq> h" "starts_at ns (Suc v) l" "starts_at ns (Suc v) h"
  using assms unfolding wf_table_def by blast

lemma beval_leaf [simp]:
  assumes "wf_table ns"
  shows "\<not> beval ns 0 e" and "beval ns 1 e" and "beval ns (Suc 0) e"
  using assms by (auto simp: beval.simps [of ns 0] beval.simps [of ns "Suc 0"] wf_table_def)

lemma beval_node:
  assumes "wf_table ns" "r < length ns" "ns ! r = Some (BddNode v l h)"
  shows "beval ns r e = beval ns (if e v then h else l) e"
proof -
  have "2 \<le> r" using assms by (cases "r = 0"; cases "r = 1") (auto simp: wf_table_def)
  then obtain v' l' h' where "ns ! r = Some (BddNode v' l' h')" "l' < r" "h' < r" using wf_table_node assms by blast
  then show ?thesis using assms \<open>2 \<le> r\<close> by (simp add: beval.simps [of ns r])
qed

lemma beval_prefix:
  assumes "r < length ns"
  shows "beval (ns @ ms) r e = beval ns r e"
  using assms
proof (induction r rule: less_induct)
  case (less r)
  show ?case
  proof (cases "ns ! r")
    case (Some n)
    obtain v l h where n: "n = BddNode v l h" by (cases n)
    show ?thesis using less Some n by (simp add: beval.simps [of _ r] nth_append)
  qed (use less in \<open>simp add: beval.simps [of _ r] nth_append\<close>)
qed

lemma starts_at_prefix: "r < length ns \<Longrightarrow> starts_at (ns @ ms) k r = starts_at ns k r"
  by (auto simp: starts_at_def nth_append)

lemma starts_at_mono: "starts_at ns k r \<Longrightarrow> k' \<le> k \<Longrightarrow> starts_at ns k' r"
  by (auto simp: starts_at_def)

lemma starts_at_leaf [simp]: "starts_at ns k 0" "starts_at ns k (Suc 0)" "starts_at ns k 1"
  by (auto simp: starts_at_def)

lemma beval_agree:
  assumes "wf_table ns" "r < length ns" "starts_at ns k r" "\<And>v. k \<le> v \<Longrightarrow> e v = e' v"
  shows "beval ns r e = beval ns r e'"
  using assms(2-4)
proof (induction r arbitrary: k rule: less_induct)
  case (less r)
  show ?case
  proof (cases "r < 2")
    case False
    then obtain w l h where n: "ns ! r = Some (BddNode w l h)" "l < r" "h < r" "starts_at ns (Suc w) l" "starts_at ns (Suc w) h"
      using wf_table_node [OF assms(1)] less.prems by (metis linorder_not_less)
    have w: "k \<le> w" using less.prems n(1) False by (auto simp: starts_at_def)
    then have "\<And>v. Suc w \<le> v \<Longrightarrow> e v = e' v" "e w = e' w" using less.prems(3) by auto
    then have "beval ns l e = beval ns l e'" "beval ns h e = beval ns h e'" "e w = e' w"
      using less.IH [OF n(2) _ n(4)] less.IH [OF n(3) _ n(5)] less.prems(1) n(2,3) by simp_all
    then show ?thesis using beval_node [OF assms(1) less.prems(1) n(1)] by simp
  qed (use assms(1) in \<open>auto simp: less_2_cases_iff\<close>)
qed

lemma beval_independent:
  assumes "wf_table ns" "r < length ns" "starts_at ns k r" "v < k"
  shows "beval ns r (e(v := x)) = beval ns r e"
  using assms(4) by (intro beval_agree [OF assms(1-3)]) simp

section \<open>Canonicity\<close>

lemma cofactors_equal:
  assumes "wf_table ns" "r < length ns" "ns ! r = Some (BddNode v l h)" "\<And>e. beval ns r e = f e"
    and "\<And>e x. f (e(v := x)) = f e"
  shows "beval ns l e = f e" and "beval ns h e = f e"
proof -
  have "2 \<le> r" using assms(1-3) by (cases "r = 0"; cases "r = 1") (auto simp: wf_table_def)
  then have s: "starts_at ns (Suc v) l" "starts_at ns (Suc v) h" "l < r" "h < r" using wf_table_node [OF assms(1) _ assms(2)] assms(3) by auto
  have "beval ns l e = beval ns l (e(v := False))" using beval_independent [OF assms(1) _ s(1)] s(3) assms(2) by simp
  also have "\<dots> = beval ns r (e(v := False))" using beval_node [OF assms(1-3)] by simp
  finally show "beval ns l e = f e" using assms(4,5) by simp
  have "beval ns h e = beval ns h (e(v := True))" using beval_independent [OF assms(1) _ s(2)] s(4) assms(2) by simp
  also have "\<dots> = beval ns r (e(v := True))" using beval_node [OF assms(1-3)] by simp
  finally show "beval ns h e = f e" using assms(4,5) by simp
qed

lemma leaf_value: "wf_table ns \<Longrightarrow> r < 2 \<Longrightarrow> beval ns r e = (r = 1)"
  by (auto simp: less_2_cases_iff)

lemma canonical_leaf:
  assumes w: "wf_table ns"
  shows "r < length ns \<Longrightarrow> (\<And>e. beval ns r e = c) \<Longrightarrow> r = (if c then 1 else 0)"
proof (induction r rule: less_induct)
  case (less r)
  show ?case
  proof (cases "r < 2")
    case True
    then show ?thesis using less.prems(2) w by (auto simp: less_2_cases_iff)
  next
    case False
    then obtain v l h where n: "ns ! r = Some (BddNode v l h)" "l < r" "h < r" "l \<noteq> h"
      using wf_table_node [OF w] less.prems by (metis linorder_not_less)
    have "beval ns l e = c" "beval ns h e = c" for e using cofactors_equal [OF w less.prems(1) n(1), of "\<lambda>_. c"] less.prems(2) by auto
    then have "l = h" using less.IH [OF n(2)] less.IH [OF n(3)] less.prems(1) n(2,3) by simp
    then show ?thesis using n(4) by simp
  qed
qed

lemma canonical:
  assumes w: "wf_table ns"
  shows "r < length ns \<Longrightarrow> s < length ns \<Longrightarrow> (\<And>e. beval ns r e = beval ns s e) \<Longrightarrow> r = s"
proof (induction "r + s" arbitrary: r s rule: less_induct)
  case less
  have leaf: "s = r" if "r < 2" "r < length ns" "s < length ns" "\<And>e. beval ns s e = beval ns r e" for r s
  proof -
    have "beval ns r e = (r = 1)" for e using leaf_value [OF w that(1)] by simp
    then have "s = (if r = 1 then 1 else 0)" using canonical_leaf [OF w that(3), of "r = 1"] that(4) by simp
    then show ?thesis using that(1) by (auto simp: less_2_cases_iff)
  qed
  have half: "r' = s'" if "r' + s' = r + s" "2 \<le> r'" "r' < length ns" "s' < length ns" "\<And>e. beval ns r' e = beval ns s' e"
    "ns ! r' = Some (BddNode v l h)" "l < r'" "h < r'" "l \<noteq> h" "starts_at ns (Suc v) s'" for r' s' v l h
  proof -
    have "beval ns l e = beval ns s' e" "beval ns h e = beval ns s' e" for e
      using cofactors_equal [OF w that(3,6), of "beval ns s'"] that(5) beval_independent [OF w that(4,10)] by auto
    then have "l = s'" "h = s'" using less.hyps [of l s'] less.hyps [of h s'] that by auto
    then show ?thesis using that(9) by simp
  qed
  show ?case
  proof (cases "r < 2 \<or> s < 2")
    case False
    then obtain v l h w' l' h' where n: "ns ! r = Some (BddNode v l h)" "l < r" "h < r" "l \<noteq> h" "starts_at ns (Suc v) l" "starts_at ns (Suc v) h"
      and m: "ns ! s = Some (BddNode w' l' h')" "l' < s" "h' < s" "l' \<noteq> h'" "starts_at ns (Suc w') l'" "starts_at ns (Suc w') h'"
      using wf_table_node [OF w] less.prems by (metis linorder_not_less)
    consider "v < w'" | "w' < v" | "v = w'" by linarith
    then show ?thesis
    proof cases
      case 1
      then show ?thesis using half [of r s] n m(1) False less.prems by (auto simp: starts_at_def)
    next
      case 2
      then have "s = r" using half [of s r] m n(1) False less.prems by (auto simp: starts_at_def add.commute)
      then show ?thesis by simp
    next
      case 3
      have eq: "beval ns (if x then h else l) e = beval ns (if x then h' else l') e" for x e
      proof -
        have "beval ns q e = beval ns q (e(v := x))" if "q \<in> {l, h, l', h'}" for q
          using beval_independent [OF w, of q "Suc v" v] that n m 3 less.prems(1,2) by auto
        moreover have "beval ns (if x then h else l) (e(v := x)) = beval ns (if x then h' else l') (e(v := x))"
          using less.prems(3) [of "e(v := x)"] beval_node [OF w less.prems(1) n(1)] beval_node [OF w less.prems(2) m(1)] 3 by simp
        ultimately show ?thesis by simp
      qed
      have "l = l'" using less.hyps [of l l'] eq [of False] n m less.prems(1,2) by simp
      moreover have "h = h'" using less.hyps [of h h'] eq [of True] n m less.prems(1,2) by simp
      ultimately have "ns ! r = ns ! s" using n(1) m(1) 3 by simp
      moreover have "\<forall>r s. 2 \<le> r \<longrightarrow> r < length ns \<longrightarrow> s < length ns \<longrightarrow> ns ! r = ns ! s \<longrightarrow> r = s"
        using w unfolding wf_table_def by blast
      ultimately show ?thesis using less.prems(1,2) False by auto
    qed
  next
    case True
    then show ?thesis using leaf [of r s] leaf [of s r] less.prems by metis
  qed
qed

end
