(* ===== verification/Bdd_Correct.thy ===== *)
theory Bdd_Correct
  imports Bdd_Semantics
begin

text \<open>
  Correctness of the manager: its invariant, the meaning of every operation, and that every
  operation returns.

  \<^item> \<open>denotes b r F\<close>: the reference \<open>r\<close> of the manager \<open>b\<close> stands for the Boolean function \<open>F\<close>.
  \<^item> \<open>grows b b'\<close>: the table and the apply cache of \<open>b'\<close> extend those of \<open>b\<close>, so meanings persist.
  \<^item> \<open>yields b m Q\<close>: \<open>m\<close> returns from \<open>b\<close>, keeps the invariant and the meanings, and its result satisfies \<open>Q\<close>.
\<close>

section \<open>Invariant\<close>

definition denotes :: "bdd \<Rightarrow> nat \<Rightarrow> ((nat \<Rightarrow> bool) \<Rightarrow> bool) \<Rightarrow> bool" where
  "denotes b r F \<longleftrightarrow> r < length (bd_nodes b) \<and> beval (bd_nodes b) r = F"

primrec op_sem :: "bdd_operation \<Rightarrow> bool \<Rightarrow> bool \<Rightarrow> bool" where
  "op_sem AND_OP x y = (x \<and> y)"
| "op_sem OR_OP x y = (x \<or> y)"
| "op_sem XOR_OP x y = (x \<noteq> y)"

definition ex_sem :: "nat set \<Rightarrow> ((nat \<Rightarrow> bool) \<Rightarrow> bool) \<Rightarrow> (nat \<Rightarrow> bool) \<Rightarrow> bool" where
  "ex_sem vs F e \<longleftrightarrow> (\<exists>e'. (\<forall>v. v \<notin> vs \<longrightarrow> e' v = e v) \<and> F e')"

definition rename_sem :: "(nat \<times> nat) list \<Rightarrow> ((nat \<Rightarrow> bool) \<Rightarrow> bool) \<Rightarrow> (nat \<Rightarrow> bool) \<Rightarrow> bool" where
  "rename_sem mapping F e = F (\<lambda>v. e (renamed mapping v))"

definition caches_sound :: "bdd \<Rightarrow> bool" where
  "caches_sound b \<longleftrightarrow>
     (\<forall>opr f s r. bd_apply_cache b (opr, f, s) = Some r \<longrightarrow> f < length (bd_nodes b) \<and> s < length (bd_nodes b) \<and>
        denotes b r (\<lambda>e. op_sem opr (beval (bd_nodes b) f e) (beval (bd_nodes b) s e))) \<and>
     (\<forall>c r. bd_not_cache b c = Some r \<longrightarrow> c < length (bd_nodes b) \<and> denotes b r (\<lambda>e. \<not> beval (bd_nodes b) c e)) \<and>
     (\<forall>c vs r. bd_exists_cache b (c, vs) = Some r \<longrightarrow> c < length (bd_nodes b) \<and> denotes b r (ex_sem vs (beval (bd_nodes b) c))) \<and>
     (\<forall>c m r. bd_rename_cache b (c, m) = Some r \<longrightarrow> c < length (bd_nodes b) \<and> denotes b r (rename_sem m (beval (bd_nodes b) c)))"

definition wf_bdd :: "bdd \<Rightarrow> bool" where
  "wf_bdd b \<longleftrightarrow> wf_table (bd_nodes b) \<and> caches_sound b \<and>
     (\<forall>v l h r. bd_unique b (v, l, h) = Some r \<longleftrightarrow> r < length (bd_nodes b) \<and> bd_nodes b ! r = Some (BddNode v l h))"

definition grows :: "bdd \<Rightarrow> bdd \<Rightarrow> bool" where
  "grows b b' \<longleftrightarrow> (\<exists>ms. bd_nodes b' = bd_nodes b @ ms) \<and> bd_apply_cache b \<subseteq>\<^sub>m bd_apply_cache b' \<and> bd_next_variable b \<le> bd_next_variable b'"

definition yields :: "bdd \<Rightarrow> 'a bddM \<Rightarrow> ('a \<Rightarrow> bdd \<Rightarrow> bool) \<Rightarrow> bool" where
  "yields b m Q \<longleftrightarrow> (\<exists>x b'. m b = Some (x, b') \<and> wf_bdd b' \<and> grows b b' \<and> Q x b')"

lemma wf_bddD:
  assumes "wf_bdd b"
  shows "wf_table (bd_nodes b)"
    and "bd_unique b (v, l, h) = Some r \<longleftrightarrow> r < length (bd_nodes b) \<and> bd_nodes b ! r = Some (BddNode v l h)"
    and "bd_apply_cache b (opr, f, s) = Some r \<Longrightarrow> f < length (bd_nodes b) \<and> s < length (bd_nodes b) \<and>
        denotes b r (\<lambda>e. op_sem opr (beval (bd_nodes b) f e) (beval (bd_nodes b) s e))"
    and "bd_not_cache b c = Some r \<Longrightarrow> c < length (bd_nodes b) \<and> denotes b r (\<lambda>e. \<not> beval (bd_nodes b) c e)"
    and "bd_exists_cache b (c, vs) = Some r \<Longrightarrow> c < length (bd_nodes b) \<and> denotes b r (ex_sem vs (beval (bd_nodes b) c))"
    and "bd_rename_cache b (c, m) = Some r \<Longrightarrow> c < length (bd_nodes b) \<and> denotes b r (rename_sem m (beval (bd_nodes b) c))"
  using assms unfolding wf_bdd_def caches_sound_def by blast+

lemma wf_empty: "wf_bdd empty_bdd"
  by (auto simp: wf_bdd_def caches_sound_def empty_bdd_def wf_table_def nth_Cons' less_Suc_eq numeral_2_eq_2)

section \<open>Growth\<close>

lemma grows_refl [simp]: "grows b b"
  by (simp add: grows_def)

lemma grows_trans [trans]: "grows a b \<Longrightarrow> grows b c \<Longrightarrow> grows a c"
  unfolding grows_def by (metis append.assoc map_le_trans le_trans)

lemma beval_grows:
  assumes "grows b b'" "r < length (bd_nodes b)"
  shows "r < length (bd_nodes b')" and "beval (bd_nodes b') r = beval (bd_nodes b) r"
proof -
  obtain ms where "bd_nodes b' = bd_nodes b @ ms" using assms(1) by (auto simp: grows_def)
  then show "r < length (bd_nodes b')" "beval (bd_nodes b') r = beval (bd_nodes b) r"
    using assms(2) by (simp_all add: beval_prefix fun_eq_iff)
qed

lemma denotes_grows: "denotes b r F \<Longrightarrow> grows b b' \<Longrightarrow> denotes b' r F"
  using beval_grows by (simp add: denotes_def)

lemma node_grows: "grows b b' \<Longrightarrow> r < length (bd_nodes b) \<Longrightarrow> node_at b' r = node_at b r"
  by (auto simp: grows_def node_at_def nth_append)

lemma grows_cache: "grows b b' \<Longrightarrow> bd_apply_cache b k = Some r \<Longrightarrow> bd_apply_cache b' k = Some r"
  by (metis grows_def map_le_def domI)

lemma denotes_self: "r < length (bd_nodes b) \<Longrightarrow> denotes b r (beval (bd_nodes b) r)"
  by (simp add: denotes_def)

lemma denotes_leaf [simp]: "wf_bdd b \<Longrightarrow> denotes b 0 (\<lambda>_. False)" "wf_bdd b \<Longrightarrow> denotes b 1 (\<lambda>_. True)"
    "wf_bdd b \<Longrightarrow> denotes b (Suc 0) (\<lambda>_. True)"
  using wf_bddD(1) by (auto simp: denotes_def fun_eq_iff wf_table_def dest: wf_bddD(1))

lemma denotes_unique: "wf_bdd b \<Longrightarrow> denotes b r F \<Longrightarrow> denotes b s F \<Longrightarrow> r = s"
  using canonical [OF wf_bddD(1)] by (metis denotes_def)

lemma denotes_eq: "wf_bdd b \<Longrightarrow> denotes b r F \<Longrightarrow> denotes b s G \<Longrightarrow> r = s \<longleftrightarrow> F = G"
  using denotes_unique by (metis denotes_def)

lemma satisfiable_exact: "wf_bdd b \<Longrightarrow> denotes b r F \<Longrightarrow> satisfiable r \<longleftrightarrow> (\<exists>e. F e)"
  using denotes_eq [of b r F 0 "\<lambda>_. False"] by (auto simp: satisfiable_def bdd_false_def fun_eq_iff)

text \<open>A function that ignores the variables below \<open>k\<close> has a diagram that starts at \<open>k\<close>.\<close>

lemma starts_at_semantic:
  assumes w: "wf_table ns" and r: "r < length ns" and i: "\<And>v e x. v < k \<Longrightarrow> beval ns r (e(v := x)) = beval ns r e"
  shows "starts_at ns k r"
proof (rule ccontr)
  assume s: "\<not> starts_at ns k r"
  then have "2 \<le> r" by (simp add: starts_at_def)
  then obtain v l h where n: "ns ! r = Some (BddNode v l h)" "l < r" "h < r" "l \<noteq> h" using wf_table_node [OF w _ r] by blast
  have "v < k" using s r n(1) by (auto simp: starts_at_def)
  then have "beval ns l e = beval ns r e" "beval ns h e = beval ns r e" for e
    using cofactors_equal [OF w r n(1), of "beval ns r"] i by simp_all
  then show False using canonical [OF w, of l h] n r by simp
qed

lemma denotes_starts: "wf_bdd b \<Longrightarrow> denotes b r H \<Longrightarrow> (\<And>u e x. u < k \<Longrightarrow> H (e(u := x)) = H e) \<Longrightarrow> starts_at (bd_nodes b) k r"
  by (rule starts_at_semantic [OF wf_bddD(1)]) (auto simp: denotes_def)

lemma denotes_indep: "wf_bdd b \<Longrightarrow> denotes b r H \<Longrightarrow> starts_at (bd_nodes b) k r \<Longrightarrow> u < k \<Longrightarrow> H (e(u := x)) = H e"
  using beval_independent [OF wf_bddD(1)] by (auto simp: denotes_def)

section \<open>Nodes and variables\<close>

lemma yieldsI: "m b = Some (x, b') \<Longrightarrow> wf_bdd b' \<Longrightarrow> grows b b' \<Longrightarrow> Q x b' \<Longrightarrow> yields b m Q"
  by (auto simp: yields_def)

lemma yieldsE:
  assumes "yields b m Q"
  obtains x b' where "m b = Some (x, b')" "wf_bdd b'" "grows b b'" "Q x b'"
  using assms by (auto simp: yields_def)

lemma caches_sound_grow:
  assumes "caches_sound b" "grows b b'" "bd_apply_cache b' = bd_apply_cache b" "bd_not_cache b' = bd_not_cache b"
    "bd_exists_cache b' = bd_exists_cache b" "bd_rename_cache b' = bd_rename_cache b"
  shows "caches_sound b'"
proof -
  note old = assms(1) [unfolded caches_sound_def]
  note up = beval_grows [OF assms(2)] denotes_grows [OF _ assms(2)]
  show ?thesis
    unfolding caches_sound_def assms(3-6)
  proof (intro conjI allI impI)
    fix opr f s r
    assume "bd_apply_cache b (opr, f, s) = Some r"
    then have "f < length (bd_nodes b)" "s < length (bd_nodes b)"
      "denotes b r (\<lambda>e. op_sem opr (beval (bd_nodes b) f e) (beval (bd_nodes b) s e))" using old by blast+
    then show "f < length (bd_nodes b')" "s < length (bd_nodes b')"
      "denotes b' r (\<lambda>e. op_sem opr (beval (bd_nodes b') f e) (beval (bd_nodes b') s e))" using up by simp_all
  next
    fix c r
    assume "bd_not_cache b c = Some r"
    then have "c < length (bd_nodes b)" "denotes b r (\<lambda>e. \<not> beval (bd_nodes b) c e)" using old by blast+
    then show "c < length (bd_nodes b')" "denotes b' r (\<lambda>e. \<not> beval (bd_nodes b') c e)" using up by simp_all
  next
    fix c vs r
    assume "bd_exists_cache b (c, vs) = Some r"
    then have "c < length (bd_nodes b)" "denotes b r (ex_sem vs (beval (bd_nodes b) c))" using old by blast+
    then show "c < length (bd_nodes b')" "denotes b' r (ex_sem vs (beval (bd_nodes b') c))" using up by simp_all
  next
    fix c m r
    assume "bd_rename_cache b (c, m) = Some r"
    then have "c < length (bd_nodes b)" "denotes b r (rename_sem m (beval (bd_nodes b) c))" using old by blast+
    then show "c < length (bd_nodes b')" "denotes b' r (rename_sem m (beval (bd_nodes b') c))" using up by simp_all
  qed
qed

lemma wf_table_snoc:
  assumes w: "wf_table ns" and lh: "l < length ns" "h < length ns" "l \<noteq> h" "starts_at ns (Suc v) l" "starts_at ns (Suc v) h"
    and new: "Some (BddNode v l h) \<notin> set ns"
  shows "wf_table (ns @ [Some (BddNode v l h)])"
proof -
  let ?ns = "ns @ [Some (BddNode v l h)]"
  have len: "2 \<le> length ns" "?ns ! 0 = None" "?ns ! 1 = None" using w by (auto simp: wf_table_def nth_append)
  have node: "\<exists>v l h. ?ns ! r = Some (BddNode v l h) \<and> l < r \<and> h < r \<and> l \<noteq> h \<and> starts_at ?ns (Suc v) l \<and> starts_at ?ns (Suc v) h"
    if r: "2 \<le> r" "r < length ?ns" for r
  proof (cases "r < length ns")
    case True
    then obtain v' l' h' where n: "ns ! r = Some (BddNode v' l' h')" "l' < r" "h' < r" "l' \<noteq> h'" "starts_at ns (Suc v') l'" "starts_at ns (Suc v') h'"
      using wf_table_node [OF w r(1)] by blast
    then have "starts_at ?ns (Suc v') l'" "starts_at ?ns (Suc v') h'" using True by (simp_all add: starts_at_prefix)
    then show ?thesis using n True by (simp add: nth_append)
  next
    case False
    then have "r = length ns" using r(2) by simp
    then show ?thesis using lh by (simp add: starts_at_prefix)
  qed
  have old: "\<And>r s. 2 \<le> r \<Longrightarrow> r < length ns \<Longrightarrow> s < length ns \<Longrightarrow> ns ! r = ns ! s \<Longrightarrow> r = s"
    using w unfolding wf_table_def by blast
  have inj: "r = s" if "2 \<le> r" "r < length ?ns" "s < length ?ns" "?ns ! r = ?ns ! s" for r s
    using that old [of r s] new nth_mem [of r ns] nth_mem [of s ns]
    by (cases "r < length ns"; cases "s < length ns") (auto simp: nth_append less_Suc_eq)
  show ?thesis unfolding wf_table_def
  proof (intro conjI allI impI)
    show "2 \<le> length ?ns" using len(1) by simp
    show "?ns ! 0 = None" "?ns ! 1 = None" by (fact len)+
  qed (fact node inj)+
qed

lemma mk_node_yields:
  assumes w: "wf_bdd b" and l: "denotes b l F" "starts_at (bd_nodes b) (Suc v) l" and h: "denotes b h G" "starts_at (bd_nodes b) (Suc v) h"
  shows "yields b (mk_node v l h) (\<lambda>r b'. denotes b' r (\<lambda>e. if e v then G e else F e) \<and> bd_next_variable b' = bd_next_variable b)"
proof (cases "l = h")
  case True
  then have "F = G" using l h by (simp add: denotes_def)
  then show ?thesis using True l w by (intro yieldsI [of _ _ l b]) (simp_all add: mk_node_def)
next
  case ne: False
  have meaning: "denotes b' r (\<lambda>e. if e v then G e else F e)"
    if "wf_bdd b'" "grows b b'" "r < length (bd_nodes b')" "bd_nodes b' ! r = Some (BddNode v l h)" for b' r
    using beval_node [OF wf_bddD(1) [OF that(1)] that(3,4)] that denotes_grows [OF l(1) that(2)] denotes_grows [OF h(1) that(2)]
    by (auto simp: denotes_def fun_eq_iff)
  show ?thesis
  proof (cases "bd_unique b (v, l, h)")
    case (Some r)
    then have "r < length (bd_nodes b)" "bd_nodes b ! r = Some (BddNode v l h)" using wf_bddD(2) [OF w] by auto
    then show ?thesis using Some ne w meaning [OF w] by (intro yieldsI [of _ _ r b]) (simp_all add: mk_node_def)
  next
    case None
    let ?b = "b\<lparr>bd_nodes := bd_nodes b @ [Some (BddNode v l h)], bd_unique := (bd_unique b)((v, l, h) \<mapsto> length (bd_nodes b))\<rparr>"
    have g: "grows b ?b" by (simp add: grows_def)
    have new: "Some (BddNode v l h) \<notin> set (bd_nodes b)"
    proof
      assume "Some (BddNode v l h) \<in> set (bd_nodes b)"
      then obtain r where "r < length (bd_nodes b)" "bd_nodes b ! r = Some (BddNode v l h)" by (auto simp: in_set_conv_nth)
      then show False using wf_bddD(2) [OF w, of v l h r] None by simp
    qed
    have "wf_bdd ?b" unfolding wf_bdd_def
    proof (intro conjI allI)
      show "wf_table (bd_nodes ?b)" using wf_table_snoc [OF wf_bddD(1) [OF w]] l h ne new by (simp add: denotes_def)
      show "caches_sound ?b" using caches_sound_grow [OF _ g] w by (simp add: wf_bdd_def)
      show "bd_unique ?b (v', l', h') = Some r \<longleftrightarrow> r < length (bd_nodes ?b) \<and> bd_nodes ?b ! r = Some (BddNode v' l' h')" for v' l' h' r
        using wf_bddD(2) [OF w, of v' l' h' r] new None nth_mem [of r "bd_nodes b"] by (auto simp: nth_append less_Suc_eq split: if_splits)
    qed
    then show ?thesis using None ne g meaning [of ?b "length (bd_nodes b)"]
      by (intro yieldsI [of _ _ "length (bd_nodes b)" ?b]) (simp_all add: mk_node_def)
  qed
qed

lemma mk_node_frame: "mk_node v l h b = Some (r, b') \<Longrightarrow> bd_apply_cache b' = bd_apply_cache b"
  by (auto simp: mk_node_def split: if_splits option.splits)

lemma new_variable_yields:
  assumes "wf_bdd b"
  shows "yields b new_variable (\<lambda>r b'. denotes b' r (\<lambda>e. e (bd_next_variable b)) \<and> bd_next_variable b' = Suc (bd_next_variable b))"
proof -
  let ?b = "b\<lparr>bd_next_variable := bd_next_variable b + 1\<rparr>"
  have g: "grows b ?b" by (simp add: grows_def)
  have w: "wf_bdd ?b" using assms caches_sound_grow [OF _ g] by (simp add: wf_bdd_def)
  have "yields ?b (mk_node (bd_next_variable b) 0 1)
      (\<lambda>r b'. denotes b' r (\<lambda>e. if e (bd_next_variable b) then True else False) \<and> bd_next_variable b' = bd_next_variable ?b)"
    using mk_node_yields [OF w denotes_leaf(1) [OF w] _ denotes_leaf(2) [OF w], of "bd_next_variable b"] by simp
  moreover have "(\<lambda>e. if e (bd_next_variable b) then True else False) = (\<lambda>e. e (bd_next_variable b))" by auto
  ultimately obtain r b' where "mk_node (bd_next_variable b) 0 1 ?b = Some (r, b')" "wf_bdd b'" "grows ?b b'"
    "denotes b' r (\<lambda>e. e (bd_next_variable b))" "bd_next_variable b' = Suc (bd_next_variable b)" by (auto elim: yieldsE)
  then show ?thesis using grows_trans [OF g] by (intro yieldsI [of _ _ r b']) (simp_all add: new_variable_def bdd_false_def bdd_true_def)
qed

section \<open>Apply\<close>

lemma wf_cache_apply:
  assumes w: "wf_bdd b" and f: "denotes b f F" and s: "denotes b s G" and r: "denotes b r (\<lambda>e. op_sem opr (F e) (G e))"
    and new: "bd_apply_cache b (opr, f, s) = None"
  shows "wf_bdd (cache_apply opr (f, s) r b)" and "grows b (cache_apply opr (f, s) r b)"
proof -
  let ?b = "cache_apply opr (f, s) r b"
  have n: "bd_nodes ?b = bd_nodes b" "bd_unique ?b = bd_unique b" "bd_not_cache ?b = bd_not_cache b"
    "bd_exists_cache ?b = bd_exists_cache b" "bd_rename_cache ?b = bd_rename_cache b"
    "bd_apply_cache ?b = (bd_apply_cache b)((opr, f, s) \<mapsto> r)" by (simp_all add: cache_apply_def)
  have d: "denotes ?b = denotes b" by (intro ext) (simp add: denotes_def n)
  have "caches_sound ?b"
    using w f s r unfolding wf_bdd_def caches_sound_def n d by (auto simp: denotes_def)
  then show "wf_bdd ?b" using w by (simp add: wf_bdd_def n)
  show "grows b ?b" using new by (auto simp: grows_def cache_apply_def map_le_def)
qed

lemma apply_terminal_sound:
  assumes w: "wf_bdd b" and f: "denotes b f F" and s: "denotes b s G" and t: "apply_terminal opr f s = Some r"
  shows "denotes b r (\<lambda>e. op_sem opr (F e) (G e))"
proof -
  have z: "F = (\<lambda>_. False)" if "f = 0" using that f denotes_leaf(1) [OF w] by (simp add: denotes_def)
  have z': "G = (\<lambda>_. False)" if "s = 0" using that s denotes_leaf(1) [OF w] by (simp add: denotes_def)
  have o: "F = (\<lambda>_. True)" if "f = 1" using that f denotes_leaf(2) [OF w] by (simp add: denotes_def)
  have o': "G = (\<lambda>_. True)" if "s = 1" using that s denotes_leaf(2) [OF w] by (simp add: denotes_def)
  have e: "F = G" if "f = s" using that f s by (simp add: denotes_def)
  show ?thesis using t z z' o o' e f s denotes_leaf [OF w]
    by (cases opr) (auto simp: apply_terminal_def bdd_false_def bdd_true_def split: if_splits)
qed

lemma apply_terminal_None: "apply_terminal opr f s = None \<Longrightarrow> f \<le> s \<Longrightarrow> 2 \<le> s"
  by (cases opr) (auto simp: apply_terminal_def bdd_false_def bdd_true_def split: if_splits)

text \<open>The cofactors of a reference at a variable not above its own.\<close>

lemma node_at_wf:
  assumes "wf_bdd b" "node_at b r = Some n"
  shows "r < length (bd_nodes b)" "2 \<le> r" "bd_nodes b ! r = Some n"
    "bn_low n < r" "bn_high n < r" "starts_at (bd_nodes b) (Suc (bn_variable n)) (bn_low n)" "starts_at (bd_nodes b) (Suc (bn_variable n)) (bn_high n)"
proof -
  note t = wf_bddD(1) [OF assms(1)]
  show r: "r < length (bd_nodes b)" "bd_nodes b ! r = Some n" using assms(2) by (auto simp: node_at_def split: if_splits)
  show 2: "2 \<le> r" using r t by (cases "r = 0"; cases "r = 1") (auto simp: wf_table_def)
  obtain v l h where "bd_nodes b ! r = Some (BddNode v l h)" "l < r" "h < r"
    "starts_at (bd_nodes b) (Suc v) l" "starts_at (bd_nodes b) (Suc v) h" by (rule wf_table_node [OF t 2 r(1)])
  then show "bn_low n < r" "bn_high n < r" "starts_at (bd_nodes b) (Suc (bn_variable n)) (bn_low n)"
    "starts_at (bd_nodes b) (Suc (bn_variable n)) (bn_high n)" using r(2) by simp_all
qed

lemma node_at_None:
  assumes "wf_bdd b" "r < length (bd_nodes b)"
  shows "node_at b r = None \<longleftrightarrow> r < 2"
proof
  assume "r < 2"
  then show "node_at b r = None" using wf_bddD(1) [OF assms(1)] by (auto simp: node_at_def wf_table_def less_2_cases_iff)
next
  assume n: "node_at b r = None"
  show "r < 2"
  proof (rule ccontr)
    assume "\<not> r < 2"
    then have "2 \<le> r" by simp
    then obtain v l h where "bd_nodes b ! r = Some (BddNode v l h)" by (rule wf_table_node [OF wf_bddD(1) [OF assms(1)] _ assms(2)])
    then show False using n assms(2) by (simp add: node_at_def)
  qed
qed

lemma cofactor_denotes:
  assumes w: "wf_bdd b" and f: "denotes b f F" and v: "\<And>n. node_at b f = Some n \<Longrightarrow> v \<le> bn_variable n" and c: "cofactor b f v = (l, h)"
  shows "denotes b l (\<lambda>e. F (e(v := False))) \<and> denotes b h (\<lambda>e. F (e(v := True))) \<and>
    starts_at (bd_nodes b) (Suc v) l \<and> starts_at (bd_nodes b) (Suc v) h \<and> l \<le> f \<and> h \<le> f \<and>
    (\<forall>n. node_at b f = Some n \<longrightarrow> bn_variable n = v \<longrightarrow> l < f \<and> h < f)"
proof (cases "\<exists>n. node_at b f = Some n \<and> bn_variable n = v")
  case True
  note t = wf_bddD(1) [OF w]
  from True obtain l' h' where n: "node_at b f = Some (BddNode v l' h')" by (metis bdd_node.collapse)
  then have lh: "l = l'" "h = h'" using c by (simp_all add: cofactor_def)
  note m = node_at_wf [OF w n, simplified]
  have len: "l < length (bd_nodes b)" "h < length (bd_nodes b)" using m lh by simp_all
  have "F e = beval (bd_nodes b) (if e v then h else l) e" for e
    using beval_node [OF t m(1), of v l' h' e] m(3) lh f by (simp add: denotes_def fun_eq_iff)
  then have "beval (bd_nodes b) l e = F (e(v := False))" "beval (bd_nodes b) h e = F (e(v := True))" for e
    using beval_independent [OF t len(1), of "Suc v" v e] beval_independent [OF t len(2), of "Suc v" v e] m(6,7) lh by simp_all
  then show ?thesis using m len lh by (simp add: denotes_def fun_eq_iff)
next
  case False
  then have lh: "l = f" "h = f" using c by (auto simp: cofactor_def split: option.splits if_splits)
  have len: "f < length (bd_nodes b)" "beval (bd_nodes b) f = F" using f by (auto simp: denotes_def)
  have st: "starts_at (bd_nodes b) (Suc v) f"
  proof (cases "node_at b f")
    case None
    then show ?thesis using node_at_None [OF w len(1)] by (simp add: starts_at_def)
  next
    case (Some n)
    then have "v < bn_variable n" using v [OF Some] False by (metis le_neq_implies_less)
    then show ?thesis using node_at_wf(1,3) [OF w Some] by (simp add: starts_at_def)
  qed
  have "F (e(v := x)) = F e" for e x using beval_independent [OF wf_bddD(1) [OF w] len(1) st, of v e x] len(2) by simp
  then show ?thesis using lh f st False by auto
qed

lemma op_sem_commute: "op_sem opr x y = op_sem opr y x"
  by (cases opr) auto

text \<open>A pending pair is resolved: the loop continues with the rest of the stack and the pair in the cache.\<close>

definition resolves :: "bdd_operation \<Rightarrow> bdd \<Rightarrow> nat \<Rightarrow> nat \<Rightarrow> bdd \<Rightarrow> bool" where
  "resolves opr b f s b' \<longleftrightarrow>
     wf_bdd b' \<and> grows b b' \<and> bd_next_variable b' = bd_next_variable b \<and>
     (case ordered_pair f s of (f', s') \<Rightarrow> bd_apply_cache b' (opr, f', s') \<noteq> None) \<and>
     (\<forall>rest. apply_loop opr ((f, s, False) # rest) b = apply_loop opr rest b')"

lemma ordered_sum: "ordered_pair f0 s0 = (f, s) \<Longrightarrow> f \<le> s \<and> f + s = f0 + s0 \<and> {f, s} = {f0, s0}"
  by (auto simp: ordered_pair_def split: if_splits)

lemma top_variable_props:
  assumes w: "wf_bdd b" and f: "f < length (bd_nodes b)" "s < length (bd_nodes b)" and t: "apply_terminal opr f s = None" "f \<le> s"
  obtains v where "top_variable b f s = Some v" "\<And>n. node_at b f = Some n \<Longrightarrow> v \<le> bn_variable n" "\<And>n. node_at b s = Some n \<Longrightarrow> v \<le> bn_variable n"
    "(\<exists>n. node_at b f = Some n \<and> bn_variable n = v) \<or> (\<exists>n. node_at b s = Some n \<and> bn_variable n = v)"
proof -
  have "node_at b s \<noteq> None" using node_at_None [OF w f(2)] apply_terminal_None [OF t] by simp
  then obtain n where n: "node_at b s = Some n" by auto
  show ?thesis
  proof (cases "node_at b f")
    case None
    then show ?thesis using n by (intro that [of "bn_variable n"]) (simp_all add: top_variable_def)
  next
    case (Some m)
    then show ?thesis using n by (intro that [of "min (bn_variable m) (bn_variable n)"]) (auto simp: top_variable_def min_def)
  qed
qed

lemma cached_denotes:
  assumes "wf_bdd b" "denotes b f F" "denotes b s G" "ordered_pair f s = (f', s')" "bd_apply_cache b (opr, f', s') = Some r"
  shows "denotes b r (\<lambda>e. op_sem opr (F e) (G e))"
  using wf_bddD(3) [OF assms(1,5)] assms(2-4) op_sem_commute by (auto simp: denotes_def ordered_pair_def split: if_splits)

lemma shannon: "(\<lambda>e. if e v then H (e(v := True)) else H (e(v := False))) = H"
proof
  fix e
  show "(if e v then H (e(v := True)) else H (e(v := False))) = H e" by (cases "e v") (simp_all add: fun_upd_idem)
qed

lemma apply_starts:
  assumes "wf_bdd b" "denotes b f F" "denotes b s G" "starts_at (bd_nodes b) k f" "starts_at (bd_nodes b) k s"
    "denotes b r (\<lambda>e. op_sem opr (F e) (G e))"
  shows "starts_at (bd_nodes b) k r"
proof (rule denotes_starts [OF assms(1,6)])
  fix u e x
  assume "u < k"
  then show "op_sem opr (F (e(u := x))) (G (e(u := x))) = op_sem opr (F e) (G e)"
    using denotes_indep [OF assms(1,2,4), of u e x] denotes_indep [OF assms(1,3,5), of u e x] by simp
qed

lemma apply_combine:
  assumes w: "wf_bdd b" and g: "grows b b2" and w2: "wf_bdd b2" and d: "denotes b f F" "denotes b s G" and o: "ordered_pair f s = (f, s)"
    and v: "top_variable b f s = Some v" "\<And>n. node_at b f = Some n \<Longrightarrow> v \<le> bn_variable n" "\<And>n. node_at b s = Some n \<Longrightarrow> v \<le> bn_variable n"
    and c: "cofactor b f v = (fl, fh)" "cofactor b s v = (sl, sh)" and t: "apply_terminal opr f s = None"
    and low: "ordered_pair fl sl = (l1, l2)" "bd_apply_cache b2 (opr, l1, l2) \<noteq> None"
    and high: "ordered_pair fh sh = (h1, h2)" "bd_apply_cache b2 (opr, h1, h2) \<noteq> None"
  shows "\<exists>b3. wf_bdd b3 \<and> grows b2 b3 \<and> bd_next_variable b3 = bd_next_variable b2 \<and> bd_apply_cache b3 (opr, f, s) \<noteq> None \<and>
    (\<forall>rest. apply_loop opr ((f, s, True) # rest) b2 = apply_loop opr rest b3)"
proof (cases "bd_apply_cache b2 (opr, f, s)")
  case (Some r)
  then have "apply_loop opr ((f, s, True) # rest) b2 = apply_loop opr rest b2" for rest
    using o by (simp add: apply_loop.simps [of opr "_ # _"])
  then show ?thesis using Some w2 by (intro exI [of _ b2]) simp
next
  case None
  have len: "f < length (bd_nodes b)" "s < length (bd_nodes b)" using d by (simp_all add: denotes_def)
  have same: "node_at b2 f = node_at b f" "node_at b2 s = node_at b s" using node_grows [OF g] len by simp_all
  then have v2: "top_variable b2 f s = Some v" and c2: "cofactor b2 f v = (fl, fh)" "cofactor b2 s v = (sl, sh)"
    using v(1) c by (simp_all add: top_variable_def cofactor_def)
  note d2 = denotes_grows [OF d(1) g] denotes_grows [OF d(2) g]
  have cf: "denotes b2 fl (\<lambda>e. F (e(v := False)))" "denotes b2 fh (\<lambda>e. F (e(v := True)))"
    "starts_at (bd_nodes b2) (Suc v) fl" "starts_at (bd_nodes b2) (Suc v) fh"
    using cofactor_denotes [OF w2 d2(1) _ c2(1)] v(2) same by simp_all
  have cs: "denotes b2 sl (\<lambda>e. G (e(v := False)))" "denotes b2 sh (\<lambda>e. G (e(v := True)))"
    "starts_at (bd_nodes b2) (Suc v) sl" "starts_at (bd_nodes b2) (Suc v) sh"
    using cofactor_denotes [OF w2 d2(2) _ c2(2)] v(3) same by simp_all
  obtain lo hi where lohi: "bd_apply_cache b2 (opr, l1, l2) = Some lo" "bd_apply_cache b2 (opr, h1, h2) = Some hi" using low(2) high(2) by auto
  have dl: "denotes b2 lo (\<lambda>e. op_sem opr (F (e(v := False))) (G (e(v := False))))"
    by (rule cached_denotes [OF w2 cf(1) cs(1) low(1) lohi(1)])
  have dh: "denotes b2 hi (\<lambda>e. op_sem opr (F (e(v := True))) (G (e(v := True))))"
    by (rule cached_denotes [OF w2 cf(2) cs(2) high(1) lohi(2)])
  have st: "starts_at (bd_nodes b2) (Suc v) lo" "starts_at (bd_nodes b2) (Suc v) hi"
    using apply_starts [OF w2 cf(1) cs(1) cf(3) cs(3) dl] apply_starts [OF w2 cf(2) cs(2) cf(4) cs(4) dh] .
  obtain r b3 where mk: "mk_node v lo hi b2 = Some (r, b3)" "wf_bdd b3" "grows b2 b3" "bd_next_variable b3 = bd_next_variable b2"
    and r: "denotes b3 r (\<lambda>e. if e v then op_sem opr (F (e(v := True))) (G (e(v := True))) else op_sem opr (F (e(v := False))) (G (e(v := False))))"
    using mk_node_yields [OF w2 dl st(1) dh st(2)] by (auto elim: yieldsE)
  note d3 = denotes_grows [OF d2(1) mk(3)] denotes_grows [OF d2(2) mk(3)]
  have new: "bd_apply_cache b3 (opr, f, s) = None" using None mk_node_frame [OF mk(1)] by simp
  note c3 = wf_cache_apply [OF mk(2) d3 r [unfolded shannon [of v "\<lambda>e. op_sem opr (F e) (G e)"]] new]
  have "apply_loop opr ((f, s, True) # rest) b2 = apply_loop opr rest (cache_apply opr (f, s) r b3)" for rest
    using o None t v2 c2 low(1) high(1) lohi mk(1) by (simp add: apply_loop.simps [of opr "_ # _"])
  then show ?thesis using c3 grows_trans [OF mk(3)] mk(4) by (intro exI [of _ "cache_apply opr (f, s) r b3"]) (simp add: cache_apply_def)
qed

lemma apply_loop_resolves:
  assumes "wf_bdd b" "f0 < length (bd_nodes b)" "s0 < length (bd_nodes b)"
  shows "\<exists>b'. resolves opr b f0 s0 b'"
  using assms
proof (induction "f0 + s0" arbitrary: f0 s0 b rule: less_induct)
  case less
  note w = less.prems(1)
  obtain f s where fs: "ordered_pair f0 s0 = (f, s)" by (cases "ordered_pair f0 s0")
  note o = ordered_sum [OF fs]
  have len: "f < length (bd_nodes b)" "s < length (bd_nodes b)" using o less.prems by (auto simp: doubleton_eq_iff)
  define F G where "F = beval (bd_nodes b) f" and "G = beval (bd_nodes b) s"
  have d: "denotes b f F" "denotes b s G" using len by (simp_all add: denotes_def F_def G_def)
  have fs': "ordered_pair f s = (f, s)" using o by (simp add: ordered_pair_def)
  note unroll = apply_loop.simps [of opr "(f0, s0, False) # _" b]
  show ?case
  proof (cases "bd_apply_cache b (opr, f, s)")
    case (Some r)
    then have "resolves opr b f0 s0 b" using w fs unroll by (simp add: resolves_def)
    then show ?thesis ..
  next
    case new: None
    show ?thesis
    proof (cases "apply_terminal opr f s")
      case (Some r)
      note c = wf_cache_apply [OF w d apply_terminal_sound [OF w d Some] new]
      have "resolves opr b f0 s0 (cache_apply opr (f, s) r b)"
        using c fs unroll Some new by (simp add: resolves_def) (simp add: cache_apply_def)
      then show ?thesis ..
    next
      case t: None
      obtain v where v: "top_variable b f s = Some v" "\<And>n. node_at b f = Some n \<Longrightarrow> v \<le> bn_variable n"
        "\<And>n. node_at b s = Some n \<Longrightarrow> v \<le> bn_variable n"
        "(\<exists>n. node_at b f = Some n \<and> bn_variable n = v) \<or> (\<exists>n. node_at b s = Some n \<and> bn_variable n = v)"
        using top_variable_props [OF w len t] o by blast
      obtain fl fh sl sh where c: "cofactor b f v = (fl, fh)" "cofactor b s v = (sl, sh)" by (cases "cofactor b f v"; cases "cofactor b s v")
      note cf = cofactor_denotes [OF w d(1) v(2) c(1)] and cs = cofactor_denotes [OF w d(2) v(3) c(2)]
      have small: "fl + sl < f0 + s0 \<and> fh + sh < f0 + s0"
        using v(4)
      proof
        assume "\<exists>n. node_at b f = Some n \<and> bn_variable n = v"
        then have "fl < f" "fh < f" "sl \<le> s" "sh \<le> s" using cf cs by auto
        then show ?thesis using o by linarith
      next
        assume "\<exists>n. node_at b s = Some n \<and> bn_variable n = v"
        then have "fl \<le> f" "fh \<le> f" "sl < s" "sh < s" using cf cs by auto
        then show ?thesis using o by linarith
      qed
      have sub: "fl < length (bd_nodes b)" "fh < length (bd_nodes b)" "sl < length (bd_nodes b)" "sh < length (bd_nodes b)"
        using cf cs len by auto
      obtain b1 where b1: "resolves opr b fl sl b1" using less.hyps [OF _ w sub(1,3)] small by blast
      then have w1: "wf_bdd b1" and g1: "grows b b1" by (simp_all add: resolves_def)
      obtain b2 where b2: "resolves opr b1 fh sh b2"
        using less.hyps [OF _ w1] small beval_grows(1) [OF g1 sub(2)] beval_grows(1) [OF g1 sub(4)] by blast
      then have w2: "wf_bdd b2" and g2: "grows b b2" using grows_trans [OF g1] by (simp_all add: resolves_def)
      obtain l1 l2 h1 h2 where p: "ordered_pair fl sl = (l1, l2)" "ordered_pair fh sh = (h1, h2)"
        by (cases "ordered_pair fl sl"; cases "ordered_pair fh sh")
      have cached: "bd_apply_cache b2 (opr, l1, l2) \<noteq> None" "bd_apply_cache b2 (opr, h1, h2) \<noteq> None"
        using b1 b2 p grows_cache [of b1 b2 "(opr, l1, l2)"] by (auto simp: resolves_def)
      obtain b3 where b3: "wf_bdd b3" "grows b2 b3" "bd_next_variable b3 = bd_next_variable b2" "bd_apply_cache b3 (opr, f, s) \<noteq> None"
        "\<And>rest. apply_loop opr ((f, s, True) # rest) b2 = apply_loop opr rest b3"
        using apply_combine [OF w g2 w2 d fs' v(1-3) c t p(1) cached(1) p(2) cached(2)] by blast
      have "apply_loop opr ((f0, s0, False) # rest) b = apply_loop opr rest b3" for rest
        using unroll [of rest] fs new t v(1) c b1 b2 b3(5) by (simp add: resolves_def)
      then have "resolves opr b f0 s0 b3" using b1 b2 b3 fs grows_trans [OF g2] by (simp add: resolves_def)
      then show ?thesis ..
    qed
  qed
qed

lemma apply_yields:
  assumes w: "wf_bdd b" and f: "denotes b f F" and s: "denotes b s G"
  shows "yields b (bdd_apply opr f s) (\<lambda>r b'. denotes b' r (\<lambda>e. op_sem opr (F e) (G e)) \<and> bd_next_variable b' = bd_next_variable b)"
proof -
  obtain f' s' where o: "ordered_pair f s = (f', s')" by (cases "ordered_pair f s")
  have o': "ordered_pair f' s' = (f', s')" "f' \<in> {f, s}" "s' \<in> {f, s}" using o by (auto simp: ordered_pair_def split: if_splits)
  show ?thesis
  proof (cases "bd_apply_cache b (opr, f', s')")
    case (Some r)
    then show ?thesis using cached_denotes [OF w f s o Some] w o by (intro yieldsI [of _ _ r b]) (simp_all add: bdd_apply_def)
  next
    case None
    have len: "f' < length (bd_nodes b)" "s' < length (bd_nodes b)" using o'(2,3) f s by (auto simp: denotes_def)
    obtain b' where b': "resolves opr b f' s' b'" using apply_loop_resolves [OF w len] by blast
    then obtain r where r: "bd_apply_cache b' (opr, f', s') = Some r" using o' by (auto simp: resolves_def)
    have w': "wf_bdd b'" and g: "grows b b'" and nv: "bd_next_variable b' = bd_next_variable b" using b' by (simp_all add: resolves_def)
    have "apply_loop opr [(f', s', False)] b = Some b'" using b' by (simp add: resolves_def apply_loop.simps [of opr "[]"])
    then show ?thesis
      using cached_denotes [OF w' denotes_grows [OF f g] denotes_grows [OF s g] o r] None r w' g o nv
      by (intro yieldsI [of _ _ r b']) (simp_all add: bdd_apply_def)
  qed
qed

section \<open>Sequences of operations\<close>

lemma yields_return: "wf_bdd b \<Longrightarrow> Q x b \<Longrightarrow> yields b (returnB x) Q"
  by (auto simp: yields_def returnB_def)

lemma yields_bind:
  assumes "yields b m P" "\<And>x b'. wf_bdd b' \<Longrightarrow> grows b b' \<Longrightarrow> P x b' \<Longrightarrow> yields b' (f x) Q"
  shows "yields b (bindB m f) Q"
proof -
  obtain x b1 where 1: "m b = Some (x, b1)" "wf_bdd b1" "grows b b1" "P x b1" using assms(1) by (rule yieldsE)
  obtain y b2 where 2: "f x b1 = Some (y, b2)" "wf_bdd b2" "grows b1 b2" "Q y b2" using assms(2) [OF 1(2-4)] by (rule yieldsE)
  then show ?thesis using 1 grows_trans [OF 1(3)] by (intro yieldsI [of _ _ y b2]) (simp_all add: bindB_def)
qed

lemma yields_weaken: "yields b m P \<Longrightarrow> (\<And>x b'. wf_bdd b' \<Longrightarrow> grows b b' \<Longrightarrow> P x b' \<Longrightarrow> Q x b') \<Longrightarrow> yields b m Q"
  by (auto simp: yields_def)

lemma yields_map:
  assumes w: "wf_bdd b" and step: "\<And>x b'. x \<in> set xs \<Longrightarrow> wf_bdd b' \<Longrightarrow> grows b b' \<Longrightarrow> yields b' (f x) (P x)"
    and keep: "\<And>x y b' b''. P x y b' \<Longrightarrow> grows b' b'' \<Longrightarrow> P x y b''"
  shows "yields b (mapB f xs) (\<lambda>ys b'. list_all2 (\<lambda>x y. P x y b') xs ys)"
  using w step
proof (induction xs arbitrary: b)
  case Nil
  then show ?case by (auto intro: yields_return)
next
  case (Cons x xs)
  have "yields b (f x) (P x)" using Cons.prems by simp
  then show ?case unfolding mapB.simps
  proof (rule yields_bind)
    fix y b1
    assume 1: "wf_bdd b1" "grows b b1" "P x y b1"
    have "yields b1 (mapB f xs) (\<lambda>ys b'. list_all2 (\<lambda>x y. P x y b') xs ys)"
      using Cons.IH [OF 1(1)] Cons.prems(2) grows_trans [OF 1(2)] by simp
    then show "yields b1 (bindB (mapB f xs) (\<lambda>ys. returnB (y # ys))) (\<lambda>ys b'. list_all2 (\<lambda>x y. P x y b') (x # xs) ys)"
      using keep [OF 1(3)] by (auto intro: yields_bind yields_return)
  qed
qed

lemma apply_denotes: "wf_bdd b \<Longrightarrow> denotes b f F \<Longrightarrow> denotes b s G \<Longrightarrow> yields b (bdd_apply opr f s) (\<lambda>r b'. denotes b' r (\<lambda>e. op_sem opr (F e) (G e)))"
  by (rule yields_weaken [OF apply_yields]) auto

definition red :: "bdd_operation \<Rightarrow> ((nat \<Rightarrow> bool) \<Rightarrow> bool) list \<Rightarrow> (nat \<Rightarrow> bool) \<Rightarrow> bool" where
  "red opr Fs e = foldr (\<lambda>F acc. op_sem opr (F e) acc) Fs (opr = AND_OP)"

lemma red_simps: "red opr [] = (\<lambda>_. opr = AND_OP)" "red opr (F # Fs) = (\<lambda>e. op_sem opr (F e) (red opr Fs e))"
  "red opr [F] = F"
  by (auto simp: red_def fun_eq_iff) (cases opr; auto)+

lemma red_pair: "red opr ((\<lambda>e. op_sem opr (F e) (G e)) # Fs) = red opr (F # G # Fs)"
  by (cases opr) (auto simp: red_simps fun_eq_iff)

lemma red_AND: "red AND_OP Fs e = (\<forall>F\<in>set Fs. F e)"
  by (induction Fs) (auto simp: red_simps)

lemma red_OR: "red OR_OP Fs e = (\<exists>F\<in>set Fs. F e)"
  by (induction Fs) (auto simp: red_simps)

definition all_denote :: "bdd \<Rightarrow> nat list \<Rightarrow> ((nat \<Rightarrow> bool) \<Rightarrow> bool) list \<Rightarrow> bool" where
  "all_denote b rs Fs \<longleftrightarrow> list_all2 (denotes b) rs Fs"

lemma all_denote_grows: "all_denote b rs Fs \<Longrightarrow> grows b b' \<Longrightarrow> all_denote b' rs Fs"
  unfolding all_denote_def by (erule list_all2_mono) (rule denotes_grows)

lemma all_denote_simps [simp]:
  "all_denote b [] Fs \<longleftrightarrow> Fs = []"
  "all_denote b (r # rs) Fs \<longleftrightarrow> (\<exists>G Gs. Fs = G # Gs \<and> denotes b r G \<and> all_denote b rs Gs)"
  "all_denote b (rs @ rs') Fs \<longleftrightarrow> (\<exists>Gs Hs. Fs = Gs @ Hs \<and> all_denote b rs Gs \<and> all_denote b rs' Hs)"
  unfolding all_denote_def by (simp, simp add: list_all2_Cons1) (metis list_all2_append1 list_all2_appendI)

lemma all_denote_map: "all_denote b (map f xs) (map F xs) \<longleftrightarrow> (\<forall>x\<in>set xs. denotes b (f x) (F x))"
  by (auto simp: all_denote_def list_all2_map1 list_all2_map2 list_all2_same)

definition reduced :: "bdd_operation \<Rightarrow> nat list \<Rightarrow> ((nat \<Rightarrow> bool) \<Rightarrow> bool) list \<Rightarrow> nat list \<Rightarrow> bdd \<Rightarrow> bool" where
  "reduced opr rs Fs ts b \<longleftrightarrow> (\<exists>Gs. all_denote b ts Gs \<and> red opr Gs = red opr Fs) \<and>
     length ts \<le> length rs \<and> (rs \<noteq> [] \<longrightarrow> ts \<noteq> []) \<and> (2 \<le> length rs \<longrightarrow> length ts < length rs)"

lemma reduce_pairs_yields:
  assumes "wf_bdd b" "all_denote b rs Fs"
  shows "yields b (reduce_pairs opr rs) (reduced opr rs Fs)"
  using assms
proof (induction opr rs arbitrary: Fs b rule: reduce_pairs.induct)
  case (3 opr x y zs)
  obtain F G Hs where f: "Fs = F # G # Hs" "denotes b x F" "denotes b y G" "all_denote b zs Hs" using 3(3) by auto
  show ?case unfolding reduce_pairs.simps
  proof (rule yields_bind [OF apply_denotes [OF 3(2) f(2,3)]])
    fix r b1
    assume 1: "wf_bdd b1" "grows b b1" "denotes b1 r (\<lambda>e. op_sem opr (F e) (G e))"
    show "yields b1 (bindB (reduce_pairs opr zs) (\<lambda>rs. returnB (r # rs))) (reduced opr (x # y # zs) Fs)"
    proof (rule yields_bind [OF 3(1) [OF 1(1) all_denote_grows [OF f(4) 1(2)]]])
      fix ts b2
      assume 2: "wf_bdd b2" "grows b1 b2" "reduced opr zs Hs ts b2"
      then obtain Gs where g: "all_denote b2 ts Gs" "red opr Gs = red opr Hs" "length ts \<le> length zs" by (auto simp: reduced_def)
      have "red opr ((\<lambda>e. op_sem opr (F e) (G e)) # Gs) = red opr Fs" using g(2) red_pair [of opr F G Hs] f(1) by (simp add: red_simps)
      then have "reduced opr (x # y # zs) Fs (r # ts) b2" unfolding reduced_def
        using g denotes_grows [OF 1(3) 2(2)] by (intro conjI exI [of _ "(\<lambda>e. op_sem opr (F e) (G e)) # Gs"]) auto
      then show "yields b2 (returnB (r # ts)) (reduced opr (x # y # zs) Fs)" using 2(1) by (rule yields_return [rotated])
    qed
  qed
next
  case (2 opr x)
  then have "reduced opr [x] Fs [x] b" unfolding reduced_def by (intro conjI exI [of _ Fs]) auto
  then show ?case using 2(1) by (simp add: yields_return)
qed (auto intro!: yields_return simp: reduced_def)

lemma reduce_loop_yields:
  assumes "wf_bdd b" "all_denote b rs Fs" "rs \<noteq> []"
  shows "yields b (reduce_loop opr rs) (\<lambda>r b'. denotes b' r (red opr Fs))"
  using assms
proof (induction "length rs" arbitrary: rs Fs b rule: less_induct)
  case less
  consider x where "rs = [x]" | x y zs where "rs = x # y # zs" using less.prems(3) by (metis list.exhaust)
  then show ?case
  proof cases
    case 1
    then show ?thesis using less.prems by (intro yieldsI [of _ _ x b]) (auto simp: reduce_loop.simps [of opr "[x]"] red_simps(3))
  next
    case 2
    obtain ts b1 Gs where p: "reduce_pairs opr rs b = Some (ts, b1)" "wf_bdd b1" "grows b b1" "all_denote b1 ts Gs" "red opr Gs = red opr Fs"
      "ts \<noteq> []" "length ts < length rs"
      using reduce_pairs_yields [OF less.prems(1,2), of opr] 2 by (auto elim!: yieldsE simp: reduced_def)
    then have "yields b1 (reduce_loop opr ts) (\<lambda>r b'. denotes b' r (red opr Fs))" using less.hyps [OF p(7,2,4,6)] by simp
    then obtain r b2 where "reduce_loop opr ts b1 = Some (r, b2)" "wf_bdd b2" "grows b1 b2" "denotes b2 r (red opr Fs)" by (rule yieldsE)
    then show ?thesis using p(1) 2 grows_trans [OF p(3)] by (intro yieldsI [of _ _ r b2]) (simp_all add: reduce_loop.simps [of opr "x # y # zs"])
  qed
qed

lemma conjunction_denotes:
  assumes "wf_bdd b" "all_denote b rs Fs"
  shows "yields b (conjunction rs) (\<lambda>r b'. denotes b' r (\<lambda>e. \<forall>F\<in>set Fs. F e))"
proof (cases "rs = []")
  case True
  then show ?thesis using assms by (intro yieldsI [of _ _ 1 b]) (simp_all add: conjunction_def bdd_true_def)
next
  case False
  then show ?thesis using reduce_loop_yields [OF assms False, of AND_OP] by (simp add: conjunction_def red_AND [abs_def] yields_def)
qed

lemma disjunction_denotes:
  assumes "wf_bdd b" "all_denote b rs Fs"
  shows "yields b (disjunction rs) (\<lambda>r b'. denotes b' r (\<lambda>e. \<exists>F\<in>set Fs. F e))"
proof (cases "rs = []")
  case True
  then show ?thesis using assms by (intro yieldsI [of _ _ 0 b]) (simp_all add: disjunction_def bdd_false_def)
next
  case False
  then show ?thesis using reduce_loop_yields [OF assms False, of OR_OP] by (simp add: disjunction_def red_OR [abs_def] yields_def)
qed

end
