(* ===== verification/Bdd_Traversal.thy ===== *)
theory Bdd_Traversal
  imports Bdd_Correct
begin

text \<open>
  The three traversals of the manager (\<open>negate\<close>, \<open>exists\<close>, \<open>rename\<close>) have one shape: a stack of
  references, a table of results, a persistent cache, and an operation that combines the results
  of the children of a node. The locale proves the shape once; its instances are the three loops.
\<close>

definition values_sound :: "(((nat \<Rightarrow> bool) \<Rightarrow> bool) \<Rightarrow> (nat \<Rightarrow> bool) \<Rightarrow> bool) \<Rightarrow> bdd \<Rightarrow> (nat \<rightharpoonup> nat) \<Rightarrow> bool" where
  "values_sound sem b vals \<longleftrightarrow>
     (\<forall>c r. vals c = Some r \<longrightarrow> c < length (bd_nodes b) \<and> denotes b r (sem (beval (bd_nodes b) c)))"

lemma values_sound_grows: "values_sound sem b vals \<Longrightarrow> grows b b' \<Longrightarrow> values_sound sem b' vals"
  by (auto simp: values_sound_def beval_grows intro: denotes_grows)

lemma map_le_defined: "m \<subseteq>\<^sub>m m' \<Longrightarrow> m x \<noteq> None \<Longrightarrow> m' x \<noteq> None"
  by (metis map_le_def domIff)

locale traversal =
  fixes loop :: "(nat \<times> bool) list \<Rightarrow> (nat \<rightharpoonup> nat) \<Rightarrow> bdd \<Rightarrow> ((nat \<rightharpoonup> nat) \<times> bdd) option"
    and cached :: "bdd \<Rightarrow> nat \<rightharpoonup> nat"
    and store :: "nat \<Rightarrow> nat \<Rightarrow> bdd \<Rightarrow> bdd"
    and combine :: "nat \<Rightarrow> nat \<Rightarrow> nat \<Rightarrow> nat bddM"
    and sem :: "((nat \<Rightarrow> bool) \<Rightarrow> bool) \<Rightarrow> (nat \<Rightarrow> bool) \<Rightarrow> bool"
  assumes loop_nil: "loop [] vals b = Some (vals, b)"
    and loop_seen: "vals c \<noteq> None \<Longrightarrow> loop ((c, x) # rest) vals b = loop rest vals b"
    and loop_cached: "vals c = None \<Longrightarrow> cached b c = Some r \<Longrightarrow> loop ((c, x) # rest) vals b = loop rest (vals(c \<mapsto> r)) b"
    and loop_open: "vals c = None \<Longrightarrow> cached b c = None \<Longrightarrow> node_at b c = Some n \<Longrightarrow>
      loop ((c, False) # rest) vals b = loop ((bn_low n, False) # (bn_high n, False) # (c, True) # rest) vals b"
    and loop_close: "vals c = None \<Longrightarrow> cached b c = None \<Longrightarrow> node_at b c = Some n \<Longrightarrow>
      vals (bn_low n) = Some low \<Longrightarrow> vals (bn_high n) = Some high \<Longrightarrow> combine (bn_variable n) low high b = Some (r, b') \<Longrightarrow>
      loop ((c, True) # rest) vals b = loop rest (vals(c \<mapsto> r)) (store c r b')"
    and cached_sound: "wf_bdd b \<Longrightarrow> cached b c = Some r \<Longrightarrow> denotes b r (sem (beval (bd_nodes b) c))"
    and store_sound: "wf_bdd b \<Longrightarrow> c < length (bd_nodes b) \<Longrightarrow> denotes b r (sem (beval (bd_nodes b) c)) \<Longrightarrow>
      wf_bdd (store c r b) \<and> grows b (store c r b)"
    and combine_sound: "wf_bdd b \<Longrightarrow> denotes b l L \<Longrightarrow> denotes b h H \<Longrightarrow> starts_at (bd_nodes b) (Suc v) l \<Longrightarrow> starts_at (bd_nodes b) (Suc v) h \<Longrightarrow>
      denotes b low (sem L) \<Longrightarrow> denotes b high (sem H) \<Longrightarrow>
      yields b (combine v low high) (\<lambda>r b'. denotes b' r (sem (\<lambda>e. if e v then H e else L e)))"
begin

definition visits :: "bdd \<Rightarrow> (nat \<rightharpoonup> nat) \<Rightarrow> nat \<Rightarrow> (nat \<rightharpoonup> nat) \<Rightarrow> bdd \<Rightarrow> bool" where
  "visits b vals c vals' b' \<longleftrightarrow>
     wf_bdd b' \<and> grows b b' \<and> values_sound sem b' vals' \<and> vals \<subseteq>\<^sub>m vals' \<and> vals' c \<noteq> None \<and>
     (\<forall>rest. loop ((c, False) # rest) vals b = loop rest vals' b')"

lemma close_node:
  assumes w: "wf_bdd b" and s: "values_sound sem b vals" and n: "node_at b c = Some n"
    and l: "vals (bn_low n) \<noteq> None" and h: "vals (bn_high n) \<noteq> None"
  shows "\<exists>vals' b'. wf_bdd b' \<and> grows b b' \<and> values_sound sem b' vals' \<and> vals \<subseteq>\<^sub>m vals' \<and> vals' c \<noteq> None \<and>
    (\<forall>rest. loop ((c, True) # rest) vals b = loop rest vals' b')"
proof (cases "vals c")
  case (Some r)
  then show ?thesis using w s loop_seen by (intro exI [of _ vals] exI [of _ b]) simp
next
  case new: None
  note m = node_at_wf [OF w n]
  have vs: "values_sound sem b' (vals(c \<mapsto> r)) \<and> vals \<subseteq>\<^sub>m vals(c \<mapsto> r)"
    if "grows b b'" "denotes b' r (sem (beval (bd_nodes b) c))" for b' r
    using values_sound_grows [OF s that(1)] that beval_grows [OF that(1) m(1)] new by (auto simp: values_sound_def map_le_def)
  show ?thesis
  proof (cases "cached b c")
    case (Some r)
    then show ?thesis using w vs [OF grows_refl cached_sound [OF w Some]] loop_cached [of vals c b r, OF new Some]
      by (intro exI [of _ "vals(c \<mapsto> r)"] exI [of _ b]) simp
  next
    case None
    obtain low high where lh: "vals (bn_low n) = Some low" "vals (bn_high n) = Some high" using l h by auto
    let ?L = "beval (bd_nodes b) (bn_low n)" and ?H = "beval (bd_nodes b) (bn_high n)"
    have d: "denotes b (bn_low n) ?L" "denotes b (bn_high n) ?H" "denotes b low (sem ?L)" "denotes b high (sem ?H)"
      using s lh by (auto simp: values_sound_def denotes_self)
    have c: "(\<lambda>e. if e (bn_variable n) then ?H e else ?L e) = beval (bd_nodes b) c"
      using beval_node [OF wf_bddD(1) [OF w] m(1), of "bn_variable n" "bn_low n" "bn_high n"] m(3) by (auto simp: fun_eq_iff)
    obtain r b1 where 1: "combine (bn_variable n) low high b = Some (r, b1)" "wf_bdd b1" "grows b b1" "denotes b1 r (sem (beval (bd_nodes b) c))"
      using combine_sound [OF w d(1,2) m(6,7) d(3,4)] c by (auto elim: yieldsE)
    have g: "wf_bdd (store c r b1)" "grows b1 (store c r b1)"
      using store_sound [OF 1(2), of c r] 1(4) beval_grows [OF 1(3) m(1)] by simp_all
    then show ?thesis
      using vs [OF grows_trans [OF 1(3) g(2)] denotes_grows [OF 1(4) g(2)]] grows_trans [OF 1(3) g(2)] loop_close [of vals c b n low high r b1, OF new None n lh 1(1)]
      by (intro exI [of _ "vals(c \<mapsto> r)"] exI [of _ "store c r b1"]) simp
  qed
qed

lemma loop_visits:
  assumes "wf_bdd b" "c < length (bd_nodes b)" "values_sound sem b vals" "vals 0 \<noteq> None" "vals 1 \<noteq> None"
  shows "\<exists>vals' b'. visits b vals c vals' b'"
  using assms
proof (induction c arbitrary: b vals rule: less_induct)
  case (less c)
  show ?case
  proof (cases "vals c \<noteq> None")
    case True
    then show ?thesis using less.prems loop_seen by (intro exI [of _ vals] exI [of _ b]) (simp add: visits_def)
  next
    case False
    then have new: "vals c = None" by simp
    have "2 \<le> c" using False less.prems(4,5) by (metis One_nat_def less_2_cases linorder_not_less)
    then obtain n where n: "node_at b c = Some n" using node_at_None [OF less.prems(1,2)] by fastforce
    note m = node_at_wf [OF less.prems(1) n]
    show ?thesis
    proof (cases "cached b c")
      case (Some r)
      have "values_sound sem b (vals(c \<mapsto> r))" "vals \<subseteq>\<^sub>m vals(c \<mapsto> r)"
        using less.prems cached_sound [OF less.prems(1) Some] new by (auto simp: values_sound_def map_le_def)
      then have "visits b vals c (vals(c \<mapsto> r)) b" unfolding visits_def
        using less.prems(1) loop_cached [of vals c b r, OF new Some] by (simp del: fun_upd_apply) simp
      then show ?thesis by blast
    next
      case None
      obtain v1 b1 where 1: "visits b vals (bn_low n) v1 b1" using less.IH [OF m(4) less.prems(1) _ less.prems(3-5)] m(1,4) by auto
      then have f1: "wf_bdd b1" "grows b b1" "values_sound sem b1 v1" "vals \<subseteq>\<^sub>m v1" "v1 (bn_low n) \<noteq> None" by (simp_all add: visits_def)
      note v1 = map_le_defined [OF f1(4) less.prems(4)] map_le_defined [OF f1(4) less.prems(5)]
      have "bn_high n < length (bd_nodes b1)" using beval_grows(1) [OF f1(2)] m(1,5) by simp
      then obtain v2 b2 where 2: "visits b1 v1 (bn_high n) v2 b2" using less.IH [OF m(5) f1(1) _ f1(3) v1] by blast
      then have f2: "wf_bdd b2" "grows b1 b2" "values_sound sem b2 v2" "v1 \<subseteq>\<^sub>m v2" "v2 (bn_high n) \<noteq> None" by (simp_all add: visits_def)
      have g: "grows b b2" "wf_bdd b2" "values_sound sem b2 v2" "vals \<subseteq>\<^sub>m v2" "v2 (bn_low n) \<noteq> None" "v2 (bn_high n) \<noteq> None"
        using f1 f2 grows_trans [OF f1(2) f2(2)] map_le_trans [OF f1(4) f2(4)] map_le_defined [OF f2(4) f1(5)] by simp_all
      have n2: "node_at b2 c = Some n" using node_grows [OF g(1) m(1)] n by simp
      obtain v3 b3 where 3: "wf_bdd b3" "grows b2 b3" "values_sound sem b3 v3" "v2 \<subseteq>\<^sub>m v3" "v3 c \<noteq> None"
        "\<And>rest. loop ((c, True) # rest) v2 b2 = loop rest v3 b3"
        using close_node [OF g(2,3) n2 g(5,6)] by blast
      have "loop ((c, False) # rest) vals b = loop rest v3 b3" for rest
        using loop_open [of vals c b n, OF new None n] 1 2 3(6) by (simp add: visits_def)
      then have "visits b vals c v3 b3" using 3 g grows_trans [OF g(1)] map_le_trans [OF g(4)] by (simp add: visits_def)
      then show ?thesis by blast
    qed
  qed
qed

lemma loop_returns:
  assumes w: "wf_bdd b" and r: "denotes b r F" and v: "values_sound sem b vals" "vals 0 \<noteq> None" "vals 1 \<noteq> None"
  obtains vals' x b' where "loop [(r, False)] vals b = Some (vals', b')" "vals' r = Some x"
    "wf_bdd b'" "grows b b'" "denotes b' x (sem F)"
proof -
  have len: "r < length (bd_nodes b)" "beval (bd_nodes b) r = F" using r by (auto simp: denotes_def)
  obtain vals' b' where 1: "visits b vals r vals' b'" using loop_visits [OF w len(1) v] by blast
  then obtain x where x: "vals' r = Some x" by (auto simp: visits_def)
  have "denotes b' x (sem F)" using 1 x beval_grows(2) [of b b' r] len by (auto simp: visits_def values_sound_def)
  then show ?thesis using that [of vals' b' x] 1 x loop_nil by (simp add: visits_def)
qed

end

section \<open>Negation, equivalence and if-then-else\<close>

lemma wf_store:
  assumes "wf_bdd b" "caches_sound b'" "bd_nodes b' = bd_nodes b" "bd_unique b' = bd_unique b" "bd_apply_cache b' = bd_apply_cache b"
    "bd_next_variable b' = bd_next_variable b"
  shows "wf_bdd b' \<and> grows b b'"
  using assms by (simp add: wf_bdd_def grows_def)

lemma denotes_cong: "bd_nodes b' = bd_nodes b \<Longrightarrow> denotes b' = denotes b"
  by (intro ext) (simp add: denotes_def)

definition store_not :: "nat \<Rightarrow> nat \<Rightarrow> bdd \<Rightarrow> bdd" where
  "store_not c r b = b\<lparr>bd_not_cache := (bd_not_cache b)(c \<mapsto> r)\<rparr>"

definition not_sem :: "((nat \<Rightarrow> bool) \<Rightarrow> bool) \<Rightarrow> (nat \<Rightarrow> bool) \<Rightarrow> bool" where
  "not_sem F e \<longleftrightarrow> \<not> F e"

lemma store_not_sound:
  assumes "wf_bdd b" "c < length (bd_nodes b)" "denotes b r (not_sem (beval (bd_nodes b) c))"
  shows "wf_bdd (store_not c r b) \<and> grows b (store_not c r b)"
proof (rule wf_store [OF assms(1)])
  have d: "denotes (store_not c r b) = denotes b" by (rule denotes_cong) (simp add: store_not_def)
  show "caches_sound (store_not c r b)"
    using assms(1) assms(2,3) unfolding wf_bdd_def caches_sound_def d by (auto simp: store_not_def not_sem_def [abs_def])
qed (simp_all add: store_not_def)

lemma mk_combine:
  assumes w: "wf_bdd b" and l: "denotes b l L" "starts_at (bd_nodes b) (Suc v) l" and h: "denotes b h H" "starts_at (bd_nodes b) (Suc v) h"
    and low: "denotes b low (sem L)" and high: "denotes b high (sem H)"
    and i: "\<And>F u e x. (\<And>e x. F (e(u := x)) = F e) \<Longrightarrow> sem F (e(u := x)) = sem F e"
  shows "yields b (mk_node v low high) (\<lambda>r b'. denotes b' r (\<lambda>e. if e v then sem H e else sem L e))"
proof -
  have "starts_at (bd_nodes b) (Suc v) low" "starts_at (bd_nodes b) (Suc v) high"
    by (rule denotes_starts [OF w low], rule i, rule denotes_indep [OF w l], assumption)
      (rule denotes_starts [OF w high], rule i, rule denotes_indep [OF w h], assumption)
  then show ?thesis using yields_weaken [OF mk_node_yields [OF w low _ high]] by simp
qed

interpretation neg: traversal negate_loop bd_not_cache store_not mk_node not_sem
proof
  fix b :: bdd and c r l h v low high L H
  assume w: "wf_bdd b"
  show "bd_not_cache b c = Some r \<Longrightarrow> denotes b r (not_sem (beval (bd_nodes b) c))"
    using wf_bddD(4) [OF w] by (simp add: not_sem_def [abs_def])
  show "c < length (bd_nodes b) \<Longrightarrow> denotes b r (not_sem (beval (bd_nodes b) c)) \<Longrightarrow> wf_bdd (store_not c r b) \<and> grows b (store_not c r b)"
    by (rule store_not_sound [OF w])
  assume "denotes b l L" "denotes b h H" "starts_at (bd_nodes b) (Suc v) l" "starts_at (bd_nodes b) (Suc v) h"
    "denotes b low (not_sem L)" "denotes b high (not_sem H)"
  moreover have "(\<lambda>e. if e v then not_sem H e else not_sem L e) = not_sem (\<lambda>e. if e v then H e else L e)"
    by (simp add: not_sem_def fun_eq_iff)
  ultimately show "yields b (mk_node v low high) (\<lambda>r b'. denotes b' r (not_sem (\<lambda>e. if e v then H e else L e)))"
    using mk_combine [OF w, of l L v h H low not_sem high] by (simp add: not_sem_def)
qed (simp_all add: negate_loop.simps [of "[]"] negate_loop.simps [of "_ # _"] store_not_def)

lemma negate_denotes:
  assumes w: "wf_bdd b" and r: "denotes b r F"
  shows "yields b (negate r) (\<lambda>x b'. denotes b' x (\<lambda>e. \<not> F e))"
proof (cases "bd_not_cache b r")
  case (Some x)
  then show ?thesis using wf_bddD(4) [OF w Some] w r by (intro yieldsI [of _ _ x b]) (simp_all add: negate_def denotes_def)
next
  case None
  have "values_sound not_sem b [0 \<mapsto> 1, 1 \<mapsto> 0]"
    using denotes_leaf [OF w] wf_bddD(1) [OF w] by (auto simp: values_sound_def not_sem_def [abs_def] denotes_def wf_table_def)
  then obtain vals' x b' where "negate_loop [(r, False)] [0 \<mapsto> 1, 1 \<mapsto> 0] b = Some (vals', b')" "vals' r = Some x"
    "wf_bdd b'" "grows b b'" "denotes b' x (not_sem F)" by (rule neg.loop_returns [OF w r]) simp_all
  then show ?thesis using None by (intro yieldsI [of _ _ x b']) (simp_all add: negate_def bdd_false_def bdd_true_def not_sem_def [abs_def])
qed

lemma equivalence_denotes:
  assumes "wf_bdd b" "denotes b f F" "denotes b s G"
  shows "yields b (equivalence f s) (\<lambda>x b'. denotes b' x (\<lambda>e. F e = G e))"
  unfolding equivalence_def
proof (rule yields_bind [OF apply_denotes [OF assms]])
  fix x b'
  assume "wf_bdd b'" "denotes b' x (\<lambda>e. op_sem XOR_OP (F e) (G e))"
  then show "yields b' (negate x) (\<lambda>x b'. denotes b' x (\<lambda>e. F e = G e))" using negate_denotes by fastforce
qed

lemma ite_denotes:
  assumes w: "wf_bdd b" and c: "denotes b c C" and t: "denotes b t T" and e: "denotes b s S"
  shows "yields b (ite c t s) (\<lambda>x b'. denotes b' x (\<lambda>e. if C e then T e else S e))"
  unfolding ite_def
proof (rule yields_bind [OF apply_denotes [OF w c t]])
  fix x b1
  assume 1: "wf_bdd b1" "grows b b1" "denotes b1 x (\<lambda>e. op_sem AND_OP (C e) (T e))"
  show "yields b1 (bindB (negate c) (\<lambda>nc. bindB (bdd_apply AND_OP nc s) (bdd_apply OR_OP x))) (\<lambda>x b'. denotes b' x (\<lambda>e. if C e then T e else S e))"
  proof (rule yields_bind [OF negate_denotes [OF 1(1) denotes_grows [OF c 1(2)]]])
    fix nc b2
    assume 2: "wf_bdd b2" "grows b1 b2" "denotes b2 nc (\<lambda>e. \<not> C e)"
    note g2 = grows_trans [OF 1(2) 2(2)]
    show "yields b2 (bindB (bdd_apply AND_OP nc s) (bdd_apply OR_OP x)) (\<lambda>x b'. denotes b' x (\<lambda>e. if C e then T e else S e))"
    proof (rule yields_bind [OF apply_denotes [OF 2(1,3) denotes_grows [OF e g2]]])
      fix y b3
      assume 3: "wf_bdd b3" "grows b2 b3" "denotes b3 y (\<lambda>e. op_sem AND_OP (\<not> C e) (S e))"
      have "(\<lambda>e. op_sem OR_OP (op_sem AND_OP (C e) (T e)) (op_sem AND_OP (\<not> C e) (S e))) = (\<lambda>e. if C e then T e else S e)"
        by (auto simp: fun_eq_iff)
      then show "yields b3 (bdd_apply OR_OP x y) (\<lambda>x b'. denotes b' x (\<lambda>e. if C e then T e else S e))"
        using apply_denotes [OF 3(1) denotes_grows [OF 1(3) grows_trans [OF 2(2) 3(2)]] 3(3), of OR_OP] by simp
    qed
  qed
qed

section \<open>Existential quantification\<close>

definition store_exists :: "nat set \<Rightarrow> nat \<Rightarrow> nat \<Rightarrow> bdd \<Rightarrow> bdd" where
  "store_exists vs c r b = b\<lparr>bd_exists_cache := (bd_exists_cache b)((c, vs) \<mapsto> r)\<rparr>"

definition exists_combine :: "nat set \<Rightarrow> nat \<Rightarrow> nat \<Rightarrow> nat \<Rightarrow> nat bddM" where
  "exists_combine vs v low high = (if v \<in> vs then bdd_apply OR_OP low high else mk_node v low high)"

lemma exists_combine_at:
  "exists_combine vs v low high b = (if v \<in> vs then bdd_apply OR_OP low high b else mk_node v low high b)"
  by (simp add: exists_combine_def)

lemma store_exists_sound:
  assumes "wf_bdd b" "c < length (bd_nodes b)" "denotes b r (ex_sem vs (beval (bd_nodes b) c))"
  shows "wf_bdd (store_exists vs c r b) \<and> grows b (store_exists vs c r b)"
proof (rule wf_store [OF assms(1)])
  have d: "denotes (store_exists vs c r b) = denotes b" by (rule denotes_cong) (simp add: store_exists_def)
  show "caches_sound (store_exists vs c r b)"
    using assms(1) assms(2,3) unfolding wf_bdd_def caches_sound_def d by (auto simp: store_exists_def)
qed (simp_all add: store_exists_def)

lemma ex_sem_indep:
  assumes i: "\<And>e x. F (e(u := x)) = F e"
  shows "ex_sem vs F (e(u := x)) = ex_sem vs F e"
proof -
  have "ex_sem vs F e" if q: "ex_sem vs F e'" "\<And>w. w \<noteq> u \<Longrightarrow> e w = e' w" for e e'
  proof -
    obtain d where d: "\<forall>w. w \<notin> vs \<longrightarrow> d w = e' w" "F d" using q(1) by (auto simp: ex_sem_def)
    then have "\<forall>w. w \<notin> vs \<longrightarrow> (d(u := e u)) w = e w" "F (d(u := e u))" using q(2) i by auto
    then show ?thesis unfolding ex_sem_def by blast
  qed
  from this [of e "e(u := x)"] this [of "e(u := x)" e] show ?thesis by auto
qed

lemma ex_sem_hidden:
  assumes v: "v \<in> vs" and i: "\<And>e x. L (e(v := x)) = L e" "\<And>e x. H (e(v := x)) = H e"
  shows "ex_sem vs (\<lambda>e. if e v then H e else L e) e \<longleftrightarrow> ex_sem vs L e \<or> ex_sem vs H e"
proof
  assume "ex_sem vs L e \<or> ex_sem vs H e"
  then obtain d x where d: "\<forall>w. w \<notin> vs \<longrightarrow> d w = e w" "if x then H d else L d" unfolding ex_sem_def by (metis (full_types))
  then have "\<forall>w. w \<notin> vs \<longrightarrow> (d(v := x)) w = e w" "if (d(v := x)) v then H (d(v := x)) else L (d(v := x))" using v i by auto
  then show "ex_sem vs (\<lambda>e. if e v then H e else L e) e" unfolding ex_sem_def by blast
qed (auto simp: ex_sem_def split: if_splits)

lemma ex_sem_visible: "v \<notin> vs \<Longrightarrow> ex_sem vs (\<lambda>e. if e v then H e else L e) e = (if e v then ex_sem vs H e else ex_sem vs L e)"
  by (auto simp: ex_sem_def)

lemma exists_combine_sound:
  assumes w: "wf_bdd b" and l: "denotes b l L" "starts_at (bd_nodes b) (Suc v) l" and h: "denotes b h H" "starts_at (bd_nodes b) (Suc v) h"
    and low: "denotes b low (ex_sem vs L)" and high: "denotes b high (ex_sem vs H)"
  shows "yields b (exists_combine vs v low high) (\<lambda>r b'. denotes b' r (ex_sem vs (\<lambda>e. if e v then H e else L e)))"
proof (cases "v \<in> vs")
  case True
  have "ex_sem vs (\<lambda>e. if e v then H e else L e) = (\<lambda>e. op_sem OR_OP (ex_sem vs L e) (ex_sem vs H e))"
    using ex_sem_hidden [OF True, of L H] denotes_indep [OF w l] denotes_indep [OF w h] by (simp add: fun_eq_iff)
  then show ?thesis using apply_denotes [OF w low high, of OR_OP] True by (simp add: exists_combine_def)
next
  case False
  have "ex_sem vs (\<lambda>e. if e v then H e else L e) = (\<lambda>e. if e v then ex_sem vs H e else ex_sem vs L e)"
    by (rule ext) (rule ex_sem_visible [OF False])
  moreover have "yields b (mk_node v low high) (\<lambda>r b'. denotes b' r (\<lambda>e. if e v then ex_sem vs H e else ex_sem vs L e))"
    by (rule mk_combine [where sem = "ex_sem vs", OF w l h low high]) (rule ex_sem_indep)
  ultimately show ?thesis using False by (simp add: exists_combine_def)
qed

interpretation exi: traversal "exists_loop vs" "\<lambda>b c. bd_exists_cache b (c, vs)" "store_exists vs" "exists_combine vs" "ex_sem vs" for vs
proof
  show "wf_bdd b \<Longrightarrow> bd_exists_cache b (c, vs) = Some r \<Longrightarrow> denotes b r (ex_sem vs (beval (bd_nodes b) c))" for b c r
    using wf_bddD(5) by blast
  show "wf_bdd b \<Longrightarrow> c < length (bd_nodes b) \<Longrightarrow> denotes b r (ex_sem vs (beval (bd_nodes b) c)) \<Longrightarrow>
    wf_bdd (store_exists vs c r b) \<and> grows b (store_exists vs c r b)" for b c r by (rule store_exists_sound)
  show "wf_bdd b \<Longrightarrow> denotes b l L \<Longrightarrow> denotes b h H \<Longrightarrow> starts_at (bd_nodes b) (Suc v) l \<Longrightarrow> starts_at (bd_nodes b) (Suc v) h \<Longrightarrow>
    denotes b low (ex_sem vs L) \<Longrightarrow> denotes b high (ex_sem vs H) \<Longrightarrow>
    yields b (exists_combine vs v low high) (\<lambda>r b'. denotes b' r (ex_sem vs (\<lambda>e. if e v then H e else L e)))" for b l L h H v low high
    by (rule exists_combine_sound)
qed (simp_all add: exists_loop.simps [of _ "[]"] exists_loop.simps [of _ "_ # _"] store_exists_def flip: exists_combine_at)

lemma exists_denotes:
  assumes w: "wf_bdd b" and r: "denotes b r F"
  shows "yields b (bdd_exists r vs) (\<lambda>x b'. denotes b' x (ex_sem vs F))"
proof -
  have leaf: "ex_sem vs (\<lambda>_. c) = (\<lambda>_. c)" for c by (auto simp: ex_sem_def fun_eq_iff)
  consider "r < 2 \<or> vs = {}" | x where "\<not> (r < 2 \<or> vs = {})" "bd_exists_cache b (r, vs) = Some x"
    | "\<not> (r < 2 \<or> vs = {})" "bd_exists_cache b (r, vs) = None" by fastforce
  then show ?thesis
  proof cases
    case 1
    have "ex_sem vs F = F"
    proof (cases "vs = {}")
      case True
      then show ?thesis by (intro ext) (auto simp: ex_sem_def simp flip: fun_eq_iff)
    next
      case False
      then have "F = (\<lambda>_. r = 1)" using 1 r leaf_value [OF wf_bddD(1) [OF w]] by (auto simp: denotes_def fun_eq_iff)
      then show ?thesis using leaf by simp
    qed
    then show ?thesis using 1 w r by (intro yieldsI [of _ _ r b]) (simp_all add: bdd_exists_def)
  next
    case (2 x)
    then show ?thesis using wf_bddD(5) [OF w 2(2)] w r by (intro yieldsI [of _ _ x b]) (simp_all add: bdd_exists_def denotes_def)
  next
    case 3
    have "values_sound (ex_sem vs) b [0 \<mapsto> 0, 1 \<mapsto> 1]"
      using denotes_leaf [OF w] wf_bddD(1) [OF w] leaf by (auto simp: values_sound_def denotes_def wf_table_def)
    then obtain vals' x b' where "exists_loop vs [(r, False)] [0 \<mapsto> 0, 1 \<mapsto> 1] b = Some (vals', b')" "vals' r = Some x"
      "wf_bdd b'" "grows b b'" "denotes b' x (ex_sem vs F)" by (rule exi.loop_returns [OF w r]) simp_all
    then show ?thesis using 3 by (intro yieldsI [of _ _ x b']) (simp_all add: bdd_exists_def bdd_false_def bdd_true_def)
  qed
qed

section \<open>Renaming\<close>

definition store_rename :: "(nat \<times> nat) list \<Rightarrow> nat \<Rightarrow> nat \<Rightarrow> bdd \<Rightarrow> bdd" where
  "store_rename m c r b = b\<lparr>bd_rename_cache := (bd_rename_cache b)((c, m) \<mapsto> r)\<rparr>"

lemma store_rename_sound:
  assumes "wf_bdd b" "c < length (bd_nodes b)" "denotes b r (rename_sem m (beval (bd_nodes b) c))"
  shows "wf_bdd (store_rename m c r b) \<and> grows b (store_rename m c r b)"
proof (rule wf_store [OF assms(1)])
  have d: "denotes (store_rename m c r b) = denotes b" by (rule denotes_cong) (simp add: store_rename_def)
  show "caches_sound (store_rename m c r b)"
    using assms(1) assms(2,3) unfolding wf_bdd_def caches_sound_def d by (auto simp: store_rename_def)
qed (simp_all add: store_rename_def)

lemma rename_node_sound:
  assumes w: "wf_bdd b" and low: "denotes b low (rename_sem m L)" and high: "denotes b high (rename_sem m H)"
  shows "yields b (rename_node m v low high) (\<lambda>r b'. denotes b' r (rename_sem m (\<lambda>e. if e v then H e else L e)))"
  unfolding rename_node_def bdd_false_def bdd_true_def
proof (rule yields_bind [OF mk_node_yields [OF w denotes_leaf(1) [OF w] _ denotes_leaf(2) [OF w]]])
  fix c b1
  assume 1: "wf_bdd b1" "grows b b1"
    "denotes b1 c (\<lambda>e. if e (renamed m v) then True else False) \<and> bd_next_variable b1 = bd_next_variable b"
  have "rename_sem m (\<lambda>e. if e v then H e else L e) =
      (\<lambda>e. if (if e (renamed m v) then True else False) then rename_sem m H e else rename_sem m L e)"
    by (simp add: rename_sem_def fun_eq_iff)
  then show "yields b1 (ite c high low) (\<lambda>r b'. denotes b' r (rename_sem m (\<lambda>e. if e v then H e else L e)))"
    using ite_denotes [OF 1(1) conjunct1 [OF 1(3)] denotes_grows [OF high 1(2)] denotes_grows [OF low 1(2)]] by simp
qed simp_all

interpretation ren: traversal "rename_loop m" "\<lambda>b c. bd_rename_cache b (c, m)" "store_rename m" "rename_node m" "rename_sem m" for m
proof
  show "wf_bdd b \<Longrightarrow> bd_rename_cache b (c, m) = Some r \<Longrightarrow> denotes b r (rename_sem m (beval (bd_nodes b) c))" for b c r
    using wf_bddD(6) by blast
  show "wf_bdd b \<Longrightarrow> c < length (bd_nodes b) \<Longrightarrow> denotes b r (rename_sem m (beval (bd_nodes b) c)) \<Longrightarrow>
    wf_bdd (store_rename m c r b) \<and> grows b (store_rename m c r b)" for b c r by (rule store_rename_sound)
  show "wf_bdd b \<Longrightarrow> denotes b low (rename_sem m L) \<Longrightarrow> denotes b high (rename_sem m H) \<Longrightarrow>
    yields b (rename_node m v low high) (\<lambda>r b'. denotes b' r (rename_sem m (\<lambda>e. if e v then H e else L e)))" for b L H v low high
    by (rule rename_node_sound)
qed (simp_all add: rename_loop.simps [of _ "[]"] rename_loop.simps [of _ "_ # _"] store_rename_def)

lemma rename_denotes:
  assumes w: "wf_bdd b" and r: "denotes b r F"
  shows "yields b (bdd_rename r m) (\<lambda>x b'. denotes b' x (rename_sem m F))"
proof -
  consider "r < 2 \<or> m = []" | x where "\<not> (r < 2 \<or> m = [])" "bd_rename_cache b (r, m) = Some x"
    | "\<not> (r < 2 \<or> m = [])" "bd_rename_cache b (r, m) = None" by fastforce
  then show ?thesis
  proof cases
    case 1
    have "rename_sem m F = F"
    proof (cases "m = []")
      case True
      then show ?thesis by (simp add: rename_sem_def renamed_def fun_eq_iff)
    next
      case False
      then have "F = (\<lambda>_. r = 1)" using 1 r leaf_value [OF wf_bddD(1) [OF w]] by (auto simp: denotes_def fun_eq_iff)
      then show ?thesis by (simp add: rename_sem_def fun_eq_iff)
    qed
    then show ?thesis using 1 w r by (intro yieldsI [of _ _ r b]) (simp_all add: bdd_rename_def)
  next
    case (2 x)
    then show ?thesis using wf_bddD(6) [OF w 2(2)] w r by (intro yieldsI [of _ _ x b]) (simp_all add: bdd_rename_def denotes_def)
  next
    case 3
    have "values_sound (rename_sem m) b [0 \<mapsto> 0, 1 \<mapsto> 1]"
      using denotes_leaf [OF w] wf_bddD(1) [OF w] by (auto simp: values_sound_def denotes_def wf_table_def rename_sem_def fun_eq_iff)
    then obtain vals' x b' where "rename_loop m [(r, False)] [0 \<mapsto> 0, 1 \<mapsto> 1] b = Some (vals', b')" "vals' r = Some x"
      "wf_bdd b'" "grows b b'" "denotes b' x (rename_sem m F)" by (rule ren.loop_returns [OF w r]) simp_all
    then show ?thesis using 3 by (intro yieldsI [of _ _ x b']) (simp_all add: bdd_rename_def bdd_false_def bdd_true_def)
  qed
qed

end
