(* ===== verification/Frontier_Spec.thy ===== *)
theory Frontier_Spec
  imports Frontier_Relation Bdd_Traversal Search_Correct
begin

text \<open>
  What the symbolic proof of \<open>frontier_proof.py\<close> is about, without decision diagrams: frontiers with
  their pending join arrivals, the steps between them, the reachable frontiers and the routes that
  terminal frontiers expose. Also the order of the variables: it enumerates the nodes.
\<close>

section \<open>Frontiers and their steps\<close>

type_synonym frontier = "string set \<times> join_key set"

datatype cause = DirectCause string | RouteCause string string | JoinCause compiled_join

definition sources_of :: "compiled_join \<Rightarrow> string list" where
  "sources_of j = join_sources (cj_identity j)"

definition target_of :: "compiled_join \<Rightarrow> string" where
  "target_of j = join_target (cj_identity j)"

definition offset_of :: "compiled_join \<Rightarrow> string \<Rightarrow> int" where
  "offset_of j s = (case target_offset j s of Inr k \<Rightarrow> k | Inl _ \<Rightarrow> 0)"

text \<open>The arrivals of a join that are \<open>k\<close> steps from its target: carried ones and new ones.\<close>

definition arrived :: "frontier \<Rightarrow> compiled_join \<Rightarrow> int \<Rightarrow> string \<Rightarrow> bool" where
  "arrived st j k s \<longleftrightarrow> (j, k, s) \<in> snd st \<or> (offset_of j s = k \<and> s \<in> fst st)"

definition fires :: "frontier \<Rightarrow> (string \<Rightarrow> string option) \<Rightarrow> cause \<Rightarrow> bool" where
  "fires st c x =
     (case x of
        DirectCause s \<Rightarrow> s \<in> fst st
      | RouteCause s r \<Rightarrow> s \<in> fst st \<and> c s = Some r
      | JoinCause j \<Rightarrow> \<forall>s\<in>set (sources_of j). arrived st j 1 s)"

definition cause_sources :: "cause \<Rightarrow> string list" where
  "cause_sources x = (case x of DirectCause s \<Rightarrow> [s] | RouteCause s _ \<Rightarrow> [s] | JoinCause j \<Rightarrow> sources_of j)"

definition node_causes :: "control_topology \<Rightarrow> string \<Rightarrow> string \<Rightarrow> cause list" where
  "node_causes T t s =
     (if t \<in> ct_direct T s then [DirectCause s] else []) @
     map (\<lambda>(r, _). RouteCause s r) (filter (\<lambda>(_, t'). t' = t \<and> t' \<noteq> END_NODE) (ct_conditional T s))"

definition causes_of :: "control_topology \<Rightarrow> string list \<Rightarrow> string \<Rightarrow> cause list" where
  "causes_of T nodes t =
     concat (map (node_causes T t) nodes) @ map JoinCause (filter (\<lambda>j. target_of j = t \<and> t \<noteq> END_NODE) (unique_joins T))"

definition chooses :: "control_topology \<Rightarrow> string set \<Rightarrow> (string \<Rightarrow> string option) \<Rightarrow> bool" where
  "chooses T A c \<longleftrightarrow> (\<forall>n\<in>A. c n \<in> set (choice_options T n))"

text \<open>Two causes activate the same target.\<close>

definition contested :: "control_topology \<Rightarrow> string list \<Rightarrow> frontier \<Rightarrow> (string \<Rightarrow> string option) \<Rightarrow> string \<Rightarrow> bool" where
  "contested T nodes st c t \<longleftrightarrow> 1 < length (filter (fires st c) (causes_of T nodes t))"

text \<open>A due join is complete, an early one is not, and no arrival is repeated.\<close>

definition joins_consistent :: "control_topology \<Rightarrow> frontier \<Rightarrow> bool" where
  "joins_consistent T st \<longleftrightarrow>
     (\<forall>j\<in>set (unique_joins T). \<forall>k\<in>{1..max_offset j}.
        (if k = 1 then (\<exists>s\<in>set (sources_of j). arrived st j k s) \<longrightarrow> (\<forall>s\<in>set (sources_of j). arrived st j k s)
         else \<not> (\<forall>s\<in>set (sources_of j). arrived st j k s)) \<and>
        (\<forall>s\<in>set (sources_of j). offset_of j s = k \<longrightarrow> \<not> ((j, k, s) \<in> snd st \<and> s \<in> fst st)))"

definition activated :: "control_topology \<Rightarrow> string list \<Rightarrow> frontier \<Rightarrow> (string \<Rightarrow> string option) \<Rightarrow> string set" where
  "activated T nodes st c = {t \<in> set nodes. \<exists>x\<in>set (causes_of T nodes t). fires st c x}"

definition carried :: "control_topology \<Rightarrow> frontier \<Rightarrow> join_key set" where
  "carried T st = {(j, k, s). j \<in> set (unique_joins T) \<and> s \<in> set (sources_of j) \<and> 1 \<le> k \<and> k < max_offset j \<and> arrived st j (k + 1) s}"

definition frontier_step :: "control_topology \<Rightarrow> frontier \<Rightarrow> (string \<Rightarrow> string option) \<Rightarrow> frontier \<Rightarrow> bool" where
  "frontier_step T st c st' \<longleftrightarrow>
     chooses T (fst st) c \<and> joins_consistent T st \<and> (\<forall>t\<in>set (ct_nodes T). \<not> contested T (ct_nodes T) st c t) \<and>
     st' = (activated T (ct_nodes T) st c, carried T st)"

inductive reachable_frontier :: "control_topology \<Rightarrow> frontier \<Rightarrow> bool" for T where
  initial: "reachable_frontier T ({n \<in> set (ct_nodes T). n \<in> set (ct_entries T)}, {})"
| step: "reachable_frontier T st \<Longrightarrow> frontier_step T st c st' \<Longrightarrow> reachable_frontier T st'"

definition terminal_frontier :: "control_topology \<Rightarrow> frontier \<Rightarrow> (string \<Rightarrow> string option) \<Rightarrow> bool" where
  "terminal_frontier T st c \<longleftrightarrow> reachable_frontier T st \<and> fst st \<noteq> {} \<and> frontier_step T st c ({}, {})"

definition exposed_routes :: "control_topology \<Rightarrow> string option set" where
  "exposed_routes T = {r. \<exists>st c. terminal_frontier T st c \<and> r \<in> c ` fst st}"

definition ambiguous_activation :: "control_topology \<Rightarrow> bool" where
  "ambiguous_activation T \<longleftrightarrow>
     (\<exists>st c. reachable_frontier T st \<and> chooses T (fst st) c \<and> (\<exists>t\<in>set (ct_nodes T). contested T (ct_nodes T) st c t))"

definition ambiguous_completion :: "control_topology \<Rightarrow> bool" where
  "ambiguous_completion T \<longleftrightarrow> (\<exists>st c r r'. terminal_frontier T st c \<and> r \<in> c ` fst st \<and> r' \<in> c ` fst st \<and> r \<noteq> r')"

section \<open>Well-formed topologies\<close>

definition wf_join :: "string set \<Rightarrow> compiled_join \<Rightarrow> bool" where
  "wf_join nodes j \<longleftrightarrow>
     sources_of j \<noteq> [] \<and> distinct (sources_of j) \<and> set (sources_of j) \<subseteq> nodes \<and> target_of j \<in> insert END_NODE nodes \<and>
     map fst (cj_offsets j) = sources_of j \<and> (\<forall>k\<in>set (map snd (cj_offsets j)). 1 \<le> k)"

definition wf_topology :: "control_topology \<Rightarrow> bool" where
  "wf_topology T \<longleftrightarrow>
     distinct (ct_nodes T) \<and> END_NODE \<notin> set (ct_nodes T) \<and>
     (\<forall>n\<in>set (ct_nodes T).
        ct_direct T n \<subseteq> set (ct_nodes T) \<and> snd ` set (ct_conditional T n) \<subseteq> insert END_NODE (set (ct_nodes T)) \<and>
        distinct (map fst (ct_conditional T n)) \<and> distinct (options_of T n) \<and> options_of T n \<noteq> [] \<and>
        (ct_conditional T n \<noteq> [] \<longrightarrow> set (options_of T n) = Some ` fst ` set (ct_conditional T n)) \<and>
        (\<forall>j\<in>set (ct_joins T n). wf_join (set (ct_nodes T)) j))"

lemma wf_unique_joins: "wf_topology T \<Longrightarrow> j \<in> set (unique_joins T) \<Longrightarrow> wf_join (set (ct_nodes T)) j"
  by (auto simp: wf_topology_def unique_joins_def)

lemma distinct_unique_joins: "distinct (unique_joins T)"
  by (simp add: unique_joins_def)

lemma choice_options_wf:
  assumes "wf_topology T" "n \<in> set (ct_nodes T)"
  shows "distinct (choice_options T n)" "set (choice_options T n) = set (options_of T n)" "choice_options T n \<noteq> []"
proof -
  show 1: "distinct (choice_options T n)" "set (choice_options T n) = set (options_of T n)"
    using assms by (auto simp: wf_topology_def choice_options_def distinct_map)
  show "choice_options T n \<noteq> []" using 1(2) assms by (auto simp: wf_topology_def)
qed

lemma wf_join_offset:
  assumes "wf_join N j" "s \<in> set (sources_of j)"
  shows "target_offset j s = Inr (offset_of j s)" "1 \<le> offset_of j s" "offset_of j s \<le> max_offset j"
proof -
  have "s \<in> set (map fst (cj_offsets j))" using assms by (simp add: wf_join_def)
  then obtain k where k: "map_of (cj_offsets j) s = Some k" by (metis map_of_eq_None_iff not_None_eq image_set)
  then have "k \<in> set (map snd (cj_offsets j))" by (force dest: map_of_SomeD)
  then show "target_offset j s = Inr (offset_of j s)" "1 \<le> offset_of j s" "offset_of j s \<le> max_offset j"
    using k assms(1) by (auto simp: target_offset_def offset_of_def max_offset_def wf_join_def)
qed

section \<open>Order of the variables\<close>

definition component_inv :: "string set \<Rightarrow> string list \<times> string set \<times> string set \<Rightarrow> bool" where
  "component_inv S st \<longleftrightarrow> (case st of (pending, component, unseen) \<Rightarrow> component \<union> unseen = S \<and> component \<inter> unseen = {})"

definition component_size :: "string list \<times> string set \<times> string set \<Rightarrow> nat" where
  "component_size st = (case st of (pending, component, unseen) \<Rightarrow> length pending + 2 * card unseen)"

lemma component_fold:
  assumes "component_inv S (pending, component, unseen)" "finite S"
  shows "\<exists>p c u. fold (\<lambda>t (pending, component, unseen).
      if t \<in> unseen then (t # pending, insert t component, unseen - {t}) else (pending, component, unseen)) ts (pending, component, unseen) = (p, c, u) \<and>
    component_inv S (p, c, u) \<and> component \<subseteq> c \<and> component_size (p, c, u) \<le> component_size (pending, component, unseen)"
  using assms
proof (induction ts arbitrary: pending component unseen)
  case (Cons t ts)
  show ?case
  proof (cases "t \<in> unseen")
    case True
    have f: "finite unseen" using Cons.prems by (auto simp: component_inv_def)
    have i: "component_inv S (t # pending, insert t component, unseen - {t})" using Cons.prems True by (auto simp: component_inv_def)
    have "0 < card unseen" using True f by (auto simp: card_gt_0_iff)
    then have "component_size (t # pending, insert t component, unseen - {t}) \<le> component_size (pending, component, unseen)"
      using True f by (simp add: component_size_def)
    then show ?thesis using Cons.IH [OF i Cons.prems(2)] True by fastforce
  qed (use Cons in simp)
qed simp

lemma component_total:
  assumes "finite S" "n \<in> S"
  shows "\<exists>component unseen. component_from T n S = Some (component, unseen) \<and> n \<in> S - unseen \<and> component \<union> unseen = S \<and> component \<inter> unseen = {}"
proof -
  let ?P = "\<lambda>st. component_inv S st \<and> n \<in> fst (snd st)"
  have keep: "?P (component_step T x) \<and> component_size (component_step T x) < component_size x" if x: "?P x" "(\<lambda>(pending, _). pending \<noteq> []) x" for x
  proof -
    obtain s pending component unseen where x': "x = (s # pending, component, unseen)" using x(2) by (cases x) (auto simp: neq_Nil_conv)
    have "component_inv S (pending, component, unseen)" using x(1) x' by (simp add: component_inv_def)
    from component_fold [OF this assms(1), of "sorted_list_of_set (neighbours T s)"] obtain p c u where
      f: "component_step T x = (p, c, u)" "component_inv S (p, c, u)" "component \<subseteq> c"
        "component_size (p, c, u) \<le> component_size (pending, component, unseen)"
      by (auto simp: component_step_def x')
    moreover have "n \<in> component" using x(1) x' by simp
    ultimately have "n \<in> c" by blast
    then show ?thesis using f by (simp add: component_size_def x')
  qed
  have "?P ([n], {n}, S - {n})" using assms by (auto simp: component_inv_def)
  from while_option_total [of ?P _ "\<lambda>(pending, _). pending \<noteq> []" "component_step T" component_size, OF this keep]
  obtain st where "while_option (\<lambda>(pending, _). pending \<noteq> []) (component_step T) ([n], {n}, S - {n}) = Some st" "?P st" by blast
  then show ?thesis by (cases st) (auto simp: component_from_def component_inv_def)
qed

lemma order_loop_total:
  assumes "finite S" "distinct xs" "set xs \<inter> S = {}"
  shows "\<exists>ys. order_loop T xs S = Some ys \<and> distinct ys \<and> set ys = set xs \<union> S"
  using assms
proof (induction "card S" arbitrary: S xs rule: less_induct)
  case less
  show ?case
  proof (cases "S = {}")
    case True
    then show ?thesis using less.prems by (simp add: order_loop.simps)
  next
    case False
    then have "Min S \<in> S" using less.prems by simp
    from component_total [OF less.prems(1) this] obtain c u where
      c: "component_from T (Min S) S = Some (c, u)" "Min S \<in> S - u" "c \<union> u = S" "c \<inter> u = {}" by blast
    then have "finite c" "finite u" using less.prems(1) by auto
    have "u \<subset> S" using c by auto
    then have "card u < card S" using less.prems(1) by (rule psubset_card_mono [rotated])
    then have "\<exists>ys. order_loop T (xs @ sorted_list_of_set c) u = Some ys \<and> distinct ys \<and> set ys = set (xs @ sorted_list_of_set c) \<union> u"
      using less.prems c \<open>finite c\<close> \<open>finite u\<close> by (intro less.hyps) auto
    then show ?thesis using c False \<open>finite c\<close> by (auto simp: order_loop.simps [of T xs S])
  qed
qed

lemma symbolic_order_total: "\<exists>nodes. symbolic_order T = Some nodes \<and> distinct nodes \<and> set nodes = set (ct_nodes T)"
  using order_loop_total [of "set (ct_nodes T)" "[]"] by (simp add: symbolic_order_def)

end
