(* ===== verification/Frontier_Layout.thy ===== *)
theory Frontier_Layout
  imports Frontier_Spec
begin

text \<open>
  The variables of the symbolic proof: every slot of a topology (a node or a join arrival now, the
  same after the step, a choice of a node) has its own variable, and the reference kept for the slot
  denotes this variable.
\<close>

datatype slot = Cur string | Fol string | Chosen string "string option" | JCur join_key | JFol join_key

definition slot_ref :: "frontier_vars \<Rightarrow> slot \<Rightarrow> nat" where
  "slot_ref V s =
     (case s of
        Cur n \<Rightarrow> fv_node_current V n
      | Fol n \<Rightarrow> fv_node_following V n
      | Chosen n r \<Rightarrow> the (map_of (fv_choices V n) r)
      | JCur k \<Rightarrow> fv_join_current V k
      | JFol k \<Rightarrow> fv_join_following V k)"

definition branching :: "control_topology \<Rightarrow> string \<Rightarrow> string option list" where
  "branching T n = (if length (choice_options T n) > 1 then choice_options T n else [])"

definition node_slots :: "control_topology \<Rightarrow> string \<Rightarrow> slot set" where
  "node_slots T n = {Cur n, Fol n} \<union> Chosen n ` set (branching T n)"

definition layout :: "bdd \<Rightarrow> (slot \<Rightarrow> nat) \<Rightarrow> (slot \<Rightarrow> nat) \<Rightarrow> slot set \<Rightarrow> bool" where
  "layout b ref ix D \<longleftrightarrow> (\<forall>s\<in>D. denotes b (ref s) (\<lambda>e. e (ix s)) \<and> ix s < bd_next_variable b) \<and> inj_on ix D"

lemma layout_grows: "layout b ref ix D \<Longrightarrow> grows b b' \<Longrightarrow> layout b' ref ix D"
  unfolding layout_def by (meson denotes_grows grows_def less_le_trans)

lemma layout_cong: "layout b ref ix D \<Longrightarrow> (\<And>s. s \<in> D \<Longrightarrow> ref' s = ref s) \<Longrightarrow> layout b ref' ix D"
  by (simp add: layout_def)

lemma layout_insert:
  assumes l: "layout b ref ix D" and g: "grows b b'" and r: "denotes b' r (\<lambda>e. e (bd_next_variable b))"
    and n: "bd_next_variable b' = Suc (bd_next_variable b)" and s: "s \<notin> D"
  shows "layout b' (ref(s := r)) (ix(s := bd_next_variable b)) (insert s D)"
proof -
  have "inj_on (ix(s := bd_next_variable b)) (insert s D)"
    using l s by (auto simp: layout_def inj_on_def)
  moreover have "\<forall>t\<in>insert s D. denotes b' ((ref(s := r)) t) (\<lambda>e. e ((ix(s := bd_next_variable b)) t)) \<and> (ix(s := bd_next_variable b)) t < bd_next_variable b'"
    using layout_grows [OF l g] r n s l by (auto simp: layout_def less_SucI)
  ultimately show ?thesis by (simp add: layout_def)
qed

lemma yields_fold:
  assumes w: "wf_bdd b" and i: "I [] s b"
    and step: "\<And>past x rest s b. xs = past @ x # rest \<Longrightarrow> wf_bdd b \<Longrightarrow> I past s b \<Longrightarrow> yields b (f s x) (I (past @ [x]))"
  shows "yields b (foldB f s xs) (I xs)"
proof -
  have "yields b (foldB f s rest) (I xs)" if "xs = past @ rest" "wf_bdd b" "I past s b" for past rest s b
    using that
  proof (induction rest arbitrary: past s b)
    case (Cons x rest)
    have "yields b (f s x) (I (past @ [x]))" using step Cons.prems by simp
    then show ?case unfolding foldB.simps by (rule yields_bind) (use Cons in simp)
  qed (simp add: yields_return)
  from this [of "[]" xs b s] show ?thesis using w i by simp
qed

section \<open>Allocation\<close>

definition new_entry :: "'a \<Rightarrow> ('a \<times> nat) bddM" where
  "new_entry x = bindB new_variable (\<lambda>v. returnB (x, v))"

lemma new_entry_yields:
  assumes "wf_bdd b"
  shows "yields b (new_entry x) (\<lambda>p b'. fst p = x \<and> denotes b' (snd p) (\<lambda>e. e (bd_next_variable b)) \<and> bd_next_variable b' = Suc (bd_next_variable b))"
  unfolding new_entry_def by (rule yields_bind [OF new_variable_yields [OF assms]]) (simp add: yields_return)

lemma new_entries_layout:
  assumes "wf_bdd b" "layout b ref ix D" "inj f" "distinct xs" "f ` set xs \<inter> D = {}"
  shows "yields b (mapB new_entry xs) (\<lambda>cs b'. map fst cs = xs \<and>
    (\<exists>ix'. \<forall>ref'. (\<forall>s\<in>D. ref' s = ref s) \<longrightarrow> (\<forall>(x, v)\<in>set cs. ref' (f x) = v) \<longrightarrow> layout b' ref' ix' (D \<union> f ` set xs)))"
  using assms
proof (induction xs arbitrary: b ref ix D)
  case Nil
  then show ?case by (auto intro!: yields_return exI [of _ ix] elim: layout_cong)
next
  case (Cons x xs)
  let ?Q = "\<lambda>cs b'. map fst cs = x # xs \<and> (\<exists>ix'. \<forall>ref'. (\<forall>s\<in>D. ref' s = ref s) \<longrightarrow> (\<forall>(x, v)\<in>set cs. ref' (f x) = v) \<longrightarrow>
    layout b' ref' ix' (D \<union> f ` set (x # xs)))"
  show ?case unfolding mapB.simps
  proof (rule yields_bind [OF new_entry_yields [OF Cons.prems(1)]])
    fix p b1
    assume 1: "wf_bdd b1" "grows b b1"
      "fst p = x \<and> denotes b1 (snd p) (\<lambda>e. e (bd_next_variable b)) \<and> bd_next_variable b1 = Suc (bd_next_variable b)"
    let ?ref = "ref(f x := snd p)" and ?ix = "ix(f x := bd_next_variable b)" and ?D = "insert (f x) D"
    have l: "layout b1 ?ref ?ix ?D" using layout_insert [OF Cons.prems(2) 1(2)] 1(3) Cons.prems(5) by auto
    have d: "distinct xs" "f ` set xs \<inter> ?D = {}" using Cons.prems by (auto simp: inj_def)
    show "yields b1 (bindB (mapB new_entry xs) (\<lambda>ys. returnB (p # ys))) ?Q"
    proof (rule yields_bind [OF Cons.IH [OF 1(1) l Cons.prems(3) d]])
      fix cs b2
      assume 2: "wf_bdd b2" "map fst cs = xs \<and> (\<exists>ix'. \<forall>ref'. (\<forall>s\<in>?D. ref' s = ?ref s) \<longrightarrow> (\<forall>(x, v)\<in>set cs. ref' (f x) = v) \<longrightarrow>
        layout b2 ref' ix' (?D \<union> f ` set xs))"
      then obtain ix' where ix': "\<And>ref'. (\<forall>s\<in>?D. ref' s = ?ref s) \<Longrightarrow> (\<forall>(x, v)\<in>set cs. ref' (f x) = v) \<Longrightarrow>
        layout b2 ref' ix' (?D \<union> f ` set xs)" by blast
      have "layout b2 ref' ix' (D \<union> f ` set (x # xs))" if "\<forall>s\<in>D. ref' s = ref s" "\<forall>(x, v)\<in>set (p # cs). ref' (f x) = v" for ref'
        using ix' [of ref'] that 1(3) Cons.prems(5) by (cases p) auto
      then have "?Q (p # cs) b2" using 1(3) 2(2) by auto
      then show "yields b2 (returnB (p # cs)) ?Q" using 2(1) by (rule yields_return [rotated])
    qed
  qed
qed

lemma choices_layout:
  assumes w: "wf_bdd b" and l: "layout b ref ix D" and T: "distinct (choice_options T n)" and D: "Chosen n ` set (branching T n) \<inter> D = {}"
  shows "yields b (choices_for_node T n) (\<lambda>cs b'. map fst cs = branching T n \<and>
    (\<exists>ix'. \<forall>ref'. (\<forall>s\<in>D. ref' s = ref s) \<longrightarrow> (\<forall>(r, v)\<in>set cs. ref' (Chosen n r) = v) \<longrightarrow> layout b' ref' ix' (D \<union> Chosen n ` set (branching T n))))"
proof -
  have "choices_for_node T n = mapB new_entry (branching T n)"
    by (simp add: choices_for_node_def branching_def new_entry_def [abs_def])
  then show ?thesis using new_entries_layout [OF w l, of "Chosen n" "branching T n"] T D by (simp add: inj_def branching_def)
qed

definition allocated :: "control_topology \<Rightarrow> string list \<Rightarrow> string list \<Rightarrow> frontier_vars \<Rightarrow> bdd \<Rightarrow> bool" where
  "allocated T nodes past V b \<longleftrightarrow>
     (\<exists>ix. layout b (slot_ref V) ix (\<Union>(node_slots T ` set past))) \<and> (\<forall>n\<in>set past. map fst (fv_choices V n) = branching T n) \<and>
     fv_nodes V = nodes \<and> fv_joins V = unique_joins T \<and> fv_join_keys V = join_state_keys (unique_joins T)"

lemma allocate_node_yields:
  assumes w: "wf_bdd b" and a: "allocated T nodes past V b" and n: "n \<notin> set past" and T: "distinct (choice_options T n)"
  shows "yields b (allocate_node T V n) (allocated T nodes (past @ [n]))"
proof -
  let ?D = "\<Union>(node_slots T ` set past)"
  obtain ix where l: "layout b (slot_ref V) ix ?D" using a by (auto simp: allocated_def)
  have fresh: "Cur n \<notin> ?D" "Fol n \<notin> ?D" "\<And>r. Chosen n r \<notin> ?D" using n by (auto simp: node_slots_def)
  show ?thesis unfolding allocate_node_def
  proof (rule yields_bind [OF new_variable_yields [OF w]])
    fix c b1
    assume 1: "wf_bdd b1" "grows b b1" "denotes b1 c (\<lambda>e. e (bd_next_variable b)) \<and> bd_next_variable b1 = Suc (bd_next_variable b)"
    have l1: "layout b1 ((slot_ref V)(Cur n := c)) (ix(Cur n := bd_next_variable b)) (insert (Cur n) ?D)"
      using layout_insert [OF l 1(2)] 1(3) fresh by blast
    have d1: "Chosen n ` set (branching T n) \<inter> insert (Cur n) ?D = {}" using fresh by auto
    show "yields b1 (bindB (choices_for_node T n) (\<lambda>choices. bindB new_variable (\<lambda>following. returnB (V\<lparr>fv_node_current := (fv_node_current V)(n := c),
      fv_choices := (fv_choices V)(n := choices), fv_node_following := (fv_node_following V)(n := following)\<rparr>)))) (allocated T nodes (past @ [n]))"
    proof (rule yields_bind [OF choices_layout [OF 1(1) l1 T d1]])
      fix cs b2
      assume 2: "wf_bdd b2" "grows b1 b2" "map fst cs = branching T n \<and> (\<exists>ix'. \<forall>ref'. (\<forall>s\<in>insert (Cur n) ?D. ref' s = ((slot_ref V)(Cur n := c)) s) \<longrightarrow>
        (\<forall>(r, v)\<in>set cs. ref' (Chosen n r) = v) \<longrightarrow> layout b2 ref' ix' (insert (Cur n) ?D \<union> Chosen n ` set (branching T n)))"
      then obtain ix' where ix': "\<And>ref'. (\<forall>s\<in>insert (Cur n) ?D. ref' s = ((slot_ref V)(Cur n := c)) s) \<Longrightarrow>
        (\<forall>(r, v)\<in>set cs. ref' (Chosen n r) = v) \<Longrightarrow> layout b2 ref' ix' (insert (Cur n) ?D \<union> Chosen n ` set (branching T n))" by blast
      show "yields b2 (bindB new_variable (\<lambda>following. returnB (V\<lparr>fv_node_current := (fv_node_current V)(n := c),
        fv_choices := (fv_choices V)(n := cs), fv_node_following := (fv_node_following V)(n := following)\<rparr>))) (allocated T nodes (past @ [n]))"
      proof (rule yields_bind [OF new_variable_yields [OF 2(1)]])
        fix f b3
        assume 3: "wf_bdd b3" "grows b2 b3" "denotes b3 f (\<lambda>e. e (bd_next_variable b2)) \<and> bd_next_variable b3 = Suc (bd_next_variable b2)"
        let ?V = "V\<lparr>fv_node_current := (fv_node_current V)(n := c), fv_choices := (fv_choices V)(n := cs), fv_node_following := (fv_node_following V)(n := f)\<rparr>"
        have old: "slot_ref ?V s = slot_ref V s" if "s \<in> ?D" for s using that n by (auto simp: slot_ref_def node_slots_def)
        have dc: "distinct (map fst cs)" using 2(3) T by (simp add: branching_def)
        have l2: "layout b2 (slot_ref ?V) ix' (insert (Cur n) ?D \<union> Chosen n ` set (branching T n))"
        proof (rule ix')
          show "\<forall>s\<in>insert (Cur n) ?D. slot_ref ?V s = ((slot_ref V)(Cur n := c)) s" using old fresh by (auto simp: slot_ref_def)
          show "\<forall>(r, v)\<in>set cs. slot_ref ?V (Chosen n r) = v" using dc by (auto simp: slot_ref_def)
        qed
        have f3: "Fol n \<notin> insert (Cur n) ?D \<union> Chosen n ` set (branching T n)" using fresh by auto
        have "layout b3 ((slot_ref ?V)(Fol n := f)) (ix'(Fol n := bd_next_variable b2)) (insert (Fol n) (insert (Cur n) ?D \<union> Chosen n ` set (branching T n)))"
          using layout_insert [OF l2 3(2) _ _ f3] 3(3) by blast
        moreover have "(slot_ref ?V)(Fol n := f) = slot_ref ?V" by (auto simp: slot_ref_def)
        moreover have "insert (Fol n) (insert (Cur n) ?D \<union> Chosen n ` set (branching T n)) = \<Union>(node_slots T ` set (past @ [n]))"
          by (auto simp: node_slots_def)
        ultimately have "allocated T nodes (past @ [n]) ?V b3" using a n 2(3) by (auto simp: allocated_def)
        then show "yields b3 (returnB ?V) (allocated T nodes (past @ [n]))" using 3(1) by (rule yields_return [rotated])
      qed
    qed
  qed
qed

definition join_slots :: "control_topology \<Rightarrow> (join_key \<Rightarrow> slot) \<Rightarrow> slot set" where
  "join_slots T f = f ` set (join_state_keys (unique_joins T))"

definition slots :: "control_topology \<Rightarrow> slot set" where
  "slots T = \<Union>(node_slots T ` set (ct_nodes T)) \<union> join_slots T JCur \<union> join_slots T JFol"

definition same_vars :: "frontier_vars \<Rightarrow> frontier_vars \<Rightarrow> bool" where
  "same_vars V V' \<longleftrightarrow> fv_nodes V' = fv_nodes V \<and> fv_joins V' = fv_joins V \<and> fv_join_keys V' = fv_join_keys V \<and> fv_choices V' = fv_choices V"

lemma allocate_keys_yields:
  assumes w: "wf_bdd b" and l: "layout b (slot_ref V) ix D" and k: "distinct keys" "f ` set keys \<inter> D = {}" "inj f"
    and upd: "\<And>V k v. slot_ref (put V k v) = (slot_ref V)(f k := v) \<and> same_vars V (put V k v)"
  shows "yields b (foldB (\<lambda>V k. bindB new_variable (\<lambda>v. returnB (put V k v))) V keys)
    (\<lambda>V' b'. same_vars V V' \<and> (\<exists>ix. layout b' (slot_ref V') ix (D \<union> f ` set keys)))"
proof (rule yields_fold [where I = "\<lambda>past V' b'. same_vars V V' \<and> (\<exists>ix. layout b' (slot_ref V') ix (D \<union> f ` set past))", OF w])
  show "same_vars V V \<and> (\<exists>ix. layout b (slot_ref V) ix (D \<union> f ` set []))" using l by (auto simp: same_vars_def)
next
  fix past key rest V1 b1
  assume 1: "keys = past @ key # rest" "wf_bdd b1" "same_vars V V1 \<and> (\<exists>ix. layout b1 (slot_ref V1) ix (D \<union> f ` set past))"
  then obtain ix1 where l1: "layout b1 (slot_ref V1) ix1 (D \<union> f ` set past)" by blast
  have new: "f key \<notin> D \<union> f ` set past" using k 1(1) by (auto simp: inj_def)
  show "yields b1 (bindB new_variable (\<lambda>v. returnB (put V1 key v)))
    (\<lambda>V' b'. same_vars V V' \<and> (\<exists>ix. layout b' (slot_ref V') ix (D \<union> f ` set (past @ [key]))))"
  proof (rule yields_bind [OF new_variable_yields [OF 1(2)]])
    fix v b2
    assume 2: "wf_bdd b2" "grows b1 b2" "denotes b2 v (\<lambda>e. e (bd_next_variable b1)) \<and> bd_next_variable b2 = Suc (bd_next_variable b1)"
    have "layout b2 (slot_ref (put V1 key v)) (ix1(f key := bd_next_variable b1)) (D \<union> f ` set (past @ [key]))"
      using layout_insert [OF l1 2(2) _ _ new] 2(3) upd by simp
    moreover have "same_vars V (put V1 key v)" using 1(3) upd [of V1 key v] by (simp add: same_vars_def)
    ultimately show "yields b2 (returnB (put V1 key v)) (\<lambda>V' b'. same_vars V V' \<and> (\<exists>ix. layout b' (slot_ref V') ix (D \<union> f ` set (past @ [key]))))"
      using 2(1) by (intro yields_return) auto
  qed
qed

lemma distinct_join_keys:
  assumes "wf_topology T"
  shows "distinct (join_state_keys (unique_joins T))"
proof -
  have "distinct (join_state_keys js)" if "distinct js" "\<And>j. j \<in> set js \<Longrightarrow> distinct (sources_of j)" for js
    using that
  proof (induction js)
    case (Cons j js)
    have "distinct (concat (map (\<lambda>remaining. map (\<lambda>s. (j, remaining, s)) (sources_of j)) ks))" if "distinct ks" for ks :: "int list"
      using that Cons.prems(2) [of j] by (induction ks) (auto simp: distinct_map inj_on_def)
    then show ?case using Cons by (auto simp: join_state_keys_def simp flip: sources_of_def)
  qed (simp add: join_state_keys_def)
  then show ?thesis using distinct_unique_joins wf_unique_joins [OF assms] by (auto simp: wf_join_def)
qed

definition vars_ok :: "control_topology \<Rightarrow> frontier_vars \<Rightarrow> (slot \<Rightarrow> nat) \<Rightarrow> bdd \<Rightarrow> bool" where
  "vars_ok T V ix b \<longleftrightarrow>
     layout b (slot_ref V) ix (slots T) \<and> distinct (fv_nodes V) \<and> set (fv_nodes V) = set (ct_nodes T) \<and> fv_joins V = unique_joins T \<and>
     fv_join_keys V = join_state_keys (unique_joins T) \<and> (\<forall>n\<in>set (ct_nodes T). map fst (fv_choices V n) = branching T n)"

lemma allocate_yields:
  assumes T: "wf_topology T" and w: "wf_bdd b" and n: "distinct nodes" "set nodes = set (ct_nodes T)"
  shows "yields b (allocate T nodes) (\<lambda>V b'. \<exists>ix. vars_ok T V ix b')"
proof -
  let ?keys = "join_state_keys (unique_joins T)" and ?N = "\<Union>(node_slots T ` set nodes)"
  let ?V0 = "\<lparr>fv_nodes = nodes, fv_joins = unique_joins T, fv_node_current = (\<lambda>_. 0), fv_node_following = (\<lambda>_. 0), fv_choices = (\<lambda>_. []),
    fv_join_keys = ?keys, fv_join_current = (\<lambda>_. 0), fv_join_following = (\<lambda>_. 0)\<rparr>"
  have nodes: "yields b (foldB (allocate_node T) ?V0 nodes) (allocated T nodes nodes)"
  proof (rule yields_fold [where I = "allocated T nodes", OF w])
    show "allocated T nodes [] ?V0 b" by (simp add: allocated_def layout_def)
    fix past x rest V b
    assume "nodes = past @ x # rest" "wf_bdd b" "allocated T nodes past V b"
    then show "yields b (allocate_node T V x) (allocated T nodes (past @ [x]))"
      using allocate_node_yields [of b T nodes past V x] choice_options_wf(1) [OF T, of x] n by (auto simp flip: n(2))
  qed
  show ?thesis unfolding allocate_def Let_def
  proof (rule yields_bind [OF nodes])
    fix V1 b1
    assume 1: "wf_bdd b1" "allocated T nodes nodes V1 b1"
    then obtain ix1 where l1: "layout b1 (slot_ref V1) ix1 ?N" by (auto simp: allocated_def)
    let ?q = "\<lambda>V b'. \<exists>ix. vars_ok T V ix b'"
    let ?put = "\<lambda>V k v. V\<lparr>fv_join_current := (fv_join_current V)(k := v)\<rparr>"
    let ?put' = "\<lambda>V k v. V\<lparr>fv_join_following := (fv_join_following V)(k := v)\<rparr>"
    have upd: "slot_ref (?put V k v) = (slot_ref V)(JCur k := v) \<and> same_vars V (?put V k v)" for V k v
      by (auto simp: slot_ref_def same_vars_def fun_eq_iff split: slot.splits)
    have upd': "slot_ref (?put' V k v) = (slot_ref V)(JFol k := v) \<and> same_vars V (?put' V k v)" for V k v
      by (auto simp: slot_ref_def same_vars_def fun_eq_iff split: slot.splits)
    have f1: "JCur ` set ?keys \<inter> ?N = {}" by (auto simp: node_slots_def)
    show "yields b1 (bindB (foldB (\<lambda>V k. bindB new_variable (\<lambda>v. returnB (?put V k v))) V1 ?keys)
      (\<lambda>V2. foldB (\<lambda>V k. bindB new_variable (\<lambda>v. returnB (?put' V k v))) V2 ?keys)) ?q"
    proof (rule yields_bind [OF allocate_keys_yields [where put = ?put, OF 1(1) l1 distinct_join_keys [OF T] f1 _ upd]])
      show "inj JCur" by (simp add: inj_def)
      fix V2 b2
      assume 2: "wf_bdd b2" "same_vars V1 V2 \<and> (\<exists>ix. layout b2 (slot_ref V2) ix (?N \<union> JCur ` set ?keys))"
      then obtain ix2 where l2: "layout b2 (slot_ref V2) ix2 (?N \<union> JCur ` set ?keys)" by blast
      have f2: "JFol ` set ?keys \<inter> (?N \<union> JCur ` set ?keys) = {}" by (auto simp: node_slots_def)
      have "yields b2 (foldB (\<lambda>V k. bindB new_variable (\<lambda>v. returnB (?put' V k v))) V2 ?keys)
        (\<lambda>V' b'. same_vars V2 V' \<and> (\<exists>ix. layout b' (slot_ref V') ix (?N \<union> JCur ` set ?keys \<union> JFol ` set ?keys)))"
        by (rule allocate_keys_yields [where put = ?put', OF 2(1) l2 distinct_join_keys [OF T] f2 _ upd']) (simp add: inj_def)
      then show "yields b2 (foldB (\<lambda>V k. bindB new_variable (\<lambda>v. returnB (?put' V k v))) V2 ?keys) ?q"
        using 1(2) 2(2) n by (elim yields_weaken) (auto simp: vars_ok_def allocated_def same_vars_def slots_def join_slots_def)
    qed
  qed
qed

end
