(* ===== verification/Frontier_Meaning.thy ===== *)
theory Frontier_Meaning
  imports Frontier_Layout
begin

text \<open>
  The meaning of the diagrams that \<open>_FrontierRelation\<close> builds: an assignment of the variables is a
  frontier with its pending arrivals, a choice of routes and a following frontier, and the relation
  holds exactly of the steps.
\<close>

section \<open>Assignments\<close>

definition frontier_of :: "control_topology \<Rightarrow> (slot \<Rightarrow> nat) \<Rightarrow> (nat \<Rightarrow> bool) \<Rightarrow> frontier" where
  "frontier_of T ix e = ({n \<in> set (ct_nodes T). e (ix (Cur n))}, {k \<in> set (join_state_keys (unique_joins T)). e (ix (JCur k))})"

definition following_of :: "control_topology \<Rightarrow> (slot \<Rightarrow> nat) \<Rightarrow> (nat \<Rightarrow> bool) \<Rightarrow> frontier" where
  "following_of T ix e = ({n \<in> set (ct_nodes T). e (ix (Fol n))}, {k \<in> set (join_state_keys (unique_joins T)). e (ix (JFol k))})"

definition picks :: "control_topology \<Rightarrow> (slot \<Rightarrow> nat) \<Rightarrow> (nat \<Rightarrow> bool) \<Rightarrow> string \<Rightarrow> string option \<Rightarrow> bool" where
  "picks T ix e n r \<longleftrightarrow> r \<in> set (choice_options T n) \<and> (branching T n \<noteq> [] \<longrightarrow> e (ix (Chosen n r)))"

definition choice_ok :: "control_topology \<Rightarrow> (slot \<Rightarrow> nat) \<Rightarrow> (nat \<Rightarrow> bool) \<Rightarrow> bool" where
  "choice_ok T ix e \<longleftrightarrow> (\<forall>n\<in>set (ct_nodes T). e (ix (Cur n)) \<longrightarrow> (\<exists>!r. picks T ix e n r))"

lemma join_key_iff:
  "(j, k, s) \<in> set (join_state_keys js) \<longleftrightarrow> j \<in> set js \<and> 1 \<le> k \<and> k \<le> max_offset j \<and> s \<in> set (sources_of j)"
  by (force simp: join_state_keys_def sources_of_def)

lemma vars_ok_grows: "vars_ok T V ix b \<Longrightarrow> grows b b' \<Longrightarrow> vars_ok T V ix b'"
  using layout_grows by (auto simp: vars_ok_def)

lemma slot_denotes: "vars_ok T V ix b \<Longrightarrow> s \<in> slots T \<Longrightarrow> denotes b (slot_ref V s) (\<lambda>e. e (ix s))"
  by (auto simp: vars_ok_def layout_def)

lemma variable_denotes:
  assumes "vars_ok T V ix b"
  shows "n \<in> set (ct_nodes T) \<Longrightarrow> denotes b (fv_node_current V n) (\<lambda>e. e (ix (Cur n)))"
    and "n \<in> set (ct_nodes T) \<Longrightarrow> denotes b (fv_node_following V n) (\<lambda>e. e (ix (Fol n)))"
    and "k \<in> set (join_state_keys (unique_joins T)) \<Longrightarrow> denotes b (fv_join_current V k) (\<lambda>e. e (ix (JCur k)))"
    and "k \<in> set (join_state_keys (unique_joins T)) \<Longrightarrow> denotes b (fv_join_following V k) (\<lambda>e. e (ix (JFol k)))"
proof -
  show "n \<in> set (ct_nodes T) \<Longrightarrow> denotes b (fv_node_current V n) (\<lambda>e. e (ix (Cur n)))"
    using slot_denotes [OF assms, of "Cur n"] by (auto simp: slots_def node_slots_def slot_ref_def)
  show "n \<in> set (ct_nodes T) \<Longrightarrow> denotes b (fv_node_following V n) (\<lambda>e. e (ix (Fol n)))"
    using slot_denotes [OF assms, of "Fol n"] by (auto simp: slots_def node_slots_def slot_ref_def)
  show "k \<in> set (join_state_keys (unique_joins T)) \<Longrightarrow> denotes b (fv_join_current V k) (\<lambda>e. e (ix (JCur k)))"
    using slot_denotes [OF assms, of "JCur k"] by (auto simp: slots_def join_slots_def slot_ref_def)
  show "k \<in> set (join_state_keys (unique_joins T)) \<Longrightarrow> denotes b (fv_join_following V k) (\<lambda>e. e (ix (JFol k)))"
    using slot_denotes [OF assms, of "JFol k"] by (auto simp: slots_def join_slots_def slot_ref_def)
qed

lemma choice_denotes:
  assumes v: "vars_ok T V ix b" and T: "wf_topology T" and n: "n \<in> set (ct_nodes T)" and c: "(r, x) \<in> set (fv_choices V n)"
  shows "r \<in> set (branching T n)" "denotes b x (\<lambda>e. e (ix (Chosen n r)))"
proof -
  have m: "map fst (fv_choices V n) = branching T n" using v n by (simp add: vars_ok_def)
  then show r: "r \<in> set (branching T n)" using c by (force simp flip: m)
  have "distinct (map fst (fv_choices V n))" using m choice_options_wf(1) [OF T n] by (simp add: branching_def)
  then have "slot_ref V (Chosen n r) = x" using c by (simp add: slot_ref_def)
  then show "denotes b x (\<lambda>e. e (ix (Chosen n r)))"
    using slot_denotes [OF v, of "Chosen n r"] n r by (auto simp: slots_def node_slots_def)
qed

lemma choice_literal_denotes:
  assumes w: "wf_bdd b" and v: "vars_ok T V ix b" and T: "wf_topology T" and n: "n \<in> set (ct_nodes T)"
  shows "denotes b (choice_literal T V n r) (\<lambda>e. picks T ix e n r)"
proof -
  have m: "map fst (fv_choices V n) = branching T n" using v n by (simp add: vars_ok_def)
  show ?thesis
  proof (cases "branching T n = []")
    case True
    then have "choice_literal T V n r = (if r \<in> set (choice_options T n) then 1 else 0)"
      using m by (auto simp: choice_literal_def bdd_false_def bdd_true_def choice_options_def image_image)
    then show ?thesis using True denotes_leaf [OF w] by (simp add: picks_def)
  next
    case False
    then have b: "branching T n = choice_options T n" by (auto simp: branching_def split: if_splits)
    show ?thesis
    proof (cases "map_of (fv_choices V n) r")
      case None
      then have "r \<notin> set (choice_options T n)" using m b by (metis map_of_eq_None_iff image_set)
      then show ?thesis using None m False denotes_leaf [OF w] by (auto simp: choice_literal_def picks_def bdd_false_def)
    next
      case (Some x)
      then have "(r, x) \<in> set (fv_choices V n)" by (rule map_of_SomeD)
      then show ?thesis using choice_denotes [OF v T n] Some m False b by (auto simp: choice_literal_def picks_def)
    qed
  qed
qed

section \<open>Lists of diagrams\<close>

lemma yields_map_denotes:
  assumes "wf_bdd b" "\<And>x b'. x \<in> set xs \<Longrightarrow> wf_bdd b' \<Longrightarrow> grows b b' \<Longrightarrow> yields b' (f x) (\<lambda>y b''. denotes b'' y (S x))"
  shows "yields b (mapB f xs) (\<lambda>ys b'. all_denote b' ys (map S xs))"
  using yields_map [where P = "\<lambda>x y b'. denotes b' y (S x)", OF assms denotes_grows]
  by (simp add: all_denote_def list_all2_map2 list.rel_flip [of "\<lambda>x y. denotes _ y (S x)", symmetric] conversep_iff [abs_def])

lemma conjunction_of_map:
  assumes "wf_bdd b" "\<And>x b'. x \<in> set xs \<Longrightarrow> wf_bdd b' \<Longrightarrow> grows b b' \<Longrightarrow> yields b' (f x) (\<lambda>y b''. denotes b'' y (S x))"
  shows "yields b (bindB (mapB f xs) conjunction) (\<lambda>r b'. denotes b' r (\<lambda>e. \<forall>x\<in>set xs. S x e))"
proof (rule yields_bind [OF yields_map_denotes [OF assms]])
  fix ys b'
  assume "wf_bdd b'" "all_denote b' ys (map S xs)"
  from conjunction_denotes [OF this] show "yields b' (conjunction ys) (\<lambda>r b'. denotes b' r (\<lambda>e. \<forall>x\<in>set xs. S x e))" by simp
qed

lemma later_pairs_unique: "(\<forall>(x, y)\<in>set (later_pairs xs). \<not> (P x \<and> P y)) \<longleftrightarrow> length (filter P xs) \<le> 1"
proof (induction xs)
  case (Cons x xs)
  have "(\<forall>(x, y)\<in>set (later_pairs (x # xs)). \<not> (P x \<and> P y)) \<longleftrightarrow> (P x \<longrightarrow> filter P xs = []) \<and> length (filter P xs) \<le> 1"
    using Cons.IH by (auto simp: filter_empty_conv)
  then show ?case by auto
qed simp

lemma later_pairs_map: "later_pairs (map f xs) = map (map_prod f f) (later_pairs xs)"
  by (induction xs) auto

lemma later_pairs_sub: "(x, y) \<in> set (later_pairs xs) \<Longrightarrow> x \<in> set xs \<and> y \<in> set xs"
  by (induction xs) auto

lemma unique_by_count:
  assumes "distinct xs"
  shows "(\<exists>x\<in>set xs. P x) \<and> length (filter P xs) \<le> 1 \<longleftrightarrow> (\<exists>!x. x \<in> set xs \<and> P x)"
proof -
  have "(\<exists>x\<in>set xs. P x) \<and> length (filter P xs) \<le> 1 \<longleftrightarrow> length (filter P xs) = 1"
    using filter_empty_conv [of P xs] by (cases "length (filter P xs)") auto
  also have "\<dots> \<longleftrightarrow> card {x \<in> set xs. P x} = 1" using distinct_card [OF distinct_filter [OF assms, of P]] by simp
  also have "\<dots> \<longleftrightarrow> (\<exists>!x. x \<in> set xs \<and> P x)" 
    unfolding One_nat_def card_1_singleton_iff set_eq_iff mem_Collect_eq Ex1_def by blast
  finally show ?thesis .
qed

section \<open>Choices\<close>

lemma implies_denotes:
  assumes "wf_bdd b" "denotes b c C" "denotes b t F"
  shows "yields b (ite c t bdd_true) (\<lambda>x b'. denotes b' x (\<lambda>e. C e \<longrightarrow> F e))"
proof -
  have "denotes b bdd_true (\<lambda>_. True)" using assms(1) by (simp add: bdd_true_def)
  from ite_denotes [OF assms this] show ?thesis by (rule yields_weaken) (simp add: if_bool_eq_conj)
qed

lemma nand_denotes:
  assumes "wf_bdd b" "denotes b f F" "denotes b s G"
  shows "yields b (bindB (bdd_apply AND_OP f s) negate) (\<lambda>x b'. denotes b' x (\<lambda>e. \<not> (F e \<and> G e)))"
  by (rule yields_bind [OF apply_denotes [OF assms]]) (use negate_denotes in fastforce)

lemma guarded_nand_denotes:
  assumes "wf_bdd b" "denotes b a A" "denotes b f F" "denotes b s G"
  shows "yields b (bindB (bdd_apply AND_OP f s) (\<lambda>both. bindB (negate both) (\<lambda>n. ite a n bdd_true))) (\<lambda>x b'. denotes b' x (\<lambda>e. A e \<longrightarrow> \<not> (F e \<and> G e)))"
proof -
  have "yields b (bindB (bindB (bdd_apply AND_OP f s) negate) (\<lambda>n. ite a n bdd_true)) (\<lambda>x b'. denotes b' x (\<lambda>e. A e \<longrightarrow> \<not> (F e \<and> G e)))"
    by (rule yields_bind [OF nand_denotes [OF assms(1,3,4)]]) (rule implies_denotes, assumption, rule denotes_grows [OF assms(2)])
  then show ?thesis by (simp add: yields_def bindB_def Option.bind_assoc split_def)
qed

lemma mapB_map: "mapB f (map g xs) = mapB (f \<circ> g) xs"
  by (induction xs) auto

lemma exactly_one_meaning:
  assumes "branching T n = choice_options T n" "distinct (choice_options T n)"
  shows "(\<exists>r\<in>set (branching T n). e (ix (Chosen n r))) \<and> (\<forall>(r, r')\<in>set (later_pairs (branching T n)). \<not> (e (ix (Chosen n r)) \<and> e (ix (Chosen n r')))) \<longleftrightarrow>
    (\<exists>!r. picks T ix e n r)"
  using unique_by_count [OF assms(2), of "\<lambda>r. e (ix (Chosen n r))"] later_pairs_unique [of "choice_options T n" "\<lambda>r. e (ix (Chosen n r))"] assms(1)
  by (cases "choice_options T n") (auto simp: picks_def)

lemma exactly_one_denotes:
  assumes w: "wf_bdd b" and v: "vars_ok T V ix b" and T: "wf_topology T" and n: "n \<in> set (ct_nodes T)" and m: "branching T n \<noteq> []"
  shows "yields b (exactly_one_when_active V n) (\<lambda>r b'. denotes b' r (\<lambda>e. e (ix (Cur n)) \<longrightarrow> (\<exists>!r. picks T ix e n r)))"
proof -
  let ?cs = "fv_choices V n" and ?lit = "\<lambda>r e. e (ix (Chosen n r))" and ?A = "\<lambda>e. e (ix (Cur n))"
  let ?B = "branching T n" and ?a = "fv_node_current V n"
  have keys: "map fst ?cs = ?B" using v n by (simp add: vars_ok_def)
  have opts: "?B = choice_options T n" using m by (auto simp: branching_def split: if_splits)
  have lits: "all_denote b (map snd ?cs) (map ?lit ?B)"
    unfolding keys [symmetric] map_map all_denote_map using choice_denotes(2) [OF v T n] by auto
  let ?f = "\<lambda>(f, s). bindB (bdd_apply AND_OP f s) (\<lambda>both. bindB (negate both) (\<lambda>not_both. ite ?a not_both bdd_true))"
  let ?S = "\<lambda>p e. ?A e \<longrightarrow> \<not> (?lit (fst (fst p)) e \<and> ?lit (fst (snd p)) e)"
  have pair: "yields b' ((?f \<circ> map_prod snd snd) p) (\<lambda>y b''. denotes b'' y (?S p))"
    if p: "p \<in> set (later_pairs ?cs)" "wf_bdd b'" "grows b b'" for p b'
  proof -
    obtain r x r' x' where p': "p = ((r, x), (r', x'))" by (cases p) auto
    note v' = vars_ok_grows [OF v p(3)]
    have "(r, x) \<in> set ?cs" "(r', x') \<in> set ?cs" using later_pairs_sub [of "(r, x)" "(r', x')" ?cs] p(1) p' by simp_all
    note d = this [THEN choice_denotes(2) [OF v' T n]]
    show ?thesis using guarded_nand_denotes [OF p(2) variable_denotes(1) [OF v' n] d] p' by simp
  qed
  show ?thesis unfolding exactly_one_when_active_def Let_def later_pairs_map mapB_map
  proof (rule yields_bind [OF disjunction_denotes [OF w lits]])
    fix x1 b1
    assume 1: "wf_bdd b1" "grows b b1" "denotes b1 x1 (\<lambda>e. \<exists>F\<in>set (map ?lit ?B). F e)"
    show "yields b1 (bindB (ite ?a x1 bdd_true) (\<lambda>clause. bindB (mapB (?f \<circ> map_prod snd snd) (later_pairs ?cs)) (\<lambda>clauses. conjunction (clause # clauses))))
      (\<lambda>r b'. denotes b' r (\<lambda>e. ?A e \<longrightarrow> (\<exists>!r. picks T ix e n r)))"
    proof (rule yields_bind [OF implies_denotes [OF 1(1) denotes_grows [OF variable_denotes(1) [OF v n] 1(2)] 1(3)]])
      fix x2 b2
      assume 2: "wf_bdd b2" "grows b1 b2" "denotes b2 x2 (\<lambda>e. ?A e \<longrightarrow> (\<exists>F\<in>set (map ?lit ?B). F e))"
      show "yields b2 (bindB (mapB (?f \<circ> map_prod snd snd) (later_pairs ?cs)) (\<lambda>clauses. conjunction (x2 # clauses)))
        (\<lambda>r b'. denotes b' r (\<lambda>e. ?A e \<longrightarrow> (\<exists>!r. picks T ix e n r)))"
      proof (rule yields_bind [OF yields_map_denotes [where S = ?S, OF 2(1) pair]])
        fix ys b3
        assume 3: "wf_bdd b3" "grows b2 b3" "all_denote b3 ys (map ?S (later_pairs ?cs))"
        let ?Fs = "(\<lambda>e. ?A e \<longrightarrow> (\<exists>F\<in>set (map ?lit ?B). F e)) # map ?S (later_pairs ?cs)"
        have all: "all_denote b3 (x2 # ys) ?Fs" using 3 denotes_grows [OF 2(3) 3(2)] by simp
        have "(\<forall>F\<in>set ?Fs. F e) \<longleftrightarrow> (?A e \<longrightarrow> (\<exists>!r. picks T ix e n r))" for e
        proof -
          have "(\<forall>p\<in>set (later_pairs ?cs). \<not> (?lit (fst (fst p)) e \<and> ?lit (fst (snd p)) e)) \<longleftrightarrow>
              (\<forall>(r, r')\<in>set (later_pairs ?B). \<not> (?lit r e \<and> ?lit r' e))"
            unfolding keys [symmetric] later_pairs_map by auto
          then show ?thesis
            using exactly_one_meaning [OF opts choice_options_wf(1) [OF T n], of e ix] by auto
        qed
        then show "yields b3 (conjunction (x2 # ys)) (\<lambda>r b'. denotes b' r (\<lambda>e. ?A e \<longrightarrow> (\<exists>!r. picks T ix e n r)))"
          using conjunction_denotes [OF 3(1) all] by simp
      qed (assumption, assumption, rule grows_trans [OF grows_trans [OF 1(2) 2(2)]])
    qed
  qed
qed

lemma choice_constraints_denotes:
  assumes w: "wf_bdd b" and v: "vars_ok T V ix b" and T: "wf_topology T"
  shows "yields b (choice_constraints V) (\<lambda>r b'. denotes b' r (choice_ok T ix))"
proof -
  let ?S = "\<lambda>n e. e (ix (Cur n)) \<longrightarrow> (\<exists>!r. picks T ix e n r)" and ?ns = "filter (\<lambda>n. fv_choices V n \<noteq> []) (fv_nodes V)"
  have nodes: "set (fv_nodes V) = set (ct_nodes T)" "\<And>n. n \<in> set (ct_nodes T) \<Longrightarrow> fv_choices V n = [] \<longleftrightarrow> branching T n = []"
    using v by (auto simp: vars_ok_def)
  have "yields b (choice_constraints V) (\<lambda>r b'. denotes b' r (\<lambda>e. \<forall>n\<in>set ?ns. ?S n e))"
    unfolding choice_constraints_def
    by (rule conjunction_of_map [where S = ?S, OF w]) (use nodes exactly_one_denotes vars_ok_grows [OF v] T in auto)
  moreover have "(\<forall>n\<in>set ?ns. ?S n e) \<longleftrightarrow> choice_ok T ix e" for e
  proof -
    have single: "\<exists>!r. picks T ix e n r" if "n \<in> set (ct_nodes T)" "branching T n = []" for n
    proof -
      have "length (choice_options T n) = 1" using that choice_options_wf(3) [OF T that(1)]
        by (cases "choice_options T n") (auto simp: branching_def split: if_splits)
      then obtain r where "choice_options T n = [r]" by (auto simp: length_Suc_conv)
      then show ?thesis using that(2) by (auto simp: picks_def)
    qed
    show ?thesis
    proof
      assume all: "\<forall>n\<in>set ?ns. ?S n e"
      have "?S n e" if "n \<in> set (ct_nodes T)" for n using all single [OF that] nodes that by (cases "branching T n = []") simp_all
      then show "choice_ok T ix e" by (simp add: choice_ok_def)
    qed (use nodes in \<open>simp add: choice_ok_def\<close>)
  qed
  ultimately show ?thesis by simp
qed

end
