(* ===== verification/Frontier_Causes.thy ===== *)
theory Frontier_Causes
  imports Frontier_Meaning
begin

text \<open>The causes of an activation and the levels of a join, as diagrams.\<close>

definition arrived_in :: "(slot \<Rightarrow> nat) \<Rightarrow> (nat \<Rightarrow> bool) \<Rightarrow> compiled_join \<Rightarrow> int \<Rightarrow> string \<Rightarrow> bool" where
  "arrived_in ix e j k s \<longleftrightarrow> e (ix (JCur (j, k, s))) \<or> (offset_of j s = k \<and> e (ix (Cur s)))"

definition fires_in :: "control_topology \<Rightarrow> (slot \<Rightarrow> nat) \<Rightarrow> cause \<Rightarrow> (nat \<Rightarrow> bool) \<Rightarrow> bool" where
  "fires_in T ix x e =
     (case x of
        DirectCause s \<Rightarrow> e (ix (Cur s))
      | RouteCause s r \<Rightarrow> e (ix (Cur s)) \<and> picks T ix e s (Some r)
      | JoinCause j \<Rightarrow> \<forall>s\<in>set (sources_of j). arrived_in ix e j 1 s)"

definition cause_match :: "control_topology \<Rightarrow> (slot \<Rightarrow> nat) \<Rightarrow> bdd \<Rightarrow> cause \<Rightarrow> nat \<times> string list \<Rightarrow> bool" where
  "cause_match T ix b x p \<longleftrightarrow> denotes b (fst p) (fires_in T ix x) \<and> snd p = cause_sources x"

definition causes_match :: "control_topology \<Rightarrow> (slot \<Rightarrow> nat) \<Rightarrow> bdd \<Rightarrow> (string \<Rightarrow> cause list) \<Rightarrow> causes \<Rightarrow> bool" where
  "causes_match T ix b CS cs \<longleftrightarrow> (\<forall>t. list_all2 (cause_match T ix b) (CS t) (cs t))"

lemma causes_match_grows: "causes_match T ix b CS cs \<Longrightarrow> grows b b' \<Longrightarrow> causes_match T ix b' CS cs"
  unfolding causes_match_def using denotes_grows by (blast intro: list_all2_mono [of "cause_match T ix b"] dest: cause_match_def [THEN iffD1] intro: cause_match_def [THEN iffD2])

lemma causes_match_add:
  "causes_match T ix b CS cs \<Longrightarrow> cause_match T ix b x p \<Longrightarrow> causes_match T ix b (CS(t := CS t @ [x])) (add_cause cs t p)"
  by (auto simp: causes_match_def add_cause_def intro: list_all2_appendI)

section \<open>Causes of one source\<close>

lemma direct_causes_match:
  assumes m: "causes_match T ix b CS cs" and d: "denotes b active (\<lambda>e. e (ix (Cur s)))" and t: "distinct ts"
  shows "causes_match T ix b (\<lambda>t. CS t @ (if t \<in> set ts then [DirectCause s] else [])) (fold (\<lambda>t cs. add_cause cs t (active, [s])) ts cs)"
  using m t
proof (induction ts arbitrary: CS cs)
  case (Cons u ts)
  have "cause_match T ix b (DirectCause s) (active, [s])"
    using d by (simp add: cause_match_def fires_in_def [abs_def] cause_sources_def)
  from Cons.IH [OF causes_match_add [OF Cons.prems(1) this]] Cons.prems(2)
  have "causes_match T ix b (\<lambda>t. (CS(u := CS u @ [DirectCause s])) t @ (if t \<in> set ts then [DirectCause s] else []))
    (fold (\<lambda>t cs. add_cause cs t (active, [s])) (u # ts) cs)" by simp
  moreover have "(\<lambda>t. (CS(u := CS u @ [DirectCause s])) t @ (if t \<in> set ts then [DirectCause s] else [])) =
    (\<lambda>t. CS t @ (if t \<in> set (u # ts) then [DirectCause s] else []))" using Cons.prems(2) by auto
  ultimately show ?case by simp
qed simp

lemma route_cause_yields:
  assumes w: "wf_bdd b" and v: "vars_ok T V ix b" and T: "wf_topology T" and s: "s \<in> set (ct_nodes T)"
  shows "yields b (bdd_apply AND_OP (fv_node_current V s) (choice_literal T V s (Some r))) (\<lambda>c b'. cause_match T ix b' (RouteCause s r) (c, [s]))"
  using apply_denotes [OF w variable_denotes(1) [OF v s] choice_literal_denotes [OF w v T s], of AND_OP "Some r"]
  by (rule yields_weaken) (simp add: cause_match_def fires_in_def [abs_def] cause_sources_def)

lemma source_causes_yields:
  assumes w: "wf_bdd b" and v: "vars_ok T V ix b" and T: "wf_topology T" and s: "s \<in> set (ct_nodes T)" and m: "causes_match T ix b CS cs"
  shows "yields b (source_causes T V cs s) (\<lambda>cs' b'. causes_match T ix b' (\<lambda>t. CS t @ node_causes T t s) cs')"
proof -
  have "finite (ct_direct T s)" using T s finite_subset by (auto simp: wf_topology_def)
  then have l: "distinct (sorted_list_of_set (ct_direct T s))" "set (sorted_list_of_set (ct_direct T s)) = ct_direct T s" by simp_all
  define D where "D t = CS t @ (if t \<in> ct_direct T s then [DirectCause s] else [])" for t
  define R where "R past t = map (\<lambda>(r, _). RouteCause s r) (filter (\<lambda>(_, t'). t' = t \<and> t' \<noteq> END_NODE) past)" for past :: "(string \<times> string) list" and t
  let ?I = "\<lambda>past cs' b'. grows b b' \<and> causes_match T ix b' (\<lambda>t. D t @ R past t) cs'"
  have "yields b (source_causes T V cs s) (?I (ct_conditional T s))"
    unfolding source_causes_def Let_def
  proof (rule yields_fold [where I = ?I, OF w])
    show "?I [] (fold (\<lambda>t cs. add_cause cs t (fv_node_current V s, [s])) (sorted_list_of_set (ct_direct T s)) cs) b"
      using direct_causes_match [OF m variable_denotes(1) [OF v s] l(1)] unfolding l(2) by (simp add: R_def D_def)
  next
    fix past x rest cs1 b1
    assume 1: "ct_conditional T s = past @ x # rest" "wf_bdd b1" "?I past cs1 b1"
    obtain r t where x: "x = (r, t)" by (cases x)
    show "yields b1 (case x of (route, target) \<Rightarrow> if target \<noteq> END_NODE
        then bindB (bdd_apply AND_OP (fv_node_current V s) (choice_literal T V s (Some route))) (\<lambda>c. returnB (add_cause cs1 target (c, [s])))
        else returnB cs1) (?I (past @ [x]))"
    proof (cases "t = END_NODE")
      case True
      then have "R (past @ [x]) = R past" by (simp add: R_def x fun_eq_iff)
      then show ?thesis using 1 True x by (auto intro: yields_return)
    next
      case False
      have R: "(\<lambda>u. D u @ R (past @ [x]) u) = (\<lambda>u. D u @ R past u)(t := (D t @ R past t) @ [RouteCause s r])"
        using False by (simp add: R_def x fun_eq_iff)
      have "yields b1 (bindB (bdd_apply AND_OP (fv_node_current V s) (choice_literal T V s (Some r))) (\<lambda>c. returnB (add_cause cs1 t (c, [s])))) (?I (past @ [x]))"
      proof (rule yields_bind [OF route_cause_yields [OF 1(2) vars_ok_grows [OF v conjunct1 [OF 1(3)]] T s]])
        fix c b2
        assume 2: "wf_bdd b2" "grows b1 b2" "cause_match T ix b2 (RouteCause s r) (c, [s])"
        have "?I (past @ [x]) (add_cause cs1 t (c, [s])) b2" unfolding R
          using causes_match_add [OF causes_match_grows [OF conjunct2 [OF 1(3)] 2(2)] 2(3)] 1(3) 2(2) grows_trans by blast
        then show "yields b2 (returnB (add_cause cs1 t (c, [s]))) (?I (past @ [x]))" using 2(1) by (intro yields_return)
      qed
      then show ?thesis using False x by simp
    qed
  qed
  then show ?thesis by (rule yields_weaken) (simp add: D_def R_def node_causes_def)
qed

lemma control_causes_yields:
  assumes w: "wf_bdd b" and v: "vars_ok T V ix b" and T: "wf_topology T"
  shows "yields b (foldB (source_causes T V) (\<lambda>_. []) (fv_nodes V)) (\<lambda>cs b'. causes_match T ix b' (\<lambda>t. concat (map (node_causes T t) (fv_nodes V))) cs)"
proof -
  let ?I = "\<lambda>past cs b'. grows b b' \<and> causes_match T ix b' (\<lambda>t. concat (map (node_causes T t) past)) cs"
  have "yields b (foldB (source_causes T V) (\<lambda>_. []) (fv_nodes V)) (?I (fv_nodes V))"
  proof (rule yields_fold [where I = ?I, OF w])
    show "?I [] (\<lambda>_. []) b" by (simp add: causes_match_def)
    fix past s rest cs b1
    assume 1: "fv_nodes V = past @ s # rest" "wf_bdd b1" "?I past cs b1"
    then have s: "s \<in> set (ct_nodes T)" using v by (auto simp: vars_ok_def)
    show "yields b1 (source_causes T V cs s) (?I (past @ [s]))"
      using source_causes_yields [OF 1(2) vars_ok_grows [OF v conjunct1 [OF 1(3)]] T s conjunct2 [OF 1(3)]]
      by (rule yields_weaken) (use 1(3) grows_trans in auto)
  qed
  then show ?thesis by (rule yields_weaken) simp
qed

section \<open>Lists of constraints\<close>

definition restricts :: "bdd \<Rightarrow> nat list \<Rightarrow> ((nat \<Rightarrow> bool) \<Rightarrow> bool) \<Rightarrow> bool" where
  "restricts b cs C \<longleftrightarrow> (\<exists>Fs. all_denote b cs Fs \<and> (\<forall>e. (\<forall>F\<in>set Fs. F e) \<longleftrightarrow> C e))"

lemma restricts_grows: "restricts b cs C \<Longrightarrow> grows b b' \<Longrightarrow> restricts b' cs C"
  unfolding restricts_def using all_denote_grows by blast

lemma restricts_nil: "restricts b [] (\<lambda>_. True)"
  by (simp add: restricts_def)

lemma restricts_cons: "denotes b c F \<Longrightarrow> restricts b cs C \<Longrightarrow> restricts b (c # cs) (\<lambda>e. F e \<and> C e)"
  unfolding restricts_def by (metis all_denote_simps(2) list.set_intros(1,2) set_ConsD)

lemma restricts_append:
  assumes "restricts b cs C" "restricts b ds D"
  shows "restricts b (cs @ ds) (\<lambda>e. C e \<and> D e)"
proof -
  obtain Fs Gs where "all_denote b cs Fs" "\<And>e. (\<forall>F\<in>set Fs. F e) = C e" "all_denote b ds Gs" "\<And>e. (\<forall>F\<in>set Gs. F e) = D e"
    using assms by (auto simp: restricts_def)
  then show ?thesis unfolding restricts_def by (intro exI [of _ "Fs @ Gs"]) (auto simp: ball_Un)
qed

lemma restricts_concat: "list_all2 (\<lambda>x cs. restricts b cs (S x)) xs css \<Longrightarrow> restricts b (concat css) (\<lambda>e. \<forall>x\<in>set xs. S x e)"
  by (induction rule: list_all2_induct) (use restricts_nil restricts_append in \<open>auto simp: ball_Un\<close>)

lemma restricts_weaken: "restricts b cs C \<Longrightarrow> (\<And>e. C e \<longleftrightarrow> D e) \<Longrightarrow> restricts b cs D"
  by (simp add: restricts_def)

lemma conjunction_of_constraints: "wf_bdd b \<Longrightarrow> restricts b cs C \<Longrightarrow> yields b (conjunction cs) (\<lambda>r b'. denotes b' r C)"
  unfolding restricts_def by (elim exE conjE) (rule yields_weaken [OF conjunction_denotes], assumption+, simp)

lemma bind_return [simp]: "bindB (returnB x) f = f x"
  by (rule ext) (simp add: bindB_def returnB_def)

section \<open>Levels of a join\<close>

lemma join_level_keys:
  assumes T: "wf_topology T" and j: "j \<in> set (unique_joins T)" and s: "s \<in> set (sources_of j)"
  shows "s \<in> set (ct_nodes T)" "1 \<le> k \<Longrightarrow> k \<le> max_offset j \<Longrightarrow> (j, k, s) \<in> set (join_state_keys (unique_joins T))"
    "liftB (target_offset j s) = returnB (offset_of j s)"
  using wf_unique_joins [OF T j] s j wf_join_offset(1) [OF wf_unique_joins [OF T j] s]
  by (auto simp: wf_join_def join_key_iff liftB_def)

lemma join_arrival_yields:
  assumes w: "wf_bdd b" and v: "vars_ok T V ix b" and T: "wf_topology T" and j: "j \<in> set (unique_joins T)" and k: "1 \<le> k" "k \<le> max_offset j"
    and s: "s \<in> set (sources_of j)"
  shows "yields b (join_arrival V j k s) (\<lambda>r b'. denotes b' r (\<lambda>e. arrived_in ix e j k s))"
proof -
  note key = join_level_keys [OF T j s]
  have p: "denotes b (fv_join_current V (j, k, s)) (\<lambda>e. e (ix (JCur (j, k, s))))" by (rule variable_denotes(3) [OF v key(2) [OF k]])
  have a: "denotes b (fv_node_current V s) (\<lambda>e. e (ix (Cur s)))" by (rule variable_denotes(1) [OF v key(1)])
  let ?Fs = "(\<lambda>e. e (ix (JCur (j, k, s)))) # (if offset_of j s = k then [\<lambda>e. e (ix (Cur s))] else [])"
  have "all_denote b (fv_join_current V (j, k, s) # (if offset_of j s = k then [fv_node_current V s] else [])) ?Fs" using p a by simp
  from disjunction_denotes [OF w this] show ?thesis
    unfolding join_arrival_def key(3) bind_return by (rule yields_weaken) (auto simp: arrived_in_def elim!: back_subst [of "denotes _ _"])
qed

definition arrival_ok :: "(slot \<Rightarrow> nat) \<Rightarrow> (nat \<Rightarrow> bool) \<Rightarrow> compiled_join \<Rightarrow> int \<Rightarrow> string \<Rightarrow> bool" where
  "arrival_ok ix e j k s \<longleftrightarrow> (offset_of j s = k \<longrightarrow> \<not> (e (ix (JCur (j, k, s))) \<and> e (ix (Cur s)))) \<and>
     (1 < k \<longrightarrow> e (ix (JFol (j, k - 1, s))) = arrived_in ix e j k s)"

lemma arrival_constraints_yields:
  assumes w: "wf_bdd b" and v: "vars_ok T V ix b" and T: "wf_topology T" and j: "j \<in> set (unique_joins T)" and k: "1 \<le> k" "k \<le> max_offset j"
    and s: "s \<in> set (sources_of j)" and a: "denotes b arrival (\<lambda>e. arrived_in ix e j k s)"
  shows "yields b (arrival_constraints V j k (s, arrival)) (\<lambda>cs b'. restricts b' cs (\<lambda>e. arrival_ok ix e j k s))"
proof -
  note key = join_level_keys [OF T j s]
  let ?P = "\<lambda>e. offset_of j s = k \<longrightarrow> \<not> (e (ix (JCur (j, k, s))) \<and> e (ix (Cur s)))"
  let ?Q = "\<lambda>e. 1 < k \<longrightarrow> e (ix (JFol (j, k - 1, s))) = arrived_in ix e j k s"
  have one: "yields b' (if offset_of j s = k then bindB (bdd_apply AND_OP (fv_join_current V (j, k, s)) (fv_node_current V s))
      (\<lambda>duplicate. bindB (negate duplicate) (\<lambda>c. returnB [c])) else returnB []) (\<lambda>cs b''. restricts b'' cs ?P)"
    if "wf_bdd b'" "grows b b'" for b'
  proof (cases "offset_of j s = k")
    case True
    note v' = vars_ok_grows [OF v that(2)]
    have "yields b' (bindB (bindB (bdd_apply AND_OP (fv_join_current V (j, k, s)) (fv_node_current V s)) negate) (\<lambda>c. returnB [c])) (\<lambda>cs b''. restricts b'' cs ?P)"
    proof (rule yields_bind [OF nand_denotes [OF that(1) variable_denotes(3) [OF v' key(2) [OF k]] variable_denotes(1) [OF v' key(1)]]])
      fix c b2
      assume "wf_bdd b2" "denotes b2 c (\<lambda>e. \<not> (e (ix (JCur (j, k, s))) \<and> e (ix (Cur s))))"
      then show "yields b2 (returnB [c]) (\<lambda>cs b''. restricts b'' cs ?P)"
        using restricts_cons [OF _ restricts_nil] True by (intro yields_return) (auto intro: restricts_weaken)
    qed
    then show ?thesis using True by (simp add: yields_def bindB_def Option.bind_assoc split_def)
  next
    case False
    then show ?thesis using that(1) restricts_nil by (auto intro!: yields_return)
  qed
  have two: "yields b' (if 1 < k then bindB (equivalence (fv_join_following V (j, k - 1, s)) arrival) (\<lambda>c. returnB [c]) else returnB [])
      (\<lambda>cs b''. restricts b'' cs ?Q)" if "wf_bdd b'" "grows b b'" for b'
  proof (cases "1 < k")
    case True
    have "(j, k - 1, s) \<in> set (join_state_keys (unique_joins T))" using True k j s by (simp add: join_key_iff)
    note d = variable_denotes(4) [OF vars_ok_grows [OF v that(2)] this]
    have "yields b' (bindB (equivalence (fv_join_following V (j, k - 1, s)) arrival) (\<lambda>c. returnB [c])) (\<lambda>cs b''. restricts b'' cs ?Q)"
    proof (rule yields_bind [OF equivalence_denotes [OF that(1) d denotes_grows [OF a that(2)]]])
      fix c b2
      assume "wf_bdd b2" "denotes b2 c (\<lambda>e. e (ix (JFol (j, k - 1, s))) = arrived_in ix e j k s)"
      then show "yields b2 (returnB [c]) (\<lambda>cs b''. restricts b'' cs ?Q)"
        using restricts_cons [OF _ restricts_nil] True by (intro yields_return) (auto intro: restricts_weaken)
    qed
    then show ?thesis using True by simp
  next
    case False
    then show ?thesis using that(1) restricts_nil by (auto intro!: yields_return)
  qed
  show ?thesis unfolding arrival_constraints_def prod.case key(3) bind_return
  proof (rule yields_bind [OF one [OF w grows_refl]])
    fix cs b1
    assume 1: "wf_bdd b1" "grows b b1" "restricts b1 cs ?P"
    show "yields b1 (bindB (if 1 < k then bindB (equivalence (fv_join_following V (j, k - 1, s)) arrival) (\<lambda>c. returnB [c]) else returnB [])
      (\<lambda>second. returnB (cs @ second))) (\<lambda>cs b'. restricts b' cs (\<lambda>e. arrival_ok ix e j k s))"
    proof (rule yields_bind [OF two [OF 1(1,2)]])
      fix ds b2
      assume 2: "wf_bdd b2" "grows b1 b2" "restricts b2 ds ?Q"
      have "restricts b2 (cs @ ds) (\<lambda>e. arrival_ok ix e j k s)"
        using restricts_append [OF restricts_grows [OF 1(3) 2(2)] 2(3)] by (rule restricts_weaken) (simp add: arrival_ok_def)
      then show "yields b2 (returnB (cs @ ds)) (\<lambda>cs b'. restricts b' cs (\<lambda>e. arrival_ok ix e j k s))" using 2(1) by (intro yields_return)
    qed
  qed
qed

end
