(* ===== verification/Frontier_Build.thy ===== *)
theory Frontier_Build
  imports Frontier_Causes
begin

text \<open>The transition relation: all constraints of \<open>_build_relation\<close> together.\<close>

section \<open>One level of a join\<close>

definition level_ok :: "(slot \<Rightarrow> nat) \<Rightarrow> (nat \<Rightarrow> bool) \<Rightarrow> compiled_join \<Rightarrow> int \<Rightarrow> bool" where
  "level_ok ix e j k \<longleftrightarrow>
     (if k = 1 then (\<exists>s\<in>set (sources_of j). arrived_in ix e j k s) \<longrightarrow> (\<forall>s\<in>set (sources_of j). arrived_in ix e j k s)
      else \<not> (\<forall>s\<in>set (sources_of j). arrived_in ix e j k s)) \<and>
     (\<forall>s\<in>set (sources_of j). arrival_ok ix e j k s)"

definition join_cause_at :: "compiled_join \<times> int \<Rightarrow> string \<Rightarrow> cause list" where
  "join_cause_at x t = (if snd x = 1 \<and> target_of (fst x) = t \<and> t \<noteq> END_NODE then [JoinCause (fst x)] else [])"

definition level_inv :: "control_topology \<Rightarrow> (slot \<Rightarrow> nat) \<Rightarrow> ((nat \<Rightarrow> bool) \<Rightarrow> bool) \<Rightarrow> (string \<Rightarrow> cause list) \<Rightarrow> nat list \<times> causes \<Rightarrow> bdd \<Rightarrow> bool" where
  "level_inv T ix C CS st b \<longleftrightarrow> restricts b (fst st) C \<and> causes_match T ix b CS (snd st)"

lemma level_constraint_yields:
  assumes "wf_bdd b" "all_denote b arrivals Fs" "denotes b any_arrival (\<lambda>e. \<exists>F\<in>set Fs. F e)" "denotes b full (\<lambda>e. \<forall>F\<in>set Fs. F e)"
  shows "yields b (if k = 1 then ite any_arrival full bdd_true else negate full)
    (\<lambda>r b'. denotes b' r (\<lambda>e. if k = 1 then (\<exists>F\<in>set Fs. F e) \<longrightarrow> (\<forall>F\<in>set Fs. F e) else \<not> (\<forall>F\<in>set Fs. F e)))"
  using implies_denotes [OF assms(1,3,4)] negate_denotes [OF assms(1,4)] by simp

lemma level_finish:
  assumes i: "level_inv T ix C CS (cons, cs) b" and full: "denotes b full (\<lambda>e. \<forall>s\<in>set (sources_of j). arrived_in ix e j k s)"
    and c: "denotes b constraint (\<lambda>e. if k = 1 then (\<exists>s\<in>set (sources_of j). arrived_in ix e j k s) \<longrightarrow> (\<forall>s\<in>set (sources_of j). arrived_in ix e j k s)
      else \<not> (\<forall>s\<in>set (sources_of j). arrived_in ix e j k s))"
    and len: "length arrivals = length (sources_of j)"
    and rest: "list_all2 (\<lambda>x cs. restricts b cs (\<lambda>e. arrival_ok ix e j k (fst x))) (zip (sources_of j) arrivals) rest"
  shows "level_inv T ix (\<lambda>e. C e \<and> level_ok ix e j k) (\<lambda>t. CS t @ join_cause_at (j, k) t)
    (cons @ constraint # concat rest, if k = 1 \<and> target_of j \<noteq> END_NODE then add_cause cs (target_of j) (full, sources_of j) else cs) b"
proof -
  have "fst ` set (zip (sources_of j) arrivals) = set (sources_of j)" using len by (metis list.set_map map_fst_zip)
  then have arrs: "(\<forall>x\<in>set (zip (sources_of j) arrivals). arrival_ok ix e j k (fst x)) \<longleftrightarrow> (\<forall>s\<in>set (sources_of j). arrival_ok ix e j k s)" for e
    by (metis (no_types, lifting) imageE imageI)
  have r: "restricts b (cons @ constraint # concat rest) (\<lambda>e. C e \<and> level_ok ix e j k)"
    by (rule restricts_weaken [OF restricts_append [OF _ restricts_cons [OF c restricts_concat [OF rest]], of cons C]])
      (use i in \<open>simp_all add: level_inv_def level_ok_def arrs\<close>)
  have m: "causes_match T ix b CS cs" using i by (simp add: level_inv_def)
  have match: "cause_match T ix b (JoinCause j) (full, sources_of j)" if "k = 1"
    using full that by (simp add: cause_match_def fires_in_def [abs_def] cause_sources_def)
  have "(\<lambda>t. CS t @ join_cause_at (j, k) t) = (if k = 1 \<and> target_of j \<noteq> END_NODE then CS(target_of j := CS (target_of j) @ [JoinCause j]) else CS)"
    by (auto simp: join_cause_at_def fun_eq_iff)
  then show ?thesis using r m causes_match_add [OF m match] by (simp add: level_inv_def)
qed

lemma join_level_yields:
  assumes w: "wf_bdd b" and v: "vars_ok T V ix b" and T: "wf_topology T" and j: "j \<in> set (unique_joins T)" and k: "1 \<le> k" "k \<le> max_offset j"
    and i: "level_inv T ix C CS st b"
  shows "yields b (join_level V st (j, k)) (level_inv T ix (\<lambda>e. C e \<and> level_ok ix e j k) (\<lambda>t. CS t @ join_cause_at (j, k) t))"
proof -
  obtain cons cs where st: "st = (cons, cs)" by (cases st)
  let ?S = "\<lambda>s e. arrived_in ix e j k s" and ?ss = "sources_of j"
  let ?Q = "level_inv T ix (\<lambda>e. C e \<and> level_ok ix e j k) (\<lambda>t. CS t @ join_cause_at (j, k) t)"
  let ?L = "\<lambda>e. if k = 1 then (\<exists>F\<in>set (map ?S ?ss). F e) \<longrightarrow> (\<forall>F\<in>set (map ?S ?ss). F e) else \<not> (\<forall>F\<in>set (map ?S ?ss). F e)"
  have arr: "yields b' (join_arrival V j k s) (\<lambda>r b'. denotes b' r (?S s))" if "s \<in> set ?ss" "wf_bdd b'" "grows b b'" for s b'
    using join_arrival_yields [OF that(2) vars_ok_grows [OF v that(3)] T j k that(1)] .
  show ?thesis unfolding join_level_def st prod.case Let_def sources_of_def [symmetric] target_of_def [symmetric]
  proof (rule yields_bind [OF yields_map_denotes [where S = ?S, OF w arr]])
    fix arrivals b1
    assume 1: "wf_bdd b1" "grows b b1" "all_denote b1 arrivals (map ?S ?ss)"
    show "yields b1 (bindB (disjunction arrivals) (\<lambda>any_arrival. bindB (conjunction arrivals) (\<lambda>full.
      bindB (if k = 1 then ite any_arrival full bdd_true else negate full) (\<lambda>constraint.
      bindB (mapB (arrival_constraints V j k) (zip ?ss arrivals)) (\<lambda>rest. returnB (cons @ constraint # concat rest,
        if k = 1 \<and> target_of j \<noteq> END_NODE then add_cause cs (target_of j) (full, ?ss) else cs)))))) ?Q"
    proof (rule yields_bind [OF disjunction_denotes [OF 1(1,3)]])
      fix any_arrival b2
      assume 2: "wf_bdd b2" "grows b1 b2" "denotes b2 any_arrival (\<lambda>e. \<exists>F\<in>set (map ?S ?ss). F e)"
      note a2 = all_denote_grows [OF 1(3) 2(2)]
      show "yields b2 (bindB (conjunction arrivals) (\<lambda>full.
        bindB (if k = 1 then ite any_arrival full bdd_true else negate full) (\<lambda>constraint.
        bindB (mapB (arrival_constraints V j k) (zip ?ss arrivals)) (\<lambda>rest. returnB (cons @ constraint # concat rest,
          if k = 1 \<and> target_of j \<noteq> END_NODE then add_cause cs (target_of j) (full, ?ss) else cs))))) ?Q"
      proof (rule yields_bind [OF conjunction_denotes [OF 2(1) a2]])
        fix full b3
        assume 3: "wf_bdd b3" "grows b2 b3" "denotes b3 full (\<lambda>e. \<forall>F\<in>set (map ?S ?ss). F e)"
        note a3 = all_denote_grows [OF a2 3(2)]
        show "yields b3 (bindB (if k = 1 then ite any_arrival full bdd_true else negate full) (\<lambda>constraint.
          bindB (mapB (arrival_constraints V j k) (zip ?ss arrivals)) (\<lambda>rest. returnB (cons @ constraint # concat rest,
            if k = 1 \<and> target_of j \<noteq> END_NODE then add_cause cs (target_of j) (full, ?ss) else cs)))) ?Q"
        proof (rule yields_bind [OF level_constraint_yields [OF 3(1) a3 denotes_grows [OF 2(3) 3(2)] 3(3)]])
          fix constraint b4
          assume 4: "wf_bdd b4" "grows b3 b4" "denotes b4 constraint ?L"
          have g4: "grows b b4" using grows_trans 1(2) 2(2) 3(2) 4(2) by meson
          have each: "yields b' (arrival_constraints V j k x) (\<lambda>cs b''. restricts b'' cs (\<lambda>e. arrival_ok ix e j k (fst x)))"
            if x: "x \<in> set (zip ?ss arrivals)" "wf_bdd b'" "grows b4 b'" for x b'
          proof -
            obtain s a where sa: "x = (s, a)" by (cases x)
            have "denotes b1 a (?S s)" using 1(3) x(1) sa by (auto simp: all_denote_def list_all2_conv_all_nth in_set_zip)
            then have d: "denotes b' a (?S s)" using denotes_grows grows_trans 2(2) 3(2) 4(2) x(3) by meson
            have "s \<in> set ?ss" using x(1) sa by (auto dest: set_zip_leftD)
            from arrival_constraints_yields [OF x(2) vars_ok_grows [OF v grows_trans [OF g4 x(3)]] T j k this d] show ?thesis using sa by simp
          qed
          show "yields b4 (bindB (mapB (arrival_constraints V j k) (zip ?ss arrivals)) (\<lambda>rest. returnB (cons @ constraint # concat rest,
            if k = 1 \<and> target_of j \<noteq> END_NODE then add_cause cs (target_of j) (full, ?ss) else cs))) ?Q"
          proof (rule yields_bind [OF yields_map [where P = "\<lambda>x cs b'. restricts b' cs (\<lambda>e. arrival_ok ix e j k (fst x))", OF 4(1) each restricts_grows]])
            fix rest b5
            assume 5: "wf_bdd b5" "grows b4 b5"
              "list_all2 (\<lambda>x cs. restricts b5 cs (\<lambda>e. arrival_ok ix e j k (fst x))) (zip ?ss arrivals) rest"
            have g5: "grows b b5" by (rule grows_trans [OF g4 5(2)])
            have d5: "denotes b5 full (\<lambda>e. \<forall>s\<in>set ?ss. ?S s e)" using denotes_grows [OF 3(3) grows_trans [OF 4(2) 5(2)]] by simp
            have len: "length arrivals = length ?ss" using 1(3) by (auto simp: all_denote_def dest: list_all2_lengthD)
            have "level_inv T ix C CS (cons, cs) b5" using i st restricts_grows [OF _ g5] causes_match_grows [OF _ g5] by (simp add: level_inv_def)
            moreover have "denotes b5 constraint (\<lambda>e. if k = 1 then (\<exists>s\<in>set ?ss. ?S s e) \<longrightarrow> (\<forall>s\<in>set ?ss. ?S s e) else \<not> (\<forall>s\<in>set ?ss. ?S s e))"
              using denotes_grows [OF 4(3) 5(2)] by (simp cong: if_cong)
            ultimately have "?Q (cons @ constraint # concat rest, if k = 1 \<and> target_of j \<noteq> END_NODE then add_cause cs (target_of j) (full, ?ss) else cs) b5"
              using level_finish [OF _ d5 _ len 5(3)] by blast
            then show "yields b5 (returnB (cons @ constraint # concat rest,
                if k = 1 \<and> target_of j \<noteq> END_NODE then add_cause cs (target_of j) (full, ?ss) else cs)) ?Q"
              using 5(1) by (intro yields_return)
          qed
        qed
      qed
    qed
  qed
qed

definition join_levels :: "compiled_join list \<Rightarrow> (compiled_join \<times> int) list" where
  "join_levels joins = concat (map (\<lambda>j. map (Pair j) [1..max_offset j]) joins)"

lemma join_levels_iff: "(j, k) \<in> set (join_levels joins) \<longleftrightarrow> j \<in> set joins \<and> 1 \<le> k \<and> k \<le> max_offset j"
  by (force simp: join_levels_def)

lemma join_levels_causes:
  assumes "\<And>j. j \<in> set joins \<Longrightarrow> 1 \<le> max_offset j"
  shows "concat (map (\<lambda>x. join_cause_at x t) (join_levels joins)) = map JoinCause (filter (\<lambda>j. target_of j = t \<and> t \<noteq> END_NODE) joins)"
  using assms
proof (induction joins)
  case (Cons j joins)
  have "concat (map (\<lambda>x. join_cause_at x t) (map (Pair j) [2..max_offset j])) = []" by (auto simp: join_cause_at_def)
  moreover have "[1..max_offset j] = 1 # [2..max_offset j]" using Cons.prems [of j] upto_rec1 [of 1 "max_offset j"] by simp
  ultimately have "concat (map (\<lambda>x. join_cause_at x t) (map (Pair j) [1..max_offset j])) = join_cause_at (j, 1) t" by simp
  moreover have "join_levels (j # joins) = map (Pair j) [1..max_offset j] @ join_levels joins" by (simp add: join_levels_def)
  ultimately show ?case using Cons by (simp del: map_map add: join_cause_at_def)
qed (simp add: join_levels_def)

lemma wf_max_offset: "wf_join N j \<Longrightarrow> 1 \<le> max_offset j"
  using wf_join_offset [of N j "hd (sources_of j)"] by (fastforce simp: wf_join_def)

lemma join_levels_yields:
  assumes w: "wf_bdd b" and v: "vars_ok T V ix b" and T: "wf_topology T" and i: "level_inv T ix C CS st b"
  shows "yields b (foldB (join_level V) st (join_levels (unique_joins T)))
    (level_inv T ix (\<lambda>e. C e \<and> (\<forall>(j, k)\<in>set (join_levels (unique_joins T)). level_ok ix e j k))
      (\<lambda>t. CS t @ map JoinCause (filter (\<lambda>j. target_of j = t \<and> t \<noteq> END_NODE) (unique_joins T))))"
proof -
  let ?I = "\<lambda>past st b'. grows b b' \<and> level_inv T ix (\<lambda>e. C e \<and> (\<forall>(j, k)\<in>set past. level_ok ix e j k)) (\<lambda>t. CS t @ concat (map (\<lambda>x. join_cause_at x t) past)) st b'"
  have "yields b (foldB (join_level V) st (join_levels (unique_joins T))) (?I (join_levels (unique_joins T)))"
  proof (rule yields_fold [where I = ?I, OF w])
    show "?I [] st b" using i by simp
    fix past x rest st1 b1
    assume 1: "join_levels (unique_joins T) = past @ x # rest" "wf_bdd b1" "?I past st1 b1"
    obtain j k where x: "x = (j, k)" by (cases x)
    have jk: "j \<in> set (unique_joins T)" "1 \<le> k" "k \<le> max_offset j" using join_levels_iff [of j k "unique_joins T"] 1(1) x by simp_all
    show "yields b1 (join_level V st1 x) (?I (past @ [x]))" unfolding x
      using join_level_yields [OF 1(2) vars_ok_grows [OF v conjunct1 [OF 1(3)]] T jk conjunct2 [OF 1(3)]]
      by (rule yields_weaken) (use 1(3) grows_trans in \<open>auto simp: ball_Un conj_assoc level_inv_def elim!: restricts_weaken\<close>)
  qed
  moreover have "concat (map (\<lambda>x. join_cause_at x t) (join_levels (unique_joins T))) =
      map JoinCause (filter (\<lambda>j. target_of j = t \<and> t \<noteq> END_NODE) (unique_joins T))" for t
    by (rule join_levels_causes) (rule wf_max_offset [OF wf_unique_joins [OF T]])
  ultimately show ?thesis by (elim yields_weaken) simp
qed

section \<open>Activation of the targets\<close>

lemma yields_map2:
  assumes w: "wf_bdd b" and r: "list_all2 R xs ys"
    and step: "\<And>x y b'. R x y \<Longrightarrow> wf_bdd b' \<Longrightarrow> grows b b' \<Longrightarrow> yields b' (f y) (P x)"
    and keep: "\<And>x y b' b''. P x y b' \<Longrightarrow> grows b' b'' \<Longrightarrow> P x y b''"
  shows "yields b (mapB f ys) (\<lambda>zs b'. list_all2 (\<lambda>x z. P x z b') xs zs)"
proof -
  have len: "length xs = length ys" using r by (rule list_all2_lengthD)
  have mem: "R x y" if "(x, y) \<in> set (zip xs ys)" for x y using r that by (auto simp: list_all2_iff)
  have eq: "mapB f ys = mapB (f \<circ> snd) (zip xs ys)" using len by (simp flip: mapB_map)
  have "yields b (mapB (f \<circ> snd) (zip xs ys)) (\<lambda>zs b'. list_all2 (\<lambda>p z. P (fst p) z b') (zip xs ys) zs)"
    by (rule yields_map [where P = "\<lambda>p. P (fst p)", OF w]) (use mem step keep in auto)
  then show ?thesis unfolding eq by (rule yields_weaken) (use len in \<open>auto simp: list_all2_conv_all_nth\<close>)
qed

lemma later_pairs_rel: "list_all2 R xs ys \<Longrightarrow> list_all2 (rel_prod R R) (later_pairs xs) (later_pairs ys)"
proof (induction rule: list_all2_induct)
  case (Cons x xs y ys)
  then show ?case by (auto intro!: list_all2_appendI simp: list_all2_map1 list_all2_map2)
qed simp

definition target_ok :: "control_topology \<Rightarrow> (slot \<Rightarrow> nat) \<Rightarrow> cause list \<Rightarrow> string \<Rightarrow> (nat \<Rightarrow> bool) \<Rightarrow> bool" where
  "target_ok T ix xs t e \<longleftrightarrow> (\<forall>(x, y)\<in>set (later_pairs xs). \<not> (fires_in T ix x e \<and> fires_in T ix y e)) \<and>
     e (ix (Fol t)) = (\<exists>x\<in>set xs. fires_in T ix x e)"

definition pair_match :: "control_topology \<Rightarrow> (slot \<Rightarrow> nat) \<Rightarrow> bdd \<Rightarrow> string \<times> cause \<times> cause \<Rightarrow> nat \<times> string \<times> string list \<Rightarrow> bool" where
  "pair_match T ix b p d = (case (p, d) of ((t, x, y), (r, t', sources)) \<Rightarrow>
     t' = t \<and> denotes b r (\<lambda>e. fires_in T ix x e \<and> fires_in T ix y e) \<and>
     sources = sorted_list_of_set (set (cause_sources x) \<union> set (cause_sources y)))"

lemma pair_match_grows: "pair_match T ix b p d \<Longrightarrow> grows b b' \<Longrightarrow> pair_match T ix b' p d"
  using denotes_grows by (auto simp: pair_match_def split: prod.splits)

definition nand_match :: "control_topology \<Rightarrow> (slot \<Rightarrow> nat) \<Rightarrow> string \<Rightarrow> cause \<times> cause \<Rightarrow> nat \<times> nat \<times> string \<times> string list \<Rightarrow> bdd \<Rightarrow> bool" where
  "nand_match T ix t p z b \<longleftrightarrow> denotes b (fst z) (\<lambda>e. \<not> (fires_in T ix (fst p) e \<and> fires_in T ix (snd p) e)) \<and> pair_match T ix b (t, p) (snd z)"

lemma nand_match_grows: "nand_match T ix t p z b \<Longrightarrow> grows b b' \<Longrightarrow> nand_match T ix t p z b'"
  unfolding nand_match_def using denotes_grows pair_match_grows by blast

lemma target_pair_yields:
  assumes w: "wf_bdd b" and x: "cause_match T ix b x (f, fs)" and y: "cause_match T ix b y (s, ss)"
  shows "yields b (bindB (bdd_apply AND_OP f s) (\<lambda>d. bindB (negate d) (\<lambda>c. returnB (c, (d, t, sorted_list_of_set (set fs \<union> set ss))))))
    (nand_match T ix t (x, y))"
proof (rule yields_bind [OF apply_denotes [OF w]])
  show "denotes b f (fires_in T ix x)" "denotes b s (fires_in T ix y)" using x y by (simp_all add: cause_match_def)
  fix d b1
  assume 1: "wf_bdd b1" "grows b b1" "denotes b1 d (\<lambda>e. op_sem AND_OP (fires_in T ix x e) (fires_in T ix y e))"
  show "yields b1 (bindB (negate d) (\<lambda>c. returnB (c, (d, t, sorted_list_of_set (set fs \<union> set ss))))) (nand_match T ix t (x, y))"
  proof (rule yields_bind [OF negate_denotes [OF 1(1,3)]])
    fix c b2
    assume 2: "wf_bdd b2" "grows b1 b2" "denotes b2 c (\<lambda>e. \<not> op_sem AND_OP (fires_in T ix x e) (fires_in T ix y e))"
    then have "nand_match T ix t (x, y) (c, (d, t, sorted_list_of_set (set fs \<union> set ss))) b2"
      using denotes_grows [OF 1(3) 2(2)] x y by (simp add: nand_match_def pair_match_def cause_match_def)
    then show "yields b2 (returnB (c, (d, t, sorted_list_of_set (set fs \<union> set ss)))) (nand_match T ix t (x, y))" using 2(1) by (intro yields_return)
  qed
qed

lemma restricts_list: "list_all2 (\<lambda>x c. denotes b c (S x)) xs cs \<Longrightarrow> restricts b cs (\<lambda>e. \<forall>x\<in>set xs. S x e)"
  by (induction rule: list_all2_induct) (use restricts_nil restricts_cons in auto)

definition target_inv :: "control_topology \<Rightarrow> (slot \<Rightarrow> nat) \<Rightarrow> ((nat \<Rightarrow> bool) \<Rightarrow> bool) \<Rightarrow> (string \<times> cause \<times> cause) list \<Rightarrow>
    nat list \<times> (nat \<times> string \<times> string list) list \<Rightarrow> bdd \<Rightarrow> bool" where
  "target_inv T ix C ps st b \<longleftrightarrow> restricts b (fst st) C \<and> list_all2 (pair_match T ix b) ps (snd st)"

lemma target_constraints_yields:
  assumes w: "wf_bdd b" and v: "vars_ok T V ix b" and t: "t \<in> set (ct_nodes T)" and m: "causes_match T ix b CS cs" and i: "target_inv T ix C ps st b"
  shows "yields b (target_constraints V cs st t) (target_inv T ix (\<lambda>e. C e \<and> target_ok T ix (CS t) t e) (ps @ map (Pair t) (later_pairs (CS t))))"
proof -
  obtain cons dups where st: "st = (cons, dups)" by (cases st)
  let ?Q = "target_inv T ix (\<lambda>e. C e \<and> target_ok T ix (CS t) t e) (ps @ map (Pair t) (later_pairs (CS t)))"
  let ?f = "\<lambda>((f, fs), (s, ss)). bindB (bdd_apply AND_OP f s) (\<lambda>d. bindB (negate d) (\<lambda>c. returnB (c, (d, t, sorted_list_of_set (set fs \<union> set ss)))))"
  have mt: "list_all2 (cause_match T ix b) (CS t) (cs t)" using m by (simp add: causes_match_def)
  have step: "yields b' (?f y) (nand_match T ix t x)" if "rel_prod (cause_match T ix b) (cause_match T ix b) x y" "wf_bdd b'" "grows b b'" for x y b'
  proof -
    obtain x1 x2 f fs s ss where xy: "x = (x1, x2)" "y = ((f, fs), (s, ss))" by (cases x; cases y) auto
    have "cause_match T ix b' x1 (f, fs)" "cause_match T ix b' x2 (s, ss)" using that xy denotes_grows by (auto simp: cause_match_def)
    from target_pair_yields [OF that(2) this] show ?thesis using xy by simp
  qed
  show ?thesis unfolding target_constraints_def st prod.case
  proof (rule yields_bind [OF yields_map2 [where P = "nand_match T ix t", OF w later_pairs_rel [OF mt] step nand_match_grows]])
    fix zs b1
    assume 1: "wf_bdd b1" "grows b b1" "list_all2 (\<lambda>x z. nand_match T ix t x z b1) (later_pairs (CS t)) zs"
    have mt1: "all_denote b1 (map fst (cs t)) (map (fires_in T ix) (CS t))"
      using causes_match_grows [OF m 1(2)] by (auto simp: causes_match_def cause_match_def all_denote_def list_all2_conv_all_nth)
    show "yields b1 (bindB (disjunction (map fst (cs t))) (\<lambda>expression. bindB (equivalence (fv_node_following V t) expression) (\<lambda>c.
      returnB (cons @ map fst zs @ [c], dups @ map snd zs)))) ?Q"
    proof (rule yields_bind [OF disjunction_denotes [OF 1(1) mt1]])
      fix ex b2
      assume 2: "wf_bdd b2" "grows b1 b2" "denotes b2 ex (\<lambda>e. \<exists>F\<in>set (map (fires_in T ix) (CS t)). F e)"
      note g2 = grows_trans [OF 1(2) 2(2)]
      show "yields b2 (bindB (equivalence (fv_node_following V t) ex) (\<lambda>c. returnB (cons @ map fst zs @ [c], dups @ map snd zs))) ?Q"
      proof (rule yields_bind [OF equivalence_denotes [OF 2(1) variable_denotes(2) [OF vars_ok_grows [OF v g2] t] 2(3)]])
        fix c b3
        assume 3: "wf_bdd b3" "grows b2 b3" "denotes b3 c (\<lambda>e. e (ix (Fol t)) = (\<exists>F\<in>set (map (fires_in T ix) (CS t)). F e))"
        note g3 = grows_trans [OF g2 3(2)]
        have zs: "list_all2 (\<lambda>x z. nand_match T ix t x z b3) (later_pairs (CS t)) zs"
          using 1(3) nand_match_grows [OF _ grows_trans [OF 2(2) 3(2)]] by (rule list_all2_mono)
        have "restricts b3 (map fst zs) (\<lambda>e. \<forall>p\<in>set (later_pairs (CS t)). \<not> (fires_in T ix (fst p) e \<and> fires_in T ix (snd p) e))"
          by (rule restricts_list) (use zs in \<open>auto simp: nand_match_def list_all2_conv_all_nth\<close>)
        moreover have "list_all2 (pair_match T ix b3) (map (Pair t) (later_pairs (CS t))) (map snd zs)"
          using zs by (auto simp: nand_match_def list_all2_conv_all_nth)
        moreover have "restricts b3 cons C" "list_all2 (pair_match T ix b3) ps dups"
          using i st restricts_grows [OF _ g3] pair_match_grows [OF _ g3] by (auto simp: target_inv_def elim: list_all2_mono)
        ultimately have "restricts b3 (cons @ map fst zs @ [c]) (\<lambda>e. C e \<and> (\<forall>p\<in>set (later_pairs (CS t)). \<not> (fires_in T ix (fst p) e \<and> fires_in T ix (snd p) e)) \<and>
            e (ix (Fol t)) = (\<exists>F\<in>set (map (fires_in T ix) (CS t)). F e) \<and> True)"
          and "list_all2 (pair_match T ix b3) (ps @ map (Pair t) (later_pairs (CS t))) (dups @ map snd zs)"
          using restricts_append restricts_cons [OF 3(3) restricts_nil] by (blast, blast intro: list_all2_appendI)
        then have "?Q (cons @ map fst zs @ [c], dups @ map snd zs) b3"
          unfolding target_inv_def fst_conv snd_conv by (auto simp: target_ok_def split_def elim!: restricts_weaken)
        then show "yields b3 (returnB (cons @ map fst zs @ [c], dups @ map snd zs)) ?Q" using 3(1) by (intro yields_return)
      qed
    qed
  qed
qed

section \<open>The relation\<close>

definition last_level_ok :: "control_topology \<Rightarrow> (slot \<Rightarrow> nat) \<Rightarrow> (nat \<Rightarrow> bool) \<Rightarrow> bool" where
  "last_level_ok T ix e \<longleftrightarrow> (\<forall>j\<in>set (unique_joins T). \<forall>s\<in>set (sources_of j). \<not> e (ix (JFol (j, max_offset j, s))))"

definition relation_ok :: "control_topology \<Rightarrow> (slot \<Rightarrow> nat) \<Rightarrow> string list \<Rightarrow> (nat \<Rightarrow> bool) \<Rightarrow> bool" where
  "relation_ok T ix nodes e \<longleftrightarrow>
     choice_ok T ix e \<and> (\<forall>(j, k)\<in>set (join_levels (unique_joins T)). level_ok ix e j k) \<and>
     (\<forall>t\<in>set nodes. target_ok T ix (causes_of T nodes t) t e) \<and> last_level_ok T ix e"

definition cause_pairs :: "control_topology \<Rightarrow> string list \<Rightarrow> (string \<times> cause \<times> cause) list" where
  "cause_pairs T nodes = concat (map (\<lambda>t. map (Pair t) (later_pairs (causes_of T nodes t))) nodes)"

lemma targets_yield:
  assumes w: "wf_bdd b" and v: "vars_ok T V ix b" and m: "causes_match T ix b (causes_of T (fv_nodes V)) cs" and r: "restricts b cons C"
  shows "yields b (foldB (target_constraints V cs) (cons, []) (fv_nodes V))
    (target_inv T ix (\<lambda>e. C e \<and> (\<forall>t\<in>set (fv_nodes V). target_ok T ix (causes_of T (fv_nodes V) t) t e)) (cause_pairs T (fv_nodes V)))"
proof -
  let ?CS = "causes_of T (fv_nodes V)"
  let ?I = "\<lambda>past st b'. grows b b' \<and> target_inv T ix (\<lambda>e. C e \<and> (\<forall>t\<in>set past. target_ok T ix (?CS t) t e))
    (concat (map (\<lambda>t. map (Pair t) (later_pairs (?CS t))) past)) st b'"
  have "yields b (foldB (target_constraints V cs) (cons, []) (fv_nodes V)) (?I (fv_nodes V))"
  proof (rule yields_fold [where I = ?I, OF w])
    show "?I [] (cons, []) b" using r by (simp add: target_inv_def)
    fix past t rest st b1
    assume 1: "fv_nodes V = past @ t # rest" "wf_bdd b1" "?I past st b1"
    have t: "t \<in> set (ct_nodes T)" using v 1(1) by (auto simp: vars_ok_def)
    note g = conjunct1 [OF 1(3)]
    show "yields b1 (target_constraints V cs st t) (?I (past @ [t]))"
      using target_constraints_yields [OF 1(2) vars_ok_grows [OF v g] t causes_match_grows [OF m g] conjunct2 [OF 1(3)]]
      by (rule yields_weaken) (use 1(3) grows_trans in \<open>auto simp: ball_Un conj_assoc target_inv_def elim!: restricts_weaken\<close>)
  qed
  then show ?thesis by (elim yields_weaken) (simp add: cause_pairs_def)
qed

lemma last_levels_yield:
  assumes w: "wf_bdd b" and v: "vars_ok T V ix b" and T: "wf_topology T"
  shows "yields b (mapB (\<lambda>(j, s). negate (fv_join_following V (j, max_offset j, s)))
    (concat (map (\<lambda>j. map (Pair j) (join_sources (cj_identity j))) (fv_joins V)))) (\<lambda>cs b'. restricts b' cs (last_level_ok T ix))"
proof -
  let ?S = "\<lambda>(j, s) e. \<not> e (ix (JFol (j, max_offset j, s)))"
  let ?xs = "concat (map (\<lambda>j. map (Pair j) (join_sources (cj_identity j))) (fv_joins V))"
  have joins: "fv_joins V = unique_joins T" using v by (simp add: vars_ok_def)
  have mem: "(j, s) \<in> set ?xs \<longleftrightarrow> j \<in> set (unique_joins T) \<and> s \<in> set (sources_of j)" for j s by (auto simp: joins sources_of_def)
  have "yields b (mapB (\<lambda>(j, s). negate (fv_join_following V (j, max_offset j, s))) ?xs) (\<lambda>cs b'. all_denote b' cs (map ?S ?xs))"
  proof (rule yields_map_denotes [OF w])
    fix x b'
    assume x: "x \<in> set ?xs" "wf_bdd b'" "grows b b'"
    obtain j s where js: "x = (j, s)" by (cases x)
    have "(j, max_offset j, s) \<in> set (join_state_keys (unique_joins T))"
      using x(1) js mem wf_max_offset [OF wf_unique_joins [OF T]] by (auto simp: join_key_iff)
    from negate_denotes [OF x(2) variable_denotes(4) [OF vars_ok_grows [OF v x(3)] this]]
    show "yields b' (case x of (j, s) \<Rightarrow> negate (fv_join_following V (j, max_offset j, s))) (\<lambda>y b''. denotes b'' y (?S x))" using js by simp
  qed
  moreover have "(\<forall>F\<in>set (map ?S ?xs). F e) \<longleftrightarrow> last_level_ok T ix e" for e
  proof -
    have "(\<forall>F\<in>set (map ?S ?xs). F e) \<longleftrightarrow> (\<forall>j s. (j, s) \<in> set ?xs \<longrightarrow> \<not> e (ix (JFol (j, max_offset j, s))))"
      unfolding set_map [of ?S] ball_simps by auto
    then show ?thesis unfolding mem last_level_ok_def by blast
  qed
  ultimately show ?thesis unfolding restricts_def by (elim yields_weaken) blast
qed

lemma build_relation_yields:
  assumes w: "wf_bdd b" and v: "vars_ok T V ix b" and T: "wf_topology T" and c: "denotes b cc (choice_ok T ix)"
  shows "yields b (build_relation T V cc) (\<lambda>rd b'. denotes b' (fst rd) (relation_ok T ix (fv_nodes V)) \<and>
    list_all2 (pair_match T ix b') (cause_pairs T (fv_nodes V)) (snd rd))"
proof -
  let ?N = "fv_nodes V" and ?J = "unique_joins T"
  let ?Q = "\<lambda>rd b'. denotes b' (fst rd) (relation_ok T ix ?N) \<and> list_all2 (pair_match T ix b') (cause_pairs T ?N) (snd rd)"
  let ?last = "mapB (\<lambda>(j, s). negate (fv_join_following V (j, max_offset j, s))) (concat (map (\<lambda>j. map (Pair j) (join_sources (cj_identity j))) (fv_joins V)))"
  let ?tail = "\<lambda>(cons', duplicates). bindB ?last (\<lambda>last_levels. bindB (conjunction (cons' @ last_levels)) (\<lambda>relation. returnB (relation, duplicates)))"
  let ?C = "\<lambda>e. (choice_ok T ix e \<and> True) \<and> (\<forall>(j, k)\<in>set (join_levels ?J). level_ok ix e j k)"
  let ?D = "\<lambda>e. ?C e \<and> (\<forall>t\<in>set ?N. target_ok T ix (causes_of T ?N t) t e)"
  have levels: "concat (map (\<lambda>j. map (Pair j) [1..max_offset j]) (fv_joins V)) = join_levels ?J" using v by (simp add: join_levels_def vars_ok_def)
  have tail: "yields b3 (?tail st) ?Q" if "wf_bdd b3" "grows b b3" "target_inv T ix ?D (cause_pairs T ?N) st b3" for st b3
  proof -
    obtain cons dups where st: "st = (cons, dups)" by (cases st)
    show ?thesis unfolding st prod.case
    proof (rule yields_bind [OF last_levels_yield [OF that(1) vars_ok_grows [OF v that(2)] T]])
      fix ls b4
      assume 4: "wf_bdd b4" "grows b3 b4" "restricts b4 ls (last_level_ok T ix)"
      have "restricts b3 cons ?D" using that(3) unfolding st target_inv_def fst_conv by (rule conjunct1)
      from restricts_append [OF restricts_grows [OF this 4(2)] 4(3)] have "restricts b4 (cons @ ls) (relation_ok T ix ?N)" by (rule restricts_weaken) (auto simp: relation_ok_def)
      then show "yields b4 (bindB (conjunction (cons @ ls)) (\<lambda>relation. returnB (relation, dups))) ?Q"
      proof (rule yields_bind [OF conjunction_of_constraints [OF 4(1)]])
        fix r b5
        assume 5: "wf_bdd b5" "grows b4 b5" "denotes b5 r (relation_ok T ix ?N)"
        have "list_all2 (pair_match T ix b5) (cause_pairs T ?N) dups"
          using that(3) st pair_match_grows [OF _ grows_trans [OF 4(2) 5(2)]] by (auto simp: target_inv_def elim: list_all2_mono)
        then show "yields b5 (returnB (r, dups)) ?Q" using 5 by (intro yields_return) simp_all
      qed
    qed
  qed
  show ?thesis unfolding build_relation_def levels
  proof (rule yields_bind [OF control_causes_yields [OF w v T]])
    fix cs b1
    assume 1: "wf_bdd b1" "grows b b1" "causes_match T ix b1 (\<lambda>t. concat (map (node_causes T t) ?N)) cs"
    have i: "level_inv T ix (\<lambda>e. choice_ok T ix e \<and> True) (\<lambda>t. concat (map (node_causes T t) ?N)) ([cc], cs) b1"
      using 1(3) restricts_cons [OF denotes_grows [OF c 1(2)] restricts_nil] by (simp add: level_inv_def)
    show "yields b1 (bindB (foldB (join_level V) ([cc], cs) (join_levels ?J)) (\<lambda>(constraints, causes). bindB (foldB (target_constraints V causes) (constraints, []) ?N) ?tail)) ?Q"
    proof (rule yields_bind [OF join_levels_yields [OF 1(1) vars_ok_grows [OF v 1(2)] T i]])
      fix st b2
      assume 2: "wf_bdd b2" "grows b1 b2"
        "level_inv T ix ?C (\<lambda>t. concat (map (node_causes T t) ?N) @ map JoinCause (filter (\<lambda>j. target_of j = t \<and> t \<noteq> END_NODE) ?J)) st b2"
      obtain cons causes where st: "st = (cons, causes)" by (cases st)
      note g2 = grows_trans [OF 1(2) 2(2)]
      have "causes_match T ix b2 (causes_of T ?N) causes" "restricts b2 cons ?C" using 2(3) st by (simp_all add: level_inv_def causes_of_def [abs_def])
      note f = targets_yield [OF 2(1) vars_ok_grows [OF v g2] this]
      show "yields b2 (case st of (constraints, causes) \<Rightarrow> bindB (foldB (target_constraints V causes) (constraints, []) ?N) ?tail) ?Q"
        unfolding st prod.case by (rule yields_bind [OF f]) (rule tail, assumption, rule grows_trans [OF g2])
    qed
  qed
qed

lemma frontier_eq_iff:
  "frontier_of T ix e = (A, P) \<longleftrightarrow> A \<subseteq> set (ct_nodes T) \<and> P \<subseteq> set (join_state_keys (unique_joins T)) \<and>
     (\<forall>n\<in>set (ct_nodes T). e (ix (Cur n)) = (n \<in> A)) \<and> (\<forall>k\<in>set (join_state_keys (unique_joins T)). e (ix (JCur k)) = (k \<in> P))"
  by (auto simp: frontier_of_def)

lemma initial_state_yields:
  assumes w: "wf_bdd b" and v: "vars_ok T V ix b"
  shows "yields b (initial_state T V) (\<lambda>r b'. denotes b' r (\<lambda>e. frontier_of T ix e = ({n \<in> set (ct_nodes T). n \<in> set (ct_entries T)}, {})))"
proof -
  let ?keys = "join_state_keys (unique_joins T)"
  let ?S = "\<lambda>n e. e (ix (Cur n)) = (n \<in> set (ct_entries T))" and ?R = "\<lambda>k e. \<not> e (ix (JCur k))"
  have V: "set (fv_nodes V) = set (ct_nodes T)" "fv_join_keys V = ?keys" using v by (simp_all add: vars_ok_def)
  have lit: "yields b' (state_literal (fv_node_current V n) (n \<in> set (ct_entries T))) (\<lambda>r b''. denotes b'' r (?S n))"
    if "n \<in> set (fv_nodes V)" "wf_bdd b'" "grows b b'" for n b'
  proof -
    have d: "denotes b' (fv_node_current V n) (\<lambda>e. e (ix (Cur n)))" using variable_denotes(1) [OF vars_ok_grows [OF v that(3)]] that(1) V by simp
    show ?thesis using negate_denotes [OF that(2) d] d that(2) by (cases "n \<in> set (ct_entries T)") (auto simp: state_literal_def intro: yields_return)
  qed
  have neg: "yields b' (negate (fv_join_current V k)) (\<lambda>r b''. denotes b'' r (?R k))" if "k \<in> set (fv_join_keys V)" "wf_bdd b'" "grows b b'" for k b'
    using negate_denotes [OF that(2) variable_denotes(3) [OF vars_ok_grows [OF v that(3)]]] that(1) V by simp
  show ?thesis unfolding initial_state_def
  proof (rule yields_bind [OF yields_map_denotes [where S = ?S, OF w lit]])
    fix ls b1
    assume 1: "wf_bdd b1" "grows b b1" "all_denote b1 ls (map ?S (fv_nodes V))"
    show "yields b1 (bindB (mapB (\<lambda>k. negate (fv_join_current V k)) (fv_join_keys V)) (\<lambda>joins. conjunction (ls @ joins)))
      (\<lambda>r b'. denotes b' r (\<lambda>e. frontier_of T ix e = ({n \<in> set (ct_nodes T). n \<in> set (ct_entries T)}, {})))"
    proof (rule yields_bind [OF yields_map_denotes [where S = ?R, OF 1(1) neg]])
      fix js b2
      assume 2: "wf_bdd b2" "grows b1 b2" "all_denote b2 js (map ?R (fv_join_keys V))"
      have all: "all_denote b2 (ls @ js) (map ?S (fv_nodes V) @ map ?R (fv_join_keys V))" using 2 all_denote_grows [OF 1(3) 2(2)] by auto
      have "(\<forall>F\<in>set (map ?S (fv_nodes V) @ map ?R (fv_join_keys V)). F e) \<longleftrightarrow>
          frontier_of T ix e = ({n \<in> set (ct_nodes T). n \<in> set (ct_entries T)}, {})" for e
        using V by (auto simp: frontier_eq_iff ball_Un)
      then show "yields b2 (conjunction (ls @ js)) (\<lambda>r b'. denotes b' r (\<lambda>e. frontier_of T ix e = ({n \<in> set (ct_nodes T). n \<in> set (ct_entries T)}, {})))"
        using conjunction_denotes [OF 2(1) all] by simp
    qed (assumption, assumption, rule grows_trans [OF 1(2)])
  qed
qed

lemma following_empty_yields:
  assumes w: "wf_bdd b" and v: "vars_ok T V ix b"
  shows "yields b (bindB (mapB negate (following_variables V)) conjunction) (\<lambda>r b'. denotes b' r (\<lambda>e. following_of T ix e = ({}, {})))"
proof -
  let ?keys = "join_state_keys (unique_joins T)" and ?ref = "\<lambda>s. slot_ref V s"
  let ?ss = "map Fol (fv_nodes V) @ map JFol ?keys"
  have V: "set (fv_nodes V) = set (ct_nodes T)" "fv_join_keys V = ?keys" using v by (simp_all add: vars_ok_def)
  have refs: "following_variables V = map ?ref ?ss" by (simp add: following_variables_def V(2) slot_ref_def)
  have "yields b (bindB (mapB (negate \<circ> ?ref) ?ss) conjunction) (\<lambda>r b'. denotes b' r (\<lambda>e. \<forall>s\<in>set ?ss. \<not> e (ix s)))"
  proof (rule conjunction_of_map [where S = "\<lambda>s e. \<not> e (ix s)", OF w])
    fix s b'
    assume s: "s \<in> set ?ss" "wf_bdd b'" "grows b b'"
    have "s \<in> slots T" using s(1) V by (auto simp: slots_def node_slots_def join_slots_def)
    from negate_denotes [OF s(2) slot_denotes [OF vars_ok_grows [OF v s(3)] this]]
    show "yields b' ((negate \<circ> ?ref) s) (\<lambda>y b''. denotes b'' y (\<lambda>e. \<not> e (ix s)))" by simp
  qed
  moreover have "(\<forall>s\<in>set ?ss. \<not> e (ix s)) \<longleftrightarrow> following_of T ix e = ({}, {})" for e using V by (auto simp: following_of_def)
  ultimately show ?thesis by (simp add: refs mapB_map del: map_append)
qed

end
