(* ===== verification/Frontier_Steps.thy ===== *)
theory Frontier_Steps
  imports Frontier_Build "HOL-Library.Multiset"
begin

text \<open>
  Assignments and steps: an assignment satisfies the relation exactly when it reads as a step of the
  frontier, and every step is the reading of an assignment.
\<close>

definition choice_of :: "control_topology \<Rightarrow> (slot \<Rightarrow> nat) \<Rightarrow> (nat \<Rightarrow> bool) \<Rightarrow> string \<Rightarrow> string option" where
  "choice_of T ix e n = (THE r. picks T ix e n r)"

lemma choice_of_iff:
  assumes "choice_ok T ix e" "n \<in> fst (frontier_of T ix e)"
  shows "picks T ix e n r \<longleftrightarrow> r = choice_of T ix e n"
proof -
  have "\<exists>!r. picks T ix e n r" using assms by (simp add: choice_ok_def frontier_of_def)
  then show ?thesis unfolding choice_of_def by (metis the1_equality)
qed

section \<open>Congruences\<close>

lemma fires_cong:
  assumes "\<And>n. n \<in> fst st \<Longrightarrow> c n = c' n"
  shows "fires st c x = fires st c' x"
  using assms by (auto simp: fires_def split: cause.splits)

lemma frontier_step_cong:
  assumes "\<And>n. n \<in> fst st \<Longrightarrow> c n = c' n"
  shows "frontier_step T st c st' = frontier_step T st c' st'"
proof -
  have "fires st c = fires st c'" by (rule ext) (rule fires_cong [OF assms])
  then show ?thesis using assms by (simp add: frontier_step_def contested_def activated_def chooses_def)
qed

lemma causes_perm:
  assumes "distinct ns" "distinct ns'" "set ns = set ns'"
  shows "mset (causes_of T ns t) = mset (causes_of T ns' t)"
proof -
  have "mset ns = mset ns'" using assms by (simp add: set_eq_iff_mset_eq_distinct)
  then have "sum_mset (image_mset g (mset ns)) = sum_mset (image_mset g (mset ns'))" for g :: "string \<Rightarrow> cause multiset" by simp
  then have "sum_list (map (\<lambda>n. mset (node_causes T t n)) ns) = sum_list (map (\<lambda>n. mset (node_causes T t n)) ns')"
    by (metis mset_map sum_mset_sum_list)
  then show ?thesis by (simp add: causes_of_def mset_concat o_def)
qed

lemma contested_perm:
  assumes "distinct ns" "distinct ns'" "set ns = set ns'"
  shows "contested T ns st c t = contested T ns' st c t" and "activated T ns st c = activated T ns' st c"
proof -
  note m = causes_perm [OF assms, of T]
  have "length (filter (fires st c) (causes_of T ns t)) = length (filter (fires st c) (causes_of T ns' t))" using m [of t]
    by (metis mset_filter size_mset)
  then show "contested T ns st c t = contested T ns' st c t" by (simp add: contested_def)
  have "set (causes_of T ns t) = set (causes_of T ns' t)" for t using m [of t] by (metis set_mset_mset)
  then show "activated T ns st c = activated T ns' st c" using assms(3) by (simp add: activated_def)
qed

section \<open>Reading an assignment\<close>

lemma arrived_frontier:
  assumes "wf_topology T" "j \<in> set (unique_joins T)" "s \<in> set (sources_of j)" "1 \<le> k" "k \<le> max_offset j"
  shows "arrived (frontier_of T ix e) j k s \<longleftrightarrow> arrived_in ix e j k s"
  using join_level_keys [OF assms(1-3)] assms(4,5) by (auto simp: arrived_def arrived_in_def frontier_of_def)

lemma causes_sub:
  assumes "wf_topology T" "set ns = set (ct_nodes T)" "x \<in> set (causes_of T ns t)"
  shows "case x of DirectCause s \<Rightarrow> s \<in> set (ct_nodes T) | RouteCause s r \<Rightarrow> s \<in> set (ct_nodes T) | JoinCause j \<Rightarrow> j \<in> set (unique_joins T)"
  using assms by (auto simp: causes_of_def node_causes_def split: if_splits)

lemma fires_frontier:
  assumes T: "wf_topology T" and n: "set ns = set (ct_nodes T)" and x: "x \<in> set (causes_of T ns t)" and c: "choice_ok T ix e"
  shows "fires (frontier_of T ix e) (choice_of T ix e) x \<longleftrightarrow> fires_in T ix x e"
proof (cases x)
  case (DirectCause s)
  then show ?thesis using causes_sub [OF T n x] by (simp add: fires_def fires_in_def frontier_of_def)
next
  case (RouteCause s r)
  then show ?thesis using causes_sub [OF T n x] choice_of_iff [OF c, of s "Some r"] by (auto simp: fires_def fires_in_def frontier_of_def)
next
  case (JoinCause j)
  then have j: "j \<in> set (unique_joins T)" using causes_sub [OF T n x] by simp
  have "arrived (frontier_of T ix e) j 1 s \<longleftrightarrow> arrived_in ix e j 1 s" if "s \<in> set (sources_of j)" for s
    using arrived_frontier [OF T j that] wf_max_offset [OF wf_unique_joins [OF T j]] by simp
  then show ?thesis using JoinCause by (simp add: fires_def fires_in_def)
qed

lemma targets_read:
  assumes T: "wf_topology T" and ns: "distinct ns" "set ns = set (ct_nodes T)" and c: "choice_ok T ix e"
  shows "(\<forall>t\<in>set ns. target_ok T ix (causes_of T ns t) t e) \<longleftrightarrow>
    (\<forall>t\<in>set (ct_nodes T). \<not> contested T (ct_nodes T) (frontier_of T ix e) (choice_of T ix e) t) \<and>
    fst (following_of T ix e) = activated T (ct_nodes T) (frontier_of T ix e) (choice_of T ix e)"
proof -
  let ?st = "frontier_of T ix e" and ?c = "choice_of T ix e"
  have d: "distinct (ct_nodes T)" using T by (simp add: wf_topology_def)
  note perm = contested_perm [OF ns(1) d ns(2), of T ?st ?c]
  have f: "filter (\<lambda>x. fires_in T ix x e) (causes_of T ns t) = filter (fires ?st ?c) (causes_of T ns t)" for t
    using fires_frontier [OF T ns(2) _ c] by (auto intro: filter_cong)
  have one: "target_ok T ix (causes_of T ns t) t e \<longleftrightarrow>
      \<not> contested T ns ?st ?c t \<and> e (ix (Fol t)) = (\<exists>x\<in>set (causes_of T ns t). fires ?st ?c x)" for t
    using later_pairs_unique [of "causes_of T ns t" "\<lambda>x. fires_in T ix x e"] f [of t] fires_frontier [OF T ns(2) _ c]
    by (auto simp: target_ok_def contested_def not_less)
  have "(\<forall>t\<in>set ns. e (ix (Fol t)) = (\<exists>x\<in>set (causes_of T ns t). fires ?st ?c x)) \<longleftrightarrow> fst (following_of T ix e) = activated T ns ?st ?c"
    using ns(2) by (auto simp: following_of_def activated_def)
  then show ?thesis using one perm ns(2) by auto
qed

lemma joins_read:
  assumes T: "wf_topology T"
  shows "(\<forall>(j, k)\<in>set (join_levels (unique_joins T)). level_ok ix e j k) \<and> last_level_ok T ix e \<longleftrightarrow>
    joins_consistent T (frontier_of T ix e) \<and> snd (following_of T ix e) = carried T (frontier_of T ix e)"
proof -
  let ?st = "frontier_of T ix e"
  define A where "A = (\<lambda>j k. if k = 1 then (\<exists>s\<in>set (sources_of j). arrived ?st j k s) \<longrightarrow> (\<forall>s\<in>set (sources_of j). arrived ?st j k s)
    else \<not> (\<forall>s\<in>set (sources_of j). arrived ?st j k s))"
  define B where "B = (\<lambda>j k s. offset_of j s = k \<longrightarrow> \<not> ((j, k, s) \<in> snd ?st \<and> s \<in> fst ?st))"
  have key: "e (ix (JCur (j, k, s))) \<longleftrightarrow> (j, k, s) \<in> snd ?st" "e (ix (Cur s)) \<longleftrightarrow> s \<in> fst ?st"
    if "j \<in> set (unique_joins T)" "1 \<le> k" "k \<le> max_offset j" "s \<in> set (sources_of j)" for j k s
    using join_level_keys [OF T that(1,4)] that by (auto simp: frontier_of_def)
  have level: "level_ok ix e j k \<longleftrightarrow> A j k \<and> (\<forall>s\<in>set (sources_of j). B j k s \<and> (1 < k \<longrightarrow> e (ix (JFol (j, k - 1, s))) = arrived ?st j k s))"
    if "j \<in> set (unique_joins T)" "1 \<le> k" "k \<le> max_offset j" for j k
  proof -
    have a: "arrived ?st j k s = arrived_in ix e j k s" if "s \<in> set (sources_of j)" for s
      using arrived_frontier [OF T \<open>j \<in> set (unique_joins T)\<close> that \<open>1 \<le> k\<close> \<open>k \<le> max_offset j\<close>] .
    have q: "(\<exists>s\<in>set (sources_of j). arrived ?st j k s) = (\<exists>s\<in>set (sources_of j). arrived_in ix e j k s)"
      "(\<forall>s\<in>set (sources_of j). arrived ?st j k s) = (\<forall>s\<in>set (sources_of j). arrived_in ix e j k s)"
      by (auto simp: a)
    have "A j k \<longleftrightarrow> (if k = 1 then (\<exists>s\<in>set (sources_of j). arrived_in ix e j k s) \<longrightarrow> (\<forall>s\<in>set (sources_of j). arrived_in ix e j k s)
      else \<not> (\<forall>s\<in>set (sources_of j). arrived_in ix e j k s))" unfolding A_def q by (rule refl)
    moreover have "(\<forall>s\<in>set (sources_of j). B j k s \<and> (1 < k \<longrightarrow> e (ix (JFol (j, k - 1, s))) = arrived ?st j k s)) \<longleftrightarrow> (\<forall>s\<in>set (sources_of j). arrival_ok ix e j k s)"
      by (rule ball_cong) (use a key [OF that] in \<open>simp_all add: B_def arrival_ok_def\<close>)
    ultimately show ?thesis by (simp add: level_ok_def)
  qed
  have fol: "(\<forall>j\<in>set (unique_joins T). (\<forall>k\<in>{1..max_offset j}. \<forall>s\<in>set (sources_of j). 1 < k \<longrightarrow> e (ix (JFol (j, k - 1, s))) = arrived ?st j k s) \<and>
      (\<forall>s\<in>set (sources_of j). \<not> e (ix (JFol (j, max_offset j, s))))) \<longleftrightarrow> snd (following_of T ix e) = carried T ?st"
    (is "?L \<longleftrightarrow> ?R")
  proof
    assume L: ?L
    have "e (ix (JFol (j, k, s))) \<longleftrightarrow> k < max_offset j \<and> arrived ?st j (k + 1) s"
      if "j \<in> set (unique_joins T)" "s \<in> set (sources_of j)" "1 \<le> k" "k \<le> max_offset j" for j k s
    proof (cases "k = max_offset j")
      case False
      then have "k + 1 \<in> {1..max_offset j}" "1 < k + 1" using that by auto
      with bspec [OF bspec [OF conjunct1 [OF bspec [OF L that(1)]]] that(2), of "k + 1"]
      have "e (ix (JFol (j, (k + 1) - 1, s))) = arrived ?st j (k + 1) s" by simp
      then show ?thesis using that False by simp
    qed (use L that in auto)
    then show ?R by (auto simp: following_of_def carried_def join_key_iff)
  next
    assume R: ?R
    have "e (ix (JFol (j, k, s))) \<longleftrightarrow> (j, k, s) \<in> carried T ?st"
      if "j \<in> set (unique_joins T)" "s \<in> set (sources_of j)" "1 \<le> k" "k \<le> max_offset j" for j k s
      unfolding R [symmetric] using that by (simp add: following_of_def join_key_iff)
    then show ?L using wf_max_offset [OF wf_unique_joins [OF T]] by (auto simp: carried_def)
  qed
  have "(\<forall>(j, k)\<in>set (join_levels (unique_joins T)). level_ok ix e j k) \<and> last_level_ok T ix e \<longleftrightarrow>
      (\<forall>j\<in>set (unique_joins T). (\<forall>k\<in>{1..max_offset j}. level_ok ix e j k) \<and> (\<forall>s\<in>set (sources_of j). \<not> e (ix (JFol (j, max_offset j, s)))))"
    by (auto simp: join_levels_iff last_level_ok_def)
  also have "\<dots> \<longleftrightarrow> joins_consistent T ?st \<and> ?L"
  proof -
    have "joins_consistent T ?st \<longleftrightarrow> (\<forall>j\<in>set (unique_joins T). \<forall>k\<in>{1..max_offset j}. A j k \<and> (\<forall>s\<in>set (sources_of j). B j k s))"
      by (simp add: joins_consistent_def A_def B_def)
    moreover have "(\<forall>k\<in>{1..max_offset j}. level_ok ix e j k) \<longleftrightarrow> (\<forall>k\<in>{1..max_offset j}. A j k \<and> (\<forall>s\<in>set (sources_of j). B j k s \<and>
        (1 < k \<longrightarrow> e (ix (JFol (j, k - 1, s))) = arrived ?st j k s)))" if "j \<in> set (unique_joins T)" for j
      using level [OF that] by (intro ball_cong) auto
    ultimately show ?thesis by (simp cong: ball_cong) blast
  qed
  finally show ?thesis unfolding fol .
qed

lemma relation_reads:
  assumes T: "wf_topology T" and ns: "distinct ns" "set ns = set (ct_nodes T)"
  shows "relation_ok T ix ns e \<longleftrightarrow> choice_ok T ix e \<and> frontier_step T (frontier_of T ix e) (choice_of T ix e) (following_of T ix e)"
proof (cases "choice_ok T ix e")
  case True
  have "choice_of T ix e n \<in> set (choice_options T n)" if "n \<in> fst (frontier_of T ix e)" for n
    using choice_of_iff [OF True that, of "choice_of T ix e n"] by (simp add: picks_def)
  then have "chooses T (fst (frontier_of T ix e)) (choice_of T ix e)" by (simp add: chooses_def)
  then show ?thesis using True targets_read [OF T ns True] joins_read [OF T, of ix e]
    by (auto simp: relation_ok_def frontier_step_def prod_eq_iff)
qed (simp add: relation_ok_def)

section \<open>Every step is read\<close>

definition frontiers :: "control_topology \<Rightarrow> frontier set" where
  "frontiers T = Pow (set (ct_nodes T)) \<times> Pow (set (join_state_keys (unique_joins T)))"

lemma finite_frontiers: "finite (frontiers T)"
  by (simp add: frontiers_def)

lemma step_frontiers: "frontier_step T st c st' \<Longrightarrow> st' \<in> frontiers T"
  by (auto simp: frontier_step_def frontiers_def activated_def carried_def join_key_iff)

lemma reachable_frontiers_bounded: "reachable_frontier T st \<Longrightarrow> st \<in> frontiers T"
  by (induction rule: reachable_frontier.induct) (auto simp: step_frontiers, auto simp: frontiers_def)

definition assignment :: "frontier \<Rightarrow> (string \<Rightarrow> string option) \<Rightarrow> frontier \<Rightarrow> slot \<Rightarrow> bool" where
  "assignment st c st' s =
     (case s of Cur n \<Rightarrow> n \<in> fst st | Fol n \<Rightarrow> n \<in> fst st' | Chosen n r \<Rightarrow> c n = r | JCur k \<Rightarrow> k \<in> snd st | JFol k \<Rightarrow> k \<in> snd st')"

lemma assignment_reads:
  assumes T: "wf_topology T" and i: "inj_on ix (slots T)" and st: "st \<in> frontiers T" "st' \<in> frontiers T" and c: "chooses T (fst st) c"
  obtains e where "frontier_of T ix e = st" "following_of T ix e = st'" "choice_ok T ix e" "\<And>n. n \<in> fst st \<Longrightarrow> choice_of T ix e n = c n"
proof -
  define e where "e v = assignment st c st' (inv_into (slots T) ix v)" for v
  have val: "e (ix s) = assignment st c st' s" if "s \<in> slots T" for s using that i by (simp add: e_def)
  have slot: "Cur n \<in> slots T" "Fol n \<in> slots T" "r \<in> set (branching T n) \<Longrightarrow> Chosen n r \<in> slots T" if "n \<in> set (ct_nodes T)" for n r
    using that by (auto simp: slots_def node_slots_def)
  have jslot: "JCur k \<in> slots T" "JFol k \<in> slots T" if "k \<in> set (join_state_keys (unique_joins T))" for k
    using that by (auto simp: slots_def join_slots_def)
  have read: "frontier_of T ix e = st" "following_of T ix e = st'"
    using st slot jslot val by (auto simp: frontier_of_def following_of_def frontiers_def assignment_def)
  have pick: "picks T ix e n r \<longleftrightarrow> r = c n" if "n \<in> fst st" for n r
  proof -
    have n: "n \<in> set (ct_nodes T)" "c n \<in> set (choice_options T n)" using that st c by (auto simp: frontiers_def chooses_def)
    show ?thesis
    proof (cases "branching T n = []")
      case True
      then have "length (choice_options T n) \<le> 1" by (auto simp: branching_def split: if_splits)
      then have "set (choice_options T n) = {c n}" using n(2) by (cases "choice_options T n") auto
      then show ?thesis using True by (simp add: picks_def)
    next
      case False
      then have "branching T n = choice_options T n" by (auto simp: branching_def split: if_splits)
      then show ?thesis using val [OF slot(3) [OF n(1), of r]] n(2) False by (auto simp: picks_def assignment_def)
    qed
  qed
  have ok: "choice_ok T ix e" unfolding choice_ok_def
  proof (intro ballI impI)
    fix n
    assume "n \<in> set (ct_nodes T)" "e (ix (Cur n))"
    then have "n \<in> fst st" by (simp add: frontier_of_def flip: read(1))
    from pick [OF this] show "\<exists>!r. picks T ix e n r" by simp
  qed
  have "choice_of T ix e n = c n" if "n \<in> fst st" for n using choice_of_iff [OF ok, of n "c n"] pick [OF that] that read(1) by auto
  then show ?thesis using that [of e] read ok by blast
qed

lemma step_read:
  assumes T: "wf_topology T" and ns: "distinct ns" "set ns = set (ct_nodes T)" and i: "inj_on ix (slots T)" and st: "st \<in> frontiers T" and step: "frontier_step T st c st'"
  obtains e where "frontier_of T ix e = st" "following_of T ix e = st'" "relation_ok T ix ns e" "\<And>n. n \<in> fst st \<Longrightarrow> choice_of T ix e n = c n"
proof -
  have c: "chooses T (fst st) c" using step by (simp add: frontier_step_def)
  obtain e where e: "frontier_of T ix e = st" "following_of T ix e = st'" "choice_ok T ix e" "\<And>n. n \<in> fst st \<Longrightarrow> choice_of T ix e n = c n"
    using assignment_reads [OF T i st step_frontiers [OF step] c] by blast
  have "relation_ok T ix ns e" using relation_reads [OF T ns, of ix e] e(1-3) step frontier_step_cong [OF e(4)] by simp
  then show ?thesis using that e by blast
qed

end
