(* ===== verification/Frontier_Exact.thy ===== *)
theory Frontier_Exact
  imports Frontier_Steps
begin

text \<open>
  The symbolic proof is exact: it always returns; the fixed point is the set of reachable frontiers;
  it rejects a topology exactly when a reachable frontier activates a target twice, a terminal
  frontier exposes two routes or no frontier is terminal; otherwise it returns the exposed routes.
\<close>

section \<open>Indices of the variables\<close>

lemma variable_index_of:
  assumes w: "wf_bdd b" and d: "denotes b r (\<lambda>e. e v)"
  shows "variable_index r b = Some (v, b)"
proof -
  note t = wf_bddD(1) [OF w]
  have len: "r < length (bd_nodes b)" and val: "beval (bd_nodes b) r = (\<lambda>e. e v)" using d by (auto simp: denotes_def)
  have "\<not> r < 2"
  proof
    assume "r < 2"
    then have "e v = (r = 1)" for e :: "nat \<Rightarrow> bool" using leaf_value [OF t] val by metis
    from this [of "\<lambda>_. True"] this [of "\<lambda>_. False"] show False by simp
  qed
  then obtain n where n: "node_at b r = Some n" using node_at_None [OF w len] by auto
  note m = node_at_wf [OF w n]
  have "bn_variable n = v"
  proof (rule ccontr)
    assume ne: "bn_variable n \<noteq> v"
    have "beval (bd_nodes b) (bn_low n) e = e v" "beval (bd_nodes b) (bn_high n) e = e v" for e
      using cofactors_equal [OF t len, of "bn_variable n" "bn_low n" "bn_high n" "\<lambda>e. e v"] m(3) val ne by simp_all
    then have "bn_low n = bn_high n" using canonical [OF t, of "bn_low n" "bn_high n"] m(1,4,5) by simp
    moreover obtain w l h where "bd_nodes b ! r = Some (BddNode w l h)" "l \<noteq> h" by (rule wf_table_node [OF t m(2) len])
    ultimately show False using m(3) by simp
  qed
  then show ?thesis using n by (simp add: variable_index_def)
qed

lemma variable_indices:
  assumes w: "wf_bdd b" and v: "vars_ok T V ix b" and s: "set ss \<subseteq> slots T"
  shows "mapB variable_index (map (slot_ref V) ss) b = Some (map ix ss, b)"
  using s
proof (induction ss)
  case (Cons s ss)
  then have "variable_index (slot_ref V s) b = Some (ix s, b)" using variable_index_of [OF w slot_denotes [OF v]] by simp
  then show ?case using Cons by (simp add: bindB_def returnB_def)
qed (simp add: returnB_def)

definition state_slots :: "control_topology \<Rightarrow> frontier_vars \<Rightarrow> (string \<Rightarrow> slot) \<Rightarrow> (join_key \<Rightarrow> slot) \<Rightarrow> slot list" where
  "state_slots T V f g = map f (fv_nodes V) @ map g (join_state_keys (unique_joins T))"

definition choice_slots :: "control_topology \<Rightarrow> frontier_vars \<Rightarrow> slot list" where
  "choice_slots T V = concat (map (\<lambda>n. map (Chosen n) (branching T n)) (fv_nodes V))"

lemma variables_are_slots:
  assumes v: "vars_ok T V ix b" and T: "wf_topology T"
  shows "current_variables V = map (slot_ref V) (state_slots T V Cur JCur)"
    and "following_variables V = map (slot_ref V) (state_slots T V Fol JFol)"
    and "choice_variables V = map (slot_ref V) (choice_slots T V)"
    and "set (state_slots T V Cur JCur) \<subseteq> slots T" "set (state_slots T V Fol JFol) \<subseteq> slots T" "set (choice_slots T V) \<subseteq> slots T"
proof -
  have V: "set (fv_nodes V) = set (ct_nodes T)" "fv_join_keys V = join_state_keys (unique_joins T)" using v by (simp_all add: vars_ok_def)
  show "current_variables V = map (slot_ref V) (state_slots T V Cur JCur)" "following_variables V = map (slot_ref V) (state_slots T V Fol JFol)"
    by (simp_all add: current_variables_def following_variables_def state_slots_def V(2) slot_ref_def)
  show "set (state_slots T V Cur JCur) \<subseteq> slots T" "set (state_slots T V Fol JFol) \<subseteq> slots T" "set (choice_slots T V) \<subseteq> slots T"
    using V(1) by (auto simp: state_slots_def choice_slots_def slots_def node_slots_def join_slots_def)
  have "map snd (fv_choices V n) = map (slot_ref V) (map (Chosen n) (branching T n))" if "n \<in> set (fv_nodes V)" for n
  proof -
    have m: "map fst (fv_choices V n) = branching T n" using v that V(1) by (simp add: vars_ok_def)
    then have d: "distinct (map fst (fv_choices V n))" using choice_options_wf(1) [OF T, of n] that V(1) by (simp add: branching_def)
    then have "map (\<lambda>r. the (map_of (fv_choices V n) r)) (map fst (fv_choices V n)) = map snd (fv_choices V n)" by (auto simp: map_of_is_SomeI)
    then show ?thesis by (simp add: slot_ref_def comp_def flip: m)
  qed
  then show "choice_variables V = map (slot_ref V) (choice_slots T V)"
    by (simp add: choice_variables_def choice_slots_def map_concat comp_def cong: map_cong)
qed

section \<open>The image of a set of frontiers\<close>

definition hidden_of :: "control_topology \<Rightarrow> frontier_vars \<Rightarrow> (slot \<Rightarrow> nat) \<Rightarrow> nat set" where
  "hidden_of T V ix = ix ` (set (state_slots T V Cur JCur) \<union> set (choice_slots T V))"

definition mapping_of :: "control_topology \<Rightarrow> frontier_vars \<Rightarrow> (slot \<Rightarrow> nat) \<Rightarrow> (nat \<times> nat) list" where
  "mapping_of T V ix = sort (zip (map ix (state_slots T V Fol JFol)) (map ix (state_slots T V Cur JCur)))"

lemma renamed_slot:
  assumes v: "vars_ok T V ix b" and T: "wf_topology T"
  shows "n \<in> set (ct_nodes T) \<Longrightarrow> renamed (mapping_of T V ix) (ix (Fol n)) = ix (Cur n)"
    and "k \<in> set (join_state_keys (unique_joins T)) \<Longrightarrow> renamed (mapping_of T V ix) (ix (JFol k)) = ix (JCur k)"
proof -
  let ?fs = "state_slots T V Fol JFol" and ?cs = "state_slots T V Cur JCur"
  have V: "set (fv_nodes V) = set (ct_nodes T)" "distinct (fv_nodes V)" using v by (simp_all add: vars_ok_def)
  have "distinct ?fs" using V(2) distinct_join_keys [OF T] by (auto simp: state_slots_def distinct_map inj_on_def)
  moreover have "inj_on ix (set ?fs)"
    using v variables_are_slots(5) [OF v T] by (auto simp: vars_ok_def layout_def elim: inj_on_subset)
  ultimately have "distinct (map ix ?fs)" by (simp add: distinct_map)
  moreover have len: "length ?fs = length ?cs" by (simp add: state_slots_def)
  ultimately have "distinct (map fst (zip (map ix ?fs) (map ix ?cs)))" by simp
  then have "distinct (map fst (mapping_of T V ix))" unfolding mapping_of_def
    by (metis distinct_map distinct_sort set_sort)
  then have r: "renamed (mapping_of T V ix) x = y" if "(x, y) \<in> set (zip (map ix ?fs) (map ix ?cs))" for x y
    using that by (simp add: renamed_def mapping_of_def)
  have z: "set (zip (map ix ?fs) (map ix ?cs)) = (\<lambda>n. (ix (Fol n), ix (Cur n))) ` set (fv_nodes V) \<union> (\<lambda>k. (ix (JFol k), ix (JCur k))) ` set (join_state_keys (unique_joins T))"
    by (simp add: state_slots_def zip_map_map zip_same_conv_map image_image)
  show "n \<in> set (ct_nodes T) \<Longrightarrow> renamed (mapping_of T V ix) (ix (Fol n)) = ix (Cur n)"
    "k \<in> set (join_state_keys (unique_joins T)) \<Longrightarrow> renamed (mapping_of T V ix) (ix (JFol k)) = ix (JCur k)"
    using V(1) by (auto intro!: r simp: z)
qed

lemma not_hidden:
  assumes v: "vars_ok T V ix b" and T: "wf_topology T"
  shows "n \<in> set (ct_nodes T) \<Longrightarrow> ix (Fol n) \<notin> hidden_of T V ix"
    and "k \<in> set (join_state_keys (unique_joins T)) \<Longrightarrow> ix (JFol k) \<notin> hidden_of T V ix"
proof -
  have i: "inj_on ix (slots T)" using v by (simp add: vars_ok_def layout_def)
  let ?H = "set (state_slots T V Cur JCur) \<union> set (choice_slots T V)"
  have sub: "?H \<subseteq> slots T" using variables_are_slots(4,6) [OF v T] by simp
  have out: "ix s \<notin> hidden_of T V ix" if "s \<in> slots T" "s \<notin> ?H" for s
    using inj_on_image_mem_iff [OF i that(1) sub] that(2) by (simp add: hidden_of_def)
  show "n \<in> set (ct_nodes T) \<Longrightarrow> ix (Fol n) \<notin> hidden_of T V ix"
    by (rule out) (auto simp: slots_def node_slots_def state_slots_def choice_slots_def)
  show "k \<in> set (join_state_keys (unique_joins T)) \<Longrightarrow> ix (JFol k) \<notin> hidden_of T V ix"
    by (rule out) (auto simp: slots_def join_slots_def state_slots_def choice_slots_def)
qed

lemma assignment_cong:
  assumes "\<And>s. s \<in> slots T \<Longrightarrow> e (ix s) = e' (ix s)"
  shows "frontier_of T ix e = frontier_of T ix e'" "following_of T ix e = following_of T ix e'" "choice_ok T ix e = choice_ok T ix e'"
    "n \<in> set (ct_nodes T) \<Longrightarrow> choice_of T ix e n = choice_of T ix e' n"
proof -
  have p: "picks T ix e n = picks T ix e' n" if "n \<in> set (ct_nodes T)" for n
  proof
    fix r
    show "picks T ix e n r = picks T ix e' n r"
    proof (cases "branching T n = []")
      case False
      then have "branching T n = choice_options T n" by (auto simp: branching_def split: if_splits)
      then have "Chosen n r \<in> node_slots T n" if "r \<in> set (choice_options T n)" using that by (simp add: node_slots_def)
      then have "r \<in> set (choice_options T n) \<Longrightarrow> Chosen n r \<in> slots T" using \<open>n \<in> set (ct_nodes T)\<close> unfolding slots_def by blast
      then show ?thesis using assms by (auto simp: picks_def)
    qed (simp add: picks_def)
  qed
  have "Cur n \<in> slots T" "Fol n \<in> slots T" if "n \<in> set (ct_nodes T)" for n using that by (auto simp: slots_def node_slots_def)
  moreover have "JCur k \<in> slots T" "JFol k \<in> slots T" if "k \<in> set (join_state_keys (unique_joins T))" for k
    using that by (auto simp: slots_def join_slots_def)
  ultimately show "frontier_of T ix e = frontier_of T ix e'" "following_of T ix e = following_of T ix e'" "choice_ok T ix e = choice_ok T ix e'"
    using assms p by (auto simp: frontier_of_def following_of_def choice_ok_def)
  show "n \<in> set (ct_nodes T) \<Longrightarrow> choice_of T ix e n = choice_of T ix e' n" using p by (simp add: choice_of_def)
qed

lemma relation_cong:
  assumes T: "wf_topology T" and ns: "distinct ns" "set ns = set (ct_nodes T)" and e: "\<And>s. s \<in> slots T \<Longrightarrow> e (ix s) = e' (ix s)"
  shows "relation_ok T ix ns e = relation_ok T ix ns e'"
proof -
  note c = assignment_cong [of T e ix e', OF e]
  have "frontier_step T (frontier_of T ix e') (choice_of T ix e) st = frontier_step T (frontier_of T ix e') (choice_of T ix e') st" for st
    by (rule frontier_step_cong) (rule c(4), simp_all add: frontier_of_def)
  then show ?thesis using c(1-3) by (simp add: relation_reads [OF T ns])
qed

definition post :: "control_topology \<Rightarrow> frontier set \<Rightarrow> frontier set" where
  "post T S = {st'. \<exists>st\<in>S. \<exists>c. frontier_step T st c st'}"

lemma image_exact:
  assumes v: "vars_ok T V ix b" and T: "wf_topology T" and S: "S \<subseteq> frontiers T"
  shows "rename_sem (mapping_of T V ix) (ex_sem (hidden_of T V ix) (\<lambda>e. frontier_of T ix e \<in> S \<and> relation_ok T ix (fv_nodes V) e)) e \<longleftrightarrow>
    frontier_of T ix e \<in> post T S"
proof -
  have ns: "distinct (fv_nodes V)" "set (fv_nodes V) = set (ct_nodes T)" and i: "inj_on ix (slots T)" using v by (simp_all add: vars_ok_def layout_def)
  let ?m = "renamed (mapping_of T V ix)" and ?H = "hidden_of T V ix"
  note ren = renamed_slot [OF v T] and vis = not_hidden [OF v T]
  show ?thesis
  proof
    assume "rename_sem (mapping_of T V ix) (ex_sem ?H (\<lambda>e. frontier_of T ix e \<in> S \<and> relation_ok T ix (fv_nodes V) e)) e"
    then obtain d where d: "\<And>v. v \<notin> ?H \<Longrightarrow> d v = e (?m v)" "frontier_of T ix d \<in> S" "relation_ok T ix (fv_nodes V) d"
      unfolding rename_sem_def ex_sem_def by auto
    have "following_of T ix d = frontier_of T ix e" using d(1) ren vis by (auto simp: following_of_def frontier_of_def)
    then show "frontier_of T ix e \<in> post T S" using d(2,3) relation_reads [OF T ns, of ix d] by (auto simp: post_def)
  next
    assume "frontier_of T ix e \<in> post T S"
    then obtain st c where st: "st \<in> S" "frontier_step T st c (frontier_of T ix e)" by (auto simp: post_def)
    obtain d where d: "frontier_of T ix d = st" "following_of T ix d = frontier_of T ix e" "relation_ok T ix (fv_nodes V) d"
      using step_read [OF T ns i _ st(2)] st(1) S by blast
    define d' where "d' v = (if v \<in> ?H then d v else e (?m v))" for v
    have agree: "d' (ix s) = d (ix s)" if s: "s \<in> slots T" for s
    proof -
      consider (node) n where "s = Fol n" "n \<in> set (ct_nodes T)" | (join) k where "s = JFol k" "k \<in> set (join_state_keys (unique_joins T))"
        | (hidden) "s \<in> set (state_slots T V Cur JCur) \<union> set (choice_slots T V)"
        using s ns(2) by (auto simp: slots_def node_slots_def join_slots_def state_slots_def choice_slots_def)
      then show ?thesis
      proof cases
        case node
        then have "d (ix (Fol n)) = e (ix (Cur n))" using d(2) by (auto simp: following_of_def frontier_of_def)
        then show ?thesis using node ren(1) vis(1) by (simp add: d'_def)
      next
        case join
        then have "d (ix (JFol k)) = e (ix (JCur k))" using d(2) by (auto simp: following_of_def frontier_of_def)
        then show ?thesis using join ren(2) vis(2) by (simp add: d'_def)
      next
        case hidden
        then show ?thesis by (auto simp: d'_def hidden_of_def)
      qed
    qed
    have "frontier_of T ix d' \<in> S" using assignment_cong(1) [of T d' ix d, OF agree] d(1) st(1) by simp
    moreover have "relation_ok T ix (fv_nodes V) d'" using relation_cong [of T "fv_nodes V" d' ix d, OF T ns agree] d(3) by simp
    moreover have "\<forall>v. v \<notin> ?H \<longrightarrow> d' v = e (?m v)" by (simp add: d'_def)
    ultimately show "rename_sem (mapping_of T V ix) (ex_sem ?H (\<lambda>e. frontier_of T ix e \<in> S \<and> relation_ok T ix (fv_nodes V) e)) e"
      unfolding rename_sem_def ex_sem_def by blast
  qed
qed

section \<open>The reachable frontiers\<close>

lemma frontier_of_surj:
  assumes T: "wf_topology T" and i: "inj_on ix (slots T)" and st: "st \<in> frontiers T"
  obtains e where "frontier_of T ix e = st"
proof -
  define c where "c n = hd (choice_options T n)" for n
  have "chooses T (fst st) c" unfolding chooses_def c_def
    using st choice_options_wf(3) [OF T] by (auto simp: frontiers_def intro: hd_in_set)
  from assignment_reads [OF T i st st this] show ?thesis using that by blast
qed

lemma frontier_sets_eq:
  assumes T: "wf_topology T" and i: "inj_on ix (slots T)" and S: "S \<subseteq> frontiers T" "S' \<subseteq> frontiers T"
  shows "(\<lambda>e. frontier_of T ix e \<in> S) = (\<lambda>e. frontier_of T ix e \<in> S') \<longleftrightarrow> S = S'"
proof
  assume eq: "(\<lambda>e. frontier_of T ix e \<in> S) = (\<lambda>e. frontier_of T ix e \<in> S')"
  have "st \<in> S \<longleftrightarrow> st \<in> S'" if st: "st \<in> frontiers T" for st
  proof -
    obtain e where "frontier_of T ix e = st" by (rule frontier_of_surj [OF T i st])
    then show ?thesis using fun_cong [OF eq, of e] by simp
  qed
  then show "S = S'" using S by blast
qed simp

lemma reach_loop_yields:
  assumes T: "wf_topology T"
    and "wf_bdd b" "vars_ok T V ix b" "denotes b rel (relation_ok T ix (fv_nodes V))" "denotes b r (\<lambda>e. frontier_of T ix e \<in> S)"
    and "S \<subseteq> {st. reachable_frontier T st}" "({n \<in> set (ct_nodes T). n \<in> set (ct_entries T)}, {}) \<in> S"
  shows "yields b (reach_loop rel (hidden_of T V ix) (mapping_of T V ix) r) (\<lambda>r b'. denotes b' r (\<lambda>e. reachable_frontier T (frontier_of T ix e)))"
  using assms(2-)
proof (induction "card (frontiers T - S)" arbitrary: b r S rule: less_induct)
  case less
  note w = less.prems(1) and v = less.prems(2)
  let ?Q = "\<lambda>r b'. denotes b' r (\<lambda>e. reachable_frontier T (frontier_of T ix e))"
  have S: "S \<subseteq> frontiers T" using less.prems(5) reachable_frontiers_bounded by blast
  have P: "post T S \<subseteq> frontiers T" using step_frontiers by (auto simp: post_def)
  have i: "inj_on ix (slots T)" using v by (simp add: vars_ok_def layout_def)
  obtain x1 b1 where 1: "bdd_apply AND_OP r rel b = Some (x1, b1)" "wf_bdd b1" "grows b b1"
      "denotes b1 x1 (\<lambda>e. op_sem AND_OP (frontier_of T ix e \<in> S) (relation_ok T ix (fv_nodes V) e))"
    using apply_denotes [OF w less.prems(4,3)] by (rule yieldsE)
  obtain x2 b2 where 2: "bdd_exists x1 (hidden_of T V ix) b1 = Some (x2, b2)" "wf_bdd b2" "grows b1 b2"
      "denotes b2 x2 (ex_sem (hidden_of T V ix) (\<lambda>e. op_sem AND_OP (frontier_of T ix e \<in> S) (relation_ok T ix (fv_nodes V) e)))"
    using exists_denotes [OF 1(2,4)] by (rule yieldsE)
  have im: "rename_sem (mapping_of T V ix) (ex_sem (hidden_of T V ix) (\<lambda>e. op_sem AND_OP (frontier_of T ix e \<in> S) (relation_ok T ix (fv_nodes V) e))) =
      (\<lambda>e. frontier_of T ix e \<in> post T S)" by (rule ext) (simp add: image_exact [OF v T S])
  obtain x3 b3 where 3: "bdd_rename x2 (mapping_of T V ix) b2 = Some (x3, b3)" "wf_bdd b3" "grows b2 b3"
      "denotes b3 x3 (\<lambda>e. frontier_of T ix e \<in> post T S)"
    using rename_denotes [OF 2(2,4), of "mapping_of T V ix"] unfolding im by (rule yieldsE)
  have g3: "grows b b3" using grows_trans 1(3) 2(3) 3(3) by meson
  obtain x4 b4 where 4: "bdd_apply OR_OP r x3 b3 = Some (x4, b4)" "wf_bdd b4" "grows b3 b4" "denotes b4 x4 (\<lambda>e. frontier_of T ix e \<in> S \<union> post T S)"
    using apply_denotes [OF 3(2) denotes_grows [OF less.prems(4) g3] 3(4), of OR_OP] by (auto elim!: yieldsE)
  have g4: "grows b b4" by (rule grows_trans [OF g3 4(3)])
  have eq: "x4 = r \<longleftrightarrow> post T S \<subseteq> S"
    using denotes_eq [OF 4(2,4) denotes_grows [OF less.prems(4) g4]] frontier_sets_eq [OF T i, of "S \<union> post T S" S] S P by auto
  have unroll: "reach_loop rel (hidden_of T V ix) (mapping_of T V ix) r b =
      (if x4 = r then Some (r, b4) else reach_loop rel (hidden_of T V ix) (mapping_of T V ix) x4 b4)"
    by (simp add: reach_loop.simps [of rel _ _ r b] 1(1) 2(1) 3(1) 4(1))
  show ?case
  proof (cases "x4 = r")
    case True
    have "reachable_frontier T st \<Longrightarrow> st \<in> S" for st
      by (induction rule: reachable_frontier.induct) (use less.prems(6) eq True in \<open>auto simp: post_def\<close>)
    then have "S = {st. reachable_frontier T st}" using less.prems(5) by blast
    then have "?Q r b4" using denotes_grows [OF less.prems(4) g4] by simp
    then show ?thesis using unroll True 4(2) g4 by (intro yieldsI [of _ _ r b4]) simp_all
  next
    case False
    then have "frontiers T - (S \<union> post T S) \<subset> frontiers T - S" using eq P by blast
    then have c: "card (frontiers T - (S \<union> post T S)) < card (frontiers T - S)" using finite_frontiers by (simp add: psubset_card_mono)
    have sub: "S \<union> post T S \<subseteq> {st. reachable_frontier T st}" using less.prems(5) reachable_frontier.step by (auto simp: post_def)
    have "yields b4 (reach_loop rel (hidden_of T V ix) (mapping_of T V ix) x4) ?Q"
      by (rule less.hyps [OF c 4(2) vars_ok_grows [OF v g4] denotes_grows [OF less.prems(3) g4] 4(4) sub]) (use less.prems(6) in blast)
    then show ?thesis using unroll False grows_trans [OF g4] by (auto simp: yields_def)
  qed
qed

end
