(* ===== verification/Frontier_Proof.thy ===== *)
theory Frontier_Proof
  imports Frontier_Exact
begin

text \<open>The result of \<open>prove_completion_routes\<close>.\<close>

definition relation_built :: "control_topology \<Rightarrow> (slot \<Rightarrow> nat) \<Rightarrow> frontier_relation \<Rightarrow> bdd \<Rightarrow> bool" where
  "relation_built T ix R b \<longleftrightarrow>
     vars_ok T (fr_vars R) ix b \<and> denotes b (fr_choice_constraints R) (choice_ok T ix) \<and>
     denotes b (fr_relation R) (relation_ok T ix (fv_nodes (fr_vars R))) \<and>
     list_all2 (pair_match T ix b) (cause_pairs T (fv_nodes (fr_vars R))) (fr_duplicate_causes R) \<and>
     denotes b (fr_initial R) (\<lambda>e. frontier_of T ix e = ({n \<in> set (ct_nodes T). n \<in> set (ct_entries T)}, {})) \<and>
     denotes b (fr_following_empty R) (\<lambda>e. following_of T ix e = ({}, {}))"

lemma relation_built_grows: "relation_built T ix R b \<Longrightarrow> grows b b' \<Longrightarrow> relation_built T ix R b'"
  unfolding relation_built_def by (auto intro: vars_ok_grows denotes_grows elim!: list_all2_mono dest: pair_match_grows)

lemma build_frontier_relation_yields:
  assumes T: "wf_topology T" and w: "wf_bdd b" and ns: "distinct ns" "set ns = set (ct_nodes T)"
  shows "yields b (build_frontier_relation T ns) (\<lambda>R b'. \<exists>ix. relation_built T ix R b')"
  unfolding build_frontier_relation_def
proof (rule yields_bind [OF allocate_yields [OF T w ns]])
  let ?Q = "\<lambda>R b'. \<exists>ix. relation_built T ix R b'"
  let ?last = "\<lambda>V cc relation duplicates initial following_empty. returnB \<lparr>fr_vars = V, fr_choice_constraints = cc, fr_relation = relation,
    fr_duplicate_causes = duplicates, fr_initial = initial, fr_following_empty = following_empty\<rparr>"
  fix V b1
  assume 1: "wf_bdd b1" "\<exists>ix. vars_ok T V ix b1"
  then obtain ix where v: "vars_ok T V ix b1" by blast
  show "yields b1 (bindB (choice_constraints V) (\<lambda>cc. bindB (build_relation T V cc) (\<lambda>(relation, duplicates). bindB (initial_state T V) (\<lambda>initial.
    bindB (bindB (mapB negate (following_variables V)) conjunction) (?last V cc relation duplicates initial))))) ?Q"
  proof (rule yields_bind [OF choice_constraints_denotes [OF 1(1) v T]])
    fix cc b2
    assume 2: "wf_bdd b2" "grows b1 b2" "denotes b2 cc (choice_ok T ix)"
    note v2 = vars_ok_grows [OF v 2(2)]
    show "yields b2 (bindB (build_relation T V cc) (\<lambda>(relation, duplicates). bindB (initial_state T V) (\<lambda>initial.
      bindB (bindB (mapB negate (following_variables V)) conjunction) (?last V cc relation duplicates initial)))) ?Q"
    proof (rule yields_bind [OF build_relation_yields [OF 2(1) v2 T 2(3)]])
      fix rd b3
      assume 3: "wf_bdd b3" "grows b2 b3" "denotes b3 (fst rd) (relation_ok T ix (fv_nodes V)) \<and>
        list_all2 (pair_match T ix b3) (cause_pairs T (fv_nodes V)) (snd rd)"
      obtain r dups where rd: "rd = (r, dups)" by (cases rd)
      note v3 = vars_ok_grows [OF v2 3(2)]
      show "yields b3 (case rd of (relation, duplicates) \<Rightarrow> bindB (initial_state T V) (\<lambda>initial.
        bindB (bindB (mapB negate (following_variables V)) conjunction) (?last V cc relation duplicates initial))) ?Q"
        unfolding rd prod.case
      proof (rule yields_bind [OF initial_state_yields [OF 3(1) v3]])
        fix initial b4
        assume 4: "wf_bdd b4" "grows b3 b4"
          "denotes b4 initial (\<lambda>e. frontier_of T ix e = ({n \<in> set (ct_nodes T). n \<in> set (ct_entries T)}, {}))"
        note v4 = vars_ok_grows [OF v3 4(2)]
        show "yields b4 (bindB (bindB (mapB negate (following_variables V)) conjunction) (?last V cc r dups initial)) ?Q"
        proof (rule yields_bind [OF following_empty_yields [OF 4(1) v4]])
          fix fe b5
          assume 5: "wf_bdd b5" "grows b4 b5" "denotes b5 fe (\<lambda>e. following_of T ix e = ({}, {}))"
          have g: "grows b3 b5" "grows b2 b5" using grows_trans [OF 4(2) 5(2)] grows_trans [OF 3(2) grows_trans [OF 4(2) 5(2)]] by simp_all
          have "relation_built T ix \<lparr>fr_vars = V, fr_choice_constraints = cc, fr_relation = r, fr_duplicate_causes = dups, fr_initial = initial, fr_following_empty = fe\<rparr> b5"
            using vars_ok_grows [OF v4 5(2)] denotes_grows [OF 2(3) g(2)] denotes_grows [OF _ g(1)] 3(3) rd denotes_grows [OF 4(3) 5(2)] 5(3) pair_match_grows [OF _ g(1)]
            by (auto simp: relation_built_def elim: list_all2_mono)
          then show "yields b5 (?last V cc r dups initial fe) ?Q" using 5(1) by (intro yields_return) blast+
        qed
      qed
    qed
  qed
qed

lemma reachable_yields:
  assumes T: "wf_topology T" and w: "wf_bdd b" and R: "relation_built T ix R b"
  shows "yields b (reachable_frontiers R) (\<lambda>r b'. denotes b' r (\<lambda>e. reachable_frontier T (frontier_of T ix e)))"
proof -
  let ?V = "fr_vars R"
  have v: "vars_ok T ?V ix b" using R by (simp add: relation_built_def)
  note s = variables_are_slots [OF v T]
  have h: "mapB variable_index (current_variables ?V @ choice_variables ?V) b = Some (map ix (state_slots T ?V Cur JCur @ choice_slots T ?V), b)"
    using variable_indices [OF w v, of "state_slots T ?V Cur JCur @ choice_slots T ?V"] s by simp
  have f: "mapB variable_index (following_variables ?V) b = Some (map ix (state_slots T ?V Fol JFol), b)"
    "mapB variable_index (current_variables ?V) b = Some (map ix (state_slots T ?V Cur JCur), b)"
    using variable_indices [OF w v] s by simp_all
  have "reachable_frontiers R b = reach_loop (fr_relation R) (hidden_of T ?V ix) (mapping_of T ?V ix) (fr_initial R) b"
    by (simp add: reachable_frontiers_def Let_def bindB_def h f hidden_of_def mapping_of_def image_Un)
  moreover have "yields b (reach_loop (fr_relation R) (hidden_of T ?V ix) (mapping_of T ?V ix) (fr_initial R))
      (\<lambda>r b'. denotes b' r (\<lambda>e. reachable_frontier T (frontier_of T ix e)))"
    by (rule reach_loop_yields [OF T w v, where S = "{({n \<in> set (ct_nodes T). n \<in> set (ct_entries T)}, {})}"])
      (use R reachable_frontier.initial in \<open>auto simp: relation_built_def\<close>)
  ultimately show ?thesis by (simp add: yields_def)
qed

section \<open>Duplicate activations\<close>

definition duplicate_at :: "control_topology \<Rightarrow> (slot \<Rightarrow> nat) \<Rightarrow> string \<times> cause \<times> cause \<Rightarrow> (nat \<Rightarrow> bool) \<Rightarrow> bool" where
  "duplicate_at T ix p e = (case p of (t, x, y) \<Rightarrow>
     reachable_frontier T (frontier_of T ix e) \<and> choice_ok T ix e \<and> fires_in T ix x e \<and> fires_in T ix y e)"

lemma check_duplicates_yields:
  assumes "wf_bdd b" "denotes b r (\<lambda>e. reachable_frontier T (frontier_of T ix e))" "denotes b cc (choice_ok T ix)"
    "list_all2 (pair_match T ix b) ps dups"
  shows "yields b (check_duplicates r cc dups) (\<lambda>res b'. (res = Inr ()) = (\<not> (\<exists>p\<in>set ps. \<exists>e. duplicate_at T ix p e)))"
  using assms
proof (induction ps arbitrary: dups b)
  case Nil
  then show ?case by (auto intro: yields_return)
next
  case (Cons p ps)
  obtain d ds where dups: "dups = d # ds" "pair_match T ix b p d" "list_all2 (pair_match T ix b) ps ds" using Cons.prems(4) by (auto simp: list_all2_Cons1)
  obtain t x y q sources where pd: "p = (t, x, y)" "d = (q, t, sources)" "denotes b q (\<lambda>e. fires_in T ix x e \<and> fires_in T ix y e)"
    using dups(2) by (cases p; cases d) (auto simp: pair_match_def)
  let ?Fs = "[\<lambda>e. reachable_frontier T (frontier_of T ix e), choice_ok T ix, \<lambda>e. fires_in T ix x e \<and> fires_in T ix y e]"
  have all: "all_denote b [r, cc, q] ?Fs" using Cons.prems pd(3) by simp
  let ?Q = "\<lambda>res b'. (res = Inr ()) = (\<not> (\<exists>p\<in>set (p # ps). \<exists>e. duplicate_at T ix p e))"
  show ?case unfolding dups(1) pd(2) check_duplicates.simps
  proof (rule yields_bind [OF conjunction_denotes [OF Cons.prems(1) all]])
    fix z b1
    assume 1: "wf_bdd b1" "grows b b1" "denotes b1 z (\<lambda>e. \<forall>F\<in>set ?Fs. F e)"
    have sat: "satisfiable z \<longleftrightarrow> (\<exists>e. duplicate_at T ix p e)" using satisfiable_exact [OF 1(1,3)] pd(1) by (simp add: duplicate_at_def)
    show "yields b1 (if satisfiable z then returnB (Inl (duplicate_error t sources)) else check_duplicates r cc ds) ?Q"
    proof (cases "satisfiable z")
      case True
      then show ?thesis using sat 1(1) by (auto intro!: yields_return)
    next
      case False
      have "list_all2 (pair_match T ix b1) ps ds" using dups(3) pair_match_grows [OF _ 1(2)] by (rule list_all2_mono)
      then have "yields b1 (check_duplicates r cc ds) (\<lambda>res b'. (res = Inr ()) = (\<not> (\<exists>p\<in>set ps. \<exists>e. duplicate_at T ix p e)))"
        by (rule Cons.IH [OF 1(1) denotes_grows [OF Cons.prems(2) 1(2)] denotes_grows [OF Cons.prems(3) 1(2)]])
      then show ?thesis using False sat by simp
    qed
  qed
qed

lemma reachable_read:
  assumes T: "wf_topology T" and i: "inj_on ix (slots T)" and st: "reachable_frontier T st" and c: "chooses T (fst st) c"
  obtains e where "frontier_of T ix e = st" "choice_ok T ix e" "\<And>n. n \<in> fst st \<Longrightarrow> choice_of T ix e n = c n"
  using assignment_reads [OF T i reachable_frontiers_bounded [OF st] reachable_frontiers_bounded [OF st] c] by blast

lemma duplicates_exact:
  assumes T: "wf_topology T" and ns: "distinct ns" "set ns = set (ct_nodes T)" and i: "inj_on ix (slots T)"
  shows "(\<exists>p\<in>set (cause_pairs T ns). \<exists>e. duplicate_at T ix p e) \<longleftrightarrow> ambiguous_activation T"
proof -
  have d: "distinct (ct_nodes T)" using T by (simp add: wf_topology_def)
  have one: "(\<exists>(x, y)\<in>set (later_pairs (causes_of T ns t)). fires_in T ix x e \<and> fires_in T ix y e) \<longleftrightarrow>
      contested T (ct_nodes T) (frontier_of T ix e) (choice_of T ix e) t" if "choice_ok T ix e" for t e
  proof -
    have "filter (\<lambda>x. fires_in T ix x e) (causes_of T ns t) = filter (fires (frontier_of T ix e) (choice_of T ix e)) (causes_of T ns t)"
      using fires_frontier [OF T ns(2) _ that] by (auto intro: filter_cong)
    then have "contested T ns (frontier_of T ix e) (choice_of T ix e) t \<longleftrightarrow> \<not> length (filter (\<lambda>x. fires_in T ix x e) (causes_of T ns t)) \<le> 1"
      by (simp add: contested_def not_le)
    also have "\<dots> \<longleftrightarrow> \<not> (\<forall>(x, y)\<in>set (later_pairs (causes_of T ns t)). \<not> (fires_in T ix x e \<and> fires_in T ix y e))"
      unfolding later_pairs_unique ..
    also have "\<dots> \<longleftrightarrow> (\<exists>(x, y)\<in>set (later_pairs (causes_of T ns t)). fires_in T ix x e \<and> fires_in T ix y e)" by auto
    finally show ?thesis using contested_perm(1) [OF ns(1) d ns(2), of T "frontier_of T ix e" "choice_of T ix e" t] by simp
  qed
  have "(\<exists>p\<in>set (cause_pairs T ns). \<exists>e. duplicate_at T ix p e) \<longleftrightarrow>
      (\<exists>e. reachable_frontier T (frontier_of T ix e) \<and> choice_ok T ix e \<and> (\<exists>t\<in>set (ct_nodes T). contested T (ct_nodes T) (frontier_of T ix e) (choice_of T ix e) t))"
    using one ns(2) by (fastforce simp: cause_pairs_def duplicate_at_def)
  also have "\<dots> \<longleftrightarrow> ambiguous_activation T"
  proof
    assume "ambiguous_activation T"
    then obtain st c t where st: "reachable_frontier T st" "chooses T (fst st) c" "t \<in> set (ct_nodes T)" "contested T (ct_nodes T) st c t"
      by (auto simp: ambiguous_activation_def)
    obtain e where e: "frontier_of T ix e = st" "choice_ok T ix e" "\<And>n. n \<in> fst st \<Longrightarrow> choice_of T ix e n = c n"
      using reachable_read [OF T i st(1,2)] by blast
    have "fires st (choice_of T ix e) = fires st c" by (rule ext) (rule fires_cong [OF e(3)])
    then have "contested T (ct_nodes T) st (choice_of T ix e) t" using st(4) by (simp add: contested_def)
    then show "\<exists>e. reachable_frontier T (frontier_of T ix e) \<and> choice_ok T ix e \<and> (\<exists>t\<in>set (ct_nodes T). contested T (ct_nodes T) (frontier_of T ix e) (choice_of T ix e) t)"
      using st e(1,2) by blast
  next
    assume "\<exists>e. reachable_frontier T (frontier_of T ix e) \<and> choice_ok T ix e \<and> (\<exists>t\<in>set (ct_nodes T). contested T (ct_nodes T) (frontier_of T ix e) (choice_of T ix e) t)"
    then obtain e t where e: "reachable_frontier T (frontier_of T ix e)" "choice_ok T ix e" "t \<in> set (ct_nodes T)"
      "contested T (ct_nodes T) (frontier_of T ix e) (choice_of T ix e) t" by blast
    have "chooses T (fst (frontier_of T ix e)) (choice_of T ix e)" unfolding chooses_def
      using choice_of_iff [OF e(2)] by (auto simp: picks_def)
    then show "ambiguous_activation T" using e unfolding ambiguous_activation_def by blast
  qed
  finally show ?thesis .
qed

section \<open>Terminal frontiers\<close>

definition terminal_at :: "control_topology \<Rightarrow> (slot \<Rightarrow> nat) \<Rightarrow> (nat \<Rightarrow> bool) \<Rightarrow> bool" where
  "terminal_at T ix e \<longleftrightarrow> choice_ok T ix e \<and> terminal_frontier T (frontier_of T ix e) (choice_of T ix e) \<and> following_of T ix e = ({}, {})"

definition exposes_at :: "control_topology \<Rightarrow> (slot \<Rightarrow> nat) \<Rightarrow> string option \<Rightarrow> (nat \<Rightarrow> bool) \<Rightarrow> bool" where
  "exposes_at T ix r e \<longleftrightarrow> (\<exists>n\<in>set (ct_nodes T). e (ix (Cur n)) \<and> picks T ix e n r)"

lemma exposes_choice:
  assumes "choice_ok T ix e"
  shows "exposes_at T ix r e \<longleftrightarrow> r \<in> choice_of T ix e ` fst (frontier_of T ix e)"
  using choice_of_iff [OF assms] by (auto simp: exposes_at_def frontier_of_def)

lemma terminal_read:
  assumes T: "wf_topology T" and i: "inj_on ix (slots T)" and t: "terminal_frontier T st c"
  obtains e where "terminal_at T ix e" "frontier_of T ix e = st" "choice_of T ix e ` fst st = c ` fst st"
proof -
  have st: "reachable_frontier T st" "frontier_step T st c ({}, {})" using t by (simp_all add: terminal_frontier_def)
  then have c: "chooses T (fst st) c" by (simp add: frontier_step_def)
  note bounded = reachable_frontiers_bounded [OF st(1)] step_frontiers [OF st(2)]
  obtain e where e: "frontier_of T ix e = st" "choice_ok T ix e" "\<And>n. n \<in> fst st \<Longrightarrow> choice_of T ix e n = c n" "following_of T ix e = ({}, {})"
    using assignment_reads [OF T i bounded c] by blast
  have "terminal_at T ix e" using e t frontier_step_cong [OF e(3)] by (simp add: terminal_at_def terminal_frontier_def)
  moreover have "choice_of T ix e ` fst st = c ` fst st" using e(3) by (rule image_cong [OF refl])
  ultimately show ?thesis using that e(1) by blast
qed

lemma exposed_exact:
  assumes T: "wf_topology T" and i: "inj_on ix (slots T)"
  shows "(\<exists>e. terminal_at T ix e \<and> exposes_at T ix r e) \<longleftrightarrow> r \<in> exposed_routes T"
proof
  assume "r \<in> exposed_routes T"
  then obtain st c where t: "terminal_frontier T st c" "r \<in> c ` fst st" by (auto simp: exposed_routes_def)
  obtain e where "terminal_at T ix e" "frontier_of T ix e = st" "choice_of T ix e ` fst st = c ` fst st" by (rule terminal_read [OF T i t(1)])
  then show "\<exists>e. terminal_at T ix e \<and> exposes_at T ix r e" using t(2) exposes_choice [of T ix e r] by (auto simp: terminal_at_def)
next
  assume "\<exists>e. terminal_at T ix e \<and> exposes_at T ix r e"
  then show "r \<in> exposed_routes T" unfolding exposed_routes_def terminal_at_def using exposes_choice by blast
qed

lemma ambiguous_exact:
  assumes T: "wf_topology T" and i: "inj_on ix (slots T)"
  shows "(\<exists>r r'. r \<noteq> r' \<and> (\<exists>e. terminal_at T ix e \<and> exposes_at T ix r e \<and> exposes_at T ix r' e)) \<longleftrightarrow> ambiguous_completion T"
proof
  assume "ambiguous_completion T"
  then obtain st c r r' where t: "terminal_frontier T st c" "r \<in> c ` fst st" "r' \<in> c ` fst st" "r \<noteq> r'"
    unfolding ambiguous_completion_def by blast
  obtain e where "terminal_at T ix e" "frontier_of T ix e = st" "choice_of T ix e ` fst st = c ` fst st" by (rule terminal_read [OF T i t(1)])
  then have "terminal_at T ix e \<and> exposes_at T ix r e \<and> exposes_at T ix r' e" using t(2,3) exposes_choice [of T ix e] by (simp add: terminal_at_def)
  then show "\<exists>r r'. r \<noteq> r' \<and> (\<exists>e. terminal_at T ix e \<and> exposes_at T ix r e \<and> exposes_at T ix r' e)" using t(4) by blast
next
  assume "\<exists>r r'. r \<noteq> r' \<and> (\<exists>e. terminal_at T ix e \<and> exposes_at T ix r e \<and> exposes_at T ix r' e)"
  then obtain r r' e where e: "r \<noteq> r'" "terminal_at T ix e" "exposes_at T ix r e" "exposes_at T ix r' e" by blast
  then have "r \<in> choice_of T ix e ` fst (frontier_of T ix e)" "r' \<in> choice_of T ix e ` fst (frontier_of T ix e)"
    using exposes_choice [of T ix e] by (simp_all add: terminal_at_def)
  then show "ambiguous_completion T" using e(1,2) unfolding ambiguous_completion_def terminal_at_def by blast
qed

lemma terminal_reads:
  assumes T: "wf_topology T" and ns: "distinct ns" "set ns = set (ct_nodes T)"
  shows "reachable_frontier T (frontier_of T ix e) \<and> (\<exists>n\<in>set (ct_nodes T). e (ix (Cur n))) \<and> relation_ok T ix ns e \<and> following_of T ix e = ({}, {}) \<longleftrightarrow>
    terminal_at T ix e"
proof -
  have "(\<exists>n\<in>set (ct_nodes T). e (ix (Cur n))) \<longleftrightarrow> fst (frontier_of T ix e) \<noteq> {}" by (auto simp: frontier_of_def)
  then show ?thesis by (cases "following_of T ix e = ({}, {})") (auto simp: terminal_at_def terminal_frontier_def relation_reads [OF T ns, of ix e])
qed

lemma presence_yields:
  assumes T: "wf_topology T" and w: "wf_bdd b" and v: "vars_ok T V ix b"
  shows "yields b (terminal_route_presence T V r) (\<lambda>x b'. denotes b' x (exposes_at T ix r))"
proof -
  have V: "set (fv_nodes V) = set (ct_nodes T)" using v by (simp add: vars_ok_def)
  let ?ns = "filter (\<lambda>n. ct_conditional T n \<noteq> [] \<or> r \<in> set (options_of T n)) (fv_nodes V)"
  let ?S = "\<lambda>n e. op_sem AND_OP (e (ix (Cur n))) (picks T ix e n r)"
  have step: "yields b' (bdd_apply AND_OP (fv_node_current V n) (choice_literal T V n r)) (\<lambda>y b''. denotes b'' y (?S n))"
    if "n \<in> set ?ns" "wf_bdd b'" "grows b b'" for n b'
  proof -
    have n: "n \<in> set (ct_nodes T)" and v': "vars_ok T V ix b'" using that V vars_ok_grows [OF v] by auto
    show ?thesis by (rule apply_denotes [OF that(2) variable_denotes(1) [OF v' n] choice_literal_denotes [OF that(2) v' T n]])
  qed
  have eq: "(\<exists>F\<in>set (map ?S ?ns). F e) \<longleftrightarrow> exposes_at T ix r e" for e
    using V choice_options_wf(2) [OF T] by (auto simp: exposes_at_def picks_def)
  show ?thesis unfolding terminal_route_presence_def
  proof (rule yields_bind [OF yields_map_denotes [where S = ?S, OF w step]])
    fix ys b1
    assume "wf_bdd b1" "all_denote b1 ys (map ?S ?ns)"
    from disjunction_denotes [OF this] show "yields b1 (disjunction ys) (\<lambda>x b'. denotes b' x (exposes_at T ix r))" unfolding eq .
  qed
qed

lemma check_conflicts_yields:
  assumes "wf_bdd b" "denotes b t F" "list_all2 (rel_prod (\<lambda>r x. denotes b x (G r)) (\<lambda>r x. denotes b x (G r))) rs ps"
  shows "yields b (check_conflicts t ps) (\<lambda>res b'. (res = Inr ()) = (\<not> (\<exists>(r, r')\<in>set rs. \<exists>e. F e \<and> G r e \<and> G r' e)))"
  using assms
proof (induction rs arbitrary: ps b)
  case Nil
  then show ?case by (auto intro: yields_return)
next
  case (Cons p rs)
  obtain r r' x y qs where p: "p = (r, r')" "ps = (x, y) # qs" "denotes b x (G r)" "denotes b y (G r')"
    "list_all2 (rel_prod (\<lambda>r x. denotes b x (G r)) (\<lambda>r x. denotes b x (G r))) rs qs"
    using Cons.prems(3) by (cases p) (auto simp: list_all2_Cons1)
  have all: "all_denote b [t, x, y] [F, G r, G r']" using Cons.prems(2) p by simp
  show ?case unfolding p(2) check_conflicts.simps
  proof (rule yields_bind [OF conjunction_denotes [OF Cons.prems(1) all]])
    fix z b1
    assume 1: "wf_bdd b1" "grows b b1" "denotes b1 z (\<lambda>e. \<forall>F\<in>set [F, G r, G r']. F e)"
    have sat: "satisfiable z \<longleftrightarrow> (\<exists>e. F e \<and> G r e \<and> G r' e)" using satisfiable_exact [OF 1(1,3)] by simp
    let ?Q = "\<lambda>res b'. (res = Inr ()) = (\<not> (\<exists>(r, r')\<in>set (p # rs). \<exists>e. F e \<and> G r e \<and> G r' e))"
    show "yields b1 (if satisfiable z then returnB (Inl (GraphValidationError ''terminal frontier may expose conflicting completion routes''))
      else check_conflicts t qs) ?Q"
    proof (cases "satisfiable z")
      case True
      then show ?thesis using sat 1(1) p(1) by (auto intro!: yields_return)
    next
      case False
      have "list_all2 (rel_prod (\<lambda>r x. denotes b1 x (G r)) (\<lambda>r x. denotes b1 x (G r))) rs qs"
        using p(5) by (rule list_all2_mono) (auto intro: denotes_grows [OF _ 1(2)])
      then have "yields b1 (check_conflicts t qs) (\<lambda>res b'. (res = Inr ()) = (\<not> (\<exists>(r, r')\<in>set rs. \<exists>e. F e \<and> G r e \<and> G r' e)))"
        by (rule Cons.IH [OF 1(1) denotes_grows [OF Cons.prems(2) 1(2)]])
      moreover have "\<not> (\<exists>e. F e \<and> G r e \<and> G r' e)" using False sat by blast
      ultimately show ?thesis unfolding p(1) if_not_P [OF False] by simp
    qed
  qed
qed

lemma sorted_routes_props:
  assumes "finite rs"
  shows "set (sorted_routes rs) = rs" "distinct (sorted_routes rs)"
proof -
  have f: "finite (the ` (rs - {None}))" using assms by simp
  have "Some ` the ` (rs - {None}) = rs - {None}" by (force simp: image_iff)
  then show "set (sorted_routes rs) = rs" using f by (auto simp: sorted_routes_def)
  show "distinct (sorted_routes rs)" using f by (auto simp: sorted_routes_def distinct_map)
qed

lemma later_pairs_ne: "distinct xs \<Longrightarrow> (x, y) \<in> set (later_pairs xs) \<Longrightarrow> x \<noteq> y"
  by (induction xs) auto

lemma later_pairs_complete: "x \<in> set xs \<Longrightarrow> y \<in> set xs \<Longrightarrow> x \<noteq> y \<Longrightarrow> (x, y) \<in> set (later_pairs xs) \<or> (y, x) \<in> set (later_pairs xs)"
  by (induction xs) auto

definition all_routes :: "control_topology \<Rightarrow> string option set" where
  "all_routes T = \<Union>(set ` snd ` set (ct_route_options T))"

lemma all_routes_options:
  assumes "wf_topology T" "n \<in> set (ct_nodes T)"
  shows "set (choice_options T n) \<subseteq> all_routes T"
proof (cases "map_of (ct_route_options T) n")
  case (Some rs)
  then have "(n, rs) \<in> set (ct_route_options T)" by (rule map_of_SomeD)
  then show ?thesis using Some unfolding choice_options_wf(2) [OF assms] by (force simp: options_of_def all_routes_def)
qed (simp add: choice_options_wf(2) [OF assms] options_of_def)

lemma exposed_sub: "wf_topology T \<Longrightarrow> exposed_routes T \<subseteq> all_routes T"
proof
  fix r
  assume T: "wf_topology T" and "r \<in> exposed_routes T"
  then obtain st c n where "terminal_frontier T st c" "n \<in> fst st" "r = c n" unfolding exposed_routes_def by blast
  then have "n \<in> set (ct_nodes T)" "r \<in> set (choice_options T n)"
    using reachable_frontiers_bounded [of T st] by (auto simp: terminal_frontier_def frontier_step_def chooses_def frontiers_def)
  then show "r \<in> all_routes T" using all_routes_options [OF T] by blast
qed

definition routes_result :: "control_topology \<Rightarrow> string option set res \<Rightarrow> bool" where
  "routes_result T res =
     (case res of
        Inl e \<Rightarrow> ambiguous_completion T \<or> exposed_routes T = {}
      | Inr rs \<Rightarrow> \<not> ambiguous_completion T \<and> rs = exposed_routes T \<and> rs \<noteq> {})"

lemma terminal_diagram_yields:
  assumes T: "wf_topology T" and w: "wf_bdd b" and R: "relation_built T ix R b" and r: "denotes b r (\<lambda>e. reachable_frontier T (frontier_of T ix e))"
  shows "yields b (bindB (disjunction (map (fv_node_current (fr_vars R)) (fv_nodes (fr_vars R)))) (\<lambda>active.
    conjunction [r, active, fr_relation R, fr_following_empty R])) (\<lambda>t b'. denotes b' t (terminal_at T ix))"
proof -
  let ?V = "fr_vars R"
  have v: "vars_ok T ?V ix b" using R by (simp add: relation_built_def)
  have ns: "distinct (fv_nodes ?V)" "set (fv_nodes ?V) = set (ct_nodes T)" using v by (simp_all add: vars_ok_def)
  have "all_denote b (map (fv_node_current ?V) (fv_nodes ?V)) (map (\<lambda>n e. e (ix (Cur n))) (fv_nodes ?V))"
    using variable_denotes(1) [OF v] ns(2) by (simp add: all_denote_map)
  then show ?thesis
  proof (rule yields_bind [OF disjunction_denotes [OF w]])
    fix a b1
    assume 1: "wf_bdd b1" "grows b b1" "denotes b1 a (\<lambda>e. \<exists>F\<in>set (map (\<lambda>n e. e (ix (Cur n))) (fv_nodes ?V)). F e)"
    have "all_denote b1 [r, a, fr_relation R, fr_following_empty R] [\<lambda>e. reachable_frontier T (frontier_of T ix e),
        \<lambda>e. \<exists>F\<in>set (map (\<lambda>n e. e (ix (Cur n))) (fv_nodes ?V)). F e, relation_ok T ix (fv_nodes ?V), \<lambda>e. following_of T ix e = ({}, {})]"
      using relation_built_grows [OF R 1(2)] denotes_grows [OF r 1(2)] 1(3) by (simp add: relation_built_def)
    from conjunction_denotes [OF 1(1) this] show "yields b1 (conjunction [r, a, fr_relation R, fr_following_empty R]) (\<lambda>t b'. denotes b' t (terminal_at T ix))"
      using terminal_reads [OF T ns, of ix] ns(2) by simp
  qed
qed

lemma result_assembled:
  assumes T: "wf_topology T" and w: "wf_bdd b" and i: "inj_on ix (slots T)"
    and x: "list_all2 (\<lambda>r z. denotes b z (\<lambda>e. op_sem AND_OP (terminal_at T ix e) (exposes_at T ix r e))) (sorted_routes (all_routes T)) xs"
    and c: "((conflict :: unit res) = Inr ()) = (\<not> (\<exists>(r, r')\<in>set (later_pairs (sorted_routes (all_routes T))). \<exists>e. terminal_at T ix e \<and> exposes_at T ix r e \<and> exposes_at T ix r' e))"
  shows "routes_result T (case conflict of
      Inl e \<Rightarrow> Inl e
    | Inr _ \<Rightarrow> if set (map fst (filter (\<lambda>(_, x). satisfiable x) (zip (sorted_routes (all_routes T)) xs))) = {}
        then Inl (GraphValidationError ''graph has no statically viable successful completion'')
        else Inr (set (map fst (filter (\<lambda>(_, x). satisfiable x) (zip (sorted_routes (all_routes T)) xs)))))"
proof -
  let ?rs = "sorted_routes (all_routes T)"
  have fin: "finite (all_routes T)" by (simp add: all_routes_def)
  note rs = sorted_routes_props [OF fin]
  have z: "satisfiable x \<longleftrightarrow> r \<in> exposed_routes T" if "(r, x) \<in> set (zip ?rs xs)" for r x
    using x that satisfiable_exact [OF w, of x] exposed_exact [OF T i, of r] by (auto simp: list_all2_iff)
  have len: "length ?rs = length xs" using x by (rule list_all2_lengthD)
  have "r \<in> fst ` set (zip ?rs xs)" if "r \<in> exposed_routes T" for r
    using that exposed_sub [OF T] rs(1) len by (metis list.set_map map_fst_zip subsetD)
  then have e: "set (map fst (filter (\<lambda>(_, x). satisfiable x) (zip ?rs xs))) = exposed_routes T" using z by force
  have "(\<exists>(r, r')\<in>set (later_pairs ?rs). \<exists>e. terminal_at T ix e \<and> exposes_at T ix r e \<and> exposes_at T ix r' e) \<longleftrightarrow> ambiguous_completion T"
  proof
    assume "ambiguous_completion T"
    then obtain r r' e where q: "r \<noteq> r'" "terminal_at T ix e" "exposes_at T ix r e" "exposes_at T ix r' e" using ambiguous_exact [OF T i] by blast
    then have "r \<in> set ?rs" "r' \<in> set ?rs" using exposed_exact [OF T i] exposed_sub [OF T] rs(1) by blast+
    then show "\<exists>(r, r')\<in>set (later_pairs ?rs). \<exists>e. terminal_at T ix e \<and> exposes_at T ix r e \<and> exposes_at T ix r' e"
      using later_pairs_complete [of r ?rs r'] q by blast
  next
    assume "\<exists>(r, r')\<in>set (later_pairs ?rs). \<exists>e. terminal_at T ix e \<and> exposes_at T ix r e \<and> exposes_at T ix r' e"
    then show "ambiguous_completion T" using later_pairs_ne [OF rs(2)] ambiguous_exact [OF T i] by blast
  qed
  then show ?thesis unfolding e using c by (cases conflict) (auto simp: routes_result_def)
qed

lemma terminal_routes_yields:
  assumes T: "wf_topology T" and w: "wf_bdd b" and R: "relation_built T ix R b" and r: "denotes b r (\<lambda>e. reachable_frontier T (frontier_of T ix e))"
  shows "yields b (terminal_routes T R r) (\<lambda>res b'. routes_result T res)"
proof -
  let ?V = "fr_vars R" and ?rs = "sorted_routes (all_routes T)"
  have v: "vars_ok T ?V ix b" using R by (simp add: relation_built_def)
  have i: "inj_on ix (slots T)" using v by (simp add: vars_ok_def layout_def)
  let ?fin = "\<lambda>xs (conflict :: unit res). let exposed = set (map fst (filter (\<lambda>(_, x). satisfiable x) (zip ?rs xs))) in
    returnB (case conflict of Inl e \<Rightarrow> Inl e | Inr _ \<Rightarrow> if exposed = {} then Inl (GraphValidationError ''graph has no statically viable successful completion'') else Inr exposed)"
  let ?P = "\<lambda>r x b'. denotes b' x (exposes_at T ix r)"
  let ?E = "\<lambda>r z b'. denotes b' z (\<lambda>e. op_sem AND_OP (terminal_at T ix e) (exposes_at T ix r e))"
  have "yields b (bindB (bindB (disjunction (map (fv_node_current ?V) (fv_nodes ?V))) (\<lambda>active. conjunction [r, active, fr_relation R, fr_following_empty R]))
    (\<lambda>t. bindB (mapB (terminal_route_presence T ?V) ?rs) (\<lambda>presence. bindB (mapB (bdd_apply AND_OP t) presence) (\<lambda>xs.
      bindB (check_conflicts t (later_pairs presence)) (?fin xs))))) (\<lambda>res b'. routes_result T res)"
  proof (rule yields_bind [OF terminal_diagram_yields [OF T w R r]])
    fix t b1
    assume 1: "wf_bdd b1" "grows b b1" "denotes b1 t (terminal_at T ix)"
    have pres: "yields b' (terminal_route_presence T ?V r) (?P r)" if "r \<in> set ?rs" "wf_bdd b'" "grows b1 b'" for r b'
      by (rule presence_yields [OF T that(2) vars_ok_grows [OF v grows_trans [OF 1(2) that(3)]]])
    show "yields b1 (bindB (mapB (terminal_route_presence T ?V) ?rs) (\<lambda>presence. bindB (mapB (bdd_apply AND_OP t) presence) (\<lambda>xs.
      bindB (check_conflicts t (later_pairs presence)) (?fin xs)))) (\<lambda>res b'. routes_result T res)"
    proof (rule yields_bind [OF yields_map [where P = ?P, OF 1(1) pres denotes_grows]])
      fix ps b2
      assume 2: "wf_bdd b2" "grows b1 b2" "list_all2 (\<lambda>r x. denotes b2 x (exposes_at T ix r)) ?rs ps"
      note t2 = denotes_grows [OF 1(3) 2(2)]
      have expo: "yields b' (bdd_apply AND_OP t x) (?E r)" if "denotes b2 x (exposes_at T ix r)" "wf_bdd b'" "grows b2 b'" for r x b'
        by (rule apply_denotes [OF that(2) denotes_grows [OF t2 that(3)] denotes_grows [OF that(1,3)]])
      show "yields b2 (bindB (mapB (bdd_apply AND_OP t) ps) (\<lambda>xs. bindB (check_conflicts t (later_pairs ps)) (?fin xs))) (\<lambda>res b'. routes_result T res)"
      proof (rule yields_bind [OF yields_map2 [where P = ?E, OF 2(1,3) expo denotes_grows]])
        fix xs b3
        assume 3: "wf_bdd b3" "grows b2 b3" "list_all2 (\<lambda>r z. ?E r z b3) ?rs xs"
        have "list_all2 (\<lambda>r x. denotes b3 x (exposes_at T ix r)) ?rs ps" using 2(3) denotes_grows [OF _ 3(2)] by (rule list_all2_mono)
        note c = check_conflicts_yields [OF 3(1) denotes_grows [OF t2 3(2)] later_pairs_rel [OF this]]
        show "yields b3 (bindB (check_conflicts t (later_pairs ps)) (?fin xs)) (\<lambda>res b'. routes_result T res)"
        proof (rule yields_bind [OF c])
          fix conflict :: "unit res" and b4
          assume 4: "wf_bdd b4" "grows b3 b4" "(conflict = Inr ()) = (\<not> (\<exists>(r, r')\<in>set (later_pairs ?rs). \<exists>e. terminal_at T ix e \<and> exposes_at T ix r e \<and> exposes_at T ix r' e))"
          show "yields b4 (?fin xs conflict) (\<lambda>res b'. routes_result T res)" unfolding Let_def
            by (rule yields_return [OF 4(1)]) (rule result_assembled [OF T 3(1) i 3(3) 4(3)])
        qed
      qed
    qed
  qed
  then show ?thesis by (simp add: terminal_routes_def Let_def all_routes_def yields_def bindB_def Option.bind_assoc split_def)
qed

section \<open>Exactness\<close>

definition proof_result :: "control_topology \<Rightarrow> string option set res \<Rightarrow> bool" where
  "proof_result T res =
     (case res of
        Inl e \<Rightarrow> ambiguous_activation T \<or> ambiguous_completion T \<or> exposed_routes T = {}
      | Inr rs \<Rightarrow> \<not> ambiguous_activation T \<and> \<not> ambiguous_completion T \<and> rs = exposed_routes T \<and> rs \<noteq> {})"

lemma completion_routes_yields:
  assumes T: "wf_topology T" and w: "wf_bdd b" and R: "relation_built T ix R b"
  shows "yields b (completion_routes T R) (\<lambda>res b'. proof_result T res)"
  unfolding completion_routes_def
proof (rule yields_bind [OF reachable_yields [OF T w R]])
  have v: "vars_ok T (fr_vars R) ix b" using R by (simp add: relation_built_def)
  have ns: "distinct (fv_nodes (fr_vars R))" "set (fv_nodes (fr_vars R)) = set (ct_nodes T)" and i: "inj_on ix (slots T)"
    using v by (simp_all add: vars_ok_def layout_def)
  fix r b1
  assume 1: "wf_bdd b1" "grows b b1" "denotes b1 r (\<lambda>e. reachable_frontier T (frontier_of T ix e))"
  note R1 = relation_built_grows [OF R 1(2)]
  have d: "denotes b1 (fr_choice_constraints R) (choice_ok T ix)" "list_all2 (pair_match T ix b1) (cause_pairs T (fv_nodes (fr_vars R))) (fr_duplicate_causes R)"
    using R1 by (simp_all add: relation_built_def)
  show "yields b1 (bindB (check_duplicates r (fr_choice_constraints R) (fr_duplicate_causes R)) (\<lambda>duplicate.
    case duplicate of Inl e \<Rightarrow> returnB (Inl e) | Inr _ \<Rightarrow> terminal_routes T R r)) (\<lambda>res b'. proof_result T res)"
  proof (rule yields_bind [OF check_duplicates_yields [OF 1(1,3) d]])
    fix dup :: "unit res" and b2
    assume 2: "wf_bdd b2" "grows b1 b2" "(dup = Inr ()) = (\<not> (\<exists>p\<in>set (cause_pairs T (fv_nodes (fr_vars R))). \<exists>e. duplicate_at T ix p e))"
    have a: "(dup = Inr ()) = (\<not> ambiguous_activation T)" using 2(3) duplicates_exact [OF T ns i] by simp
    show "yields b2 (case dup of Inl e \<Rightarrow> returnB (Inl e) | Inr _ \<Rightarrow> terminal_routes T R r) (\<lambda>res b'. proof_result T res)"
    proof (cases dup)
      case (Inl e)
      then show ?thesis using a 2(1) by (auto intro!: yields_return simp: proof_result_def)
    next
      case (Inr u)
      then have "\<not> ambiguous_activation T" using a by simp
      then show ?thesis using Inr yields_weaken [OF terminal_routes_yields [OF T 2(1) relation_built_grows [OF R1 2(2)] denotes_grows [OF 1(3) 2(2)]]]
        by (simp add: routes_result_def proof_result_def split: sum.splits)
    qed
  qed
qed

lemma prove_completion_routes_exact:
  assumes T: "wf_topology T"
  shows "\<exists>res. prove_completion_routes T = Some res \<and> proof_result T res"
proof -
  obtain ns where ns: "symbolic_order T = Some ns" "distinct ns" "set ns = set (ct_nodes T)" using symbolic_order_total by blast
  have "yields empty_bdd (bindB (build_frontier_relation T ns) (completion_routes T)) (\<lambda>res b'. proof_result T res)"
    by (rule yields_bind [OF build_frontier_relation_yields [OF T wf_empty ns(2,3)]]) (use completion_routes_yields [OF T] in blast)
  then show ?thesis using ns(1) by (auto simp: prove_completion_routes_def yields_def)
qed

end
