(* ===== verification/Compiler_Resolved.thy ===== *)
theory Compiler_Resolved
  imports Compiler_Edges Frontier_Proof
begin

text \<open>
  The well-formedness of a resolved definition, and that the resolution of a validated definition
  establishes it.
\<close>

text \<open>The exported routes of a callable are a \<open>frozenset\<close>, hence finite.\<close>

fun finite_definition :: "graph_definition \<Rightarrow> bool" and finite_nodes :: "node_definition list \<Rightarrow> bool" where
  "finite_definition d = finite_nodes (gd_nodes d)"
| "finite_nodes [] = True"
| "finite_nodes (n # ns) =
     ((case n of CallableNodeDefinition _ _ _ _ routes \<Rightarrow> finite routes | NestedGraphNodeDefinition _ g _ \<Rightarrow> finite_definition g) \<and> finite_nodes ns)"

lemma finite_nodes_callable: "finite_nodes ns \<Longrightarrow> CallableNodeDefinition n i out rs routes \<in> set ns \<Longrightarrow> finite routes"
  by (induction ns) (auto split: node_definition.splits)

definition node_options_ok :: "conditionals \<Rightarrow> string \<Rightarrow> string option list \<Rightarrow> bool" where
  "node_options_ok conditional n rs \<longleftrightarrow>
     rs \<noteq> [] \<and> distinct rs \<and> (conditional n \<noteq> [] \<longrightarrow> set rs = Some ` fst ` set (conditional n))"

definition wf_resolved :: "resolved_definition \<Rightarrow> bool" where
  "wf_resolved r \<longleftrightarrow>
     (let ids = set (rd_node_ids r) in
      distinct (rd_node_ids r) \<and> END_NODE \<notin> ids \<and> (\<forall>n\<in>ids. is_canonical_identity n) \<and>
      set (rd_entries r) \<subseteq> ids \<and> rd_entries r \<noteq> [] \<and> (\<forall>n. rd_data r n \<subseteq> ids) \<and>
      (\<exists>es. rd_edges r = lowered es \<and> (\<forall>e\<in>set es. valid_edge ids e) \<and> distinct (conditional_keys es)) \<and>
      distinct (map fst (rd_route_options r)) \<and> fst ` set (rd_route_options r) = ids \<and>
      (\<forall>(n, rs)\<in>set (rd_route_options r). node_options_ok (le_conditional (rd_edges r)) n rs))"

section \<open>Nodes and data\<close>

lemma order_resources_id [simp]: "nf_node_id (order_resources rs n) = nf_node_id n"
  by (cases n) (simp_all add: order_resources_def)

lemma order_resources_callable:
  "CallableNodeDefinition n i out res routes = order_resources rs m \<Longrightarrow> \<exists>res'. m = CallableNodeDefinition n i out res' routes"
  by (cases m) (auto simp: order_resources_def)

lemma mapE_pairs_fst:
  assumes "mapE f xs = Inr ys" and "\<And>x y. x \<in> set xs \<Longrightarrow> f x = Inr y \<Longrightarrow> fst y = g x"
  shows "map fst ys = map g xs"
  using assms unfolding mapE_eq_Inr by (auto simp: list_eq_iff_nth_eq list_all2_conv_all_nth)

lemma mapE_result:
  assumes "mapE f xs = Inr ys" "y \<in> set ys"
  obtains x where "x \<in> set xs" "f x = Inr y"
proof -
  from assms obtain i where "i < length ys" "y = ys ! i" "list_all2 (\<lambda>x y. f x = Inr y) xs ys" by (auto simp: mapE_eq_Inr in_set_conv_nth)
  then have "xs ! i \<in> set xs" "f (xs ! i) = Inr y" by (auto simp: list_all2_conv_all_nth)
  then show thesis by (rule that)
qed

lemma outputs_of_node_fst: "outputs_of_node nested n = Inr y \<Longrightarrow> fst y = nf_node_id n"
  by (cases n) (auto simp: outputs_of_node_def resE)

lemma resolve_source_node:
  "resolve_source ref gi outs c = Inr (NodeOutputPort m p, t) \<Longrightarrow> m \<in> fst ` set outs \<and> c \<noteq> Some m"
  by (cases ref) (auto simp: resolve_source_def resE split: if_splits option.splits dest: map_of_SomeD intro: rev_image_eqI)

lemma resolve_node_input_data:
  assumes "resolve_node_input gi outs n acc x = Inr acc'" "ni_data acc \<subseteq> fst ` set outs"
  shows "ni_data acc' \<subseteq> fst ` set outs"
proof (cases x)
  case (Pair name source)
  show ?thesis
  proof (cases source)
    case (ValueSourceRef ref)
    with assms(1) Pair obtain port t where p: "resolve_source ref gi outs (Some n) = Inr (port, t)"
      "ni_data acc' = (case port of NodeOutputPort m _ \<Rightarrow> insert m (ni_data acc) | _ \<Rightarrow> ni_data acc)"
      by (auto simp: resolve_node_input_def bindE_eq_Inr)
    then show ?thesis using assms(2) resolve_source_node [of ref gi outs "Some n"] by (cases port) auto
  qed (use assms Pair in \<open>auto simp: resolve_node_input_def\<close>)
qed

lemma resolve_input_bindings_data:
  assumes "resolve_input_bindings nodes gi outs = Inr resolved" "map_of resolved n = Some x"
  shows "ni_data x \<subseteq> fst ` set outs"
proof -
  obtain m where m: "mapE (\<lambda>node. bindE (foldE (resolve_node_input gi outs (nf_node_id node))
      \<lparr>ni_resolved = [], ni_predecessors = [], ni_data = {}\<rparr> (nf_inputs node)) (\<lambda>acc. Inr (nf_node_id node, acc))) nodes = Inr resolved"
    using assms(1) by (auto simp: resolve_input_bindings_def bindE_eq_Inr split: if_splits)
  have "(n, x) \<in> set resolved" using assms(2) by (rule map_of_SomeD)
  then obtain node where "foldE (resolve_node_input gi outs (nf_node_id node)) \<lparr>ni_resolved = [], ni_predecessors = [], ni_data = {}\<rparr> (nf_inputs node) = Inr x"
    by (rule mapE_result [OF m]) (auto simp: bindE_eq_Inr)
  then show ?thesis by (rule foldE_invariant) (auto dest: resolve_node_input_data)
qed

lemma resolve_entries_ok:
  assumes "resolve_entries nodes declared data gs = Inr entries"
  shows "set entries = set declared \<union> {n \<in> set nodes. data n = {} \<and> gs n = []}" and "entries \<noteq> []"
    and "\<And>n. n \<in> set entries \<Longrightarrow> data n = {}"
  using assms by (auto simp: resolve_entries_def Let_def resE split: if_splits)

section \<open>Route options\<close>

definition routes_ok :: "(string \<times> compiled_definition) list \<Rightarrow> bool" where
  "routes_ok nested \<longleftrightarrow> (\<forall>(n, c)\<in>set nested. finite (cg_completion_routes (fst c)) \<and> cg_completion_routes (fst c) \<noteq> {})"

lemma terminal_domain_ok:
  assumes "terminal_domain nested node = Inr D" "routes_ok nested" "\<And>n i out rs routes. node = CallableNodeDefinition n i out rs routes \<Longrightarrow> finite routes"
  shows "finite D \<and> D \<noteq> {}"
proof (cases node)
  case (CallableNodeDefinition n i out rs routes)
  then show ?thesis using assms(1) assms(3) [OF CallableNodeDefinition] by (auto simp: terminal_domain_def split: if_splits)
next
  case (NestedGraphNodeDefinition n g i)
  then show ?thesis using assms(1,2) by (fastforce simp: terminal_domain_def resE fm_get_def routes_ok_def split: option.splits dest: map_of_SomeD)
qed

lemma node_route_options_ok:
  assumes "node_route_options le nested node = Inr (n, rs)" "routes_ok nested" "distinct (map fst (le_conditional le n))"
    and "\<And>n i out rs routes. node = CallableNodeDefinition n i out rs routes \<Longrightarrow> finite routes"
  shows "n = nf_node_id node \<and> node_options_ok (le_conditional le) n rs"
proof -
  let ?c = "le_conditional le (nf_node_id node)"
  obtain D where D: "terminal_domain nested node = Inr D" and n: "n = nf_node_id node"
    and rs: "rs = (if ?c \<noteq> [] then map Some (sort (map fst ?c))
      else if le_direct le n \<noteq> {} \<or> n \<in> set (concat (map fst (le_joins le))) then [None] else sorted_routes D)"
  proof -
    from assms(1) obtain D where D: "terminal_domain nested node = Inr D" unfolding node_route_options_def Let_def bindE_eq_Inr by blast
    with assms(1) show thesis
      by (cases node) (auto simp: node_route_options_def Let_def if_Inl_eq_Inr intro!: that [OF D])
  qed
  have f: "finite D" "D \<noteq> {}" using terminal_domain_ok [OF D assms(2,4)] by simp_all
  have "sorted_routes D \<noteq> []" using sorted_routes_props(1) [OF f(1)] f(2) by auto
  moreover have "sort (map fst xs) = [] \<longleftrightarrow> xs = []" for xs :: "(string \<times> string) list"
    by (metis length_0_conv length_map length_sort)
  ultimately show ?thesis using n assms(3) sorted_routes_props [OF f(1)] unfolding rs node_options_ok_def by (auto simp: distinct_map)
qed

lemma route_options_ok:
  assumes c: "collect_control_topology nodes nested es = Inr (le, options)" and ok: "routes_ok nested" and d: "distinct (conditional_keys es)"
    and f: "\<And>n i out rs routes. CallableNodeDefinition n i out rs routes \<in> set nodes \<Longrightarrow> finite routes"
  shows "le = lowered es" "map fst options = map nf_node_id nodes" "\<forall>(n, rs)\<in>set options. node_options_ok (le_conditional le) n rs"
proof -
  have m: "mapE (node_route_options (lowered es) nested) nodes = Inr options" and le: "le = lowered es"
    using c by (auto simp: collect_control_topology_def Let_def bindE_eq_Inr)
  have ok: "fst y = nf_node_id x \<and> node_options_ok (le_conditional (lowered es)) (fst y) (snd y)"
    if "x \<in> set nodes" "node_route_options (lowered es) nested x = Inr y" for x y
    using node_route_options_ok [of "lowered es" nested x "fst y" "snd y"] that lowered_conditional [OF d] ok f by (metis prod.collapse)
  show "le = lowered es" by (rule le)
  show "map fst options = map nf_node_id nodes" using ok by (intro mapE_pairs_fst [OF m]) blast
  show "\<forall>(n, rs)\<in>set options. node_options_ok (le_conditional le) n rs"
    using ok le by (auto elim!: mapE_result [OF m])
qed

section \<open>Resolution\<close>

lemma resolve_definition_wf:
  assumes v: "valid_shape d" and f: "finite_nodes (gd_nodes d)" and ok: "routes_ok nested" and r: "resolve_definition d nested = Inr r"
  shows "wf_resolved r" "set (rd_node_ids r) = set (map nf_node_id (gd_nodes d))"
proof -
  let ?nodes = "map (order_resources (gd_resources d)) (gd_nodes d)"
  let ?sorted = "sort_key nf_node_id ?nodes"
  from r obtain gi outs resolved es options entries inputs gi' where
    o: "mapE (outputs_of_node nested) ?sorted = Inr outs" and
    b: "resolve_input_bindings ?sorted gi outs = Inr resolved" and
    c: "collect_control_topology ?nodes nested (gd_edges d) = Inr (es, options)" and
    e: "resolve_entries (map nf_node_id ?sorted) (gd_entries d) (\<lambda>n. case map_of resolved n of None \<Rightarrow> {} | Some r \<Rightarrow> ni_data r) (le_gates es) = Inr entries" and
    r: "r = \<lparr>rd_nodes = ?sorted, rd_outputs = outs, rd_data = (\<lambda>n. case map_of resolved n of None \<Rightarrow> {} | Some r \<Rightarrow> ni_data r), rd_edges = es,
      rd_route_options = options, rd_entries = entries, rd_inputs = inputs, rd_graph_inputs = gi'\<rparr>"
    by (auto simp: resolve_definition_def Let_def bindE_eq_Inr)
  have ids: "rd_node_ids r = map nf_node_id ?sorted" by (simp add: r rd_node_ids_def)
  show s: "set (rd_node_ids r) = set (map nf_node_id (gd_nodes d))" by (simp add: ids image_image)
  have u: "distinct (map nf_node_id (gd_nodes d))" "distinct (conditional_keys (gd_edges d))" using v by (simp_all add: valid_shape_def Let_def)
  have "mset (rd_node_ids r) = mset (map nf_node_id (gd_nodes d))" unfolding ids by (simp add: mset_map image_mset.compositionality comp_def)
  then have di: "distinct (rd_node_ids r)" using u(1) mset_eq_imp_distinct_iff by blast
  have fc: "finite routes" if "CallableNodeDefinition n i out rs routes \<in> set ?nodes" for n i out rs routes
    using that finite_nodes_callable [OF f] by (auto dest: order_resources_callable)
  note opts = route_options_ok [OF c ok u(2) fc]
  have "map fst outs = map nf_node_id ?sorted" by (rule mapE_pairs_fst [OF o outputs_of_node_fst])
  then have "fst ` set outs = set (rd_node_ids r)" by (metis ids list.set_map)
  then have data: "rd_data r n \<subseteq> set (rd_node_ids r)" for n
    using resolve_input_bindings_data [OF b] by (auto simp: r split: option.splits)
  have ent: "set (rd_entries r) \<subseteq> set (rd_node_ids r)" "rd_entries r \<noteq> []"
    using resolve_entries_ok [OF e] v s by (auto simp: r valid_shape_def Let_def rd_node_ids_def)
  have mf: "map fst (rd_route_options r) = map nf_node_id (gd_nodes d)" using opts(2) by (simp add: r comp_def)
  then have "fst ` set (rd_route_options r) = set (rd_node_ids r)" unfolding s by (metis list.set_map)
  then show "wf_resolved r"
    using v di data ent opts(1,3) mf u unfolding wf_resolved_def valid_shape_def Let_def s by (auto simp: r)
qed

end
