(* ===== verification/Compiler_Analysis.thy ===== *)
theory Compiler_Analysis
  imports Compiler_Resolved Routing_Control
begin

text \<open>
  The analysis of the control topology of a well-formed resolved definition always ends, and what
  its result means.
\<close>

section \<open>Facts of a well-formed resolved definition\<close>

lemma wf_resolvedD:
  assumes "wf_resolved r"
  shows "distinct (rd_node_ids r)" "END_NODE \<notin> set (rd_node_ids r)" "set (rd_entries r) \<subseteq> set (rd_node_ids r)" "rd_entries r \<noteq> []"
    "rd_data r n \<subseteq> set (rd_node_ids r)" "distinct (map fst (rd_route_options r))" "fst ` set (rd_route_options r) = set (rd_node_ids r)"
  using assms by (auto simp: wf_resolved_def Let_def)

lemma wf_resolved_edges:
  assumes "wf_resolved r"
  obtains es where "rd_edges r = lowered es" "\<forall>e\<in>set es. valid_edge (set (rd_node_ids r)) e" "distinct (conditional_keys es)"
  using assms by (auto simp: wf_resolved_def Let_def)

abbreviation rd_succ :: "resolved_definition \<Rightarrow> succs" where
  "rd_succ r \<equiv> control_successors (rd_edges r)"

abbreviation rd_gates :: "resolved_definition \<Rightarrow> gates" where
  "rd_gates r \<equiv> le_gates (rd_edges r)"

lemma rd_closed:
  assumes "wf_resolved r"
  shows "closed_succs (rd_node_ids r) (rd_succ r)"
    "closed_succs (rd_node_ids r) (static_successors (le_direct (rd_edges r)) (le_conditional (rd_edges r)))"
  using wf_resolved_edges [OF assms] control_successors_closed static_successors_closed by metis+

lemma rd_joins:
  assumes "wf_resolved r" "(ss, t) \<in> set (le_joins (rd_edges r))"
  shows "2 \<le> length ss" "distinct ss" "set ss \<subseteq> set (rd_node_ids r)" "t \<noteq> END_NODE \<Longrightarrow> t \<in> set (rd_node_ids r)" "t \<notin> set ss" "sorted ss"
proof -
  obtain es where es: "rd_edges r = lowered es" "\<forall>e\<in>set es. valid_edge (set (rd_node_ids r)) e" by (rule wf_resolved_edges [OF assms(1)])
  then obtain ss' where j: "ss = sort ss'" "JoinEdge ss' t \<in> set es" using assms(2) set_lowered_joins by metis
  then have "valid_edge (set (rd_node_ids r)) (JoinEdge ss' t)" using es(2) by blast
  then show "2 \<le> length ss" "distinct ss" "set ss \<subseteq> set (rd_node_ids r)" "t \<noteq> END_NODE \<Longrightarrow> t \<in> set (rd_node_ids r)" "t \<notin> set ss" "sorted ss"
    using j(1) by (auto simp: valid_edge_def known_target_def)
qed

lemma rd_gate_successor:
  assumes "wf_resolved r" "t \<in> set (rd_node_ids r)" "g \<in> set (rd_gates r t)" "s \<in> fst ` set g"
  shows "t \<in> rd_succ r s"
proof -
  have "t \<noteq> END_NODE" using wf_resolvedD(2) [OF assms(1)] assms(2) by blast
  then show ?thesis using wf_resolved_edges [OF assms(1)] gate_successor assms(3,4) by metis
qed

section \<open>Every stage ends\<close>

lemma forR_total: "(\<And>x. x \<in> set xs \<Longrightarrow> \<exists>u. f x = Some u) \<Longrightarrow> \<exists>u. forR f xs = Some u"
  by (induction xs) (auto intro!: bindR_total)

lemma can_reach_total:
  assumes "closed_succs nodes succ"
  shows "\<exists>b. can_reach nodes succ s t = Some b"
  using can_reach_correct [OF assms, of s t] by (cases "s \<in> set nodes \<and> t \<in> set nodes") (auto simp: can_reach_def)

lemma anyO_ends: "(\<And>x. x \<in> set xs \<Longrightarrow> \<exists>b. f x = Some b) \<Longrightarrow> \<exists>b. anyO f xs = Some b"
proof (induction xs)
  case (Cons x xs)
  from Cons.prems [of x] obtain b where "f x = Some b" by auto
  moreover have "\<exists>c. anyO f xs = Some c" using Cons by simp
  ultimately show ?case by (cases b) auto
qed (simp add: exI [of _ False])

lemma check_data_order_total:
  assumes "closed_succs nodes succ"
  shows "\<exists>u. check_data_order nodes data gs succ = Some u"
  unfolding check_data_order_def
  by (intro forR_total) (auto simp: liftO_def split: prod.splits intro!: bindR_total can_reach_total [OF assms])

lemma validate_cycle_exits_total:
  assumes "closed_succs nodes succ"
  shows "\<exists>u. validate_cycle_exits nodes succ gs = Some u"
proof -
  have "\<exists>b. anyO (\<lambda>n. map_option Not (anyO (can_reach nodes succ n) ts)) xs = Some b" for ts xs
  proof (rule anyO_ends)
    fix n
    obtain b where "anyO (can_reach nodes succ n) ts = Some b" using anyO_ends [of ts "can_reach nodes succ n"] can_reach_total [OF assms] by blast
    then show "\<exists>b. map_option Not (anyO (can_reach nodes succ n) ts) = Some b" by simp
  qed
  then obtain b where "anyO (\<lambda>n. map_option Not (anyO (can_reach nodes succ n) (concat (map sorted_list_of_set gs))))
    (sorted_list_of_set {n \<in> set nodes. on_cycle succ n}) = Some b" by blast
  then show ?thesis by (simp add: validate_cycle_exits_def cycle_nodes_correct [OF assms] Let_def)
qed

lemma fixed_acyclic:
  assumes closed: "closed_succs nodes succ" and sub: "fixed = set nodes - after_cycle nodes succ"
    and dep: "\<And>a b. a \<in> deps b \<Longrightarrow> b \<in> fixed \<Longrightarrow> b \<in> succ a"
  shows "acyclic {(a, b). a \<in> deps b \<and> a \<in> fixed \<and> b \<in> fixed}" (is "acyclic ?R")
proof (rule acyclicI, intro allI notI)
  fix n
  assume c: "(n, n) \<in> ?R\<^sup>+"
  have "?R \<subseteq> step_rel succ" using dep by (auto simp: step_rel_def)
  then have "(n, n) \<in> (step_rel succ)\<^sup>+" using c trancl_mono by blast
  then have "on_cycle succ n" by (simp add: on_cycle_def)
  moreover have "n \<in> fixed" using c by (metis (no_types, lifting) case_prodD mem_Collect_eq tranclD)
  ultimately show False using after_cycle_self sub by blast
qed

lemma joint_paths_total:
  assumes w: "wf_resolved r"
  shows "\<exists>u. validate_joint_activation_paths (rd_node_ids r) (rd_entries r) (rd_gates r) (rd_data r) (le_conditional (rd_edges r)) (rd_succ r) = Some u"
proof -
  let ?ns = "rd_node_ids r" and ?data = "rd_data r"
  let ?succ = "\<lambda>n. rd_succ r n \<union> {t \<in> set ?ns. n \<in> ?data t}"
  let ?fixed = "set ?ns - after_cycle ?ns ?succ"
  let ?deps = "\<lambda>n. {s \<in> set (map fst (concat (rd_gates r n))). s \<in> ?fixed} \<union> (?data n \<inter> ?fixed)"
  have c: "closed_succs ?ns ?succ" using rd_closed(1) [OF w] by (auto simp: closed_succs_def)
  have "b \<in> ?succ a" if ab: "a \<in> ?deps b" "b \<in> ?fixed" for a b
  proof -
    consider "a \<in> set (map fst (concat (rd_gates r b)))" | "a \<in> ?data b" using ab(1) by blast
    then show ?thesis
    proof cases
      case 1
      then obtain g where "g \<in> set (rd_gates r b)" "a \<in> fst ` set g" by auto
      then show ?thesis using rd_gate_successor [OF w] ab(2) by blast
    qed (use ab(2) in blast)
  qed
  then have ac: "acyclic {(a, b). a \<in> ?deps b \<and> a \<in> ?fixed \<and> b \<in> ?fixed}" by (rule fixed_acyclic [OF c refl])
  have sub: "?deps n \<subseteq> ?fixed" for n by blast
  obtain xs where xs: "dependency_order ?deps ?fixed = Some xs" by (rule dependency_order_total [OF _ ac sub]) simp
  show ?thesis
    unfolding validate_joint_activation_paths_def Let_def liftO_def cycle_reachable_correct [OF c] option.map bindR_simps xs by blast
qed

section \<open>Compiled joins\<close>

lemma compile_join_ok:
  assumes "compile_join rep entries gs req cond levels (ss, t) = Inr j"
  shows "join_sources (cj_identity j) = ss" "join_target (cj_identity j) = t" "map fst (cj_offsets j) = ss"
    "\<forall>k\<in>set (map snd (cj_offsets j)). 1 \<le> k" "2 \<le> length ss" "canonical_tuple ss" "wf_join_plan j"
    "(\<forall>k\<in>set (map snd (cj_offsets j)). k = 1) \<or> (\<forall>s\<in>set ss. levels s \<noteq> None)"
proof -
  from assms obtain offsets identity where o: "join_offsets rep entries gs (map (\<lambda>s. source_route_requirements req cond (s, None)) ss) levels ss t = Inr offsets"
    and i: "mk_GraphJoinIdentity ss t = Inr identity" and c: "mk_CompiledJoin identity offsets = Inr j"
    by (auto simp: compile_join_def bindE_eq_Inr if_Inl_eq_Inr)
  have j: "j = CompiledJoin identity offsets" "map fst offsets = join_sources identity" "\<forall>k\<in>set (map snd offsets). \<not> k < 1"
    using c by (auto simp: mk_CompiledJoin_def if_Inl_eq_Inr)
  have id: "identity = GraphJoinIdentity ss t" "2 \<le> length ss" "canonical_tuple ss" using i by (simp_all add: mk_GraphJoinIdentity_ok)
  show "join_sources (cj_identity j) = ss" "join_target (cj_identity j) = t" "map fst (cj_offsets j) = ss"
    "\<forall>k\<in>set (map snd (cj_offsets j)). 1 \<le> k" "2 \<le> length ss" "canonical_tuple ss" using j id by auto
  show "wf_join_plan j" using i c j(1) id(1) by (simp add: wf_join_plan_def)
  show "(\<forall>k\<in>set (map snd (cj_offsets j)). k = 1) \<or> (\<forall>s\<in>set ss. levels s \<noteq> None)"
    using o j(1) by (auto simp: join_offsets_def Let_def split: if_splits)
qed

definition compiled_from :: "resolved_definition \<Rightarrow> (string \<rightharpoonup> int) \<Rightarrow> compiled_join \<Rightarrow> bool" where
  "compiled_from r levels j \<longleftrightarrow>
     (join_sources (cj_identity j), join_target (cj_identity j)) \<in> set (le_joins (rd_edges r)) \<and> wf_join_plan j \<and>
     wf_join (set (rd_node_ids r)) j \<and>
     ((\<forall>k\<in>set (map snd (cj_offsets j)). k = 1) \<or> (\<forall>s\<in>set (join_sources (cj_identity j)). levels s \<noteq> None))"

lemma compile_joins_ok:
  assumes w: "wf_resolved r" and m: "mapE (compile_join rep entries gs req cond levels) (le_joins (rd_edges r)) = Inr js"
  shows "\<forall>j\<in>set js. compiled_from r levels j"
    "map (\<lambda>j. (join_sources (cj_identity j), join_target (cj_identity j))) js = le_joins (rd_edges r)"
proof -
  show "\<forall>j\<in>set js. compiled_from r levels j"
  proof
    fix j
    assume "j \<in> set js"
    then obtain e where e: "e \<in> set (le_joins (rd_edges r))" "compile_join rep entries gs req cond levels e = Inr j" by (rule mapE_result [OF m])
    obtain ss t where st: "e = (ss, t)" by (cases e)
    note c = compile_join_ok [OF e(2) [unfolded st]]
    note p = rd_joins [OF w e(1) [unfolded st]]
    have "wf_join (set (rd_node_ids r)) j" using c p by (auto simp: wf_join_def sources_of_def target_of_def)
    then show "compiled_from r levels j" using c e(1) st by (simp add: compiled_from_def)
  qed
  have "list_all2 (\<lambda>e j. (join_sources (cj_identity j), join_target (cj_identity j)) = e) (le_joins (rd_edges r)) js"
    using m unfolding mapE_eq_Inr by (rule list_all2_mono) (auto dest: compile_join_ok(1,2))
  then show "map (\<lambda>j. (join_sources (cj_identity j), join_target (cj_identity j))) js = le_joins (rd_edges r)"
    by (auto simp: list_all2_conv_all_nth intro!: nth_equalityI)
qed

lemma topology_wf:
  assumes w: "wf_resolved r" and j: "\<forall>j\<in>set js. compiled_from r levels j"
  shows "wf_topology (topology_of r js)"
proof -
  obtain es where es: "rd_edges r = lowered es" "\<forall>e\<in>set es. valid_edge (set (rd_node_ids r)) e" "distinct (conditional_keys es)"
    by (rule wf_resolved_edges [OF w])
  have nodes: "set (ct_nodes (topology_of r js)) = set (rd_node_ids r)" using wf_resolvedD(7) [OF w] by (simp add: ct_nodes_def topology_of_def)
  have direct: "le_direct (rd_edges r) n \<subseteq> set (rd_node_ids r)" for n
    using es(2) by (force simp: es(1) lowered_direct valid_edge_def known_target_def)
  have cond: "set (le_conditional (rd_edges r) n) = {(rt, t). ConditionalEdge n rt t \<in> set es}" "distinct (map fst (le_conditional (rd_edges r) n))" for n
    using lowered_conditional [OF es(3), of n] by (simp_all add: es(1))
  have targets: "snd ` set (le_conditional (rd_edges r) n) \<subseteq> insert END_NODE (set (rd_node_ids r))" for n
    unfolding cond(1) using es(2) by (force simp: valid_edge_def known_target_def)
  have opt: "node_options_ok (le_conditional (rd_edges r)) n (options_of (topology_of r js) n)" if "n \<in> set (rd_node_ids r)" for n
  proof -
    have "n \<in> fst ` set (rd_route_options r)" using that wf_resolvedD(7) [OF w] by simp
    then obtain rs where rs: "(n, rs) \<in> set (rd_route_options r)" by auto
    then have "options_of (topology_of r js) n = rs" using wf_resolvedD(6) [OF w] by (simp add: options_of_def topology_of_def)
    moreover have "\<forall>(n, rs)\<in>set (rd_route_options r). node_options_ok (le_conditional (rd_edges r)) n rs"
      using w by (simp add: wf_resolved_def Let_def)
    ultimately show ?thesis using rs by blast
  qed
  have joins: "wf_join (set (rd_node_ids r)) k" if "k \<in> set (joins_by_source js n)" for k n
    using that j by (auto simp: joins_by_source_def compiled_from_def)
  show ?thesis
    unfolding wf_topology_def nodes
    using wf_resolvedD(2,6) [OF w] direct cond(2) targets opt joins
    by (auto simp: topology_of_def ct_nodes_def node_options_ok_def)
qed

section \<open>The analysis\<close>

definition rd_history :: "resolved_definition \<Rightarrow> string \<Rightarrow> string set \<Rightarrow> bool" where
  "rd_history r = activation_history (rd_entries r) (rd_gates r)"

definition analysed :: "resolved_definition \<Rightarrow> control_analysis \<Rightarrow> bool" where
  "analysed r a \<longleftrightarrow>
     (let T = topology_of r (ca_joins a) in
      set (rd_node_ids r) \<subseteq> activable (rd_entries r) (static_successors (le_direct (rd_edges r)) (le_conditional (rd_edges r))) (le_joins (rd_edges r)) \<and>
      (\<forall>n\<in>set (rd_node_ids r). \<forall>h. rd_history r n h \<longrightarrow> rd_data r n \<subseteq> h) \<and>
      (\<forall>n k. ca_levels a n = Some k \<longleftrightarrow> n \<in> set (rd_node_ids r) \<and> level_sets (rd_node_ids r) (rd_entries r) (rd_succ r) n = {k}) \<and>
      map (\<lambda>j. (join_sources (cj_identity j), join_target (cj_identity j))) (ca_joins a) = le_joins (rd_edges r) \<and>
      (\<forall>j\<in>set (ca_joins a). compiled_from r (ca_levels a) j) \<and>
      wf_topology T \<and> ca_completion_routes a = exposed_routes T \<and> exposed_routes T \<noteq> {} \<and> \<not> ambiguous_activation T \<and> \<not> ambiguous_completion T)"

lemma check_guaranteed_history:
  assumes "check_guaranteed_data nodes data g = Inr ()" and "guaranteed_sets nodes entries gs = Some g"
    and "n \<in> set nodes" and "activation_history entries gs n h"
  shows "data n \<subseteq> h"
  using assms guaranteed_sound [OF assms(2,4)] by (force simp: check_guaranteed_data_def resE)

lemma analyse_control_total:
  assumes w: "wf_resolved r"
  shows "\<exists>u. analyse_control r = Some u"
proof -
  let ?ns = "rd_node_ids r" and ?es = "rd_edges r"
  note c = rd_closed [OF w] and ent = wf_resolvedD(3) [OF w]
  have reach: "reachable (rd_entries r) (static_successors (le_direct ?es) (le_conditional ?es)) (le_joins ?es) =
      Some (activable (rd_entries r) (static_successors (le_direct ?es) (le_conditional ?es)) (le_joins ?es))"
    by (rule reachable_correct [OF c(2) ent rd_joins(4) [OF w]])
  obtain A where A: "absolute_activation_levels ?ns (rd_entries r) (rd_succ r) = Some A" using absolute_levels_correct [OF c(1) ent] by blast
  have g: "\<exists>g. guaranteed_sets ?ns (rd_entries r) (rd_gates r) = Some g" by (rule guaranteed_sets_total) blast
  have joins: "\<exists>u. compile_join_occurrence_plans ?ns (le_joins ?es) (rd_entries r) (rd_gates r) (rd_succ r) req (le_conditional ?es) A = Some u" for req
    by (simp add: compile_join_occurrence_plans_def repeatable_correct [OF c(1) ent] liftO_def)
  have routes: "\<exists>u. prove_completion_routes (topology_of r js) = Some u"
    if "compile_join_occurrence_plans ?ns (le_joins ?es) (rd_entries r) (rd_gates r) (rd_succ r) req (le_conditional ?es) A = Some (Inr js)" for req js
  proof -
    from that obtain rep where "mapE (compile_join rep (rd_entries r) (rd_gates r) req (le_conditional ?es) A) (le_joins ?es) = Inr js"
      by (auto simp: compile_join_occurrence_plans_def bindR_eq)
    from prove_completion_routes_exact [OF topology_wf [OF w compile_joins_ok(1) [OF w this]]] show ?thesis by blast
  qed
  show ?thesis
    unfolding analyse_control_def Let_def reach A liftO_def option.map bindR_simps
    using g joins routes
    by (auto intro!: bindR_total check_data_order_total [OF c(1)] joint_paths_total [OF w] validate_cycle_exits_total [OF c(1)])
qed

lemma analyse_control_sound:
  assumes w: "wf_resolved r" and a: "analyse_control r = Some (Inr a)"
  shows "analysed r a"
proof -
  let ?ns = "rd_node_ids r" and ?es = "rd_edges r"
  note c = rd_closed [OF w] and ent = wf_resolvedD(3) [OF w]
  let ?act = "activable (rd_entries r) (static_successors (le_direct ?es) (le_conditional ?es)) (le_joins ?es)"
  have reach: "reachable (rd_entries r) (static_successors (le_direct ?es) (le_conditional ?es)) (le_joins ?es) = Some ?act"
    by (rule reachable_correct [OF c(2) ent rd_joins(4) [OF w]])
  obtain A where A: "absolute_activation_levels ?ns (rd_entries r) (rd_succ r) = Some A"
    "\<forall>n k. A n = Some k \<longleftrightarrow> n \<in> set ?ns \<and> level_sets ?ns (rd_entries r) (rd_succ r) n = {k}"
    using absolute_levels_correct [OF c(1) ent] by blast
  have "\<not> (set ?ns - ?act \<noteq> {})" using a unfolding analyse_control_def Let_def reach liftO_def option.map bindR_simps by (auto split: if_splits)
  then have act: "set ?ns \<subseteq> ?act" by blast
  from a obtain g req js where
    g: "guaranteed_sets ?ns (rd_entries r) (rd_gates r) = Some g" "check_guaranteed_data ?ns (rd_data r) g = Inr ()" and
    lev: "ca_levels a = A" "ca_joins a = js" and
    js: "compile_join_occurrence_plans ?ns (le_joins ?es) (rd_entries r) (rd_gates r) (rd_succ r) req (le_conditional ?es) A = Some (Inr js)" and
    routes: "prove_completion_routes (topology_of r js) = Some (Inr (ca_completion_routes a))"
    unfolding analyse_control_def Let_def reach A(1) liftO_def option.map bindR_simps
    by (auto simp: bindR_eq split: if_splits)
  from js obtain rep where "mapE (compile_join rep (rd_entries r) (rd_gates r) req (le_conditional ?es) A) (le_joins ?es) = Inr js"
    by (auto simp: compile_join_occurrence_plans_def bindR_eq)
  note jok = compile_joins_ok [OF w this]
  note T = topology_wf [OF w jok(1)]
  from prove_completion_routes_exact [OF T] routes have "proof_result (topology_of r js) (Inr (ca_completion_routes a))" by auto
  then have "ca_completion_routes a = exposed_routes (topology_of r js) \<and> exposed_routes (topology_of r js) \<noteq> {} \<and>
      \<not> ambiguous_activation (topology_of r js) \<and> \<not> ambiguous_completion (topology_of r js)"
    by (auto simp: proof_result_def)
  then show ?thesis
    unfolding analysed_def Let_def lev rd_history_def
    using act A(2) jok T check_guaranteed_history [OF g(2,1)] by auto
qed

end
