(* ===== verification/Compiler_Plan.thy ===== *)
theory Compiler_Plan
  imports Compiler_Analysis Routed_Runs Session_Progress
begin

text \<open>
  From the analysis to the emitted plan: the control topology of a compiled graph, read off the
  tables that the engine reads, is the one whose frontiers the compiler has explored.
\<close>

section \<open>Topologies up to the order of their tables\<close>

definition same_topology :: "control_topology \<Rightarrow> control_topology \<Rightarrow> bool" where
  "same_topology T U \<longleftrightarrow>
     set (ct_entries T) = set (ct_entries U) \<and> mset (ct_nodes T) = mset (ct_nodes U) \<and> options_of T = options_of U \<and>
     ct_direct T = ct_direct U \<and> (\<forall>n. mset (ct_conditional T n) = mset (ct_conditional U n)) \<and>
     (\<forall>n. set (ct_joins T n) = set (ct_joins U n))"

lemma same_sym: "same_topology T U \<Longrightarrow> same_topology U T"
  by (simp add: same_topology_def)

lemma same_nodes: "same_topology T U \<Longrightarrow> set (ct_nodes T) = set (ct_nodes U)"
  by (auto simp: same_topology_def dest: mset_eq_setD)

lemma same_conditional:
  assumes "same_topology T U"
  shows "set (ct_conditional T n) = set (ct_conditional U n)" "ct_conditional T n = [] \<longleftrightarrow> ct_conditional U n = []"
    "distinct (map fst (ct_conditional T n)) \<longleftrightarrow> distinct (map fst (ct_conditional U n))"
proof -
  have m: "mset (ct_conditional T n) = mset (ct_conditional U n)" using assms by (simp add: same_topology_def)
  show "set (ct_conditional T n) = set (ct_conditional U n)" using m by (rule mset_eq_setD)
  show "ct_conditional T n = [] \<longleftrightarrow> ct_conditional U n = []" using m by auto
  have "mset (map fst (ct_conditional T n)) = mset (map fst (ct_conditional U n))" using m by simp
  then show "distinct (map fst (ct_conditional T n)) \<longleftrightarrow> distinct (map fst (ct_conditional U n))" by (rule mset_eq_imp_distinct_iff)
qed

lemma same_options:
  assumes "same_topology T U"
  shows "set (choice_options T n) = set (choice_options U n)"
  using same_conditional [OF assms, of n] assms by (auto simp: choice_options_def same_topology_def)

lemma same_joins:
  assumes "same_topology T U"
  shows "mset (unique_joins T) = mset (unique_joins U)" "set (unique_joins T) = set (unique_joins U)"
proof -
  show s: "set (unique_joins T) = set (unique_joins U)" using assms same_nodes [OF assms] by (auto simp: unique_joins_def same_topology_def)
  then show "mset (unique_joins T) = mset (unique_joins U)"
    using distinct_unique_joins [of T] distinct_unique_joins [of U] by (simp add: set_eq_iff_mset_eq_distinct)
qed

lemma same_causes:
  assumes s: "same_topology T U"
  shows "mset (causes_of T (ct_nodes T) t) = mset (causes_of U (ct_nodes U) t)"
proof -
  have n: "mset (node_causes T t m) = mset (node_causes U t m)" for m
  proof -
    have "mset (filter (\<lambda>(_, t'). t' = t \<and> t' \<noteq> END_NODE) (ct_conditional T m)) = mset (filter (\<lambda>(_, t'). t' = t \<and> t' \<noteq> END_NODE) (ct_conditional U m))"
      using s by (simp add: same_topology_def mset_filter)
    then show ?thesis using s by (simp add: node_causes_def same_topology_def mset_map)
  qed
  have c: "mset (concat (map (node_causes V t) ns)) = (\<Sum>m\<in>#mset ns. mset (node_causes V t m))" for V ns by (induction ns) simp_all
  have "mset (concat (map (node_causes T t) (ct_nodes T))) = mset (concat (map (node_causes U t) (ct_nodes U)))"
    unfolding c using s n by (simp add: same_topology_def)
  moreover have "mset (filter (\<lambda>j. target_of j = t \<and> t \<noteq> END_NODE) (unique_joins T)) = mset (filter (\<lambda>j. target_of j = t \<and> t \<noteq> END_NODE) (unique_joins U))"
    using same_joins(1) [OF s] by (simp add: mset_filter)
  ultimately show ?thesis by (simp add: causes_of_def mset_map)
qed

lemma same_contested:
  assumes "same_topology T U"
  shows "contested T (ct_nodes T) st c t = contested U (ct_nodes U) st c t"
proof -
  have "mset (filter (fires st c) (causes_of T (ct_nodes T) t)) = mset (filter (fires st c) (causes_of U (ct_nodes U) t))"
    using same_causes [OF assms] by (simp add: mset_filter)
  then have "length (filter (fires st c) (causes_of T (ct_nodes T) t)) = length (filter (fires st c) (causes_of U (ct_nodes U) t))"
    by (rule mset_eq_length)
  then show ?thesis by (simp add: contested_def)
qed

lemma same_step:
  assumes s: "same_topology T U"
  shows "frontier_step T = frontier_step U" "chooses T = chooses U"
proof -
  have "set (causes_of T (ct_nodes T) t) = set (causes_of U (ct_nodes U) t)" for t using same_causes [OF s] by (rule mset_eq_setD)
  then have "activated T (ct_nodes T) = activated U (ct_nodes U)" by (intro ext) (simp add: activated_def same_nodes [OF s])
  moreover show "chooses T = chooses U" by (intro ext) (simp add: chooses_def same_options [OF s])
  ultimately show "frontier_step T = frontier_step U"
    by (intro ext) (simp add: frontier_step_def joins_consistent_def carried_def same_joins(2) [OF s] same_contested [OF s] same_nodes [OF s])
qed

lemma same_reachable_imp:
  assumes s: "same_topology T U" and r: "reachable_frontier T st"
  shows "reachable_frontier U st"
  using r
proof induction
  case initial
  have "{n \<in> set (ct_nodes T). n \<in> set (ct_entries T)} = {n \<in> set (ct_nodes U). n \<in> set (ct_entries U)}"
    using s same_nodes [OF s] by (auto simp: same_topology_def)
  then show ?case using reachable_frontier.initial by metis
next
  case (step st c st')
  then show ?case using reachable_frontier.step same_step(1) [OF s] by metis
qed

lemma same_frontiers:
  assumes s: "same_topology T U"
  shows "exposed_routes T = exposed_routes U" "ambiguous_activation T = ambiguous_activation U" "ambiguous_completion T = ambiguous_completion U"
proof -
  have r: "reachable_frontier T = reachable_frontier U"
    using same_reachable_imp [OF s] same_reachable_imp [OF same_sym [OF s]] by blast
  then have t: "terminal_frontier T = terminal_frontier U" by (intro ext) (simp add: terminal_frontier_def same_step(1) [OF s])
  show "exposed_routes T = exposed_routes U" "ambiguous_completion T = ambiguous_completion U"
    by (simp_all add: exposed_routes_def ambiguous_completion_def t)
  show "ambiguous_activation T = ambiguous_activation U"
    by (simp add: ambiguous_activation_def r same_step(2) [OF s] same_contested [OF s] same_nodes [OF s])
qed

section \<open>The topology of a compiled graph\<close>

definition plan_topology :: "compiled_graph \<Rightarrow> control_topology" where
  "plan_topology g =
     (let P = cg_transition g in
      \<lparr>ct_entries = tp_entries P, ct_route_options = tp_route_options P, ct_direct = (\<lambda>n. set (plan_table (tp_direct_targets P) n)),
       ct_conditional = plan_table (tp_conditional_targets P), ct_joins = plan_joins g\<rparr>)"

lemma plan_table_map: "plan_table (map (\<lambda>n. (n, f n)) ns) n = (if n \<in> set ns then f n else [])"
proof -
  have "map_of (map (\<lambda>n. (n, f n)) ns) n = (if n \<in> set ns then Some (f n) else None)" by (induction ns) auto
  then show ?thesis by (simp add: plan_table_def)
qed

lemma rd_outside:
  assumes w: "wf_resolved r" and n: "n \<notin> set (rd_node_ids r)"
  shows "le_direct (rd_edges r) n = {}" "le_conditional (rd_edges r) n = []"
proof -
  obtain es where es: "rd_edges r = lowered es" "\<forall>e\<in>set es. valid_edge (set (rd_node_ids r)) e" "distinct (conditional_keys es)"
    by (rule wf_resolved_edges [OF w])
  show "le_direct (rd_edges r) n = {}" using es(2) n by (force simp: es(1) lowered_direct valid_edge_def)
  have "set (le_conditional (lowered es) n) = {(rt, t). ConditionalEdge n rt t \<in> set es}" using lowered_conditional [OF es(3), of n] by simp
  moreover have "ConditionalEdge n rt t \<notin> set es" for rt t using es(2) n by (auto simp: valid_edge_def)
  ultimately have "set (le_conditional (lowered es) n) = {}" by simp
  then show "le_conditional (rd_edges r) n = []" by (simp add: es(1))
qed

lemma rd_direct_finite:
  assumes "wf_resolved r"
  shows "finite (le_direct (rd_edges r) n)"
proof -
  have "le_direct (rd_edges r) n \<subseteq> rd_succ r n" by (auto simp: control_successors_def static_successors_def)
  moreover have "n \<in> set (rd_node_ids r) \<Longrightarrow> finite (rd_succ r n)" by (rule closed_finite [OF rd_closed(1) [OF assms]])
  ultimately show ?thesis using rd_outside(1) [OF assms, of n] finite_subset by (cases "n \<in> set (rd_node_ids r)") auto
qed

lemma assemble_plan_ok:
  assumes "assemble_plan d nested r a = Inr (g, outs)"
  obtains ms ps os where "cg_transition g = transition_plan_of d r a ms ps os"
    "cg_nodes g = map (\<lambda>n. (nf_node_id n, compiled_node n)) (rd_nodes r)"
    "cg_nested_graphs g = sort_key fst (map (\<lambda>(n, c). (n, fst c)) nested)" "cg_completion_routes g = ca_completion_routes a"
  using assms by (auto simp: assemble_plan_def bindE_eq_Inr Let_def)

lemma plan_tables:
  assumes t: "cg_transition g = transition_plan_of d r a ms ps os"
  shows "tp_entries (cg_transition g) = rd_entries r"
    "plan_table (tp_direct_targets (cg_transition g)) n = (if n \<in> set (rd_node_ids r) then sorted_list_of_set (le_direct (rd_edges r) n) else [])"
    "plan_table (tp_conditional_targets (cg_transition g)) n = (if n \<in> set (rd_node_ids r) then sort_key fst (le_conditional (rd_edges r) n) else [])"
    "set (plan_joins g n) = (if n \<in> set (rd_node_ids r) then set (joins_by_source (ca_joins a) n) else {})"
    "tp_route_options (cg_transition g) = sort_key fst (rd_route_options r)"
  by (simp_all add: plan_joins_def t transition_plan_of_def Let_def plan_table_map)

lemma plan_same_topology:
  assumes w: "wf_resolved r" and j: "\<forall>j\<in>set (ca_joins a). compiled_from r (ca_levels a) j"
    and t: "cg_transition g = transition_plan_of d r a ms ps os"
  shows "same_topology (topology_of r (ca_joins a)) (plan_topology g)"
proof -
  let ?ns = "set (rd_node_ids r)"
  note tables = plan_tables [OF t]
  have "options_of (topology_of r (ca_joins a)) = options_of (plan_topology g)"
  proof -
    have "map_of (rd_route_options r) = map_of (sort_key fst (rd_route_options r))"
    proof -
      have "mset (map fst (sort_key fst (rd_route_options r))) = mset (map fst (rd_route_options r))" by simp
      then have "distinct (map fst (sort_key fst (rd_route_options r)))" using wf_resolvedD(6) [OF w] mset_eq_imp_distinct_iff by blast
      then show ?thesis using wf_resolvedD(6) [OF w] by (simp add: map_of_inject_set)
    qed
    then show ?thesis by (intro ext) (simp add: options_of_def topology_of_def plan_topology_def Let_def tables(5))
  qed
  moreover have "le_direct (rd_edges r) n = set (plan_table (tp_direct_targets (cg_transition g)) n)" for n
    unfolding tables(2) using rd_outside(1) [OF w, of n] rd_direct_finite [OF w, of n] by (cases "n \<in> ?ns") simp_all
  moreover have "mset (le_conditional (rd_edges r) n) = mset (plan_table (tp_conditional_targets (cg_transition g)) n)" for n
    unfolding tables(3) using rd_outside(2) [OF w, of n] by simp
  moreover have "set (joins_by_source (ca_joins a) n) = set (plan_joins g n)" for n
  proof -
    have "n \<in> ?ns" if "k \<in> set (joins_by_source (ca_joins a) n)" for k
      using that j by (auto simp: joins_by_source_def compiled_from_def wf_join_def sources_of_def)
    then have "n \<in> ?ns \<or> set (joins_by_source (ca_joins a) n) = {}" by (cases "joins_by_source (ca_joins a) n") auto
    then show ?thesis unfolding tables(4) by auto
  qed
  ultimately show ?thesis
    by (simp add: same_topology_def topology_of_def plan_topology_def Let_def tables(1,5) ct_nodes_def mset_map fun_eq_iff)
qed

section \<open>Joins of a compiled plan\<close>

lemma compiled_joins_checked:
  assumes j: "\<forall>j\<in>set (ca_joins a). compiled_from r (ca_levels a) j" and t: "cg_transition g = transition_plan_of d r a ms ps os"
  shows "checked_joins g"
  using j by (auto simp: checked_joins_def t transition_plan_of_def Let_def list_all_iff joins_by_source_def compiled_from_def)

lemma plan_succ_control:
  assumes w: "wf_resolved r" and j: "\<forall>j\<in>set (ca_joins a). compiled_from r (ca_levels a) j"
    and t: "cg_transition g = transition_plan_of d r a ms ps os" and m: "m \<in> plan_succ g n" "m \<noteq> END_NODE"
  shows "n \<in> set (rd_node_ids r) \<and> m \<in> rd_succ r n"
proof -
  note tables = plan_tables [OF t]
  have n: "n \<in> set (rd_node_ids r)" using m(1) by (auto simp: plan_succ_def tables split: if_splits)
  from m(1) consider "m \<in> le_direct (rd_edges r) n" | rt where "(rt, m) \<in> set (le_conditional (rd_edges r) n)"
    | k where "k \<in> set (joins_by_source (ca_joins a) n)" "m = join_target (cj_identity k)"
    using n rd_direct_finite [OF w, of n] by (auto simp: plan_succ_def tables)
  then have "m \<in> rd_succ r n"
  proof cases
    case 1
    then show ?thesis by (simp add: control_successors_def static_successors_def)
  next
    case (2 rt)
    then show ?thesis using m(2) by (force simp: control_successors_def static_successors_def)
  next
    case (3 k)
    then have "(join_sources (cj_identity k), m) \<in> set (le_joins (rd_edges r))" "n \<in> set (join_sources (cj_identity k))"
      using j by (auto simp: joins_by_source_def compiled_from_def)
    then show ?thesis using m(2) by (force simp: control_successors_def)
  qed
  with n show ?thesis by blast
qed

lemma plan_level_path:
  assumes w: "wf_resolved r" and j: "\<forall>j\<in>set (ca_joins a). compiled_from r (ca_levels a) j"
    and t: "cg_transition g = transition_plan_of d r a ms ps os" and l: "plan_level g k n" and n: "n \<noteq> END_NODE"
  shows "k \<in> path_levels (rd_entries r) (rd_succ r) n"
  using l n
proof induction
  case (entry n)
  then show ?case by (force simp: plan_tables(1) [OF t] path_levels_def)
next
  case (step k n m)
  note s = plan_succ_control [OF w j t step.hyps(2) step.prems]
  have "n \<noteq> END_NODE" using s wf_resolvedD(2) [OF w] by blast
  then obtain i e where "k = int i" "e \<in> set (rd_entries r)" "(e, n) \<in> step_rel (rd_succ r) ^^ i" using step.IH by (auto simp: path_levels_def)
  then show ?case using s by (force simp: path_levels_def step_rel_def intro!: exI [of _ "Suc i"])
qed

lemma compiled_plan_timed:
  assumes w: "wf_resolved r" and an: "analysed r a" and t: "cg_transition g = transition_plan_of d r a ms ps os"
  shows "timed_plan g"
proof -
  have j: "\<forall>j\<in>set (ca_joins a). compiled_from r (ca_levels a) j" using an by (simp add: analysed_def Let_def)
  have lv: "ca_levels a n = Some k \<longleftrightarrow> n \<in> set (rd_node_ids r) \<and> level_sets (rd_node_ids r) (rd_entries r) (rd_succ r) n = {k}" for n k
    using an by (simp add: analysed_def Let_def)
  have one: "\<exists>l. \<forall>k. plan_level g k s \<longrightarrow> k = l" if "ca_levels a s \<noteq> None" for s
  proof -
    from that obtain l where "ca_levels a s = Some l" by blast
    then have s: "s \<in> set (rd_node_ids r)" "level_sets (rd_node_ids r) (rd_entries r) (rd_succ r) s = {l}" using lv by blast+
    then have "path_levels (rd_entries r) (rd_succ r) s = {l}" by (auto simp: level_sets_def split: if_splits)
    moreover have "s \<noteq> END_NODE" using s(1) wf_resolvedD(2) [OF w] by blast
    ultimately show ?thesis using plan_level_path [OF w j t] by blast
  qed
  have "timed_join g k" if "k \<in> set (ca_joins a)" for k
  proof -
    have "(\<forall>i\<in>set (map snd (cj_offsets k)). i = 1) \<or> (\<forall>s\<in>set (join_sources (cj_identity k)). ca_levels a s \<noteq> None)"
      using j that by (simp add: compiled_from_def)
    then show ?thesis unfolding timed_join_def using one by blast
  qed
  then show ?thesis
    by (auto simp: timed_plan_def t transition_plan_of_def Let_def joins_by_source_def)
qed

end
