(* ===== verification/Compiler_Family.thy ===== *)
theory Compiler_Family
  imports Compiler_Plan
begin

text \<open>
  Validation and compilation of a family of definitions. The model tells definition objects apart by
  their number; \<open>coherent\<close> says that a number stands for one definition, as object identity does.
\<close>

section \<open>Families\<close>

fun family :: "graph_definition \<Rightarrow> graph_definition set" and families :: "node_definition list \<Rightarrow> graph_definition set" where
  "family d = insert d (families (gd_nodes d))"
| "families [] = {}"
| "families (n # ns) = (case n of CallableNodeDefinition _ _ _ _ _ \<Rightarrow> {} | NestedGraphNodeDefinition _ g _ \<Rightarrow> family g) \<union> families ns"

declare family.simps [simp del]

definition coherent :: "graph_definition set \<Rightarrow> bool" where
  "coherent F \<longleftrightarrow> (\<forall>x\<in>F. \<forall>y\<in>F. gd_object x = gd_object y \<longrightarrow> x = y)"

lemma family_self [simp]: "d \<in> family d"
  by (simp add: family.simps)

section \<open>Validation reaches every definition\<close>

definition visits_ok :: "graph_definition set \<Rightarrow> definition_visits \<Rightarrow> bool" where
  "visits_ok F V \<longleftrightarrow> (\<forall>k i st. V k = Some (i, st) \<longrightarrow>
     (\<forall>x\<in>F. gd_object x = i \<longrightarrow> st = VALIDATED \<longrightarrow> (\<forall>y\<in>family x. valid_shape y)))"

lemma visits_ok_update:
  assumes "visits_ok F V" "coherent F" "d \<in> F" "st = VALIDATED \<longrightarrow> (\<forall>y\<in>family d. valid_shape y)"
  shows "visits_ok F (V(k \<mapsto> (gd_object d, st)))"
  using assms unfolding visits_ok_def coherent_def by (auto split: if_splits)

lemma validated_shapes:
  "coherent F \<Longrightarrow> validate_definition d V = Inr V' \<Longrightarrow> family d \<subseteq> F \<Longrightarrow> visits_ok F V \<Longrightarrow>
     visits_ok F V' \<and> (\<forall>y\<in>family d. valid_shape y)"
  "coherent F \<Longrightarrow> validate_nested ns V = Inr V' \<Longrightarrow> families ns \<subseteq> F \<Longrightarrow> visits_ok F V \<Longrightarrow>
     visits_ok F V' \<and> (\<forall>y\<in>families ns. valid_shape y)"
proof (induction d V and ns V arbitrary: V' and V' rule: validate_definition_validate_nested.induct)
  case (1 d V)
  have d: "d \<in> F" using "1.prems"(3) by (simp add: family.simps)
  show ?case
  proof (cases "V (definition_key d)")
    case (Some e)
    obtain i st where e: "e = (i, st)" by (cases e)
    with "1.prems"(2) Some have "i = gd_object d" "st \<noteq> VISITING" "V' = V"
      by (auto simp: bindE_eq_Inr if_Inl_eq_Inr)
    moreover from this(2) have "st = VALIDATED" by (cases st) simp_all
    ultimately show ?thesis using "1.prems"(4) Some e d unfolding visits_ok_def by blast
  next
    case None
    with "1.prems"(2) obtain V1 where i: "require_graph_identity (gd_definition_id d) ''graph'' = Inr ()" "\<not> gd_version d < 1"
      and own: "validate_own d = Inr ()"
      and n: "validate_nested (gd_nodes d) (V(definition_key d \<mapsto> (gd_object d, VISITING))) = Inr V1"
      and V': "V' = V1(definition_key d \<mapsto> (gd_object d, VALIDATED))"
      by (auto simp: bindE_eq_Inr if_Inl_eq_Inr)
    have "visits_ok F (V(definition_key d \<mapsto> (gd_object d, VISITING)))" by (rule visits_ok_update [OF "1.prems"(4,1) d]) simp
    from "1.IH" [OF i(1,2) None own "1.prems"(1) n _ this] "1.prems"(3)
    have v: "visits_ok F V1" "\<forall>y\<in>families (gd_nodes d). valid_shape y" by (simp_all add: family.simps)
    then have f: "\<forall>y\<in>family d. valid_shape y" using validate_own_shape [OF own] by (simp add: family.simps)
    have "visits_ok F V'" unfolding V' by (rule visits_ok_update [OF v(1) "1.prems"(1) d]) (use f in blast)
    with f show ?thesis by blast
  qed
next
  case (2 V)
  then show ?case by simp
next
  case (3 n ns V)
  show ?case
  proof (cases n)
    case (CallableNodeDefinition a b c d e)
    with "3.prems" "3.IH" show ?thesis by (auto simp: bindE_eq_Inr)
  next
    case (NestedGraphNodeDefinition i g inputs)
    with "3.prems"(2) obtain V1 where v: "validate_definition g V = Inr V1" "validate_nested ns V1 = Inr V'" by (auto simp: bindE_eq_Inr)
    from "3.IH"(1) [OF NestedGraphNodeDefinition "3.prems"(1) v(1) _ "3.prems"(4)] "3.prems"(3) NestedGraphNodeDefinition
    have 1: "visits_ok F V1" "\<forall>y\<in>family g. valid_shape y" by simp_all
    have "visits_ok F V' \<and> (\<forall>y\<in>families ns. valid_shape y)"
      by (rule "3.IH"(2)) (use v 1 "3.prems" NestedGraphNodeDefinition in \<open>simp_all add: bindE_eq_Inr\<close>)
    then show ?thesis using 1 NestedGraphNodeDefinition by auto
  qed
qed

lemma validate_graph_shapes:
  assumes "validate_graph d = Inr ()" "coherent (family d)"
  shows "\<forall>y\<in>family d. valid_shape y"
proof -
  from assms(1) obtain V where "validate_definition d (\<lambda>_. None) = Inr V" by (auto simp: validate_graph_def bindE_eq_Inr)
  then show ?thesis using validated_shapes(1) [OF assms(2)] by (auto simp: visits_ok_def)
qed

section \<open>Compiled definitions\<close>

definition nested_ids :: "graph_definition \<Rightarrow> string list" where
  "nested_ids d = map nf_node_id (filter is_nested (gd_nodes d))"

inductive compiled_as :: "graph_definition \<Rightarrow> compiled_definition \<Rightarrow> bool" where
  "valid_shape d \<Longrightarrow> map fst nested = nested_ids d \<Longrightarrow>
   (\<And>n c. (n, c) \<in> set nested \<Longrightarrow> \<exists>h. compiled_as h c) \<Longrightarrow>
   resolve_definition d nested = Inr r \<Longrightarrow> wf_resolved r \<Longrightarrow> analyse_control r = Some (Inr a) \<Longrightarrow> analysed r a \<Longrightarrow>
   assemble_plan d nested r a = Inr p \<Longrightarrow> compiled_as d p"

inductive_cases compiled_asE: "compiled_as d p"

lemma exposed_finite: "wf_topology T \<Longrightarrow> finite (exposed_routes T)"
  by (rule finite_subset [OF exposed_sub]) (simp_all add: all_routes_def)

lemma compiled_as_routes:
  assumes "compiled_as d (g, outs)"
  shows "finite (cg_completion_routes g) \<and> cg_completion_routes g \<noteq> {}"
  using assms
proof (rule compiled_asE)
  fix nested r a
  assume a: "analysed r a" and p: "assemble_plan d nested r a = Inr (g, outs)"
  obtain "cg_completion_routes g = ca_completion_routes a" by (rule assemble_plan_ok [OF p])
  then show ?thesis using a exposed_finite by (simp add: analysed_def Let_def)
qed

lemma nested_routes_ok: "(\<And>n c. (n, c) \<in> set nested \<Longrightarrow> \<exists>h. compiled_as h c) \<Longrightarrow> routes_ok nested"
proof -
  assume c: "\<And>n c. (n, c) \<in> set nested \<Longrightarrow> \<exists>h. compiled_as h c"
  have "finite (cg_completion_routes (fst p)) \<and> cg_completion_routes (fst p) \<noteq> {}" if "(n, p) \<in> set nested" for n p
    using c [OF that] compiled_as_routes [of _ "fst p" "snd p"] by auto
  then show "routes_ok nested" by (auto simp: routes_ok_def)
qed

lemma compile_definition_correct:
  assumes v: "valid_shape d" and f: "finite_nodes (gd_nodes d)" and n: "map fst nested = nested_ids d"
    and c: "\<And>n c. (n, c) \<in> set nested \<Longrightarrow> \<exists>h. compiled_as h c"
  shows "\<exists>u. compile_definition d nested = Some u" "compile_definition d nested = Some (Inr p) \<Longrightarrow> compiled_as d p"
proof -
  have ok: "routes_ok nested" using nested_routes_ok c by blast
  note wf = resolve_definition_wf(1) [OF v f ok]
  show "\<exists>u. compile_definition d nested = Some u"
    unfolding compile_definition_def by (intro bindR_total) (auto intro: analyse_control_total wf)
  assume "compile_definition d nested = Some (Inr p)"
  then obtain r a where r: "resolve_definition d nested = Inr r" "analyse_control r = Some (Inr a)" "assemble_plan d nested r a = Inr p"
    by (auto simp: compile_definition_def bindR_eq)
  show "compiled_as d p"
    by (rule compiled_as.intros [OF v n c r(1) wf [OF r(1)] r(2) analyse_control_sound [OF wf [OF r(1)] r(2)] r(3)])
qed

section \<open>The compiler of a family\<close>

definition cache_ok :: "graph_definition set \<Rightarrow> compiler_cache \<Rightarrow> bool" where
  "cache_ok F cache \<longleftrightarrow> (\<forall>x\<in>F. \<forall>p. cache (gd_object x) = Some p \<longrightarrow> compiled_as x p)"

lemma finite_definition_nodes: "finite_definition d \<Longrightarrow> finite_nodes (gd_nodes d)"
  by simp

lemma compile_family:
  "coherent F \<Longrightarrow> family d \<subseteq> F \<Longrightarrow> (\<forall>y\<in>family d. valid_shape y) \<Longrightarrow> finite_nodes (gd_nodes d) \<Longrightarrow> cache_ok F cache \<Longrightarrow>
     (\<exists>u. compile_validated d cache = Some u) \<and>
     (\<forall>p cache'. compile_validated d cache = Some (Inr (p, cache')) \<longrightarrow> compiled_as d p \<and> cache_ok F cache')"
  "coherent F \<Longrightarrow> families ns \<subseteq> F \<Longrightarrow> (\<forall>y\<in>families ns. valid_shape y) \<Longrightarrow> finite_nodes ns \<Longrightarrow> cache_ok F cache \<Longrightarrow>
     (\<exists>u. compile_nested ns cache = Some u) \<and>
     (\<forall>nested cache'. compile_nested ns cache = Some (Inr (nested, cache')) \<longrightarrow>
       map fst nested = map nf_node_id (filter is_nested ns) \<and> (\<forall>(n, c)\<in>set nested. \<exists>h. compiled_as h c) \<and> cache_ok F cache')"
proof (induction d cache and ns cache rule: compile_validated_compile_nested.induct)
  case (1 d cache)
  have d: "d \<in> F" "valid_shape d" using "1.prems"(2,3) by (auto simp: family.simps)
  show ?case
  proof (cases "cache (gd_object d)")
    case (Some c)
    then have "compiled_as d c" using "1.prems"(5) d(1) by (simp only: cache_ok_def)
    then show ?thesis using "1.prems"(5) Some by simp
  next
    case None
    have n: "(\<exists>u. compile_nested (gd_nodes d) cache = Some u) \<and>
     (\<forall>nested cache'. compile_nested (gd_nodes d) cache = Some (Inr (nested, cache')) \<longrightarrow>
       map fst nested = nested_ids d \<and> (\<forall>(n, c)\<in>set nested. \<exists>h. compiled_as h c) \<and> cache_ok F cache')"
      using "1.IH" [OF None] "1.prems" by (simp add: family.simps nested_ids_def)
    have c: "(\<exists>u. compile_definition d nested = Some u) \<and> (\<forall>p. compile_definition d nested = Some (Inr p) \<longrightarrow> compiled_as d p)"
      if "compile_nested (gd_nodes d) cache = Some (Inr (nested, cache'))" for nested cache'
      using compile_definition_correct [OF d(2) "1.prems"(4), of nested] n that by blast
    have "\<exists>u. compile_validated d cache = Some u"
      unfolding compile_validated.simps None option.case using n c
      by (intro bindR_total) (auto split: prod.splits intro!: bindR_total)
    moreover have "compiled_as d p \<and> cache_ok F cache'" if "compile_validated d cache = Some (Inr (p, cache'))" for p cache'
    proof -
      from that None obtain nested cache1 where "compile_nested (gd_nodes d) cache = Some (Inr (nested, cache1))"
        "compile_definition d nested = Some (Inr p)" "cache' = cache1(gd_object d \<mapsto> p)" by (auto simp: bindR_eq)
      then have "compiled_as d p" "cache_ok F cache1" "cache' = cache1(gd_object d \<mapsto> p)" using n c by blast+
      then show ?thesis using "1.prems"(1) d(1) by (auto simp: cache_ok_def coherent_def)
    qed
    ultimately show ?thesis by blast
  qed
next
  case (2 cache)
  then show ?case by simp
next
  case (3 n ns cache)
  show ?case
  proof (cases n)
    case (CallableNodeDefinition a b c d e)
    then show ?thesis using "3.IH"(1) [OF CallableNodeDefinition] "3.prems" by (simp add: is_nested_def)
  next
    case (NestedGraphNodeDefinition i g inputs)
    have g: "(\<exists>u. compile_validated g cache = Some u) \<and>
     (\<forall>p cache'. compile_validated g cache = Some (Inr (p, cache')) \<longrightarrow> compiled_as g p \<and> cache_ok F cache')"
      using "3.IH"(2) [OF NestedGraphNodeDefinition] "3.prems" NestedGraphNodeDefinition by simp
    have r: "(\<exists>u. compile_nested ns cache1 = Some u) \<and>
     (\<forall>nested cache'. compile_nested ns cache1 = Some (Inr (nested, cache')) \<longrightarrow>
       map fst nested = map nf_node_id (filter is_nested ns) \<and> (\<forall>(n, c)\<in>set nested. \<exists>h. compiled_as h c) \<and> cache_ok F cache')"
      if "compile_validated g cache = Some (Inr (p, cache1))" for p cache1
    proof -
      have "cache_ok F cache1" using g that by blast
      then show ?thesis using "3.IH"(3) [OF NestedGraphNodeDefinition that refl] "3.prems" NestedGraphNodeDefinition
        by (simp del: compile_validated.simps)
    qed
    have "\<exists>u. compile_nested (n # ns) cache = Some u"
      unfolding compile_nested.simps NestedGraphNodeDefinition node_definition.case using g r
      by (intro bindR_total) (auto split: prod.splits intro!: bindR_total)
    moreover have "map fst nested = map nf_node_id (filter is_nested (n # ns)) \<and> (\<forall>(n, c)\<in>set nested. \<exists>h. compiled_as h c) \<and> cache_ok F cache'"
      if nested: "compile_nested (n # ns) cache = Some (Inr (nested, cache'))" for nested cache'
    proof -
      from nested NestedGraphNodeDefinition obtain p cache1 rest where p: "compile_validated g cache = Some (Inr (p, cache1))"
        and rest: "compile_nested ns cache1 = Some (Inr (rest, cache'))" "nested = (i, p) # rest"
        by (auto simp: bindR_eq)
      then show ?thesis using g r [OF p] NestedGraphNodeDefinition by (auto simp: is_nested_def)
    qed
    ultimately show ?thesis by blast
  qed
qed

lemma compile_graph_correct:
  assumes c: "coherent (family d)" and f: "finite_definition d"
  shows "\<exists>u. compile_graph d (\<lambda>_. None) = Some u"
    "compile_graph d (\<lambda>_. None) = Some (Inr (p, cache)) \<Longrightarrow> compiled_as d p"
proof -
  have k: "(\<exists>u. compile_validated d (\<lambda>_. None) = Some u) \<and>
     (\<forall>p cache'. compile_validated d (\<lambda>_. None) = Some (Inr (p, cache')) \<longrightarrow> compiled_as d p \<and> cache_ok (family d) cache')"
    if "validate_graph d = Inr ()"
    using compile_family(1) [OF c order.refl validate_graph_shapes [OF that c], of "\<lambda>_. None"] f by (simp add: cache_ok_def)
  show "\<exists>u. compile_graph d (\<lambda>_. None) = Some u"
    unfolding compile_graph_def using k by (intro bindR_total) auto
  show "compiled_as d p" if "compile_graph d (\<lambda>_. None) = Some (Inr (p, cache))"
    using that k by (auto simp: compile_graph_def bindR_eq)
qed

end
