(* ===== verification/Compiler_Properties.thy ===== *)
theory Compiler_Properties
  imports Compiler_Family
begin

text \<open>
  What the compiler promises of every plan it emits, nested plans included.
\<close>

section \<open>Facts of a compiled graph\<close>

lemma same_wf:
  assumes s: "same_topology T U" and T: "wf_topology T"
  shows "wf_topology U"
proof -
  have d: "distinct (ct_nodes U)" using T s mset_eq_imp_distinct_iff by (auto simp: wf_topology_def same_topology_def)
  have "ct_direct U = ct_direct T" "options_of U = options_of T" "\<And>n. set (ct_joins U n) = set (ct_joins T n)"
    using s by (simp_all add: same_topology_def)
  then show ?thesis
    using T d unfolding wf_topology_def same_nodes [OF s, symmetric] by (simp add: same_conditional [OF same_sym [OF s]])
qed

lemma compiled_frontiers:
  assumes "compiled_as d (g, outs)"
  shows "wf_topology (plan_topology g)" "cg_completion_routes g = exposed_routes (plan_topology g)" "exposed_routes (plan_topology g) \<noteq> {}"
    "\<not> ambiguous_activation (plan_topology g)" "\<not> ambiguous_completion (plan_topology g)"
proof -
  from assms obtain nested r a where w: "wf_resolved r" and a: "analysed r a" and p: "assemble_plan d nested r a = Inr (g, outs)"
    by (rule compiled_asE)
  obtain ms ps os where t: "cg_transition g = transition_plan_of d r a ms ps os" "cg_completion_routes g = ca_completion_routes a"
    by (rule assemble_plan_ok [OF p])
  have j: "\<forall>j\<in>set (ca_joins a). compiled_from r (ca_levels a) j" using a by (simp add: analysed_def Let_def)
  note s = plan_same_topology [OF w j t(1)]
  show "wf_topology (plan_topology g)" "cg_completion_routes g = exposed_routes (plan_topology g)" "exposed_routes (plan_topology g) \<noteq> {}"
    "\<not> ambiguous_activation (plan_topology g)" "\<not> ambiguous_completion (plan_topology g)"
    using same_wf [OF s] same_frontiers [OF s] t(2) a by (simp_all add: analysed_def Let_def)
qed

lemma compiled_node_callable: "is_callable (compiled_node n) \<longleftrightarrow> \<not> is_nested n"
  by (cases n) (simp_all add: compiled_node_def is_nested_def is_callable_def)

lemma compiled_plan:
  assumes "compiled_as d (g, outs)"
  shows "plan_kinds g" "checked_joins g" "timed_plan g"
    "map fst (cg_nodes g) = sorted_list_of_set (nf_node_id ` set (gd_nodes d))"
    "list_all (\<lambda>ids. ids = map fst (cg_nodes g)) [map fst (tp_direct_targets (cg_transition g)), map fst (tp_conditional_targets (cg_transition g)),
       map fst (tp_route_options (cg_transition g)), map fst (tp_joins_by_source (cg_transition g)),
       map fst (tp_activation_gates (cg_transition g))]"
proof -
  from assms obtain nested r a where v: "valid_shape d" and n: "map fst nested = nested_ids d" and res: "resolve_definition d nested = Inr r"
    and w: "wf_resolved r" and a: "analysed r a" and p: "assemble_plan d nested r a = Inr (g, outs)" by (rule compiled_asE)
  obtain ms ps os where t: "cg_transition g = transition_plan_of d r a ms ps os" "cg_nodes g = map (\<lambda>n. (nf_node_id n, compiled_node n)) (rd_nodes r)"
    "cg_nested_graphs g = sort_key fst (map (\<lambda>(n, c). (n, fst c)) nested)" by (rule assemble_plan_ok [OF p])
  have j: "\<forall>j\<in>set (ca_joins a). compiled_from r (ca_levels a) j" using a by (simp add: analysed_def Let_def)
  show "checked_joins g" by (rule compiled_joins_checked [OF j t(1)])
  show "timed_plan g" by (rule compiled_plan_timed [OF w a t(1)])
  have ids: "map fst (cg_nodes g) = rd_node_ids r" by (simp add: t(2) rd_node_ids_def comp_def)
  have nodes: "rd_nodes r = sort_key nf_node_id (map (order_resources (gd_resources d)) (gd_nodes d))"
    using res by (auto simp: resolve_definition_def Let_def bindE_eq_Inr)
  have k: "is_nested (order_resources rs m) = is_nested m" for rs m by (cases m) (simp_all add: order_resources_def is_nested_def)
  have "fst ` set nested = nf_node_id ` {m \<in> set (gd_nodes d). is_nested m}" using n by (metis list.set_map nested_ids_def set_filter)
  then have "set (map fst (cg_nested_graphs g)) = set (map fst (filter (\<lambda>(_, c). \<not> is_callable c) (cg_nodes g)))"
  proof -
    have l: "set (map fst (cg_nested_graphs g)) = fst ` set nested" unfolding t(3) by (force simp: image_iff)
    have "fst ` {x \<in> (\<lambda>n. (nf_node_id n, compiled_node n)) ` A. \<not> is_callable (snd x)} = nf_node_id ` {n \<in> A. is_nested n}" for A
      using compiled_node_callable by force
    then have "set (map fst (filter (\<lambda>(_, c). \<not> is_callable c) (cg_nodes g))) = nf_node_id ` {n \<in> set (rd_nodes r). is_nested n}"
      unfolding t(2) by (simp add: split_def)
    also have "\<dots> = nf_node_id ` {m \<in> set (gd_nodes d). is_nested m}"
    proof -
      have "{n \<in> set (rd_nodes r). is_nested n} = order_resources (gd_resources d) ` {m \<in> set (gd_nodes d). is_nested m}"
        using k unfolding nodes by auto
      then show ?thesis by (simp add: image_image)
    qed
    finally show ?thesis using l \<open>fst ` set nested = _\<close> by simp
  qed
  then show "plan_kinds g" using wf_resolvedD(1) [OF w] by (simp add: plan_kinds_def ids)
  have sorted: "sorted (rd_node_ids r)" by (simp add: rd_node_ids_def nodes)
  show "map fst (cg_nodes g) = sorted_list_of_set (nf_node_id ` set (gd_nodes d))"
    unfolding ids using sorted_distinct_set_unique [OF sorted wf_resolvedD(1) [OF w], of "sorted_list_of_set (nf_node_id ` set (gd_nodes d))"]
    by (simp add: rd_node_ids_def nodes image_image)
  have "map fst (sort_key fst (rd_route_options r)) = rd_node_ids r"
  proof (rule sorted_distinct_set_unique [OF _ _ sorted wf_resolvedD(1) [OF w]])
    have "mset (map fst (sort_key fst (rd_route_options r))) = mset (map fst (rd_route_options r))" by simp
    then show "distinct (map fst (sort_key fst (rd_route_options r)))" using wf_resolvedD(6) [OF w] mset_eq_imp_distinct_iff by blast
    show "set (map fst (sort_key fst (rd_route_options r))) = set (rd_node_ids r)" using wf_resolvedD(7) [OF w] by simp
  qed simp
  then show "list_all (\<lambda>ids. ids = map fst (cg_nodes g)) [map fst (tp_direct_targets (cg_transition g)), map fst (tp_conditional_targets (cg_transition g)),
       map fst (tp_route_options (cg_transition g)), map fst (tp_joins_by_source (cg_transition g)),
       map fst (tp_activation_gates (cg_transition g))]"
    unfolding ids by (simp add: t(1) transition_plan_of_def Let_def comp_def)
qed

lemma compiled_at_scope:
  assumes "compiled_as d (g, outs)" "compiled_graph_at_scope g scope = Inr h"
  shows "\<exists>e out. compiled_as e (h, out)"
  using assms
proof (induction scope arbitrary: d g outs)
  case (Cons n scope)
  from Cons.prems(2) obtain k where k: "map_of (cg_nested_graphs g) n = Some k" "compiled_graph_at_scope k scope = Inr h" by (auto split: option.splits)
  from Cons.prems(1) obtain nested r a where c: "\<forall>n c. (n, c) \<in> set nested \<longrightarrow> (\<exists>h. compiled_as h c)" and p: "assemble_plan d nested r a = Inr (g, outs)"
    by (rule compiled_asE) blast
  obtain "cg_nested_graphs g = sort_key fst (map (\<lambda>(n, c). (n, fst c)) nested)" by (rule assemble_plan_ok [OF p])
  with k(1) obtain q where "(n, q) \<in> set nested" "fst q = k" by (auto dest!: map_of_SomeD)
  with c obtain e where "compiled_as e (k, snd q)" by (metis prod.collapse)
  from Cons.IH [OF this k(2)] show ?case .
qed auto

section \<open>Sample definitions\<close>

definition solo_definition :: graph_definition where
  "solo_definition = GraphDefinition 0 ''solo'' 1
     [CallableNodeDefinition ''a'' [(''x'', ValueSourceRef (GraphInputRef ''x'' (NominalTypeDescriptor 0 ''str'')))]
        [(''y'', NominalTypeDescriptor 1 ''str'')] [] {''done''}]
     [] [] [(''out'', NodeOutputRef ''a'' ''y'' None)] [] None"

text \<open>A graph whose only node is a nested graph.\<close>

definition outer_definition :: graph_definition where
  "outer_definition = GraphDefinition 1 ''outer'' 1
     [NestedGraphNodeDefinition ''n'' solo_definition [(''x'', ValueSourceRef (GraphInputRef ''x'' (NominalTypeDescriptor 0 ''str'')))]]
     [] [] [(''out'', NodeOutputRef ''n'' ''out'' None)] [] None"

lemma outer_family: "family outer_definition = {outer_definition, solo_definition}"
  by (simp add: family.simps outer_definition_def solo_definition_def)

lemma outer_coherent: "coherent (family outer_definition)" "finite_definition outer_definition"
  unfolding outer_family by (simp_all add: coherent_def outer_definition_def solo_definition_def)

lemma outer_compiled:
  "case compile_graph outer_definition (\<lambda>_. None) of
     Some (Inr ((g, _), _)) \<Rightarrow> (case compiled_graph_at_scope g [''n''] of Inr h \<Rightarrow> cg_completion_routes h = {Some ''done''} | _ \<Rightarrow> False)
   | _ \<Rightarrow> False"
  by code_simp

section \<open>Properties\<close>

text \<open>
  C9. The compiler always returns. For every finite family of definitions, valid or not, each loop
  of validation and compilation ends: the searches, the guaranteed-producer iteration, the level
  iteration, the dependency order and the symbolic frontier proof with its fixed point. The result
  is a plan or an error.
\<close>

theorem compile_graph_terminates:
  assumes "coherent (family d)" and "finite_definition d"
  shows "\<exists>result. compile_graph d (\<lambda>_. None) = Some result"
  using compile_graph_correct(1) [OF assms] .

theorem compile_graph_terminates_witness: "\<exists>result. compile_graph outer_definition (\<lambda>_. None) = Some result"
  by (rule compile_graph_terminates [OF outer_coherent])

text \<open>
  C8. The completion routes of a compiled graph, and of every graph nested in it, are exact. In the
  frontier system that the plan's own tables describe (active nodes, route choices, joins with their
  waiting arrivals), the routes that some terminal frontier exposes are exactly the routes the plan
  records; there is at least one; no reachable frontier activates a target twice; and no terminal
  frontier exposes two routes.
\<close>

theorem compiled_routes_exact:
  assumes "coherent (family d)" and "finite_definition d" and "compile_graph d (\<lambda>_. None) = Some (Inr ((g, outs), cache))"
    and "compiled_graph_at_scope g scope = Inr h"
  shows "wf_topology (plan_topology h) \<and> cg_completion_routes h = exposed_routes (plan_topology h) \<and> exposed_routes (plan_topology h) \<noteq> {} \<and>
    \<not> ambiguous_activation (plan_topology h) \<and> \<not> ambiguous_completion (plan_topology h)"
proof -
  have "compiled_as d (g, outs)" by (rule compile_graph_correct(2) [OF assms(1-3)])
  then obtain e out' where "compiled_as e (h, out')" using compiled_at_scope assms(4) by blast
  then show ?thesis using compiled_frontiers by blast
qed

theorem compiled_routes_exact_witness:
  "\<exists>g h. compiled_graph_at_scope g [''n''] = Inr h \<and> cg_completion_routes h = {Some ''done''} \<and> exposed_routes (plan_topology h) = {Some ''done''}"
proof -
  from outer_compiled obtain g outs cache h where c: "compile_graph outer_definition (\<lambda>_. None) = Some (Inr ((g, outs), cache))"
    and h: "compiled_graph_at_scope g [''n''] = Inr h" "cg_completion_routes h = {Some ''done''}"
    by (auto split: option.splits sum.splits prod.splits)
  from compiled_routes_exact [OF outer_coherent c h(1)] h show ?thesis by auto
qed

text \<open>
  C10. Compiled plans are what the engine assumes. In every graph of a compiled family the nested
  graphs belong to exactly the nested nodes, the constructors accept every join, every join is timed
  (it waits one step for all its sources, or each source has one activation level), and all control
  tables are keyed by the node identities in order.
\<close>

theorem compiled_plan_sound:
  assumes "coherent (family d)" and "finite_definition d" and "compile_graph d (\<lambda>_. None) = Some (Inr ((g, outs), cache))"
    and "compiled_graph_at_scope g scope = Inr h"
  shows "plan_kinds h \<and> checked_joins h \<and> timed_plan h \<and> sorted (map fst (cg_nodes h)) \<and>
    list_all (\<lambda>ids. ids = map fst (cg_nodes h)) [map fst (tp_direct_targets (cg_transition h)), map fst (tp_conditional_targets (cg_transition h)),
       map fst (tp_route_options (cg_transition h)), map fst (tp_joins_by_source (cg_transition h)),
       map fst (tp_activation_gates (cg_transition h))]"
proof -
  have "compiled_as d (g, outs)" by (rule compile_graph_correct(2) [OF assms(1-3)])
  then obtain e out' where c: "compiled_as e (h, out')" using compiled_at_scope assms(4) by blast
  from compiled_plan [OF c] show ?thesis by simp
qed

theorem compiled_plan_sound_witness:
  "\<exists>g h. compiled_graph_at_scope g [''n''] = Inr h \<and> plan_kinds h \<and> checked_joins h \<and> timed_plan h"
proof -
  from outer_compiled obtain g outs cache h where c: "compile_graph outer_definition (\<lambda>_. None) = Some (Inr ((g, outs), cache))"
    and h: "compiled_graph_at_scope g [''n''] = Inr h" by (auto split: option.splits sum.splits prod.splits)
  from compiled_plan_sound [OF outer_coherent c h] h show ?thesis by auto
qed

end
