(* ===== verification/Spec2Isabelle.thy ===== *)
theory Spec2Isabelle
  imports Resource_Properties Reducer_Properties Config_Properties Failover_Properties Routing_Properties
    Session_Properties Engine_Properties Compiler_Properties
begin

text \<open>
  Verification of the execution kernel of Mote (\<open>src/mote-kernel/src/mote_kernel\<close>; the paths
  below are relative to it).

  \<^bold>\<open>The program.\<close> The kernel runs an agent as a family of graph runs. A graph run is a value
  (\<open>GraphRunState\<close>) that only the pure reducer \<open>reduce_graph_run\<close> changes, one command at a time:
  start, claim the frontier, settle a node, resume interrupted nodes, fence an execution, advance
  the frontier, complete, abort. Around it the engine plans the tasks of the current frontier,
  admits them against exclusive resources, claims an execution lease, runs node bodies in a
  bounded task pool, settles their results, routes the settled frontier to the next one and
  hands every step to the caller's commit port. Node values live in an immutable index of frames.
  A Config snapshot travels with the run, and failover retries one external call within budgets.

  \<^bold>\<open>Conventions.\<close> Definitions are pure functions; every exception of the source is a value of
  \<open>kernel_error\<close> with its message, and a fallible operation returns \<open>'a res = kernel_error + 'a\<close>.
  Frozen dataclasses are datatypes or records; a \<open>__post_init__\<close> that raises is a checked
  constructor \<open>mk_T\<close> (or a \<open>T_post_init\<close>). Python integers are \<open>int\<close>, strings are strings of
  characters below 256, tuples are lists, dictionaries whose order is observable are association
  lists. The model is typed, so dynamic type checks that a well-typed value always passes are not
  repeated; seals and object identity are not values. Finite floats are rationals. SHA-256, node
  bodies, codecs, Ports, commit and snapshot stores are parameters.

  \<^bold>\<open>Shared layer.\<close> \<open>Kernel_Prelude\<close>: the error monad, checked loops, canonical tuples, decimal
  numerals, \<open>repr\<close> of strings, the \<open>resE\<close> collection of inversion rules. \<open>Graph_Identity\<close>
  (\<open>state/graph_state/identity.py\<close>): identities, their order and their injective key encodings.

  \<^bold>\<open>Resources\<close> (\<open>state/graph_state/resource_*.py\<close>). \<open>Resource_Reducer\<close> models validation,
  acquisition and release. \<open>Resource_Spec\<close> gives the abstract assignment (a greedy pass over the
  requests in order) and shows that validation accepts exactly its image; \<open>Resource_Properties\<close>
  derives mutual exclusion in request order, absence of deadlock, totality of acquisition and the
  exact effect of a release.

  \<^bold>\<open>Graph-run state\<close> (the other modules of \<open>state/graph_state\<close>). \<open>Graph_Model\<close> (records, unions,
  commands), \<open>State_Validation\<close> (every check in source order), \<open>Graph_Transitions\<close> and
  \<open>Graph_Reducer\<close> (the transitions, dispatch and confirmation). \<open>State_Invariant\<close> states the
  declarative invariant \<open>wf_state\<close> and its equivalence with validation. \<open>Reducer_Steps\<close> has the
  invariants common to all commands and the locale \<open>leased_machine\<close>, interpreted on the reducer;
  \<open>Reducer_Enabled\<close>, \<open>Reducer_Settle\<close>, \<open>Reducer_Advance\<close> show which commands are accepted (the
  re-validation of a successor adds no refusal); \<open>Reducer_Joins\<close> treats join progress,
  \<open>Reducer_History\<close> whole command sequences: the ledger of publications, leases, interrupts,
  evidence. \<open>Reducer_Sample\<close> is a concrete run; \<open>Reducer_Properties\<close> holds the properties.

  \<^bold>\<open>Config\<close> (\<open>config.py\<close>): \<open>Config_Snapshot\<close> and \<open>Config_Properties\<close>: save, load, resolve,
  bind and recover, exact in definition, version and revision.

  \<^bold>\<open>Failover\<close> (\<open>failover/\<close>): \<open>Failover_Contract\<close> (evidence, budgets, retry context),
  \<open>Failover_Policy\<close> (timing and decisions), \<open>Failover_Graph\<close> (the three nodes and the run),
  \<open>Failover_Run\<close> (its invariant). A run takes fuel, one unit per node activation;
  \<open>failover_finishes\<close> shows that \<open>2 * N + 2\<close> units are enough for a budget of \<open>N\<close> wire attempts
  when the Ports answer, and \<open>failover_bounded\<close> bounds every run.

  \<^bold>\<open>Compiled plan, frames and routing\<close> (\<open>execution/graph/topology.py\<close>, \<open>ports.py\<close>,
  \<open>execution/identity.py\<close>, \<open>execution/run_context.py\<close>, \<open>execution/engine/routing.py\<close>).
  \<open>Graph_Plan\<close> has what the engine reads of a compiled graph. \<open>Frame_Index\<close> has the four sorted
  partitions with binary-search insertion; the locale \<open>frame_store\<close> states the contract of a
  partition as a finite map and is interpreted on each of the four. \<open>Engine_Routing\<close> is the whole
  routing module; \<open>Routing_Control\<close> shows that the resolved control is a legal next frontier,
  \<open>Routed_Runs\<close> that a run which advances as the router resolves stays on the levels of its plan,
  and \<open>Routing_Properties\<close> that the reducer accepts every routed command.

  \<^bold>\<open>Values\<close> (\<open>session.py\<close>, \<open>execution/graph/values.py\<close>, \<open>outcome.py\<close>, \<open>codec.py\<close>).
  \<open>Agent_Session\<close> models sessions and their codec, \<open>Graph_Values\<close> named values, the four kinds
  of frames with their admission, node outcomes and the resume-input codec. The class of a value
  and the set of nominal types are parameters (\<open>value_env\<close>).

  \<^bold>\<open>The engine around one frontier\<close> (\<open>execution/engine\<close>, \<open>execution/commit.py\<close>, \<open>claim.py\<close>,
  \<open>result.py\<close>, \<open>request.py\<close>, \<open>executor.py\<close>). \<open>Engine_Tasks\<close>: limits, tasks, the guard of a state
  against its graph, planning, resource admission, selection and settlement. \<open>Node_Input\<close>: where a
  node's input comes from, its Config, graph outputs, and the preparation of a resume.
  \<open>Engine_Commit\<close>: transitions with their write sets, confirmation, installation of frames.
  \<open>Engine_Frontier\<close>: child projections, claims, the disposition of a superstep.
  \<open>Engine_Session\<close>: projection of node outcomes, the task pool, and the execution session.

  \<^bold>\<open>Asynchrony.\<close> A session's \<open>next\<close> is a coroutine with two suspension points. The model cuts it
  there: \<open>session_next\<close>, \<open>resume_wait\<close> and \<open>resume_sleep\<close> are the atomic sections between
  them, and \<open>session_step\<close> interleaves them with finishing tasks (in any order and any batches,
  with any node behaviour: a value, an exception, a cancellation), caller cancellation and
  \<open>aclose\<close>. \<open>session_reaches\<close> is its closure, so a theorem over it holds for all schedules.
  \<open>Session_Invariant\<close> shows the pool invariant, \<open>Session_Progress\<close> the accounting of pending
  nodes that excludes deadlock; \<open>Claim_Flow\<close> composes preparation, reducer and session issue;
  \<open>Commit_Flow\<close> composes settlement, commit and frame installation over runs of commits.
  \<open>Engine_Sample\<close> is the concrete graph of the witnesses; \<open>Session_Properties\<close> and
  \<open>Engine_Properties\<close> hold the properties.

  \<^bold>\<open>Graph definitions and the compiler\<close> (\<open>execution/graph/definition.py\<close>, \<open>edge.py\<close>,
  \<open>validation.py\<close>, \<open>compiler.py\<close>). \<open>Graph_Definition\<close> has definitions, edges and the recursive
  validation of a family. \<open>Graph_Search\<close> has the compiler's graph algorithms as loops
  (\<open>while_option\<close>, where \<open>None\<close> would be a loop that never ends); \<open>Search_Correct\<close> and
  \<open>Search_Levels\<close> show that each ends on a closed successor relation and computes its declarative
  meaning: reachability, control cycles, guaranteed predecessors, activation levels, dependency
  order, data cycles. \<open>Graph_Compiler\<close> and \<open>Graph_Assembly\<close> are the rest of the module: source
  resolution, route requirements, joins and their offsets, lowering, the stages of
  \<open>_compile_definition\<close>, and the family compiler with its cache. Where the source iterates over a
  set only to find a first error, the model takes the sorted order.

  \<^bold>\<open>The symbolic frontier proof\<close> (\<open>execution/graph/frontier_proof.py\<close>). \<open>Bdd_Manager\<close> is the
  manager of decision diagrams with its unique table, caches and explicit stacks,
  \<open>Frontier_Relation\<close> the symbolic transition relation, its fixed point and the completion
  routes. \<open>Bdd_Semantics\<close> and \<open>Bdd_Correct\<close> give diagrams their meaning and show that every
  operation computes it on canonical tables; the locale \<open>traversal\<close> of \<open>Bdd_Traversal\<close> proves the
  memoised stack traversal once and is interpreted for negation, quantification and renaming.
  \<open>Frontier_Spec\<close> is the explicit frontier step system; \<open>Frontier_Layout\<close>, \<open>Frontier_Meaning\<close>,
  \<open>Frontier_Causes\<close>, \<open>Frontier_Build\<close>, \<open>Frontier_Steps\<close>, \<open>Frontier_Exact\<close> and \<open>Frontier_Proof\<close>
  show that the symbolic computation ends and is exact for it: the routes it returns are the
  routes the explicit system can expose.

  \<^bold>\<open>Correctness of the compiler.\<close> \<open>Compiler_Edges\<close> (what the lowering of validated edges contains),
  \<open>Compiler_Resolved\<close> (well-formed resolved definitions), \<open>Compiler_Analysis\<close> (every stage of the
  analysis ends, and what its result means), \<open>Compiler_Plan\<close> (the tables of the plan describe the
  analysed topology) and \<open>Compiler_Family\<close> (validation and compilation of whole families with
  their cache). \<open>Compiler_Properties\<close>: the compiler always returns, its completion routes are
  exact, and its plans satisfy what the engine assumes. Two hypotheses stand for Python: a number
  that identifies a definition object stands for one definition (\<open>coherent\<close>), and a \<open>frozenset\<close> of
  exported routes is finite (\<open>finite_definition\<close>).

  \<^bold>\<open>Hypotheses on the compiled graph.\<close> The session properties assume \<open>plan_kinds\<close> (the nested graphs
  of the plan are exactly its nested nodes), the routing properties \<open>checked_joins\<close> (the
  constructors of the plan's joins accept them) and \<open>timed_plan\<close> (a join waits one step for all its
  sources, or each source has one activation level); \<open>compiled_plan_sound\<close> proves all three of
  every compiled plan.

  \<^bold>\<open>What the proofs show about the code.\<close> A release can be refused although its node is admitted,
  because the final validation replays the remaining requests and a woken waiter can overtake a
  later owner in the replay (\<open>resource_reducer.py\<close>); \<open>settle_blocked_by_release\<close> follows it to a
  settlement that the reducer refuses.

  \<^bold>\<open>Not modelled.\<close> Recovery of a family and persistence records; the callable protocols and typed
  input views of \<open>execution/graph/node.py\<close>; the facade and the family driver (asynchronous orchestration over
  ports); resource bindings; hooks, act, think, observe and loop (nodes over external ports);
  events, logging, observability; the composition root. The other subprojects are infrastructure
  or other languages.
\<close>

end
